(* ===== verification/Vps_Prelude.thy ===== *)
theory Vps_Prelude
  imports "HOL-Library.Word" "HOL-Library.Multiset"
begin

text \<open>
  Shared vocabulary of the development: the machine integers of the C sources, the reading of
  C strings, the theorem collections, and the generic lemmas on lists, options and words that
  the component theories use.

  Conventions used by every component theory.
  \<^item> \<open>uint8_t\<close>, \<open>uint16_t\<close>, \<open>uint32_t\<close>, \<open>uint64_t\<close> are words of that width, so that addition wraps
    as in C. \<open>size_t\<close> is a 64-bit word: the model follows the Win64 build.
  \<^item> A pointer that the code compares with \<open>NULL\<close> is an \<open>option\<close>; the value under \<open>Some\<close> is the
    object it points to. An operation that writes through such a pointer returns the new object.
    In the memory and logging layers the object an operation works on is always an existing one
    (a local or a member of another object), and is passed by value.
  \<^item> A C enumeration is a datatype with the source's constructor names. Where the code handles a
    value outside the enumeration, the datatype has one further constructor that holds it.
  \<^item> A \<open>const char *\<close> string is the list of its characters up to the terminating NUL; reading past
    the end of the list gives the NUL (\<open>c_at\<close>). A pointer with an explicit length is the list of
    the characters of the span.
\<close>

unbundle bit_operations_syntax

type_synonym u8 = "8 word"
type_synonym u16 = "16 word"
type_synonym u32 = "32 word"
type_synonym u64 = "64 word"
type_synonym size_t = "64 word"

abbreviation (input) UINT64_MAX :: u64 where "UINT64_MAX \<equiv> - 1"
abbreviation (input) SIZE_MAX :: size_t where "SIZE_MAX \<equiv> - 1"

named_theorems vps_defs \<open>definitions of small predicates that automation unfolds\<close>
named_theorems vps_frame \<open>what an operation leaves unchanged\<close>

subsection \<open>C strings\<close>

abbreviation (input) NUL :: char where "NUL \<equiv> CHR 0x00"

definition c_at :: "string \<Rightarrow> nat \<Rightarrow> char" where
  "c_at s i = (if i < length s then s ! i else NUL)"

definition char_between :: "char \<Rightarrow> char \<Rightarrow> char \<Rightarrow> bool" where
  "char_between lo hi c \<longleftrightarrow> (of_char lo :: nat) \<le> of_char c \<and> (of_char c :: nat) \<le> of_char hi"

lemma char_between_not_NUL [simp]: "\<not> char_between (CHR ''0'') hi NUL"
  "\<not> char_between (CHR ''A'') hi NUL" "\<not> char_between (CHR ''a'') hi NUL"
  by (simp_all add: char_between_def)

text \<open>The character classes of \<open>ctype.h\<close> in the C locale, and the numeric value of a character as an
  unsigned byte.\<close>

abbreviation char_code :: "char \<Rightarrow> nat" where "char_code c \<equiv> of_char c"

definition c_isspace :: "char \<Rightarrow> bool" where
  "c_isspace c \<longleftrightarrow> char_code c = 0x20 \<or> (0x09 \<le> char_code c \<and> char_code c \<le> 0x0d)"

definition c_isdigit :: "char \<Rightarrow> bool" where
  "c_isdigit c \<longleftrightarrow> char_between (CHR ''0'') (CHR ''9'') c"

definition c_isalpha :: "char \<Rightarrow> bool" where
  "c_isalpha c \<longleftrightarrow> char_between (CHR ''A'') (CHR ''Z'') c \<or> char_between (CHR ''a'') (CHR ''z'') c"

definition c_isalnum :: "char \<Rightarrow> bool" where
  "c_isalnum c \<longleftrightarrow> c_isalpha c \<or> c_isdigit c"

definition c_tolower :: "char \<Rightarrow> char" where
  "c_tolower c = (if char_between (CHR ''A'') (CHR ''Z'') c then char_of (char_code c + 32) else c)"

text \<open>A loop over the indices of a fixed-size string followed by a test for the terminator
  accepts exactly the strings of that length whose characters all pass the test.\<close>

lemma c_at_all_terminated:
  assumes "\<not> P NUL" and "NUL \<notin> set s"
  shows "((\<forall>i<n. P (c_at s i)) \<and> c_at s n = NUL) \<longleftrightarrow> length s = n \<and> (\<forall>c\<in>set s. P c)"
proof -
  have "n \<le> length s" if "\<forall>i<n. P (c_at s i)"
  proof (rule ccontr)
    assume "\<not> n \<le> length s"
    with that have "P (c_at s (length s))" by simp
    with assms(1) show False by (simp add: c_at_def)
  qed
  moreover have "c_at s n = NUL \<longleftrightarrow> length s \<le> n"
    unfolding c_at_def using assms(2) by (metis nth_mem not_le)
  moreover have "P (c_at s i) \<longleftrightarrow> P (s ! i)" if "i < length s" for i
    using that by (simp add: c_at_def)
  ultimately show ?thesis
    by (metis all_set_conv_all_nth le_antisym order_refl)
qed

text \<open>A byte of memory holds a character; a C string in memory is read up to its first NUL byte.\<close>

definition char_byte :: "char \<Rightarrow> u8" where
  "char_byte c = word_of_nat (of_char c)"

definition byte_char :: "u8 \<Rightarrow> char" where
  "byte_char b = char_of (unat b)"

definition c_string :: "u8 list \<Rightarrow> string" where
  "c_string bytes = map byte_char (takeWhile (\<lambda>b. b \<noteq> 0) bytes)"

definition c_bytes :: "string \<Rightarrow> u8 list" where
  "c_bytes s = map char_byte s @ [0]"

lemma byte_char_byte [simp]: "byte_char (char_byte c) = c"
proof -
  have "(of_char c :: nat) < 256" by (rule nat_of_char_less_256)
  then have "unat (word_of_nat (of_char c) :: u8) = of_char c"
    by (simp add: unsigned_of_nat take_bit_nat_eq_self)
  then show ?thesis by (simp add: byte_char_def char_byte_def)
qed

lemma char_byte_zero [simp]: "char_byte c = 0 \<longleftrightarrow> c = NUL"
proof
  assume "char_byte c = 0"
  moreover have "byte_char 0 = NUL" by (simp add: byte_char_def char_of_def)
  ultimately show "c = NUL" by (metis byte_char_byte)
qed (simp add: char_byte_def)

lemma length_c_bytes [simp]: "length (c_bytes s) = Suc (length s)"
  by (simp add: c_bytes_def)

lemma c_string_bytes [simp]: "NUL \<notin> set s \<Longrightarrow> c_string (c_bytes s) = s"
  by (induction s) (auto simp: c_string_def c_bytes_def)

subsection \<open>Words\<close>

lemma no_wrap_iff:
  fixes a b :: "'a::len word"
  shows "b \<le> - 1 - a \<longleftrightarrow> unat a + unat b < 2 ^ LENGTH('a)"
proof -
  have m: "unat (- 1 :: 'a word) = 2 ^ LENGTH('a) - 1"
    by (simp add: unsigned_minus_1_eq_mask mask_eq_exp_minus_1)
  have s: "unat (- 1 - a) = 2 ^ LENGTH('a) - 1 - unat a"
    by (simp add: unat_sub m)
  have "unat a < 2 ^ LENGTH('a)"
    by (rule unsigned_less)
  then show ?thesis
    unfolding word_le_nat_alt s by linarith
qed

lemma unat_add_no_wrap:
  fixes a b :: "'a::len word"
  assumes "b \<le> - 1 - a"
  shows "unat (a + b) = unat a + unat b"
  using assms by (simp add: no_wrap_iff unat_word_ariths)

lemma word_of_unat: "unat (x :: 'a::len word) = n \<Longrightarrow> x = of_nat n"
  by auto

lemma unat_Suc_no_wrap:
  fixes a :: "'a::len word"
  assumes "a \<noteq> - 1"
  shows "unat (a + 1) = unat a + 1"
proof -
  have m: "unat (- 1 :: 'a word) = 2 ^ LENGTH('a) - 1"
    by (simp add: unsigned_minus_1_eq_mask mask_eq_exp_minus_1)
  have "unat a < 2 ^ LENGTH('a)" by (rule unsigned_less)
  moreover have "unat a \<noteq> 2 ^ LENGTH('a) - 1"
    using assms by (metis m word_unat_eq_iff)
  ultimately have "unat a + 1 < 2 ^ LENGTH('a)" by linarith
  then show ?thesis by (simp add: unat_word_ariths)
qed

lemma unat_small_nat [simp]: "n < 2 ^ LENGTH('a) \<Longrightarrow> unat (of_nat n :: 'a::len word) = n"
  by (simp add: unsigned_of_nat take_bit_nat_eq_self)

lemma unat_ucast_small:
  fixes x :: "'a::len word"
  shows "unat x < 2 ^ LENGTH('b) \<Longrightarrow> unat (ucast x :: 'b::len word) = unat x"
  by (simp add: unsigned_ucast_eq take_bit_nat_eq_self)

lemma unat_pred:
  fixes x :: "'a::len word"
  assumes "x \<noteq> 0"
  shows "unat (x - 1) = unat x - 1"
proof -
  have "1 \<le> x" using assms by (simp add: word_le_nat_alt unat_gt_0 Suc_le_eq)
  then show ?thesis by (simp add: unat_sub)
qed

lemma sint_small:
  fixes x :: "'a::len word"
  assumes "unat x < 2 ^ (LENGTH('a) - 1)"
  shows "sint x = int (unat x)"
proof -
  have "int (unat x) < int (2 ^ (LENGTH('a) - 1))" using assms by (simp only: of_nat_less_iff)
  then have "uint x < 2 ^ (LENGTH('a) - 1)" by simp
  moreover have "- (2 ^ (LENGTH('a) - 1)) \<le> uint x" by (rule order_trans [of _ 0]) auto
  ultimately show ?thesis
    unfolding sint_uint by (subst signed_take_bit_int_eq_self) auto
qed

lemma sint_small_bounds:
  fixes x :: "'a::len word"
  assumes "unat x < n" and "n \<le> 2 ^ (LENGTH('a) - 1)"
  shows "sint x < int n" and "0 \<le> sint x"
proof -
  have "sint x = int (unat x)" using assms by (intro sint_small) simp
  then show "sint x < int n" "0 \<le> sint x"
    using assms(1) by (simp_all only: of_nat_less_iff of_nat_0_le_iff)
qed

lemma unat_not_max:
  fixes x :: "'a::len word"
  shows "unat x < 2 ^ LENGTH('a) - 1 \<Longrightarrow> x \<noteq> - 1"
  by (auto simp: unsigned_minus_1_eq_mask mask_eq_exp_minus_1)

subsection \<open>Lists\<close>

lemma list_ex_upt_iff: "list_ex P [a..<b] \<longleftrightarrow> (\<exists>i. a \<le> i \<and> i < b \<and> P i)"
  by (auto simp: list_ex_iff)

lemma list_all_upt_iff: "list_all P [a..<b] \<longleftrightarrow> (\<forall>i. a \<le> i \<and> i < b \<longrightarrow> P i)"
  by (auto simp: list_all_iff)

lemma in_set_take_iff: "n \<le> length xs \<Longrightarrow> x \<in> set (take n xs) \<longleftrightarrow> (\<exists>i<n. xs ! i = x)"
  by (auto simp: in_set_conv_nth)

lemma take_Suc_update: "n < length xs \<Longrightarrow> take (Suc n) (xs[n := v]) = take n xs @ [v]"
  by (simp add: take_Suc_conv_app_nth)

lemma find_index:
  assumes "n \<le> length xs"
  shows "find (\<lambda>i. xs ! i = l) [0..<n] =
    (if l \<in> set (take n xs) then Some (length (takeWhile (\<lambda>x. x \<noteq> l) (take n xs))) else None)"
  using assms
proof (induction n)
  case (Suc n)
  have f: "find P (ys @ zs) = (case find P ys of None \<Rightarrow> find P zs | Some y \<Rightarrow> Some y)" for P :: "nat \<Rightarrow> bool" and ys zs
    by (induction ys) auto
  have w: "l \<notin> set ys \<Longrightarrow> length (takeWhile (\<lambda>x. x \<noteq> l) ys) = length ys" for ys
    by (induction ys) auto
  show ?case
    using Suc w [of "take n xs"] by (auto simp: f take_Suc_conv_app_nth takeWhile_tail)
qed simp

lemma take_index:
  assumes "n \<le> length xs" and "l \<in> set (take n xs)"
  shows "length (takeWhile (\<lambda>x. x \<noteq> l) (take n xs)) < n"
    and "take (length (takeWhile (\<lambda>x. x \<noteq> l) (take n xs))) xs = takeWhile (\<lambda>x. x \<noteq> l) (take n xs)"
    and "take (Suc (length (takeWhile (\<lambda>x. x \<noteq> l) (take n xs)))) xs = takeWhile (\<lambda>x. x \<noteq> l) (take n xs) @ [l]"
proof -
  let ?k = "length (takeWhile (\<lambda>x. x \<noteq> l) (take n xs))"
  have less: "l \<in> set ys \<Longrightarrow> length (takeWhile (\<lambda>x. x \<noteq> l) ys) < length ys" for ys
    by (induction ys) auto
  have "?k < length (take n xs)"
    by (rule less [OF assms(2)])
  then show k: "?k < n" using assms(1) by simp
  have "take ?k (take n xs) = takeWhile (\<lambda>x. x \<noteq> l) (take n xs)"
    by (metis takeWhile_eq_take)
  then show t: "take ?k xs = takeWhile (\<lambda>x. x \<noteq> l) (take n xs)" using k by (simp add: min_def)
  have "take n xs ! ?k = l" using nth_length_takeWhile [OF \<open>?k < length (take n xs)\<close>] by simp
  then have "xs ! ?k = l" using k by simp
  then show "take (Suc ?k) xs = takeWhile (\<lambda>x. x \<noteq> l) (take n xs) @ [l]"
    using t k assms(1) by (simp add: take_Suc_conv_app_nth)
qed

subsection \<open>Machines and meters\<close>

text \<open>A component whose operations all keep an invariant keeps it over every sequence of calls. The
  components interpret this contract with their own operations as the steps.\<close>

locale guarded_machine =
  fixes step :: "'s \<Rightarrow> 'e \<Rightarrow> 's"
    and allowed :: "'e \<Rightarrow> bool"
    and inv :: "'s \<Rightarrow> bool"
  assumes step_inv: "inv s \<Longrightarrow> allowed e \<Longrightarrow> inv (step s e)"
begin

lemma run_inv: "inv s \<Longrightarrow> list_all allowed es \<Longrightarrow> inv (foldl step s es)"
  by (induction es arbitrary: s) (auto intro: step_inv)

lemma run_prefix_inv: "inv s \<Longrightarrow> list_all allowed es \<Longrightarrow> inv (foldl step s (take n es))"
  by (rule run_inv) (auto simp: list_all_iff dest: in_set_takeD)

end

text \<open>A meter counts rows and bytes against limits and refuses the row that would exceed them.\<close>

fun meter_run :: "('s \<Rightarrow> 'e \<Rightarrow> 's option) \<Rightarrow> 's \<Rightarrow> 'e list \<Rightarrow> 's option" where
  "meter_run observe s [] = Some s"
| "meter_run observe s (e # es) =
     (case observe s e of None \<Rightarrow> None | Some s' \<Rightarrow> meter_run observe s' es)"

locale row_meter =
  fixes observe :: "'s \<Rightarrow> 'e \<Rightarrow> 's option"
    and row_size :: "'e \<Rightarrow> u64"
    and rows :: "'s \<Rightarrow> u64"
    and bytes :: "'s \<Rightarrow> u64"
    and max_rows :: "'s \<Rightarrow> u64"
    and max_bytes :: "'s \<Rightarrow> u64"
  assumes accepted: "observe s e = Some s' \<Longrightarrow>
      unat (rows s') = unat (rows s) + 1 \<and> unat (bytes s') = unat (bytes s) + unat (row_size e) \<and>
      rows s' \<le> max_rows s \<and> bytes s' \<le> max_bytes s \<and>
      max_rows s' = max_rows s \<and> max_bytes s' = max_bytes s"
begin

lemma run_counts:
  "meter_run observe s es = Some s' \<Longrightarrow>
     unat (rows s') = unat (rows s) + length es \<and>
     unat (bytes s') = unat (bytes s) + sum_list (map (unat \<circ> row_size) es) \<and>
     max_rows s' = max_rows s \<and> max_bytes s' = max_bytes s"
proof (induction es arbitrary: s)
  case (Cons e es)
  then obtain s1 where s1: "observe s e = Some s1" and run: "meter_run observe s1 es = Some s'"
    by (auto split: option.splits)
  from Cons.IH [OF run] accepted [OF s1] show ?case by simp
qed simp

lemma run_within_limits:
  "meter_run observe s es = Some s' \<Longrightarrow> rows s \<le> max_rows s \<Longrightarrow> bytes s \<le> max_bytes s \<Longrightarrow>
     rows s' \<le> max_rows s \<and> bytes s' \<le> max_bytes s"
proof (induction es arbitrary: s)
  case (Cons e es)
  then obtain s1 where s1: "observe s e = Some s1" and run: "meter_run observe s1 es = Some s'"
    by (auto split: option.splits)
  from Cons.IH [OF run] accepted [OF s1] show ?case by simp
qed simp

end

end
