(* ===== verification/Vps_Logging.thy ===== *)
theory Vps_Logging
  imports Vps_Prelude
begin

text \<open>
  The structured logger of \<open>src/src/vps_logging.c\<close>: events made of whitelisted fields, the
  redaction of sensitive values, the sanitiser of backend messages, and the emission with its
  counters. The model follows the release build, in which \<open>VPS_DEBUG\<close> is not defined: raw SQL
  text is never accepted as a field.

  An event's \<open>fields\<close> array with its \<open>field_count\<close> is the list of the fields in use. The data
  pointer and length of a string field are one value: the static \<open>[redacted]\<close> constant (the code
  recognises it by its address), a caller's span, or \<open>NULL\<close>. The sink is the host's code: a
  function of its context and the event that returns its status, its new context and the events
  it tries to emit re-entrantly while it runs.
\<close>

section \<open>Data\<close>

datatype VpsLogLevel =
    VPS_LOG_LEVEL_DEBUG
  | VPS_LOG_LEVEL_INFO
  | VPS_LOG_LEVEL_WARN
  | VPS_LOG_LEVEL_ERROR
  | VPS_LOG_LEVEL_OFF
  | VPS_LOG_LEVEL_OUT_OF_RANGE int

datatype VpsLogResult =
    VPS_LOG_OK
  | VPS_LOG_REDACTED
  | VPS_LOG_INVALID_ARGUMENT
  | VPS_LOG_LIMIT_EXCEEDED
  | VPS_LOG_DUPLICATE_FIELD
  | VPS_LOG_MALFORMED_VALUE

datatype (plugins only: code) VpsLogFieldKey =
    VPS_LOG_FIELD_OPERATION
  | VPS_LOG_FIELD_PHASE
  | VPS_LOG_FIELD_DURATION_MS
  | VPS_LOG_FIELD_ROW_COUNT
  | VPS_LOG_FIELD_BYTE_COUNT
  | VPS_LOG_FIELD_SQLSTATE
  | VPS_LOG_FIELD_ERROR_CLASS
  | VPS_LOG_FIELD_PROFILE
  | VPS_LOG_FIELD_SERVICE
  | VPS_LOG_FIELD_CONNECTION_FINGERPRINT
  | VPS_LOG_FIELD_QUERY_FINGERPRINT
  | VPS_LOG_FIELD_POOL_ACTIVE
  | VPS_LOG_FIELD_POOL_IDLE
  | VPS_LOG_FIELD_POOL_WAITING
  | VPS_LOG_FIELD_PARTICIPANT_COUNT
  | VPS_LOG_FIELD_SNAPSHOT_MODE
  | VPS_LOG_FIELD_ARCHITECTURE
  | VPS_LOG_FIELD_VERSION
  | VPS_LOG_FIELD_STATUS
  | VPS_LOG_FIELD_SIZE_CLASS
  | VPS_LOG_FIELD_ARGUMENT
  | VPS_LOG_FIELD_PRESENCE_MASK
  | VPS_LOG_FIELD_PROVIDER_ID
  | VPS_LOG_FIELD_GENERATION
  | VPS_LOG_FIELD_CONFIGURATION_GENERATION
  | VPS_LOG_FIELD_TLS_MODE
  | VPS_LOG_FIELD_SSL_IN_USE
  | VPS_LOG_FIELD_CERTIFICATE_STATUS
  | VPS_LOG_FIELD_CHANNEL_BINDING_STATUS
  | VPS_LOG_FIELD_PARAMETER
  | VPS_LOG_FIELD_EXPECTED_CLASS
  | VPS_LOG_FIELD_POLL_COUNT
  | VPS_LOG_FIELD_WAIT_COUNT
  | VPS_LOG_FIELD_PARAMETER_COUNT
  | VPS_LOG_FIELD_RESULT_FIELD_COUNT
  | VPS_LOG_FIELD_RETRY_ATTEMPT
  | VPS_LOG_FIELD_BACKOFF_MS
  | VPS_LOG_FIELD_PRIMARY_MESSAGE
  | VPS_LOG_FIELD_SQL_TEXT
  | VPS_LOG_FIELD_TYPE_OID
  | VPS_LOG_FIELD_RELATION_OID
  | VPS_LOG_FIELD_NAMESPACE_OID
  | VPS_LOG_FIELD_INDEX_OID
  | VPS_LOG_FIELD_CODEC_ID
  | VPS_LOG_FIELD_KEY_COUNT
  | VPS_LOG_FIELD_FLAGS
  | VPS_LOG_FIELD_CHANGE_CLASS
  | VPS_LOG_FIELD_FORMAT_VERSION
  | VPS_LOG_FIELD_OUT_OF_RANGE int

datatype VpsLogString = LogNull | LogRedactedConstant | LogSpan string

datatype VpsLogValue =
    LogStringValue VpsLogString
  | LogUint64Value u64
  | LogUnknownType int

record VpsLogField =
  field_key :: VpsLogFieldKey
  field_redacted :: bool
  field_value :: VpsLogValue

record VpsLogEvent =
  event_level :: VpsLogLevel
  event_fields :: "VpsLogField list"
  event_redacted_count :: nat

record 'c VpsLogger =
  logger_level :: VpsLogLevel
  logger_sink :: "('c \<Rightarrow> VpsLogEvent \<Rightarrow> int \<times> 'c \<times> VpsLogEvent list) option"
  logger_context :: 'c
  logger_in_sink :: bool
  logger_emitted :: u64
  logger_filtered :: u64
  logger_invalid :: u64
  logger_reentrant :: u64
  logger_sink_failures :: u64

abbreviation (input) VPS_LOG_MAX_FIELDS :: nat where "VPS_LOG_MAX_FIELDS \<equiv> 16"
abbreviation (input) VPS_LOG_MAX_STRING_LENGTH :: nat where "VPS_LOG_MAX_STRING_LENGTH \<equiv> 128"
abbreviation (input) VPS_LOG_MAX_SQL_TEXT_LENGTH :: nat where "VPS_LOG_MAX_SQL_TEXT_LENGTH \<equiv> 4096"

section \<open>Validity of keys and values\<close>

fun vps_log_level_code :: "VpsLogLevel \<Rightarrow> int" where
  "vps_log_level_code VPS_LOG_LEVEL_DEBUG = 0"
| "vps_log_level_code VPS_LOG_LEVEL_INFO = 1"
| "vps_log_level_code VPS_LOG_LEVEL_WARN = 2"
| "vps_log_level_code VPS_LOG_LEVEL_ERROR = 3"
| "vps_log_level_code VPS_LOG_LEVEL_OFF = 4"
| "vps_log_level_code (VPS_LOG_LEVEL_OUT_OF_RANGE n) = (if n < 0 then n else n + 5)"

definition vps_log_level_is_valid :: "VpsLogLevel \<Rightarrow> bool" where
  "vps_log_level_is_valid level \<longleftrightarrow> 0 \<le> vps_log_level_code level \<and> vps_log_level_code level \<le> 4"

definition vps_log_event_level_is_valid :: "VpsLogLevel \<Rightarrow> bool" where
  "vps_log_event_level_is_valid level \<longleftrightarrow>
     0 \<le> vps_log_level_code level \<and> vps_log_level_code level \<le> 3"

definition vps_log_field_key_is_valid :: "VpsLogFieldKey \<Rightarrow> bool" where
  "vps_log_field_key_is_valid key = (case key of VPS_LOG_FIELD_OUT_OF_RANGE _ \<Rightarrow> False | _ \<Rightarrow> True)"

definition vps_log_field_requires_string :: "VpsLogFieldKey \<Rightarrow> bool" where
  "vps_log_field_requires_string key =
     (case key of
        VPS_LOG_FIELD_OPERATION \<Rightarrow> True
      | VPS_LOG_FIELD_PHASE \<Rightarrow> True
      | VPS_LOG_FIELD_SQLSTATE \<Rightarrow> True
      | VPS_LOG_FIELD_ERROR_CLASS \<Rightarrow> True
      | VPS_LOG_FIELD_PROFILE \<Rightarrow> True
      | VPS_LOG_FIELD_SERVICE \<Rightarrow> True
      | VPS_LOG_FIELD_CONNECTION_FINGERPRINT \<Rightarrow> True
      | VPS_LOG_FIELD_QUERY_FINGERPRINT \<Rightarrow> True
      | VPS_LOG_FIELD_SNAPSHOT_MODE \<Rightarrow> True
      | VPS_LOG_FIELD_ARCHITECTURE \<Rightarrow> True
      | VPS_LOG_FIELD_VERSION \<Rightarrow> True
      | VPS_LOG_FIELD_STATUS \<Rightarrow> True
      | VPS_LOG_FIELD_SIZE_CLASS \<Rightarrow> True
      | VPS_LOG_FIELD_ARGUMENT \<Rightarrow> True
      | VPS_LOG_FIELD_TLS_MODE \<Rightarrow> True
      | VPS_LOG_FIELD_CERTIFICATE_STATUS \<Rightarrow> True
      | VPS_LOG_FIELD_CHANNEL_BINDING_STATUS \<Rightarrow> True
      | VPS_LOG_FIELD_PARAMETER \<Rightarrow> True
      | VPS_LOG_FIELD_EXPECTED_CLASS \<Rightarrow> True
      | VPS_LOG_FIELD_PRIMARY_MESSAGE \<Rightarrow> True
      | VPS_LOG_FIELD_CHANGE_CLASS \<Rightarrow> True
      | _ \<Rightarrow> False)"

definition vps_log_field_requires_uint64 :: "VpsLogFieldKey \<Rightarrow> bool" where
  "vps_log_field_requires_uint64 key =
     (case key of
        VPS_LOG_FIELD_DURATION_MS \<Rightarrow> True
      | VPS_LOG_FIELD_ROW_COUNT \<Rightarrow> True
      | VPS_LOG_FIELD_BYTE_COUNT \<Rightarrow> True
      | VPS_LOG_FIELD_POOL_ACTIVE \<Rightarrow> True
      | VPS_LOG_FIELD_POOL_IDLE \<Rightarrow> True
      | VPS_LOG_FIELD_POOL_WAITING \<Rightarrow> True
      | VPS_LOG_FIELD_PARTICIPANT_COUNT \<Rightarrow> True
      | VPS_LOG_FIELD_PRESENCE_MASK \<Rightarrow> True
      | VPS_LOG_FIELD_PROVIDER_ID \<Rightarrow> True
      | VPS_LOG_FIELD_GENERATION \<Rightarrow> True
      | VPS_LOG_FIELD_CONFIGURATION_GENERATION \<Rightarrow> True
      | VPS_LOG_FIELD_SSL_IN_USE \<Rightarrow> True
      | VPS_LOG_FIELD_POLL_COUNT \<Rightarrow> True
      | VPS_LOG_FIELD_WAIT_COUNT \<Rightarrow> True
      | VPS_LOG_FIELD_PARAMETER_COUNT \<Rightarrow> True
      | VPS_LOG_FIELD_RESULT_FIELD_COUNT \<Rightarrow> True
      | VPS_LOG_FIELD_RETRY_ATTEMPT \<Rightarrow> True
      | VPS_LOG_FIELD_BACKOFF_MS \<Rightarrow> True
      | VPS_LOG_FIELD_TYPE_OID \<Rightarrow> True
      | VPS_LOG_FIELD_RELATION_OID \<Rightarrow> True
      | VPS_LOG_FIELD_NAMESPACE_OID \<Rightarrow> True
      | VPS_LOG_FIELD_INDEX_OID \<Rightarrow> True
      | VPS_LOG_FIELD_CODEC_ID \<Rightarrow> True
      | VPS_LOG_FIELD_KEY_COUNT \<Rightarrow> True
      | VPS_LOG_FIELD_FLAGS \<Rightarrow> True
      | VPS_LOG_FIELD_FORMAT_VERSION \<Rightarrow> True
      | _ \<Rightarrow> False)"

definition vps_log_ascii_lower :: "char \<Rightarrow> char" where
  "vps_log_ascii_lower value =
     (if char_between (CHR ''A'') (CHR ''Z'') value
      then char_of ((of_char value :: nat) - of_char (CHR ''A'') + of_char (CHR ''a''))
      else value)"

definition vps_log_contains_token :: "string \<Rightarrow> string \<Rightarrow> bool" where
  "vps_log_contains_token value token =
     (if length token > length value then False
      else list_ex
        (\<lambda>start. list_all
          (\<lambda>offset. vps_log_ascii_lower (value ! (start + offset)) = token ! offset)
          [0..<length token])
        [0..<Suc (length value - length token)])"

definition vps_log_sensitive_tokens :: "string list" where
  "vps_log_sensitive_tokens =
     [''password'', ''passwd'', ''token'', ''secret'', ''privatekey'', ''private_key'',
      ''connstr'', ''conninfo'', ''authorization'', ''bearer'', ''certificate'', ''wkt'', ''wkb'']"

definition vps_log_value_is_sensitive :: "string \<Rightarrow> bool" where
  "vps_log_value_is_sensitive value = list_ex (vps_log_contains_token value) vps_log_sensitive_tokens"

definition vps_log_safe_char :: "char \<Rightarrow> bool" where
  "vps_log_safe_char current \<longleftrightarrow>
     char_between (CHR ''a'') (CHR ''z'') current \<or> char_between (CHR ''A'') (CHR ''Z'') current \<or>
     char_between (CHR ''0'') (CHR ''9'') current \<or> current = CHR ''_'' \<or> current = CHR ''-'' \<or>
     current = CHR ''.'' \<or> current = CHR '':'' \<or> current = CHR ''/'' \<or> current = CHR ''@'' \<or>
     current = CHR ''+''"

definition vps_log_value_is_safe_token :: "string \<Rightarrow> bool" where
  "vps_log_value_is_safe_token value = (if value = [] then False else list_all vps_log_safe_char value)"

definition vps_log_sqlstate_is_valid :: "string \<Rightarrow> bool" where
  "vps_log_sqlstate_is_valid value =
     (if length value \<noteq> 5 then False
      else list_all (\<lambda>c. char_between (CHR ''0'') (CHR ''9'') c \<or>
                         char_between (CHR ''A'') (CHR ''Z'') c) value)"

definition vps_log_fingerprint_is_valid :: "string \<Rightarrow> bool" where
  "vps_log_fingerprint_is_valid value =
     (if length value \<noteq> 64 then False
      else list_all (\<lambda>c. char_between (CHR ''0'') (CHR ''9'') c \<or>
                         char_between (CHR ''a'') (CHR ''f'') c) value)"

definition vps_log_message_char :: "char \<Rightarrow> bool" where
  "vps_log_message_char current \<longleftrightarrow>
     \<not> ((of_char current :: nat) < 0x20 \<or> (of_char current :: nat) > 0x7e \<or>
        current = CHR 0x27 \<or> current = CHR 0x22)"

definition vps_log_string_matches_key :: "VpsLogFieldKey \<Rightarrow> VpsLogString \<Rightarrow> bool \<Rightarrow> bool" where
  "vps_log_string_matches_key key value redacted =
     (if redacted then value = LogRedactedConstant
      else let text = (case value of LogSpan s \<Rightarrow> s | LogRedactedConstant \<Rightarrow> ''[redacted]'' | LogNull \<Rightarrow> []) in
        if key = VPS_LOG_FIELD_SQLSTATE then vps_log_sqlstate_is_valid text
        else if key = VPS_LOG_FIELD_CONNECTION_FINGERPRINT \<or> key = VPS_LOG_FIELD_QUERY_FINGERPRINT
          then vps_log_fingerprint_is_valid text
        else if key = VPS_LOG_FIELD_PRIMARY_MESSAGE
          then (if text = [] then False else list_all vps_log_message_char text)
        else vps_log_value_is_safe_token text)"

section \<open>Events\<close>

definition vps_log_event_has_key :: "VpsLogEvent \<Rightarrow> VpsLogFieldKey \<Rightarrow> bool" where
  "vps_log_event_has_key event key = list_ex (\<lambda>f. field_key f = key) (event_fields event)"

definition vps_log_string_length :: "VpsLogString \<Rightarrow> nat" where
  "vps_log_string_length value =
     (case value of LogNull \<Rightarrow> 0 | LogRedactedConstant \<Rightarrow> length ''[redacted]'' | LogSpan s \<Rightarrow> length s)"

definition vps_log_field_is_valid :: "VpsLogLevel \<Rightarrow> VpsLogField \<Rightarrow> bool" where
  "vps_log_field_is_valid level field =
     (case field_value field of
        LogStringValue s \<Rightarrow>
          vps_log_field_requires_string (field_key field) \<and> s \<noteq> LogNull \<and>
          \<not> (if field_key field = VPS_LOG_FIELD_SQL_TEXT
             then vps_log_string_length s = 0 \<or>
                  vps_log_string_length s > VPS_LOG_MAX_SQL_TEXT_LENGTH \<or>
                  level \<noteq> VPS_LOG_LEVEL_DEBUG
             else vps_log_string_length s > VPS_LOG_MAX_STRING_LENGTH) \<and>
          vps_log_string_matches_key (field_key field) s (field_redacted field)
      | LogUint64Value _ \<Rightarrow>
          vps_log_field_requires_uint64 (field_key field) \<and> \<not> field_redacted field
      | LogUnknownType _ \<Rightarrow> False)"

fun vps_log_fields_valid :: "VpsLogLevel \<Rightarrow> VpsLogFieldKey list \<Rightarrow> VpsLogField list \<Rightarrow> bool" where
  "vps_log_fields_valid level prior [] = True"
| "vps_log_fields_valid level prior (field # rest) =
     (if \<not> vps_log_field_key_is_valid (field_key field) then False
      else if field_key field \<in> set prior then False
      else if \<not> vps_log_field_is_valid level field then False
      else vps_log_fields_valid level (field_key field # prior) rest)"

definition vps_log_count_redacted :: "VpsLogField list \<Rightarrow> nat" where
  "vps_log_count_redacted fs = length (filter field_redacted fs)"

definition vps_log_event_is_valid :: "VpsLogEvent option \<Rightarrow> bool" where
  "vps_log_event_is_valid event_ptr =
     (case event_ptr of
        None \<Rightarrow> False
      | Some event \<Rightarrow>
          if \<not> vps_log_event_level_is_valid (event_level event) \<or>
             length (event_fields event) > VPS_LOG_MAX_FIELDS
          then False
          else if \<not> vps_log_fields_valid (event_level event) [] (event_fields event) then False
          else vps_log_count_redacted (event_fields event) = event_redacted_count event)"

definition vps_log_event_init :: "VpsLogLevel \<Rightarrow> VpsLogResult \<times> VpsLogEvent option" where
  "vps_log_event_init level =
     (if \<not> vps_log_event_level_is_valid level then (VPS_LOG_INVALID_ARGUMENT, None)
      else (VPS_LOG_OK, Some \<lparr>event_level = level, event_fields = [], event_redacted_count = 0\<rparr>))"

definition vps_log_event_add_string ::
    "VpsLogEvent \<Rightarrow> VpsLogFieldKey \<Rightarrow> string option \<Rightarrow> VpsLogResult \<times> VpsLogEvent" where
  "vps_log_event_add_string event key value_ptr =
     (case value_ptr of
        None \<Rightarrow> (VPS_LOG_INVALID_ARGUMENT, event)
      | Some value \<Rightarrow>
          if \<not> vps_log_event_level_is_valid (event_level event) \<or>
             \<not> vps_log_field_key_is_valid key \<or> \<not> vps_log_field_requires_string key \<or>
             key = VPS_LOG_FIELD_SQL_TEXT
          then (VPS_LOG_INVALID_ARGUMENT, event)
          else if length value > VPS_LOG_MAX_STRING_LENGTH then (VPS_LOG_LIMIT_EXCEEDED, event)
          else if length (event_fields event) \<ge> VPS_LOG_MAX_FIELDS
            then (VPS_LOG_LIMIT_EXCEEDED, event)
          else if vps_log_event_has_key event key then (VPS_LOG_DUPLICATE_FIELD, event)
          else
            let sensitive = (if key = VPS_LOG_FIELD_ARGUMENT then False
                             else vps_log_value_is_sensitive value)
            in if \<not> sensitive \<and> \<not> vps_log_string_matches_key key (LogSpan value) False
               then (VPS_LOG_MALFORMED_VALUE, event)
               else
                 let field = \<lparr>field_key = key, field_redacted = sensitive,
                              field_value = LogStringValue
                                (if sensitive then LogRedactedConstant else LogSpan value)\<rparr>
                 in (if sensitive then VPS_LOG_REDACTED else VPS_LOG_OK,
                     event\<lparr>event_fields := event_fields event @ [field],
                           event_redacted_count := event_redacted_count event +
                             (if sensitive then 1 else 0)\<rparr>))"

definition vps_log_event_add_uint64 ::
    "VpsLogEvent \<Rightarrow> VpsLogFieldKey \<Rightarrow> u64 \<Rightarrow> VpsLogResult \<times> VpsLogEvent" where
  "vps_log_event_add_uint64 event key value =
     (if \<not> vps_log_event_level_is_valid (event_level event) \<or>
         \<not> vps_log_field_key_is_valid key \<or> \<not> vps_log_field_requires_uint64 key
      then (VPS_LOG_INVALID_ARGUMENT, event)
      else if length (event_fields event) \<ge> VPS_LOG_MAX_FIELDS then (VPS_LOG_LIMIT_EXCEEDED, event)
      else if vps_log_event_has_key event key then (VPS_LOG_DUPLICATE_FIELD, event)
      else (VPS_LOG_OK,
            event\<lparr>event_fields := event_fields event @
              [\<lparr>field_key = key, field_redacted = False, field_value = LogUint64Value value\<rparr>]\<rparr>))"

text \<open>The copy loop of \<open>vps_log_event_add_primary_message\<close>. \<open>room\<close> is how many characters may
  still be written, \<open>quote\<close> the quotation mark that is open, if any, and \<open>marker\<close> whether the
  mark for the quoted text has been written.\<close>

fun vps_log_sanitize :: "nat \<Rightarrow> char option \<Rightarrow> bool \<Rightarrow> string \<Rightarrow> string" where
  "vps_log_sanitize room quote marker [] = []"
| "vps_log_sanitize 0 quote marker (current # rest) = []"
| "vps_log_sanitize (Suc room) (Some q) marker (current # rest) =
     (if current = q then vps_log_sanitize (Suc room) None False rest
      else if \<not> marker then CHR ''?'' # vps_log_sanitize room (Some q) True rest
      else vps_log_sanitize (Suc room) (Some q) marker rest)"
| "vps_log_sanitize (Suc room) None marker (current # rest) =
     (if current = CHR 0x27 \<or> current = CHR 0x22
      then CHR ''?'' # vps_log_sanitize room (Some current) True rest
      else if (of_char current :: nat) < 0x20 \<or> (of_char current :: nat) > 0x7e
      then CHR ''?'' # vps_log_sanitize room None marker rest
      else current # vps_log_sanitize room None marker rest)"

fun vps_log_trim_right :: "string \<Rightarrow> string" where
  "vps_log_trim_right s = rev (dropWhile (\<lambda>c. c = CHR '' '') (rev s))"

definition vps_log_event_add_primary_message ::
    "VpsLogEvent \<Rightarrow> string option \<Rightarrow> size_t option \<Rightarrow> VpsLogResult \<times> VpsLogEvent" where
  "vps_log_event_add_primary_message event value_ptr storage_ptr =
     (case (value_ptr, storage_ptr) of
        (Some value, Some storage_size) \<Rightarrow>
          if event_level event \<noteq> VPS_LOG_LEVEL_DEBUG \<or> value = [] \<or> storage_size < 2
          then (VPS_LOG_INVALID_ARGUMENT, event)
          else
            let room = min (unat storage_size - 1) VPS_LOG_MAX_STRING_LENGTH;
                text = vps_log_trim_right (vps_log_sanitize room None False value)
            in if text = [] then (VPS_LOG_MALFORMED_VALUE, event)
               else vps_log_event_add_string event VPS_LOG_FIELD_PRIMARY_MESSAGE (Some text)
      | _ \<Rightarrow> (VPS_LOG_INVALID_ARGUMENT, event))"

definition vps_log_event_add_debug_sql ::
    "VpsLogEvent option \<Rightarrow> string option \<Rightarrow> nat \<Rightarrow> VpsLogResult \<times> VpsLogEvent option" where
  "vps_log_event_add_debug_sql event_ptr sql sql_length =
     (if (case event_ptr of None \<Rightarrow> True | Some e \<Rightarrow> event_level e \<noteq> VPS_LOG_LEVEL_DEBUG) \<or>
         sql = None \<or> sql_length = 0 \<or> sql_length > VPS_LOG_MAX_SQL_TEXT_LENGTH
      then (if sql_length > VPS_LOG_MAX_SQL_TEXT_LENGTH then VPS_LOG_LIMIT_EXCEEDED
            else VPS_LOG_INVALID_ARGUMENT, event_ptr)
      else (VPS_LOG_REDACTED, event_ptr))"

section \<open>The logger\<close>

definition vps_log_increment :: "u64 \<Rightarrow> u64" where
  "vps_log_increment counter = (if counter \<noteq> UINT64_MAX then counter + 1 else counter)"

definition vps_logger_init ::
    "VpsLogLevel \<Rightarrow> ('c \<Rightarrow> VpsLogEvent \<Rightarrow> int \<times> 'c \<times> VpsLogEvent list) option \<Rightarrow> 'c \<Rightarrow>
     VpsLogResult \<times> 'c VpsLogger option" where
  "vps_logger_init level sink context =
     (if \<not> vps_log_level_is_valid level then (VPS_LOG_INVALID_ARGUMENT, None)
      else (VPS_LOG_OK,
            Some \<lparr>logger_level = level, logger_sink = sink, logger_context = context,
                  logger_in_sink = False, logger_emitted = 0, logger_filtered = 0,
                  logger_invalid = 0, logger_reentrant = 0, logger_sink_failures = 0\<rparr>))"

definition vps_logger_set_level ::
    "'c VpsLogger option \<Rightarrow> VpsLogLevel \<Rightarrow> VpsLogResult \<times> 'c VpsLogger option" where
  "vps_logger_set_level logger_ptr level =
     (case logger_ptr of
        None \<Rightarrow> (VPS_LOG_INVALID_ARGUMENT, None)
      | Some logger \<Rightarrow>
          if \<not> vps_log_level_is_valid level then (VPS_LOG_INVALID_ARGUMENT, Some logger)
          else (VPS_LOG_OK, Some (logger\<lparr>logger_level := level\<rparr>)))"

text \<open>The guards of \<open>vps_logger_emit\<close>: the logger after them, and the sink to call, if any.\<close>

definition vps_logger_admit ::
    "'c VpsLogger \<Rightarrow> VpsLogEvent option \<Rightarrow>
     'c VpsLogger \<times> ('c \<Rightarrow> VpsLogEvent \<Rightarrow> int \<times> 'c \<times> VpsLogEvent list) option" where
  "vps_logger_admit logger event =
     (if \<not> vps_log_event_is_valid event
      then (logger\<lparr>logger_invalid := vps_log_increment (logger_invalid logger)\<rparr>, None)
      else if \<not> vps_log_level_is_valid (logger_level logger)
      then (logger\<lparr>logger_invalid := vps_log_increment (logger_invalid logger)\<rparr>, None)
      else if logger_level logger = VPS_LOG_LEVEL_OFF \<or>
              vps_log_level_code (event_level (the event)) < vps_log_level_code (logger_level logger) \<or>
              logger_sink logger = None
      then (logger\<lparr>logger_filtered := vps_log_increment (logger_filtered logger)\<rparr>, None)
      else if logger_in_sink logger
      then (logger\<lparr>logger_reentrant := vps_log_increment (logger_reentrant logger)\<rparr>, None)
      else (logger, logger_sink logger))"

definition vps_logger_emit :: "'c VpsLogger option \<Rightarrow> VpsLogEvent option \<Rightarrow> 'c VpsLogger option" where
  "vps_logger_emit logger_ptr event =
     (case logger_ptr of
        None \<Rightarrow> None
      | Some logger \<Rightarrow>
          (case vps_logger_admit logger event of
             (logger1, None) \<Rightarrow> Some logger1
           | (logger1, Some sink) \<Rightarrow>
               (case sink (logger_context logger1) (the event) of
                  (sink_result, context, nested) \<Rightarrow>
                    let inside = fold (\<lambda>e l. fst (vps_logger_admit l (Some e))) nested
                          (logger1\<lparr>logger_in_sink := True, logger_context := context\<rparr>);
                        done = inside\<lparr>logger_in_sink := False,
                                      logger_emitted := vps_log_increment (logger_emitted inside)\<rparr>
                    in Some (if sink_result \<noteq> 0
                             then done\<lparr>logger_sink_failures :=
                                    vps_log_increment (logger_sink_failures done)\<rparr>
                             else done))))"

definition vps_log_level_parse :: "string option \<Rightarrow> VpsLogResult \<times> VpsLogLevel option" where
  "vps_log_level_parse value =
     (if value = None then (VPS_LOG_INVALID_ARGUMENT, None)
      else if value = Some ''debug'' then (VPS_LOG_OK, Some VPS_LOG_LEVEL_DEBUG)
      else if value = Some ''info'' then (VPS_LOG_OK, Some VPS_LOG_LEVEL_INFO)
      else if value = Some ''warn'' then (VPS_LOG_OK, Some VPS_LOG_LEVEL_WARN)
      else if value = Some ''error'' then (VPS_LOG_OK, Some VPS_LOG_LEVEL_ERROR)
      else if value = Some ''off'' then (VPS_LOG_OK, Some VPS_LOG_LEVEL_OFF)
      else (VPS_LOG_INVALID_ARGUMENT, None))"

definition vps_log_level_name :: "VpsLogLevel \<Rightarrow> string" where
  "vps_log_level_name level =
     (case level of
        VPS_LOG_LEVEL_DEBUG \<Rightarrow> ''debug''
      | VPS_LOG_LEVEL_INFO \<Rightarrow> ''info''
      | VPS_LOG_LEVEL_WARN \<Rightarrow> ''warn''
      | VPS_LOG_LEVEL_ERROR \<Rightarrow> ''error''
      | VPS_LOG_LEVEL_OFF \<Rightarrow> ''off''
      | VPS_LOG_LEVEL_OUT_OF_RANGE _ \<Rightarrow> ''unknown'')"

definition vps_log_field_name :: "VpsLogFieldKey \<Rightarrow> string" where
  "vps_log_field_name key =
     (case key of
        VPS_LOG_FIELD_OPERATION \<Rightarrow> ''operation''
      | VPS_LOG_FIELD_PHASE \<Rightarrow> ''phase''
      | VPS_LOG_FIELD_DURATION_MS \<Rightarrow> ''duration_ms''
      | VPS_LOG_FIELD_ROW_COUNT \<Rightarrow> ''row_count''
      | VPS_LOG_FIELD_BYTE_COUNT \<Rightarrow> ''byte_count''
      | VPS_LOG_FIELD_SQLSTATE \<Rightarrow> ''sqlstate''
      | VPS_LOG_FIELD_ERROR_CLASS \<Rightarrow> ''error_class''
      | VPS_LOG_FIELD_PROFILE \<Rightarrow> ''profile''
      | VPS_LOG_FIELD_SERVICE \<Rightarrow> ''service''
      | VPS_LOG_FIELD_CONNECTION_FINGERPRINT \<Rightarrow> ''connection_fingerprint''
      | VPS_LOG_FIELD_QUERY_FINGERPRINT \<Rightarrow> ''query_fingerprint''
      | VPS_LOG_FIELD_POOL_ACTIVE \<Rightarrow> ''pool_active''
      | VPS_LOG_FIELD_POOL_IDLE \<Rightarrow> ''pool_idle''
      | VPS_LOG_FIELD_POOL_WAITING \<Rightarrow> ''pool_waiting''
      | VPS_LOG_FIELD_PARTICIPANT_COUNT \<Rightarrow> ''participant_count''
      | VPS_LOG_FIELD_SNAPSHOT_MODE \<Rightarrow> ''snapshot_mode''
      | VPS_LOG_FIELD_ARCHITECTURE \<Rightarrow> ''architecture''
      | VPS_LOG_FIELD_VERSION \<Rightarrow> ''version''
      | VPS_LOG_FIELD_STATUS \<Rightarrow> ''status''
      | VPS_LOG_FIELD_SIZE_CLASS \<Rightarrow> ''size_class''
      | VPS_LOG_FIELD_ARGUMENT \<Rightarrow> ''argument''
      | VPS_LOG_FIELD_PRESENCE_MASK \<Rightarrow> ''presence_mask''
      | VPS_LOG_FIELD_PROVIDER_ID \<Rightarrow> ''provider_id''
      | VPS_LOG_FIELD_GENERATION \<Rightarrow> ''generation''
      | VPS_LOG_FIELD_CONFIGURATION_GENERATION \<Rightarrow> ''configuration_generation''
      | VPS_LOG_FIELD_TLS_MODE \<Rightarrow> ''tls_mode''
      | VPS_LOG_FIELD_SSL_IN_USE \<Rightarrow> ''ssl_in_use''
      | VPS_LOG_FIELD_CERTIFICATE_STATUS \<Rightarrow> ''certificate_status''
      | VPS_LOG_FIELD_CHANNEL_BINDING_STATUS \<Rightarrow> ''channel_binding_status''
      | VPS_LOG_FIELD_PARAMETER \<Rightarrow> ''parameter''
      | VPS_LOG_FIELD_EXPECTED_CLASS \<Rightarrow> ''expected_class''
      | VPS_LOG_FIELD_POLL_COUNT \<Rightarrow> ''poll_count''
      | VPS_LOG_FIELD_WAIT_COUNT \<Rightarrow> ''wait_count''
      | VPS_LOG_FIELD_PARAMETER_COUNT \<Rightarrow> ''parameter_count''
      | VPS_LOG_FIELD_RESULT_FIELD_COUNT \<Rightarrow> ''result_field_count''
      | VPS_LOG_FIELD_RETRY_ATTEMPT \<Rightarrow> ''retry_attempt''
      | VPS_LOG_FIELD_BACKOFF_MS \<Rightarrow> ''backoff_ms''
      | VPS_LOG_FIELD_PRIMARY_MESSAGE \<Rightarrow> ''primary_message''
      | VPS_LOG_FIELD_SQL_TEXT \<Rightarrow> ''sql_text''
      | VPS_LOG_FIELD_TYPE_OID \<Rightarrow> ''type_oid''
      | VPS_LOG_FIELD_RELATION_OID \<Rightarrow> ''relation_oid''
      | VPS_LOG_FIELD_NAMESPACE_OID \<Rightarrow> ''namespace_oid''
      | VPS_LOG_FIELD_INDEX_OID \<Rightarrow> ''index_oid''
      | VPS_LOG_FIELD_CODEC_ID \<Rightarrow> ''codec_id''
      | VPS_LOG_FIELD_KEY_COUNT \<Rightarrow> ''key_count''
      | VPS_LOG_FIELD_FLAGS \<Rightarrow> ''flags''
      | VPS_LOG_FIELD_CHANGE_CLASS \<Rightarrow> ''change_class''
      | VPS_LOG_FIELD_FORMAT_VERSION \<Rightarrow> ''format_version''
      | VPS_LOG_FIELD_OUT_OF_RANGE _ \<Rightarrow> ''unknown'')"

section \<open>Client patterns\<close>

text \<open>The components build an event from a list of fields in one of two ways: stopping at the first
  field that is not accepted with \<open>VPS_LOG_OK\<close> (and then emitting nothing), or ignoring the results
  of the additions. These two functions are those two shapes of code.\<close>

datatype log_item = LogStr VpsLogFieldKey string | LogNum VpsLogFieldKey u64

fun log_add :: "VpsLogEvent \<Rightarrow> log_item \<Rightarrow> VpsLogResult \<times> VpsLogEvent" where
  "log_add event (LogStr key s) = vps_log_event_add_string event key (Some s)"
| "log_add event (LogNum key n) = vps_log_event_add_uint64 event key n"

fun log_add_strict :: "VpsLogEvent \<Rightarrow> log_item list \<Rightarrow> VpsLogEvent option" where
  "log_add_strict event [] = Some event"
| "log_add_strict event (item # items) =
     (case log_add event item of
        (result, event') \<Rightarrow> if result \<noteq> VPS_LOG_OK then None else log_add_strict event' items)"

definition log_add_each :: "VpsLogEvent \<Rightarrow> log_item list \<Rightarrow> VpsLogEvent" where
  "log_add_each event items = fold (\<lambda>item e. snd (log_add e item)) items event"

definition log_emit_strict ::
    "'c VpsLogger option \<Rightarrow> VpsLogLevel \<Rightarrow> log_item list \<Rightarrow> 'c VpsLogger option" where
  "log_emit_strict logger level items =
     (if logger = None then None
      else case vps_log_event_init level of
        (_, None) \<Rightarrow> logger
      | (_, Some event) \<Rightarrow>
          (case log_add_strict event items of
             None \<Rightarrow> logger
           | Some event' \<Rightarrow> vps_logger_emit logger (Some event')))"

definition log_emit_each ::
    "'c VpsLogger option \<Rightarrow> VpsLogLevel \<Rightarrow> log_item list \<Rightarrow> 'c VpsLogger option" where
  "log_emit_each logger level items =
     (if logger = None then None
      else case vps_log_event_init level of
        (_, None) \<Rightarrow> logger
      | (_, Some event) \<Rightarrow> vps_logger_emit logger (Some (log_add_each event items)))"

section \<open>Events that the interface can build\<close>

inductive log_event_built :: "VpsLogEvent \<Rightarrow> bool" where
  built_init: "vps_log_event_init level = (r, Some event) \<Longrightarrow> log_event_built event"
| built_string: "log_event_built event \<Longrightarrow>
    log_event_built (snd (vps_log_event_add_string event key value))"
| built_uint64: "log_event_built event \<Longrightarrow>
    log_event_built (snd (vps_log_event_add_uint64 event key number))"
| built_message: "log_event_built event \<Longrightarrow>
    log_event_built (snd (vps_log_event_add_primary_message event value storage))"

text \<open>Appending one well-formed field under a fresh key is the only change the builders make.\<close>

definition log_event_extends :: "VpsLogEvent \<Rightarrow> VpsLogField \<Rightarrow> VpsLogEvent \<Rightarrow> bool" where
  "log_event_extends event f event' \<longleftrightarrow>
     event' = event\<lparr>event_fields := event_fields event @ [f],
                    event_redacted_count := event_redacted_count event +
                      (if field_redacted f then 1 else 0)\<rparr> \<and>
     length (event_fields event) < VPS_LOG_MAX_FIELDS \<and>
     vps_log_field_key_is_valid (field_key f) \<and>
     field_key f \<notin> field_key ` set (event_fields event) \<and>
     vps_log_field_is_valid (event_level event) f"

text \<open>What a field may show to the sink.\<close>

definition log_field_clean :: "VpsLogField \<Rightarrow> bool" where
  "log_field_clean f \<longleftrightarrow>
     (case field_value f of
        LogStringValue (LogSpan s) \<Rightarrow>
          field_key f = VPS_LOG_FIELD_ARGUMENT \<or> \<not> vps_log_value_is_sensitive s
      | _ \<Rightarrow> True)"

definition log_event_clean :: "VpsLogEvent \<Rightarrow> bool" where
  "log_event_clean event \<longleftrightarrow> list_all log_field_clean (event_fields event)"

definition log_event_ok :: "VpsLogEvent \<Rightarrow> bool" where
  "log_event_ok event \<longleftrightarrow> vps_log_event_is_valid (Some event) \<and> log_event_clean event"

section \<open>Lemmas\<close>

lemma vps_log_contains_token_iff:
  "vps_log_contains_token value token \<longleftrightarrow>
     (\<exists>pre suf. map vps_log_ascii_lower value = pre @ token @ suf)"
proof
  assume a: "vps_log_contains_token value token"
  then have "\<exists>start. start + length token \<le> length value \<and>
      (\<forall>i<length token. vps_log_ascii_lower (value ! (start + i)) = token ! i)"
    unfolding vps_log_contains_token_def list_ex_upt_iff list_all_upt_iff
    by (metis add_leE le_diff_conv2 less_Suc_eq_le linorder_not_less zero_le)
  then obtain start where s: "start + length token \<le> length value"
    and m: "\<And>i. i < length token \<Longrightarrow> vps_log_ascii_lower (value ! (start + i)) = token ! i"
    by blast
  have "take (length token) (drop start (map vps_log_ascii_lower value)) = token"
    using s m by (intro nth_equalityI) auto
  then have "map vps_log_ascii_lower value =
      take start (map vps_log_ascii_lower value) @ token @
      drop (length token) (drop start (map vps_log_ascii_lower value))"
    by (metis append_take_drop_id)
  then show "\<exists>pre suf. map vps_log_ascii_lower value = pre @ token @ suf" by blast
next
  assume "\<exists>pre suf. map vps_log_ascii_lower value = pre @ token @ suf"
  then obtain pre suf where e: "map vps_log_ascii_lower value = pre @ token @ suf" by blast
  then have l: "length value = length pre + (length token + length suf)"
    by (metis length_append length_map)
  have "vps_log_ascii_lower (value ! (length pre + i)) = token ! i" if "i < length token" for i
  proof -
    have "map vps_log_ascii_lower value ! (length pre + i) = token ! i"
      using that by (simp add: e nth_append)
    then show ?thesis using that l by simp
  qed
  then show "vps_log_contains_token value token"
    using l by (auto simp: vps_log_contains_token_def list_ex_upt_iff list_all_upt_iff
        intro!: exI[of _ "length pre"])
qed

lemma vps_log_fields_valid_append:
  "vps_log_fields_valid level prior (fs @ [f]) \<longleftrightarrow>
     vps_log_fields_valid level prior fs \<and> vps_log_field_key_is_valid (field_key f) \<and>
     field_key f \<notin> set prior \<union> field_key ` set fs \<and> vps_log_field_is_valid level f"
  by (induction fs arbitrary: prior) auto

lemma vps_log_count_redacted_append [simp]:
  "vps_log_count_redacted (fs @ [f]) = vps_log_count_redacted fs + (if field_redacted f then 1 else 0)"
  by (simp add: vps_log_count_redacted_def)

lemma vps_log_event_has_key_iff:
  "vps_log_event_has_key event key \<longleftrightarrow> key \<in> field_key ` set (event_fields event)"
  by (auto simp: vps_log_event_has_key_def list_ex_iff)

lemma vps_log_event_is_valid_iff:
  "vps_log_event_is_valid (Some event) \<longleftrightarrow>
     vps_log_event_level_is_valid (event_level event) \<and>
     length (event_fields event) \<le> VPS_LOG_MAX_FIELDS \<and>
     vps_log_fields_valid (event_level event) [] (event_fields event) \<and>
     vps_log_count_redacted (event_fields event) = event_redacted_count event"
  by (auto simp: vps_log_event_is_valid_def not_less)

lemma vps_log_string_matches_redacted [simp]:
  "vps_log_string_matches_key key LogRedactedConstant True"
  by (simp add: vps_log_string_matches_key_def)

lemma log_event_extends_valid:
  "log_event_extends event f event' \<Longrightarrow> vps_log_event_is_valid (Some event) \<Longrightarrow>
   vps_log_event_is_valid (Some event')"
  by (auto simp: log_event_extends_def vps_log_event_is_valid_iff vps_log_fields_valid_append)

lemma add_string_cases:
  obtains (same) "snd (vps_log_event_add_string event key value) = event"
  | (redacted) f where "log_event_extends event f (snd (vps_log_event_add_string event key value))"
      "f = \<lparr>field_key = key, field_redacted = True, field_value = LogStringValue LogRedactedConstant\<rparr>"
  | (plain) f s where "log_event_extends event f (snd (vps_log_event_add_string event key value))"
      "value = Some s" "key = VPS_LOG_FIELD_ARGUMENT \<or> \<not> vps_log_value_is_sensitive s"
      "f = \<lparr>field_key = key, field_redacted = False, field_value = LogStringValue (LogSpan s)\<rparr>"
proof (cases "snd (vps_log_event_add_string event key value) = event")
  case False
  then obtain s where s: "value = Some s" and
    g: "vps_log_event_level_is_valid (event_level event)" "vps_log_field_key_is_valid key"
      "vps_log_field_requires_string key" "key \<noteq> VPS_LOG_FIELD_SQL_TEXT"
      "length s \<le> VPS_LOG_MAX_STRING_LENGTH" "length (event_fields event) < VPS_LOG_MAX_FIELDS"
      "\<not> vps_log_event_has_key event key"
    by (auto simp: vps_log_event_add_string_def split: option.splits if_splits)
  define sens where "sens = (if key = VPS_LOG_FIELD_ARGUMENT then False else vps_log_value_is_sensitive s)"
  have m: "sens \<or> vps_log_string_matches_key key (LogSpan s) False"
    using False g s by (auto simp: vps_log_event_add_string_def sens_def Let_def split: if_splits)
  define f where "f = \<lparr>field_key = key, field_redacted = sens,
    field_value = LogStringValue (if sens then LogRedactedConstant else LogSpan s)\<rparr>"
  have "log_event_extends event f (snd (vps_log_event_add_string event key value))"
    using g s m
    by (cases sens) (simp_all add: vps_log_event_add_string_def Let_def log_event_extends_def f_def
        sens_def [symmetric] vps_log_event_has_key_iff vps_log_field_is_valid_def
        vps_log_string_length_def)
  then show thesis
    using redacted [of f] plain [of f s] s by (cases sens) (auto simp: f_def sens_def split: if_splits)
qed (rule same)

lemma add_uint64_cases:
  obtains (same) "snd (vps_log_event_add_uint64 event key number) = event"
  | (added) f where "log_event_extends event f (snd (vps_log_event_add_uint64 event key number))"
      "f = \<lparr>field_key = key, field_redacted = False, field_value = LogUint64Value number\<rparr>"
proof (cases "snd (vps_log_event_add_uint64 event key number) = event")
  case False
  then have g: "vps_log_field_key_is_valid key" "vps_log_field_requires_uint64 key"
      "length (event_fields event) < VPS_LOG_MAX_FIELDS" "\<not> vps_log_event_has_key event key"
      "vps_log_event_level_is_valid (event_level event)"
    by (auto simp: vps_log_event_add_uint64_def split: if_splits)
  then show thesis
    by (intro added) (simp_all add: vps_log_event_add_uint64_def log_event_extends_def
        vps_log_event_has_key_iff vps_log_field_is_valid_def)
qed (rule same)

lemma add_primary_message_snd:
  "snd (vps_log_event_add_primary_message event value storage) = event \<or>
   (\<exists>text. snd (vps_log_event_add_primary_message event value storage) =
      snd (vps_log_event_add_string event VPS_LOG_FIELD_PRIMARY_MESSAGE (Some text)))"
  by (auto simp: vps_log_event_add_primary_message_def Let_def split: option.splits)

lemma log_event_extends_clean:
  "log_event_extends event f event' \<Longrightarrow> log_field_clean f \<Longrightarrow> log_event_clean event \<Longrightarrow>
   log_event_clean event'"
  by (auto simp: log_event_extends_def log_event_clean_def)

lemma add_string_ok:
  "log_event_ok event \<Longrightarrow> log_event_ok (snd (vps_log_event_add_string event key value))"
  by (rule add_string_cases [of event key "value"])
    (auto simp: log_event_ok_def log_field_clean_def intro: log_event_extends_valid log_event_extends_clean)

lemma add_uint64_ok:
  "log_event_ok event \<Longrightarrow> log_event_ok (snd (vps_log_event_add_uint64 event key number))"
  by (rule add_uint64_cases [of event key number])
    (auto simp: log_event_ok_def log_field_clean_def intro: log_event_extends_valid log_event_extends_clean)

lemma add_primary_message_ok:
  "log_event_ok event \<Longrightarrow> log_event_ok (snd (vps_log_event_add_primary_message event value storage))"
  using add_primary_message_snd [of event "value" storage] by (auto simp: add_string_ok)

lemma log_event_init_ok:
  "vps_log_event_init level = (r, Some event) \<Longrightarrow> log_event_ok event"
  by (auto simp: vps_log_event_init_def log_event_ok_def vps_log_event_is_valid_iff
      log_event_clean_def vps_log_count_redacted_def split: if_splits)

lemma log_event_built_ok: "log_event_built event \<Longrightarrow> log_event_ok event"
  by (induction rule: log_event_built.induct)
    (auto intro: log_event_init_ok add_string_ok add_uint64_ok add_primary_message_ok)

lemma vps_log_sanitize_quoted:
  assumes "q \<notin> set secret" and "q = CHR 0x27 \<or> q = CHR 0x22"
  shows "vps_log_sanitize room (Some q) True (secret @ q # rest) = vps_log_sanitize room None False rest"
  using assms(1)
proof (induction secret)
  case Nil
  then show ?case by (cases room; cases rest) auto
next
  case (Cons c secret)
  then show ?case by (cases room; cases rest) auto
qed

lemma vps_log_sanitize_hides:
  assumes "q \<notin> set secret1" "q \<notin> set secret2" and "q = CHR 0x27 \<or> q = CHR 0x22"
    and "\<forall>c\<in>set pre. c \<noteq> CHR 0x27 \<and> c \<noteq> CHR 0x22"
  shows "vps_log_sanitize room None m (pre @ q # secret1 @ q # rest) =
         vps_log_sanitize room None m (pre @ q # secret2 @ q # rest)"
  using assms(4)
proof (induction pre arbitrary: room m)
  case Nil
  show ?case
    using assms(3) vps_log_sanitize_quoted [OF assms(1,3)] vps_log_sanitize_quoted [OF assms(2,3)]
    by (cases room) auto
next
  case (Cons c pre)
  then show ?case by (cases room) auto
qed

lemma vps_log_sanitize_chars:
  "c \<in> set (vps_log_sanitize room quote marker s) \<Longrightarrow> vps_log_message_char c"
  by (induction room quote marker s rule: vps_log_sanitize.induct)
    (auto simp: vps_log_message_char_def split: if_splits)

lemma vps_log_sanitize_length: "length (vps_log_sanitize room quote marker s) \<le> room"
  by (induction room quote marker s rule: vps_log_sanitize.induct) auto

lemma vps_log_trim_right_subset: "set (vps_log_trim_right s) \<subseteq> set s"
  using set_dropWhileD by fastforce

lemma log_add_built: "log_event_built event \<Longrightarrow> log_event_built (snd (log_add event item))"
  by (cases item) (auto intro: log_event_built.intros)

lemma log_add_each_built: "log_event_built event \<Longrightarrow> log_event_built (log_add_each event items)"
  unfolding log_add_each_def
  by (induction items arbitrary: event) (auto intro: log_add_built)

lemma log_add_strict_built:
  "log_event_built event \<Longrightarrow> log_add_strict event items = Some event' \<Longrightarrow> log_event_built event'"
proof (induction items arbitrary: event)
  case (Cons item items)
  then show ?case
    using log_add_built [of event item] by (auto split: prod.splits if_splits)
qed simp

subsection \<open>Emission\<close>

lemma log_add_strict_refused:
  "LogNum key number \<in> set items \<Longrightarrow> \<not> vps_log_field_requires_uint64 key \<Longrightarrow> log_add_strict event items = None"
proof (induction items arbitrary: event)
  case (Cons item items)
  show ?case
  proof (cases "item = LogNum key number")
    case True
    with Cons.prems(2) show ?thesis by (simp add: vps_log_event_add_uint64_def)
  qed (use Cons in \<open>auto split: prod.splits\<close>)
qed simp

lemma vps_logger_admit_in_sink [simp]:
  "logger_in_sink logger \<Longrightarrow> snd (vps_logger_admit logger event) = None"
  by (auto simp: vps_logger_admit_def)

lemma vps_logger_admit_frame [simp]:
  "logger_in_sink (fst (vps_logger_admit logger event)) = logger_in_sink logger"
  "logger_level (fst (vps_logger_admit logger event)) = logger_level logger"
  "logger_sink (fst (vps_logger_admit logger event)) = logger_sink logger"
  "logger_context (fst (vps_logger_admit logger event)) = logger_context logger"
  "logger_emitted (fst (vps_logger_admit logger event)) = logger_emitted logger"
  by (auto simp: vps_logger_admit_def)

lemma fold_admit_frame:
  "logger_level (fold (\<lambda>e l. fst (vps_logger_admit l (Some e))) es logger) = logger_level logger"
  "logger_sink (fold (\<lambda>e l. fst (vps_logger_admit l (Some e))) es logger) = logger_sink logger"
  "logger_context (fold (\<lambda>e l. fst (vps_logger_admit l (Some e))) es logger) = logger_context logger"
  "logger_emitted (fold (\<lambda>e l. fst (vps_logger_admit l (Some e))) es logger) = logger_emitted logger"
  by (induction es arbitrary: logger) auto

lemma vps_logger_emit_None [simp]: "vps_logger_emit None event = None"
  by (simp add: vps_logger_emit_def)

lemma vps_logger_emit_eq_None [simp]: "vps_logger_emit logger event = None \<longleftrightarrow> logger = None"
  by (auto simp: vps_logger_emit_def Let_def split: option.splits prod.splits)

lemma log_emit_eq_None [simp]:
  "log_emit_strict logger level items = None \<longleftrightarrow> logger = None"
  "log_emit_each logger level items = None \<longleftrightarrow> logger = None"
  by (auto simp: log_emit_strict_def log_emit_each_def split: option.splits prod.splits)

lemma log_emit_NULL [simp]:
  "log_emit_strict None level items = None"
  "log_emit_each None level items = None"
  by (simp_all add: log_emit_strict_def log_emit_each_def)

lemma built_event_valid: "log_event_built event \<Longrightarrow> vps_log_event_is_valid (Some event)"
  using log_event_built_ok by (simp add: log_event_ok_def)

lemma fold_admit_invalid:
  "\<forall>e\<in>set es. log_event_built e \<Longrightarrow> vps_log_level_is_valid (logger_level logger) \<Longrightarrow>
   logger_invalid (fold (\<lambda>e l. fst (vps_logger_admit l (Some e))) es logger) = logger_invalid logger"
proof (induction es arbitrary: logger)
  case (Cons e es)
  then have "logger_invalid (fst (vps_logger_admit logger (Some e))) = logger_invalid logger"
    by (auto simp: vps_logger_admit_def built_event_valid)
  with Cons show ?case by simp
qed simp

section \<open>Properties\<close>



text \<open>Accounting of an emission. An event built through the interface is never rejected by
  \<open>vps_logger_emit\<close> as malformed. With a valid logger level the event is counted exactly once: as
  filtered when the level excludes it or no sink is installed, as re-entrant when it comes from
  inside the sink, and otherwise as emitted, and then the sink has seen it. The sink flag, level
  and installed sink are as before, whatever the sink returns and whatever it tries to emit.\<close>

lemma emission_accounting:
  assumes "log_event_built event" and "vps_log_level_is_valid (logger_level logger)"
    and "\<And>sink c r c' nested e. logger_sink logger = Some sink \<Longrightarrow>
           sink c event = (r, c', nested) \<Longrightarrow> e \<in> set nested \<Longrightarrow> log_event_built e"
    and "vps_logger_emit (Some logger) (Some event) = Some logger'"
  shows "logger_invalid logger' = logger_invalid logger \<and>
         logger_level logger' = logger_level logger \<and> logger_sink logger' = logger_sink logger \<and>
         logger_in_sink logger' = logger_in_sink logger \<and>
         (case logger_sink logger of
            None \<Rightarrow> logger' = logger\<lparr>logger_filtered := vps_log_increment (logger_filtered logger)\<rparr>
          | Some sink \<Rightarrow>
              if logger_level logger = VPS_LOG_LEVEL_OFF \<or>
                 vps_log_level_code (event_level event) < vps_log_level_code (logger_level logger)
              then logger' = logger\<lparr>logger_filtered := vps_log_increment (logger_filtered logger)\<rparr>
              else if logger_in_sink logger
              then logger' = logger\<lparr>logger_reentrant := vps_log_increment (logger_reentrant logger)\<rparr>
              else logger_emitted logger' = vps_log_increment (logger_emitted logger) \<and>
                   logger_context logger' = fst (snd (sink (logger_context logger) event)))"
proof (cases "snd (vps_logger_admit logger (Some event))")
  case None
  then show ?thesis
    using assms(2,4) built_event_valid [OF assms(1)]
    by (auto simp: vps_logger_emit_def vps_logger_admit_def split: if_splits option.splits)
next
  case (Some sink)
  then have g: "logger_sink logger = Some sink" "\<not> logger_in_sink logger"
      "logger_level logger \<noteq> VPS_LOG_LEVEL_OFF"
      "\<not> vps_log_level_code (event_level event) < vps_log_level_code (logger_level logger)"
      "vps_logger_admit logger (Some event) = (logger, Some sink)"
    by (auto simp: vps_logger_admit_def split: if_splits)
  obtain r c' nested where call: "sink (logger_context logger) event = (r, c', nested)"
    by (metis prod_cases3)
  have "\<forall>e\<in>set nested. log_event_built e"
    using assms(3) [OF g(1) call] by blast
  then show ?thesis
    using assms(2,4) g call
    by (auto simp: vps_logger_emit_def Let_def fold_admit_frame fold_admit_invalid split: if_splits)
qed



end
