(* ===== verification/Vps_Cursor.thy ===== *)
theory Vps_Cursor
  imports Vps_Logging
begin

text \<open>
  The cursor state machine and the per-cursor result budget of \<open>src/src/vps_cursor.c\<close>.
\<close>

section \<open>Data\<close>

datatype VpsCursorState =
    VPS_CURSOR_NEW
  | VPS_CURSOR_OPEN
  | VPS_CURSOR_FILTERING
  | VPS_CURSOR_WAITING
  | VPS_CURSOR_ROW_READY
  | VPS_CURSOR_EOF
  | VPS_CURSOR_CANCELLING
  | VPS_CURSOR_FAILED
  | VPS_CURSOR_CLOSED
  | VPS_CURSOR_STATE_OUT_OF_RANGE int

datatype VpsCursorEvent =
    VPS_CURSOR_EVENT_OPEN
  | VPS_CURSOR_EVENT_FILTER
  | VPS_CURSOR_EVENT_FETCH
  | VPS_CURSOR_EVENT_WAIT
  | VPS_CURSOR_EVENT_RESUME
  | VPS_CURSOR_EVENT_ROW
  | VPS_CURSOR_EVENT_COMPLETE
  | VPS_CURSOR_EVENT_CANCEL
  | VPS_CURSOR_EVENT_FAIL
  | VPS_CURSOR_EVENT_CLOSE
  | VPS_CURSOR_EVENT_OUT_OF_RANGE int

datatype VpsCursorResult =
    VPS_CURSOR_OK
  | VPS_CURSOR_INVALID_ARGUMENT
  | VPS_CURSOR_INVALID_TRANSITION

datatype VpsCursorLimitResult =
    VPS_CURSOR_LIMIT_OK
  | VPS_CURSOR_LIMIT_INVALID_ARGUMENT
  | VPS_CURSOR_LIMIT_EXCEEDED
  | VPS_CURSOR_LIMIT_OVERFLOW

record VpsCursorLimits =
  max_result_rows :: u64
  max_result_bytes :: u64
  max_column_bytes :: u64
  max_query_bytes :: u64
  max_identity_bytes :: u64
  max_parameter_bytes :: u64
  max_in_values :: u64
  max_spatial_points :: u64
  max_spatial_depth :: u64

record 'c VpsCursorBudget =
  budget_limits :: VpsCursorLimits
  result_rows :: u64
  result_bytes :: u64
  budget_cursor_id :: u64
  budget_logger :: "'c VpsLogger option"

record 'c VpsCursorMachine =
  cursor_state :: VpsCursorState
  waiting_from :: VpsCursorState
  cursor_id :: u64
  transition_count :: u64
  cursor_logger :: "'c VpsLogger option"

section \<open>The state machine\<close>

definition vps_cursor_state_name :: "VpsCursorState \<Rightarrow> string" where
  "vps_cursor_state_name x =
     (case x of
        VPS_CURSOR_NEW \<Rightarrow> ''new''
      | VPS_CURSOR_OPEN \<Rightarrow> ''open''
      | VPS_CURSOR_FILTERING \<Rightarrow> ''filtering''
      | VPS_CURSOR_WAITING \<Rightarrow> ''waiting''
      | VPS_CURSOR_ROW_READY \<Rightarrow> ''row_ready''
      | VPS_CURSOR_EOF \<Rightarrow> ''eof''
      | VPS_CURSOR_CANCELLING \<Rightarrow> ''cancelling''
      | VPS_CURSOR_FAILED \<Rightarrow> ''failed''
      | VPS_CURSOR_CLOSED \<Rightarrow> ''closed''
      | VPS_CURSOR_STATE_OUT_OF_RANGE _ \<Rightarrow> ''invalid'')"

definition vps_cursor_event_name :: "VpsCursorEvent \<Rightarrow> string" where
  "vps_cursor_event_name x =
     (case x of
        VPS_CURSOR_EVENT_OPEN \<Rightarrow> ''open''
      | VPS_CURSOR_EVENT_FILTER \<Rightarrow> ''filter''
      | VPS_CURSOR_EVENT_FETCH \<Rightarrow> ''fetch''
      | VPS_CURSOR_EVENT_WAIT \<Rightarrow> ''wait''
      | VPS_CURSOR_EVENT_RESUME \<Rightarrow> ''resume''
      | VPS_CURSOR_EVENT_ROW \<Rightarrow> ''row''
      | VPS_CURSOR_EVENT_COMPLETE \<Rightarrow> ''complete''
      | VPS_CURSOR_EVENT_CANCEL \<Rightarrow> ''cancel''
      | VPS_CURSOR_EVENT_FAIL \<Rightarrow> ''fail''
      | VPS_CURSOR_EVENT_CLOSE \<Rightarrow> ''close''
      | VPS_CURSOR_EVENT_OUT_OF_RANGE _ \<Rightarrow> ''invalid'')"

definition vps_cursor_log ::
    "'c VpsCursorMachine \<Rightarrow> VpsCursorState \<Rightarrow> VpsCursorEvent \<Rightarrow> VpsCursorState \<Rightarrow> string \<Rightarrow>
     'c VpsCursorMachine" where
  "vps_cursor_log machine old_state event new_state outcome =
     machine\<lparr>cursor_logger := log_emit_strict (cursor_logger machine)
        (if outcome = ''ok'' then VPS_LOG_LEVEL_DEBUG else VPS_LOG_LEVEL_ERROR)
        [LogStr VPS_LOG_FIELD_OPERATION ''cursor'',
         LogStr VPS_LOG_FIELD_PHASE (vps_cursor_event_name event),
         LogStr VPS_LOG_FIELD_ARGUMENT (vps_cursor_state_name old_state),
         LogStr VPS_LOG_FIELD_STATUS (vps_cursor_state_name new_state),
         LogNum VPS_LOG_FIELD_GENERATION (cursor_id machine)]\<rparr>"

definition vps_cursor_machine_init ::
    "'c VpsCursorMachine option \<Rightarrow> u64 \<Rightarrow> 'c VpsLogger option \<Rightarrow>
     VpsCursorResult \<times> 'c VpsCursorMachine option" where
  "vps_cursor_machine_init machine new_id logger =
     (if machine = None \<or> new_id = 0 then (VPS_CURSOR_INVALID_ARGUMENT, machine)
      else (VPS_CURSOR_OK,
            Some \<lparr>cursor_state = VPS_CURSOR_NEW, waiting_from = VPS_CURSOR_NEW, cursor_id = new_id,
                  transition_count = 0, cursor_logger = logger\<rparr>))"

definition vps_cursor_next_state ::
    "'c VpsCursorMachine \<Rightarrow> VpsCursorEvent \<Rightarrow> VpsCursorState option" where
  "vps_cursor_next_state machine event =
     (let state = cursor_state machine in
      if event = VPS_CURSOR_EVENT_FAIL \<and> state \<noteq> VPS_CURSOR_CLOSED then Some VPS_CURSOR_FAILED
      else if event = VPS_CURSOR_EVENT_CLOSE \<and> state \<noteq> VPS_CURSOR_CLOSED then Some VPS_CURSOR_CLOSED
      else case state of
        VPS_CURSOR_NEW \<Rightarrow>
          if event = VPS_CURSOR_EVENT_OPEN then Some VPS_CURSOR_OPEN else None
      | VPS_CURSOR_OPEN \<Rightarrow>
          if event = VPS_CURSOR_EVENT_FILTER then Some VPS_CURSOR_FILTERING else None
      | VPS_CURSOR_EOF \<Rightarrow>
          if event = VPS_CURSOR_EVENT_FILTER then Some VPS_CURSOR_FILTERING else None
      | VPS_CURSOR_FILTERING \<Rightarrow>
          if event = VPS_CURSOR_EVENT_WAIT then Some VPS_CURSOR_WAITING
          else if event = VPS_CURSOR_EVENT_ROW then Some VPS_CURSOR_ROW_READY
          else if event = VPS_CURSOR_EVENT_COMPLETE then Some VPS_CURSOR_EOF
          else if event = VPS_CURSOR_EVENT_CANCEL then Some VPS_CURSOR_CANCELLING
          else None
      | VPS_CURSOR_WAITING \<Rightarrow>
          if event = VPS_CURSOR_EVENT_RESUME then Some (waiting_from machine)
          else if event = VPS_CURSOR_EVENT_CANCEL then Some VPS_CURSOR_CANCELLING
          else None
      | VPS_CURSOR_ROW_READY \<Rightarrow>
          if event = VPS_CURSOR_EVENT_FETCH then Some VPS_CURSOR_FILTERING
          else if event = VPS_CURSOR_EVENT_CANCEL then Some VPS_CURSOR_CANCELLING
          else None
      | VPS_CURSOR_CANCELLING \<Rightarrow>
          if event = VPS_CURSOR_EVENT_WAIT then Some VPS_CURSOR_WAITING
          else if event = VPS_CURSOR_EVENT_COMPLETE then Some VPS_CURSOR_EOF
          else None
      | VPS_CURSOR_FAILED \<Rightarrow> None
      | VPS_CURSOR_CLOSED \<Rightarrow> None
      | VPS_CURSOR_STATE_OUT_OF_RANGE _ \<Rightarrow> None)"

definition vps_cursor_transition ::
    "'c VpsCursorMachine option \<Rightarrow> VpsCursorEvent \<Rightarrow> VpsCursorResult \<times> 'c VpsCursorMachine option" where
  "vps_cursor_transition machine_ptr event =
     (case machine_ptr of
        None \<Rightarrow> (VPS_CURSOR_INVALID_ARGUMENT, None)
      | Some machine \<Rightarrow>
          if (case event of VPS_CURSOR_EVENT_OUT_OF_RANGE _ \<Rightarrow> True | _ \<Rightarrow> False)
          then (VPS_CURSOR_INVALID_ARGUMENT, Some machine)
          else let old_state = cursor_state machine in
            case vps_cursor_next_state machine event of
              None \<Rightarrow> (VPS_CURSOR_INVALID_TRANSITION,
                       Some (vps_cursor_log machine old_state event old_state ''invalid_transition''))
            | Some next \<Rightarrow>
                let machine1 = (if event = VPS_CURSOR_EVENT_WAIT
                                then machine\<lparr>waiting_from := old_state\<rparr> else machine);
                    machine2 = machine1\<lparr>cursor_state := next,
                                        transition_count := transition_count machine1 + 1\<rparr>
                in (VPS_CURSOR_OK, Some (vps_cursor_log machine2 old_state event next ''ok'')))"

section \<open>The result budget\<close>

definition vps_cursor_limits_default :: "nat \<Rightarrow> VpsCursorLimits" where
  "vps_cursor_limits_default sizeof_pointer =
     \<lparr>max_result_rows = 10000000,
      max_result_bytes = (if sizeof_pointer = 4 then 268435456 else 1073741824),
      max_column_bytes = 16777216,
      max_query_bytes = 1048576,
      max_identity_bytes = 65536,
      max_parameter_bytes = 4194304,
      max_in_values = 4096,
      max_spatial_points = (if sizeof_pointer = 4 then 250000 else 1000000),
      max_spatial_depth = 64\<rparr>"

definition vps_cursor_budget_init ::
    "'c VpsCursorBudget option \<Rightarrow> VpsCursorLimits option \<Rightarrow> u64 \<Rightarrow> 'c VpsLogger option \<Rightarrow>
     VpsCursorLimitResult \<times> 'c VpsCursorBudget option" where
  "vps_cursor_budget_init budget limits_ptr new_id logger =
     (case limits_ptr of
        None \<Rightarrow> (VPS_CURSOR_LIMIT_INVALID_ARGUMENT, budget)
      | Some limits \<Rightarrow>
          if budget = None \<or> new_id = 0 \<or> max_result_rows limits = 0 \<or> max_result_bytes limits = 0 \<or>
             max_column_bytes limits = 0 \<or> max_query_bytes limits = 0 \<or>
             max_identity_bytes limits = 0 \<or> max_parameter_bytes limits = 0 \<or>
             max_in_values limits = 0 \<or> max_spatial_points limits = 0 \<or>
             max_spatial_depth limits = 0
          then (VPS_CURSOR_LIMIT_INVALID_ARGUMENT, budget)
          else (VPS_CURSOR_LIMIT_OK,
                Some \<lparr>budget_limits = limits, result_rows = 0, result_bytes = 0,
                      budget_cursor_id = new_id, budget_logger = logger\<rparr>))"

definition vps_cursor_budget_reset :: "'c VpsCursorBudget option \<Rightarrow> 'c VpsCursorBudget option" where
  "vps_cursor_budget_reset budget = map_option (\<lambda>b. b\<lparr>result_rows := 0, result_bytes := 0\<rparr>) budget"

definition vps_cursor_limit_log :: "'c VpsCursorBudget \<Rightarrow> string \<Rightarrow> u64 \<Rightarrow> 'c VpsCursorBudget" where
  "vps_cursor_limit_log budget name observed =
     budget\<lparr>budget_logger := log_emit_strict (budget_logger budget) VPS_LOG_LEVEL_WARN
        [LogStr VPS_LOG_FIELD_OPERATION ''cursor'',
         LogStr VPS_LOG_FIELD_PHASE ''limit'',
         LogStr VPS_LOG_FIELD_ARGUMENT name,
         LogStr VPS_LOG_FIELD_STATUS ''exceeded'',
         LogNum VPS_LOG_FIELD_BYTE_COUNT observed,
         LogNum VPS_LOG_FIELD_GENERATION (budget_cursor_id budget)]\<rparr>"

definition vps_cursor_budget_check_query ::
    "'c VpsCursorBudget option \<Rightarrow> u64 \<Rightarrow> u64 \<Rightarrow> u64 \<Rightarrow> VpsCursorLimitResult" where
  "vps_cursor_budget_check_query budget_ptr query_bytes parameter_bytes in_values =
     (case budget_ptr of
        None \<Rightarrow> VPS_CURSOR_LIMIT_INVALID_ARGUMENT
      | Some budget \<Rightarrow>
          if budget_cursor_id budget = 0 then VPS_CURSOR_LIMIT_INVALID_ARGUMENT
          else if query_bytes > max_query_bytes (budget_limits budget) \<or>
                  parameter_bytes > max_parameter_bytes (budget_limits budget) \<or>
                  in_values > max_in_values (budget_limits budget)
          then VPS_CURSOR_LIMIT_EXCEEDED
          else VPS_CURSOR_LIMIT_OK)"

definition vps_cursor_budget_observe_row ::
    "'c VpsCursorBudget option \<Rightarrow> u64 \<Rightarrow> u64 \<Rightarrow> u64 \<Rightarrow>
     VpsCursorLimitResult \<times> 'c VpsCursorBudget option" where
  "vps_cursor_budget_observe_row budget_ptr row_bytes largest_column identity_bytes =
     (case budget_ptr of
        None \<Rightarrow> (VPS_CURSOR_LIMIT_INVALID_ARGUMENT, None)
      | Some budget \<Rightarrow>
          if budget_cursor_id budget = 0 then (VPS_CURSOR_LIMIT_INVALID_ARGUMENT, Some budget)
          else if result_rows budget = UINT64_MAX \<or> row_bytes > UINT64_MAX - result_bytes budget
          then (VPS_CURSOR_LIMIT_OVERFLOW, Some budget)
          else
            let next_rows = result_rows budget + 1;
                next_bytes = result_bytes budget + row_bytes;
                limits = budget_limits budget;
                limit_name =
                  (if largest_column > max_column_bytes limits then Some ''max_column_bytes''
                   else if identity_bytes > max_identity_bytes limits then Some ''max_identity_bytes''
                   else if next_rows > max_result_rows limits then Some ''max_result_rows''
                   else if next_bytes > max_result_bytes limits then Some ''max_result_bytes''
                   else None)
            in case limit_name of
                 Some name \<Rightarrow>
                   let observed = (if name = ''max_column_bytes'' then largest_column
                                   else if name = ''max_identity_bytes'' then identity_bytes
                                   else if name = ''max_result_rows'' then next_rows
                                   else next_bytes)
                   in (VPS_CURSOR_LIMIT_EXCEEDED, Some (vps_cursor_limit_log budget name observed))
               | None \<Rightarrow>
                   (VPS_CURSOR_LIMIT_OK,
                    Some (budget\<lparr>result_rows := next_rows, result_bytes := next_bytes\<rparr>)))"

section \<open>Runs\<close>

definition cursor_step :: "'c VpsCursorMachine \<Rightarrow> VpsCursorEvent \<Rightarrow> 'c VpsCursorMachine" where
  "cursor_step m e = the (snd (vps_cursor_transition (Some m) e))"

definition cursor_inv :: "'c VpsCursorMachine \<Rightarrow> bool" where
  "cursor_inv m \<longleftrightarrow> (cursor_state m = VPS_CURSOR_WAITING \<longrightarrow>
     waiting_from m = VPS_CURSOR_FILTERING \<or> waiting_from m = VPS_CURSOR_CANCELLING)"

text \<open>The query of the cursor has been abandoned: by a cancellation, by its end, by an error or by
  closing the cursor.\<close>

definition cursor_abandoned :: "'c VpsCursorMachine \<Rightarrow> bool" where
  "cursor_abandoned m \<longleftrightarrow>
     cursor_state m = VPS_CURSOR_CANCELLING \<or> cursor_state m = VPS_CURSOR_EOF \<or>
     cursor_state m = VPS_CURSOR_FAILED \<or> cursor_state m = VPS_CURSOR_CLOSED \<or>
     cursor_state m = VPS_CURSOR_WAITING \<and> waiting_from m = VPS_CURSOR_CANCELLING"

definition budget_observe :: "'c VpsCursorBudget \<Rightarrow> u64 \<times> u64 \<times> u64 \<Rightarrow> 'c VpsCursorBudget option" where
  "budget_observe b row =
     (case row of (row_bytes, largest_column, identity_bytes) \<Rightarrow>
        (case vps_cursor_budget_observe_row (Some b) row_bytes largest_column identity_bytes of
           (VPS_CURSOR_LIMIT_OK, b') \<Rightarrow> b'
         | _ \<Rightarrow> None))"

section \<open>Lemmas\<close>

lemma vps_cursor_log_frame [simp, vps_frame]:
  "cursor_state (vps_cursor_log m old e new outcome) = cursor_state m"
  "waiting_from (vps_cursor_log m old e new outcome) = waiting_from m"
  "cursor_id (vps_cursor_log m old e new outcome) = cursor_id m"
  "transition_count (vps_cursor_log m old e new outcome) = transition_count m"
  by (simp_all add: vps_cursor_log_def)

lemma vps_cursor_next_state_out_of_range [simp]:
  "vps_cursor_next_state m (VPS_CURSOR_EVENT_OUT_OF_RANGE n) = None"
  by (simp add: vps_cursor_next_state_def split: VpsCursorState.split)

lemma cursor_step_unfold:
  "cursor_step m e =
     (if \<exists>n. e = VPS_CURSOR_EVENT_OUT_OF_RANGE n then m
      else case vps_cursor_next_state m e of
        None \<Rightarrow> vps_cursor_log m (cursor_state m) e (cursor_state m) ''invalid_transition''
      | Some s \<Rightarrow>
          vps_cursor_log (m\<lparr>waiting_from := (if e = VPS_CURSOR_EVENT_WAIT then cursor_state m
                                             else waiting_from m),
                            cursor_state := s, transition_count := transition_count m + 1\<rparr>)
            (cursor_state m) e s ''ok'')"
  by (cases e; cases "vps_cursor_next_state m e")
    (simp_all add: cursor_step_def vps_cursor_transition_def Let_def)

lemma cursor_step_state:
  "cursor_state (cursor_step m e) =
     (case vps_cursor_next_state m e of None \<Rightarrow> cursor_state m | Some s \<Rightarrow> s)"
  "waiting_from (cursor_step m e) =
     (if e = VPS_CURSOR_EVENT_WAIT \<and> vps_cursor_next_state m e \<noteq> None then cursor_state m
      else waiting_from m)"
  unfolding cursor_step_unfold by (auto split: option.split)

lemma vps_cursor_next_state_waiting:
  "vps_cursor_next_state m e = Some VPS_CURSOR_WAITING \<Longrightarrow>
     e = VPS_CURSOR_EVENT_WAIT \<and>
       (cursor_state m = VPS_CURSOR_FILTERING \<or> cursor_state m = VPS_CURSOR_CANCELLING) \<or>
     e = VPS_CURSOR_EVENT_RESUME \<and> cursor_state m = VPS_CURSOR_WAITING \<and>
       waiting_from m = VPS_CURSOR_WAITING"
  by (auto simp: vps_cursor_next_state_def Let_def split: if_splits VpsCursorState.splits)

lemma cursor_step_inv: "cursor_inv m \<Longrightarrow> cursor_inv (cursor_step m e)"
  using vps_cursor_next_state_waiting [of m e]
  by (auto simp: cursor_inv_def cursor_step_state split: option.splits if_splits)

lemma cursor_step_abandoned:
  assumes "cursor_abandoned m" and "e \<noteq> VPS_CURSOR_EVENT_FILTER"
  shows "cursor_abandoned (cursor_step m e)"
proof (cases "vps_cursor_next_state m e")
  case None
  then show ?thesis using assms(1) by (simp add: cursor_abandoned_def cursor_step_state)
next
  case (Some s)
  have "s \<in> {VPS_CURSOR_CANCELLING, VPS_CURSOR_EOF, VPS_CURSOR_FAILED, VPS_CURSOR_CLOSED} \<or>
      s = VPS_CURSOR_WAITING \<and> e = VPS_CURSOR_EVENT_WAIT \<and> cursor_state m = VPS_CURSOR_CANCELLING"
    using assms Some unfolding cursor_abandoned_def vps_cursor_next_state_def Let_def
    by (elim disjE conjE) (simp_all split: if_splits)
  then show ?thesis
    using Some by (auto simp: cursor_abandoned_def cursor_step_state)
qed

interpretation cursor: guarded_machine cursor_step "\<lambda>_. True" cursor_inv
  by unfold_locales (rule cursor_step_inv)

interpretation cancelled: guarded_machine cursor_step "\<lambda>e. e \<noteq> VPS_CURSOR_EVENT_FILTER" cursor_abandoned
  by unfold_locales (rule cursor_step_abandoned)

lemma budget_observe_accepted:
  assumes "budget_observe b (row_bytes, largest_column, identity_bytes) = Some b'"
  shows "b' = b\<lparr>result_rows := result_rows b + 1, result_bytes := result_bytes b + row_bytes\<rparr>"
    and "result_rows b \<noteq> UINT64_MAX" and "row_bytes \<le> UINT64_MAX - result_bytes b"
    and "result_rows b + 1 \<le> max_result_rows (budget_limits b)"
    and "result_bytes b + row_bytes \<le> max_result_bytes (budget_limits b)"
  using assms
  by (auto simp: budget_observe_def vps_cursor_budget_observe_row_def Let_def not_less
      split: if_splits option.splits VpsCursorLimitResult.splits)

interpretation budget: row_meter budget_observe fst result_rows result_bytes
  "\<lambda>b. max_result_rows (budget_limits b)" "\<lambda>b. max_result_bytes (budget_limits b)"
proof
  fix b b' :: "'c VpsCursorBudget" and row :: "u64 \<times> u64 \<times> u64"
  assume a: "budget_observe b row = Some b'"
  obtain rb lc ib where row: "row = (rb, lc, ib)" by (metis prod_cases3)
  note acc = budget_observe_accepted [OF a [unfolded row]]
  have "unat (result_rows b + 1) = unat (result_rows b) + 1"
    using acc(2) by (rule unat_Suc_no_wrap)
  moreover have "unat (result_bytes b + rb) = unat (result_bytes b) + unat rb"
    using acc(3) by (rule unat_add_no_wrap)
  ultimately show "unat (result_rows b') = unat (result_rows b) + 1 \<and>
      unat (result_bytes b') = unat (result_bytes b) + unat (fst row) \<and>
      result_rows b' \<le> max_result_rows (budget_limits b) \<and>
      result_bytes b' \<le> max_result_bytes (budget_limits b) \<and>
      max_result_rows (budget_limits b') = max_result_rows (budget_limits b) \<and>
      max_result_bytes (budget_limits b') = max_result_bytes (budget_limits b)"
    using acc by (simp add: row)
qed

section \<open>Properties\<close>

text \<open>In any sequence of events from a fresh machine, a cursor that waits came from the filtering
  or the cancelling state, and resuming it is accepted and returns it to exactly that state.\<close>

lemma cursor_resume_returns:
  assumes "vps_cursor_machine_init slot new_id logger = (VPS_CURSOR_OK, Some m0)"
    and "foldl cursor_step m0 es = m" and "cursor_state m = VPS_CURSOR_WAITING"
  shows "\<exists>m'. vps_cursor_transition (Some m) VPS_CURSOR_EVENT_RESUME = (VPS_CURSOR_OK, Some m') \<and>
     cursor_state m' = waiting_from m \<and>
     cursor_state m' \<in> {VPS_CURSOR_FILTERING, VPS_CURSOR_CANCELLING}"
proof -
  have "cursor_inv m0"
    using assms(1) by (auto simp: vps_cursor_machine_init_def cursor_inv_def split: if_splits)
  then have "cursor_inv m"
    using cursor.run_inv [of m0 es] assms(2) by (simp add: list_all_iff)
  then show ?thesis
    using assms(3)
    by (auto simp: vps_cursor_transition_def vps_cursor_next_state_def Let_def cursor_inv_def)
qed

text \<open>C10. A machine that is cancelled while a query runs never offers another row: whatever events
  follow, the state is \<open>ROW_READY\<close> again only after a new filter event.\<close>

theorem cursor_no_row_after_cancel:
  assumes "vps_cursor_transition (Some m) VPS_CURSOR_EVENT_CANCEL = (VPS_CURSOR_OK, Some m1)"
    and "VPS_CURSOR_EVENT_FILTER \<notin> set es"
  shows "cursor_state (foldl cursor_step m1 es) \<noteq> VPS_CURSOR_ROW_READY \<and>
     fst (vps_cursor_transition (Some (foldl cursor_step m1 es)) VPS_CURSOR_EVENT_ROW)
       = VPS_CURSOR_INVALID_TRANSITION"
proof -
  have "cursor_abandoned m1"
    using assms(1)
    by (auto simp: vps_cursor_transition_def vps_cursor_next_state_def Let_def cursor_abandoned_def
        split: option.splits if_splits VpsCursorState.splits)
  then have "cursor_abandoned (foldl cursor_step m1 es)"
    using assms(2) by (intro cancelled.run_inv) (auto simp: list_all_iff)
  then show ?thesis
    by (auto simp: cursor_abandoned_def vps_cursor_transition_def vps_cursor_next_state_def Let_def)
qed

theorem cursor_no_row_after_cancel_witness:
  "cursor_state (foldl cursor_step
       \<lparr>cursor_state = VPS_CURSOR_CANCELLING, waiting_from = VPS_CURSOR_NEW, cursor_id = 7,
        transition_count = 5, cursor_logger = (None :: unit VpsLogger option)\<rparr>
       [VPS_CURSOR_EVENT_WAIT, VPS_CURSOR_EVENT_RESUME, VPS_CURSOR_EVENT_ROW]) \<noteq> VPS_CURSOR_ROW_READY"
proof -
  let ?m = "\<lparr>cursor_state = VPS_CURSOR_FILTERING, waiting_from = VPS_CURSOR_NEW, cursor_id = 7,
        transition_count = 4, cursor_logger = (None :: unit VpsLogger option)\<rparr>"
  let ?m1 = "\<lparr>cursor_state = VPS_CURSOR_CANCELLING, waiting_from = VPS_CURSOR_NEW, cursor_id = 7,
        transition_count = 5, cursor_logger = (None :: unit VpsLogger option)\<rparr>"
  have "vps_cursor_transition (Some ?m) VPS_CURSOR_EVENT_CANCEL = (VPS_CURSOR_OK, Some ?m1)"
    by (simp add: vps_cursor_transition_def vps_cursor_next_state_def vps_cursor_log_def
        log_emit_strict_def)
  then show ?thesis
    using cursor_no_row_after_cancel
      [of ?m ?m1 "[VPS_CURSOR_EVENT_WAIT, VPS_CURSOR_EVENT_RESUME, VPS_CURSOR_EVENT_ROW]"]
    by simp
qed

text \<open>C11. The budget of a cursor counts exactly the rows and bytes it accepts, in 64-bit counters that
  do not wrap, and never beyond the limits it was created with.\<close>

theorem cursor_budget_exact:
  assumes "vps_cursor_budget_init slot (Some limits) new_id logger = (VPS_CURSOR_LIMIT_OK, Some b0)"
    and "meter_run budget_observe b0 rows = Some b"
  shows "unat (result_rows b) = length rows \<and>
     unat (result_bytes b) = sum_list (map (unat \<circ> fst) rows) \<and>
     length rows \<le> unat (max_result_rows limits) \<and>
     sum_list (map (unat \<circ> fst) rows) \<le> unat (max_result_bytes limits)"
proof -
  have b0: "b0 = \<lparr>budget_limits = limits, result_rows = 0, result_bytes = 0,
      budget_cursor_id = new_id, budget_logger = logger\<rparr>"
    using assms(1) by (auto simp: vps_cursor_budget_init_def split: if_splits)
  from budget.run_counts [OF assms(2)] budget.run_within_limits [OF assms(2)] b0
  show ?thesis by (auto simp: word_le_nat_alt)
qed

theorem cursor_budget_exact_witness:
  "\<exists>b. meter_run budget_observe
       \<lparr>budget_limits = vps_cursor_limits_default 8, result_rows = 0, result_bytes = 0,
        budget_cursor_id = 1, budget_logger = (None :: unit VpsLogger option)\<rparr>
       [(100, 60, 8), (250, 200, 8)] = Some b \<and> unat (result_bytes b) = 350"
proof -
  let ?b0 = "\<lparr>budget_limits = vps_cursor_limits_default 8, result_rows = 0, result_bytes = 0,
        budget_cursor_id = 1, budget_logger = (None :: unit VpsLogger option)\<rparr>"
  have i: "vps_cursor_budget_init (Some ?b0) (Some (vps_cursor_limits_default 8)) 1 None =
      (VPS_CURSOR_LIMIT_OK, Some ?b0)"
    by (simp add: vps_cursor_budget_init_def vps_cursor_limits_default_def)
  obtain b where r: "meter_run budget_observe ?b0 [(100, 60, 8), (250, 200, 8)] = Some b"
    by (simp add: budget_observe_def vps_cursor_budget_observe_row_def vps_cursor_limits_default_def)
  show ?thesis using cursor_budget_exact [OF i r] r by auto
qed

end
