(* ===== verification/Vps_Platform.thy ===== *)
theory Vps_Platform
  imports Vps_Logging
begin

text \<open>
  The platform contract of \<open>src/src/vps_platform.c\<close>: the table of operating-system operations, its
  validation, and the wrappers that dispatch through it. The operations themselves belong to the
  operating system and are functions in the table over a platform state of type \<open>'p\<close>; an output
  parameter of the C signature is a component of the function's result. The stub tables of
  \<open>vps_posix.c\<close> and \<open>vps_android.c\<close>, which offer nothing, are included.
\<close>

section \<open>Data\<close>

datatype VpsPlatformStatus =
    VPS_PLATFORM_OK
  | VPS_PLATFORM_TIMEOUT
  | VPS_PLATFORM_UNSUPPORTED
  | VPS_PLATFORM_INVALID_ARGUMENT
  | VPS_PLATFORM_BUFFER_TOO_SMALL
  | VPS_PLATFORM_NOT_FOUND
  | VPS_PLATFORM_SYSTEM_ERROR

datatype VpsWaitInterest =
    VPS_WAIT_READ
  | VPS_WAIT_WRITE
  | VPS_WAIT_READ_WRITE
  | VPS_WAIT_OUT_OF_RANGE int

text \<open>The casts between the enumeration and \<open>int\<close> that the masks of the wait loop use.\<close>

fun wait_interest_bits :: "VpsWaitInterest \<Rightarrow> int" where
  "wait_interest_bits VPS_WAIT_READ = 1"
| "wait_interest_bits VPS_WAIT_WRITE = 2"
| "wait_interest_bits VPS_WAIT_READ_WRITE = 3"
| "wait_interest_bits (VPS_WAIT_OUT_OF_RANGE n) = n"

definition wait_interest_of :: "int \<Rightarrow> VpsWaitInterest" where
  "wait_interest_of n =
     (if n = 1 then VPS_WAIT_READ else if n = 2 then VPS_WAIT_WRITE
      else if n = 3 then VPS_WAIT_READ_WRITE else VPS_WAIT_OUT_OF_RANGE n)"

record VpsPlatformMutex =
  mutex_state :: u32
  mutex_native :: "u8 list"

record VpsPlatformCondition =
  condition_state :: u32
  condition_native :: "u8 list"

record 'p VpsPlatformOperations =
  structure_size :: u32
  contract_version :: u32
  capabilities :: u64
  op_monotonic_now_ms :: "('p \<Rightarrow> VpsPlatformStatus \<times> u64 \<times> 'p) option"
  op_mutex_init :: "(VpsPlatformMutex \<Rightarrow> 'p \<Rightarrow> VpsPlatformStatus \<times> VpsPlatformMutex \<times> 'p) option"
  op_mutex_destroy :: "(VpsPlatformMutex \<Rightarrow> 'p \<Rightarrow> VpsPlatformStatus \<times> VpsPlatformMutex \<times> 'p) option"
  op_mutex_lock :: "(VpsPlatformMutex \<Rightarrow> 'p \<Rightarrow> VpsPlatformStatus \<times> VpsPlatformMutex \<times> 'p) option"
  op_mutex_unlock :: "(VpsPlatformMutex \<Rightarrow> 'p \<Rightarrow> VpsPlatformStatus \<times> VpsPlatformMutex \<times> 'p) option"
  op_condition_init ::
    "(VpsPlatformCondition \<Rightarrow> 'p \<Rightarrow> VpsPlatformStatus \<times> VpsPlatformCondition \<times> 'p) option"
  op_condition_destroy ::
    "(VpsPlatformCondition \<Rightarrow> 'p \<Rightarrow> VpsPlatformStatus \<times> VpsPlatformCondition \<times> 'p) option"
  op_condition_wait ::
    "(VpsPlatformCondition \<Rightarrow> VpsPlatformMutex \<Rightarrow> u32 \<Rightarrow> 'p \<Rightarrow>
      VpsPlatformStatus \<times> (VpsPlatformCondition \<times> VpsPlatformMutex) \<times> 'p) option"
  op_condition_signal ::
    "(VpsPlatformCondition \<Rightarrow> 'p \<Rightarrow> VpsPlatformStatus \<times> VpsPlatformCondition \<times> 'p) option"
  op_condition_broadcast ::
    "(VpsPlatformCondition \<Rightarrow> 'p \<Rightarrow> VpsPlatformStatus \<times> VpsPlatformCondition \<times> 'p) option"
  op_socket_wait ::
    "(int \<Rightarrow> VpsWaitInterest \<Rightarrow> u32 \<Rightarrow> VpsWaitInterest \<Rightarrow> 'p \<Rightarrow>
      VpsPlatformStatus \<times> VpsWaitInterest \<times> 'p) option"
  op_secure_zero :: "(u8 list \<Rightarrow> 'p \<Rightarrow> VpsPlatformStatus \<times> u8 list \<times> 'p) option"
  op_environment_get ::
    "(string option \<Rightarrow> u8 list \<Rightarrow> 'p \<Rightarrow> VpsPlatformStatus \<times> (u8 list \<times> size_t) \<times> 'p) option"
  op_file_read ::
    "(string option \<Rightarrow> u64 \<Rightarrow> u8 list \<Rightarrow> 'p \<Rightarrow> VpsPlatformStatus \<times> (u8 list \<times> size_t) \<times> 'p) option"
  op_entropy_fill :: "(u8 list \<Rightarrow> 'p \<Rightarrow> VpsPlatformStatus \<times> u8 list \<times> 'p) option"

abbreviation (input) VPS_PLATFORM_CAP_MONOTONIC_CLOCK :: u64 where "VPS_PLATFORM_CAP_MONOTONIC_CLOCK \<equiv> 1"
abbreviation (input) VPS_PLATFORM_CAP_MUTEX :: u64 where "VPS_PLATFORM_CAP_MUTEX \<equiv> 2"
abbreviation (input) VPS_PLATFORM_CAP_CONDITION :: u64 where "VPS_PLATFORM_CAP_CONDITION \<equiv> 4"
abbreviation (input) VPS_PLATFORM_CAP_SOCKET_WAIT :: u64 where "VPS_PLATFORM_CAP_SOCKET_WAIT \<equiv> 8"
abbreviation (input) VPS_PLATFORM_CONTRACT_VERSION :: u32 where "VPS_PLATFORM_CONTRACT_VERSION \<equiv> 1"

text \<open>Two 32-bit fields, one 64-bit field and fifteen pointers.\<close>

abbreviation (input) sizeof_VpsPlatformOperations :: u32 where "sizeof_VpsPlatformOperations \<equiv> 136"

section \<open>Operations\<close>

definition vps_platform_validate_operations ::
    "'p VpsPlatformOperations option \<Rightarrow> u64 \<Rightarrow> VpsPlatformStatus" where
  "vps_platform_validate_operations operations required_capabilities =
     (case operations of
        None \<Rightarrow> VPS_PLATFORM_INVALID_ARGUMENT
      | Some ops \<Rightarrow>
          if structure_size ops < sizeof_VpsPlatformOperations \<or>
             contract_version ops \<noteq> VPS_PLATFORM_CONTRACT_VERSION
          then VPS_PLATFORM_INVALID_ARGUMENT
          else if capabilities ops AND required_capabilities \<noteq> required_capabilities
          then VPS_PLATFORM_UNSUPPORTED
          else VPS_PLATFORM_OK)"

text \<open>The dispatch macro: a missing table or member is \<open>UNSUPPORTED\<close> and leaves the output parameter
  and the platform alone.\<close>

definition platform_dispatch ::
    "'p VpsPlatformOperations option \<Rightarrow>
     ('p VpsPlatformOperations \<Rightarrow> ('p \<Rightarrow> VpsPlatformStatus \<times> 'r \<times> 'p) option) \<Rightarrow>
     'r \<Rightarrow> 'p \<Rightarrow> VpsPlatformStatus \<times> 'r \<times> 'p" where
  "platform_dispatch operations member out p =
     (case operations of
        None \<Rightarrow> (VPS_PLATFORM_UNSUPPORTED, out, p)
      | Some ops \<Rightarrow>
          (case member ops of None \<Rightarrow> (VPS_PLATFORM_UNSUPPORTED, out, p) | Some f \<Rightarrow> f p))"

definition vps_platform_monotonic_now_ms ::
    "'p VpsPlatformOperations option \<Rightarrow> u64 \<Rightarrow> 'p \<Rightarrow> VpsPlatformStatus \<times> u64 \<times> 'p" where
  "vps_platform_monotonic_now_ms operations milliseconds p =
     platform_dispatch operations op_monotonic_now_ms milliseconds p"

definition vps_platform_mutex_init ::
    "'p VpsPlatformOperations option \<Rightarrow> VpsPlatformMutex \<Rightarrow> 'p \<Rightarrow>
     VpsPlatformStatus \<times> VpsPlatformMutex \<times> 'p" where
  "vps_platform_mutex_init operations mutex p =
     platform_dispatch operations (\<lambda>ops. map_option (\<lambda>f. f mutex) (op_mutex_init ops)) mutex p"

definition vps_platform_mutex_destroy ::
    "'p VpsPlatformOperations option \<Rightarrow> VpsPlatformMutex \<Rightarrow> 'p \<Rightarrow>
     VpsPlatformStatus \<times> VpsPlatformMutex \<times> 'p" where
  "vps_platform_mutex_destroy operations mutex p =
     platform_dispatch operations (\<lambda>ops. map_option (\<lambda>f. f mutex) (op_mutex_destroy ops)) mutex p"

definition vps_platform_mutex_lock ::
    "'p VpsPlatformOperations option \<Rightarrow> VpsPlatformMutex \<Rightarrow> 'p \<Rightarrow>
     VpsPlatformStatus \<times> VpsPlatformMutex \<times> 'p" where
  "vps_platform_mutex_lock operations mutex p =
     platform_dispatch operations (\<lambda>ops. map_option (\<lambda>f. f mutex) (op_mutex_lock ops)) mutex p"

definition vps_platform_mutex_unlock ::
    "'p VpsPlatformOperations option \<Rightarrow> VpsPlatformMutex \<Rightarrow> 'p \<Rightarrow>
     VpsPlatformStatus \<times> VpsPlatformMutex \<times> 'p" where
  "vps_platform_mutex_unlock operations mutex p =
     platform_dispatch operations (\<lambda>ops. map_option (\<lambda>f. f mutex) (op_mutex_unlock ops)) mutex p"

definition vps_platform_condition_init ::
    "'p VpsPlatformOperations option \<Rightarrow> VpsPlatformCondition \<Rightarrow> 'p \<Rightarrow>
     VpsPlatformStatus \<times> VpsPlatformCondition \<times> 'p" where
  "vps_platform_condition_init operations condition p =
     platform_dispatch operations (\<lambda>ops. map_option (\<lambda>f. f condition) (op_condition_init ops)) condition p"

definition vps_platform_condition_destroy ::
    "'p VpsPlatformOperations option \<Rightarrow> VpsPlatformCondition \<Rightarrow> 'p \<Rightarrow>
     VpsPlatformStatus \<times> VpsPlatformCondition \<times> 'p" where
  "vps_platform_condition_destroy operations condition p =
     platform_dispatch operations (\<lambda>ops. map_option (\<lambda>f. f condition) (op_condition_destroy ops)) condition p"

definition vps_platform_condition_wait ::
    "'p VpsPlatformOperations option \<Rightarrow> VpsPlatformCondition \<Rightarrow> VpsPlatformMutex \<Rightarrow> u32 \<Rightarrow> 'p \<Rightarrow>
     VpsPlatformStatus \<times> (VpsPlatformCondition \<times> VpsPlatformMutex) \<times> 'p" where
  "vps_platform_condition_wait operations condition mutex timeout_ms p =
     platform_dispatch operations
       (\<lambda>ops. map_option (\<lambda>f. f condition mutex timeout_ms) (op_condition_wait ops))
       (condition, mutex) p"

definition vps_platform_condition_signal ::
    "'p VpsPlatformOperations option \<Rightarrow> VpsPlatformCondition \<Rightarrow> 'p \<Rightarrow>
     VpsPlatformStatus \<times> VpsPlatformCondition \<times> 'p" where
  "vps_platform_condition_signal operations condition p =
     platform_dispatch operations (\<lambda>ops. map_option (\<lambda>f. f condition) (op_condition_signal ops)) condition p"

definition vps_platform_condition_broadcast ::
    "'p VpsPlatformOperations option \<Rightarrow> VpsPlatformCondition \<Rightarrow> 'p \<Rightarrow>
     VpsPlatformStatus \<times> VpsPlatformCondition \<times> 'p" where
  "vps_platform_condition_broadcast operations condition p =
     platform_dispatch operations (\<lambda>ops. map_option (\<lambda>f. f condition) (op_condition_broadcast ops)) condition p"

definition vps_platform_socket_wait ::
    "'p VpsPlatformOperations option \<Rightarrow> int \<Rightarrow> VpsWaitInterest \<Rightarrow> u32 \<Rightarrow> VpsWaitInterest \<Rightarrow> 'p \<Rightarrow>
     VpsPlatformStatus \<times> VpsWaitInterest \<times> 'p" where
  "vps_platform_socket_wait operations socket_handle interest timeout_ms ready_interest p =
     platform_dispatch operations
       (\<lambda>ops. map_option (\<lambda>f. f socket_handle interest timeout_ms ready_interest) (op_socket_wait ops))
       ready_interest p"

definition vps_platform_secure_zero ::
    "'p VpsPlatformOperations option \<Rightarrow> u8 list \<Rightarrow> 'p \<Rightarrow> VpsPlatformStatus \<times> u8 list \<times> 'p" where
  "vps_platform_secure_zero operations buffer p =
     platform_dispatch operations (\<lambda>ops. map_option (\<lambda>f. f buffer) (op_secure_zero ops)) buffer p"

definition vps_platform_environment_get ::
    "'p VpsPlatformOperations option \<Rightarrow> string option \<Rightarrow> u8 list \<Rightarrow> size_t \<Rightarrow> 'p \<Rightarrow>
     VpsPlatformStatus \<times> (u8 list \<times> size_t) \<times> 'p" where
  "vps_platform_environment_get operations name buffer required_size p =
     platform_dispatch operations (\<lambda>ops. map_option (\<lambda>f. f name buffer) (op_environment_get ops))
       (buffer, required_size) p"

definition vps_platform_file_read ::
    "'p VpsPlatformOperations option \<Rightarrow> string option \<Rightarrow> u64 \<Rightarrow> u8 list \<Rightarrow> size_t \<Rightarrow> 'p \<Rightarrow>
     VpsPlatformStatus \<times> (u8 list \<times> size_t) \<times> 'p" where
  "vps_platform_file_read operations path offset buffer bytes_read p =
     platform_dispatch operations (\<lambda>ops. map_option (\<lambda>f. f path offset buffer) (op_file_read ops))
       (buffer, bytes_read) p"

definition vps_platform_entropy_fill ::
    "'p VpsPlatformOperations option \<Rightarrow> u8 list \<Rightarrow> 'p \<Rightarrow> VpsPlatformStatus \<times> u8 list \<times> 'p" where
  "vps_platform_entropy_fill operations buffer p =
     platform_dispatch operations (\<lambda>ops. map_option (\<lambda>f. f buffer) (op_entropy_fill ops)) buffer p"

definition vps_posix_stub_operations :: "'p VpsPlatformOperations" where
  "vps_posix_stub_operations =
     \<lparr>structure_size = sizeof_VpsPlatformOperations, contract_version = VPS_PLATFORM_CONTRACT_VERSION,
      capabilities = 0,
      op_monotonic_now_ms = None, op_mutex_init = None, op_mutex_destroy = None, op_mutex_lock = None,
      op_mutex_unlock = None, op_condition_init = None, op_condition_destroy = None,
      op_condition_wait = None, op_condition_signal = None, op_condition_broadcast = None,
      op_socket_wait = None, op_secure_zero = None, op_environment_get = None, op_file_read = None,
      op_entropy_fill = None\<rparr>"

definition vps_android_stub_operations :: "'p VpsPlatformOperations" where
  "vps_android_stub_operations =
     \<lparr>structure_size = sizeof_VpsPlatformOperations, contract_version = VPS_PLATFORM_CONTRACT_VERSION,
      capabilities = 0,
      op_monotonic_now_ms = None, op_mutex_init = None, op_mutex_destroy = None, op_mutex_lock = None,
      op_mutex_unlock = None, op_condition_init = None, op_condition_destroy = None,
      op_condition_wait = None, op_condition_signal = None, op_condition_broadcast = None,
      op_socket_wait = None, op_secure_zero = None, op_environment_get = None, op_file_read = None,
      op_entropy_fill = None\<rparr>"

section \<open>Lemmas\<close>

lemma wait_interest_of_bits [simp]: "wait_interest_bits (wait_interest_of n) = n"
  by (simp add: wait_interest_of_def)

lemma stub_operations_validate:
  "vps_platform_validate_operations (Some vps_posix_stub_operations) caps =
     (if caps = 0 then VPS_PLATFORM_OK else VPS_PLATFORM_UNSUPPORTED)"
  "vps_platform_validate_operations (Some vps_android_stub_operations) caps =
     (if caps = 0 then VPS_PLATFORM_OK else VPS_PLATFORM_UNSUPPORTED)"
  by (simp_all add: vps_platform_validate_operations_def vps_posix_stub_operations_def
      vps_android_stub_operations_def)

end
