(* ===== verification/Vps_Deadline.thy ===== *)
theory Vps_Deadline
  imports Vps_Platform
begin

text \<open>
  Deadlines and the bounded socket wait of \<open>src/src/vps_deadline.c\<close>. The platform (clock and socket)
  and the interrupt probe are parameters that may answer anything at each call; the wait loop is a
  total function for every such platform, and its termination proof is the proof that the loop ends.
\<close>

section \<open>Data\<close>

abbreviation (input) VPS_WAIT_MAX_SLICE_MS :: u32 where "VPS_WAIT_MAX_SLICE_MS \<equiv> 1000"
abbreviation (input) VPS_WAIT_MAX_SPURIOUS_WAKEUPS :: u64 where "VPS_WAIT_MAX_SPURIOUS_WAKEUPS \<equiv> 64"

datatype VpsDeadlineStatus =
    VPS_DEADLINE_OK
  | VPS_DEADLINE_INVALID_ARGUMENT
  | VPS_DEADLINE_OVERFLOW
  | VPS_DEADLINE_CLOCK_ERROR
  | VPS_DEADLINE_WAIT_ERROR
  | VPS_DEADLINE_INTERRUPT_ERROR
  | VPS_DEADLINE_RETRY_LIMIT

datatype VpsWaitPhase =
    VPS_WAIT_PHASE_CONNECT
  | VPS_WAIT_PHASE_STATEMENT
  | VPS_WAIT_PHASE_LOCK
  | VPS_WAIT_PHASE_POOL
  | VPS_WAIT_PHASE_FETCH_IDLE
  | VPS_WAIT_PHASE_RESET
  | VPS_WAIT_PHASE_PING
  | VPS_WAIT_PHASE_CANCEL
  | VPS_WAIT_PHASE_OUT_OF_RANGE int

datatype VpsInterruptProbeResult =
    VPS_INTERRUPT_CONTINUE
  | VPS_INTERRUPT_REQUESTED
  | VPS_INTERRUPT_PROBE_ERROR

datatype VpsSocketWaitOutcome =
    VPS_SOCKET_WAIT_READY
  | VPS_SOCKET_WAIT_DEADLINE_EXPIRED
  | VPS_SOCKET_WAIT_INTERRUPTED
  | VPS_SOCKET_WAIT_FAILED
  | VPS_SOCKET_WAIT_OUTCOME_OUT_OF_RANGE int

record VpsDeadline =
  started_at_ms :: u64
  expires_at_ms :: u64

record ('p, 'i, 'c) VpsSocketWaitRequest =
  request_operations :: "'p VpsPlatformOperations option"
  request_socket_handle :: int
  request_interest :: VpsWaitInterest
  request_deadline :: "VpsDeadline option"
  request_max_slice_ms :: u32
  request_interrupt_probe :: "('i \<Rightarrow> VpsInterruptProbeResult \<times> 'i) option"
  request_interrupt_context :: 'i
  request_logger :: "'c VpsLogger option"
  request_phase :: VpsWaitPhase

record VpsSocketWaitResult =
  wait_outcome :: VpsSocketWaitOutcome
  wait_ready_interest :: VpsWaitInterest
  wait_platform_status :: VpsPlatformStatus
  wait_remaining_ms :: u64
  wait_count :: u64
  spurious_wakeup_count :: u64

section \<open>Operations\<close>

definition vps_wait_interest_is_valid :: "VpsWaitInterest \<Rightarrow> bool" where
  "vps_wait_interest_is_valid interest \<longleftrightarrow>
     interest = VPS_WAIT_READ \<or> interest = VPS_WAIT_WRITE \<or> interest = VPS_WAIT_READ_WRITE"

fun vps_wait_phase_is_valid :: "VpsWaitPhase \<Rightarrow> bool" where
  "vps_wait_phase_is_valid (VPS_WAIT_PHASE_OUT_OF_RANGE _) = False"
| "vps_wait_phase_is_valid _ = True"

fun vps_wait_phase_name :: "VpsWaitPhase \<Rightarrow> string" where
  "vps_wait_phase_name VPS_WAIT_PHASE_CONNECT = ''connect''"
| "vps_wait_phase_name VPS_WAIT_PHASE_STATEMENT = ''statement''"
| "vps_wait_phase_name VPS_WAIT_PHASE_LOCK = ''lock''"
| "vps_wait_phase_name VPS_WAIT_PHASE_POOL = ''pool''"
| "vps_wait_phase_name VPS_WAIT_PHASE_FETCH_IDLE = ''fetch_idle''"
| "vps_wait_phase_name VPS_WAIT_PHASE_RESET = ''reset''"
| "vps_wait_phase_name VPS_WAIT_PHASE_PING = ''ping''"
| "vps_wait_phase_name VPS_WAIT_PHASE_CANCEL = ''cancel''"
| "vps_wait_phase_name (VPS_WAIT_PHASE_OUT_OF_RANGE _) = ''unknown''"

fun vps_socket_wait_outcome_name :: "VpsSocketWaitOutcome \<Rightarrow> string" where
  "vps_socket_wait_outcome_name VPS_SOCKET_WAIT_READY = ''ready''"
| "vps_socket_wait_outcome_name VPS_SOCKET_WAIT_DEADLINE_EXPIRED = ''deadline_expired''"
| "vps_socket_wait_outcome_name VPS_SOCKET_WAIT_INTERRUPTED = ''interrupted''"
| "vps_socket_wait_outcome_name VPS_SOCKET_WAIT_FAILED = ''failed''"
| "vps_socket_wait_outcome_name (VPS_SOCKET_WAIT_OUTCOME_OUT_OF_RANGE _) = ''unknown''"

definition vps_wait_log ::
    "'c VpsLogger option \<Rightarrow> VpsLogLevel \<Rightarrow> VpsWaitPhase \<Rightarrow> u64 \<Rightarrow> string \<Rightarrow> 'c VpsLogger option" where
  "vps_wait_log logger level phase remaining_ms status =
     log_emit_strict logger level
       [LogStr VPS_LOG_FIELD_OPERATION ''socket_wait'',
        LogStr VPS_LOG_FIELD_PHASE
          (if vps_wait_phase_is_valid phase then vps_wait_phase_name phase else []),
        LogNum VPS_LOG_FIELD_DURATION_MS remaining_ms,
        LogStr VPS_LOG_FIELD_STATUS status]"

definition vps_wait_result_init :: VpsSocketWaitResult where
  "vps_wait_result_init =
     \<lparr>wait_outcome = VPS_SOCKET_WAIT_FAILED, wait_ready_interest = VPS_WAIT_OUT_OF_RANGE 0,
      wait_platform_status = VPS_PLATFORM_OK, wait_remaining_ms = 0, wait_count = 0,
      spurious_wakeup_count = 0\<rparr>"

definition vps_deadline_init_at ::
    "u64 \<Rightarrow> u64 \<Rightarrow> VpsDeadline option \<Rightarrow> VpsDeadlineStatus \<times> VpsDeadline option" where
  "vps_deadline_init_at now_ms duration_ms deadline =
     (if deadline = None then (VPS_DEADLINE_INVALID_ARGUMENT, deadline)
      else if duration_ms > UINT64_MAX - now_ms then (VPS_DEADLINE_OVERFLOW, deadline)
      else (VPS_DEADLINE_OK,
            Some \<lparr>started_at_ms = now_ms, expires_at_ms = now_ms + duration_ms\<rparr>))"

definition vps_deadline_start ::
    "'p VpsPlatformOperations option \<Rightarrow> u64 \<Rightarrow> VpsDeadline option \<Rightarrow> 'p \<Rightarrow>
     VpsDeadlineStatus \<times> VpsDeadline option \<times> 'p" where
  "vps_deadline_start operations duration_ms deadline p =
     (if operations = None \<or> deadline = None then (VPS_DEADLINE_INVALID_ARGUMENT, deadline, p)
      else case vps_platform_monotonic_now_ms operations 0 p of
        (platform_status, now_ms, p1) \<Rightarrow>
          if platform_status \<noteq> VPS_PLATFORM_OK then (VPS_DEADLINE_CLOCK_ERROR, deadline, p1)
          else case vps_deadline_init_at now_ms duration_ms deadline of
            (status, deadline1) \<Rightarrow> (status, deadline1, p1))"

text \<open>The outputs \<open>remaining_ms\<close> and \<open>expired\<close> are written together, so they are one optional pair.\<close>

definition vps_deadline_remaining_at ::
    "VpsDeadline option \<Rightarrow> u64 \<Rightarrow> (u64 \<times> bool) option \<Rightarrow> VpsDeadlineStatus \<times> (u64 \<times> bool) option" where
  "vps_deadline_remaining_at deadline now_ms out =
     (case deadline of
        None \<Rightarrow> (VPS_DEADLINE_INVALID_ARGUMENT, out)
      | Some d \<Rightarrow>
          if out = None \<or> expires_at_ms d < started_at_ms d then (VPS_DEADLINE_INVALID_ARGUMENT, out)
          else if now_ms < started_at_ms d then (VPS_DEADLINE_CLOCK_ERROR, out)
          else if now_ms \<ge> expires_at_ms d then (VPS_DEADLINE_OK, Some (0, True))
          else (VPS_DEADLINE_OK, Some (expires_at_ms d - now_ms, False)))"

text \<open>One pass of the wait loop, up to its \<open>return\<close> or to the next pass. \<open>Inl\<close> carries what the
  function returns; \<open>Inr\<close> the loop variables: the result so far, \<open>previous_now\<close> (with
  \<open>have_previous_now\<close> as the option), \<open>require_clock_progress\<close>, and the environment (the request with
  its interrupt context and logger, and the platform).\<close>

type_synonym ('p, 'i, 'c) wait_vars =
  "VpsSocketWaitResult \<times> u64 option \<times> bool \<times> ('p, 'i, 'c) VpsSocketWaitRequest \<times> 'p"

type_synonym ('p, 'i, 'c) wait_return =
  "VpsDeadlineStatus \<times> VpsSocketWaitResult \<times> ('p, 'i, 'c) VpsSocketWaitRequest \<times> 'p"

definition wait_finish ::
    "('p, 'i, 'c) VpsSocketWaitRequest \<Rightarrow> VpsSocketWaitResult \<Rightarrow> 'p \<Rightarrow> VpsLogLevel \<Rightarrow> u64 \<Rightarrow> string \<Rightarrow>
     VpsDeadlineStatus \<Rightarrow> ('p, 'i, 'c) wait_return + ('p, 'i, 'c) wait_vars" where
  "wait_finish request result p level remaining_ms text status =
     Inl (status, result,
          request\<lparr>request_logger :=
            vps_wait_log (request_logger request) level (request_phase request) remaining_ms text\<rparr>, p)"

definition wait_probe ::
    "('p, 'i, 'c) VpsSocketWaitRequest \<Rightarrow>
     VpsInterruptProbeResult \<times> ('p, 'i, 'c) VpsSocketWaitRequest" where
  "wait_probe request =
     (case request_interrupt_probe request of
        None \<Rightarrow> (VPS_INTERRUPT_CONTINUE, request)
      | Some probe \<Rightarrow>
          (case probe (request_interrupt_context request) of
             (answer, context) \<Rightarrow> (answer, request\<lparr>request_interrupt_context := context\<rparr>)))"

definition wait_socket_pass ::
    "('p, 'i, 'c) VpsSocketWaitRequest \<Rightarrow> VpsSocketWaitResult \<Rightarrow> u64 \<Rightarrow> u64 \<Rightarrow> 'p \<Rightarrow>
     ('p, 'i, 'c) wait_return + ('p, 'i, 'c) wait_vars" where
  "wait_socket_pass request result now_ms remaining_ms p =
     (let timeout_ms = (if remaining_ms > ucast (request_max_slice_ms request)
                        then request_max_slice_ms request else ucast remaining_ms)
      in case vps_platform_socket_wait (request_operations request) (request_socket_handle request)
                (request_interest request) timeout_ms (VPS_WAIT_OUT_OF_RANGE 0) p of
        (platform_status, ready_interest, p1) \<Rightarrow>
          let r1 = result\<lparr>wait_platform_status := platform_status, wait_count := wait_count result + 1\<rparr>;
              ready = wait_interest_bits ready_interest AND wait_interest_bits (request_interest request)
          in if platform_status = VPS_PLATFORM_OK \<and> ready \<noteq> 0
             then wait_finish request
                    (r1\<lparr>wait_outcome := VPS_SOCKET_WAIT_READY,
                        wait_ready_interest := wait_interest_of ready\<rparr>)
                    p1 VPS_LOG_LEVEL_DEBUG remaining_ms ''ready'' VPS_DEADLINE_OK
             else if platform_status \<noteq> VPS_PLATFORM_OK \<and> platform_status \<noteq> VPS_PLATFORM_TIMEOUT
             then wait_finish request (r1\<lparr>wait_outcome := VPS_SOCKET_WAIT_FAILED\<rparr>) p1
                    VPS_LOG_LEVEL_ERROR remaining_ms ''wait_error'' VPS_DEADLINE_WAIT_ERROR
             else if platform_status = VPS_PLATFORM_OK
             then let r2 = r1\<lparr>spurious_wakeup_count := spurious_wakeup_count r1 + 1\<rparr>
                  in if spurious_wakeup_count r2 \<ge> VPS_WAIT_MAX_SPURIOUS_WAKEUPS
                     then wait_finish request (r2\<lparr>wait_outcome := VPS_SOCKET_WAIT_FAILED\<rparr>) p1
                            VPS_LOG_LEVEL_ERROR remaining_ms ''retry_limit'' VPS_DEADLINE_RETRY_LIMIT
                     else Inr (r2, Some now_ms, False, request, p1)
             else Inr (r1, Some now_ms, True, request, p1))"

definition wait_clock_pass ::
    "('p, 'i, 'c) VpsSocketWaitRequest \<Rightarrow> VpsSocketWaitResult \<Rightarrow> u64 option \<Rightarrow> bool \<Rightarrow> 'p \<Rightarrow>
     ('p, 'i, 'c) wait_return + ('p, 'i, 'c) wait_vars" where
  "wait_clock_pass request result previous_now require_clock_progress p =
     (case vps_platform_monotonic_now_ms (request_operations request) 0 p of
        (platform_status, now_ms, p1) \<Rightarrow>
          let r1 = result\<lparr>wait_platform_status := platform_status\<rparr>
          in if platform_status \<noteq> VPS_PLATFORM_OK \<or>
                (previous_now \<noteq> None \<and> now_ms < the previous_now) \<or>
                (require_clock_progress \<and>
                   now_ms \<le> (case previous_now of None \<Rightarrow> 0 | Some t \<Rightarrow> t))
             then wait_finish request (r1\<lparr>wait_outcome := VPS_SOCKET_WAIT_FAILED\<rparr>) p1
                    VPS_LOG_LEVEL_ERROR (wait_remaining_ms r1) ''clock_error'' VPS_DEADLINE_CLOCK_ERROR
             else case vps_deadline_remaining_at (request_deadline request) now_ms (Some (0, False)) of
               (deadline_status, out) \<Rightarrow>
                 if deadline_status \<noteq> VPS_DEADLINE_OK
                 then wait_finish request (r1\<lparr>wait_outcome := VPS_SOCKET_WAIT_FAILED\<rparr>) p1
                        VPS_LOG_LEVEL_ERROR (wait_remaining_ms r1) ''clock_error'' deadline_status
                 else let remaining_ms = fst (the out); expired = snd (the out);
                          r2 = r1\<lparr>wait_remaining_ms := remaining_ms\<rparr>
                      in if expired
                         then wait_finish request
                                (r2\<lparr>wait_outcome := VPS_SOCKET_WAIT_DEADLINE_EXPIRED,
                                    wait_platform_status := VPS_PLATFORM_TIMEOUT\<rparr>)
                                p1 VPS_LOG_LEVEL_INFO 0 ''deadline_expired'' VPS_DEADLINE_OK
                         else wait_socket_pass request r2 now_ms remaining_ms p1)"

definition wait_pass ::
    "('p, 'i, 'c) wait_vars \<Rightarrow> ('p, 'i, 'c) wait_return + ('p, 'i, 'c) wait_vars" where
  "wait_pass vars =
     (case vars of (result, previous_now, require_clock_progress, request0, p) \<Rightarrow>
        (case wait_probe request0 of (interrupt_result, request) \<Rightarrow>
           if interrupt_result = VPS_INTERRUPT_REQUESTED
           then wait_finish request (result\<lparr>wait_outcome := VPS_SOCKET_WAIT_INTERRUPTED\<rparr>) p
                  VPS_LOG_LEVEL_INFO (wait_remaining_ms result) ''interrupted'' VPS_DEADLINE_OK
           else if interrupt_result \<noteq> VPS_INTERRUPT_CONTINUE
           then wait_finish request (result\<lparr>wait_outcome := VPS_SOCKET_WAIT_FAILED\<rparr>) p
                  VPS_LOG_LEVEL_ERROR (wait_remaining_ms result) ''interrupt_error''
                  VPS_DEADLINE_INTERRUPT_ERROR
           else wait_clock_pass request result previous_now require_clock_progress p))"

section \<open>The loop ends\<close>

text \<open>A pass that is not the last one either counts a spurious wakeup, of which there are fewer than
  64, or is a timeout, after which the clock has to be strictly later than before.\<close>

lemma wait_probe_frame [simp]:
  "request_deadline (snd (wait_probe request)) = request_deadline request"
  "request_max_slice_ms (snd (wait_probe request)) = request_max_slice_ms request"
  "request_interest (snd (wait_probe request)) = request_interest request"
  "request_operations (snd (wait_probe request)) = request_operations request"
  "request_socket_handle (snd (wait_probe request)) = request_socket_handle request"
  by (auto simp: wait_probe_def split: option.split prod.split)

lemma wait_finish_not_Inr [simp]: "wait_finish a b c d e f g \<noteq> Inr x"
  by (simp add: wait_finish_def)

lemma wait_socket_pass_Inr:
  assumes "wait_socket_pass request r now rem p = Inr (r', prev', req', request', p')"
  shows "prev' = Some now" "request' = request" "wait_count r' = wait_count r + 1"
    "wait_remaining_ms r' = wait_remaining_ms r"
    "req' \<and> spurious_wakeup_count r' = spurious_wakeup_count r \<or>
     \<not> req' \<and> spurious_wakeup_count r' = spurious_wakeup_count r + 1 \<and> spurious_wakeup_count r' < 64"
  using assms by (auto simp: wait_socket_pass_def Let_def split: if_splits prod.splits)

definition wait_return_ok ::
    "VpsWaitInterest \<Rightarrow> VpsDeadlineStatus \<Rightarrow> VpsSocketWaitResult \<Rightarrow> bool" where
  "wait_return_ok interest status r \<longleftrightarrow>
     (status = VPS_DEADLINE_OK \<longleftrightarrow> wait_outcome r \<noteq> VPS_SOCKET_WAIT_FAILED) \<and>
     (wait_outcome r = VPS_SOCKET_WAIT_READY \<longrightarrow>
        wait_platform_status r = VPS_PLATFORM_OK \<and>
        wait_interest_bits (wait_ready_interest r) \<noteq> 0 \<and>
        wait_interest_bits (wait_ready_interest r) AND wait_interest_bits interest =
          wait_interest_bits (wait_ready_interest r)) \<and>
     (wait_outcome r = VPS_SOCKET_WAIT_DEADLINE_EXPIRED \<longrightarrow>
        wait_platform_status r = VPS_PLATFORM_TIMEOUT \<and> wait_remaining_ms r = 0)"

lemma wait_socket_pass_Inl:
  "wait_socket_pass request r now rem p = Inl (status, r', request', p') \<Longrightarrow>
     wait_return_ok (request_interest request) status r'"
  by (auto simp: wait_socket_pass_def wait_finish_def wait_return_ok_def Let_def and.assoc
      split: if_splits prod.splits)

lemma wait_clock_pass_cases:
  obtains (socket) now p1 d where
    "vps_platform_monotonic_now_ms (request_operations request) 0 p = (VPS_PLATFORM_OK, now, p1)"
    "request_deadline request = Some d" "started_at_ms d \<le> now" "now < expires_at_ms d"
    "\<forall>t. prev = Some t \<longrightarrow> t \<le> now" "\<forall>t. req \<and> prev = Some t \<longrightarrow> t < now"
    "wait_clock_pass request r prev req p =
       wait_socket_pass request (r\<lparr>wait_platform_status := VPS_PLATFORM_OK,
         wait_remaining_ms := expires_at_ms d - now\<rparr>) now (expires_at_ms d - now) p1"
  | (returns) status r' request' where
    "wait_clock_pass request r prev req p =
       Inl (status, r', request',
            snd (snd (vps_platform_monotonic_now_ms (request_operations request) 0 p)))"
    "\<forall>interest. wait_return_ok interest status r'"
proof -
  obtain ps now p1 where clock:
    "vps_platform_monotonic_now_ms (request_operations request) 0 p = (ps, now, p1)"
    by (metis prod_cases3)
  show thesis
  proof (cases "ps \<noteq> VPS_PLATFORM_OK \<or> (prev \<noteq> None \<and> now < the prev) \<or>
      (req \<and> now \<le> (case prev of None \<Rightarrow> 0 | Some t \<Rightarrow> t))")
    case True
    then show thesis
      by (intro returns) (auto simp: wait_clock_pass_def clock wait_finish_def Let_def wait_return_ok_def)
  next
    case False
    note live = this
    show thesis
    proof (cases "vps_deadline_remaining_at (request_deadline request) now (Some (0, False))
        = (VPS_DEADLINE_OK, Some (expires_at_ms (the (request_deadline request)) - now, False))")
      case True
      then obtain d where "request_deadline request = Some d" "started_at_ms d \<le> now"
          "now < expires_at_ms d"
        by (auto simp: vps_deadline_remaining_at_def not_less split: option.splits if_splits)
      note d = this
      have "vps_deadline_remaining_at (request_deadline request) now (Some (0, False)) =
          (VPS_DEADLINE_OK, Some (expires_at_ms d - now, False))"
        using True d(1) by simp
      then have "wait_clock_pass request r prev req p =
          wait_socket_pass request (r\<lparr>wait_platform_status := VPS_PLATFORM_OK,
            wait_remaining_ms := expires_at_ms d - now\<rparr>) now (expires_at_ms d - now) p1"
        using live by (auto simp: wait_clock_pass_def clock Let_def)
      moreover have "\<forall>t. prev = Some t \<longrightarrow> t \<le> now" "\<forall>t. req \<and> prev = Some t \<longrightarrow> t < now"
        using live by (auto simp: not_less not_le)
      moreover have "ps = VPS_PLATFORM_OK" using live by simp
      ultimately show thesis using socket [of now p1 d] d clock by blast
    next
      case False
      then consider (bad) st out where
          "vps_deadline_remaining_at (request_deadline request) now (Some (0, False)) = (st, out)"
          "st \<noteq> VPS_DEADLINE_OK"
        | (expired) "vps_deadline_remaining_at (request_deadline request) now (Some (0, False)) =
            (VPS_DEADLINE_OK, Some (0, True))"
        by (fastforce simp: vps_deadline_remaining_at_def split: option.splits if_splits)
      then show thesis
      proof cases
        case bad
        with live show thesis
          by (intro returns) (auto simp: wait_clock_pass_def clock wait_finish_def Let_def wait_return_ok_def)
      next
        case expired
        with live show thesis
          by (intro returns) (auto simp: wait_clock_pass_def clock wait_finish_def Let_def wait_return_ok_def)
      qed
    qed
  qed
qed

lemma wait_clock_pass_Inr:
  assumes "wait_clock_pass request r prev req p = Inr (r', prev', req', request', p')"
  obtains now d where "request_deadline request = Some d" "prev' = Some now" "request' = request"
    "started_at_ms d \<le> now" "now < expires_at_ms d"
    "\<forall>t. prev = Some t \<longrightarrow> t \<le> now" "\<forall>t. req \<and> prev = Some t \<longrightarrow> t < now"
    "wait_count r' = wait_count r + 1"
    "req' \<and> spurious_wakeup_count r' = spurious_wakeup_count r \<or>
     \<not> req' \<and> spurious_wakeup_count r' = spurious_wakeup_count r + 1 \<and> spurious_wakeup_count r' < 64"
proof (rule wait_clock_pass_cases [of request p prev req r])
  fix now p1 d
  assume c: "request_deadline request = Some d" "started_at_ms d \<le> now" "now < expires_at_ms d"
    "\<forall>t. prev = Some t \<longrightarrow> t \<le> now" "\<forall>t. req \<and> prev = Some t \<longrightarrow> t < now"
    "wait_clock_pass request r prev req p =
       wait_socket_pass request (r\<lparr>wait_platform_status := VPS_PLATFORM_OK,
         wait_remaining_ms := expires_at_ms d - now\<rparr>) now (expires_at_ms d - now) p1"
  show thesis
    using wait_socket_pass_Inr [OF assms [unfolded c(6)]] c(1-5) by (intro that [of d now]) simp_all
qed (use assms in simp)

definition spurious_left :: "u64 \<Rightarrow> nat" where
  "spurious_left n = (if n = - 1 then 65 else 64 - unat n)"

definition wait_rank :: "('p, 'i, 'c) wait_vars \<Rightarrow> nat \<times> nat \<times> nat" where
  "wait_rank vars =
     (case vars of (r, prev, req, request, p) \<Rightarrow>
        (spurious_left (spurious_wakeup_count r),
         (case request_deadline request of
            None \<Rightarrow> 0
          | Some d \<Rightarrow> (case prev of None \<Rightarrow> unat (expires_at_ms d) + 1
                                  | Some t \<Rightarrow> unat (expires_at_ms d) - unat t)),
         if req then 0 else 1))"

lemma spurious_left_decreases:
  "n + 1 < 64 \<Longrightarrow> spurious_left (n + 1) < spurious_left n" for n :: u64
proof (cases "n = - 1")
  case False
  assume a: "n + 1 < 64"
  then have "unat (n + 1) < 64" by (simp add: word_less_nat_alt)
  moreover have "n + 1 \<noteq> - 1" using a by (metis word_not_simps(3) word_less_1 linorder_not_less word_le_sub1 word_order.extremum order_less_le_trans max_word_max)
  ultimately show ?thesis
    using False unat_Suc_no_wrap [OF False] by (simp add: spurious_left_def)
qed (simp add: spurious_left_def)

lemma wait_pass_Inr:
  assumes "wait_pass (r, prev, req, request0, p) = Inr (r', prev', req', request', p')"
  shows "wait_clock_pass (snd (wait_probe request0)) r prev req p = Inr (r', prev', req', request', p')"
  using assms by (auto simp: wait_pass_def split: prod.splits if_splits)

lemma wait_pass_decreases:
  assumes "wait_pass vars = Inr vars'"
  shows "(wait_rank vars', wait_rank vars) \<in> less_than <*lex*> less_than <*lex*> less_than"
proof -
  obtain r prev req request0 p r' prev' req' request' p' where
    v: "vars = (r, prev, req, request0, p)" "vars' = (r', prev', req', request', p')"
    by (metis prod_cases5)
  let ?request = "snd (wait_probe request0)"
  have "wait_clock_pass ?request r prev req p = Inr (r', prev', req', request', p')"
    using assms v wait_pass_Inr by metis
  then obtain now d where d: "request_deadline ?request = Some d" "prev' = Some now"
      "request' = ?request" "now < expires_at_ms d"
      "\<forall>t. prev = Some t \<longrightarrow> t \<le> now" "\<forall>t. req \<and> prev = Some t \<longrightarrow> t < now"
      "req' \<and> spurious_wakeup_count r' = spurious_wakeup_count r \<or>
       \<not> req' \<and> spurious_wakeup_count r' = spurious_wakeup_count r + 1 \<and> spurious_wakeup_count r' < 64"
    by (rule wait_clock_pass_Inr)
  have n: "unat now < unat (expires_at_ms d)" using d(4) by (simp add: word_less_nat_alt)
  from d(7) show ?thesis
  proof
    assume t: "req' \<and> spurious_wakeup_count r' = spurious_wakeup_count r"
    show ?thesis
    proof (cases prev)
      case None
      then show ?thesis using t n d by (auto simp: v wait_rank_def)
    next
      case (Some t0)
      then have "unat t0 \<le> unat now" "req \<Longrightarrow> unat t0 < unat now"
        using d by (simp_all add: word_less_nat_alt word_le_nat_alt)
      then show ?thesis using t n d Some by (auto simp: v wait_rank_def)
    qed
  next
    assume "\<not> req' \<and> spurious_wakeup_count r' = spurious_wakeup_count r + 1 \<and> spurious_wakeup_count r' < 64"
    then show ?thesis
      using spurious_left_decreases [of "spurious_wakeup_count r"] by (auto simp: v wait_rank_def)
  qed
qed

function wait_loop :: "('p, 'i, 'c) wait_vars \<Rightarrow> ('p, 'i, 'c) wait_return" where
  "wait_loop vars = (case wait_pass vars of Inl ret \<Rightarrow> ret | Inr vars' \<Rightarrow> wait_loop vars')"
  by pat_completeness auto

termination
proof (relation "inv_image (less_than <*lex*> less_than <*lex*> less_than) wait_rank")
  show "wf (inv_image (less_than <*lex*> less_than <*lex*> less_than) wait_rank)" by auto
qed (simp add: wait_pass_decreases)

declare wait_loop.simps [simp del]

definition vps_socket_wait_execute ::
    "('p, 'i, 'c) VpsSocketWaitRequest option \<Rightarrow> VpsSocketWaitResult option \<Rightarrow> 'p \<Rightarrow>
     VpsDeadlineStatus \<times> VpsSocketWaitResult option \<times> ('p, 'i, 'c) VpsSocketWaitRequest option \<times> 'p" where
  "vps_socket_wait_execute request_ptr result p =
     (case request_ptr of
        None \<Rightarrow> (VPS_DEADLINE_INVALID_ARGUMENT, result, request_ptr, p)
      | Some request \<Rightarrow>
          if result = None \<or> request_operations request = None \<or> request_deadline request = None \<or>
             \<not> vps_wait_interest_is_valid (request_interest request) \<or>
             \<not> vps_wait_phase_is_valid (request_phase request) \<or>
             request_max_slice_ms request = 0 \<or>
             request_max_slice_ms request > VPS_WAIT_MAX_SLICE_MS \<or>
             vps_platform_validate_operations (request_operations request)
               (VPS_PLATFORM_CAP_MONOTONIC_CLOCK OR VPS_PLATFORM_CAP_SOCKET_WAIT) \<noteq> VPS_PLATFORM_OK
          then (VPS_DEADLINE_INVALID_ARGUMENT, result, request_ptr, p)
          else case wait_loop (vps_wait_result_init, None, False, request, p) of
            (status, result1, request1, p1) \<Rightarrow> (status, Some result1, Some request1, p1))"

section \<open>Lemmas about the loop\<close>

lemma wait_loop_rule:
  assumes "I vars"
    and "\<And>v v'. I v \<Longrightarrow> wait_pass v = Inr v' \<Longrightarrow> I v'"
    and "\<And>v ret. I v \<Longrightarrow> wait_pass v = Inl ret \<Longrightarrow> Q ret"
  shows "Q (wait_loop vars)"
  using assms(1)
proof (induction vars rule: wait_loop.induct)
  case (1 vars)
  show ?case
  proof (cases "wait_pass vars")
    case (Inl ret)
    then show ?thesis using 1 assms(3) by (subst wait_loop.simps) simp
  next
    case (Inr vars')
    then show ?thesis using 1 assms(2) by (subst wait_loop.simps) simp
  qed
qed

lemma wait_pass_Inl:
  assumes "wait_pass (r, prev, req, request, p) = Inl (status, r', request', p')"
  shows "wait_return_ok (request_interest request) status r'"
proof -
  obtain answer rq where pr: "wait_probe request = (answer, rq)" by fastforce
  have rq: "request_interest rq = request_interest request"
    using wait_probe_frame(3) [of request] pr by simp
  show ?thesis
  proof (cases "answer = VPS_INTERRUPT_CONTINUE")
    case True
    then have c: "wait_clock_pass rq r prev req p = Inl (status, r', request', p')"
      using assms pr by (simp add: wait_pass_def)
    show ?thesis
      by (rule wait_clock_pass_cases [of rq p prev req r])
        (metis c rq wait_socket_pass_Inl, metis c sum.inject(1) prod.inject)
  next
    case False
    then show ?thesis
      using assms pr by (auto simp: wait_pass_def wait_finish_def wait_return_ok_def split: if_splits)
  qed
qed

section \<open>A platform that records its waits\<close>

text \<open>To speak of the waits that the loop makes, the two platform operations it uses are given by
  arbitrary functions, and the timeouts passed to the socket wait are recorded next to the state.\<close>

definition recording_operations ::
    "('p \<Rightarrow> VpsPlatformStatus \<times> u64 \<times> 'p) \<Rightarrow>
     (int \<Rightarrow> VpsWaitInterest \<Rightarrow> u32 \<Rightarrow> VpsWaitInterest \<Rightarrow> 'p \<Rightarrow> VpsPlatformStatus \<times> VpsWaitInterest \<times> 'p) \<Rightarrow>
     ('p \<times> u32 list) VpsPlatformOperations" where
  "recording_operations clock wait =
     vps_posix_stub_operations\<lparr>capabilities := 9,
       op_monotonic_now_ms := Some (\<lambda>(p, waits). case clock p of (st, now, p') \<Rightarrow> (st, now, (p', waits))),
       op_socket_wait := Some (\<lambda>handle interest timeout_ms ready (p, waits).
         case wait handle interest timeout_ms ready p of
           (st, ready', p') \<Rightarrow> (st, ready', (p', timeout_ms # waits)))\<rparr>"

definition wait_invariant ::
    "('p \<times> u32 list) VpsPlatformOperations \<Rightarrow> VpsDeadline \<Rightarrow> u32 \<Rightarrow>
     ('p \<times> u32 list, 'i, 'c) wait_vars \<Rightarrow> bool" where
  "wait_invariant ops d max_slice vars =
     (case vars of (r, prev, req, request, (p, waits)) \<Rightarrow>
        request_operations request = Some ops \<and> request_deadline request = Some d \<and>
        request_max_slice_ms request = max_slice \<and> spurious_wakeup_count r < 64 \<and>
        (case prev of None \<Rightarrow> waits = [] | Some t \<Rightarrow> started_at_ms d \<le> t \<and> t < expires_at_ms d \<and>
          length waits \<le> unat (spurious_wakeup_count r) + (unat t - unat (started_at_ms d)) + of_bool req) \<and>
        (\<forall>t\<in>set waits. 0 < t \<and> t \<le> max_slice))"

lemma recording_clock:
  "vps_platform_monotonic_now_ms (Some (recording_operations clock wait)) out (p, waits) =
     (case clock p of (st, now, p') \<Rightarrow> (st, now, (p', waits)))"
  by (simp add: vps_platform_monotonic_now_ms_def platform_dispatch_def recording_operations_def)

lemma recording_wait:
  "vps_platform_socket_wait (Some (recording_operations clock wait)) handle interest timeout ready (p, waits) =
     (case wait handle interest timeout ready p of (st, ready', p') \<Rightarrow> (st, ready', (p', timeout # waits)))"
  by (simp add: vps_platform_socket_wait_def platform_dispatch_def recording_operations_def)

text \<open>The timeout of a wait is positive and at most the slice, and a pass makes one wait.\<close>

lemma wait_slice:
  fixes remaining :: u64 and max_slice :: u32
  assumes "remaining \<noteq> 0" and "max_slice \<noteq> 0"
  shows "0 < (if remaining > ucast max_slice then max_slice else ucast remaining)
    \<and> (if remaining > ucast max_slice then max_slice else ucast remaining) \<le> max_slice"
proof (cases "remaining > ucast max_slice")
  case True
  then show ?thesis using assms(2) by (simp add: word_gt_0)
next
  case False
  have sl: "unat max_slice < 2 ^ 32" using unsigned_less [of max_slice] by simp
  then have "unat max_slice < 2 ^ 64" by simp
  then have "unat (ucast max_slice :: u64) = unat max_slice"
    by (simp add: unsigned_ucast_eq take_bit_nat_eq_self)
  then have "unat remaining \<le> unat max_slice" "unat remaining < 2 ^ 32"
    using False sl by (simp_all add: word_less_nat_alt)
  then have "unat (ucast remaining :: u32) = unat remaining"
    by (simp add: unsigned_ucast_eq take_bit_nat_eq_self)
  then show ?thesis
    using assms(1) False \<open>unat remaining \<le> unat max_slice\<close>
    by (auto simp: word_less_nat_alt word_le_nat_alt unat_gt_0)
qed

lemma wait_socket_pass_records:
  assumes "request_operations request = Some (recording_operations clock wait)"
    and "rem \<noteq> 0" and "request_max_slice_ms request \<noteq> 0"
  shows "\<exists>t. 0 < t \<and> t \<le> request_max_slice_ms request \<and>
     (case wait_socket_pass request r now rem (p, waits) of
        Inl (st, r', rq', (p', waits')) \<Rightarrow> waits' = t # waits
      | Inr (r', prev', req', rq', (p', waits')) \<Rightarrow> waits' = t # waits)"
proof -
  define t where "t = (if rem > ucast (request_max_slice_ms request)
    then request_max_slice_ms request else ucast rem)"
  have "0 < t \<and> t \<le> request_max_slice_ms request"
    unfolding t_def using assms(2,3) by (rule wait_slice)
  moreover obtain st ready p1 where
    "wait (request_socket_handle request) (request_interest request) t (VPS_WAIT_OUT_OF_RANGE 0) p = (st, ready, p1)"
    by (metis prod_cases3)
  ultimately show ?thesis
    by (intro exI [of _ t])
      (auto simp: wait_socket_pass_def assms(1) recording_wait wait_finish_def Let_def
        simp flip: t_def)
qed

lemma wait_pass_records:
  assumes inv: "wait_invariant (recording_operations clock wait) d s (r, prev, req, request, (p, waits))"
    and s: "s \<noteq> 0"
  obtains (returns) st r' rq' p' where
      "wait_pass (r, prev, req, request, (p, waits)) = Inl (st, r', rq', (p', waits))"
  | (socket) t now rq res p1 where
      "wait_pass (r, prev, req, request, (p, waits)) = res" "0 < t" "t \<le> s"
      "started_at_ms d \<le> now" "now < expires_at_ms d"
      "\<forall>t. prev = Some t \<longrightarrow> t \<le> now" "\<forall>t. req \<and> prev = Some t \<longrightarrow> t < now"
      "case res of Inl (st, r', rq', (p', waits')) \<Rightarrow> waits' = t # waits
       | Inr (r', prev', req', rq', (p', waits')) \<Rightarrow> waits' = t # waits"
proof -
  obtain answer rq where pr: "wait_probe request = (answer, rq)" by fastforce
  have rq: "request_operations rq = Some (recording_operations clock wait)"
      "request_deadline rq = Some d" "request_max_slice_ms rq = s"
    using wait_probe_frame [of request] pr inv by (simp_all add: wait_invariant_def)
  show thesis
  proof (cases "answer = VPS_INTERRUPT_CONTINUE")
    case False
    then show thesis
      by (cases answer) (use returns in \<open>simp_all add: wait_pass_def pr wait_finish_def\<close>)
  next
    case True
    then have w: "wait_pass (r, prev, req, request, (p, waits)) = wait_clock_pass rq r prev req (p, waits)"
      by (simp add: wait_pass_def pr)
    obtain cst now0 p1 where clock: "clock p = (cst, now0, p1)" by (metis prod_cases3)
    show thesis
    proof (rule wait_clock_pass_cases [of rq "(p, waits)" prev req r])
      fix st r' rq'
      assume "wait_clock_pass rq r prev req (p, waits) = Inl (st, r', rq',
          snd (snd (vps_platform_monotonic_now_ms (request_operations rq) 0 (p, waits))))"
      then show thesis by (intro returns) (simp add: w rq recording_clock clock)
    next
      fix now p2 d'
      assume c: "vps_platform_monotonic_now_ms (request_operations rq) 0 (p, waits) = (VPS_PLATFORM_OK, now, p2)"
        "request_deadline rq = Some d'" "started_at_ms d' \<le> now" "now < expires_at_ms d'"
        "\<forall>t. prev = Some t \<longrightarrow> t \<le> now" "\<forall>t. req \<and> prev = Some t \<longrightarrow> t < now"
        "wait_clock_pass rq r prev req (p, waits) =
           wait_socket_pass rq (r\<lparr>wait_platform_status := VPS_PLATFORM_OK,
             wait_remaining_ms := expires_at_ms d' - now\<rparr>) now (expires_at_ms d' - now) p2"
      have p2: "p2 = (p1, waits)" and d': "d' = d"
        using c(1,2) rq by (simp_all add: recording_clock clock)
      have "expires_at_ms d - now \<noteq> 0" using c(4) d' by auto
      then show thesis
        using wait_socket_pass_records [OF rq(1), where rem = "expires_at_ms d - now"
            and r = "r\<lparr>wait_platform_status := VPS_PLATFORM_OK, wait_remaining_ms := expires_at_ms d - now\<rparr>"
            and now = now and p = p1 and waits = waits] c p2 d' s
        by (metis (no_types, lifting) rq(3) socket w)
    qed
  qed
qed

lemma wait_invariant_step:
  assumes inv: "wait_invariant (recording_operations clock wait) d s v" and s: "s \<noteq> 0"
    and pass: "wait_pass v = Inr v'"
  shows "wait_invariant (recording_operations clock wait) d s v'"
proof -
  obtain r prev req request p waits r' prev' req' request' p' waits' where
    v: "v = (r, prev, req, request, (p, waits))" "v' = (r', prev', req', request', (p', waits'))"
    by (metis prod_cases6)
  let ?rq = "snd (wait_probe request)"
  note i = inv [unfolded v]
  obtain t where t: "0 < t" "t \<le> s" "waits' = t # waits"
    by (rule wait_pass_records [OF i s]) (use pass v in auto)
  have "wait_clock_pass ?rq r prev req (p, waits) = Inr (r', prev', req', request', (p', waits'))"
    using pass v wait_pass_Inr by metis
  then obtain now d' where c: "request_deadline ?rq = Some d'" "prev' = Some now" "request' = ?rq"
      "started_at_ms d' \<le> now" "now < expires_at_ms d'"
      "\<forall>t. prev = Some t \<longrightarrow> t \<le> now" "\<forall>t. req \<and> prev = Some t \<longrightarrow> t < now"
      "req' \<and> spurious_wakeup_count r' = spurious_wakeup_count r \<or>
       \<not> req' \<and> spurious_wakeup_count r' = spurious_wakeup_count r + 1 \<and> spurious_wakeup_count r' < 64"
    by (rule wait_clock_pass_Inr)
  have d': "d' = d" using c(1) i by (simp add: wait_invariant_def)
  have sp: "spurious_wakeup_count r \<noteq> - 1" using i by (auto simp: wait_invariant_def)
  have n: "\<forall>t. prev = Some t \<longrightarrow> unat t \<le> unat now" "\<forall>t. req \<and> prev = Some t \<longrightarrow> unat t < unat now"
      "unat (started_at_ms d) \<le> unat now"
    using c(4-7) d' by (auto simp: word_le_nat_alt word_less_nat_alt)
  have "length waits' \<le> unat (spurious_wakeup_count r') + (unat now - unat (started_at_ms d)) + of_bool req'"
    using c(8) i n t(3) unat_Suc_no_wrap [OF sp]
    by (cases prev; cases req; auto simp: wait_invariant_def word_le_nat_alt)
  then show ?thesis
    using i c t d' by (auto simp: v wait_invariant_def)
qed

lemma wait_invariant_return:
  assumes inv: "wait_invariant (recording_operations clock wait) d s v" and s: "s \<noteq> 0"
    and pass: "wait_pass v = Inl (st, r', rq', (p', waits'))"
  shows "length waits' \<le> 64 + (unat (expires_at_ms d) - unat (started_at_ms d)) \<and>
    (\<forall>t\<in>set waits'. 0 < t \<and> t \<le> s)"
proof -
  obtain r prev req request p waits where v: "v = (r, prev, req, request, (p, waits))"
    by (metis prod_cases6)
  note i = inv [unfolded v]
  show ?thesis
  proof (rule wait_pass_records [OF i s])
    fix t now res
    assume c: "wait_pass (r, prev, req, request, (p, waits)) = res" "0 < t" "t \<le> s"
      "started_at_ms d \<le> now" "now < expires_at_ms d"
      "\<forall>t. prev = Some t \<longrightarrow> t \<le> now" "\<forall>t. req \<and> prev = Some t \<longrightarrow> t < now"
      "case res of Inl (st, r', rq', (p', waits')) \<Rightarrow> waits' = t # waits
       | Inr (r', prev', req', rq', (p', waits')) \<Rightarrow> waits' = t # waits"
    have "waits' = t # waits" using c(1,8) pass v by auto
    moreover have "unat (started_at_ms d) \<le> unat now" "unat now < unat (expires_at_ms d)"
        "\<forall>t. prev = Some t \<longrightarrow> unat t \<le> unat now" "\<forall>t. req \<and> prev = Some t \<longrightarrow> unat t < unat now"
      using c(4-7) by (auto simp: word_le_nat_alt word_less_nat_alt)
    ultimately show ?thesis
      using i c(2,3) by (cases prev; cases req; auto simp: wait_invariant_def word_le_nat_alt word_less_nat_alt)
  next
    fix st r' rq' p'
    assume "wait_pass (r, prev, req, request, (p, waits)) = Inl (st, r', rq', (p', waits))"
    then have w: "waits' = waits" using pass v by simp
    show ?thesis
      using i by (cases prev; cases req; auto simp: w wait_invariant_def word_le_nat_alt word_less_nat_alt)
  qed
qed

section \<open>Properties\<close>

text \<open>A deadline that was set without overflow reports, at every later clock reading, exactly the
  time that is left of its duration, and expires exactly when the duration has passed.\<close>

lemma deadline_remaining_exact:
  assumes "vps_deadline_init_at now_ms duration_ms (Some d0) = (VPS_DEADLINE_OK, Some d)"
    and "now_ms \<le> t"
  shows "\<exists>rem expired. vps_deadline_remaining_at (Some d) t (Some out) = (VPS_DEADLINE_OK, Some (rem, expired)) \<and>
     unat rem = unat duration_ms - (unat t - unat now_ms) \<and>
     expired = (unat duration_ms \<le> unat t - unat now_ms)"
proof -
  have n: "duration_ms \<le> - 1 - now_ms"
    and d: "d = \<lparr>started_at_ms = now_ms, expires_at_ms = now_ms + duration_ms\<rparr>"
    using assms(1) by (auto simp: vps_deadline_init_at_def split: if_splits)
  have u: "unat (now_ms + duration_ms) = unat now_ms + unat duration_ms"
    using n by (rule unat_add_no_wrap)
  have t: "unat now_ms \<le> unat t" using assms(2) by (simp add: word_le_nat_alt)
  show ?thesis
  proof (cases "now_ms + duration_ms \<le> t")
    case True
    then show ?thesis
      using assms(2) u t by (simp add: vps_deadline_remaining_at_def d word_less_nat_alt word_le_nat_alt)
  next
    case False
    then have "unat (now_ms + duration_ms - t) = unat now_ms + unat duration_ms - unat t"
      by (simp add: unat_sub u)
    then show ?thesis
      using assms(2) False u t
      by (auto simp: vps_deadline_remaining_at_def d word_less_nat_alt word_le_nat_alt)
  qed
qed

text \<open>C3. Whatever the clock and the socket answer, the socket wait returns, after at most 64 waits more
  than the milliseconds of its deadline, and each wait it makes is positive and within the slice.\<close>

theorem socket_wait_bounded:
  assumes "request_operations request = Some (recording_operations clock wait)"
    and "request_deadline request = Some d"
    and "vps_socket_wait_execute (Some request) (Some r0) (p, []) = (status, r, request', (p', waits))"
  shows "length waits \<le> 64 + (unat (expires_at_ms d) - unat (started_at_ms d)) \<and>
    (\<forall>t\<in>set waits. 0 < t \<and> t \<le> request_max_slice_ms request \<and> t \<le> 1000)"
proof (cases "waits = []")
  case False
  then obtain r1 rq1 where s: "request_max_slice_ms request \<noteq> 0" "request_max_slice_ms request \<le> 1000"
    and w: "wait_loop (vps_wait_result_init, None, False, request, (p, [])) = (status, r1, rq1, (p', waits))"
    using assms(3) by (auto simp: vps_socket_wait_execute_def not_less split: if_splits prod.splits)
  have i: "wait_invariant (recording_operations clock wait) d (request_max_slice_ms request)
      (vps_wait_result_init, None, False, request, (p, []))"
    using assms(1,2) by (simp add: wait_invariant_def vps_wait_result_init_def)
  let ?Q = "\<lambda>(st, r', rq', p', waits'). length waits' \<le> 64 + (unat (expires_at_ms d) - unat (started_at_ms d)) \<and>
      (\<forall>t\<in>set waits'. 0 < t \<and> t \<le> request_max_slice_ms request)"
  have "?Q (wait_loop (vps_wait_result_init, None, False, request, (p, [])))"
  proof (rule wait_loop_rule [where I = "wait_invariant (recording_operations clock wait) d
      (request_max_slice_ms request)"], rule i)
    show "?Q ret" if "wait_invariant (recording_operations clock wait) d (request_max_slice_ms request) v"
        and "wait_pass v = Inl ret" for v ret
      using wait_invariant_return [OF that(1) s(1)] that(2) by (cases ret) blast
  qed (rule wait_invariant_step [OF _ s(1)])
  then show ?thesis using w s(2) by auto
qed simp

abbreviation idle_request :: "(nat \<times> u32 list, unit, unit) VpsSocketWaitRequest" where
  "idle_request \<equiv>
     \<lparr>request_operations = Some (recording_operations (\<lambda>p. (VPS_PLATFORM_OK, 5, p))
        (\<lambda>handle interest timeout ready p. (VPS_PLATFORM_TIMEOUT, ready, p))),
      request_socket_handle = 3, request_interest = VPS_WAIT_READ,
      request_deadline = Some \<lparr>started_at_ms = 0, expires_at_ms = 100\<rparr>, request_max_slice_ms = 20,
      request_interrupt_probe = None, request_interrupt_context = (), request_logger = None,
      request_phase = VPS_WAIT_PHASE_CONNECT\<rparr>"

theorem socket_wait_bounded_witness:
  "case vps_socket_wait_execute (Some idle_request) (Some vps_wait_result_init) (0, []) of
     (status, r, request', (p', waits)) \<Rightarrow> length waits \<le> 164 \<and> (\<forall>t\<in>set waits. 0 < t \<and> t \<le> 20)"
proof -
  obtain status r request' p' waits where e:
    "vps_socket_wait_execute (Some idle_request) (Some vps_wait_result_init) (0, []) =
       (status, r, request', (p', waits))"
    by (metis prod_cases5)
  have "length waits \<le> 64 + 100 \<and> (\<forall>t\<in>set waits. 0 < t \<and> t \<le> 20 \<and> t \<le> 1000)"
    using socket_wait_bounded [OF _ _ e, of "\<lambda>p. (VPS_PLATFORM_OK, 5, p)"
        "\<lambda>handle interest timeout ready p. (VPS_PLATFORM_TIMEOUT, ready, p)"
        "\<lparr>started_at_ms = 0, expires_at_ms = 100\<rparr>"] by simp
  then show ?thesis by (simp add: e)
qed

text \<open>C22. What the socket wait reports is consistent: success exactly when it did not fail; readiness only
  for events that were asked for; expiry only with no time left; and a request that is refused
  touches nothing.\<close>

theorem socket_wait_reports:
  assumes "vps_socket_wait_execute (Some request) (Some r0) p = (status, Some r, request', p')"
  shows "(status = VPS_DEADLINE_INVALID_ARGUMENT \<and> r = r0 \<and> request' = Some request \<and> p' = p) \<or>
     wait_return_ok (request_interest request) status r"
proof (cases "wait_loop (vps_wait_result_init, None, False, request, p) = (status, r, the request', p')")
  case True
  have "case wait_loop (vps_wait_result_init, None, False, request, p) of
      (st, r', rq', p') \<Rightarrow> wait_return_ok (request_interest request) st r'"
  proof (rule wait_loop_rule [where I = "\<lambda>(r, prev, req, rq, p). request_interest rq = request_interest request"])
    show "case v' of (r, prev, req, rq, p) \<Rightarrow> request_interest rq = request_interest request"
      if "case v of (r, prev, req, rq, p) \<Rightarrow> request_interest rq = request_interest request"
        and "wait_pass v = Inr v'" for v v' :: "('a, 'b, 'c) wait_vars"
      using that by (auto elim!: wait_clock_pass_Inr dest!: wait_pass_Inr)
  qed (auto dest: wait_pass_Inl)
  with True show ?thesis by simp
next
  case False
  with assms show ?thesis
    by (auto simp: vps_socket_wait_execute_def split: if_splits prod.splits)
qed

theorem socket_wait_reports_witness:
  "case vps_socket_wait_execute (Some idle_request) (Some vps_wait_result_init) (0, []) of
     (status, r, request', p') \<Rightarrow> status = VPS_DEADLINE_CLOCK_ERROR \<and>
       wait_return_ok VPS_WAIT_READ status (the r)"
proof -
  have "vps_socket_wait_execute (Some idle_request) (Some vps_wait_result_init) (0, []) =
      (VPS_DEADLINE_CLOCK_ERROR,
       Some \<lparr>wait_outcome = VPS_SOCKET_WAIT_FAILED, wait_ready_interest = VPS_WAIT_OUT_OF_RANGE 0,
             wait_platform_status = VPS_PLATFORM_OK, wait_remaining_ms = 95, wait_count = 1,
             spurious_wakeup_count = 0\<rparr>, Some idle_request, (0, [20]))"
    by (simp add: vps_socket_wait_execute_def vps_wait_interest_is_valid_def vps_platform_validate_operations_def
        vps_posix_stub_operations_def recording_operations_def wait_loop.simps wait_pass_def wait_probe_def
        wait_clock_pass_def wait_socket_pass_def vps_platform_monotonic_now_ms_def platform_dispatch_def
        vps_platform_socket_wait_def vps_deadline_remaining_at_def wait_finish_def vps_wait_log_def
        vps_wait_result_init_def)
  from socket_wait_reports [OF this] this show ?thesis by simp
qed

end
