(* ===== verification/Vps_Cancel.thy ===== *)
theory Vps_Cancel
  imports Vps_Deadline
begin

text \<open>
  The cancellation registry of \<open>src/src/vps_cancel.c\<close>. Cursors own their tokens; the registry links
  them into a singly linked list. The tokens therefore live in a store from addresses to tokens, and
  \<open>next\<close>, \<open>head\<close> and the \<open>link\<close> of the search are addresses. The model has one registry, so the
  registry pointer of a token is a flag: set when it points to the registry, clear when it is \<open>NULL\<close>.
  The list walks are partial functions: \<open>None\<close> stands for a walk that does not end or that follows a
  pointer to no token.
\<close>

section \<open>Data\<close>

datatype VpsCancelRegistryResult =
    VPS_CANCEL_REGISTRY_OK
  | VPS_CANCEL_REGISTRY_INVALID_ARGUMENT
  | VPS_CANCEL_REGISTRY_PLATFORM_ERROR
  | VPS_CANCEL_REGISTRY_INVALID_STATE

type_synonym addr = nat

record VpsCancelToken =
  tok_registry :: bool
  tok_next :: "addr option"
  tok_cursor_id :: u64
  tok_request_generation :: u64
  tok_registered :: bool
  tok_requested :: bool

type_synonym token_store = "addr \<Rightarrow> VpsCancelToken option"

record ('p, 'c) VpsCancelRegistry =
  reg_platform :: "'p VpsPlatformOperations option"
  reg_mutex :: VpsPlatformMutex
  reg_head :: "addr option"
  reg_logger :: "'c VpsLogger option"
  reg_generation :: u64
  reg_token_count :: size_t
  reg_initialized :: bool
  reg_closing :: bool

text \<open>The registry, the tokens and the platform.\<close>

record ('p, 'c) cancel_world =
  registry :: "('p, 'c) VpsCancelRegistry"
  tokens :: token_store
  platform_state :: 'p

abbreviation zero_token :: VpsCancelToken where
  "zero_token \<equiv> \<lparr>tok_registry = False, tok_next = None, tok_cursor_id = 0, tok_request_generation = 0,
     tok_registered = False, tok_requested = False\<rparr>"

abbreviation zero_mutex :: VpsPlatformMutex where
  "zero_mutex \<equiv> \<lparr>mutex_state = 0, mutex_native = replicate 64 0\<rparr>"

abbreviation zero_registry :: "('p, 'c) VpsCancelRegistry" where
  "zero_registry \<equiv> \<lparr>reg_platform = None, reg_mutex = zero_mutex, reg_head = None, reg_logger = None,
     reg_generation = 0, reg_token_count = 0, reg_initialized = False, reg_closing = False\<rparr>"

section \<open>Operations\<close>

definition vps_cancel_log ::
    "('p, 'c) VpsCancelRegistry \<Rightarrow> string \<Rightarrow> string \<Rightarrow> u64 \<Rightarrow> ('p, 'c) VpsCancelRegistry" where
  "vps_cancel_log reg phase status n =
     reg\<lparr>reg_logger := log_emit_strict (reg_logger reg) VPS_LOG_LEVEL_DEBUG
        [LogStr VPS_LOG_FIELD_OPERATION ''cancel'', LogStr VPS_LOG_FIELD_PHASE phase,
         LogStr VPS_LOG_FIELD_STATUS status, LogNum VPS_LOG_FIELD_PARTICIPANT_COUNT n]\<rparr>"

text \<open>Locking and unlocking the registry's mutex.\<close>

definition registry_lock :: "('p, 'c) cancel_world \<Rightarrow> VpsPlatformStatus \<times> ('p, 'c) cancel_world" where
  "registry_lock w =
     (case vps_platform_mutex_lock (reg_platform (registry w)) (reg_mutex (registry w)) (platform_state w) of
        (status, mutex, p) \<Rightarrow>
          (status, w\<lparr>registry := (registry w)\<lparr>reg_mutex := mutex\<rparr>, platform_state := p\<rparr>))"

definition registry_unlock :: "('p, 'c) cancel_world \<Rightarrow> ('p, 'c) cancel_world" where
  "registry_unlock w =
     (case vps_platform_mutex_unlock (reg_platform (registry w)) (reg_mutex (registry w)) (platform_state w) of
        (status, mutex, p) \<Rightarrow> w\<lparr>registry := (registry w)\<lparr>reg_mutex := mutex\<rparr>, platform_state := p\<rparr>)"

definition vps_cancel_registry_init ::
    "'p VpsPlatformOperations option \<Rightarrow> 'c VpsLogger option \<Rightarrow> ('p, 'c) cancel_world \<Rightarrow>
     VpsCancelRegistryResult \<times> ('p, 'c) cancel_world" where
  "vps_cancel_registry_init platform logger w =
     (if platform = None then (VPS_CANCEL_REGISTRY_INVALID_ARGUMENT, w)
      else case vps_platform_mutex_init platform zero_mutex (platform_state w) of
        (status, mutex, p) \<Rightarrow>
          if status \<noteq> VPS_PLATFORM_OK
          then (VPS_CANCEL_REGISTRY_PLATFORM_ERROR, w\<lparr>registry := zero_registry, platform_state := p\<rparr>)
          else (VPS_CANCEL_REGISTRY_OK,
                w\<lparr>registry := zero_registry\<lparr>reg_platform := platform, reg_logger := logger, reg_mutex := mutex,
                    reg_initialized := True\<rparr>, platform_state := p\<rparr>))"

partial_function (option) cancel_clear_tokens :: "addr option \<Rightarrow> token_store \<Rightarrow> token_store option" where
  "cancel_clear_tokens token store =
     (case token of
        None \<Rightarrow> Some store
      | Some a \<Rightarrow>
          (case store a of
             None \<Rightarrow> None
           | Some t \<Rightarrow> cancel_clear_tokens (tok_next t) (store(a \<mapsto> zero_token))))"

definition vps_cancel_registry_cleanup ::
    "('p, 'c) cancel_world \<Rightarrow> (VpsCancelRegistryResult \<times> ('p, 'c) cancel_world) option" where
  "vps_cancel_registry_cleanup w0 =
     (if \<not> reg_initialized (registry w0) then Some (VPS_CANCEL_REGISTRY_OK, w0)
      else case registry_lock w0 of (status, w1) \<Rightarrow>
        if status \<noteq> VPS_PLATFORM_OK then Some (VPS_CANCEL_REGISTRY_PLATFORM_ERROR, w1)
        else case cancel_clear_tokens (reg_head (registry w1)) (tokens w1) of
          None \<Rightarrow> None
        | Some store \<Rightarrow>
            let w2 = registry_unlock (w1\<lparr>registry := (registry w1)\<lparr>reg_closing := True, reg_head := None,
                                           reg_token_count := 0\<rparr>, tokens := store\<rparr>)
            in case vps_platform_mutex_destroy (reg_platform (registry w2)) (reg_mutex (registry w2))
                      (platform_state w2) of
                 (destroyed, mutex, p) \<Rightarrow>
                   if destroyed \<noteq> VPS_PLATFORM_OK
                   then Some (VPS_CANCEL_REGISTRY_PLATFORM_ERROR,
                              w2\<lparr>registry := (registry w2)\<lparr>reg_mutex := mutex\<rparr>, platform_state := p\<rparr>)
                   else Some (VPS_CANCEL_REGISTRY_OK, w2\<lparr>registry := zero_registry, platform_state := p\<rparr>))"

definition vps_cancel_token_register ::
    "addr option \<Rightarrow> u64 \<Rightarrow> ('p, 'c) cancel_world \<Rightarrow> VpsCancelRegistryResult \<times> ('p, 'c) cancel_world" where
  "vps_cancel_token_register token_ptr cursor w0 =
     (case token_ptr of
        None \<Rightarrow> (VPS_CANCEL_REGISTRY_INVALID_ARGUMENT, w0)
      | Some a \<Rightarrow>
          (case tokens w0 a of
             None \<Rightarrow> (VPS_CANCEL_REGISTRY_INVALID_ARGUMENT, w0)
           | Some token \<Rightarrow>
               if cursor = 0 \<or> \<not> reg_initialized (registry w0) \<or> tok_registered token
               then (VPS_CANCEL_REGISTRY_INVALID_ARGUMENT, w0)
               else case registry_lock w0 of (status, w1) \<Rightarrow>
                 if status \<noteq> VPS_PLATFORM_OK then (VPS_CANCEL_REGISTRY_PLATFORM_ERROR, w1)
                 else let refused = reg_closing (registry w1) \<or> reg_token_count (registry w1) = SIZE_MAX;
                          w2 = (if refused then w1
                                else w1\<lparr>tokens := (tokens w1)(a \<mapsto> zero_token\<lparr>tok_registry := True,
                                          tok_cursor_id := cursor, tok_next := reg_head (registry w1),
                                          tok_registered := True\<rparr>),
                                        registry := (registry w1)\<lparr>reg_head := Some a,
                                          reg_token_count := reg_token_count (registry w1) + 1\<rparr>\<rparr>);
                          w3 = registry_unlock w2
                      in (if refused then VPS_CANCEL_REGISTRY_INVALID_STATE else VPS_CANCEL_REGISTRY_OK,
                          w3\<lparr>registry := vps_cancel_log (registry w3) ''register''
                               (if refused then ''failed'' else ''ok'') (reg_token_count (registry w3))\<rparr>)))"

text \<open>The pointer under \<open>link\<close>: the head of the registry, or the \<open>next\<close> field of a token.\<close>

definition link_target :: "token_store \<Rightarrow> addr option \<Rightarrow> addr option \<Rightarrow> addr option" where
  "link_target store head link =
     (case link of
        None \<Rightarrow> head
      | Some a \<Rightarrow> (case store a of None \<Rightarrow> None | Some t \<Rightarrow> tok_next t))"

partial_function (option) cancel_find_link ::
    "token_store \<Rightarrow> addr option \<Rightarrow> addr \<Rightarrow> addr option \<Rightarrow> addr option option" where
  "cancel_find_link store head token link =
     (case link_target store head link of
        None \<Rightarrow> Some link
      | Some a \<Rightarrow>
          if a = token then Some link
          else case store a of None \<Rightarrow> None | Some t \<Rightarrow> cancel_find_link store head token (Some a))"

definition write_link :: "('p, 'c) cancel_world \<Rightarrow> addr option \<Rightarrow> addr option \<Rightarrow> ('p, 'c) cancel_world" where
  "write_link w link target =
     (case link of
        None \<Rightarrow> w\<lparr>registry := (registry w)\<lparr>reg_head := target\<rparr>\<rparr>
      | Some a \<Rightarrow> w\<lparr>tokens := (tokens w)(a := map_option (\<lambda>t. t\<lparr>tok_next := target\<rparr>) (tokens w a))\<rparr>)"

definition vps_cancel_token_unregister ::
    "addr option \<Rightarrow> ('p, 'c) cancel_world \<Rightarrow> (VpsCancelRegistryResult \<times> ('p, 'c) cancel_world) option" where
  "vps_cancel_token_unregister token_ptr w0 =
     (case token_ptr of
        None \<Rightarrow> Some (VPS_CANCEL_REGISTRY_INVALID_ARGUMENT, w0)
      | Some a \<Rightarrow>
          (case tokens w0 a of
             None \<Rightarrow> Some (VPS_CANCEL_REGISTRY_INVALID_ARGUMENT, w0)
           | Some token \<Rightarrow>
               if \<not> tok_registered token then Some (VPS_CANCEL_REGISTRY_OK, w0)
               else if \<not> tok_registry token \<or> \<not> reg_initialized (registry w0)
               then Some (VPS_CANCEL_REGISTRY_INVALID_STATE, w0)
               else case registry_lock w0 of (status, w1) \<Rightarrow>
                 if status \<noteq> VPS_PLATFORM_OK then Some (VPS_CANCEL_REGISTRY_PLATFORM_ERROR, w1)
                 else case cancel_find_link (tokens w1) (reg_head (registry w1)) a None of
                   None \<Rightarrow> None
                 | Some link \<Rightarrow>
                     if link_target (tokens w1) (reg_head (registry w1)) link \<noteq> Some a
                     then Some (VPS_CANCEL_REGISTRY_INVALID_STATE, registry_unlock w1)
                     else let w2 = write_link w1 link (tok_next token);
                              w3 = w2\<lparr>registry := (registry w2)\<lparr>reg_token_count :=
                                       (if reg_token_count (registry w2) \<noteq> 0
                                        then reg_token_count (registry w2) - 1 else reg_token_count (registry w2))\<rparr>,
                                     tokens := (tokens w2)(a \<mapsto> zero_token)\<rparr>;
                              w4 = registry_unlock w3
                          in Some (VPS_CANCEL_REGISTRY_OK,
                                   w4\<lparr>registry := vps_cancel_log (registry w4) ''unregister'' ''ok''
                                        (reg_token_count (registry w4))\<rparr>)))"

partial_function (option) cancel_request_tokens ::
    "u64 \<Rightarrow> addr option \<Rightarrow> token_store \<Rightarrow> size_t \<Rightarrow> (token_store \<times> size_t) option" where
  "cancel_request_tokens generation token store n =
     (case token of
        None \<Rightarrow> Some (store, n)
      | Some a \<Rightarrow>
          (case store a of
             None \<Rightarrow> None
           | Some t \<Rightarrow>
               cancel_request_tokens generation (tok_next t)
                 (store(a \<mapsto> t\<lparr>tok_requested := True, tok_request_generation := generation\<rparr>)) (n + 1)))"

text \<open>The third component of the result is what is stored through \<open>requested_count\<close> when it is given.\<close>

definition vps_cancel_registry_request_all ::
    "('p, 'c) cancel_world \<Rightarrow> (VpsCancelRegistryResult \<times> ('p, 'c) cancel_world \<times> size_t option) option" where
  "vps_cancel_registry_request_all w0 =
     (if \<not> reg_initialized (registry w0) then Some (VPS_CANCEL_REGISTRY_INVALID_ARGUMENT, w0, None)
      else case registry_lock w0 of (status, w1) \<Rightarrow>
        if status \<noteq> VPS_PLATFORM_OK then Some (VPS_CANCEL_REGISTRY_PLATFORM_ERROR, w1, None)
        else if reg_closing (registry w1) \<or> reg_generation (registry w1) = UINT64_MAX
        then Some (VPS_CANCEL_REGISTRY_INVALID_STATE, registry_unlock w1, None)
        else let generation = reg_generation (registry w1) + 1
             in case cancel_request_tokens generation (reg_head (registry w1)) (tokens w1) 0 of
                  None \<Rightarrow> None
                | Some (store, n) \<Rightarrow>
                    let w2 = registry_unlock (w1\<lparr>registry := (registry w1)\<lparr>reg_generation := generation\<rparr>,
                                                 tokens := store\<rparr>)
                    in Some (VPS_CANCEL_REGISTRY_OK,
                             w2\<lparr>registry := vps_cancel_log (registry w2) ''request'' ''ok'' n\<rparr>, Some n))"

definition vps_cancel_token_probe ::
    "addr option \<Rightarrow> ('p, 'c) cancel_world \<Rightarrow> VpsInterruptProbeResult \<times> ('p, 'c) cancel_world" where
  "vps_cancel_token_probe token_ptr w0 =
     (case token_ptr of
        None \<Rightarrow> (VPS_INTERRUPT_PROBE_ERROR, w0)
      | Some a \<Rightarrow>
          (case tokens w0 a of
             None \<Rightarrow> (VPS_INTERRUPT_PROBE_ERROR, w0)
           | Some token \<Rightarrow>
               if \<not> tok_registered token \<or> \<not> tok_registry token then (VPS_INTERRUPT_PROBE_ERROR, w0)
               else case registry_lock w0 of (status, w1) \<Rightarrow>
                 if status \<noteq> VPS_PLATFORM_OK then (VPS_INTERRUPT_PROBE_ERROR, w1)
                 else let requested = (case tokens w1 a of
                                         None \<Rightarrow> False
                                       | Some t \<Rightarrow> tok_registered t \<and> tok_requested t);
                          w2 = registry_unlock w1
                      in (if requested then VPS_INTERRUPT_REQUESTED else VPS_INTERRUPT_CONTINUE, w2)))"

section \<open>The list invariant\<close>

fun chain :: "token_store \<Rightarrow> addr option \<Rightarrow> addr list \<Rightarrow> bool" where
  "chain store p [] \<longleftrightarrow> p = None"
| "chain store p (a # as) \<longleftrightarrow> p = Some a \<and> (\<exists>t. store a = Some t \<and> chain store (tok_next t) as)"

text \<open>The list from the head visits exactly the registered tokens, each once, and the registry
  counts them.\<close>

definition cancel_list :: "('p, 'c) cancel_world \<Rightarrow> addr list \<Rightarrow> bool" where
  "cancel_list w ts \<longleftrightarrow>
     chain (tokens w) (reg_head (registry w)) ts \<and> distinct ts \<and>
     unat (reg_token_count (registry w)) = length ts \<and>
     (\<forall>a t. tokens w a = Some t \<longrightarrow> tok_registered t = (a \<in> set ts) \<and> tok_registry t = tok_registered t)"

definition cancel_inv :: "('p, 'c) cancel_world \<Rightarrow> bool" where
  "cancel_inv w \<longleftrightarrow> (\<exists>ts. cancel_list w ts)"

section \<open>Lemmas\<close>

lemma registry_lock_frame:
  assumes "registry_lock w = (status, w1)"
  shows "tokens w1 = tokens w" "reg_head (registry w1) = reg_head (registry w)"
    "reg_token_count (registry w1) = reg_token_count (registry w)"
    "reg_generation (registry w1) = reg_generation (registry w)"
    "reg_closing (registry w1) = reg_closing (registry w)"
    "reg_initialized (registry w1) = reg_initialized (registry w)"
  using assms by (auto simp: registry_lock_def split: prod.splits)

lemma registry_unlock_frame [simp, vps_frame]:
  "tokens (registry_unlock w) = tokens w" "reg_head (registry (registry_unlock w)) = reg_head (registry w)"
  "reg_token_count (registry (registry_unlock w)) = reg_token_count (registry w)"
  "reg_generation (registry (registry_unlock w)) = reg_generation (registry w)"
  "reg_closing (registry (registry_unlock w)) = reg_closing (registry w)"
  "reg_initialized (registry (registry_unlock w)) = reg_initialized (registry w)"
  by (auto simp: registry_unlock_def split: prod.splits)

lemma vps_cancel_log_frame [simp, vps_frame]:
  "reg_head (vps_cancel_log reg phase status n) = reg_head reg"
  "reg_token_count (vps_cancel_log reg phase status n) = reg_token_count reg"
  "reg_generation (vps_cancel_log reg phase status n) = reg_generation reg"
  "reg_closing (vps_cancel_log reg phase status n) = reg_closing reg"
  "reg_initialized (vps_cancel_log reg phase status n) = reg_initialized reg"
  by (simp_all add: vps_cancel_log_def)

lemma cancel_list_cong:
  assumes "tokens w' = tokens w" "reg_head (registry w') = reg_head (registry w)"
    "reg_token_count (registry w') = reg_token_count (registry w)"
  shows "cancel_list w' ts = cancel_list w ts"
  using assms by (simp add: cancel_list_def)

lemma chain_cong: "\<forall>a\<in>set ts. store' a = store a \<Longrightarrow> chain store' p ts = chain store p ts"
  by (induction ts arbitrary: p) auto

lemma chain_in_store: "chain store p ts \<Longrightarrow> a \<in> set ts \<Longrightarrow> \<exists>t. store a = Some t"
  by (induction ts arbitrary: p) auto

lemma chain_append:
  "chain store p (xs @ a # ys) \<Longrightarrow> \<exists>t. store a = Some t \<and> chain store (tok_next t) ys"
  by (induction xs arbitrary: p) auto

text \<open>Walking the whole list with an update of each token.\<close>

lemma cancel_clear_tokens_chain:
  assumes "chain store p ts" and "distinct ts"
  shows "cancel_clear_tokens p store = Some (\<lambda>a. if a \<in> set ts then Some zero_token else store a)"
  using assms
proof (induction ts arbitrary: p store)
  case Nil
  then show ?case by (simp add: cancel_clear_tokens.simps)
next
  case (Cons a ts)
  then obtain t where t: "p = Some a" "store a = Some t" "chain store (tok_next t) ts" by auto
  have "chain (store(a \<mapsto> zero_token)) (tok_next t) ts"
    using t(3) Cons.prems(2) by (subst chain_cong [of ts _ store]) auto
  from Cons.IH [OF this] Cons.prems(2)
  have "cancel_clear_tokens (tok_next t) (store(a \<mapsto> zero_token)) =
      Some (\<lambda>x. if x \<in> set ts then Some zero_token else (store(a \<mapsto> zero_token)) x)"
    by (simp only: distinct.simps)
  also have "(\<lambda>x. if x \<in> set ts then Some zero_token else (store(a \<mapsto> zero_token)) x) =
      (\<lambda>x. if x \<in> set (a # ts) then Some zero_token else store x)"
    by auto
  finally show ?case by (subst cancel_clear_tokens.simps) (simp only: t option.case)
qed

lemma cancel_request_tokens_chain:
  assumes "chain store p ts" and "distinct ts"
  shows "cancel_request_tokens g p store n =
    Some (\<lambda>a. if a \<in> set ts
              then map_option (\<lambda>t. t\<lparr>tok_requested := True, tok_request_generation := g\<rparr>) (store a)
              else store a, n + of_nat (length ts))"
  using assms
proof (induction ts arbitrary: p store n)
  case Nil
  then show ?case by (simp add: cancel_request_tokens.simps)
next
  case (Cons a ts)
  then obtain t where t: "p = Some a" "store a = Some t" "chain store (tok_next t) ts" by auto
  let ?req = "\<lambda>t. t\<lparr>tok_requested := True, tok_request_generation := g\<rparr>"
  have "chain (store(a \<mapsto> ?req t)) (tok_next t) ts"
    using t(3) Cons.prems(2) by (subst chain_cong [of ts _ store]) auto
  from Cons.IH [OF this] Cons.prems(2)
  have "cancel_request_tokens g (tok_next t) (store(a \<mapsto> ?req t)) (n + 1) =
      Some (\<lambda>x. if x \<in> set ts then map_option ?req ((store(a \<mapsto> ?req t)) x) else (store(a \<mapsto> ?req t)) x,
            n + 1 + of_nat (length ts))"
    by (simp only: distinct.simps)
  also have "(\<lambda>x. if x \<in> set ts then map_option ?req ((store(a \<mapsto> ?req t)) x) else (store(a \<mapsto> ?req t)) x) =
      (\<lambda>x. if x \<in> set (a # ts) then map_option ?req (store x) else store x)"
    using t(2) Cons.prems(2) by auto
  also have "n + 1 + of_nat (length ts) = n + of_nat (length (a # ts))" by simp
  finally show ?case by (subst cancel_request_tokens.simps) (simp only: t option.case)
qed

lemma cancel_find_link_chain:
  assumes "chain store (link_target store head link) (xs @ a # ys)" and "a \<notin> set xs"
  shows "cancel_find_link store head a link = Some (if xs = [] then link else Some (last xs))"
  using assms
proof (induction xs arbitrary: link)
  case Nil
  then show ?case by (subst cancel_find_link.simps) simp
next
  case (Cons x xs)
  then obtain t where t: "link_target store head link = Some x" "store x = Some t"
      "chain store (tok_next t) (xs @ a # ys)"
    by auto
  have "link_target store head (Some x) = tok_next t" by (simp add: link_target_def t(2))
  then have "cancel_find_link store head a (Some x) = Some (if xs = [] then Some x else Some (last xs))"
    using Cons.IH [of "Some x"] Cons.prems(2) t(3) by simp
  then show ?case
    using t Cons.prems(2) by (subst cancel_find_link.simps) auto
qed

lemma chain_remove:
  assumes "chain store p (xs @ a # ys)" "distinct (xs @ a # ys)" "xs \<noteq> []" "store a = Some t"
    and "\<forall>b. b \<noteq> last xs \<and> b \<noteq> a \<longrightarrow> s b = store b"
    and "s (last xs) = map_option (\<lambda>u. u\<lparr>tok_next := tok_next t\<rparr>) (store (last xs))"
  shows "chain s p (xs @ ys)"
  using assms
proof (induction xs arbitrary: p)
  case (Cons x xs)
  obtain u where u: "p = Some x" "store x = Some u" "chain store (tok_next u) (xs @ a # ys)"
    using Cons.prems(1) by auto
  show ?case
  proof (cases "xs = []")
    case True
    have "chain s (tok_next t) ys = chain store (tok_next t) ys"
      using Cons.prems(2,5) True by (intro chain_cong) auto
    then show ?thesis
      using u True Cons.prems(2,4,6) chain_append [of store "tok_next u" "[]" a ys] by auto
  next
    case False
    then have "x \<noteq> last xs" "x \<noteq> a" using Cons.prems(2) by auto
    then show ?thesis
      using Cons.IH [OF u(3)] Cons.prems(2,4,5,6) False u(1,2) by auto
  qed
qed simp

lemma cancel_register_keeps:
  assumes "cancel_list w ts" and "vps_cancel_token_register token cursor w = (r, w')"
  shows "case (r, token) of
      (VPS_CANCEL_REGISTRY_OK, Some a) \<Rightarrow> a \<notin> set ts \<and> cancel_list w' (a # ts) \<and>
         (\<exists>t. tokens w' a = Some t \<and> \<not> tok_requested t) \<and> (\<forall>b. b \<noteq> a \<longrightarrow> tokens w' b = tokens w b)
    | (VPS_CANCEL_REGISTRY_OK, None) \<Rightarrow> False
    | _ \<Rightarrow> cancel_list w' ts \<and> tokens w' = tokens w"
proof (cases "\<exists>a. token = Some a \<and> (\<exists>t. tokens w a = Some t \<and> \<not> tok_registered t) \<and> cursor \<noteq> 0 \<and>
      reg_initialized (registry w)")
  case False
  then show ?thesis
    using assms by (auto simp: vps_cancel_token_register_def split: option.splits if_splits)
next
  case True
  then obtain a t where a: "token = Some a" "tokens w a = Some t" "\<not> tok_registered t" "cursor \<noteq> 0"
      "reg_initialized (registry w)"
    by blast
  obtain status w1 where l: "registry_lock w = (status, w1)" by fastforce
  note lf = registry_lock_frame [OF l]
  have w1: "cancel_list w1 ts" using assms(1) lf by (simp add: cancel_list_cong [of w1 w])
  show ?thesis
  proof (cases "status = VPS_PLATFORM_OK \<and> \<not> (reg_closing (registry w1) \<or> reg_token_count (registry w1) = SIZE_MAX)")
    case False
    then have "r \<noteq> VPS_CANCEL_REGISTRY_OK" "tokens w' = tokens w1" "reg_head (registry w') = reg_head (registry w1)"
        "reg_token_count (registry w') = reg_token_count (registry w1)"
      using assms(2) a l by (auto simp: vps_cancel_token_register_def Let_def split: if_splits)
    then show ?thesis
      using w1 lf(1) by (cases r) (auto simp: cancel_list_cong [of w' w1])
  next
    case ok: True
    let ?new = "zero_token\<lparr>tok_registry := True, tok_cursor_id := cursor, tok_next := reg_head (registry w1),
        tok_registered := True\<rparr>"
    have e: "r = VPS_CANCEL_REGISTRY_OK" "tokens w' = (tokens w1)(a \<mapsto> ?new)" "reg_head (registry w') = Some a"
        "reg_token_count (registry w') = reg_token_count (registry w1) + 1"
      using assms(2) a l ok by (auto simp: vps_cancel_token_register_def Let_def split: if_splits)
    have n: "a \<notin> set ts" using assms(1) a(2,3) by (auto simp: cancel_list_def)
    have "unat (reg_token_count (registry w1) + 1) = length ts + 1"
      using unat_Suc_no_wrap [of "reg_token_count (registry w1)"] ok w1 by (simp add: cancel_list_def)
    moreover have "chain (tokens w') (reg_head (registry w1)) ts"
      using w1 n chain_cong [of ts "tokens w'" "tokens w1"] by (auto simp: cancel_list_def e)
    ultimately have "cancel_list w' (a # ts)"
      using w1 n e by (auto simp: cancel_list_def)
    then show ?thesis using a(1) n e lf(1) by simp
  qed
qed

lemma cancel_request_keeps:
  assumes "cancel_list w ts"
  shows "\<exists>r w' n. vps_cancel_registry_request_all w = Some (r, w', n) \<and> cancel_list w' ts \<and>
    (r = VPS_CANCEL_REGISTRY_OK \<longrightarrow> n = Some (of_nat (length ts)) \<and>
       (\<forall>a\<in>set ts. \<exists>t. tokens w' a = Some t \<and> tok_requested t)) \<and>
    (r \<noteq> VPS_CANCEL_REGISTRY_OK \<longrightarrow> tokens w' = tokens w)"
proof -
  obtain status w1 where l: "registry_lock w = (status, w1)" by fastforce
  note lf = registry_lock_frame [OF l]
  have w1: "cancel_list w1 ts" using assms lf by (simp add: cancel_list_cong [of w1 w])
  show ?thesis
  proof (cases "reg_initialized (registry w) \<and> status = VPS_PLATFORM_OK \<and>
      \<not> (reg_closing (registry w1) \<or> reg_generation (registry w1) = UINT64_MAX)")
    case False
    then show ?thesis
      using assms w1 l lf(1) by (auto simp: vps_cancel_registry_request_all_def cancel_list_cong [of "registry_unlock w1" w1])
  next
    case True
    let ?g = "reg_generation (registry w1) + 1"
    let ?store = "\<lambda>a. if a \<in> set ts
        then map_option (\<lambda>t. t\<lparr>tok_requested := True, tok_request_generation := ?g\<rparr>) (tokens w1 a) else tokens w1 a"
    have c: "chain (tokens w1) (reg_head (registry w1)) ts" "distinct ts" using w1 by (simp_all add: cancel_list_def)
    obtain w' where w': "vps_cancel_registry_request_all w = Some (VPS_CANCEL_REGISTRY_OK, w', Some (of_nat (length ts)))"
        "tokens w' = ?store" "reg_head (registry w') = reg_head (registry w1)"
        "reg_token_count (registry w') = reg_token_count (registry w1)"
      using True l cancel_request_tokens_chain [OF c, of ?g 0]
      by (simp add: vps_cancel_registry_request_all_def Let_def)
    have "chain ?store p xs = chain (tokens w1) p xs" for p xs
      by (induction xs arbitrary: p) (auto split: if_splits)
    then have "cancel_list w' ts"
      using w1 by (auto simp: cancel_list_def w' split: if_splits)
    moreover have "\<forall>a\<in>set ts. \<exists>t. tokens w' a = Some t \<and> tok_requested t"
      using chain_in_store [OF c(1)] by (fastforce simp: w')
    ultimately show ?thesis using w'(1) by blast
  qed
qed

lemma link_target_last:
  assumes "chain store head (xs @ a # ys)"
  shows "link_target store head (if xs = [] then None else Some (last xs)) = Some a"
  using assms
proof (induction xs arbitrary: head)
  case (Cons x xs)
  then obtain u where u: "store x = Some u" "chain store (tok_next u) (xs @ a # ys)" by auto
  show ?case
    using Cons.IH [OF u(2)] u by (cases "xs = []") (auto simp: link_target_def)
qed (simp add: link_target_def)

lemma write_link_frame:
  "reg_token_count (registry (write_link w link target)) = reg_token_count (registry w)"
  by (simp add: write_link_def split: option.split)

lemma cancel_unlink:
  assumes "cancel_list w (xs @ a # ys)" and "tokens w a = Some t"
    and "tokens w' = (tokens (write_link w (if xs = [] then None else Some (last xs)) (tok_next t)))(a \<mapsto> zero_token)"
    and "reg_head (registry w') = reg_head (registry (write_link w (if xs = [] then None else Some (last xs)) (tok_next t)))"
    and "reg_token_count (registry w') = reg_token_count (registry w) - 1"
  shows "cancel_list w' (xs @ ys)"
proof -
  have c: "chain (tokens w) (reg_head (registry w)) (xs @ a # ys)" "distinct (xs @ a # ys)"
      "unat (reg_token_count (registry w)) = length (xs @ a # ys)"
      "\<forall>b t. tokens w b = Some t \<longrightarrow> tok_registered t = (b \<in> set (xs @ a # ys)) \<and> tok_registry t = tok_registered t"
    using assms(1) by (simp_all add: cancel_list_def)
  have "unat (reg_token_count (registry w) - 1) = length (xs @ ys)"
    using c(3) unat_pred [of "reg_token_count (registry w)"] by (cases "reg_token_count (registry w) = 0") simp_all
  moreover have "chain (tokens w') (reg_head (registry w')) (xs @ ys)"
  proof (cases "xs = []")
    case True
    then show ?thesis
      using c(1,2) assms(2-4) chain_cong [of ys "tokens w'" "tokens w"] by (auto simp: write_link_def)
  next
    case False
    then have ne: "last xs \<noteq> a" using c(2) last_in_set [of xs] by auto
    have head: "reg_head (registry w') = reg_head (registry w)"
      and tok: "tokens w' = ((tokens w)(last xs := map_option (\<lambda>u. u\<lparr>tok_next := tok_next t\<rparr>) (tokens w (last xs))))
          (a \<mapsto> zero_token)"
      using False assms(3,4) by (simp_all add: write_link_def)
    show ?thesis
      unfolding head by (rule chain_remove [OF c(1,2) False assms(2)]) (simp_all add: tok ne)
  qed
  moreover have "\<forall>b t. tokens w' b = Some t \<longrightarrow> tok_registered t = (b \<in> set (xs @ ys)) \<and> tok_registry t = tok_registered t"
    using c(2,4) assms(3) by (auto simp: write_link_def split: if_splits)
  ultimately show ?thesis
    using c(2) assms(5) by (simp add: cancel_list_def)
qed

lemma cancel_unregister_keeps:
  assumes "cancel_list w ts"
  shows "\<exists>r w'. vps_cancel_token_unregister token w = Some (r, w') \<and>
    (\<exists>ts'. cancel_list w' ts' \<and> set ts' \<subseteq> set ts \<and>
      (r = VPS_CANCEL_REGISTRY_OK \<longrightarrow> (\<forall>a. token = Some a \<longrightarrow> set ts' = set ts - {a})))"
proof (cases "\<exists>a t. token = Some a \<and> tokens w a = Some t \<and> tok_registered t \<and> tok_registry t \<and>
      reg_initialized (registry w)")
  case False
  have reg: "tokens w a = Some t \<Longrightarrow> tok_registry t = tok_registered t \<and> tok_registered t = (a \<in> set ts)" for a t
    using assms by (simp add: cancel_list_def)
  have "\<exists>r. vps_cancel_token_unregister token w = Some (r, w) \<and>
      (r = VPS_CANCEL_REGISTRY_OK \<longrightarrow> (\<forall>a. token = Some a \<longrightarrow> a \<notin> set ts))"
  proof (cases token)
    case (Some a)
    show ?thesis
    proof (cases "tokens w a")
      case (Some t)
      then show ?thesis
        using False reg [OF Some] \<open>token = Some a\<close> by (cases "tok_registered t") (auto simp: vps_cancel_token_unregister_def)
    qed (simp add: vps_cancel_token_unregister_def Some)
  qed (simp add: vps_cancel_token_unregister_def)
  then show ?thesis using assms by blast
next
  case True
  then obtain a t where a: "token = Some a" "tokens w a = Some t" "tok_registered t" "tok_registry t"
      "reg_initialized (registry w)"
    by blast
  obtain status w1 where l: "registry_lock w = (status, w1)" by fastforce
  note lf = registry_lock_frame [OF l]
  have w1: "cancel_list w1 ts" using assms lf by (simp add: cancel_list_cong [of w1 w])
  show ?thesis
  proof (cases "status = VPS_PLATFORM_OK")
    case False
    then show ?thesis using a l w1 by (auto simp: vps_cancel_token_unregister_def)
  next
    case ok: True
    have "a \<in> set ts" using assms a by (auto simp: cancel_list_def)
    then obtain xs ys where ts: "ts = xs @ a # ys" "a \<notin> set xs" by (metis split_list_first)
    let ?link = "if xs = [] then None else Some (last xs)"
    have c: "chain (tokens w1) (reg_head (registry w1)) (xs @ a # ys)" "distinct (xs @ a # ys)"
        "unat (reg_token_count (registry w1)) = length (xs @ a # ys)"
      using w1 ts by (simp_all add: cancel_list_def)
    have find: "cancel_find_link (tokens w1) (reg_head (registry w1)) a None = Some ?link"
      using cancel_find_link_chain [of "tokens w1" "reg_head (registry w1)" None xs a ys] c(1) ts(2)
      by (simp add: link_target_def)
    have target: "link_target (tokens w1) (reg_head (registry w1)) ?link = Some a"
      using c(1) by (rule link_target_last)
    have cnt: "reg_token_count (registry w1) \<noteq> 0" using c(3) by auto
    obtain w' where w': "vps_cancel_token_unregister token w = Some (VPS_CANCEL_REGISTRY_OK, w')"
        "tokens w' = (tokens (write_link w1 ?link (tok_next t)))(a \<mapsto> zero_token)"
        "reg_head (registry w') = reg_head (registry (write_link w1 ?link (tok_next t)))"
        "reg_token_count (registry w') = reg_token_count (registry w1) - 1"
      using a l ok find target cnt
      by (simp add: vps_cancel_token_unregister_def Let_def write_link_frame)
    have "cancel_list w' (xs @ ys)"
      using w1 a(2) lf(1) w'(2-4) unfolding ts(1) by (intro cancel_unlink [of w1 xs a ys t w']) simp_all
    then show ?thesis using w'(1) c(2) a(1) by (auto simp: ts(1))
  qed
qed

lemma cancel_cleanup_keeps:
  assumes "cancel_list w ts"
  shows "\<exists>r w' ts'. vps_cancel_registry_cleanup w = Some (r, w') \<and> cancel_list w' ts'"
proof -
  obtain status w1 where l: "registry_lock w = (status, w1)" by fastforce
  note lf = registry_lock_frame [OF l]
  have w1: "cancel_list w1 ts" using assms lf by (simp add: cancel_list_cong [of w1 w])
  then have c: "chain (tokens w1) (reg_head (registry w1)) ts" "distinct ts" by (simp_all add: cancel_list_def)
  have none: "cancel_list w2 []"
    if "tokens w2 = (\<lambda>a. if a \<in> set ts then Some zero_token else tokens w1 a)"
      "reg_head (registry w2) = None" "reg_token_count (registry w2) = 0" for w2 :: "('a, 'b) cancel_world"
    using that w1 by (auto simp: cancel_list_def split: if_splits)
  show ?thesis
  proof (cases "reg_initialized (registry w) \<and> status = VPS_PLATFORM_OK")
    case True
    then show ?thesis
      using l
      by (auto simp: vps_cancel_registry_cleanup_def cancel_clear_tokens_chain [OF c] Let_def
          intro!: exI [of _ "[]"] none split: prod.split)
  next
    case False
    then show ?thesis
      using assms w1 l by (auto simp: vps_cancel_registry_cleanup_def)
  qed
qed

section \<open>Sequences of calls\<close>

datatype cancel_call =
    RegisterToken "addr option" u64
  | UnregisterToken "addr option"
  | RequestAll
  | ProbeToken "addr option"
  | CleanupRegistry

definition cancel_step :: "('p, 'c) cancel_world \<Rightarrow> cancel_call \<Rightarrow> ('p, 'c) cancel_world" where
  "cancel_step w call =
     (case call of
        RegisterToken token cursor \<Rightarrow> snd (vps_cancel_token_register token cursor w)
      | UnregisterToken token \<Rightarrow> snd (the (vps_cancel_token_unregister token w))
      | RequestAll \<Rightarrow> fst (snd (the (vps_cancel_registry_request_all w)))
      | ProbeToken token \<Rightarrow> snd (vps_cancel_token_probe token w)
      | CleanupRegistry \<Rightarrow> snd (the (vps_cancel_registry_cleanup w)))"

lemma cancel_probe_frame:
  "tokens (snd (vps_cancel_token_probe token w)) = tokens w"
  "reg_head (registry (snd (vps_cancel_token_probe token w))) = reg_head (registry w)"
  "reg_token_count (registry (snd (vps_cancel_token_probe token w))) = reg_token_count (registry w)"
  by (auto simp: vps_cancel_token_probe_def Let_def dest: registry_lock_frame split: option.split prod.split)

lemma cancel_step_inv: "cancel_inv w \<Longrightarrow> cancel_inv (cancel_step w call)"
proof -
  assume "cancel_inv w"
  then obtain ts where ts: "cancel_list w ts" by (auto simp: cancel_inv_def)
  show ?thesis
  proof (cases call)
    case (RegisterToken token cursor)
    obtain r w' where r: "vps_cancel_token_register token cursor w = (r, w')" by fastforce
    then show ?thesis
      using cancel_register_keeps [OF ts r] RegisterToken
      by (cases r; cases token) (auto simp: cancel_step_def cancel_inv_def)
  next
    case (UnregisterToken token)
    then show ?thesis
      using cancel_unregister_keeps [OF ts, of token] by (auto simp: cancel_step_def cancel_inv_def)
  next
    case RequestAll
    then show ?thesis using cancel_request_keeps [OF ts] by (auto simp: cancel_step_def cancel_inv_def)
  next
    case (ProbeToken token)
    then show ?thesis
      using ts cancel_list_cong [OF cancel_probe_frame, of token w ts]
      by (auto simp: cancel_step_def cancel_inv_def)
  next
    case CleanupRegistry
    then show ?thesis using cancel_cleanup_keeps [OF ts] by (auto simp: cancel_step_def cancel_inv_def)
  qed
qed

interpretation cancel: guarded_machine cancel_step "\<lambda>_. True" cancel_inv
  by unfold_locales (rule cancel_step_inv)

lemma registry_init_inv:
  assumes "vps_cancel_registry_init platform logger w = (VPS_CANCEL_REGISTRY_OK, w0)"
    and "\<forall>a t. tokens w a = Some t \<longrightarrow> t = zero_token"
  shows "cancel_inv w0"
proof -
  have "tokens w0 = tokens w" "reg_head (registry w0) = None" "reg_token_count (registry w0) = 0"
    using assms(1) by (auto simp: vps_cancel_registry_init_def split: if_splits prod.splits)
  moreover have "tokens w a = Some t \<Longrightarrow> \<not> tok_registered t \<and> \<not> tok_registry t" for a t
    using assms(2) [rule_format, of a t] by simp
  ultimately show ?thesis
    by (auto simp: cancel_inv_def cancel_list_def intro!: exI [of _ "[]"])
qed

section \<open>Properties\<close>

text \<open>C9. After any sequence of calls on a freshly initialised registry, the walks of the token list
  end: unregistering any token, requesting cancellation and cleaning up all return.\<close>

theorem cancel_walks_end:
  assumes "vps_cancel_registry_init platform logger w = (VPS_CANCEL_REGISTRY_OK, w0)"
    and "\<forall>a t. tokens w a = Some t \<longrightarrow> t = zero_token"
  shows "vps_cancel_token_unregister token (foldl cancel_step w0 calls) \<noteq> None \<and>
    vps_cancel_registry_request_all (foldl cancel_step w0 calls) \<noteq> None \<and>
    vps_cancel_registry_cleanup (foldl cancel_step w0 calls) \<noteq> None"
proof -
  obtain ts where "cancel_list (foldl cancel_step w0 calls) ts"
    using cancel.run_inv [OF registry_init_inv [OF assms]] by (auto simp: cancel_inv_def list_all_iff)
  then show ?thesis
    using cancel_unregister_keeps cancel_request_keeps cancel_cleanup_keeps by fast
qed

abbreviation counting_platform :: "nat VpsPlatformOperations" where
  "counting_platform \<equiv> vps_posix_stub_operations\<lparr>capabilities := 2,
     op_mutex_init := Some (\<lambda>m p. (VPS_PLATFORM_OK, m, p)), op_mutex_destroy := Some (\<lambda>m p. (VPS_PLATFORM_OK, m, p)),
     op_mutex_lock := Some (\<lambda>m p. (VPS_PLATFORM_OK, m, Suc p)), op_mutex_unlock := Some (\<lambda>m p. (VPS_PLATFORM_OK, m, p))\<rparr>"

abbreviation two_token_world :: "(nat, unit) cancel_world" where
  "two_token_world \<equiv> \<lparr>registry = zero_registry\<lparr>reg_platform := Some counting_platform, reg_initialized := True\<rparr>,
     tokens = [1 \<mapsto> zero_token, 2 \<mapsto> zero_token], platform_state = 0\<rparr>"

lemma two_token_world_init:
  "vps_cancel_registry_init (Some counting_platform) None two_token_world = (VPS_CANCEL_REGISTRY_OK, two_token_world)"
  by (simp add: vps_cancel_registry_init_def vps_platform_mutex_init_def platform_dispatch_def)

theorem cancel_walks_end_witness:
  "vps_cancel_registry_request_all (foldl cancel_step two_token_world
     [RegisterToken (Some 1) 7, RegisterToken (Some 2) 8, UnregisterToken (Some 1)]) \<noteq> None"
  using cancel_walks_end [OF two_token_world_init, of "Some 2"
      "[RegisterToken (Some 1) 7, RegisterToken (Some 2) 8, UnregisterToken (Some 1)]"]
  by (auto split: if_splits)

text \<open>C4. A cancellation request reaches every registered cursor and nobody else: after a successful
  request the reported count is the number of registered tokens, each registered token answers its
  probe with an interrupt, and a token registered afterwards does not.\<close>

theorem cancel_request_reaches_all:
  assumes "vps_cancel_registry_init platform logger w = (VPS_CANCEL_REGISTRY_OK, w0)"
    and "\<forall>a t. tokens w a = Some t \<longrightarrow> t = zero_token"
    and "vps_cancel_registry_request_all (foldl cancel_step w0 calls) = Some (VPS_CANCEL_REGISTRY_OK, w1, n)"
  shows "n = Some (of_nat (card {a. \<exists>t. tokens w1 a = Some t \<and> tok_registered t})) \<and>
    (\<forall>a t. tokens w1 a = Some t \<and> tok_registered t \<and> fst (registry_lock w1) = VPS_PLATFORM_OK \<longrightarrow>
       fst (vps_cancel_token_probe (Some a) w1) = VPS_INTERRUPT_REQUESTED) \<and>
    (\<forall>a cursor w2. vps_cancel_token_register (Some a) cursor w1 = (VPS_CANCEL_REGISTRY_OK, w2) \<and>
       fst (registry_lock w2) = VPS_PLATFORM_OK \<longrightarrow>
       fst (vps_cancel_token_probe (Some a) w2) = VPS_INTERRUPT_CONTINUE)"
proof -
  obtain ts where "cancel_list (foldl cancel_step w0 calls) ts"
    using cancel.run_inv [OF registry_init_inv [OF assms(1,2)]] by (auto simp: cancel_inv_def list_all_iff)
  from cancel_request_keeps [OF this] assms(3)
  have w1: "cancel_list w1 ts" "n = Some (of_nat (length ts))"
      "\<forall>a\<in>set ts. \<exists>t. tokens w1 a = Some t \<and> tok_requested t"
    by auto
  have reg: "tokens w1 a = Some t \<Longrightarrow> tok_registered t = (a \<in> set ts) \<and> tok_registry t = tok_registered t" for a t
    using w1(1) by (simp add: cancel_list_def)
  have "{a. \<exists>t. tokens w1 a = Some t \<and> tok_registered t} = set ts"
    using reg w1(3) by fastforce
  then have "n = Some (of_nat (card {a. \<exists>t. tokens w1 a = Some t \<and> tok_registered t}))"
    using w1(1,2) by (simp add: cancel_list_def distinct_card)
  moreover have "fst (vps_cancel_token_probe (Some a) w1) = VPS_INTERRUPT_REQUESTED"
    if "tokens w1 a = Some t" "tok_registered t" "fst (registry_lock w1) = VPS_PLATFORM_OK" for a t
    using that reg [OF that(1)] w1(3) registry_lock_frame(1) [of w1 VPS_PLATFORM_OK "snd (registry_lock w1)"]
    by (auto simp: vps_cancel_token_probe_def Let_def split: prod.splits)
  moreover have "fst (vps_cancel_token_probe (Some a) w2) = VPS_INTERRUPT_CONTINUE"
    if "vps_cancel_token_register (Some a) cursor w1 = (VPS_CANCEL_REGISTRY_OK, w2)"
      "fst (registry_lock w2) = VPS_PLATFORM_OK" for a cursor w2
    using that cancel_register_keeps [OF w1(1) that(1)] registry_lock_frame(1) [of w2 VPS_PLATFORM_OK "snd (registry_lock w2)"]
    by (auto simp: vps_cancel_token_probe_def Let_def cancel_list_def split: prod.splits)
  ultimately show ?thesis by blast
qed

theorem cancel_request_reaches_all_witness:
  "\<exists>w1 n. vps_cancel_registry_request_all (foldl cancel_step two_token_world [RegisterToken (Some 1) 7]) =
       Some (VPS_CANCEL_REGISTRY_OK, w1, n) \<and>
     fst (vps_cancel_token_probe (Some 1) w1) = VPS_INTERRUPT_REQUESTED"
proof -
  obtain w1 n where r: "vps_cancel_registry_request_all (foldl cancel_step two_token_world [RegisterToken (Some 1) 7]) =
       Some (VPS_CANCEL_REGISTRY_OK, w1, n)"
    and t: "\<exists>t. tokens w1 1 = Some t \<and> tok_registered t" "fst (registry_lock w1) = VPS_PLATFORM_OK"
    by (simp add: vps_cancel_registry_request_all_def cancel_step_def vps_cancel_token_register_def registry_lock_def
        registry_unlock_def vps_platform_mutex_lock_def vps_platform_mutex_unlock_def platform_dispatch_def
        vps_cancel_log_def cancel_request_tokens.simps Let_def)
  show ?thesis
    using cancel_request_reaches_all [OF two_token_world_init _ r] r t by (auto split: if_splits)
qed

end
