(* ===== verification/Vps_Memory.thy ===== *)
theory Vps_Memory
  imports Vps_Prelude
begin

text \<open>
  The memory layer of \<open>src/src/vps_memory.c\<close>: the allocator dispatch table, checked size
  arithmetic, owned memory and growable buffers.

  A block of memory is the list of its bytes, and a pointer to an owned block is an \<open>option\<close> of
  it; blocks have one owner, so no aliasing is lost. The callbacks of an allocator are functions
  on the state behind its \<open>context\<close> pointer, the type \<open>'w\<close>. The C heap (\<open>malloc\<close>, \<open>realloc\<close>,
  \<open>free\<close>) is the record \<open>heap\<close>: it decides by an arbitrary oracle which request is served, fills
  fresh memory with arbitrary bytes, and records the multiset of the sizes of the live blocks and
  the contents that blocks had when they went back.
\<close>

section \<open>Data\<close>

datatype VpsMemoryResult =
    VPS_MEMORY_OK
  | VPS_MEMORY_INVALID_ARGUMENT
  | VPS_MEMORY_OVERFLOW
  | VPS_MEMORY_LIMIT_EXCEEDED
  | VPS_MEMORY_OUT_OF_MEMORY
  | VPS_MEMORY_RANGE_ERROR

datatype VpsAllocatorFamily =
    VPS_ALLOCATOR_FAMILY_SYSTEM
  | VPS_ALLOCATOR_FAMILY_SQLITE
  | VPS_ALLOCATOR_FAMILY_TEST
  | VPS_ALLOCATOR_FAMILY_OUT_OF_RANGE int

type_synonym block = "u8 list"

record 'w VpsAllocator =
  alloc_family :: VpsAllocatorFamily
  alloc_allocate :: "('w \<Rightarrow> size_t \<Rightarrow> block option \<times> 'w) option"
  alloc_reallocate :: "('w \<Rightarrow> block \<Rightarrow> size_t \<Rightarrow> size_t \<Rightarrow> block option \<times> 'w) option"
  alloc_deallocate :: "('w \<Rightarrow> block \<Rightarrow> size_t \<Rightarrow> 'w) option"

record 'w VpsBuffer =
  buf_allocator :: "'w VpsAllocator"
  buf_data :: "block option"
  buf_size :: size_t
  buf_capacity :: size_t
  buf_limit :: size_t

record 'w VpsFaultAllocator =
  fault_backing :: "'w VpsAllocator"
  fault_fail_at_attempt :: size_t
  fault_attempt_count :: size_t
  fault_active_allocations :: size_t
  fault_cleanup_errors :: size_t

record 'w VpsOwnedMemory =
  owned_allocator :: "'w VpsAllocator"
  owned_memory :: "block option"
  owned_size :: size_t
  owned_flag :: bool

section \<open>The C heap and the system allocator\<close>

record heap =
  heap_oracle :: "nat \<Rightarrow> bool"
  heap_junk :: "nat \<Rightarrow> u8"
  heap_requests :: nat
  heap_live :: "nat multiset"
  heap_freed :: "block list"

definition c_malloc :: "heap \<Rightarrow> size_t \<Rightarrow> block option \<times> heap" where
  "c_malloc h nbytes =
     (let h' = h\<lparr>heap_requests := Suc (heap_requests h)\<rparr> in
      if heap_oracle h (heap_requests h)
      then (Some (replicate (unat nbytes) (heap_junk h (heap_requests h))),
            h'\<lparr>heap_live := add_mset (unat nbytes) (heap_live h)\<rparr>)
      else (None, h'))"

definition c_realloc :: "heap \<Rightarrow> block \<Rightarrow> size_t \<Rightarrow> block option \<times> heap" where
  "c_realloc h memory nbytes =
     (let h' = h\<lparr>heap_requests := Suc (heap_requests h)\<rparr> in
      if heap_oracle h (heap_requests h)
      then (Some (take (unat nbytes)
                   (memory @ replicate (unat nbytes) (heap_junk h (heap_requests h)))),
            h'\<lparr>heap_live := add_mset (unat nbytes) (heap_live h - {#length memory#}),
               heap_freed := memory # heap_freed h\<rparr>)
      else (None, h'))"

definition c_free :: "heap \<Rightarrow> block \<Rightarrow> heap" where
  "c_free h memory =
     h\<lparr>heap_live := heap_live h - {#length memory#}, heap_freed := memory # heap_freed h\<rparr>"

definition vps_system_allocate :: "heap \<Rightarrow> size_t \<Rightarrow> block option \<times> heap" where
  "vps_system_allocate context nbytes = c_malloc context nbytes"

definition vps_system_reallocate ::
    "heap \<Rightarrow> block \<Rightarrow> size_t \<Rightarrow> size_t \<Rightarrow> block option \<times> heap" where
  "vps_system_reallocate context memory old_size new_size = c_realloc context memory new_size"

definition vps_system_deallocate :: "heap \<Rightarrow> block \<Rightarrow> size_t \<Rightarrow> heap" where
  "vps_system_deallocate context memory nbytes = c_free context memory"

section \<open>Allocators\<close>

definition vps_allocator_init ::
    "VpsAllocatorFamily \<Rightarrow> ('w \<Rightarrow> size_t \<Rightarrow> block option \<times> 'w) option \<Rightarrow>
     ('w \<Rightarrow> block \<Rightarrow> size_t \<Rightarrow> size_t \<Rightarrow> block option \<times> 'w) option \<Rightarrow>
     ('w \<Rightarrow> block \<Rightarrow> size_t \<Rightarrow> 'w) option \<Rightarrow> VpsMemoryResult \<times> 'w VpsAllocator option" where
  "vps_allocator_init family allocate reallocate deallocate =
     (if allocate = None \<or> reallocate = None \<or> deallocate = None
      then (VPS_MEMORY_INVALID_ARGUMENT, None)
      else if family \<noteq> VPS_ALLOCATOR_FAMILY_SYSTEM \<and> family \<noteq> VPS_ALLOCATOR_FAMILY_SQLITE \<and>
              family \<noteq> VPS_ALLOCATOR_FAMILY_TEST
      then (VPS_MEMORY_INVALID_ARGUMENT, None)
      else (VPS_MEMORY_OK,
            Some \<lparr>alloc_family = family, alloc_allocate = allocate,
                  alloc_reallocate = reallocate, alloc_deallocate = deallocate\<rparr>))"

definition vps_allocator_system :: "VpsMemoryResult \<times> heap VpsAllocator option" where
  "vps_allocator_system =
     vps_allocator_init VPS_ALLOCATOR_FAMILY_SYSTEM (Some vps_system_allocate)
       (Some vps_system_reallocate) (Some vps_system_deallocate)"

definition vps_allocator_is_valid :: "'w VpsAllocator option \<Rightarrow> bool" where
  "vps_allocator_is_valid allocator_ptr =
     (case allocator_ptr of
        None \<Rightarrow> False
      | Some allocator \<Rightarrow>
          if alloc_allocate allocator = None \<or> alloc_reallocate allocator = None \<or>
             alloc_deallocate allocator = None
          then False
          else alloc_family allocator = VPS_ALLOCATOR_FAMILY_SYSTEM \<or>
               alloc_family allocator = VPS_ALLOCATOR_FAMILY_SQLITE \<or>
               alloc_family allocator = VPS_ALLOCATOR_FAMILY_TEST)"

text \<open>Calls through the dispatch table. Every caller has checked \<open>vps_allocator_is_valid\<close> (or, for
  the fault allocator, had it checked when it was made), so the \<open>None\<close> branches are not reached.\<close>

definition call_allocate :: "'w VpsAllocator \<Rightarrow> 'w \<Rightarrow> size_t \<Rightarrow> block option \<times> 'w" where
  "call_allocate a w nbytes = (case alloc_allocate a of Some f \<Rightarrow> f w nbytes | None \<Rightarrow> (None, w))"

definition call_reallocate ::
    "'w VpsAllocator \<Rightarrow> 'w \<Rightarrow> block \<Rightarrow> size_t \<Rightarrow> size_t \<Rightarrow> block option \<times> 'w" where
  "call_reallocate a w memory old_size new_size =
     (case alloc_reallocate a of Some f \<Rightarrow> f w memory old_size new_size | None \<Rightarrow> (None, w))"

definition call_deallocate :: "'w VpsAllocator \<Rightarrow> 'w \<Rightarrow> block \<Rightarrow> size_t \<Rightarrow> 'w" where
  "call_deallocate a w memory nbytes =
     (case alloc_deallocate a of Some f \<Rightarrow> f w memory nbytes | None \<Rightarrow> w)"

definition vps_memory_allocate ::
    "'w VpsAllocator option \<Rightarrow> size_t \<Rightarrow> block option \<Rightarrow> 'w \<Rightarrow>
     VpsMemoryResult \<times> block option \<times> 'w" where
  "vps_memory_allocate allocator nbytes memory w =
     (if \<not> vps_allocator_is_valid allocator then (VPS_MEMORY_INVALID_ARGUMENT, memory, w)
      else if nbytes = 0 then (VPS_MEMORY_OK, None, w)
      else case call_allocate (the allocator) w nbytes of
        (None, w') \<Rightarrow> (VPS_MEMORY_OUT_OF_MEMORY, None, w')
      | (Some allocated, w') \<Rightarrow> (VPS_MEMORY_OK, Some allocated, w'))"

definition vps_memory_release ::
    "'w VpsAllocator option \<Rightarrow> block option \<Rightarrow> size_t \<Rightarrow> 'w \<Rightarrow> block option \<times> 'w" where
  "vps_memory_release allocator memory nbytes w =
     (case memory of
        None \<Rightarrow> (None, w)
      | Some m \<Rightarrow>
          if \<not> vps_allocator_is_valid allocator then (memory, w)
          else (None, call_deallocate (the allocator) w m nbytes))"

definition vps_memory_reallocate ::
    "'w VpsAllocator option \<Rightarrow> block option \<Rightarrow> size_t \<Rightarrow> size_t \<Rightarrow> 'w \<Rightarrow>
     VpsMemoryResult \<times> block option \<times> 'w" where
  "vps_memory_reallocate allocator memory old_size new_size w =
     (if \<not> vps_allocator_is_valid allocator then (VPS_MEMORY_INVALID_ARGUMENT, memory, w)
      else if new_size = 0
      then (case vps_memory_release allocator memory old_size w of
              (memory', w') \<Rightarrow> (VPS_MEMORY_OK, memory', w'))
      else case memory of
        None \<Rightarrow> vps_memory_allocate allocator new_size memory w
      | Some m \<Rightarrow>
          (case call_reallocate (the allocator) w m old_size new_size of
             (None, w') \<Rightarrow> (VPS_MEMORY_OUT_OF_MEMORY, memory, w')
           | (Some resized, w') \<Rightarrow> (VPS_MEMORY_OK, Some resized, w')))"

section \<open>Fault injection\<close>

definition vps_fault_allocator_should_fail :: "'w VpsFaultAllocator \<Rightarrow> bool \<times> 'w VpsFaultAllocator" where
  "vps_fault_allocator_should_fail fault =
     (let fault' = fault\<lparr>fault_attempt_count := fault_attempt_count fault + 1\<rparr>
      in (fault_fail_at_attempt fault' \<noteq> 0 \<and>
          fault_attempt_count fault' = fault_fail_at_attempt fault', fault'))"

definition vps_fault_allocate ::
    "'w VpsFaultAllocator \<times> 'w \<Rightarrow> size_t \<Rightarrow> block option \<times> ('w VpsFaultAllocator \<times> 'w)" where
  "vps_fault_allocate context nbytes =
     (case context of
        (fault, w) \<Rightarrow>
          (case vps_fault_allocator_should_fail fault of
             (True, fault') \<Rightarrow> (None, (fault', w))
           | (False, fault') \<Rightarrow>
               (case call_allocate (fault_backing fault') w nbytes of
                  (None, w') \<Rightarrow> (None, (fault', w'))
                | (Some memory, w') \<Rightarrow>
                    (Some memory,
                     (fault'\<lparr>fault_active_allocations := fault_active_allocations fault' + 1\<rparr>, w')))))"

definition vps_fault_reallocate ::
    "'w VpsFaultAllocator \<times> 'w \<Rightarrow> block \<Rightarrow> size_t \<Rightarrow> size_t \<Rightarrow>
     block option \<times> ('w VpsFaultAllocator \<times> 'w)" where
  "vps_fault_reallocate context memory old_size new_size =
     (case context of
        (fault, w) \<Rightarrow>
          (case vps_fault_allocator_should_fail fault of
             (True, fault') \<Rightarrow> (None, (fault', w))
           | (False, fault') \<Rightarrow>
               (case call_reallocate (fault_backing fault') w memory old_size new_size of
                  (resized, w') \<Rightarrow> (resized, (fault', w')))))"

definition vps_fault_deallocate ::
    "'w VpsFaultAllocator \<times> 'w \<Rightarrow> block \<Rightarrow> size_t \<Rightarrow> 'w VpsFaultAllocator \<times> 'w" where
  "vps_fault_deallocate context memory nbytes =
     (case context of
        (fault, w) \<Rightarrow>
          let w' = call_deallocate (fault_backing fault) w memory nbytes
          in if fault_active_allocations fault = 0
             then (fault\<lparr>fault_cleanup_errors := fault_cleanup_errors fault + 1\<rparr>, w')
             else (fault\<lparr>fault_active_allocations := fault_active_allocations fault - 1\<rparr>, w'))"

definition vps_fault_allocator_init ::
    "'w VpsAllocator option \<Rightarrow> size_t \<Rightarrow> VpsMemoryResult \<times> 'w VpsFaultAllocator option" where
  "vps_fault_allocator_init backing fail_at_attempt =
     (if \<not> vps_allocator_is_valid backing then (VPS_MEMORY_INVALID_ARGUMENT, None)
      else (VPS_MEMORY_OK,
            Some \<lparr>fault_backing = the backing, fault_fail_at_attempt = fail_at_attempt,
                  fault_attempt_count = 0, fault_active_allocations = 0,
                  fault_cleanup_errors = 0\<rparr>))"

definition vps_fault_allocator_make ::
    "'w VpsFaultAllocator \<Rightarrow> VpsMemoryResult \<times> ('w VpsFaultAllocator \<times> 'w) VpsAllocator option" where
  "vps_fault_allocator_make fault =
     (if \<not> vps_allocator_is_valid (Some (fault_backing fault)) then (VPS_MEMORY_INVALID_ARGUMENT, None)
      else vps_allocator_init (alloc_family (fault_backing fault)) (Some vps_fault_allocate)
             (Some vps_fault_reallocate) (Some vps_fault_deallocate))"

definition vps_fault_allocator_reset ::
    "'w VpsFaultAllocator \<Rightarrow> size_t \<Rightarrow> VpsMemoryResult \<times> 'w VpsFaultAllocator" where
  "vps_fault_allocator_reset fault fail_at_attempt =
     (if \<not> vps_allocator_is_valid (Some (fault_backing fault)) \<or> fault_active_allocations fault \<noteq> 0
      then (VPS_MEMORY_INVALID_ARGUMENT, fault)
      else (VPS_MEMORY_OK,
            fault\<lparr>fault_fail_at_attempt := fail_at_attempt, fault_attempt_count := 0,
                  fault_cleanup_errors := 0\<rparr>))"

section \<open>Owned memory\<close>

definition vps_owned_memory_init ::
    "'w VpsAllocator option \<Rightarrow> VpsMemoryResult \<times> 'w VpsOwnedMemory option" where
  "vps_owned_memory_init allocator =
     (if \<not> vps_allocator_is_valid allocator then (VPS_MEMORY_INVALID_ARGUMENT, None)
      else (VPS_MEMORY_OK,
            Some \<lparr>owned_allocator = the allocator, owned_memory = None, owned_size = 0,
                  owned_flag = False\<rparr>))"

definition vps_owned_memory_allocate ::
    "'w VpsOwnedMemory \<Rightarrow> size_t \<Rightarrow> 'w \<Rightarrow> VpsMemoryResult \<times> 'w VpsOwnedMemory \<times> 'w" where
  "vps_owned_memory_allocate owned nbytes w =
     (if owned_flag owned \<or> owned_memory owned \<noteq> None \<or>
         \<not> vps_allocator_is_valid (Some (owned_allocator owned))
      then (VPS_MEMORY_INVALID_ARGUMENT, owned, w)
      else case vps_memory_allocate (Some (owned_allocator owned)) nbytes None w of
        (result, memory, w') \<Rightarrow>
          if result \<noteq> VPS_MEMORY_OK then (result, owned, w')
          else (VPS_MEMORY_OK,
                owned\<lparr>owned_memory := memory, owned_size := nbytes, owned_flag := memory \<noteq> None\<rparr>, w'))"

definition vps_owned_memory_adopt ::
    "'w VpsOwnedMemory \<Rightarrow> block option \<Rightarrow> size_t \<Rightarrow> VpsMemoryResult \<times> 'w VpsOwnedMemory" where
  "vps_owned_memory_adopt owned memory nbytes =
     (if owned_flag owned \<or> owned_memory owned \<noteq> None \<or>
         \<not> vps_allocator_is_valid (Some (owned_allocator owned)) \<or>
         (memory = None) \<noteq> (nbytes = 0)
      then (VPS_MEMORY_INVALID_ARGUMENT, owned)
      else (VPS_MEMORY_OK,
            owned\<lparr>owned_memory := memory, owned_size := nbytes, owned_flag := memory \<noteq> None\<rparr>))"

definition vps_owned_memory_detach ::
    "'w VpsOwnedMemory \<Rightarrow> VpsMemoryResult \<times> (block option \<times> size_t) option \<times> 'w VpsOwnedMemory" where
  "vps_owned_memory_detach owned =
     (if \<not> vps_allocator_is_valid (Some (owned_allocator owned))
      then (VPS_MEMORY_INVALID_ARGUMENT, None, owned)
      else (VPS_MEMORY_OK, Some (owned_memory owned, owned_size owned),
            owned\<lparr>owned_memory := None, owned_size := 0, owned_flag := False\<rparr>))"

definition vps_owned_memory_release :: "'w VpsOwnedMemory \<Rightarrow> 'w \<Rightarrow> 'w VpsOwnedMemory \<times> 'w" where
  "vps_owned_memory_release owned w =
     (if \<not> owned_flag owned then (owned, w)
      else case vps_memory_release (Some (owned_allocator owned)) (owned_memory owned)
                  (owned_size owned) w of
        (memory, w') \<Rightarrow>
          (owned\<lparr>owned_memory := memory, owned_size := 0, owned_flag := False\<rparr>, w'))"

section \<open>Checked size arithmetic\<close>

definition vps_size_add :: "size_t \<Rightarrow> size_t \<Rightarrow> VpsMemoryResult \<times> size_t option" where
  "vps_size_add left right =
     (if right > SIZE_MAX - left then (VPS_MEMORY_OVERFLOW, None)
      else (VPS_MEMORY_OK, Some (left + right)))"

definition vps_size_multiply :: "size_t \<Rightarrow> size_t \<Rightarrow> VpsMemoryResult \<times> size_t option" where
  "vps_size_multiply left right =
     (if left \<noteq> 0 \<and> right > SIZE_MAX div left then (VPS_MEMORY_OVERFLOW, None)
      else (VPS_MEMORY_OK, Some (left * right)))"

definition vps_size_from_uint64 :: "u64 \<Rightarrow> VpsMemoryResult \<times> size_t option" where
  "vps_size_from_uint64 value =
     (if value > ucast SIZE_MAX then (VPS_MEMORY_RANGE_ERROR, None)
      else (VPS_MEMORY_OK, Some (ucast value)))"

definition vps_size_from_int64 :: "64 word \<Rightarrow> VpsMemoryResult \<times> size_t option" where
  "vps_size_from_int64 value =
     (if sint value < 0 then (VPS_MEMORY_RANGE_ERROR, None) else vps_size_from_uint64 value)"

definition vps_size_to_uint32 :: "size_t \<Rightarrow> VpsMemoryResult \<times> u32 option" where
  "vps_size_to_uint32 value =
     (if value > 4294967295 then (VPS_MEMORY_RANGE_ERROR, None)
      else (VPS_MEMORY_OK, Some (ucast value)))"

definition vps_size_to_int :: "size_t \<Rightarrow> VpsMemoryResult \<times> u32 option" where
  "vps_size_to_int value =
     (if value > 2147483647 then (VPS_MEMORY_RANGE_ERROR, None)
      else (VPS_MEMORY_OK, Some (ucast value)))"

section \<open>Buffers\<close>

definition vps_buffer_init ::
    "'w VpsAllocator option \<Rightarrow> size_t \<Rightarrow> VpsMemoryResult \<times> 'w VpsBuffer option" where
  "vps_buffer_init allocator limit =
     (if \<not> vps_allocator_is_valid allocator then (VPS_MEMORY_INVALID_ARGUMENT, None)
      else (VPS_MEMORY_OK,
            Some \<lparr>buf_allocator = the allocator, buf_data = None, buf_size = 0, buf_capacity = 0,
                  buf_limit = limit\<rparr>))"

definition vps_buffer_reserve ::
    "'w VpsBuffer \<Rightarrow> size_t \<Rightarrow> 'w \<Rightarrow> VpsMemoryResult \<times> 'w VpsBuffer \<times> 'w" where
  "vps_buffer_reserve buffer capacity w =
     (if \<not> vps_allocator_is_valid (Some (buf_allocator buffer))
      then (VPS_MEMORY_INVALID_ARGUMENT, buffer, w)
      else if capacity > buf_limit buffer then (VPS_MEMORY_LIMIT_EXCEEDED, buffer, w)
      else if capacity \<le> buf_capacity buffer then (VPS_MEMORY_OK, buffer, w)
      else case vps_memory_reallocate (Some (buf_allocator buffer)) (buf_data buffer)
                  (buf_capacity buffer) capacity w of
        (result, memory, w') \<Rightarrow>
          if result \<noteq> VPS_MEMORY_OK then (result, buffer, w')
          else (VPS_MEMORY_OK, buffer\<lparr>buf_data := memory, buf_capacity := capacity\<rparr>, w'))"

text \<open>\<open>memcpy\<close> into a block at an offset.\<close>

definition mem_write :: "block \<Rightarrow> nat \<Rightarrow> u8 list \<Rightarrow> block" where
  "mem_write d off src = take off d @ src @ drop (off + length src) d"

definition vps_buffer_append ::
    "'w VpsBuffer \<Rightarrow> u8 list option \<Rightarrow> size_t \<Rightarrow> 'w \<Rightarrow> VpsMemoryResult \<times> 'w VpsBuffer \<times> 'w" where
  "vps_buffer_append buffer data nbytes w =
     (if data = None \<and> nbytes \<noteq> 0 then (VPS_MEMORY_INVALID_ARGUMENT, buffer, w)
      else case vps_size_add (buf_size buffer) nbytes of
        (VPS_MEMORY_OK, Some required) \<Rightarrow>
          (case vps_buffer_reserve buffer required w of
             (result, buffer', w') \<Rightarrow>
               if result \<noteq> VPS_MEMORY_OK then (result, buffer', w')
               else if nbytes \<noteq> 0
               then (VPS_MEMORY_OK,
                     buffer'\<lparr>buf_data := map_option
                               (\<lambda>d. mem_write d (unat (buf_size buffer')) (take (unat nbytes) (the data)))
                               (buf_data buffer'),
                             buf_size := required\<rparr>, w')
               else (VPS_MEMORY_OK, buffer', w'))
      | (result, _) \<Rightarrow> (result, buffer, w))"

definition vps_buffer_reset :: "'w VpsBuffer \<Rightarrow> 'w \<Rightarrow> 'w VpsBuffer \<times> 'w" where
  "vps_buffer_reset buffer w =
     (case vps_memory_release (Some (buf_allocator buffer)) (buf_data buffer) (buf_capacity buffer) w of
        (_, w') \<Rightarrow> (buffer\<lparr>buf_data := None, buf_size := 0, buf_capacity := 0\<rparr>, w'))"

definition vps_memory_result_name :: "VpsMemoryResult \<Rightarrow> string" where
  "vps_memory_result_name result =
     (case result of
        VPS_MEMORY_OK \<Rightarrow> ''ok''
      | VPS_MEMORY_INVALID_ARGUMENT \<Rightarrow> ''invalid_argument''
      | VPS_MEMORY_OVERFLOW \<Rightarrow> ''overflow''
      | VPS_MEMORY_LIMIT_EXCEEDED \<Rightarrow> ''limit_exceeded''
      | VPS_MEMORY_OUT_OF_MEMORY \<Rightarrow> ''out_of_memory''
      | VPS_MEMORY_RANGE_ERROR \<Rightarrow> ''range_error'')"

section \<open>Well-formed owners\<close>

definition buffer_blocks :: "'w VpsBuffer \<Rightarrow> nat multiset" where
  "buffer_blocks b = (case buf_data b of None \<Rightarrow> {#} | Some d \<Rightarrow> {#length d#})"

definition buffer_contents :: "'w VpsBuffer \<Rightarrow> u8 list" where
  "buffer_contents b = (case buf_data b of None \<Rightarrow> [] | Some d \<Rightarrow> take (unat (buf_size b)) d)"

definition buffer_ok :: "'w VpsBuffer \<Rightarrow> bool" where
  "buffer_ok b \<longleftrightarrow>
     buf_size b \<le> buf_capacity b \<and> buf_capacity b \<le> buf_limit b \<and>
     (case buf_data b of None \<Rightarrow> buf_capacity b = 0 | Some d \<Rightarrow> length d = unat (buf_capacity b))"

definition owned_blocks :: "'w VpsOwnedMemory \<Rightarrow> nat multiset" where
  "owned_blocks m = (case owned_memory m of None \<Rightarrow> {#} | Some d \<Rightarrow> {#length d#})"

definition owned_ok :: "'w VpsOwnedMemory \<Rightarrow> bool" where
  "owned_ok m \<longleftrightarrow> owned_flag m = (owned_memory m \<noteq> None) \<and>
     (case owned_memory m of None \<Rightarrow> owned_size m = 0 | Some d \<Rightarrow> length d = unat (owned_size m))"

lemma size_add_small:
  "unat a + unat b < 2 ^ 64 \<Longrightarrow> vps_size_add a b = (VPS_MEMORY_OK, Some (a + b)) \<and> unat (a + b) = unat a + unat b"
  using no_wrap_iff [of b a] unat_add_no_wrap [of b a] by (auto simp: vps_size_add_def not_less)

text \<open>The two allocators of the sources: the table \<open>vps_allocator_system\<close> fills, and the table
  \<open>vps_fault_allocator_make\<close> fills for a backing allocator.\<close>

abbreviation system_allocator :: "heap VpsAllocator" where
  "system_allocator \<equiv>
     \<lparr>alloc_family = VPS_ALLOCATOR_FAMILY_SYSTEM, alloc_allocate = Some vps_system_allocate,
      alloc_reallocate = Some vps_system_reallocate, alloc_deallocate = Some vps_system_deallocate\<rparr>"

definition fault_allocator :: "'w VpsAllocator \<Rightarrow> ('w VpsFaultAllocator \<times> 'w) VpsAllocator" where
  "fault_allocator backing =
     \<lparr>alloc_family = alloc_family backing, alloc_allocate = Some vps_fault_allocate,
      alloc_reallocate = Some vps_fault_reallocate, alloc_deallocate = Some vps_fault_deallocate\<rparr>"

section \<open>The allocator contract\<close>

text \<open>What the memory layer relies on, as the comment on \<open>VpsAllocator\<close> in \<open>vps_memory.h\<close> states it: a
  served request gives a block of the requested size, a refused one changes nothing, resizing
  preserves the common prefix, and memory goes back to the allocator it came from. \<open>live\<close> counts the
  blocks in use, by size; \<open>inv\<close> is what the callbacks need of their own state.\<close>

locale allocator_contract =
  fixes A :: "'w VpsAllocator"
    and inv :: "'w \<Rightarrow> bool"
    and live :: "'w \<Rightarrow> nat multiset"
  assumes valid: "vps_allocator_is_valid (Some A)"
    and allocate_served: "inv w \<Longrightarrow> call_allocate A w n = (Some b, w') \<Longrightarrow>
      inv w' \<and> length b = unat n \<and> live w' = add_mset (unat n) (live w)"
    and allocate_refused: "inv w \<Longrightarrow> call_allocate A w n = (None, w') \<Longrightarrow> inv w' \<and> live w' = live w"
    and reallocate_served: "inv w \<Longrightarrow> call_reallocate A w m old n = (Some b, w') \<Longrightarrow>
      inv w' \<and> length b = unat n \<and> take (length m) b = take (unat n) m \<and>
      live w' = add_mset (unat n) (live w - {#length m#})"
    and reallocate_refused: "inv w \<Longrightarrow> call_reallocate A w m old n = (None, w') \<Longrightarrow>
      inv w' \<and> live w' = live w"
    and deallocate: "inv w \<Longrightarrow> inv (call_deallocate A w m n) \<and>
      live (call_deallocate A w m n) = live w - {#length m#}"
begin

lemma memory_allocate:
  assumes "inv w" and "vps_memory_allocate (Some A) n old w = (r, m, w')"
  shows "inv w'" and "r \<noteq> VPS_MEMORY_OK \<Longrightarrow> m = None \<and> live w' = live w"
    and "r = VPS_MEMORY_OK \<Longrightarrow> n = 0 \<Longrightarrow> m = None \<and> w' = w"
    and "r = VPS_MEMORY_OK \<Longrightarrow> n \<noteq> 0 \<Longrightarrow> \<exists>b. m = Some b \<and> length b = unat n \<and> live w' = add_mset (unat n) (live w)"
  using assms valid
  by (auto simp: vps_memory_allocate_def dest: allocate_served allocate_refused
      split: if_splits prod.splits option.splits)

lemma memory_release:
  assumes "inv w" and "vps_memory_release (Some A) m n w = (m', w')"
  shows "inv w' \<and> m' = None \<and> live w' = live w - (case m of None \<Rightarrow> {#} | Some b \<Rightarrow> {#length b#})"
  using assms valid deallocate
  by (auto simp: vps_memory_release_def split: option.splits)

lemma memory_reallocate:
  assumes "inv w" and "vps_memory_reallocate (Some A) m old n w = (r, m', w')" and "n \<noteq> 0"
  shows "inv w' \<and>
    (if r = VPS_MEMORY_OK
     then \<exists>b. m' = Some b \<and> length b = unat n \<and>
       (case m of
          None \<Rightarrow> live w' = add_mset (unat n) (live w)
        | Some d \<Rightarrow> take (length d) b = take (unat n) d \<and>
                    live w' = add_mset (unat n) (live w - {#length d#}))
     else live w' = live w)"
proof (cases m)
  case None
  with assms valid have "vps_memory_allocate (Some A) n None w = (r, m', w')"
    by (simp add: vps_memory_reallocate_def)
  from memory_allocate [OF assms(1) this] assms(3) None show ?thesis by auto
next
  case (Some d)
  with assms valid show ?thesis
    by (auto simp: vps_memory_reallocate_def dest: reallocate_served reallocate_refused
        split: option.splits prod.splits)
qed

lemma buffer_reserve:
  assumes "inv w" "buf_allocator b = A" "buffer_ok b"
    and "vps_buffer_reserve b n w = (r, b', w')" and that: "buffer_blocks b \<subseteq># live w"
  shows "inv w' \<and> buffer_ok b' \<and> buf_allocator b' = A \<and> buf_size b' = buf_size b \<and>
    buf_limit b' = buf_limit b \<and> buffer_contents b' = buffer_contents b \<and>
    live w' = live w - buffer_blocks b + buffer_blocks b' \<and>
    (if r = VPS_MEMORY_OK then n \<le> buf_capacity b' else b' = b \<and> live w' = live w)"
proof (cases "n \<le> buf_capacity b \<or> n > buf_limit b")
  case True
  then show ?thesis using assms that valid
    by (auto simp: vps_buffer_reserve_def split: if_splits)
next
  case False
  then have n: "n \<noteq> 0" "buf_capacity b < n" "n \<le> buf_limit b"
    by (auto simp: not_le)
  obtain r1 m1 w1 where re: "vps_memory_reallocate (Some A) (buf_data b) (buf_capacity b) n w = (r1, m1, w1)"
    by (metis prod_cases3)
  note rl = memory_reallocate [OF assms(1) re n(1)]
  show ?thesis
  proof (cases "r1 = VPS_MEMORY_OK")
    case True
    with rl obtain blk where blk: "m1 = Some blk" "length blk = unat n" "inv w1"
      and c: "case buf_data b of None \<Rightarrow> live w1 = add_mset (unat n) (live w)
        | Some d \<Rightarrow> take (length d) blk = take (unat n) d \<and>
                    live w1 = add_mset (unat n) (live w - {#length d#})"
      by auto
    have eq: "b' = b\<lparr>buf_data := Some blk, buf_capacity := n\<rparr>" "w' = w1" "r = VPS_MEMORY_OK"
      using assms(2,4) re True blk False n valid by (auto simp: vps_buffer_reserve_def)
    have sz: "unat (buf_size b) \<le> unat (buf_capacity b)" "unat (buf_capacity b) \<le> unat n"
      using assms(3) n(2) by (auto simp: buffer_ok_def word_le_nat_alt word_less_nat_alt)
    have "buffer_contents b' = buffer_contents b"
    proof (cases "buf_data b")
      case None
      then show ?thesis using assms(3) sz by (auto simp: eq buffer_contents_def buffer_ok_def)
    next
      case (Some d)
      then have "length d = unat (buf_capacity b)" "take (length d) blk = take (unat n) d"
        using assms(3) c by (auto simp: buffer_ok_def)
      then have "take (unat (buf_size b)) (take (length d) blk) = take (unat (buf_size b)) (take (unat n) d)"
        by simp
      then have "take (unat (buf_size b)) blk = take (unat (buf_size b)) d"
        using sz \<open>length d = unat (buf_capacity b)\<close> by (simp add: min_def)
      then show ?thesis by (simp add: eq buffer_contents_def Some)
    qed
    moreover have "buffer_ok b'"
      using sz n blk by (simp add: eq buffer_ok_def word_le_nat_alt)
    moreover have "live w' = live w - buffer_blocks b + buffer_blocks b'"
      using c blk(2) by (cases "buf_data b") (simp_all add: eq buffer_blocks_def)
    ultimately show ?thesis
      using assms(2) blk by (simp add: eq)
  next
    case False
    then have "b' = b" "w' = w1" "r \<noteq> VPS_MEMORY_OK"
      using assms(2,4) re n valid by (auto simp: vps_buffer_reserve_def split: if_splits)
    with rl False assms(2,3) that show ?thesis by auto
  qed
qed

lemma buffer_append:
  assumes "inv w" "buf_allocator b = A" "buffer_ok b" "buffer_blocks b \<subseteq># live w"
    and "vps_buffer_append b (Some src) n w = (r, b', w')" and "unat n \<le> length src"
  shows "inv w' \<and> buffer_ok b' \<and> buf_allocator b' = A \<and> buf_limit b' = buf_limit b \<and>
    live w' = live w - buffer_blocks b + buffer_blocks b' \<and>
    (if r = VPS_MEMORY_OK then buffer_contents b' = buffer_contents b @ take (unat n) src
     else b' = b \<and> live w' = live w)"
proof (cases "n > SIZE_MAX - buf_size b")
  case True
  with assms show ?thesis by (auto simp: vps_buffer_append_def vps_size_add_def)
next
  case False
  then have add: "unat (buf_size b + n) = unat (buf_size b) + unat n"
    by (intro unat_add_no_wrap) simp
  obtain r1 b1 w1 where re: "vps_buffer_reserve b (buf_size b + n) w = (r1, b1, w1)"
    by (metis prod_cases3)
  note rl = buffer_reserve [OF assms(1-3) re assms(4)]
  show ?thesis
  proof (cases "r1 = VPS_MEMORY_OK \<and> n \<noteq> 0")
    case True
    then obtain d where d: "buf_data b1 = Some d" "length d = unat (buf_capacity b1)"
      "unat (buf_size b) + unat n \<le> unat (buf_capacity b1)"
      using rl add unat_eq_zero [of n]
      by (auto simp: buffer_ok_def word_le_nat_alt split: option.splits)
    have eq: "b' = b1\<lparr>buf_data := Some (mem_write d (unat (buf_size b)) (take (unat n) src)),
        buf_size := buf_size b + n\<rparr>" "w' = w1" "r = VPS_MEMORY_OK"
      using assms(5) re True False rl d by (auto simp: vps_buffer_append_def vps_size_add_def)
    have "buffer_contents b = take (unat (buf_size b)) d"
      using rl d by (auto simp: buffer_contents_def split: option.splits)
    then show ?thesis
      using rl True d add assms(6) unfolding eq
      by (auto simp: buffer_ok_def buffer_contents_def buffer_blocks_def mem_write_def word_le_nat_alt)
  next
    case False2: False
    then show ?thesis
      using assms(5) re False rl
      by (auto simp: vps_buffer_append_def vps_size_add_def split: if_splits)
  qed
qed

lemma buffer_reset:
  assumes "inv w" "buf_allocator b = A" "vps_buffer_reset b w = (b', w')"
  shows "inv w' \<and> buffer_ok b' \<and> buf_allocator b' = A \<and> buf_limit b' = buf_limit b \<and>
    buffer_contents b' = [] \<and> buffer_blocks b' = {#} \<and> live w' = live w - buffer_blocks b"
proof -
  obtain m1 where "vps_memory_release (Some A) (buf_data b) (buf_capacity b) w = (m1, w')"
    using assms(2,3) by (auto simp: vps_buffer_reset_def split: prod.splits)
  from memory_release [OF assms(1) this] assms show ?thesis
    by (auto simp: vps_buffer_reset_def buffer_ok_def buffer_contents_def buffer_blocks_def
        split: prod.splits)
qed

lemma owned_allocate:
  assumes "inv w" "owned_allocator m = A" "owned_ok m"
    and "vps_owned_memory_allocate m n w = (r, m', w')"
  shows "inv w' \<and> owned_ok m' \<and> owned_allocator m' = A \<and>
    (if r = VPS_MEMORY_OK
     then owned_blocks m = {#} \<and> live w' = live w + owned_blocks m' \<and> owned_size m' = n
     else m' = m \<and> live w' = live w)"
proof (cases "owned_flag m \<or> owned_memory m \<noteq> None")
  case True
  with assms show ?thesis by (auto simp: vps_owned_memory_allocate_def)
next
  case False
  obtain r1 b1 w1 where al: "vps_memory_allocate (Some A) n None w = (r1, b1, w1)"
    by (metis prod_cases3)
  note ml = memory_allocate [OF assms(1) al]
  show ?thesis
    using assms(2-4) al False ml valid
    by (cases "r1 = VPS_MEMORY_OK"; cases "n = 0")
      (auto simp: vps_owned_memory_allocate_def owned_ok_def owned_blocks_def)
qed

lemma owned_release:
  assumes "inv w" "owned_allocator m = A" "owned_ok m" and "vps_owned_memory_release m w = (m', w')"
  shows "inv w' \<and> owned_ok m' \<and> owned_allocator m' = A \<and> owned_blocks m' = {#} \<and>
    live w' = live w - owned_blocks m"
proof (cases "owned_flag m")
  case True
  obtain b1 w1 where rel: "vps_memory_release (Some A) (owned_memory m) (owned_size m) w = (b1, w1)"
    by (metis surj_pair)
  from memory_release [OF assms(1) rel] rel assms True show ?thesis
    by (auto simp: vps_owned_memory_release_def owned_ok_def owned_blocks_def)
next
  case False
  with assms show ?thesis
    by (auto simp: vps_owned_memory_release_def owned_ok_def owned_blocks_def)
qed

end

lemma vps_allocator_system_eq: "vps_allocator_system = (VPS_MEMORY_OK, Some system_allocator)"
  by (simp add: vps_allocator_system_def vps_allocator_init_def)

interpretation system: allocator_contract system_allocator "\<lambda>_. True" heap_live
  by unfold_locales
    (auto simp: vps_allocator_is_valid_def call_allocate_def call_reallocate_def call_deallocate_def
      vps_system_allocate_def vps_system_reallocate_def vps_system_deallocate_def
      c_malloc_def c_realloc_def c_free_def Let_def min_def split: if_splits)

lemma vps_fault_allocator_make_eq:
  "vps_allocator_is_valid (Some (fault_backing fault)) \<Longrightarrow>
   vps_fault_allocator_make fault = (VPS_MEMORY_OK, Some (fault_allocator (fault_backing fault)))"
  by (auto simp: vps_fault_allocator_make_def vps_allocator_init_def fault_allocator_def
      vps_allocator_is_valid_def split: if_splits)

lemma call_fault_allocator [simp]:
  "call_allocate (fault_allocator B) = vps_fault_allocate"
  "call_reallocate (fault_allocator B) = vps_fault_reallocate"
  "call_deallocate (fault_allocator B) = vps_fault_deallocate"
  by (auto simp: fun_eq_iff call_allocate_def call_reallocate_def call_deallocate_def fault_allocator_def)

lemma vps_fault_allocate_cases:
  assumes "vps_fault_allocate (f, w) n = (r, (f', w'))"
  shows "fault_backing f' = fault_backing f \<and>
    (r = None \<and> w' = w \<or> call_allocate (fault_backing f) w n = (r, w'))"
  using assms
  by (auto simp: vps_fault_allocate_def vps_fault_allocator_should_fail_def Let_def
      split: prod.splits option.splits bool.splits)

lemma vps_fault_reallocate_cases:
  assumes "vps_fault_reallocate (f, w) m old n = (r, (f', w'))"
  shows "fault_backing f' = fault_backing f \<and>
    (r = None \<and> w' = w \<or> call_reallocate (fault_backing f) w m old n = (r, w'))"
  using assms
  by (auto simp: vps_fault_reallocate_def vps_fault_allocator_should_fail_def Let_def
      split: prod.splits bool.splits)

text \<open>Wrapping an allocator for fault injection keeps the contract.\<close>

lemma fault_allocator_contract:
  assumes "allocator_contract B invB liveB"
  shows "allocator_contract (fault_allocator B)
    (\<lambda>(f, w). fault_backing f = B \<and> invB w) (\<lambda>(f, w). liveB w)"
proof -
  note laws = allocator_contract.valid [OF assms] allocator_contract.allocate_served [OF assms]
    allocator_contract.allocate_refused [OF assms] allocator_contract.reallocate_served [OF assms]
    allocator_contract.reallocate_refused [OF assms] allocator_contract.deallocate [OF assms]
  show ?thesis
  proof (unfold_locales, goal_cases)
    case 1
    show ?case
      using laws(1) by (auto simp: vps_allocator_is_valid_def fault_allocator_def split: if_splits)
  next
    case (2 fw n b fw')
    then show ?case
      using vps_fault_allocate_cases [of "fst fw" "snd fw" n "Some b" "fst fw'" "snd fw'"]
        laws(2) [of "snd fw" n b "snd fw'"] by (auto simp: case_prod_beta)
  next
    case (3 fw n fw')
    then show ?case
      using vps_fault_allocate_cases [of "fst fw" "snd fw" n None "fst fw'" "snd fw'"]
        laws(3) [of "snd fw" n "snd fw'"] by (auto simp: case_prod_beta)
  next
    case (4 fw m old n b fw')
    then show ?case
      using vps_fault_reallocate_cases [of "fst fw" "snd fw" m old n "Some b" "fst fw'" "snd fw'"]
        laws(4) [of "snd fw" m old n b "snd fw'"] by (auto simp: case_prod_beta)
  next
    case (5 fw m old n fw')
    then show ?case
      using vps_fault_reallocate_cases [of "fst fw" "snd fw" m old n None "fst fw'" "snd fw'"]
        laws(5) [of "snd fw" m old n "snd fw'"] by (auto simp: case_prod_beta)
  next
    case (6 fw m n)
    then show ?case
      using laws(6) by (auto simp: vps_fault_deallocate_def Let_def split: prod.splits)
  qed
qed

interpretation fault: allocator_contract "fault_allocator system_allocator"
  "\<lambda>(f, w). fault_backing f = system_allocator \<and> True" "\<lambda>(f, w). heap_live w"
  by (rule fault_allocator_contract) (rule system.allocator_contract_axioms)

section \<open>Properties\<close>

lemma vps_size_multiply_guard:
  fixes l r :: size_t
  assumes "l \<noteq> 0"
  shows "r \<le> SIZE_MAX div l \<longleftrightarrow> unat l * unat r < 2 ^ 64"
proof -
  have l: "0 < unat l" using assms by (simp add: unat_gt_0)
  have "r \<le> SIZE_MAX div l \<longleftrightarrow> unat r \<le> (2 ^ 64 - 1) div unat l"
    by (simp add: word_le_nat_alt unat_div unsigned_minus_1_eq_mask mask_eq_exp_minus_1)
  also have "\<dots> \<longleftrightarrow> unat r * unat l \<le> 2 ^ 64 - 1"
    using l by (rule less_eq_div_iff_mult_less_eq)
  finally show ?thesis by (auto simp: mult.commute)
qed

text \<open>The checked size arithmetic is exact: \<open>vps_size_add\<close> and \<open>vps_size_multiply\<close> succeed exactly when
  the mathematical sum or product fits \<open>size_t\<close>, and then return it without wrap-around; otherwise
  they report the overflow and produce no value.\<close>

lemma size_arithmetic_exact:
  "(case vps_size_add l r of
      (VPS_MEMORY_OK, Some s) \<Rightarrow> unat l + unat r < 2 ^ 64 \<and> unat s = unat l + unat r
    | (result, v) \<Rightarrow> result = VPS_MEMORY_OVERFLOW \<and> v = None \<and> 2 ^ 64 \<le> unat l + unat r) \<and>
   (case vps_size_multiply l r of
      (VPS_MEMORY_OK, Some p) \<Rightarrow> unat l * unat r < 2 ^ 64 \<and> unat p = unat l * unat r
    | (result, v) \<Rightarrow> result = VPS_MEMORY_OVERFLOW \<and> v = None \<and> 2 ^ 64 \<le> unat l * unat r)"
proof (rule conjI)
  show "case vps_size_add l r of
      (VPS_MEMORY_OK, Some s) \<Rightarrow> unat l + unat r < 2 ^ 64 \<and> unat s = unat l + unat r
    | (result, v) \<Rightarrow> result = VPS_MEMORY_OVERFLOW \<and> v = None \<and> 2 ^ 64 \<le> unat l + unat r"
    using no_wrap_iff [of r l] unat_add_no_wrap [of r l]
    by (auto simp: vps_size_add_def not_less)
  show "case vps_size_multiply l r of
      (VPS_MEMORY_OK, Some p) \<Rightarrow> unat l * unat r < 2 ^ 64 \<and> unat p = unat l * unat r
    | (result, v) \<Rightarrow> result = VPS_MEMORY_OVERFLOW \<and> v = None \<and> 2 ^ 64 \<le> unat l * unat r"
  proof (cases "l = 0")
    case False
    then show ?thesis
      using vps_size_multiply_guard [of l r]
      by (auto simp: vps_size_multiply_def not_less not_le unat_word_ariths)
  qed (simp add: vps_size_multiply_def)
qed

text \<open>C8. \<open>vps_buffer_append\<close> implements concatenation. On a well-formed buffer of the system allocator
  whose block is live, a successful append makes the contents the old contents followed by the new
  bytes, keeps the buffer well formed and within its limit, and replaces the buffer's block by its
  new block on the heap; a failed append leaves the buffer and the set of live blocks unchanged.\<close>

theorem buffer_append_refines_concat:
  assumes "buf_allocator b = system_allocator" and "buffer_ok b"
    and "buffer_blocks b \<subseteq># heap_live h"
    and "vps_buffer_append b (Some src) n h = (r, b', h')" and "unat n \<le> length src"
  shows "buffer_ok b' \<and> buf_limit b' = buf_limit b \<and>
    heap_live h' = heap_live h - buffer_blocks b + buffer_blocks b' \<and>
    (if r = VPS_MEMORY_OK then buffer_contents b' = buffer_contents b @ take (unat n) src
     else b' = b \<and> heap_live h' = heap_live h)"
  using system.buffer_append [OF TrueI assms] by (auto split: if_splits)

abbreviation witness_heap :: heap where
  "witness_heap \<equiv> \<lparr>heap_oracle = (\<lambda>_. True), heap_junk = (\<lambda>_. 0), heap_requests = 0, heap_live = {#},
     heap_freed = []\<rparr>"

abbreviation witness_buffer :: "'w VpsAllocator \<Rightarrow> 'w VpsBuffer" where
  "witness_buffer a \<equiv> \<lparr>buf_allocator = a, buf_data = None, buf_size = 0,
     buf_capacity = 0, buf_limit = 8\<rparr>"

theorem buffer_append_refines_concat_witness:
  "\<exists>b' h'. vps_buffer_append (witness_buffer system_allocator) (Some [1, 2, 3]) 3 witness_heap = (VPS_MEMORY_OK, b', h') \<and>
     buffer_contents b' = [1, 2, 3] \<and> heap_live h' = {#3#}"
proof -
  obtain b' h' where e: "vps_buffer_append (witness_buffer system_allocator) (Some [1, 2, 3]) 3 witness_heap = (VPS_MEMORY_OK, b', h')"
    and d: "buffer_blocks b' = {#3#}"
    by (simp add: vps_buffer_append_def vps_size_add_def vps_buffer_reserve_def
        vps_memory_reallocate_def vps_memory_allocate_def vps_allocator_is_valid_def
        call_allocate_def vps_system_allocate_def c_malloc_def mem_write_def buffer_blocks_def)
  have "buffer_contents b' = buffer_contents (witness_buffer system_allocator) @ take (unat (3 :: size_t)) [1, 2, 3]
      \<and> heap_live h' = heap_live witness_heap - buffer_blocks (witness_buffer system_allocator) + buffer_blocks b'"
    using buffer_append_refines_concat [OF _ _ _ e]
    by (simp add: buffer_ok_def buffer_blocks_def)
  with e d show ?thesis
    by (simp add: buffer_contents_def buffer_blocks_def)
qed

text \<open>C14. Fault injection does not leak. Under the allocator that \<open>vps_fault_allocator_make\<close> builds over the
  system allocator, whichever attempt is made to fail, an append either succeeds with the
  concatenated contents or leaves the buffer as it was, and the live blocks of the backing heap are
  exactly those of before with the buffer's own block exchanged.\<close>

theorem fault_injection_keeps_buffers:
  assumes "fault_backing f = system_allocator"
    and "vps_fault_allocator_make f = (VPS_MEMORY_OK, Some a)"
    and "buf_allocator b = a" and "buffer_ok b" and "buffer_blocks b \<subseteq># heap_live h"
    and "vps_buffer_append b (Some src) n (f, h) = (r, b', (f', h'))" and "unat n \<le> length src"
  shows "buffer_ok b' \<and> heap_live h' = heap_live h - buffer_blocks b + buffer_blocks b' \<and>
    (if r = VPS_MEMORY_OK then buffer_contents b' = buffer_contents b @ take (unat n) src
     else b' = b \<and> heap_live h' = heap_live h)"
proof -
  have "a = fault_allocator system_allocator"
    using assms(1,2) vps_fault_allocator_make_eq [of f] system.valid by simp
  then show ?thesis
    using fault.buffer_append [of "(f, h)" b src n r b' "(f', h')"] assms by (auto split: if_splits)
qed

theorem fault_injection_keeps_buffers_witness:
  "\<exists>f'. vps_buffer_append (witness_buffer (fault_allocator system_allocator))
      (Some [7]) 1
      (\<lparr>fault_backing = system_allocator, fault_fail_at_attempt = 1, fault_attempt_count = 0,
        fault_active_allocations = 0, fault_cleanup_errors = 0\<rparr>, witness_heap) =
     (VPS_MEMORY_OUT_OF_MEMORY, witness_buffer (fault_allocator system_allocator),
      (f', witness_heap))"
proof -
  let ?f = "\<lparr>fault_backing = system_allocator, fault_fail_at_attempt = 1, fault_attempt_count = 0,
        fault_active_allocations = 0, fault_cleanup_errors = 0\<rparr>"
  let ?b = "witness_buffer (fault_allocator system_allocator)"
  have make: "vps_fault_allocator_make ?f = (VPS_MEMORY_OK, Some (fault_allocator system_allocator))"
    using vps_fault_allocator_make_eq [of ?f] system.valid by simp
  obtain b' f' h' where e: "vps_buffer_append ?b (Some [7]) 1 (?f, witness_heap) =
      (VPS_MEMORY_OUT_OF_MEMORY, b', (f', h'))" and h: "h' = witness_heap"
    using fault.valid
    by (simp add: vps_buffer_append_def vps_size_add_def vps_buffer_reserve_def
        vps_memory_reallocate_def vps_memory_allocate_def vps_fault_allocate_def
        vps_fault_allocator_should_fail_def)
  have "b' = ?b"
    using fault_injection_keeps_buffers [OF _ make _ _ _ e]
    by (simp add: buffer_ok_def buffer_blocks_def)
  with e h show ?thesis by simp
qed

end
