(* ===== verification/Vps_Error.thy ===== *)
theory Vps_Error
  imports Vps_Memory Vps_Logging
begin

text \<open>
  The error object of \<open>src/src/vps_error.c\<close>: the mapping from PostgreSQL SQLSTATEs and local failure
  classes to SQLite result codes, and the object that owns the canonical message. The character
  arrays of the object hold C strings and are strings here; the message lives in owned memory.
\<close>

section \<open>Data\<close>

datatype (plugins only: code) VpsErrorClass =
    VPS_ERROR_CLASS_NONE
  | VPS_ERROR_CLASS_CONFIG
  | VPS_ERROR_CLASS_AUTH
  | VPS_ERROR_CLASS_TLS
  | VPS_ERROR_CLASS_CONNECTION
  | VPS_ERROR_CLASS_TIMEOUT
  | VPS_ERROR_CLASS_CANCEL
  | VPS_ERROR_CLASS_POOL
  | VPS_ERROR_CLASS_SQL
  | VPS_ERROR_CLASS_QUERY_SOURCE
  | VPS_ERROR_CLASS_METADATA
  | VPS_ERROR_CLASS_SCHEMA
  | VPS_ERROR_CLASS_CONSTRAINT
  | VPS_ERROR_CLASS_SERIALIZATION
  | VPS_ERROR_CLASS_DEADLOCK
  | VPS_ERROR_CLASS_LOCK
  | VPS_ERROR_CLASS_CONVERSION
  | VPS_ERROR_CLASS_SPATIAL
  | VPS_ERROR_CLASS_MEMORY
  | VPS_ERROR_CLASS_TRANSACTION
  | VPS_ERROR_CLASS_INVARIANT
  | VPS_ERROR_CLASS_UNSUPPORTED
  | VPS_ERROR_CLASS_OUT_OF_RANGE int

datatype VpsErrorOperation =
    VPS_ERROR_OPERATION_NONE
  | VPS_ERROR_OPERATION_CONFIGURE
  | VPS_ERROR_OPERATION_CONNECT
  | VPS_ERROR_OPERATION_POOL_WAIT
  | VPS_ERROR_OPERATION_METADATA
  | VPS_ERROR_OPERATION_SCAN
  | VPS_ERROR_OPERATION_QUERY
  | VPS_ERROR_OPERATION_DML
  | VPS_ERROR_OPERATION_CANCEL
  | VPS_ERROR_OPERATION_COMMIT
  | VPS_ERROR_OPERATION_ROLLBACK
  | VPS_ERROR_OPERATION_OUT_OF_RANGE int

text \<open>The result codes of \<open>sqlite3.h\<close>.\<close>

abbreviation (input) SQLITE_OK :: int where "SQLITE_OK \<equiv> 0"
abbreviation (input) SQLITE_ERROR :: int where "SQLITE_ERROR \<equiv> 1"
abbreviation (input) SQLITE_PERM :: int where "SQLITE_PERM \<equiv> 3"
abbreviation (input) SQLITE_BUSY :: int where "SQLITE_BUSY \<equiv> 5"
abbreviation (input) SQLITE_NOMEM :: int where "SQLITE_NOMEM \<equiv> 7"
abbreviation (input) SQLITE_INTERRUPT :: int where "SQLITE_INTERRUPT \<equiv> 9"
abbreviation (input) SQLITE_IOERR :: int where "SQLITE_IOERR \<equiv> 10"
abbreviation (input) SQLITE_CANTOPEN :: int where "SQLITE_CANTOPEN \<equiv> 14"
abbreviation (input) SQLITE_SCHEMA :: int where "SQLITE_SCHEMA \<equiv> 17"
abbreviation (input) SQLITE_AUTH :: int where "SQLITE_AUTH \<equiv> 23"
abbreviation (input) SQLITE_CONSTRAINT_CHECK :: int where "SQLITE_CONSTRAINT_CHECK \<equiv> 275"
abbreviation (input) SQLITE_CONSTRAINT_FOREIGNKEY :: int where "SQLITE_CONSTRAINT_FOREIGNKEY \<equiv> 787"
abbreviation (input) SQLITE_CONSTRAINT_NOTNULL :: int where "SQLITE_CONSTRAINT_NOTNULL \<equiv> 1299"
abbreviation (input) SQLITE_CONSTRAINT_UNIQUE :: int where "SQLITE_CONSTRAINT_UNIQUE \<equiv> 2067"

abbreviation (input) VPS_SQLSTATE_LENGTH :: nat where "VPS_SQLSTATE_LENGTH \<equiv> 5"
abbreviation (input) VPS_ERROR_FINGERPRINT_LENGTH :: nat where "VPS_ERROR_FINGERPRINT_LENGTH \<equiv> 64"
abbreviation (input) VPS_ERROR_MESSAGE_LIMIT :: nat where "VPS_ERROR_MESSAGE_LIMIT \<equiv> 255"

record VpsErrorMapping =
  map_sqlite_code :: int
  map_error_class :: VpsErrorClass
  map_transient :: bool
  map_ambiguous :: bool
  map_message :: string

record 'w VpsError =
  message_storage :: "'w VpsOwnedMemory"
  sqlite_code :: int
  sqlstate :: string
  backend_status :: int
  severity_class :: int
  err_operation :: VpsErrorOperation
  query_fingerprint :: string
  error_class :: VpsErrorClass
  transient :: bool
  ambiguous :: bool
  initialized :: bool

section \<open>Operations\<close>

fun vps_error_operation_is_valid :: "VpsErrorOperation \<Rightarrow> bool" where
  "vps_error_operation_is_valid VPS_ERROR_OPERATION_NONE = False"
| "vps_error_operation_is_valid (VPS_ERROR_OPERATION_OUT_OF_RANGE _) = False"
| "vps_error_operation_is_valid _ = True"

fun vps_error_class_is_valid :: "VpsErrorClass \<Rightarrow> bool" where
  "vps_error_class_is_valid VPS_ERROR_CLASS_NONE = False"
| "vps_error_class_is_valid (VPS_ERROR_CLASS_OUT_OF_RANGE _) = False"
| "vps_error_class_is_valid _ = True"

definition vps_error_sqlstate_is_valid :: "string option \<Rightarrow> bool" where
  "vps_error_sqlstate_is_valid state =
     (case state of
        None \<Rightarrow> False
      | Some s \<Rightarrow>
          list_all (\<lambda>index. char_between (CHR ''0'') (CHR ''9'') (c_at s index) \<or>
                            char_between (CHR ''A'') (CHR ''Z'') (c_at s index)) [0..<VPS_SQLSTATE_LENGTH] \<and>
          c_at s VPS_SQLSTATE_LENGTH = NUL)"

definition vps_error_fingerprint_is_valid :: "string option \<Rightarrow> bool" where
  "vps_error_fingerprint_is_valid fingerprint =
     (case fingerprint of
        None \<Rightarrow> True
      | Some s \<Rightarrow>
          c_at s 0 = NUL \<or>
          list_all (\<lambda>index. char_between (CHR ''0'') (CHR ''9'') (c_at s index) \<or>
                            char_between (CHR ''a'') (CHR ''f'') (c_at s index))
            [0..<VPS_ERROR_FINGERPRINT_LENGTH] \<and>
          c_at s VPS_ERROR_FINGERPRINT_LENGTH = NUL)"

definition vps_error_bounded_message_size :: "string option \<Rightarrow> VpsMemoryResult \<times> size_t option" where
  "vps_error_bounded_message_size message =
     (case message of
        None \<Rightarrow> (VPS_MEMORY_INVALID_ARGUMENT, None)
      | Some s \<Rightarrow>
          (case find (\<lambda>index. c_at s index = NUL) [0..<Suc VPS_ERROR_MESSAGE_LIMIT] of
             Some index \<Rightarrow> (VPS_MEMORY_OK, Some (of_nat index))
           | None \<Rightarrow> (VPS_MEMORY_LIMIT_EXCEEDED, None)))"

definition vps_error_is_schema_operation :: "VpsErrorOperation \<Rightarrow> bool" where
  "vps_error_is_schema_operation operation \<longleftrightarrow>
     operation = VPS_ERROR_OPERATION_METADATA \<or> operation = VPS_ERROR_OPERATION_SCAN"

definition vps_error_map_sqlstate :: "VpsErrorOperation \<Rightarrow> string \<Rightarrow> VpsErrorMapping" where
  "vps_error_map_sqlstate operation state =
     (if state = ''23505''
      then \<lparr>map_sqlite_code = SQLITE_CONSTRAINT_UNIQUE, map_error_class = VPS_ERROR_CLASS_CONSTRAINT,
            map_transient = False, map_ambiguous = False, map_message = ''unique constraint violation''\<rparr>
      else if state = ''23503''
      then \<lparr>map_sqlite_code = SQLITE_CONSTRAINT_FOREIGNKEY, map_error_class = VPS_ERROR_CLASS_CONSTRAINT,
            map_transient = False, map_ambiguous = False, map_message = ''foreign key constraint violation''\<rparr>
      else if state = ''23502''
      then \<lparr>map_sqlite_code = SQLITE_CONSTRAINT_NOTNULL, map_error_class = VPS_ERROR_CLASS_CONSTRAINT,
            map_transient = False, map_ambiguous = False, map_message = ''not-null constraint violation''\<rparr>
      else if state = ''23514''
      then \<lparr>map_sqlite_code = SQLITE_CONSTRAINT_CHECK, map_error_class = VPS_ERROR_CLASS_CONSTRAINT,
            map_transient = False, map_ambiguous = False, map_message = ''check constraint violation''\<rparr>
      else if state = ''40001''
      then \<lparr>map_sqlite_code = SQLITE_BUSY, map_error_class = VPS_ERROR_CLASS_SERIALIZATION,
            map_transient = True, map_ambiguous = False, map_message = ''serialization failure''\<rparr>
      else if state = ''40P01''
      then \<lparr>map_sqlite_code = SQLITE_BUSY, map_error_class = VPS_ERROR_CLASS_DEADLOCK,
            map_transient = True, map_ambiguous = False, map_message = ''deadlock detected''\<rparr>
      else if state = ''55P03''
      then \<lparr>map_sqlite_code = SQLITE_BUSY, map_error_class = VPS_ERROR_CLASS_LOCK,
            map_transient = True, map_ambiguous = False, map_message = ''lock not available''\<rparr>
      else if state = ''57014''
      then \<lparr>map_sqlite_code = SQLITE_INTERRUPT, map_error_class = VPS_ERROR_CLASS_CANCEL,
            map_transient = False, map_ambiguous = False, map_message = ''operation canceled''\<rparr>
      else if state = ''28P01''
      then \<lparr>map_sqlite_code = SQLITE_AUTH, map_error_class = VPS_ERROR_CLASS_AUTH,
            map_transient = False, map_ambiguous = False, map_message = ''authentication failed''\<rparr>
      else if state = ''42501''
      then \<lparr>map_sqlite_code = (if operation = VPS_ERROR_OPERATION_CONNECT then SQLITE_AUTH else SQLITE_PERM),
            map_error_class = VPS_ERROR_CLASS_AUTH,
            map_transient = False, map_ambiguous = False, map_message = ''insufficient privilege''\<rparr>
      else if (state = ''42P01'' \<or> state = ''42703'') \<and> vps_error_is_schema_operation operation
      then \<lparr>map_sqlite_code = SQLITE_SCHEMA, map_error_class = VPS_ERROR_CLASS_SCHEMA,
            map_transient = False, map_ambiguous = False, map_message = ''remote schema changed''\<rparr>
      else if c_at state 0 = CHR ''0'' \<and> c_at state 1 = CHR ''8''
      then \<lparr>map_sqlite_code = (if operation = VPS_ERROR_OPERATION_CONNECT then SQLITE_CANTOPEN else SQLITE_IOERR),
            map_error_class = VPS_ERROR_CLASS_CONNECTION,
            map_transient = True, map_ambiguous = (operation = VPS_ERROR_OPERATION_COMMIT),
            map_message = (if operation = VPS_ERROR_OPERATION_COMMIT then ''commit outcome is unknown''
                           else ''PostgreSQL connection failed'')\<rparr>
      else \<lparr>map_sqlite_code = SQLITE_ERROR, map_error_class = VPS_ERROR_CLASS_SQL,
            map_transient = False, map_ambiguous = False, map_message = ''PostgreSQL operation failed''\<rparr>)"

definition vps_error_map_local :: "VpsErrorOperation \<Rightarrow> VpsErrorClass \<Rightarrow> VpsErrorMapping" where
  "vps_error_map_local operation eclass =
     (let mapping = \<lparr>map_sqlite_code = SQLITE_ERROR, map_error_class = eclass, map_transient = False,
                     map_ambiguous = False, map_message = ''extension operation failed''\<rparr>
      in case eclass of
        VPS_ERROR_CLASS_CONFIG \<Rightarrow> mapping\<lparr>map_message := ''invalid extension configuration''\<rparr>
      | VPS_ERROR_CLASS_AUTH \<Rightarrow>
          mapping\<lparr>map_sqlite_code := SQLITE_AUTH, map_message := ''authentication failed''\<rparr>
      | VPS_ERROR_CLASS_TLS \<Rightarrow>
          mapping\<lparr>map_sqlite_code := SQLITE_AUTH, map_message := ''TLS validation failed''\<rparr>
      | VPS_ERROR_CLASS_CONNECTION \<Rightarrow>
          mapping\<lparr>map_sqlite_code :=
                    (if operation = VPS_ERROR_OPERATION_CONNECT then SQLITE_CANTOPEN else SQLITE_IOERR),
                  map_transient := True,
                  map_ambiguous := (operation = VPS_ERROR_OPERATION_COMMIT),
                  map_message := (if operation = VPS_ERROR_OPERATION_COMMIT then ''commit outcome is unknown''
                                  else ''PostgreSQL connection failed'')\<rparr>
      | VPS_ERROR_CLASS_TIMEOUT \<Rightarrow>
          mapping\<lparr>map_sqlite_code :=
                    (if operation = VPS_ERROR_OPERATION_POOL_WAIT then SQLITE_BUSY else SQLITE_INTERRUPT),
                  map_message := ''operation timed out''\<rparr>
      | VPS_ERROR_CLASS_CANCEL \<Rightarrow>
          mapping\<lparr>map_sqlite_code := SQLITE_INTERRUPT, map_message := ''operation canceled''\<rparr>
      | VPS_ERROR_CLASS_POOL \<Rightarrow>
          mapping\<lparr>map_sqlite_code := SQLITE_BUSY, map_message := ''connection pool is busy''\<rparr>
      | VPS_ERROR_CLASS_SCHEMA \<Rightarrow>
          mapping\<lparr>map_sqlite_code := SQLITE_SCHEMA, map_message := ''remote schema changed''\<rparr>
      | VPS_ERROR_CLASS_MEMORY \<Rightarrow>
          mapping\<lparr>map_sqlite_code := SQLITE_NOMEM, map_message := ''out of memory''\<rparr>
      | VPS_ERROR_CLASS_UNSUPPORTED \<Rightarrow> mapping\<lparr>map_message := ''operation is unsupported''\<rparr>
      | _ \<Rightarrow> mapping)"

text \<open>The fingerprint array after the conditional copy into it.\<close>

definition stored_fingerprint :: "string option \<Rightarrow> string" where
  "stored_fingerprint fingerprint =
     (case fingerprint of None \<Rightarrow> [] | Some s \<Rightarrow> if c_at s 0 = NUL then [] else s)"

definition vps_error_replace ::
    "'w VpsError \<Rightarrow> VpsErrorOperation \<Rightarrow> string option \<Rightarrow> int \<Rightarrow> int \<Rightarrow> string option \<Rightarrow> VpsErrorMapping \<Rightarrow>
     string option \<Rightarrow> 'w \<Rightarrow> VpsMemoryResult \<times> 'w VpsError \<times> 'w" where
  "vps_error_replace error operation state status severity fingerprint mapping message w =
     (case vps_error_bounded_message_size message of
        (VPS_MEMORY_OK, Some message_size) \<Rightarrow>
          (case vps_owned_memory_init (Some (owned_allocator (message_storage error))) of
             (VPS_MEMORY_OK, Some replacement0) \<Rightarrow>
               (case (if map_error_class mapping \<noteq> VPS_ERROR_CLASS_MEMORY
                      then (case vps_owned_memory_allocate replacement0 (message_size + 1) w of
                              (result, replacement1, w1) \<Rightarrow>
                                (result,
                                 replacement1\<lparr>owned_memory := map_option
                                    (\<lambda>d. mem_write d 0 (take (unat message_size + 1) (c_bytes (the message))))
                                    (owned_memory replacement1)\<rparr>, w1))
                      else (VPS_MEMORY_OK, replacement0, w)) of
                  (result, replacement, w1) \<Rightarrow>
                    if result \<noteq> VPS_MEMORY_OK then (result, error, w1)
                    else (case vps_owned_memory_release (message_storage error) w1 of
                      (previous, w2) \<Rightarrow>
                        (VPS_MEMORY_OK,
                         error\<lparr>message_storage := replacement,
                               sqlite_code := map_sqlite_code mapping,
                               sqlstate := (case state of None \<Rightarrow> [] | Some s \<Rightarrow> s),
                               backend_status := status,
                               severity_class := severity,
                               err_operation := operation,
                               query_fingerprint :=
                                 stored_fingerprint fingerprint,
                               error_class := map_error_class mapping,
                               transient := map_transient mapping,
                               ambiguous := map_ambiguous mapping\<rparr>, w2)))
           | (result, _) \<Rightarrow> (result, error, w))
      | (result, _) \<Rightarrow> (result, error, w))"

definition vps_error_init ::
    "'w VpsError option \<Rightarrow> 'w VpsAllocator option \<Rightarrow> VpsMemoryResult \<times> 'w VpsError option" where
  "vps_error_init error allocator =
     (if error = None then (VPS_MEMORY_INVALID_ARGUMENT, error)
      else case vps_owned_memory_init allocator of
        (VPS_MEMORY_OK, Some storage) \<Rightarrow>
          (VPS_MEMORY_OK,
           Some \<lparr>message_storage = storage, sqlite_code = SQLITE_OK, sqlstate = [], backend_status = 0,
                 severity_class = 0, err_operation = VPS_ERROR_OPERATION_NONE, query_fingerprint = [],
                 error_class = VPS_ERROR_CLASS_NONE, transient = False, ambiguous = False,
                 initialized = True\<rparr>)
      | (result, _) \<Rightarrow> (result, error))"

definition vps_error_reset :: "'w VpsError option \<Rightarrow> 'w \<Rightarrow> 'w VpsError option \<times> 'w" where
  "vps_error_reset error_ptr w =
     (case error_ptr of
        None \<Rightarrow> (None, w)
      | Some error \<Rightarrow>
          if \<not> initialized error then (Some error, w)
          else case vps_owned_memory_release (message_storage error) w of
            (storage, w1) \<Rightarrow>
              (Some (error\<lparr>message_storage := storage, sqlite_code := SQLITE_OK, sqlstate := [],
                           backend_status := 0, severity_class := 0,
                           err_operation := VPS_ERROR_OPERATION_NONE, query_fingerprint := [],
                           error_class := VPS_ERROR_CLASS_NONE, transient := False,
                           ambiguous := False\<rparr>), w1))"

definition vps_error_set_sqlstate ::
    "'w VpsError option \<Rightarrow> VpsErrorOperation \<Rightarrow> string option \<Rightarrow> int \<Rightarrow> int \<Rightarrow> string option \<Rightarrow> 'w \<Rightarrow>
     VpsMemoryResult \<times> 'w VpsError option \<times> 'w" where
  "vps_error_set_sqlstate error_ptr operation state status severity fingerprint w =
     (case error_ptr of
        None \<Rightarrow> (VPS_MEMORY_INVALID_ARGUMENT, None, w)
      | Some error \<Rightarrow>
          if \<not> initialized error \<or> \<not> vps_error_operation_is_valid operation \<or>
             \<not> vps_error_sqlstate_is_valid state \<or> \<not> vps_error_fingerprint_is_valid fingerprint
          then (VPS_MEMORY_INVALID_ARGUMENT, Some error, w)
          else let mapping = vps_error_map_sqlstate operation (the state)
               in case vps_error_replace error operation state status severity fingerprint mapping
                         (Some (map_message mapping)) w of
                    (result, error1, w1) \<Rightarrow> (result, Some error1, w1))"

definition vps_error_set_local ::
    "'w VpsError option \<Rightarrow> VpsErrorOperation \<Rightarrow> VpsErrorClass \<Rightarrow> string option \<Rightarrow> 'w \<Rightarrow>
     VpsMemoryResult \<times> 'w VpsError option \<times> 'w" where
  "vps_error_set_local error_ptr operation eclass fingerprint w =
     (case error_ptr of
        None \<Rightarrow> (VPS_MEMORY_INVALID_ARGUMENT, None, w)
      | Some error \<Rightarrow>
          if \<not> initialized error \<or> \<not> vps_error_operation_is_valid operation \<or>
             \<not> vps_error_class_is_valid eclass \<or> \<not> vps_error_fingerprint_is_valid fingerprint
          then (VPS_MEMORY_INVALID_ARGUMENT, Some error, w)
          else let mapping = vps_error_map_local operation eclass
               in case vps_error_replace error operation None 0 0 fingerprint mapping
                         (Some (map_message mapping)) w of
                    (result, error1, w1) \<Rightarrow> (result, Some error1, w1))"

definition vps_error_message :: "'w VpsError option \<Rightarrow> string" where
  "vps_error_message error_ptr =
     (case error_ptr of
        None \<Rightarrow> []
      | Some error \<Rightarrow>
          if \<not> initialized error \<or> owned_memory (message_storage error) = None
          then (if initialized error \<and> error_class error = VPS_ERROR_CLASS_MEMORY
                then ''out of memory'' else [])
          else c_string (the (owned_memory (message_storage error))))"

text \<open>The test \<open>destination == source\<close> of the pointers is the parameter \<open>same_object\<close>.\<close>

definition vps_error_copy ::
    "'w VpsError option \<Rightarrow> 'w VpsError option \<Rightarrow> bool \<Rightarrow> 'w \<Rightarrow>
     VpsMemoryResult \<times> 'w VpsError option \<times> 'w" where
  "vps_error_copy destination source_ptr same_object w =
     (case (destination, source_ptr) of
        (Some dest, Some source) \<Rightarrow>
          if \<not> initialized dest \<or> \<not> initialized source \<or> same_object
          then (VPS_MEMORY_INVALID_ARGUMENT, Some dest, w)
          else if error_class source = VPS_ERROR_CLASS_NONE
          then (case vps_error_reset (Some dest) w of (dest1, w1) \<Rightarrow> (VPS_MEMORY_OK, dest1, w1))
          else if \<not> vps_error_operation_is_valid (err_operation source) \<or>
                  \<not> vps_error_class_is_valid (error_class source) \<or>
                  \<not> vps_error_fingerprint_is_valid (Some (query_fingerprint source)) \<or>
                  (c_at (sqlstate source) 0 \<noteq> NUL \<and>
                   \<not> vps_error_sqlstate_is_valid (Some (sqlstate source)))
          then (VPS_MEMORY_INVALID_ARGUMENT, Some dest, w)
          else let mapping = \<lparr>map_sqlite_code = sqlite_code source, map_error_class = error_class source,
                              map_transient = transient source, map_ambiguous = ambiguous source,
                              map_message = vps_error_message (Some source)\<rparr>
               in case vps_error_replace dest (err_operation source)
                         (if c_at (sqlstate source) 0 = NUL then None else Some (sqlstate source))
                         (backend_status source) (severity_class source)
                         (Some (query_fingerprint source)) mapping (Some (map_message mapping)) w of
                    (result, dest1, w1) \<Rightarrow> (result, Some dest1, w1)
      | _ \<Rightarrow> (VPS_MEMORY_INVALID_ARGUMENT, destination, w))"

definition vps_error_class_name :: "VpsErrorClass \<Rightarrow> string" where
  "vps_error_class_name eclass =
     (case eclass of
        VPS_ERROR_CLASS_NONE \<Rightarrow> ''none''
      | VPS_ERROR_CLASS_CONFIG \<Rightarrow> ''config''
      | VPS_ERROR_CLASS_AUTH \<Rightarrow> ''auth''
      | VPS_ERROR_CLASS_TLS \<Rightarrow> ''tls''
      | VPS_ERROR_CLASS_CONNECTION \<Rightarrow> ''connection''
      | VPS_ERROR_CLASS_TIMEOUT \<Rightarrow> ''timeout''
      | VPS_ERROR_CLASS_CANCEL \<Rightarrow> ''cancel''
      | VPS_ERROR_CLASS_POOL \<Rightarrow> ''pool''
      | VPS_ERROR_CLASS_SQL \<Rightarrow> ''sql''
      | VPS_ERROR_CLASS_QUERY_SOURCE \<Rightarrow> ''query_source''
      | VPS_ERROR_CLASS_METADATA \<Rightarrow> ''metadata''
      | VPS_ERROR_CLASS_SCHEMA \<Rightarrow> ''schema''
      | VPS_ERROR_CLASS_CONSTRAINT \<Rightarrow> ''constraint''
      | VPS_ERROR_CLASS_SERIALIZATION \<Rightarrow> ''serialization''
      | VPS_ERROR_CLASS_DEADLOCK \<Rightarrow> ''deadlock''
      | VPS_ERROR_CLASS_LOCK \<Rightarrow> ''lock''
      | VPS_ERROR_CLASS_CONVERSION \<Rightarrow> ''conversion''
      | VPS_ERROR_CLASS_SPATIAL \<Rightarrow> ''spatial''
      | VPS_ERROR_CLASS_MEMORY \<Rightarrow> ''memory''
      | VPS_ERROR_CLASS_TRANSACTION \<Rightarrow> ''transaction''
      | VPS_ERROR_CLASS_INVARIANT \<Rightarrow> ''invariant''
      | VPS_ERROR_CLASS_UNSUPPORTED \<Rightarrow> ''unsupported''
      | VPS_ERROR_CLASS_OUT_OF_RANGE _ \<Rightarrow> ''unknown'')"

definition vps_error_operation_name :: "VpsErrorOperation \<Rightarrow> string" where
  "vps_error_operation_name operation =
     (case operation of
        VPS_ERROR_OPERATION_NONE \<Rightarrow> ''none''
      | VPS_ERROR_OPERATION_CONFIGURE \<Rightarrow> ''configure''
      | VPS_ERROR_OPERATION_CONNECT \<Rightarrow> ''connect''
      | VPS_ERROR_OPERATION_POOL_WAIT \<Rightarrow> ''pool_wait''
      | VPS_ERROR_OPERATION_METADATA \<Rightarrow> ''metadata''
      | VPS_ERROR_OPERATION_SCAN \<Rightarrow> ''scan''
      | VPS_ERROR_OPERATION_QUERY \<Rightarrow> ''query''
      | VPS_ERROR_OPERATION_DML \<Rightarrow> ''dml''
      | VPS_ERROR_OPERATION_CANCEL \<Rightarrow> ''cancel''
      | VPS_ERROR_OPERATION_COMMIT \<Rightarrow> ''commit''
      | VPS_ERROR_OPERATION_ROLLBACK \<Rightarrow> ''rollback''
      | VPS_ERROR_OPERATION_OUT_OF_RANGE _ \<Rightarrow> ''unknown'')"

section \<open>Well-formed error objects\<close>

definition error_message_ok :: "'w VpsError \<Rightarrow> bool" where
  "error_message_ok e \<longleftrightarrow>
     (if error_class e = VPS_ERROR_CLASS_NONE \<or> error_class e = VPS_ERROR_CLASS_MEMORY
      then owned_memory (message_storage e) = None
      else \<exists>msg. owned_memory (message_storage e) = Some (c_bytes msg) \<and> NUL \<notin> set msg \<and> length msg \<le> 255)"

definition error_wf :: "'w VpsAllocator \<Rightarrow> 'w VpsError \<Rightarrow> bool" where
  "error_wf A e \<longleftrightarrow>
     initialized e \<and> owned_allocator (message_storage e) = A \<and> owned_ok (message_storage e) \<and>
     error_message_ok e \<and>
     (if error_class e = VPS_ERROR_CLASS_NONE
      then sqlite_code e = SQLITE_OK \<and> sqlstate e = [] \<and> backend_status e = 0 \<and> severity_class e = 0 \<and>
           err_operation e = VPS_ERROR_OPERATION_NONE \<and> query_fingerprint e = [] \<and>
           \<not> transient e \<and> \<not> ambiguous e
      else vps_error_class_is_valid (error_class e) \<and> vps_error_operation_is_valid (err_operation e) \<and>
           (sqlstate e = [] \<or> vps_error_sqlstate_is_valid (Some (sqlstate e))) \<and>
           vps_error_fingerprint_is_valid (Some (query_fingerprint e)) \<and>
           (query_fingerprint e = [] \<or> c_at (query_fingerprint e) 0 \<noteq> NUL))"

text \<open>What a client can observe of an error.\<close>

definition error_view where
  "error_view e = (sqlite_code e, sqlstate e, backend_status e, severity_class e, err_operation e,
     query_fingerprint e, error_class e, transient e, ambiguous e, vps_error_message (Some e))"

definition mapping_view where
  "mapping_view m state status severity operation fingerprint =
     (map_sqlite_code m, state, status, severity, operation, fingerprint, map_error_class m,
      map_transient m, map_ambiguous m, map_message m)"

lemma find_upt_ge: "find (\<lambda>i. n \<le> i) [0..<m] = (if n < m then Some n else None)"
  by (auto simp: find_Some_iff find_None_iff intro!: exI [of _ n])

lemma bounded_message_size:
  assumes "NUL \<notin> set s"
  shows "vps_error_bounded_message_size (Some s) =
    (if length s \<le> 255 then (VPS_MEMORY_OK, Some (of_nat (length s))) else (VPS_MEMORY_LIMIT_EXCEEDED, None))"
proof -
  have "(\<lambda>i. c_at s i = NUL) = (\<lambda>i. length s \<le> i)"
    using assms unfolding c_at_def by (metis nth_mem not_le)
  then have "find (\<lambda>i. c_at s i = NUL) [0..<Suc 255] = (if length s < Suc 255 then Some (length s) else None)"
    by (simp only: find_upt_ge)
  then show ?thesis
    unfolding vps_error_bounded_message_size_def by (simp only: option.case less_Suc_eq_le split: if_split)
       auto
qed

lemma sqlstate_valid_head:
  assumes "vps_error_sqlstate_is_valid (Some s)"
  shows "c_at s 0 \<noteq> NUL"
proof -
  have "char_between (CHR ''0'') (CHR ''9'') (c_at s 0) \<or> char_between (CHR ''A'') (CHR ''Z'') (c_at s 0)"
    using assms by (simp add: vps_error_sqlstate_is_valid_def list_all_upt_iff)
  then show ?thesis by (metis char_between_not_NUL)
qed

lemma stored_fingerprint_ok:
  "vps_error_fingerprint_is_valid fingerprint \<Longrightarrow>
     vps_error_fingerprint_is_valid (Some (stored_fingerprint fingerprint))"
  "stored_fingerprint fingerprint = [] \<or> c_at (stored_fingerprint fingerprint) 0 \<noteq> NUL"
  by (auto simp: vps_error_fingerprint_is_valid_def stored_fingerprint_def c_at_def [of "[]"]
      split: option.splits)

lemma map_message_ok:
  "NUL \<notin> set (map_message (vps_error_map_sqlstate operation state))"
  "length (map_message (vps_error_map_sqlstate operation state)) \<le> 255"
  "NUL \<notin> set (map_message (vps_error_map_local operation eclass))"
  "length (map_message (vps_error_map_local operation eclass)) \<le> 255"
  by (simp_all add: vps_error_map_sqlstate_def vps_error_map_local_def Let_def split: VpsErrorClass.split)

lemma map_class:
  "vps_error_class_is_valid (map_error_class (vps_error_map_sqlstate operation state))"
  "map_error_class (vps_error_map_sqlstate operation state) \<noteq> VPS_ERROR_CLASS_NONE"
  "map_error_class (vps_error_map_sqlstate operation state) \<noteq> VPS_ERROR_CLASS_MEMORY"
  "map_error_class (vps_error_map_local operation eclass) = eclass"
  by (simp_all add: vps_error_map_sqlstate_def vps_error_map_local_def Let_def split: VpsErrorClass.split)

lemma map_sqlstate_ambiguous:
  "map_ambiguous (vps_error_map_sqlstate operation s) \<longleftrightarrow>
     operation = VPS_ERROR_OPERATION_COMMIT \<and> c_at s 0 = CHR ''0'' \<and> c_at s 1 = CHR ''8''"
  "map_ambiguous (vps_error_map_sqlstate operation s) \<Longrightarrow>
     map_transient (vps_error_map_sqlstate operation s) \<and>
     map_sqlite_code (vps_error_map_sqlstate operation s) = SQLITE_IOERR"
proof -
  have other: "\<not> map_ambiguous (vps_error_map_sqlstate operation s)" if "c_at s 0 \<noteq> CHR ''0''"
    using that by (simp add: vps_error_map_sqlstate_def)
  have "s \<notin> {''23505'', ''23503'', ''23502'', ''23514'', ''40001'', ''40P01'', ''55P03'', ''57014'', ''28P01'',
      ''42501'', ''42P01'', ''42703''}" if "c_at s 0 = CHR ''0''"
    using that by (auto simp: c_at_def)
  then have zero: "vps_error_map_sqlstate operation s =
      (if c_at s 1 = CHR ''8''
       then \<lparr>map_sqlite_code = (if operation = VPS_ERROR_OPERATION_CONNECT then SQLITE_CANTOPEN else SQLITE_IOERR),
            map_error_class = VPS_ERROR_CLASS_CONNECTION,
            map_transient = True, map_ambiguous = (operation = VPS_ERROR_OPERATION_COMMIT),
            map_message = (if operation = VPS_ERROR_OPERATION_COMMIT then ''commit outcome is unknown''
                           else ''PostgreSQL connection failed'')\<rparr>
       else \<lparr>map_sqlite_code = SQLITE_ERROR, map_error_class = VPS_ERROR_CLASS_SQL,
            map_transient = False, map_ambiguous = False, map_message = ''PostgreSQL operation failed''\<rparr>)"
    if "c_at s 0 = CHR ''0''"
    using that by (simp add: vps_error_map_sqlstate_def)
  show "map_ambiguous (vps_error_map_sqlstate operation s) \<longleftrightarrow>
      operation = VPS_ERROR_OPERATION_COMMIT \<and> c_at s 0 = CHR ''0'' \<and> c_at s 1 = CHR ''8''"
    by (cases "c_at s 0 = CHR ''0''") (simp_all add: zero other)
  show "map_transient (vps_error_map_sqlstate operation s) \<and>
      map_sqlite_code (vps_error_map_sqlstate operation s) = SQLITE_IOERR"
    if "map_ambiguous (vps_error_map_sqlstate operation s)"
    using that other by (cases "c_at s 0 = CHR ''0''") (simp_all add: zero split: if_splits)
qed

context allocator_contract
begin

lemma error_replace:
  assumes "inv w" and e: "owned_allocator (message_storage e) = A" "owned_ok (message_storage e)"
      "initialized e" "owned_blocks (message_storage e) \<subseteq># live w"
    and msg: "NUL \<notin> set (map_message m)" "length (map_message m) \<le> 255"
      "map_error_class m = VPS_ERROR_CLASS_MEMORY \<longrightarrow> map_message m = ''out of memory''"
    and args: "vps_error_class_is_valid (map_error_class m)" "vps_error_operation_is_valid operation"
      "state = None \<or> vps_error_sqlstate_is_valid state" "vps_error_fingerprint_is_valid fingerprint"
    and run: "vps_error_replace e operation state status severity fingerprint m (Some (map_message m)) w = (r, e', w')"
  shows "inv w' \<and>
    (if r = VPS_MEMORY_OK
     then error_wf A e' \<and>
       live w' = live w - owned_blocks (message_storage e) + owned_blocks (message_storage e') \<and>
       error_view e' = mapping_view m (case state of None \<Rightarrow> [] | Some s \<Rightarrow> s) status severity operation
         (stored_fingerprint fingerprint)
     else r = VPS_MEMORY_OUT_OF_MEMORY \<and> e' = e \<and> live w' = live w)"
proof -
  let ?new = "\<lparr>owned_allocator = A, owned_memory = None, owned_size = 0, owned_flag = False\<rparr>"
  have new: "owned_ok ?new" "owned_blocks ?new = {#}" by (simp_all add: owned_ok_def owned_blocks_def)
  have init: "vps_owned_memory_init (Some A) = (VPS_MEMORY_OK, Some ?new)"
    using valid by (simp add: vps_owned_memory_init_def)
  let ?n = "of_nat (length (map_message m)) :: size_t"
  have size: "vps_error_bounded_message_size (Some (map_message m)) = (VPS_MEMORY_OK, Some ?n)"
    using bounded_message_size [OF msg(1)] msg(2) by simp
  have none: "map_error_class m \<noteq> VPS_ERROR_CLASS_NONE" using args(1) by auto
  let ?upd = "\<lambda>s. e\<lparr>message_storage := s, sqlite_code := map_sqlite_code m,
      sqlstate := (case state of None \<Rightarrow> [] | Some s \<Rightarrow> s), backend_status := status,
      severity_class := severity, err_operation := operation,
      query_fingerprint := stored_fingerprint fingerprint, error_class := map_error_class m,
      transient := map_transient m, ambiguous := map_ambiguous m\<rparr>"
  have good: "error_wf A (?upd s) \<and> error_view (?upd s) =
      mapping_view m (case state of None \<Rightarrow> [] | Some s \<Rightarrow> s) status severity operation (stored_fingerprint fingerprint)"
    if "owned_allocator s = A" "owned_ok s"
      "owned_memory s = (if map_error_class m = VPS_ERROR_CLASS_MEMORY then None else Some (c_bytes (map_message m)))" for s
    using that args none msg e(3) stored_fingerprint_ok [of fingerprint]
    by (auto simp: error_wf_def error_message_ok_def error_view_def mapping_view_def vps_error_message_def
        split: option.splits)
  show ?thesis
  proof (cases "map_error_class m = VPS_ERROR_CLASS_MEMORY")
    case True
    obtain pr w2 where rel: "vps_owned_memory_release (message_storage e) w = (pr, w2)" by fastforce
    have "r = VPS_MEMORY_OK" "e' = ?upd ?new" "w' = w2"
      using run True by (simp_all add: vps_error_replace_def size e(1) init rel)
    then show ?thesis
      using owned_release [OF assms(1) e(1,2) rel] good [of ?new] new True by simp
  next
    case False
    obtain r1 m1 w1 where al: "vps_owned_memory_allocate ?new (?n + 1) w = (r1, m1, w1)"
      by (metis prod_cases3)
    note oa = owned_allocate [OF assms(1) _ new(1) al]
    have len: "unat ?n = length (map_message m)" "unat (?n + 1) = length (map_message m) + 1"
    proof -
      have l: "Suc (length (map_message m)) < 2 ^ LENGTH(64)" using msg(2) by simp
      then show "unat ?n = length (map_message m)" by (intro unat_small_nat) simp
      show "unat (?n + 1) = length (map_message m) + 1"
        using unat_small_nat [OF l, unfolded of_nat_Suc] by (simp only: Suc_eq_plus1 add.commute)
    qed
    show ?thesis
    proof (cases "r1 = VPS_MEMORY_OK")
      case True
      then have m1: "owned_ok m1" "owned_size m1 = ?n + 1" "owned_allocator m1 = A"
          "live w1 = live w + owned_blocks m1" "inv w1"
        using oa by simp_all
      then obtain d where d: "owned_memory m1 = Some d" "length d = length (map_message m) + 1"
        using len by (auto simp: owned_ok_def split: option.splits)
      have wr: "mem_write d 0 (take (Suc (unat ?n)) (c_bytes (map_message m))) = c_bytes (map_message m)"
        using d(2) len by (simp add: mem_write_def)
      obtain pr w2 where rel: "vps_owned_memory_release (message_storage e) w1 = (pr, w2)" by fastforce
      from owned_release [OF m1(5) e(1,2) rel]
      have w2: "inv w2" "live w2 = live w + owned_blocks m1 - owned_blocks (message_storage e)"
        using m1(4) by simp_all
      let ?s = "m1\<lparr>owned_memory := Some (c_bytes (map_message m))\<rparr>"
      have s: "owned_blocks ?s = owned_blocks m1" "owned_ok ?s" "owned_allocator ?s = A"
        using m1(1,3) d by (simp_all add: owned_blocks_def owned_ok_def)
      have l2: "live w2 = live w - owned_blocks (message_storage e) + owned_blocks m1"
        using w2(2) multiset_diff_union_assoc [OF e(4), of "owned_blocks m1"] by (simp only: union_commute)
      have g: "error_wf A (?upd ?s) \<and> error_view (?upd ?s) =
          mapping_view m (case state of None \<Rightarrow> [] | Some s \<Rightarrow> s) status severity operation (stored_fingerprint fingerprint)"
        by (rule good [OF s(3,2)]) (simp add: False)
      have b: "message_storage (?upd ?s) = ?s" by simp
      have "r = VPS_MEMORY_OK" "w' = w2" "e' = ?upd ?s"
        using run False True by (simp_all add: vps_error_replace_def size e(1) init al rel d(1) wr)
      then show ?thesis
        using w2(1) l2 g b s(1) by (simp only: if_True simp_thms)
    next
      case f: False
      then have "r1 = VPS_MEMORY_OUT_OF_MEMORY"
        using al valid
        by (auto simp: vps_owned_memory_allocate_def vps_memory_allocate_def split: if_splits option.splits prod.splits)
      then show ?thesis
        using run oa False by (simp add: vps_error_replace_def size e(1) init al)
    qed
  qed
qed

lemma error_set_sqlstate:
  assumes "inv w" and e: "error_wf A e" "owned_blocks (message_storage e) \<subseteq># live w"
    and s: "vps_error_set_sqlstate (Some e) operation state status severity fingerprint w = (r, e', w')"
  shows "inv w' \<and> (\<exists>e1. e' = Some e1 \<and> error_wf A e1 \<and>
    (if r = VPS_MEMORY_OK
     then live w' = live w - owned_blocks (message_storage e) + owned_blocks (message_storage e1) \<and>
          vps_error_sqlstate_is_valid state \<and>
          error_view e1 = mapping_view (vps_error_map_sqlstate operation (the state)) (the state) status severity
            operation (stored_fingerprint fingerprint)
     else e1 = e \<and> live w' = live w))"
proof (cases "vps_error_operation_is_valid operation \<and> vps_error_sqlstate_is_valid state \<and>
    vps_error_fingerprint_is_valid fingerprint")
  case False
  with assms show ?thesis
    by (auto simp: vps_error_set_sqlstate_def error_wf_def)
next
  case True
  let ?m = "vps_error_map_sqlstate operation (the state)"
  obtain st where st: "state = Some st" using True by (auto simp: vps_error_sqlstate_is_valid_def split: option.splits)
  obtain e1 where re: "vps_error_replace e operation state status severity fingerprint ?m (Some (map_message ?m)) w = (r, e1, w')"
      and e': "e' = Some e1"
    using s True e(1) by (auto simp: vps_error_set_sqlstate_def error_wf_def Let_def split: prod.splits)
  have p: "owned_allocator (message_storage e) = A" "owned_ok (message_storage e)" "initialized e"
    using e(1) by (simp_all add: error_wf_def)
  show ?thesis
    using error_replace [OF assms(1) p e(2) map_message_ok(1,2) _ map_class(1) _ _ _ re]
      map_class(3) [of operation "the state"] True e' e(1) st
    by (auto split: if_splits)
qed

lemma error_set_local:
  assumes "inv w" and e: "error_wf A e" "owned_blocks (message_storage e) \<subseteq># live w"
    and s: "vps_error_set_local (Some e) operation eclass fingerprint w = (r, e', w')"
  shows "inv w' \<and> (\<exists>e1. e' = Some e1 \<and> error_wf A e1 \<and>
    (if r = VPS_MEMORY_OK
     then live w' = live w - owned_blocks (message_storage e) + owned_blocks (message_storage e1) \<and>
          error_view e1 = mapping_view (vps_error_map_local operation eclass) [] 0 0
            operation (stored_fingerprint fingerprint)
     else e1 = e \<and> live w' = live w))"
proof (cases "vps_error_operation_is_valid operation \<and> vps_error_class_is_valid eclass \<and>
    vps_error_fingerprint_is_valid fingerprint")
  case False
  with assms show ?thesis
    by (auto simp: vps_error_set_local_def error_wf_def)
next
  case True
  let ?m = "vps_error_map_local operation eclass"
  obtain e1 where re: "vps_error_replace e operation None 0 0 fingerprint ?m (Some (map_message ?m)) w = (r, e1, w')"
      and e': "e' = Some e1"
    using s True e(1) by (auto simp: vps_error_set_local_def error_wf_def Let_def split: prod.splits)
  have p: "owned_allocator (message_storage e) = A" "owned_ok (message_storage e)" "initialized e"
    using e(1) by (simp_all add: error_wf_def)
  have mem: "map_error_class ?m = VPS_ERROR_CLASS_MEMORY \<longrightarrow> map_message ?m = ''out of memory''"
    by (simp add: map_class(4)) (simp add: vps_error_map_local_def)
  show ?thesis
    using error_replace [OF assms(1) p e(2) map_message_ok(3,4) mem _ _ _ _ re]
      map_class(4) [of operation eclass] True e' e(1)
    by (auto split: if_splits)
qed

lemma error_reset:
  assumes "inv w" and e: "error_wf A e" and "vps_error_reset (Some e) w = (e', w')"
  shows "inv w' \<and> (\<exists>e1. e' = Some e1 \<and> error_wf A e1 \<and> error_class e1 = VPS_ERROR_CLASS_NONE \<and>
     live w' = live w - owned_blocks (message_storage e) \<and> owned_blocks (message_storage e1) = {#} \<and>
     owned_memory (message_storage e1) = None)"
proof -
  obtain st w1 where rel: "vps_owned_memory_release (message_storage e) w = (st, w1)" by fastforce
  have p: "owned_allocator (message_storage e) = A" "owned_ok (message_storage e)" "initialized e"
    using e by (simp_all add: error_wf_def)
  note r = owned_release [OF assms(1) p(1,2) rel]
  then have "owned_memory st = None" by (auto simp: owned_blocks_def split: option.splits)
  then show ?thesis
    using assms(3) r p(3) rel by (auto simp: vps_error_reset_def error_wf_def error_message_ok_def)
qed

lemma error_copy:
  assumes "inv w" and d: "error_wf A d" "owned_blocks (message_storage d) \<subseteq># live w"
    and s: "error_wf A s"
    and run: "vps_error_copy (Some d) (Some s) False w = (r, d', w')"
  shows "inv w' \<and> (\<exists>d1. d' = Some d1 \<and> error_wf A d1 \<and>
    (if r = VPS_MEMORY_OK
     then live w' = live w - owned_blocks (message_storage d) + owned_blocks (message_storage d1) \<and>
          error_view d1 = error_view s
     else r = VPS_MEMORY_OUT_OF_MEMORY \<and> d1 = d \<and> live w' = live w))"
proof (cases "error_class s = VPS_ERROR_CLASS_NONE")
  case True
  obtain d1 w1 where re: "vps_error_reset (Some d) w = (d1, w1)" by fastforce
  have "r = VPS_MEMORY_OK" "d' = d1" "w' = w1"
    using run d s True re by (simp_all add: vps_error_copy_def error_wf_def)
  then show ?thesis
    using error_reset [OF assms(1) d(1) re] s True
    by (auto simp: error_view_def error_wf_def error_message_ok_def vps_error_message_def)
next
  case False
  let ?m = "\<lparr>map_sqlite_code = sqlite_code s, map_error_class = error_class s, map_transient = transient s,
     map_ambiguous = ambiguous s, map_message = vps_error_message (Some s)\<rparr>"
  let ?st = "if c_at (sqlstate s) 0 = NUL then None else Some (sqlstate s)"
  have sv: "initialized s" "vps_error_class_is_valid (error_class s)" "vps_error_operation_is_valid (err_operation s)"
      "sqlstate s = [] \<or> vps_error_sqlstate_is_valid (Some (sqlstate s))"
      "vps_error_fingerprint_is_valid (Some (query_fingerprint s))"
      "query_fingerprint s = [] \<or> c_at (query_fingerprint s) 0 \<noteq> NUL"
    using s False by (simp_all add: error_wf_def)
  have p: "owned_allocator (message_storage d) = A" "owned_ok (message_storage d)" "initialized d"
    using d(1) by (simp_all add: error_wf_def)
  have st: "?st = None \<or> vps_error_sqlstate_is_valid ?st"
      "(case ?st of None \<Rightarrow> [] | Some x \<Rightarrow> x) = sqlstate s"
    using sv(4) by (auto simp: c_at_def dest: sqlstate_valid_head)
  have msg: "NUL \<notin> set (map_message ?m)" "length (map_message ?m) \<le> 255"
      "map_error_class ?m = VPS_ERROR_CLASS_MEMORY \<longrightarrow> map_message ?m = ''out of memory''"
    using s False by (auto simp: error_wf_def error_message_ok_def vps_error_message_def split: if_splits)
  obtain d1 where re: "vps_error_replace d (err_operation s) ?st (backend_status s) (severity_class s)
      (Some (query_fingerprint s)) ?m (Some (map_message ?m)) w = (r, d1, w')" and d': "d' = Some d1"
    using run False sv p(3) st(1) sqlstate_valid_head
    by (auto simp: vps_error_copy_def Let_def c_at_def split: prod.splits if_splits)
  have "stored_fingerprint (Some (query_fingerprint s)) = query_fingerprint s"
    using sv(6) by (auto simp: stored_fingerprint_def c_at_def)
  then have "mapping_view ?m (sqlstate s) (backend_status s) (severity_class s) (err_operation s)
      (stored_fingerprint (Some (query_fingerprint s))) = error_view s"
    by (simp add: mapping_view_def error_view_def)
  then show ?thesis
    using error_replace [OF assms(1) p d(2) msg _ sv(3) st(1) sv(5) re] sv(2) d(1) d' st(2)
    by (auto split: if_splits)
qed

end

section \<open>Properties\<close>

text \<open>C6. Only a lost connection during a commit is reported with an unknown outcome. An error set from a
  SQLSTATE or from a local failure class is ambiguous exactly when the operation was a commit and
  the failure was a connection failure (SQLSTATE class 08, or the local connection class); such an
  error is also transient and carries the I/O error code of SQLite.\<close>

theorem ambiguous_only_for_lost_commits:
  assumes "error_wf system_allocator e" and "owned_blocks (message_storage e) \<subseteq># heap_live h"
  shows "(vps_error_set_sqlstate (Some e) operation (Some state) status severity fingerprint h = (VPS_MEMORY_OK, Some e1, h1) \<longrightarrow>
      (ambiguous e1 \<longleftrightarrow> operation = VPS_ERROR_OPERATION_COMMIT \<and> take 2 state = ''08'') \<and>
      (ambiguous e1 \<longrightarrow> transient e1 \<and> sqlite_code e1 = SQLITE_IOERR)) \<and>
    (vps_error_set_local (Some e) operation eclass fingerprint h = (VPS_MEMORY_OK, Some e2, h2) \<longrightarrow>
      (ambiguous e2 \<longleftrightarrow> operation = VPS_ERROR_OPERATION_COMMIT \<and> eclass = VPS_ERROR_CLASS_CONNECTION) \<and>
      (ambiguous e2 \<longrightarrow> transient e2 \<and> sqlite_code e2 = SQLITE_IOERR))"
proof (intro conjI impI)
  assume s: "vps_error_set_sqlstate (Some e) operation (Some state) status severity fingerprint h = (VPS_MEMORY_OK, Some e1, h1)"
  have v: "vps_error_sqlstate_is_valid (Some state)" and
    "error_view e1 = mapping_view (vps_error_map_sqlstate operation state) state status severity operation
       (stored_fingerprint fingerprint)"
    using system.error_set_sqlstate [OF TrueI assms s] by simp_all
  then have a: "ambiguous e1 = map_ambiguous (vps_error_map_sqlstate operation state)"
      "transient e1 = map_transient (vps_error_map_sqlstate operation state)"
      "sqlite_code e1 = map_sqlite_code (vps_error_map_sqlstate operation state)"
    by (simp_all add: error_view_def mapping_view_def)
  have "take 2 state = ''08'' \<longleftrightarrow> c_at state 0 = CHR ''0'' \<and> c_at state 1 = CHR ''8''"
    by (cases state rule: list.exhaust [case_names Nil Cons]; cases "tl state")
      (auto simp: c_at_def)
  then show "ambiguous e1 \<longleftrightarrow> operation = VPS_ERROR_OPERATION_COMMIT \<and> take 2 state = ''08''"
    unfolding a by (simp add: map_sqlstate_ambiguous(1))
  show "ambiguous e1 \<Longrightarrow> transient e1" "ambiguous e1 \<Longrightarrow> sqlite_code e1 = SQLITE_IOERR"
    unfolding a by (simp_all add: map_sqlstate_ambiguous(2))
next
  assume s: "vps_error_set_local (Some e) operation eclass fingerprint h = (VPS_MEMORY_OK, Some e2, h2)"
  have "error_view e2 = mapping_view (vps_error_map_local operation eclass) [] 0 0 operation
       (stored_fingerprint fingerprint)"
    using system.error_set_local [OF TrueI assms s] by simp
  then have a: "ambiguous e2 = map_ambiguous (vps_error_map_local operation eclass)"
      "transient e2 = map_transient (vps_error_map_local operation eclass)"
      "sqlite_code e2 = map_sqlite_code (vps_error_map_local operation eclass)"
    by (simp_all add: error_view_def mapping_view_def)
  show "ambiguous e2 \<longleftrightarrow> operation = VPS_ERROR_OPERATION_COMMIT \<and> eclass = VPS_ERROR_CLASS_CONNECTION"
    unfolding a by (cases eclass) (simp_all add: vps_error_map_local_def)
  show "ambiguous e2 \<Longrightarrow> transient e2" "ambiguous e2 \<Longrightarrow> sqlite_code e2 = SQLITE_IOERR"
    unfolding a by (cases eclass; simp add: vps_error_map_local_def)+
qed

abbreviation fresh_error :: "'w VpsAllocator \<Rightarrow> 'w VpsError" where
  "fresh_error A \<equiv>
     \<lparr>message_storage = \<lparr>owned_allocator = A, owned_memory = None, owned_size = 0, owned_flag = False\<rparr>,
      sqlite_code = SQLITE_OK, sqlstate = [], backend_status = 0, severity_class = 0,
      err_operation = VPS_ERROR_OPERATION_NONE, query_fingerprint = [], error_class = VPS_ERROR_CLASS_NONE,
      transient = False, ambiguous = False, initialized = True\<rparr>"

lemma fresh_error_wf: "error_wf A (fresh_error A)"
  by (simp add: error_wf_def owned_ok_def error_message_ok_def)

lemma vps_error_init_fresh:
  "vps_allocator_is_valid (Some A) \<Longrightarrow> vps_error_init (Some e) (Some A) = (VPS_MEMORY_OK, Some (fresh_error A))"
  by (simp add: vps_error_init_def vps_owned_memory_init_def)

theorem ambiguous_only_for_lost_commits_witness:
  "\<exists>e1 h1. vps_error_set_local (Some (fresh_error system_allocator)) VPS_ERROR_OPERATION_COMMIT
       VPS_ERROR_CLASS_CONNECTION None witness_heap = (VPS_MEMORY_OK, Some e1, h1) \<and> ambiguous e1"
proof -
  obtain e1 h1 where s: "vps_error_set_local (Some (fresh_error system_allocator)) VPS_ERROR_OPERATION_COMMIT
       VPS_ERROR_CLASS_CONNECTION None witness_heap = (VPS_MEMORY_OK, Some e1, h1)"
    by (simp add: vps_error_set_local_def vps_error_fingerprint_is_valid_def vps_error_map_local_def
        vps_error_replace_def bounded_message_size vps_owned_memory_init_def vps_owned_memory_allocate_def
        vps_memory_allocate_def vps_allocator_is_valid_def call_allocate_def vps_system_allocate_def
        c_malloc_def vps_owned_memory_release_def)
  have b: "owned_blocks (message_storage (fresh_error system_allocator)) \<subseteq># heap_live witness_heap"
    by (simp add: owned_blocks_def)
  show ?thesis
    using ambiguous_only_for_lost_commits [OF fresh_error_wf b, of VPS_ERROR_OPERATION_COMMIT "[]" 0 0 None _ _
        VPS_ERROR_CLASS_CONNECTION e1 h1] s
    by auto
qed

text \<open>C7. Copying an error is all or nothing. On well-formed objects of the system allocator a copy either
  succeeds, and then the destination is well formed and shows exactly what the source shows, its old
  message block being given back for its new one; or it fails for lack of memory, and then neither
  the destination nor the set of live blocks has changed.\<close>

theorem error_copy_all_or_nothing:
  assumes "error_wf system_allocator d" and "owned_blocks (message_storage d) \<subseteq># heap_live h"
    and "error_wf system_allocator s"
    and "vps_error_copy (Some d) (Some s) False h = (r, d', h')"
  shows "\<exists>d1. d' = Some d1 \<and> error_wf system_allocator d1 \<and>
    (if r = VPS_MEMORY_OK
     then heap_live h' = heap_live h - owned_blocks (message_storage d) + owned_blocks (message_storage d1) \<and>
          error_view d1 = error_view s
     else r = VPS_MEMORY_OUT_OF_MEMORY \<and> d1 = d \<and> heap_live h' = heap_live h)"
  using system.error_copy [OF TrueI assms] by simp

theorem error_copy_all_or_nothing_witness:
  "\<exists>r d1 h'. vps_error_copy (Some (fresh_error system_allocator)) (Some ((fresh_error system_allocator)
       \<lparr>error_class := VPS_ERROR_CLASS_MEMORY, err_operation := VPS_ERROR_OPERATION_QUERY, sqlite_code := SQLITE_NOMEM\<rparr>))
       False witness_heap = (r, Some d1, h') \<and>
     (r = VPS_MEMORY_OK \<longrightarrow> vps_error_message (Some d1) = ''out of memory'')"
proof -
  let ?s = "(fresh_error system_allocator)\<lparr>error_class := VPS_ERROR_CLASS_MEMORY,
     err_operation := VPS_ERROR_OPERATION_QUERY, sqlite_code := SQLITE_NOMEM\<rparr>"
  obtain r d' h' where c: "vps_error_copy (Some (fresh_error system_allocator)) (Some ?s) False witness_heap = (r, d', h')"
    by (metis prod_cases3)
  have s: "error_wf system_allocator ?s"
    by (simp add: error_wf_def owned_ok_def error_message_ok_def vps_error_fingerprint_is_valid_def c_at_def)
  have b: "owned_blocks (message_storage (fresh_error system_allocator)) \<subseteq># heap_live witness_heap"
    by (simp add: owned_blocks_def)
  have "vps_error_message (Some ?s) = ''out of memory''" by (simp add: vps_error_message_def)
  then show ?thesis
    using error_copy_all_or_nothing [OF fresh_error_wf b s c] c by (auto simp: error_view_def split: if_splits)
qed

end
