(* ===== verification/Vps_Retry.thy ===== *)
theory Vps_Retry
  imports Vps_Error
begin

text \<open>The retry policy of \<open>src/src/vps_retry.c\<close>: which failed attempts may be repeated and after what delay.\<close>

abbreviation (input) VPS_RETRY_MAX_ATTEMPTS :: u32 where "VPS_RETRY_MAX_ATTEMPTS \<equiv> 3"
abbreviation (input) VPS_RETRY_MAX_BACKOFF_MS :: u64 where "VPS_RETRY_MAX_BACKOFF_MS \<equiv> 1000"

record 'c VpsRetryContext =
  retry_error_class :: VpsErrorClass
  retry_attempt :: u32
  initial_backoff_ms :: u32
  retry_transient :: bool
  idempotent_read :: bool
  transaction_active :: bool
  row_published :: bool
  snapshot_published :: bool
  retry_dml :: bool
  retry_ambiguous :: bool
  retry_cancelled :: bool
  retry_logger :: "'c VpsLogger option"
  retry_query_fingerprint :: "string option"

record VpsRetryDecision =
  decision_retry :: bool
  backoff_ms :: u32

definition vps_retry_fingerprint_valid :: "string option \<Rightarrow> bool" where
  "vps_retry_fingerprint_valid fingerprint =
     (case fingerprint of
        None \<Rightarrow> False
      | Some s \<Rightarrow>
          list_all (\<lambda>index. char_between (CHR ''0'') (CHR ''9'') (c_at s index) \<or>
                            char_between (CHR ''a'') (CHR ''f'') (c_at s index))
            [0..<VPS_ERROR_FINGERPRINT_LENGTH] \<and>
          c_at s VPS_ERROR_FINGERPRINT_LENGTH = NUL)"

definition vps_retry_log :: "'c VpsRetryContext \<Rightarrow> VpsRetryDecision \<Rightarrow> 'c VpsRetryContext" where
  "vps_retry_log context decision =
     context\<lparr>retry_logger :=
       log_emit_each (retry_logger context)
         (if decision_retry decision then VPS_LOG_LEVEL_INFO else VPS_LOG_LEVEL_DEBUG)
         ([LogStr VPS_LOG_FIELD_OPERATION ''retry_policy'',
           LogStr VPS_LOG_FIELD_STATUS (if decision_retry decision then ''allowed'' else ''forbidden''),
           LogStr VPS_LOG_FIELD_ERROR_CLASS (vps_error_class_name (retry_error_class context)),
           LogNum VPS_LOG_FIELD_RETRY_ATTEMPT (ucast (retry_attempt context)),
           LogNum VPS_LOG_FIELD_BACKOFF_MS (ucast (backoff_ms decision))] @
          (if vps_retry_fingerprint_valid (retry_query_fingerprint context)
           then [LogStr VPS_LOG_FIELD_QUERY_FINGERPRINT
                  (take VPS_ERROR_FINGERPRINT_LENGTH (the (retry_query_fingerprint context)))]
           else []))\<rparr>"

text \<open>The doubling loop; the first argument is the counter \<open>shift\<close>.\<close>

fun retry_doubling :: "nat \<Rightarrow> u64 \<Rightarrow> u64" where
  "retry_doubling 0 backoff = backoff"
| "retry_doubling (Suc shift) backoff =
     (if backoff < VPS_RETRY_MAX_BACKOFF_MS then retry_doubling shift (backoff * 2) else backoff)"

definition vps_retry_decide ::
    "'c VpsRetryContext option \<Rightarrow> VpsRetryDecision option \<Rightarrow>
     bool \<times> VpsRetryDecision option \<times> 'c VpsRetryContext option" where
  "vps_retry_decide context_ptr decision =
     (case context_ptr of
        None \<Rightarrow> (False, decision, None)
      | Some context \<Rightarrow>
          if decision = None \<or> retry_attempt context = 0 \<or> initial_backoff_ms context = 0
          then (False, decision, Some context)
          else if retry_error_class context \<noteq> VPS_ERROR_CLASS_CONNECTION \<or> \<not> retry_transient context \<or>
                  \<not> idempotent_read context \<or> retry_attempt context \<ge> VPS_RETRY_MAX_ATTEMPTS \<or>
                  transaction_active context \<or> row_published context \<or> snapshot_published context \<or>
                  retry_dml context \<or> retry_ambiguous context \<or> retry_cancelled context
          then let d = \<lparr>decision_retry = False, backoff_ms = 0\<rparr>
               in (True, Some d, Some (vps_retry_log context d))
          else let shift = retry_attempt context - 1;
                   backoff = retry_doubling (unat shift) (ucast (initial_backoff_ms context));
                   capped = (if backoff > VPS_RETRY_MAX_BACKOFF_MS then VPS_RETRY_MAX_BACKOFF_MS else backoff);
                   d = \<lparr>decision_retry = True, backoff_ms = ucast capped\<rparr>
               in (True, Some d, Some (vps_retry_log context d)))"

lemma retry_doubling_min:
  "unat b < 2 ^ 32 \<Longrightarrow> min 1000 (unat (retry_doubling n b)) = min 1000 (unat b * 2 ^ n)"
proof (induction n arbitrary: b)
  case (Suc n)
  show ?case
  proof (cases "b < 1000")
    case True
    then have b: "unat b < 1000" by (simp add: word_less_nat_alt)
    then have u: "unat (b * 2) = unat b * 2" by (simp add: unat_word_ariths)
    show ?thesis using True Suc.IH [of "b * 2"] u b by (simp add: mult.assoc)
  next
    case False
    then have "1000 \<le> unat b" by (simp add: word_less_nat_alt)
    moreover have "1000 \<le> unat b * (2 * 2 ^ n)"
      using calculation by (metis le_trans mult_le_mono nat_mult_1_right one_le_power one_le_numeral mult_le_mono2 power_Suc)
    ultimately show ?thesis using False by simp
  qed
qed simp

text \<open>C12. The policy repeats an attempt exactly when it was the first or second attempt of an idempotent
  read that failed with a transient, unambiguous connection failure, outside a transaction, with
  nothing published, no data changed and no cancellation; and the delay is then the initial delay
  doubled per earlier attempt, at least 1 ms and at most one second.\<close>

theorem retry_policy_exact:
  assumes "retry_attempt context \<noteq> 0" and "initial_backoff_ms context \<noteq> 0"
  shows "\<exists>d context'. vps_retry_decide (Some context) (Some d0) = (True, Some d, Some context') \<and>
    (decision_retry d \<longleftrightarrow>
       retry_error_class context = VPS_ERROR_CLASS_CONNECTION \<and> retry_transient context \<and>
       idempotent_read context \<and> retry_attempt context < 3 \<and> \<not> transaction_active context \<and>
       \<not> row_published context \<and> \<not> snapshot_published context \<and> \<not> retry_dml context \<and>
       \<not> retry_ambiguous context \<and> \<not> retry_cancelled context) \<and>
    unat (backoff_ms d) =
      (if decision_retry d then min 1000 (unat (initial_backoff_ms context) * 2 ^ (unat (retry_attempt context) - 1))
       else 0)"
proof -
  define b :: u64 where "b = ucast (initial_backoff_ms context)"
  define r where "r = retry_doubling (unat (retry_attempt context - 1)) b"
  define c where "c = (if r > 1000 then 1000 else r)"
  have l: "unat (initial_backoff_ms context) < 2 ^ 32" using unsigned_less [of "initial_backoff_ms context"] by simp
  then have "unat (initial_backoff_ms context) < 2 ^ LENGTH(64)" by simp
  then have b: "unat b = unat (initial_backoff_ms context)" unfolding b_def by (rule unat_ucast_small)
  have b32: "unat b < 2 ^ 32" unfolding b by (rule l)
  have "1 \<le> retry_attempt context" using assms(1) by (simp add: word_le_nat_alt unat_gt_0 Suc_le_eq)
  then have s: "unat (retry_attempt context - 1) = unat (retry_attempt context) - 1" by (simp add: unat_sub)
  have "unat c = min 1000 (unat r)" unfolding c_def by (simp add: word_less_nat_alt min_def)
  then have m: "unat c = min 1000 (unat (initial_backoff_ms context) * 2 ^ (unat (retry_attempt context) - 1))"
    unfolding r_def using retry_doubling_min [OF b32] b s by simp
  then have "unat c \<le> 1000" by linarith
  then have "unat c < 2 ^ LENGTH(32)" by simp
  then have u: "unat (ucast c :: u32) = unat c" by (rule unat_ucast_small)
  show ?thesis
  proof (cases "retry_error_class context = VPS_ERROR_CLASS_CONNECTION \<and> retry_transient context \<and>
       idempotent_read context \<and> retry_attempt context < 3 \<and> \<not> transaction_active context \<and>
       \<not> row_published context \<and> \<not> snapshot_published context \<and> \<not> retry_dml context \<and>
       \<not> retry_ambiguous context \<and> \<not> retry_cancelled context")
    case True
    then have "vps_retry_decide (Some context) (Some d0) = (True, Some \<lparr>decision_retry = True, backoff_ms = ucast c\<rparr>,
        Some (vps_retry_log context \<lparr>decision_retry = True, backoff_ms = ucast c\<rparr>))"
      using assms by (simp add: vps_retry_decide_def Let_def c_def r_def b_def not_le)
    then show ?thesis using True m u by simp
  next
    case False
    then have "vps_retry_decide (Some context) (Some d0) = (True, Some \<lparr>decision_retry = False, backoff_ms = 0\<rparr>,
        Some (vps_retry_log context \<lparr>decision_retry = False, backoff_ms = 0\<rparr>))"
      using assms by (auto simp: vps_retry_decide_def Let_def not_le)
    then show ?thesis using False by auto
  qed
qed

theorem retry_policy_exact_witness:
  "\<exists>d context'. vps_retry_decide (Some \<lparr>retry_error_class = VPS_ERROR_CLASS_CONNECTION, retry_attempt = 2,
       initial_backoff_ms = 50, retry_transient = True, idempotent_read = True, transaction_active = False,
       row_published = False, snapshot_published = False, retry_dml = False, retry_ambiguous = False,
       retry_cancelled = False, retry_logger = (None :: unit VpsLogger option), retry_query_fingerprint = None\<rparr>)
     (Some \<lparr>decision_retry = False, backoff_ms = 0\<rparr>) = (True, Some d, Some context') \<and>
     decision_retry d \<and> unat (backoff_ms d) = 100"
  using retry_policy_exact [of "\<lparr>retry_error_class = VPS_ERROR_CLASS_CONNECTION, retry_attempt = 2,
       initial_backoff_ms = 50, retry_transient = True, idempotent_read = True, transaction_active = False,
       row_published = False, snapshot_published = False, retry_dml = False, retry_ambiguous = False,
       retry_cancelled = False, retry_logger = (None :: unit VpsLogger option), retry_query_fingerprint = None\<rparr>"
     "\<lparr>decision_retry = False, backoff_ms = 0\<rparr>"]
  by (auto simp: min_def split: if_splits)

end
