(* ===== verification/Vps_Transaction.thy ===== *)
theory Vps_Transaction
  imports Vps_Error
begin

text \<open>
  The transaction coordinator of \<open>src/src/vps_transaction.c\<close>: one PostgreSQL transaction for all the
  virtual tables of a database connection. The coordinator only decides which command has to be
  sent; sending it and reporting back (\<open>begin_complete\<close>, \<open>end_complete\<close>) is its client's part. The
  arrays of participants and savepoints are lists of their 64 elements, of which the first
  \<open>participant_count\<close> and \<open>savepoint_count\<close> are in use.
\<close>

section \<open>Data\<close>

abbreviation (input) VPS_TRANSACTION_MAX_PARTICIPANTS :: size_t where "VPS_TRANSACTION_MAX_PARTICIPANTS \<equiv> 64"
abbreviation (input) VPS_TRANSACTION_MAX_SAVEPOINTS :: size_t where "VPS_TRANSACTION_MAX_SAVEPOINTS \<equiv> 64"
abbreviation (input) VPS_IDENTITY_CANONICAL_LIMIT :: size_t where "VPS_IDENTITY_CANONICAL_LIMIT \<equiv> 65536"

datatype VpsTransactionState =
    VPS_TRANSACTION_IDLE
  | VPS_TRANSACTION_BEGINNING
  | VPS_TRANSACTION_ACTIVE
  | VPS_TRANSACTION_FAILED
  | VPS_TRANSACTION_ENDING
  | VPS_TRANSACTION_AMBIGUOUS

datatype VpsTransactionResult =
    VPS_TRANSACTION_OK
  | VPS_TRANSACTION_COMMAND_REQUIRED
  | VPS_TRANSACTION_BUSY
  | VPS_TRANSACTION_IDENTITY_MISMATCH
  | VPS_TRANSACTION_INVALID_STATE
  | VPS_TRANSACTION_ABORTED
  | VPS_TRANSACTION_AMBIGUOUS_OUTCOME
  | VPS_TRANSACTION_LIMIT_EXCEEDED
  | VPS_TRANSACTION_OUT_OF_MEMORY
  | VPS_TRANSACTION_INVALID_ARGUMENT

datatype VpsTransactionEndOperation =
    VPS_TRANSACTION_END_COMMIT
  | VPS_TRANSACTION_END_ROLLBACK
  | VPS_TRANSACTION_END_OUT_OF_RANGE int

record ('w, 'c) VpsConnectionIdentity =
  ident_canonical :: "'w VpsBuffer"
  ident_logger :: "'c VpsLogger option"
  ident_credential_generation :: u64
  ident_configuration_generation :: u64
  ident_fingerprint :: string
  ident_initialized :: bool
  ident_built :: bool

record ('w, 'c) VpsTransactionCoordinator =
  tx_allocator :: "'w VpsAllocator"
  tx_identity :: "'w VpsBuffer"
  tx_logger :: "'c VpsLogger option"
  tx_credential_generation :: u64
  tx_configuration_generation :: u64
  tx_generation :: u64
  tx_participants :: "u64 list"
  tx_savepoints :: "int list"
  tx_participant_count :: size_t
  tx_savepoint_count :: size_t
  tx_active_stream_count :: size_t
  tx_state :: VpsTransactionState
  tx_ending_operation :: VpsTransactionEndOperation
  tx_identity_fingerprint :: string
  tx_last_sqlstate :: string
  tx_initialized :: bool

record VpsTransactionStatus =
  status_state :: VpsTransactionState
  status_generation :: u64
  status_participant_count :: size_t
  status_savepoint_count :: size_t
  status_active_stream_count :: size_t
  status_ambiguous :: bool
  status_identity_fingerprint :: string
  status_last_sqlstate :: string

section \<open>Operations\<close>

fun vps_transaction_state_name :: "VpsTransactionState \<Rightarrow> string" where
  "vps_transaction_state_name VPS_TRANSACTION_IDLE = ''idle''"
| "vps_transaction_state_name VPS_TRANSACTION_BEGINNING = ''beginning''"
| "vps_transaction_state_name VPS_TRANSACTION_ACTIVE = ''active''"
| "vps_transaction_state_name VPS_TRANSACTION_FAILED = ''failed''"
| "vps_transaction_state_name VPS_TRANSACTION_ENDING = ''ending''"
| "vps_transaction_state_name VPS_TRANSACTION_AMBIGUOUS = ''ambiguous''"

fun vps_transaction_result_name :: "VpsTransactionResult \<Rightarrow> string" where
  "vps_transaction_result_name VPS_TRANSACTION_OK = ''ok''"
| "vps_transaction_result_name VPS_TRANSACTION_COMMAND_REQUIRED = ''command_required''"
| "vps_transaction_result_name VPS_TRANSACTION_BUSY = ''busy''"
| "vps_transaction_result_name VPS_TRANSACTION_IDENTITY_MISMATCH = ''identity_mismatch''"
| "vps_transaction_result_name VPS_TRANSACTION_INVALID_STATE = ''invalid_state''"
| "vps_transaction_result_name VPS_TRANSACTION_ABORTED = ''aborted''"
| "vps_transaction_result_name VPS_TRANSACTION_AMBIGUOUS_OUTCOME = ''ambiguous''"
| "vps_transaction_result_name VPS_TRANSACTION_LIMIT_EXCEEDED = ''limit_exceeded''"
| "vps_transaction_result_name VPS_TRANSACTION_OUT_OF_MEMORY = ''out_of_memory''"
| "vps_transaction_result_name VPS_TRANSACTION_INVALID_ARGUMENT = ''invalid_argument''"

definition vps_transaction_log ::
    "('w, 'c) VpsTransactionCoordinator \<Rightarrow> VpsLogLevel \<Rightarrow> string \<Rightarrow> string \<Rightarrow>
     ('w, 'c) VpsTransactionCoordinator" where
  "vps_transaction_log coordinator level operation outcome =
     coordinator\<lparr>tx_logger := log_emit_strict (tx_logger coordinator) level
        [LogStr VPS_LOG_FIELD_PROFILE ''transaction'',
         LogStr VPS_LOG_FIELD_OPERATION operation,
         LogStr VPS_LOG_FIELD_PHASE (vps_transaction_state_name (tx_state coordinator)),
         LogStr VPS_LOG_FIELD_STATUS outcome,
         LogNum VPS_LOG_FIELD_GENERATION (tx_generation coordinator),
         LogNum VPS_LOG_FIELD_PARTICIPANT_COUNT (tx_participant_count coordinator)]\<rparr>"

definition vps_transaction_reset_active ::
    "('w, 'c) VpsTransactionCoordinator \<Rightarrow> 'w \<Rightarrow> ('w, 'c) VpsTransactionCoordinator \<times> 'w" where
  "vps_transaction_reset_active coordinator w =
     (case vps_buffer_reset (tx_identity coordinator) w of
        (identity1, w1) \<Rightarrow>
          (coordinator\<lparr>tx_identity :=
               (case vps_buffer_init (Some (tx_allocator coordinator)) VPS_IDENTITY_CANONICAL_LIMIT of
                  (_, Some fresh) \<Rightarrow> fresh | (_, None) \<Rightarrow> identity1),
             tx_credential_generation := 0, tx_configuration_generation := 0,
             tx_participant_count := 0, tx_savepoint_count := 0, tx_active_stream_count := 0,
             tx_ending_operation := VPS_TRANSACTION_END_OUT_OF_RANGE 0,
             tx_identity_fingerprint := [], tx_last_sqlstate := [],
             tx_state := VPS_TRANSACTION_IDLE\<rparr>, w1))"

text \<open>The object after \<open>memset\<close> to zero.\<close>

abbreviation zero_allocator :: "'w VpsAllocator" where
  "zero_allocator \<equiv> \<lparr>alloc_family = VPS_ALLOCATOR_FAMILY_OUT_OF_RANGE 0, alloc_allocate = None,
     alloc_reallocate = None, alloc_deallocate = None\<rparr>"

definition zero_coordinator :: "('w, 'c) VpsTransactionCoordinator" where
  "zero_coordinator =
     \<lparr>tx_allocator = zero_allocator,
      tx_identity = \<lparr>buf_allocator = zero_allocator, buf_data = None, buf_size = 0, buf_capacity = 0,
                     buf_limit = 0\<rparr>,
      tx_logger = None, tx_credential_generation = 0, tx_configuration_generation = 0, tx_generation = 0,
      tx_participants = replicate 64 0, tx_savepoints = replicate 64 0,
      tx_participant_count = 0, tx_savepoint_count = 0, tx_active_stream_count = 0,
      tx_state = VPS_TRANSACTION_IDLE, tx_ending_operation = VPS_TRANSACTION_END_OUT_OF_RANGE 0,
      tx_identity_fingerprint = [], tx_last_sqlstate = [], tx_initialized = False\<rparr>"

definition vps_transaction_init ::
    "('w, 'c) VpsTransactionCoordinator option \<Rightarrow> 'w VpsAllocator option \<Rightarrow> 'c VpsLogger option \<Rightarrow>
     VpsTransactionResult \<times> ('w, 'c) VpsTransactionCoordinator option" where
  "vps_transaction_init coordinator allocator logger =
     (if coordinator = None \<or> \<not> vps_allocator_is_valid allocator
      then (VPS_TRANSACTION_INVALID_ARGUMENT, coordinator)
      else let zeroed = zero_coordinator\<lparr>tx_allocator := the allocator, tx_logger := logger\<rparr>
           in case vps_buffer_init allocator VPS_IDENTITY_CANONICAL_LIMIT of
                (VPS_MEMORY_OK, Some identity) \<Rightarrow>
                  (VPS_TRANSACTION_OK,
                   Some (zeroed\<lparr>tx_identity := identity, tx_state := VPS_TRANSACTION_IDLE,
                                tx_initialized := True\<rparr>))
              | _ \<Rightarrow> (VPS_TRANSACTION_OUT_OF_MEMORY, Some zeroed))"

definition vps_transaction_cleanup ::
    "('w, 'c) VpsTransactionCoordinator option \<Rightarrow> 'w \<Rightarrow> ('w, 'c) VpsTransactionCoordinator option \<times> 'w" where
  "vps_transaction_cleanup coordinator_ptr w =
     (case coordinator_ptr of
        None \<Rightarrow> (None, w)
      | Some coordinator \<Rightarrow>
          (Some zero_coordinator,
           if tx_initialized coordinator then snd (vps_buffer_reset (tx_identity coordinator) w) else w))"

definition vps_transaction_has_participant :: "('w, 'c) VpsTransactionCoordinator \<Rightarrow> u64 \<Rightarrow> bool" where
  "vps_transaction_has_participant coordinator participant_id =
     list_ex (\<lambda>index. tx_participants coordinator ! index = participant_id)
       [0..<unat (tx_participant_count coordinator)]"

definition vps_transaction_identity_matches ::
    "('w, 'c) VpsTransactionCoordinator \<Rightarrow> ('w, 'c) VpsConnectionIdentity option \<Rightarrow> bool" where
  "vps_transaction_identity_matches coordinator identity_ptr =
     (case identity_ptr of
        None \<Rightarrow> False
      | Some identity \<Rightarrow>
          ident_built identity \<and>
          buf_size (tx_identity coordinator) = buf_size (ident_canonical identity) \<and>
          tx_credential_generation coordinator = ident_credential_generation identity \<and>
          tx_configuration_generation coordinator = ident_configuration_generation identity \<and>
          (buf_size (ident_canonical identity) = 0 \<or>
           take (unat (buf_size (ident_canonical identity))) (the (buf_data (tx_identity coordinator))) =
           take (unat (buf_size (ident_canonical identity))) (the (buf_data (ident_canonical identity)))))"

definition vps_transaction_begin ::
    "('w, 'c) VpsTransactionCoordinator option \<Rightarrow> ('w, 'c) VpsConnectionIdentity option \<Rightarrow> u64 \<Rightarrow> 'w \<Rightarrow>
     VpsTransactionResult \<times> ('w, 'c) VpsTransactionCoordinator option \<times> 'w" where
  "vps_transaction_begin coordinator_ptr identity_ptr participant_id w =
     (case (coordinator_ptr, identity_ptr) of
        (Some coordinator, Some identity) \<Rightarrow>
          if \<not> tx_initialized coordinator \<or> \<not> ident_built identity \<or> participant_id = 0
          then (VPS_TRANSACTION_INVALID_ARGUMENT, coordinator_ptr, w)
          else if tx_state coordinator = VPS_TRANSACTION_AMBIGUOUS
          then (VPS_TRANSACTION_AMBIGUOUS_OUTCOME, coordinator_ptr, w)
          else if tx_state coordinator = VPS_TRANSACTION_IDLE
          then (case vps_buffer_append (tx_identity coordinator) (buf_data (ident_canonical identity))
                       (buf_size (ident_canonical identity)) w of
                  (result, buffer, w1) \<Rightarrow>
                    if result \<noteq> VPS_MEMORY_OK
                    then (VPS_TRANSACTION_OUT_OF_MEMORY, Some (coordinator\<lparr>tx_identity := buffer\<rparr>), w1)
                    else (VPS_TRANSACTION_COMMAND_REQUIRED,
                          Some (vps_transaction_log
                            (coordinator\<lparr>tx_identity := buffer,
                               tx_credential_generation := ident_credential_generation identity,
                               tx_configuration_generation := ident_configuration_generation identity,
                               tx_identity_fingerprint := ident_fingerprint identity,
                               tx_participants := (tx_participants coordinator)[0 := participant_id],
                               tx_participant_count := 1,
                               tx_generation := tx_generation coordinator + 1,
                               tx_state := VPS_TRANSACTION_BEGINNING\<rparr>)
                            VPS_LOG_LEVEL_DEBUG ''begin'' ''required''), w1))
          else if tx_state coordinator \<noteq> VPS_TRANSACTION_ACTIVE \<and> tx_state coordinator \<noteq> VPS_TRANSACTION_FAILED
          then (VPS_TRANSACTION_INVALID_STATE, coordinator_ptr, w)
          else if \<not> vps_transaction_identity_matches coordinator (Some identity)
          then (VPS_TRANSACTION_IDENTITY_MISMATCH,
                Some (vps_transaction_log coordinator VPS_LOG_LEVEL_WARN ''join'' ''identity_mismatch''), w)
          else if vps_transaction_has_participant coordinator participant_id
          then (VPS_TRANSACTION_OK, coordinator_ptr, w)
          else if tx_participant_count coordinator \<ge> VPS_TRANSACTION_MAX_PARTICIPANTS
          then (VPS_TRANSACTION_LIMIT_EXCEEDED, coordinator_ptr, w)
          else (VPS_TRANSACTION_OK,
                Some (vps_transaction_log
                  (coordinator\<lparr>tx_participants := (tx_participants coordinator)
                                  [unat (tx_participant_count coordinator) := participant_id],
                               tx_participant_count := tx_participant_count coordinator + 1\<rparr>)
                  VPS_LOG_LEVEL_DEBUG ''join'' ''ok''), w)
      | _ \<Rightarrow> (VPS_TRANSACTION_INVALID_ARGUMENT, coordinator_ptr, w))"

definition vps_transaction_begin_complete ::
    "('w, 'c) VpsTransactionCoordinator option \<Rightarrow> bool \<Rightarrow> 'w \<Rightarrow>
     VpsTransactionResult \<times> ('w, 'c) VpsTransactionCoordinator option \<times> 'w" where
  "vps_transaction_begin_complete coordinator_ptr success w =
     (case coordinator_ptr of
        None \<Rightarrow> (VPS_TRANSACTION_INVALID_STATE, None, w)
      | Some coordinator \<Rightarrow>
          if tx_state coordinator \<noteq> VPS_TRANSACTION_BEGINNING
          then (VPS_TRANSACTION_INVALID_STATE, Some coordinator, w)
          else if \<not> success
          then (case vps_transaction_reset_active coordinator w of
                  (coordinator1, w1) \<Rightarrow> (VPS_TRANSACTION_INVALID_STATE, Some coordinator1, w1))
          else (VPS_TRANSACTION_OK,
                Some (vps_transaction_log (coordinator\<lparr>tx_state := VPS_TRANSACTION_ACTIVE\<rparr>)
                        VPS_LOG_LEVEL_INFO ''begin'' ''complete''), w))"

definition vps_transaction_stream_begin ::
    "('w, 'c) VpsTransactionCoordinator option \<Rightarrow>
     VpsTransactionResult \<times> ('w, 'c) VpsTransactionCoordinator option" where
  "vps_transaction_stream_begin coordinator_ptr =
     (case coordinator_ptr of
        None \<Rightarrow> (VPS_TRANSACTION_INVALID_ARGUMENT, None)
      | Some coordinator \<Rightarrow>
          if \<not> tx_initialized coordinator then (VPS_TRANSACTION_INVALID_ARGUMENT, Some coordinator)
          else if tx_state coordinator = VPS_TRANSACTION_FAILED then (VPS_TRANSACTION_ABORTED, Some coordinator)
          else if tx_state coordinator \<noteq> VPS_TRANSACTION_ACTIVE
          then (VPS_TRANSACTION_INVALID_STATE, Some coordinator)
          else if tx_active_stream_count coordinator \<noteq> 0 then (VPS_TRANSACTION_BUSY, Some coordinator)
          else (VPS_TRANSACTION_OK,
                Some (vps_transaction_log (coordinator\<lparr>tx_active_stream_count := 1\<rparr>)
                        VPS_LOG_LEVEL_DEBUG ''stream'' ''acquired'')))"

definition vps_transaction_stream_end ::
    "('w, 'c) VpsTransactionCoordinator option \<Rightarrow>
     VpsTransactionResult \<times> ('w, 'c) VpsTransactionCoordinator option" where
  "vps_transaction_stream_end coordinator_ptr =
     (case coordinator_ptr of
        None \<Rightarrow> (VPS_TRANSACTION_INVALID_STATE, None)
      | Some coordinator \<Rightarrow>
          if \<not> tx_initialized coordinator \<or> tx_active_stream_count coordinator = 0
          then (VPS_TRANSACTION_INVALID_STATE, Some coordinator)
          else (VPS_TRANSACTION_OK,
                Some (vps_transaction_log (coordinator\<lparr>tx_active_stream_count := 0\<rparr>)
                        VPS_LOG_LEVEL_DEBUG ''stream'' ''released'')))"

definition vps_transaction_command_allowed ::
    "('w, 'c) VpsTransactionCoordinator option \<Rightarrow> VpsTransactionResult" where
  "vps_transaction_command_allowed coordinator_ptr =
     (case coordinator_ptr of
        None \<Rightarrow> VPS_TRANSACTION_INVALID_ARGUMENT
      | Some coordinator \<Rightarrow>
          if \<not> tx_initialized coordinator then VPS_TRANSACTION_INVALID_ARGUMENT
          else if tx_state coordinator = VPS_TRANSACTION_FAILED then VPS_TRANSACTION_ABORTED
          else if tx_state coordinator = VPS_TRANSACTION_AMBIGUOUS then VPS_TRANSACTION_AMBIGUOUS_OUTCOME
          else if tx_state coordinator \<noteq> VPS_TRANSACTION_ACTIVE then VPS_TRANSACTION_INVALID_STATE
          else if tx_active_stream_count coordinator = 0 then VPS_TRANSACTION_OK
          else VPS_TRANSACTION_BUSY)"

definition vps_transaction_mark_failed ::
    "('w, 'c) VpsTransactionCoordinator option \<Rightarrow> string option \<Rightarrow>
     VpsTransactionResult \<times> ('w, 'c) VpsTransactionCoordinator option" where
  "vps_transaction_mark_failed coordinator_ptr sqlstate_ptr =
     (case coordinator_ptr of
        None \<Rightarrow> (VPS_TRANSACTION_INVALID_STATE, None)
      | Some coordinator \<Rightarrow>
          if \<not> tx_initialized coordinator \<or>
             (tx_state coordinator \<noteq> VPS_TRANSACTION_ACTIVE \<and> tx_state coordinator \<noteq> VPS_TRANSACTION_FAILED)
          then (VPS_TRANSACTION_INVALID_STATE, Some coordinator)
          else let failed = coordinator\<lparr>tx_state := VPS_TRANSACTION_FAILED,
                     tx_last_sqlstate :=
                       (case sqlstate_ptr of
                          None \<Rightarrow> tx_last_sqlstate coordinator
                        | Some s \<Rightarrow> if length s = VPS_SQLSTATE_LENGTH then s else tx_last_sqlstate coordinator)\<rparr>
               in (VPS_TRANSACTION_OK,
                   Some (vps_transaction_log failed VPS_LOG_LEVEL_WARN ''state'' ''aborted'')))"

definition vps_transaction_find_savepoint :: "('w, 'c) VpsTransactionCoordinator \<Rightarrow> int \<Rightarrow> nat option" where
  "vps_transaction_find_savepoint coordinator level =
     find (\<lambda>index. tx_savepoints coordinator ! index = level) [0..<unat (tx_savepoint_count coordinator)]"

definition vps_transaction_savepoint ::
    "('w, 'c) VpsTransactionCoordinator option \<Rightarrow> int \<Rightarrow>
     VpsTransactionResult \<times> ('w, 'c) VpsTransactionCoordinator option" where
  "vps_transaction_savepoint coordinator_ptr level =
     (if level < 0 then (VPS_TRANSACTION_INVALID_ARGUMENT, coordinator_ptr)
      else if vps_transaction_command_allowed coordinator_ptr \<noteq> VPS_TRANSACTION_OK
      then (vps_transaction_command_allowed coordinator_ptr, coordinator_ptr)
      else let coordinator = the coordinator_ptr
           in if vps_transaction_find_savepoint coordinator level \<noteq> None
              then (VPS_TRANSACTION_OK, coordinator_ptr)
              else if tx_savepoint_count coordinator \<ge> VPS_TRANSACTION_MAX_SAVEPOINTS
              then (VPS_TRANSACTION_LIMIT_EXCEEDED, coordinator_ptr)
              else (VPS_TRANSACTION_COMMAND_REQUIRED,
                    Some (coordinator\<lparr>tx_savepoints := (tx_savepoints coordinator)
                                        [unat (tx_savepoint_count coordinator) := level],
                                      tx_savepoint_count := tx_savepoint_count coordinator + 1\<rparr>)))"

definition vps_transaction_rollback_to ::
    "('w, 'c) VpsTransactionCoordinator option \<Rightarrow> int \<Rightarrow>
     VpsTransactionResult \<times> ('w, 'c) VpsTransactionCoordinator option" where
  "vps_transaction_rollback_to coordinator_ptr level =
     (case coordinator_ptr of
        None \<Rightarrow> (VPS_TRANSACTION_INVALID_ARGUMENT, None)
      | Some coordinator \<Rightarrow>
          if \<not> tx_initialized coordinator \<or> level < 0 then (VPS_TRANSACTION_INVALID_ARGUMENT, Some coordinator)
          else if tx_active_stream_count coordinator \<noteq> 0 then (VPS_TRANSACTION_BUSY, Some coordinator)
          else if tx_state coordinator \<noteq> VPS_TRANSACTION_ACTIVE \<and> tx_state coordinator \<noteq> VPS_TRANSACTION_FAILED
          then (VPS_TRANSACTION_INVALID_STATE, Some coordinator)
          else case vps_transaction_find_savepoint coordinator level of
            None \<Rightarrow> (VPS_TRANSACTION_INVALID_STATE, Some coordinator)
          | Some found \<Rightarrow>
              (VPS_TRANSACTION_COMMAND_REQUIRED,
               Some (coordinator\<lparr>tx_savepoint_count := of_nat found + 1, tx_state := VPS_TRANSACTION_ACTIVE,
                                 tx_last_sqlstate := []\<rparr>)))"

definition vps_transaction_release ::
    "('w, 'c) VpsTransactionCoordinator option \<Rightarrow> int \<Rightarrow>
     VpsTransactionResult \<times> ('w, 'c) VpsTransactionCoordinator option" where
  "vps_transaction_release coordinator_ptr level =
     (let allowed = vps_transaction_command_allowed coordinator_ptr in
      if level < 0 then (VPS_TRANSACTION_INVALID_ARGUMENT, coordinator_ptr)
      else if allowed \<noteq> VPS_TRANSACTION_OK then (allowed, coordinator_ptr)
      else let coordinator = the coordinator_ptr
           in case vps_transaction_find_savepoint coordinator level of
                None \<Rightarrow> (VPS_TRANSACTION_OK, coordinator_ptr)
              | Some found \<Rightarrow>
                  (VPS_TRANSACTION_COMMAND_REQUIRED,
                   Some (coordinator\<lparr>tx_savepoint_count := of_nat found\<rparr>)))"

definition vps_transaction_end ::
    "('w, 'c) VpsTransactionCoordinator option \<Rightarrow> VpsTransactionEndOperation \<Rightarrow>
     VpsTransactionResult \<times> ('w, 'c) VpsTransactionCoordinator option" where
  "vps_transaction_end coordinator_ptr operation =
     (case coordinator_ptr of
        None \<Rightarrow> (VPS_TRANSACTION_INVALID_ARGUMENT, None)
      | Some coordinator \<Rightarrow>
          if \<not> tx_initialized coordinator \<or>
             (operation \<noteq> VPS_TRANSACTION_END_COMMIT \<and> operation \<noteq> VPS_TRANSACTION_END_ROLLBACK)
          then (VPS_TRANSACTION_INVALID_ARGUMENT, Some coordinator)
          else if tx_state coordinator = VPS_TRANSACTION_IDLE then (VPS_TRANSACTION_OK, Some coordinator)
          else if tx_state coordinator = VPS_TRANSACTION_AMBIGUOUS
          then (VPS_TRANSACTION_AMBIGUOUS_OUTCOME, Some coordinator)
          else if tx_active_stream_count coordinator \<noteq> 0 then (VPS_TRANSACTION_BUSY, Some coordinator)
          else if operation = VPS_TRANSACTION_END_COMMIT \<and> tx_state coordinator = VPS_TRANSACTION_FAILED
          then (VPS_TRANSACTION_ABORTED, Some coordinator)
          else if tx_state coordinator \<noteq> VPS_TRANSACTION_ACTIVE \<and>
                  \<not> (operation = VPS_TRANSACTION_END_ROLLBACK \<and> tx_state coordinator = VPS_TRANSACTION_FAILED)
          then (VPS_TRANSACTION_INVALID_STATE, Some coordinator)
          else (VPS_TRANSACTION_COMMAND_REQUIRED,
                Some (coordinator\<lparr>tx_state := VPS_TRANSACTION_ENDING, tx_ending_operation := operation\<rparr>)))"

definition vps_transaction_end_complete ::
    "('w, 'c) VpsTransactionCoordinator option \<Rightarrow> bool \<Rightarrow> bool \<Rightarrow> 'w \<Rightarrow>
     VpsTransactionResult \<times> ('w, 'c) VpsTransactionCoordinator option \<times> 'w" where
  "vps_transaction_end_complete coordinator_ptr success connection_lost w =
     (case coordinator_ptr of
        None \<Rightarrow> (VPS_TRANSACTION_INVALID_STATE, None, w)
      | Some coordinator \<Rightarrow>
          if tx_state coordinator \<noteq> VPS_TRANSACTION_ENDING
          then (VPS_TRANSACTION_INVALID_STATE, Some coordinator, w)
          else if success
          then (case vps_transaction_reset_active
                       (vps_transaction_log coordinator VPS_LOG_LEVEL_INFO
                          (if tx_ending_operation coordinator = VPS_TRANSACTION_END_COMMIT
                           then ''commit'' else ''rollback'') ''complete'') w of
                  (coordinator1, w1) \<Rightarrow> (VPS_TRANSACTION_OK, Some coordinator1, w1))
          else if connection_lost
          then (VPS_TRANSACTION_AMBIGUOUS_OUTCOME,
                Some (vps_transaction_log
                  (coordinator\<lparr>tx_state := VPS_TRANSACTION_AMBIGUOUS, tx_active_stream_count := 0\<rparr>)
                  VPS_LOG_LEVEL_ERROR ''end'' ''ambiguous''), w)
          else (VPS_TRANSACTION_ABORTED, Some (coordinator\<lparr>tx_state := VPS_TRANSACTION_FAILED\<rparr>), w))"

definition vps_transaction_status ::
    "('w, 'c) VpsTransactionCoordinator option \<Rightarrow> VpsTransactionStatus option \<Rightarrow>
     VpsTransactionResult \<times> VpsTransactionStatus option" where
  "vps_transaction_status coordinator_ptr status =
     (case coordinator_ptr of
        None \<Rightarrow> (VPS_TRANSACTION_INVALID_ARGUMENT, status)
      | Some coordinator \<Rightarrow>
          if \<not> tx_initialized coordinator \<or> status = None then (VPS_TRANSACTION_INVALID_ARGUMENT, status)
          else (VPS_TRANSACTION_OK,
                Some \<lparr>status_state = tx_state coordinator,
                      status_generation = tx_generation coordinator,
                      status_participant_count = tx_participant_count coordinator,
                      status_savepoint_count = tx_savepoint_count coordinator,
                      status_active_stream_count = tx_active_stream_count coordinator,
                      status_ambiguous = (tx_state coordinator = VPS_TRANSACTION_AMBIGUOUS),
                      status_identity_fingerprint = tx_identity_fingerprint coordinator,
                      status_last_sqlstate = tx_last_sqlstate coordinator\<rparr>))"

section \<open>Calls\<close>

datatype ('w, 'c) tx_call =
    TxBegin "('w, 'c) VpsConnectionIdentity" u64
  | TxBeginComplete bool
  | TxStreamBegin
  | TxStreamEnd
  | TxMarkFailed "string option"
  | TxSavepoint int
  | TxRollbackTo int
  | TxRelease int
  | TxEnd VpsTransactionEndOperation
  | TxEndComplete bool bool

fun tx_apply :: "('w, 'c) tx_call \<Rightarrow> ('w, 'c) VpsTransactionCoordinator \<Rightarrow> 'w \<Rightarrow>
    VpsTransactionResult \<times> ('w, 'c) VpsTransactionCoordinator option \<times> 'w" where
  "tx_apply (TxBegin identity participant) c w = vps_transaction_begin (Some c) (Some identity) participant w"
| "tx_apply (TxBeginComplete success) c w = vps_transaction_begin_complete (Some c) success w"
| "tx_apply TxStreamBegin c w = (case vps_transaction_stream_begin (Some c) of (r, c') \<Rightarrow> (r, c', w))"
| "tx_apply TxStreamEnd c w = (case vps_transaction_stream_end (Some c) of (r, c') \<Rightarrow> (r, c', w))"
| "tx_apply (TxMarkFailed s) c w = (case vps_transaction_mark_failed (Some c) s of (r, c') \<Rightarrow> (r, c', w))"
| "tx_apply (TxSavepoint l) c w = (case vps_transaction_savepoint (Some c) l of (r, c') \<Rightarrow> (r, c', w))"
| "tx_apply (TxRollbackTo l) c w = (case vps_transaction_rollback_to (Some c) l of (r, c') \<Rightarrow> (r, c', w))"
| "tx_apply (TxRelease l) c w = (case vps_transaction_release (Some c) l of (r, c') \<Rightarrow> (r, c', w))"
| "tx_apply (TxEnd operation) c w = (case vps_transaction_end (Some c) operation of (r, c') \<Rightarrow> (r, c', w))"
| "tx_apply (TxEndComplete success lost) c w = vps_transaction_end_complete (Some c) success lost w"

definition tx_step ::
    "('w, 'c) VpsTransactionCoordinator \<times> 'w \<Rightarrow> ('w, 'c) tx_call \<Rightarrow> ('w, 'c) VpsTransactionCoordinator \<times> 'w" where
  "tx_step s call = (case tx_apply call (fst s) (snd s) of (r, c, w) \<Rightarrow> (the c, w))"

section \<open>The abstract transaction\<close>

text \<open>What the coordinator promises, over lists: the phase, the members in the order they joined, the
  stack of open savepoints, whether a result stream is open, and the identity the transaction is
  pinned to (canonical bytes and the two generations).\<close>

record transaction =
  phase :: VpsTransactionState
  members :: "u64 list"
  stack :: "int list"
  streaming :: bool
  pinned :: "u8 list \<times> u64 \<times> u64"

definition identity_key :: "('w, 'c) VpsConnectionIdentity \<Rightarrow> u8 list \<times> u64 \<times> u64" where
  "identity_key i = (buffer_contents (ident_canonical i), ident_credential_generation i,
     ident_configuration_generation i)"

definition tx_abs :: "('w, 'c) VpsTransactionCoordinator \<Rightarrow> transaction" where
  "tx_abs c = \<lparr>phase = tx_state c,
     members = take (unat (tx_participant_count c)) (tx_participants c),
     stack = take (unat (tx_savepoint_count c)) (tx_savepoints c),
     streaming = (tx_active_stream_count c \<noteq> 0),
     pinned = (buffer_contents (tx_identity c), tx_credential_generation c, tx_configuration_generation c)\<rparr>"

abbreviation no_transaction :: transaction where
  "no_transaction \<equiv> \<lparr>phase = VPS_TRANSACTION_IDLE, members = [], stack = [], streaming = False, pinned = ([], 0, 0)\<rparr>"

definition running :: "transaction \<Rightarrow> bool" where
  "running t \<longleftrightarrow> phase t = VPS_TRANSACTION_ACTIVE \<or> phase t = VPS_TRANSACTION_FAILED"

definition spec_command :: "transaction \<Rightarrow> VpsTransactionResult" where
  "spec_command t =
     (case phase t of
        VPS_TRANSACTION_ACTIVE \<Rightarrow> if streaming t then VPS_TRANSACTION_BUSY else VPS_TRANSACTION_OK
      | VPS_TRANSACTION_FAILED \<Rightarrow> VPS_TRANSACTION_ABORTED
      | VPS_TRANSACTION_AMBIGUOUS \<Rightarrow> VPS_TRANSACTION_AMBIGUOUS_OUTCOME
      | _ \<Rightarrow> VPS_TRANSACTION_INVALID_STATE)"

fun spec_begin :: "u8 list \<times> u64 \<times> u64 \<Rightarrow> u64 \<Rightarrow> transaction \<Rightarrow> VpsTransactionResult \<times> transaction" where
  "spec_begin key member t =
     (if phase t = VPS_TRANSACTION_AMBIGUOUS then (VPS_TRANSACTION_AMBIGUOUS_OUTCOME, t)
      else if phase t = VPS_TRANSACTION_IDLE
      then (VPS_TRANSACTION_COMMAND_REQUIRED, t\<lparr>phase := VPS_TRANSACTION_BEGINNING, members := [member], pinned := key\<rparr>)
      else if \<not> running t then (VPS_TRANSACTION_INVALID_STATE, t)
      else if pinned t \<noteq> key then (VPS_TRANSACTION_IDENTITY_MISMATCH, t)
      else if member \<in> set (members t) then (VPS_TRANSACTION_OK, t)
      else if length (members t) \<ge> 64 then (VPS_TRANSACTION_LIMIT_EXCEEDED, t)
      else (VPS_TRANSACTION_OK, t\<lparr>members := members t @ [member]\<rparr>))"

fun spec_savepoint :: "int \<Rightarrow> transaction \<Rightarrow> VpsTransactionResult \<times> transaction" where
  "spec_savepoint l t =
     (if spec_command t \<noteq> VPS_TRANSACTION_OK then (spec_command t, t)
      else if l \<in> set (stack t) then (VPS_TRANSACTION_OK, t)
      else if length (stack t) \<ge> 64 then (VPS_TRANSACTION_LIMIT_EXCEEDED, t)
      else (VPS_TRANSACTION_COMMAND_REQUIRED, t\<lparr>stack := stack t @ [l]\<rparr>))"

fun spec_rollback_to :: "int \<Rightarrow> transaction \<Rightarrow> VpsTransactionResult \<times> transaction" where
  "spec_rollback_to l t =
     (if streaming t then (VPS_TRANSACTION_BUSY, t)
      else if \<not> running t \<or> l \<notin> set (stack t) then (VPS_TRANSACTION_INVALID_STATE, t)
      else (VPS_TRANSACTION_COMMAND_REQUIRED,
            t\<lparr>stack := takeWhile (\<lambda>x. x \<noteq> l) (stack t) @ [l], phase := VPS_TRANSACTION_ACTIVE\<rparr>))"

fun spec_release :: "int \<Rightarrow> transaction \<Rightarrow> VpsTransactionResult \<times> transaction" where
  "spec_release l t =
     (if spec_command t \<noteq> VPS_TRANSACTION_OK then (spec_command t, t)
      else if l \<notin> set (stack t) then (VPS_TRANSACTION_OK, t)
      else (VPS_TRANSACTION_COMMAND_REQUIRED, t\<lparr>stack := takeWhile (\<lambda>x. x \<noteq> l) (stack t)\<rparr>))"

fun spec_end :: "VpsTransactionEndOperation \<Rightarrow> transaction \<Rightarrow> VpsTransactionResult \<times> transaction" where
  "spec_end operation t =
     (if phase t = VPS_TRANSACTION_IDLE then (VPS_TRANSACTION_OK, t)
      else if phase t = VPS_TRANSACTION_AMBIGUOUS then (VPS_TRANSACTION_AMBIGUOUS_OUTCOME, t)
      else if streaming t then (VPS_TRANSACTION_BUSY, t)
      else if operation = VPS_TRANSACTION_END_COMMIT \<and> phase t = VPS_TRANSACTION_FAILED then (VPS_TRANSACTION_ABORTED, t)
      else if \<not> running t then (VPS_TRANSACTION_INVALID_STATE, t)
      else (VPS_TRANSACTION_COMMAND_REQUIRED, t\<lparr>phase := VPS_TRANSACTION_ENDING\<rparr>))"

fun tx_spec :: "('w, 'c) tx_call \<Rightarrow> transaction \<Rightarrow> VpsTransactionResult \<times> transaction" where
  "tx_spec (TxBegin identity member) t =
     (if \<not> ident_built identity \<or> member = 0 then (VPS_TRANSACTION_INVALID_ARGUMENT, t)
      else spec_begin (identity_key identity) member t)"
| "tx_spec (TxBeginComplete success) t =
     (if phase t \<noteq> VPS_TRANSACTION_BEGINNING then (VPS_TRANSACTION_INVALID_STATE, t)
      else if success then (VPS_TRANSACTION_OK, t\<lparr>phase := VPS_TRANSACTION_ACTIVE\<rparr>)
      else (VPS_TRANSACTION_INVALID_STATE, no_transaction))"
| "tx_spec TxStreamBegin t =
     (if phase t = VPS_TRANSACTION_FAILED then (VPS_TRANSACTION_ABORTED, t)
      else if phase t \<noteq> VPS_TRANSACTION_ACTIVE then (VPS_TRANSACTION_INVALID_STATE, t)
      else if streaming t then (VPS_TRANSACTION_BUSY, t)
      else (VPS_TRANSACTION_OK, t\<lparr>streaming := True\<rparr>))"
| "tx_spec TxStreamEnd t =
     (if streaming t then (VPS_TRANSACTION_OK, t\<lparr>streaming := False\<rparr>) else (VPS_TRANSACTION_INVALID_STATE, t))"
| "tx_spec (TxMarkFailed s) t =
     (if running t then (VPS_TRANSACTION_OK, t\<lparr>phase := VPS_TRANSACTION_FAILED\<rparr>)
      else (VPS_TRANSACTION_INVALID_STATE, t))"
| "tx_spec (TxSavepoint l) t =
     (if l < 0 then (VPS_TRANSACTION_INVALID_ARGUMENT, t) else spec_savepoint l t)"
| "tx_spec (TxRollbackTo l) t =
     (if l < 0 then (VPS_TRANSACTION_INVALID_ARGUMENT, t) else spec_rollback_to l t)"
| "tx_spec (TxRelease l) t =
     (if l < 0 then (VPS_TRANSACTION_INVALID_ARGUMENT, t) else spec_release l t)"
| "tx_spec (TxEnd operation) t =
     (if operation \<noteq> VPS_TRANSACTION_END_COMMIT \<and> operation \<noteq> VPS_TRANSACTION_END_ROLLBACK
      then (VPS_TRANSACTION_INVALID_ARGUMENT, t) else spec_end operation t)"
| "tx_spec (TxEndComplete success lost) t =
     (if phase t \<noteq> VPS_TRANSACTION_ENDING then (VPS_TRANSACTION_INVALID_STATE, t)
      else if success then (VPS_TRANSACTION_OK, no_transaction)
      else if lost then (VPS_TRANSACTION_AMBIGUOUS_OUTCOME, t\<lparr>phase := VPS_TRANSACTION_AMBIGUOUS, streaming := False\<rparr>)
      else (VPS_TRANSACTION_ABORTED, t\<lparr>phase := VPS_TRANSACTION_FAILED\<rparr>))"

text \<open>The invariant of the abstract transaction.\<close>

definition tx_spec_inv :: "transaction \<Rightarrow> bool" where
  "tx_spec_inv t \<longleftrightarrow>
     distinct (members t) \<and> 0 \<notin> set (members t) \<and> length (members t) \<le> 64 \<and>
     distinct (stack t) \<and> (\<forall>l\<in>set (stack t). 0 \<le> l) \<and> length (stack t) \<le> 64 \<and>
     (streaming t \<longrightarrow> running t) \<and>
     (phase t = VPS_TRANSACTION_IDLE \<longrightarrow> t = no_transaction) \<and>
     (phase t = VPS_TRANSACTION_BEGINNING \<longrightarrow> stack t = []) \<and>
     (phase t \<noteq> VPS_TRANSACTION_IDLE \<longrightarrow> members t \<noteq> [])"

lemma length_takeWhile_snoc: "l \<in> set xs \<Longrightarrow> length (takeWhile (\<lambda>x. x \<noteq> l) xs @ [l]) \<le> length xs"
  by (induction xs) auto

lemma distinct_takeWhile_snoc: "distinct xs \<Longrightarrow> distinct (takeWhile (\<lambda>x. x \<noteq> l) xs @ [l])"
  by (induction xs) (auto dest: set_takeWhileD)

lemma tx_spec_keeps:
  assumes "tx_spec_inv t"
  shows "tx_spec_inv (snd (tx_spec call t))"
proof (cases call)
  case (TxBegin i m)
  then show ?thesis using assms by (auto simp: tx_spec_inv_def running_def)
next
  case (TxRollbackTo l)
  then show ?thesis
    using assms length_takeWhile_snoc [of l "stack t"] distinct_takeWhile_snoc [of "stack t" l]
    by (auto simp: tx_spec_inv_def running_def dest: set_takeWhileD)
next
  case (TxRelease l)
  then show ?thesis
    using assms length_takeWhile_le [of "\<lambda>x. x \<noteq> l" "stack t"]
    by (auto simp: tx_spec_inv_def running_def dest: set_takeWhileD)
next
  case (TxSavepoint l)
  then show ?thesis using assms by (auto simp: tx_spec_inv_def running_def spec_command_def split: VpsTransactionState.splits)
qed (use assms in \<open>auto simp: tx_spec_inv_def running_def\<close>)

section \<open>The coordinator implements the abstract transaction\<close>

definition tx_wf :: "'w VpsAllocator \<Rightarrow> ('w, 'c) VpsTransactionCoordinator \<Rightarrow> bool" where
  "tx_wf A c \<longleftrightarrow>
     tx_initialized c \<and> tx_allocator c = A \<and> buf_allocator (tx_identity c) = A \<and>
     buffer_ok (tx_identity c) \<and> length (tx_participants c) = 64 \<and> length (tx_savepoints c) = 64 \<and>
     unat (tx_participant_count c) \<le> 64 \<and> unat (tx_savepoint_count c) \<le> 64 \<and> tx_spec_inv (tx_abs c)"

fun tx_call_ok :: "('w, 'c) tx_call \<Rightarrow> bool" where
  "tx_call_ok (TxBegin identity member) = buffer_ok (ident_canonical identity)"
| "tx_call_ok _ = True"

lemma tx_log_frame [simp, vps_frame]:
  "tx_abs (vps_transaction_log c level operation outcome) = tx_abs c"
  "tx_wf A (vps_transaction_log c level operation outcome) = tx_wf A c"
  "tx_identity (vps_transaction_log c level operation outcome) = tx_identity c"
  "tx_allocator (vps_transaction_log c level operation outcome) = tx_allocator c"
  by (simp_all add: vps_transaction_log_def tx_abs_def tx_wf_def)

lemma tx_identity_matches:
  assumes "buffer_ok (tx_identity c)" "buffer_ok (ident_canonical i)" "ident_built i"
  shows "vps_transaction_identity_matches c (Some i) \<longleftrightarrow> pinned (tx_abs c) = identity_key i"
proof -
  have len: "length (buffer_contents b) = unat (buf_size b)" if "buffer_ok b" for b :: "'a VpsBuffer"
    using that by (auto simp: buffer_contents_def buffer_ok_def word_le_nat_alt split: option.splits)
  have "buf_size (tx_identity c) = buf_size (ident_canonical i)"
    if "buffer_contents (tx_identity c) = buffer_contents (ident_canonical i)"
    using len [OF assms(1)] len [OF assms(2)] that by (metis word_unat_eq_iff)
  moreover have "buffer_contents (tx_identity c) = buffer_contents (ident_canonical i) \<longleftrightarrow>
      buf_size (ident_canonical i) = 0 \<or>
      take (unat (buf_size (ident_canonical i))) (the (buf_data (tx_identity c))) =
      take (unat (buf_size (ident_canonical i))) (the (buf_data (ident_canonical i)))"
    if "buf_size (tx_identity c) = buf_size (ident_canonical i)"
    using that assms(1,2) by (auto simp: buffer_contents_def buffer_ok_def word_le_nat_alt split: option.splits)
  ultimately show ?thesis
    using assms(3) by (auto simp: vps_transaction_identity_matches_def tx_abs_def identity_key_def)
qed

lemma tx_has_participant:
  "tx_wf A c \<Longrightarrow> vps_transaction_has_participant c m \<longleftrightarrow> m \<in> set (members (tx_abs c))"
  by (auto simp: vps_transaction_has_participant_def tx_wf_def tx_abs_def in_set_take_iff list_ex_upt_iff)

lemma tx_find_savepoint:
  "tx_wf A c \<Longrightarrow> vps_transaction_find_savepoint c l =
     (if l \<in> set (stack (tx_abs c)) then Some (length (takeWhile (\<lambda>x. x \<noteq> l) (stack (tx_abs c)))) else None)"
  unfolding vps_transaction_find_savepoint_def by (subst find_index) (simp_all add: tx_wf_def tx_abs_def)

lemma tx_command_allowed:
  "tx_wf A c \<Longrightarrow> vps_transaction_command_allowed (Some c) = spec_command (tx_abs c)"
  by (auto simp: vps_transaction_command_allowed_def spec_command_def tx_wf_def tx_abs_def
      split: VpsTransactionState.split)

text \<open>Cutting the savepoint array at a found index.\<close>

lemma tx_cut_savepoints:
  assumes "tx_wf A c" and "l \<in> set (stack (tx_abs c))"
  defines "k \<equiv> length (takeWhile (\<lambda>x. x \<noteq> l) (stack (tx_abs c)))"
  shows "unat (of_nat k :: size_t) = k" "unat (of_nat k + 1 :: size_t) = Suc k" "Suc k \<le> 64"
    and "take k (tx_savepoints c) = takeWhile (\<lambda>x. x \<noteq> l) (stack (tx_abs c))"
    and "take (Suc k) (tx_savepoints c) = takeWhile (\<lambda>x. x \<noteq> l) (stack (tx_abs c)) @ [l]"
proof -
  have n: "unat (tx_savepoint_count c) \<le> length (tx_savepoints c)" "unat (tx_savepoint_count c) \<le> 64"
    and s: "stack (tx_abs c) = take (unat (tx_savepoint_count c)) (tx_savepoints c)"
    using assms(1) by (auto simp: tx_wf_def tx_abs_def)
  note ti = take_index [OF n(1), of l]
  have k: "k < unat (tx_savepoint_count c)" using ti(1) assms(2) by (simp add: k_def s)
  then show "Suc k \<le> 64" using n by simp
  then have "k < 2 ^ LENGTH(64)" "Suc k < 2 ^ LENGTH(64)" by simp_all
  then show "unat (of_nat k :: size_t) = k" "unat (of_nat k + 1 :: size_t) = Suc k"
    using unat_small_nat [of k, where ?'a = 64] unat_small_nat [of "Suc k", where ?'a = 64]
    by (simp_all only: of_nat_Suc add.commute)
  show "take k (tx_savepoints c) = takeWhile (\<lambda>x. x \<noteq> l) (stack (tx_abs c))"
    "take (Suc k) (tx_savepoints c) = takeWhile (\<lambda>x. x \<noteq> l) (stack (tx_abs c)) @ [l]"
    using ti(2,3) assms(2) by (simp_all add: k_def s)
qed

text \<open>The calls that touch no memory.\<close>

lemma tx_wfI:
  assumes "tx_wf A c" and "tx_initialized c1 = tx_initialized c" "tx_allocator c1 = tx_allocator c"
    "tx_identity c1 = tx_identity c" "length (tx_participants c1) = length (tx_participants c)"
    "length (tx_savepoints c1) = length (tx_savepoints c)"
    "unat (tx_participant_count c1) \<le> 64" "unat (tx_savepoint_count c1) \<le> 64"
    and "tx_abs c1 = snd (tx_spec call (tx_abs c))"
  shows "tx_wf A c1"
  using assms tx_spec_keeps [of "tx_abs c" call] by (simp add: tx_wf_def)

definition tx_pure :: "'w VpsAllocator \<Rightarrow> ('w, 'c) tx_call \<Rightarrow> ('w, 'c) VpsTransactionCoordinator \<Rightarrow>
    VpsTransactionResult \<times> ('w, 'c) VpsTransactionCoordinator option \<Rightarrow> bool" where
  "tx_pure A call c res \<longleftrightarrow>
     (\<exists>c1. snd res = Some c1 \<and> tx_identity c1 = tx_identity c \<and> tx_wf A c1 \<and>
           (fst res, tx_abs c1) = tx_spec call (tx_abs c))"

lemma tx_pureI:
  assumes "tx_wf A c" "res = (r, Some c1)" "tx_initialized c1 = tx_initialized c"
    "tx_allocator c1 = tx_allocator c"
    "tx_identity c1 = tx_identity c" "length (tx_participants c1) = length (tx_participants c)"
    "length (tx_savepoints c1) = length (tx_savepoints c)"
    "unat (tx_participant_count c1) \<le> 64" "unat (tx_savepoint_count c1) \<le> 64"
    "tx_spec call (tx_abs c) = (r, tx_abs c1)"
  shows "tx_pure A call c res"
  using assms tx_wfI [OF assms(1,3-9), of call] by (simp add: tx_pure_def)

lemma tx_pure_same: "tx_wf A c \<Longrightarrow> tx_spec call (tx_abs c) = (r, tx_abs c) \<Longrightarrow> tx_pure A call c (r, Some c)"
  by (simp add: tx_pure_def)

lemma tx_stream_begin_pure: "tx_wf A c \<Longrightarrow> tx_pure A TxStreamBegin c (vps_transaction_stream_begin (Some c))"
  by (auto simp: vps_transaction_stream_begin_def tx_wf_def tx_abs_def vps_transaction_log_def
      intro!: tx_pureI tx_pure_same)

lemma tx_stream_end_pure: "tx_wf A c \<Longrightarrow> tx_pure A TxStreamEnd c (vps_transaction_stream_end (Some c))"
  by (auto simp: vps_transaction_stream_end_def tx_wf_def tx_abs_def vps_transaction_log_def
      intro!: tx_pureI tx_pure_same)

lemma tx_mark_failed_pure: "tx_wf A c \<Longrightarrow> tx_pure A (TxMarkFailed s) c (vps_transaction_mark_failed (Some c) s)"
  by (auto simp: vps_transaction_mark_failed_def tx_wf_def tx_abs_def vps_transaction_log_def running_def Let_def
      intro!: tx_pureI tx_pure_same)

lemma tx_end_pure: "tx_wf A c \<Longrightarrow> tx_pure A (TxEnd operation) c (vps_transaction_end (Some c) operation)"
  by (auto simp: vps_transaction_end_def tx_wf_def tx_abs_def running_def
      intro!: tx_pureI tx_pure_same)

lemma tx_savepoint_pure:
  assumes "tx_wf A c"
  shows "tx_pure A (TxSavepoint l) c (vps_transaction_savepoint (Some c) l)"
proof (cases "l < 0 \<or> spec_command (tx_abs c) \<noteq> VPS_TRANSACTION_OK \<or> l \<in> set (stack (tx_abs c))")
  case True
  then show ?thesis
    using assms tx_command_allowed [OF assms] tx_find_savepoint [OF assms, of l]
    by (auto simp: vps_transaction_savepoint_def intro!: tx_pure_same)
next
  case False
  let ?n = "unat (tx_savepoint_count c)"
  have n: "?n \<le> 64" "length (tx_savepoints c) = 64" "length (stack (tx_abs c)) = ?n"
      "unat (tx_participant_count c) \<le> 64"
    using assms by (auto simp: tx_wf_def tx_abs_def)
  show ?thesis
  proof (cases "tx_savepoint_count c \<ge> 64")
    case True
    then show ?thesis
      using assms False n tx_command_allowed [OF assms] tx_find_savepoint [OF assms, of l]
      by (auto simp: vps_transaction_savepoint_def word_le_nat_alt intro!: tx_pure_same)
  next
    case small: False
    then have lt: "?n < 64" by (simp add: word_le_nat_alt)
    then have suc: "unat (tx_savepoint_count c + 1) = Suc ?n" by (simp add: unat_word_ariths)
    have abs: "tx_abs (c\<lparr>tx_savepoints := (tx_savepoints c)[?n := l], tx_savepoint_count := tx_savepoint_count c + 1\<rparr>)
        = (tx_abs c)\<lparr>stack := stack (tx_abs c) @ [l]\<rparr>"
      using lt n(2) by (simp add: tx_abs_def suc take_Suc_update)
    let ?c1 = "c\<lparr>tx_savepoints := (tx_savepoints c)[?n := l], tx_savepoint_count := tx_savepoint_count c + 1\<rparr>"
    have run: "vps_transaction_savepoint (Some c) l = (VPS_TRANSACTION_COMMAND_REQUIRED, Some ?c1)"
      using False small tx_command_allowed [OF assms] tx_find_savepoint [OF assms, of l]
      by (simp add: vps_transaction_savepoint_def)
    have spec: "tx_spec (TxSavepoint l) (tx_abs c) = (VPS_TRANSACTION_COMMAND_REQUIRED, tx_abs ?c1)"
      using False n(3) lt unfolding abs by simp
    show ?thesis
      by (rule tx_pureI [OF assms run _ _ _ _ _ _ _ spec]) (use n lt suc in simp_all)
  qed
qed

lemma tx_rollback_to_pure:
  assumes "tx_wf A c"
  shows "tx_pure A (TxRollbackTo l) c (vps_transaction_rollback_to (Some c) l)"
proof (cases "0 \<le> l \<and> \<not> streaming (tx_abs c) \<and> running (tx_abs c) \<and> l \<in> set (stack (tx_abs c))")
  case False
  have v: "streaming (tx_abs c) \<longleftrightarrow> tx_active_stream_count c \<noteq> 0"
      "running (tx_abs c) \<longleftrightarrow> tx_state c = VPS_TRANSACTION_ACTIVE \<or> tx_state c = VPS_TRANSACTION_FAILED"
      "tx_initialized c"
    using assms by (simp_all add: tx_abs_def running_def tx_wf_def)
  let ?r = "if l < 0 then VPS_TRANSACTION_INVALID_ARGUMENT else if streaming (tx_abs c) then VPS_TRANSACTION_BUSY
    else VPS_TRANSACTION_INVALID_STATE"
  have "vps_transaction_rollback_to (Some c) l = (?r, Some c)"
  proof (cases "l < 0 \<or> streaming (tx_abs c) \<or> \<not> running (tx_abs c)")
    case True
    then show ?thesis using v by (auto simp: vps_transaction_rollback_to_def)
  next
    case ok: False
    then show ?thesis
      using False v tx_find_savepoint [OF assms, of l] by (auto simp: vps_transaction_rollback_to_def)
  qed
  moreover have "tx_spec (TxRollbackTo l) (tx_abs c) = (?r, tx_abs c)"
    using False by auto
  ultimately show ?thesis using tx_pure_same [OF assms] by simp
next
  case True
  note cut = tx_cut_savepoints [OF assms, of l]
  let ?k = "length (takeWhile (\<lambda>x. x \<noteq> l) (stack (tx_abs c)))"
  let ?c1 = "c\<lparr>tx_savepoint_count := of_nat ?k + 1, tx_state := VPS_TRANSACTION_ACTIVE, tx_last_sqlstate := []\<rparr>"
  have "vps_transaction_rollback_to (Some c) l = (VPS_TRANSACTION_COMMAND_REQUIRED, Some ?c1)"
    using True assms tx_find_savepoint [OF assms, of l]
    by (auto simp: vps_transaction_rollback_to_def tx_wf_def tx_abs_def running_def)
  moreover have "tx_abs ?c1 = (tx_abs c)\<lparr>stack := takeWhile (\<lambda>x. x \<noteq> l) (stack (tx_abs c)) @ [l],
      phase := VPS_TRANSACTION_ACTIVE\<rparr>"
    using cut(2,5) True by (simp add: tx_abs_def)
  ultimately show ?thesis
    using True assms cut(2,3) by (intro tx_pureI [where c = c and ?c1.0 = ?c1]) (simp_all add: tx_wf_def)
qed

lemma tx_release_pure:
  assumes "tx_wf A c"
  shows "tx_pure A (TxRelease l) c (vps_transaction_release (Some c) l)"
proof (cases "0 \<le> l \<and> spec_command (tx_abs c) = VPS_TRANSACTION_OK \<and> l \<in> set (stack (tx_abs c))")
  case False
  then show ?thesis
    using assms tx_find_savepoint [OF assms, of l] tx_command_allowed [OF assms]
    by (auto simp: vps_transaction_release_def Let_def intro!: tx_pure_same)
next
  case True
  note cut = tx_cut_savepoints [OF assms, of l]
  let ?k = "length (takeWhile (\<lambda>x. x \<noteq> l) (stack (tx_abs c)))"
  let ?c1 = "c\<lparr>tx_savepoint_count := of_nat ?k\<rparr>"
  have "vps_transaction_release (Some c) l = (VPS_TRANSACTION_COMMAND_REQUIRED, Some ?c1)"
    using True tx_find_savepoint [OF assms, of l] tx_command_allowed [OF assms]
    by (simp add: vps_transaction_release_def)
  moreover have "tx_abs ?c1 = (tx_abs c)\<lparr>stack := takeWhile (\<lambda>x. x \<noteq> l) (stack (tx_abs c))\<rparr>"
    using cut(1,4) True by (simp add: tx_abs_def)
  ultimately show ?thesis
    using True assms cut(1,3) by (intro tx_pureI [where c = c and ?c1.0 = ?c1]) (simp_all add: tx_wf_def)
qed

text \<open>The calls that allocate or free.\<close>

context allocator_contract
begin

definition tx_good :: "('w, 'c) VpsTransactionCoordinator \<times> 'w \<Rightarrow> bool" where
  "tx_good s \<longleftrightarrow> tx_wf A (fst s) \<and> inv (snd s) \<and> buffer_blocks (tx_identity (fst s)) \<subseteq># live (snd s)"

definition tx_refined ::
    "('w, 'c) tx_call \<Rightarrow> ('w, 'c) VpsTransactionCoordinator \<Rightarrow> 'w \<Rightarrow>
     VpsTransactionResult \<times> ('w, 'c) VpsTransactionCoordinator option \<times> 'w \<Rightarrow> bool" where
  "tx_refined call c w res \<longleftrightarrow>
     (case res of (r, c', w') \<Rightarrow>
        \<exists>c1. c' = Some c1 \<and> tx_wf A c1 \<and> inv w' \<and>
          live w' = live w - buffer_blocks (tx_identity c) + buffer_blocks (tx_identity c1) \<and>
          ((r, tx_abs c1) = tx_spec call (tx_abs c) \<or>
           (\<exists>i m. call = TxBegin i m) \<and> r = VPS_TRANSACTION_OUT_OF_MEMORY \<and> c1 = c))"

lemma tx_pure_refined:
  assumes "tx_pure A call c res" and "tx_good (c, w)"
  shows "tx_refined call c w (fst res, snd res, w)"
  using assms by (auto simp: tx_pure_def tx_good_def tx_refined_def)

lemma tx_pure_refined3:
  assumes "tx_pure A call c (fst res, fst (snd res))" and "snd (snd res) = w" and "tx_good (c, w)"
  shows "tx_refined call c w res"
  using tx_pure_refined [OF assms(1,3)] assms(2) by (cases res) simp

lemma tx_refined_blocks:
  assumes "tx_refined call c w (r, c', w')"
  obtains c1 where "c' = Some c1" "tx_wf A c1" "inv w'" "buffer_blocks (tx_identity c1) \<subseteq># live w'"
proof -
  obtain c1 where "c' = Some c1" "tx_wf A c1" "inv w'"
      "live w' = live w - buffer_blocks (tx_identity c) + buffer_blocks (tx_identity c1)"
    using assms unfolding tx_refined_def by auto
  then show thesis using that mset_subset_eq_add_right by metis
qed

lemma tx_refined_log:
  "tx_refined call c w (r, Some c1, w') \<Longrightarrow> r \<noteq> VPS_TRANSACTION_OUT_OF_MEMORY \<Longrightarrow>
     tx_refined call c w (r, Some (vps_transaction_log c1 level operation outcome), w')"
  by (auto simp: tx_refined_def)

lemma tx_reset_active:
  assumes "tx_good (c, w)" and "vps_transaction_reset_active c w = (c1, w1)"
  shows "tx_wf A c1 \<and> inv w1 \<and> tx_abs c1 = no_transaction \<and> buffer_blocks (tx_identity c1) = {#} \<and>
    live w1 = live w - buffer_blocks (tx_identity c)"
proof -
  obtain b1 where reset: "vps_buffer_reset (tx_identity c) w = (b1, w1)"
    using assms(2) by (auto simp: vps_transaction_reset_active_def split: prod.splits)
  have g: "tx_wf A c" "inv w" using assms(1) by (simp_all add: tx_good_def)
  then have a: "buf_allocator (tx_identity c) = A" "tx_allocator c = A" by (simp_all add: tx_wf_def)
  have c1: "c1 = c\<lparr>tx_identity := \<lparr>buf_allocator = A, buf_data = None, buf_size = 0, buf_capacity = 0, buf_limit = 65536\<rparr>,
      tx_credential_generation := 0, tx_configuration_generation := 0,
      tx_participant_count := 0, tx_savepoint_count := 0, tx_active_stream_count := 0,
      tx_ending_operation := VPS_TRANSACTION_END_OUT_OF_RANGE 0, tx_identity_fingerprint := [],
      tx_last_sqlstate := [], tx_state := VPS_TRANSACTION_IDLE\<rparr>"
    using assms(2) a valid by (simp add: vps_transaction_reset_active_def reset vps_buffer_init_def)
  have "tx_abs c1 = no_transaction"
    by (simp add: c1 tx_abs_def buffer_contents_def)
  moreover have "tx_wf A c1"
    using g(1) by (simp add: c1 tx_wf_def buffer_ok_def tx_spec_inv_def tx_abs_def buffer_contents_def)
  moreover have "buffer_blocks (tx_identity c1) = {#}" by (simp add: c1 buffer_blocks_def)
  ultimately show ?thesis
    using buffer_reset [OF g(2) a(1) reset] by simp
qed

lemma tx_begin_complete_refined:
  assumes "tx_good (c, w)"
  shows "tx_refined (TxBeginComplete success) c w (vps_transaction_begin_complete (Some c) success w)"
proof (cases "tx_state c = VPS_TRANSACTION_BEGINNING \<and> \<not> success")
  case True
  obtain c1 w1 where r: "vps_transaction_reset_active c w = (c1, w1)" by fastforce
  then have "vps_transaction_begin_complete (Some c) success w = (VPS_TRANSACTION_INVALID_STATE, Some c1, w1)"
    using True by (simp add: vps_transaction_begin_complete_def)
  then show ?thesis
    using tx_reset_active [OF assms r] True by (simp add: tx_refined_def tx_abs_def [of c])
next
  case False
  have "tx_pure A (TxBeginComplete success) c
      (fst (vps_transaction_begin_complete (Some c) success w), fst (snd (vps_transaction_begin_complete (Some c) success w)))"
    using False assms
    by (auto simp: vps_transaction_begin_complete_def tx_good_def tx_wf_def tx_abs_def vps_transaction_log_def
        intro!: tx_pureI tx_pure_same)
  moreover have "snd (snd (vps_transaction_begin_complete (Some c) success w)) = w"
    using False by (auto simp: vps_transaction_begin_complete_def)
  ultimately show ?thesis using assms by (rule tx_pure_refined3)
qed

lemma tx_end_complete_refined:
  assumes "tx_good (c, w)"
  shows "tx_refined (TxEndComplete success lost) c w (vps_transaction_end_complete (Some c) success lost w)"
proof (cases "tx_state c = VPS_TRANSACTION_ENDING \<and> success")
  case True
  let ?c = "vps_transaction_log c VPS_LOG_LEVEL_INFO
    (if tx_ending_operation c = VPS_TRANSACTION_END_COMMIT then ''commit'' else ''rollback'') ''complete''"
  obtain c1 w1 where r: "vps_transaction_reset_active ?c w = (c1, w1)" by fastforce
  then have "vps_transaction_end_complete (Some c) success lost w = (VPS_TRANSACTION_OK, Some c1, w1)"
    using True by (simp add: vps_transaction_end_complete_def)
  moreover have "tx_good (?c, w)" using assms by (simp add: tx_good_def)
  ultimately show ?thesis
    using tx_reset_active [OF _ r] True by (simp add: tx_refined_def tx_abs_def [of c])
next
  case False
  have "tx_pure A (TxEndComplete success lost) c
      (fst (vps_transaction_end_complete (Some c) success lost w), fst (snd (vps_transaction_end_complete (Some c) success lost w)))"
    using False assms
    by (auto simp: vps_transaction_end_complete_def tx_good_def tx_wf_def tx_abs_def vps_transaction_log_def
        intro!: tx_pureI tx_pure_same)
  moreover have "snd (snd (vps_transaction_end_complete (Some c) success lost w)) = w"
    using False by (auto simp: vps_transaction_end_complete_def)
  ultimately show ?thesis using assms by (rule tx_pure_refined3)
qed

lemma tx_begin_idle:
  assumes g: "tx_good (c, w)" and i: "buffer_ok (ident_canonical i)" "ident_built i" "m \<noteq> 0"
    and idle: "tx_state c = VPS_TRANSACTION_IDLE"
  shows "tx_refined (TxBegin i m) c w (vps_transaction_begin (Some c) (Some i) m w)"
proof -
  let ?src = "buf_data (ident_canonical i)" and ?n = "buf_size (ident_canonical i)"
  obtain r b w1 where ap: "vps_buffer_append (tx_identity c) ?src ?n w = (r, b, w1)" by (metis prod_cases3)
  have wf: "tx_wf A c" "inv w" "buf_allocator (tx_identity c) = A" "buffer_ok (tx_identity c)"
      "buffer_blocks (tx_identity c) \<subseteq># live w" "tx_abs c = no_transaction"
    using g idle by (auto simp: tx_good_def tx_wf_def tx_spec_inv_def tx_abs_def)
  have empty: "buffer_contents (tx_identity c) = []"
    using wf(6) by (simp add: tx_abs_def)
  have res: "inv w1 \<and> buffer_ok b \<and> buf_allocator b = A \<and>
      live w1 = live w - buffer_blocks (tx_identity c) + buffer_blocks b \<and>
      (if r = VPS_MEMORY_OK then buffer_contents b = buffer_contents (ident_canonical i) else b = tx_identity c)"
  proof (cases ?src)
    case None
    then have z: "?n = 0" "buffer_contents (ident_canonical i) = []"
      using i(1) by (auto simp: buffer_ok_def buffer_contents_def)
    have "vps_buffer_append (tx_identity c) ?src ?n w = vps_buffer_append (tx_identity c) (Some []) 0 w"
      using None z by (simp add: vps_buffer_append_def vps_size_add_def split: prod.split)
    from buffer_append [OF wf(2-5), of "[]" 0 r b w1] ap this z empty show ?thesis
      by (auto split: if_splits)
  next
    case (Some src)
    then have n: "unat ?n \<le> length src" "buffer_contents (ident_canonical i) = take (unat ?n) src"
      using i(1) by (auto simp: buffer_ok_def buffer_contents_def word_le_nat_alt)
    from buffer_append [OF wf(2-5) ap [unfolded Some] n(1)] n(2) empty show ?thesis
      by (auto split: if_splits)
  qed
  show ?thesis
  proof (cases "r = VPS_MEMORY_OK")
    case False
    then have "vps_transaction_begin (Some c) (Some i) m w = (VPS_TRANSACTION_OUT_OF_MEMORY, Some c, w1)"
      using res ap i idle wf(1) by (simp add: vps_transaction_begin_def tx_wf_def)
    then show ?thesis using res False wf(1) by (simp add: tx_refined_def)
  next
    case True
    let ?c1 = "c\<lparr>tx_identity := b, tx_credential_generation := ident_credential_generation i,
        tx_configuration_generation := ident_configuration_generation i,
        tx_identity_fingerprint := ident_fingerprint i,
        tx_participants := (tx_participants c)[0 := m], tx_participant_count := 1,
        tx_generation := tx_generation c + 1, tx_state := VPS_TRANSACTION_BEGINNING\<rparr>"
    have b: "vps_transaction_begin (Some c) (Some i) m w = (VPS_TRANSACTION_COMMAND_REQUIRED,
        Some (vps_transaction_log ?c1 VPS_LOG_LEVEL_DEBUG ''begin'' ''required''), w1)"
      using True ap i idle wf(1) by (simp add: vps_transaction_begin_def tx_wf_def)
    have len: "length (tx_participants c) = 64" using wf(1) by (simp add: tx_wf_def)
    have "take 1 ((tx_participants c)[0 := m]) = [m]"
      using take_Suc_update [of 0 "tx_participants c" m] len by simp
    then have abs: "tx_abs ?c1 = (tx_abs c)\<lparr>phase := VPS_TRANSACTION_BEGINNING, members := [m], pinned := identity_key i\<rparr>"
      using True res by (simp add: tx_abs_def identity_key_def)
    then have spec: "tx_spec (TxBegin i m) (tx_abs c) = (VPS_TRANSACTION_COMMAND_REQUIRED, tx_abs ?c1)"
      using i wf(6) by simp
    have "tx_wf A ?c1"
      using wf(1) res spec tx_spec_keeps [of "tx_abs c" "TxBegin i m"] by (simp add: tx_wf_def)
    then show ?thesis using b res spec True by (simp add: tx_refined_def)
  qed
qed

lemma tx_begin_refined:
  assumes g: "tx_good (c, w)" and i: "buffer_ok (ident_canonical i)"
  shows "tx_refined (TxBegin i m) c w (vps_transaction_begin (Some c) (Some i) m w)"
proof (cases "ident_built i \<and> m \<noteq> 0 \<and> tx_state c = VPS_TRANSACTION_IDLE")
  case True
  then show ?thesis using tx_begin_idle [OF g i] by simp
next
  case False
  have wf: "tx_wf A c" using g by (simp add: tx_good_def)
  let ?n = "unat (tx_participant_count c)"
  have n: "?n \<le> 64" "length (tx_participants c) = 64" "length (members (tx_abs c)) = ?n"
      "unat (tx_savepoint_count c) \<le> 64" "tx_initialized c" "buffer_ok (tx_identity c)"
    using wf by (auto simp: tx_wf_def tx_abs_def)
  have ph: "phase (tx_abs c) = tx_state c" "running (tx_abs c) \<longleftrightarrow> tx_state c = VPS_TRANSACTION_ACTIVE \<or> tx_state c = VPS_TRANSACTION_FAILED"
    by (simp_all add: tx_abs_def running_def)
  show ?thesis
  proof (cases "ident_built i \<and> m \<noteq> 0 \<and> running (tx_abs c) \<and> pinned (tx_abs c) = identity_key i \<and>
      m \<notin> set (members (tx_abs c)) \<and> ?n < 64")
    case join: True
    let ?c1 = "c\<lparr>tx_participants := (tx_participants c)[?n := m], tx_participant_count := tx_participant_count c + 1\<rparr>"
    let ?res = "(VPS_TRANSACTION_OK, Some (vps_transaction_log ?c1 VPS_LOG_LEVEL_DEBUG ''join'' ''ok''), w)"
    have suc: "unat (tx_participant_count c + 1) = Suc ?n" using join by (simp add: unat_word_ariths)
    have "vps_transaction_begin (Some c) (Some i) m w = ?res"
      using join n ph tx_identity_matches [OF n(6) i] tx_has_participant [OF wf, of m]
      by (auto simp: vps_transaction_begin_def word_le_nat_alt)
    moreover have "tx_abs ?c1 = (tx_abs c)\<lparr>members := members (tx_abs c) @ [m]\<rparr>"
      using join n by (simp add: tx_abs_def suc take_Suc_update)
    then have "tx_spec (TxBegin i m) (tx_abs c) = (VPS_TRANSACTION_OK, tx_abs ?c1)"
      using join ph n by auto
    then have p: "tx_pure A (TxBegin i m) c (VPS_TRANSACTION_OK, Some ?c1)"
      using wf n suc join by (intro tx_pureI [where c = c and ?c1.0 = ?c1]) simp_all
    have "tx_refined (TxBegin i m) c w ?res"
      using tx_pure_refined [OF p g] unfolding fst_conv snd_conv by (intro tx_refined_log) simp_all
    ultimately show ?thesis by simp
  next
    case stay: False
    let ?log = "vps_transaction_log c VPS_LOG_LEVEL_WARN ''join'' ''identity_mismatch''"
    consider (argument) "\<not> (ident_built i \<and> m \<noteq> 0)"
      | (state) "ident_built i" "m \<noteq> 0" "\<not> running (tx_abs c)"
      | (mismatch) "ident_built i" "m \<noteq> 0" "running (tx_abs c)" "pinned (tx_abs c) \<noteq> identity_key i"
      | (member) "ident_built i" "m \<noteq> 0" "running (tx_abs c)" "pinned (tx_abs c) = identity_key i"
          "m \<in> set (members (tx_abs c))"
      | (full) "ident_built i" "m \<noteq> 0" "running (tx_abs c)" "pinned (tx_abs c) = identity_key i"
          "m \<notin> set (members (tx_abs c))" "64 \<le> ?n"
      using stay by linarith
    then show ?thesis
    proof cases
      case argument
      then have "vps_transaction_begin (Some c) (Some i) m w = (VPS_TRANSACTION_INVALID_ARGUMENT, Some c, w)"
        using n(5) by (auto simp: vps_transaction_begin_def)
      then show ?thesis using argument g by (simp add: tx_refined_def tx_good_def)
    next
      case state
      then obtain r where "vps_transaction_begin (Some c) (Some i) m w = (r, Some c, w)"
          "tx_spec (TxBegin i m) (tx_abs c) = (r, tx_abs c)"
        using n(5) False ph by (cases "tx_state c") (auto simp: vps_transaction_begin_def)
      then show ?thesis using g by (simp add: tx_refined_def tx_good_def)
    next
      case mismatch
      then have "vps_transaction_begin (Some c) (Some i) m w = (VPS_TRANSACTION_IDENTITY_MISMATCH, Some ?log, w)"
        using n(5) False ph tx_identity_matches [OF n(6) i] by (auto simp: vps_transaction_begin_def)
      then show ?thesis using mismatch ph g by (auto simp: tx_refined_def tx_good_def)
    next
      case member
      then have "vps_transaction_begin (Some c) (Some i) m w = (VPS_TRANSACTION_OK, Some c, w)"
        using n(5) False ph tx_identity_matches [OF n(6) i] tx_has_participant [OF wf, of m]
        by (auto simp: vps_transaction_begin_def)
      then show ?thesis using member ph g by (auto simp: tx_refined_def tx_good_def)
    next
      case full
      then have "vps_transaction_begin (Some c) (Some i) m w = (VPS_TRANSACTION_LIMIT_EXCEEDED, Some c, w)"
        using n(5) False ph tx_identity_matches [OF n(6) i] tx_has_participant [OF wf, of m]
        by (auto simp: vps_transaction_begin_def word_le_nat_alt)
      then show ?thesis using full ph g n by (auto simp: tx_refined_def tx_good_def)
    qed
  qed
qed

lemma tx_apply_refined:
  assumes g: "tx_good (c, w)" and ok: "tx_call_ok call"
  shows "tx_refined call c w (tx_apply call c w)"
proof -
  have wf: "tx_wf A c" using g by (simp add: tx_good_def)
  note pure = tx_pure_refined [OF tx_stream_begin_pure [OF wf] g] tx_pure_refined [OF tx_stream_end_pure [OF wf] g]
    tx_pure_refined [OF tx_mark_failed_pure [OF wf] g] tx_pure_refined [OF tx_savepoint_pure [OF wf] g]
    tx_pure_refined [OF tx_rollback_to_pure [OF wf] g] tx_pure_refined [OF tx_release_pure [OF wf] g]
    tx_pure_refined [OF tx_end_pure [OF wf] g]
  show ?thesis
    by (cases call)
      (use ok pure tx_begin_refined [OF g] tx_begin_complete_refined [OF g] tx_end_complete_refined [OF g]
        in \<open>simp_all add: case_prod_beta\<close>)
qed

lemma tx_step_good:
  assumes "tx_good s" and "tx_call_ok call"
  shows "tx_good (tx_step s call)"
proof -
  obtain r c' w1 where ap: "tx_apply call (fst s) (snd s) = (r, c', w1)" by (metis prod_cases3)
  have "tx_refined call (fst s) (snd s) (r, c', w1)"
    using tx_apply_refined [of "fst s" "snd s" call] assms ap by simp
  then show ?thesis
    by (rule tx_refined_blocks) (simp add: tx_good_def tx_step_def ap)
qed

end

section \<open>Runs of the coordinator\<close>

interpretation tx: guarded_machine "tx_step :: (heap, 'c) VpsTransactionCoordinator \<times> heap \<Rightarrow> _"
  tx_call_ok system.tx_good
  by unfold_locales (rule system.tx_step_good)

lemma tx_init_good:
  assumes "vps_transaction_init slot (Some system_allocator) logger = (VPS_TRANSACTION_OK, Some c0)"
  shows "system.tx_good (c0, h) \<and> tx_abs c0 = no_transaction"
proof -
  have "c0 = zero_coordinator\<lparr>tx_allocator := system_allocator, tx_logger := logger,
      tx_identity := \<lparr>buf_allocator = system_allocator, buf_data = None, buf_size = 0, buf_capacity = 0, buf_limit = 65536\<rparr>,
      tx_state := VPS_TRANSACTION_IDLE, tx_initialized := True\<rparr>"
    using assms system.valid by (auto simp: vps_transaction_init_def vps_buffer_init_def Let_def split: if_splits)
  then show ?thesis
    by (simp add: system.tx_good_def tx_wf_def tx_abs_def zero_coordinator_def buffer_ok_def tx_spec_inv_def
        buffer_contents_def buffer_blocks_def)
qed

lemma tx_run_good:
  assumes "vps_transaction_init slot (Some system_allocator) logger = (VPS_TRANSACTION_OK, Some c0)"
    and "list_all tx_call_ok calls"
  shows "system.tx_good (foldl tx_step (c0, h) calls)"
  using tx.run_inv [OF _ assms(2)] tx_init_good [OF assms(1)] by blast

lemma tx_step_spec:
  assumes "system.tx_good (c, h)" "tx_call_ok call" "tx_apply call c h = (r, c', h')"
  obtains c1 where "c' = Some c1" "tx_step (c, h) call = (c1, h')"
    "(r, tx_abs c1) = tx_spec call (tx_abs c) \<or> (\<exists>i m. call = TxBegin i m) \<and> r = VPS_TRANSACTION_OUT_OF_MEMORY \<and> c1 = c"
    "heap_live h' = heap_live h - buffer_blocks (tx_identity c) + buffer_blocks (tx_identity c1)"
  using system.tx_apply_refined [OF assms(1,2)] assms(3)
  by (auto simp: system.tx_refined_def tx_step_def)

lemma spec_ambiguous:
  "phase t = VPS_TRANSACTION_AMBIGUOUS \<Longrightarrow> tx_spec_inv t \<Longrightarrow>
     phase (snd (tx_spec call t)) = VPS_TRANSACTION_AMBIGUOUS \<and>
     fst (tx_spec call t) \<noteq> VPS_TRANSACTION_OK \<and> fst (tx_spec call t) \<noteq> VPS_TRANSACTION_COMMAND_REQUIRED"
  by (cases call) (auto simp: running_def spec_command_def tx_spec_inv_def)

lemma spec_pinned:
  "phase t \<noteq> VPS_TRANSACTION_IDLE \<Longrightarrow> phase (snd (tx_spec call t)) \<noteq> VPS_TRANSACTION_IDLE \<Longrightarrow>
     pinned (snd (tx_spec call t)) = pinned t"
  by (cases call) (auto simp: running_def)

lemma spec_join:
  "tx_spec (TxBegin i m) t = (VPS_TRANSACTION_OK, t') \<Longrightarrow> pinned t = identity_key i"
  by (auto split: if_splits)

definition tx_lost :: "(heap, 'c) VpsTransactionCoordinator \<times> heap \<Rightarrow> bool" where
  "tx_lost s \<longleftrightarrow> system.tx_good s \<and> tx_state (fst s) = VPS_TRANSACTION_AMBIGUOUS"

lemma tx_abs_phase: "phase (tx_abs c) = tx_state c"
  by (simp add: tx_abs_def)

lemma tx_good_inv: "system.tx_good (c, h) \<Longrightarrow> tx_spec_inv (tx_abs c)"
  by (simp add: system.tx_good_def tx_wf_def)

lemma tx_lost_call:
  assumes "tx_lost (c, h)" "tx_call_ok call" "tx_apply call c h = (r, c', h')"
  shows "tx_lost (tx_step (c, h) call) \<and> r \<noteq> VPS_TRANSACTION_OK \<and> r \<noteq> VPS_TRANSACTION_COMMAND_REQUIRED"
proof -
  have g: "system.tx_good (c, h)" and a: "phase (tx_abs c) = VPS_TRANSACTION_AMBIGUOUS"
    using assms(1) by (simp_all add: tx_lost_def tx_abs_phase)
  obtain c1 where c1: "tx_step (c, h) call = (c1, h')"
    "(r, tx_abs c1) = tx_spec call (tx_abs c) \<or> (\<exists>i m. call = TxBegin i m) \<and> r = VPS_TRANSACTION_OUT_OF_MEMORY \<and> c1 = c"
    by (rule tx_step_spec [OF g assms(2,3)])
  have "phase (tx_abs c1) = VPS_TRANSACTION_AMBIGUOUS \<and> r \<noteq> VPS_TRANSACTION_OK \<and> r \<noteq> VPS_TRANSACTION_COMMAND_REQUIRED"
    using c1(2) spec_ambiguous [OF a tx_good_inv [OF g], of call] a
    by (metis VpsTransactionResult.distinct(15,31) fst_conv snd_conv)
  then show ?thesis
    using tx.step_inv [OF g assms(2)] c1(1) by (simp add: tx_lost_def tx_abs_phase)
qed

interpretation lost: guarded_machine "tx_step :: (heap, 'c) VpsTransactionCoordinator \<times> heap \<Rightarrow> _"
  tx_call_ok tx_lost
proof
  fix s :: "(heap, 'c) VpsTransactionCoordinator \<times> heap" and call :: "(heap, 'c) tx_call"
  assume "tx_lost s" "tx_call_ok call"
  moreover obtain r c' h' where "tx_apply call (fst s) (snd s) = (r, c', h')" by (rule prod_cases3)
  ultimately show "tx_lost (tx_step s call)"
    using tx_lost_call [of "fst s" "snd s" call r c' h'] by simp
qed

text \<open>While the transaction does not end, the identity it is pinned to does not change.\<close>

lemma tx_run_pinned:
  assumes "system.tx_good s" and "list_all tx_call_ok calls"
    and "\<forall>n\<le>length calls. tx_state (fst (foldl tx_step s (take n calls))) \<noteq> VPS_TRANSACTION_IDLE"
  shows "pinned (tx_abs (fst (foldl tx_step s calls))) = pinned (tx_abs (fst s))"
  using assms
proof (induction calls arbitrary: s)
  case (Cons call calls)
  obtain r c' h' where ap: "tx_apply call (fst s) (snd s) = (r, c', h')" by (rule prod_cases3)
  have g: "system.tx_good (fst s, snd s)" "tx_call_ok call" using Cons.prems by simp_all
  obtain c1 where c1: "tx_step (fst s, snd s) call = (c1, h')"
    "(r, tx_abs c1) = tx_spec call (tx_abs (fst s)) \<or>
     (\<exists>i m. call = TxBegin i m) \<and> r = VPS_TRANSACTION_OUT_OF_MEMORY \<and> c1 = fst s"
    by (rule tx_step_spec [OF g ap])
  have i: "tx_state (fst s) \<noteq> VPS_TRANSACTION_IDLE" "tx_state c1 \<noteq> VPS_TRANSACTION_IDLE"
    using Cons.prems(3) [rule_format, of 0] Cons.prems(3) [rule_format, of 1] c1(1) by simp_all
  have "tx_abs c1 = snd (tx_spec call (tx_abs (fst s))) \<or> c1 = fst s" using c1(2) by (metis snd_conv)
  then have p: "pinned (tx_abs c1) = pinned (tx_abs (fst s))"
    using i spec_pinned [of "tx_abs (fst s)" call] by (metis tx_abs_phase)
  have n: "\<forall>n\<le>length calls. tx_state (fst (foldl tx_step (c1, h') (take n calls))) \<noteq> VPS_TRANSACTION_IDLE"
  proof (intro allI impI)
    fix n assume "n \<le> length calls"
    then show "tx_state (fst (foldl tx_step (c1, h') (take n calls))) \<noteq> VPS_TRANSACTION_IDLE"
      using Cons.prems(3) [rule_format, of "Suc n"] c1(1) by simp
  qed
  have "system.tx_good (c1, h')" using tx.step_inv [OF g] c1(1) by simp
  from Cons.IH [OF this _ n] Cons.prems(2) p c1(1) show ?case by simp
qed simp

section \<open>Properties\<close>

text \<open>C2. The coordinator implements the abstract transaction. After any sequence of calls on an
  initialised coordinator, every further call returns what the abstract transaction returns and
  leaves a coordinator that represents the abstract transaction's next state, except that a begin may
  fail for lack of memory and then changes nothing; and the heap keeps exactly the blocks of before
  with the identity buffer's own block exchanged.\<close>

theorem transaction_refines_spec:
  assumes "vps_transaction_init slot (Some system_allocator) logger = (VPS_TRANSACTION_OK, Some c0)"
    and "list_all tx_call_ok calls" and "foldl tx_step (c0, h0) calls = (c, h)"
    and "tx_call_ok call" and "tx_apply call c h = (r, c', h')"
  shows "\<exists>c1. c' = Some c1 \<and>
    ((r, tx_abs c1) = tx_spec call (tx_abs c) \<or>
     (\<exists>i m. call = TxBegin i m) \<and> r = VPS_TRANSACTION_OUT_OF_MEMORY \<and> c1 = c) \<and>
    heap_live h' = heap_live h - buffer_blocks (tx_identity c) + buffer_blocks (tx_identity c1)"
proof -
  have "system.tx_good (c, h)" using tx_run_good [OF assms(1,2), of h0] assms(3) by simp
  from tx_step_spec [OF this assms(4,5)] show ?thesis by metis
qed

abbreviation plain_identity :: "(heap, unit) VpsConnectionIdentity" where
  "plain_identity \<equiv> \<lparr>ident_canonical = \<lparr>buf_allocator = system_allocator, buf_data = Some [1, 2],
     buf_size = 2, buf_capacity = 2, buf_limit = 65536\<rparr>, ident_logger = None, ident_credential_generation = 3,
     ident_configuration_generation = 4, ident_fingerprint = ''f'', ident_initialized = True, ident_built = True\<rparr>"

abbreviation fresh_coordinator :: "(heap, unit) VpsTransactionCoordinator" where
  "fresh_coordinator \<equiv> zero_coordinator\<lparr>tx_allocator := system_allocator,
     tx_identity := \<lparr>buf_allocator = system_allocator, buf_data = None, buf_size = 0, buf_capacity = 0, buf_limit = 65536\<rparr>,
     tx_initialized := True\<rparr>"

lemma fresh_coordinator_init:
  "vps_transaction_init (Some zero_coordinator) (Some system_allocator) None = (VPS_TRANSACTION_OK, Some fresh_coordinator)"
  using system.valid by (simp add: vps_transaction_init_def vps_buffer_init_def zero_coordinator_def)

theorem transaction_refines_spec_witness:
  "case tx_apply (TxBegin plain_identity 7) fresh_coordinator witness_heap of
     (r, c', h') \<Rightarrow> r = VPS_TRANSACTION_OUT_OF_MEMORY \<or>
       r = VPS_TRANSACTION_COMMAND_REQUIRED \<and> members (tx_abs (the c')) = [7] \<and>
       pinned (tx_abs (the c')) = ([1, 2], 3, 4)"
proof -
  obtain r c' h' where a: "tx_apply (TxBegin plain_identity 7) fresh_coordinator witness_heap = (r, c', h')"
    by (metis prod_cases3)
  have ok: "tx_call_ok (TxBegin plain_identity 7)" by (simp add: buffer_ok_def)
  have abs: "tx_abs fresh_coordinator = no_transaction"
    by (simp add: tx_abs_def zero_coordinator_def buffer_contents_def)
  have key: "identity_key plain_identity = ([1, 2], 3, 4)"
    by (simp add: identity_key_def buffer_contents_def)
  have "\<exists>c1. c' = Some c1 \<and> (r, tx_abs c1) = tx_spec (TxBegin plain_identity 7) (tx_abs fresh_coordinator) \<or>
      r = VPS_TRANSACTION_OUT_OF_MEMORY"
    using transaction_refines_spec [OF fresh_coordinator_init _ _ ok a, of "[]" witness_heap] by auto
  then show ?thesis unfolding a abs prod.case by (auto simp: key)
qed

text \<open>C20. A transaction whose outcome is unknown stays so: once the connection is lost while ending, every
  sequence of further calls leaves the coordinator ambiguous, and no call succeeds or asks for a
  command to be sent, in particular no commit is ever repeated.\<close>

theorem ambiguous_is_terminal:
  assumes "vps_transaction_init slot (Some system_allocator) logger = (VPS_TRANSACTION_OK, Some c0)"
    and "list_all tx_call_ok calls" and "tx_state (fst (foldl tx_step (c0, h0) calls)) = VPS_TRANSACTION_AMBIGUOUS"
    and "list_all tx_call_ok later" and "foldl tx_step (c0, h0) (calls @ later) = (c, h)"
    and "tx_call_ok call" and "tx_apply call c h = (r, c', h')"
  shows "tx_state c = VPS_TRANSACTION_AMBIGUOUS \<and> r \<noteq> VPS_TRANSACTION_OK \<and> r \<noteq> VPS_TRANSACTION_COMMAND_REQUIRED"
proof -
  have "tx_lost (foldl tx_step (c0, h0) calls)"
    using tx_run_good [OF assms(1,2)] assms(3) by (simp add: tx_lost_def)
  then have "tx_lost (c, h)"
    using lost.run_inv [OF _ assms(4)] assms(5) by (metis foldl_append)
  then show ?thesis
    using tx_lost_call [OF _ assms(6,7)] by (simp add: tx_lost_def)
qed

lemma lost_commit_ambiguous:
  assumes "tx_state c = VPS_TRANSACTION_BEGINNING" "tx_initialized c" "tx_active_stream_count c = 0"
  shows "tx_state (fst (foldl tx_step (c, h) [TxBeginComplete True, TxEnd VPS_TRANSACTION_END_COMMIT, TxEndComplete False True]))
    = VPS_TRANSACTION_AMBIGUOUS"
  using assms
  by (simp add: tx_step_def vps_transaction_begin_complete_def vps_transaction_end_def
      vps_transaction_end_complete_def vps_transaction_log_def)

theorem ambiguous_is_terminal_witness:
  "\<exists>r c' h'. tx_apply (TxEnd VPS_TRANSACTION_END_COMMIT) (fst (foldl tx_step (fresh_coordinator, witness_heap)
       [TxBegin plain_identity 7, TxBeginComplete True, TxEnd VPS_TRANSACTION_END_COMMIT, TxEndComplete False True]))
       (snd (foldl tx_step (fresh_coordinator, witness_heap)
       [TxBegin plain_identity 7, TxBeginComplete True, TxEnd VPS_TRANSACTION_END_COMMIT, TxEndComplete False True]))
     = (r, c', h') \<and> r \<noteq> VPS_TRANSACTION_COMMAND_REQUIRED"
proof -
  let ?calls = "[TxBegin plain_identity 7, TxBeginComplete True, TxEnd VPS_TRANSACTION_END_COMMIT, TxEndComplete False True]"
  have b: "\<exists>b w1. vps_buffer_append (tx_identity fresh_coordinator) (Some [1, 2]) 2 witness_heap =
      (VPS_MEMORY_OK, b, w1)"
    by (simp add: vps_buffer_append_def vps_size_add_def vps_buffer_reserve_def vps_memory_reallocate_def
        vps_memory_allocate_def vps_allocator_is_valid_def call_allocate_def vps_system_allocate_def c_malloc_def)
  obtain c h where s1: "tx_step (fresh_coordinator, witness_heap) (TxBegin plain_identity 7) = (c, h)" by fastforce
  then have "tx_state c = VPS_TRANSACTION_BEGINNING" "tx_initialized c" "tx_active_stream_count c = 0"
    using b by (auto simp: tx_step_def vps_transaction_begin_def vps_transaction_log_def zero_coordinator_def)
  then have s: "tx_state (fst (foldl tx_step (fresh_coordinator, witness_heap) ?calls)) = VPS_TRANSACTION_AMBIGUOUS"
    using lost_commit_ambiguous [of c h] by (simp only: foldl.simps s1)
  obtain r c' h' where a: "tx_apply (TxEnd VPS_TRANSACTION_END_COMMIT) (fst (foldl tx_step (fresh_coordinator, witness_heap) ?calls))
       (snd (foldl tx_step (fresh_coordinator, witness_heap) ?calls)) = (r, c', h')"
    by (metis prod_cases3)
  have ok: "list_all tx_call_ok ?calls" by (simp add: buffer_ok_def)
  have f: "foldl tx_step (fresh_coordinator, witness_heap) (?calls @ []) =
      (fst (foldl tx_step (fresh_coordinator, witness_heap) ?calls), snd (foldl tx_step (fresh_coordinator, witness_heap) ?calls))"
    by (simp only: append_Nil2 prod.collapse)
  have "r \<noteq> VPS_TRANSACTION_COMMAND_REQUIRED"
    using ambiguous_is_terminal [OF fresh_coordinator_init ok s _ f _ a] by simp
  with a show ?thesis by blast
qed

text \<open>C21. A transaction never spans connection identities: as long as a transaction goes on, a participant
  is admitted only with exactly the canonical identity bytes and generations that the transaction is
  pinned to, however many calls lie between.\<close>

theorem transaction_single_identity:
  assumes "vps_transaction_init slot (Some system_allocator) logger = (VPS_TRANSACTION_OK, Some c0)"
    and "list_all tx_call_ok calls" and "foldl tx_step (c0, h0) calls = s"
    and "list_all tx_call_ok later" and "foldl tx_step s later = (c, h)"
    and "\<forall>n\<le>length later. tx_state (fst (foldl tx_step s (take n later))) \<noteq> VPS_TRANSACTION_IDLE"
    and "tx_call_ok (TxBegin i m)"
    and "vps_transaction_begin (Some c) (Some i) m h = (VPS_TRANSACTION_OK, c', h')"
  shows "identity_key i = pinned (tx_abs (fst s))"
proof -
  have s: "system.tx_good s" using tx_run_good [OF assms(1,2), of h0] assms(3) by simp
  have p: "pinned (tx_abs c) = pinned (tx_abs (fst s))"
    using tx_run_pinned [OF s assms(4,6)] assms(5) by simp
  have g: "system.tx_good (c, h)" using tx.run_inv [OF s assms(4)] assms(5) by simp
  obtain t where "(VPS_TRANSACTION_OK, t) = tx_spec (TxBegin i m) (tx_abs c)"
    by (rule tx_step_spec [OF g assms(7), of VPS_TRANSACTION_OK c' h']) (use assms(8) in \<open>auto simp del: tx_spec.simps\<close>)
  from spec_join [OF this [symmetric]] p show ?thesis by simp
qed

lemma fresh_begin_ok:
  "\<exists>b w1. vps_buffer_append (tx_identity fresh_coordinator) (Some [1, 2]) 2 witness_heap = (VPS_MEMORY_OK, b, w1) \<and>
     buf_size b = 2 \<and> (\<exists>d. buf_data b = Some d \<and> take 2 d = [1, 2])"
  by (simp add: vps_buffer_append_def vps_size_add_def vps_buffer_reserve_def vps_memory_reallocate_def
      vps_memory_allocate_def vps_allocator_is_valid_def call_allocate_def vps_system_allocate_def c_malloc_def
      mem_write_def)

theorem transaction_single_identity_witness:
  "\<exists>s. foldl tx_step (fresh_coordinator, witness_heap) [TxBegin plain_identity 7, TxBeginComplete True] = s \<and>
     identity_key plain_identity = pinned (tx_abs (fst s))"
proof -
  let ?calls = "[TxBegin plain_identity 7, TxBeginComplete True]"
  obtain b w1 d where b: "vps_buffer_append (tx_identity fresh_coordinator) (Some [1, 2]) 2 witness_heap = (VPS_MEMORY_OK, b, w1)"
      "buf_size b = 2" "buf_data b = Some d" "take 2 d = [1, 2]"
    using fresh_begin_ok by blast
  have ok: "list_all tx_call_ok ?calls" "tx_call_ok (TxBegin plain_identity 8)" by (simp_all add: buffer_ok_def)
  obtain c h where s: "foldl tx_step (fresh_coordinator, witness_heap) ?calls = (c, h)" by fastforce
  have c: "tx_state c = VPS_TRANSACTION_ACTIVE" "tx_initialized c" "tx_participant_count c = 1"
      "tx_participants c ! 0 = 7" "tx_identity c = b" "tx_credential_generation c = 3" "tx_configuration_generation c = 4"
    using s b by (auto simp: tx_step_def vps_transaction_begin_def vps_transaction_begin_complete_def
        vps_transaction_log_def zero_coordinator_def)
  have "vps_transaction_identity_matches c (Some plain_identity)"
    using c b by (simp add: vps_transaction_identity_matches_def)
  moreover have "\<not> vps_transaction_has_participant c 8"
    using c by (simp add: vps_transaction_has_participant_def)
  ultimately obtain c' h' where j: "vps_transaction_begin (Some c) (Some plain_identity) 8 h = (VPS_TRANSACTION_OK, c', h')"
    using c by (simp add: vps_transaction_begin_def word_le_nat_alt)
  have "identity_key plain_identity = pinned (tx_abs (fst (c, h)))"
    by (rule transaction_single_identity [OF fresh_coordinator_init ok(1) s _ _ _ ok(2) j, of "[]"])
      (simp_all add: c)
  with s show ?thesis by simp
qed

end
