(* ===== verification/Vps_Connection_Pool.thy ===== *)
theory Vps_Connection_Pool
  imports Vps_Deadline Vps_Memory
begin

text \<open>
  The connection pool of \<open>src/src/vps_connection_pool.c\<close>. A connection is an opaque address; the
  callbacks that create, validate, reset and destroy connections are parameters over their context
  \<open>'x\<close>. Every operation runs under the pool's mutex, so an operation is one atomic step, except that
  an acquisition gives the mutex up in the condition wait: an acquisition is therefore a first part
  (\<open>pool_acquire_enter\<close>) and a part per wake-up (\<open>pool_acquire_resume\<close>), each of which ends with a
  result or suspends again. The suspended call keeps its local variables in a frame. The pool is one,
  so the pool pointer of a lease is a flag; the \<open>NULL\<close> pool that acquisition and closing refuse at once is
  left out of them.
\<close>

section \<open>Data\<close>

abbreviation (input) VPS_CONNECTION_POOL_MAX_SLOTS :: u32 where "VPS_CONNECTION_POOL_MAX_SLOTS \<equiv> 1024"
abbreviation (input) VPS_CONNECTION_POOL_MAX_WAITERS :: u32 where "VPS_CONNECTION_POOL_MAX_WAITERS \<equiv> 4096"
abbreviation (input) VPS_CONNECTION_POOL_MAX_TIMER_MS :: u64 where "VPS_CONNECTION_POOL_MAX_TIMER_MS \<equiv> 86400000"
abbreviation (input) VPS_CONNECTION_POOL_FINGERPRINT_LENGTH :: nat where
  "VPS_CONNECTION_POOL_FINGERPRINT_LENGTH \<equiv> 64"
abbreviation (input) UINT32_MAX :: u32 where "UINT32_MAX \<equiv> - 1"

text \<open>Object sizes on Win64.\<close>

abbreviation (input) sizeof_VpsPoolSlot :: size_t where "sizeof_VpsPoolSlot \<equiv> 32"
abbreviation (input) sizeof_VpsPoolWaiter :: size_t where "sizeof_VpsPoolWaiter \<equiv> 16"
abbreviation (input) sizeof_VpsConnectionPool :: size_t where "sizeof_VpsConnectionPool \<equiv> 424"

datatype (plugins only: code) VpsConnectionPoolResult =
    VPS_CONNECTION_POOL_OK
  | VPS_CONNECTION_POOL_INVALID_ARGUMENT
  | VPS_CONNECTION_POOL_OUT_OF_MEMORY
  | VPS_CONNECTION_POOL_CREATE_FAILED
  | VPS_CONNECTION_POOL_VALIDATE_FAILED
  | VPS_CONNECTION_POOL_RESET_FAILED
  | VPS_CONNECTION_POOL_BUSY
  | VPS_CONNECTION_POOL_INTERRUPTED
  | VPS_CONNECTION_POOL_CLOSED
  | VPS_CONNECTION_POOL_KEY_MISMATCH
  | VPS_CONNECTION_POOL_STALE_LEASE
  | VPS_CONNECTION_POOL_PLATFORM_ERROR

datatype VpsConnectionLeaseDisposition =
    VPS_CONNECTION_LEASE_CLEAN
  | VPS_CONNECTION_LEASE_DIRTY
  | VPS_CONNECTION_LEASE_OUT_OF_RANGE int

type_synonym connection = nat

record VpsConnectionPoolKey =
  key_identity :: "u8 list option"
  key_fingerprint :: "string option"
  key_credential_generation :: u64
  key_configuration_generation :: u64
  key_read_only :: int

record 'x VpsConnectionPoolCallbacks =
  cb_create :: "('x \<Rightarrow> VpsConnectionPoolResult \<times> connection option \<times> 'x) option"
  cb_validate :: "('x \<Rightarrow> connection \<Rightarrow> VpsConnectionPoolResult \<times> 'x) option"
  cb_reset :: "('x \<Rightarrow> connection \<Rightarrow> VpsConnectionPoolResult \<times> 'x) option"
  cb_destroy :: "('x \<Rightarrow> connection \<Rightarrow> 'x) option"

record ('p, 'x, 'w, 'c) VpsConnectionPoolConfig =
  config_allocator :: "'w VpsAllocator"
  config_platform :: "'p VpsPlatformOperations option"
  config_logger :: "'c VpsLogger option"
  config_key :: VpsConnectionPoolKey
  config_callbacks :: "'x VpsConnectionPoolCallbacks"
  config_minimum_size :: u32
  config_maximum_size :: u32
  config_maximum_waiters :: u32
  config_wait_slice_ms :: u32
  config_idle_validation_ms :: u64

record VpsConnectionLease =
  lease_pool :: bool
  lease_connection :: "connection option"
  lease_token :: u64
  lease_slot_index :: u32

record VpsConnectionPoolStats =
  stats_total :: u32
  stats_active :: u32
  stats_idle :: u32
  stats_waiting :: u32
  stats_closed :: bool

record VpsPoolSlot =
  slot_connection :: "connection option"
  slot_lease_token :: u64
  slot_last_used_ms :: u64
  slot_in_use :: bool

record VpsPoolWaiter =
  waiter_ticket :: u64
  waiter_active :: bool

text \<open>The object. The arrays are lists; the blocks of memory that hold the object, the slots and the
  waiters are kept next to them, because they go back to the allocator in the end.\<close>

record ('p, 'x, 'w, 'c) VpsConnectionPool =
  pool_allocator :: "'w VpsAllocator"
  pool_platform :: "'p VpsPlatformOperations option"
  pool_logger :: "'c VpsLogger option"
  pool_callbacks :: "'x VpsConnectionPoolCallbacks"
  pool_mutex :: VpsPlatformMutex
  pool_condition :: VpsPlatformCondition
  pool_slots :: "VpsPoolSlot list"
  pool_waiters :: "VpsPoolWaiter list"
  pool_identity :: "block option"
  pool_identity_size :: size_t
  pool_fingerprint :: string
  pool_credential_generation :: u64
  pool_configuration_generation :: u64
  pool_idle_validation_ms :: u64
  pool_next_ticket :: u64
  pool_next_token :: u64
  pool_maximum_size :: u32
  pool_maximum_waiters :: u32
  pool_wait_slice_ms :: u32
  pool_total :: u32
  pool_active :: u32
  pool_waiting :: u32
  pool_read_only :: int
  pool_closed :: bool
  pool_mutex_initialized :: bool
  pool_condition_initialized :: bool
  pool_memory :: "block option"
  pool_slots_memory :: "block option"
  pool_waiters_memory :: "block option"

abbreviation empty_slot :: VpsPoolSlot where
  "empty_slot \<equiv> \<lparr>slot_connection = None, slot_lease_token = 0, slot_last_used_ms = 0, slot_in_use = False\<rparr>"

abbreviation empty_waiter :: VpsPoolWaiter where
  "empty_waiter \<equiv> \<lparr>waiter_ticket = 0, waiter_active = False\<rparr>"

section \<open>Operations on slots and waiters\<close>

definition vps_connection_pool_result_name :: "VpsConnectionPoolResult \<Rightarrow> string" where
  "vps_connection_pool_result_name result =
     (case result of
        VPS_CONNECTION_POOL_OK \<Rightarrow> ''ok''
      | VPS_CONNECTION_POOL_INVALID_ARGUMENT \<Rightarrow> ''invalid_argument''
      | VPS_CONNECTION_POOL_OUT_OF_MEMORY \<Rightarrow> ''out_of_memory''
      | VPS_CONNECTION_POOL_CREATE_FAILED \<Rightarrow> ''create_failed''
      | VPS_CONNECTION_POOL_VALIDATE_FAILED \<Rightarrow> ''validate_failed''
      | VPS_CONNECTION_POOL_RESET_FAILED \<Rightarrow> ''reset_failed''
      | VPS_CONNECTION_POOL_BUSY \<Rightarrow> ''busy''
      | VPS_CONNECTION_POOL_INTERRUPTED \<Rightarrow> ''interrupted''
      | VPS_CONNECTION_POOL_CLOSED \<Rightarrow> ''closed''
      | VPS_CONNECTION_POOL_KEY_MISMATCH \<Rightarrow> ''key_mismatch''
      | VPS_CONNECTION_POOL_STALE_LEASE \<Rightarrow> ''stale_lease''
      | VPS_CONNECTION_POOL_PLATFORM_ERROR \<Rightarrow> ''platform_error'')"

definition vps_pool_config_valid :: "('p, 'x, 'w, 'c) VpsConnectionPoolConfig option \<Rightarrow> bool" where
  "vps_pool_config_valid config_ptr =
     (case config_ptr of
        None \<Rightarrow> False
      | Some config \<Rightarrow>
          vps_allocator_is_valid (Some (config_allocator config)) \<and>
          vps_platform_validate_operations (config_platform config)
            (VPS_PLATFORM_CAP_MONOTONIC_CLOCK OR VPS_PLATFORM_CAP_MUTEX OR VPS_PLATFORM_CAP_CONDITION)
            = VPS_PLATFORM_OK \<and>
          cb_create (config_callbacks config) \<noteq> None \<and> cb_destroy (config_callbacks config) \<noteq> None \<and>
          (case key_identity (config_key config) of None \<Rightarrow> False | Some bytes \<Rightarrow> bytes \<noteq> []) \<and>
          config_minimum_size config \<le> config_maximum_size config \<and> config_maximum_size config \<noteq> 0 \<and>
          config_maximum_size config \<le> VPS_CONNECTION_POOL_MAX_SLOTS \<and>
          config_maximum_waiters config \<noteq> 0 \<and>
          config_maximum_waiters config \<le> VPS_CONNECTION_POOL_MAX_WAITERS \<and>
          config_wait_slice_ms config \<noteq> 0 \<and> config_wait_slice_ms config \<le> VPS_WAIT_MAX_SLICE_MS \<and>
          config_idle_validation_ms config \<le> VPS_CONNECTION_POOL_MAX_TIMER_MS \<and>
          (key_read_only (config_key config) = 0 \<or> key_read_only (config_key config) = 1) \<and>
          (case key_fingerprint (config_key config) of
             None \<Rightarrow> False
           | Some s \<Rightarrow> length s = VPS_CONNECTION_POOL_FINGERPRINT_LENGTH))"

definition vps_pool_key_matches ::
    "('p, 'x, 'w, 'c) VpsConnectionPool \<Rightarrow> VpsConnectionPoolKey option \<Rightarrow> bool" where
  "vps_pool_key_matches pool key_ptr =
     (case key_ptr of
        None \<Rightarrow> False
      | Some key \<Rightarrow>
          (case key_identity key of
             None \<Rightarrow> False
           | Some bytes \<Rightarrow>
               of_nat (length bytes) = pool_identity_size pool \<and>
               bytes = take (unat (pool_identity_size pool)) (the (pool_identity pool))) \<and>
          key_credential_generation key = pool_credential_generation pool \<and>
          key_configuration_generation key = pool_configuration_generation pool \<and>
          key_read_only key = pool_read_only pool)"

definition vps_pool_next_nonzero :: "u64 \<Rightarrow> u64" where
  "vps_pool_next_nonzero v = (let v1 = v + 1 in if v1 = 0 then 1 else v1)"

definition vps_pool_log ::
    "('p, 'x, 'w, 'c) VpsConnectionPool \<Rightarrow> string \<Rightarrow> VpsConnectionPoolResult \<Rightarrow> u64 \<Rightarrow>
     ('p, 'x, 'w, 'c) VpsConnectionPool" where
  "vps_pool_log pool operation result duration_ms =
     pool\<lparr>pool_logger := log_emit_each (pool_logger pool)
        (if result = VPS_CONNECTION_POOL_OK then VPS_LOG_LEVEL_DEBUG else VPS_LOG_LEVEL_WARN)
        [LogStr VPS_LOG_FIELD_OPERATION operation,
         LogStr VPS_LOG_FIELD_STATUS (vps_connection_pool_result_name result),
         LogStr VPS_LOG_FIELD_CONNECTION_FINGERPRINT
           (take VPS_CONNECTION_POOL_FINGERPRINT_LENGTH (pool_fingerprint pool)),
         LogNum VPS_LOG_FIELD_GENERATION (pool_credential_generation pool),
         LogNum VPS_LOG_FIELD_CONFIGURATION_GENERATION (pool_configuration_generation pool),
         LogNum VPS_LOG_FIELD_POOL_ACTIVE (ucast (pool_active pool)),
         LogNum VPS_LOG_FIELD_POOL_IDLE (ucast (pool_total pool - pool_active pool)),
         LogNum VPS_LOG_FIELD_POOL_WAITING (ucast (pool_waiting pool)),
         LogNum VPS_LOG_FIELD_DURATION_MS duration_ms]\<rparr>"

definition pool_call_destroy :: "('p, 'x, 'w, 'c) VpsConnectionPool \<Rightarrow> 'x \<Rightarrow> connection \<Rightarrow> 'x" where
  "pool_call_destroy pool x conn =
     (case cb_destroy (pool_callbacks pool) of None \<Rightarrow> x | Some destroy \<Rightarrow> destroy x conn)"

definition vps_pool_destroy_slot ::
    "('p, 'x, 'w, 'c) VpsConnectionPool \<Rightarrow> nat \<Rightarrow> 'x \<Rightarrow> ('p, 'x, 'w, 'c) VpsConnectionPool \<times> 'x" where
  "vps_pool_destroy_slot pool index x =
     (case slot_connection (pool_slots pool ! index) of
        None \<Rightarrow> (pool, x)
      | Some conn \<Rightarrow>
          (pool\<lparr>pool_slots := (pool_slots pool)[index := empty_slot], pool_total := pool_total pool - 1\<rparr>,
           pool_call_destroy pool x conn))"

definition vps_pool_create_slot ::
    "('p, 'x, 'w, 'c) VpsConnectionPool \<Rightarrow> 'x \<Rightarrow>
     VpsConnectionPoolResult \<times> nat \<times> ('p, 'x, 'w, 'c) VpsConnectionPool \<times> 'x" where
  "vps_pool_create_slot pool x =
     (case find (\<lambda>index. slot_connection (pool_slots pool ! index) = None) [0..<unat (pool_maximum_size pool)] of
        None \<Rightarrow> (VPS_CONNECTION_POOL_BUSY, 0, pool, x)
      | Some index \<Rightarrow>
          (case cb_create (pool_callbacks pool) of
             None \<Rightarrow> (VPS_CONNECTION_POOL_CREATE_FAILED, 0, pool, x)
           | Some create \<Rightarrow>
               (case create x of
                  (result, conn, x1) \<Rightarrow>
                    if result \<noteq> VPS_CONNECTION_POOL_OK \<or> conn = None
                    then (VPS_CONNECTION_POOL_CREATE_FAILED, 0, pool,
                          case conn of None \<Rightarrow> x1 | Some c \<Rightarrow> pool_call_destroy pool x1 c)
                    else (VPS_CONNECTION_POOL_OK, index,
                          pool\<lparr>pool_slots := (pool_slots pool)[index := (pool_slots pool ! index)
                                  \<lparr>slot_connection := conn, slot_last_used_ms := 0\<rparr>],
                               pool_total := pool_total pool + 1\<rparr>, x1))))"

definition vps_pool_first_ticket :: "('p, 'x, 'w, 'c) VpsConnectionPool \<Rightarrow> u64" where
  "vps_pool_first_ticket pool =
     fold (\<lambda>index first. if waiter_active (pool_waiters pool ! index) \<and>
                             waiter_ticket (pool_waiters pool ! index) < first
                          then waiter_ticket (pool_waiters pool ! index) else first)
       [0..<unat (pool_maximum_waiters pool)] UINT64_MAX"

text \<open>The result is the index and the ticket of the new waiter, if there was a free entry.\<close>

definition vps_pool_waiter_add ::
    "('p, 'x, 'w, 'c) VpsConnectionPool \<Rightarrow> (u32 \<times> u64) option \<times> ('p, 'x, 'w, 'c) VpsConnectionPool" where
  "vps_pool_waiter_add pool =
     (case find (\<lambda>index. \<not> waiter_active (pool_waiters pool ! index)) [0..<unat (pool_maximum_waiters pool)] of
        None \<Rightarrow> (None, pool)
      | Some index \<Rightarrow>
          let ticket = vps_pool_next_nonzero (pool_next_ticket pool)
          in (Some (of_nat index, ticket),
              pool\<lparr>pool_waiters := (pool_waiters pool)[index := \<lparr>waiter_ticket = ticket, waiter_active = True\<rparr>],
                   pool_next_ticket := ticket, pool_waiting := pool_waiting pool + 1\<rparr>))"

definition vps_pool_waiter_remove ::
    "('p, 'x, 'w, 'c) VpsConnectionPool \<Rightarrow> u32 \<Rightarrow> ('p, 'x, 'w, 'c) VpsConnectionPool" where
  "vps_pool_waiter_remove pool waiter_index =
     (if waiter_index < pool_maximum_waiters pool \<and> waiter_active (pool_waiters pool ! unat waiter_index)
      then pool\<lparr>pool_waiters := (pool_waiters pool)[unat waiter_index := empty_waiter],
                pool_waiting := pool_waiting pool - 1\<rparr>
      else pool)"

text \<open>The scan of \<open>vps_pool_take_available\<close> over the slots; the first argument counts the slots left.\<close>

fun pool_scan ::
    "nat \<Rightarrow> nat \<Rightarrow> ('p, 'x, 'w, 'c) VpsConnectionPool \<Rightarrow> u64 \<Rightarrow> 'x \<Rightarrow>
     nat option \<times> ('p, 'x, 'w, 'c) VpsConnectionPool \<times> 'x" where
  "pool_scan 0 index pool now_ms x = (None, pool, x)"
| "pool_scan (Suc left) index pool now_ms x =
     (let slot = pool_slots pool ! index in
      if slot_connection slot = None \<or> slot_in_use slot then pool_scan left (Suc index) pool now_ms x
      else case cb_validate (pool_callbacks pool) of
        None \<Rightarrow> (Some index, pool, x)
      | Some validate \<Rightarrow>
          if pool_idle_validation_ms pool = 0 \<or> slot_last_used_ms slot = 0 \<or>
             now_ms - slot_last_used_ms slot \<ge> pool_idle_validation_ms pool
          then (case validate x (the (slot_connection slot)) of
                  (result, x1) \<Rightarrow>
                    if result \<noteq> VPS_CONNECTION_POOL_OK
                    then (case vps_pool_destroy_slot pool index x1 of
                            (pool1, x2) \<Rightarrow> pool_scan left (Suc index) pool1 now_ms x2)
                    else (Some index, pool, x1))
          else (Some index, pool, x))"

definition vps_pool_take_available ::
    "('p, 'x, 'w, 'c) VpsConnectionPool \<Rightarrow> u64 \<Rightarrow> 'x \<Rightarrow>
     VpsConnectionPoolResult \<times> nat \<times> ('p, 'x, 'w, 'c) VpsConnectionPool \<times> 'x" where
  "vps_pool_take_available pool now_ms x =
     (case pool_scan (unat (pool_maximum_size pool)) 0 pool now_ms x of
        (Some index, pool1, x1) \<Rightarrow> (VPS_CONNECTION_POOL_OK, index, pool1, x1)
      | (None, pool1, x1) \<Rightarrow>
          if pool_total pool1 < pool_maximum_size pool1 then vps_pool_create_slot pool1 x1
          else (VPS_CONNECTION_POOL_BUSY, 0, pool1, x1))"

definition vps_pool_fill_lease ::
    "('p, 'x, 'w, 'c) VpsConnectionPool \<Rightarrow> nat \<Rightarrow>
     ('p, 'x, 'w, 'c) VpsConnectionPool \<times> VpsConnectionLease" where
  "vps_pool_fill_lease pool index =
     (let token = vps_pool_next_nonzero (pool_next_token pool);
          slot = (pool_slots pool ! index)\<lparr>slot_in_use := True, slot_lease_token := token\<rparr>
      in (pool\<lparr>pool_slots := (pool_slots pool)[index := slot], pool_next_token := token,
               pool_active := pool_active pool + 1\<rparr>,
          \<lparr>lease_pool = True, lease_connection = slot_connection slot, lease_token = token,
           lease_slot_index = of_nat index\<rparr>))"

section \<open>The mutex, the condition and the clock\<close>

definition pool_lock ::
    "('p, 'x, 'w, 'c) VpsConnectionPool \<Rightarrow> 'p \<Rightarrow> VpsPlatformStatus \<times> ('p, 'x, 'w, 'c) VpsConnectionPool \<times> 'p" where
  "pool_lock pool p =
     (case vps_platform_mutex_lock (pool_platform pool) (pool_mutex pool) p of
        (status, mutex, p1) \<Rightarrow> (status, pool\<lparr>pool_mutex := mutex\<rparr>, p1))"

definition pool_unlock ::
    "('p, 'x, 'w, 'c) VpsConnectionPool \<Rightarrow> 'p \<Rightarrow> ('p, 'x, 'w, 'c) VpsConnectionPool \<times> 'p" where
  "pool_unlock pool p =
     (case vps_platform_mutex_unlock (pool_platform pool) (pool_mutex pool) p of
        (status, mutex, p1) \<Rightarrow> (pool\<lparr>pool_mutex := mutex\<rparr>, p1))"

definition pool_broadcast ::
    "('p, 'x, 'w, 'c) VpsConnectionPool \<Rightarrow> 'p \<Rightarrow> ('p, 'x, 'w, 'c) VpsConnectionPool \<times> 'p" where
  "pool_broadcast pool p =
     (case vps_platform_condition_broadcast (pool_platform pool) (pool_condition pool) p of
        (status, condition, p1) \<Rightarrow> (pool\<lparr>pool_condition := condition\<rparr>, p1))"

section \<open>Acquisition\<close>

text \<open>The arguments and local variables of a call of \<open>vps_connection_pool_acquire\<close>. While the call waits,
  \<open>frame_timeout_ms\<close> is the argument of the condition wait.\<close>

record 'i acquire_frame =
  frame_deadline :: VpsDeadline
  frame_waiter_index :: u32
  frame_ticket :: u64
  frame_interrupt_probe :: "('i \<Rightarrow> VpsInterruptProbeResult \<times> 'i) option"
  frame_interrupt_context :: 'i
  frame_lease :: VpsConnectionLease
  frame_timeout_ms :: u32

datatype 'i acquire_outcome =
    AcquireReturned VpsConnectionPoolResult VpsConnectionLease
  | AcquireSuspended "'i acquire_frame"

type_synonym ('p, 'x, 'w, 'c) pool_world = "('p, 'x, 'w, 'c) VpsConnectionPool \<times> 'x \<times> 'p"

text \<open>What follows the loop.\<close>

definition pool_acquire_finish ::
    "'i acquire_frame \<Rightarrow> VpsConnectionPoolResult \<Rightarrow> VpsConnectionLease \<Rightarrow> ('p, 'x, 'w, 'c) pool_world \<Rightarrow>
     'i acquire_outcome \<times> ('p, 'x, 'w, 'c) pool_world" where
  "pool_acquire_finish frame result lease world =
     (case world of (pool, x, p) \<Rightarrow>
        let pool1 = vps_pool_waiter_remove pool (frame_waiter_index frame);
            started = started_at_ms (frame_deadline frame)
        in case vps_platform_monotonic_now_ms (pool_platform pool1) started p of
          (_, finished_ms, p1) \<Rightarrow>
            (case pool_unlock (vps_pool_log pool1 ''pool_acquire'' result
                     (if finished_ms \<ge> started then finished_ms - started else 0)) p1 of
               (pool2, p2) \<Rightarrow> (AcquireReturned result lease, (pool2, x, p2))))"

text \<open>From the registration of the waiter to the condition wait.\<close>

definition pool_acquire_wait ::
    "'i acquire_frame \<Rightarrow> u64 \<Rightarrow> ('p, 'x, 'w, 'c) pool_world \<Rightarrow>
     'i acquire_outcome \<times> ('p, 'x, 'w, 'c) pool_world" where
  "pool_acquire_wait frame now_ms world =
     (case world of (pool, x, p) \<Rightarrow>
        (case (if frame_ticket frame = 0 then vps_pool_waiter_add pool
               else (Some (frame_waiter_index frame, frame_ticket frame), pool)) of
           (None, pool1) \<Rightarrow>
             pool_acquire_finish frame VPS_CONNECTION_POOL_BUSY (frame_lease frame) (pool1, x, p)
         | (Some (waiter_index, ticket), pool1) \<Rightarrow>
             let frame1 = frame\<lparr>frame_waiter_index := waiter_index, frame_ticket := ticket\<rparr>
             in (case vps_deadline_remaining_at (Some (frame_deadline frame1)) now_ms (Some (0, False)) of
                   (VPS_DEADLINE_OK, Some (remaining_ms, expired)) \<Rightarrow>
                     if expired
                     then pool_acquire_finish frame1 VPS_CONNECTION_POOL_BUSY (frame_lease frame1) (pool1, x, p)
                     else (AcquireSuspended (frame1\<lparr>frame_timeout_ms :=
                              (if remaining_ms > ucast (pool_wait_slice_ms pool1)
                               then pool_wait_slice_ms pool1 else ucast remaining_ms)\<rparr>), (pool1, x, p))
                 | _ \<Rightarrow> pool_acquire_finish frame1 VPS_CONNECTION_POOL_PLATFORM_ERROR (frame_lease frame1)
                         (pool1, x, p))))"

text \<open>From the reading of the clock to the attempt to take a connection.\<close>

definition pool_acquire_take ::
    "'i acquire_frame \<Rightarrow> ('p, 'x, 'w, 'c) pool_world \<Rightarrow>
     'i acquire_outcome \<times> ('p, 'x, 'w, 'c) pool_world" where
  "pool_acquire_take frame world =
     (case world of (pool, x, p) \<Rightarrow>
        (case vps_platform_monotonic_now_ms (pool_platform pool) 0 p of
           (status, now_ms, p1) \<Rightarrow>
             if status \<noteq> VPS_PLATFORM_OK
             then pool_acquire_finish frame VPS_CONNECTION_POOL_PLATFORM_ERROR (frame_lease frame) (pool, x, p1)
             else if frame_ticket frame = 0 \<and> pool_waiting pool = 0 \<or>
                     frame_ticket frame \<noteq> 0 \<and> frame_ticket frame = vps_pool_first_ticket pool
             then (case vps_pool_take_available pool now_ms x of
                     (result, slot_index, pool1, x1) \<Rightarrow>
                       if result = VPS_CONNECTION_POOL_OK
                       then (case vps_pool_fill_lease (vps_pool_waiter_remove pool1 (frame_waiter_index frame))
                                    slot_index of
                               (pool2, lease) \<Rightarrow>
                                 (case pool_broadcast pool2 p1 of
                                    (pool3, p2) \<Rightarrow> pool_acquire_finish frame result lease (pool3, x1, p2)))
                       else if result \<noteq> VPS_CONNECTION_POOL_BUSY
                       then pool_acquire_finish frame result (frame_lease frame) (pool1, x1, p1)
                       else pool_acquire_wait frame now_ms (pool1, x1, p1))
             else pool_acquire_wait frame now_ms (pool, x, p1)))"

text \<open>One pass of the loop, with the mutex held.\<close>

definition pool_acquire_pass ::
    "'i acquire_frame \<Rightarrow> ('p, 'x, 'w, 'c) pool_world \<Rightarrow>
     'i acquire_outcome \<times> ('p, 'x, 'w, 'c) pool_world" where
  "pool_acquire_pass frame world =
     (if pool_closed (fst world)
      then pool_acquire_finish frame VPS_CONNECTION_POOL_CLOSED (frame_lease frame) world
      else case frame_interrupt_probe frame of
        None \<Rightarrow> pool_acquire_take frame world
      | Some probe \<Rightarrow>
          (case probe (frame_interrupt_context frame) of
             (answer, i1) \<Rightarrow>
               let frame1 = frame\<lparr>frame_interrupt_context := i1\<rparr>
               in if answer \<noteq> VPS_INTERRUPT_CONTINUE
                  then pool_acquire_finish frame1
                         (if answer = VPS_INTERRUPT_REQUESTED then VPS_CONNECTION_POOL_INTERRUPTED
                          else VPS_CONNECTION_POOL_PLATFORM_ERROR) (frame_lease frame1) world
                  else pool_acquire_take frame1 world))"

definition pool_acquire_enter ::
    "VpsConnectionPoolKey option \<Rightarrow> u64 \<Rightarrow> ('i \<Rightarrow> VpsInterruptProbeResult \<times> 'i) option \<Rightarrow> 'i \<Rightarrow>
     VpsConnectionLease option \<Rightarrow> ('p, 'x, 'w, 'c) pool_world \<Rightarrow>
     (VpsConnectionPoolResult + 'i acquire_outcome) \<times> ('p, 'x, 'w, 'c) pool_world" where
  "pool_acquire_enter key timeout_ms interrupt_probe interrupt_context lease_ptr world =
     (case world of (pool, x, p) \<Rightarrow>
        case lease_ptr of
          None \<Rightarrow> (Inl VPS_CONNECTION_POOL_INVALID_ARGUMENT, world)
        | Some lease \<Rightarrow>
            if lease_pool lease \<or> timeout_ms > VPS_CONNECTION_POOL_MAX_TIMER_MS
            then (Inl VPS_CONNECTION_POOL_INVALID_ARGUMENT, world)
            else if \<not> vps_pool_key_matches pool key then (Inl VPS_CONNECTION_POOL_KEY_MISMATCH, world)
            else case vps_deadline_start (pool_platform pool) timeout_ms
                        (Some \<lparr>started_at_ms = 0, expires_at_ms = 0\<rparr>) p of
              (VPS_DEADLINE_OK, Some deadline, p1) \<Rightarrow>
                (case pool_lock pool p1 of
                   (status, pool1, p2) \<Rightarrow>
                     if status \<noteq> VPS_PLATFORM_OK
                     then (Inl VPS_CONNECTION_POOL_PLATFORM_ERROR, (pool1, x, p2))
                     else (case pool_acquire_pass
                                  \<lparr>frame_deadline = deadline, frame_waiter_index = UINT32_MAX, frame_ticket = 0,
                                   frame_interrupt_probe = interrupt_probe,
                                   frame_interrupt_context = interrupt_context, frame_lease = lease,
                                   frame_timeout_ms = 0\<rparr> (pool1, x, p2) of
                             (out, world1) \<Rightarrow> (Inr out, world1)))
            | (_, _, p1) \<Rightarrow> (Inl VPS_CONNECTION_POOL_PLATFORM_ERROR, (pool, x, p1)))"

text \<open>The return of the condition wait, with the mutex held again.\<close>

definition pool_acquire_resume ::
    "'i acquire_frame \<Rightarrow> ('p, 'x, 'w, 'c) pool_world \<Rightarrow>
     'i acquire_outcome \<times> ('p, 'x, 'w, 'c) pool_world" where
  "pool_acquire_resume frame world =
     (case world of (pool, x, p) \<Rightarrow>
        (case vps_platform_condition_wait (pool_platform pool) (pool_condition pool) (pool_mutex pool)
                (frame_timeout_ms frame) p of
           (status, (condition, mutex), p1) \<Rightarrow>
             let pool1 = pool\<lparr>pool_condition := condition, pool_mutex := mutex\<rparr>
             in if status \<noteq> VPS_PLATFORM_OK \<and> status \<noteq> VPS_PLATFORM_TIMEOUT
                then pool_acquire_finish frame VPS_CONNECTION_POOL_PLATFORM_ERROR (frame_lease frame) (pool1, x, p1)
                else pool_acquire_pass frame (pool1, x, p1)))"

section \<open>Release, statistics, closing\<close>

definition pool_unlock_world :: "('p, 'x, 'w, 'c) pool_world \<Rightarrow> ('p, 'x, 'w, 'c) pool_world" where
  "pool_unlock_world world =
     (case world of (pool, x, p) \<Rightarrow> (case pool_unlock pool p of (pool1, p1) \<Rightarrow> (pool1, x, p1)))"

abbreviation empty_lease :: VpsConnectionLease where
  "empty_lease \<equiv> \<lparr>lease_pool = False, lease_connection = None, lease_token = 0, lease_slot_index = 0\<rparr>"

text \<open>What happens to the slot of a lease that was found to be current.\<close>

definition pool_release_slot ::
    "VpsConnectionLeaseDisposition \<Rightarrow> nat \<Rightarrow> ('p, 'x, 'w, 'c) pool_world \<Rightarrow>
     VpsConnectionPoolResult \<times> ('p, 'x, 'w, 'c) pool_world" where
  "pool_release_slot disposition index world =
     (case world of (pool, x, p) \<Rightarrow>
        let slot = (pool_slots pool ! index)\<lparr>slot_in_use := False, slot_lease_token := 0\<rparr>;
            pool1 = pool\<lparr>pool_slots := (pool_slots pool)[index := slot], pool_active := pool_active pool - 1\<rparr>
        in if pool_closed pool1 \<or> disposition = VPS_CONNECTION_LEASE_DIRTY
           then (case vps_pool_destroy_slot pool1 index x of
                   (pool2, x1) \<Rightarrow> (VPS_CONNECTION_POOL_OK, (pool2, x1, p)))
           else case (case cb_reset (pool_callbacks pool1) of
                        None \<Rightarrow> (VPS_CONNECTION_POOL_OK, x)
                      | Some reset \<Rightarrow> reset x (the (slot_connection slot))) of
             (reset_result, x1) \<Rightarrow>
               if reset_result \<noteq> VPS_CONNECTION_POOL_OK
               then (case vps_pool_destroy_slot pool1 index x1 of
                       (pool2, x2) \<Rightarrow> (VPS_CONNECTION_POOL_RESET_FAILED, (pool2, x2, p)))
               else case vps_platform_monotonic_now_ms (pool_platform pool1) 0 p of
                 (status, now_ms, p1) \<Rightarrow>
                   if status \<noteq> VPS_PLATFORM_OK
                   then (case vps_pool_destroy_slot pool1 index x1 of
                           (pool2, x2) \<Rightarrow> (VPS_CONNECTION_POOL_PLATFORM_ERROR, (pool2, x2, p1)))
                   else (VPS_CONNECTION_POOL_OK,
                         (pool1\<lparr>pool_slots := (pool_slots pool1)[index := slot\<lparr>slot_last_used_ms := now_ms\<rparr>]\<rparr>,
                          x1, p1)))"

definition vps_connection_lease_release ::
    "VpsConnectionLease option \<Rightarrow> VpsConnectionLeaseDisposition \<Rightarrow> ('p, 'x, 'w, 'c) pool_world \<Rightarrow>
     VpsConnectionPoolResult \<times> VpsConnectionLease option \<times> ('p, 'x, 'w, 'c) pool_world" where
  "vps_connection_lease_release lease_ptr disposition world =
     (case lease_ptr of
        None \<Rightarrow> (VPS_CONNECTION_POOL_STALE_LEASE, lease_ptr, world)
      | Some lease \<Rightarrow>
          if \<not> lease_pool lease \<or>
             disposition \<noteq> VPS_CONNECTION_LEASE_CLEAN \<and> disposition \<noteq> VPS_CONNECTION_LEASE_DIRTY
          then (VPS_CONNECTION_POOL_STALE_LEASE, lease_ptr, world)
          else case world of (pool, x, p) \<Rightarrow>
            (case pool_lock pool p of
               (status, pool1, p1) \<Rightarrow>
                 if status \<noteq> VPS_PLATFORM_OK
                 then (VPS_CONNECTION_POOL_PLATFORM_ERROR, lease_ptr, (pool1, x, p1))
                 else if lease_slot_index lease \<ge> pool_maximum_size pool1
                 then (VPS_CONNECTION_POOL_STALE_LEASE, lease_ptr, pool_unlock_world (pool1, x, p1))
                 else let index = unat (lease_slot_index lease); slot = pool_slots pool1 ! index
                      in if \<not> slot_in_use slot \<or> slot_connection slot \<noteq> lease_connection lease \<or>
                            slot_lease_token slot \<noteq> lease_token lease
                         then (VPS_CONNECTION_POOL_STALE_LEASE, lease_ptr, pool_unlock_world (pool1, x, p1))
                         else case pool_release_slot disposition index (pool1, x, p1) of
                           (result, (pool2, x2, p2)) \<Rightarrow>
                             (case pool_broadcast pool2 p2 of
                                (pool3, p3) \<Rightarrow>
                                  (result, Some empty_lease,
                                   pool_unlock_world (vps_pool_log pool3 ''pool_release'' result 0, x2, p3)))))"

definition vps_connection_pool_stats ::
    "('p, 'x, 'w, 'c) VpsConnectionPool option \<Rightarrow> VpsConnectionPoolStats option \<Rightarrow> 'p \<Rightarrow>
     VpsConnectionPoolResult \<times> VpsConnectionPoolStats option \<times> ('p, 'x, 'w, 'c) VpsConnectionPool option \<times> 'p" where
  "vps_connection_pool_stats pool_ptr stats p =
     (case pool_ptr of
        None \<Rightarrow> (VPS_CONNECTION_POOL_INVALID_ARGUMENT, stats, pool_ptr, p)
      | Some pool \<Rightarrow>
          if stats = None then (VPS_CONNECTION_POOL_INVALID_ARGUMENT, stats, pool_ptr, p)
          else case pool_lock pool p of
            (status, pool1, p1) \<Rightarrow>
              if status \<noteq> VPS_PLATFORM_OK
              then (VPS_CONNECTION_POOL_INVALID_ARGUMENT, stats, Some pool1, p1)
              else (case pool_unlock pool1 p1 of
                      (pool2, p2) \<Rightarrow>
                        (VPS_CONNECTION_POOL_OK,
                         Some \<lparr>stats_total = pool_total pool1, stats_active = pool_active pool1,
                               stats_idle = pool_total pool1 - pool_active pool1,
                               stats_waiting = pool_waiting pool1, stats_closed = pool_closed pool1\<rparr>,
                         Some pool2, p2)))"

text \<open>The loop of \<open>vps_connection_pool_close\<close> over the indices it has left.\<close>

fun pool_close_slots ::
    "nat list \<Rightarrow> ('p, 'x, 'w, 'c) VpsConnectionPool \<Rightarrow> 'x \<Rightarrow> ('p, 'x, 'w, 'c) VpsConnectionPool \<times> 'x" where
  "pool_close_slots [] pool x = (pool, x)"
| "pool_close_slots (index # left) pool x =
     (if slot_in_use (pool_slots pool ! index) then pool_close_slots left pool x
      else case vps_pool_destroy_slot pool index x of (pool1, x1) \<Rightarrow> pool_close_slots left pool1 x1)"

definition vps_connection_pool_close ::
    "('p, 'x, 'w, 'c) pool_world \<Rightarrow> VpsConnectionPoolResult \<times> ('p, 'x, 'w, 'c) pool_world" where
  "vps_connection_pool_close world =
     (case world of (pool, x, p) \<Rightarrow>
        (case pool_lock pool p of
           (status, pool1, p1) \<Rightarrow>
             if status \<noteq> VPS_PLATFORM_OK then (VPS_CONNECTION_POOL_INVALID_ARGUMENT, (pool1, x, p1))
             else (case pool_close_slots [0..<unat (pool_maximum_size pool1)] (pool1\<lparr>pool_closed := True\<rparr>) x of
                     (pool2, x1) \<Rightarrow>
                       (case pool_broadcast pool2 p1 of
                          (pool3, p2) \<Rightarrow> (VPS_CONNECTION_POOL_OK, pool_unlock_world (pool3, x1, p2))))))"

section \<open>Creation and destruction\<close>

text \<open>The object after the \<open>memset\<close> and the copies of the configuration.\<close>

definition pool_from_config ::
    "('p, 'x, 'w, 'c) VpsConnectionPoolConfig \<Rightarrow> block option \<Rightarrow> ('p, 'x, 'w, 'c) VpsConnectionPool" where
  "pool_from_config config memory =
     \<lparr>pool_allocator = config_allocator config, pool_platform = config_platform config,
      pool_logger = config_logger config, pool_callbacks = config_callbacks config,
      pool_mutex = \<lparr>mutex_state = 0, mutex_native = replicate 64 0\<rparr>,
      pool_condition = \<lparr>condition_state = 0, condition_native = replicate 64 0\<rparr>,
      pool_slots = [], pool_waiters = [], pool_identity = None,
      pool_identity_size = of_nat (length (the (key_identity (config_key config)))),
      pool_fingerprint = the (key_fingerprint (config_key config)),
      pool_credential_generation = key_credential_generation (config_key config),
      pool_configuration_generation = key_configuration_generation (config_key config),
      pool_idle_validation_ms = config_idle_validation_ms config,
      pool_next_ticket = 0, pool_next_token = 0,
      pool_maximum_size = config_maximum_size config, pool_maximum_waiters = config_maximum_waiters config,
      pool_wait_slice_ms = config_wait_slice_ms config, pool_total = 0, pool_active = 0, pool_waiting = 0,
      pool_read_only = key_read_only (config_key config), pool_closed = False,
      pool_mutex_initialized = False, pool_condition_initialized = False,
      pool_memory = memory, pool_slots_memory = None, pool_waiters_memory = None\<rparr>"

text \<open>The three allocations, the first refused one ending the sequence, and the initialisation of the
  arrays and the identity when all were served.\<close>

definition pool_create_memory ::
    "('p, 'x, 'w, 'c) VpsConnectionPoolConfig \<Rightarrow> size_t \<Rightarrow> size_t \<Rightarrow> ('p, 'x, 'w, 'c) VpsConnectionPool \<Rightarrow>
     'w \<Rightarrow> bool \<times> ('p, 'x, 'w, 'c) VpsConnectionPool \<times> 'w" where
  "pool_create_memory config slots_size waiters_size pool w =
     (case vps_memory_allocate (Some (pool_allocator pool)) slots_size None w of
        (r1, slots, w1) \<Rightarrow>
          let pool1 = pool\<lparr>pool_slots_memory := slots\<rparr>
          in if r1 \<noteq> VPS_MEMORY_OK then (False, pool1, w1)
             else case vps_memory_allocate (Some (pool_allocator pool)) waiters_size None w1 of
               (r2, waiters, w2) \<Rightarrow>
                 let pool2 = pool1\<lparr>pool_waiters_memory := waiters\<rparr>
                 in if r2 \<noteq> VPS_MEMORY_OK then (False, pool2, w2)
                    else case vps_memory_allocate (Some (pool_allocator pool)) (pool_identity_size pool) None w2 of
                      (r3, identity, w3) \<Rightarrow>
                        let pool3 = pool2\<lparr>pool_identity := identity\<rparr>
                        in if r3 \<noteq> VPS_MEMORY_OK then (False, pool3, w3)
                           else (True,
                                 pool3\<lparr>pool_slots := replicate (unat (pool_maximum_size pool)) empty_slot,
                                       pool_waiters := replicate (unat (pool_maximum_waiters pool)) empty_waiter,
                                       pool_identity := map_option
                                         (\<lambda>blk. mem_write blk 0 (the (key_identity (config_key config)))) identity\<rparr>,
                                 w3))"

text \<open>The loop that opens the minimum number of connections.\<close>

fun pool_create_minimum ::
    "nat \<Rightarrow> ('p, 'x, 'w, 'c) VpsConnectionPool \<Rightarrow> 'x \<Rightarrow>
     VpsConnectionPoolResult \<times> ('p, 'x, 'w, 'c) VpsConnectionPool \<times> 'x" where
  "pool_create_minimum 0 pool x = (VPS_CONNECTION_POOL_OK, pool, x)"
| "pool_create_minimum (Suc left) pool x =
     (case vps_pool_create_slot pool x of
        (result, _, pool1, x1) \<Rightarrow>
          if result \<noteq> VPS_CONNECTION_POOL_OK then (result, pool1, x1)
          else pool_create_minimum left pool1 x1)"

text \<open>The loops of the failure path: one sweep over the slots, and sweeps as long as \<open>total\<close> is positive,
  where \<open>None\<close> is a loop that does not end.\<close>

fun pool_sweep_slots ::
    "nat list \<Rightarrow> ('p, 'x, 'w, 'c) VpsConnectionPool \<Rightarrow> 'x \<Rightarrow> ('p, 'x, 'w, 'c) VpsConnectionPool \<times> 'x" where
  "pool_sweep_slots [] pool x = (pool, x)"
| "pool_sweep_slots (index # left) pool x =
     (if pool_slots_memory pool \<noteq> None \<and> slot_connection (pool_slots pool ! index) \<noteq> None
      then case vps_pool_destroy_slot pool index x of (pool1, x1) \<Rightarrow> pool_sweep_slots left pool1 x1
      else pool_sweep_slots left pool x)"

partial_function (option) pool_destroy_all ::
    "('p, 'x, 'w, 'c) VpsConnectionPool \<Rightarrow> 'x \<Rightarrow> (('p, 'x, 'w, 'c) VpsConnectionPool \<times> 'x) option" where
  "pool_destroy_all pool x =
     (if pool_total pool > 0
      then case pool_sweep_slots [0..<unat (pool_maximum_size pool)] pool x of
             (pool1, x1) \<Rightarrow> pool_destroy_all pool1 x1
      else Some (pool, x))"

definition pool_release_memory ::
    "('p, 'x, 'w, 'c) VpsConnectionPool \<Rightarrow> size_t \<Rightarrow> size_t \<Rightarrow> 'w \<Rightarrow> 'w" where
  "pool_release_memory pool slots_size waiters_size w =
     (case vps_memory_release (Some (pool_allocator pool)) (pool_identity pool) (pool_identity_size pool) w of
        (_, w1) \<Rightarrow>
          (case vps_memory_release (Some (pool_allocator pool)) (pool_waiters_memory pool) waiters_size w1 of
             (_, w2) \<Rightarrow>
               (case vps_memory_release (Some (pool_allocator pool)) (pool_slots_memory pool) slots_size w2 of
                  (_, w3) \<Rightarrow>
                    snd (vps_memory_release (Some (pool_allocator pool)) (pool_memory pool)
                           sizeof_VpsConnectionPool w3))))"

definition pool_create_fail ::
    "VpsConnectionPoolResult \<Rightarrow> ('p, 'x, 'w, 'c) VpsConnectionPool \<Rightarrow> size_t \<Rightarrow> size_t \<Rightarrow> 'x \<Rightarrow> 'p \<Rightarrow> 'w \<Rightarrow>
     (VpsConnectionPoolResult \<times> ('p, 'x, 'w, 'c) VpsConnectionPool option \<times> 'x \<times> 'p \<times> 'w) option" where
  "pool_create_fail result pool slots_size waiters_size x p w =
     (case pool_destroy_all pool x of
        None \<Rightarrow> None
      | Some (pool1, x1) \<Rightarrow>
          (case (if pool_condition_initialized pool1
                 then vps_platform_condition_destroy (pool_platform pool1) (pool_condition pool1) p
                 else (VPS_PLATFORM_OK, pool_condition pool1, p)) of
             (_, _, p1) \<Rightarrow>
               (case (if pool_mutex_initialized pool1
                      then vps_platform_mutex_destroy (pool_platform pool1) (pool_mutex pool1) p1
                      else (VPS_PLATFORM_OK, pool_mutex pool1, p1)) of
                  (_, _, p2) \<Rightarrow>
                    Some (result, None, x1, p2, pool_release_memory pool1 slots_size waiters_size w))))"

text \<open>From the initialisation of the mutex on, with all memory in place.\<close>

definition pool_create_open ::
    "('p, 'x, 'w, 'c) VpsConnectionPoolConfig \<Rightarrow> ('p, 'x, 'w, 'c) VpsConnectionPool \<Rightarrow> size_t \<Rightarrow> size_t \<Rightarrow>
     'x \<Rightarrow> 'p \<Rightarrow> 'w \<Rightarrow>
     (VpsConnectionPoolResult \<times> ('p, 'x, 'w, 'c) VpsConnectionPool option \<times> 'x \<times> 'p \<times> 'w) option" where
  "pool_create_open config pool slots_size waiters_size x p w =
     (case vps_platform_mutex_init (pool_platform pool) (pool_mutex pool) p of
        (s1, mutex, p1) \<Rightarrow>
          let pool1 = pool\<lparr>pool_mutex := mutex\<rparr>
          in if s1 \<noteq> VPS_PLATFORM_OK
             then pool_create_fail VPS_CONNECTION_POOL_PLATFORM_ERROR pool1 slots_size waiters_size x p1 w
             else
               let pool2 = pool1\<lparr>pool_mutex_initialized := True\<rparr>
               in case vps_platform_condition_init (pool_platform pool2) (pool_condition pool2) p1 of
                 (s2, condition, p2) \<Rightarrow>
                   let pool3 = pool2\<lparr>pool_condition := condition\<rparr>
                   in if s2 \<noteq> VPS_PLATFORM_OK
                      then pool_create_fail VPS_CONNECTION_POOL_PLATFORM_ERROR pool3 slots_size waiters_size x p2 w
                      else case pool_create_minimum (unat (config_minimum_size config))
                                  (pool3\<lparr>pool_condition_initialized := True\<rparr>) x of
                        (result, pool4, x1) \<Rightarrow>
                          if result \<noteq> VPS_CONNECTION_POOL_OK
                          then pool_create_fail result pool4 slots_size waiters_size x1 p2 w
                          else Some (VPS_CONNECTION_POOL_OK, Some pool4, x1, p2, w))"

definition vps_connection_pool_create ::
    "('p, 'x, 'w, 'c) VpsConnectionPoolConfig option \<Rightarrow> ('p, 'x, 'w, 'c) VpsConnectionPool option option \<Rightarrow>
     'x \<Rightarrow> 'p \<Rightarrow> 'w \<Rightarrow>
     (VpsConnectionPoolResult \<times> ('p, 'x, 'w, 'c) VpsConnectionPool option \<times> 'x \<times> 'p \<times> 'w) option" where
  "vps_connection_pool_create config_ptr pool_out x p w =
     (let refused = Some (VPS_CONNECTION_POOL_INVALID_ARGUMENT, Option.bind pool_out (\<lambda>out. out), x, p, w) in
      case (pool_out, config_ptr) of
        (Some None, Some config) \<Rightarrow>
          if \<not> vps_pool_config_valid config_ptr then refused
          else (case (vps_size_multiply (ucast (config_maximum_size config)) sizeof_VpsPoolSlot,
                      vps_size_multiply (ucast (config_maximum_waiters config)) sizeof_VpsPoolWaiter) of
                  ((VPS_MEMORY_OK, Some slots_size), (VPS_MEMORY_OK, Some waiters_size)) \<Rightarrow>
                    (case vps_memory_allocate (Some (config_allocator config)) sizeof_VpsConnectionPool None w of
                       (VPS_MEMORY_OK, Some memory, w1) \<Rightarrow>
                         (case pool_create_memory config slots_size waiters_size
                                 (pool_from_config config (Some memory)) w1 of
                            (allocated, pool, w2) \<Rightarrow>
                              if \<not> allocated
                              then pool_create_fail VPS_CONNECTION_POOL_OUT_OF_MEMORY pool slots_size waiters_size
                                     x p w2
                              else pool_create_open config pool slots_size waiters_size x p w2)
                     | (_, _, w1) \<Rightarrow> Some (VPS_CONNECTION_POOL_OUT_OF_MEMORY, None, x, p, w1))
                | _ \<Rightarrow> refused)
      | _ \<Rightarrow> refused)"

definition vps_connection_pool_destroy ::
    "('p, 'x, 'w, 'c) VpsConnectionPool option \<Rightarrow> 'x \<Rightarrow> 'p \<Rightarrow> 'w \<Rightarrow>
     VpsConnectionPoolResult \<times> ('p, 'x, 'w, 'c) VpsConnectionPool option \<times> 'x \<times> 'p \<times> 'w" where
  "vps_connection_pool_destroy pool_ptr x p w =
     (case pool_ptr of
        None \<Rightarrow> (VPS_CONNECTION_POOL_INVALID_ARGUMENT, None, x, p, w)
      | Some pool \<Rightarrow>
          (case vps_connection_pool_close (pool, x, p) of
             (closed, (pool1, x1, p1)) \<Rightarrow>
               if closed \<noteq> VPS_CONNECTION_POOL_OK then (VPS_CONNECTION_POOL_PLATFORM_ERROR, Some pool1, x1, p1, w)
               else case pool_lock pool1 p1 of
                 (status, pool2, p2) \<Rightarrow>
                   if status \<noteq> VPS_PLATFORM_OK then (VPS_CONNECTION_POOL_PLATFORM_ERROR, Some pool2, x1, p2, w)
                   else let busy = pool_active pool2 \<noteq> 0 \<or> pool_waiting pool2 \<noteq> 0
                        in case pool_unlock pool2 p2 of
                          (pool3, p3) \<Rightarrow>
                            if busy then (VPS_CONNECTION_POOL_BUSY, Some pool3, x1, p3, w)
                            else case vps_platform_condition_destroy (pool_platform pool3) (pool_condition pool3) p3 of
                              (_, condition, p4) \<Rightarrow>
                                (case vps_platform_mutex_destroy (pool_platform pool3) (pool_mutex pool3) p4 of
                                   (_, mutex, p5) \<Rightarrow>
                                     (VPS_CONNECTION_POOL_OK, None, x1, p5,
                                      pool_release_memory pool3
                                        (ucast (pool_maximum_size pool3) * sizeof_VpsPoolSlot)
                                        (ucast (pool_maximum_waiters pool3) * sizeof_VpsPoolWaiter) w))))"

section \<open>The invariant of the pool\<close>

text \<open>The arrays have their sizes and the counters count: \<open>total\<close> the slots with a connection, \<open>active\<close> the
  slots in use, \<open>waiting\<close> the active waiters. A slot in use has a connection, a free waiter no ticket.\<close>

definition pool_ok :: "('p, 'x, 'w, 'c) VpsConnectionPool \<Rightarrow> bool" where
  "pool_ok pool \<longleftrightarrow>
     length (pool_slots pool) = unat (pool_maximum_size pool) \<and>
     pool_maximum_size pool \<le> VPS_CONNECTION_POOL_MAX_SLOTS \<and>
     length (pool_waiters pool) = unat (pool_maximum_waiters pool) \<and>
     pool_maximum_waiters pool \<le> VPS_CONNECTION_POOL_MAX_WAITERS \<and>
     (\<forall>slot\<in>set (pool_slots pool). slot_in_use slot \<longrightarrow> slot_connection slot \<noteq> None) \<and>
     (\<forall>waiter\<in>set (pool_waiters pool). \<not> waiter_active waiter \<longrightarrow> waiter_ticket waiter = 0) \<and>
     unat (pool_total pool) = length (filter (\<lambda>slot. slot_connection slot \<noteq> None) (pool_slots pool)) \<and>
     unat (pool_active pool) = length (filter slot_in_use (pool_slots pool)) \<and>
     unat (pool_waiting pool) = length (filter waiter_active (pool_waiters pool))"

text \<open>What the pool relies on of its callbacks: the connections that exist are \<open>live\<close>; creation makes a new
  one, destruction ends the one it is given, validation and reset do neither.\<close>

definition callbacks_account :: "'x VpsConnectionPoolCallbacks \<Rightarrow> ('x \<Rightarrow> connection set) \<Rightarrow> bool" where
  "callbacks_account cb live \<longleftrightarrow>
     (\<forall>create x r conn x'. cb_create cb = Some create \<and> create x = (r, conn, x') \<longrightarrow>
        (case conn of None \<Rightarrow> live x' = live x | Some c \<Rightarrow> c \<notin> live x \<and> live x' = insert c (live x))) \<and>
     (\<forall>validate x c. cb_validate cb = Some validate \<longrightarrow> live (snd (validate x c)) = live x) \<and>
     (\<forall>reset x c. cb_reset cb = Some reset \<longrightarrow> live (snd (reset x c)) = live x) \<and>
     (\<exists>destroy. cb_destroy cb = Some destroy \<and> (\<forall>x c. live (destroy x c) = live x - {c}))"

lemma callbacks_accountD:
  assumes "callbacks_account cb live"
  shows "cb_create cb = Some create \<Longrightarrow> create x = (r, None, x') \<Longrightarrow> live x' = live x"
    and "cb_create cb = Some create \<Longrightarrow> create x = (r, Some c, x') \<Longrightarrow> c \<notin> live x \<and> live x' = insert c (live x)"
    and "cb_validate cb = Some validate \<Longrightarrow> live (snd (validate x c)) = live x"
    and "cb_reset cb = Some reset \<Longrightarrow> live (snd (reset x c)) = live x"
  using assms unfolding callbacks_account_def by (fastforce split: option.splits)+

lemma call_destroy_live:
  "callbacks_account (pool_callbacks pool) live \<Longrightarrow> live (pool_call_destroy pool x c) = live x - {c}"
  by (auto simp: callbacks_account_def pool_call_destroy_def)

text \<open>The slots hold exactly the connections that exist, each in one slot.\<close>

definition slots_own :: "('x \<Rightarrow> connection set) \<Rightarrow> VpsPoolSlot list \<Rightarrow> 'x \<Rightarrow> bool" where
  "slots_own live slots x \<longleftrightarrow>
     (\<forall>i<length slots. \<forall>j<length slots. \<forall>c. slot_connection (slots ! i) = Some c \<longrightarrow>
        slot_connection (slots ! j) = Some c \<longrightarrow> i = j) \<and>
     (\<forall>c. c \<in> live x \<longleftrightarrow> (\<exists>i<length slots. slot_connection (slots ! i) = Some c))"

definition pool_inv :: "('x \<Rightarrow> connection set) \<Rightarrow> ('p, 'x, 'w, 'c) VpsConnectionPool \<Rightarrow> 'x \<Rightarrow> bool" where
  "pool_inv live pool x \<longleftrightarrow>
     pool_ok pool \<and> callbacks_account (pool_callbacks pool) live \<and> slots_own live (pool_slots pool) x"

lemma length_filter_update:
  "i < length xs \<Longrightarrow>
   length (filter P (xs[i := v])) + (if P (xs ! i) then 1 else 0) = length (filter P xs) + (if P v then 1 else 0)"
proof (induction xs arbitrary: i)
  case (Cons a xs)
  then show ?case by (cases i) auto
qed simp

lemma length_filter_pos: "i < length xs \<Longrightarrow> P (xs ! i) \<Longrightarrow> 0 < length (filter P xs)"
  by (metis filter_empty_conv length_greater_0_conv nth_mem)

text \<open>A change of the slots' other fields keeps the ownership; a destroyed connection leaves its slot.\<close>

lemma slots_ownI:
  assumes "\<And>i j c. i < length slots \<Longrightarrow> j < length slots \<Longrightarrow> slot_connection (slots ! i) = Some c \<Longrightarrow>
      slot_connection (slots ! j) = Some c \<Longrightarrow> i = j"
    and "\<And>c. c \<in> live x \<longleftrightarrow> (\<exists>i<length slots. slot_connection (slots ! i) = Some c)"
  shows "slots_own live slots x"
  using assms unfolding slots_own_def by blast

lemma slots_ownD:
  assumes "slots_own live slots x"
  shows "i < length slots \<Longrightarrow> j < length slots \<Longrightarrow> slot_connection (slots ! i) = Some c \<Longrightarrow>
      slot_connection (slots ! j) = Some c \<Longrightarrow> i = j"
    and "c \<in> live x \<longleftrightarrow> (\<exists>i<length slots. slot_connection (slots ! i) = Some c)"
  using assms unfolding slots_own_def by blast+

lemma slots_own_update:
  assumes "slots_own live slots x" "slot_connection s = slot_connection (slots ! i)" "live x' = live x"
  shows "slots_own live (slots[i := s]) x'"
proof -
  have "slot_connection (slots[i := s] ! j) = slot_connection (slots ! j)" if "j < length slots" for j
    using assms(2) that by (cases "j = i") auto
  then show ?thesis
    using assms(1,3) unfolding slots_own_def by (auto cong: conj_cong)
qed

lemma slots_own_remove:
  assumes "slots_own live slots x" "i < length slots" "slot_connection (slots ! i) = Some c"
    "live x' = live x - {c}" "slot_connection s = None"
  shows "slots_own live (slots[i := s]) x'"
proof (rule slots_ownI)
  fix a b d
  assume "a < length (slots[i := s])" "b < length (slots[i := s])"
    "slot_connection (slots[i := s] ! a) = Some d" "slot_connection (slots[i := s] ! b) = Some d"
  then show "a = b"
    using assms(5) slots_ownD(1) [OF assms(1), of a b d] by (cases "a = i"; cases "b = i") auto
next
  fix d
  have "slot_connection (slots[i := s] ! a) = Some d \<longleftrightarrow> slot_connection (slots ! a) = Some d \<and> d \<noteq> c"
    if "a < length slots" for a
    using that assms(2,3,5) slots_ownD(1) [OF assms(1), of a i c] by (cases "a = i") auto
  then show "d \<in> live x' \<longleftrightarrow> (\<exists>a<length (slots[i := s]). slot_connection (slots[i := s] ! a) = Some d)"
    using slots_ownD(2) [OF assms(1), of d] assms(4) by auto
qed

lemma slots_own_insert:
  assumes "slots_own live slots x" "i < length slots" "slot_connection (slots ! i) = None"
    "c \<notin> live x" "live x' = insert c (live x)" "slot_connection s = Some c"
  shows "slots_own live (slots[i := s]) x'"
proof (rule slots_ownI)
  have c: "slot_connection (slots ! a) \<noteq> Some c" if "a < length slots" for a
    using assms(4) that slots_ownD(2) [OF assms(1), of c] by auto
  fix a b d
  assume "a < length (slots[i := s])" "b < length (slots[i := s])"
    "slot_connection (slots[i := s] ! a) = Some d" "slot_connection (slots[i := s] ! b) = Some d"
  then show "a = b"
    using assms(6) c [of a] c [of b] slots_ownD(1) [OF assms(1), of a b d]
    by (cases "a = i"; cases "b = i") auto
next
  fix d
  have "slot_connection (slots[i := s] ! a) = Some d \<longleftrightarrow>
      (if a = i then d = c else slot_connection (slots ! a) = Some d)"
    if "a < length slots" for a
    using that assms(6) by auto
  then have "(\<exists>a<length slots. slot_connection (slots[i := s] ! a) = Some d) \<longleftrightarrow>
      d = c \<or> (\<exists>a<length slots. slot_connection (slots ! a) = Some d)"
    using assms(2,3) by (metis option.distinct(1))
  then show "d \<in> live x' \<longleftrightarrow> (\<exists>a<length (slots[i := s]). slot_connection (slots[i := s] ! a) = Some d)"
    using slots_ownD(2) [OF assms(1), of d] assms(5) by simp
qed

lemma pool_ok_bounds:
  assumes "pool_ok pool"
  shows "length (pool_slots pool) \<le> 1024" "length (pool_waiters pool) \<le> 4096"
    "unat (pool_total pool) \<le> unat (pool_maximum_size pool)"
    "unat (pool_active pool) \<le> unat (pool_total pool)"
    "unat (pool_waiting pool) \<le> unat (pool_maximum_waiters pool)"
proof -
  show "length (pool_slots pool) \<le> 1024" "length (pool_waiters pool) \<le> 4096"
    using assms by (auto simp: pool_ok_def word_le_nat_alt)
  show "unat (pool_total pool) \<le> unat (pool_maximum_size pool)"
    "unat (pool_waiting pool) \<le> unat (pool_maximum_waiters pool)"
    using assms unfolding pool_ok_def by (metis length_filter_le)+
  have "length (filter slot_in_use slots) \<le> length (filter (\<lambda>s. slot_connection s \<noteq> None) slots)"
    if "\<forall>slot\<in>set slots. slot_in_use slot \<longrightarrow> slot_connection slot \<noteq> None" for slots
    using that by (induction slots) auto
  with assms show "unat (pool_active pool) \<le> unat (pool_total pool)"
    by (auto simp: pool_ok_def)
qed

section \<open>Slots\<close>

text \<open>A change of slots that keeps every lease: the slots in use are as they were and no other is.\<close>

definition slots_kept :: "VpsPoolSlot list \<Rightarrow> VpsPoolSlot list \<Rightarrow> bool" where
  "slots_kept slots slots' \<longleftrightarrow> length slots' = length slots \<and>
     (\<forall>i<length slots. slot_in_use (slots' ! i) = slot_in_use (slots ! i) \<and>
        (slot_in_use (slots ! i) \<longrightarrow> slots' ! i = slots ! i))"

lemma slots_kept_refl [simp]: "slots_kept slots slots"
  by (simp add: slots_kept_def)

lemma slots_kept_trans: "slots_kept a b \<Longrightarrow> slots_kept b c \<Longrightarrow> slots_kept a c"
  by (simp add: slots_kept_def)

lemma slots_kept_update [simp]:
  "\<not> slot_in_use (slots ! i) \<Longrightarrow> \<not> slot_in_use s \<Longrightarrow> slots_kept slots (slots[i := s])"
  by (cases "i < length slots") (auto simp: slots_kept_def nth_list_update)

text \<open>Only the slots and their count differ.\<close>

definition pool_frame :: "('p, 'x, 'w, 'c) VpsConnectionPool \<Rightarrow> ('p, 'x, 'w, 'c) VpsConnectionPool \<Rightarrow> bool" where
  "pool_frame pool pool' \<longleftrightarrow>
     pool' = pool\<lparr>pool_slots := pool_slots pool', pool_total := pool_total pool'\<rparr> \<and>
     slots_kept (pool_slots pool) (pool_slots pool')"

lemma pool_frame_refl [simp]: "pool_frame pool pool"
  by (simp add: pool_frame_def)

lemma pool_frame_trans:
  assumes "pool_frame a b" "pool_frame b c"
  shows "pool_frame a c"
proof -
  have "c = b\<lparr>pool_slots := pool_slots c, pool_total := pool_total c\<rparr>"
    and b: "b = a\<lparr>pool_slots := pool_slots b, pool_total := pool_total b\<rparr>"
    using assms by (simp_all add: pool_frame_def)
  then have "c = a\<lparr>pool_slots := pool_slots b, pool_total := pool_total b\<rparr>
      \<lparr>pool_slots := pool_slots c, pool_total := pool_total c\<rparr>" by simp
  then have "c = a\<lparr>pool_slots := pool_slots c, pool_total := pool_total c\<rparr>" by simp
  with assms show ?thesis unfolding pool_frame_def using slots_kept_trans by blast
qed

lemma pool_frame_fields:
  assumes "pool_frame pool pool'"
  shows "pool_callbacks pool' = pool_callbacks pool" "pool_maximum_size pool' = pool_maximum_size pool"
    "pool_maximum_waiters pool' = pool_maximum_waiters pool" "pool_waiters pool' = pool_waiters pool"
    "pool_waiting pool' = pool_waiting pool" "pool_active pool' = pool_active pool"
    "pool_next_ticket pool' = pool_next_ticket pool" "pool_next_token pool' = pool_next_token pool"
    "pool_closed pool' = pool_closed pool" "pool_wait_slice_ms pool' = pool_wait_slice_ms pool"
    "pool_platform pool' = pool_platform pool" "pool_slots_memory pool' = pool_slots_memory pool"
    "slots_kept (pool_slots pool) (pool_slots pool')"
proof -
  obtain s t where "pool' = pool\<lparr>pool_slots := s, pool_total := t\<rparr>" "slots_kept (pool_slots pool) (pool_slots pool')"
    using assms unfolding pool_frame_def by blast
  then show "pool_callbacks pool' = pool_callbacks pool" "pool_maximum_size pool' = pool_maximum_size pool"
    "pool_maximum_waiters pool' = pool_maximum_waiters pool" "pool_waiters pool' = pool_waiters pool"
    "pool_waiting pool' = pool_waiting pool" "pool_active pool' = pool_active pool"
    "pool_next_ticket pool' = pool_next_ticket pool" "pool_next_token pool' = pool_next_token pool"
    "pool_closed pool' = pool_closed pool" "pool_wait_slice_ms pool' = pool_wait_slice_ms pool"
    "pool_platform pool' = pool_platform pool" "pool_slots_memory pool' = pool_slots_memory pool"
    "slots_kept (pool_slots pool) (pool_slots pool')"
    by simp_all
qed

lemma destroy_slot:
  assumes "pool_inv live pool x" "i < length (pool_slots pool)" "\<not> slot_in_use (pool_slots pool ! i)"
    "vps_pool_destroy_slot pool i x = (pool', x')"
  shows "pool_inv live pool' x'" "pool_frame pool pool'" "slot_connection (pool_slots pool' ! i) = None"
    "\<And>j. j \<noteq> i \<Longrightarrow> pool_slots pool' ! j = pool_slots pool ! j"
proof -
  show "pool_frame pool pool'" "slot_connection (pool_slots pool' ! i) = None"
    "\<And>j. j \<noteq> i \<Longrightarrow> pool_slots pool' ! j = pool_slots pool ! j"
    using assms(2-4) by (auto simp: vps_pool_destroy_slot_def pool_frame_def split: option.splits)
  show "pool_inv live pool' x'"
  proof (cases "slot_connection (pool_slots pool ! i)")
    case (Some c)
    let ?conn = "\<lambda>slot. slot_connection slot \<noteq> None"
    have own: "live x' = live x - {c}"
      using assms(1,4) Some by (auto simp: vps_pool_destroy_slot_def pool_inv_def call_destroy_live)
    have "0 < length (filter ?conn (pool_slots pool))"
      using assms(2) Some by (intro length_filter_pos [of i]) auto
    then have "pool_total pool \<noteq> 0" using assms(1) by (auto simp: pool_inv_def pool_ok_def)
    then have "unat (pool_total pool - 1) = unat (pool_total pool) - 1" by (rule unat_pred)
    then show ?thesis
      using assms Some own length_filter_update [OF assms(2), of ?conn empty_slot]
        length_filter_update [OF assms(2), of slot_in_use empty_slot]
        slots_own_remove [of live "pool_slots pool" x i c x' empty_slot]
      by (auto simp: vps_pool_destroy_slot_def pool_inv_def pool_ok_def dest!: set_update_subset_insert [THEN subsetD])
  qed (use assms in \<open>auto simp: vps_pool_destroy_slot_def\<close>)
qed

lemma create_slot:
  assumes "pool_inv live pool x" "vps_pool_create_slot pool x = (r, i, pool', x')"
  shows "pool_inv live pool' x'" "pool_frame pool pool'"
    "r = VPS_CONNECTION_POOL_OK \<Longrightarrow> i < length (pool_slots pool') \<and>
       slot_connection (pool_slots pool' ! i) \<noteq> None \<and> \<not> slot_in_use (pool_slots pool' ! i) \<and>
       unat (pool_total pool') = unat (pool_total pool) + 1"
    "r \<noteq> VPS_CONNECTION_POOL_OK \<Longrightarrow> pool' = pool"
proof -
  let ?conn = "\<lambda>slot. slot_connection slot \<noteq> None"
  let ?goal = "pool_inv live pool' x' \<and> pool_frame pool pool' \<and>
    (r = VPS_CONNECTION_POOL_OK \<longrightarrow> i < length (pool_slots pool') \<and>
       slot_connection (pool_slots pool' ! i) \<noteq> None \<and> \<not> slot_in_use (pool_slots pool' ! i) \<and>
       unat (pool_total pool') = unat (pool_total pool) + 1) \<and>
    (r \<noteq> VPS_CONNECTION_POOL_OK \<longrightarrow> pool' = pool)"
  have ok: "pool_ok pool" and acc: "callbacks_account (pool_callbacks pool) live"
    and own: "slots_own live (pool_slots pool) x"
    using assms(1) by (auto simp: pool_inv_def)
  have ?goal
  proof (cases "find (\<lambda>i. slot_connection (pool_slots pool ! i) = None) [0..<unat (pool_maximum_size pool)]")
    case None
    with assms show ?thesis by (auto simp: vps_pool_create_slot_def)
  next
    case (Some k)
    then have k: "k < length (pool_slots pool)" "slot_connection (pool_slots pool ! k) = None"
      using ok by (auto simp: find_Some_iff pool_ok_def)
    show ?thesis
    proof (cases "cb_create (pool_callbacks pool)")
      case None
      with Some assms show ?thesis by (auto simp: vps_pool_create_slot_def)
    next
      case create: (Some create)
      obtain r1 conn x1 where c: "create x = (r1, conn, x1)" by (metis prod_cases3)
      have live: "case conn of None \<Rightarrow> live x1 = live x | Some c \<Rightarrow> c \<notin> live x \<and> live x1 = insert c (live x)"
        using callbacks_accountD(1,2) [OF acc create] c by (cases conn) auto
      show ?thesis
      proof (cases "r1 = VPS_CONNECTION_POOL_OK \<and> conn \<noteq> None")
        case False
        then have eq: "r = VPS_CONNECTION_POOL_CREATE_FAILED" "pool' = pool"
          "x' = (case conn of None \<Rightarrow> x1 | Some c \<Rightarrow> pool_call_destroy pool x1 c)"
          using assms(2) Some create c by (auto simp: vps_pool_create_slot_def)
        have "live x' = live x"
          using live by (auto simp: eq call_destroy_live [OF acc] split: option.splits)
        with own ok acc show ?thesis by (simp add: eq pool_inv_def slots_own_def)
      next
        case True
        then obtain d where d: "conn = Some d" by auto
        let ?s = "(pool_slots pool ! k)\<lparr>slot_connection := Some d, slot_last_used_ms := 0\<rparr>"
        have eq: "r = VPS_CONNECTION_POOL_OK" "i = k" "x' = x1"
          "pool' = pool\<lparr>pool_slots := (pool_slots pool)[k := ?s], pool_total := pool_total pool + 1\<rparr>"
          using assms(2) Some create c True d by (auto simp: vps_pool_create_slot_def)
        have idle: "\<not> slot_in_use (pool_slots pool ! k)"
          using ok k by (auto simp: pool_ok_def)
        have "pool_total pool \<noteq> - 1"
          using pool_ok_bounds(1,3) [OF ok] ok by (auto simp: pool_ok_def unsigned_minus_1_eq_mask mask_eq_exp_minus_1)
        then have t: "unat (pool_total pool + 1) = unat (pool_total pool) + 1" by (rule unat_Suc_no_wrap)
        have "pool_ok pool'"
          using ok k idle t length_filter_update [OF k(1), of ?conn ?s]
            length_filter_update [OF k(1), of slot_in_use ?s]
          by (auto simp: eq pool_ok_def dest!: set_update_subset_insert [THEN subsetD])
        moreover have "slots_own live (pool_slots pool') x'"
          unfolding eq using own k live d by (auto intro!: slots_own_insert)
        ultimately show ?thesis
          using k idle t acc by (simp add: eq pool_inv_def pool_frame_def)
      qed
    qed
  qed
  then show "pool_inv live pool' x'" "pool_frame pool pool'"
    "r = VPS_CONNECTION_POOL_OK \<Longrightarrow> i < length (pool_slots pool') \<and>
       slot_connection (pool_slots pool' ! i) \<noteq> None \<and> \<not> slot_in_use (pool_slots pool' ! i) \<and>
       unat (pool_total pool') = unat (pool_total pool) + 1"
    "r \<noteq> VPS_CONNECTION_POOL_OK \<Longrightarrow> pool' = pool" by blast+
qed

lemma pool_inv_live: "pool_inv live pool x \<Longrightarrow> live x' = live x \<Longrightarrow> pool_inv live pool x'"
  by (simp add: pool_inv_def slots_own_def)

lemma pool_scan:
  assumes "pool_inv live pool x" "i + n = length (pool_slots pool)" "pool_scan n i pool now x = (r, pool', x')"
  shows "pool_inv live pool' x' \<and> pool_frame pool pool' \<and>
    (\<forall>k. r = Some k \<longrightarrow> k < length (pool_slots pool') \<and>
       slot_connection (pool_slots pool' ! k) \<noteq> None \<and> \<not> slot_in_use (pool_slots pool' ! k))"
  using assms
proof (induction n arbitrary: i pool x)
  case (Suc n)
  let ?slot = "pool_slots pool ! i"
  have i: "i < length (pool_slots pool)" using Suc.prems by simp
  consider (skip) "pool_scan n (Suc i) pool now x = (r, pool', x')"
    | (take) "slot_connection ?slot \<noteq> None" "\<not> slot_in_use ?slot" "r = Some i" "pool' = pool" "live x' = live x"
    | (drop) x1 pool1 x2 where "\<not> slot_in_use ?slot" "live x1 = live x"
        "vps_pool_destroy_slot pool i x1 = (pool1, x2)" "pool_scan n (Suc i) pool1 now x2 = (r, pool', x')"
  proof (cases "slot_connection ?slot = None \<or> slot_in_use ?slot")
    case True
    then have "pool_scan n (Suc i) pool now x = (r, pool', x')" using Suc.prems(3) by auto
    then show ?thesis by (rule skip)
  next
    case idle: False
    have acc: "callbacks_account (pool_callbacks pool) live" using Suc.prems(1) by (simp add: pool_inv_def)
    show ?thesis
    proof (cases "cb_validate (pool_callbacks pool)")
      case None
      then show ?thesis using idle Suc.prems(3) by (intro take) auto
    next
      case (Some validate)
      obtain v x1 where v: "validate x (the (slot_connection ?slot)) = (v, x1)" by (metis surj_pair)
      have "live x1 = live x"
        using callbacks_accountD(3) [OF acc Some, of x "the (slot_connection ?slot)"] by (simp add: v)
      moreover obtain pool1 x2 where "vps_pool_destroy_slot pool i x1 = (pool1, x2)" by (metis surj_pair)
      ultimately show ?thesis
        using idle Suc.prems(3) Some v by (auto simp: Let_def split: if_splits intro: take drop)
    qed
  qed
  then show ?case
  proof cases
    case skip
    with Suc.IH [of pool x "Suc i"] Suc.prems show ?thesis by simp
  next
    case take
    with Suc.prems(1) i show ?thesis by (auto intro: pool_inv_live)
  next
    case drop
    note ds = destroy_slot [OF pool_inv_live [OF Suc.prems(1) drop(2)] i drop(1,3)]
    have "Suc i + n = length (pool_slots pool1)"
      using pool_frame_fields(13) [OF ds(2)] Suc.prems(2) by (simp add: slots_kept_def)
    from Suc.IH [OF ds(1) this drop(4)] ds(2) show ?thesis by (blast intro: pool_frame_trans)
  qed
qed auto

lemma take_available:
  assumes "pool_inv live pool x" "vps_pool_take_available pool now x = (r, k, pool', x')"
  shows "pool_inv live pool' x'" "pool_frame pool pool'"
    "r = VPS_CONNECTION_POOL_OK \<Longrightarrow> k < length (pool_slots pool') \<and>
       slot_connection (pool_slots pool' ! k) \<noteq> None \<and> \<not> slot_in_use (pool_slots pool' ! k)"
proof -
  obtain r1 pool1 x1 where scan: "pool_scan (unat (pool_maximum_size pool)) 0 pool now x = (r1, pool1, x1)"
    by (metis prod_cases3)
  have "0 + unat (pool_maximum_size pool) = length (pool_slots pool)"
    using assms(1) by (simp add: pool_inv_def pool_ok_def)
  note sc = pool_scan [OF assms(1) this scan]
  have "pool_inv live pool' x' \<and> pool_frame pool pool' \<and>
    (r = VPS_CONNECTION_POOL_OK \<longrightarrow> k < length (pool_slots pool') \<and>
       slot_connection (pool_slots pool' ! k) \<noteq> None \<and> \<not> slot_in_use (pool_slots pool' ! k))"
  proof (cases "r1 = None \<and> pool_total pool1 < pool_maximum_size pool1")
    case True
    then have cr: "vps_pool_create_slot pool1 x1 = (r, k, pool', x')"
      using assms(2) scan by (simp add: vps_pool_take_available_def)
    from sc create_slot [OF _ cr, of live] show ?thesis by (blast intro: pool_frame_trans)
  next
    case False
    with assms(2) scan sc show ?thesis
      by (auto simp: vps_pool_take_available_def split: option.splits)
  qed
  then show "pool_inv live pool' x'" "pool_frame pool pool'"
    "r = VPS_CONNECTION_POOL_OK \<Longrightarrow> k < length (pool_slots pool') \<and>
       slot_connection (pool_slots pool' ! k) \<noteq> None \<and> \<not> slot_in_use (pool_slots pool' ! k)" by blast+
qed

lemma fill_lease:
  assumes "pool_inv live pool x" "k < length (pool_slots pool)" "slot_connection (pool_slots pool ! k) \<noteq> None"
    "\<not> slot_in_use (pool_slots pool ! k)" "vps_pool_fill_lease pool k = (pool', lease)"
  shows "pool_inv live pool' x" "unat (lease_slot_index lease) = k" "lease_pool lease"
    "pool_active pool' = pool_active pool + 1" "unat (pool_active pool') = unat (pool_active pool) + 1"
    "pool_next_token pool' = vps_pool_next_nonzero (pool_next_token pool)" "lease_token lease = pool_next_token pool'"
    "pool_slots pool' = (pool_slots pool)[k := pool_slots pool' ! k]"
    "slot_in_use (pool_slots pool' ! k)" "slot_lease_token (pool_slots pool' ! k) = lease_token lease"
    "slot_connection (pool_slots pool' ! k) = lease_connection lease" "lease_connection lease \<noteq> None"
    "pool' = pool\<lparr>pool_slots := pool_slots pool', pool_next_token := pool_next_token pool', pool_active := pool_active pool'\<rparr>"
proof -
  let ?t = "vps_pool_next_nonzero (pool_next_token pool)"
  let ?s = "(pool_slots pool ! k)\<lparr>slot_in_use := True, slot_lease_token := ?t\<rparr>"
  have eq: "pool' = pool\<lparr>pool_slots := (pool_slots pool)[k := ?s], pool_next_token := ?t,
      pool_active := pool_active pool + 1\<rparr>"
    "lease = \<lparr>lease_pool = True, lease_connection = slot_connection ?s, lease_token = ?t, lease_slot_index = of_nat k\<rparr>"
    using assms(5) by (auto simp: vps_pool_fill_lease_def Let_def)
  have ok: "pool_ok pool" using assms(1) by (simp add: pool_inv_def)
  note b = pool_ok_bounds [OF ok]
  have "pool_active pool \<noteq> - 1"
    using b ok by (auto simp: pool_ok_def unsigned_minus_1_eq_mask mask_eq_exp_minus_1)
  then have a: "unat (pool_active pool + 1) = unat (pool_active pool) + 1" by (rule unat_Suc_no_wrap)
  have "pool_ok pool'"
    using ok assms(2-4) a length_filter_update [OF assms(2), of "\<lambda>slot. slot_connection slot \<noteq> None" ?s]
      length_filter_update [OF assms(2), of slot_in_use ?s]
    by (auto simp: eq pool_ok_def dest!: set_update_subset_insert [THEN subsetD])
  moreover have "slots_own live (pool_slots pool') x"
    unfolding eq using assms(1) by (auto intro!: slots_own_update simp: pool_inv_def)
  ultimately show "pool_inv live pool' x"
    using assms(1) by (simp add: pool_inv_def eq)
  show "unat (lease_slot_index lease) = k" using b(1) assms(2) by (simp add: eq)
  show "unat (pool_active pool') = unat (pool_active pool) + 1" using a by (simp add: eq)
qed (use assms(2,3,5) in \<open>auto simp: vps_pool_fill_lease_def Let_def\<close>)

section \<open>Waiters\<close>

lemma pool_inv_fields [simp]:
  "pool_inv live (pool\<lparr>pool_mutex := m\<rparr>) x = pool_inv live pool x"
  "pool_inv live (pool\<lparr>pool_condition := c\<rparr>) x = pool_inv live pool x"
  "pool_inv live (pool\<lparr>pool_logger := l\<rparr>) x = pool_inv live pool x"
  "pool_inv live (pool\<lparr>pool_closed := d\<rparr>) x = pool_inv live pool x"
  by (simp_all add: pool_inv_def pool_ok_def)

text \<open>The part of the pool that registers waiters, and the part that never changes after creation.\<close>

definition waiter_part :: "('p, 'x, 'w, 'c) VpsConnectionPool \<Rightarrow> VpsPoolWaiter list \<times> u32 \<times> u64" where
  "waiter_part pool = (pool_waiters pool, pool_waiting pool, pool_next_ticket pool)"

definition fixed_part ::
    "('p, 'x, 'w, 'c) VpsConnectionPool \<Rightarrow> 'x VpsConnectionPoolCallbacks \<times> u32 \<times> u32 \<times> u32 \<times> bool" where
  "fixed_part pool = (pool_callbacks pool, pool_maximum_size pool, pool_maximum_waiters pool,
     pool_wait_slice_ms pool, pool_closed pool)"

definition lease_part :: "('p, 'x, 'w, 'c) VpsConnectionPool \<Rightarrow> VpsPoolSlot list \<times> u32 \<times> u64" where
  "lease_part pool = (pool_slots pool, pool_active pool, pool_next_token pool)"

lemmas part_defs = waiter_part_def fixed_part_def lease_part_def

lemma pool_frame_parts:
  "pool_frame pool pool' \<Longrightarrow> waiter_part pool' = waiter_part pool \<and> fixed_part pool' = fixed_part pool"
  by (simp add: part_defs pool_frame_fields)

lemma waiter_remove:
  assumes "pool_inv live pool x"
  shows "pool_inv live (vps_pool_waiter_remove pool i) x"
    "lease_part (vps_pool_waiter_remove pool i) = lease_part pool"
    "fixed_part (vps_pool_waiter_remove pool i) = fixed_part pool"
proof -
  show "lease_part (vps_pool_waiter_remove pool i) = lease_part pool"
    "fixed_part (vps_pool_waiter_remove pool i) = fixed_part pool"
    by (simp_all add: vps_pool_waiter_remove_def part_defs)
  have ok: "pool_ok pool" using assms by (simp add: pool_inv_def)
  show "pool_inv live (vps_pool_waiter_remove pool i) x"
  proof (cases "i < pool_maximum_waiters pool \<and> waiter_active (pool_waiters pool ! unat i)")
    case True
    then have i: "unat i < length (pool_waiters pool)"
      using ok by (simp add: pool_ok_def word_less_nat_alt)
    have "0 < length (filter waiter_active (pool_waiters pool))"
      using i True by (intro length_filter_pos) auto
    then have "pool_waiting pool \<noteq> 0" using ok by (auto simp: pool_ok_def)
    then have "unat (pool_waiting pool - 1) = unat (pool_waiting pool) - 1" by (rule unat_pred)
    then show ?thesis
      using assms True length_filter_update [OF i, of waiter_active empty_waiter]
      by (auto simp: vps_pool_waiter_remove_def pool_inv_def pool_ok_def
          dest!: set_update_subset_insert [THEN subsetD])
  qed (use assms in \<open>auto simp: vps_pool_waiter_remove_def\<close>)
qed

text \<open>Removing a waiter that is not there changes nothing, so the second removal at the end of a
  successful acquisition has no effect.\<close>

lemma waiter_remove_again:
  assumes "waiter_part pool' = waiter_part (vps_pool_waiter_remove pool i)" "pool_ok pool"
    "pool_maximum_waiters pool' = pool_maximum_waiters pool"
  shows "vps_pool_waiter_remove pool' i = pool'"
proof -
  have "unat i < length (pool_waiters pool)" if "i < pool_maximum_waiters pool"
    using assms(2) that by (simp add: pool_ok_def word_less_nat_alt)
  with assms(1,3) show ?thesis
    by (auto simp: vps_pool_waiter_remove_def part_defs split: if_splits)
qed

lemma waiter_add:
  assumes "pool_inv live pool x" "vps_pool_waiter_add pool = (Some (i, t), pool')"
  shows "pool_inv live pool' x" "lease_part pool' = lease_part pool" "fixed_part pool' = fixed_part pool"
    "i < pool_maximum_waiters pool" "\<not> waiter_active (pool_waiters pool ! unat i)"
    "t = vps_pool_next_nonzero (pool_next_ticket pool)" "pool_next_ticket pool' = t"
    "pool_waiters pool' = (pool_waiters pool)[unat i := \<lparr>waiter_ticket = t, waiter_active = True\<rparr>]"
    "unat (pool_waiting pool') = unat (pool_waiting pool) + 1"
proof -
  have ok: "pool_ok pool" using assms(1) by (simp add: pool_inv_def)
  obtain k where k: "k < unat (pool_maximum_waiters pool)" "\<not> waiter_active (pool_waiters pool ! k)"
    "i = of_nat k" "t = vps_pool_next_nonzero (pool_next_ticket pool)"
    "pool' = pool\<lparr>pool_waiters := (pool_waiters pool)[k := \<lparr>waiter_ticket = t, waiter_active = True\<rparr>],
       pool_next_ticket := t, pool_waiting := pool_waiting pool + 1\<rparr>"
    using assms(2)
    by (auto simp: vps_pool_waiter_add_def Let_def find_Some_iff split: option.splits)
  then have kl: "k < length (pool_waiters pool)" and n: "unat i = k"
    using ok pool_ok_bounds(2) [OF ok] by (auto simp: pool_ok_def)
  have "length (filter waiter_active (pool_waiters pool)) < 4097"
    using pool_ok_bounds(2) [OF ok] length_filter_le [of waiter_active "pool_waiters pool"] by linarith
  then have "pool_waiting pool \<noteq> - 1"
    using ok by (auto simp: pool_ok_def unsigned_minus_1_eq_mask mask_eq_exp_minus_1)
  then have w: "unat (pool_waiting pool + 1) = unat (pool_waiting pool) + 1" by (rule unat_Suc_no_wrap)
  show "pool_inv live pool' x"
    using assms(1) k w length_filter_update [OF kl, of waiter_active "\<lparr>waiter_ticket = t, waiter_active = True\<rparr>"]
    by (auto simp: pool_inv_def pool_ok_def dest!: set_update_subset_insert [THEN subsetD])
  show "unat (pool_waiting pool') = unat (pool_waiting pool) + 1" using w k(5) by simp
  show "i < pool_maximum_waiters pool" using k(1) n by (simp add: word_less_nat_alt)
  show "lease_part pool' = lease_part pool" "fixed_part pool' = fixed_part pool"
    "\<not> waiter_active (pool_waiters pool ! unat i)"
    "t = vps_pool_next_nonzero (pool_next_ticket pool)" "pool_next_ticket pool' = t"
    "pool_waiters pool' = (pool_waiters pool)[unat i := \<lparr>waiter_ticket = t, waiter_active = True\<rparr>]"
    using k n by (simp_all add: part_defs)
qed

text \<open>The first ticket is a lower bound of the tickets of the active waiters.\<close>

lemma first_ticket_le:
  assumes "i < unat (pool_maximum_waiters pool)" "waiter_active (pool_waiters pool ! i)"
  shows "vps_pool_first_ticket pool \<le> waiter_ticket (pool_waiters pool ! i)"
proof -
  let ?f = "\<lambda>index first. if waiter_active (pool_waiters pool ! index) \<and>
      waiter_ticket (pool_waiters pool ! index) < first then waiter_ticket (pool_waiters pool ! index) else first"
  have le: "fold ?f xs first \<le> first" for xs first
    by (induction xs arbitrary: first) (auto intro: order_trans less_imp_le)
  have "i \<in> set xs \<Longrightarrow> fold ?f xs first \<le> waiter_ticket (pool_waiters pool ! i)" for xs first
  proof (induction xs arbitrary: first)
    case (Cons a xs)
    show ?case
    proof (cases "i = a")
      case True
      have "fold ?f xs (?f a first) \<le> ?f a first" by (rule le)
      also have "\<dots> \<le> waiter_ticket (pool_waiters pool ! i)" using True assms(2) by auto
      finally show ?thesis by simp
    qed (use Cons in auto)
  qed simp
  from this [of "[0..<unat (pool_maximum_waiters pool)]" UINT64_MAX] assms(1) show ?thesis
    by (simp add: vps_pool_first_ticket_def)
qed

section \<open>What an acquisition does\<close>

text \<open>The abstract effect of one part of an acquisition: it grants one lease or keeps all leases, and it
  registers or removes its own waiter only.\<close>

definition lease_kept :: "('p, 'x, 'w, 'c) VpsConnectionPool \<Rightarrow> ('p, 'x, 'w, 'c) VpsConnectionPool \<Rightarrow> bool" where
  "lease_kept pool pool' \<longleftrightarrow> slots_kept (pool_slots pool) (pool_slots pool') \<and>
     pool_active pool' = pool_active pool \<and> pool_next_token pool' = pool_next_token pool"

definition lease_current :: "('p, 'x, 'w, 'c) VpsConnectionPool \<Rightarrow> VpsConnectionLease \<Rightarrow> bool" where
  "lease_current pool lease \<longleftrightarrow> lease_pool lease \<and> lease_connection lease \<noteq> None \<and>
     unat (lease_slot_index lease) < length (pool_slots pool) \<and>
     (let slot = pool_slots pool ! unat (lease_slot_index lease) in
        slot_in_use slot \<and> slot_connection slot = lease_connection lease \<and> slot_lease_token slot = lease_token lease)"

definition slots_kept_but :: "nat \<Rightarrow> VpsPoolSlot list \<Rightarrow> VpsPoolSlot list \<Rightarrow> bool" where
  "slots_kept_but k slots slots' \<longleftrightarrow> length slots' = length slots \<and>
     (\<forall>i<length slots. i \<noteq> k \<longrightarrow> slot_in_use (slots' ! i) = slot_in_use (slots ! i) \<and>
        (slot_in_use (slots ! i) \<longrightarrow> slots' ! i = slots ! i))"

definition lease_granted ::
    "('p, 'x, 'w, 'c) VpsConnectionPool \<Rightarrow> VpsConnectionLease \<Rightarrow> ('p, 'x, 'w, 'c) VpsConnectionPool \<Rightarrow> bool" where
  "lease_granted pool lease pool' \<longleftrightarrow>
     lease_current pool' lease \<and> \<not> slot_in_use (pool_slots pool ! unat (lease_slot_index lease)) \<and>
     slots_kept_but (unat (lease_slot_index lease)) (pool_slots pool) (pool_slots pool') \<and>
     lease_token lease = vps_pool_next_nonzero (pool_next_token pool) \<and>
     pool_next_token pool' = lease_token lease \<and> unat (pool_active pool') = unat (pool_active pool) + 1"

definition frame_turn :: "'i acquire_frame \<Rightarrow> ('p, 'x, 'w, 'c) VpsConnectionPool \<Rightarrow> bool" where
  "frame_turn frame pool \<longleftrightarrow>
     (if frame_ticket frame = 0 then pool_waiting pool = 0
      else frame_ticket frame = vps_pool_first_ticket pool)"

definition waiters_of :: "('p, 'x, 'w, 'c) VpsConnectionPool \<Rightarrow> VpsPoolWaiter list \<times> u32" where
  "waiters_of pool = (pool_waiters pool, pool_waiting pool)"

fun acquire_effect ::
    "'i acquire_frame \<Rightarrow> ('p, 'x, 'w, 'c) VpsConnectionPool \<Rightarrow> 'i acquire_outcome \<Rightarrow>
     ('p, 'x, 'w, 'c) VpsConnectionPool \<Rightarrow> bool" where
  "acquire_effect frame pool (AcquireReturned result lease) pool' \<longleftrightarrow>
     fixed_part pool' = fixed_part pool \<and>
     waiters_of pool' = waiters_of (vps_pool_waiter_remove pool (frame_waiter_index frame)) \<and>
     (pool_next_ticket pool' = pool_next_ticket pool \<or>
      frame_ticket frame = 0 \<and> pool_next_ticket pool' = vps_pool_next_nonzero (pool_next_ticket pool)) \<and>
     (if result = VPS_CONNECTION_POOL_OK then lease_granted pool lease pool' \<and> frame_turn frame pool
      else lease_kept pool pool' \<and> lease = frame_lease frame)"
| "acquire_effect frame pool (AcquireSuspended frame') pool' \<longleftrightarrow>
     fixed_part pool' = fixed_part pool \<and> lease_kept pool pool' \<and> \<not> pool_closed pool \<and>
     frame_lease frame' = frame_lease frame \<and> frame_deadline frame' = frame_deadline frame \<and>
     (if frame_ticket frame \<noteq> 0
      then frame_ticket frame' = frame_ticket frame \<and> frame_waiter_index frame' = frame_waiter_index frame \<and>
           waiter_part pool' = waiter_part pool
      else \<exists>pool1. vps_pool_waiter_add pool = (Some (frame_waiter_index frame', frame_ticket frame'), pool1) \<and>
             waiter_part pool' = waiter_part pool1)"

lemma slots_kept_but_of [simp]: "slots_kept slots slots' \<Longrightarrow> slots_kept_but k slots slots'"
  by (simp add: slots_kept_def slots_kept_but_def)

lemma slots_kept_but_trans:
  "slots_kept a b \<Longrightarrow> slots_kept_but k b c \<Longrightarrow> slots_kept_but k a c"
  by (simp add: slots_kept_def slots_kept_but_def)

lemma slots_kept_but_update [simp]: "slots_kept_but k slots (slots[k := s])"
  by (auto simp: slots_kept_but_def)

lemma lease_kept_refl [simp]: "lease_kept pool pool"
  by (simp add: lease_kept_def)

lemma lease_kept_trans: "lease_kept a b \<Longrightarrow> lease_kept b c \<Longrightarrow> lease_kept a c"
  by (auto simp: lease_kept_def intro: slots_kept_trans)

lemma lease_kept_part: "lease_part pool' = lease_part pool \<Longrightarrow> lease_kept pool pool'"
  by (simp add: lease_kept_def part_defs)

lemma pool_frame_kept: "pool_frame pool pool' \<Longrightarrow> lease_kept pool pool'"
  by (simp add: lease_kept_def pool_frame_fields)

text \<open>The registered part of a frame: it is the frame's own waiter, or the frame is not registered.\<close>

lemma pool_unlock_parts:
  assumes "pool_unlock pool p = (pool', p')"
  shows "pool_inv live pool' x = pool_inv live pool x" "lease_part pool' = lease_part pool"
    "waiter_part pool' = waiter_part pool" "fixed_part pool' = fixed_part pool"
    "pool_memory pool' = pool_memory pool"
  using assms by (auto simp: pool_unlock_def part_defs split: prod.splits)

lemma pool_lock_parts:
  assumes "pool_lock pool p = (status, pool', p')"
  shows "pool_inv live pool' x = pool_inv live pool x" "lease_part pool' = lease_part pool"
    "waiter_part pool' = waiter_part pool" "fixed_part pool' = fixed_part pool"
  using assms by (auto simp: pool_lock_def part_defs split: prod.splits)

lemma pool_broadcast_parts:
  assumes "pool_broadcast pool p = (pool', p')"
  shows "pool_inv live pool' x = pool_inv live pool x" "lease_part pool' = lease_part pool"
    "waiter_part pool' = waiter_part pool" "fixed_part pool' = fixed_part pool"
  using assms by (auto simp: pool_broadcast_def part_defs split: prod.splits)

lemma pool_log_parts [simp]:
  "pool_inv live (vps_pool_log pool op r d) x = pool_inv live pool x"
  "lease_part (vps_pool_log pool op r d) = lease_part pool"
  "waiter_part (vps_pool_log pool op r d) = waiter_part pool"
  "fixed_part (vps_pool_log pool op r d) = fixed_part pool"
  by (simp_all add: vps_pool_log_def part_defs)

lemma waiter_remove_cong:
  assumes "waiter_part pool' = waiter_part pool" "fixed_part pool' = fixed_part pool"
  shows "waiter_part (vps_pool_waiter_remove pool' i) = waiter_part (vps_pool_waiter_remove pool i)"
  using assms by (auto simp: vps_pool_waiter_remove_def part_defs)

lemma waiter_remove_next_ticket [simp]:
  "pool_next_ticket (vps_pool_waiter_remove pool i) = pool_next_ticket pool"
  by (simp add: vps_pool_waiter_remove_def)

lemma acquire_finish:
  assumes "pool_inv live pool x" "pool_acquire_finish frame r lease (pool, x, p) = (out, (pool', x', p'))"
  shows "out = AcquireReturned r lease" "x' = x" "pool_inv live pool' x'"
    "lease_part pool' = lease_part pool" "fixed_part pool' = fixed_part pool"
    "waiter_part pool' = waiter_part (vps_pool_waiter_remove pool (frame_waiter_index frame))"
proof -
  let ?pool1 = "vps_pool_waiter_remove pool (frame_waiter_index frame)"
  obtain d p1 p2 where u: "pool_unlock (vps_pool_log ?pool1 ''pool_acquire'' r d) p1 = (pool', p2)"
    and o: "out = AcquireReturned r lease" "x' = x"
    using assms(2) by (auto simp: pool_acquire_finish_def Let_def split: prod.splits)
  note parts = pool_unlock_parts [OF u] waiter_remove [OF assms(1), of "frame_waiter_index frame"]
  from o show "out = AcquireReturned r lease" "x' = x" by auto
  show "pool_inv live pool' x'" "lease_part pool' = lease_part pool" "fixed_part pool' = fixed_part pool"
    "waiter_part pool' = waiter_part (vps_pool_waiter_remove pool (frame_waiter_index frame))"
    using parts o by (auto simp: parts)
qed

text \<open>A refusal at a point where all leases and waiters are as they were.\<close>

lemma acquire_refuse:
  assumes "pool_inv live pool1 x1" "lease_kept pool pool1" "fixed_part pool1 = fixed_part pool"
    "waiter_part pool1 = waiter_part pool" "r \<noteq> VPS_CONNECTION_POOL_OK"
    "pool_acquire_finish frame r (frame_lease frame) (pool1, x1, p) = (out, (pool', x', p'))"
  shows "pool_inv live pool' x' \<and> acquire_effect frame pool out pool'"
proof -
  note f = acquire_finish [OF assms(1,6)]
  have "lease_kept pool pool'"
    using lease_kept_trans [OF assms(2) lease_kept_part [OF f(4)]] .
  then show ?thesis
    using f assms(3-5) waiter_remove_cong [OF assms(4,3)]
    by (simp add: waiters_of_def waiter_part_def)
qed

lemma waiter_add_None: "vps_pool_waiter_add pool = (None, pool') \<Longrightarrow> pool' = pool"
  by (auto simp: vps_pool_waiter_add_def Let_def split: option.splits)

lemma waiter_add_cong:
  assumes "waiter_part pool1 = waiter_part pool" "fixed_part pool1 = fixed_part pool"
    "vps_pool_waiter_add pool1 = (r, pool1')"
  obtains pool' where "vps_pool_waiter_add pool = (r, pool')" "waiter_part pool1' = waiter_part pool'"
proof -
  obtain r' pool' where a: "vps_pool_waiter_add pool = (r', pool')" by (metis surj_pair)
  have "r' = r" "waiter_part pool1' = waiter_part pool'"
    using assms a by (auto simp: vps_pool_waiter_add_def part_defs Let_def split: option.splits)
  with a that show ?thesis by simp
qed

text \<open>Adding a waiter and removing it again leaves the waiters as they were.\<close>

lemma waiter_add_remove:
  assumes "pool_inv live pool x" "vps_pool_waiter_add pool = (Some (i, t), pool')"
  shows "waiters_of (vps_pool_waiter_remove pool' i) = waiters_of pool"
proof -
  note a = waiter_add [OF assms]
  have ok: "pool_ok pool" using assms(1) by (simp add: pool_inv_def)
  have i: "unat i < length (pool_waiters pool)"
    using a(4) ok by (simp add: pool_ok_def word_less_nat_alt)
  then have "pool_waiters pool ! unat i \<in> set (pool_waiters pool)" by simp
  then have "pool_waiters pool ! unat i = empty_waiter"
    using ok a(5) unfolding pool_ok_def by (auto intro!: VpsPoolWaiter.equality)
  then have w: "(pool_waiters pool)[unat i := empty_waiter] = pool_waiters pool"
    by (metis list_update_id)
  have "pool_waiting pool' = pool_waiting pool + 1"
    using assms(2) by (auto simp: vps_pool_waiter_add_def Let_def split: option.splits)
  with a(3,4,8) i w show ?thesis
    by (simp add: vps_pool_waiter_remove_def waiters_of_def fixed_part_def)
qed

lemma waiter_remove_none:
  "vps_pool_waiter_remove pool i = pool" if "\<not> i < pool_maximum_waiters pool"
  using that by (simp add: vps_pool_waiter_remove_def)

lemma acquire_wait:
  assumes "pool_inv live pool1 x1" "lease_kept pool pool1" "fixed_part pool1 = fixed_part pool"
    "waiter_part pool1 = waiter_part pool" "\<not> pool_closed pool"
    "frame_ticket frame = 0 \<Longrightarrow> \<not> frame_waiter_index frame < pool_maximum_waiters pool"
    "pool_acquire_wait frame now (pool1, x1, p) = (out, (pool', x', p'))"
  shows "pool_inv live pool' x' \<and> acquire_effect frame pool out pool'"
proof (cases "frame_ticket frame = 0")
  case registered: False
  obtain r v where d: "vps_deadline_remaining_at (Some (frame_deadline frame)) now (Some (0, False)) = (r, v)"
    by (metis surj_pair)
  let ?w = "(pool1, x1, p)"
  consider b where "b \<noteq> VPS_CONNECTION_POOL_OK" "pool_acquire_finish frame b (frame_lease frame) ?w = (out, (pool', x', p'))"
    | tm where "out = AcquireSuspended (frame\<lparr>frame_timeout_ms := tm\<rparr>)" "pool' = pool1" "x' = x1"
    using assms(7) registered d
    by (auto simp: pool_acquire_wait_def Let_def split: VpsDeadlineStatus.splits option.splits prod.splits if_splits)
  then show ?thesis
  proof cases
    case 1
    from acquire_refuse [OF assms(1-4) this] show ?thesis .
  next
    case 2
    then show ?thesis using assms registered by simp
  qed
next
  case fresh: True
  obtain r pool2 where a: "vps_pool_waiter_add pool1 = (r, pool2)" by (metis surj_pair)
  show ?thesis
  proof (cases r)
    case None
    then have "pool_acquire_finish frame VPS_CONNECTION_POOL_BUSY (frame_lease frame) (pool1, x1, p) = (out, (pool', x', p'))"
      using assms(7) fresh a waiter_add_None [of pool1 pool2] by (simp add: pool_acquire_wait_def)
    from acquire_refuse [OF assms(1-4) _ this] show ?thesis by simp
  next
    case (Some it)
    then obtain i t where it: "r = Some (i, t)" by (metis surj_pair)
    note wa = waiter_add [OF assms(1) a [unfolded it]]
    let ?f = "frame\<lparr>frame_waiter_index := i, frame_ticket := t\<rparr>"
    obtain s v where d: "vps_deadline_remaining_at (Some (frame_deadline frame)) now (Some (0, False)) = (s, v)"
      by (metis surj_pair)
    have kept: "lease_kept pool pool2" using lease_kept_trans [OF assms(2) lease_kept_part [OF wa(2)]] .
    consider b where "b \<noteq> VPS_CONNECTION_POOL_OK" "pool_acquire_finish ?f b (frame_lease frame) (pool2, x1, p) = (out, (pool', x', p'))"
      | tm where "out = AcquireSuspended (?f\<lparr>frame_timeout_ms := tm\<rparr>)" "pool' = pool2" "x' = x1"
      using assms(7) fresh d a it
      by (auto simp: pool_acquire_wait_def Let_def split: VpsDeadlineStatus.splits option.splits prod.splits if_splits)
    then show ?thesis
    proof cases
      case 1
      note f = acquire_finish [OF wa(1) 1(2)]
      have "waiters_of pool' = waiters_of pool"
        using f(6) waiter_add_remove [OF assms(1) a [unfolded it]] assms(4)
        by (simp add: waiters_of_def waiter_part_def)
      moreover have "pool_next_ticket pool' = vps_pool_next_nonzero (pool_next_ticket pool)"
        using f(6) wa(6,7) assms(4) by (simp add: waiter_part_def)
      ultimately show ?thesis
        using f 1(1) fresh wa(3) assms(3,6) lease_kept_trans [OF kept lease_kept_part [OF f(4)]]
        by (simp add: waiter_remove_none)
    next
      case 2
      obtain pool3 where "vps_pool_waiter_add pool = (Some (i, t), pool3)" "waiter_part pool2 = waiter_part pool3"
        using waiter_add_cong [OF assms(4,3) a] it by metis
      then show ?thesis using 2 fresh wa(1,3) assms(3,5) kept by auto
    qed
  qed
qed

lemma acquire_grant:
  assumes "pool_inv live pool x" "vps_pool_take_available pool now x = (VPS_CONNECTION_POOL_OK, k, pool1, x1)"
    "vps_pool_fill_lease (vps_pool_waiter_remove pool1 (frame_waiter_index frame)) k = (pool2, lease)"
    "pool_broadcast pool2 p = (pool3, p1)" "frame_turn frame pool"
    "pool_acquire_finish frame VPS_CONNECTION_POOL_OK lease (pool3, x1, p1) = (out, (pool', x', p'))"
  shows "pool_inv live pool' x' \<and> acquire_effect frame pool out pool'"
proof -
  let ?i = "frame_waiter_index frame"
  let ?p1 = "vps_pool_waiter_remove pool1 ?i"
  note ta = take_available [OF assms(1,2)]
  note wr = waiter_remove [OF ta(1), of ?i]
  have slot: "k < length (pool_slots ?p1)" "slot_connection (pool_slots ?p1 ! k) \<noteq> None"
    "\<not> slot_in_use (pool_slots ?p1 ! k)"
    using ta(3) wr(2) by (auto simp: lease_part_def)
  note fl = fill_lease [OF wr(1) slot assms(3)]
  have fl_parts: "waiter_part pool2 = waiter_part ?p1" "fixed_part pool2 = fixed_part ?p1"
    using assms(3) by (auto simp: vps_pool_fill_lease_def Let_def part_defs)
  note pb = pool_broadcast_parts [OF assms(4)]
  note fp = pool_frame_parts [OF ta(2)]
  have fixed: "fixed_part pool3 = fixed_part pool" using fp fl_parts pb wr by simp
  have ok1: "pool_ok pool1" using ta(1) by (simp add: pool_inv_def)
  have again: "vps_pool_waiter_remove pool3 ?i = pool3"
    using waiter_remove_again [OF _ ok1, of pool3 ?i] pb(3) fl_parts(1) fixed fp by (simp add: fixed_part_def)
  have "pool_inv live pool3 x1" using fl(1) pb(1) by simp
  note f = acquire_finish [OF this assms(6)]
  have waiters: "waiter_part pool' = waiter_part (vps_pool_waiter_remove pool ?i)"
    using f(6) again pb(3) fl_parts(1) waiter_remove_cong [of pool1 pool ?i] fp by simp
  have lp: "lease_part pool' = lease_part pool2" using f(4) pb(2) by simp
  have sl: "pool_slots pool1 = pool_slots ?p1" "pool_next_token pool1 = pool_next_token ?p1"
    "pool_active pool1 = pool_active ?p1"
    using wr(2) by (simp_all add: lease_part_def)
  note pf = pool_frame_fields [OF ta(2)]
  have kept: "slots_kept_but k (pool_slots pool) (pool_slots pool')"
  proof (rule slots_kept_but_trans)
    show "slots_kept (pool_slots pool) (pool_slots pool1)" by (rule pf)
    show "slots_kept_but k (pool_slots pool1) (pool_slots pool')"
      using fl(8) lp sl(1) by (metis slots_kept_but_update lease_part_def prod.inject)
  qed
  have "\<not> slot_in_use (pool_slots pool ! k)"
    using slot(1,3) pf(13) sl(1) by (simp add: slots_kept_def)
  moreover have "lease_current pool' lease"
  proof -
    have "pool_slots pool' = pool_slots pool2" using lp by (simp add: lease_part_def)
    moreover have "length (pool_slots pool2) = length (pool_slots ?p1)" using fl(8) by (metis length_list_update)
    ultimately show ?thesis using fl(2,3,9-12) slot(1) by (simp add: lease_current_def)
  qed
  ultimately have "lease_granted pool lease pool'"
    using kept fl(2,5-7) lp sl pf(6,8) by (simp add: lease_granted_def lease_part_def)
  then show ?thesis
    using f(1,3,5) fixed waiters assms(5) by (simp add: waiters_of_def waiter_part_def)
qed

lemma acquire_take:
  assumes "pool_inv live pool x" "\<not> pool_closed pool"
    "frame_ticket frame = 0 \<Longrightarrow> \<not> frame_waiter_index frame < pool_maximum_waiters pool"
    "pool_acquire_take frame (pool, x, p) = (out, (pool', x', p'))"
  shows "pool_inv live pool' x' \<and> acquire_effect frame pool out pool'"
proof -
  obtain s now p1 where c: "vps_platform_monotonic_now_ms (pool_platform pool) 0 p = (s, now, p1)"
    by (metis prod_cases3)
  consider (clock) "s \<noteq> VPS_PLATFORM_OK" | (turn) "s = VPS_PLATFORM_OK" "frame_turn frame pool"
    | (wait) "s = VPS_PLATFORM_OK" "\<not> frame_turn frame pool" by blast
  then show ?thesis
  proof cases
    case clock
    then have "pool_acquire_finish frame VPS_CONNECTION_POOL_PLATFORM_ERROR (frame_lease frame) (pool, x, p1) =
        (out, (pool', x', p'))"
      using assms(4) c by (simp add: pool_acquire_take_def)
    from acquire_refuse [OF assms(1) lease_kept_refl refl refl _ this] show ?thesis by simp
  next
    case wait
    then have "pool_acquire_wait frame now (pool, x, p1) = (out, (pool', x', p'))"
      using assms(4) c by (auto simp: pool_acquire_take_def frame_turn_def split: if_splits)
    from acquire_wait [OF assms(1) lease_kept_refl refl refl assms(2,3) this] show ?thesis by simp
  next
    case turn
    obtain r k pool1 x1 where t: "vps_pool_take_available pool now x = (r, k, pool1, x1)" by (metis prod_cases4)
    note ta = take_available [OF assms(1) t]
    note fp = pool_frame_parts [OF ta(2)]
    have b: "frame_ticket frame = 0 \<and> pool_waiting pool = 0 \<or>
        frame_ticket frame \<noteq> 0 \<and> frame_ticket frame = vps_pool_first_ticket pool"
      using turn(2) by (auto simp: frame_turn_def split: if_splits)
    show ?thesis
    proof (cases "r = VPS_CONNECTION_POOL_OK")
      case True
      obtain pool2 lease where fl: "vps_pool_fill_lease (vps_pool_waiter_remove pool1 (frame_waiter_index frame)) k =
          (pool2, lease)" by (metis surj_pair)
      obtain pool3 p2 where br: "pool_broadcast pool2 p1 = (pool3, p2)" by (metis surj_pair)
      have "pool_acquire_finish frame VPS_CONNECTION_POOL_OK lease (pool3, x1, p2) = (out, (pool', x', p'))"
        using assms(4) c turn(1) b t True fl br by (simp add: pool_acquire_take_def)
      with t True show ?thesis by (intro acquire_grant [OF assms(1) _ fl br turn(2)]) auto
    next
      case False
      show ?thesis
      proof (cases "r = VPS_CONNECTION_POOL_BUSY")
        case True
        then have "pool_acquire_wait frame now (pool1, x1, p1) = (out, (pool', x', p'))"
          using assms(4) c turn(1) b t by (simp add: pool_acquire_take_def)
        from acquire_wait [OF ta(1) pool_frame_kept [OF ta(2)] _ _ assms(2,3) this] fp show ?thesis by simp
      next
        case other: False
        then have "pool_acquire_finish frame r (frame_lease frame) (pool1, x1, p1) = (out, (pool', x', p'))"
          using assms(4) c turn(1) b t False by (simp add: pool_acquire_take_def)
        from acquire_refuse [OF ta(1) pool_frame_kept [OF ta(2)] _ _ False this] fp show ?thesis by simp
      qed
    qed
  qed
qed

text \<open>The effect does not look at the interrupt context.\<close>

lemma acquire_effect_context [simp]:
  "acquire_effect (frame\<lparr>frame_interrupt_context := i\<rparr>) pool out pool' = acquire_effect frame pool out pool'"
  by (cases out) (simp_all add: frame_turn_def)

lemma acquire_pass:
  assumes "pool_inv live pool x"
    "frame_ticket frame = 0 \<Longrightarrow> \<not> frame_waiter_index frame < pool_maximum_waiters pool"
    "pool_acquire_pass frame (pool, x, p) = (out, (pool', x', p'))"
  shows "pool_inv live pool' x' \<and> acquire_effect frame pool out pool'"
proof -
  note refuse = acquire_refuse [OF assms(1) lease_kept_refl refl refl]
  show ?thesis
  proof (cases "pool_closed pool \<or> frame_interrupt_probe frame = None")
    case True
    then show ?thesis
      using assms(3) refuse [of VPS_CONNECTION_POOL_CLOSED frame p out pool' x' p']
        acquire_take [OF assms(1) _ assms(2), of p out pool' x' p']
      by (auto simp: pool_acquire_pass_def split: if_splits)
  next
    case False
    then obtain probe a i where pr: "frame_interrupt_probe frame = Some probe"
      "probe (frame_interrupt_context frame) = (a, i)" by (metis not_None_eq surj_pair)
    let ?f = "frame\<lparr>frame_interrupt_context := i\<rparr>"
    show ?thesis
    proof (cases "a = VPS_INTERRUPT_CONTINUE")
      case True
      then have "pool_acquire_take ?f (pool, x, p) = (out, (pool', x', p'))"
        using assms(3) False pr by (simp add: pool_acquire_pass_def)
      from acquire_take [OF assms(1) _ _ this] False assms(2) show ?thesis by simp
    next
      case stop: False
      obtain r where "r \<noteq> VPS_CONNECTION_POOL_OK"
        "pool_acquire_finish ?f r (frame_lease ?f) (pool, x, p) = (out, (pool', x', p'))"
        using assms(3) False pr stop by (auto simp: pool_acquire_pass_def Let_def split: if_splits)
      from refuse [OF this] show ?thesis by simp
    qed
  qed
qed

text \<open>The effect looks at the three parts of the pool only.\<close>

lemma first_ticket_cong:
  assumes "waiter_part pool1 = waiter_part pool" "fixed_part pool1 = fixed_part pool"
  shows "vps_pool_first_ticket pool1 = vps_pool_first_ticket pool"
proof -
  have "pool_waiters pool1 = pool_waiters pool" "pool_maximum_waiters pool1 = pool_maximum_waiters pool"
    using assms by (simp_all add: part_defs)
  then show ?thesis unfolding vps_pool_first_ticket_def by (simp only:)
qed

lemma acquire_effect_cong:
  assumes "waiter_part pool1 = waiter_part pool" "fixed_part pool1 = fixed_part pool"
    "lease_part pool1 = lease_part pool"
  shows "acquire_effect frame pool1 out pool' \<Longrightarrow> acquire_effect frame pool out pool'"
proof (cases out)
  case (AcquireReturned r lease)
  assume "acquire_effect frame pool1 out pool'"
  then show ?thesis
    using assms waiter_remove_cong [OF assms(1,2), of "frame_waiter_index frame"] first_ticket_cong [OF assms(1,2)]
    by (auto simp: AcquireReturned lease_granted_def lease_kept_def lease_part_def waiter_part_def
        waiters_of_def frame_turn_def split: if_splits)
next
  case (AcquireSuspended frame')
  assume e: "acquire_effect frame pool1 out pool'"
  have "\<exists>pool2. vps_pool_waiter_add pool = (Some (frame_waiter_index frame', frame_ticket frame'), pool2) \<and>
      waiter_part pool' = waiter_part pool2" if "frame_ticket frame = 0"
    using e that waiter_add_cong [OF assms(1,2)] by (metis AcquireSuspended acquire_effect.simps(2))
  with e assms show ?thesis
    by (simp add: AcquireSuspended lease_kept_def lease_part_def fixed_part_def)
qed

lemma acquire_resume:
  assumes "pool_inv live pool x" "frame_ticket frame \<noteq> 0"
    "pool_acquire_resume frame (pool, x, p) = (out, (pool', x', p'))"
  shows "pool_inv live pool' x' \<and> acquire_effect frame pool out pool'"
proof -
  obtain s c m p1 where w: "vps_platform_condition_wait (pool_platform pool) (pool_condition pool) (pool_mutex pool)
      (frame_timeout_ms frame) p = (s, (c, m), p1)"
    by (metis prod.collapse)
  let ?pool = "pool\<lparr>pool_condition := c, pool_mutex := m\<rparr>"
  have inv: "pool_inv live ?pool x" using assms(1) by simp
  have kept: "lease_kept pool ?pool" "fixed_part ?pool = fixed_part pool" "waiter_part ?pool = waiter_part pool"
    by (simp_all add: lease_kept_def part_defs)
  show ?thesis
  proof (cases "s = VPS_PLATFORM_OK \<or> s = VPS_PLATFORM_TIMEOUT")
    case True
    then have "pool_acquire_pass frame (?pool, x, p1) = (out, (pool', x', p'))"
      using assms(3) w by (auto simp: pool_acquire_resume_def)
    from acquire_pass [OF inv _ this] assms(2) have
      "pool_inv live pool' x' \<and> acquire_effect frame ?pool out pool'" by simp
    moreover have "lease_part ?pool = lease_part pool" by (simp add: lease_part_def)
    ultimately show ?thesis using acquire_effect_cong [OF kept(3,2)] by blast
  next
    case False
    then have "pool_acquire_finish frame VPS_CONNECTION_POOL_PLATFORM_ERROR (frame_lease frame) (?pool, x, p1) =
        (out, (pool', x', p'))"
      using assms(3) w by (auto simp: pool_acquire_resume_def)
    from acquire_refuse [OF inv kept _ this] show ?thesis by simp
  qed
qed

text \<open>A call that comes to the loop starts as an unregistered frame.\<close>

lemma acquire_enter:
  assumes "pool_inv live pool x"
    "pool_acquire_enter key timeout probe i lease_ptr (pool, x, p) = (r, (pool', x', p'))"
  shows "pool_inv live pool' x'"
    and "case r of
      Inl e \<Rightarrow> e \<noteq> VPS_CONNECTION_POOL_OK \<and> x' = x \<and> lease_part pool' = lease_part pool \<and>
        waiter_part pool' = waiter_part pool \<and> fixed_part pool' = fixed_part pool
    | Inr out \<Rightarrow> \<exists>frame. frame_ticket frame = 0 \<and> frame_waiter_index frame = UINT32_MAX \<and>
        lease_ptr = Some (frame_lease frame) \<and> vps_pool_key_matches pool key \<and> acquire_effect frame pool out pool'"
proof -
  have "pool_inv live pool' x' \<and>
    (case r of
      Inl e \<Rightarrow> e \<noteq> VPS_CONNECTION_POOL_OK \<and> x' = x \<and> lease_part pool' = lease_part pool \<and>
        waiter_part pool' = waiter_part pool \<and> fixed_part pool' = fixed_part pool
    | Inr out \<Rightarrow> \<exists>frame. frame_ticket frame = 0 \<and> frame_waiter_index frame = UINT32_MAX \<and>
        lease_ptr = Some (frame_lease frame) \<and> vps_pool_key_matches pool key \<and> acquire_effect frame pool out pool')"
  proof (cases r)
    case (Inl e)
    with assms show ?thesis
      by (auto simp: pool_acquire_enter_def Let_def dest: pool_lock_parts
          split: option.splits prod.splits if_splits VpsDeadlineStatus.splits)
  next
    case (Inr out)
    then obtain d lease pool1 p1 p2 where l: "pool_lock pool p1 = (VPS_PLATFORM_OK, pool1, p2)"
      and lp: "lease_ptr = Some lease" "vps_pool_key_matches pool key"
      and ps: "pool_acquire_pass \<lparr>frame_deadline = d, frame_waiter_index = UINT32_MAX, frame_ticket = 0,
         frame_interrupt_probe = probe, frame_interrupt_context = i, frame_lease = lease,
         frame_timeout_ms = 0\<rparr> (pool1, x, p2) = (out, (pool', x', p'))"
      (is "pool_acquire_pass ?f _ = _")
      using assms(2)
      by (auto simp: pool_acquire_enter_def split: option.splits prod.splits if_splits VpsDeadlineStatus.splits)
    note lk = pool_lock_parts [OF l]
    have "\<not> UINT32_MAX < pool_maximum_waiters pool1" by (simp add: not_less)
    with acquire_pass [OF _ _ ps, of live] assms(1) lk(1) have
      e: "pool_inv live pool' x' \<and> acquire_effect ?f pool1 out pool'" by simp
    then have "acquire_effect ?f pool out pool'"
      using acquire_effect_cong [OF lk(3,4,2)] by blast
    with e lp Inr show ?thesis by (auto intro!: exI [of _ ?f])
  qed
  then show "pool_inv live pool' x'"
    and "case r of
      Inl e \<Rightarrow> e \<noteq> VPS_CONNECTION_POOL_OK \<and> x' = x \<and> lease_part pool' = lease_part pool \<and>
        waiter_part pool' = waiter_part pool \<and> fixed_part pool' = fixed_part pool
    | Inr out \<Rightarrow> \<exists>frame. frame_ticket frame = 0 \<and> frame_waiter_index frame = UINT32_MAX \<and>
        lease_ptr = Some (frame_lease frame) \<and> vps_pool_key_matches pool key \<and> acquire_effect frame pool out pool'"
    by blast+
qed

section \<open>What a release and closing do\<close>

definition release_effect ::
    "VpsConnectionLease \<Rightarrow> ('p, 'x, 'w, 'c) VpsConnectionPool \<Rightarrow> VpsConnectionLease \<Rightarrow>
     ('p, 'x, 'w, 'c) VpsConnectionPool \<Rightarrow> bool" where
  "release_effect lease pool lease' pool' \<longleftrightarrow>
     fixed_part pool' = fixed_part pool \<and> waiter_part pool' = waiter_part pool \<and>
     pool_next_token pool' = pool_next_token pool \<and>
     (if lease' = lease then lease_kept pool pool'
      else lease' = empty_lease \<and> lease_current pool lease \<and>
        slots_kept_but (unat (lease_slot_index lease)) (pool_slots pool) (pool_slots pool') \<and>
        \<not> slot_in_use (pool_slots pool' ! unat (lease_slot_index lease)) \<and>
        unat (pool_active pool') + 1 = unat (pool_active pool))"

lemma release_slot:
  assumes "pool_inv live pool x" "k < length (pool_slots pool)" "slot_in_use (pool_slots pool ! k)"
    "pool_release_slot disposition k (pool, x, p) = (r, (pool', x', p'))"
  shows "pool_inv live pool' x'" "fixed_part pool' = fixed_part pool" "waiter_part pool' = waiter_part pool"
    "pool_next_token pool' = pool_next_token pool"
    "slots_kept_but k (pool_slots pool) (pool_slots pool')" "\<not> slot_in_use (pool_slots pool' ! k)"
    "unat (pool_active pool') + 1 = unat (pool_active pool)"
proof -
  let ?s = "(pool_slots pool ! k)\<lparr>slot_in_use := False, slot_lease_token := 0\<rparr>"
  let ?p1 = "pool\<lparr>pool_slots := (pool_slots pool)[k := ?s], pool_active := pool_active pool - 1\<rparr>"
  have ok: "pool_ok pool" using assms(1) by (simp add: pool_inv_def)
  have "0 < length (filter slot_in_use (pool_slots pool))" using assms(2,3) by (intro length_filter_pos)
  then have "pool_active pool \<noteq> 0" using ok by (auto simp: pool_ok_def)
  then have a: "unat (pool_active pool - 1) + 1 = unat (pool_active pool)"
    by (simp add: unat_pred unat_gt_0)
  have "pool_ok ?p1"
    using ok assms(2,3) a length_filter_update [OF assms(2), of "\<lambda>slot. slot_connection slot \<noteq> None" ?s]
      length_filter_update [OF assms(2), of slot_in_use ?s]
    by (auto simp: pool_ok_def dest!: set_update_subset_insert [THEN subsetD])
  moreover have "slots_own live (pool_slots ?p1) x"
    using assms(1) by (auto intro!: slots_own_update simp: pool_inv_def)
  ultimately have inv1: "pool_inv live ?p1 x" using assms(1) by (simp add: pool_inv_def)
  have acc: "callbacks_account (pool_callbacks pool) live" using assms(1) by (simp add: pool_inv_def)
  consider (destroyed) x1 where "live x1 = live x" "vps_pool_destroy_slot ?p1 k x1 = (pool', x')"
    | (stored) now where "live x' = live x"
      "pool' = ?p1\<lparr>pool_slots := (pool_slots ?p1)[k := ?s\<lparr>slot_last_used_ms := now\<rparr>]\<rparr>"
  proof -
    obtain rr x1 where rs: "(case cb_reset (pool_callbacks pool) of None \<Rightarrow> (VPS_CONNECTION_POOL_OK, x)
        | Some reset \<Rightarrow> reset x (the (slot_connection ?s))) = (rr, x1)" by (metis surj_pair)
    have l: "live x1 = live x"
    proof (cases "cb_reset (pool_callbacks pool)")
      case (Some reset)
      then show ?thesis
        using callbacks_accountD(4) [OF acc Some, of x "the (slot_connection ?s)"] rs by simp
    qed (use rs in simp)
    then show ?thesis
      using assms(4) rs by (auto simp: pool_release_slot_def Let_def split: prod.splits if_splits intro: destroyed stored)
  qed
  then have "pool_inv live pool' x' \<and> fixed_part pool' = fixed_part pool \<and> waiter_part pool' = waiter_part pool \<and>
    pool_next_token pool' = pool_next_token pool \<and> slots_kept_but k (pool_slots pool) (pool_slots pool') \<and>
    \<not> slot_in_use (pool_slots pool' ! k) \<and> pool_active pool' = pool_active pool - 1"
  proof cases
    case destroyed
    have "k < length (pool_slots ?p1)" "\<not> slot_in_use (pool_slots ?p1 ! k)" using assms(2) by simp_all
    note ds = destroy_slot [OF pool_inv_live [OF inv1 destroyed(1)] this destroyed(2)]
    note fr = pool_frame_fields [OF ds(2)] pool_frame_parts [OF ds(2)]
    have "slots_kept_but k (pool_slots pool) (pool_slots pool')"
      using fr(13) by (auto simp: slots_kept_but_def slots_kept_def)
    moreover have "\<not> slot_in_use (pool_slots pool' ! k)"
      using fr(13) assms(2) by (auto simp: slots_kept_def)
    ultimately show ?thesis using ds(1) fr by (auto simp: part_defs)
  next
    case stored
    have "\<forall>slot\<in>set (pool_slots pool). slot_in_use slot \<longrightarrow> slot_connection slot \<noteq> None"
      using ok by (simp add: pool_ok_def)
    then have "pool_ok pool'"
      using inv1 assms(2) length_filter_update [of k "pool_slots ?p1" "\<lambda>slot. slot_connection slot \<noteq> None" "?s\<lparr>slot_last_used_ms := now\<rparr>"]
        length_filter_update [of k "pool_slots ?p1" slot_in_use "?s\<lparr>slot_last_used_ms := now\<rparr>"]
      by (auto simp: stored pool_ok_def pool_inv_def dest!: set_update_subset_insert [THEN subsetD])
    moreover have "slots_own live (pool_slots pool') x'"
      unfolding stored using assms(1) stored(1) by (auto intro!: slots_own_update simp: pool_inv_def)
    ultimately show ?thesis
      using acc assms(2) by (auto simp: stored pool_inv_def part_defs)
  qed
  then show "pool_inv live pool' x'" "fixed_part pool' = fixed_part pool" "waiter_part pool' = waiter_part pool"
    "pool_next_token pool' = pool_next_token pool"
    "slots_kept_but k (pool_slots pool) (pool_slots pool')" "\<not> slot_in_use (pool_slots pool' ! k)"
    "unat (pool_active pool') + 1 = unat (pool_active pool)"
    using a by auto
qed

lemma unlock_world_parts:
  assumes "pool_unlock_world (pool, x, p) = (pool', x', p')"
  shows "x' = x" "pool_inv live pool' x = pool_inv live pool x" "lease_part pool' = lease_part pool"
    "waiter_part pool' = waiter_part pool" "fixed_part pool' = fixed_part pool"
proof -
  obtain p1 where "pool_unlock pool p = (pool', p1)" "x' = x"
    using assms by (auto simp: pool_unlock_world_def split: prod.splits)
  then show "x' = x" "pool_inv live pool' x = pool_inv live pool x" "lease_part pool' = lease_part pool"
    "waiter_part pool' = waiter_part pool" "fixed_part pool' = fixed_part pool"
    by (simp_all add: pool_unlock_parts)
qed

lemma lease_release:
  assumes "pool_inv live pool x"
    "vps_connection_lease_release (Some lease) disposition (pool, x, p) = (r, lease_ptr, (pool', x', p'))"
  obtains lease' where "lease_ptr = Some lease'" "pool_inv live pool' x'" "release_effect lease pool lease' pool'"
proof -
  consider (same) "lease_ptr = Some lease" "pool' = pool" "x' = x"
    | (locked) status pool1 p1 where "lease_pool lease" "pool_lock pool p = (status, pool1, p1)"
    using assms(2) by (auto simp: vps_connection_lease_release_def split: prod.splits if_splits)
  then show ?thesis
  proof cases
    case same
    with assms(1) show ?thesis by (intro that [of lease]) (auto simp: release_effect_def)
  next
    case locked
    note lk = pool_lock_parts [OF locked(2)]
    have inv1: "pool_inv live pool1 x" using assms(1) lk(1) by simp
    then have ok1: "pool_ok pool1" by (simp add: pool_inv_def)
    let ?k = "unat (lease_slot_index lease)"
    show ?thesis
    proof (cases "lease_slot_index lease < pool_maximum_size pool1 \<and> lease_current pool1 lease \<and>
        status = VPS_PLATFORM_OK \<and> (disposition = VPS_CONNECTION_LEASE_CLEAN \<or> disposition = VPS_CONNECTION_LEASE_DIRTY)")
      case True
      then obtain pool2 x2 p2 pool3 p3 where rs: "pool_release_slot disposition ?k (pool1, x, p1) = (r, (pool2, x2, p2))"
        and br: "pool_broadcast pool2 p2 = (pool3, p3)" and lp: "lease_ptr = Some empty_lease"
        and ul: "pool_unlock_world (vps_pool_log pool3 ''pool_release'' r 0, x2, p3) = (pool', x', p')"
        using assms(2) locked
        by (auto simp: vps_connection_lease_release_def lease_current_def Let_def split: prod.splits if_splits)
      have cur: "lease_current pool lease" using True lk(2) by (simp add: lease_current_def lease_part_def)
      have "?k < length (pool_slots pool1)" "slot_in_use (pool_slots pool1 ! ?k)"
        using True by (auto simp: lease_current_def Let_def)
      note rl = release_slot [OF inv1 this rs]
      note u = unlock_world_parts [OF ul] pool_broadcast_parts [OF br]
      have inv: "pool_inv live pool' x'" using u rl(1) by simp
      have "lease_part pool' = lease_part pool2" using u(3,7) by simp
      then have l: "pool_slots pool' = pool_slots pool2" "pool_active pool' = pool_active pool2"
        "pool_next_token pool' = pool_next_token pool2" "pool_slots pool1 = pool_slots pool"
        "pool_active pool1 = pool_active pool" "pool_next_token pool1 = pool_next_token pool"
        using lk(2) by (simp_all add: lease_part_def)
      have "release_effect lease pool empty_lease pool'"
        using u rl(2-7) l cur lk locked(1) by (auto simp: release_effect_def)
      with lp inv show ?thesis by (rule that)
    next
      case False
      have "lease_slot_index lease < pool_maximum_size pool1" if "lease_current pool1 lease"
        using that ok1 by (simp add: lease_current_def pool_ok_def word_less_nat_alt)
      moreover have "lease_current pool1 lease" if "lease_slot_index lease < pool_maximum_size pool1"
        "slot_in_use (pool_slots pool1 ! ?k)" "slot_connection (pool_slots pool1 ! ?k) = lease_connection lease"
        "slot_lease_token (pool_slots pool1 ! ?k) = lease_token lease"
      proof -
        have "?k < length (pool_slots pool1)"
          using that(1) ok1 by (simp add: pool_ok_def word_less_nat_alt)
        moreover from this have "pool_slots pool1 ! ?k \<in> set (pool_slots pool1)" by simp
        then have "slot_connection (pool_slots pool1 ! ?k) \<noteq> None"
          using ok1 that(2) by (auto simp: pool_ok_def)
        ultimately show ?thesis using that locked(1) by (simp add: lease_current_def)
      qed
      ultimately consider "lease_ptr = Some lease" "pool' = pool1" "x' = x"
        | "lease_ptr = Some lease" "pool_unlock_world (pool1, x, p1) = (pool', x', p')"
        | "lease_ptr = Some lease" "pool' = pool" "x' = x"
        using assms(2) locked False
        by (auto simp: vps_connection_lease_release_def Let_def not_le split: prod.splits if_splits)
      then have "lease_ptr = Some lease \<and> lease_part pool' = lease_part pool \<and> x' = x \<and>
        waiter_part pool' = waiter_part pool \<and> fixed_part pool' = fixed_part pool \<and> pool_inv live pool' x'"
      proof cases
        case 2
        note unlock_world_parts [OF 2(2)]
        with 2 lk assms(1) show ?thesis by simp
      qed (use lk assms(1) in simp_all)
      then show ?thesis
        by (intro that [of lease]) (auto simp: release_effect_def lease_part_def lease_kept_part)
    qed
  qed
qed

lemma close_slots:
  assumes "pool_inv live pool x" "set ks \<subseteq> {0..<length (pool_slots pool)}"
    "pool_close_slots ks pool x = (pool', x')"
  shows "pool_inv live pool' x' \<and> pool_frame pool pool' \<and>
    (\<forall>k<length (pool_slots pool). k \<in> set ks \<or> slot_connection (pool_slots pool ! k) = None \<longrightarrow>
       \<not> slot_in_use (pool_slots pool ! k) \<longrightarrow> slot_connection (pool_slots pool' ! k) = None)"
  using assms
proof (induction ks arbitrary: pool x)
  case (Cons k ks)
  have k: "k < length (pool_slots pool)" using Cons.prems(2) by simp
  show ?case
  proof (cases "slot_in_use (pool_slots pool ! k)")
    case True
    with Cons show ?thesis by auto
  next
    case False
    obtain pool1 x1 where d: "vps_pool_destroy_slot pool k x = (pool1, x1)" by (metis surj_pair)
    note ds = destroy_slot [OF Cons.prems(1) k False d]
    have kept: "slots_kept (pool_slots pool) (pool_slots pool1)" by (rule pool_frame_fields(13) [OF ds(2)])
    then have len: "length (pool_slots pool1) = length (pool_slots pool)" by (simp add: slots_kept_def)
    have IH: "pool_inv live pool' x' \<and> pool_frame pool1 pool' \<and>
      (\<forall>j<length (pool_slots pool1). j \<in> set ks \<or> slot_connection (pool_slots pool1 ! j) = None \<longrightarrow>
       \<not> slot_in_use (pool_slots pool1 ! j) \<longrightarrow> slot_connection (pool_slots pool' ! j) = None)"
      using Cons.prems(2,3) d False len by (intro Cons.IH [OF ds(1)]) auto
    have "slot_connection (pool_slots pool' ! j) = None"
      if "j < length (pool_slots pool)" "j \<in> set (k # ks) \<or> slot_connection (pool_slots pool ! j) = None"
        "\<not> slot_in_use (pool_slots pool ! j)" for j
      using IH that len kept ds(3,4) by (cases "j = k") (auto simp: slots_kept_def)
    with IH ds(2) show ?thesis by (blast intro: pool_frame_trans)
  qed
qed auto

text \<open>Closing keeps the leases and ends every connection that is not leased.\<close>

lemma pool_close:
  assumes "pool_inv live pool x" "vps_connection_pool_close (pool, x, p) = (r, (pool', x', p'))"
  shows "pool_inv live pool' x'" "waiter_part pool' = waiter_part pool" "lease_kept pool pool'"
    "fixed_part (pool'\<lparr>pool_closed := pool_closed pool\<rparr>) = fixed_part pool"
    "r = VPS_CONNECTION_POOL_OK \<Longrightarrow> pool_closed pool' \<and>
       (\<forall>slot\<in>set (pool_slots pool'). slot_in_use slot \<longleftrightarrow> slot_connection slot \<noteq> None)"
proof -
  obtain s pool1 p1 where l: "pool_lock pool p = (s, pool1, p1)" by (metis prod_cases3)
  note lk = pool_lock_parts [OF l]
  have "pool_inv live pool' x' \<and> waiter_part pool' = waiter_part pool \<and> lease_kept pool pool' \<and>
    fixed_part (pool'\<lparr>pool_closed := pool_closed pool\<rparr>) = fixed_part pool \<and>
    (r = VPS_CONNECTION_POOL_OK \<longrightarrow> pool_closed pool' \<and>
       (\<forall>slot\<in>set (pool_slots pool'). slot_in_use slot \<longleftrightarrow> slot_connection slot \<noteq> None))"
  proof (cases "s = VPS_PLATFORM_OK")
    case False
    then have "pool' = pool1" "x' = x" "r \<noteq> VPS_CONNECTION_POOL_OK"
      using assms(2) l by (auto simp: vps_connection_pool_close_def)
    with lk assms(1) show ?thesis by (simp add: lease_kept_part fixed_part_def)
  next
    case True
    let ?p1 = "pool1\<lparr>pool_closed := True\<rparr>"
    obtain pool2 x1 where cs: "pool_close_slots [0..<unat (pool_maximum_size pool1)] ?p1 x = (pool2, x1)"
      by (metis surj_pair)
    obtain pool3 p2 where br: "pool_broadcast pool2 p1 = (pool3, p2)" by (metis surj_pair)
    have ul: "pool_unlock_world (pool3, x1, p2) = (pool', x', p')" and r: "r = VPS_CONNECTION_POOL_OK"
      using assms(2) l True cs br by (auto simp: vps_connection_pool_close_def)
    have inv1: "pool_inv live ?p1 x" using assms(1) lk(1) by simp
    then have len: "length (pool_slots pool1) = unat (pool_maximum_size pool1)"
      by (simp add: pool_inv_def pool_ok_def)
    have "set [0..<unat (pool_maximum_size pool1)] \<subseteq> {0..<length (pool_slots ?p1)}" using len by simp
    note c = close_slots [OF inv1 this cs]
    then have frame: "pool_frame ?p1 pool2" by simp
    note fr = pool_frame_parts [OF frame] pool_frame_fields [OF frame]
    note u = unlock_world_parts [OF ul] pool_broadcast_parts [OF br]
    have inv: "pool_inv live pool' x'" using u c by simp
    have lp: "lease_part pool' = lease_part pool2" "waiter_part pool' = waiter_part pool2"
      "fixed_part pool' = fixed_part pool2" using u by simp_all
    have "lease_kept pool pool1" using lk(2) by (rule lease_kept_part)
    moreover have "lease_kept pool1 ?p1" by (simp add: lease_kept_def)
    moreover have "lease_kept ?p1 pool'"
      using lease_kept_trans [OF pool_frame_kept [OF frame] lease_kept_part [OF lp(1)]] .
    ultimately have kept: "lease_kept pool pool'" by (blast intro: lease_kept_trans)
    have slots: "pool_slots pool' = pool_slots pool2" using lp(1) by (simp add: lease_part_def)
    have "slot_in_use slot \<longleftrightarrow> slot_connection slot \<noteq> None" if slot: "slot \<in> set (pool_slots pool')" for slot
    proof -
      obtain i where i: "i < length (pool_slots pool2)" "slot = pool_slots pool2 ! i"
        using slot slots by (auto simp: in_set_conv_nth)
      have sk: "length (pool_slots pool2) = length (pool_slots pool1)"
        "slot_in_use (pool_slots pool2 ! i) = slot_in_use (pool_slots pool1 ! i)"
        using fr(14) i(1) by (auto simp: slots_kept_def)
      have "slot_in_use slot \<longrightarrow> slot_connection slot \<noteq> None"
        using inv slot by (auto simp: pool_inv_def pool_ok_def)
      moreover have "slot_connection (pool_slots pool2 ! i) = None" if "\<not> slot_in_use (pool_slots pool2 ! i)"
        using c i(1) sk len that by simp
      ultimately show ?thesis using i(2) by (cases "slot_in_use slot") auto
    qed
    then show ?thesis
      using inv kept lp fr(1) lk(3,4) by (auto simp: part_defs)
  qed
  then show "pool_inv live pool' x'" "waiter_part pool' = waiter_part pool" "lease_kept pool pool'"
    "fixed_part (pool'\<lparr>pool_closed := pool_closed pool\<rparr>) = fixed_part pool"
    "r = VPS_CONNECTION_POOL_OK \<Longrightarrow> pool_closed pool' \<and>
       (\<forall>slot\<in>set (pool_slots pool'). slot_in_use slot \<longleftrightarrow> slot_connection slot \<noteq> None)"
    by blast+
qed

section \<open>Creation and destruction: every path returns, with memory and connections accounted for\<close>

lemma sweep_slots:
  assumes "pool_inv live pool x" "set ks \<subseteq> {0..<length (pool_slots pool)}"
    "\<forall>k<length (pool_slots pool). \<not> slot_in_use (pool_slots pool ! k)" "pool_slots_memory pool \<noteq> None"
    "pool_sweep_slots ks pool x = (pool', x')"
  shows "pool_inv live pool' x' \<and> pool_frame pool pool' \<and>
    (\<forall>k<length (pool_slots pool). k \<in> set ks \<or> slot_connection (pool_slots pool ! k) = None \<longrightarrow>
       slot_connection (pool_slots pool' ! k) = None)"
  using assms
proof (induction ks arbitrary: pool x)
  case (Cons k ks)
  have k: "k < length (pool_slots pool)" using Cons.prems(2) by simp
  show ?case
  proof (cases "slot_connection (pool_slots pool ! k) = None")
    case True
    with Cons show ?thesis by auto
  next
    case False
    obtain pool1 x1 where d: "vps_pool_destroy_slot pool k x = (pool1, x1)" by (metis surj_pair)
    have "\<not> slot_in_use (pool_slots pool ! k)" using Cons.prems(3) k by simp
    note ds = destroy_slot [OF Cons.prems(1) k this d]
    note fr = pool_frame_fields [OF ds(2)]
    have len: "length (pool_slots pool1) = length (pool_slots pool)" using fr(13) by (simp add: slots_kept_def)
    have "pool_inv live pool' x' \<and> pool_frame pool1 pool' \<and>
      (\<forall>j<length (pool_slots pool1). j \<in> set ks \<or> slot_connection (pool_slots pool1 ! j) = None \<longrightarrow>
       slot_connection (pool_slots pool' ! j) = None)" (is ?IH)
      using Cons.prems(2-5) d False fr(12,13) len by (intro Cons.IH [OF ds(1)]) (auto simp: slots_kept_def)
    moreover from this have "slot_connection (pool_slots pool' ! j) = None"
      if "j < length (pool_slots pool)" "j \<in> set (k # ks) \<or> slot_connection (pool_slots pool ! j) = None" for j
      using that len ds(3,4) by (cases "j = k") auto
    ultimately show ?thesis using ds(2) by (blast intro: pool_frame_trans)
  qed
qed auto

text \<open>The sweeps of the failure path end, after one sweep, with no connection left.\<close>

lemma destroy_all:
  assumes "pool_inv live pool x" "pool_active pool = 0" "pool_slots_memory pool \<noteq> None"
  obtains pool' x' where "pool_destroy_all pool x = Some (pool', x')" "pool_frame pool pool'" "live x' = {}"
proof -
  have ok: "pool_ok pool" using assms(1) by (simp add: pool_inv_def)
  then have idle: "\<not> slot_in_use (pool_slots pool ! k)" if "k < length (pool_slots pool)" for k
    using assms(2) that by (auto simp: pool_ok_def filter_empty_conv)
  obtain pool1 x1 where sw: "pool_sweep_slots [0..<unat (pool_maximum_size pool)] pool x = (pool1, x1)"
    by (metis surj_pair)
  have "set [0..<unat (pool_maximum_size pool)] \<subseteq> {0..<length (pool_slots pool)}"
    using ok by (simp add: pool_ok_def)
  note ss = sweep_slots [OF assms(1) this _ assms(3) sw]
  show ?thesis
  proof (cases "pool_total pool = 0")
    case True
    then have "length (filter (\<lambda>slot. slot_connection slot \<noteq> None) (pool_slots pool)) = 0"
      using ok by (simp add: pool_ok_def)
    then have "slot_connection (pool_slots pool ! k) = None" if "k < length (pool_slots pool)" for k
      using that by (simp add: filter_empty_conv)
    then have "live x = {}" using assms(1) by (auto simp: pool_inv_def slots_own_def)
    with True show ?thesis
      by (intro that [of pool x]) (simp_all add: pool_destroy_all.simps [of pool x])
  next
    case False
    have s: "pool_inv live pool1 x1" "pool_frame pool pool1"
      "\<And>k. k < length (pool_slots pool) \<Longrightarrow> slot_connection (pool_slots pool1 ! k) = None"
      using ss idle ok by (auto simp: pool_ok_def)
    have len: "length (pool_slots pool1) = length (pool_slots pool)"
      using pool_frame_fields(13) [OF s(2)] by (simp add: slots_kept_def)
    have "filter (\<lambda>slot. slot_connection slot \<noteq> None) (pool_slots pool1) = []"
      using s(3) len by (auto simp: filter_empty_conv in_set_conv_nth)
    then have "unat (pool_total pool1) = 0" using s(1) by (simp add: pool_inv_def pool_ok_def)
    then have "pool_total pool1 = 0" by (simp add: unat_eq_zero)
    then have "pool_destroy_all pool x = Some (pool1, x1)"
      using False sw by (simp add: pool_destroy_all.simps [of pool x] pool_destroy_all.simps [of pool1 x1] word_neq_0_conv)
    moreover have "live x1 = {}" using s(1,3) len by (auto simp: pool_inv_def slots_own_def)
    ultimately show ?thesis using s(2) by (intro that)
  qed
qed

lemma create_minimum:
  assumes "pool_inv live pool x" "pool_create_minimum k pool x = (r, pool', x')"
  shows "pool_inv live pool' x' \<and> pool_frame pool pool'"
  using assms
proof (induction k arbitrary: pool x)
  case (Suc k)
  obtain r1 i pool1 x1 where c: "vps_pool_create_slot pool x = (r1, i, pool1, x1)" by (metis prod_cases4)
  note cs = create_slot [OF Suc.prems(1) c]
  show ?case
  proof (cases "r1 = VPS_CONNECTION_POOL_OK")
    case True
    then show ?thesis
      using Suc.IH [OF cs(1)] Suc.prems(2) c cs(2) by (auto intro: pool_frame_trans)
  next
    case False
    then show ?thesis using Suc.prems(2) c cs by auto
  qed
qed auto

definition block_of :: "block option \<Rightarrow> nat multiset" where
  "block_of m = (case m of None \<Rightarrow> {#} | Some b \<Rightarrow> {#length b#})"

definition pool_blocks :: "('p, 'x, 'w, 'c) VpsConnectionPool \<Rightarrow> nat multiset" where
  "pool_blocks pool = block_of (pool_identity pool) + block_of (pool_waiters_memory pool) +
     block_of (pool_slots_memory pool) + block_of (pool_memory pool)"

lemma pool_frame_blocks:
  assumes "pool_frame pool pool'"
  shows "pool_blocks pool' = pool_blocks pool" "pool_allocator pool' = pool_allocator pool"
    "pool_identity_size pool' = pool_identity_size pool" "pool_active pool' = pool_active pool"
proof -
  obtain s t where "pool' = pool\<lparr>pool_slots := s, pool_total := t\<rparr>" using assms unfolding pool_frame_def by blast
  then show "pool_blocks pool' = pool_blocks pool" "pool_allocator pool' = pool_allocator pool"
    "pool_identity_size pool' = pool_identity_size pool" "pool_active pool' = pool_active pool"
    by (simp_all add: pool_blocks_def)
qed

lemma close_slots_blocks:
  "pool_close_slots ks pool x = (pool', x') \<Longrightarrow>
   pool_blocks pool' = pool_blocks pool \<and> pool_allocator pool' = pool_allocator pool"
proof (induction ks arbitrary: pool x)
  case (Cons k ks)
  obtain pool1 x1 where d: "vps_pool_destroy_slot pool k x = (pool1, x1)" by (metis surj_pair)
  then have "pool_blocks pool1 = pool_blocks pool" "pool_allocator pool1 = pool_allocator pool"
    by (auto simp: vps_pool_destroy_slot_def pool_blocks_def split: option.splits)
  with Cons d show ?case by (fastforce split: if_splits)
qed simp

lemma close_blocks:
  assumes "vps_connection_pool_close (pool, x, p) = (r, (pool', x', p'))"
  shows "pool_blocks pool' = pool_blocks pool" "pool_allocator pool' = pool_allocator pool"
  using assms
  by (auto simp: vps_connection_pool_close_def pool_lock_def pool_broadcast_def pool_unlock_world_def pool_unlock_def
      split: prod.splits if_splits dest!: close_slots_blocks) (auto simp: pool_blocks_def)

context allocator_contract
begin

lemma release_block:
  assumes "inv w" "vps_memory_release (Some A) m n w = (m', w')"
  shows "inv w'" "live w' = live w - block_of m"
  using memory_release [OF assms] by (auto simp: block_of_def)

lemma allocate_block:
  assumes "inv w" "vps_memory_allocate (Some A) n None w = (r, m, w')" "n \<noteq> 0"
  shows "inv w'" "live w' = live w + block_of m" "r = VPS_MEMORY_OK \<longleftrightarrow> m \<noteq> None"
    "\<And>b. m = Some b \<Longrightarrow> length b = unat n"
proof -
  note ma = memory_allocate [OF assms(1,2)]
  have "inv w' \<and> live w' = live w + block_of m \<and> (r = VPS_MEMORY_OK \<longleftrightarrow> m \<noteq> None) \<and>
    (\<forall>b. m = Some b \<longrightarrow> length b = unat n)"
  proof (cases "r = VPS_MEMORY_OK")
    case True
    with ma assms(3) show ?thesis by (auto simp: block_of_def)
  next
    case False
    with ma show ?thesis by (auto simp: block_of_def)
  qed
  then show "inv w'" "live w' = live w + block_of m" "r = VPS_MEMORY_OK \<longleftrightarrow> m \<noteq> None"
    "\<And>b. m = Some b \<Longrightarrow> length b = unat n" by auto
qed

lemma pool_release:
  assumes "inv w" "pool_allocator pool = A"
  shows "inv (pool_release_memory pool ss ws w)" "live (pool_release_memory pool ss ws w) = live w - pool_blocks pool"
proof -
  obtain m1 w1 m2 w2 m3 w3 m4 w4 where
    r: "vps_memory_release (Some A) (pool_identity pool) (pool_identity_size pool) w = (m1, w1)"
      "vps_memory_release (Some A) (pool_waiters_memory pool) ws w1 = (m2, w2)"
      "vps_memory_release (Some A) (pool_slots_memory pool) ss w2 = (m3, w3)"
      "vps_memory_release (Some A) (pool_memory pool) sizeof_VpsConnectionPool w3 = (m4, w4)"
    by (metis surj_pair)
  have "pool_release_memory pool ss ws w = w4"
    using r assms(2) by (simp add: pool_release_memory_def)
  moreover note release_block [OF _ r(1)] release_block [OF _ r(2)] release_block [OF _ r(3)] release_block [OF _ r(4)]
  ultimately show "inv (pool_release_memory pool ss ws w)"
    "live (pool_release_memory pool ss ws w) = live w - pool_blocks pool"
    using assms(1) by (simp_all add: pool_blocks_def diff_diff_add_mset)
qed

text \<open>The three allocations: what was served is in the pool.\<close>

lemma create_memory:
  assumes "inv w" "pool_allocator pool = A" "ss \<noteq> 0" "ws \<noteq> 0" "pool_identity_size pool \<noteq> 0"
    "length (the (key_identity (config_key config))) \<le> unat (pool_identity_size pool)"
    "pool_blocks pool = block_of (pool_memory pool)" "pool_identity pool = None"
    "pool_slots_memory pool = None" "pool_waiters_memory pool = None"
    "pool_create_memory config ss ws pool w = (b, pool', w')"
  obtains sm wm im where "inv w'" "live w' = live w + block_of sm + block_of wm + block_of im"
    "pool_blocks pool' = pool_blocks pool + block_of sm + block_of wm + block_of im"
    "b \<Longrightarrow> sm \<noteq> None \<and> pool' = pool\<lparr>pool_slots := replicate (unat (pool_maximum_size pool)) empty_slot,
       pool_waiters := replicate (unat (pool_maximum_waiters pool)) empty_waiter,
       pool_identity := map_option (\<lambda>blk. mem_write blk 0 (the (key_identity (config_key config)))) im,
       pool_slots_memory := sm, pool_waiters_memory := wm\<rparr>"
    "\<not> b \<Longrightarrow> pool' = pool\<lparr>pool_slots_memory := sm, pool_waiters_memory := wm, pool_identity := im\<rparr>"
proof -
  obtain r1 sm w1 where a1: "vps_memory_allocate (Some A) ss None w = (r1, sm, w1)" by (metis prod_cases3)
  obtain r2 wm w2 where a2: "vps_memory_allocate (Some A) ws None w1 = (r2, wm, w2)" by (metis prod_cases3)
  obtain r3 im w3 where a3: "vps_memory_allocate (Some A) (pool_identity_size pool) None w2 = (r3, im, w3)"
    by (metis prod_cases3)
  note b1 = allocate_block [OF assms(1) a1 assms(3)]
  note b2 = allocate_block [OF b1(1) a2 assms(4)]
  note b3 = allocate_block [OF b2(1) a3 assms(5)]
  consider "sm = None" | "sm \<noteq> None" "wm = None" | "sm \<noteq> None" "wm \<noteq> None" "im = None"
    | "sm \<noteq> None" "wm \<noteq> None" "im \<noteq> None" by blast
  then show ?thesis
  proof cases
    case 1
    then have e: "\<not> b" "pool' = pool\<lparr>pool_slots_memory := None\<rparr>" "w' = w1"
      using assms(2,11) a1 b1(3) by (auto simp: pool_create_memory_def Let_def)
    show ?thesis
      by (rule that [of None None None]) (use e 1 b1(1,2) assms(8-10) in \<open>simp_all add: block_of_def pool_blocks_def\<close>)
  next
    case 2
    then have e: "\<not> b" "pool' = pool\<lparr>pool_slots_memory := sm, pool_waiters_memory := None\<rparr>" "w' = w2"
      using assms(2,11) a1 b1(3) a2 b2(3) by (auto simp: pool_create_memory_def Let_def)
    show ?thesis
      by (rule that [of sm None None])
        (use e 2 b1(2) b2(1,2) assms(8-10) in \<open>simp_all add: block_of_def pool_blocks_def ac_simps\<close>)
  next
    case 3
    then have e: "\<not> b" "pool' = pool\<lparr>pool_slots_memory := sm, pool_waiters_memory := wm, pool_identity := None\<rparr>" "w' = w3"
      using assms(2,11) a1 b1(3) a2 b2(3) a3 b3(3) by (auto simp: pool_create_memory_def Let_def)
    show ?thesis
      by (rule that [of sm wm None])
        (use e 3 b1(2) b2(2) b3(1,2) assms(8-10) in \<open>simp_all add: block_of_def pool_blocks_def ac_simps\<close>)
  next
    case 4
    then obtain blk where blk: "im = Some blk" "length blk = unat (pool_identity_size pool)" using b3(4) by auto
    let ?id = "mem_write blk 0 (the (key_identity (config_key config)))"
    have len: "length ?id = length blk"
      using assms(6) blk(2) by (simp add: mem_write_def)
    have e: b "pool' = pool\<lparr>pool_slots_memory := sm, pool_waiters_memory := wm,
        pool_slots := replicate (unat (pool_maximum_size pool)) empty_slot,
        pool_waiters := replicate (unat (pool_maximum_waiters pool)) empty_waiter, pool_identity := Some ?id\<rparr>" "w' = w3"
      using assms(2,11) a1 b1(3) a2 b2(3) a3 b3(3) 4 blk(1) by (auto simp: pool_create_memory_def Let_def)
    show ?thesis
      by (rule that [of sm wm im])
        (use e 4 blk(1) len b1(2) b2(2) b3(1,2) assms(8-10) in \<open>simp_all add: block_of_def pool_blocks_def ac_simps\<close>)
  qed
qed

lemma create_fail:
  assumes "inv w" "pool_allocator pool = A" "pool_destroy_all pool x = Some (pool1, x1)" "pool_frame pool pool1"
  obtains p' w' where "pool_create_fail r pool ss ws x p w = Some (r, None, x1, p', w')"
    "inv w'" "live w' = live w - pool_blocks pool"
proof -
  have "pool_allocator pool1 = A" using assms(2,4) by (simp add: pool_frame_blocks)
  note rl = pool_release [OF assms(1) this, of ss ws]
  have "\<exists>p'. pool_create_fail r pool ss ws x p w = Some (r, None, x1, p', pool_release_memory pool1 ss ws w)"
    using assms(3) by (simp add: pool_create_fail_def split: prod.split)
  then show ?thesis using rl pool_frame_blocks(1) [OF assms(4)] that by auto
qed

end

text \<open>What a successful creation gives.\<close>

definition pool_fresh :: "('p, 'x, 'w, 'c) VpsConnectionPool \<Rightarrow> bool" where
  "pool_fresh pool \<longleftrightarrow> pool_active pool = 0 \<and> pool_waiting pool = 0 \<and> pool_next_ticket pool = 0 \<and>
     pool_next_token pool = 0 \<and> \<not> pool_closed pool"

lemma pool_sizes:
  assumes "vps_pool_config_valid (Some config)"
  obtains ss ws where "vps_size_multiply (ucast (config_maximum_size config)) sizeof_VpsPoolSlot = (VPS_MEMORY_OK, Some ss)"
    "vps_size_multiply (ucast (config_maximum_waiters config)) sizeof_VpsPoolWaiter = (VPS_MEMORY_OK, Some ws)"
    "ss \<noteq> 0" "ws \<noteq> 0"
proof -
  have bounds: "unat (config_maximum_size config) \<le> 1024" "unat (config_maximum_waiters config) \<le> 4096"
    "0 < unat (config_maximum_size config)" "0 < unat (config_maximum_waiters config)"
    using assms by (auto simp: vps_pool_config_valid_def word_le_nat_alt unat_gt_0)
  have mult: "\<exists>s. vps_size_multiply (ucast v) k = (VPS_MEMORY_OK, Some s) \<and> s \<noteq> 0"
    if "0 < unat v" "unat v \<le> 4096" "0 < unat k" "unat k \<le> 32" for v :: u32 and k :: size_t
  proof -
    have u: "unat (ucast v :: size_t) = unat v" using that(2) by (intro unat_ucast_small) simp
    have "unat v * unat k \<le> 4096 * 32" using that(2,4) by (intro mult_le_mono)
    then have small: "unat (ucast v :: size_t) * unat k < 2 ^ 64" using u by simp
    have nz: "(ucast v :: size_t) \<noteq> 0" using u that(1) by (metis unat_0 less_irrefl)
    have "vps_size_multiply (ucast v) k = (VPS_MEMORY_OK, Some (ucast v * k))"
      using vps_size_multiply_guard [OF nz, of k] small nz by (simp add: vps_size_multiply_def not_less)
    moreover have "unat (ucast v * k :: size_t) = unat v * unat k"
      using small u by (simp add: unat_word_ariths)
    then have "ucast v * k \<noteq> (0 :: size_t)" using that(1,3) by (metis mult_is_0 not_gr_zero unat_0)
    ultimately show ?thesis by blast
  qed
  from mult [of "config_maximum_size config" 32] mult [of "config_maximum_waiters config" 16] bounds that
  show ?thesis by auto
qed

text \<open>The invariant of the pool whose memory was served, before any connection is opened.\<close>

lemma blank_pool_inv:
  assumes "vps_pool_config_valid (Some config)" "callbacks_account (config_callbacks config) live" "live x = {}"
  shows "pool_inv live (pool_from_config config m\<lparr>pool_slots := replicate (unat (config_maximum_size config)) empty_slot,
      pool_waiters := replicate (unat (config_maximum_waiters config)) empty_waiter,
      pool_identity := i, pool_slots_memory := sm, pool_waiters_memory := wm\<rparr>) x"
  using assms
  by (auto simp: pool_inv_def pool_ok_def slots_own_def pool_from_config_def vps_pool_config_valid_def filter_empty_conv)

context allocator_contract
begin

lemma create_open:
  assumes "inv w" "pool_allocator pool = A" "pool_inv lv pool x" "pool_fresh pool" "pool_slots_memory pool \<noteq> None"
    "pool_blocks pool \<subseteq># live w"
  obtains r po x' p' w' where "pool_create_open config pool ss ws x p w = Some (r, po, x', p', w')" "inv w'"
    "if r = VPS_CONNECTION_POOL_OK
     then \<exists>pool'. po = Some pool' \<and> pool_inv lv pool' x' \<and> pool_fresh pool' \<and> live w' = live w \<and>
       pool_blocks pool' = pool_blocks pool \<and> pool_allocator pool' = A
     else po = None \<and> lv x' = {} \<and> live w' = live w - pool_blocks pool"
proof -
  note outcome = that
  obtain s1 m1 p1 where m: "vps_platform_mutex_init (pool_platform pool) (pool_mutex pool) p = (s1, m1, p1)"
    by (metis prod_cases3)
  let ?p2 = "pool\<lparr>pool_mutex := m1, pool_mutex_initialized := True\<rparr>"
  obtain s2 c1 p2 where c: "vps_platform_condition_init (pool_platform pool) (pool_condition pool) p1 = (s2, c1, p2)"
    by (metis prod_cases3)
  let ?p3 = "?p2\<lparr>pool_condition := c1\<rparr>"
  let ?p4 = "?p3\<lparr>pool_condition_initialized := True\<rparr>"
  obtain r pool4 x1 where mn: "pool_create_minimum (unat (config_minimum_size config)) ?p4 x = (r, pool4, x1)"
    by (metis prod_cases3)
  have fail: thesis
    if e: "pool_create_open config pool ss ws x p w = pool_create_fail r' q ss ws y p' w" "r' \<noteq> VPS_CONNECTION_POOL_OK"
      and q: "pool_inv lv q y" "pool_active q = 0" "pool_slots_memory q \<noteq> None" "pool_allocator q = A"
        "pool_blocks q = pool_blocks pool" for r' q y p'
  proof -
    obtain q1 y1 where d: "pool_destroy_all q y = Some (q1, y1)" "pool_frame q q1" "lv y1 = {}"
      using destroy_all [OF q(1-3)] by blast
    obtain p'' w' where "pool_create_fail r' q ss ws y p' w = Some (r', None, y1, p'', w')" "inv w'"
      "live w' = live w - pool_blocks q"
      using create_fail [OF assms(1) q(4) d(1,2)] by blast
    with e q(5) d(3) show ?thesis by (intro outcome) auto
  qed
  have inv4: "pool_inv lv ?p4 x" using assms(3) by (simp add: pool_inv_def pool_ok_def)
  note cm = create_minimum [OF inv4 mn]
  then have f4: "pool_inv lv pool4 x1" "pool_frame ?p4 pool4" by auto
  note fr = pool_frame_fields [OF f4(2)] pool_frame_blocks [OF f4(2)]
  have act: "pool_active pool = 0" using assms(4) by (simp add: pool_fresh_def)
  consider "s1 \<noteq> VPS_PLATFORM_OK" | "s1 = VPS_PLATFORM_OK" "s2 \<noteq> VPS_PLATFORM_OK"
    | "s1 = VPS_PLATFORM_OK" "s2 = VPS_PLATFORM_OK" "r \<noteq> VPS_CONNECTION_POOL_OK"
    | "s1 = VPS_PLATFORM_OK" "s2 = VPS_PLATFORM_OK" "r = VPS_CONNECTION_POOL_OK" by blast
  then show ?thesis
  proof cases
    case 1
    show ?thesis
      by (rule fail [of VPS_CONNECTION_POOL_PLATFORM_ERROR "pool\<lparr>pool_mutex := m1\<rparr>" x p1])
        (use 1 m assms(2,3,5) act in \<open>simp_all add: pool_create_open_def pool_blocks_def\<close>)
  next
    case 2
    show ?thesis
      by (rule fail [of VPS_CONNECTION_POOL_PLATFORM_ERROR ?p3 x p2])
        (use 2 m c assms(2,3,5) act in \<open>simp_all add: pool_create_open_def pool_blocks_def pool_inv_def pool_ok_def\<close>)
  next
    case 3
    show ?thesis
      by (rule fail [of r pool4 x1 p2])
        (use 3 m c mn assms(2,5) act f4(1) fr in \<open>simp_all add: pool_create_open_def pool_blocks_def\<close>)
  next
    case 4
    have "pool_create_open config pool ss ws x p w = Some (VPS_CONNECTION_POOL_OK, Some pool4, x1, p2, w)"
      using 4 m c mn by (simp add: pool_create_open_def)
    moreover have "pool_fresh pool4" "pool_blocks pool4 = pool_blocks pool" "pool_allocator pool4 = A"
      using assms(2,4) fr by (simp_all add: pool_fresh_def pool_blocks_def)
    ultimately show ?thesis using f4(1) assms(1) by (intro that) auto
  qed
qed

lemma pool_create_all_or_nothing:
  assumes "inv w" "config_allocator config = A" "callbacks_account (config_callbacks config) lv" "lv x = {}"
    "length (the (key_identity (config_key config))) < 2 ^ 64"
  obtains r po x' p' w' where "vps_connection_pool_create (Some config) (Some None) x p w = Some (r, po, x', p', w')"
    "inv w'"
    "if r = VPS_CONNECTION_POOL_OK
     then \<exists>pool. po = Some pool \<and> pool_inv lv pool x' \<and> pool_fresh pool \<and> pool_allocator pool = A \<and>
       live w' = live w + pool_blocks pool
     else po = None \<and> lv x' = {} \<and> live w' = live w"
proof (cases "vps_pool_config_valid (Some config)")
  case False
  then show ?thesis using assms(1,4) by (intro that) (auto simp: vps_connection_pool_create_def Let_def)
next
  case valid: True
  obtain ss ws where sz: "vps_size_multiply (ucast (config_maximum_size config)) sizeof_VpsPoolSlot = (VPS_MEMORY_OK, Some ss)"
    "vps_size_multiply (ucast (config_maximum_waiters config)) sizeof_VpsPoolWaiter = (VPS_MEMORY_OK, Some ws)"
    "ss \<noteq> 0" "ws \<noteq> 0"
    by (rule pool_sizes [OF valid])
  obtain r0 m0 w1 where a: "vps_memory_allocate (Some A) sizeof_VpsConnectionPool None w = (r0, m0, w1)"
    by (metis prod_cases3)
  note al = allocate_block [OF assms(1) a, simplified]
  show ?thesis
  proof (cases m0)
    case None
    have "vps_connection_pool_create (Some config) (Some None) x p w =
        Some (VPS_CONNECTION_POOL_OUT_OF_MEMORY, None, x, p, w1)"
      using valid sz a assms(2) al(3) None
      by (simp add: vps_connection_pool_create_def Let_def split: VpsMemoryResult.splits)
    then show ?thesis using al(1,2) assms(4) None by (intro that) (auto simp: block_of_def)
  next
    case (Some m)
    let ?q = "pool_from_config config (Some m)"
    obtain b q w2 where cm: "pool_create_memory config ss ws ?q w1 = (b, q, w2)" by (metis prod_cases3)
    have len: "unat (pool_identity_size ?q) = length (the (key_identity (config_key config)))"
      using assms(5) by (simp add: pool_from_config_def)
    have nz: "pool_identity_size ?q \<noteq> 0"
      using valid len by (auto simp: vps_pool_config_valid_def split: option.splits)
    have "pool_allocator ?q = A" "pool_blocks ?q = block_of (pool_memory ?q)" "pool_identity ?q = None"
      "pool_slots_memory ?q = None" "pool_waiters_memory ?q = None"
      using assms(2) by (simp_all add: pool_from_config_def pool_blocks_def block_of_def)
    note q = create_memory [OF al(1) this(1) sz(3,4) nz eq_imp_le [OF len [symmetric]] this(2-5) cm]
    obtain sm wm im where mem: "inv w2" "live w2 = live w1 + block_of sm + block_of wm + block_of im"
      "pool_blocks q = pool_blocks ?q + block_of sm + block_of wm + block_of im"
      "b \<Longrightarrow> sm \<noteq> None \<and> q = ?q\<lparr>pool_slots := replicate (unat (pool_maximum_size ?q)) empty_slot,
       pool_waiters := replicate (unat (pool_maximum_waiters ?q)) empty_waiter,
       pool_identity := map_option (\<lambda>blk. mem_write blk 0 (the (key_identity (config_key config)))) im,
       pool_slots_memory := sm, pool_waiters_memory := wm\<rparr>"
      "\<not> b \<Longrightarrow> q = ?q\<lparr>pool_slots_memory := sm, pool_waiters_memory := wm, pool_identity := im\<rparr>"
      by (rule q) blast
    have blocks: "live w2 = live w + pool_blocks q"
      using mem(2,3) al(2) Some by (simp add: pool_from_config_def pool_blocks_def block_of_def)
    have create: "vps_connection_pool_create (Some config) (Some None) x p w =
        (if \<not> b then pool_create_fail VPS_CONNECTION_POOL_OUT_OF_MEMORY q ss ws x p w2
         else pool_create_open config q ss ws x p w2)"
      using valid sz a assms(2) al(3) Some cm
      by (simp add: vps_connection_pool_create_def Let_def split: VpsMemoryResult.splits)
    show ?thesis
    proof (cases b)
      case True
      note qe = mem(4) [OF True]
      have "pool_inv lv q x"
        using blank_pool_inv [OF valid assms(3,4)] qe by (simp add: pool_from_config_def)
      moreover have "pool_fresh q" "pool_slots_memory q \<noteq> None" "pool_allocator q = A"
        using qe assms(2) by (simp_all add: pool_fresh_def pool_from_config_def)
      ultimately obtain r po x' p' w' where "pool_create_open config q ss ws x p w2 = Some (r, po, x', p', w')" "inv w'"
        "if r = VPS_CONNECTION_POOL_OK
         then \<exists>pool'. po = Some pool' \<and> pool_inv lv pool' x' \<and> pool_fresh pool' \<and> live w' = live w2 \<and>
           pool_blocks pool' = pool_blocks q \<and> pool_allocator pool' = A
         else po = None \<and> lv x' = {} \<and> live w' = live w2 - pool_blocks q"
        using create_open [OF mem(1), of q lv x config ss ws p] blocks by (metis mset_subset_eq_add_right)
      then show ?thesis using create True blocks by (intro that) (auto split: if_splits)
    next
      case False
      have "q = ?q\<lparr>pool_slots_memory := sm, pool_waiters_memory := wm, pool_identity := im\<rparr>" by (rule mem(5) [OF False])
      then have "pool_total q = 0" "pool_allocator q = A" using assms(2) by (simp_all add: pool_from_config_def)
      then have "pool_destroy_all q x = Some (q, x)" "pool_allocator q = A"
        by (simp_all add: pool_destroy_all.simps [of q x])
      then obtain p' w' where "pool_create_fail VPS_CONNECTION_POOL_OUT_OF_MEMORY q ss ws x p w2 =
          Some (VPS_CONNECTION_POOL_OUT_OF_MEMORY, None, x, p', w')" "inv w'" "live w' = live w2 - pool_blocks q"
        using create_fail [OF mem(1), of q x q x VPS_CONNECTION_POOL_OUT_OF_MEMORY ss ws p] by auto
      then show ?thesis using create False blocks assms(4) by (intro that) auto
    qed
  qed
qed

text \<open>Destruction that succeeds gives everything back; one that does not frees nothing.\<close>

lemma pool_destroy_frees:
  assumes "inv w" "pool_allocator pool = A" "pool_inv lv pool x"
    "vps_connection_pool_destroy (Some pool) x p w = (r, po, x', p', w')"
  shows "if r = VPS_CONNECTION_POOL_OK
     then po = None \<and> inv w' \<and> live w' = live w - pool_blocks pool \<and> lv x' = {} \<and>
       pool_active pool = 0 \<and> pool_waiting pool = 0
     else w' = w \<and> (\<exists>pool'. po = Some pool' \<and> pool_inv lv pool' x' \<and> lease_kept pool pool' \<and>
       waiter_part pool' = waiter_part pool)"
proof -
  obtain c pool1 x1 p1 where cl: "vps_connection_pool_close (pool, x, p) = (c, (pool1, x1, p1))" by (metis prod_cases4)
  note pc = pool_close [OF assms(3) cl]
  obtain s pool2 p2 where l: "pool_lock pool1 p1 = (s, pool2, p2)" by (metis prod_cases3)
  obtain pool3 p3 where u: "pool_unlock pool2 p2 = (pool3, p3)" by (metis surj_pair)
  note lk = pool_lock_parts [OF l] and ul = pool_unlock_parts [OF u]
  have same: "lease_kept pool pool1" "lease_kept pool pool2" "lease_kept pool pool3"
    using pc(3) lk(2) ul(2) lease_kept_trans lease_kept_part by metis+
  have act: "pool_active pool2 = pool_active pool" "pool_waiting pool2 = pool_waiting pool"
    using same(2) lk(3) pc(2) by (auto simp: lease_kept_def waiter_part_def)
  consider (refused) "w' = w" "r \<noteq> VPS_CONNECTION_POOL_OK" "x' = x1" "po = Some pool1 \<or> po = Some pool2 \<or> po = Some pool3"
    | (freed) "c = VPS_CONNECTION_POOL_OK" "r = VPS_CONNECTION_POOL_OK" "po = None" "x' = x1"
      "pool_active pool = 0" "pool_waiting pool = 0"
      "w' = pool_release_memory pool3 (ucast (pool_maximum_size pool3) * sizeof_VpsPoolSlot)
         (ucast (pool_maximum_waiters pool3) * sizeof_VpsPoolWaiter) w"
    using assms(4) cl l u act
    by (auto simp: vps_connection_pool_destroy_def Let_def split: prod.splits if_splits)
  then show ?thesis
  proof cases
    case refused
    then show ?thesis using pc(1,2) same lk(1,3) ul(1,3) by auto
  next
    case freed
    have b: "pool_blocks pool3 = pool_blocks pool" "pool_allocator pool3 = A"
      using close_blocks [OF cl] l u assms(2)
      by (auto simp: pool_lock_def pool_unlock_def pool_blocks_def split: prod.splits)
    have "length (filter slot_in_use (pool_slots pool1)) = 0"
      using pc(1) same(1) freed(5) by (simp add: pool_inv_def pool_ok_def lease_kept_def)
    then have "\<forall>slot\<in>set (pool_slots pool1). slot_connection slot = None"
      using pc(5) freed(1) by (auto simp: filter_empty_conv)
    then have "lv x1 = {}" using pc(1) by (auto simp: pool_inv_def slots_own_def)
    then show ?thesis using freed pool_release [OF assms(1) b(2)] b(1) by simp
  qed
qed

end

text \<open>A waiting acquisition sleeps at least a millisecond, at most the slice, and never past its deadline.\<close>

lemma acquire_wait_timeout:
  assumes "pool_acquire_wait frame now (pool, x, p) = (AcquireSuspended g, w')"
  shows "now < expires_at_ms (frame_deadline frame)" "frame_timeout_ms g \<le> pool_wait_slice_ms pool"
    "pool_wait_slice_ms pool \<noteq> 0 \<Longrightarrow> frame_timeout_ms g \<noteq> 0"
    "unat (frame_timeout_ms g) \<le> unat (expires_at_ms (frame_deadline frame) - now)"
proof -
  let ?d = "frame_deadline frame"
  let ?rem = "expires_at_ms ?d - now"
  have slice: "pool_wait_slice_ms pool' = pool_wait_slice_ms pool" if "vps_pool_waiter_add pool = (r, pool')" for r pool'
    using that by (auto simp: vps_pool_waiter_add_def Let_def split: option.splits)
  have sus: "now < expires_at_ms ?d \<and> frame_timeout_ms g =
      (if ?rem > ucast (pool_wait_slice_ms pool) then pool_wait_slice_ms pool else ucast ?rem)"
    using assms
    by (auto simp: pool_acquire_wait_def pool_acquire_finish_def Let_def vps_deadline_remaining_at_def slice not_le
        split: prod.splits option.splits if_splits)
  then show now: "now < expires_at_ms ?d" by simp
  have rem: "0 < unat ?rem" using now by (simp add: unat_sub less_imp_le word_less_nat_alt)
  have "unat (pool_wait_slice_ms pool) < 2 ^ LENGTH(32)" by (rule unsigned_less)
  then have lt: "unat (pool_wait_slice_ms pool) < 2 ^ 32" by simp
  then have us: "unat (ucast (pool_wait_slice_ms pool) :: u64) = unat (pool_wait_slice_ms pool)"
    by (intro unat_ucast_small) simp
  have small: "unat (ucast ?rem :: u32) = unat ?rem" if "\<not> ?rem > ucast (pool_wait_slice_ms pool)"
    using that us lt by (intro unat_ucast_small) (simp add: word_less_nat_alt)
  show "frame_timeout_ms g \<le> pool_wait_slice_ms pool"
    "pool_wait_slice_ms pool \<noteq> 0 \<Longrightarrow> frame_timeout_ms g \<noteq> 0"
    "unat (frame_timeout_ms g) \<le> unat (expires_at_ms ?d - now)"
    using sus small us rem by (auto simp: word_le_nat_alt word_less_nat_alt unat_eq_zero not_less split: if_splits)
qed

lemma acquire_finish_returns: "\<exists>w'. pool_acquire_finish f r l w = (AcquireReturned r l, w')"
  by (simp add: pool_acquire_finish_def Let_def split: prod.split)

lemma pool_scan_slice:
  "pool_scan n i pool now x = (r, pool', x') \<Longrightarrow> pool_wait_slice_ms pool' = pool_wait_slice_ms pool"
proof (induction n i pool now x rule: pool_scan.induct)
  case (2 n i pool now x)
  have "pool_wait_slice_ms (fst (vps_pool_destroy_slot q k y)) = pool_wait_slice_ms q"
    for q :: "('a, 'b, 'c, 'd) VpsConnectionPool" and k y
    by (simp add: vps_pool_destroy_slot_def split: option.split)
  with "2.IH" "2.prems" show ?case
    by (auto simp: Let_def split: if_splits option.splits prod.splits) (metis fst_conv)+
qed simp

lemma take_available_slice:
  assumes "vps_pool_take_available pool now x = (r, k, pool', x')"
  shows "pool_wait_slice_ms pool' = pool_wait_slice_ms pool"
proof -
  obtain r1 pool1 x1 where s: "pool_scan (unat (pool_maximum_size pool)) 0 pool now x = (r1, pool1, x1)"
    by (metis prod_cases3)
  have "pool_wait_slice_ms pool' = pool_wait_slice_ms pool1"
    using assms s by (auto simp: vps_pool_take_available_def vps_pool_create_slot_def
        split: option.splits prod.splits if_splits)
  with pool_scan_slice [OF s] show ?thesis by simp
qed

lemma acquire_take_suspended:
  assumes "pool_acquire_take f (pool, x, p) = (AcquireSuspended g, w')"
  obtains now pool1 x1 p1 where "vps_platform_monotonic_now_ms (pool_platform pool) 0 p = (VPS_PLATFORM_OK, now, p1)"
    "pool_wait_slice_ms pool1 = pool_wait_slice_ms pool"
    "pool_acquire_wait f now (pool1, x1, p1) = (AcquireSuspended g, w')"
proof -
  have fin: "pool_acquire_finish f r l w \<noteq> (AcquireSuspended g, w')" for r l w
    using acquire_finish_returns [of f r l w] by auto
  show ?thesis
    using assms that
    by (auto simp: pool_acquire_take_def Let_def fin split: prod.splits if_splits dest: take_available_slice)
qed

lemma acquire_pass_suspended:
  assumes "pool_acquire_pass f (pool, x, p) = (AcquireSuspended g, w')"
  obtains i where "pool_acquire_take (f\<lparr>frame_interrupt_context := i\<rparr>) (pool, x, p) = (AcquireSuspended g, w')"
proof -
  have fin: "pool_acquire_finish f r l w \<noteq> (AcquireSuspended g, w')" for f r l w
    using acquire_finish_returns [of f r l w] by auto
  have "f\<lparr>frame_interrupt_context := frame_interrupt_context f\<rparr> = f" by simp
  then show ?thesis
    using assms that that [of "frame_interrupt_context f"]
    by (auto simp: pool_acquire_pass_def Let_def fin split: prod.splits if_splits option.splits)
qed

section \<open>Properties\<close>

text \<open>A small pool: two slots, one connection opened at once, a clock that ticks.\<close>

definition example_platform :: "nat VpsPlatformOperations" where
  "example_platform = \<lparr>structure_size = sizeof_VpsPlatformOperations, contract_version = VPS_PLATFORM_CONTRACT_VERSION,
     capabilities = 15, op_monotonic_now_ms = Some (\<lambda>p. (VPS_PLATFORM_OK, of_nat p, Suc p)),
     op_mutex_init = Some (\<lambda>m p. (VPS_PLATFORM_OK, m, p)), op_mutex_destroy = Some (\<lambda>m p. (VPS_PLATFORM_OK, m, p)),
     op_mutex_lock = Some (\<lambda>m p. (VPS_PLATFORM_OK, m, p)), op_mutex_unlock = Some (\<lambda>m p. (VPS_PLATFORM_OK, m, p)),
     op_condition_init = Some (\<lambda>c p. (VPS_PLATFORM_OK, c, p)), op_condition_destroy = Some (\<lambda>c p. (VPS_PLATFORM_OK, c, p)),
     op_condition_wait = Some (\<lambda>c m t p. (VPS_PLATFORM_TIMEOUT, (c, m), p + unat t)),
     op_condition_signal = Some (\<lambda>c p. (VPS_PLATFORM_OK, c, p)),
     op_condition_broadcast = Some (\<lambda>c p. (VPS_PLATFORM_OK, c, p)), op_socket_wait = None, op_secure_zero = None,
     op_environment_get = None, op_file_read = None, op_entropy_fill = None\<rparr>"

definition example_callbacks :: "nat list VpsConnectionPoolCallbacks" where
  "example_callbacks = \<lparr>cb_create = Some (\<lambda>x. (VPS_CONNECTION_POOL_OK, Some (Suc (sum_list x)), Suc (sum_list x) # x)),
     cb_validate = Some (\<lambda>x c. (VPS_CONNECTION_POOL_OK, x)), cb_reset = None, cb_destroy = Some (\<lambda>x c. removeAll c x)\<rparr>"

definition example_key :: VpsConnectionPoolKey where
  "example_key = \<lparr>key_identity = Some [1, 2, 3], key_fingerprint = Some (replicate 64 CHR ''a''),
     key_credential_generation = 1, key_configuration_generation = 1, key_read_only = 0\<rparr>"

definition example_config :: "(nat, nat list, heap, unit) VpsConnectionPoolConfig" where
  "example_config = \<lparr>config_allocator = system_allocator, config_platform = Some example_platform, config_logger = None,
     config_key = example_key, config_callbacks = example_callbacks, config_minimum_size = 1, config_maximum_size = 2,
     config_maximum_waiters = 2, config_wait_slice_ms = 10, config_idle_validation_ms = 0\<rparr>"

lemma example_account: "callbacks_account example_callbacks set"
proof -
  have "Suc (sum_list xs) \<notin> set xs" for xs :: "nat list"
    using member_le_sum_list [of "Suc (sum_list xs)" xs] by auto
  then show ?thesis by (auto simp: callbacks_account_def example_callbacks_def)
qed


lemma example_created:
  obtains pool x p h where
    "vps_connection_pool_create (Some example_config) (Some None) [] 0 witness_heap =
       Some (VPS_CONNECTION_POOL_OK, Some pool, x, p, h)"
    "pool_inv set pool x" "pool_allocator pool = system_allocator" "heap_live h = pool_blocks pool"
proof -
  let ?create = "vps_connection_pool_create (Some example_config) (Some None) [] 0 witness_heap"
  have ok: "fst (the ?create) = VPS_CONNECTION_POOL_OK" by code_simp
  have cfg: "config_allocator example_config = system_allocator"
    "callbacks_account (config_callbacks example_config) set"
    "length (the (key_identity (config_key example_config))) < 2 ^ 64"
    using example_account by (simp_all add: example_config_def example_key_def)
  obtain r po x p h where c: "?create = Some (r, po, x, p, h)"
    and e: "if r = VPS_CONNECTION_POOL_OK
     then \<exists>pool. po = Some pool \<and> pool_inv set pool x \<and> pool_fresh pool \<and> pool_allocator pool = system_allocator \<and>
       heap_live h = heap_live witness_heap + pool_blocks pool
     else po = None \<and> set x = {} \<and> heap_live h = heap_live witness_heap"
    using system.pool_create_all_or_nothing [OF TrueI cfg(1,2) _ cfg(3), of "[]" 0 witness_heap] by (metis set_empty)
  with ok that show ?thesis by (auto split: if_splits)
qed

text \<open>C19. Creating a pool is all or nothing and always returns. Whatever the allocator refuses, the platform
  answers and the callbacks do, \<open>vps_connection_pool_create\<close> comes back, its cleanup loop included: either
  with a pool that satisfies the invariant, holds exactly the connections that exist and owns exactly the
  blocks that were added to the heap, or with no pool, every connection it opened closed and the heap's
  live blocks as they were.\<close>

theorem pool_creation_accounts:
  assumes "config_allocator config = system_allocator" and "callbacks_account (config_callbacks config) live"
    and "live x = {}" and "length (the (key_identity (config_key config))) < 2 ^ 64"
  shows "\<exists>r po x' p' h'. vps_connection_pool_create (Some config) (Some None) x p h = Some (r, po, x', p', h') \<and>
    (if r = VPS_CONNECTION_POOL_OK
     then \<exists>pool. po = Some pool \<and> pool_inv live pool x' \<and> heap_live h' = heap_live h + pool_blocks pool
     else po = None \<and> live x' = {} \<and> heap_live h' = heap_live h)"
proof -
  obtain r po x' p' h' where c: "vps_connection_pool_create (Some config) (Some None) x p h = Some (r, po, x', p', h')"
    and e: "if r = VPS_CONNECTION_POOL_OK
     then \<exists>pool. po = Some pool \<and> pool_inv live pool x' \<and> pool_fresh pool \<and> pool_allocator pool = system_allocator \<and>
       heap_live h' = heap_live h + pool_blocks pool
     else po = None \<and> live x' = {} \<and> heap_live h' = heap_live h"
    using system.pool_create_all_or_nothing [OF TrueI assms] by metis
  from e have "if r = VPS_CONNECTION_POOL_OK
     then \<exists>pool. po = Some pool \<and> pool_inv live pool x' \<and> heap_live h' = heap_live h + pool_blocks pool
     else po = None \<and> live x' = {} \<and> heap_live h' = heap_live h" by (auto split: if_splits)
  with c show ?thesis by blast
qed

theorem pool_creation_accounts_witness:
  "\<exists>pool x' p' h'. vps_connection_pool_create (Some example_config) (Some None) [] 0 witness_heap =
      Some (VPS_CONNECTION_POOL_OK, Some pool, x', p', h') \<and>
    pool_inv set pool x' \<and> heap_live h' = pool_blocks pool"
proof -
  have "fst (the (vps_connection_pool_create (Some example_config) (Some None) [] 0 witness_heap)) = VPS_CONNECTION_POOL_OK"
    by code_simp
  moreover have "config_allocator example_config = system_allocator" "config_callbacks example_config = example_callbacks"
    "length (the (key_identity (config_key example_config))) < 2 ^ 64"
    by (simp_all add: example_config_def example_key_def)
  ultimately show ?thesis
    using pool_creation_accounts [of example_config set "[]" 0 witness_heap] example_account
    by (auto split: if_splits)
qed

text \<open>Destroying a pool gives everything back or frees nothing. On a pool in order,
  \<open>vps_connection_pool_destroy\<close> succeeds only when no lease is out and no thread waits; then every
  connection is closed and exactly the pool's blocks leave the heap. Otherwise no memory is released, the
  leases and the waiters are untouched, and the pool is still in order.\<close>

lemma pool_destruction_accounts:
  assumes "pool_allocator pool = system_allocator" and "pool_inv live pool x"
    and "vps_connection_pool_destroy (Some pool) x p h = (r, po, x', p', h')"
  shows "if r = VPS_CONNECTION_POOL_OK
     then po = None \<and> heap_live h' = heap_live h - pool_blocks pool \<and> live x' = {} \<and>
       pool_active pool = 0 \<and> pool_waiting pool = 0
     else h' = h \<and> (\<exists>pool'. po = Some pool' \<and> pool_inv live pool' x' \<and> lease_kept pool pool' \<and>
       waiter_part pool' = waiter_part pool)"
  using system.pool_destroy_frees [OF TrueI assms] by simp

end
