(* ===== verification/Vps_Pool_Threads.thy ===== *)
theory Vps_Pool_Threads
  imports Vps_Connection_Pool
begin

text \<open>
  Threads that share one connection pool. A thread is idle, waits inside an acquisition, or holds a
  lease. The reachable states of the system are an inductive predicate whose rules are the operations
  of \<open>Vps_Connection_Pool\<close>, each one atomic under the mutex, in any order; the operating system and its
  clock may change between any two of them. The number of acquisitions that were started is counted,
  because tickets and tokens are 64-bit counters: what is said about their order holds for the first
  \<open>2 ^ 64 - 1\<close> acquisitions.
\<close>

section \<open>The system\<close>

datatype 'i pool_thread = Idle | Waiting "'i acquire_frame" | Leased VpsConnectionLease

fun is_Waiting :: "'i pool_thread \<Rightarrow> bool" where
  "is_Waiting (Waiting _) = True" | "is_Waiting _ = False"

fun is_Leased :: "'i pool_thread \<Rightarrow> bool" where
  "is_Leased (Leased _) = True" | "is_Leased _ = False"

fun after_outcome :: "'i acquire_outcome \<Rightarrow> 'i pool_thread" where
  "after_outcome (AcquireReturned result lease) =
     (if result = VPS_CONNECTION_POOL_OK then Leased lease else Idle)"
| "after_outcome (AcquireSuspended frame) = Waiting frame"

fun after_enter :: "VpsConnectionPoolResult + 'i acquire_outcome \<Rightarrow> 'i pool_thread" where
  "after_enter (Inl _) = Idle"
| "after_enter (Inr out) = after_outcome out"

definition after_release :: "VpsConnectionLease \<Rightarrow> 'i pool_thread" where
  "after_release lease = (if lease_pool lease then Leased lease else Idle)"

type_synonym ('p, 'x, 'w, 'c, 'i) pool_system = "nat \<times> ('p, 'x, 'w, 'c) pool_world \<times> 'i pool_thread list"

inductive pool_step ::
    "('p, 'x, 'w, 'c, 'i) pool_system \<Rightarrow> ('p, 'x, 'w, 'c, 'i) pool_system \<Rightarrow> bool" where
  enter: "t < length threads \<Longrightarrow> threads ! t = Idle \<Longrightarrow>
    pool_acquire_enter key timeout_ms probe i (Some empty_lease) world = (r, world') \<Longrightarrow>
    pool_step (n, world, threads) (Suc n, world', threads[t := after_enter r])"
| wake: "t < length threads \<Longrightarrow> threads ! t = Waiting frame \<Longrightarrow>
    pool_acquire_resume frame world = (out, world') \<Longrightarrow>
    pool_step (n, world, threads) (n, world', threads[t := after_outcome out])"
| release: "t < length threads \<Longrightarrow> threads ! t = Leased lease \<Longrightarrow>
    vps_connection_lease_release (Some lease) disposition world = (r, Some lease', world') \<Longrightarrow>
    pool_step (n, world, threads) (n, world', threads[t := after_release lease'])"
| close: "vps_connection_pool_close world = (r, world') \<Longrightarrow> pool_step (n, world, threads) (n, world', threads)"
| tick: "pool_step (n, (pool, x, p), threads) (n, (pool, x, p'), threads)"

text \<open>A system starts with a pool that was just created and idle threads.\<close>

inductive pool_init ::
    "('p, 'x, 'w, 'c) VpsConnectionPoolConfig \<Rightarrow> 'x \<Rightarrow> ('p, 'x, 'w, 'c, 'i) pool_system \<Rightarrow> bool"
  for config x0 where
  created: "vps_connection_pool_create (Some config) (Some None) x0 p w =
      Some (VPS_CONNECTION_POOL_OK, Some pool, x, p', w') \<Longrightarrow>
    pool_init config x0 (0, (pool, x, p'), replicate m Idle)"

definition pool_reach ::
    "('p, 'x, 'w, 'c) VpsConnectionPoolConfig \<Rightarrow> 'x \<Rightarrow> ('p, 'x, 'w, 'c, 'i) pool_system \<Rightarrow> bool" where
  "pool_reach config x0 s \<longleftrightarrow> (\<exists>s0. pool_init config x0 s0 \<and> pool_step\<^sup>*\<^sup>* s0 s)"

section \<open>The invariant\<close>

definition registered :: "('p, 'x, 'w, 'c) VpsConnectionPool \<Rightarrow> 'i acquire_frame \<Rightarrow> bool" where
  "registered pool frame \<longleftrightarrow> frame_ticket frame \<noteq> 0 \<and> frame_waiter_index frame < pool_maximum_waiters pool \<and>
     pool_waiters pool ! unat (frame_waiter_index frame) = \<lparr>waiter_ticket = frame_ticket frame, waiter_active = True\<rparr>"

text \<open>Every waiting thread has an active waiter of its own.\<close>

definition queue_inv :: "('p, 'x, 'w, 'c) VpsConnectionPool \<Rightarrow> 'i pool_thread list \<Rightarrow> bool" where
  "queue_inv pool threads \<longleftrightarrow>
     (\<forall>t<length threads. \<forall>f. threads ! t = Waiting f \<longrightarrow> registered pool f) \<and>
     (\<forall>t<length threads. \<forall>u<length threads. \<forall>f g. threads ! t = Waiting f \<longrightarrow> threads ! u = Waiting g \<longrightarrow> t \<noteq> u \<longrightarrow>
        frame_waiter_index f \<noteq> frame_waiter_index g) \<and>
     unat (pool_waiting pool) = length (filter is_Waiting threads)"

text \<open>Every lease a thread holds is current and has a slot of its own.\<close>

definition lease_inv :: "('p, 'x, 'w, 'c) VpsConnectionPool \<Rightarrow> 'i pool_thread list \<Rightarrow> bool" where
  "lease_inv pool threads \<longleftrightarrow>
     (\<forall>t<length threads. \<forall>l. threads ! t = Leased l \<longrightarrow> lease_current pool l) \<and>
     (\<forall>t<length threads. \<forall>u<length threads. \<forall>l k. threads ! t = Leased l \<longrightarrow> threads ! u = Leased k \<longrightarrow> t \<noteq> u \<longrightarrow>
        lease_slot_index l \<noteq> lease_slot_index k) \<and>
     unat (pool_active pool) = length (filter is_Leased threads)"

text \<open>Within \<open>2 ^ 64 - 1\<close> acquisitions the counters do not wrap, and no ticket is above its counter.\<close>

definition count_inv :: "nat \<Rightarrow> ('p, 'x, 'w, 'c) VpsConnectionPool \<Rightarrow> 'i pool_thread list \<Rightarrow> bool" where
  "count_inv n pool threads \<longleftrightarrow>
     (n < 2 ^ 64 \<longrightarrow>
        unat (pool_next_ticket pool) \<le> n \<and>
        unat (pool_next_token pool) + length (filter is_Waiting threads) \<le> n \<and>
        (\<forall>f. Waiting f \<in> set threads \<longrightarrow> frame_ticket f \<le> pool_next_ticket pool))"

text \<open>The leases in use have different tokens, none above the counter.\<close>

definition tokens_distinct :: "('p, 'x, 'w, 'c) VpsConnectionPool \<Rightarrow> bool" where
  "tokens_distinct pool \<longleftrightarrow>
     (\<forall>i<length (pool_slots pool). slot_in_use (pool_slots pool ! i) \<longrightarrow>
        slot_lease_token (pool_slots pool ! i) \<le> pool_next_token pool \<and>
        (\<forall>j<length (pool_slots pool). slot_in_use (pool_slots pool ! j) \<longrightarrow> i \<noteq> j \<longrightarrow>
           slot_lease_token (pool_slots pool ! i) \<noteq> slot_lease_token (pool_slots pool ! j)))"

fun threads_inv :: "('x \<Rightarrow> connection set) \<Rightarrow> ('p, 'x, 'w, 'c, 'i) pool_system \<Rightarrow> bool" where
  "threads_inv live (n, (pool, x, p), threads) \<longleftrightarrow>
     pool_inv live pool x \<and> queue_inv pool threads \<and> lease_inv pool threads \<and> count_inv n pool threads \<and>
     (n < 2 ^ 64 \<longrightarrow> tokens_distinct pool)"

section \<open>Preservation\<close>

lemma filter_update_thread:
  assumes "t < length threads"
  shows "length (filter P (threads[t := b])) + (if P (threads ! t) then 1 else 0) =
    length (filter P threads) + (if P b then 1 else 0)"
  by (rule length_filter_update [OF assms])

lemma registered_cong:
  "waiter_part pool' = waiter_part pool \<Longrightarrow> fixed_part pool' = fixed_part pool \<Longrightarrow>
   registered pool' f = registered pool f"
  by (simp add: registered_def part_defs)

lemma queue_inv_keep:
  assumes "queue_inv pool threads" "t < length threads" "\<not> is_Waiting (threads ! t)" "\<not> is_Waiting b"
    "waiters_of pool' = waiters_of pool" "pool_maximum_waiters pool' = pool_maximum_waiters pool"
  shows "queue_inv pool' (threads[t := b])"
proof -
  have w: "threads[t := b] ! u = Waiting f \<longleftrightarrow> threads ! u = Waiting f" if "u < length threads" for u f
    using assms(2-4) that by (cases "u = t") auto
  show ?thesis
    using assms filter_update_thread [OF assms(2), of is_Waiting b] w
    by (auto simp: queue_inv_def registered_def waiters_of_def)
qed

lemma queue_inv_remove:
  assumes "queue_inv pool threads" "t < length threads" "threads ! t = Waiting f" "\<not> is_Waiting b" "pool_ok pool"
    "waiters_of pool' = waiters_of (vps_pool_waiter_remove pool (frame_waiter_index f))"
    "pool_maximum_waiters pool' = pool_maximum_waiters pool"
  shows "queue_inv pool' (threads[t := b])"
proof -
  let ?i = "frame_waiter_index f"
  have reg: "registered pool f" using assms(1-3) by (auto simp: queue_inv_def)
  then have eq: "pool_waiters pool' = (pool_waiters pool)[unat ?i := empty_waiter]"
    "pool_waiting pool' = pool_waiting pool - 1"
    using assms(6) by (auto simp: registered_def vps_pool_waiter_remove_def waiters_of_def)
  have w: "threads[t := b] ! u = Waiting g \<longleftrightarrow> threads ! u = Waiting g \<and> u \<noteq> t" if "u < length threads" for u g
    using assms(2,4) that by (cases "u = t") auto
  have other: "registered pool' g" if "u < length threads" "threads ! u = Waiting g" "u \<noteq> t" for u g
  proof -
    have "frame_waiter_index g \<noteq> ?i" "registered pool g"
      using assms(1-3) that unfolding queue_inv_def by blast+
    then show ?thesis using eq assms(7) by (auto simp: registered_def word_unat_eq_iff word_less_nat_alt)
  qed
  have "0 < length (filter is_Waiting threads)" using assms(2,3) by (intro length_filter_pos) auto
  then have "pool_waiting pool \<noteq> 0" using assms(1) by (auto simp: queue_inv_def)
  then have "unat (pool_waiting pool - 1) = unat (pool_waiting pool) - 1" by (rule unat_pred)
  then show ?thesis
    using assms(1,3,4) filter_update_thread [OF assms(2), of is_Waiting b] w other eq
    by (auto simp: queue_inv_def)
qed

lemma queue_inv_add:
  assumes "queue_inv pool threads" "t < length threads" "\<not> is_Waiting (threads ! t)" "pool_inv live pool x"
    "vps_pool_waiter_add pool = (Some (frame_waiter_index f, frame_ticket f), pool1)"
    "waiter_part pool' = waiter_part pool1" "pool_maximum_waiters pool' = pool_maximum_waiters pool"
  shows "queue_inv pool' (threads[t := Waiting f])"
proof -
  let ?i = "frame_waiter_index f"
  note a = waiter_add [OF assms(4,5)]
  have eq: "pool_waiters pool' = (pool_waiters pool)[unat ?i := \<lparr>waiter_ticket = frame_ticket f, waiter_active = True\<rparr>]"
    "unat (pool_waiting pool') = unat (pool_waiting pool) + 1"
    using a(8,9) assms(6) by (simp_all add: waiter_part_def)
  have "unat ?i < length (pool_waiters pool)"
    using a(4) assms(4) by (simp add: pool_inv_def pool_ok_def word_less_nat_alt)
  moreover have "frame_ticket f \<noteq> 0" using a(6) by (auto simp: vps_pool_next_nonzero_def Let_def)
  ultimately have reg: "registered pool' f" using eq a(4) assms(7) by (simp add: registered_def)
  have fresh: "frame_waiter_index g \<noteq> ?i" if "u < length threads" "threads ! u = Waiting g" for u g
    using assms(1) that a(5) by (auto simp: queue_inv_def registered_def)
  have other: "registered pool' g" if "u < length threads" "threads ! u = Waiting g" for u g
    using assms(1) that fresh [OF that] eq assms(7) by (auto simp: queue_inv_def registered_def word_unat_eq_iff word_less_nat_alt)
  have w: "threads[t := Waiting f] ! u = Waiting g \<longleftrightarrow> (if u = t then g = f else threads ! u = Waiting g)"
    if "u < length threads" for u g
    using that by auto
  show ?thesis
    using assms(1-3) filter_update_thread [OF assms(2), of is_Waiting "Waiting f"] w reg other fresh eq
    unfolding queue_inv_def by (simp split: if_splits) metis
qed

lemma lease_current_kept:
  assumes "lease_current pool l" "slots_kept_but k (pool_slots pool) (pool_slots pool')"
    "unat (lease_slot_index l) \<noteq> k"
  shows "lease_current pool' l"
  using assms by (auto simp: lease_current_def slots_kept_but_def Let_def)

lemma lease_inv_keep:
  assumes "lease_inv pool threads" "t < length threads" "\<not> is_Leased (threads ! t)" "\<not> is_Leased b"
    "lease_kept pool pool'"
  shows "lease_inv pool' (threads[t := b])"
proof -
  have w: "threads[t := b] ! u = Leased l \<longleftrightarrow> threads ! u = Leased l" if "u < length threads" for u l
    using assms(2-4) that by (cases "u = t") auto
  have "lease_current pool' l" if "lease_current pool l" for l
    using assms(5) that by (auto simp: lease_kept_def slots_kept_def lease_current_def Let_def)
  then show ?thesis
    using assms filter_update_thread [OF assms(2), of is_Leased b] w
    by (auto simp: lease_inv_def lease_kept_def)
qed

lemma lease_inv_grant:
  assumes "lease_inv pool threads" "t < length threads" "\<not> is_Leased (threads ! t)" "lease_granted pool lease pool'"
  shows "lease_inv pool' (threads[t := Leased lease])"
proof -
  let ?k = "unat (lease_slot_index lease)"
  have g: "lease_current pool' lease" "\<not> slot_in_use (pool_slots pool ! ?k)"
    "slots_kept_but ?k (pool_slots pool) (pool_slots pool')" "unat (pool_active pool') = unat (pool_active pool) + 1"
    using assms(4) by (auto simp: lease_granted_def)
  have cur: "lease_current pool l" if "u < length threads" "threads ! u = Leased l" for u l
    using assms(1) that by (auto simp: lease_inv_def)
  have fresh: "lease_slot_index l \<noteq> lease_slot_index lease" if "u < length threads" "threads ! u = Leased l" for u l
    using cur [OF that] g(2) by (auto simp: lease_current_def Let_def)
  have other: "lease_current pool' l" if "u < length threads" "threads ! u = Leased l" for u l
    using lease_current_kept [OF cur [OF that] g(3)] fresh [OF that] by (simp add: word_unat_eq_iff)
  have w: "threads[t := Leased lease] ! u = Leased l \<longleftrightarrow> (if u = t then l = lease else threads ! u = Leased l)"
    if "u < length threads" for u l
    using that by auto
  show ?thesis
    using assms(1-3) filter_update_thread [OF assms(2), of is_Leased "Leased lease"] w g(1,4) other fresh
    unfolding lease_inv_def by (simp split: if_splits) metis
qed

lemma lease_inv_release:
  assumes "lease_inv pool threads" "t < length threads" "threads ! t = Leased lease"
    "slots_kept_but (unat (lease_slot_index lease)) (pool_slots pool) (pool_slots pool')"
    "unat (pool_active pool') + 1 = unat (pool_active pool)"
  shows "lease_inv pool' (threads[t := Idle])"
proof -
  have other: "lease_current pool' l \<and> lease_slot_index l \<noteq> lease_slot_index lease"
    if "u < length threads" "threads ! u = Leased l" "u \<noteq> t" for u l
  proof -
    have "lease_current pool l" "lease_slot_index l \<noteq> lease_slot_index lease"
      using assms(1-3) that unfolding lease_inv_def by blast+
    with lease_current_kept [OF _ assms(4)] show ?thesis by (simp add: word_unat_eq_iff)
  qed
  have w: "threads[t := Idle] ! u = Leased l \<longleftrightarrow> threads ! u = Leased l \<and> u \<noteq> t" if "u < length threads" for u l
    using assms(2) that by (cases "u = t") auto
  show ?thesis
    using assms(1,3,5) filter_update_thread [OF assms(2), of is_Leased Idle] w other
    by (auto simp: lease_inv_def)
qed

lemma next_nonzero_unat:
  assumes "unat v + 1 < 2 ^ 64"
  shows "unat (vps_pool_next_nonzero v) = unat v + 1" "v < vps_pool_next_nonzero v"
proof -
  have "v \<noteq> - 1" using assms by (auto simp: unsigned_minus_1_eq_mask mask_eq_exp_minus_1)
  then have "unat (v + 1) = unat v + 1" by (rule unat_Suc_no_wrap)
  then show "unat (vps_pool_next_nonzero v) = unat v + 1"
    by (auto simp: vps_pool_next_nonzero_def Let_def)
  then show "v < vps_pool_next_nonzero v" by (simp add: word_less_nat_alt)
qed

lemma count_inv_step:
  assumes "count_inv n pool threads" "t < length threads" "n \<le> n'"
    "n' < 2 ^ 64 \<Longrightarrow> pool_next_ticket pool \<le> pool_next_ticket pool' \<and> unat (pool_next_ticket pool') \<le> n'"
    "n' < 2 ^ 64 \<Longrightarrow> unat (pool_next_token pool') + length (filter is_Waiting (threads[t := b])) \<le> n'"
    "\<And>f. n' < 2 ^ 64 \<Longrightarrow> b = Waiting f \<Longrightarrow> frame_ticket f \<le> pool_next_ticket pool'"
  shows "count_inv n' pool' (threads[t := b])"
  unfolding count_inv_def
proof (intro impI)
  assume n': "n' < 2 ^ 64"
  with assms(1,3) have c: "\<forall>f. Waiting f \<in> set threads \<longrightarrow> frame_ticket f \<le> pool_next_ticket pool"
    by (auto simp: count_inv_def)
  have "frame_ticket f \<le> pool_next_ticket pool'" if "Waiting f \<in> set (threads[t := b])" for f
    using set_update_subset_insert [THEN subsetD, OF that] c assms(4,6) n' by (auto intro: order_trans)
  then show "unat (pool_next_ticket pool') \<le> n' \<and>
    unat (pool_next_token pool') + length (filter is_Waiting (threads[t := b])) \<le> n' \<and>
    (\<forall>f. Waiting f \<in> set (threads[t := b]) \<longrightarrow> frame_ticket f \<le> pool_next_ticket pool')"
    using assms(4,5) n' by auto
qed

text \<open>The frame of the call a thread makes: a fresh one, or the one it waits with.\<close>

definition caller_frame :: "'i pool_thread \<Rightarrow> 'i acquire_frame \<Rightarrow> bool" where
  "caller_frame thread f \<longleftrightarrow>
     thread = Idle \<and> frame_ticket f = 0 \<and> frame_waiter_index f = UINT32_MAX \<or> thread = Waiting f"

lemma waiter_remove_max [simp]: "vps_pool_waiter_remove pool UINT32_MAX = pool"
  by (rule waiter_remove_none) (simp add: not_less)

lemma caller_cases:
  assumes "queue_inv pool threads" "t < length threads" "caller_frame (threads ! t) f"
  obtains (idle) "threads ! t = Idle" "frame_ticket f = 0"
      "frame_waiter_index f = UINT32_MAX"
    | (waiting) "threads ! t = Waiting f" "frame_ticket f \<noteq> 0" "registered pool f"
proof (cases "threads ! t")
  case Idle
  with assms(3) show ?thesis by (intro idle) (auto simp: caller_frame_def)
next
  case (Waiting g)
  with assms show ?thesis by (intro waiting) (auto simp: caller_frame_def queue_inv_def registered_def)
qed (use assms(3) in \<open>simp add: caller_frame_def\<close>)

lemma queue_inv_same:
  assumes "queue_inv pool threads" "t < length threads" "threads ! t = Waiting f"
    "frame_ticket g = frame_ticket f" "frame_waiter_index g = frame_waiter_index f"
    "waiter_part pool' = waiter_part pool" "fixed_part pool' = fixed_part pool"
  shows "queue_inv pool' (threads[t := Waiting g])"
proof -
  note reg = registered_cong [OF assms(6,7)]
  have w: "threads[t := Waiting g] ! u = Waiting h \<longleftrightarrow> (if u = t then h = g else threads ! u = Waiting h)"
    if "u < length threads" for u h
    using that by auto
  have "registered pool g" using assms(1-5) by (auto simp: queue_inv_def registered_def)
  moreover have "frame_waiter_index g \<noteq> frame_waiter_index h" "frame_waiter_index h \<noteq> frame_waiter_index g"
    if "u < length threads" "threads ! u = Waiting h" "u \<noteq> t" for u h
    using assms(1-3,5) that unfolding queue_inv_def by metis+
  ultimately show ?thesis
    using assms(1-3,6) filter_update_thread [OF assms(2), of is_Waiting "Waiting g"] w
    unfolding queue_inv_def waiter_part_def by (auto simp: reg split: if_splits)
qed

lemma acquire_queue:
  assumes "pool_inv live pool x" "queue_inv pool threads" "t < length threads" "caller_frame (threads ! t) f"
    "acquire_effect f pool out pool'"
  shows "queue_inv pool' (threads[t := after_outcome out])"
proof (cases out)
  case (AcquireReturned r l)
  have b: "\<not> is_Waiting (after_outcome out)" by (simp add: AcquireReturned)
  have w: "waiters_of pool' = waiters_of (vps_pool_waiter_remove pool (frame_waiter_index f))"
    "pool_maximum_waiters pool' = pool_maximum_waiters pool"
    using assms(5) by (simp_all add: AcquireReturned fixed_part_def)
  from assms(2-4) show ?thesis
  proof (cases rule: caller_cases)
    case idle
    with queue_inv_keep [OF assms(2,3) _ b] w show ?thesis by simp
  next
    case waiting
    have "pool_ok pool" using assms(1) by (simp add: pool_inv_def)
    from queue_inv_remove [OF assms(2,3) waiting(1) b this w] show ?thesis .
  qed
next
  case (AcquireSuspended g)
  have fixed: "fixed_part pool' = fixed_part pool" using assms(5) by (simp add: AcquireSuspended)
  from assms(2-4) show ?thesis
  proof (cases rule: caller_cases)
    case idle
    then obtain pool1 where "vps_pool_waiter_add pool = (Some (frame_waiter_index g, frame_ticket g), pool1)"
      "waiter_part pool' = waiter_part pool1"
      using assms(5) by (auto simp: AcquireSuspended)
    with queue_inv_add [OF assms(2,3) _ assms(1), of g pool1 pool'] idle(1) fixed show ?thesis
      by (simp add: AcquireSuspended fixed_part_def)
  next
    case waiting
    with assms(5) queue_inv_same [OF assms(2,3) waiting(1), of g pool'] fixed show ?thesis by (simp add: AcquireSuspended)
  qed
qed

lemma acquire_leases:
  assumes "lease_inv pool threads" "t < length threads" "caller_frame (threads ! t) f"
    "acquire_effect f pool out pool'"
  shows "lease_inv pool' (threads[t := after_outcome out])"
proof -
  have n: "\<not> is_Leased (threads ! t)" using assms(3) by (auto simp: caller_frame_def)
  show ?thesis
  proof (cases out)
    case (AcquireReturned r l)
    then show ?thesis
      using assms lease_inv_grant [OF assms(1,2) n, of l pool'] lease_inv_keep [OF assms(1,2) n, of Idle pool']
      by (auto split: if_splits)
  next
    case (AcquireSuspended g)
    then show ?thesis
      using assms lease_inv_keep [OF assms(1,2) n, of "Waiting g" pool'] by auto
  qed
qed

lemma acquire_counts:
  assumes "pool_inv live pool x" "queue_inv pool threads" "count_inv n pool threads" "t < length threads"
    "caller_frame (threads ! t) f" "acquire_effect f pool out pool'"
    "n' = (if threads ! t = Idle then Suc n else n)"
  shows "count_inv n' pool' (threads[t := after_outcome out])"
proof (rule count_inv_step [OF assms(3,4)])
  show le: "n \<le> n'" using assms(7) by simp
  note fu = filter_update_thread [OF assms(4), of is_Waiting "after_outcome out"]
  have token: "pool_next_token pool' = (case out of
      AcquireReturned r l \<Rightarrow> if r = VPS_CONNECTION_POOL_OK then vps_pool_next_nonzero (pool_next_token pool)
        else pool_next_token pool
    | AcquireSuspended g \<Rightarrow> pool_next_token pool)"
    using assms(6) by (cases out) (auto simp: lease_granted_def lease_kept_def)
  have ticket: "pool_next_ticket pool' = pool_next_ticket pool \<or>
      threads ! t = Idle \<and> pool_next_ticket pool' = vps_pool_next_nonzero (pool_next_ticket pool)"
    using assms(2,4,5)
  proof (cases rule: caller_cases)
    case idle
    show ?thesis
    proof (cases out)
      case (AcquireSuspended g)
      then obtain pool1 where add: "vps_pool_waiter_add pool = (Some (frame_waiter_index g, frame_ticket g), pool1)"
        "waiter_part pool' = waiter_part pool1"
        using assms(6) idle by auto
      with waiter_add(6,7) [OF assms(1) add(1)] idle(1) show ?thesis by (simp add: waiter_part_def)
    qed (use assms(6) idle in auto)
  next
    case waiting
    then show ?thesis using assms(6) by (cases out) (auto simp: waiter_part_def)
  qed
  show "pool_next_ticket pool \<le> pool_next_ticket pool' \<and> unat (pool_next_ticket pool') \<le> n'" if n': "n' < 2 ^ 64"
  proof -
    have c: "unat (pool_next_ticket pool) \<le> n" using assms(3) n' le by (auto simp: count_inv_def)
    from ticket show ?thesis
    proof
      assume "threads ! t = Idle \<and> pool_next_ticket pool' = vps_pool_next_nonzero (pool_next_ticket pool)"
      then show ?thesis
        using c n' assms(7) next_nonzero_unat [of "pool_next_ticket pool"] by (simp add: less_imp_le)
    qed (use c le in simp)
  qed
  show "unat (pool_next_token pool') + length (filter is_Waiting (threads[t := after_outcome out])) \<le> n'"
    if n': "n' < 2 ^ 64"
  proof -
    have c: "unat (pool_next_token pool) + length (filter is_Waiting threads) \<le> n"
      using assms(3) n' le by (auto simp: count_inv_def)
    have "threads ! t = Idle \<or> is_Waiting (threads ! t)" using assms(5) by (auto simp: caller_frame_def)
    moreover have "0 < length (filter is_Waiting threads)" if "is_Waiting (threads ! t)"
      using that assms(4) by (intro length_filter_pos)
    ultimately show ?thesis
      using c fu n' assms(7) token next_nonzero_unat [of "pool_next_token pool"]
      by (cases out) (auto split: if_splits intro: less_imp_le)
  qed
next
  fix g
  assume n': "n' < 2 ^ 64" and g: "after_outcome out = Waiting g"
  have out: "out = AcquireSuspended g" using g by (cases out) (auto split: if_splits)
  show "frame_ticket g \<le> pool_next_ticket pool'"
    using assms(2,4,5)
  proof (cases rule: caller_cases)
    case idle
    then obtain pool1 where add: "vps_pool_waiter_add pool = (Some (frame_waiter_index g, frame_ticket g), pool1)"
      "waiter_part pool' = waiter_part pool1"
      using assms(6) out by auto
    with waiter_add(6,7) [OF assms(1) add(1)] show ?thesis by (simp add: waiter_part_def)
  next
    case waiting
    then have "Waiting f \<in> set threads" using assms(4) by (metis nth_mem)
    then have "frame_ticket f \<le> pool_next_ticket pool"
      using assms(3,7) n' waiting(1) by (auto simp: count_inv_def)
    then show ?thesis using assms(6) out waiting by (simp add: waiter_part_def)
  qed
qed

lemma tokens_kept: "tokens_distinct pool \<Longrightarrow> lease_kept pool pool' \<Longrightarrow> tokens_distinct pool'"
  by (auto simp: tokens_distinct_def lease_kept_def slots_kept_def)

lemma tokens_granted:
  assumes "tokens_distinct pool" "lease_granted pool lease pool'" "unat (pool_next_token pool) + 1 < 2 ^ 64"
  shows "tokens_distinct pool'"
proof -
  let ?k = "unat (lease_slot_index lease)"
  have g: "length (pool_slots pool') = length (pool_slots pool)"
    "slot_lease_token (pool_slots pool' ! ?k) = pool_next_token pool'" "pool_next_token pool < pool_next_token pool'"
    "\<And>i. i < length (pool_slots pool) \<Longrightarrow> i \<noteq> ?k \<Longrightarrow> slot_in_use (pool_slots pool' ! i) \<Longrightarrow>
       slot_in_use (pool_slots pool ! i) \<and> pool_slots pool' ! i = pool_slots pool ! i"
    using assms(2) next_nonzero_unat(2) [OF assms(3)]
    by (auto simp: lease_granted_def slots_kept_but_def lease_current_def Let_def)
  have le: "slot_lease_token (pool_slots pool ! i) < pool_next_token pool'"
    if "i < length (pool_slots pool)" "slot_in_use (pool_slots pool ! i)" for i
    using assms(1) that g(3) by (auto simp: tokens_distinct_def intro: le_less_trans)
  show ?thesis
    unfolding tokens_distinct_def
  proof (intro allI impI conjI)
    fix i assume i: "i < length (pool_slots pool')" "slot_in_use (pool_slots pool' ! i)"
    show "slot_lease_token (pool_slots pool' ! i) \<le> pool_next_token pool'"
      using i g(1,2) g(4) [of i] le [of i] by (cases "i = ?k") auto
    fix j assume j: "j < length (pool_slots pool')" "slot_in_use (pool_slots pool' ! j)" "i \<noteq> j"
    show "slot_lease_token (pool_slots pool' ! i) \<noteq> slot_lease_token (pool_slots pool' ! j)"
      using i j g(1,2) g(4) [of i] g(4) [of j] le [of i] le [of j] assms(1)
      by (cases "i = ?k"; cases "j = ?k") (auto simp: tokens_distinct_def)
  qed
qed

lemma tokens_released:
  assumes "tokens_distinct pool" "release_effect lease pool lease' pool'"
  shows "tokens_distinct pool'"
proof (cases "lease' = lease")
  case True
  with assms tokens_kept show ?thesis by (auto simp: release_effect_def)
next
  case False
  then have g: "slots_kept_but (unat (lease_slot_index lease)) (pool_slots pool) (pool_slots pool')"
    "\<not> slot_in_use (pool_slots pool' ! unat (lease_slot_index lease))" "pool_next_token pool' = pool_next_token pool"
    using assms(2) by (auto simp: release_effect_def)
  have "slot_in_use (pool_slots pool ! i) \<and> pool_slots pool' ! i = pool_slots pool ! i"
    if "i < length (pool_slots pool)" "slot_in_use (pool_slots pool' ! i)" for i
    using g(1,2) that unfolding slots_kept_but_def by metis
  moreover have "length (pool_slots pool') = length (pool_slots pool)" using g(1) by (simp add: slots_kept_but_def)
  ultimately show ?thesis using assms(1) g(3) unfolding tokens_distinct_def by metis
qed

text \<open>An operation that leaves waiters and leases alone keeps the invariant of the threads.\<close>

lemma invs_keep:
  assumes "queue_inv pool threads" "lease_inv pool threads" "count_inv n pool threads"
    "waiter_part pool' = waiter_part pool" "pool_maximum_waiters pool' = pool_maximum_waiters pool"
    "lease_kept pool pool'" "n \<le> n'"
  shows "queue_inv pool' threads" "lease_inv pool' threads" "count_inv n' pool' threads"
proof -
  show "queue_inv pool' threads"
    using assms(1,4,5) by (simp add: queue_inv_def registered_def waiter_part_def)
  have "lease_current pool' l" if "lease_current pool l" for l
    using assms(6) that by (auto simp: lease_kept_def slots_kept_def lease_current_def Let_def)
  then show "lease_inv pool' threads"
    using assms(2,6) by (auto simp: lease_inv_def lease_kept_def)
  show "count_inv n' pool' threads"
    using assms(3,4,6,7) by (auto simp: count_inv_def waiter_part_def lease_kept_def)
qed

lemma token_room:
  assumes "count_inv n pool threads" "t < length threads" "caller_frame (threads ! t) f"
    "n' = (if threads ! t = Idle then Suc n else n)" "n' < 2 ^ 64"
  shows "unat (pool_next_token pool) + 1 < 2 ^ 64"
proof -
  have w: "0 < length (filter is_Waiting threads)" if "threads ! t \<noteq> Idle"
    using that assms(2,3) by (intro length_filter_pos [of t]) (auto simp: caller_frame_def)
  have le: "unat (pool_next_token pool) + length (filter is_Waiting threads) \<le> n"
    using assms(1,4,5) by (auto simp: count_inv_def split: if_splits)
  have "unat (pool_next_token pool) + 1 \<le> n'"
  proof (cases "threads ! t = Idle")
    case False
    from w [OF False] le have "unat (pool_next_token pool) + 1 \<le> n" by linarith
    then show ?thesis using assms(4) False by simp
  qed (use le assms(4) in simp)
  then show ?thesis using assms(5) by (rule le_less_trans)
qed

lemma acquire_invs:
  assumes "threads_inv live (n, (pool, x, p), threads)" "pool_inv live pool' x'" "t < length threads"
    "caller_frame (threads ! t) f" "acquire_effect f pool out pool'"
    "n' = (if threads ! t = Idle then Suc n else n)"
  shows "threads_inv live (n', (pool', x', p'), threads[t := after_outcome out])"
proof -
  have i: "pool_inv live pool x" "queue_inv pool threads" "lease_inv pool threads" "count_inv n pool threads"
    "n < 2 ^ 64 \<longrightarrow> tokens_distinct pool"
    using assms(1) by simp_all
  have c: "count_inv n' pool' (threads[t := after_outcome out])"
    by (rule acquire_counts [OF i(1,2,4) assms(3-6)])
  have "tokens_distinct pool'" if n': "n' < 2 ^ 64"
  proof -
    have td: "tokens_distinct pool" using i(5) n' assms(6) by (auto split: if_splits)
    show ?thesis
    proof (cases out)
      case (AcquireReturned r l)
      have "unat (pool_next_token pool) + 1 < 2 ^ 64"
        by (rule token_room [OF i(4) assms(3,4,6) n'])
      then show ?thesis
        using assms(5) tokens_granted [OF td, of l pool'] tokens_kept [OF td, of pool']
        by (auto simp: AcquireReturned split: if_splits)
    qed (use assms(5) tokens_kept [OF td] in auto)
  qed
  then show ?thesis
    using acquire_queue [OF i(1,2) assms(3-5)] acquire_leases [OF i(3) assms(3-5)] c assms(2) by simp
qed

lemma step_inv:
  assumes "threads_inv live s" "pool_step s s'"
  shows "threads_inv live s'"
  using assms(2,1)
proof (cases rule: pool_step.cases)
  case (enter t threads key timeout_ms probe i world r world' n)
  obtain pool x p pool' x' p' where w: "world = (pool, x, p)" "world' = (pool', x', p')" by (metis prod_cases3)
  have inv: "threads_inv live (n, (pool, x, p), threads)" using assms(1) enter w by simp
  note ae = acquire_enter [OF _ enter(5) [unfolded w], of live]
  show ?thesis
  proof (cases r)
    case (Inl e)
    have parts: "lease_part pool' = lease_part pool" "waiter_part pool' = waiter_part pool" "fixed_part pool' = fixed_part pool"
      using ae(2) inv by (simp_all add: Inl)
    have "threads[t := Idle] = threads" using enter(4) by (metis list_update_id)
    moreover have "threads_inv live (Suc n, (pool', x', p'), threads)"
      using invs_keep [of pool threads n pool' "Suc n"] ae(1) inv lease_kept_part [OF parts(1)] parts tokens_kept [of pool pool']
      by (simp add: fixed_part_def)
    ultimately show ?thesis using enter(2) w by (simp add: Inl)
  next
    case (Inr out)
    then obtain f where f: "frame_ticket f = 0" "frame_waiter_index f = UINT32_MAX" "acquire_effect f pool out pool'"
      using ae(2) inv by auto
    have "threads_inv live (Suc n, (pool', x', p'), threads[t := after_outcome out])"
      using enter(4) f(1,2) ae(1) inv
      by (intro acquire_invs [OF inv _ enter(3) _ f(3)]) (simp_all add: caller_frame_def)
    then show ?thesis using enter(2) w by (simp add: Inr)
  qed
next
  case (wake t threads frame world out world' n)
  obtain pool x p pool' x' p' where w: "world = (pool, x, p)" "world' = (pool', x', p')" by (metis prod_cases3)
  have inv: "threads_inv live (n, (pool, x, p), threads)" using assms(1) wake w by simp
  then have "frame_ticket frame \<noteq> 0" using wake(3,4) by (auto simp: queue_inv_def registered_def)
  with acquire_resume [OF _ _ wake(5) [unfolded w], of live] inv
  have "pool_inv live pool' x'" "acquire_effect frame pool out pool'" by simp_all
  then show ?thesis
    using acquire_invs [OF inv _ wake(3), of pool' x' frame out n p'] wake w by (simp add: caller_frame_def)
next
  case (release t threads lease disposition world r lease' world' n)
  obtain pool x p pool' x' p' where w: "world = (pool, x, p)" "world' = (pool', x', p')" by (metis prod_cases3)
  have inv: "threads_inv live (n, (pool, x, p), threads)" using assms(1) release w by simp
  then have pinv: "pool_inv live pool x" by simp
  have rel: "pool_inv live pool' x'" "release_effect lease pool lease' pool'"
    using lease_release [OF pinv release(5) [unfolded w]] by auto
  have parts: "waiter_part pool' = waiter_part pool" "pool_maximum_waiters pool' = pool_maximum_waiters pool"
    using rel(2) by (auto simp: release_effect_def fixed_part_def)
  have tok: "n < 2 ^ 64 \<longrightarrow> tokens_distinct pool'" using inv tokens_released [OF _ rel(2)] by simp
  have cur: "lease_current pool lease" using inv release(3,4) by (auto simp: lease_inv_def)
  have "threads_inv live (n, (pool', x', p'), threads[t := after_release lease'])"
  proof (cases "lease' = lease")
    case True
    then have "threads[t := after_release lease'] = threads"
      using cur release(4) by (simp add: after_release_def lease_current_def) (metis list_update_id)
    moreover have "lease_kept pool pool'" using rel(2) True by (simp add: release_effect_def)
    ultimately show ?thesis
      using invs_keep [of pool threads n pool' n] inv rel(1) parts tok by simp
  next
    case False
    then have e: "after_release lease' = (Idle :: 'e pool_thread)"
      "slots_kept_but (unat (lease_slot_index lease)) (pool_slots pool) (pool_slots pool')"
      "unat (pool_active pool') + 1 = unat (pool_active pool)" "pool_next_token pool' = pool_next_token pool"
      using rel(2) by (auto simp: release_effect_def after_release_def)
    have "lease_inv pool' (threads[t := Idle])"
      using inv by (intro lease_inv_release [OF _ release(3,4) e(2,3)]) simp
    moreover have "queue_inv pool' (threads[t := Idle])"
      using inv parts release(4)
      by (intro queue_inv_keep [OF _ release(3)]) (simp_all add: waiters_of_def waiter_part_def)
    moreover have "count_inv n pool' (threads[t := Idle])"
      using inv parts e(4) filter_update_thread [OF release(3), of is_Waiting Idle] release(4)
      by (intro count_inv_step [where n = n and pool = pool, OF _ release(3)]) (auto simp: waiter_part_def count_inv_def)
    ultimately show ?thesis using e(1) rel(1) tok by (simp add: after_release_def)
  qed
  then show ?thesis using release(2) w by simp
next
  case (close world r world' n threads)
  obtain pool x p pool' x' p' where w: "world = (pool, x, p)" "world' = (pool', x', p')" by (metis prod_cases3)
  have inv: "threads_inv live (n, (pool, x, p), threads)" using assms(1) close w by simp
  then have "pool_inv live pool x" by simp
  note pc = pool_close [OF this close(3) [unfolded w]]
  show ?thesis
    using invs_keep [of pool threads n pool' n] inv pc(1-4) tokens_kept [of pool pool'] close(2) w
    by (simp add: fixed_part_def)
next
  case (tick n pool x p threads p')
  then show ?thesis using assms(1) by simp
qed

text \<open>The pool's own contract as a machine: every step keeps the invariant.\<close>

lemma reach_inv:
  assumes "pool_reach config x0 s" "config_allocator config = system_allocator"
    "callbacks_account (config_callbacks config) live" "live x0 = {}"
    "length (the (key_identity (config_key config))) < 2 ^ 64"
  shows "threads_inv live s"
proof -
  obtain s0 where s0: "pool_init config x0 s0" "pool_step\<^sup>*\<^sup>* s0 s" using assms(1) by (auto simp: pool_reach_def)
  from s0(1) have "threads_inv live s0"
  proof (cases rule: pool_init.cases)
    case (created p w pool x p' w' m)
    obtain r po x1 p1 w1 where c: "vps_connection_pool_create (Some config) (Some None) x0 p w = Some (r, po, x1, p1, w1)"
      and e: "if r = VPS_CONNECTION_POOL_OK
        then \<exists>pool. po = Some pool \<and> pool_inv live pool x1 \<and> pool_fresh pool \<and> pool_allocator pool = system_allocator \<and>
          heap_live w1 = heap_live w + pool_blocks pool
        else po = None \<and> live x1 = {} \<and> heap_live w1 = heap_live w"
      using system.pool_create_all_or_nothing [OF TrueI assms(2-5)] by metis
    with created have inv: "pool_inv live pool x" "pool_fresh pool" by (auto split: if_splits)
    then have "queue_inv pool (replicate m Idle)" "lease_inv pool (replicate m Idle)" "count_inv 0 pool (replicate m Idle)"
      by (auto simp: queue_inv_def lease_inv_def count_inv_def pool_fresh_def)
    moreover have "tokens_distinct pool"
      using inv by (auto simp: tokens_distinct_def pool_inv_def pool_ok_def pool_fresh_def filter_empty_conv)
    ultimately show ?thesis using inv(1) created(1) by simp
  qed
  with s0(2) show ?thesis by (induction rule: rtranclp_induct) (auto intro: step_inv)
qed

text \<open>A lease is over when no slot in use has its token and the counter has passed it.\<close>

fun lease_over :: "VpsConnectionLease \<Rightarrow> ('p, 'x, 'w, 'c, 'i) pool_system \<Rightarrow> bool" where
  "lease_over l (n, (pool, x, p), threads) \<longleftrightarrow>
     (n < 2 ^ 64 \<longrightarrow> lease_token l \<le> pool_next_token pool \<and>
        (\<forall>i<length (pool_slots pool). slot_in_use (pool_slots pool ! i) \<longrightarrow>
           slot_lease_token (pool_slots pool ! i) \<noteq> lease_token l))"

lemma lease_over_kept:
  "lease_over l (n, (pool, x, p), threads) \<Longrightarrow> lease_kept pool pool' \<Longrightarrow> n \<le> n' \<Longrightarrow>
   lease_over l (n', (pool', x', p'), threads')"
  by (auto simp: lease_kept_def slots_kept_def)

lemma lease_over_granted:
  assumes "lease_over l (n, (pool, x, p), threads)" "lease_granted pool lease pool'" "n \<le> n'"
    "n' < 2 ^ 64 \<Longrightarrow> unat (pool_next_token pool) + 1 < 2 ^ 64"
  shows "lease_over l (n', (pool', x', p'), threads')"
  unfolding lease_over.simps
proof (intro impI)
  assume n': "n' < 2 ^ 64"
  let ?k = "unat (lease_slot_index lease)"
  have lt: "pool_next_token pool < pool_next_token pool'"
    using next_nonzero_unat(2) [OF assms(4) [OF n']] assms(2) by (auto simp: lease_granted_def)
  have o: "lease_token l \<le> pool_next_token pool"
    "\<And>i. i < length (pool_slots pool) \<Longrightarrow> slot_in_use (pool_slots pool ! i) \<Longrightarrow>
      slot_lease_token (pool_slots pool ! i) \<noteq> lease_token l"
    using assms(1,3) n' by auto
  have "slot_lease_token (pool_slots pool' ! i) \<noteq> lease_token l"
    if "i < length (pool_slots pool')" "slot_in_use (pool_slots pool' ! i)" for i
  proof (cases "i = ?k")
    case True
    then have "slot_lease_token (pool_slots pool' ! i) = pool_next_token pool'"
      using assms(2) by (auto simp: lease_granted_def lease_current_def Let_def)
    then show ?thesis using o(1) lt by auto
  next
    case False
    then have "slot_in_use (pool_slots pool ! i)" "pool_slots pool' ! i = pool_slots pool ! i" "i < length (pool_slots pool)"
      using assms(2) that by (auto simp: lease_granted_def slots_kept_but_def)
    then show ?thesis using o(2) by simp
  qed
  then show "lease_token l \<le> pool_next_token pool' \<and>
    (\<forall>i<length (pool_slots pool'). slot_in_use (pool_slots pool' ! i) \<longrightarrow> slot_lease_token (pool_slots pool' ! i) \<noteq> lease_token l)"
    using o(1) lt by auto
qed

lemma acquire_over:
  assumes "lease_over l (n, (pool, x, p), threads)" "threads_inv live (n, (pool, x, p), threads)" "t < length threads"
    "caller_frame (threads ! t) f" "acquire_effect f pool out pool'" "n' = (if threads ! t = Idle then Suc n else n)"
  shows "lease_over l (n', (pool', x', p'), threads')"
proof (cases "\<exists>k. out = AcquireReturned VPS_CONNECTION_POOL_OK k")
  case True
  then obtain k where "lease_granted pool k pool'" using assms(5) by auto
  then show ?thesis
  proof (rule lease_over_granted [OF assms(1)])
    assume n': "n' < 2 ^ 64"
    have "count_inv n pool threads" using assms(2) by simp
    then show "unat (pool_next_token pool) + 1 < 2 ^ 64" by (rule token_room [OF _ assms(3,4,6) n'])
  qed (use assms(6) in simp)
next
  case False
  then have "lease_kept pool pool'" using assms(5) by (cases out) auto
  then show ?thesis by (rule lease_over_kept [OF assms(1)]) (simp add: assms(6))
qed

lemma lease_over_step:
  assumes "threads_inv live s" "pool_step s s'" "lease_over l s"
  shows "lease_over l s'"
  using assms(2,1,3)
proof (cases rule: pool_step.cases)
  case (enter t threads key timeout_ms probe i world r world' n)
  obtain pool x p pool' x' p' where w: "world = (pool, x, p)" "world' = (pool', x', p')" by (metis prod_cases3)
  have inv: "threads_inv live (n, (pool, x, p), threads)" and over: "lease_over l (n, (pool, x, p), threads)"
    using assms(1,3) unfolding enter(1) w by blast+
  then have pinv: "pool_inv live pool x" by simp
  note ae = acquire_enter(2) [OF pinv enter(5) [unfolded w]]
  have "lease_over l (Suc n, (pool', x', p'), threads[t := after_enter r])"
  proof (cases r)
    case (Inl e)
    then have "lease_kept pool pool'" using ae by (auto intro: lease_kept_part)
    then show ?thesis by (rule lease_over_kept [OF over]) simp
  next
    case (Inr out)
    obtain f where f: "frame_ticket f = 0" "frame_waiter_index f = UINT32_MAX" "acquire_effect f pool out pool'"
      using ae by (auto simp: Inr)
    show ?thesis
      by (rule acquire_over [OF over inv enter(3) _ f(3)]) (use enter(4) f in \<open>auto simp: caller_frame_def\<close>)
  qed
  then show ?thesis unfolding enter(2) w .
next
  case (wake t threads frame world out world' n)
  obtain pool x p pool' x' p' where w: "world = (pool, x, p)" "world' = (pool', x', p')" by (metis prod_cases3)
  have inv: "threads_inv live (n, (pool, x, p), threads)" and over: "lease_over l (n, (pool, x, p), threads)"
    using assms(1,3) unfolding wake(1) w by blast+
  then have pinv: "pool_inv live pool x" and "frame_ticket frame \<noteq> 0"
    using wake(3,4) by (auto simp: queue_inv_def registered_def)
  with acquire_resume [OF pinv _ wake(5) [unfolded w]] have e: "acquire_effect frame pool out pool'" by simp
  have "lease_over l (n, (pool', x', p'), threads[t := after_outcome out])"
    by (rule acquire_over [OF over inv wake(3) _ e]) (use wake(4) in \<open>auto simp: caller_frame_def\<close>)
  then show ?thesis unfolding wake(2) w .
next
  case (release t threads lease disposition world r lease' world' n)
  obtain pool x p pool' x' p' where w: "world = (pool, x, p)" "world' = (pool', x', p')" by (metis prod_cases3)
  have inv: "threads_inv live (n, (pool, x, p), threads)" and over: "lease_over l (n, (pool, x, p), threads)"
    using assms(1,3) unfolding release(1) w by blast+
  then have pinv: "pool_inv live pool x" by simp
  have rel: "release_effect lease pool lease' pool'"
    using lease_release [OF pinv release(5) [unfolded w]] by auto
  have "slot_in_use (pool_slots pool ! i) \<and> slot_lease_token (pool_slots pool' ! i) = slot_lease_token (pool_slots pool ! i)"
    if "i < length (pool_slots pool)" "slot_in_use (pool_slots pool' ! i)" for i
    using rel that
    by (cases "i = unat (lease_slot_index lease)")
      (auto simp: release_effect_def slots_kept_but_def lease_kept_def slots_kept_def split: if_splits)
  moreover have "length (pool_slots pool') = length (pool_slots pool)" "pool_next_token pool' = pool_next_token pool"
    using rel by (auto simp: release_effect_def slots_kept_but_def lease_kept_def slots_kept_def split: if_splits)
  ultimately have "lease_over l (n, (pool', x', p'), threads[t := after_release lease'])" using over by auto
  then show ?thesis unfolding release(2) w .
next
  case (close world r world' n threads)
  obtain pool x p pool' x' p' where w: "world = (pool, x, p)" "world' = (pool', x', p')" by (metis prod_cases3)
  have inv: "threads_inv live (n, (pool, x, p), threads)" and over: "lease_over l (n, (pool, x, p), threads)"
    using assms(1,3) unfolding close(1) w by blast+
  then have pinv: "pool_inv live pool x" by simp
  have "lease_over l (n, (pool', x', p'), threads)"
    by (rule lease_over_kept [OF over pool_close(3) [OF pinv close(3) [unfolded w]]]) simp
  then show ?thesis unfolding close(2) w .
next
  case (tick n pool x p threads p')
  then show ?thesis using assms(3) by simp
qed

lemma lease_over_steps:
  assumes "pool_step\<^sup>*\<^sup>* s s'" "threads_inv live s" "lease_over l s"
  shows "threads_inv live s' \<and> lease_over l s'"
  using assms by (induction rule: rtranclp_induct) (auto intro: step_inv lease_over_step)

lemma release_over:
  assumes "threads_inv live (n, (pool, x, p), threads)" "release_effect l pool empty_lease pool'" "lease_pool l"
  shows "lease_over l (n, (pool', x', p'), threads')"
  unfolding lease_over.simps
proof (intro impI conjI allI)
  let ?k = "unat (lease_slot_index l)"
  have ne: "empty_lease \<noteq> l" using assms(3) by auto
  have r: "lease_current pool l" "slots_kept_but ?k (pool_slots pool) (pool_slots pool')"
    "\<not> slot_in_use (pool_slots pool' ! ?k)" "pool_next_token pool' = pool_next_token pool"
    using assms(2) ne by (simp_all add: release_effect_def)
  assume n: "n < 2 ^ 64"
  then have td: "tokens_distinct pool" using assms(1) by simp
  then show "lease_token l \<le> pool_next_token pool'"
    using r(1,4) by (auto simp: tokens_distinct_def lease_current_def Let_def)
  fix i assume i: "i < length (pool_slots pool')" "slot_in_use (pool_slots pool' ! i)"
  then have "i \<noteq> ?k" using r(3) by auto
  then have "slot_in_use (pool_slots pool ! i)" "pool_slots pool' ! i = pool_slots pool ! i" "i < length (pool_slots pool)"
    using i r(2) by (auto simp: slots_kept_but_def)
  moreover have "?k < length (pool_slots pool)" "slot_in_use (pool_slots pool ! ?k)"
    "slot_lease_token (pool_slots pool ! ?k) = lease_token l"
    using r(1) by (auto simp: lease_current_def Let_def)
  ultimately show "slot_lease_token (pool_slots pool' ! i) \<noteq> lease_token l"
    using td \<open>i \<noteq> ?k\<close> unfolding tokens_distinct_def by metis
qed

lemma release_ok_clears:
  assumes "vps_connection_lease_release (Some l) d w = (VPS_CONNECTION_POOL_OK, lp, w')"
  shows "lp = Some empty_lease"
  using assms by (auto simp: vps_connection_lease_release_def Let_def split: prod.splits if_splits)


section \<open>An example system\<close>

text \<open>Four threads on the pool of \<open>example_config\<close>, which has two slots: two acquisitions are served, the
  others wait.\<close>

type_synonym example_system = "(nat, nat list, heap, unit, unit) pool_system"

definition example_start :: example_system where
  "example_start =
     (case the (vps_connection_pool_create (Some example_config) (Some None) [] 0 witness_heap) of
        (_, po, x, p, _) \<Rightarrow> (0, (the po, x, p), replicate 4 Idle))"

definition example_enter :: "nat \<Rightarrow> example_system \<Rightarrow> example_system" where
  "example_enter t s =
     (case s of (n, world, threads) \<Rightarrow>
        (case pool_acquire_enter (Some example_key) 100 None () (Some empty_lease) world of
           (r, world') \<Rightarrow> (Suc n, world', threads[t := after_enter r])))"

definition example_idle :: "nat \<Rightarrow> example_system \<Rightarrow> bool" where
  "example_idle t s =
     (case s of (n, world, threads) \<Rightarrow>
        t < length threads \<and> (case threads ! t of Idle \<Rightarrow> True | _ \<Rightarrow> False))"

lemma example_hyps:
  "config_allocator example_config = system_allocator" "callbacks_account (config_callbacks example_config) set"
  "set [] = {}" "length (the (key_identity (config_key example_config))) < 2 ^ 64"
  using example_account by (simp_all add: example_config_def example_key_def)

lemma example_start_reach: "pool_reach example_config [] example_start"
proof -
  obtain pool x p h where c: "vps_connection_pool_create (Some example_config) (Some None) [] 0 witness_heap =
       Some (VPS_CONNECTION_POOL_OK, Some pool, x, p, h)"
    by (rule example_created)
  then have "pool_init example_config [] (0, (pool, x, p), replicate 4 Idle :: unit pool_thread list)" by (rule pool_init.created)
  then have "pool_reach example_config [] (0, (pool, x, p), replicate 4 Idle :: unit pool_thread list)"
    unfolding pool_reach_def by blast
  then show ?thesis by (simp add: example_start_def c)
qed

lemma example_enter_reach:
  assumes "pool_reach example_config [] s" "example_idle t s"
  shows "pool_reach example_config [] (example_enter t s)"
proof -
  obtain n world threads where s: "s = (n, world, threads)" by (metis prod_cases3)
  have "pool_step s (example_enter t s)"
    using assms(2) unfolding s example_idle_def example_enter_def
    by (auto intro!: pool_step.enter split: prod.splits pool_thread.splits)
  with assms(1) show ?thesis unfolding pool_reach_def by (blast intro: rtranclp.rtrancl_into_rtrancl)
qed

definition example_two :: example_system where
  "example_two = example_enter 1 (example_enter 0 example_start)"

definition example_four :: example_system where
  "example_four = example_enter 3 (example_enter 2 example_two)"

lemma example_two_reach: "pool_reach example_config [] example_two"
proof -
  have "example_idle 0 example_start" "example_idle 1 (example_enter 0 example_start)" by code_simp+
  then show ?thesis unfolding example_two_def by (intro example_enter_reach example_start_reach)
qed

lemma example_four_reach: "pool_reach example_config [] example_four"
proof -
  have "example_idle 2 example_two" "example_idle 3 (example_enter 2 example_two)" by code_simp+
  then show ?thesis unfolding example_four_def by (intro example_enter_reach example_two_reach)
qed

section \<open>Properties\<close>

lemma slots_own_card:
  assumes "slots_own live slots x"
  shows "length (filter (\<lambda>slot. slot_connection slot \<noteq> None) slots) = card (live x)"
proof -
  let ?I = "{i. i < length slots \<and> slot_connection (slots ! i) \<noteq> None}"
  have inj: "inj_on (\<lambda>i. the (slot_connection (slots ! i))) ?I"
  proof (rule inj_onI)
    fix i j assume "i \<in> ?I" "j \<in> ?I" "the (slot_connection (slots ! i)) = the (slot_connection (slots ! j))"
    then obtain c where "i < length slots" "j < length slots" "slot_connection (slots ! i) = Some c"
      "slot_connection (slots ! j) = Some c" by auto
    then show "i = j" by (rule slots_ownD(1) [OF assms])
  qed
  have "(\<lambda>i. the (slot_connection (slots ! i))) ` ?I = live x"
  proof (intro set_eqI iffI)
    fix c assume "c \<in> live x"
    then obtain i where "i < length slots" "slot_connection (slots ! i) = Some c" using slots_ownD(2) [OF assms] by auto
    then show "c \<in> (\<lambda>i. the (slot_connection (slots ! i))) ` ?I" by (intro image_eqI [of _ _ i]) auto
  next
    fix c assume "c \<in> (\<lambda>i. the (slot_connection (slots ! i))) ` ?I"
    then show "c \<in> live x" using slots_ownD(2) [OF assms, of c] by auto
  qed
  then have "card (live x) = card ?I" using card_image [OF inj] by simp
  then show ?thesis by (simp add: length_filter_conv_card)
qed

text \<open>C1. A lease is exclusive. In every reachable state of any number of threads that acquire, wait, wake
  up, release and close in any order, two threads that hold leases hold different slots and different
  connections, and every leased connection is one that exists.\<close>

theorem pool_lease_exclusive:
  assumes "pool_reach config x0 (n, (pool, x, p), threads)" and "config_allocator config = system_allocator"
    and "callbacks_account (config_callbacks config) live" and "live x0 = {}"
    and "length (the (key_identity (config_key config))) < 2 ^ 64"
    and "t < length threads" and "u < length threads" and "t \<noteq> u"
    and "threads ! t = Leased l" and "threads ! u = Leased k"
  shows "lease_slot_index l \<noteq> lease_slot_index k \<and> lease_connection l \<noteq> lease_connection k \<and>
    lease_connection l \<in> Some ` live x \<and> lease_connection k \<in> Some ` live x"
proof -
  have inv: "threads_inv live (n, (pool, x, p), threads)" by (rule reach_inv [OF assms(1-5)])
  then have c: "lease_current pool l" "lease_current pool k" and d: "lease_slot_index l \<noteq> lease_slot_index k"
    using assms(6-10) by (auto simp: lease_inv_def)
  have own: "slots_own live (pool_slots pool) x" using inv by (simp add: pool_inv_def)
  obtain a b where ab: "lease_connection l = Some a" "lease_connection k = Some b"
    using c by (auto simp: lease_current_def)
  have "a \<noteq> b"
    using slots_ownD(1) [OF own, of "unat (lease_slot_index l)" "unat (lease_slot_index k)" a] c d ab
    by (auto simp: lease_current_def Let_def word_unat_eq_iff)
  moreover have "a \<in> live x" "b \<in> live x"
    using slots_ownD(2) [OF own] c ab by (auto simp: lease_current_def Let_def)
  ultimately show ?thesis using d ab by simp
qed

theorem pool_lease_exclusive_witness:
  "case example_two of (n, (pool, x, p), threads) \<Rightarrow> \<exists>l k.
    threads ! 0 = Leased l \<and> threads ! 1 = Leased k \<and> lease_slot_index l \<noteq> lease_slot_index k \<and>
    lease_connection l \<noteq> lease_connection k \<and> lease_connection l \<in> Some ` set x"
proof -
  obtain n pool x p threads where s: "example_two = (n, (pool, x, p), threads)" by (cases example_two) auto
  have "(case example_two of (n, world, threads) \<Rightarrow> length threads = 4 \<and> is_Leased (threads ! 0) \<and> is_Leased (threads ! 1))"
    by code_simp
  then have len: "length threads = 4" and "is_Leased (threads ! 0)" "is_Leased (threads ! 1)" by (simp_all add: s)
  then obtain l k where lk: "threads ! 0 = Leased l" "threads ! 1 = Leased k"
    by (metis is_Leased.elims(2))
  have "pool_reach example_config [] (n, (pool, x, p), threads)" using example_two_reach s by simp
  from pool_lease_exclusive [OF this example_hyps _ _ _ lk] len lk show ?thesis by (simp add: s)
qed

text \<open>C16. The counters are exact. In every reachable state \<open>total\<close> is the number of connections that exist,
  \<open>active\<close> the number of threads that hold a lease and \<open>waiting\<close> the number of threads inside a condition
  wait; never more connections exist than the pool's maximum size, nor more threads wait than it has
  waiters.\<close>

theorem pool_counters_exact:
  assumes "pool_reach config x0 (n, (pool, x, p), threads)" and "config_allocator config = system_allocator"
    and "callbacks_account (config_callbacks config) live" and "live x0 = {}"
    and "length (the (key_identity (config_key config))) < 2 ^ 64"
  shows "unat (pool_total pool) = card (live x) \<and> unat (pool_active pool) = length (filter is_Leased threads) \<and>
    unat (pool_waiting pool) = length (filter is_Waiting threads) \<and>
    pool_active pool \<le> pool_total pool \<and> pool_total pool \<le> pool_maximum_size pool \<and>
    pool_waiting pool \<le> pool_maximum_waiters pool"
proof -
  have inv: "threads_inv live (n, (pool, x, p), threads)" by (rule reach_inv [OF assms])
  then have ok: "pool_ok pool" and own: "slots_own live (pool_slots pool) x" by (simp_all add: pool_inv_def)
  show ?thesis
    using inv slots_own_card [OF own] ok pool_ok_bounds [OF ok]
    by (simp add: queue_inv_def lease_inv_def word_le_nat_alt pool_ok_def [of pool])
qed

theorem pool_counters_exact_witness:
  "case example_four of (n, (pool, x, p), threads) \<Rightarrow> pool_total pool = 2 \<and>
    card (set x) = 2 \<and> length (filter is_Leased threads) = 2 \<and> length (filter is_Waiting threads) = 2"
proof -
  obtain n pool x p threads where s: "example_four = (n, (pool, x, p), threads)" by (cases example_four) auto
  have "(case example_four of (n, (pool, x, p), threads) \<Rightarrow> pool_total pool = 2 \<and> pool_active pool = 2 \<and> pool_waiting pool = 2)"
    by code_simp
  then have v: "pool_total pool = 2" "pool_active pool = 2" "pool_waiting pool = 2" by (simp_all add: s)
  have "pool_reach example_config [] (n, (pool, x, p), threads)" using example_four_reach s by simp
  from pool_counters_exact [OF this example_hyps] v show ?thesis by (simp add: s)
qed

text \<open>C15. Waiting threads are served in the order of their arrival. A thread that wakes up and gets a
  connection has the smallest ticket of all threads that wait; a thread that gets one without waiting
  found no thread waiting; and within \<open>2 ^ 64 - 1\<close> acquisitions a thread that starts to wait takes a ticket
  above those of all threads that already wait.\<close>

theorem pool_first_come_first_served:
  fixes threads :: "'i pool_thread list" and probe :: "('i \<Rightarrow> VpsInterruptProbeResult \<times> 'i) option"
  assumes "pool_reach config x0 (n, (pool, x, p), threads)" and "config_allocator config = system_allocator"
    and "callbacks_account (config_callbacks config) live" and "live x0 = {}"
    and "length (the (key_identity (config_key config))) < 2 ^ 64"
    and "t < length threads" and "threads ! t = Waiting f"
  shows "(u < length threads \<and> threads ! u = Waiting g \<and>
      pool_acquire_resume g (pool, x, p) = (AcquireReturned VPS_CONNECTION_POOL_OK l, w') \<longrightarrow>
      frame_ticket g \<le> frame_ticket f) \<and>
    pool_acquire_enter key timeout_ms probe i lp (pool, x, p) \<noteq> (Inr (AcquireReturned VPS_CONNECTION_POOL_OK l), w') \<and>
    (n + 1 < 2 ^ 64 \<and> pool_acquire_enter key timeout_ms probe i lp (pool, x, p) = (Inr (AcquireSuspended h), w') \<longrightarrow>
      frame_ticket f < frame_ticket h)"
proof (intro conjI impI notI)
  have inv: "threads_inv live (n, (pool, x, p), threads)" by (rule reach_inv [OF assms(1-5)])
  then have pinv: "pool_inv live pool x" by simp
  have reg: "registered pool f" using inv assms(6,7) by (auto simp: queue_inv_def)
  then have idx: "unat (frame_waiter_index f) < unat (pool_maximum_waiters pool)"
    by (simp add: registered_def word_less_nat_alt)
  obtain pool' x' p' where w': "w' = (pool', x', p')" by (metis prod_cases3)
  {
    assume a: "u < length threads \<and> threads ! u = Waiting g \<and>
      pool_acquire_resume g (pool, x, p) = (AcquireReturned VPS_CONNECTION_POOL_OK l, w')"
    then have gt: "frame_ticket g \<noteq> 0" using inv by (auto simp: queue_inv_def registered_def)
    have "acquire_effect g pool (AcquireReturned VPS_CONNECTION_POOL_OK l) pool'"
      using acquire_resume [OF pinv gt] a w' by blast
    then have "frame_ticket g = vps_pool_first_ticket pool" using gt by (simp add: frame_turn_def)
    also have "\<dots> \<le> frame_ticket f" using first_ticket_le [OF idx] reg by (simp add: registered_def)
    finally show "frame_ticket g \<le> frame_ticket f" .
  next
    assume a: "pool_acquire_enter key timeout_ms probe i lp (pool, x, p) = (Inr (AcquireReturned VPS_CONNECTION_POOL_OK l), w')"
    obtain e :: "'i acquire_frame" where "frame_ticket e = 0" "acquire_effect e pool (AcquireReturned VPS_CONNECTION_POOL_OK l) pool'"
      using acquire_enter(2) [OF pinv a [unfolded w']] by (simp only: sum.case) blast
    then have "pool_waiting pool = 0" by (simp add: frame_turn_def)
    moreover have "0 < length (filter is_Waiting threads)" using assms(6,7) by (intro length_filter_pos) auto
    ultimately show False using inv by (simp add: queue_inv_def)
  next
    assume a: "n + 1 < 2 ^ 64 \<and> pool_acquire_enter key timeout_ms probe i lp (pool, x, p) = (Inr (AcquireSuspended h), w')"
    obtain e where "frame_ticket e = 0" "acquire_effect e pool (AcquireSuspended h) pool'"
      using acquire_enter(2) [OF pinv conjunct2 [OF a, unfolded w']] by (simp only: sum.case) blast
    then obtain pool1 where "vps_pool_waiter_add pool = (Some (frame_waiter_index h, frame_ticket h), pool1)" by auto
    then have h: "frame_ticket h = vps_pool_next_nonzero (pool_next_ticket pool)" by (rule waiter_add(6) [OF pinv])
    have "Waiting f \<in> set threads" using assms(6,7) by (metis nth_mem)
    then have le: "frame_ticket f \<le> pool_next_ticket pool" "unat (pool_next_ticket pool) \<le> n"
      using inv a by (auto simp: count_inv_def)
    then have "unat (pool_next_ticket pool) + 1 < 2 ^ 64" using a by linarith
    with le(1) h show "frame_ticket f < frame_ticket h" using next_nonzero_unat(2) by (auto intro: le_less_trans)
  }
qed

theorem pool_first_come_first_served_witness:
  "case example_four of (n, (pool, x, p), threads) \<Rightarrow> is_Waiting (threads ! 2) \<and>
    (\<forall>l w'. pool_acquire_enter (Some example_key) 100 None () (Some empty_lease) (pool, x, p) \<noteq>
       (Inr (AcquireReturned VPS_CONNECTION_POOL_OK l), w'))"
proof -
  obtain n pool x p threads where s: "example_four = (n, (pool, x, p), threads)" by (cases example_four) auto
  have "(case example_four of (n, world, threads) \<Rightarrow> length threads = 4 \<and> is_Waiting (threads ! 2))" by code_simp
  then have len: "length threads = 4" and "is_Waiting (threads ! 2)" by (simp_all add: s)
  then obtain f where f: "threads ! 2 = Waiting f" by (metis is_Waiting.elims(2))
  have "pool_reach example_config [] (n, (pool, x, p), threads)" using example_four_reach s by simp
  from pool_first_come_first_served [OF this example_hyps _ f] len f show ?thesis by (simp add: s)
qed

text \<open>C17. A released lease stays dead. Once a thread has released its lease, a copy of that lease is refused in
  every later state within \<open>2 ^ 64 - 1\<close> acquisitions, whatever the threads do in between and even if the slot
  was leased again: the release does not succeed, the copy is left as it is and no lease of the pool changes.\<close>

theorem pool_released_lease_is_stale:
  assumes "pool_reach config x0 (n, (pool, x, p), threads)" and "config_allocator config = system_allocator"
    and "callbacks_account (config_callbacks config) live" and "live x0 = {}"
    and "length (the (key_identity (config_key config))) < 2 ^ 64"
    and "t < length threads" and "threads ! t = Leased l"
    and "vps_connection_lease_release (Some l) d (pool, x, p) = (r, Some empty_lease, world1)"
    and "pool_step\<^sup>*\<^sup>* (n, world1, threads[t := Idle]) (n', (pool2, x2, p2), threads2)" and "n' < 2 ^ 64"
    and "vps_connection_lease_release (Some l) d' (pool2, x2, p2) = (r', lp, (pool3, x3, p3))"
  shows "r' \<noteq> VPS_CONNECTION_POOL_OK \<and> lp = Some l \<and> lease_kept pool2 pool3"
proof -
  obtain pool1 x1 p1 where w1: "world1 = (pool1, x1, p1)" by (metis prod_cases3)
  have inv: "threads_inv live (n, (pool, x, p), threads)" by (rule reach_inv [OF assms(1-5)])
  then have pinv: "pool_inv live pool x" and cur: "lease_current pool l"
    using assms(6,7) by (auto simp: lease_inv_def)
  then have lp: "lease_pool l" by (simp add: lease_current_def)
  have eff: "release_effect l pool empty_lease pool1"
    using lease_release [OF pinv assms(8) [unfolded w1]] by auto
  have "pool_step (n, (pool, x, p), threads) (n, world1, threads[t := after_release empty_lease])"
    using assms(6-8) by (rule pool_step.release)
  then have "threads_inv live (n, world1, threads[t := Idle])"
    using step_inv [OF inv] by (simp add: after_release_def)
  moreover have "lease_over l (n, world1, threads[t := Idle])"
    unfolding w1 by (rule release_over [OF inv eff lp])
  ultimately have "threads_inv live (n', (pool2, x2, p2), threads2)" "lease_over l (n', (pool2, x2, p2), threads2)"
    using lease_over_steps [OF assms(9)] by blast+
  then have pinv2: "pool_inv live pool2 x2" and "\<not> lease_current pool2 l"
    using assms(10) by (auto simp: lease_current_def Let_def)
  moreover obtain l' where l': "lp = Some l'" "release_effect l pool2 l' pool3"
    by (rule lease_release [OF pinv2 assms(11)])
  ultimately have "l' = l" by (simp add: release_effect_def split: if_splits)
  then have "lp = Some l" "lease_kept pool2 pool3" using l' by (simp_all add: release_effect_def)
  moreover have "r' \<noteq> VPS_CONNECTION_POOL_OK"
  proof
    assume "r' = VPS_CONNECTION_POOL_OK"
    then have "lp = Some empty_lease" using release_ok_clears assms(11) by simp
    then show False using \<open>lp = Some l\<close> lp by simp
  qed
  ultimately show ?thesis by simp
qed

theorem pool_released_lease_is_stale_witness:
  "case example_two of (n, (pool, x, p), threads) \<Rightarrow> \<exists>l r pool1 x1 p1 r' lp world2. threads ! 0 = Leased l \<and>
    vps_connection_lease_release (Some l) VPS_CONNECTION_LEASE_CLEAN (pool, x, p) = (r, Some empty_lease, (pool1, x1, p1)) \<and>
    vps_connection_lease_release (Some l) VPS_CONNECTION_LEASE_CLEAN (pool1, x1, p1) = (r', lp, world2) \<and>
    r' \<noteq> VPS_CONNECTION_POOL_OK \<and> lp = Some l"
proof -
  obtain n pool x p threads where s: "example_two = (n, (pool, x, p), threads)" by (cases example_two) auto
  have "(case example_two of (n, world, threads) \<Rightarrow> n = 2 \<and> length threads = 4 \<and>
      (case threads ! 0 of Leased l \<Rightarrow>
         fst (snd (vps_connection_lease_release (Some l) VPS_CONNECTION_LEASE_CLEAN world)) = Some empty_lease | _ \<Rightarrow> False))"
    by code_simp
  then obtain l where l: "n = 2" "length threads = 4" "threads ! 0 = Leased l"
    "fst (snd (vps_connection_lease_release (Some l) VPS_CONNECTION_LEASE_CLEAN (pool, x, p))) = Some empty_lease"
    by (auto simp: s split: pool_thread.splits)
  obtain r pool1 x1 p1 where r: "vps_connection_lease_release (Some l) VPS_CONNECTION_LEASE_CLEAN (pool, x, p) =
      (r, Some empty_lease, (pool1, x1, p1))"
    using l(4) by (metis fst_conv snd_conv prod_cases5)
  obtain r' lp pool2 x2 p2 where r': "vps_connection_lease_release (Some l) VPS_CONNECTION_LEASE_CLEAN (pool1, x1, p1) =
      (r', lp, (pool2, x2, p2))"
    by (metis prod_cases5)
  have "pool_reach example_config [] (n, (pool, x, p), threads)" using example_two_reach s by simp
  from pool_released_lease_is_stale [OF this example_hyps _ l(3) r rtranclp.rtrancl_refl _ r'] l(1,2)
  have "r' \<noteq> VPS_CONNECTION_POOL_OK" "lp = Some l" by auto
  with l(3) r r' show ?thesis by (simp add: s)
qed



end
