(* ===== verification/Vps_Planner.thy ===== *)
theory Vps_Planner
  imports Vps_Memory Vps_Logging
begin

text \<open>
  The query planner of \<open>src/src/vps_planner.c\<close>: the compiler that turns what SQLite's \<open>xBestIndex\<close> offers
  (columns used, constraints, order terms, key columns) into a compiled plan of a remote query. The wire
  form of a plan is in \<open>Vps_Plan_Wire\<close>.

  An array of a plan with its count (\<open>projection\<close>, \<open>constraints\<close>, \<open>order_terms\<close>) is the list of the
  entries in use; the entries past the count are zero and are read by nobody. A pointer of a request with
  its count is an \<open>option\<close> of the elements behind it and the count; the array behind a pointer has at
  least as many elements as the count says (\<open>request_ok\<close>). The plan is written into an object of the
  caller: the operations return it when they succeed, and what they leave in that object when they fail is
  not modelled (the callers give up on it).
\<close>

section \<open>Data\<close>

datatype VpsPlannerResult =
    VPS_PLANNER_OK
  | VPS_PLANNER_INVALID_ARGUMENT
  | VPS_PLANNER_LIMIT_EXCEEDED
  | VPS_PLANNER_INVALID_PLAN
  | VPS_PLANNER_VERSION_MISMATCH
  | VPS_PLANNER_FINGERPRINT_MISMATCH
  | VPS_PLANNER_OUT_OF_MEMORY

datatype VpsPlanOperator =
    VPS_PLAN_OP_EQ
  | VPS_PLAN_OP_NE
  | VPS_PLAN_OP_LT
  | VPS_PLAN_OP_LE
  | VPS_PLAN_OP_GT
  | VPS_PLAN_OP_GE
  | VPS_PLAN_OP_IS_NULL
  | VPS_PLAN_OP_IS_NOT_NULL
  | VPS_PLAN_OP_IN
  | VPS_PLAN_OP_LIMIT
  | VPS_PLAN_OP_OFFSET

datatype VpsPlanValueClass =
    VPS_PLAN_VALUE_UNKNOWN
  | VPS_PLAN_VALUE_NULL
  | VPS_PLAN_VALUE_INTEGER
  | VPS_PLAN_VALUE_REAL
  | VPS_PLAN_VALUE_TEXT
  | VPS_PLAN_VALUE_BLOB

record VpsPlannerColumn =
  pcol_type_oid :: u32
  pcol_capabilities :: u32

record VpsPlannerConstraintInput =
  pin_column :: "32 word"
  pin_operation :: VpsPlanOperator
  pin_value_class :: VpsPlanValueClass
  pin_source_index :: u16
  pin_usable :: bool
  pin_is_in :: bool
  pin_null_safe :: bool

record VpsPlannerOrderInput =
  oin_column :: u16
  oin_descending :: bool

record 'c VpsPlannerRequest =
  req_source_fingerprint :: u64
  req_columns :: "VpsPlannerColumn list option"
  req_column_count :: size_t
  req_columns_used :: u64
  req_constraints :: "VpsPlannerConstraintInput list option"
  req_constraint_count :: size_t
  req_order_terms :: "VpsPlannerOrderInput list option"
  req_order_count :: size_t
  req_key_columns :: "u16 list option"
  req_key_column_count :: size_t
  req_estimated_base_rows :: u64
  req_relation_pages :: u64
  req_query_index_prefix :: size_t
  req_query_index_ordinal :: size_t
  req_logger :: "'c VpsLogger option"

record VpsPlanConstraint =
  con_column :: "32 word"
  con_type_oid :: u32
  con_source_index :: u16
  con_argument_index :: u16
  con_flags :: u16
  con_operation :: u8
  con_value_class :: u8

record VpsPlanOrderTerm =
  ord_column :: u16
  ord_descending :: u8
  ord_nulls_first :: u8

record VpsCompiledPlan =
  plan_version :: u32
  plan_flags :: u32
  plan_source_fingerprint :: u64
  plan_estimated_rows :: u64
  plan_estimated_cost_milli :: u64
  plan_projection :: "u16 list"
  plan_constraints :: "VpsPlanConstraint list"
  plan_order_terms :: "VpsPlanOrderTerm list"
  plan_argument_count :: u16
  plan_selected_index_prefix :: u16
  plan_selected_index_ordinal :: u16

abbreviation (input) VPS_PLAN_FORMAT_VERSION :: u32 where "VPS_PLAN_FORMAT_VERSION \<equiv> 2"
abbreviation (input) VPS_PLAN_MAX_COLUMNS :: nat where "VPS_PLAN_MAX_COLUMNS \<equiv> 1024"
abbreviation (input) VPS_PLAN_MAX_CONSTRAINTS :: nat where "VPS_PLAN_MAX_CONSTRAINTS \<equiv> 64"
abbreviation (input) VPS_PLAN_MAX_ORDER_TERMS :: nat where "VPS_PLAN_MAX_ORDER_TERMS \<equiv> 32"
abbreviation (input) VPS_PLAN_CAP_EQUALITY :: u32 where "VPS_PLAN_CAP_EQUALITY \<equiv> 1"
abbreviation (input) VPS_PLAN_CAP_ORDER :: u32 where "VPS_PLAN_CAP_ORDER \<equiv> 2"
abbreviation (input) VPS_PLAN_CAP_EXACT :: u32 where "VPS_PLAN_CAP_EXACT \<equiv> 4"
abbreviation (input) VPS_PLAN_CAP_BINARY :: u32 where "VPS_PLAN_CAP_BINARY \<equiv> 8"
abbreviation (input) VPS_PLAN_FLAG_ORDER_CONSUMED :: u32 where "VPS_PLAN_FLAG_ORDER_CONSUMED \<equiv> 1"
abbreviation (input) VPS_PLAN_FLAG_UNIQUE :: u32 where "VPS_PLAN_FLAG_UNIQUE \<equiv> 2"
abbreviation (input) VPS_PLAN_FLAG_HAS_RECHECK :: u32 where "VPS_PLAN_FLAG_HAS_RECHECK \<equiv> 4"
abbreviation (input) VPS_PLAN_FLAG_LIMIT_CONSUMED :: u32 where "VPS_PLAN_FLAG_LIMIT_CONSUMED \<equiv> 8"
abbreviation (input) VPS_PLAN_FLAG_OFFSET_CONSUMED :: u32 where "VPS_PLAN_FLAG_OFFSET_CONSUMED \<equiv> 16"
abbreviation (input) VPS_PLAN_CONSTRAINT_EXACT :: u16 where "VPS_PLAN_CONSTRAINT_EXACT \<equiv> 1"
abbreviation (input) VPS_PLAN_CONSTRAINT_RECHECK :: u16 where "VPS_PLAN_CONSTRAINT_RECHECK \<equiv> 2"
abbreviation (input) VPS_PLAN_CONSTRAINT_IN :: u16 where "VPS_PLAN_CONSTRAINT_IN \<equiv> 4"
abbreviation (input) VPS_PLAN_CONSTRAINT_KEY :: u16 where "VPS_PLAN_CONSTRAINT_KEY \<equiv> 8"
abbreviation (input) VPS_PLAN_CONSTRAINT_NULL_SAFE :: u16 where "VPS_PLAN_CONSTRAINT_NULL_SAFE \<equiv> 16"

text \<open>The numbers of the enumerations, which the code stores in bytes of a plan.\<close>

definition plan_operator_code :: "VpsPlanOperator \<Rightarrow> u8" where
  "plan_operator_code operation =
     (case operation of
        VPS_PLAN_OP_EQ \<Rightarrow> 1
      | VPS_PLAN_OP_NE \<Rightarrow> 2
      | VPS_PLAN_OP_LT \<Rightarrow> 3
      | VPS_PLAN_OP_LE \<Rightarrow> 4
      | VPS_PLAN_OP_GT \<Rightarrow> 5
      | VPS_PLAN_OP_GE \<Rightarrow> 6
      | VPS_PLAN_OP_IS_NULL \<Rightarrow> 7
      | VPS_PLAN_OP_IS_NOT_NULL \<Rightarrow> 8
      | VPS_PLAN_OP_IN \<Rightarrow> 9
      | VPS_PLAN_OP_LIMIT \<Rightarrow> 10
      | VPS_PLAN_OP_OFFSET \<Rightarrow> 11)"

definition plan_value_class_code :: "VpsPlanValueClass \<Rightarrow> u8" where
  "plan_value_class_code value_class =
     (case value_class of
        VPS_PLAN_VALUE_UNKNOWN \<Rightarrow> 0
      | VPS_PLAN_VALUE_NULL \<Rightarrow> 1
      | VPS_PLAN_VALUE_INTEGER \<Rightarrow> 2
      | VPS_PLAN_VALUE_REAL \<Rightarrow> 3
      | VPS_PLAN_VALUE_TEXT \<Rightarrow> 4
      | VPS_PLAN_VALUE_BLOB \<Rightarrow> 5)"

section \<open>The compiler\<close>

definition vps_plan_min_u64 :: "u64 \<Rightarrow> u64 \<Rightarrow> u64" where
  "vps_plan_min_u64 left right = (if left < right then left else right)"

definition vps_plan_value_exact ::
    "VpsPlannerColumn \<Rightarrow> VpsPlanOperator \<Rightarrow> VpsPlanValueClass \<Rightarrow> bool" where
  "vps_plan_value_exact column operation value_class =
     (if operation = VPS_PLAN_OP_IS_NULL \<or> operation = VPS_PLAN_OP_IS_NOT_NULL then True
      else if pcol_capabilities column AND (VPS_PLAN_CAP_EQUALITY OR VPS_PLAN_CAP_EXACT) \<noteq>
                VPS_PLAN_CAP_EQUALITY OR VPS_PLAN_CAP_EXACT
      then False
      else if operation \<noteq> VPS_PLAN_OP_EQ \<and> operation \<noteq> VPS_PLAN_OP_NE \<and>
              operation \<noteq> VPS_PLAN_OP_IN \<and> pcol_capabilities column AND VPS_PLAN_CAP_ORDER = 0
      then False
      else if value_class = VPS_PLAN_VALUE_UNKNOWN then False
      else if pcol_capabilities column AND VPS_PLAN_CAP_BINARY \<noteq> 0
      then value_class = VPS_PLAN_VALUE_BLOB
      else value_class = VPS_PLAN_VALUE_INTEGER \<or> value_class = VPS_PLAN_VALUE_TEXT)"

definition vps_plan_is_key :: "'c VpsPlannerRequest \<Rightarrow> nat \<Rightarrow> bool" where
  "vps_plan_is_key request column =
     list_ex (\<lambda>index. unat (the (req_key_columns request) ! index) = column)
       [0..<unat (req_key_column_count request)]"

definition vps_plan_add_projection :: "VpsCompiledPlan \<Rightarrow> nat \<Rightarrow> VpsCompiledPlan option" where
  "vps_plan_add_projection plan column =
     (if column > 65535 \<or> length (plan_projection plan) \<ge> VPS_PLAN_MAX_COLUMNS then None
      else if list_ex (\<lambda>entry. unat entry = column) (plan_projection plan) then Some plan
      else Some (plan\<lparr>plan_projection := plan_projection plan @ [of_nat column]\<rparr>))"

definition vps_plan_log ::
    "'c VpsPlannerRequest \<Rightarrow> VpsCompiledPlan \<Rightarrow> 'c VpsLogger option" where
  "vps_plan_log request plan =
     log_emit_strict (req_logger request) VPS_LOG_LEVEL_DEBUG
       [LogStr VPS_LOG_FIELD_OPERATION ''planner_compile'',
        LogStr VPS_LOG_FIELD_STATUS ''passed'',
        LogNum VPS_LOG_FIELD_FORMAT_VERSION (ucast (plan_version plan)),
        LogNum VPS_LOG_FIELD_QUERY_FINGERPRINT (plan_source_fingerprint plan),
        LogNum VPS_LOG_FIELD_RESULT_FIELD_COUNT (of_nat (length (plan_projection plan))),
        LogNum VPS_LOG_FIELD_PARAMETER_COUNT (ucast (plan_argument_count plan))]"

text \<open>The loops of \<open>vps_planner_compile\<close>. \<open>None\<close> is the early return of \<open>VPS_PLANNER_LIMIT_EXCEEDED\<close>.\<close>

definition plan_column_used :: "'c VpsPlannerRequest \<Rightarrow> nat \<Rightarrow> bool" where
  "plan_column_used request index =
     (if index < 63 then req_columns_used request AND push_bit index 1 \<noteq> 0
      else req_columns_used request AND push_bit 63 1 \<noteq> 0)"

fun plan_project_columns ::
    "'c VpsPlannerRequest \<Rightarrow> nat list \<Rightarrow> VpsCompiledPlan \<Rightarrow> VpsCompiledPlan option" where
  "plan_project_columns request [] plan = Some plan"
| "plan_project_columns request (index # rest) plan =
     (if plan_column_used request index \<or> vps_plan_is_key request index
      then (case vps_plan_add_projection plan index of
              None \<Rightarrow> None
            | Some plan' \<Rightarrow> plan_project_columns request rest plan')
      else plan_project_columns request rest plan)"

text \<open>What the loop over the constraints carries: the plan, the number of key parts with an exact equality,
  and whether some constraint is left to be checked locally.\<close>

record plan_progress =
  prog_plan :: VpsCompiledPlan
  prog_exact_key_parts :: nat
  prog_has_recheck :: bool

text \<open>The operator a constraint is compiled to.\<close>

definition plan_input_operation :: "VpsPlannerConstraintInput \<Rightarrow> VpsPlanOperator" where
  "plan_input_operation input = (if pin_is_in input then VPS_PLAN_OP_IN else pin_operation input)"

definition plan_input_column ::
    "'c VpsPlannerRequest \<Rightarrow> VpsPlannerConstraintInput \<Rightarrow> VpsPlannerColumn" where
  "plan_input_column request input = the (req_columns request) ! unat (pin_column input)"

definition plan_input_exact :: "'c VpsPlannerRequest \<Rightarrow> VpsPlannerConstraintInput \<Rightarrow> bool" where
  "plan_input_exact request input =
     (if pin_null_safe input \<and> pin_value_class input = VPS_PLAN_VALUE_NULL then True
      else vps_plan_value_exact (plan_input_column request input) (plan_input_operation input)
             (pin_value_class input))"

definition plan_takes_argument :: "VpsPlannerConstraintInput \<Rightarrow> bool" where
  "plan_takes_argument input \<longleftrightarrow>
     pin_operation input \<noteq> VPS_PLAN_OP_IS_NULL \<and> pin_operation input \<noteq> VPS_PLAN_OP_IS_NOT_NULL"

definition plan_arguments_after :: "VpsPlannerConstraintInput \<Rightarrow> u16 \<Rightarrow> u16" where
  "plan_arguments_after input argument_count =
     (if plan_takes_argument input then argument_count + 1 else argument_count)"

definition plan_input_flags :: "'c VpsPlannerRequest \<Rightarrow> VpsPlannerConstraintInput \<Rightarrow> u16" where
  "plan_input_flags request input =
     VPS_PLAN_CONSTRAINT_EXACT OR
     (if pin_is_in input then VPS_PLAN_CONSTRAINT_IN OR VPS_PLAN_CONSTRAINT_RECHECK else 0) OR
     (if pin_null_safe input then VPS_PLAN_CONSTRAINT_NULL_SAFE else 0) OR
     (if vps_plan_is_key request (unat (pin_column input)) then VPS_PLAN_CONSTRAINT_KEY else 0)"

definition plan_output_constraint ::
    "'c VpsPlannerRequest \<Rightarrow> VpsPlannerConstraintInput \<Rightarrow> u16 \<Rightarrow> VpsPlanConstraint" where
  "plan_output_constraint request input argument_count =
     \<lparr>con_column = pin_column input,
      con_type_oid = pcol_type_oid (plan_input_column request input),
      con_source_index = pin_source_index input,
      con_argument_index =
        (if plan_takes_argument input then plan_arguments_after input argument_count else 0),
      con_flags = plan_input_flags request input,
      con_operation = plan_operator_code (plan_input_operation input),
      con_value_class = plan_value_class_code (pin_value_class input)\<rparr>"

definition plan_push_constraint ::
    "'c VpsPlannerRequest \<Rightarrow> VpsPlannerConstraintInput \<Rightarrow> plan_progress \<Rightarrow> plan_progress option" where
  "plan_push_constraint request input prog =
     (if length (plan_constraints (prog_plan prog)) \<ge> VPS_PLAN_MAX_CONSTRAINTS then None
      else case vps_plan_add_projection
                  ((prog_plan prog)\<lparr>plan_constraints := plan_constraints (prog_plan prog) @
                       [plan_output_constraint request input (plan_argument_count (prog_plan prog))],
                     plan_argument_count :=
                       plan_arguments_after input (plan_argument_count (prog_plan prog))\<rparr>)
                  (unat (pin_column input)) of
        None \<Rightarrow> None
      | Some plan \<Rightarrow>
          Some \<lparr>prog_plan = plan,
                prog_exact_key_parts = prog_exact_key_parts prog +
                  (if vps_plan_is_key request (unat (pin_column input)) \<and> \<not> pin_is_in input \<and>
                      pin_operation input = VPS_PLAN_OP_EQ then 1 else 0),
                prog_has_recheck = prog_has_recheck prog \<or> pin_is_in input\<rparr>)"

fun plan_compile_constraints ::
    "'c VpsPlannerRequest \<Rightarrow> VpsPlannerConstraintInput list \<Rightarrow> plan_progress \<Rightarrow>
     plan_progress option" where
  "plan_compile_constraints request [] prog = Some prog"
| "plan_compile_constraints request (input # rest) prog =
     (if \<not> pin_usable input then plan_compile_constraints request rest prog
      else if pin_operation input = VPS_PLAN_OP_LIMIT \<or> pin_operation input = VPS_PLAN_OP_OFFSET
      then plan_compile_constraints request rest prog
      else if sint (pin_column input) < 0 \<or>
              unat (pin_column input) \<ge> unat (req_column_count request)
      then plan_compile_constraints request rest prog
      else if \<not> plan_input_exact request input
      then plan_compile_constraints request rest (prog\<lparr>prog_has_recheck := True\<rparr>)
      else case plan_push_constraint request input prog of
             None \<Rightarrow> None
           | Some prog' \<Rightarrow> plan_compile_constraints request rest prog')"

definition plan_order_exact :: "'c VpsPlannerRequest \<Rightarrow> VpsPlannerOrderInput list \<Rightarrow> bool" where
  "plan_order_exact request terms =
     list_all (\<lambda>input.
       \<not> (unat (oin_column input) \<ge> unat (req_column_count request) \<or>
          pcol_capabilities (the (req_columns request) ! unat (oin_column input)) AND
            (VPS_PLAN_CAP_ORDER OR VPS_PLAN_CAP_EXACT) \<noteq> VPS_PLAN_CAP_ORDER OR VPS_PLAN_CAP_EXACT))
       terms"

fun plan_compile_order ::
    "VpsPlannerOrderInput list \<Rightarrow> VpsCompiledPlan \<Rightarrow> VpsCompiledPlan option" where
  "plan_compile_order [] plan = Some plan"
| "plan_compile_order (input # rest) plan =
     (case vps_plan_add_projection
             (plan\<lparr>plan_order_terms := plan_order_terms plan @
                [\<lparr>ord_column = oin_column input,
                  ord_descending = (if oin_descending input then 1 else 0),
                  ord_nulls_first = (if oin_descending input then 0 else 1)\<rparr>]\<rparr>)
             (unat (oin_column input)) of
        None \<Rightarrow> None
      | Some plan' \<Rightarrow> plan_compile_order rest plan')"

fun plan_compile_limits ::
    "bool \<Rightarrow> VpsPlannerConstraintInput list \<Rightarrow> VpsCompiledPlan \<Rightarrow> VpsCompiledPlan option" where
  "plan_compile_limits has_recheck [] plan = Some plan"
| "plan_compile_limits has_recheck (input # rest) plan =
     (if \<not> pin_usable input \<or>
         (pin_operation input \<noteq> VPS_PLAN_OP_LIMIT \<and> pin_operation input \<noteq> VPS_PLAN_OP_OFFSET) \<or>
         has_recheck
      then plan_compile_limits has_recheck rest plan
      else if length (plan_constraints plan) \<ge> VPS_PLAN_MAX_CONSTRAINTS then None
      else
        let argument_count = plan_argument_count plan + 1;
            output = \<lparr>con_column = - 1, con_type_oid = 0,
                      con_source_index = pin_source_index input,
                      con_argument_index = argument_count,
                      con_flags = VPS_PLAN_CONSTRAINT_EXACT,
                      con_operation = plan_operator_code (pin_operation input),
                      con_value_class = plan_value_class_code VPS_PLAN_VALUE_INTEGER\<rparr>
        in plan_compile_limits has_recheck rest
             (plan\<lparr>plan_constraints := plan_constraints plan @ [output],
                   plan_argument_count := argument_count,
                   plan_flags := plan_flags plan OR
                     (if pin_operation input = VPS_PLAN_OP_LIMIT then VPS_PLAN_FLAG_LIMIT_CONSUMED
                      else VPS_PLAN_FLAG_OFFSET_CONSUMED)\<rparr>))"

text \<open>The estimates and index selection at the end of the compiler.\<close>

definition plan_estimate ::
    "'c VpsPlannerRequest \<Rightarrow> nat \<Rightarrow> VpsCompiledPlan \<Rightarrow> VpsCompiledPlan" where
  "plan_estimate request exact_key_parts plan =
     (let base_rows = (if req_estimated_base_rows request \<noteq> 0 then req_estimated_base_rows request
                       else 1000000);
          unique = (req_key_column_count request \<noteq> 0 \<and>
                    exact_key_parts = unat (req_key_column_count request));
          divisor = 1 + of_nat (length (plan_constraints plan)) * 8 +
                    (if req_query_index_prefix request \<noteq> 0 then 16 else 0);
          estimated_rows = (if unique then 1
                            else if base_rows div divisor = 0 then 1 else base_rows div divisor);
          cost = estimated_rows * 1000 + req_relation_pages request * 10
      in plan\<lparr>plan_flags := (if unique then plan_flags plan OR VPS_PLAN_FLAG_UNIQUE
                             else plan_flags plan),
              plan_estimated_rows := estimated_rows,
              plan_selected_index_prefix :=
                ucast (vps_plan_min_u64 (req_query_index_prefix request) 65535),
              plan_selected_index_ordinal :=
                ucast (vps_plan_min_u64 (req_query_index_ordinal request) 65535),
              plan_estimated_cost_milli := (if cost = 0 then 1 else cost)\<rparr>)"

definition planner_arguments_valid :: "'c VpsPlannerRequest \<Rightarrow> bool" where
  "planner_arguments_valid request \<longleftrightarrow>
     \<not> (req_columns request = None \<or>
        req_column_count request = 0 \<or>
        unat (req_column_count request) > VPS_PLAN_MAX_COLUMNS \<or>
        unat (req_constraint_count request) > VPS_PLAN_MAX_CONSTRAINTS \<or>
        unat (req_order_count request) > VPS_PLAN_MAX_ORDER_TERMS \<or>
        unat (req_key_column_count request) > VPS_PLAN_MAX_CONSTRAINTS \<or>
        (req_constraint_count request \<noteq> 0 \<and> req_constraints request = None) \<or>
        (req_order_count request \<noteq> 0 \<and> req_order_terms request = None))"

definition request_constraints :: "'c VpsPlannerRequest \<Rightarrow> VpsPlannerConstraintInput list" where
  "request_constraints request =
     map (\<lambda>index. the (req_constraints request) ! index) [0..<unat (req_constraint_count request)]"

definition request_order :: "'c VpsPlannerRequest \<Rightarrow> VpsPlannerOrderInput list" where
  "request_order request =
     map (\<lambda>index. the (req_order_terms request) ! index) [0..<unat (req_order_count request)]"

definition empty_plan :: "u64 \<Rightarrow> VpsCompiledPlan" where
  "empty_plan source_fingerprint =
     \<lparr>plan_version = VPS_PLAN_FORMAT_VERSION, plan_flags = 0,
      plan_source_fingerprint = source_fingerprint, plan_estimated_rows = 0,
      plan_estimated_cost_milli = 0, plan_projection = [], plan_constraints = [],
      plan_order_terms = [], plan_argument_count = 0, plan_selected_index_prefix = 0,
      plan_selected_index_ordinal = 0\<rparr>"

definition planner_projection :: "'c VpsPlannerRequest \<Rightarrow> VpsCompiledPlan option" where
  "planner_projection request =
     (case plan_project_columns request [0..<unat (req_column_count request)]
             (empty_plan (req_source_fingerprint request)) of
        None \<Rightarrow> None
      | Some plan \<Rightarrow>
          if plan_projection plan = [] then vps_plan_add_projection plan 0 else Some plan)"

definition planner_order ::
    "'c VpsPlannerRequest \<Rightarrow> plan_progress \<Rightarrow> plan_progress option" where
  "planner_order request prog =
     (if plan_order_exact request (request_order request)
      then (case plan_compile_order (request_order request) (prog_plan prog) of
              None \<Rightarrow> None
            | Some plan \<Rightarrow>
                Some (prog\<lparr>prog_plan :=
                  (if req_order_count request \<noteq> 0
                   then plan\<lparr>plan_flags := plan_flags plan OR VPS_PLAN_FLAG_ORDER_CONSUMED\<rparr>
                   else plan)\<rparr>))
      else if req_order_count request \<noteq> 0
      then Some (prog\<lparr>prog_has_recheck := True,
                      prog_plan := (prog_plan prog)\<lparr>plan_flags :=
                        plan_flags (prog_plan prog) OR VPS_PLAN_FLAG_HAS_RECHECK\<rparr>\<rparr>)
      else Some prog)"

definition planner_limits :: "'c VpsPlannerRequest \<Rightarrow> plan_progress \<Rightarrow> VpsCompiledPlan option" where
  "planner_limits request prog =
     plan_compile_limits (prog_has_recheck prog) (request_constraints request)
       (if prog_has_recheck prog
        then (prog_plan prog)\<lparr>plan_flags :=
               plan_flags (prog_plan prog) OR VPS_PLAN_FLAG_HAS_RECHECK\<rparr>
        else prog_plan prog)"

definition vps_planner_compile ::
    "'c VpsPlannerRequest option \<Rightarrow>
     VpsPlannerResult \<times> VpsCompiledPlan option \<times> 'c VpsLogger option" where
  "vps_planner_compile request_ptr =
     (case request_ptr of
        None \<Rightarrow> (VPS_PLANNER_INVALID_ARGUMENT, None, None)
      | Some request \<Rightarrow>
          if \<not> planner_arguments_valid request
          then (VPS_PLANNER_INVALID_ARGUMENT, None, req_logger request)
          else
            (case planner_projection request of
               None \<Rightarrow> (VPS_PLANNER_LIMIT_EXCEEDED, None, req_logger request)
             | Some plan \<Rightarrow>
             (case plan_compile_constraints request (request_constraints request)
                     \<lparr>prog_plan = plan, prog_exact_key_parts = 0, prog_has_recheck = False\<rparr> of
                None \<Rightarrow> (VPS_PLANNER_LIMIT_EXCEEDED, None, req_logger request)
              | Some prog \<Rightarrow>
             (case planner_order request prog of
                None \<Rightarrow> (VPS_PLANNER_LIMIT_EXCEEDED, None, req_logger request)
              | Some prog' \<Rightarrow>
             (case planner_limits request prog' of
                None \<Rightarrow> (VPS_PLANNER_LIMIT_EXCEEDED, None, req_logger request)
              | Some plan' \<Rightarrow>
                  let plan'' = plan_estimate request (prog_exact_key_parts prog') plan'
                  in (VPS_PLANNER_OK, Some plan'', vps_plan_log request plan''))))))"

definition vps_planner_result_name :: "VpsPlannerResult \<Rightarrow> string" where
  "vps_planner_result_name result =
     (case result of
        VPS_PLANNER_OK \<Rightarrow> ''ok''
      | VPS_PLANNER_INVALID_ARGUMENT \<Rightarrow> ''invalid_argument''
      | VPS_PLANNER_LIMIT_EXCEEDED \<Rightarrow> ''limit_exceeded''
      | VPS_PLANNER_INVALID_PLAN \<Rightarrow> ''invalid_plan''
      | VPS_PLANNER_VERSION_MISMATCH \<Rightarrow> ''version_mismatch''
      | VPS_PLANNER_FINGERPRINT_MISMATCH \<Rightarrow> ''fingerprint_mismatch''
      | VPS_PLANNER_OUT_OF_MEMORY \<Rightarrow> ''out_of_memory'')"

section \<open>Well-formed plans\<close>

text \<open>The plans the wire format carries.\<close>

definition constraint_ok :: "u16 \<Rightarrow> VpsPlanConstraint \<Rightarrow> bool" where
  "constraint_ok argument_count c \<longleftrightarrow>
     con_flags c AND NOT (VPS_PLAN_CONSTRAINT_EXACT OR VPS_PLAN_CONSTRAINT_RECHECK OR
       VPS_PLAN_CONSTRAINT_IN OR VPS_PLAN_CONSTRAINT_KEY OR VPS_PLAN_CONSTRAINT_NULL_SAFE) = 0 \<and>
     1 \<le> con_operation c \<and> con_operation c \<le> 11 \<and>
     con_argument_index c \<le> argument_count \<and>
     (sint (con_column c) < 0 \<longrightarrow> con_operation c = 10 \<or> con_operation c = 11) \<and>
     sint (con_column c) < int VPS_PLAN_MAX_COLUMNS"

definition order_term_ok :: "VpsPlanOrderTerm \<Rightarrow> bool" where
  "order_term_ok t \<longleftrightarrow>
     unat (ord_column t) < VPS_PLAN_MAX_COLUMNS \<and> ord_descending t \<le> 1 \<and> ord_nulls_first t \<le> 1"

definition plan_body_ok :: "VpsCompiledPlan \<Rightarrow> bool" where
  "plan_body_ok plan \<longleftrightarrow>
     plan_version plan = VPS_PLAN_FORMAT_VERSION \<and>
     plan_flags plan AND NOT (VPS_PLAN_FLAG_ORDER_CONSUMED OR VPS_PLAN_FLAG_UNIQUE OR
       VPS_PLAN_FLAG_HAS_RECHECK OR VPS_PLAN_FLAG_LIMIT_CONSUMED OR
       VPS_PLAN_FLAG_OFFSET_CONSUMED) = 0 \<and>
     length (plan_projection plan) \<le> VPS_PLAN_MAX_COLUMNS \<and>
     length (plan_constraints plan) \<le> VPS_PLAN_MAX_CONSTRAINTS \<and>
     length (plan_order_terms plan) \<le> VPS_PLAN_MAX_ORDER_TERMS \<and>
     unat (plan_argument_count plan) \<le> VPS_PLAN_MAX_CONSTRAINTS \<and>
     distinct (plan_projection plan) \<and>
     (\<forall>column\<in>set (plan_projection plan). unat column < VPS_PLAN_MAX_COLUMNS) \<and>
     (\<forall>c\<in>set (plan_constraints plan). constraint_ok (plan_argument_count plan) c) \<and>
     (\<forall>t\<in>set (plan_order_terms plan). order_term_ok t)"

definition plan_ok :: "VpsCompiledPlan \<Rightarrow> bool" where
  "plan_ok plan \<longleftrightarrow>
     plan_body_ok plan \<and> plan_estimated_rows plan \<noteq> 0 \<and> plan_estimated_cost_milli plan \<noteq> 0 \<and>
     (plan_flags plan AND VPS_PLAN_FLAG_ORDER_CONSUMED \<noteq> 0) = (plan_order_terms plan \<noteq> [])"

lemma and_or_flag [simp]:
  fixes f :: "'a::len word"
  shows "(f OR a) AND b = (f AND b) OR (a AND b)"
  by (rule bit.conj_disj_distrib2)

lemma plan_operator_code_range [simp]:
  "1 \<le> plan_operator_code operation" "plan_operator_code operation \<le> 11"
  "plan_operator_code operation = 10 \<longleftrightarrow> operation = VPS_PLAN_OP_LIMIT"
  "plan_operator_code operation = 11 \<longleftrightarrow> operation = VPS_PLAN_OP_OFFSET"
  by (cases operation; simp add: plan_operator_code_def)+

section \<open>What the loops do\<close>

text \<open>\<open>plan_frame\<close>: two plans agree except in the projection; the second projects the given columns as well.\<close>

definition projects :: "VpsCompiledPlan \<Rightarrow> nat list \<Rightarrow> VpsCompiledPlan \<Rightarrow> bool" where
  "projects plan columns plan' \<longleftrightarrow>
     plan' = plan\<lparr>plan_projection := plan_projection plan'\<rparr> \<and>
     set (plan_projection plan') = set (plan_projection plan) \<union> of_nat ` set columns \<and>
     (distinct (plan_projection plan) \<longrightarrow> distinct (plan_projection plan')) \<and>
     (length (plan_projection plan) \<le> VPS_PLAN_MAX_COLUMNS \<longrightarrow>
      length (plan_projection plan') \<le> VPS_PLAN_MAX_COLUMNS)"

lemma projects_fields:
  assumes "projects plan columns plan'"
  shows "plan_version plan' = plan_version plan" "plan_flags plan' = plan_flags plan"
    "plan_source_fingerprint plan' = plan_source_fingerprint plan"
    "plan_constraints plan' = plan_constraints plan" "plan_order_terms plan' = plan_order_terms plan"
    "plan_argument_count plan' = plan_argument_count plan"
proof -
  have "plan' = plan\<lparr>plan_projection := plan_projection plan'\<rparr>" using assms by (simp add: projects_def)
  then show "plan_version plan' = plan_version plan" "plan_flags plan' = plan_flags plan"
    "plan_source_fingerprint plan' = plan_source_fingerprint plan"
    "plan_constraints plan' = plan_constraints plan" "plan_order_terms plan' = plan_order_terms plan"
    "plan_argument_count plan' = plan_argument_count plan"
    by (metis VpsCompiledPlan.select_convs VpsCompiledPlan.surjective VpsCompiledPlan.update_convs)+
qed

lemma projects_refl [simp]: "projects plan [] plan"
  by (simp add: projects_def)

lemma projects_trans:
  assumes "projects plan as plan1" and "projects plan1 bs plan2"
  shows "projects plan (as @ bs) plan2"
proof -
  have "plan2 = plan\<lparr>plan_projection := plan_projection plan2\<rparr>"
    using assms unfolding projects_def by (metis VpsCompiledPlan.surjective VpsCompiledPlan.update_convs(6))
  with assms show ?thesis by (auto simp: projects_def)
qed

lemma add_projection_Some:
  assumes "vps_plan_add_projection plan column = Some plan'"
  shows "projects plan [column] plan'"
proof -
  have c: "\<not> column > 65535" "length (plan_projection plan) < 1024"
    using assms by (auto simp: vps_plan_add_projection_def split: if_splits)
  have eq: "unat entry = column \<longleftrightarrow> entry = of_nat column" for entry :: u16
    using c by (auto simp: word_unat_eq_iff)
  show ?thesis
    using assms c by (auto simp: vps_plan_add_projection_def projects_def list_ex_iff eq split: if_splits)
qed

lemma add_projection_room:
  "column < 65536 \<Longrightarrow> length (plan_projection plan) < VPS_PLAN_MAX_COLUMNS \<Longrightarrow>
     vps_plan_add_projection plan column \<noteq> None"
  by (simp add: vps_plan_add_projection_def)

lemma project_columns_Some:
  "plan_project_columns request is plan = Some plan' \<Longrightarrow>
     projects plan (filter (\<lambda>i. plan_column_used request i \<or> vps_plan_is_key request i) is) plan'"
proof (induction request "is" plan rule: plan_project_columns.induct)
  case (2 request index rest plan)
  then show ?case
    using projects_trans [of plan "[index]"]
    by (auto split: option.splits if_splits dest!: add_projection_Some)
qed simp

text \<open>The constraints that the compiler looks at, and the ones it pushes into the plan.\<close>

definition plan_relevant :: "'c VpsPlannerRequest \<Rightarrow> VpsPlannerConstraintInput \<Rightarrow> bool" where
  "plan_relevant request input \<longleftrightarrow>
     pin_usable input \<and> pin_operation input \<noteq> VPS_PLAN_OP_LIMIT \<and>
     pin_operation input \<noteq> VPS_PLAN_OP_OFFSET \<and>
     0 \<le> sint (pin_column input) \<and> unat (pin_column input) < unat (req_column_count request)"

definition plan_pushes ::
    "'c VpsPlannerRequest \<Rightarrow> VpsPlannerConstraintInput \<Rightarrow> VpsPlanConstraint \<Rightarrow> bool" where
  "plan_pushes request input c \<longleftrightarrow>
     con_source_index c = pin_source_index input \<and> con_column c = pin_column input \<and>
     con_type_oid c = pcol_type_oid (plan_input_column request input) \<and>
     con_operation c = plan_operator_code (plan_input_operation input) \<and>
     con_value_class c = plan_value_class_code (pin_value_class input) \<and>
     (con_flags c AND VPS_PLAN_CONSTRAINT_RECHECK \<noteq> 0) = pin_is_in input \<and>
     (con_argument_index c = 0) =
       (pin_operation input = VPS_PLAN_OP_IS_NULL \<or> pin_operation input = VPS_PLAN_OP_IS_NOT_NULL)"

lemma constraint_ok_mono:
  "constraint_ok n c \<Longrightarrow> n \<le> m \<Longrightarrow> constraint_ok m c"
  by (auto simp: constraint_ok_def)

text \<open>The state of the compiler between its steps: the plan is well-formed and has no more arguments than
  constraints. What the steps do to a plan keeps this.\<close>

definition compiling :: "VpsCompiledPlan \<Rightarrow> bool" where
  "compiling plan \<longleftrightarrow>
     plan_body_ok plan \<and> unat (plan_argument_count plan) \<le> length (plan_constraints plan)"

lemma compiling_constraint:
  assumes "compiling plan" and "length (plan_constraints plan) < VPS_PLAN_MAX_CONSTRAINTS"
    and "plan_argument_count plan \<le> n" and "unat n \<le> Suc (length (plan_constraints plan))"
    and "constraint_ok n c"
  shows "compiling (plan\<lparr>plan_constraints := plan_constraints plan @ [c], plan_argument_count := n\<rparr>)"
proof -
  have "\<forall>d\<in>set (plan_constraints plan). constraint_ok n d"
    using assms(1,3) by (auto simp: compiling_def plan_body_ok_def intro: constraint_ok_mono)
  with assms(1,2,4,5) show ?thesis by (simp add: compiling_def plan_body_ok_def)
qed

lemma compiling_flag:
  "compiling plan \<Longrightarrow> f \<in> {1, 2, 4, 8, 16} \<Longrightarrow> compiling (plan\<lparr>plan_flags := plan_flags plan OR f\<rparr>)"
  by (auto simp: compiling_def plan_body_ok_def)

lemma compiling_order:
  "compiling plan \<Longrightarrow> length ts \<le> VPS_PLAN_MAX_ORDER_TERMS \<Longrightarrow> \<forall>t\<in>set ts. order_term_ok t \<Longrightarrow>
     compiling (plan\<lparr>plan_order_terms := ts\<rparr>)"
  by (simp add: compiling_def plan_body_ok_def)

lemma compiling_projects:
  assumes "compiling plan" and "projects plan columns plan'" and "\<forall>i\<in>set columns. i < VPS_PLAN_MAX_COLUMNS"
  shows "compiling plan'"
proof -
  have "unat (of_nat i :: u16) < VPS_PLAN_MAX_COLUMNS" if "i \<in> set columns" for i
    using assms(3) that by fastforce
  with assms(1,2) show ?thesis
    unfolding compiling_def plan_body_ok_def projects_fields [OF assms(2)] by (auto simp: projects_def)
qed

lemma plan_input_flags_bits:
  "plan_input_flags request input AND NOT (VPS_PLAN_CONSTRAINT_EXACT OR VPS_PLAN_CONSTRAINT_RECHECK OR
     VPS_PLAN_CONSTRAINT_IN OR VPS_PLAN_CONSTRAINT_KEY OR VPS_PLAN_CONSTRAINT_NULL_SAFE) = 0"
  "(plan_input_flags request input AND VPS_PLAN_CONSTRAINT_RECHECK \<noteq> 0) = pin_is_in input"
  by (auto simp: plan_input_flags_def)

lemma plan_arguments_after_bounds:
  assumes "unat n < VPS_PLAN_MAX_CONSTRAINTS"
  shows "unat (plan_arguments_after input n) \<le> Suc (unat n)" and "n \<le> plan_arguments_after input n"
    and "plan_takes_argument input \<Longrightarrow> plan_arguments_after input n \<noteq> 0"
proof -
  have "unat (n + 1) = unat n + 1"
    using assms by (intro unat_Suc_no_wrap unat_not_max) simp
  then show "unat (plan_arguments_after input n) \<le> Suc (unat n)" "n \<le> plan_arguments_after input n"
    "plan_takes_argument input \<Longrightarrow> plan_arguments_after input n \<noteq> 0"
    by (auto simp: plan_arguments_after_def word_le_nat_alt)
qed

lemma output_constraint:
  assumes rel: "plan_relevant request input" and n: "unat n < VPS_PLAN_MAX_CONSTRAINTS"
    and small: "unat (req_column_count request) \<le> VPS_PLAN_MAX_COLUMNS"
  shows "plan_pushes request input (plan_output_constraint request input n)"
    and "constraint_ok (plan_arguments_after input n) (plan_output_constraint request input n)"
proof -
  show "plan_pushes request input (plan_output_constraint request input n)"
    using plan_arguments_after_bounds(3) [OF n] plan_input_flags_bits(2)
    by (auto simp: plan_pushes_def plan_output_constraint_def plan_takes_argument_def)
  have "unat (pin_column input) < VPS_PLAN_MAX_COLUMNS"
    using rel small by (simp add: plan_relevant_def)
  from sint_small_bounds [OF this]
  have "sint (pin_column input) < int VPS_PLAN_MAX_COLUMNS" "\<not> sint (pin_column input) < 0"
    by simp_all
  then show "constraint_ok (plan_arguments_after input n) (plan_output_constraint request input n)"
    using plan_input_flags_bits(1) by (simp add: constraint_ok_def plan_output_constraint_def)
qed


text \<open>The loop over the constraints pushes the exact ones among the relevant ones, in their order.\<close>

definition plan_pushable :: "'c VpsPlannerRequest \<Rightarrow> VpsPlannerConstraintInput \<Rightarrow> bool" where
  "plan_pushable request input \<longleftrightarrow> plan_relevant request input \<and> plan_input_exact request input"

fun plan_outputs ::
    "'c VpsPlannerRequest \<Rightarrow> VpsPlannerConstraintInput list \<Rightarrow> u16 \<Rightarrow> VpsPlanConstraint list" where
  "plan_outputs request [] n = []"
| "plan_outputs request (input # rest) n =
     plan_output_constraint request input n # plan_outputs request rest (plan_arguments_after input n)"

lemma push_constraint_Some:
  assumes "plan_push_constraint request input prog = Some prog'"
  shows "projects ((prog_plan prog)\<lparr>plan_constraints := plan_constraints (prog_plan prog) @
            [plan_output_constraint request input (plan_argument_count (prog_plan prog))],
          plan_argument_count := plan_arguments_after input (plan_argument_count (prog_plan prog))\<rparr>)
      [unat (pin_column input)] (prog_plan prog')"
    and "prog_has_recheck prog' = (prog_has_recheck prog \<or> pin_is_in input)"
    and "length (plan_constraints (prog_plan prog)) < VPS_PLAN_MAX_CONSTRAINTS"
  using assms by (auto simp: plan_push_constraint_def dest!: add_projection_Some split: if_splits option.splits)

lemma projects_constraints:
  assumes "projects (plan\<lparr>plan_constraints := cs, plan_argument_count := n\<rparr>) as plan1"
    and "projects (plan1\<lparr>plan_constraints := ds, plan_argument_count := m\<rparr>) bs plan2"
  shows "projects (plan\<lparr>plan_constraints := ds, plan_argument_count := m\<rparr>) (as @ bs) plan2"
proof -
  have "projects (plan\<lparr>plan_constraints := ds, plan_argument_count := m\<rparr>) as
      (plan1\<lparr>plan_constraints := ds, plan_argument_count := m\<rparr>)"
    using assms(1) unfolding projects_def
    by (cases plan; cases plan1) auto
  from projects_trans [OF this assms(2)] show ?thesis .
qed

lemma compile_constraints_Cons:
  "plan_compile_constraints request (input # rest) prog =
     (if \<not> plan_relevant request input then plan_compile_constraints request rest prog
      else if \<not> plan_input_exact request input
      then plan_compile_constraints request rest (prog\<lparr>prog_has_recheck := True\<rparr>)
      else case plan_push_constraint request input prog of
             None \<Rightarrow> None
           | Some prog' \<Rightarrow> plan_compile_constraints request rest prog')"
  by (auto simp: plan_relevant_def)

definition compiles ::
    "'c VpsPlannerRequest \<Rightarrow> VpsPlannerConstraintInput list \<Rightarrow> plan_progress \<Rightarrow> plan_progress \<Rightarrow> bool" where
  "compiles request inputs prog prog' \<longleftrightarrow>
     (let pushed = filter (plan_pushable request) inputs; plan = prog_plan prog in
      projects (plan\<lparr>plan_constraints :=
            plan_constraints plan @ plan_outputs request pushed (plan_argument_count plan),
          plan_argument_count := fold plan_arguments_after pushed (plan_argument_count plan)\<rparr>)
        (map (unat \<circ> pin_column) pushed) (prog_plan prog') \<and>
      prog_has_recheck prog' = (prog_has_recheck prog \<or>
        (\<exists>input\<in>set inputs. plan_relevant request input \<and>
           (pin_is_in input \<or> \<not> plan_input_exact request input))))"

lemma compile_constraints_Some:
  "plan_compile_constraints request inputs prog = Some prog' \<Longrightarrow> compiles request inputs prog prog'"
proof (induction inputs arbitrary: prog)
  case Nil
  then show ?case by (simp add: compiles_def)
next
  case (Cons input rest)
  show ?case
  proof (cases "plan_pushable request input")
    case True
    then have both: "plan_relevant request input" "plan_input_exact request input" by (simp_all add: plan_pushable_def)
    with Cons.prems obtain prog1 where push: "plan_push_constraint request input prog = Some prog1"
      and run: "plan_compile_constraints request rest prog1 = Some prog'"
      by (auto simp: compile_constraints_Cons simp del: plan_compile_constraints.simps split: option.splits)
    note p1 = push_constraint_Some [OF push]
    from Cons.IH [OF run] show ?thesis
      using projects_constraints [OF p1(1)] p1(2) projects_fields(4,6) [OF p1(1)] True both
      by (auto simp: compiles_def Let_def)
  next
    case False
    then have "plan_compile_constraints request rest
        (if plan_relevant request input then prog\<lparr>prog_has_recheck := True\<rparr> else prog) = Some prog'"
      using Cons.prems by (simp add: compile_constraints_Cons plan_pushable_def
          del: plan_compile_constraints.simps split: if_splits)
    from Cons.IH [OF this] False show ?thesis
      by (cases "plan_relevant request input") (auto simp: compiles_def Let_def plan_pushable_def)
  qed
qed

text \<open>The other loops.\<close>

lemma projects_order:
  assumes "projects (plan\<lparr>plan_order_terms := ts\<rparr>) as plan1"
    and "projects (plan1\<lparr>plan_order_terms := us\<rparr>) bs plan2"
  shows "projects (plan\<lparr>plan_order_terms := us\<rparr>) (as @ bs) plan2"
proof -
  have "projects (plan\<lparr>plan_order_terms := us\<rparr>) as (plan1\<lparr>plan_order_terms := us\<rparr>)"
    using assms(1) unfolding projects_def by (cases plan; cases plan1) auto
  from projects_trans [OF this assms(2)] show ?thesis .
qed

definition plan_output_term :: "VpsPlannerOrderInput \<Rightarrow> VpsPlanOrderTerm" where
  "plan_output_term input = \<lparr>ord_column = oin_column input,
     ord_descending = (if oin_descending input then 1 else 0),
     ord_nulls_first = (if oin_descending input then 0 else 1)\<rparr>"

lemma compile_order_Some:
  "plan_compile_order terms plan = Some plan' \<Longrightarrow>
     projects (plan\<lparr>plan_order_terms := plan_order_terms plan @ map plan_output_term terms\<rparr>)
       (map (unat \<circ> oin_column) terms) plan'"
proof (induction terms arbitrary: plan)
  case (Cons input rest)
  from Cons.prems obtain plan1 where
    p1: "projects (plan\<lparr>plan_order_terms := plan_order_terms plan @ [plan_output_term input]\<rparr>)
      [unat (oin_column input)] plan1" and run: "plan_compile_order rest plan1 = Some plan'"
    by (auto simp: plan_output_term_def split: option.splits dest: add_projection_Some)
  show ?case
    using projects_order [OF p1 Cons.IH [OF run]] projects_fields(5) [OF p1] by simp
qed simp


definition plan_is_limit :: "VpsPlannerConstraintInput \<Rightarrow> bool" where
  "plan_is_limit input \<longleftrightarrow>
     pin_usable input \<and> (pin_operation input = VPS_PLAN_OP_LIMIT \<or> pin_operation input = VPS_PLAN_OP_OFFSET)"

text \<open>The loop over \<open>LIMIT\<close> and \<open>OFFSET\<close> adds a constraint, an argument and a flag for each, and does nothing
  when some check is left to SQLite.\<close>

lemma compile_limits_recheck [simp]: "plan_compile_limits True inputs plan = Some plan"
  by (induction inputs) simp_all

definition limit_flag :: "VpsPlannerConstraintInput \<Rightarrow> u32" where
  "limit_flag input = (if pin_operation input = VPS_PLAN_OP_LIMIT then VPS_PLAN_FLAG_LIMIT_CONSUMED
     else VPS_PLAN_FLAG_OFFSET_CONSUMED)"

definition limit_constraint :: "VpsPlannerConstraintInput \<Rightarrow> u16 \<Rightarrow> VpsPlanConstraint" where
  "limit_constraint input n =
     \<lparr>con_column = - 1, con_type_oid = 0, con_source_index = pin_source_index input,
      con_argument_index = n, con_flags = VPS_PLAN_CONSTRAINT_EXACT,
      con_operation = plan_operator_code (pin_operation input), con_value_class = 2\<rparr>"

lemma compile_limits_Cons:
  "plan_compile_limits False (input # rest) plan =
     (if \<not> plan_is_limit input then plan_compile_limits False rest plan
      else if length (plan_constraints plan) \<ge> VPS_PLAN_MAX_CONSTRAINTS then None
      else plan_compile_limits False rest
        (plan\<lparr>plan_constraints := plan_constraints plan @
                [limit_constraint input (plan_argument_count plan + 1)],
              plan_argument_count := plan_argument_count plan + 1,
              plan_flags := plan_flags plan OR limit_flag input\<rparr>))"
  by (auto simp: plan_is_limit_def Let_def limit_constraint_def limit_flag_def plan_value_class_code_def)

lemma limit_constraint_ok:
  "plan_is_limit input \<Longrightarrow> constraint_ok n (limit_constraint input n)"
  by (auto simp: plan_is_limit_def constraint_ok_def limit_constraint_def)

lemma compile_limits_Some:
  "plan_compile_limits False inputs plan = Some plan' \<Longrightarrow> compiling plan \<Longrightarrow>
     compiling plan' \<and> plan_projection plan' = plan_projection plan \<and>
     plan_order_terms plan' = plan_order_terms plan \<and>
     plan_source_fingerprint plan' = plan_source_fingerprint plan \<and>
     plan_flags plan' = fold (\<lambda>input f. f OR limit_flag input) (filter plan_is_limit inputs) (plan_flags plan) \<and>
     (\<exists>cs. plan_constraints plan' = plan_constraints plan @ cs \<and> map con_source_index cs = map pin_source_index (filter plan_is_limit inputs) \<and>
        (\<forall>c\<in>set cs. sint (con_column c) < 0))"
proof (induction inputs arbitrary: plan)
  case (Cons input rest)
  let ?plan = "plan\<lparr>plan_constraints := plan_constraints plan @
      [limit_constraint input (plan_argument_count plan + 1)],
    plan_argument_count := plan_argument_count plan + 1, plan_flags := plan_flags plan OR limit_flag input\<rparr>"
  show ?case
  proof (cases "plan_is_limit input")
    case True
    then have room: "length (plan_constraints plan) < VPS_PLAN_MAX_CONSTRAINTS"
      and run: "plan_compile_limits False rest ?plan = Some plan'"
      using Cons.prems(1) by (auto simp: compile_limits_Cons simp del: plan_compile_limits.simps split: if_splits)
    then have n: "unat (plan_argument_count plan + 1) = unat (plan_argument_count plan) + 1"
      using Cons.prems(2) by (intro unat_Suc_no_wrap unat_not_max) (simp add: compiling_def)
    have "compiling (plan\<lparr>plan_constraints := plan_constraints plan @
        [limit_constraint input (plan_argument_count plan + 1)],
      plan_argument_count := plan_argument_count plan + 1\<rparr>)"
      using Cons.prems(2) room n limit_constraint_ok [OF True]
      by (intro compiling_constraint) (auto simp: compiling_def word_le_nat_alt)
    from compiling_flag [OF this, of "limit_flag input"] have "compiling ?plan"
      by (simp add: limit_flag_def)
    from Cons.IH [OF run this] True show ?thesis
      by (auto simp: limit_constraint_def)
  next
    case False
    with Cons show ?thesis by (simp add: compile_limits_Cons del: plan_compile_limits.simps)
  qed
qed simp


lemma push_compiling:
  assumes push: "plan_push_constraint request input prog = Some prog'"
    and rel: "plan_relevant request input"
    and small: "unat (req_column_count request) \<le> VPS_PLAN_MAX_COLUMNS"
    and ok: "compiling (prog_plan prog)"
  shows "compiling (prog_plan prog')"
proof -
  note p = push_constraint_Some [OF push]
  have n: "unat (plan_argument_count (prog_plan prog)) \<le> length (plan_constraints (prog_plan prog))"
    "unat (plan_argument_count (prog_plan prog)) < VPS_PLAN_MAX_CONSTRAINTS"
    using ok p(3) by (simp_all add: compiling_def)
  show ?thesis
  proof (rule compiling_projects [OF compiling_constraint p(1)])
    show "unat (plan_arguments_after input (plan_argument_count (prog_plan prog)))
        \<le> Suc (length (plan_constraints (prog_plan prog)))"
      using plan_arguments_after_bounds(1) [OF n(2), of input] n(1) by simp
    show "\<forall>i\<in>set [unat (pin_column input)]. i < VPS_PLAN_MAX_COLUMNS"
      using rel small by (simp add: plan_relevant_def)
  qed (use ok p(3) plan_arguments_after_bounds(2) [OF n(2)] output_constraint(2) [OF rel n(2) small] in simp_all)
qed

lemma compile_constraints_compiling:
  "plan_compile_constraints request inputs prog = Some prog' \<Longrightarrow>
   unat (req_column_count request) \<le> VPS_PLAN_MAX_COLUMNS \<Longrightarrow> compiling (prog_plan prog) \<Longrightarrow>
   compiling (prog_plan prog')"
proof (induction inputs arbitrary: prog)
  case (Cons input rest)
  then show ?case
    by (auto simp: compile_constraints_Cons simp del: plan_compile_constraints.simps
        split: if_splits option.splits intro: push_compiling)
qed simp

section \<open>What the compiler returns\<close>

lemma empty_plan_compiling: "compiling (empty_plan fingerprint)"
  by (simp add: compiling_def plan_body_ok_def empty_plan_def)

lemma planner_projection_Some:
  assumes "planner_projection request = Some plan"
  shows "\<exists>columns. projects (empty_plan (req_source_fingerprint request)) columns plan \<and>
     set columns \<subseteq> insert 0 {..<unat (req_column_count request)} \<and>
     (\<forall>i<unat (req_column_count request). plan_column_used request i \<or> vps_plan_is_key request i \<longrightarrow> i \<in> set columns)"
proof -
  let ?columns = "filter (\<lambda>i. plan_column_used request i \<or> vps_plan_is_key request i)
    [0..<unat (req_column_count request)]"
  from assms obtain plan0 where run: "plan_project_columns request [0..<unat (req_column_count request)]
      (empty_plan (req_source_fingerprint request)) = Some plan0"
    and plan: "plan = plan0 \<or> vps_plan_add_projection plan0 0 = Some plan"
    by (auto simp: planner_projection_def split: option.splits if_splits)
  note p0 = project_columns_Some [OF run]
  show ?thesis
  proof (cases "plan = plan0")
    case True
    with p0 show ?thesis by (intro exI [of _ ?columns]) auto
  next
    case False
    with plan have "projects plan0 [0] plan" by (auto dest: add_projection_Some)
    from projects_trans [OF p0 this] show ?thesis by (intro exI [of _ "?columns @ [0]"]) auto
  qed
qed

lemma planner_compile_OK:
  assumes "vps_planner_compile (Some request) = (VPS_PLANNER_OK, Some plan, logger)"
  obtains plan0 prog1 prog2 plan3 where "planner_arguments_valid request"
    and "planner_projection request = Some plan0"
    and "plan_compile_constraints request (request_constraints request)
      \<lparr>prog_plan = plan0, prog_exact_key_parts = 0, prog_has_recheck = False\<rparr> = Some prog1"
    and "planner_order request prog1 = Some prog2"
    and "planner_limits request prog2 = Some plan3"
    and "plan = plan_estimate request (prog_exact_key_parts prog2) plan3"
    and "logger = vps_plan_log request plan"
  using assms by (auto simp: vps_planner_compile_def Let_def split: if_splits option.splits)

lemma output_terms_ok:
  assumes "plan_order_exact request terms" and "unat (req_column_count request) \<le> VPS_PLAN_MAX_COLUMNS"
  shows "\<forall>t\<in>set (map plan_output_term terms). order_term_ok t"
    and "\<forall>i\<in>set (map (unat \<circ> oin_column) terms). i < VPS_PLAN_MAX_COLUMNS"
  using assms by (force simp: plan_order_exact_def list_all_iff order_term_ok_def plan_output_term_def)+

lemma request_order_empty: "req_order_count request = 0 \<longleftrightarrow> request_order request = []"
  by (auto simp: request_order_def unat_eq_zero)

lemma planner_order_exact:
  assumes "planner_order request prog = Some prog'" and "plan_order_exact request (request_order request)"
    and "plan_order_terms (prog_plan prog) = []"
  obtains plan where "projects ((prog_plan prog)\<lparr>plan_order_terms := map plan_output_term (request_order request)\<rparr>)
      (map (unat \<circ> oin_column) (request_order request)) plan"
    and "prog' = prog\<lparr>prog_plan := plan\<lparr>plan_flags := plan_flags plan OR
      (if request_order request = [] then 0 else VPS_PLAN_FLAG_ORDER_CONSUMED)\<rparr>\<rparr>"
proof -
  from assms(1,2) obtain plan where run: "plan_compile_order (request_order request) (prog_plan prog) = Some plan"
    and eq: "prog' = prog\<lparr>prog_plan := (if request_order request = [] then plan
      else plan\<lparr>plan_flags := plan_flags plan OR VPS_PLAN_FLAG_ORDER_CONSUMED\<rparr>)\<rparr>"
    by (auto simp: planner_order_def request_order_empty split: option.splits)
  show thesis
    using compile_order_Some [OF run] assms(3) eq by (intro that [of plan]) auto
qed

lemma planner_order_recheck:
  assumes "planner_order request prog = Some prog'" and "\<not> plan_order_exact request (request_order request)"
  shows "prog' = prog\<lparr>prog_has_recheck := True, prog_plan := (prog_plan prog)\<lparr>plan_flags :=
    plan_flags (prog_plan prog) OR VPS_PLAN_FLAG_HAS_RECHECK\<rparr>\<rparr>"
  using assms by (auto simp: planner_order_def request_order_empty plan_order_exact_def split: if_splits)

text \<open>What the order stage makes of a plan, in both cases.\<close>

definition order_stage :: "'c VpsPlannerRequest \<Rightarrow> plan_progress \<Rightarrow> plan_progress \<Rightarrow> bool" where
  "order_stage request prog prog' \<longleftrightarrow>
     (let exact = plan_order_exact request (request_order request);
          plan = prog_plan prog; plan' = prog_plan prog'
      in prog_has_recheck prog' = (prog_has_recheck prog \<or> \<not> exact) \<and>
         prog_exact_key_parts prog' = prog_exact_key_parts prog \<and>
         plan_flags plan' = plan_flags plan OR (if \<not> exact then VPS_PLAN_FLAG_HAS_RECHECK
           else if request_order request = [] then 0 else VPS_PLAN_FLAG_ORDER_CONSUMED) \<and>
         plan_order_terms plan' = (if exact then map plan_output_term (request_order request) else []) \<and>
         set (plan_projection plan') = set (plan_projection plan) \<union>
           (if exact then oin_column ` set (request_order request) else {}) \<and>
         plan_constraints plan' = plan_constraints plan \<and>
         plan_source_fingerprint plan' = plan_source_fingerprint plan \<and>
         compiling plan')"

lemma planner_order_stage:
  assumes run: "planner_order request prog = Some prog'"
    and ok: "compiling (prog_plan prog)" "plan_order_terms (prog_plan prog) = []"
    and small: "unat (req_order_count request) \<le> VPS_PLAN_MAX_ORDER_TERMS"
      "unat (req_column_count request) \<le> VPS_PLAN_MAX_COLUMNS"
  shows "order_stage request prog prog'"
proof (cases "plan_order_exact request (request_order request)")
  case True
  let ?plan0 = "(prog_plan prog)\<lparr>plan_order_terms := map plan_output_term (request_order request)\<rparr>"
  from planner_order_exact [OF run True ok(2)] obtain plan where
    p: "projects ?plan0 (map (unat \<circ> oin_column) (request_order request)) plan"
    and eq: "prog' = prog\<lparr>prog_plan := plan\<lparr>plan_flags := plan_flags plan OR
      (if request_order request = [] then 0 else VPS_PLAN_FLAG_ORDER_CONSUMED)\<rparr>\<rparr>" by blast
  have "compiling ?plan0"
    using ok(1) output_terms_ok(1) [OF True small(2)] small(1)
    by (intro compiling_order) (simp_all add: request_order_def)
  then have c: "compiling plan"
    by (rule compiling_projects [OF _ p output_terms_ok(2) [OF True small(2)]])
  then have "compiling (prog_plan prog')"
    using compiling_flag [OF c, of 1] by (simp add: eq)
  moreover have "set (plan_projection plan) = set (plan_projection (prog_plan prog)) \<union>
      oin_column ` set (request_order request)"
    using p by (simp add: projects_def image_image o_def)
  ultimately show ?thesis
    using True by (simp add: order_stage_def eq projects_fields [OF p])
next
  case False
  from planner_order_recheck [OF run this] have
    eq: "prog' = prog\<lparr>prog_has_recheck := True, prog_plan := (prog_plan prog)\<lparr>plan_flags :=
      plan_flags (prog_plan prog) OR VPS_PLAN_FLAG_HAS_RECHECK\<rparr>\<rparr>" .
  have "compiling (prog_plan prog')"
    using compiling_flag [OF ok(1), of 4] by (simp add: eq)
  with False show ?thesis by (simp add: order_stage_def eq ok(2))
qed

text \<open>The last stage: \<open>LIMIT\<close> and \<open>OFFSET\<close> are pushed when nothing is left to SQLite.\<close>

definition limit_stage :: "'c VpsPlannerRequest \<Rightarrow> plan_progress \<Rightarrow> VpsCompiledPlan \<Rightarrow> bool" where
  "limit_stage request prog plan' \<longleftrightarrow>
     (let limits = (if prog_has_recheck prog then [] else filter plan_is_limit (request_constraints request));
          plan = prog_plan prog
      in plan_flags plan' = fold (\<lambda>input f. f OR limit_flag input) limits
           (plan_flags plan OR (if prog_has_recheck prog then VPS_PLAN_FLAG_HAS_RECHECK else 0)) \<and>
         (\<exists>cs. plan_constraints plan' = plan_constraints plan @ cs \<and>
            map con_source_index cs = map pin_source_index limits \<and>
            (\<forall>c\<in>set cs. sint (con_column c) < 0)) \<and>
         plan_order_terms plan' = plan_order_terms plan \<and>
         plan_projection plan' = plan_projection plan \<and>
         plan_source_fingerprint plan' = plan_source_fingerprint plan \<and>
         compiling plan')"

lemma planner_limit_stage:
  assumes run: "planner_limits request prog = Some plan'" and ok: "compiling (prog_plan prog)"
  shows "limit_stage request prog plan'"
proof (cases "prog_has_recheck prog")
  case True
  with run have "plan' = (prog_plan prog)\<lparr>plan_flags :=
      plan_flags (prog_plan prog) OR VPS_PLAN_FLAG_HAS_RECHECK\<rparr>"
    by (simp add: planner_limits_def)
  with compiling_flag [OF ok, of 4] True show ?thesis by (simp add: limit_stage_def)
next
  case False
  with run have "plan_compile_limits False (request_constraints request) (prog_plan prog) = Some plan'"
    by (simp add: planner_limits_def)
  from compile_limits_Some [OF this ok] False show ?thesis by (simp add: limit_stage_def)
qed

lemma estimate_fields:
  "plan_constraints (plan_estimate request n plan) = plan_constraints plan"
  "plan_order_terms (plan_estimate request n plan) = plan_order_terms plan"
  "plan_projection (plan_estimate request n plan) = plan_projection plan"
  "plan_source_fingerprint (plan_estimate request n plan) = plan_source_fingerprint plan"
  "plan_estimated_rows (plan_estimate request n plan) \<noteq> 0"
  "plan_estimated_cost_milli (plan_estimate request n plan) \<noteq> 0"
  "plan_flags (plan_estimate request n plan) = plan_flags plan OR
     (if req_key_column_count request \<noteq> 0 \<and> n = unat (req_key_column_count request)
      then VPS_PLAN_FLAG_UNIQUE else 0)"
  by (simp_all add: plan_estimate_def Let_def)

lemma estimate_compiling: "compiling plan \<Longrightarrow> compiling (plan_estimate request n plan)"
  by (auto simp: compiling_def plan_body_ok_def plan_estimate_def Let_def)


lemma fold_limit_flags:
  "fold (\<lambda>input f. f OR limit_flag input) inputs f AND VPS_PLAN_FLAG_ORDER_CONSUMED =
     f AND VPS_PLAN_FLAG_ORDER_CONSUMED"
  "bit (fold (\<lambda>input f. f OR limit_flag input) inputs f) 3 \<longleftrightarrow>
     bit f 3 \<or> (\<exists>input\<in>set inputs. pin_operation input = VPS_PLAN_OP_LIMIT)"
  "bit (fold (\<lambda>input f. f OR limit_flag input) inputs f) 4 \<longleftrightarrow>
     bit f 4 \<or> (\<exists>input\<in>set inputs. pin_operation input \<noteq> VPS_PLAN_OP_LIMIT)"
  by (induction inputs arbitrary: f) (auto simp: limit_flag_def bit_or_iff)

text \<open>The compiler as a whole. \<open>planner_recheck\<close> says that SQLite has something left to check.\<close>

definition planner_recheck :: "'c VpsPlannerRequest \<Rightarrow> bool" where
  "planner_recheck request \<longleftrightarrow>
     (\<exists>input\<in>set (request_constraints request). plan_relevant request input \<and>
        (pin_is_in input \<or> \<not> plan_input_exact request input)) \<or>
     \<not> plan_order_exact request (request_order request)"

definition planner_limited :: "'c VpsPlannerRequest \<Rightarrow> VpsPlannerConstraintInput list" where
  "planner_limited request =
     (if planner_recheck request then [] else filter plan_is_limit (request_constraints request))"

definition compiled_spec :: "'c VpsPlannerRequest \<Rightarrow> VpsCompiledPlan \<Rightarrow> bool" where
  "compiled_spec request plan \<longleftrightarrow>
     plan_ok plan \<and>
     plan_source_fingerprint plan = req_source_fingerprint request \<and>
     (\<exists>limits. plan_constraints plan =
          plan_outputs request (filter (plan_pushable request) (request_constraints request)) 0 @ limits \<and>
        map con_source_index limits = map pin_source_index (planner_limited request) \<and>
        (\<forall>c\<in>set limits. sint (con_column c) < 0)) \<and>
     plan_order_terms plan = (if plan_order_exact request (request_order request)
       then map plan_output_term (request_order request) else []) \<and>
     (\<forall>i<unat (req_column_count request). plan_column_used request i \<or> vps_plan_is_key request i \<longrightarrow>
        of_nat i \<in> set (plan_projection plan)) \<and>
     (\<forall>input\<in>set (request_constraints request). plan_pushable request input \<longrightarrow>
        ucast (pin_column input) \<in> set (plan_projection plan)) \<and>
     (\<forall>term\<in>set (plan_order_terms plan). ord_column term \<in> set (plan_projection plan)) \<and>
     (plan_flags plan AND VPS_PLAN_FLAG_LIMIT_CONSUMED \<noteq> 0 \<longleftrightarrow>
        (\<exists>input\<in>set (planner_limited request). pin_operation input = VPS_PLAN_OP_LIMIT)) \<and>
     (plan_flags plan AND VPS_PLAN_FLAG_OFFSET_CONSUMED \<noteq> 0 \<longleftrightarrow>
        (\<exists>input\<in>set (planner_limited request). pin_operation input = VPS_PLAN_OP_OFFSET))"

lemma limit_flags_spec:
  assumes "flags = fold (\<lambda>input f. f OR limit_flag input) (planner_limited request)
      ((if a then VPS_PLAN_FLAG_HAS_RECHECK else if b then 0 else VPS_PLAN_FLAG_ORDER_CONSUMED) OR
       (if c then VPS_PLAN_FLAG_HAS_RECHECK else 0)) OR (if d then VPS_PLAN_FLAG_UNIQUE else 0)"
  shows "flags AND VPS_PLAN_FLAG_LIMIT_CONSUMED \<noteq> 0 \<longleftrightarrow>
        (\<exists>input\<in>set (planner_limited request). pin_operation input = VPS_PLAN_OP_LIMIT)"
    and "flags AND VPS_PLAN_FLAG_OFFSET_CONSUMED \<noteq> 0 \<longleftrightarrow>
        (\<exists>input\<in>set (planner_limited request). pin_operation input = VPS_PLAN_OP_OFFSET)"
proof -
  have "f AND 8 \<noteq> 0 \<longleftrightarrow> bit f 3" "f AND 16 \<noteq> 0 \<longleftrightarrow> bit f 4" for f :: u32
    using and_exp_eq_0_iff_not_bit [of f 3] and_exp_eq_0_iff_not_bit [of f 4] by auto
  moreover have "pin_operation input \<noteq> VPS_PLAN_OP_LIMIT \<longleftrightarrow> pin_operation input = VPS_PLAN_OP_OFFSET"
    if "input \<in> set (planner_limited request)" for input
    using that by (auto simp: planner_limited_def plan_is_limit_def split: if_splits)
  ultimately show "flags AND VPS_PLAN_FLAG_LIMIT_CONSUMED \<noteq> 0 \<longleftrightarrow>
        (\<exists>input\<in>set (planner_limited request). pin_operation input = VPS_PLAN_OP_LIMIT)"
    "flags AND VPS_PLAN_FLAG_OFFSET_CONSUMED \<noteq> 0 \<longleftrightarrow>
        (\<exists>input\<in>set (planner_limited request). pin_operation input = VPS_PLAN_OP_OFFSET)"
    unfolding assms by (auto simp: fold_limit_flags bit_or_iff)
qed

text \<open>The state after the projection and the constraints.\<close>

definition pushed_stage :: "'c VpsPlannerRequest \<Rightarrow> plan_progress \<Rightarrow> bool" where
  "pushed_stage request prog \<longleftrightarrow>
     (let plan = prog_plan prog; pushed = filter (plan_pushable request) (request_constraints request)
      in compiling plan \<and> plan_flags plan = 0 \<and> plan_order_terms plan = [] \<and>
         plan_source_fingerprint plan = req_source_fingerprint request \<and>
         plan_constraints plan = plan_outputs request pushed 0 \<and>
         (\<forall>i<unat (req_column_count request). plan_column_used request i \<or> vps_plan_is_key request i \<longrightarrow>
            of_nat i \<in> set (plan_projection plan)) \<and>
         (\<forall>input\<in>set pushed. ucast (pin_column input) \<in> set (plan_projection plan)) \<and>
         prog_has_recheck prog = (\<exists>input\<in>set (request_constraints request). plan_relevant request input \<and>
           (pin_is_in input \<or> \<not> plan_input_exact request input)))"

lemma planner_pushed_stage:
  assumes valid: "planner_arguments_valid request"
    and stage0: "planner_projection request = Some plan0"
    and stage1: "plan_compile_constraints request (request_constraints request)
      \<lparr>prog_plan = plan0, prog_exact_key_parts = 0, prog_has_recheck = False\<rparr> = Some prog"
  shows "pushed_stage request prog"
proof -
  have small: "unat (req_column_count request) \<le> VPS_PLAN_MAX_COLUMNS" "0 < unat (req_column_count request)"
    using valid by (auto simp: planner_arguments_valid_def unat_gt_0)
  from planner_projection_Some [OF stage0] obtain columns where
    p0: "projects (empty_plan (req_source_fingerprint request)) columns plan0"
    and c0: "set columns \<subseteq> insert 0 {..<unat (req_column_count request)}"
      "\<forall>i<unat (req_column_count request). plan_column_used request i \<or> vps_plan_is_key request i \<longrightarrow> i \<in> set columns"
    by auto
  have "compiling plan0"
    using c0(1) small by (intro compiling_projects [OF empty_plan_compiling p0]) auto
  then have ok: "compiling (prog_plan prog)"
    by (intro compile_constraints_compiling [OF stage1 small(1)]) simp
  let ?pushed = "filter (plan_pushable request) (request_constraints request)"
  have p1: "projects (plan0\<lparr>plan_constraints := plan_outputs request ?pushed 0,
      plan_argument_count := fold plan_arguments_after ?pushed 0\<rparr>) (map (unat \<circ> pin_column) ?pushed) (prog_plan prog)"
    and recheck: "prog_has_recheck prog = (\<exists>input\<in>set (request_constraints request).
      plan_relevant request input \<and> (pin_is_in input \<or> \<not> plan_input_exact request input))"
    using compile_constraints_Some [OF stage1] projects_fields [OF p0]
    by (simp_all add: compiles_def Let_def empty_plan_def)
  have "set (plan_projection (prog_plan prog)) =
      of_nat ` set columns \<union> (\<lambda>input. ucast (pin_column input)) ` set ?pushed"
    using p0 p1 by (simp add: projects_def empty_plan_def image_image)
  then show ?thesis
    using ok recheck c0(2) projects_fields [OF p0] projects_fields [OF p1]
    by (simp add: pushed_stage_def Let_def empty_plan_def)
qed

lemma planner_compile_spec:
  assumes "vps_planner_compile (Some request) = (VPS_PLANNER_OK, Some plan, logger)"
  shows "compiled_spec request plan"
proof (rule planner_compile_OK [OF assms])
  fix plan0 prog1 prog2 plan3
  assume valid: "planner_arguments_valid request"
    and stages: "planner_projection request = Some plan0"
      "plan_compile_constraints request (request_constraints request)
        \<lparr>prog_plan = plan0, prog_exact_key_parts = 0, prog_has_recheck = False\<rparr> = Some prog1"
    and stage2: "planner_order request prog1 = Some prog2"
    and stage3: "planner_limits request prog2 = Some plan3"
    and final: "plan = plan_estimate request (prog_exact_key_parts prog2) plan3"
  note s1 = planner_pushed_stage [OF valid stages, unfolded pushed_stage_def Let_def]
  have s2: "order_stage request prog1 prog2"
    using valid s1 by (intro planner_order_stage [OF stage2]) (simp_all add: planner_arguments_valid_def)
  then have "compiling (prog_plan prog2)" by (simp add: order_stage_def Let_def)
  note s2 = s2 [unfolded order_stage_def Let_def]
    and s3 = planner_limit_stage [OF stage3 this, unfolded limit_stage_def Let_def]
  have recheck: "prog_has_recheck prog2 = planner_recheck request"
    using s1 s2 by (simp add: planner_recheck_def)
  have flags: "plan_flags plan = fold (\<lambda>input f. f OR limit_flag input) (planner_limited request)
      ((if \<not> plan_order_exact request (request_order request) then VPS_PLAN_FLAG_HAS_RECHECK
       else if request_order request = [] then 0 else VPS_PLAN_FLAG_ORDER_CONSUMED) OR
       (if planner_recheck request then VPS_PLAN_FLAG_HAS_RECHECK else 0)) OR
      (if req_key_column_count request \<noteq> 0 \<and> prog_exact_key_parts prog2 = unat (req_key_column_count request)
       then VPS_PLAN_FLAG_UNIQUE else 0)"
    using s1 s2 s3 unfolding final estimate_fields recheck by (simp add: planner_limited_def)
  have terms: "plan_order_terms plan = (if plan_order_exact request (request_order request)
       then map plan_output_term (request_order request) else [])"
    using s2 s3 unfolding final estimate_fields by simp
  have "compiling plan" using s3 by (simp add: estimate_compiling final)
  moreover have "(plan_flags plan AND VPS_PLAN_FLAG_ORDER_CONSUMED \<noteq> 0) = (plan_order_terms plan \<noteq> [])"
    unfolding terms flags by (auto simp: fold_limit_flags)
  ultimately have ok: "plan_ok plan"
    by (simp add: plan_ok_def compiling_def final estimate_fields(5,6))
  have "\<exists>limits. plan_constraints plan =
          plan_outputs request (filter (plan_pushable request) (request_constraints request)) 0 @ limits \<and>
        map con_source_index limits = map pin_source_index (planner_limited request) \<and>
        (\<forall>c\<in>set limits. sint (con_column c) < 0)"
    using s1 s2 s3 unfolding final estimate_fields recheck planner_limited_def by simp
  moreover have sub: "set (plan_projection (prog_plan prog1)) \<subseteq> set (plan_projection plan)"
    "\<forall>term\<in>set (plan_order_terms plan). ord_column term \<in> set (plan_projection plan)"
    using s2 s3 unfolding final estimate_fields by (auto simp: plan_output_term_def)
  moreover have "\<forall>i<unat (req_column_count request). plan_column_used request i \<or> vps_plan_is_key request i \<longrightarrow>
      of_nat i \<in> set (plan_projection plan)"
    using s1 sub(1) by (simp add: subset_iff)
  moreover have "\<forall>input\<in>set (request_constraints request). plan_pushable request input \<longrightarrow>
      ucast (pin_column input) \<in> set (plan_projection plan)"
    using s1 sub(1) by (simp add: subset_iff)
  moreover have "plan_source_fingerprint plan = req_source_fingerprint request"
    using s1 s2 s3 unfolding final estimate_fields by simp
  ultimately show ?thesis
    unfolding compiled_spec_def using ok terms limit_flags_spec [OF flags]
    by (intro conjI) assumption+
qed

section \<open>The compiler succeeds\<close>

text \<open>A projection inside the first \<open>n\<close> columns has at most \<open>n\<close> entries, so it never fills the array when
  \<open>n\<close> is below the limit.\<close>

definition within :: "nat \<Rightarrow> VpsCompiledPlan \<Rightarrow> bool" where
  "within n plan \<longleftrightarrow> distinct (plan_projection plan) \<and> set (plan_projection plan) \<subseteq> of_nat ` {..<n}"

lemma within_room:
  assumes "within n plan" and "n < VPS_PLAN_MAX_COLUMNS" shows "length (plan_projection plan) < VPS_PLAN_MAX_COLUMNS"
proof -
  have "card (set (plan_projection plan)) \<le> card (of_nat ` {..<n} :: u16 set)"
    using assms(1) by (intro card_mono) (auto simp: within_def)
  also have "\<dots> \<le> n" using card_image_le [of "{..<n}" "of_nat :: nat \<Rightarrow> u16"] by simp
  finally show ?thesis using assms by (simp add: within_def distinct_card)
qed

lemma within_projects:
  "within n plan \<Longrightarrow> projects plan columns plan' \<Longrightarrow> set columns \<subseteq> {..<n} \<Longrightarrow> within n plan'"
  by (auto simp: within_def projects_def)

lemma within_update [simp]:
  "within n (plan\<lparr>plan_constraints := cs, plan_argument_count := m\<rparr>) = within n plan"
  "within n (plan\<lparr>plan_order_terms := ts\<rparr>) = within n plan"
  "within n (plan\<lparr>plan_flags := f\<rparr>) = within n plan"
  by (simp_all add: within_def)

lemma add_projection_within:
  assumes "within n plan" and "n < VPS_PLAN_MAX_COLUMNS" and "column < n"
  shows "\<exists>plan'. vps_plan_add_projection plan column = Some plan' \<and> within n plan'"
proof -
  obtain plan' where p: "vps_plan_add_projection plan column = Some plan'"
    using add_projection_room [of column plan] within_room [OF assms(1,2)] assms(2,3) by auto
  from within_projects [OF assms(1) add_projection_Some [OF p]] assms(3) p show ?thesis by auto
qed

lemma project_columns_within:
  "within n plan \<Longrightarrow> n < VPS_PLAN_MAX_COLUMNS \<Longrightarrow> \<forall>i\<in>set is. i < n \<Longrightarrow>
     \<exists>plan'. plan_project_columns request is plan = Some plan' \<and> within n plan'"
proof (induction "is" arbitrary: plan)
  case (Cons i rest)
  from add_projection_within [OF Cons.prems(1,2), of i] Cons.prems(3) obtain plan1 where
    "vps_plan_add_projection plan i = Some plan1" "within n plan1" by auto
  with Cons show ?case by auto
qed simp

lemma compile_constraints_within:
  "within (unat (req_column_count request)) (prog_plan prog) \<Longrightarrow>
   unat (req_column_count request) < VPS_PLAN_MAX_COLUMNS \<Longrightarrow>
   length (plan_constraints (prog_plan prog)) + length (filter (plan_pushable request) inputs)
     \<le> VPS_PLAN_MAX_CONSTRAINTS \<Longrightarrow>
   \<exists>prog'. plan_compile_constraints request inputs prog = Some prog' \<and>
     within (unat (req_column_count request)) (prog_plan prog')"
proof (induction inputs arbitrary: prog)
  case (Cons input rest)
  show ?case
  proof (cases "plan_pushable request input")
    case True
    then have both: "plan_relevant request input" "plan_input_exact request input"
      and column: "unat (pin_column input) < unat (req_column_count request)"
      by (simp_all add: plan_pushable_def plan_relevant_def)
    let ?plan = "(prog_plan prog)\<lparr>plan_constraints := plan_constraints (prog_plan prog) @
        [plan_output_constraint request input (plan_argument_count (prog_plan prog))],
      plan_argument_count := plan_arguments_after input (plan_argument_count (prog_plan prog))\<rparr>"
    from add_projection_within [of _ ?plan, OF _ Cons.prems(2) column] Cons.prems(1) obtain plan1
      where add: "vps_plan_add_projection ?plan (unat (pin_column input)) = Some plan1"
        and w: "within (unat (req_column_count request)) plan1" by auto
    have len: "length (plan_constraints plan1) = Suc (length (plan_constraints (prog_plan prog)))"
      using projects_fields(4) [OF add_projection_Some [OF add]] by simp
    show ?thesis
      using Cons.IH [of "\<lparr>prog_plan = plan1, prog_exact_key_parts = _, prog_has_recheck = _\<rparr>"]
        Cons.prems(2,3) add w len True both
      by (simp add: compile_constraints_Cons plan_push_constraint_def del: plan_compile_constraints.simps)
  next
    case False
    with Cons show ?thesis
      by (cases "plan_relevant request input")
        (simp_all add: compile_constraints_Cons plan_pushable_def del: plan_compile_constraints.simps)
  qed
qed simp

lemma compile_order_within:
  "within n plan \<Longrightarrow> n < VPS_PLAN_MAX_COLUMNS \<Longrightarrow> \<forall>input\<in>set terms. unat (oin_column input) < n \<Longrightarrow>
     \<exists>plan'. plan_compile_order terms plan = Some plan'"
proof (induction terms arbitrary: plan)
  case (Cons input rest)
  let ?plan = "plan\<lparr>plan_order_terms := plan_order_terms plan @
                [\<lparr>ord_column = oin_column input,
                  ord_descending = (if oin_descending input then 1 else 0),
                  ord_nulls_first = (if oin_descending input then 0 else 1)\<rparr>]\<rparr>"
  from add_projection_within [of n ?plan "unat (oin_column input)"] Cons.prems obtain plan1 where
    "vps_plan_add_projection ?plan (unat (oin_column input)) = Some plan1" "within n plan1" by auto
  with Cons show ?case by auto
qed simp

lemma compile_limits_room:
  "length (plan_constraints plan) + length (filter plan_is_limit inputs) \<le> VPS_PLAN_MAX_CONSTRAINTS \<Longrightarrow>
     \<exists>plan'. plan_compile_limits r inputs plan = Some plan'"
proof (induction inputs arbitrary: plan)
  case (Cons input rest)
  then show ?case
    by (cases r) (auto simp: compile_limits_Cons simp del: plan_compile_limits.simps)
qed simp

lemma plan_outputs_length [simp]: "length (plan_outputs request inputs n) = length inputs"
  by (induction inputs arbitrary: n) simp_all


lemma pushable_limits_length:
  "length (filter (plan_pushable request) inputs) + length (filter plan_is_limit inputs) \<le> length inputs"
  by (induction inputs) (auto simp: plan_pushable_def plan_relevant_def plan_is_limit_def)

lemma planner_compile_succeeds:
  assumes valid: "planner_arguments_valid request"
    and small: "unat (req_column_count request) < VPS_PLAN_MAX_COLUMNS"
  shows "\<exists>plan logger. vps_planner_compile (Some request) = (VPS_PLANNER_OK, Some plan, logger)"
proof -
  let ?n = "unat (req_column_count request)"
  let ?inputs = "request_constraints request"
  have counts: "0 < ?n" "length ?inputs \<le> VPS_PLAN_MAX_CONSTRAINTS"
    "unat (req_order_count request) \<le> VPS_PLAN_MAX_ORDER_TERMS"
    using valid by (auto simp: planner_arguments_valid_def request_constraints_def unat_gt_0)
  have "within ?n (empty_plan (req_source_fingerprint request))" by (simp add: within_def empty_plan_def)
  from project_columns_within [OF this small, of "[0..<?n]" request] obtain planx where
    "plan_project_columns request [0..<?n] (empty_plan (req_source_fingerprint request)) = Some planx"
    "within ?n planx" by auto
  with add_projection_within [OF _ small counts(1), of planx] obtain plan0 where
    stage0: "planner_projection request = Some plan0" and w0: "within ?n plan0"
    by (cases "plan_projection planx = []") (auto simp: planner_projection_def)
  let ?prog = "\<lparr>prog_plan = plan0, prog_exact_key_parts = 0, prog_has_recheck = False\<rparr>"
  have "plan_constraints plan0 = []"
    using planner_projection_Some [OF stage0] projects_fields(4) by (auto simp: empty_plan_def)
  then obtain prog1 where stage1: "plan_compile_constraints request ?inputs ?prog = Some prog1"
    and w1: "within ?n (prog_plan prog1)"
    using compile_constraints_within [of request ?prog ?inputs] w0 small counts(2)
      pushable_limits_length [of request ?inputs] by auto
  note s1 = planner_pushed_stage [OF valid stage0 stage1, unfolded pushed_stage_def Let_def]
  have "\<exists>prog2. planner_order request prog1 = Some prog2"
  proof (cases "plan_order_exact request (request_order request)")
    case True
    then have "\<forall>input\<in>set (request_order request). unat (oin_column input) < ?n"
      by (auto simp: plan_order_exact_def list_all_iff)
    from compile_order_within [OF w1 small this] True show ?thesis
      by (auto simp: planner_order_def)
  qed (simp add: planner_order_def)
  then obtain prog2 where stage2: "planner_order request prog1 = Some prog2" by blast
  have "order_stage request prog1 prog2"
    using s1 small counts by (intro planner_order_stage [OF stage2]) simp_all
  then have "plan_constraints (prog_plan prog2) = plan_outputs request (filter (plan_pushable request) ?inputs) 0"
    using s1 by (simp add: order_stage_def Let_def)
  then have "\<exists>plan3. planner_limits request prog2 = Some plan3"
    unfolding planner_limits_def using pushable_limits_length [of request ?inputs] counts(2)
    by (intro compile_limits_room) (simp split: if_splits)
  then show ?thesis
    using valid stage0 stage1 stage2 by (auto simp: vps_planner_compile_def Let_def)
qed

section \<open>Properties\<close>

lemma compiled_specD:
  assumes "compiled_spec request plan"
  shows "plan_ok plan" "plan_source_fingerprint plan = req_source_fingerprint request"
    "plan_order_terms plan = (if plan_order_exact request (request_order request)
       then map plan_output_term (request_order request) else [])"
    "\<forall>i<unat (req_column_count request). plan_column_used request i \<or> vps_plan_is_key request i \<longrightarrow>
       of_nat i \<in> set (plan_projection plan)"
    "\<forall>term\<in>set (plan_order_terms plan). ord_column term \<in> set (plan_projection plan)"
    "set (plan_outputs request (filter (plan_pushable request) (request_constraints request)) 0)
       \<subseteq> set (plan_constraints plan)"
    "plan_flags plan AND VPS_PLAN_FLAG_LIMIT_CONSUMED \<noteq> 0 \<Longrightarrow> planner_limited request \<noteq> []"
    "plan_flags plan AND VPS_PLAN_FLAG_OFFSET_CONSUMED \<noteq> 0 \<Longrightarrow> planner_limited request \<noteq> []"
  using assms unfolding compiled_spec_def by (elim conjE; (assumption | force))+

lemma plan_outputs_input:
  "c \<in> set (plan_outputs request inputs n) \<Longrightarrow>
     \<exists>input\<in>set inputs. \<exists>m. c = plan_output_constraint request input m"
  by (induction inputs arbitrary: n) auto

lemma plan_outputs_pushed:
  "input \<in> set inputs \<Longrightarrow> \<exists>m. plan_output_constraint request input m \<in> set (plan_outputs request inputs n)"
  by (induction inputs arbitrary: n) auto

text \<open>Where the constraints of a compiled plan come from.\<close>

lemma compiled_constraint_cases:
  assumes "compiled_spec request plan" and "c \<in> set (plan_constraints plan)"
  obtains (pushed) input m where "input \<in> set (request_constraints request)" "plan_pushable request input"
      "c = plan_output_constraint request input m" "ucast (con_column c) \<in> set (plan_projection plan)"
    | (limit) input where "input \<in> set (planner_limited request)" "con_source_index c = pin_source_index input"
      "sint (con_column c) < 0"
proof -
  from assms(1) obtain limits where l: "plan_constraints plan =
          plan_outputs request (filter (plan_pushable request) (request_constraints request)) 0 @ limits"
        "map con_source_index limits = map pin_source_index (planner_limited request)"
        "\<forall>c\<in>set limits. sint (con_column c) < 0"
      and p: "\<forall>input\<in>set (request_constraints request). plan_pushable request input \<longrightarrow>
        ucast (pin_column input) \<in> set (plan_projection plan)"
    unfolding compiled_spec_def by blast
  show thesis
  proof (cases "c \<in> set limits")
    case True
    then have "con_source_index c \<in> pin_source_index ` set (planner_limited request)"
      using arg_cong [OF l(2), of set] by (simp add: image_iff) blast
    with limit l(3) True show thesis by auto
  next
    case False
    with l(1) assms(2)
    have "c \<in> set (plan_outputs request (filter (plan_pushable request) (request_constraints request)) 0)"
      by simp
    from plan_outputs_input [OF this] obtain input m where
      "input \<in> set (request_constraints request)" "plan_pushable request input"
      "c = plan_output_constraint request input m" by auto
    with p pushed [of input m] show thesis by (simp add: plan_output_constraint_def)
  qed
qed

text \<open>A small request: an exact integer key column, an exact identifier column and a text column whose
  comparison is left to SQLite.\<close>

definition example_request :: "unit VpsPlannerRequest" where
  "example_request =
     \<lparr>req_source_fingerprint = 77,
      req_columns = Some [\<lparr>pcol_type_oid = 20, pcol_capabilities = 7\<rparr>,
        \<lparr>pcol_type_oid = 2950, pcol_capabilities = 5\<rparr>, \<lparr>pcol_type_oid = 25, pcol_capabilities = 0\<rparr>],
      req_column_count = 3, req_columns_used = 4,
      req_constraints = Some [
        \<lparr>pin_column = 1, pin_operation = VPS_PLAN_OP_EQ, pin_value_class = VPS_PLAN_VALUE_TEXT,
         pin_source_index = 0, pin_usable = True, pin_is_in = False, pin_null_safe = False\<rparr>,
        \<lparr>pin_column = - 1, pin_operation = VPS_PLAN_OP_LIMIT, pin_value_class = VPS_PLAN_VALUE_INTEGER,
         pin_source_index = 1, pin_usable = True, pin_is_in = False, pin_null_safe = False\<rparr>],
      req_constraint_count = 2,
      req_order_terms = Some [\<lparr>oin_column = 0, oin_descending = True\<rparr>], req_order_count = 1,
      req_key_columns = Some [0], req_key_column_count = 1,
      req_estimated_base_rows = 0, req_relation_pages = 0, req_query_index_prefix = 0,
      req_query_index_ordinal = 0, req_logger = None\<rparr>"

lemmas planner_eval =
  vps_planner_compile_def planner_arguments_valid_def planner_projection_def plan_column_used_def
  vps_plan_is_key_def vps_plan_add_projection_def empty_plan_def request_constraints_def
  plan_input_exact_def plan_input_column_def plan_input_operation_def vps_plan_value_exact_def
  plan_push_constraint_def plan_output_constraint_def plan_takes_argument_def plan_arguments_after_def
  plan_input_flags_def plan_operator_code_def plan_value_class_code_def planner_order_def
  plan_order_exact_def request_order_def planner_limits_def plan_estimate_def vps_plan_min_u64_def
  vps_plan_log_def upt_rec

lemma example_compiles:
  "\<exists>plan logger. vps_planner_compile (Some example_request) = (VPS_PLANNER_OK, Some plan, logger)"
  by (rule planner_compile_succeeds) (simp_all add: planner_arguments_valid_def example_request_def)

lemma example_plan:
  "vps_planner_compile (Some example_request) = (VPS_PLANNER_OK, Some plan, logger) \<Longrightarrow>
     plan_projection plan = [0, 2, 1] \<and> plan_flags plan = 9 \<and>
     map con_flags (plan_constraints plan) = [1, 1]"
  by (simp add: planner_eval example_request_def) auto





text \<open>C24. When a plan consumes \<open>LIMIT\<close> or \<open>OFFSET\<close>, no row the server returns can be dropped afterwards by a
  check on a constraint the compiler looked at: every relevant constraint is exact, is in the plan and is
  marked as not to be rechecked, and every order term is in the plan.\<close>

theorem planner_limit_pushdown_safe:
  assumes run: "vps_planner_compile (Some request) = (VPS_PLANNER_OK, Some plan, logger)"
    and limit: "plan_flags plan AND VPS_PLAN_FLAG_LIMIT_CONSUMED \<noteq> 0 \<or>
      plan_flags plan AND VPS_PLAN_FLAG_OFFSET_CONSUMED \<noteq> 0"
    and input: "input \<in> set (request_constraints request)" "plan_relevant request input"
  shows "plan_input_exact request input \<and>
    (\<exists>c\<in>set (plan_constraints plan). con_source_index c = pin_source_index input \<and>
       con_flags c AND VPS_PLAN_CONSTRAINT_RECHECK = 0) \<and>
    length (plan_order_terms plan) = unat (req_order_count request)"
proof -
  note spec = planner_compile_spec [OF run]
  have "planner_limited request \<noteq> []" using limit compiled_specD(7,8) [OF spec] by blast
  then have no: "\<not> planner_recheck request" by (auto simp: planner_limited_def)
  then have exact: "plan_input_exact request input" "\<not> pin_is_in input"
    and order: "plan_order_exact request (request_order request)"
    using input by (auto simp: planner_recheck_def)
  have "input \<in> set (filter (plan_pushable request) (request_constraints request))"
    using input exact by (simp add: plan_pushable_def)
  from plan_outputs_pushed [OF this, of request 0] obtain m where
    "plan_output_constraint request input m \<in> set (plan_constraints plan)"
    using compiled_specD(6) [OF spec] by blast
  moreover have "con_flags (plan_output_constraint request input m) AND VPS_PLAN_CONSTRAINT_RECHECK = 0"
    using exact(2) plan_input_flags_bits(2) [of request input] by (simp add: plan_output_constraint_def)
  ultimately have "\<exists>c\<in>set (plan_constraints plan). con_source_index c = pin_source_index input \<and>
       con_flags c AND VPS_PLAN_CONSTRAINT_RECHECK = 0"
    by (intro bexI [of _ "plan_output_constraint request input m"]) (simp_all add: plan_output_constraint_def)
  then show ?thesis
    using exact(1) order compiled_specD(3) [OF spec] by (simp add: request_order_def)
qed


theorem planner_limit_pushdown_safe_witness:
  "case vps_planner_compile (Some example_request) of
     (_, Some plan, _) \<Rightarrow> plan_flags plan AND VPS_PLAN_FLAG_LIMIT_CONSUMED \<noteq> 0 \<and>
       length (plan_order_terms plan) = unat (req_order_count example_request)
   | _ \<Rightarrow> False"
proof -
  obtain plan logger where run: "vps_planner_compile (Some example_request) = (VPS_PLANNER_OK, Some plan, logger)"
    using example_compiles by blast
  have limit: "plan_flags plan AND VPS_PLAN_FLAG_LIMIT_CONSUMED \<noteq> 0"
    using example_plan [OF run] by simp
  have "hd (request_constraints example_request) \<in> set (request_constraints example_request)"
    "plan_relevant example_request (hd (request_constraints example_request))"
    by (simp_all add: example_request_def request_constraints_def plan_relevant_def upt_rec)
  from planner_limit_pushdown_safe [OF run disjI1 [OF limit] this] run limit show ?thesis by simp
qed

section \<open>Where the code departs from its description\<close>

text \<open>The query fingerprint is a text field of the log, and the compiler adds it as a number: the field is
  refused, the compiler gives up on the event, and no compilation is ever logged.\<close>

lemma planner_never_logs:
  assumes "vps_planner_compile (Some request) = (result, plan, logger)"
  shows "logger = req_logger request"
proof -
  have "vps_plan_log request plan' = req_logger request" for plan'
    using log_add_strict_refused [of VPS_LOG_FIELD_QUERY_FINGERPRINT]
    by (auto simp: vps_plan_log_def log_emit_strict_def vps_log_field_requires_uint64_def
        simp del: log_add_strict.simps split: prod.splits option.splits)
  with assms show ?thesis
    by (auto simp: vps_planner_compile_def Let_def split: if_splits option.splits)
qed

text \<open>A relation with exactly as many columns as a plan can project: when all of them are read, the test for a
  full projection comes before the search for the column, so that a constraint on a column that is already
  projected is refused and the compilation fails.\<close>

lemma compile_constraints_full:
  "VPS_PLAN_MAX_COLUMNS \<le> length (plan_projection (prog_plan prog)) \<Longrightarrow> input \<in> set inputs \<Longrightarrow>
   plan_pushable request input \<Longrightarrow> plan_compile_constraints request inputs prog = None"
proof (induction inputs arbitrary: prog)
  case (Cons first rest)
  then have "plan_push_constraint request first prog = None"
    by (simp add: plan_push_constraint_def vps_plan_add_projection_def)
  with Cons show ?case
    by (auto simp: compile_constraints_Cons plan_pushable_def simp del: plan_compile_constraints.simps)
qed simp

lemma planner_full_width_fails:
  assumes "planner_arguments_valid request" and width: "unat (req_column_count request) = VPS_PLAN_MAX_COLUMNS"
    and used: "req_columns_used request = UINT64_MAX"
    and input: "input \<in> set (request_constraints request)" "plan_pushable request input"
  shows "fst (vps_planner_compile (Some request)) = VPS_PLANNER_LIMIT_EXCEEDED"
proof (cases "planner_projection request")
  case None
  with assms(1) show ?thesis by (simp add: vps_planner_compile_def)
next
  case (Some plan0)
  have "plan_column_used request i" for i
    using used by (simp add: plan_column_used_def exp_eq_zero_iff)
  with planner_projection_Some [OF Some] width have
    "of_nat ` {..<1024} \<subseteq> set (plan_projection plan0)" by (auto simp: projects_def)
  moreover have "inj_on (of_nat :: nat \<Rightarrow> u16) {..<1024}"
    by (rule inj_on_inverseI [of _ unat]) simp
  ultimately have "1024 \<le> card (set (plan_projection plan0))"
    by (metis card_image card_lessThan card_mono List.finite_set)
  then have "1024 \<le> length (plan_projection plan0)" using card_length le_trans by blast
  with Some assms(1) input show ?thesis
    by (simp add: vps_planner_compile_def compile_constraints_full [OF _ input])
qed

text \<open>The count of exact key parts counts constraints, not columns: with a key of two columns, two equalities
  on the first of them make the plan unique although the second one is free.\<close>

definition duplicate_key_request :: "unit VpsPlannerRequest" where
  "duplicate_key_request =
     (let equality = \<lparr>pin_column = 0, pin_operation = VPS_PLAN_OP_EQ, pin_value_class = VPS_PLAN_VALUE_INTEGER,
            pin_source_index = 0, pin_usable = True, pin_is_in = False, pin_null_safe = False\<rparr>
      in example_request\<lparr>req_key_columns := Some [0, 1], req_key_column_count := 2,
           req_constraints := Some [equality, equality\<lparr>pin_source_index := 1\<rparr>]\<rparr>)"

lemma planner_unique_without_full_key:
  "\<exists>plan logger. vps_planner_compile (Some duplicate_key_request) = (VPS_PLANNER_OK, Some plan, logger) \<and>
     plan_flags plan AND VPS_PLAN_FLAG_UNIQUE \<noteq> 0 \<and> plan_estimated_rows plan = 1 \<and>
     (\<forall>c\<in>set (plan_constraints plan). con_column c = 0)"
proof -
  have "\<exists>plan logger. vps_planner_compile (Some duplicate_key_request) = (VPS_PLANNER_OK, Some plan, logger)"
    by (rule planner_compile_succeeds)
      (simp_all add: planner_arguments_valid_def duplicate_key_request_def example_request_def Let_def)
  moreover have "plan_flags plan AND VPS_PLAN_FLAG_UNIQUE \<noteq> 0 \<and> plan_estimated_rows plan = 1 \<and>
      (\<forall>c\<in>set (plan_constraints plan). con_column c = 0)"
    if "vps_planner_compile (Some duplicate_key_request) = (VPS_PLANNER_OK, Some plan, logger)" for plan logger
    using that by (simp add: planner_eval duplicate_key_request_def example_request_def Let_def) auto
  ultimately show ?thesis by blast
qed

end
