(* ===== verification/Vps_Bytes.thy ===== *)
theory Vps_Bytes
  imports Vps_Memory
begin

text \<open>
  Bytes on the wire: numbers in little-endian and big-endian order, and chains of appends to a buffer. The
  encoders of plans and row tokens and the builders of SQL text share these lemmas.
\<close>

section \<open>Little-endian numbers\<close>

definition le_bytes :: "nat \<Rightarrow> 'a::len word \<Rightarrow> u8 list" where
  "le_bytes k number = map (\<lambda>index. ucast (drop_bit (index * 8) number AND 0xff)) [0..<k]"

definition le_value :: "nat \<Rightarrow> u8 list \<Rightarrow> nat \<Rightarrow> 'a::len word" where
  "le_value k wire offset =
     fold (\<lambda>index number. number OR push_bit (index * 8) (ucast (wire ! (offset + index)))) [0..<k] 0"

lemma length_le_bytes [simp]: "length (le_bytes k v) = k"
  by (simp add: le_bytes_def)

lemma bit_le_bytes:
  fixes v :: "'a::len word"
  assumes "i < k" shows "bit (le_bytes k v ! i) j \<longleftrightarrow> j < 8 \<and> bit v (i * 8 + j)"
proof -
  have m: "(255 :: 'a word) = mask 8" by (simp add: mask_eq_exp_minus_1)
  have "bit (ucast (drop_bit (i * 8) v AND 0xff) :: u8) j \<longleftrightarrow> j < 8 \<and> bit v (i * 8 + j)"
    unfolding m by (auto simp: bit_simps dest: bit_imp_le_length)
  with assms show ?thesis by (simp add: le_bytes_def)
qed

lemma bit_le_value:
  "bit (le_value k wire offset :: 'a::len word) n \<longleftrightarrow>
     n < LENGTH('a) \<and> n div 8 < k \<and> bit (wire ! (offset + n div 8)) (n mod 8)"
proof (induction k)
  case (Suc k)
  have "(k * 8 \<le> n \<and> n < LENGTH('a) \<and> bit (wire ! (offset + k)) (n - k * 8)) \<longleftrightarrow>
      n < LENGTH('a) \<and> n div 8 = k \<and> bit (wire ! (offset + n div 8)) (n mod 8)"
  proof -
    have "n - k * 8 < 8" if "bit (wire ! (offset + k)) (n - k * 8)"
      using bit_imp_le_length [OF that] by simp
    moreover have "n div 8 = k \<and> n mod 8 = n - k * 8" if "k * 8 \<le> n" "n - k * 8 < 8"
    proof -
      from that(1) obtain m where "n = k * 8 + m" using le_Suc_ex by blast
      with that(2) show ?thesis by simp
    qed
    ultimately show ?thesis by (metis div_times_less_eq_dividend minus_div_mult_eq_mod)
  qed
  moreover have "bit (le_value (Suc k) wire offset :: 'a word) n \<longleftrightarrow>
      bit (le_value k wire offset :: 'a word) n \<or>
      (k * 8 \<le> n \<and> n < LENGTH('a) \<and> bit (wire ! (offset + k)) (n - k * 8))"
    by (auto simp: le_value_def bit_or_iff bit_push_bit_iff bit_unsigned_iff)
  ultimately show ?case using Suc by (auto simp: less_Suc_eq)
qed (simp add: le_value_def)

lemma le_value_iff:
  fixes v :: "'a::len word"
  assumes k: "LENGTH('a) = 8 * k" and room: "offset + k \<le> length wire"
  shows "le_value k wire offset = v \<longleftrightarrow> take k (drop offset wire) = le_bytes k v"
proof -
  have at: "take k (drop offset wire) ! i = wire ! (offset + i)" if "i < k" for i
    using that room by simp
  have "le_value k wire offset = v \<longleftrightarrow>
      (\<forall>n<LENGTH('a). bit (wire ! (offset + n div 8)) (n mod 8) = bit v n)"
    unfolding bit_eq_iff using k by (auto simp: bit_le_value less_mult_imp_div_less dest: bit_imp_le_length)
  also have "\<dots> \<longleftrightarrow> (\<forall>i<k. \<forall>j<8. bit (wire ! (offset + i)) j = bit v (i * 8 + j))"
  proof (rule iffI; intro allI impI)
    fix i j :: nat
    assume h: "\<forall>n<LENGTH('a). bit (wire ! (offset + n div 8)) (n mod 8) = bit v n" "i < k" "j < 8"
    then have "i * 8 + j < LENGTH('a)" using k by simp
    with h show "bit (wire ! (offset + i)) j = bit v (i * 8 + j)"
      using spec [OF h(1), of "i * 8 + j"] by simp
  next
    fix n assume h: "\<forall>i<k. \<forall>j<8. bit (wire ! (offset + i)) j = bit v (i * 8 + j)" "n < LENGTH('a)"
    then have "n div 8 < k" using k by (simp add: less_mult_imp_div_less)
    with h(1) show "bit (wire ! (offset + n div 8)) (n mod 8) = bit v n"
      by (metis div_mod_decomp mod_less_divisor zero_less_numeral)
  qed
  also have "\<dots> \<longleftrightarrow> (\<forall>i<k. wire ! (offset + i) = le_bytes k v ! i)"
    by (auto simp: bit_eq_iff bit_le_bytes dest: bit_imp_le_length)
  also have "\<dots> \<longleftrightarrow> take k (drop offset wire) = le_bytes k v"
    using room at by (auto simp: list_eq_iff_nth_eq)
  finally show ?thesis .
qed

section \<open>Big-endian numbers\<close>

definition be_bytes :: "nat \<Rightarrow> 'a::len word \<Rightarrow> u8 list" where
  "be_bytes k number = map (\<lambda>index. ucast (drop_bit ((k - 1 - index) * 8) number)) [0..<k]"

definition be_value :: "nat \<Rightarrow> u8 list \<Rightarrow> nat \<Rightarrow> 'a::len word" where
  "be_value k wire offset =
     fold (\<lambda>index number. push_bit 8 number OR ucast (wire ! (offset + index))) [0..<k] 0"

lemma length_be_bytes [simp]: "length (be_bytes k v) = k"
  by (simp add: be_bytes_def)

lemma be_bytes_rev: "be_bytes k v = rev (le_bytes k v)"
proof (rule nth_equalityI)
  fix i assume "i < length (be_bytes k v)"
  then have i: "i < k" by simp
  have "bit (ucast (drop_bit ((k - 1 - i) * 8) v) :: u8) j = bit (le_bytes k v ! (k - 1 - i)) j" for j
    using i by (auto simp: bit_le_bytes bit_simps dest: bit_imp_le_length)
  then show "be_bytes k v ! i = rev (le_bytes k v) ! i"
    using i by (simp add: be_bytes_def rev_nth bit_eq_iff)
qed simp

lemma bit_be_value:
  "bit (be_value k wire offset :: 'a::len word) n \<longleftrightarrow>
     n < LENGTH('a) \<and> n div 8 < k \<and> bit (wire ! (offset + (k - 1 - n div 8))) (n mod 8)"
proof (induction k arbitrary: n)
  case (Suc k)
  show ?case
  proof (cases "n < 8")
    case True
    then show ?thesis by (auto simp: be_value_def bit_simps)
  next
    case False
    then obtain m where n: "n = 8 + m" using le_Suc_ex not_less by blast
    then have "n div 8 = Suc ((n - 8) div 8)" "n mod 8 = (n - 8) mod 8" by simp_all
    then show ?thesis
      using False Suc [of "n - 8"]
      by (auto simp: be_value_def bit_simps dest: bit_imp_le_length)
  qed
qed (simp add: be_value_def)

lemma be_value_le: "offset + k \<le> length wire \<Longrightarrow> be_value k wire offset = le_value k (rev (take k (drop offset wire))) 0"
  by (rule bit_eqI) (auto simp: bit_be_value bit_le_value rev_nth)

lemma be_value_iff:
  fixes v :: "'a::len word"
  assumes "LENGTH('a) = 8 * k" and "offset + k \<le> length wire"
  shows "be_value k wire offset = v \<longleftrightarrow> take k (drop offset wire) = be_bytes k v"
  using assms le_value_iff [of k 0 "rev (take k (drop offset wire))" v]
  by (auto simp: be_value_le be_bytes_rev rev_swap)

section \<open>Chains of appends\<close>

text \<open>Appends that are joined by \<open>||\<close> on failure: the first one that fails ends the chain.\<close>

fun buffer_appends ::
    "u8 list list \<Rightarrow> 'w VpsBuffer \<Rightarrow> 'w \<Rightarrow> VpsMemoryResult \<times> 'w VpsBuffer \<times> 'w" where
  "buffer_appends [] buffer w = (VPS_MEMORY_OK, buffer, w)"
| "buffer_appends (part # parts) buffer w =
     (case vps_buffer_append buffer (Some part) (of_nat (length part)) w of
        (result, buffer', w') \<Rightarrow>
          if result \<noteq> VPS_MEMORY_OK then (result, buffer', w') else buffer_appends parts buffer' w')"

lemma buffer_appends_append:
  "buffer_appends (parts @ parts') buffer w =
     (case buffer_appends parts buffer w of
        (result, buffer', w') \<Rightarrow>
          if result \<noteq> VPS_MEMORY_OK then (result, buffer', w') else buffer_appends parts' buffer' w')"
  by (induction parts arbitrary: buffer w) (simp_all split: prod.splits)

text \<open>A buffer that belongs to an allocator and whose block is live, and what a sequence of operations on one buffer
  may do: keep that, keep the limit, and exchange the block of the buffer.\<close>

definition buffer_in ::
    "'w VpsAllocator \<Rightarrow> ('w \<Rightarrow> bool) \<Rightarrow> ('w \<Rightarrow> nat multiset) \<Rightarrow> 'w VpsBuffer \<Rightarrow> 'w \<Rightarrow> bool" where
  "buffer_in A iv live b w \<longleftrightarrow> iv w \<and> buf_allocator b = A \<and> buffer_ok b \<and> buffer_blocks b \<subseteq># live w"

definition buffer_step ::
    "'w VpsAllocator \<Rightarrow> ('w \<Rightarrow> bool) \<Rightarrow> ('w \<Rightarrow> nat multiset) \<Rightarrow> 'w VpsBuffer \<times> 'w \<Rightarrow> 'w VpsBuffer \<times> 'w \<Rightarrow> bool" where
  "buffer_step A iv live s s' \<longleftrightarrow>
     buffer_in A iv live (fst s') (snd s') \<and> buf_limit (fst s') = buf_limit (fst s) \<and>
     live (snd s') = live (snd s) - buffer_blocks (fst s) + buffer_blocks (fst s')"

lemma buffer_step_refl: "buffer_in A iv live b w \<Longrightarrow> buffer_step A iv live (b, w) (b, w)"
  by (simp add: buffer_step_def buffer_in_def)

lemma buffer_step_in: "buffer_step A iv live s (b, w) \<Longrightarrow> buffer_in A iv live b w"
  by (simp add: buffer_step_def)

lemma buffer_step_trans:
  "buffer_step A iv live s s' \<Longrightarrow> buffer_step A iv live s' s'' \<Longrightarrow> buffer_step A iv live s s''"
  by (simp add: buffer_step_def)

context allocator_contract
begin

lemma append_step:
  assumes "buffer_in A inv live b w" and "vps_buffer_append b (Some src) n w = (r, b', w')" and "unat n \<le> length src"
  shows "buffer_step A inv live (b, w) (b', w')"
    and "r = VPS_MEMORY_OK \<Longrightarrow> buffer_contents b' = buffer_contents b @ take (unat n) src"
proof -
  have "inv w" "buf_allocator b = A" "buffer_ok b" "buffer_blocks b \<subseteq># live w"
    using assms(1) by (simp_all add: buffer_in_def)
  note a = buffer_append [OF this assms(2,3)]
  then have l: "live w' = live w - buffer_blocks b + buffer_blocks b'" by blast
  then have "buffer_blocks b' \<subseteq># live w'" by (simp only: mset_subset_eq_add_right)
  with a l show "buffer_step A inv live (b, w) (b', w')" unfolding buffer_step_def buffer_in_def fst_conv snd_conv by blast
  show "r = VPS_MEMORY_OK \<Longrightarrow> buffer_contents b' = buffer_contents b @ take (unat n) src" using a by simp
qed

lemma appends_step:
  assumes "buffer_in A inv live b w" and "buffer_appends parts b w = (r, b', w')"
    and "\<forall>part\<in>set parts. length part < 2 ^ 64"
  shows "buffer_step A inv live (b, w) (b', w')"
    and "r = VPS_MEMORY_OK \<Longrightarrow> buffer_contents b' = buffer_contents b @ concat parts"
proof -
  have "buffer_step A inv live (b, w) (b', w') \<and>
      (r = VPS_MEMORY_OK \<longrightarrow> buffer_contents b' = buffer_contents b @ concat parts)"
    using assms
  proof (induction parts arbitrary: b w)
    case Nil
    then show ?case by (auto intro: buffer_step_refl)
  next
    case (Cons part parts)
    obtain r1 b1 w1 where app: "vps_buffer_append b (Some part) (of_nat (length part)) w = (r1, b1, w1)"
      by (metis prod_cases3)
    have len: "unat (of_nat (length part) :: size_t) = length part" using Cons.prems(3) by (intro unat_small_nat) simp
    note a = append_step [OF Cons.prems(1) app, unfolded len, simplified]
    show ?case
    proof (cases "r1 = VPS_MEMORY_OK")
      case True
      then have run: "buffer_appends parts b1 w1 = (r, b', w')" using Cons.prems(2) app by simp
      from Cons.IH [OF buffer_step_in [OF a(1)] run] Cons.prems(3) a True show ?thesis
        by (auto intro: buffer_step_trans)
    next
      case False
      then show ?thesis using Cons.prems(2) app a(1) by auto
    qed
  qed
  then show "buffer_step A inv live (b, w) (b', w')"
    "r = VPS_MEMORY_OK \<Longrightarrow> buffer_contents b' = buffer_contents b @ concat parts" by blast+
qed

lemma reset_step:
  assumes "buffer_in A inv live b w" and "vps_buffer_reset b w = (b', w')"
  shows "buffer_in A inv live b' w' \<and> buffer_contents b' = [] \<and> buffer_blocks b' = {#} \<and>
    live w' = live w - buffer_blocks b \<and> buf_limit b' = buf_limit b"
  using buffer_reset [OF _ _ assms(2)] assms(1) by (auto simp: buffer_in_def)

end

text \<open>With a heap that serves every request only the limit of the buffer can stop an append.\<close>

lemma append_served:
  assumes "buf_allocator b = system_allocator" "buffer_ok b" "\<And>n. heap_oracle h n"
    and "unat (buf_size b) + length part \<le> unat (buf_limit b)"
    and run: "vps_buffer_append b (Some part) (of_nat (length part)) h = (r, b', h')"
  shows "r = VPS_MEMORY_OK \<and> heap_oracle h' = heap_oracle h \<and> buf_size b' = buf_size b + of_nat (length part) \<and>
    unat (buf_size b') = unat (buf_size b) + length part"
proof -
  have small: "unat (buf_size b) + length part < 2 ^ 64"
    using assms(4) unsigned_less [of "buf_limit b", where ?'a = nat] by simp
  then have len: "unat (of_nat (length part) :: size_t) = length part" by (intro unat_small_nat) simp
  have wrap: "\<not> of_nat (length part) > SIZE_MAX - buf_size b"
    using small len by (simp add: not_less no_wrap_iff)
  then have add: "unat (buf_size b + of_nat (length part)) = unat (buf_size b) + length part"
    using unat_add_no_wrap [of "of_nat (length part)" "buf_size b"] len by simp
  then have limit: "\<not> buf_size b + of_nat (length part) > buf_limit b"
    using assms(4) by (simp add: not_less word_le_nat_alt)
  show ?thesis
    using run assms(1,3) wrap limit add system.valid
    by (auto simp: vps_buffer_append_def vps_size_add_def vps_buffer_reserve_def vps_memory_reallocate_def
        vps_memory_allocate_def call_allocate_def call_reallocate_def vps_system_allocate_def
        vps_system_reallocate_def c_malloc_def c_realloc_def Let_def split: if_splits option.splits prod.splits)
qed

lemma appends_served:
  assumes "buf_allocator b = system_allocator" "buffer_ok b" "buffer_blocks b \<subseteq># heap_live h"
    and "\<And>n. heap_oracle h n" and "unat (buf_size b) + length (concat parts) \<le> unat (buf_limit b)"
  shows "fst (buffer_appends parts b h) = VPS_MEMORY_OK"
  using assms
proof (induction parts arbitrary: b h)
  case (Cons part parts)
  obtain r1 b1 h1 where app: "vps_buffer_append b (Some part) (of_nat (length part)) h = (r1, b1, h1)"
    by (metis prod_cases3)
  have fits: "unat (buf_size b) + length part \<le> unat (buf_limit b)" using Cons.prems(5) by simp
  note served = append_served [OF Cons.prems(1,2,4) fits app]
  have "unat (of_nat (length part) :: size_t) = length part"
    using fits unsigned_less [of "buf_limit b", where ?'a = nat] by (intro unat_small_nat) simp
  with system.buffer_append [OF TrueI Cons.prems(1-3) app] served
  have b1: "buffer_ok b1" "buf_allocator b1 = system_allocator" "buf_limit b1 = buf_limit b"
      "buffer_blocks b1 \<subseteq># heap_live h1" by auto
  have "fst (buffer_appends parts b1 h1) = VPS_MEMORY_OK"
    using b1 served Cons.prems(4,5) by (intro Cons.IH) auto
  then show ?case using app served by simp
qed simp

lemma take_drop_split:
  "length bytes = a \<Longrightarrow> offset + a \<le> length wire \<Longrightarrow>
     take (a + b) (drop offset wire) = bytes @ rest \<longleftrightarrow>
       take a (drop offset wire) = bytes \<and> take b (drop (offset + a) wire) = rest"
  by (simp add: take_add add.commute)

end
