(* ===== verification/Vps_Plan_Wire.thy ===== *)
theory Vps_Plan_Wire
  imports Vps_Planner Vps_Bytes
begin

text \<open>
  The printable form of a compiled plan, \<open>vps_plan_encode\<close> and \<open>vps_plan_decode\<close> of
  \<open>src/src/vps_planner.c\<close>: a little-endian binary image of the plan, written as hexadecimal digits. It
  travels from \<open>xBestIndex\<close> to \<open>xFilter\<close> through SQLite as the index string.

  The wire image is the list of its bytes; a position in it is a natural number. The loops over the arrays
  of a plan are recursions over the lists. A decoder gives a plan only when it accepts.
\<close>

section \<open>Bytes\<close>

abbreviation (input) VPS_PLAN_WIRE_MAGIC :: u32 where "VPS_PLAN_WIRE_MAGIC \<equiv> 0x31535056"
abbreviation (input) VPS_PLAN_WIRE_HEADER_BYTES :: nat where "VPS_PLAN_WIRE_HEADER_BYTES \<equiv> 48"
abbreviation (input) VPS_PLAN_WIRE_CONSTRAINT_BYTES :: nat where "VPS_PLAN_WIRE_CONSTRAINT_BYTES \<equiv> 16"
abbreviation (input) VPS_PLAN_WIRE_ORDER_BYTES :: nat where "VPS_PLAN_WIRE_ORDER_BYTES \<equiv> 4"
abbreviation (input) VPS_PLAN_MAX_ENCODED_BYTES :: size_t where "VPS_PLAN_MAX_ENCODED_BYTES \<equiv> 65536"

definition VPS_PLAN_MAX_WIRE_BYTES :: nat where
  "VPS_PLAN_MAX_WIRE_BYTES =
     VPS_PLAN_WIRE_HEADER_BYTES + VPS_PLAN_MAX_COLUMNS * 2 +
     VPS_PLAN_MAX_CONSTRAINTS * VPS_PLAN_WIRE_CONSTRAINT_BYTES +
     VPS_PLAN_MAX_ORDER_TERMS * VPS_PLAN_WIRE_ORDER_BYTES"

definition VPS_PLAN_MAX_ACTUAL_ENCODED_BYTES :: nat where
  "VPS_PLAN_MAX_ACTUAL_ENCODED_BYTES = VPS_PLAN_MAX_WIRE_BYTES * 2"

definition vps_plan_put_u16 :: "u8 list \<Rightarrow> nat \<Rightarrow> u16 \<Rightarrow> u8 list" where
  "vps_plan_put_u16 wire offset number =
     mem_write wire offset [ucast (number AND 0xff), ucast (drop_bit 8 number AND 0xff)]"

definition vps_plan_put_u32 :: "u8 list \<Rightarrow> nat \<Rightarrow> u32 \<Rightarrow> u8 list" where
  "vps_plan_put_u32 wire offset number =
     mem_write wire offset (map (\<lambda>index. ucast (drop_bit (index * 8) number AND 0xff)) [0..<4])"

definition vps_plan_put_u64 :: "u8 list \<Rightarrow> nat \<Rightarrow> u64 \<Rightarrow> u8 list" where
  "vps_plan_put_u64 wire offset number =
     mem_write wire offset (map (\<lambda>index. ucast (drop_bit (index * 8) number AND 0xff)) [0..<8])"

definition vps_plan_get_u16 :: "u8 list \<Rightarrow> nat \<Rightarrow> u16" where
  "vps_plan_get_u16 wire offset = ucast (wire ! offset) OR push_bit 8 (ucast (wire ! (offset + 1)))"

definition vps_plan_get_u32 :: "u8 list \<Rightarrow> nat \<Rightarrow> u32" where
  "vps_plan_get_u32 wire offset =
     fold (\<lambda>index number. number OR push_bit (index * 8) (ucast (wire ! (offset + index)))) [0..<4] 0"

definition vps_plan_get_u64 :: "u8 list \<Rightarrow> nat \<Rightarrow> u64" where
  "vps_plan_get_u64 wire offset =
     fold (\<lambda>index number. number OR push_bit (index * 8) (ucast (wire ! (offset + index)))) [0..<8] 0"

definition vps_plan_hex_digit :: "u8 \<Rightarrow> u8" where
  "vps_plan_hex_digit number = char_byte (''0123456789abcdef'' ! unat (number AND 15))"

definition vps_plan_hex_value :: "char \<Rightarrow> u8 option" where
  "vps_plan_hex_value c =
     (if char_between (CHR ''0'') (CHR ''9'') c then Some (char_byte c - char_byte (CHR ''0''))
      else if char_between (CHR ''a'') (CHR ''f'') c then Some (char_byte c - char_byte (CHR ''a'') + 10)
      else if char_between (CHR ''A'') (CHR ''F'') c then Some (char_byte c - char_byte (CHR ''A'') + 10)
      else None)"

section \<open>The encoder\<close>

definition plan_wire_size :: "nat \<Rightarrow> nat \<Rightarrow> nat \<Rightarrow> nat" where
  "plan_wire_size projection_count constraint_count order_count =
     VPS_PLAN_WIRE_HEADER_BYTES + projection_count * 2 +
     constraint_count * VPS_PLAN_WIRE_CONSTRAINT_BYTES + order_count * VPS_PLAN_WIRE_ORDER_BYTES"

definition plan_put_header :: "VpsCompiledPlan \<Rightarrow> u8 list \<Rightarrow> u8 list" where
  "plan_put_header plan wire0 =
     (let wire = vps_plan_put_u32 wire0 0 VPS_PLAN_WIRE_MAGIC;
          wire = vps_plan_put_u32 wire 4 (plan_version plan);
          wire = vps_plan_put_u32 wire 8 (plan_flags plan);
          wire = vps_plan_put_u64 wire 12 (plan_source_fingerprint plan);
          wire = vps_plan_put_u64 wire 20 (plan_estimated_rows plan);
          wire = vps_plan_put_u64 wire 28 (plan_estimated_cost_milli plan);
          wire = vps_plan_put_u16 wire 36 (of_nat (length (plan_projection plan)));
          wire = vps_plan_put_u16 wire 38 (of_nat (length (plan_constraints plan)));
          wire = vps_plan_put_u16 wire 40 (of_nat (length (plan_order_terms plan)));
          wire = vps_plan_put_u16 wire 42 (plan_argument_count plan);
          wire = vps_plan_put_u16 wire 44 (plan_selected_index_prefix plan)
      in vps_plan_put_u16 wire 46 (plan_selected_index_ordinal plan))"

fun plan_put_projection :: "u16 list \<Rightarrow> nat \<Rightarrow> u8 list \<Rightarrow> u8 list" where
  "plan_put_projection [] offset wire = wire"
| "plan_put_projection (column # rest) offset wire =
     plan_put_projection rest (offset + 2) (vps_plan_put_u16 wire offset column)"

definition plan_put_constraint :: "VpsPlanConstraint \<Rightarrow> nat \<Rightarrow> u8 list \<Rightarrow> u8 list" where
  "plan_put_constraint item offset wire0 =
     (let wire = vps_plan_put_u32 wire0 offset (con_column item);
          wire = vps_plan_put_u32 wire (offset + 4) (con_type_oid item);
          wire = vps_plan_put_u16 wire (offset + 8) (con_source_index item);
          wire = vps_plan_put_u16 wire (offset + 10) (con_argument_index item);
          wire = vps_plan_put_u16 wire (offset + 12) (con_flags item);
          wire = wire[offset + 14 := con_operation item]
      in wire[offset + 15 := con_value_class item])"

fun plan_put_constraints :: "VpsPlanConstraint list \<Rightarrow> nat \<Rightarrow> u8 list \<Rightarrow> u8 list" where
  "plan_put_constraints [] offset wire = wire"
| "plan_put_constraints (item # rest) offset wire =
     plan_put_constraints rest (offset + VPS_PLAN_WIRE_CONSTRAINT_BYTES)
       (plan_put_constraint item offset wire)"

fun plan_put_order :: "VpsPlanOrderTerm list \<Rightarrow> nat \<Rightarrow> u8 list \<Rightarrow> u8 list" where
  "plan_put_order [] offset wire = wire"
| "plan_put_order (item # rest) offset wire =
     plan_put_order rest (offset + VPS_PLAN_WIRE_ORDER_BYTES)
       ((vps_plan_put_u16 wire offset (ord_column item))
          [offset + 2 := ord_descending item, offset + 3 := ord_nulls_first item])"

definition plan_wire :: "VpsCompiledPlan \<Rightarrow> u8 list" where
  "plan_wire plan =
     (let wire_size = plan_wire_size (length (plan_projection plan)) (length (plan_constraints plan))
                        (length (plan_order_terms plan));
          wire = plan_put_header plan (replicate wire_size 0);
          offset = VPS_PLAN_WIRE_HEADER_BYTES;
          wire = plan_put_projection (plan_projection plan) offset wire;
          offset = offset + 2 * length (plan_projection plan);
          wire = plan_put_constraints (plan_constraints plan) offset wire;
          offset = offset + VPS_PLAN_WIRE_CONSTRAINT_BYTES * length (plan_constraints plan)
      in plan_put_order (plan_order_terms plan) offset wire)"

fun plan_append_hex ::
    "u8 list \<Rightarrow> 'w VpsBuffer \<Rightarrow> 'w \<Rightarrow> VpsPlannerResult \<times> 'w VpsBuffer \<times> 'w" where
  "plan_append_hex [] encoded w = (VPS_PLANNER_OK, encoded, w)"
| "plan_append_hex (byte # wire) encoded w =
     (case vps_buffer_append encoded
             (Some [vps_plan_hex_digit (drop_bit 4 byte), vps_plan_hex_digit byte]) 2 w of
        (result, encoded', w') \<Rightarrow>
          if result \<noteq> VPS_MEMORY_OK
          then (case vps_buffer_reset encoded' w' of
                  (encoded'', w'') \<Rightarrow> (VPS_PLANNER_OUT_OF_MEMORY, encoded'', w''))
          else plan_append_hex wire encoded' w')"

definition vps_plan_encode ::
    "VpsCompiledPlan option \<Rightarrow> 'w VpsAllocator option \<Rightarrow> 'w \<Rightarrow>
     VpsPlannerResult \<times> 'w VpsBuffer option \<times> 'w" where
  "vps_plan_encode plan_ptr allocator w =
     (case plan_ptr of
        None \<Rightarrow> (VPS_PLANNER_INVALID_ARGUMENT, None, w)
      | Some plan \<Rightarrow>
          if allocator = None \<or> plan_version plan \<noteq> VPS_PLAN_FORMAT_VERSION \<or>
             length (plan_projection plan) > VPS_PLAN_MAX_COLUMNS \<or>
             length (plan_constraints plan) > VPS_PLAN_MAX_CONSTRAINTS \<or>
             length (plan_order_terms plan) > VPS_PLAN_MAX_ORDER_TERMS
          then (VPS_PLANNER_INVALID_ARGUMENT, None, w)
          else
            let wire = plan_wire plan
            in case vps_buffer_init allocator VPS_PLAN_MAX_ENCODED_BYTES of
                 (_, None) \<Rightarrow> (VPS_PLANNER_OUT_OF_MEMORY, None, w)
               | (_, Some encoded) \<Rightarrow>
                   (case vps_buffer_reserve encoded (of_nat (length wire * 2 + 1)) w of
                      (result, encoded', w') \<Rightarrow>
                        if result \<noteq> VPS_MEMORY_OK
                        then (VPS_PLANNER_OUT_OF_MEMORY, Some encoded', w')
                        else case plan_append_hex wire encoded' w' of
                               (r, encoded'', w'') \<Rightarrow> (r, Some encoded'', w'')))"

section \<open>The decoder\<close>

fun plan_unhex :: "string \<Rightarrow> u8 list option" where
  "plan_unhex (c # d # rest) =
     (case vps_plan_hex_value c of
        None \<Rightarrow> None
      | Some high \<Rightarrow>
          (case vps_plan_hex_value d of
             None \<Rightarrow> None
           | Some low \<Rightarrow> map_option (\<lambda>wire. (push_bit 4 high OR low) # wire) (plan_unhex rest)))"
| "plan_unhex rest = Some []"

fun plan_get_projection :: "u8 list \<Rightarrow> nat \<Rightarrow> nat \<Rightarrow> u16 list \<Rightarrow> u16 list option" where
  "plan_get_projection wire offset 0 projection = Some projection"
| "plan_get_projection wire offset (Suc n) projection =
     (let column = vps_plan_get_u16 wire offset
      in if unat column \<ge> VPS_PLAN_MAX_COLUMNS then None
         else if list_ex (\<lambda>previous. previous = column) projection then None
         else plan_get_projection wire (offset + 2) n (projection @ [column]))"

definition plan_get_constraint :: "u8 list \<Rightarrow> nat \<Rightarrow> VpsPlanConstraint" where
  "plan_get_constraint wire offset =
     \<lparr>con_column = vps_plan_get_u32 wire offset,
      con_type_oid = vps_plan_get_u32 wire (offset + 4),
      con_source_index = vps_plan_get_u16 wire (offset + 8),
      con_argument_index = vps_plan_get_u16 wire (offset + 10),
      con_flags = vps_plan_get_u16 wire (offset + 12),
      con_operation = wire ! (offset + 14),
      con_value_class = wire ! (offset + 15)\<rparr>"

definition plan_constraint_refused :: "u16 \<Rightarrow> VpsPlanConstraint \<Rightarrow> bool" where
  "plan_constraint_refused argument_count item \<longleftrightarrow>
     con_flags item AND NOT (VPS_PLAN_CONSTRAINT_EXACT OR VPS_PLAN_CONSTRAINT_RECHECK OR
       VPS_PLAN_CONSTRAINT_IN OR VPS_PLAN_CONSTRAINT_KEY OR VPS_PLAN_CONSTRAINT_NULL_SAFE) \<noteq> 0 \<or>
     con_operation item < plan_operator_code VPS_PLAN_OP_EQ \<or>
     con_operation item > plan_operator_code VPS_PLAN_OP_OFFSET \<or>
     con_argument_index item > argument_count \<or>
     (sint (con_column item) < 0 \<and> con_operation item \<noteq> plan_operator_code VPS_PLAN_OP_LIMIT \<and>
      con_operation item \<noteq> plan_operator_code VPS_PLAN_OP_OFFSET) \<or>
     sint (con_column item) \<ge> int VPS_PLAN_MAX_COLUMNS"

fun plan_get_constraints ::
    "u8 list \<Rightarrow> u16 \<Rightarrow> nat \<Rightarrow> nat \<Rightarrow> VpsPlanConstraint list option" where
  "plan_get_constraints wire argument_count offset 0 = Some []"
| "plan_get_constraints wire argument_count offset (Suc n) =
     (let item = plan_get_constraint wire offset
      in if plan_constraint_refused argument_count item then None
         else map_option (\<lambda>items. item # items)
                (plan_get_constraints wire argument_count (offset + VPS_PLAN_WIRE_CONSTRAINT_BYTES) n))"

fun plan_get_order :: "u8 list \<Rightarrow> nat \<Rightarrow> nat \<Rightarrow> VpsPlanOrderTerm list option" where
  "plan_get_order wire offset 0 = Some []"
| "plan_get_order wire offset (Suc n) =
     (let item = \<lparr>ord_column = vps_plan_get_u16 wire offset,
                  ord_descending = wire ! (offset + 2), ord_nulls_first = wire ! (offset + 3)\<rparr>
      in if unat (ord_column item) \<ge> VPS_PLAN_MAX_COLUMNS \<or> ord_descending item > 1 \<or>
            ord_nulls_first item > 1
         then None
         else map_option (\<lambda>items. item # items)
                (plan_get_order wire (offset + VPS_PLAN_WIRE_ORDER_BYTES) n))"

text \<open>The arrays and the final checks of \<open>vps_plan_decode\<close>; \<open>header\<close> is the plan with the fields of the
  header read.\<close>

definition plan_decode_body ::
    "u8 list \<Rightarrow> VpsCompiledPlan \<Rightarrow> nat \<Rightarrow> nat \<Rightarrow> nat \<Rightarrow> VpsPlannerResult \<times> VpsCompiledPlan option" where
  "plan_decode_body wire header projection_count constraint_count order_count =
     (let offset = VPS_PLAN_WIRE_HEADER_BYTES
      in case plan_get_projection wire offset projection_count [] of
           None \<Rightarrow> (VPS_PLANNER_INVALID_PLAN, None)
         | Some projection \<Rightarrow>
         (let offset = offset + 2 * projection_count
          in case plan_get_constraints wire (plan_argument_count header) offset constraint_count of
               None \<Rightarrow> (VPS_PLANNER_INVALID_PLAN, None)
             | Some constraints \<Rightarrow>
         (let offset = offset + VPS_PLAN_WIRE_CONSTRAINT_BYTES * constraint_count
          in case plan_get_order wire offset order_count of
               None \<Rightarrow> (VPS_PLANNER_INVALID_PLAN, None)
             | Some order_terms \<Rightarrow>
                 if plan_estimated_rows header = 0 \<or> plan_estimated_cost_milli header = 0 \<or>
                    (plan_flags header AND VPS_PLAN_FLAG_ORDER_CONSUMED \<noteq> 0) \<noteq> (order_count \<noteq> 0)
                 then (VPS_PLANNER_INVALID_PLAN, None)
                 else (VPS_PLANNER_OK,
                       Some (header\<lparr>plan_projection := projection, plan_constraints := constraints,
                                    plan_order_terms := order_terms\<rparr>)))))"

definition plan_decode_header :: "u8 list \<Rightarrow> u64 \<Rightarrow> VpsPlannerResult \<times> VpsCompiledPlan option" where
  "plan_decode_header wire expected_fingerprint =
     (let header = \<lparr>plan_version = vps_plan_get_u32 wire 4, plan_flags = vps_plan_get_u32 wire 8,
                    plan_source_fingerprint = vps_plan_get_u64 wire 12,
                    plan_estimated_rows = vps_plan_get_u64 wire 20,
                    plan_estimated_cost_milli = vps_plan_get_u64 wire 28,
                    plan_projection = [], plan_constraints = [], plan_order_terms = [],
                    plan_argument_count = vps_plan_get_u16 wire 42,
                    plan_selected_index_prefix = vps_plan_get_u16 wire 44,
                    plan_selected_index_ordinal = vps_plan_get_u16 wire 46\<rparr>;
          projection_count = unat (vps_plan_get_u16 wire 36);
          constraint_count = unat (vps_plan_get_u16 wire 38);
          order_count = unat (vps_plan_get_u16 wire 40)
      in if vps_plan_get_u32 wire 0 \<noteq> VPS_PLAN_WIRE_MAGIC then (VPS_PLANNER_INVALID_PLAN, None)
         else if plan_version header \<noteq> VPS_PLAN_FORMAT_VERSION then (VPS_PLANNER_VERSION_MISMATCH, None)
         else if plan_flags header AND NOT (VPS_PLAN_FLAG_ORDER_CONSUMED OR VPS_PLAN_FLAG_UNIQUE OR
                   VPS_PLAN_FLAG_HAS_RECHECK OR VPS_PLAN_FLAG_LIMIT_CONSUMED OR
                   VPS_PLAN_FLAG_OFFSET_CONSUMED) \<noteq> 0
         then (VPS_PLANNER_INVALID_PLAN, None)
         else if plan_source_fingerprint header \<noteq> expected_fingerprint
         then (VPS_PLANNER_FINGERPRINT_MISMATCH, None)
         else if projection_count > VPS_PLAN_MAX_COLUMNS \<or>
                 constraint_count > VPS_PLAN_MAX_CONSTRAINTS \<or>
                 order_count > VPS_PLAN_MAX_ORDER_TERMS \<or>
                 unat (plan_argument_count header) > VPS_PLAN_MAX_CONSTRAINTS
         then (VPS_PLANNER_LIMIT_EXCEEDED, None)
         else if plan_wire_size projection_count constraint_count order_count \<noteq> length wire
         then (VPS_PLANNER_INVALID_PLAN, None)
         else plan_decode_body wire header projection_count constraint_count order_count)"

definition vps_plan_decode :: "string option \<Rightarrow> u64 \<Rightarrow> VpsPlannerResult \<times> VpsCompiledPlan option" where
  "vps_plan_decode encoded_ptr expected_fingerprint =
     (case encoded_ptr of
        None \<Rightarrow> (VPS_PLANNER_INVALID_PLAN, None)
      | Some encoded \<Rightarrow>
          if length encoded = 0 \<or> length encoded > VPS_PLAN_MAX_ACTUAL_ENCODED_BYTES \<or>
             length encoded mod 2 \<noteq> 0
          then (VPS_PLANNER_INVALID_PLAN, None)
          else if length encoded div 2 < VPS_PLAN_WIRE_HEADER_BYTES then (VPS_PLANNER_INVALID_PLAN, None)
          else case plan_unhex encoded of
                 None \<Rightarrow> (VPS_PLANNER_INVALID_PLAN, None)
               | Some wire \<Rightarrow> plan_decode_header wire expected_fingerprint)"

section \<open>Numbers on the wire\<close>

lemma get_le:
  "vps_plan_get_u16 = le_value 2" "vps_plan_get_u32 = le_value 4" "vps_plan_get_u64 = le_value 8"
  by (auto simp: fun_eq_iff vps_plan_get_u16_def vps_plan_get_u32_def vps_plan_get_u64_def le_value_def
      numeral_2_eq_2)

lemma put_le:
  "vps_plan_put_u16 wire offset a = mem_write wire offset (le_bytes 2 a)"
  "vps_plan_put_u32 wire offset b = mem_write wire offset (le_bytes 4 b)"
  "vps_plan_put_u64 wire offset c = mem_write wire offset (le_bytes 8 c)"
  by (simp_all add: vps_plan_put_u16_def vps_plan_put_u32_def vps_plan_put_u64_def le_bytes_def
      numeral_2_eq_2)


section \<open>The wire image as a concatenation\<close>

definition constraint_bytes :: "VpsPlanConstraint \<Rightarrow> u8 list" where
  "constraint_bytes item =
     le_bytes 4 (con_column item) @ le_bytes 4 (con_type_oid item) @ le_bytes 2 (con_source_index item) @
     le_bytes 2 (con_argument_index item) @ le_bytes 2 (con_flags item) @
     [con_operation item, con_value_class item]"

definition order_bytes :: "VpsPlanOrderTerm \<Rightarrow> u8 list" where
  "order_bytes item = le_bytes 2 (ord_column item) @ [ord_descending item, ord_nulls_first item]"

definition header_bytes :: "VpsCompiledPlan \<Rightarrow> u8 list" where
  "header_bytes plan =
     le_bytes 4 VPS_PLAN_WIRE_MAGIC @ le_bytes 4 (plan_version plan) @ le_bytes 4 (plan_flags plan) @
     le_bytes 8 (plan_source_fingerprint plan) @ le_bytes 8 (plan_estimated_rows plan) @
     le_bytes 8 (plan_estimated_cost_milli plan) @
     le_bytes 2 (of_nat (length (plan_projection plan)) :: u16) @
     le_bytes 2 (of_nat (length (plan_constraints plan)) :: u16) @
     le_bytes 2 (of_nat (length (plan_order_terms plan)) :: u16) @
     le_bytes 2 (plan_argument_count plan) @ le_bytes 2 (plan_selected_index_prefix plan) @
     le_bytes 2 (plan_selected_index_ordinal plan)"

definition plan_bytes :: "VpsCompiledPlan \<Rightarrow> u8 list" where
  "plan_bytes plan = header_bytes plan @ concat (map (le_bytes 2) (plan_projection plan)) @
     concat (map constraint_bytes (plan_constraints plan)) @ concat (map order_bytes (plan_order_terms plan))"

lemma length_item_bytes [simp]:
  "length (constraint_bytes item) = 16" "length (order_bytes t) = 4" "length (header_bytes plan) = 48"
  by (simp_all add: constraint_bytes_def order_bytes_def header_bytes_def)

lemma length_concat_items [simp]:
  "length (concat (map (le_bytes 2) columns)) = 2 * length columns"
  "length (concat (map constraint_bytes items)) = 16 * length items"
  "length (concat (map order_bytes ts)) = 4 * length ts"
proof -
  show "length (concat (map (le_bytes 2) columns)) = 2 * length columns" by (induction columns) simp_all
  show "length (concat (map constraint_bytes items)) = 16 * length items" by (induction items) simp_all
  show "length (concat (map order_bytes ts)) = 4 * length ts" by (induction ts) simp_all
qed

text \<open>Writing the next bytes after a written part.\<close>

lemma write_next [simp]:
  "length done = offset \<Longrightarrow> length bytes \<le> n \<Longrightarrow>
     mem_write (done @ replicate n 0) offset bytes = (done @ bytes) @ replicate (n - length bytes) 0"
  by (simp add: mem_write_def)

lemma set_next [simp]:
  "length done = offset \<Longrightarrow> 0 < n \<Longrightarrow>
     (done @ replicate n x)[offset := b] = (done @ [b]) @ replicate (n - 1) x"
  by (cases n) (simp_all add: list_update_append)

lemma write_first [simp]:
  "length bytes \<le> n \<Longrightarrow> mem_write (replicate n 0) 0 bytes = bytes @ replicate (n - length bytes) 0"
  by (simp add: mem_write_def)

lemma put_header:
  "48 \<le> n \<Longrightarrow> plan_put_header plan (replicate n 0) = header_bytes plan @ replicate (n - 48) 0"
  unfolding plan_put_header_def Let_def put_le
  by (simp del: append_assoc) (simp add: header_bytes_def)

lemma put_projection:
  "length done = offset \<Longrightarrow> 2 * length columns \<le> n \<Longrightarrow>
     plan_put_projection columns offset (done @ replicate n 0) =
       (done @ concat (map (le_bytes 2) columns)) @ replicate (n - 2 * length columns) 0"
proof (induction columns arbitrary: "done" offset n)
  case (Cons column columns)
  then show ?case
    using Cons.IH [of "done @ le_bytes 2 column" "offset + 2" "n - 2"]
    by (simp add: put_le diff_diff_left)
qed simp

lemma put_constraint:
  "length done = offset \<Longrightarrow> 16 \<le> n \<Longrightarrow>
     plan_put_constraint item offset (done @ replicate n 0) =
       (done @ constraint_bytes item) @ replicate (n - 16) 0"
  unfolding plan_put_constraint_def Let_def put_le
  by (simp del: append_assoc) (simp add: constraint_bytes_def)

lemma put_constraints:
  "length done = offset \<Longrightarrow> 16 * length items \<le> n \<Longrightarrow>
     plan_put_constraints items offset (done @ replicate n 0) =
       (done @ concat (map constraint_bytes items)) @ replicate (n - 16 * length items) 0"
proof (induction items arbitrary: "done" offset n)
  case (Cons item items)
  then show ?case
    using Cons.IH [of "done @ constraint_bytes item" "offset + 16" "n - 16"]
    by (simp add: put_constraint diff_diff_left)
qed simp

lemma put_order:
  "length done = offset \<Longrightarrow> 4 * length items \<le> n \<Longrightarrow>
     plan_put_order items offset (done @ replicate n 0) =
       (done @ concat (map order_bytes items)) @ replicate (n - 4 * length items) 0"
proof (induction items arbitrary: "done" offset n)
  case (Cons item items)
  have "(vps_plan_put_u16 (done @ replicate n 0) offset (ord_column item))
      [offset + 2 := ord_descending item, offset + 3 := ord_nulls_first item] =
      (done @ order_bytes item) @ replicate (n - 4) 0"
    using Cons.prems unfolding put_le by (simp del: append_assoc) (simp add: order_bytes_def)
  with Cons show ?case
    using Cons.IH [of "done @ order_bytes item" "offset + 4" "n - 4"]
    by (simp add: diff_diff_left)
qed simp

lemma plan_wire_bytes: "plan_wire plan = plan_bytes plan"
proof -
  let ?n = "plan_wire_size (length (plan_projection plan)) (length (plan_constraints plan))
    (length (plan_order_terms plan))"
  show ?thesis
    unfolding plan_wire_def Let_def
    using put_header [of ?n plan]
      put_projection [of "header_bytes plan" 48 "plan_projection plan" "?n - 48"]
    by (simp add: plan_wire_size_def put_constraints put_order plan_bytes_def del: append_assoc)
qed


section \<open>Reading the wire image back\<close>

lemma get_iff:
  "offset + 2 \<le> length wire \<Longrightarrow> vps_plan_get_u16 wire offset = a \<longleftrightarrow> take 2 (drop offset wire) = le_bytes 2 a"
  "offset + 4 \<le> length wire \<Longrightarrow> vps_plan_get_u32 wire offset = b \<longleftrightarrow> take 4 (drop offset wire) = le_bytes 4 b"
  "offset + 8 \<le> length wire \<Longrightarrow> vps_plan_get_u64 wire offset = c \<longleftrightarrow> take 8 (drop offset wire) = le_bytes 8 c"
  unfolding get_le by (rule le_value_iff; simp)+

lemma take_two: "offset + 2 \<le> length wire \<Longrightarrow> take 2 (drop offset wire) = [wire ! offset, wire ! (offset + 1)]"
  by (rule nth_equalityI) (auto simp: less_Suc_eq numeral_2_eq_2)

lemma get_constraint_iff:
  assumes "offset + 16 \<le> length wire"
  shows "plan_get_constraint wire offset = item \<longleftrightarrow> take 16 (drop offset wire) = constraint_bytes item"
proof -
  have "take 16 (drop offset wire) = constraint_bytes item \<longleftrightarrow>
      take (4 + (4 + (2 + (2 + (2 + 2))))) (drop offset wire) = constraint_bytes item" by simp
  also have "\<dots> \<longleftrightarrow> plan_get_constraint wire offset = item"
    unfolding constraint_bytes_def
    using assms by (subst take_drop_split, simp, simp)+
      (cases item, simp add: plan_get_constraint_def get_iff take_two add.commute)
  finally show ?thesis by simp
qed


lemma get_order_iff:
  assumes "offset + 4 \<le> length wire"
  shows "\<lparr>ord_column = vps_plan_get_u16 wire offset, ord_descending = wire ! (offset + 2),
      ord_nulls_first = wire ! (offset + 3)\<rparr> = item \<longleftrightarrow> take 4 (drop offset wire) = order_bytes item"
proof -
  have "take 4 (drop offset wire) = order_bytes item \<longleftrightarrow> take (2 + 2) (drop offset wire) = order_bytes item"
    by simp
  also have "\<dots> \<longleftrightarrow> vps_plan_get_u16 wire offset = ord_column item \<and>
      wire ! (offset + 2) = ord_descending item \<and> wire ! (offset + 3) = ord_nulls_first item"
    unfolding order_bytes_def
    using assms by (subst take_drop_split, simp, simp) (simp add: get_iff take_two [of "offset + 2"] add.commute del: add_2_eq_Suc')
  finally show ?thesis by (cases item) auto
qed

lemma get_projection_iff:
  "offset + 2 * n \<le> length wire \<Longrightarrow>
     plan_get_projection wire offset n seen = Some columns \<longleftrightarrow>
       (\<exists>new. columns = seen @ new \<and> length new = n \<and>
          take (2 * n) (drop offset wire) = concat (map (le_bytes 2) new) \<and>
          (\<forall>column\<in>set new. unat column < VPS_PLAN_MAX_COLUMNS) \<and> distinct new \<and> set seen \<inter> set new = {})"
proof (induction n arbitrary: offset seen)
  case (Suc n)
  let ?c = "vps_plan_get_u16 wire offset"
  have IH: "plan_get_projection wire (offset + 2) n (seen @ [?c]) = Some columns \<longleftrightarrow>
       (\<exists>new. columns = (seen @ [?c]) @ new \<and> length new = n \<and>
          take (2 * n) (drop (offset + 2) wire) = concat (map (le_bytes 2) new) \<and>
          (\<forall>column\<in>set new. unat column < VPS_PLAN_MAX_COLUMNS) \<and> distinct new \<and>
          set (seen @ [?c]) \<inter> set new = {})"
    using Suc.prems by (intro Suc.IH) simp
  have item: "take (2 * Suc n) (drop offset wire) = concat (map (le_bytes 2) (column # new)) \<longleftrightarrow>
      ?c = column \<and> take (2 * n) (drop (offset + 2) wire) = concat (map (le_bytes 2) new)" for column new
    using take_drop_split [of "le_bytes 2 column" 2 offset wire "2 * n"] Suc.prems by (simp add: get_iff)
  have step: "plan_get_projection wire offset (Suc n) seen = Some columns \<longleftrightarrow>
      unat ?c < VPS_PLAN_MAX_COLUMNS \<and> ?c \<notin> set seen \<and>
      plan_get_projection wire (offset + 2) n (seen @ [?c]) = Some columns"
    by (auto simp: Let_def list_ex_iff not_le)
  show ?case unfolding step IH
  proof (rule iffI, goal_cases)
    case 1
    then obtain rest where "columns = (seen @ [?c]) @ rest" "length rest = n"
      "take (2 * n) (drop (offset + 2) wire) = concat (map (le_bytes 2) rest)"
      "\<forall>column\<in>set rest. unat column < VPS_PLAN_MAX_COLUMNS" "distinct rest" "set (seen @ [?c]) \<inter> set rest = {}"
      by blast
    with 1 item [of ?c rest] show ?case by (intro exI [of _ "?c # rest"]) (simp del: mult_Suc_right)
  next
    case 2
    then obtain column rest where new: "columns = seen @ column # rest" "length rest = n"
      "take (2 * Suc n) (drop offset wire) = concat (map (le_bytes 2) (column # rest))"
      "\<forall>column\<in>set (column # rest). unat column < VPS_PLAN_MAX_COLUMNS" "distinct (column # rest)"
      "set seen \<inter> set (column # rest) = {}"
      by (auto simp: length_Suc_conv simp del: mult_Suc_right)
    from new(3) have "column = ?c" "take (2 * n) (drop (offset + 2) wire) = concat (map (le_bytes 2) rest)"
      unfolding item by auto
    with new(1,2,4-6) show ?case by auto
  qed
qed auto

lemma get_constraints_iff:
  "offset + 16 * n \<le> length wire \<Longrightarrow>
     plan_get_constraints wire argument_count offset n = Some items \<longleftrightarrow>
       length items = n \<and> take (16 * n) (drop offset wire) = concat (map constraint_bytes items) \<and>
       (\<forall>item\<in>set items. \<not> plan_constraint_refused argument_count item)"
proof (induction n arbitrary: offset items)
  case (Suc n)
  have "take (16 * Suc n) (drop offset wire) = concat (map constraint_bytes (item # rest)) \<longleftrightarrow>
      plan_get_constraint wire offset = item \<and>
      take (16 * n) (drop (offset + 16) wire) = concat (map constraint_bytes rest)" for item rest
    using take_drop_split [of "constraint_bytes item" 16 offset wire "16 * n"] Suc.prems
    by (simp add: get_constraint_iff)
  moreover have "plan_get_constraints wire argument_count (offset + 16) n = Some rest \<longleftrightarrow>
       length rest = n \<and> take (16 * n) (drop (offset + 16) wire) = concat (map constraint_bytes rest) \<and>
       (\<forall>item\<in>set rest. \<not> plan_constraint_refused argument_count item)" for rest
    using Suc.prems by (intro Suc.IH) simp
  ultimately show ?case
    by (cases items) (auto simp: Let_def)
qed auto

lemma get_orders_iff:
  "offset + 4 * n \<le> length wire \<Longrightarrow>
     plan_get_order wire offset n = Some items \<longleftrightarrow>
       length items = n \<and> take (4 * n) (drop offset wire) = concat (map order_bytes items) \<and>
       (\<forall>item\<in>set items. order_term_ok item)"
proof (induction n arbitrary: offset items)
  case (Suc n)
  have "take (4 * Suc n) (drop offset wire) = concat (map order_bytes (item # rest)) \<longleftrightarrow>
      \<lparr>ord_column = vps_plan_get_u16 wire offset, ord_descending = wire ! (offset + 2),
        ord_nulls_first = wire ! (offset + 3)\<rparr> = item \<and>
      take (4 * n) (drop (offset + 4) wire) = concat (map order_bytes rest)" for item rest
    using take_drop_split [of "order_bytes item" 4 offset wire "4 * n"] Suc.prems
    by (simp add: get_order_iff del: add_2_eq_Suc')
  moreover have "plan_get_order wire (offset + 4) n = Some rest \<longleftrightarrow>
       length rest = n \<and> take (4 * n) (drop (offset + 4) wire) = concat (map order_bytes rest) \<and>
       (\<forall>item\<in>set rest. order_term_ok item)" for rest
    using Suc.prems by (intro Suc.IH) simp
  ultimately show ?case
    by (cases items) (auto simp: Let_def order_term_ok_def not_le not_less simp del: add_2_eq_Suc')
qed auto

lemma constraint_refused_iff: "\<not> plan_constraint_refused n item \<longleftrightarrow> constraint_ok n item"
  unfolding plan_constraint_refused_def constraint_ok_def plan_operator_code_def
  by (simp only: VpsPlanOperator.case de_Morgan_disj not_less not_le not_not) blast

lemma header_iff:
  assumes "48 \<le> length wire"
  shows "take 48 wire = le_bytes 4 (m :: u32) @ le_bytes 4 (v :: u32) @ le_bytes 4 (f :: u32) @ le_bytes 8 (s :: u64) @
      le_bytes 8 (r :: u64) @ le_bytes 8 (c :: u64) @ le_bytes 2 (pn :: u16) @ le_bytes 2 (cn :: u16) @
      le_bytes 2 (ot :: u16) @ le_bytes 2 (an :: u16) @ le_bytes 2 (xp :: u16) @ le_bytes 2 (xo :: u16) \<longleftrightarrow>
    vps_plan_get_u32 wire 0 = m \<and> vps_plan_get_u32 wire 4 = v \<and> vps_plan_get_u32 wire 8 = f \<and>
    vps_plan_get_u64 wire 12 = s \<and> vps_plan_get_u64 wire 20 = r \<and> vps_plan_get_u64 wire 28 = c \<and>
    vps_plan_get_u16 wire 36 = pn \<and> vps_plan_get_u16 wire 38 = cn \<and> vps_plan_get_u16 wire 40 = ot \<and>
    vps_plan_get_u16 wire 42 = an \<and> vps_plan_get_u16 wire 44 = xp \<and> vps_plan_get_u16 wire 46 = xo"
    (is "_ = ?bytes \<longleftrightarrow> ?reads")
proof -
  have "take 48 wire = ?bytes \<longleftrightarrow>
      take (4 + (4 + (4 + (8 + (8 + (8 + (2 + (2 + (2 + (2 + (2 + 2))))))))))) (drop 0 wire) = ?bytes" by simp
  also have "\<dots> \<longleftrightarrow> ?reads"
    using assms by (subst take_drop_split, simp, simp)+ (simp add: get_iff)
  finally show ?thesis .
qed

lemma plan_bytes_parts:
  assumes "length wire = plan_wire_size a b c"
  shows "wire = take 48 wire @ take (2 * a) (drop 48 wire) @ take (16 * b) (drop (48 + 2 * a) wire) @
    take (4 * c) (drop (48 + 2 * a + 16 * b) wire)"
proof -
  have split: "drop k wire = take n (drop k wire) @ drop (k + n) wire" for k n
    by (metis append_take_drop_id drop_drop add.commute)
  have last: "drop (48 + 2 * a + 16 * b) wire = take (4 * c) (drop (48 + 2 * a + 16 * b) wire)"
    using assms by (simp add: plan_wire_size_def)
  have "wire = take 48 wire @ drop 48 wire" by simp
  also have "drop 48 wire = take (2 * a) (drop 48 wire) @ drop (48 + 2 * a) wire" by (rule split)
  also have "drop (48 + 2 * a) wire = take (16 * b) (drop (48 + 2 * a) wire) @ drop (48 + 2 * a + 16 * b) wire"
    by (rule split)
  finally show ?thesis unfolding last [symmetric] .
qed

text \<open>The arrays of a plan and what the decoder asks of them.\<close>

definition arrays_ok :: "VpsCompiledPlan \<Rightarrow> bool" where
  "arrays_ok plan \<longleftrightarrow>
     distinct (plan_projection plan) \<and>
     (\<forall>column\<in>set (plan_projection plan). unat column < VPS_PLAN_MAX_COLUMNS) \<and>
     (\<forall>c\<in>set (plan_constraints plan). constraint_ok (plan_argument_count plan) c) \<and>
     (\<forall>t\<in>set (plan_order_terms plan). order_term_ok t)"

lemma decode_body_reads:
  "plan_decode_body wire header a b c = (VPS_PLANNER_OK, Some plan) \<longleftrightarrow>
    plan = header\<lparr>plan_projection := plan_projection plan, plan_constraints := plan_constraints plan,
      plan_order_terms := plan_order_terms plan\<rparr> \<and>
    plan_get_projection wire 48 a [] = Some (plan_projection plan) \<and>
    plan_get_constraints wire (plan_argument_count plan) (48 + 2 * a) b = Some (plan_constraints plan) \<and>
    plan_get_order wire (48 + 2 * a + 16 * b) c = Some (plan_order_terms plan) \<and>
    plan_estimated_rows plan \<noteq> 0 \<and> plan_estimated_cost_milli plan \<noteq> 0 \<and>
    (plan_flags plan AND VPS_PLAN_FLAG_ORDER_CONSUMED \<noteq> 0) = (c \<noteq> 0)"
    (is "?decoded \<longleftrightarrow> ?read")
proof
  show ?read if ?decoded
    using that by (auto simp: plan_decode_body_def Let_def split: option.splits if_splits)
next
  assume r: ?read
  then have "plan_argument_count header = plan_argument_count plan"
    "plan_estimated_rows header = plan_estimated_rows plan" "plan_flags header = plan_flags plan"
    "plan_estimated_cost_milli header = plan_estimated_cost_milli plan"
    by (cases plan; cases header; simp)+
  with r show ?decoded by (simp add: plan_decode_body_def Let_def)
qed

lemma decode_body_iff:
  assumes size: "length wire = plan_wire_size a b c"
  shows "plan_decode_body wire header a b c = (VPS_PLANNER_OK, Some plan) \<longleftrightarrow>
    plan = header\<lparr>plan_projection := plan_projection plan, plan_constraints := plan_constraints plan,
      plan_order_terms := plan_order_terms plan\<rparr> \<and>
    (length (plan_projection plan) = a \<and> length (plan_constraints plan) = b \<and>
     length (plan_order_terms plan) = c) \<and>
    drop 48 wire = concat (map (le_bytes 2) (plan_projection plan)) @
      concat (map constraint_bytes (plan_constraints plan)) @ concat (map order_bytes (plan_order_terms plan)) \<and>
    arrays_ok plan \<and> plan_estimated_rows plan \<noteq> 0 \<and> plan_estimated_cost_milli plan \<noteq> 0 \<and>
    (plan_flags plan AND VPS_PLAN_FLAG_ORDER_CONSUMED \<noteq> 0) = (c \<noteq> 0)"
proof -
  have room: "48 + 2 * a \<le> length wire" "48 + 2 * a + 16 * b \<le> length wire"
    "48 + 2 * a + 16 * b + 4 * c \<le> length wire" using size by (simp_all add: plan_wire_size_def)
  have split: "drop 48 wire = take (2 * a) (drop 48 wire) @ take (16 * b) (drop (48 + 2 * a) wire) @
      take (4 * c) (drop (48 + 2 * a + 16 * b) wire)"
    using arg_cong [OF plan_bytes_parts [OF size], of "drop 48"] room by simp
  have parts: "drop 48 wire = concat (map (le_bytes 2) p) @ concat (map constraint_bytes cs) @ concat (map order_bytes os) \<longleftrightarrow>
      take (2 * a) (drop 48 wire) = concat (map (le_bytes 2) p) \<and>
      take (16 * b) (drop (48 + 2 * a) wire) = concat (map constraint_bytes cs) \<and>
      take (4 * c) (drop (48 + 2 * a + 16 * b) wire) = concat (map order_bytes os)"
    if "length p = a \<and> length cs = b \<and> length os = c" for p cs os
    using that room by (subst split) (simp add: append_eq_append_conv)
  show ?thesis
    unfolding decode_body_reads get_projection_iff [OF room(1)] get_constraints_iff [OF room(2)]
      get_orders_iff [OF room(3)] constraint_refused_iff arrays_ok_def
    using parts [of "plan_projection plan" "plan_constraints plan" "plan_order_terms plan"] by auto
qed

text \<open>The decoder accepts exactly the images of the well-formed plans with the expected fingerprint.\<close>

lemma plan_ok_arrays:
  "plan_ok plan \<longleftrightarrow>
     plan_version plan = VPS_PLAN_FORMAT_VERSION \<and>
     plan_flags plan AND NOT (VPS_PLAN_FLAG_ORDER_CONSUMED OR VPS_PLAN_FLAG_UNIQUE OR
       VPS_PLAN_FLAG_HAS_RECHECK OR VPS_PLAN_FLAG_LIMIT_CONSUMED OR VPS_PLAN_FLAG_OFFSET_CONSUMED) = 0 \<and>
     length (plan_projection plan) \<le> VPS_PLAN_MAX_COLUMNS \<and>
     length (plan_constraints plan) \<le> VPS_PLAN_MAX_CONSTRAINTS \<and>
     length (plan_order_terms plan) \<le> VPS_PLAN_MAX_ORDER_TERMS \<and>
     unat (plan_argument_count plan) \<le> VPS_PLAN_MAX_CONSTRAINTS \<and>
     arrays_ok plan \<and> plan_estimated_rows plan \<noteq> 0 \<and> plan_estimated_cost_milli plan \<noteq> 0 \<and>
     (plan_flags plan AND VPS_PLAN_FLAG_ORDER_CONSUMED \<noteq> 0) = (plan_order_terms plan \<noteq> [])"
  by (auto simp: plan_ok_def plan_body_ok_def arrays_ok_def)

lemma plan_decode_header_image:
  assumes ok: "plan_ok plan"
  shows "plan_decode_header (plan_bytes plan) (plan_source_fingerprint plan) = (VPS_PLANNER_OK, Some plan)"
proof -
  let ?wire = "plan_bytes plan"
  have lengths: "length (plan_projection plan) \<le> 1024" "length (plan_constraints plan) \<le> 64"
    "length (plan_order_terms plan) \<le> 32" using ok by (simp_all add: plan_ok_arrays)
  have size: "length ?wire = plan_wire_size (length (plan_projection plan)) (length (plan_constraints plan))
      (length (plan_order_terms plan))"
    by (simp add: plan_bytes_def plan_wire_size_def)
  have "48 \<le> length ?wire" "take 48 ?wire = header_bytes plan" by (simp_all add: plan_bytes_def)
  note reads = this(2) [unfolded header_bytes_def header_iff [OF this(1)]]
  show ?thesis
    using ok lengths size decode_body_iff [OF size]
    unfolding plan_ok_arrays plan_decode_header_def Let_def
    by (simp add: reads) (simp add: plan_bytes_def)
qed

text \<open>The fields of the header as the decoder reads them.\<close>

definition read_header :: "u8 list \<Rightarrow> VpsCompiledPlan" where
  "read_header wire =
     \<lparr>plan_version = vps_plan_get_u32 wire 4, plan_flags = vps_plan_get_u32 wire 8,
      plan_source_fingerprint = vps_plan_get_u64 wire 12, plan_estimated_rows = vps_plan_get_u64 wire 20,
      plan_estimated_cost_milli = vps_plan_get_u64 wire 28,
      plan_projection = [], plan_constraints = [], plan_order_terms = [],
      plan_argument_count = vps_plan_get_u16 wire 42, plan_selected_index_prefix = vps_plan_get_u16 wire 44,
      plan_selected_index_ordinal = vps_plan_get_u16 wire 46\<rparr>"

lemma plan_decode_header_sound:
  assumes long: "48 \<le> length wire" and run: "plan_decode_header wire fingerprint = (VPS_PLANNER_OK, Some plan)"
  shows "plan_ok plan \<and> plan_source_fingerprint plan = fingerprint \<and> wire = plan_bytes plan"
proof -
  let ?a = "vps_plan_get_u16 wire 36" and ?b = "vps_plan_get_u16 wire 38" and ?c = "vps_plan_get_u16 wire 40"
  let ?header = "read_header wire"
  have checks: "vps_plan_get_u32 wire 0 = VPS_PLAN_WIRE_MAGIC" "plan_version ?header = VPS_PLAN_FORMAT_VERSION"
    "plan_flags ?header AND NOT (VPS_PLAN_FLAG_ORDER_CONSUMED OR VPS_PLAN_FLAG_UNIQUE OR
       VPS_PLAN_FLAG_HAS_RECHECK OR VPS_PLAN_FLAG_LIMIT_CONSUMED OR VPS_PLAN_FLAG_OFFSET_CONSUMED) = 0"
    "plan_source_fingerprint ?header = fingerprint" "unat ?a \<le> 1024" "unat ?b \<le> 64" "unat ?c \<le> 32"
    "unat (plan_argument_count ?header) \<le> 64"
    and size: "length wire = plan_wire_size (unat ?a) (unat ?b) (unat ?c)"
    and body: "plan_decode_body wire ?header (unat ?a) (unat ?b) (unat ?c) = (VPS_PLANNER_OK, Some plan)"
    using run unfolding plan_decode_header_def Let_def read_header_def [symmetric]
    by (auto split: if_splits simp: not_less)
  have plan: "plan = ?header\<lparr>plan_projection := plan_projection plan, plan_constraints := plan_constraints plan,
      plan_order_terms := plan_order_terms plan\<rparr>"
    and len: "length (plan_projection plan) = unat ?a" "length (plan_constraints plan) = unat ?b"
      "length (plan_order_terms plan) = unat ?c"
    and rest: "drop 48 wire = concat (map (le_bytes 2) (plan_projection plan)) @
      concat (map constraint_bytes (plan_constraints plan)) @ concat (map order_bytes (plan_order_terms plan))"
    and arrays: "arrays_ok plan" "plan_estimated_rows plan \<noteq> 0" "plan_estimated_cost_milli plan \<noteq> 0"
      "(plan_flags plan AND VPS_PLAN_FLAG_ORDER_CONSUMED \<noteq> 0) = (unat ?c \<noteq> 0)"
    using body unfolding decode_body_iff [OF size] by blast+
  note fields = arg_cong [OF plan, of plan_version] arg_cong [OF plan, of plan_flags]
    arg_cong [OF plan, of plan_source_fingerprint] arg_cong [OF plan, of plan_argument_count]
    arg_cong [OF plan, of plan_estimated_rows] arg_cong [OF plan, of plan_estimated_cost_milli]
    arg_cong [OF plan, of plan_selected_index_prefix] arg_cong [OF plan, of plan_selected_index_ordinal]
  have "take 48 wire = header_bytes plan"
    unfolding header_bytes_def header_iff [OF long] using checks(1) fields by (simp add: len read_header_def)
  then have "wire = plan_bytes plan"
    using rest append_take_drop_id [of 48 wire] by (simp add: plan_bytes_def)
  moreover have "plan_ok plan"
    using checks arrays fields len unfolding plan_ok_arrays
    by (simp add: length_0_conv [symmetric] del: length_0_conv)
  ultimately show ?thesis using checks(4) fields by simp
qed

section \<open>Hexadecimal text\<close>

definition plan_hex :: "u8 list \<Rightarrow> u8 list" where
  "plan_hex wire = concat (map (\<lambda>byte. [vps_plan_hex_digit (drop_bit 4 byte), vps_plan_hex_digit byte]) wire)"

lemma unat_char_byte: "unat (char_byte c) = of_char c"
  using nat_of_char_less_256 [of c] by (simp add: char_byte_def)

lemma hex_value_code:
  "map_option unat (vps_plan_hex_value c) =
     (let n = of_char c :: nat in
      if 48 \<le> n \<and> n \<le> 57 then Some (n - 48) else if 97 \<le> n \<and> n \<le> 102 then Some (n - 87)
      else if 65 \<le> n \<and> n \<le> 70 then Some (n - 55) else None)"
proof -
  have m: "unat (word_of_nat (of_char c) - of_nat k :: u8) = of_char c - k" if "k \<le> of_char c" for k :: nat
  proof -
    have "word_of_nat (of_char c) - of_nat k = (of_nat (of_char c - k) :: u8)"
      using that by (simp add: of_nat_diff)
    moreover have "of_char c - k < (256 :: nat)" using nat_of_char_less_256 [of c] by linarith
    ultimately show ?thesis by simp
  qed
  show ?thesis
    using m [of 48] m [of 87] m [of 55]
    by (auto simp: vps_plan_hex_value_def char_between_def char_byte_def Let_def)
qed

lemma lower_code:
  "(of_char (vps_log_ascii_lower c) :: nat) = (let n = of_char c in if 65 \<le> n \<and> n \<le> 90 then n + 32 else n)"
  by (auto simp: vps_log_ascii_lower_def char_between_def Let_def)

lemma hex_digit_code:
  "unat (vps_plan_hex_digit v) = (let d = unat (v AND 15) in if d < 10 then 48 + d else 87 + d)"
proof -
  have "v AND 15 \<le> 15" by (rule word_and_le1)
  then have "unat (v AND 15) \<le> 15" by (simp add: word_le_nat_alt)
  then have "unat (v AND 15) \<in> set [0..<16]" by simp
  then show ?thesis
    unfolding vps_plan_hex_digit_def unat_char_byte Let_def
    by (simp add: upt_rec) auto
qed

lemma hex_value_iff:
  "vps_plan_hex_value c = Some v \<longleftrightarrow> v < 16 \<and> char_byte (vps_log_ascii_lower c) = vps_plan_hex_digit v"
proof -
  have eq: "vps_plan_hex_value c = Some v \<longleftrightarrow> map_option unat (vps_plan_hex_value c) = Some (unat v)"
    by (cases "vps_plan_hex_value c") (auto simp: word_unat_eq_iff)
  have "v AND 15 = take_bit 4 v" by (simp add: take_bit_eq_mask mask_eq_exp_minus_1)
  then have "unat (v AND 15) = unat v" if "unat v < 16"
    using that by (simp add: unsigned_take_bit_eq take_bit_nat_eq_self)
  then show ?thesis
    unfolding eq hex_value_code
    by (auto simp: word_unat_eq_iff unat_char_byte lower_code hex_digit_code Let_def word_less_nat_alt)
qed


lemma and_15: "(v :: u8) AND 15 = take_bit 4 v"
  by (simp add: take_bit_eq_mask mask_eq_exp_minus_1)

lemma less_16: "(v :: u8) < 16 \<longleftrightarrow> take_bit 4 v = v"
proof -
  have "v < 16 \<longleftrightarrow> unat v < 2 ^ 4" by (simp add: word_less_nat_alt)
  also have "\<dots> \<longleftrightarrow> take_bit 4 (unat v) = unat v" by (simp add: take_bit_nat_eq_self_iff)
  also have "\<dots> \<longleftrightarrow> take_bit 4 v = v" by (simp add: word_unat_eq_iff unsigned_take_bit_eq)
  finally show ?thesis .
qed

lemma nibbles:
  fixes b high low :: u8
  shows "push_bit 4 (take_bit 4 (drop_bit 4 b)) OR take_bit 4 b = b"
    and "take_bit 4 (drop_bit 4 (push_bit 4 (take_bit 4 high) OR take_bit 4 low)) = take_bit 4 high"
    and "take_bit 4 (push_bit 4 (take_bit 4 high) OR take_bit 4 low) = take_bit 4 low"
  by (rule bit_eqI; auto simp: bit_simps dest: bit_imp_le_length)+

lemma hex_digit_nibble: "vps_plan_hex_digit (take_bit 4 v) = vps_plan_hex_digit v"
  by (simp add: vps_plan_hex_digit_def and_15)

lemma hex_pair_iff:
  "(\<exists>high low. vps_plan_hex_value c = Some high \<and> vps_plan_hex_value d = Some low \<and>
      b = push_bit 4 high OR low) \<longleftrightarrow>
   char_byte (vps_log_ascii_lower c) = vps_plan_hex_digit (drop_bit 4 b) \<and>
   char_byte (vps_log_ascii_lower d) = vps_plan_hex_digit b"
proof (intro iffI; (elim exE conjE)?)
  fix high low
  assume h: "vps_plan_hex_value c = Some high" "vps_plan_hex_value d = Some low" "b = push_bit 4 high OR low"
  then have "take_bit 4 high = high" "take_bit 4 low = low" by (simp_all add: hex_value_iff less_16)
  with nibbles(2,3) [of high low] h(3) have "take_bit 4 (drop_bit 4 b) = high" "take_bit 4 b = low" by simp_all
  with h(1,2) hex_digit_nibble [of "drop_bit 4 b"] hex_digit_nibble [of b]
  show "char_byte (vps_log_ascii_lower c) = vps_plan_hex_digit (drop_bit 4 b) \<and>
      char_byte (vps_log_ascii_lower d) = vps_plan_hex_digit b"
    by (simp add: hex_value_iff)
next
  assume "char_byte (vps_log_ascii_lower c) = vps_plan_hex_digit (drop_bit 4 b)"
    "char_byte (vps_log_ascii_lower d) = vps_plan_hex_digit b"
  then show "\<exists>high low. vps_plan_hex_value c = Some high \<and> vps_plan_hex_value d = Some low \<and>
      b = push_bit 4 high OR low"
    by (intro exI [of _ "take_bit 4 (drop_bit 4 b)"] exI [of _ "take_bit 4 b"])
      (simp add: hex_value_iff less_16 hex_digit_nibble nibbles(1))
qed

lemma plan_unhex_iff:
  "even (length s) \<Longrightarrow>
     plan_unhex s = Some wire \<longleftrightarrow> map (\<lambda>c. char_byte (vps_log_ascii_lower c)) s = plan_hex wire"
proof (induction s arbitrary: wire rule: induct_list012)
  case (3 c d rest)
  show ?case
  proof (cases wire)
    case Nil
    then show ?thesis by (auto simp: plan_hex_def split: option.splits)
  next
    case (Cons b bs)
    have "plan_unhex (c # d # rest) = Some wire \<longleftrightarrow>
        (\<exists>high low. vps_plan_hex_value c = Some high \<and> vps_plan_hex_value d = Some low \<and>
           b = push_bit 4 high OR low) \<and> plan_unhex rest = Some bs"
      by (auto simp: Cons split: option.splits)
    also have "\<dots> \<longleftrightarrow> map (\<lambda>c. char_byte (vps_log_ascii_lower c)) (c # d # rest) = plan_hex wire"
      unfolding hex_pair_iff using "3.IH"(1) [of bs] "3.prems" by (simp add: Cons plan_hex_def)
    finally show ?thesis .
  qed
qed (auto simp: plan_hex_def)

lemma length_plan_hex [simp]: "length (plan_hex wire) = 2 * length wire"
  by (induction wire) (simp_all add: plan_hex_def)

text \<open>The digits the encoder writes are in lower case.\<close>

lemma plan_hex_lower: "map (\<lambda>c. char_byte (vps_log_ascii_lower c)) (map byte_char (plan_hex wire)) = plan_hex wire"
proof -
  have "char_byte (vps_log_ascii_lower (byte_char (vps_plan_hex_digit v))) = vps_plan_hex_digit v" for v
  proof -
    have code: "(of_char (byte_char (vps_plan_hex_digit v)) :: nat) = unat (vps_plan_hex_digit v)"
      using unsigned_less [of "vps_plan_hex_digit v", where ?'a = nat] by (simp add: byte_char_def of_char_of)
    have "unat (v AND 15) < 16"
      using word_and_le1 [of v 15] by (simp add: word_le_nat_alt)
    then show ?thesis
      by (simp add: word_unat_eq_iff unat_char_byte lower_code code hex_digit_code Let_def)
  qed
  then show ?thesis by (induction wire) (simp_all add: plan_hex_def)
qed


context allocator_contract
begin

lemma append_hex:
  assumes "inv w" "buf_allocator b = A" "buffer_ok b" "buffer_blocks b \<subseteq># live w"
    and "plan_append_hex wire b w = (r, b', w')"
  shows "inv w' \<and>
    (if r = VPS_PLANNER_OK
     then buffer_contents b' = buffer_contents b @ plan_hex wire \<and>
       live w' = live w - buffer_blocks b + buffer_blocks b'
     else r = VPS_PLANNER_OUT_OF_MEMORY \<and> buffer_blocks b' = {#} \<and> live w' = live w - buffer_blocks b)"
  using assms
proof (induction wire arbitrary: b w)
  case (Cons byte wire)
  let ?pair = "[vps_plan_hex_digit (drop_bit 4 byte), vps_plan_hex_digit byte]"
  obtain r1 b1 w1 where app: "vps_buffer_append b (Some ?pair) 2 w = (r1, b1, w1)" by (metis prod_cases3)
  note a = buffer_append [OF Cons.prems(1-4) app, simplified]
  show ?case
  proof (cases "r1 = VPS_MEMORY_OK")
    case True
    then have run: "plan_append_hex wire b1 w1 = (r, b', w')" using Cons.prems(5) app by simp
    have "buffer_blocks b1 \<subseteq># live w1" using a by auto
    from Cons.IH [OF _ _ _ this run] a True show ?thesis by (auto simp: plan_hex_def split: if_splits)
  next
    case False
    then obtain b2 w2 where reset: "vps_buffer_reset b1 w1 = (b2, w2)"
      and "(r, b', w') = (VPS_PLANNER_OUT_OF_MEMORY, b2, w2)"
      using Cons.prems(5) app by (auto split: prod.splits)
    with buffer_reset [OF _ _ reset] a False show ?thesis by auto
  qed
qed (auto simp: plan_hex_def)

text \<open>Within the reserved capacity an append never asks the allocator.\<close>

lemma append_hex_reserved:
  "buf_allocator b = A \<Longrightarrow> buffer_ok b \<Longrightarrow> unat (buf_size b) + 2 * length wire \<le> unat (buf_capacity b) \<Longrightarrow>
     fst (plan_append_hex wire b w) = VPS_PLANNER_OK"
proof (induction wire arbitrary: b w)
  case (Cons byte wire)
  have le: "unat (buf_size b) + 2 \<le> unat (buf_capacity b)" using Cons.prems(3) by simp
  have no_wrap: "\<not> 2 > SIZE_MAX - buf_size b"
    using le unsigned_less [of "buf_capacity b", where ?'a = nat] by (simp add: not_less no_wrap_iff)
  then have add: "unat (buf_size b + 2) = unat (buf_size b) + 2"
    using unat_add_no_wrap [of 2 "buf_size b"] by simp
  then have cap: "buf_size b + 2 \<le> buf_capacity b" "buf_size b + 2 \<le> buf_limit b"
    using le Cons.prems(2) by (auto simp: word_le_nat_alt buffer_ok_def)
  obtain d where d: "buf_data b = Some d" "length d = unat (buf_capacity b)"
    using Cons.prems(2) le by (auto simp: buffer_ok_def split: option.splits)
  let ?pair = "[vps_plan_hex_digit (drop_bit 4 byte), vps_plan_hex_digit byte]"
  let ?b = "b\<lparr>buf_data := Some (mem_write d (unat (buf_size b)) ?pair), buf_size := buf_size b + 2\<rparr>"
  have "vps_buffer_append b (Some ?pair) 2 w = (VPS_MEMORY_OK, ?b, w)"
    using valid Cons.prems(1) cap no_wrap d
    by (simp add: vps_buffer_append_def vps_size_add_def vps_buffer_reserve_def)
  moreover have "fst (plan_append_hex wire ?b w) = VPS_PLANNER_OK"
    using Cons.prems add cap d le by (intro Cons.IH) (auto simp: buffer_ok_def mem_write_def)
  ultimately show ?case by simp
qed simp

end

section \<open>Properties\<close>

lemma plan_ok_length:
  "plan_ok plan \<Longrightarrow> 48 \<le> length (plan_bytes plan) \<and> length (plan_bytes plan) \<le> VPS_PLAN_MAX_WIRE_BYTES"
  by (auto simp: plan_ok_arrays plan_bytes_def VPS_PLAN_MAX_WIRE_BYTES_def)

lemma plan_decode_iff:
  "vps_plan_decode (Some s) fingerprint = (VPS_PLANNER_OK, Some plan) \<longleftrightarrow>
     plan_ok plan \<and> plan_source_fingerprint plan = fingerprint \<and>
     map (\<lambda>c. char_byte (vps_log_ascii_lower c)) s = plan_hex (plan_wire plan)"
    (is "?decoded \<longleftrightarrow> ?image")
proof
  assume run: ?decoded
  then obtain wire where ok: "even (length s)" "48 \<le> length s div 2" and hex: "plan_unhex s = Some wire"
    and dec: "plan_decode_header wire fingerprint = (VPS_PLANNER_OK, Some plan)"
    by (auto simp: vps_plan_decode_def even_iff_mod_2_eq_zero split: if_splits option.splits)
  have s: "map (\<lambda>c. char_byte (vps_log_ascii_lower c)) s = plan_hex wire"
    using hex plan_unhex_iff [OF ok(1)] by simp
  from arg_cong [OF s, of length] ok(2) have "48 \<le> length wire" by simp
  from plan_decode_header_sound [OF this dec] s show ?image by (simp add: plan_wire_bytes)
next
  assume i: ?image
  then have s: "map (\<lambda>c. char_byte (vps_log_ascii_lower c)) s = plan_hex (plan_bytes plan)"
    by (simp add: plan_wire_bytes)
  from arg_cong [OF s, of length] have len: "length s = 2 * length (plan_bytes plan)" by simp
  then have "plan_unhex s = Some (plan_bytes plan)" using s plan_unhex_iff [of s] by simp
  with i len plan_ok_length [of plan] plan_decode_header_image [of plan] show ?decoded
    by (auto simp: vps_plan_decode_def VPS_PLAN_MAX_ACTUAL_ENCODED_BYTES_def)
qed

text \<open>C26. The decoder accepts a text exactly when it is the hexadecimal image, in either case of the letters,
  of a well-formed plan with the expected fingerprint; and then it returns that plan. So every truncated,
  extended or altered text is refused unless it is the image of another well-formed plan of the same source,
  and no plan has two images.\<close>

theorem plan_decode_exact:
  "vps_plan_decode (Some s) fingerprint = (VPS_PLANNER_OK, Some plan) \<longleftrightarrow>
     plan_ok plan \<and> plan_source_fingerprint plan = fingerprint \<and>
     map (\<lambda>c. char_byte (vps_log_ascii_lower c)) s = plan_hex (plan_wire plan)"
  by (rule plan_decode_iff)

abbreviation fresh_buffer :: "size_t \<Rightarrow> heap VpsBuffer" where
  "fresh_buffer limit \<equiv> \<lparr>buf_allocator = system_allocator, buf_data = None, buf_size = 0, buf_capacity = 0,
     buf_limit = limit\<rparr>"

lemma system_valid: "vps_allocator_is_valid (Some system_allocator)"
  by (simp add: vps_allocator_is_valid_def)

text \<open>Reserving in a fresh buffer asks the heap once.\<close>

lemma reserve_fresh:
  assumes "n \<noteq> 0" and "n \<le> limit"
    and run: "vps_buffer_reserve (fresh_buffer limit) n h = (r, b, h')"
  shows "if heap_oracle h (heap_requests h)
    then r = VPS_MEMORY_OK \<and> buf_capacity b = n \<and> buf_size b = 0
    else r = VPS_MEMORY_OUT_OF_MEMORY \<and> b = fresh_buffer limit \<and> heap_live h' = heap_live h"
  using assms system_valid
  by (auto simp: vps_buffer_reserve_def vps_memory_reallocate_def vps_memory_allocate_def call_allocate_def
      vps_system_allocate_def c_malloc_def Let_def not_less split: if_splits)

lemma plan_encode_steps:
  assumes "plan_ok plan"
  shows "vps_plan_encode (Some plan) (Some system_allocator) h =
    (case vps_buffer_reserve (fresh_buffer VPS_PLAN_MAX_ENCODED_BYTES)
            (of_nat (length (plan_wire plan) * 2 + 1)) h of
       (result, encoded, h1) \<Rightarrow>
         if result \<noteq> VPS_MEMORY_OK then (VPS_PLANNER_OUT_OF_MEMORY, Some encoded, h1)
         else case plan_append_hex (plan_wire plan) encoded h1 of (r, encoded', h2) \<Rightarrow> (r, Some encoded', h2))"
  using assms system_valid by (simp add: vps_plan_encode_def plan_ok_arrays vps_buffer_init_def Let_def not_less)

text \<open>C27. Encoding a well-formed plan with the system allocator needs one block. When the heap serves it, the
  text in the buffer decodes to the plan again and the block of the buffer is the only new one; when it does
  not, the encoder reports that memory ran out and no block is left behind.\<close>

theorem plan_encode_roundtrip:
  assumes ok: "plan_ok plan"
    and run: "vps_plan_encode (Some plan) (Some system_allocator) h = (r, b, h')"
  shows "if heap_oracle h (heap_requests h)
    then r = VPS_PLANNER_OK \<and> b \<noteq> None \<and>
      vps_plan_decode (Some (map byte_char (buffer_contents (the b)))) (plan_source_fingerprint plan) =
        (VPS_PLANNER_OK, Some plan) \<and>
      heap_live h' = heap_live h + buffer_blocks (the b)
    else r = VPS_PLANNER_OUT_OF_MEMORY \<and> heap_live h' = heap_live h"
proof -
  let ?n = "of_nat (length (plan_wire plan) * 2 + 1) :: size_t"
  let ?fresh = "fresh_buffer VPS_PLAN_MAX_ENCODED_BYTES"
  have len: "length (plan_wire plan) * 2 + 1 \<le> 6497"
    using plan_ok_length [OF ok] by (simp add: plan_wire_bytes VPS_PLAN_MAX_WIRE_BYTES_def)
  then have n: "unat ?n = length (plan_wire plan) * 2 + 1" by (intro unat_small_nat) simp
  then have small: "?n \<noteq> 0" "?n \<le> VPS_PLAN_MAX_ENCODED_BYTES"
    using len by (auto simp: word_le_nat_alt)
  have fresh: "buffer_ok ?fresh" "buffer_blocks ?fresh = {#}" "buffer_contents ?fresh = []"
    by (simp_all add: buffer_ok_def buffer_blocks_def buffer_contents_def)
  obtain r1 b1 h1 where res: "vps_buffer_reserve ?fresh ?n h = (r1, b1, h1)" by (metis prod_cases3)
  note r1 = reserve_fresh [OF small res]
    and b1 = system.buffer_reserve [OF TrueI _ fresh(1) res, simplified, unfolded fresh]
  show ?thesis
  proof (cases "heap_oracle h (heap_requests h)")
    case True
    obtain r2 b2 h2 where app: "plan_append_hex (plan_wire plan) b1 h1 = (r2, b2, h2)" by (metis prod_cases3)
    have eq: "r = r2" "b = Some b2" "h' = h2"
      using run True r1 app unfolding plan_encode_steps [OF ok] res by simp_all
    have "fst (plan_append_hex (plan_wire plan) b1 h1) = VPS_PLANNER_OK"
      using True r1 b1 n by (intro system.append_hex_reserved) simp_all
    then have "r2 = VPS_PLANNER_OK" by (simp add: app)
    moreover have "buffer_contents b2 = plan_hex (plan_wire plan)" "heap_live h2 = heap_live h + buffer_blocks b2"
      using system.append_hex [OF TrueI _ _ _ app] b1 calculation by simp_all
    moreover have "vps_plan_decode (Some (map byte_char (plan_hex (plan_wire plan)))) (plan_source_fingerprint plan) =
        (VPS_PLANNER_OK, Some plan)"
      using ok plan_hex_lower [of "plan_wire plan"] unfolding plan_decode_iff by simp
    ultimately show ?thesis using True eq by simp
  next
    case False
    then show ?thesis using run r1 unfolding plan_encode_steps [OF ok] res by simp
  qed
qed

theorem plan_encode_roundtrip_witness:
  "case vps_planner_compile (Some example_request) of
     (_, Some plan, _) \<Rightarrow>
       (case vps_plan_encode (Some plan) (Some system_allocator) witness_heap of
          (result, b, _) \<Rightarrow> result = VPS_PLANNER_OK \<and>
            vps_plan_decode (Some (map byte_char (buffer_contents (the b)))) 77 = (VPS_PLANNER_OK, Some plan))
   | _ \<Rightarrow> False"
proof -
  obtain plan logger where run: "vps_planner_compile (Some example_request) = (VPS_PLANNER_OK, Some plan, logger)"
    using example_compiles by blast
  note spec = compiled_specD(1,2) [OF planner_compile_spec [OF run]]
  have "plan_source_fingerprint plan = 77" using spec(2) by (simp add: example_request_def)
  with plan_encode_roundtrip [OF spec(1), of witness_heap] run show ?thesis by (simp split: prod.splits)
qed

end
