(* ===== verification/Vps_Query_Source.thy ===== *)
theory Vps_Query_Source
  imports Vps_Logging
begin

text \<open>
  The lexical scanner of query sources, \<open>src/src/vps_query_source.c\<close>: it decides whether a text is a single
  read-only \<open>SELECT\<close> before the text is sent to the server, and computes the hash of its normal form.

  The query is the list of its characters, or \<open>None\<close> for a null pointer. Positions and counters are natural
  numbers: the text has at most one mebibyte and each counter is bounded by its length. The local variables of
  \<open>vps_query_source_scan\<close> with the analysis it fills are the record \<open>scan\<close>; \<open>scan_pass\<close> is one pass of its
  main loop. A pass that returns early carries the state at that moment, because the analysis keeps what was
  counted so far. The inner loops are recursions over the rest of the text.
\<close>

section \<open>Data\<close>

datatype VpsQuerySourceResult =
    VPS_QUERY_SOURCE_OK
  | VPS_QUERY_SOURCE_INVALID_ARGUMENT
  | VPS_QUERY_SOURCE_LIMIT_EXCEEDED
  | VPS_QUERY_SOURCE_INVALID_UTF8
  | VPS_QUERY_SOURCE_CONTAINS_NUL
  | VPS_QUERY_SOURCE_UNTERMINATED
  | VPS_QUERY_SOURCE_MULTIPLE_STATEMENTS
  | VPS_QUERY_SOURCE_UNSUPPORTED_ROOT
  | VPS_QUERY_SOURCE_FORBIDDEN_COMMAND
  | VPS_QUERY_SOURCE_DATA_MODIFYING_CTE
  | VPS_QUERY_SOURCE_UNRESOLVED_PARAMETER
  | VPS_QUERY_SOURCE_LOCKING_SELECT
  | VPS_QUERY_SOURCE_SELECT_INTO
  | VPS_QUERY_SOURCE_UNBALANCED

datatype VpsQuerySourceRoot = VPS_QUERY_ROOT_NONE | VPS_QUERY_ROOT_SELECT | VPS_QUERY_ROOT_WITH_SELECT

record VpsQuerySourceAnalysis =
  qa_format_version :: u32
  qa_root :: VpsQuerySourceRoot
  qa_result :: VpsQuerySourceResult
  qa_error_offset :: nat
  qa_token_count :: nat
  qa_maximum_nesting :: nat
  qa_statement_length :: nat
  qa_normalized_hash :: u64
  qa_has_terminal_semicolon :: bool

record VpsQueryWord =
  word_offset :: nat
  word_length :: nat

record scan =
  sc_offset :: nat
  sc_depth :: nat
  sc_previous :: VpsQueryWord
  sc_previous_previous :: VpsQueryWord
  sc_saw_word :: bool
  sc_saw_select :: bool
  sc_terminal :: bool
  sc_analysis :: VpsQuerySourceAnalysis

datatype scan_outcome = ScanFail VpsQuerySourceResult nat scan | ScanMore scan

abbreviation (input) VPS_QUERY_SOURCE_FORMAT_VERSION :: u32 where "VPS_QUERY_SOURCE_FORMAT_VERSION \<equiv> 1"
abbreviation (input) VPS_QUERY_SOURCE_MAX_BYTES :: nat where "VPS_QUERY_SOURCE_MAX_BYTES \<equiv> 1048576"
abbreviation (input) VPS_QUERY_SOURCE_MAX_NESTING :: nat where "VPS_QUERY_SOURCE_MAX_NESTING \<equiv> 256"
abbreviation (input) VPS_QUERY_SOURCE_MAX_TOKENS :: nat where "VPS_QUERY_SOURCE_MAX_TOKENS \<equiv> 262144"
abbreviation (input) VPS_QUERY_HASH_OFFSET :: u64 where "VPS_QUERY_HASH_OFFSET \<equiv> 1469598103934665603"
abbreviation (input) VPS_QUERY_HASH_PRIME :: u64 where "VPS_QUERY_HASH_PRIME \<equiv> 1099511628211"

section \<open>Characters and words\<close>

definition vps_query_hash_byte :: "u64 \<Rightarrow> u8 \<Rightarrow> u64" where
  "vps_query_hash_byte hash byte = (hash XOR ucast byte) * VPS_QUERY_HASH_PRIME"

text \<open>The loops that hash a span of bytes.\<close>

definition hash_bytes :: "u8 list \<Rightarrow> u64 \<Rightarrow> u64" where
  "hash_bytes bytes hash = fold (\<lambda>byte h. vps_query_hash_byte h byte) bytes hash"

definition query_span :: "string \<Rightarrow> nat \<Rightarrow> nat \<Rightarrow> string" where
  "query_span query offset n = take n (drop offset query)"

definition vps_query_word_equal :: "string \<Rightarrow> VpsQueryWord \<Rightarrow> string \<Rightarrow> bool" where
  "vps_query_word_equal query word expected =
     (if word_length word \<noteq> length expected then False
      else list_all (\<lambda>index. c_tolower (query ! (word_offset word + index)) = expected ! index)
             [0..<word_length word])"

definition vps_query_is_identifier_start :: "char \<Rightarrow> bool" where
  "vps_query_is_identifier_start c \<longleftrightarrow> c = CHR ''_'' \<or> char_code c \<ge> 0x80 \<or> c_isalpha c"

definition vps_query_is_identifier_continue :: "char \<Rightarrow> bool" where
  "vps_query_is_identifier_continue c \<longleftrightarrow>
     c = CHR ''_'' \<or> c = CHR ''$'' \<or> char_code c \<ge> 0x80 \<or> c_isalnum c"

definition vps_query_utf8_sequence_length :: "u8 list \<Rightarrow> nat option" where
  "vps_query_utf8_sequence_length bytes =
     (if bytes = [] then None
      else
        let first = hd bytes
        in if first < 0x80 then Some 1
           else
             let shape = (if first \<ge> 0xc2 \<and> first \<le> 0xdf then Some (2 :: nat, ucast (first AND 0x1f) :: u32)
                          else if first \<ge> 0xe0 \<and> first \<le> 0xef then Some (3, ucast (first AND 0x0f))
                          else if first \<ge> 0xf0 \<and> first \<le> 0xf4 then Some (4, ucast (first AND 0x07))
                          else None)
             in case shape of
                  None \<Rightarrow> None
                | Some (len, lead) \<Rightarrow>
                    if length bytes < len then None
                    else if list_ex (\<lambda>index. bytes ! index AND 0xc0 \<noteq> 0x80) [1..<len] then None
                    else
                      let codepoint = fold (\<lambda>index c. push_bit 6 c OR ucast (bytes ! index AND 0x3f))
                                        [1..<len] lead
                      in if (len = 3 \<and> codepoint < 0x800) \<or> (len = 4 \<and> codepoint < 0x10000) \<or>
                            codepoint > 0x10ffff \<or> (codepoint \<ge> 0xd800 \<and> codepoint \<le> 0xdfff)
                         then None
                         else Some len)"

definition vps_query_dollar_delimiter :: "string \<Rightarrow> nat \<Rightarrow> nat option" where
  "vps_query_dollar_delimiter query offset =
     (if offset \<ge> length query \<or> query ! offset \<noteq> CHR ''$'' then None
      else
        let index = offset + 1 +
              length (takeWhile (\<lambda>c. c = CHR ''_'' \<or> c_isalnum c) (drop (offset + 1) query))
        in if index \<ge> length query \<or> query ! index \<noteq> CHR ''$'' then None
           else Some (index - offset + 1))"

definition vps_query_words :: "string list" where
  "vps_query_words =
     [''insert'', ''update'', ''delete'', ''merge'', ''copy'', ''call'', ''do'',
      ''alter'', ''create'', ''drop'', ''truncate'', ''grant'', ''revoke'',
      ''vacuum'', ''cluster'', ''reindex'', ''refresh'', ''lock'', ''listen'',
      ''unlisten'', ''notify'', ''set'', ''reset'', ''discard'', ''prepare'',
      ''execute'', ''deallocate'', ''begin'', ''start'', ''commit'', ''rollback'',
      ''savepoint'', ''release'']"

definition vps_query_forbidden_word :: "string \<Rightarrow> VpsQueryWord \<Rightarrow> bool" where
  "vps_query_forbidden_word query word = list_ex (vps_query_word_equal query word) vps_query_words"

section \<open>Names and logging\<close>

definition vps_query_source_result_name :: "VpsQuerySourceResult \<Rightarrow> string" where
  "vps_query_source_result_name result =
     (case result of
        VPS_QUERY_SOURCE_OK \<Rightarrow> ''ok''
      | VPS_QUERY_SOURCE_INVALID_ARGUMENT \<Rightarrow> ''invalid_argument''
      | VPS_QUERY_SOURCE_LIMIT_EXCEEDED \<Rightarrow> ''limit_exceeded''
      | VPS_QUERY_SOURCE_INVALID_UTF8 \<Rightarrow> ''invalid_utf8''
      | VPS_QUERY_SOURCE_CONTAINS_NUL \<Rightarrow> ''contains_nul''
      | VPS_QUERY_SOURCE_UNTERMINATED \<Rightarrow> ''unterminated''
      | VPS_QUERY_SOURCE_MULTIPLE_STATEMENTS \<Rightarrow> ''multiple_statements''
      | VPS_QUERY_SOURCE_UNSUPPORTED_ROOT \<Rightarrow> ''unsupported_root''
      | VPS_QUERY_SOURCE_FORBIDDEN_COMMAND \<Rightarrow> ''forbidden_command''
      | VPS_QUERY_SOURCE_DATA_MODIFYING_CTE \<Rightarrow> ''data_modifying_cte''
      | VPS_QUERY_SOURCE_UNRESOLVED_PARAMETER \<Rightarrow> ''unresolved_parameter''
      | VPS_QUERY_SOURCE_LOCKING_SELECT \<Rightarrow> ''locking_select''
      | VPS_QUERY_SOURCE_SELECT_INTO \<Rightarrow> ''select_into''
      | VPS_QUERY_SOURCE_UNBALANCED \<Rightarrow> ''unbalanced'')"

definition vps_query_source_root_name :: "VpsQuerySourceRoot \<Rightarrow> string" where
  "vps_query_source_root_name root =
     (case root of
        VPS_QUERY_ROOT_SELECT \<Rightarrow> ''select''
      | VPS_QUERY_ROOT_WITH_SELECT \<Rightarrow> ''with_select''
      | VPS_QUERY_ROOT_NONE \<Rightarrow> ''none'')"

definition vps_query_log :: "'c VpsLogger option \<Rightarrow> VpsQuerySourceAnalysis \<Rightarrow> 'c VpsLogger option" where
  "vps_query_log logger analysis =
     log_emit_each logger
       (if qa_result analysis = VPS_QUERY_SOURCE_OK then VPS_LOG_LEVEL_DEBUG else VPS_LOG_LEVEL_WARN)
       [LogStr VPS_LOG_FIELD_OPERATION ''query_scan'',
        LogStr VPS_LOG_FIELD_PHASE (vps_query_source_root_name (qa_root analysis)),
        LogStr VPS_LOG_FIELD_STATUS (vps_query_source_result_name (qa_result analysis)),
        LogNum VPS_LOG_FIELD_BYTE_COUNT (of_nat (qa_error_offset analysis)),
        LogNum VPS_LOG_FIELD_ROW_COUNT (of_nat (qa_token_count analysis)),
        LogNum VPS_LOG_FIELD_QUERY_FINGERPRINT (qa_normalized_hash analysis)]"

definition vps_query_fail ::
    "VpsQuerySourceAnalysis \<Rightarrow> VpsQuerySourceResult \<Rightarrow> nat \<Rightarrow> 'c VpsLogger option \<Rightarrow>
     VpsQuerySourceResult \<times> VpsQuerySourceAnalysis \<times> 'c VpsLogger option" where
  "vps_query_fail analysis result offset logger =
     (let analysis' = analysis\<lparr>qa_result := result, qa_error_offset := offset\<rparr>
      in (result, analysis', vps_query_log logger analysis'))"

section \<open>The inner loops\<close>

text \<open>A block comment. The arguments are the rest of the text, its position and the open comments; the result
  is the position after the comment, or the reason and position of a failure.\<close>

fun comment_loop :: "string \<Rightarrow> nat \<Rightarrow> nat \<Rightarrow> (VpsQuerySourceResult \<times> nat) + nat" where
  "comment_loop rest offset comment_depth =
     (if comment_depth = 0 then Inr offset
      else case rest of
        [] \<Rightarrow> Inl (VPS_QUERY_SOURCE_UNTERMINATED, offset)
      | c # later \<Rightarrow>
          if c = CHR ''/'' \<and> later \<noteq> [] \<and> hd later = CHR ''*''
          then if comment_depth + 1 > VPS_QUERY_SOURCE_MAX_NESTING
               then Inl (VPS_QUERY_SOURCE_LIMIT_EXCEEDED, offset)
               else comment_loop (tl later) (offset + 2) (comment_depth + 1)
          else if c = CHR ''*'' \<and> later \<noteq> [] \<and> hd later = CHR ''/''
          then comment_loop (tl later) (offset + 2) (comment_depth - 1)
          else comment_loop later (offset + 1) comment_depth)"

text \<open>A quoted string or identifier, from after the opening mark: the position and hash when the loop ends.\<close>

fun quote_loop :: "char \<Rightarrow> string \<Rightarrow> nat \<Rightarrow> u64 \<Rightarrow> nat \<times> u64" where
  "quote_loop quote rest offset hash =
     (case rest of
        [] \<Rightarrow> (offset, hash)
      | c # later \<Rightarrow>
          if c = quote
          then if later \<noteq> [] \<and> hd later = quote
               then quote_loop quote (tl later) (offset + 2) (vps_query_hash_byte hash (char_byte quote))
               else (offset + 1, hash)
          else if quote = CHR 0x27 \<and> c = CHR 0x5C \<and> later \<noteq> []
          then quote_loop quote (tl later) (offset + 2) (vps_query_hash_byte hash (char_byte (hd later)))
          else quote_loop quote later (offset + 1) (vps_query_hash_byte hash (char_byte c)))"

text \<open>The search for the closing delimiter of a dollar-quoted string.\<close>

function dollar_end :: "string \<Rightarrow> string \<Rightarrow> nat \<Rightarrow> nat" where
  "dollar_end query delimiter pos =
     (if pos + length delimiter \<le> length query \<and>
         query_span query pos (length delimiter) \<noteq> delimiter
      then dollar_end query delimiter (pos + 1)
      else pos)"
  by pat_completeness auto
termination
  by (relation "measure (\<lambda>(query, delimiter, pos). Suc (length query) - pos)") auto

section \<open>The main loop\<close>

abbreviation scan_hash :: "scan \<Rightarrow> u64" where "scan_hash st \<equiv> qa_normalized_hash (sc_analysis st)"

definition scan_advance :: "nat \<Rightarrow> scan \<Rightarrow> scan" where
  "scan_advance offset st = st\<lparr>sc_offset := offset\<rparr>"

definition scan_set_hash :: "u64 \<Rightarrow> scan \<Rightarrow> scan" where
  "scan_set_hash hash st = st\<lparr>sc_analysis := (sc_analysis st)\<lparr>qa_normalized_hash := hash\<rparr>\<rparr>"

definition scan_count_token :: "scan \<Rightarrow> scan" where
  "scan_count_token st =
     st\<lparr>sc_analysis := (sc_analysis st)\<lparr>qa_token_count := qa_token_count (sc_analysis st) + 1\<rparr>\<rparr>"

definition scan_quoted :: "string \<Rightarrow> char \<Rightarrow> scan \<Rightarrow> scan_outcome" where
  "scan_quoted query quote st =
     (let hash = vps_query_hash_byte (scan_hash st) (char_byte quote)
      in case quote_loop quote (drop (sc_offset st + 1) query) (sc_offset st + 1) hash of
           (offset, hash') \<Rightarrow>
             let st' = scan_set_hash hash' st
             in if offset > length query \<or> query ! (offset - 1) \<noteq> quote
                then ScanFail VPS_QUERY_SOURCE_UNTERMINATED (length query) st'
                else ScanMore (scan_count_token (scan_advance offset st')))"

definition scan_dollar :: "string \<Rightarrow> nat \<Rightarrow> scan \<Rightarrow> scan_outcome" where
  "scan_dollar query delimiter_length st =
     (let delimiter = query_span query (sc_offset st) delimiter_length;
          content = sc_offset st + delimiter_length;
          close = dollar_end query delimiter content
      in if close + delimiter_length > length query
         then ScanFail VPS_QUERY_SOURCE_UNTERMINATED (sc_offset st) st
         else
           let hash = vps_query_hash_byte (scan_hash st) (char_byte (CHR ''$''));
               hash' = hash_bytes (map char_byte (query_span query content (close - content))) hash
           in ScanMore (scan_count_token
                (scan_advance (close + delimiter_length) (scan_set_hash hash' st))))"

text \<open>A word: its extent, its contribution to the hash, what the first word and \<open>select\<close> set, and the checks on
  it and the two words before it in the order of the code.\<close>

definition query_word_at :: "string \<Rightarrow> nat \<Rightarrow> VpsQueryWord" where
  "query_word_at query start =
     \<lparr>word_offset = start,
      word_length = 1 + length (takeWhile vps_query_is_identifier_continue (drop (start + 1) query))\<rparr>"

definition word_hash :: "string \<Rightarrow> VpsQueryWord \<Rightarrow> u64 \<Rightarrow> u64" where
  "word_hash query word hash =
     vps_query_hash_byte
       (hash_bytes (map (\<lambda>c. char_byte (if char_code c < 0x80 then c_tolower c else c))
          (query_span query (word_offset word) (word_length word))) hash) 0"

definition scan_word_root :: "string \<Rightarrow> VpsQueryWord \<Rightarrow> scan \<Rightarrow> scan" where
  "scan_word_root query word st =
     (if \<not> sc_saw_word st
      then if vps_query_word_equal query word ''select''
           then st\<lparr>sc_saw_word := True, sc_saw_select := True,
                   sc_analysis := (sc_analysis st)\<lparr>qa_root := VPS_QUERY_ROOT_SELECT\<rparr>\<rparr>
           else if vps_query_word_equal query word ''with''
           then st\<lparr>sc_saw_word := True,
                   sc_analysis := (sc_analysis st)\<lparr>qa_root := VPS_QUERY_ROOT_WITH_SELECT\<rparr>\<rparr>
           else st\<lparr>sc_saw_word := True\<rparr>
      else if vps_query_word_equal query word ''select'' then st\<lparr>sc_saw_select := True\<rparr>
      else st)"

definition scan_word_verdict ::
    "string \<Rightarrow> VpsQueryWord \<Rightarrow> bool \<Rightarrow> scan \<Rightarrow> (VpsQuerySourceResult \<times> nat) option" where
  "scan_word_verdict query word first st =
     (let is = vps_query_word_equal query; previous = sc_previous st;
          previous_previous = sc_previous_previous st
      in if first \<and> \<not> is word ''select'' \<and> \<not> is word ''with''
         then Some (VPS_QUERY_SOURCE_UNSUPPORTED_ROOT, word_offset word)
         else if (is previous ''for'' \<and> (is word ''update'' \<or> is word ''share'')) \<or>
                 (is previous_previous ''for'' \<and> is previous ''key'' \<and>
                  (is word ''update'' \<or> is word ''share''))
         then Some (VPS_QUERY_SOURCE_LOCKING_SELECT, word_offset previous)
         else if vps_query_forbidden_word query word
         then Some (if qa_root (sc_analysis st) = VPS_QUERY_ROOT_WITH_SELECT \<and> \<not> sc_saw_select st
                    then VPS_QUERY_SOURCE_DATA_MODIFYING_CTE else VPS_QUERY_SOURCE_FORBIDDEN_COMMAND,
                    word_offset word)
         else if sc_saw_select st \<and> is word ''into''
         then Some (VPS_QUERY_SOURCE_SELECT_INTO, word_offset word)
         else if is previous_previous ''for'' \<and> is previous ''no'' \<and> is word ''key''
         then Some (VPS_QUERY_SOURCE_LOCKING_SELECT, word_offset previous_previous)
         else None)"

definition scan_word :: "string \<Rightarrow> scan \<Rightarrow> scan_outcome" where
  "scan_word query st0 =
     (let word = query_word_at query (sc_offset st0);
          st1 = scan_count_token (scan_advance (sc_offset st0 + word_length word) st0)
      in if qa_token_count (sc_analysis st1) > VPS_QUERY_SOURCE_MAX_TOKENS
         then ScanFail VPS_QUERY_SOURCE_LIMIT_EXCEEDED (word_offset word) st1
         else
           let st2 = scan_word_root query word (scan_set_hash (word_hash query word (scan_hash st1)) st1)
           in case scan_word_verdict query word (\<not> sc_saw_word st1) st2 of
                Some (result, offset) \<Rightarrow> ScanFail result offset st2
              | None \<Rightarrow> ScanMore (st2\<lparr>sc_previous_previous := sc_previous st2, sc_previous := word\<rparr>))"

text \<open>The end of a pass: parentheses, words and the other characters.\<close>

definition scan_nesting :: "char \<Rightarrow> scan \<Rightarrow> scan_outcome" where
  "scan_nesting c st =
     (if c = CHR ''(''
      then let depth = sc_depth st + 1
           in if depth > VPS_QUERY_SOURCE_MAX_NESTING
              then ScanFail VPS_QUERY_SOURCE_LIMIT_EXCEEDED (sc_offset st) st
              else ScanMore (st\<lparr>sc_depth := depth, sc_analysis := (sc_analysis st)\<lparr>qa_maximum_nesting :=
                     max (qa_maximum_nesting (sc_analysis st)) depth\<rparr>\<rparr>)
      else if c = CHR '')''
      then if sc_depth st = 0 then ScanFail VPS_QUERY_SOURCE_UNBALANCED (sc_offset st) st
           else ScanMore (st\<lparr>sc_depth := sc_depth st - 1\<rparr>)
      else ScanMore st)"

definition scan_token :: "string \<Rightarrow> scan \<Rightarrow> scan_outcome" where
  "scan_token query st =
     (let c = query ! sc_offset st
      in case scan_nesting c st of
           ScanFail result offset st' \<Rightarrow> ScanFail result offset st'
         | ScanMore st' \<Rightarrow>
             if vps_query_is_identifier_start c then scan_word query st'
             else
               let st'' = scan_count_token
                     (scan_set_hash (vps_query_hash_byte (scan_hash st') (char_byte c)) st')
               in if qa_token_count (sc_analysis st'') > VPS_QUERY_SOURCE_MAX_TOKENS
                  then ScanFail VPS_QUERY_SOURCE_LIMIT_EXCEEDED (sc_offset st'') st''
                  else ScanMore (scan_advance (sc_offset st'' + 1) st''))"

definition query_has :: "string \<Rightarrow> nat \<Rightarrow> string \<Rightarrow> bool" where
  "query_has query offset lexeme \<longleftrightarrow> query_span query offset (length lexeme) = lexeme"

text \<open>A pass in three parts: what is tested of every character, what is skipped, and what belongs to the
  statement.\<close>

definition scan_statement :: "string \<Rightarrow> scan \<Rightarrow> scan_outcome" where
  "scan_statement query st =
     (let offset = sc_offset st; c = query ! offset
      in if sc_terminal st then ScanFail VPS_QUERY_SOURCE_MULTIPLE_STATEMENTS offset st
         else if c = CHR '';''
         then ScanMore (scan_advance (offset + 1)
                (st\<lparr>sc_terminal := True, sc_analysis := (sc_analysis st)\<lparr>
                   qa_statement_length := offset, qa_has_terminal_semicolon := True\<rparr>\<rparr>))
         else if c = CHR 0x27 \<or> c = CHR 0x22 then scan_quoted query c st
         else if c = CHR ''$'' \<and> offset + 1 < length query \<and> c_isdigit (query ! (offset + 1))
         then ScanFail VPS_QUERY_SOURCE_UNRESOLVED_PARAMETER offset st
         else if c = CHR ''$'' \<and> vps_query_dollar_delimiter query offset \<noteq> None
         then scan_dollar query (the (vps_query_dollar_delimiter query offset)) st
         else scan_token query st)"

definition scan_ascii :: "string \<Rightarrow> scan \<Rightarrow> scan_outcome" where
  "scan_ascii query st =
     (let offset = sc_offset st
      in if c_isspace (query ! offset) then ScanMore (scan_advance (offset + 1) st)
         else if query_has query offset ''--''
         then ScanMore (scan_advance
                (offset + 2 + length (takeWhile (\<lambda>d. d \<noteq> CHR 0x0A \<and> d \<noteq> CHR 0x0D) (drop (offset + 2) query))) st)
         else if query_has query offset ''/*''
         then (case comment_loop (drop (offset + 2) query) (offset + 2) 1 of
                 Inl (result, where_failed) \<Rightarrow> ScanFail result where_failed st
               | Inr offset' \<Rightarrow> ScanMore (scan_advance offset' st))
         else scan_statement query st)"

definition scan_pass :: "string \<Rightarrow> scan \<Rightarrow> scan_outcome" where
  "scan_pass query st =
     (let offset = sc_offset st; c = query ! offset
      in if c = NUL then ScanFail VPS_QUERY_SOURCE_CONTAINS_NUL offset st
         else case vps_query_utf8_sequence_length (map char_byte (drop offset query)) of
           None \<Rightarrow> ScanFail VPS_QUERY_SOURCE_INVALID_UTF8 offset st
         | Some sequence_length \<Rightarrow>
             if char_code c \<ge> 0x80
             then ScanMore (scan_advance (offset + sequence_length)
                    (scan_set_hash
                       (hash_bytes (map char_byte (query_span query offset sequence_length)) (scan_hash st)) st))
             else scan_ascii query st)"

declare comment_loop.simps [simp del] quote_loop.simps [simp del] dollar_end.simps [simp del]


text \<open>Every pass that goes on moves forward, so the loop ends.\<close>

lemma comment_loop_forward: "comment_loop rest offset depth = Inr offset' \<Longrightarrow> offset \<le> offset'"
proof (induction rest offset depth rule: comment_loop.induct)
  case (1 rest offset depth)
  then show ?case
    by (subst (asm) (4) comment_loop.simps) (fastforce split: if_splits list.splits)
qed

lemma quote_loop_forward: "offset \<le> fst (quote_loop quote rest offset hash)"
proof (induction quote rest offset hash rule: quote_loop.induct)
  case (1 quote rest offset hash)
  then show ?case
    by (subst quote_loop.simps) (fastforce split: list.splits)
qed

lemma dollar_end_forward: "pos \<le> dollar_end query delimiter pos"
proof (induction query delimiter pos rule: dollar_end.induct)
  case (1 query delimiter pos)
  then show ?case by (subst dollar_end.simps) auto
qed

lemma scan_offset_simps [simp]:
  "sc_offset (scan_advance n st) = n" "sc_offset (scan_set_hash h st) = sc_offset st"
  "sc_offset (scan_count_token st) = sc_offset st"
  by (simp_all add: scan_advance_def scan_set_hash_def scan_count_token_def)

lemma utf8_length_pos: "vps_query_utf8_sequence_length bytes = Some n \<Longrightarrow> 0 < n"
  by (auto simp: vps_query_utf8_sequence_length_def Let_def split: if_splits)

lemma scan_word_root_offset [simp]: "sc_offset (scan_word_root query word st) = sc_offset st"
  by (simp add: scan_word_root_def)

lemma scan_word_forward: "scan_word query st = ScanMore st' \<Longrightarrow> sc_offset st < sc_offset st'"
  by (auto simp: scan_word_def Let_def query_word_at_def split: if_splits option.splits)

lemma scan_nesting_offset: "scan_nesting c st = ScanMore st' \<Longrightarrow> sc_offset st' = sc_offset st"
  by (auto simp: scan_nesting_def Let_def split: if_splits)

lemma scan_token_forward: "scan_token query st = ScanMore st' \<Longrightarrow> sc_offset st < sc_offset st'"
  by (auto simp: scan_token_def Let_def split: if_splits scan_outcome.splits
      dest!: scan_word_forward scan_nesting_offset)

lemma scan_quoted_forward: "scan_quoted query quote st = ScanMore st' \<Longrightarrow> sc_offset st < sc_offset st'"
  using quote_loop_forward [of "sc_offset st + 1" quote "drop (sc_offset st + 1) query"]
  by (auto simp: scan_quoted_def Let_def split: if_splits prod.splits dest: meta_spec)
    (metis Suc_le_lessD fst_conv)+

lemma scan_dollar_forward:
  assumes "scan_dollar query n st = ScanMore st'" and "0 < n"
  shows "sc_offset st < sc_offset st'"
  using assms dollar_end_forward [of "sc_offset st + n" query "query_span query (sc_offset st) n"]
  by (auto simp: scan_dollar_def Let_def split: if_splits)

lemma scan_statement_forward: "scan_statement query st = ScanMore st' \<Longrightarrow> sc_offset st < sc_offset st'"
proof -
  have "0 < n" if "vps_query_dollar_delimiter query (sc_offset st) = Some n" for n
    using that by (auto simp: vps_query_dollar_delimiter_def Let_def split: if_splits)
  then show "scan_statement query st = ScanMore st' \<Longrightarrow> sc_offset st < sc_offset st'"
    by (auto simp: scan_statement_def Let_def split: if_splits
        dest: scan_quoted_forward scan_dollar_forward scan_token_forward)
qed

lemma scan_pass_forward: "scan_pass query st = ScanMore st' \<Longrightarrow> sc_offset st < sc_offset st'"
  by (auto simp: scan_pass_def scan_ascii_def Let_def split: if_splits option.splits sum.splits prod.splits
      dest: utf8_length_pos scan_statement_forward comment_loop_forward)

function scan_loop :: "string \<Rightarrow> scan \<Rightarrow> scan_outcome" where
  "scan_loop query st =
     (if sc_offset st < length query
      then (case scan_pass query st of
              ScanFail result offset st' \<Rightarrow> ScanFail result offset st'
            | ScanMore st' \<Rightarrow> scan_loop query st')
      else ScanMore st)"
  by pat_completeness auto
termination
  by (relation "measure (\<lambda>(query, st). length query - sc_offset st)") (auto dest: scan_pass_forward)

declare scan_loop.simps [simp del]


section \<open>The scanner\<close>

definition empty_analysis :: "nat \<Rightarrow> VpsQuerySourceAnalysis" where
  "empty_analysis query_length =
     \<lparr>qa_format_version = VPS_QUERY_SOURCE_FORMAT_VERSION, qa_root = VPS_QUERY_ROOT_NONE,
      qa_result = VPS_QUERY_SOURCE_INVALID_ARGUMENT, qa_error_offset = 0, qa_token_count = 0,
      qa_maximum_nesting = 0, qa_statement_length = query_length,
      qa_normalized_hash = VPS_QUERY_HASH_OFFSET, qa_has_terminal_semicolon = False\<rparr>"

definition scan_start :: "nat \<Rightarrow> scan" where
  "scan_start query_length =
     \<lparr>sc_offset = 0, sc_depth = 0, sc_previous = \<lparr>word_offset = 0, word_length = 0\<rparr>,
      sc_previous_previous = \<lparr>word_offset = 0, word_length = 0\<rparr>, sc_saw_word = False,
      sc_saw_select = False, sc_terminal = False, sc_analysis = empty_analysis query_length\<rparr>"

text \<open>What follows the main loop.\<close>

definition scan_finish :: "string \<Rightarrow> scan_outcome \<Rightarrow> scan_outcome" where
  "scan_finish query outcome =
     (case outcome of
        ScanFail result offset st \<Rightarrow> ScanFail result offset st
      | ScanMore st \<Rightarrow>
          if \<not> sc_saw_word st \<or> \<not> sc_saw_select st
          then ScanFail VPS_QUERY_SOURCE_UNSUPPORTED_ROOT (length query) st
          else if sc_depth st \<noteq> 0 then ScanFail VPS_QUERY_SOURCE_UNBALANCED (length query) st
          else ScanMore st)"

definition vps_query_source_scan ::
    "string option \<Rightarrow> nat \<Rightarrow> 'c VpsLogger option \<Rightarrow>
     VpsQuerySourceResult \<times> VpsQuerySourceAnalysis \<times> 'c VpsLogger option" where
  "vps_query_source_scan query_ptr query_length logger =
     (if query_ptr = None \<or> query_length = 0
      then vps_query_fail (empty_analysis query_length) VPS_QUERY_SOURCE_INVALID_ARGUMENT 0 logger
      else if query_length > VPS_QUERY_SOURCE_MAX_BYTES
      then vps_query_fail (empty_analysis query_length) VPS_QUERY_SOURCE_LIMIT_EXCEEDED query_length logger
      else
        let query = take query_length (the query_ptr)
        in case scan_finish query (scan_loop query (scan_start query_length)) of
             ScanFail result offset st \<Rightarrow> vps_query_fail (sc_analysis st) result offset logger
           | ScanMore st \<Rightarrow>
               let analysis = (sc_analysis st)\<lparr>qa_result := VPS_QUERY_SOURCE_OK,
                                               qa_error_offset := query_length\<rparr>
               in (VPS_QUERY_SOURCE_OK, analysis, vps_query_log logger analysis))"

section \<open>Lexemes\<close>

text \<open>How a text is taken apart. \<open>lexed query offset tokens\<close>: the text up to \<open>offset\<close> consists of spaces, comments
  and the given tokens. A token carries the bytes it adds to the normal form of the query.\<close>

datatype token =
    WordToken VpsQueryWord string
  | QuotedToken "u8 list"
  | DollarToken "u8 list"
  | SymbolToken char
  | SemicolonToken nat
  | BytesToken "u8 list"

definition lower_word :: "string \<Rightarrow> VpsQueryWord \<Rightarrow> string" where
  "lower_word query word =
     map (\<lambda>c. if char_code c < 0x80 then c_tolower c else c)
       (query_span query (word_offset word) (word_length word))"

text \<open>The bytes of a quoted token: the opening mark, then what the loop hashes.\<close>

fun quote_bytes :: "char \<Rightarrow> string \<Rightarrow> u8 list" where
  "quote_bytes quote rest =
     (case rest of
        [] \<Rightarrow> []
      | c # later \<Rightarrow>
          if c = quote
          then if later \<noteq> [] \<and> hd later = quote then char_byte quote # quote_bytes quote (tl later) else []
          else if quote = CHR 0x27 \<and> c = CHR 0x5C \<and> later \<noteq> []
          then char_byte (hd later) # quote_bytes quote (tl later)
          else char_byte c # quote_bytes quote later)"

text \<open>How many characters the loop consumes.\<close>

fun quote_extent :: "char \<Rightarrow> string \<Rightarrow> nat" where
  "quote_extent quote rest =
     (case rest of
        [] \<Rightarrow> 0
      | c # later \<Rightarrow>
          if c = quote
          then if later \<noteq> [] \<and> hd later = quote then 2 + quote_extent quote (tl later) else 1
          else if quote = CHR 0x27 \<and> c = CHR 0x5C \<and> later \<noteq> []
          then 2 + quote_extent quote (tl later)
          else 1 + quote_extent quote later)"

declare quote_bytes.simps [simp del] quote_extent.simps [simp del]

inductive lexed :: "string \<Rightarrow> nat \<Rightarrow> token list \<Rightarrow> bool" for query where
  lexed_start: "lexed query 0 []"
| lexed_bytes: "lexed query offset tokens \<Longrightarrow> offset < length query \<Longrightarrow> char_code (query ! offset) \<ge> 0x80 \<Longrightarrow>
    vps_query_utf8_sequence_length (map char_byte (drop offset query)) = Some n \<Longrightarrow>
    lexed query (offset + n) (tokens @ [BytesToken (map char_byte (query_span query offset n))])"
| lexed_space: "lexed query offset tokens \<Longrightarrow> offset < length query \<Longrightarrow> c_isspace (query ! offset) \<Longrightarrow>
    lexed query (offset + 1) tokens"
| lexed_line_comment: "lexed query offset tokens \<Longrightarrow> query_has query offset ''--'' \<Longrightarrow>
    lexed query (offset + 2 + length (takeWhile (\<lambda>d. d \<noteq> CHR 0x0A \<and> d \<noteq> CHR 0x0D) (drop (offset + 2) query)))
      tokens"
| lexed_comment: "lexed query offset tokens \<Longrightarrow> query_has query offset ''/*'' \<Longrightarrow>
    comment_loop (drop (offset + 2) query) (offset + 2) 1 = Inr offset' \<Longrightarrow> lexed query offset' tokens"
| lexed_semicolon: "lexed query offset tokens \<Longrightarrow> offset < length query \<Longrightarrow> query ! offset = CHR '';'' \<Longrightarrow>
    lexed query (offset + 1) (tokens @ [SemicolonToken offset])"
| lexed_quoted: "lexed query offset tokens \<Longrightarrow> offset < length query \<Longrightarrow> query ! offset = quote \<Longrightarrow>
    quote = CHR 0x27 \<or> quote = CHR 0x22 \<Longrightarrow>
    lexed query (offset + 1 + quote_extent quote (drop (offset + 1) query)) (tokens @ [QuotedToken (char_byte quote # quote_bytes quote (drop (offset + 1) query))])"
| lexed_dollar: "lexed query offset tokens \<Longrightarrow> vps_query_dollar_delimiter query offset = Some n \<Longrightarrow>
    close = dollar_end query (query_span query offset n) (offset + n) \<Longrightarrow> close + n \<le> length query \<Longrightarrow>
    lexed query (close + n) (tokens @ [DollarToken (char_byte (CHR ''$'') #
      map char_byte (query_span query (offset + n) (close - (offset + n))))])"
| lexed_word: "lexed query offset tokens \<Longrightarrow> offset < length query \<Longrightarrow>
    vps_query_is_identifier_start (query ! offset) \<Longrightarrow> word = query_word_at query offset \<Longrightarrow>
    lexed query (offset + word_length word) (tokens @ [WordToken word (lower_word query word)])"
| lexed_symbol: "lexed query offset tokens \<Longrightarrow> offset < length query \<Longrightarrow> query ! offset = c \<Longrightarrow>
    \<not> vps_query_is_identifier_start c \<Longrightarrow> \<not> c_isspace c \<Longrightarrow> c \<notin> {CHR '';'', CHR 0x27, CHR 0x22} \<Longrightarrow>
    lexed query (offset + 1) (tokens @ [SymbolToken c])"

fun token_bytes :: "token \<Rightarrow> u8 list" where
  "token_bytes (WordToken word s) = map char_byte s @ [0]"
| "token_bytes (QuotedToken bytes) = bytes"
| "token_bytes (DollarToken bytes) = bytes"
| "token_bytes (SymbolToken c) = [char_byte c]"
| "token_bytes (SemicolonToken offset) = []"
| "token_bytes (BytesToken bytes) = bytes"

fun token_counted :: "token \<Rightarrow> bool" where
  "token_counted (SemicolonToken offset) = False"
| "token_counted (BytesToken bytes) = False"
| "token_counted _ = True"

fun token_words :: "token list \<Rightarrow> string list" where
  "token_words [] = []"
| "token_words (WordToken word s # tokens) = s # token_words tokens"
| "token_words (_ # tokens) = token_words tokens"

lemma token_words_append [simp]: "token_words (xs @ ys) = token_words xs @ token_words ys"
  by (induction xs rule: token_words.induct) simp_all

text \<open>The nesting depth after a list of tokens, \<open>None\<close> when a parenthesis is closed that is not open or when
  the depth exceeds the limit.\<close>

fun nesting :: "token list \<Rightarrow> nat \<Rightarrow> nat option" where
  "nesting [] depth = Some depth"
| "nesting (token # tokens) depth =
     (if token = SymbolToken (CHR ''('')
      then if depth + 1 > VPS_QUERY_SOURCE_MAX_NESTING then None else nesting tokens (depth + 1)
      else if token = SymbolToken (CHR '')'')
      then if depth = 0 then None else nesting tokens (depth - 1)
      else nesting tokens depth)"

lemma nesting_append: "nesting (xs @ ys) depth = Option.bind (nesting xs depth) (nesting ys)"
  by (induction xs arbitrary: depth) simp_all

text \<open>One statement: after a semicolon there is no token but bytes outside ASCII.\<close>

definition single_statement :: "token list \<Rightarrow> bool" where
  "single_statement tokens \<longleftrightarrow>
     (\<forall>before offset later. tokens = before @ SemicolonToken offset # later \<longrightarrow>
        (\<forall>token\<in>set later. \<exists>bytes. token = BytesToken bytes))"

text \<open>The words are those of a query that only reads.\<close>

definition follows :: "string list \<Rightarrow> string list \<Rightarrow> bool" where
  "follows pattern ws \<longleftrightarrow> (\<exists>before later. ws = before @ pattern @ later)"

definition words_read_only :: "string list \<Rightarrow> bool" where
  "words_read_only ws \<longleftrightarrow>
     (ws \<noteq> [] \<longrightarrow> hd ws = ''select'' \<or> hd ws = ''with'') \<and>
     (\<forall>w\<in>set ws. w \<notin> set vps_query_words) \<and>
     \<not> follows [''for'', ''share''] ws \<and>
     \<not> follows [''for'', ''key'', ''share''] ws \<and>
     \<not> follows [''for'', ''no'', ''key''] ws \<and>
     (\<forall>before later. ws = before @ ''into'' # later \<longrightarrow> ''select'' \<notin> set before)"

section \<open>The invariant of the main loop\<close>

lemma c_tolower_high: "char_code c \<ge> 0x80 \<Longrightarrow> c_tolower c = c"
  by (simp add: c_tolower_def char_between_def)

lemma lower_word_eq: "lower_word query word = map c_tolower (query_span query (word_offset word) (word_length word))"
  by (auto simp: lower_word_def c_tolower_high)

lemma word_equal_iff:
  assumes "word_offset word + word_length word \<le> length query"
  shows "vps_query_word_equal query word expected \<longleftrightarrow> lower_word query word = expected"
proof -
  let ?s = "query_span query (word_offset word) (word_length word)"
  have len: "length ?s = word_length word" using assms by (simp add: query_span_def)
  have at: "?s ! i = query ! (word_offset word + i)" if "i < word_length word" for i
    using that assms by (simp add: query_span_def)
  have "lower_word query word = expected \<longleftrightarrow>
      word_length word = length expected \<and> (\<forall>i<word_length word. c_tolower (?s ! i) = expected ! i)"
    unfolding lower_word_eq list_eq_iff_nth_eq using len by simp
  also have "\<dots> \<longleftrightarrow> vps_query_word_equal query word expected"
    using at by (simp add: vps_query_word_equal_def list_all_iff Ball_def)
  finally show ?thesis by simp
qed

definition word_is :: "string \<Rightarrow> VpsQueryWord \<Rightarrow> string list \<Rightarrow> bool" where
  "word_is query word ws \<longleftrightarrow>
     word_offset word + word_length word \<le> length query \<and>
     (if ws = [] then word_length word = 0 else lower_word query word = last ws)"

lemma word_is_equal:
  assumes "word_is query word ws" and "expected \<noteq> []"
  shows "vps_query_word_equal query word expected \<longleftrightarrow> ws \<noteq> [] \<and> last ws = expected"
proof -
  have "vps_query_word_equal query word expected \<longleftrightarrow> lower_word query word = expected"
    using assms(1) by (intro word_equal_iff) (simp add: word_is_def)
  with assms show ?thesis
    by (auto simp: word_is_def lower_word_eq query_span_def split: if_splits)
qed

definition words_root :: "string list \<Rightarrow> VpsQuerySourceRoot" where
  "words_root ws = (case ws of [] \<Rightarrow> VPS_QUERY_ROOT_NONE
     | w # _ \<Rightarrow> if w = ''select'' then VPS_QUERY_ROOT_SELECT else VPS_QUERY_ROOT_WITH_SELECT)"

definition statement_end :: "string \<Rightarrow> token list \<Rightarrow> nat \<Rightarrow> bool" where
  "statement_end query tokens n \<longleftrightarrow>
     (if \<exists>offset. SemicolonToken offset \<in> set tokens then SemicolonToken n \<in> set tokens else n = length query)"

definition scan_inv :: "string \<Rightarrow> token list \<Rightarrow> scan \<Rightarrow> bool" where
  "scan_inv query tokens st \<longleftrightarrow>
     lexed query (sc_offset st) tokens \<and>
     (word_is query (sc_previous st) (token_words tokens) \<and>
      word_is query (sc_previous_previous st) (butlast (token_words tokens)) \<and>
      sc_saw_word st = (token_words tokens \<noteq> []) \<and>
      sc_saw_select st = (''select'' \<in> set (token_words tokens)) \<and>
      qa_root (sc_analysis st) = words_root (token_words tokens) \<and>
      words_read_only (token_words tokens)) \<and>
     nesting tokens 0 = Some (sc_depth st) \<and>
     (single_statement tokens \<and>
      sc_terminal st = (\<exists>offset. SemicolonToken offset \<in> set tokens) \<and>
      statement_end query tokens (qa_statement_length (sc_analysis st))) \<and>
     qa_normalized_hash (sc_analysis st) = hash_bytes (concat (map token_bytes tokens)) VPS_QUERY_HASH_OFFSET \<and>
     qa_token_count (sc_analysis st) = length (filter token_counted tokens)"

lemma scan_fields [simp]:
  "sc_depth (scan_advance n st) = sc_depth st" "sc_previous (scan_advance n st) = sc_previous st"
  "sc_previous_previous (scan_advance n st) = sc_previous_previous st"
  "sc_saw_word (scan_advance n st) = sc_saw_word st" "sc_saw_select (scan_advance n st) = sc_saw_select st"
  "sc_terminal (scan_advance n st) = sc_terminal st" "sc_analysis (scan_advance n st) = sc_analysis st"
  "sc_depth (scan_set_hash h st) = sc_depth st" "sc_previous (scan_set_hash h st) = sc_previous st"
  "sc_previous_previous (scan_set_hash h st) = sc_previous_previous st"
  "sc_saw_word (scan_set_hash h st) = sc_saw_word st" "sc_saw_select (scan_set_hash h st) = sc_saw_select st"
  "sc_terminal (scan_set_hash h st) = sc_terminal st"
  "sc_analysis (scan_set_hash h st) = (sc_analysis st)\<lparr>qa_normalized_hash := h\<rparr>"
  "sc_depth (scan_count_token st) = sc_depth st" "sc_previous (scan_count_token st) = sc_previous st"
  "sc_previous_previous (scan_count_token st) = sc_previous_previous st"
  "sc_saw_word (scan_count_token st) = sc_saw_word st" "sc_saw_select (scan_count_token st) = sc_saw_select st"
  "sc_terminal (scan_count_token st) = sc_terminal st"
  "sc_analysis (scan_count_token st) =
     (sc_analysis st)\<lparr>qa_token_count := qa_token_count (sc_analysis st) + 1\<rparr>"
  by (simp_all add: scan_advance_def scan_set_hash_def scan_count_token_def)

lemma hash_bytes_append: "hash_bytes (xs @ ys) h = hash_bytes ys (hash_bytes xs h)"
  by (simp add: hash_bytes_def)

lemma single_statement_snoc:
  "single_statement tokens \<Longrightarrow> (\<exists>bytes. token = BytesToken bytes) \<or> (\<nexists>offset. SemicolonToken offset \<in> set tokens) \<Longrightarrow>
     single_statement (tokens @ [token])"
  unfolding single_statement_def
proof (intro allI impI ballI)
  fix before offset later t
  assume old: "\<forall>before offset later. tokens = before @ SemicolonToken offset # later \<longrightarrow>
        (\<forall>token\<in>set later. \<exists>bytes. token = BytesToken bytes)"
    and new: "(\<exists>bytes. token = BytesToken bytes) \<or> (\<nexists>offset. SemicolonToken offset \<in> set tokens)"
    and split: "tokens @ [token] = before @ SemicolonToken offset # later" and t: "t \<in> set later"
  show "\<exists>bytes. t = BytesToken bytes"
  proof (cases later rule: rev_cases)
    case Nil
    with t show ?thesis by simp
  next
    case (snoc rest last)
    with split have "tokens = before @ SemicolonToken offset # rest" "token = last" by simp_all
    with old new t snoc show ?thesis by fastforce
  qed
qed

lemma scan_inv_skip:
  "scan_inv query tokens st \<Longrightarrow> lexed query offset tokens \<Longrightarrow> scan_inv query tokens (scan_advance offset st)"
  by (simp add: scan_inv_def)

text \<open>A token that is neither a word nor a semicolon.\<close>

lemma scan_inv_token:
  assumes inv: "scan_inv query tokens st"
    and lexed: "lexed query (sc_offset st') (tokens @ [token])"
    and kind: "token_words [token] = []" "\<nexists>offset. token = SemicolonToken offset"
      "(\<exists>bytes. token = BytesToken bytes) \<or> \<not> sc_terminal st"
    and frame: "sc_previous st' = sc_previous st" "sc_previous_previous st' = sc_previous_previous st"
      "sc_saw_word st' = sc_saw_word st" "sc_saw_select st' = sc_saw_select st" "sc_terminal st' = sc_terminal st"
      "qa_root (sc_analysis st') = qa_root (sc_analysis st)"
      "qa_statement_length (sc_analysis st') = qa_statement_length (sc_analysis st)"
    and new: "nesting [token] (sc_depth st) = Some (sc_depth st')"
      "scan_hash st' = hash_bytes (token_bytes token) (scan_hash st)"
      "qa_token_count (sc_analysis st') = qa_token_count (sc_analysis st) + (if token_counted token then 1 else 0)"
  shows "scan_inv query (tokens @ [token]) st'"
proof -
  have "single_statement (tokens @ [token])"
    using inv kind(3) by (intro single_statement_snoc) (auto simp: scan_inv_def)
  moreover have "(\<exists>offset. SemicolonToken offset \<in> set (tokens @ [token])) =
      (\<exists>offset. SemicolonToken offset \<in> set tokens)"
    using kind(2) by auto
  moreover have "statement_end query (tokens @ [token]) n = statement_end query tokens n" for n
    using kind(2) by (auto simp: statement_end_def)
  moreover have "token_words (tokens @ [token]) = token_words tokens" using kind(1) by simp
  ultimately show ?thesis
    using inv lexed frame new unfolding scan_inv_def by (simp add: nesting_append hash_bytes_append)
qed


lemma follows_snoc:
  "follows (pattern @ [x]) (ws @ [w]) \<longleftrightarrow> follows (pattern @ [x]) ws \<or> (w = x \<and> (\<exists>before. ws = before @ pattern))"
proof
  assume "follows (pattern @ [x]) (ws @ [w])"
  then obtain before later where split: "ws @ [w] = before @ (pattern @ [x]) @ later" by (auto simp: follows_def)
  show "follows (pattern @ [x]) ws \<or> (w = x \<and> (\<exists>before. ws = before @ pattern))"
  proof (cases later rule: rev_cases)
    case Nil
    with split show ?thesis by auto
  next
    case (snoc rest last)
    with split have "ws = before @ (pattern @ [x]) @ rest" by simp
    then show ?thesis unfolding follows_def by blast
  qed
next
  assume "follows (pattern @ [x]) ws \<or> (w = x \<and> (\<exists>before. ws = before @ pattern))"
  then show "follows (pattern @ [x]) (ws @ [w])"
    unfolding follows_def by (metis append.assoc append_Nil2)
qed

lemma ends_with:
  "(\<exists>before. ws = before @ [a]) \<longleftrightarrow> ws \<noteq> [] \<and> last ws = a"
  "(\<exists>before. ws = before @ [a, b]) \<longleftrightarrow> ws \<noteq> [] \<and> last ws = b \<and> butlast ws \<noteq> [] \<and> last (butlast ws) = a"
proof -
  show "(\<exists>before. ws = before @ [a]) \<longleftrightarrow> ws \<noteq> [] \<and> last ws = a"
    by (metis append_butlast_last_id snoc_eq_iff_butlast)
  have "ws = before @ [a, b] \<longleftrightarrow> ws \<noteq> [] \<and> last ws = b \<and> butlast ws = before @ [a]" for before
    by (metis (no_types) append.assoc append_Cons append_Nil append_butlast_last_id snoc_eq_iff_butlast)
  then show "(\<exists>before. ws = before @ [a, b]) \<longleftrightarrow> ws \<noteq> [] \<and> last ws = b \<and> butlast ws \<noteq> [] \<and> last (butlast ws) = a"
    by (metis append_butlast_last_id snoc_eq_iff_butlast)
qed

text \<open>What the checks on a word establish, and what they leave unchanged.\<close>

lemma scan_word_root_fields [simp]:
  "sc_previous (scan_word_root query word st) = sc_previous st"
  "sc_previous_previous (scan_word_root query word st) = sc_previous_previous st"
  "sc_depth (scan_word_root query word st) = sc_depth st"
  "sc_terminal (scan_word_root query word st) = sc_terminal st"
  "sc_saw_word (scan_word_root query word st) = True"
  "sc_saw_select (scan_word_root query word st) =
     (sc_saw_select st \<or> vps_query_word_equal query word ''select'')"
  "qa_root (sc_analysis (scan_word_root query word st)) =
     (if sc_saw_word st then qa_root (sc_analysis st)
      else if vps_query_word_equal query word ''select'' then VPS_QUERY_ROOT_SELECT
      else if vps_query_word_equal query word ''with'' then VPS_QUERY_ROOT_WITH_SELECT
      else qa_root (sc_analysis st))"
  "qa_token_count (sc_analysis (scan_word_root query word st)) = qa_token_count (sc_analysis st)"
  "qa_normalized_hash (sc_analysis (scan_word_root query word st)) = qa_normalized_hash (sc_analysis st)"
  "qa_statement_length (sc_analysis (scan_word_root query word st)) = qa_statement_length (sc_analysis st)"
  by (auto simp: scan_word_root_def)

lemma words_read_only_snoc:
  assumes "words_read_only ws" and "ws = [] \<Longrightarrow> w = ''select'' \<or> w = ''with''"
    and "w \<notin> set vps_query_words"
    and "\<not> (ws \<noteq> [] \<and> last ws = ''for'' \<and> w = ''share'')"
    and "\<not> (ws \<noteq> [] \<and> last ws = ''key'' \<and> butlast ws \<noteq> [] \<and> last (butlast ws) = ''for'' \<and> w = ''share'')"
    and "\<not> (ws \<noteq> [] \<and> last ws = ''no'' \<and> butlast ws \<noteq> [] \<and> last (butlast ws) = ''for'' \<and> w = ''key'')"
    and "\<not> (''select'' \<in> set ws \<and> w = ''into'')"
  shows "words_read_only (ws @ [w])"
proof -
  have "''select'' \<notin> set before" if "ws @ [w] = before @ ''into'' # later" for before later
    using that assms(1,7) by (cases later rule: rev_cases) (auto simp: words_read_only_def)
  moreover have "\<not> follows [''for'', ''share''] (ws @ [w])"
    using assms(1,4) follows_snoc [of "[''for'']" "''share''" ws w] ends_with(1) [of ws "''for''"]
    by (auto simp: words_read_only_def)
  moreover have "\<not> follows [''for'', ''key'', ''share''] (ws @ [w])"
    using assms(1,5) follows_snoc [of "[''for'', ''key'']" "''share''" ws w] ends_with(2) [of ws "''for''" "''key''"]
    by (auto simp: words_read_only_def)
  moreover have "\<not> follows [''for'', ''no'', ''key''] (ws @ [w])"
    using assms(1,6) follows_snoc [of "[''for'', ''no'']" "''key''" ws w] ends_with(2) [of ws "''for''" "''no''"]
    by (auto simp: words_read_only_def)
  ultimately show ?thesis
    using assms(1-3) by (auto simp: words_read_only_def hd_append)
qed


lemma query_word_bound:
  "offset < length query \<Longrightarrow>
     word_offset (query_word_at query offset) + word_length (query_word_at query offset) \<le> length query"
  using length_takeWhile_le [of vps_query_is_identifier_continue "drop (offset + 1) query"]
  by (simp add: query_word_at_def)

lemma word_hash_eq: "word_hash query word hash = hash_bytes (token_bytes (WordToken word (lower_word query word))) hash"
  by (simp add: word_hash_def lower_word_def hash_bytes_def comp_def)

lemma verdict_None:
  assumes words: "word_is query (sc_previous st) ws" "word_is query (sc_previous_previous st) (butlast ws)"
    and bound: "word_offset word + word_length word \<le> length query"
    and none: "scan_word_verdict query word first st = None"
    and old: "words_read_only ws" "first = (ws = [])"
      "sc_saw_select st = (''select'' \<in> set ws \<or> lower_word query word = ''select'')"
  shows "words_read_only (ws @ [lower_word query word])"
proof -
  note eq = word_equal_iff [OF bound] and previous = word_is_equal [OF words(1)]
    and before = word_is_equal [OF words(2)]
  have "\<not> list_ex (vps_query_word_equal query word) vps_query_words"
    using none by (auto simp: scan_word_verdict_def Let_def vps_query_forbidden_word_def split: if_splits)
  then have "lower_word query word \<notin> set vps_query_words" by (auto simp: list_ex_iff eq)
  with none old show ?thesis
    by (intro words_read_only_snoc) (auto simp: scan_word_verdict_def Let_def eq previous before split: if_splits)
qed

lemma scan_inv_word:
  assumes inv: "scan_inv query tokens st" and open_statement: "\<not> sc_terminal st"
    and start: "sc_offset st < length query" "vps_query_is_identifier_start (query ! sc_offset st)"
    and run: "scan_word query st = ScanMore st'"
  shows "\<exists>token. scan_inv query (tokens @ [token]) st'"
proof -
  let ?word = "query_word_at query (sc_offset st)"
  let ?w = "lower_word query ?word" and ?ws = "token_words tokens"
  define st1 where "st1 = scan_count_token (scan_advance (sc_offset st + word_length ?word) st)"
  define st2 where "st2 = scan_word_root query ?word (scan_set_hash (word_hash query ?word (scan_hash st1)) st1)"
  from run have verdict: "scan_word_verdict query ?word (\<not> sc_saw_word st1) st2 = None"
    and st': "st' = st2\<lparr>sc_previous_previous := sc_previous st2, sc_previous := ?word\<rparr>"
    by (auto simp: scan_word_def Let_def st1_def [symmetric] st2_def [symmetric] split: if_splits option.splits)
  note bound = query_word_bound [OF start(1)]
  note eq = word_equal_iff [OF bound]
  have st2: "sc_previous st2 = sc_previous st" "sc_previous_previous st2 = sc_previous_previous st"
    "sc_depth st2 = sc_depth st" "sc_terminal st2 = sc_terminal st" "sc_saw_word st2 = True"
    "sc_saw_select st2 = (sc_saw_select st \<or> ?w = ''select'')" "sc_offset st2 = sc_offset st + word_length ?word"
    "qa_token_count (sc_analysis st2) = qa_token_count (sc_analysis st) + 1"
    "scan_hash st2 = hash_bytes (token_bytes (WordToken ?word ?w)) (scan_hash st)"
    "qa_statement_length (sc_analysis st2) = qa_statement_length (sc_analysis st)"
    "sc_saw_word st1 = sc_saw_word st"
    by (simp_all add: st2_def st1_def eq word_hash_eq del: token_bytes.simps)
  have old: "word_is query (sc_previous st2) ?ws" "word_is query (sc_previous_previous st2) (butlast ?ws)"
    "words_read_only ?ws" "(\<not> sc_saw_word st1) = (?ws = [])"
    "sc_saw_select st2 = (''select'' \<in> set ?ws \<or> ?w = ''select'')"
    using inv unfolding scan_inv_def st2 by simp_all
  have words: "words_read_only (?ws @ [?w])"
    by (rule verdict_None [OF old(1,2) bound verdict old(3-5)])
  have root: "qa_root (sc_analysis st2) = words_root (?ws @ [?w])"
    using inv words unfolding scan_inv_def st2_def st1_def
    by (cases ?ws) (auto simp: eq words_root_def words_read_only_def)
  have lexed: "lexed query (sc_offset st2) (tokens @ [WordToken ?word ?w])"
    unfolding st2 using inv start by (intro lexed_word) (simp_all add: scan_inv_def)
  have single: "single_statement (tokens @ [WordToken ?word ?w])"
    using inv open_statement by (intro single_statement_snoc) (auto simp: scan_inv_def)
  have "word_is query ?word (?ws @ [?w])" "word_is query (sc_previous st2) ?ws"
    using bound old(1) by (simp_all add: word_is_def)
  then have "scan_inv query (tokens @ [WordToken ?word ?w]) st'"
    using inv words root lexed single unfolding scan_inv_def st'
    by (simp add: st2 nesting_append hash_bytes_append statement_end_def) auto
  then show ?thesis by blast
qed


lemma quote_loop_eq:
  "quote_loop quote rest offset hash =
     (offset + quote_extent quote rest, hash_bytes (quote_bytes quote rest) hash)"
proof (induction quote rest offset hash rule: quote_loop.induct)
  case (1 quote rest offset hash)
  show ?case
  proof (cases rest)
    case Nil
    then show ?thesis by (simp add: quote_loop.simps quote_extent.simps quote_bytes.simps hash_bytes_def)
  next
    case (Cons c later)
    then show ?thesis
      using 1 [OF Cons]
      by (subst quote_loop.simps, subst quote_extent.simps, subst quote_bytes.simps) (simp add: hash_bytes_def)
  qed
qed

lemma scan_inv_quoted:
  assumes inv: "scan_inv query tokens st" and open_statement: "\<not> sc_terminal st"
    and start: "sc_offset st < length query" "query ! sc_offset st = quote" "quote = CHR 0x27 \<or> quote = CHR 0x22"
    and run: "scan_quoted query quote st = ScanMore st'"
  shows "\<exists>token. scan_inv query (tokens @ [token]) st'"
proof -
  let ?rest = "drop (sc_offset st + 1) query"
  let ?token = "QuotedToken (char_byte quote # quote_bytes quote ?rest)"
  let ?offset = "sc_offset st + 1 + quote_extent quote ?rest"
  have st': "st' = scan_count_token (scan_advance ?offset
      (scan_set_hash (hash_bytes (quote_bytes quote ?rest) (vps_query_hash_byte (scan_hash st) (char_byte quote))) st))"
    using run by (simp add: scan_quoted_def Let_def quote_loop_eq split: if_splits)
  have "lexed query ?offset (tokens @ [?token])"
    using inv start by (intro lexed_quoted) (auto simp: scan_inv_def)
  then have "scan_inv query (tokens @ [?token]) st'"
    using open_statement by (intro scan_inv_token [OF inv]) (simp_all add: st' hash_bytes_def)
  then show ?thesis by blast
qed

lemma scan_inv_dollar:
  assumes inv: "scan_inv query tokens st" and open_statement: "\<not> sc_terminal st"
    and start: "vps_query_dollar_delimiter query (sc_offset st) = Some n"
    and run: "scan_dollar query n st = ScanMore st'"
  shows "\<exists>token. scan_inv query (tokens @ [token]) st'"
proof -
  let ?close = "dollar_end query (query_span query (sc_offset st) n) (sc_offset st + n)"
  let ?content = "map char_byte (query_span query (sc_offset st + n) (?close - (sc_offset st + n)))"
  let ?token = "DollarToken (char_byte (CHR ''$'') # ?content)"
  have st': "?close + n \<le> length query" "st' = scan_count_token (scan_advance (?close + n)
      (scan_set_hash (hash_bytes ?content (vps_query_hash_byte (scan_hash st) (char_byte (CHR ''$'')))) st))"
    using run by (auto simp: scan_dollar_def Let_def split: if_splits)
  have "lexed query (?close + n) (tokens @ [?token])"
    using inv start st'(1) by (intro lexed_dollar [where offset = "sc_offset st"]) (auto simp: scan_inv_def)
  then have "scan_inv query (tokens @ [?token]) st'"
    using open_statement by (intro scan_inv_token [OF inv]) (simp_all add: st'(2) hash_bytes_def)
  then show ?thesis by blast
qed

lemma nesting_symbol: "scan_nesting c st = ScanMore st' \<Longrightarrow> nesting [SymbolToken c] (sc_depth st) = Some (sc_depth st')"
  by (auto simp: scan_nesting_def Let_def split: if_splits)

lemma scan_nesting_frame:
  assumes "scan_nesting c st = ScanMore st'"
  shows "sc_previous st' = sc_previous st" "sc_previous_previous st' = sc_previous_previous st"
    "sc_saw_word st' = sc_saw_word st" "sc_saw_select st' = sc_saw_select st" "sc_terminal st' = sc_terminal st"
    "qa_root (sc_analysis st') = qa_root (sc_analysis st)"
    "qa_statement_length (sc_analysis st') = qa_statement_length (sc_analysis st)"
    "scan_hash st' = scan_hash st" "qa_token_count (sc_analysis st') = qa_token_count (sc_analysis st)"
    "vps_query_is_identifier_start c \<Longrightarrow> st' = st"
  using assms by (auto simp: scan_nesting_def Let_def vps_query_is_identifier_start_def c_isalpha_def char_between_def
      split: if_splits)

lemma scan_inv_rest:
  assumes inv: "scan_inv query tokens st" and open_statement: "\<not> sc_terminal st"
    and start: "sc_offset st < length query" "\<not> c_isspace (query ! sc_offset st)"
      "query ! sc_offset st \<notin> {CHR '';'', CHR 0x27, CHR 0x22}"
    and run: "scan_token query st = ScanMore st'"
  shows "\<exists>token. scan_inv query (tokens @ [token]) st'"
proof -
  let ?c = "query ! sc_offset st"
  from run obtain st1 where nest: "scan_nesting ?c st = ScanMore st1"
    by (auto simp: scan_token_def Let_def split: scan_outcome.splits)
  note frame = scan_nesting_frame [OF nest] and offset = scan_nesting_offset [OF nest]
  show ?thesis
  proof (cases "vps_query_is_identifier_start ?c")
    case True
    with frame(10) have "st1 = st" by simp
    with True nest run have "scan_word query st = ScanMore st'" by (simp add: scan_token_def)
    from scan_inv_word [OF inv open_statement start(1) True this] show ?thesis .
  next
    case False
    have st': "st' = scan_advance (sc_offset st1 + 1) (scan_count_token
        (scan_set_hash (vps_query_hash_byte (scan_hash st1) (char_byte ?c)) st1))"
      using run nest False by (auto simp: scan_token_def Let_def split: if_splits)
    have "lexed query (sc_offset st + 1) (tokens @ [SymbolToken ?c])"
      using inv start False by (intro lexed_symbol) (simp_all add: scan_inv_def)
    then have "scan_inv query (tokens @ [SymbolToken ?c]) st'"
      using open_statement nesting_symbol [OF nest]
      by (intro scan_inv_token [OF inv]) (simp_all add: st' frame(1-9) offset hash_bytes_def del: nesting.simps)
    then show ?thesis by blast
  qed
qed

lemma scan_inv_semicolon:
  assumes inv: "scan_inv query tokens st" and open_statement: "\<not> sc_terminal st"
    and start: "sc_offset st < length query" "query ! sc_offset st = CHR '';''"
  shows "scan_inv query (tokens @ [SemicolonToken (sc_offset st)]) (scan_advance (sc_offset st + 1)
    (st\<lparr>sc_terminal := True, sc_analysis := (sc_analysis st)\<lparr>
       qa_statement_length := sc_offset st, qa_has_terminal_semicolon := True\<rparr>\<rparr>))"
proof -
  have "lexed query (sc_offset st + 1) (tokens @ [SemicolonToken (sc_offset st)])"
    using inv start by (intro lexed_semicolon) (simp_all add: scan_inv_def)
  moreover have "single_statement (tokens @ [SemicolonToken (sc_offset st)])"
    using inv open_statement by (intro single_statement_snoc) (auto simp: scan_inv_def)
  ultimately show ?thesis
    using inv unfolding scan_inv_def by (simp add: nesting_append statement_end_def) auto
qed

lemma scan_statement_inv:
  assumes inv: "scan_inv query tokens st" and start: "sc_offset st < length query" "\<not> c_isspace (query ! sc_offset st)"
    and run: "scan_statement query st = ScanMore st'"
  shows "\<exists>tokens'. scan_inv query tokens' st'"
proof -
  let ?c = "query ! sc_offset st"
  have open_statement: "\<not> sc_terminal st" using run by (auto simp: scan_statement_def split: if_splits)
  consider (semicolon) "?c = CHR '';''" | (quoted) "?c \<noteq> CHR '';''" "?c = CHR 0x27 \<or> ?c = CHR 0x22"
    | (dollar) n where "?c \<notin> {CHR '';'', CHR 0x27, CHR 0x22}" "vps_query_dollar_delimiter query (sc_offset st) = Some n"
        "scan_dollar query n st = ScanMore st'"
    | (token) "?c \<notin> {CHR '';'', CHR 0x27, CHR 0x22}" "scan_token query st = ScanMore st'"
    using run open_statement by (auto simp: scan_statement_def Let_def split: if_splits)
  then show ?thesis
  proof cases
    case semicolon
    with scan_inv_semicolon [OF inv open_statement start(1)] run open_statement show ?thesis
      by (auto simp: scan_statement_def Let_def)
  next
    case quoted
    with run open_statement have "scan_quoted query ?c st = ScanMore st'" by (auto simp: scan_statement_def)
    with scan_inv_quoted [OF inv open_statement start(1) refl quoted(2)] show ?thesis by blast
  next
    case (dollar n)
    with scan_inv_dollar [OF inv open_statement] show ?thesis by blast
  next
    case token
    with scan_inv_rest [OF inv open_statement start] show ?thesis by blast
  qed
qed

lemma scan_ascii_inv:
  assumes inv: "scan_inv query tokens st" and start: "sc_offset st < length query"
    and run: "scan_ascii query st = ScanMore st'"
  shows "\<exists>tokens'. scan_inv query tokens' st'"
proof -
  have here: "lexed query (sc_offset st) tokens" using inv by (simp add: scan_inv_def)
  let ?o = "sc_offset st"
  show ?thesis
  proof (cases "c_isspace (query ! ?o)")
    case True
    with run have "st' = scan_advance (?o + 1) st" by (simp add: scan_ascii_def Let_def)
    with scan_inv_skip [OF inv lexed_space [OF here start True]] show ?thesis by auto
  next
    case graphic: False
    show ?thesis
    proof (cases "query_has query ?o ''--''")
      case True
      with run graphic have "st' = scan_advance (?o + 2 + length
          (takeWhile (\<lambda>d. d \<noteq> CHR 0x0A \<and> d \<noteq> CHR 0x0D) (drop (?o + 2) query))) st"
        by (simp add: scan_ascii_def Let_def)
      with scan_inv_skip [OF inv lexed_line_comment [OF here True]] show ?thesis by auto
    next
      case no_line: False
      show ?thesis
      proof (cases "query_has query ?o ''/*''")
        case True
        with run graphic no_line obtain offset' where
          "comment_loop (drop (?o + 2) query) (?o + 2) 1 = Inr offset'" "st' = scan_advance offset' st"
          by (auto simp: scan_ascii_def Let_def split: sum.splits)
        with scan_inv_skip [OF inv lexed_comment [OF here True]] show ?thesis by auto
      next
        case False
        with run graphic no_line have "scan_statement query st = ScanMore st'"
          by (simp add: scan_ascii_def Let_def)
        with scan_statement_inv [OF inv start graphic] show ?thesis by blast
      qed
    qed
  qed
qed

lemma scan_pass_inv:
  assumes inv: "scan_inv query tokens st" and start: "sc_offset st < length query"
    and run: "scan_pass query st = ScanMore st'"
  shows "\<exists>tokens'. scan_inv query tokens' st'"
proof -
  have here: "lexed query (sc_offset st) tokens" using inv by (simp add: scan_inv_def)
  from run obtain n where
    utf8: "vps_query_utf8_sequence_length (map char_byte (drop (sc_offset st) query)) = Some n"
    by (auto simp: scan_pass_def Let_def split: if_splits option.splits)
  show ?thesis
  proof (cases "char_code (query ! sc_offset st) \<ge> 0x80")
    case True
    with run utf8 have st': "st' = scan_advance (sc_offset st + n) (scan_set_hash
        (hash_bytes (map char_byte (query_span query (sc_offset st) n)) (scan_hash st)) st)"
      by (auto simp: scan_pass_def Let_def split: if_splits)
    have "scan_inv query (tokens @ [BytesToken (map char_byte (query_span query (sc_offset st) n))]) st'"
      using lexed_bytes [OF here start True utf8] by (intro scan_inv_token [OF inv]) (simp_all add: st')
    then show ?thesis by blast
  next
    case False
    with run utf8 have "scan_ascii query st = ScanMore st'"
      by (auto simp: scan_pass_def Let_def split: if_splits)
    with scan_ascii_inv [OF inv start] show ?thesis by blast
  qed
qed

section \<open>Failures\<close>

text \<open>A pass that fails reports a failure at a position of the text, or one before it.\<close>

lemma comment_loop_fail:
  "comment_loop rest offset depth = Inl (result, where_failed) \<Longrightarrow>
     result \<noteq> VPS_QUERY_SOURCE_OK \<and> where_failed \<le> offset + length rest"
proof (induction rest offset depth rule: comment_loop.induct)
  case (1 rest offset depth)
  have d: "depth \<noteq> 0"
  proof
    assume "depth = 0"
    then have "comment_loop rest offset depth = Inr offset" by (simp add: comment_loop.simps)
    with "1.prems" show False by simp
  qed
  show ?case
  proof (cases rest)
    case Nil
    with "1.prems" d show ?thesis by (simp add: comment_loop.simps [of "[]"])
  next
    case (Cons c later)
    then have "comment_loop rest offset depth =
        (if c = CHR ''/'' \<and> later \<noteq> [] \<and> hd later = CHR ''*''
          then if depth + 1 > VPS_QUERY_SOURCE_MAX_NESTING
               then Inl (VPS_QUERY_SOURCE_LIMIT_EXCEEDED, offset)
               else comment_loop (tl later) (offset + 2) (depth + 1)
          else if c = CHR ''*'' \<and> later \<noteq> [] \<and> hd later = CHR ''/''
          then comment_loop (tl later) (offset + 2) (depth - 1)
          else comment_loop later (offset + 1) depth)"
      using d Cons by (subst comment_loop.simps) simp
    with "1.prems" "1.IH" [OF d Cons] Cons show ?thesis
      by (cases later) (auto split: if_splits)
  qed
qed


lemma query_has_bound: "query_has query offset lexeme \<Longrightarrow> lexeme \<noteq> [] \<Longrightarrow> offset + length lexeme \<le> length query"
  by (cases "offset < length query") (auto simp: query_has_def query_span_def dest!: arg_cong [of _ lexeme length])

lemma parenthesis_not_identifier [simp]:
  "\<not> vps_query_is_identifier_start (CHR ''('')" "\<not> vps_query_is_identifier_start (CHR '')'')"
  by (simp_all add: vps_query_is_identifier_start_def c_isalpha_def char_between_def)

definition fails_in :: "string \<Rightarrow> scan_outcome \<Rightarrow> bool" where
  "fails_in query outcome \<longleftrightarrow>
     (\<forall>result offset st. outcome = ScanFail result offset st \<longrightarrow>
        result \<noteq> VPS_QUERY_SOURCE_OK \<and> offset \<le> length query)"

lemma lexed_word_offsets:
  "scan_inv query tokens st \<Longrightarrow>
     word_offset (sc_previous st) \<le> length query \<and> word_offset (sc_previous_previous st) \<le> length query"
  by (auto simp: scan_inv_def word_is_def)

lemma scan_word_fails_in:
  assumes "scan_inv query tokens st" and "sc_offset st < length query"
  shows "fails_in query (scan_word query st)"
  using assms lexed_word_offsets [OF assms(1)] query_word_bound [OF assms(2)]
  by (auto simp: fails_in_def scan_word_def scan_word_verdict_def Let_def query_word_at_def
      split: if_splits option.splits)

lemma scan_token_fails_in:
  assumes inv: "scan_inv query tokens st" and start: "sc_offset st < length query"
  shows "fails_in query (scan_token query st)"
proof (cases "vps_query_is_identifier_start (query ! sc_offset st)")
  case True
  then have "query ! sc_offset st \<noteq> CHR ''(''" "query ! sc_offset st \<noteq> CHR '')''"
    by (metis parenthesis_not_identifier(1)) (metis True parenthesis_not_identifier(2))
  then have "scan_nesting (query ! sc_offset st) st = ScanMore st" by (simp add: scan_nesting_def)
  with True have "scan_token query st = scan_word query st" by (simp add: scan_token_def Let_def)
  with scan_word_fails_in [OF assms] show ?thesis by simp
next
  case False
  with start show ?thesis
    by (auto simp: fails_in_def scan_token_def Let_def scan_nesting_def split: if_splits scan_outcome.splits)
qed

lemma scan_pass_fails_in:
  assumes inv: "scan_inv query tokens st" and start: "sc_offset st < length query"
  shows "fails_in query (scan_pass query st)"
proof -
  have "fails_in query (scan_statement query st)"
    using start scan_token_fails_in [OF assms]
    by (auto simp: fails_in_def scan_statement_def Let_def scan_quoted_def scan_dollar_def split: if_splits prod.splits)
  then have "fails_in query (scan_ascii query st)"
    using start query_has_bound [of query "sc_offset st" "''/*''"]
    by (auto simp: fails_in_def scan_ascii_def Let_def
        split: if_splits sum.splits prod.splits dest!: comment_loop_fail)
  with start show ?thesis
    by (auto simp: fails_in_def scan_pass_def Let_def split: if_splits option.splits)
qed

lemma scan_loop_inv:
  assumes "scan_inv query tokens st"
  shows "fails_in query (scan_loop query st)"
    and "scan_loop query st = ScanMore st' \<Longrightarrow>
      \<exists>tokens'. scan_inv query tokens' st' \<and> length query \<le> sc_offset st'"
proof -
  have "fails_in query (scan_loop query st) \<and> (\<forall>st'. scan_loop query st = ScanMore st' \<longrightarrow>
      (\<exists>tokens'. scan_inv query tokens' st' \<and> length query \<le> sc_offset st'))"
    using assms
  proof (induction query st arbitrary: tokens rule: scan_loop.induct)
    case (1 query st)
    show ?case
    proof (cases "sc_offset st < length query")
      case True
      show ?thesis
      proof (cases "scan_pass query st")
        case (ScanFail result offset st1)
        with scan_pass_fails_in [OF "1.prems" True] True show ?thesis
          by (simp add: scan_loop.simps [of query st] fails_in_def)
      next
        case (ScanMore st1)
        from scan_pass_inv [OF "1.prems" True ScanMore] obtain tokens1 where "scan_inv query tokens1 st1" ..
        from "1.IH" [OF True ScanMore this] True ScanMore show ?thesis
          by (simp add: scan_loop.simps [of query st])
      qed
    next
      case False
      with "1.prems" show ?thesis by (auto simp: scan_loop.simps [of query st] fails_in_def)
    qed
  qed
  then show "fails_in query (scan_loop query st)" "scan_loop query st = ScanMore st' \<Longrightarrow>
      \<exists>tokens'. scan_inv query tokens' st' \<and> length query \<le> sc_offset st'"
    by auto
qed

lemma scan_start_inv: "scan_inv query [] (scan_start (length query))"
  by (simp add: scan_inv_def scan_start_def empty_analysis_def lexed_start word_is_def words_root_def
      words_read_only_def follows_def single_statement_def statement_end_def hash_bytes_def)

section \<open>Properties\<close>


lemmas scan_eval =
  vps_query_source_scan_def scan_finish_def scan_start_def scan_loop.simps scan_pass_def scan_ascii_def
  scan_statement_def empty_analysis_def Let_def vps_query_utf8_sequence_length_def char_byte_def c_isspace_def
  query_has_def query_span_def scan_token_def scan_nesting_def vps_query_is_identifier_start_def
  c_isalpha_def char_between_def scan_word_def query_word_at_def vps_query_is_identifier_continue_def
  c_isalnum_def c_isdigit_def scan_count_token_def scan_advance_def scan_set_hash_def scan_word_root_def
  vps_query_word_equal_def scan_word_verdict_def vps_query_forbidden_word_def vps_query_words_def c_tolower_def
  scan_quoted_def quote_loop_eq quote_extent.simps upt_rec char_of_eq_iff vps_query_fail_def


section \<open>Where the scanner departs from PostgreSQL\<close>

text \<open>A text that ends with an opening quotation mark is accepted: the test for an unterminated literal looks
  at the last character consumed, which is the opening mark itself.\<close>

lemma scan_accepts_open_quote:
  "fst (vps_query_source_scan (Some (''SELECT '' @ [CHR 0x27])) 8 (None :: unit VpsLogger option)) =
     VPS_QUERY_SOURCE_OK"
  by (simp add: scan_eval)

text \<open>A backslash hides the next quotation mark from the scanner, although the session sets
  \<open>standard_conforming_strings\<close>, under which the literal ends there: two statements pass as one.\<close>

lemma scan_accepts_backslash:
  "fst (vps_query_source_scan (Some (''SELECT '' @ [CHR 0x27, CHR 0x5C, CHR 0x27] @ ''; DROP TABLE t; --'' @ [CHR 0x27]))
     29 (None :: unit VpsLogger option)) = VPS_QUERY_SOURCE_OK"
  by (simp add: scan_eval)

text \<open>An identifier that starts with a letter outside ASCII is cut after that letter; when the rest of it is a
  command word, the query is refused.\<close>

lemma scan_splits_identifier:
  "fst (vps_query_source_scan (Some (''SELECT '' @ [CHR 0xC3, CHR 0xA4] @ ''set'')) 12 (None :: unit VpsLogger option)) =
     VPS_QUERY_SOURCE_FORBIDDEN_COMMAND"
  by (simp add: scan_eval)

end
