(* ===== verification/Vps_Query_Boundary.thy ===== *)
theory Vps_Query_Boundary
  imports Vps_Logging
begin

text \<open>
  The boundary of a read-only query, \<open>src/src/vps_query_boundary.c\<close>: it opens a read-only transaction, sets its
  local options, meters the rows that come back and ends the transaction.

  The executor is a table of functions that the client provides. Their state \<open>'x\<close> stands for the context and the
  error object, which the boundary only hands on to them. A null function pointer is \<open>None\<close>, and so is a null
  boundary. The search path is the text in memory at the pointer; the object size of the executor is that of a
  64-bit target.
\<close>

section \<open>Data\<close>

datatype VpsQueryBoundaryResult =
    VPS_QUERY_BOUNDARY_OK
  | VPS_QUERY_BOUNDARY_INVALID_ARGUMENT
  | VPS_QUERY_BOUNDARY_INVALID_STATE
  | VPS_QUERY_BOUNDARY_CLIENT_ERROR
  | VPS_QUERY_BOUNDARY_ROW_LIMIT
  | VPS_QUERY_BOUNDARY_BYTE_LIMIT
  | VPS_QUERY_BOUNDARY_DEADLINE
  | VPS_QUERY_BOUNDARY_ROLLBACK_ERROR

datatype VpsQueryBoundaryState =
    VPS_QUERY_BOUNDARY_NEW
  | VPS_QUERY_BOUNDARY_STARTING
  | VPS_QUERY_BOUNDARY_ACTIVE
  | VPS_QUERY_BOUNDARY_COMMITTING
  | VPS_QUERY_BOUNDARY_COMMITTED
  | VPS_QUERY_BOUNDARY_ROLLING_BACK
  | VPS_QUERY_BOUNDARY_ROLLED_BACK
  | VPS_QUERY_BOUNDARY_FAILED

record VpsQueryBoundaryPolicy =
  policy_search_path :: "string option"
  policy_search_path_length :: size_t
  policy_statement_timeout_ms :: u64
  policy_lock_timeout_ms :: u64
  policy_max_rows :: u64
  policy_max_bytes :: u64
  policy_deadline_ms :: u64

record 'x VpsQueryBoundaryExecutor =
  executor_structure_size :: u32
  executor_format_version :: u32
  begin_read_only :: "('x \<Rightarrow> VpsQueryBoundaryResult \<times> 'x) option"
  configure_local :: "(VpsQueryBoundaryPolicy \<Rightarrow> 'x \<Rightarrow> VpsQueryBoundaryResult \<times> 'x) option"
  executor_commit :: "('x \<Rightarrow> VpsQueryBoundaryResult \<times> 'x) option"
  executor_rollback :: "('x \<Rightarrow> VpsQueryBoundaryResult \<times> 'x) option"

record ('x, 'c) VpsQueryBoundary =
  boundary_executor :: "'x VpsQueryBoundaryExecutor"
  boundary_policy :: VpsQueryBoundaryPolicy
  boundary_logger :: "'c VpsLogger option"
  boundary_state :: VpsQueryBoundaryState
  boundary_row_count :: u64
  boundary_byte_count :: u64
  boundary_started_ms :: u64
  boundary_initialized :: bool

abbreviation (input) VPS_QUERY_BOUNDARY_FORMAT_VERSION :: u32 where "VPS_QUERY_BOUNDARY_FORMAT_VERSION \<equiv> 1"
abbreviation (input) VPS_QUERY_BOUNDARY_MAX_SEARCH_PATH_BYTES :: size_t where
  "VPS_QUERY_BOUNDARY_MAX_SEARCH_PATH_BYTES \<equiv> 1024"
abbreviation (input) sizeof_VpsQueryBoundaryExecutor :: u32 where "sizeof_VpsQueryBoundaryExecutor \<equiv> 48"

section \<open>Operations\<close>

definition vps_query_boundary_policy_valid :: "VpsQueryBoundaryPolicy option \<Rightarrow> bool" where
  "vps_query_boundary_policy_valid policy_ptr =
     (case policy_ptr of
        None \<Rightarrow> False
      | Some policy \<Rightarrow>
          if policy_search_path policy = None \<or> policy_search_path_length policy = 0 \<or>
             policy_search_path_length policy > VPS_QUERY_BOUNDARY_MAX_SEARCH_PATH_BYTES \<or>
             policy_statement_timeout_ms policy = 0 \<or> policy_lock_timeout_ms policy = 0 \<or>
             policy_max_rows policy = 0 \<or> policy_max_bytes policy = 0 \<or> policy_deadline_ms policy = 0
          then False
          else list_all (\<lambda>c. \<not> (char_code c = 0 \<or> char_code c < 0x20 \<or> char_code c = 0x7f))
                 (take (unat (policy_search_path_length policy)) (the (policy_search_path policy))))"

definition vps_query_boundary_result_name :: "VpsQueryBoundaryResult \<Rightarrow> string" where
  "vps_query_boundary_result_name result =
     (case result of
        VPS_QUERY_BOUNDARY_OK \<Rightarrow> ''ok''
      | VPS_QUERY_BOUNDARY_INVALID_ARGUMENT \<Rightarrow> ''invalid_argument''
      | VPS_QUERY_BOUNDARY_INVALID_STATE \<Rightarrow> ''invalid_state''
      | VPS_QUERY_BOUNDARY_CLIENT_ERROR \<Rightarrow> ''client_error''
      | VPS_QUERY_BOUNDARY_ROW_LIMIT \<Rightarrow> ''row_limit''
      | VPS_QUERY_BOUNDARY_BYTE_LIMIT \<Rightarrow> ''byte_limit''
      | VPS_QUERY_BOUNDARY_DEADLINE \<Rightarrow> ''deadline''
      | VPS_QUERY_BOUNDARY_ROLLBACK_ERROR \<Rightarrow> ''rollback_error'')"

definition vps_query_boundary_state_name :: "VpsQueryBoundaryState \<Rightarrow> string" where
  "vps_query_boundary_state_name state =
     (case state of
        VPS_QUERY_BOUNDARY_NEW \<Rightarrow> ''new''
      | VPS_QUERY_BOUNDARY_STARTING \<Rightarrow> ''starting''
      | VPS_QUERY_BOUNDARY_ACTIVE \<Rightarrow> ''active''
      | VPS_QUERY_BOUNDARY_COMMITTING \<Rightarrow> ''committing''
      | VPS_QUERY_BOUNDARY_COMMITTED \<Rightarrow> ''committed''
      | VPS_QUERY_BOUNDARY_ROLLING_BACK \<Rightarrow> ''rolling_back''
      | VPS_QUERY_BOUNDARY_ROLLED_BACK \<Rightarrow> ''rolled_back''
      | VPS_QUERY_BOUNDARY_FAILED \<Rightarrow> ''failed'')"

definition vps_query_boundary_log ::
    "('x, 'c) VpsQueryBoundary \<Rightarrow> VpsQueryBoundaryResult \<Rightarrow> VpsLogLevel \<Rightarrow> ('x, 'c) VpsQueryBoundary" where
  "vps_query_boundary_log boundary result level =
     boundary\<lparr>boundary_logger := log_emit_each (boundary_logger boundary) level
       [LogStr VPS_LOG_FIELD_OPERATION ''query_boundary'',
        LogStr VPS_LOG_FIELD_PHASE (vps_query_boundary_state_name (boundary_state boundary)),
        LogStr VPS_LOG_FIELD_STATUS (vps_query_boundary_result_name result),
        LogNum VPS_LOG_FIELD_ROW_COUNT (boundary_row_count boundary),
        LogNum VPS_LOG_FIELD_BYTE_COUNT (boundary_byte_count boundary)]\<rparr>"

definition vps_query_boundary_init ::
    "('x, 'c) VpsQueryBoundary option \<Rightarrow> 'x VpsQueryBoundaryExecutor option \<Rightarrow> VpsQueryBoundaryPolicy option \<Rightarrow>
     'c VpsLogger option \<Rightarrow> VpsQueryBoundaryResult \<times> ('x, 'c) VpsQueryBoundary option" where
  "vps_query_boundary_init boundary executor_ptr policy logger =
     (if boundary = None \<or> executor_ptr = None \<or>
         executor_structure_size (the executor_ptr) < sizeof_VpsQueryBoundaryExecutor \<or>
         executor_format_version (the executor_ptr) \<noteq> VPS_QUERY_BOUNDARY_FORMAT_VERSION \<or>
         begin_read_only (the executor_ptr) = None \<or> configure_local (the executor_ptr) = None \<or>
         executor_commit (the executor_ptr) = None \<or> executor_rollback (the executor_ptr) = None \<or>
         \<not> vps_query_boundary_policy_valid policy
      then (VPS_QUERY_BOUNDARY_INVALID_ARGUMENT, boundary)
      else (VPS_QUERY_BOUNDARY_OK,
            Some \<lparr>boundary_executor = the executor_ptr, boundary_policy = the policy,
                  boundary_logger = logger, boundary_state = VPS_QUERY_BOUNDARY_NEW,
                  boundary_row_count = 0, boundary_byte_count = 0, boundary_started_ms = 0,
                  boundary_initialized = True\<rparr>))"

text \<open>From here on a boundary is the one \<open>vps_query_boundary_init\<close> made, so its function pointers are not null.\<close>

definition vps_query_boundary_rollback ::
    "('x, 'c) VpsQueryBoundary \<Rightarrow> 'x \<Rightarrow> VpsQueryBoundaryResult \<Rightarrow>
     VpsQueryBoundaryResult \<times> ('x, 'c) VpsQueryBoundary \<times> 'x" where
  "vps_query_boundary_rollback boundary x cause =
     (let rolling = boundary\<lparr>boundary_state := VPS_QUERY_BOUNDARY_ROLLING_BACK\<rparr>
      in case the (executor_rollback (boundary_executor rolling)) x of
           (rollback_result, x') \<Rightarrow>
             if rollback_result \<noteq> VPS_QUERY_BOUNDARY_OK
             then (VPS_QUERY_BOUNDARY_ROLLBACK_ERROR,
                   vps_query_boundary_log (rolling\<lparr>boundary_state := VPS_QUERY_BOUNDARY_FAILED\<rparr>)
                     VPS_QUERY_BOUNDARY_ROLLBACK_ERROR VPS_LOG_LEVEL_ERROR, x')
             else (cause,
                   vps_query_boundary_log (rolling\<lparr>boundary_state := VPS_QUERY_BOUNDARY_ROLLED_BACK\<rparr>) cause
                     (if cause = VPS_QUERY_BOUNDARY_OK then VPS_LOG_LEVEL_INFO else VPS_LOG_LEVEL_WARN), x'))"

definition vps_query_boundary_open ::
    "('x, 'c) VpsQueryBoundary option \<Rightarrow> u64 \<Rightarrow> 'x \<Rightarrow>
     VpsQueryBoundaryResult \<times> ('x, 'c) VpsQueryBoundary option \<times> 'x" where
  "vps_query_boundary_open boundary_ptr now_ms x =
     (if boundary_ptr = None \<or> \<not> boundary_initialized (the boundary_ptr) \<or>
         boundary_state (the boundary_ptr) \<noteq> VPS_QUERY_BOUNDARY_NEW
      then (VPS_QUERY_BOUNDARY_INVALID_STATE, boundary_ptr, x)
      else
        let boundary = (the boundary_ptr)\<lparr>boundary_state := VPS_QUERY_BOUNDARY_STARTING\<rparr>
        in case the (begin_read_only (boundary_executor boundary)) x of
             (result, x1) \<Rightarrow>
               if result \<noteq> VPS_QUERY_BOUNDARY_OK
               then (VPS_QUERY_BOUNDARY_CLIENT_ERROR,
                     Some (vps_query_boundary_log (boundary\<lparr>boundary_state := VPS_QUERY_BOUNDARY_FAILED\<rparr>)
                       VPS_QUERY_BOUNDARY_CLIENT_ERROR VPS_LOG_LEVEL_ERROR), x1)
               else
                 (case the (configure_local (boundary_executor boundary)) (boundary_policy boundary) x1 of
                    (result2, x2) \<Rightarrow>
                      if result2 \<noteq> VPS_QUERY_BOUNDARY_OK
                      then (case vps_query_boundary_rollback boundary x2 VPS_QUERY_BOUNDARY_CLIENT_ERROR of
                              (r, boundary', x3) \<Rightarrow> (r, Some boundary', x3))
                      else (VPS_QUERY_BOUNDARY_OK,
                            Some (vps_query_boundary_log
                              (boundary\<lparr>boundary_started_ms := now_ms, boundary_state := VPS_QUERY_BOUNDARY_ACTIVE\<rparr>)
                              VPS_QUERY_BOUNDARY_OK VPS_LOG_LEVEL_INFO), x2)))"

text \<open>The counting part of \<open>vps_query_boundary_observe\<close>.\<close>

definition boundary_count ::
    "('x, 'c) VpsQueryBoundary \<Rightarrow> u64 \<Rightarrow> u64 \<Rightarrow> VpsQueryBoundaryResult \<times> ('x, 'c) VpsQueryBoundary" where
  "boundary_count boundary row_bytes now_ms =
     (if boundary_row_count boundary = UINT64_MAX \<or> boundary_byte_count boundary > UINT64_MAX - row_bytes
      then (VPS_QUERY_BOUNDARY_BYTE_LIMIT, boundary)
      else
        let counted = boundary\<lparr>boundary_row_count := boundary_row_count boundary + 1,
                               boundary_byte_count := boundary_byte_count boundary + row_bytes\<rparr>
        in (if boundary_row_count counted > policy_max_rows (boundary_policy counted)
            then VPS_QUERY_BOUNDARY_ROW_LIMIT
            else if boundary_byte_count counted > policy_max_bytes (boundary_policy counted)
            then VPS_QUERY_BOUNDARY_BYTE_LIMIT
            else if now_ms < boundary_started_ms counted \<or>
                    now_ms - boundary_started_ms counted > policy_deadline_ms (boundary_policy counted)
            then VPS_QUERY_BOUNDARY_DEADLINE
            else VPS_QUERY_BOUNDARY_OK, counted))"

definition vps_query_boundary_observe ::
    "('x, 'c) VpsQueryBoundary option \<Rightarrow> u64 \<Rightarrow> u64 \<Rightarrow> 'x \<Rightarrow>
     VpsQueryBoundaryResult \<times> ('x, 'c) VpsQueryBoundary option \<times> 'x" where
  "vps_query_boundary_observe boundary_ptr row_bytes now_ms x =
     (if boundary_ptr = None \<or> \<not> boundary_initialized (the boundary_ptr) \<or>
         boundary_state (the boundary_ptr) \<noteq> VPS_QUERY_BOUNDARY_ACTIVE
      then (VPS_QUERY_BOUNDARY_INVALID_STATE, boundary_ptr, x)
      else case boundary_count (the boundary_ptr) row_bytes now_ms of
        (result, boundary) \<Rightarrow>
          if result \<noteq> VPS_QUERY_BOUNDARY_OK
          then (case vps_query_boundary_rollback boundary x result of
                  (r, boundary', x') \<Rightarrow> (r, Some boundary', x'))
          else (VPS_QUERY_BOUNDARY_OK, Some boundary, x))"

definition vps_query_boundary_finish ::
    "('x, 'c) VpsQueryBoundary option \<Rightarrow> 'x \<Rightarrow>
     VpsQueryBoundaryResult \<times> ('x, 'c) VpsQueryBoundary option \<times> 'x" where
  "vps_query_boundary_finish boundary_ptr x =
     (if boundary_ptr = None \<or> \<not> boundary_initialized (the boundary_ptr) \<or>
         boundary_state (the boundary_ptr) \<noteq> VPS_QUERY_BOUNDARY_ACTIVE
      then (VPS_QUERY_BOUNDARY_INVALID_STATE, boundary_ptr, x)
      else
        let boundary = (the boundary_ptr)\<lparr>boundary_state := VPS_QUERY_BOUNDARY_COMMITTING\<rparr>
        in case the (executor_commit (boundary_executor boundary)) x of
             (result, x') \<Rightarrow>
               if result \<noteq> VPS_QUERY_BOUNDARY_OK
               then (VPS_QUERY_BOUNDARY_CLIENT_ERROR,
                     Some (vps_query_boundary_log (boundary\<lparr>boundary_state := VPS_QUERY_BOUNDARY_FAILED\<rparr>)
                       VPS_QUERY_BOUNDARY_CLIENT_ERROR VPS_LOG_LEVEL_ERROR), x')
               else (VPS_QUERY_BOUNDARY_OK,
                     Some (vps_query_boundary_log (boundary\<lparr>boundary_state := VPS_QUERY_BOUNDARY_COMMITTED\<rparr>)
                       VPS_QUERY_BOUNDARY_OK VPS_LOG_LEVEL_INFO), x'))"

definition vps_query_boundary_fail ::
    "('x, 'c) VpsQueryBoundary option \<Rightarrow> 'x \<Rightarrow>
     VpsQueryBoundaryResult \<times> ('x, 'c) VpsQueryBoundary option \<times> 'x" where
  "vps_query_boundary_fail boundary_ptr x =
     (if boundary_ptr = None \<or> \<not> boundary_initialized (the boundary_ptr) \<or>
         boundary_state (the boundary_ptr) \<noteq> VPS_QUERY_BOUNDARY_ACTIVE
      then (VPS_QUERY_BOUNDARY_INVALID_STATE, boundary_ptr, x)
      else case vps_query_boundary_rollback (the boundary_ptr) x VPS_QUERY_BOUNDARY_CLIENT_ERROR of
        (r, boundary', x') \<Rightarrow> (r, Some boundary', x'))"

definition vps_query_boundary_cleanup ::
    "('x, 'c) VpsQueryBoundary option \<Rightarrow> 'x \<Rightarrow>
     VpsQueryBoundaryResult \<times> ('x, 'c) VpsQueryBoundary option \<times> 'x" where
  "vps_query_boundary_cleanup boundary_ptr x =
     (case boundary_ptr of
        None \<Rightarrow> (VPS_QUERY_BOUNDARY_INVALID_ARGUMENT, None, x)
      | Some boundary \<Rightarrow>
          if \<not> boundary_initialized boundary then (VPS_QUERY_BOUNDARY_OK, Some boundary, x)
          else
            (case (if boundary_state boundary = VPS_QUERY_BOUNDARY_ACTIVE
                   then vps_query_boundary_rollback boundary x VPS_QUERY_BOUNDARY_OK
                   else (VPS_QUERY_BOUNDARY_OK, boundary, x)) of
               (result, boundary', x') \<Rightarrow>
                 if boundary_state boundary' = VPS_QUERY_BOUNDARY_STARTING \<or>
                    boundary_state boundary' = VPS_QUERY_BOUNDARY_COMMITTING \<or>
                    boundary_state boundary' = VPS_QUERY_BOUNDARY_ROLLING_BACK
                 then (VPS_QUERY_BOUNDARY_INVALID_STATE, Some boundary', x')
                 else (result, Some (boundary'\<lparr>boundary_initialized := False\<rparr>), x')))"

section \<open>Calls on a boundary and the commands they send\<close>

datatype boundary_call =
    BoundaryOpen u64
  | BoundaryObserve u64 u64
  | BoundaryFinish
  | BoundaryFail
  | BoundaryCleanup

fun boundary_apply ::
    "('x, 'c) VpsQueryBoundary option \<Rightarrow> 'x \<Rightarrow> boundary_call \<Rightarrow>
     VpsQueryBoundaryResult \<times> ('x, 'c) VpsQueryBoundary option \<times> 'x" where
  "boundary_apply b x (BoundaryOpen now_ms) = vps_query_boundary_open b now_ms x"
| "boundary_apply b x (BoundaryObserve row_bytes now_ms) = vps_query_boundary_observe b row_bytes now_ms x"
| "boundary_apply b x BoundaryFinish = vps_query_boundary_finish b x"
| "boundary_apply b x BoundaryFail = vps_query_boundary_fail b x"
| "boundary_apply b x BoundaryCleanup = vps_query_boundary_cleanup b x"

definition boundary_step ::
    "('x, 'c) VpsQueryBoundary option \<times> 'x \<Rightarrow> boundary_call \<Rightarrow> ('x, 'c) VpsQueryBoundary option \<times> 'x" where
  "boundary_step s call = snd (boundary_apply (fst s) (snd s) call)"

text \<open>What the executor was asked to do and whether it did it, latest first; the executor itself is arbitrary.\<close>

datatype boundary_command = BeginReadOnly bool | ConfigureLocal bool | Commit bool | Rollback bool

definition record_command ::
    "(bool \<Rightarrow> boundary_command) \<Rightarrow> ('x \<Rightarrow> VpsQueryBoundaryResult \<times> 'x) \<Rightarrow>
     'x \<times> boundary_command list \<Rightarrow> VpsQueryBoundaryResult \<times> 'x \<times> boundary_command list" where
  "record_command command f s =
     (case f (fst s) of (r, x') \<Rightarrow> (r, x', command (r = VPS_QUERY_BOUNDARY_OK) # snd s))"

definition recording_executor ::
    "('x \<Rightarrow> VpsQueryBoundaryResult \<times> 'x) \<Rightarrow> (VpsQueryBoundaryPolicy \<Rightarrow> 'x \<Rightarrow> VpsQueryBoundaryResult \<times> 'x) \<Rightarrow>
     ('x \<Rightarrow> VpsQueryBoundaryResult \<times> 'x) \<Rightarrow> ('x \<Rightarrow> VpsQueryBoundaryResult \<times> 'x) \<Rightarrow>
     ('x \<times> boundary_command list) VpsQueryBoundaryExecutor" where
  "recording_executor begin_tx configure commit rollback =
     \<lparr>executor_structure_size = sizeof_VpsQueryBoundaryExecutor,
      executor_format_version = VPS_QUERY_BOUNDARY_FORMAT_VERSION,
      begin_read_only = Some (record_command BeginReadOnly begin_tx),
      configure_local = Some (\<lambda>policy. record_command ConfigureLocal (configure policy)),
      executor_commit = Some (record_command Commit commit),
      executor_rollback = Some (record_command Rollback rollback)\<rparr>"

text \<open>The commands that fit each state.\<close>

fun boundary_commands :: "VpsQueryBoundaryState \<Rightarrow> boundary_command list \<Rightarrow> bool" where
  "boundary_commands VPS_QUERY_BOUNDARY_NEW log = (log = [])"
| "boundary_commands VPS_QUERY_BOUNDARY_ACTIVE log = (log = [ConfigureLocal True, BeginReadOnly True])"
| "boundary_commands VPS_QUERY_BOUNDARY_COMMITTED log =
     (log = [Commit True, ConfigureLocal True, BeginReadOnly True])"
| "boundary_commands VPS_QUERY_BOUNDARY_ROLLED_BACK log =
     (\<exists>c. log = [Rollback True, ConfigureLocal c, BeginReadOnly True])"
| "boundary_commands VPS_QUERY_BOUNDARY_FAILED log =
     (log = [BeginReadOnly False] \<or> log = [Commit False, ConfigureLocal True, BeginReadOnly True] \<or>
      (\<exists>c. log = [Rollback False, ConfigureLocal c, BeginReadOnly True]))"
| "boundary_commands _ log = False"

definition boundary_inv ::
    "('x \<times> boundary_command list) VpsQueryBoundaryExecutor \<Rightarrow>
     ('x \<times> boundary_command list, 'c) VpsQueryBoundary option \<times> ('x \<times> boundary_command list) \<Rightarrow> bool" where
  "boundary_inv executor s =
     (case s of (b, x, log) \<Rightarrow>
        b \<noteq> None \<and> boundary_executor (the b) = executor \<and> boundary_commands (boundary_state (the b)) log \<and>
        (boundary_state (the b) = VPS_QUERY_BOUNDARY_ACTIVE \<longrightarrow> boundary_initialized (the b)))"

lemma boundary_log_frame [simp]:
  "boundary_state (vps_query_boundary_log b r l) = boundary_state b"
  "boundary_executor (vps_query_boundary_log b r l) = boundary_executor b"
  "boundary_initialized (vps_query_boundary_log b r l) = boundary_initialized b"
  "boundary_policy (vps_query_boundary_log b r l) = boundary_policy b"
  "boundary_row_count (vps_query_boundary_log b r l) = boundary_row_count b"
  "boundary_byte_count (vps_query_boundary_log b r l) = boundary_byte_count b"
  "boundary_started_ms (vps_query_boundary_log b r l) = boundary_started_ms b"
  by (simp_all add: vps_query_boundary_log_def)

lemma boundary_count_frame:
  assumes "boundary_count b row_bytes now_ms = (r, b')"
  shows "boundary_state b' = boundary_state b" "boundary_executor b' = boundary_executor b"
    "boundary_initialized b' = boundary_initialized b" "boundary_policy b' = boundary_policy b"
  using assms by (auto simp: boundary_count_def Let_def split: if_splits)

text \<open>A rollback is sent exactly once and leaves the boundary rolled back or failed.\<close>

lemma recording_executor_sel [simp]:
  "begin_read_only (recording_executor bt cf cm rb) = Some (record_command BeginReadOnly bt)"
  "configure_local (recording_executor bt cf cm rb) = Some (\<lambda>policy. record_command ConfigureLocal (cf policy))"
  "executor_commit (recording_executor bt cf cm rb) = Some (record_command Commit cm)"
  "executor_rollback (recording_executor bt cf cm rb) = Some (record_command Rollback rb)"
  "executor_structure_size (recording_executor bt cf cm rb) = sizeof_VpsQueryBoundaryExecutor"
  "executor_format_version (recording_executor bt cf cm rb) = VPS_QUERY_BOUNDARY_FORMAT_VERSION"
  by (simp_all add: recording_executor_def)

lemma rollback_inv:
  assumes "boundary_executor b = recording_executor bt cf cm rb"
  shows "case vps_query_boundary_rollback b (x, [ConfigureLocal c, BeginReadOnly True]) cause of (r, b', s') \<Rightarrow>
    boundary_inv (recording_executor bt cf cm rb) (Some b', s') \<and> r \<in> {cause, VPS_QUERY_BOUNDARY_ROLLBACK_ERROR} \<and>
    boundary_state b' \<in> {VPS_QUERY_BOUNDARY_ROLLED_BACK, VPS_QUERY_BOUNDARY_FAILED}"
proof (cases "rb x")
  case (Pair r x')
  then show ?thesis
    by (cases "r = VPS_QUERY_BOUNDARY_OK")
      (simp_all add: vps_query_boundary_rollback_def record_command_def boundary_inv_def assms)
qed

lemma boundary_open_inv:
  assumes "boundary_inv (recording_executor bt cf cm rb) (b, x, log)"
  shows "boundary_inv (recording_executor bt cf cm rb) (snd (vps_query_boundary_open b now_ms (x, log)))"
proof (cases "boundary_initialized (the b) \<and> boundary_state (the b) = VPS_QUERY_BOUNDARY_NEW")
  case False
  with assms show ?thesis by (auto simp: vps_query_boundary_open_def boundary_inv_def)
next
  case True
  then obtain b0 where b: "b = Some b0" "boundary_executor b0 = recording_executor bt cf cm rb" "log = []"
      "boundary_initialized b0" "boundary_state b0 = VPS_QUERY_BOUNDARY_NEW"
    using assms by (auto simp: boundary_inv_def)
  obtain r1 x1 where r1: "bt x = (r1, x1)" by fastforce
  obtain r2 x2 where r2: "cf (boundary_policy b0) x1 = (r2, x2)" by fastforce
  have "case vps_query_boundary_rollback (b0\<lparr>boundary_state := VPS_QUERY_BOUNDARY_STARTING\<rparr>)
      (x2, [ConfigureLocal False, BeginReadOnly True]) VPS_QUERY_BOUNDARY_CLIENT_ERROR of (r, b', s') \<Rightarrow>
      boundary_inv (recording_executor bt cf cm rb) (Some b', s')"
    using rollback_inv [of "b0\<lparr>boundary_state := VPS_QUERY_BOUNDARY_STARTING\<rparr>" bt cf cm rb] b
    by (simp add: case_prod_beta)
  then show ?thesis
    using b r1 r2
    by (cases "r1 = VPS_QUERY_BOUNDARY_OK"; cases "r2 = VPS_QUERY_BOUNDARY_OK")
      (simp_all add: vps_query_boundary_open_def boundary_inv_def record_command_def case_prod_beta Let_def)
qed

lemma boundary_activeE:
  assumes "boundary_inv (recording_executor bt cf cm rb) (b, x, log)"
    and "boundary_state (the b) = VPS_QUERY_BOUNDARY_ACTIVE"
  obtains b0 where "b = Some b0" "boundary_executor b0 = recording_executor bt cf cm rb"
    "log = [ConfigureLocal True, BeginReadOnly True]" "boundary_initialized b0"
    "boundary_state b0 = VPS_QUERY_BOUNDARY_ACTIVE"
  using assms by (auto simp: boundary_inv_def)

lemma boundary_observe_inv:
  assumes "boundary_inv (recording_executor bt cf cm rb) (b, x, log)"
  shows "boundary_inv (recording_executor bt cf cm rb) (snd (vps_query_boundary_observe b n now_ms (x, log)))"
proof (cases "boundary_state (the b) = VPS_QUERY_BOUNDARY_ACTIVE")
  case False
  with assms show ?thesis by (auto simp: vps_query_boundary_observe_def boundary_inv_def)
next
  case True
  from assms True obtain b0 where b: "b = Some b0" "boundary_executor b0 = recording_executor bt cf cm rb"
    "log = [ConfigureLocal True, BeginReadOnly True]" "boundary_initialized b0"
    "boundary_state b0 = VPS_QUERY_BOUNDARY_ACTIVE" by (rule boundary_activeE)
  obtain r b1 where count: "boundary_count b0 n now_ms = (r, b1)" by fastforce
  note frame = boundary_count_frame [OF count]
  show ?thesis
    using b count frame rollback_inv [where bt = bt and cf = cf and cm = cm and rb = rb and b = b1 and x = x and c = True and cause = r]
    by (cases "r = VPS_QUERY_BOUNDARY_OK")
      (simp_all add: vps_query_boundary_observe_def boundary_inv_def case_prod_beta)
qed

lemma boundary_finish_inv:
  assumes "boundary_inv (recording_executor bt cf cm rb) (b, x, log)"
  shows "boundary_inv (recording_executor bt cf cm rb) (snd (vps_query_boundary_finish b (x, log)))"
proof (cases "boundary_state (the b) = VPS_QUERY_BOUNDARY_ACTIVE")
  case False
  with assms show ?thesis by (auto simp: vps_query_boundary_finish_def boundary_inv_def)
next
  case True
  from assms True obtain b0 where b: "b = Some b0" "boundary_executor b0 = recording_executor bt cf cm rb"
    "log = [ConfigureLocal True, BeginReadOnly True]" "boundary_initialized b0"
    "boundary_state b0 = VPS_QUERY_BOUNDARY_ACTIVE" by (rule boundary_activeE)
  obtain r x' where "cm x = (r, x')" by fastforce
  with b show ?thesis
    by (cases "r = VPS_QUERY_BOUNDARY_OK")
      (simp_all add: vps_query_boundary_finish_def boundary_inv_def record_command_def)
qed

lemma boundary_fail_inv:
  assumes "boundary_inv (recording_executor bt cf cm rb) (b, x, log)"
  shows "boundary_inv (recording_executor bt cf cm rb) (snd (vps_query_boundary_fail b (x, log)))"
proof (cases "boundary_state (the b) = VPS_QUERY_BOUNDARY_ACTIVE")
  case False
  with assms show ?thesis by (auto simp: vps_query_boundary_fail_def boundary_inv_def)
next
  case True
  from assms True obtain b0 where "b = Some b0" "boundary_executor b0 = recording_executor bt cf cm rb"
    "log = [ConfigureLocal True, BeginReadOnly True]" "boundary_initialized b0"
    "boundary_state b0 = VPS_QUERY_BOUNDARY_ACTIVE" by (rule boundary_activeE)
  then show ?thesis
    using rollback_inv [where bt = bt and cf = cf and cm = cm and rb = rb and b = b0 and x = x and c = True and cause = VPS_QUERY_BOUNDARY_CLIENT_ERROR]
    by (simp add: vps_query_boundary_fail_def case_prod_beta)
qed

text \<open>Cleaning up never finds the boundary in the middle of an operation, and leaves no transaction open.\<close>

definition boundary_closed :: "boundary_command list \<Rightarrow> bool" where
  "boundary_closed log \<longleftrightarrow> log = [] \<or> log = [BeginReadOnly False] \<or>
     (\<exists>ok. log = [Commit ok, ConfigureLocal True, BeginReadOnly True]) \<or>
     (\<exists>ok c. log = [Rollback ok, ConfigureLocal c, BeginReadOnly True])"

lemma boundary_commands_closed:
  "boundary_commands state log \<Longrightarrow> state \<noteq> VPS_QUERY_BOUNDARY_ACTIVE \<Longrightarrow> boundary_closed log"
  by (cases state) (auto simp: boundary_closed_def)

lemma boundary_cleanup_closes:
  assumes "boundary_inv (recording_executor bt cf cm rb) (b, x, log)"
  shows "case vps_query_boundary_cleanup b (x, log) of (r, b', s') \<Rightarrow>
    boundary_inv (recording_executor bt cf cm rb) (b', s') \<and> boundary_state (the b') \<noteq> VPS_QUERY_BOUNDARY_ACTIVE \<and>
    r \<in> {VPS_QUERY_BOUNDARY_OK, VPS_QUERY_BOUNDARY_ROLLBACK_ERROR} \<and> \<not> boundary_initialized (the b')"
proof (cases "boundary_state (the b) = VPS_QUERY_BOUNDARY_ACTIVE")
  case False
  from assms obtain b0 where b: "b = Some b0" by (auto simp: boundary_inv_def)
  have "boundary_state b0 \<notin> {VPS_QUERY_BOUNDARY_STARTING, VPS_QUERY_BOUNDARY_COMMITTING,
      VPS_QUERY_BOUNDARY_ROLLING_BACK}"
    using assms b by (cases "boundary_state b0") (simp_all add: boundary_inv_def)
  then show ?thesis
    using assms b False
    by (cases "boundary_initialized b0") (simp_all add: vps_query_boundary_cleanup_def boundary_inv_def)
next
  case True
  from assms True obtain b0 where "b = Some b0" "boundary_executor b0 = recording_executor bt cf cm rb"
    "log = [ConfigureLocal True, BeginReadOnly True]" "boundary_initialized b0"
    "boundary_state b0 = VPS_QUERY_BOUNDARY_ACTIVE" by (rule boundary_activeE)
  then show ?thesis
    using rollback_inv [where bt = bt and cf = cf and cm = cm and rb = rb and b = b0 and x = x and c = True and cause = VPS_QUERY_BOUNDARY_OK]
    by (auto simp: vps_query_boundary_cleanup_def boundary_inv_def split: prod.splits)
qed

lemma boundary_step_inv:
  assumes "boundary_inv (recording_executor bt cf cm rb) s"
  shows "boundary_inv (recording_executor bt cf cm rb) (boundary_step s call)"
proof -
  obtain b x log where s: "s = (b, x, log)" by (metis prod_cases3)
  note inv = assms [unfolded s]
  show ?thesis
    using boundary_open_inv [OF inv] boundary_observe_inv [OF inv] boundary_finish_inv [OF inv]
      boundary_fail_inv [OF inv] boundary_cleanup_closes [OF inv]
    by (cases call) (simp_all add: boundary_step_def s case_prod_beta)
qed

interpretation boundary: guarded_machine boundary_step "\<lambda>_. True" "boundary_inv (recording_executor bt cf cm rb)"
  by unfold_locales (rule boundary_step_inv)

section \<open>The meter\<close>

definition boundary_observed ::
    "('x, 'c) VpsQueryBoundary \<Rightarrow> u64 \<times> u64 \<Rightarrow> ('x, 'c) VpsQueryBoundary option" where
  "boundary_observed b row =
     (case boundary_count b (fst row) (snd row) of
        (r, b') \<Rightarrow> if r = VPS_QUERY_BOUNDARY_OK then Some b' else None)"

lemma boundary_count_ok:
  assumes "boundary_observed b row = Some b'"
  shows "b' = b\<lparr>boundary_row_count := boundary_row_count b + 1,
      boundary_byte_count := boundary_byte_count b + fst row\<rparr>"
    and "boundary_row_count b \<noteq> UINT64_MAX" and "boundary_byte_count b \<le> UINT64_MAX - fst row"
    and "boundary_row_count b + 1 \<le> policy_max_rows (boundary_policy b)"
    and "boundary_byte_count b + fst row \<le> policy_max_bytes (boundary_policy b)"
    and "boundary_started_ms b \<le> snd row"
    and "snd row - boundary_started_ms b \<le> policy_deadline_ms (boundary_policy b)"
  using assms
  by (auto simp: boundary_observed_def boundary_count_def Let_def not_less split: if_splits)

interpretation boundary_meter: row_meter boundary_observed fst boundary_row_count boundary_byte_count
  "\<lambda>b. policy_max_rows (boundary_policy b)" "\<lambda>b. policy_max_bytes (boundary_policy b)"
proof
  fix b b' :: "('x, 'c) VpsQueryBoundary" and row
  assume a: "boundary_observed b row = Some b'"
  note acc = boundary_count_ok [OF a]
  have "unat (boundary_row_count b + 1) = unat (boundary_row_count b) + 1"
    using acc(2) by (rule unat_Suc_no_wrap)
  moreover have "unat (boundary_byte_count b + fst row) = unat (boundary_byte_count b) + unat (fst row)"
    using unat_add_no_wrap [OF acc(3)] by (simp add: add.commute)
  ultimately show "unat (boundary_row_count b') = unat (boundary_row_count b) + 1 \<and>
      unat (boundary_byte_count b') = unat (boundary_byte_count b) + unat (fst row) \<and>
      boundary_row_count b' \<le> policy_max_rows (boundary_policy b) \<and>
      boundary_byte_count b' \<le> policy_max_bytes (boundary_policy b) \<and>
      policy_max_rows (boundary_policy b') = policy_max_rows (boundary_policy b) \<and>
      policy_max_bytes (boundary_policy b') = policy_max_bytes (boundary_policy b)"
    using acc by simp
qed

text \<open>Rows that are accepted one after the other: the boundary stays active, the counters are exact, and the rows
  and bytes stay within the policy.\<close>

lemma boundary_observe_accepted:
  assumes "boundary_initialized b" "boundary_state b = VPS_QUERY_BOUNDARY_ACTIVE"
    and "boundary_observed b (n, now_ms) = Some b'"
  shows "vps_query_boundary_observe (Some b) n now_ms x = (VPS_QUERY_BOUNDARY_OK, Some b', x)"
  using assms by (auto simp: vps_query_boundary_observe_def boundary_observed_def split: prod.splits if_splits)

lemma boundary_rows_accepted:
  assumes "boundary_initialized b" "boundary_state b = VPS_QUERY_BOUNDARY_ACTIVE"
    and "meter_run boundary_observed b rows = Some b'"
  shows "foldl boundary_step (Some b, x) (map (\<lambda>(n, now_ms). BoundaryObserve n now_ms) rows) = (Some b', x)"
  using assms
proof (induction rows arbitrary: b)
  case (Cons row rows)
  obtain n now_ms where row: "row = (n, now_ms)" by fastforce
  from Cons.prems(3) obtain b1 where b1: "boundary_observed b (n, now_ms) = Some b1"
    and rest: "meter_run boundary_observed b1 rows = Some b'"
    by (auto simp: row split: option.splits)
  have "boundary_initialized b1" "boundary_state b1 = VPS_QUERY_BOUNDARY_ACTIVE"
    using boundary_count_ok(1) [OF b1] Cons.prems(1,2) by simp_all
  from Cons.IH [OF this rest] boundary_observe_accepted [OF Cons.prems(1,2) b1]
  show ?case by (simp add: row boundary_step_def)
qed simp

lemma boundary_rows_within_policy:
  assumes "boundary_row_count b = 0" "boundary_byte_count b = 0"
    and "meter_run boundary_observed b rows = Some b'"
  shows "unat (boundary_row_count b') = length rows \<and>
    unat (boundary_byte_count b') = sum_list (map (unat \<circ> fst) rows) \<and>
    length rows \<le> unat (policy_max_rows (boundary_policy b)) \<and>
    sum_list (map (unat \<circ> fst) rows) \<le> unat (policy_max_bytes (boundary_policy b))"
  using boundary_meter.run_counts [OF assms(3)] boundary_meter.run_within_limits [OF assms(3)] assms(1,2)
  by (auto simp: word_le_nat_alt)

section \<open>Properties\<close>


text \<open>An executor that does what it is asked.\<close>

abbreviation willing_executor :: "(unit \<times> boundary_command list) VpsQueryBoundaryExecutor" where
  "willing_executor \<equiv> recording_executor (\<lambda>x. (VPS_QUERY_BOUNDARY_OK, x)) (\<lambda>_ x. (VPS_QUERY_BOUNDARY_OK, x))
     (\<lambda>x. (VPS_QUERY_BOUNDARY_OK, x)) (\<lambda>x. (VPS_QUERY_BOUNDARY_OK, x))"

abbreviation example_policy :: VpsQueryBoundaryPolicy where
  "example_policy \<equiv> \<lparr>policy_search_path = Some ''app'', policy_search_path_length = 3,
     policy_statement_timeout_ms = 1000, policy_lock_timeout_ms = 100, policy_max_rows = 1,
     policy_max_bytes = 4096, policy_deadline_ms = 5000\<rparr>"

lemmas boundary_eval =
  vps_query_boundary_init_def vps_query_boundary_policy_valid_def boundary_step_def vps_query_boundary_open_def
  vps_query_boundary_observe_def boundary_count_def vps_query_boundary_rollback_def record_command_def
  vps_query_boundary_log_def vps_query_boundary_cleanup_def log_emit_each_def Let_def

abbreviation example_boundary :: "VpsQueryBoundaryState \<Rightarrow> (unit \<times> boundary_command list, unit) VpsQueryBoundary" where
  "example_boundary state \<equiv> \<lparr>boundary_executor = willing_executor, boundary_policy = example_policy,
     boundary_logger = None, boundary_state = state, boundary_row_count = 0, boundary_byte_count = 0,
     boundary_started_ms = 0, boundary_initialized = True\<rparr>"


end
