(* ===== verification/Vps_Row_Identity.thy ===== *)
theory Vps_Row_Identity
  imports Vps_Bytes
begin

text \<open>
  Row identities, \<open>src/src/vps_row_identity.c\<close>: the rowid SQLite sees for a row with an integer key, the token that
  carries the key of a row (and the value of its version column) through a hidden column, and the counter for rows
  without a key.

  Byte strings are lists; \<open>None\<close> is a null pointer. The integer of a field is a 64-bit word that \<open>sint\<close> reads. The
  fields of a decoded view are a list of \<open>key_field_count\<close> fields. A decoded field points into the token; here it
  holds the bytes it points to.
\<close>

section \<open>Data\<close>

datatype VpsClientValueFormat = VPS_CLIENT_VALUE_TEXT | VPS_CLIENT_VALUE_BINARY

record VpsClientColumnView =
  column_data :: "string option"
  column_length :: size_t
  column_type_oid :: u32
  column_format :: VpsClientValueFormat
  column_is_null :: bool

datatype VpsRowIdentityMode =
    VPS_ROW_IDENTITY_STABLE_INTEGER
  | VPS_ROW_IDENTITY_HIDDEN_TOKEN
  | VPS_ROW_IDENTITY_SCAN_LOCAL

datatype VpsRowIdentityResult =
    VPS_ROW_IDENTITY_OK
  | VPS_ROW_IDENTITY_INVALID_ARGUMENT
  | VPS_ROW_IDENTITY_MALFORMED
  | VPS_ROW_IDENTITY_LIMIT
  | VPS_ROW_IDENTITY_OUT_OF_MEMORY

datatype VpsRowIdentityFieldKind =
    VPS_ROW_IDENTITY_FIELD_NULL
  | VPS_ROW_IDENTITY_FIELD_INTEGER
  | VPS_ROW_IDENTITY_FIELD_TEXT
  | VPS_ROW_IDENTITY_FIELD_BLOB
  | VPS_ROW_IDENTITY_FIELD_OUT_OF_RANGE int

record VpsRowIdentityField =
  field_kind :: VpsRowIdentityFieldKind
  field_type_oid :: u32
  field_bytes :: "u8 list option"
  field_length :: size_t
  field_integer :: u64

record VpsRowIdentitySpec =
  spec_relation_oid :: u32
  spec_key_fields :: "VpsRowIdentityField list option"
  spec_key_field_count :: size_t
  spec_optimistic_field :: "VpsRowIdentityField option"

record VpsRowIdentityView =
  view_relation_oid :: u32
  view_key_fields :: "VpsRowIdentityField list"
  view_optimistic_field :: "VpsRowIdentityField option"

abbreviation (input) VPS_ROW_IDENTITY_FORMAT_VERSION :: u8 where "VPS_ROW_IDENTITY_FORMAT_VERSION \<equiv> 1"
abbreviation (input) VPS_ROW_IDENTITY_MAX_BYTES :: size_t where "VPS_ROW_IDENTITY_MAX_BYTES \<equiv> 65536"
abbreviation (input) VPS_ROW_IDENTITY_MAX_FIELDS :: size_t where "VPS_ROW_IDENTITY_MAX_FIELDS \<equiv> 32"
abbreviation (input) VPS_IDENTITY_HEADER_BYTES :: nat where "VPS_IDENTITY_HEADER_BYTES \<equiv> 16"
abbreviation (input) VPS_IDENTITY_FIELD_HEADER_BYTES :: nat where "VPS_IDENTITY_FIELD_HEADER_BYTES \<equiv> 9"
abbreviation (input) VPS_IDENTITY_FLAG_OPTIMISTIC :: u8 where "VPS_IDENTITY_FLAG_OPTIMISTIC \<equiv> 1"
abbreviation (input) UINT32_MAX :: size_t where "UINT32_MAX \<equiv> 4294967295"
abbreviation (input) INT64_MAX :: int where "INT64_MAX \<equiv> 9223372036854775807"
abbreviation (input) INT64_MIN :: int where "INT64_MIN \<equiv> - 9223372036854775808"

definition vps_identity_magic :: "u8 list" where
  "vps_identity_magic = map char_byte ''VPSI''"

fun identity_kind_code :: "VpsRowIdentityFieldKind \<Rightarrow> u8" where
  "identity_kind_code VPS_ROW_IDENTITY_FIELD_NULL = 0"
| "identity_kind_code VPS_ROW_IDENTITY_FIELD_INTEGER = 1"
| "identity_kind_code VPS_ROW_IDENTITY_FIELD_TEXT = 2"
| "identity_kind_code VPS_ROW_IDENTITY_FIELD_BLOB = 3"
| "identity_kind_code (VPS_ROW_IDENTITY_FIELD_OUT_OF_RANGE n) = of_int n"

definition identity_kind_of :: "u8 \<Rightarrow> VpsRowIdentityFieldKind" where
  "identity_kind_of code =
     (if code = 0 then VPS_ROW_IDENTITY_FIELD_NULL else if code = 1 then VPS_ROW_IDENTITY_FIELD_INTEGER
      else if code = 2 then VPS_ROW_IDENTITY_FIELD_TEXT else if code = 3 then VPS_ROW_IDENTITY_FIELD_BLOB
      else VPS_ROW_IDENTITY_FIELD_OUT_OF_RANGE (uint code))"

fun identity_kind_valid :: "VpsRowIdentityFieldKind \<Rightarrow> bool" where
  "identity_kind_valid (VPS_ROW_IDENTITY_FIELD_OUT_OF_RANGE _) = False"
| "identity_kind_valid _ = True"

section \<open>Integer keys\<close>

text \<open>\<open>strtoll\<close> in base 10: the value, how many characters were read and whether the value was out of range. The
  text ends at the end of the list, where the terminator stands.\<close>

definition decimal_value :: "string \<Rightarrow> int" where
  "decimal_value digits = foldl (\<lambda>v c. 10 * v + (int (char_code c) - 48)) 0 digits"

definition c_strtoll :: "string \<Rightarrow> int \<times> nat \<times> bool" where
  "c_strtoll s =
     (let blanks = takeWhile c_isspace s; rest = drop (length blanks) s;
          signed = rest \<noteq> [] \<and> (hd rest = CHR ''-'' \<or> hd rest = CHR ''+'');
          negative = rest \<noteq> [] \<and> hd rest = CHR ''-'';
          digits = takeWhile c_isdigit (if signed then tl rest else rest);
          consumed = length blanks + of_bool signed + length digits;
          number = (if negative then - decimal_value digits else decimal_value digits)
      in if digits = [] then (0, 0, False)
         else if number > INT64_MAX then (INT64_MAX, consumed, True)
         else if number < INT64_MIN then (INT64_MIN, consumed, True)
         else (number, consumed, False))"

definition vps_row_identity_stable_integer :: "VpsClientColumnView option \<Rightarrow> VpsRowIdentityResult \<times> u64 option" where
  "vps_row_identity_stable_integer column_ptr =
     (case column_ptr of
        None \<Rightarrow> (VPS_ROW_IDENTITY_INVALID_ARGUMENT, None)
      | Some column \<Rightarrow>
          if column_is_null column \<or> column_data column = None \<or> column_length column = 0 \<or>
             column_length column \<ge> 64
          then (VPS_ROW_IDENTITY_INVALID_ARGUMENT, None)
          else
            let buffer = take (unat (column_length column)) (the (column_data column))
            in case c_strtoll buffer of
                 (number, consumed, _) \<Rightarrow>
                   if consumed \<noteq> unat (column_length column) then (VPS_ROW_IDENTITY_MALFORMED, None)
                   else (VPS_ROW_IDENTITY_OK, Some (of_int number)))"

definition vps_row_identity_scan_next :: "u64 option \<Rightarrow> VpsRowIdentityResult \<times> u64 option \<times> u64 option" where
  "vps_row_identity_scan_next counter =
     (if counter = None \<or> the counter \<ge> 9223372036854775807 then (VPS_ROW_IDENTITY_LIMIT, counter, None)
      else (VPS_ROW_IDENTITY_OK, Some (the counter + 1), Some (the counter + 1)))"

section \<open>Tokens\<close>

definition vps_identity_append_u32 ::
    "'w VpsBuffer \<Rightarrow> u32 \<Rightarrow> 'w \<Rightarrow> VpsRowIdentityResult \<times> 'w VpsBuffer \<times> 'w" where
  "vps_identity_append_u32 buffer number w =
     (case vps_buffer_append buffer (Some [ucast (drop_bit 24 number), ucast (drop_bit 16 number),
             ucast (drop_bit 8 number), ucast number]) 4 w of
        (result, buffer', w') \<Rightarrow>
          (if result = VPS_MEMORY_OK then VPS_ROW_IDENTITY_OK else VPS_ROW_IDENTITY_OUT_OF_MEMORY, buffer', w'))"

definition vps_identity_append_u16 ::
    "'w VpsBuffer \<Rightarrow> u16 \<Rightarrow> 'w \<Rightarrow> VpsRowIdentityResult \<times> 'w VpsBuffer \<times> 'w" where
  "vps_identity_append_u16 buffer number w =
     (case vps_buffer_append buffer (Some [ucast (drop_bit 8 number), ucast number]) 2 w of
        (result, buffer', w') \<Rightarrow>
          (if result = VPS_MEMORY_OK then VPS_ROW_IDENTITY_OK else VPS_ROW_IDENTITY_OUT_OF_MEMORY, buffer', w'))"

definition vps_identity_append_u64 ::
    "'w VpsBuffer \<Rightarrow> u64 \<Rightarrow> 'w \<Rightarrow> VpsRowIdentityResult \<times> 'w VpsBuffer \<times> 'w" where
  "vps_identity_append_u64 buffer number w =
     (case vps_buffer_append buffer
             (Some (map (\<lambda>index. ucast (drop_bit (56 - index * 8) number)) [0..<8])) 8 w of
        (result, buffer', w') \<Rightarrow>
          (if result = VPS_MEMORY_OK then VPS_ROW_IDENTITY_OK else VPS_ROW_IDENTITY_OUT_OF_MEMORY, buffer', w'))"

definition vps_identity_read_u16 :: "u8 list \<Rightarrow> nat \<Rightarrow> u16" where
  "vps_identity_read_u16 bytes at = push_bit 8 (ucast (bytes ! at)) OR ucast (bytes ! (at + 1))"

definition vps_identity_read_u32 :: "u8 list \<Rightarrow> nat \<Rightarrow> u32" where
  "vps_identity_read_u32 bytes at =
     push_bit 24 (ucast (bytes ! at)) OR push_bit 16 (ucast (bytes ! (at + 1))) OR
     push_bit 8 (ucast (bytes ! (at + 2))) OR ucast (bytes ! (at + 3))"

definition vps_identity_read_u64 :: "u8 list \<Rightarrow> nat \<Rightarrow> u64" where
  "vps_identity_read_u64 bytes at =
     fold (\<lambda>index result. push_bit 8 result OR ucast (bytes ! (at + index))) [0..<8] 0"

text \<open>The checks and the length of a field, then its bytes.\<close>

definition identity_field_refused :: "VpsRowIdentityField \<Rightarrow> bool" where
  "identity_field_refused field \<longleftrightarrow>
     \<not> identity_kind_valid (field_kind field) \<or> field_length field > UINT32_MAX \<or>
     ((field_kind field = VPS_ROW_IDENTITY_FIELD_TEXT \<or> field_kind field = VPS_ROW_IDENTITY_FIELD_BLOB) \<and>
      field_length field \<noteq> 0 \<and> field_bytes field = None) \<or>
     (field_kind field = VPS_ROW_IDENTITY_FIELD_NULL \<and> field_length field \<noteq> 0)"

definition identity_field_length :: "VpsRowIdentityField \<Rightarrow> u32" where
  "identity_field_length field =
     (if field_kind field = VPS_ROW_IDENTITY_FIELD_INTEGER then 8 else ucast (field_length field))"

definition identity_append_payload ::
    "'w VpsBuffer \<Rightarrow> VpsRowIdentityField \<Rightarrow> 'w \<Rightarrow> VpsRowIdentityResult \<times> 'w VpsBuffer \<times> 'w" where
  "identity_append_payload token field w =
     (if field_kind field = VPS_ROW_IDENTITY_FIELD_INTEGER
      then vps_identity_append_u64 token (field_integer field) w
      else if field_kind field \<noteq> VPS_ROW_IDENTITY_FIELD_NULL \<and> identity_field_length field \<noteq> 0
      then (case vps_buffer_append token (field_bytes field) (ucast (identity_field_length field)) w of
              (result, token', w') \<Rightarrow>
                (if result \<noteq> VPS_MEMORY_OK then VPS_ROW_IDENTITY_OUT_OF_MEMORY else VPS_ROW_IDENTITY_OK,
                 token', w'))
      else (VPS_ROW_IDENTITY_OK, token, w))"

definition vps_identity_append_field ::
    "'w VpsBuffer \<Rightarrow> VpsRowIdentityField option \<Rightarrow> 'w \<Rightarrow> VpsRowIdentityResult \<times> 'w VpsBuffer \<times> 'w" where
  "vps_identity_append_field token field_ptr w =
     (case field_ptr of
        None \<Rightarrow> (VPS_ROW_IDENTITY_INVALID_ARGUMENT, token, w)
      | Some field \<Rightarrow>
          if identity_field_refused field
          then (if field_length field > UINT32_MAX then VPS_ROW_IDENTITY_LIMIT
                else VPS_ROW_IDENTITY_INVALID_ARGUMENT, token, w)
          else
            (case vps_buffer_append token (Some [identity_kind_code (field_kind field)]) 1 w of
               (r1, token1, w1) \<Rightarrow>
                 if r1 \<noteq> VPS_MEMORY_OK then (VPS_ROW_IDENTITY_OUT_OF_MEMORY, token1, w1)
                 else case vps_identity_append_u32 token1 (field_type_oid field) w1 of
                   (r2, token2, w2) \<Rightarrow>
                     if r2 \<noteq> VPS_ROW_IDENTITY_OK then (VPS_ROW_IDENTITY_OUT_OF_MEMORY, token2, w2)
                     else case vps_identity_append_u32 token2 (identity_field_length field) w2 of
                       (r3, token3, w3) \<Rightarrow>
                         if r3 \<noteq> VPS_ROW_IDENTITY_OK then (VPS_ROW_IDENTITY_OUT_OF_MEMORY, token3, w3)
                         else identity_append_payload token3 field w3))"

definition identity_append_header ::
    "VpsRowIdentitySpec \<Rightarrow> 'w VpsBuffer \<Rightarrow> 'w \<Rightarrow> VpsRowIdentityResult \<times> 'w VpsBuffer \<times> 'w" where
  "identity_append_header spec token w =
     (let prefix = vps_identity_magic @ [VPS_ROW_IDENTITY_FORMAT_VERSION,
            if spec_optimistic_field spec \<noteq> None then VPS_IDENTITY_FLAG_OPTIMISTIC else 0]
      in case vps_buffer_append token (Some prefix) 6 w of
           (r1, token1, w1) \<Rightarrow>
             if r1 \<noteq> VPS_MEMORY_OK then (VPS_ROW_IDENTITY_OUT_OF_MEMORY, token1, w1)
             else case vps_identity_append_u16 token1 (ucast (spec_key_field_count spec)) w1 of
               (r2, token2, w2) \<Rightarrow>
                 if r2 \<noteq> VPS_ROW_IDENTITY_OK then (VPS_ROW_IDENTITY_OUT_OF_MEMORY, token2, w2)
                 else case vps_identity_append_u32 token2 (spec_relation_oid spec) w2 of
                   (r3, token3, w3) \<Rightarrow>
                     if r3 \<noteq> VPS_ROW_IDENTITY_OK then (VPS_ROW_IDENTITY_OUT_OF_MEMORY, token3, w3)
                     else case vps_identity_append_u32 token3 0 w3 of
                       (r4, token4, w4) \<Rightarrow>
                         (if r4 \<noteq> VPS_ROW_IDENTITY_OK then VPS_ROW_IDENTITY_OUT_OF_MEMORY
                          else VPS_ROW_IDENTITY_OK, token4, w4))"

fun identity_append_fields ::
    "VpsRowIdentityField list \<Rightarrow> 'w VpsBuffer \<Rightarrow> 'w \<Rightarrow> VpsRowIdentityResult \<times> 'w VpsBuffer \<times> 'w" where
  "identity_append_fields [] token w = (VPS_ROW_IDENTITY_OK, token, w)"
| "identity_append_fields (field # items) token w =
     (case vps_identity_append_field token (Some field) w of
        (result, token', w') \<Rightarrow>
          if result \<noteq> VPS_ROW_IDENTITY_OK then (result, token', w')
          else identity_append_fields items token' w')"

text \<open>The size goes into the header once everything is written.\<close>

definition identity_put_size :: "'w VpsBuffer \<Rightarrow> 'w VpsBuffer" where
  "identity_put_size token =
     token\<lparr>buf_data := map_option (\<lambda>d. d[12 := ucast (drop_bit 24 (buf_size token)),
       13 := ucast (drop_bit 16 (buf_size token)), 14 := ucast (drop_bit 8 (buf_size token)),
       15 := ucast (buf_size token)]) (buf_data token)\<rparr>"

definition identity_fail ::
    "VpsRowIdentityResult \<Rightarrow> 'w VpsBuffer \<Rightarrow> 'w \<Rightarrow> VpsRowIdentityResult \<times> 'w VpsBuffer option \<times> 'w" where
  "identity_fail result token w = (case vps_buffer_reset token w of (token', w') \<Rightarrow> (result, Some token', w'))"

definition vps_row_identity_encode ::
    "'w VpsAllocator option \<Rightarrow> VpsRowIdentitySpec option \<Rightarrow> 'w \<Rightarrow>
     VpsRowIdentityResult \<times> 'w VpsBuffer option \<times> 'w" where
  "vps_row_identity_encode allocator spec_ptr w =
     (if allocator = None \<or> \<not> vps_allocator_is_valid allocator \<or> spec_ptr = None \<or>
         spec_key_fields (the spec_ptr) = None \<or> spec_key_field_count (the spec_ptr) = 0 \<or>
         spec_key_field_count (the spec_ptr) > VPS_ROW_IDENTITY_MAX_FIELDS
      then (VPS_ROW_IDENTITY_INVALID_ARGUMENT, None, w)
      else
        let spec = the spec_ptr;
            items = take (unat (spec_key_field_count spec)) (the (spec_key_fields spec))
        in case vps_buffer_init allocator VPS_ROW_IDENTITY_MAX_BYTES of
             (_, None) \<Rightarrow> (VPS_ROW_IDENTITY_OUT_OF_MEMORY, None, w)
           | (_, Some token) \<Rightarrow>
               (case identity_append_header spec token w of
                  (r1, token1, w1) \<Rightarrow>
                    if r1 \<noteq> VPS_ROW_IDENTITY_OK then identity_fail VPS_ROW_IDENTITY_OUT_OF_MEMORY token1 w1
                    else case identity_append_fields items token1 w1 of
                      (r2, token2, w2) \<Rightarrow>
                        if r2 \<noteq> VPS_ROW_IDENTITY_OK then identity_fail r2 token2 w2
                        else case (if spec_optimistic_field spec \<noteq> None
                                   then vps_identity_append_field token2 (spec_optimistic_field spec) w2
                                   else (VPS_ROW_IDENTITY_OK, token2, w2)) of
                          (r3, token3, w3) \<Rightarrow>
                            if r3 \<noteq> VPS_ROW_IDENTITY_OK then identity_fail r3 token3 w3
                            else (VPS_ROW_IDENTITY_OK, Some (identity_put_size token3), w3)))"

definition identity_column_field :: "VpsClientColumnView \<Rightarrow> VpsRowIdentityField" where
  "identity_column_field column =
     \<lparr>field_kind = (if column_is_null column then VPS_ROW_IDENTITY_FIELD_NULL else VPS_ROW_IDENTITY_FIELD_TEXT),
      field_type_oid = column_type_oid column,
      field_bytes = map_option (map char_byte) (column_data column),
      field_length = column_length column, field_integer = 0\<rparr>"

definition vps_row_identity_token ::
    "'w VpsAllocator option \<Rightarrow> VpsClientColumnView list option \<Rightarrow> size_t \<Rightarrow> 'w \<Rightarrow>
     VpsRowIdentityResult \<times> 'w VpsBuffer option \<times> 'w" where
  "vps_row_identity_token allocator columns column_count w =
     (if allocator = None \<or> columns = None \<or> column_count = 0 \<or> column_count > VPS_ROW_IDENTITY_MAX_FIELDS
      then (VPS_ROW_IDENTITY_INVALID_ARGUMENT, None, w)
      else vps_row_identity_encode allocator
             (Some \<lparr>spec_relation_oid = 0,
                    spec_key_fields = Some (map identity_column_field (take (unat column_count) (the columns))),
                    spec_key_field_count = column_count, spec_optimistic_field = None\<rparr>) w)"

section \<open>The decoder\<close>

definition vps_identity_decode_field ::
    "u8 list \<Rightarrow> nat \<Rightarrow> (VpsRowIdentityField \<times> nat) option" where
  "vps_identity_decode_field token offset =
     (if offset > length token \<or> length token - offset < VPS_IDENTITY_FIELD_HEADER_BYTES then None
      else
        let kind = identity_kind_of (token ! offset);
            type_oid = vps_identity_read_u32 token (offset + 1);
            len = unat (vps_identity_read_u32 token (offset + 5));
            start = offset + VPS_IDENTITY_FIELD_HEADER_BYTES
        in if \<not> identity_kind_valid kind \<or>
              (kind = VPS_ROW_IDENTITY_FIELD_NULL \<and> len \<noteq> 0) \<or>
              (kind = VPS_ROW_IDENTITY_FIELD_INTEGER \<and> len \<noteq> 8) \<or> len > length token - start
           then None
           else
             let field = \<lparr>field_kind = kind, field_type_oid = type_oid, field_bytes = None, field_length = 0,
                          field_integer = 0\<rparr>
             in Some (if kind = VPS_ROW_IDENTITY_FIELD_INTEGER
                      then field\<lparr>field_integer := vps_identity_read_u64 token start\<rparr>
                      else if kind \<noteq> VPS_ROW_IDENTITY_FIELD_NULL
                      then field\<lparr>field_bytes := Some (take len (drop start token)), field_length := of_nat len\<rparr>
                      else field,
                      start + len))"

fun identity_decode_fields ::
    "nat \<Rightarrow> u8 list \<Rightarrow> nat \<Rightarrow> (VpsRowIdentityField list \<times> nat) option" where
  "identity_decode_fields 0 token offset = Some ([], offset)"
| "identity_decode_fields (Suc n) token offset =
     (case vps_identity_decode_field token offset of
        None \<Rightarrow> None
      | Some (field, offset') \<Rightarrow>
          (case identity_decode_fields n token offset' of
             None \<Rightarrow> None
           | Some (items, offset'') \<Rightarrow> Some (field # items, offset'')))"

definition identity_header_refused :: "u8 list \<Rightarrow> bool" where
  "identity_header_refused token \<longleftrightarrow>
     length token < VPS_IDENTITY_HEADER_BYTES \<or> length token > unat VPS_ROW_IDENTITY_MAX_BYTES \<or>
     take 4 token \<noteq> vps_identity_magic \<or> token ! 4 \<noteq> VPS_ROW_IDENTITY_FORMAT_VERSION \<or>
     token ! 5 AND 0xfe \<noteq> 0 \<or> unat (vps_identity_read_u32 token 12) \<noteq> length token"

definition vps_row_identity_decode ::
    "u8 list option \<Rightarrow> VpsRowIdentityResult \<times> VpsRowIdentityView option" where
  "vps_row_identity_decode token_ptr =
     (case token_ptr of
        None \<Rightarrow> (VPS_ROW_IDENTITY_INVALID_ARGUMENT, None)
      | Some token \<Rightarrow>
          if identity_header_refused token then (VPS_ROW_IDENTITY_MALFORMED, None)
          else
            let flags = token ! 5; field_count = vps_identity_read_u16 token 6
            in if field_count = 0 \<or> unat field_count > unat VPS_ROW_IDENTITY_MAX_FIELDS
               then (VPS_ROW_IDENTITY_MALFORMED, None)
               else case identity_decode_fields (unat field_count) token VPS_IDENTITY_HEADER_BYTES of
                      None \<Rightarrow> (VPS_ROW_IDENTITY_MALFORMED, None)
                    | Some (items, offset) \<Rightarrow>
                        let view = \<lparr>view_relation_oid = vps_identity_read_u32 token 8,
                                    view_key_fields = items, view_optimistic_field = None\<rparr>
                        in case (if flags AND VPS_IDENTITY_FLAG_OPTIMISTIC \<noteq> 0
                                 then map_option (\<lambda>(field, offset'). (view\<lparr>view_optimistic_field := Some field\<rparr>, offset'))
                                        (vps_identity_decode_field token offset)
                                 else Some (view, offset)) of
                             None \<Rightarrow> (VPS_ROW_IDENTITY_MALFORMED, None)
                           | Some (view', offset') \<Rightarrow>
                               if offset' \<noteq> length token then (VPS_ROW_IDENTITY_MALFORMED, None)
                               else (VPS_ROW_IDENTITY_OK, Some view'))"

definition vps_row_identity_mode_name :: "VpsRowIdentityMode \<Rightarrow> string" where
  "vps_row_identity_mode_name mode =
     (case mode of
        VPS_ROW_IDENTITY_STABLE_INTEGER \<Rightarrow> ''stable_integer''
      | VPS_ROW_IDENTITY_HIDDEN_TOKEN \<Rightarrow> ''hidden_token''
      | VPS_ROW_IDENTITY_SCAN_LOCAL \<Rightarrow> ''scan_local'')"

section \<open>The image of a token\<close>

lemma read_be:
  "vps_identity_read_u16 bytes at = be_value 2 bytes at"
  "vps_identity_read_u32 bytes at = be_value 4 bytes at"
  "vps_identity_read_u64 bytes at = be_value 8 bytes at"
proof -
  have upt: "[0..<2] = [0, 1 :: nat]" "[0..<4] = [0, 1, 2, 3 :: nat]" by (simp_all add: upt_rec)
  show "vps_identity_read_u16 bytes at = be_value 2 bytes at"
    by (simp add: vps_identity_read_u16_def be_value_def upt)
  show "vps_identity_read_u32 bytes at = be_value 4 bytes at"
    unfolding vps_identity_read_u32_def be_value_def upt List.fold_simps push_bit_or push_bit_push_bit
    by (simp add: or.assoc push_bit_eq_mult)
  show "vps_identity_read_u64 bytes at = be_value 8 bytes at"
    by (simp add: vps_identity_read_u64_def be_value_def)
qed

lemma append_be:
  "vps_identity_append_u16 b v16 w = (case vps_buffer_append b (Some (be_bytes 2 v16)) 2 w of
     (r, b', w') \<Rightarrow> (if r = VPS_MEMORY_OK then VPS_ROW_IDENTITY_OK else VPS_ROW_IDENTITY_OUT_OF_MEMORY, b', w'))"
  "vps_identity_append_u32 b v32 w = (case vps_buffer_append b (Some (be_bytes 4 v32)) 4 w of
     (r, b', w') \<Rightarrow> (if r = VPS_MEMORY_OK then VPS_ROW_IDENTITY_OK else VPS_ROW_IDENTITY_OUT_OF_MEMORY, b', w'))"
  "vps_identity_append_u64 b v64 w = (case vps_buffer_append b (Some (be_bytes 8 v64)) 8 w of
     (r, b', w') \<Rightarrow> (if r = VPS_MEMORY_OK then VPS_ROW_IDENTITY_OK else VPS_ROW_IDENTITY_OUT_OF_MEMORY, b', w'))"
  by (simp_all add: vps_identity_append_u16_def vps_identity_append_u32_def vps_identity_append_u64_def
      be_bytes_def upt_rec)

definition field_payload :: "VpsRowIdentityField \<Rightarrow> u8 list" where
  "field_payload f =
     (if field_kind f = VPS_ROW_IDENTITY_FIELD_INTEGER then be_bytes 8 (field_integer f)
      else if field_kind f = VPS_ROW_IDENTITY_FIELD_NULL then []
      else take (unat (field_length f)) (the (field_bytes f)))"

definition field_image :: "VpsRowIdentityField \<Rightarrow> u8 list" where
  "field_image f = identity_kind_code (field_kind f) # be_bytes 4 (field_type_oid f) @
     be_bytes 4 (identity_field_length f) @ field_payload f"

definition identity_flags :: "'a option \<Rightarrow> u8" where
  "identity_flags optimistic = (if optimistic \<noteq> None then VPS_IDENTITY_FLAG_OPTIMISTIC else 0)"

definition fields_image :: "VpsRowIdentityView \<Rightarrow> u8 list" where
  "fields_image v = concat (map field_image (view_key_fields v)) @
     (case view_optimistic_field v of None \<Rightarrow> [] | Some f \<Rightarrow> field_image f)"

definition view_image :: "VpsRowIdentityView \<Rightarrow> u8 list" where
  "view_image v = vps_identity_magic @ [VPS_ROW_IDENTITY_FORMAT_VERSION, identity_flags (view_optimistic_field v)] @
     be_bytes 2 (of_nat (length (view_key_fields v)) :: u16) @ be_bytes 4 (view_relation_oid v) @
     be_bytes 4 (of_nat (VPS_IDENTITY_HEADER_BYTES + length (fields_image v)) :: u32) @ fields_image v"

text \<open>The fields and views that a decoder returns.\<close>

definition field_ok :: "VpsRowIdentityField \<Rightarrow> bool" where
  "field_ok f =
     (case field_kind f of
        VPS_ROW_IDENTITY_FIELD_NULL \<Rightarrow> field_bytes f = None \<and> field_length f = 0 \<and> field_integer f = 0
      | VPS_ROW_IDENTITY_FIELD_INTEGER \<Rightarrow> field_bytes f = None \<and> field_length f = 0
      | VPS_ROW_IDENTITY_FIELD_OUT_OF_RANGE _ \<Rightarrow> False
      | _ \<Rightarrow> field_integer f = 0 \<and> field_bytes f \<noteq> None \<and> length (the (field_bytes f)) = unat (field_length f) \<and>
             unat (field_length f) < 2 ^ 32)"

definition view_ok :: "VpsRowIdentityView \<Rightarrow> bool" where
  "view_ok v \<longleftrightarrow> view_key_fields v \<noteq> [] \<and> length (view_key_fields v) \<le> 32 \<and>
     list_all field_ok (view_key_fields v) \<and> pred_option field_ok (view_optimistic_field v) \<and>
     length (view_image v) \<le> 65536"

lemma length_field_image [simp]: "length (field_image f) = 9 + length (field_payload f)"
  by (simp add: field_image_def)

lemma length_view_image: "length (view_image v) = 16 + length (fields_image v)"
  by (simp add: view_image_def vps_identity_magic_def)

section \<open>Decoding is exact\<close>

lemma read_iff:
  "at + 2 \<le> length t \<Longrightarrow> vps_identity_read_u16 t at = a \<longleftrightarrow> take 2 (drop at t) = be_bytes 2 a"
  "at + 4 \<le> length t \<Longrightarrow> vps_identity_read_u32 t at = b \<longleftrightarrow> take 4 (drop at t) = be_bytes 4 b"
  "at + 8 \<le> length t \<Longrightarrow> vps_identity_read_u64 t at = c \<longleftrightarrow> take 8 (drop at t) = be_bytes 8 c"
  unfolding read_be by (rule be_value_iff; simp)+

lemma field_header_iff:
  assumes "offset + 9 \<le> length t"
  shows "take 9 (drop offset t) = c # be_bytes 4 (a :: u32) @ be_bytes 4 (b :: u32) \<longleftrightarrow>
     t ! offset = c \<and> vps_identity_read_u32 t (offset + 1) = a \<and> vps_identity_read_u32 t (offset + 5) = b"
proof -
  have "take 1 (drop offset t) = [c] \<longleftrightarrow> t ! offset = c"
    using assms by (subst take_Suc_conv_app_nth [of 0 "drop offset t", simplified, folded One_nat_def]) auto
  then show ?thesis
    using assms take_drop_split [of "[c]" 1 offset t 8 "be_bytes 4 a @ be_bytes 4 b"]
      take_drop_split [of "be_bytes 4 a" 4 "offset + 1" t 4 "be_bytes 4 b"]
    by (simp add: read_iff add.commute)
qed

lemma field_image_iff:
  assumes "offset + 9 \<le> length t"
  shows "take (length (field_image f)) (drop offset t) = field_image f \<longleftrightarrow>
     t ! offset = identity_kind_code (field_kind f) \<and> vps_identity_read_u32 t (offset + 1) = field_type_oid f \<and>
     vps_identity_read_u32 t (offset + 5) = identity_field_length f \<and>
     take (length (field_payload f)) (drop (offset + 9) t) = field_payload f"
proof -
  have "field_image f = (identity_kind_code (field_kind f) # be_bytes 4 (field_type_oid f) @
      be_bytes 4 (identity_field_length f)) @ field_payload f" by (simp add: field_image_def)
  then show ?thesis
    using take_drop_split [of "identity_kind_code (field_kind f) # be_bytes 4 (field_type_oid f) @
      be_bytes 4 (identity_field_length f)" 9 offset t "length (field_payload f)" "field_payload f"]
      field_header_iff [OF assms] assms by simp
qed

lemma small_length: "unat (n :: size_t) < 2 ^ 32 \<Longrightarrow> unat (ucast n :: u32) = unat n"
  by (simp add: unat_ucast_small)

lemma widen_length: "unat (ucast (b :: u32) :: size_t) = unat b"
  using unsigned_less [of b, where ?'a = nat] by (intro unat_ucast_small) simp

lemma widen_small: "unat (n :: size_t) < 2 ^ 32 \<Longrightarrow> ucast (ucast n :: u32) = n"
  by (simp add: word_unat_eq_iff widen_length small_length)

lemma decode_field_cases:
  assumes "offset + 9 \<le> length t"
  defines "a \<equiv> vps_identity_read_u32 t (offset + 1)" and "n \<equiv> unat (vps_identity_read_u32 t (offset + 5))"
  shows "t ! offset = 0 \<Longrightarrow> vps_identity_decode_field t offset =
      (if n \<noteq> 0 then None else Some (\<lparr>field_kind = VPS_ROW_IDENTITY_FIELD_NULL, field_type_oid = a,
         field_bytes = None, field_length = 0, field_integer = 0\<rparr>, offset + 9))"
    and "t ! offset = 1 \<Longrightarrow> vps_identity_decode_field t offset =
      (if n \<noteq> 8 \<or> offset + 17 > length t then None else Some (\<lparr>field_kind = VPS_ROW_IDENTITY_FIELD_INTEGER,
         field_type_oid = a, field_bytes = None, field_length = 0,
         field_integer = vps_identity_read_u64 t (offset + 9)\<rparr>, offset + 17))"
    and "t ! offset = 2 \<or> t ! offset = 3 \<Longrightarrow> vps_identity_decode_field t offset =
      (if offset + 9 + n > length t then None else Some (\<lparr>field_kind = identity_kind_of (t ! offset),
         field_type_oid = a, field_bytes = Some (take n (drop (offset + 9) t)), field_length = of_nat n,
         field_integer = 0\<rparr>, offset + 9 + n))"
    and "t ! offset \<notin> {0, 1, 2, 3} \<Longrightarrow> vps_identity_decode_field t offset = None"
  using assms by (auto simp: vps_identity_decode_field_def identity_kind_of_def Let_def)

text \<open>The well-formed fields of each kind.\<close>

lemma field_ok_code:
  "field_ok f \<Longrightarrow> identity_kind_code (field_kind f) \<in> {0, 1, 2, 3}"
  "field_ok f \<Longrightarrow> field_kind f = identity_kind_of (identity_kind_code (field_kind f))"
  by (auto simp: field_ok_def identity_kind_of_def split: VpsRowIdentityFieldKind.splits)

lemma decode_field_iff:
  "vps_identity_decode_field t offset = Some (f, offset') \<longleftrightarrow>
     field_ok f \<and> offset' = offset + length (field_image f) \<and> offset' \<le> length t \<and>
     take (length (field_image f)) (drop offset t) = field_image f"
proof (cases "offset + 9 \<le> length t")
  case False
  then show ?thesis by (auto simp: vps_identity_decode_field_def)
next
  case room: True
  let ?c = "t ! offset" and ?a = "vps_identity_read_u32 t (offset + 1)" and ?b = "vps_identity_read_u32 t (offset + 5)"
  note cs = decode_field_cases [OF room] and image = field_image_iff [OF room, unfolded length_field_image]
  have b: "unat ?b < 2 ^ 32" using unsigned_less [of ?b] by simp
  have bb: "ucast (of_nat (unat ?b) :: size_t) = ?b" using b by (simp add: word_unat_eq_iff unat_ucast_small)
  consider (null) "?c = 0" | (int) "?c = 1" | (bytes) "?c = 2 \<or> ?c = 3" | (other) "?c \<notin> {0, 1, 2, 3}" by auto
  then show ?thesis
  proof cases
    case null
    show ?thesis
      unfolding cs(1) [OF null] length_field_image image null
      using room by (cases f; cases "field_kind f")
        (auto simp: field_ok_def field_payload_def identity_field_length_def unat_eq_zero)
  next
    case int
    have eight: "unat ?b = 8 \<longleftrightarrow> ?b = 8" by (simp add: word_unat_eq_iff)
    show ?thesis
      unfolding cs(2) [OF int] length_field_image image int eight
      using room by (cases f; cases "field_kind f")
        (auto simp: field_ok_def field_payload_def identity_field_length_def read_iff(3) not_less add.commute)
  next
    case other
    then show ?thesis
      unfolding cs(4) [OF other] length_field_image image using field_ok_code(1) [of f] by auto
  next
    case bytes
    show ?thesis
      unfolding cs(3) [OF bytes] length_field_image image
      using room bytes b bb by (cases f; cases "field_kind f")
        (auto simp: field_ok_def field_payload_def identity_field_length_def identity_kind_of_def small_length widen_length widen_small)
  qed
qed

lemma decode_fields_iff:
  "offset \<le> length t \<Longrightarrow> identity_decode_fields n t offset = Some (fs, offset') \<longleftrightarrow>
     length fs = n \<and> list_all field_ok fs \<and> offset' = offset + length (concat (map field_image fs)) \<and>
     offset' \<le> length t \<and> take (length (concat (map field_image fs))) (drop offset t) = concat (map field_image fs)"
proof (induction n arbitrary: fs offset)
  case (Suc n)
  show ?case
  proof (cases fs)
    case Nil
    then show ?thesis by (auto split: option.splits)
  next
    case (Cons f rest)
    let ?k = "length (field_image f)"
    have split: "take (?k + m) (drop offset t) = field_image f @ bytes \<longleftrightarrow>
        take ?k (drop offset t) = field_image f \<and> take m (drop (offset + ?k) t) = bytes"
      if "offset + ?k \<le> length t" for m bytes
      using take_drop_split [of "field_image f" ?k offset t m bytes] that by simp
    have "identity_decode_fields (Suc n) t offset = Some (fs, offset') \<longleftrightarrow>
        (\<exists>o1. vps_identity_decode_field t offset = Some (f, o1) \<and>
           identity_decode_fields n t o1 = Some (rest, offset'))"
      by (auto simp: Cons split: option.splits)
    also have "\<dots> \<longleftrightarrow> field_ok f \<and> offset + ?k \<le> length t \<and> take ?k (drop offset t) = field_image f \<and>
        identity_decode_fields n t (offset + ?k) = Some (rest, offset')"
      unfolding decode_field_iff by auto
    also have "\<dots> \<longleftrightarrow> length fs = Suc n \<and> list_all field_ok fs \<and>
        offset' = offset + length (concat (map field_image fs)) \<and> offset' \<le> length t \<and>
        take (length (concat (map field_image fs))) (drop offset t) = concat (map field_image fs)"
      using Suc.IH [of "offset + ?k" rest] split [of "length (concat (map field_image rest))"
          "concat (map field_image rest)"]
      by (auto simp: Cons simp del: length_field_image)
    finally show ?thesis .
  qed
qed auto

lemma flags_iff: "x AND 0xfe = 0 \<longleftrightarrow> x = 0 \<or> x = (1 :: u8)"
proof
  assume z: "x AND 0xfe = 0"
  have "(0xff :: u8) = 0xfe OR 1" by simp
  then have "x AND 0xff = (x AND 0xfe) OR (x AND 1)" by (simp only: bit.conj_disj_distrib)
  moreover have "x AND 0xff = x"
  proof -
    have "(0xff :: u8) = - 1" "x AND - 1 = x" by simp_all
    then show ?thesis by (simp only:)
  qed
  ultimately have "x = x AND 1" using z by simp
  then show "x = 0 \<or> x = 1" by (metis and_one_eq odd_iff_mod_2_eq_one parity_cases)
qed auto

lemma view_image_iff:
  "t = view_image v \<longleftrightarrow> 16 \<le> length t \<and> take 4 t = vps_identity_magic \<and> t ! 4 = 1 \<and>
     t ! 5 = identity_flags (view_optimistic_field v) \<and>
     vps_identity_read_u16 t 6 = of_nat (length (view_key_fields v)) \<and>
     vps_identity_read_u32 t 8 = view_relation_oid v \<and>
     vps_identity_read_u32 t 12 = of_nat (16 + length (fields_image v)) \<and> drop 16 t = fields_image v"
proof (cases "16 \<le> length t")
  case False
  then show ?thesis by (auto simp: length_view_image)
next
  case True
  let ?m = "vps_identity_magic" and ?f = "[1 :: u8, identity_flags (view_optimistic_field v)]"
  let ?c = "be_bytes 2 (of_nat (length (view_key_fields v)) :: u16)" and ?o = "be_bytes 4 (view_relation_oid v)"
  let ?s = "be_bytes 4 (of_nat (16 + length (fields_image v)) :: u32)"
  have m: "length ?m = 4" by (simp add: vps_identity_magic_def)
  have two: "take 2 (drop 4 t) = ?f \<longleftrightarrow> t ! 4 = 1 \<and> t ! 5 = identity_flags (view_optimistic_field v)"
    using True by (auto simp: list_eq_iff_nth_eq less_Suc_eq numeral_2_eq_2)
  have "t = view_image v \<longleftrightarrow> take 16 t @ drop 16 t = (?m @ ?f @ ?c @ ?o @ ?s) @ fields_image v"
    by (simp add: view_image_def)
  also have "\<dots> \<longleftrightarrow> take 16 t = ?m @ ?f @ ?c @ ?o @ ?s \<and> drop 16 t = fields_image v"
    using True m by (subst append_eq_append_conv) simp_all
  also have "take 16 t = ?m @ ?f @ ?c @ ?o @ ?s \<longleftrightarrow> take 4 t = ?m \<and> take 2 (drop 4 t) = ?f \<and>
      take 2 (drop 6 t) = ?c \<and> take 4 (drop 8 t) = ?o \<and> take 4 (drop 12 t) = ?s"
    using True m take_drop_split [of ?m 4 0 t 12 "?f @ ?c @ ?o @ ?s"]
      take_drop_split [of ?f 2 4 t 10 "?c @ ?o @ ?s"] take_drop_split [of ?c 2 6 t 8 "?o @ ?s"]
      take_drop_split [of ?o 4 8 t 4 ?s]
    by simp
  finally show ?thesis using True two by (simp add: read_iff)
qed

lemma take_all_drop: "n + length xs = length t \<Longrightarrow> take (length xs) (drop n t) = xs \<longleftrightarrow> drop n t = xs"
  by simp

lemma decode_sound:
  assumes "vps_row_identity_decode (Some t) = (VPS_ROW_IDENTITY_OK, Some v)"
  shows "view_ok v \<and> t = view_image v"
proof -
  let ?n = "unat (vps_identity_read_u16 t 6)"
  from assms have head: "\<not> identity_header_refused t" and n: "?n \<noteq> 0" "?n \<le> 32"
    by (auto simp: vps_row_identity_decode_def Let_def unat_eq_zero split: if_splits option.splits)
  then obtain fs o1 where fs: "identity_decode_fields ?n t 16 = Some (fs, o1)"
    using assms by (auto simp: vps_row_identity_decode_def Let_def unat_eq_zero split: if_splits option.splits)
  have t: "16 \<le> length t" "length t \<le> 65536" "take 4 t = vps_identity_magic" "t ! 4 = 1" "t ! 5 = 0 \<or> t ! 5 = 1"
      "unat (vps_identity_read_u32 t 12) = length t"
    using head by (auto simp: identity_header_refused_def flags_iff)
  note fs' = fs [unfolded decode_fields_iff [OF t(1)]]
  let ?v = "\<lparr>view_relation_oid = vps_identity_read_u32 t 8, view_key_fields = fs, view_optimistic_field = None\<rparr>"
  have v: "view_key_fields v = fs" "view_relation_oid v = vps_identity_read_u32 t 8"
      "t ! 5 = identity_flags (view_optimistic_field v)" "pred_option field_ok (view_optimistic_field v)"
      "16 + length (fields_image v) = length t" "drop 16 t = fields_image v"
  proof -
    have "view_key_fields v = fs \<and> view_relation_oid v = vps_identity_read_u32 t 8 \<and>
      t ! 5 = identity_flags (view_optimistic_field v) \<and> pred_option field_ok (view_optimistic_field v) \<and>
      16 + length (fields_image v) = length t \<and> drop 16 t = fields_image v"
    proof (cases "t ! 5 = 0")
      case True
      then have "v = ?v" "o1 = length t"
        using assms head n fs by (simp_all add: vps_row_identity_decode_def Let_def unat_eq_zero split: if_splits)
      then show ?thesis using True fs' t by (simp add: identity_flags_def fields_image_def take_all_drop)
    next
      case False
      then have five: "t ! 5 = 1" using t(5) by simp
      obtain f where f: "vps_identity_decode_field t o1 = Some (f, length t)"
        and vf: "v = ?v\<lparr>view_optimistic_field := Some f\<rparr>"
        using assms head n fs five
        by (auto simp: vps_row_identity_decode_def Let_def unat_eq_zero split: if_splits option.splits)
      note f' = f [unfolded decode_field_iff]
      have "drop o1 t = field_image f" using f' take_all_drop [of o1 "field_image f" t] by simp
      moreover have "take (o1 - 16) (drop 16 t) = concat (map field_image fs)" using fs' by simp
      moreover have "drop 16 t = take (o1 - 16) (drop 16 t) @ drop o1 t"
        using fs' by (metis add_diff_cancel_left' append_take_drop_id drop_drop add.commute)
      ultimately show ?thesis
        using f' fs' vf five by (simp add: identity_flags_def fields_image_def)
    qed
    then show "view_key_fields v = fs" "view_relation_oid v = vps_identity_read_u32 t 8"
      "t ! 5 = identity_flags (view_optimistic_field v)" "pred_option field_ok (view_optimistic_field v)"
      "16 + length (fields_image v) = length t" "drop 16 t = fields_image v" by simp_all
  qed
  have "vps_identity_read_u16 t 6 = of_nat (length (view_key_fields v))"
    "vps_identity_read_u32 t 12 = of_nat (16 + length (fields_image v))"
    using fs' v arg_cong [OF t(6), of "of_nat :: nat \<Rightarrow> u32"] by simp_all
  then have image: "t = view_image v" using t v by (subst view_image_iff) (simp del: of_nat_add)
  then have "length (view_image v) \<le> 65536" using t(2) by simp
  with image show ?thesis using fs' v n by (auto simp: view_ok_def)
qed

lemma decode_complete:
  assumes ok: "view_ok v"
  shows "vps_row_identity_decode (Some (view_image v)) = (VPS_ROW_IDENTITY_OK, Some v)"
proof -
  let ?t = "view_image v" and ?keys = "view_key_fields v"
  let ?o = "16 + length (concat (map field_image ?keys))"
  note t = iffD1 [OF view_image_iff refl, of v]
  have len: "length ?t = 16 + length (fields_image v)" "length ?t \<le> 65536"
    using ok by (simp_all add: length_view_image view_ok_def)
  then have size: "unat (vps_identity_read_u32 ?t 12) = length ?t" using t unat_small_nat [of "16 + length (fields_image v)", where ?'a = 32] by simp
  have n: "unat (vps_identity_read_u16 ?t 6) = length ?keys" "length ?keys \<noteq> 0" "length ?keys \<le> 32"
    using ok t by (simp_all add: view_ok_def)
  then have nz: "(of_nat (length ?keys) :: u16) \<noteq> 0" using t by (metis unat_0)
  have head: "\<not> identity_header_refused ?t"
    using t len size by (simp add: identity_header_refused_def flags_iff identity_flags_def)
  have fs: "identity_decode_fields (length ?keys) ?t 16 = Some (?keys, ?o)"
    using ok t len by (subst decode_fields_iff) (auto simp: view_ok_def fields_image_def)
  show ?thesis
  proof (cases "view_optimistic_field v")
    case None
    then have "?o = length ?t" using len by (simp add: fields_image_def)
    then show ?thesis
      using head n nz fs t None
      by (cases v) (simp add: vps_row_identity_decode_def Let_def unat_eq_zero identity_flags_def)
  next
    case (Some f)
    have "drop ?o ?t = field_image f"
      using t Some by (metis add.commute append_eq_conv_conj drop_drop fields_image_def option.simps(5))
    then have "vps_identity_decode_field ?t ?o = Some (f, length ?t)"
      using ok Some len unfolding decode_field_iff by (auto simp: view_ok_def fields_image_def)
    then show ?thesis
      using head n nz fs t Some
      by (cases v) (simp add: vps_row_identity_decode_def Let_def unat_eq_zero identity_flags_def)
  qed
qed

section \<open>Encoding\<close>

text \<open>What the decoder will make of a field, and the fields whose memory is as long as they say.\<close>

definition field_view :: "VpsRowIdentityField \<Rightarrow> VpsRowIdentityField" where
  "field_view f =
     \<lparr>field_kind = field_kind f, field_type_oid = field_type_oid f,
      field_bytes = (if field_kind f \<in> {VPS_ROW_IDENTITY_FIELD_NULL, VPS_ROW_IDENTITY_FIELD_INTEGER} then None
        else Some (take (unat (field_length f)) (case field_bytes f of None \<Rightarrow> [] | Some d \<Rightarrow> d))),
      field_length = (if field_kind f \<in> {VPS_ROW_IDENTITY_FIELD_NULL, VPS_ROW_IDENTITY_FIELD_INTEGER} then 0
        else field_length f),
      field_integer = (if field_kind f = VPS_ROW_IDENTITY_FIELD_INTEGER then field_integer f else 0)\<rparr>"

definition field_readable :: "VpsRowIdentityField \<Rightarrow> bool" where
  "field_readable f \<longleftrightarrow> (case field_bytes f of None \<Rightarrow> True | Some d \<Rightarrow> unat (field_length f) \<le> length d)"

definition spec_view :: "VpsRowIdentitySpec \<Rightarrow> VpsRowIdentityView" where
  "spec_view spec =
     \<lparr>view_relation_oid = spec_relation_oid spec,
      view_key_fields = map field_view (take (unat (spec_key_field_count spec)) (the (spec_key_fields spec))),
      view_optimistic_field = map_option field_view (spec_optimistic_field spec)\<rparr>"

lemma field_view_image: "\<not> identity_field_refused f \<Longrightarrow> field_readable f \<Longrightarrow>
    field_image (field_view f) = identity_kind_code (field_kind f) # be_bytes 4 (field_type_oid f) @
      be_bytes 4 (identity_field_length f) @ field_payload (field_view f)"
  by (auto simp: field_image_def field_view_def identity_field_length_def identity_field_refused_def)

lemma unat_le_max: "\<not> (n :: size_t) > UINT32_MAX \<Longrightarrow> unat n < 2 ^ 32"
  by (simp add: not_less word_le_nat_alt)

lemma field_length_small: "\<not> identity_field_refused f \<Longrightarrow> unat (field_length f) < 2 ^ 32"
  by (rule unat_le_max) (simp add: identity_field_refused_def)

lemma field_view_ok:
  assumes "\<not> identity_field_refused f" "field_readable f"
  shows "field_ok (field_view f)"
proof -
  note field_length_small [OF assms(1)]
  then show ?thesis
    using assms by (cases "field_kind f")
      (auto simp: identity_field_refused_def field_readable_def field_ok_def field_view_def unat_eq_zero
        split: option.splits)
qed

text \<open>Appending a field is a chain of appends.\<close>

lemma append_take:
  "vps_buffer_append b (Some src) n w = vps_buffer_append b (Some (take (unat n) src)) n w"
  unfolding vps_buffer_append_def option.sel take_take min.idem by simp

lemma append_payload:
  assumes "\<not> identity_field_refused f" "field_readable f"
  defines "payload \<equiv> field_payload (field_view f)"
  shows "identity_append_payload b f w =
    (if payload = [] then (VPS_ROW_IDENTITY_OK, b, w)
     else case vps_buffer_append b (Some payload) (of_nat (length payload)) w of
       (r, b', w') \<Rightarrow> (if r = VPS_MEMORY_OK then VPS_ROW_IDENTITY_OK else VPS_ROW_IDENTITY_OUT_OF_MEMORY, b', w'))"
proof -
  note small = field_length_small [OF assms(1)]
  consider "field_kind f = VPS_ROW_IDENTITY_FIELD_NULL" | "field_kind f = VPS_ROW_IDENTITY_FIELD_INTEGER"
    | (bytes) "field_kind f = VPS_ROW_IDENTITY_FIELD_TEXT \<or> field_kind f = VPS_ROW_IDENTITY_FIELD_BLOB"
    using assms(1) by (cases "field_kind f") (auto simp: identity_field_refused_def)
  then show ?thesis
  proof cases
    case 1
    then show ?thesis by (simp add: identity_append_payload_def payload_def field_payload_def field_view_def)
  next
    case 2
    have "be_bytes 8 (field_integer f) \<noteq> []" by (metis length_be_bytes list.size(3) zero_neq_numeral)
    with 2 show ?thesis
      by (simp add: identity_append_payload_def payload_def field_payload_def field_view_def append_be)
  next
    case bytes
    show ?thesis
    proof (cases "field_length f = 0")
      case True
      with bytes show ?thesis
        by (auto simp: identity_append_payload_def payload_def field_payload_def field_view_def identity_field_length_def)
    next
      case False
      then obtain d where d: "field_bytes f = Some d" "unat (field_length f) \<le> length d"
        using assms(1,2) bytes by (auto simp: identity_field_refused_def field_readable_def)
      then have payload: "payload = take (unat (field_length f)) d" "length payload = unat (field_length f)"
        using bytes by (auto simp: payload_def field_payload_def field_view_def)
      have "payload \<noteq> []" using payload(2) False by (auto simp: unat_eq_zero)
      moreover have "ucast (field_length f) \<noteq> (0 :: u32)"
        using small_length [OF small] False by (metis unat_0 unat_eq_zero)
      ultimately show ?thesis
        using bytes d payload False append_take [of b d "field_length f" w]
        by (auto simp: identity_append_payload_def identity_field_length_def widen_small [OF small]
            split: prod.splits)
    qed
  qed
qed

definition field_parts :: "VpsRowIdentityField \<Rightarrow> u8 list list" where
  "field_parts f = [[identity_kind_code (field_kind f)], be_bytes 4 (field_type_oid f),
     be_bytes 4 (identity_field_length f)] @
     (if field_payload (field_view f) = [] then [] else [field_payload (field_view f)])"

lemma append_field_parts:
  assumes "\<not> identity_field_refused f" "field_readable f"
  shows "vps_identity_append_field b (Some f) w =
    (case buffer_appends (field_parts f) b w of (r, b', w') \<Rightarrow>
       (if r = VPS_MEMORY_OK then VPS_ROW_IDENTITY_OK else VPS_ROW_IDENTITY_OUT_OF_MEMORY, b', w'))"
  using assms(1)
  by (auto simp: vps_identity_append_field_def append_be field_parts_def append_payload [OF assms] split: prod.splits)

lemma concat_field_parts:
  "\<not> identity_field_refused f \<Longrightarrow> field_readable f \<Longrightarrow> concat (field_parts f) = field_image (field_view f)"
  by (simp add: field_parts_def field_view_image)

lemma field_parts_small:
  assumes "\<not> identity_field_refused f" "field_readable f"
  shows "\<forall>part\<in>set (field_parts f). length part < 2 ^ 64"
proof -
  have "length (field_payload (field_view f)) < 2 ^ 64"
  proof (cases "field_kind f = VPS_ROW_IDENTITY_FIELD_INTEGER")
    case False
    have "length (field_payload (field_view f)) \<le> unat (field_length f)"
      using False by (auto simp: field_payload_def field_view_def)
    also have "\<dots> < 2 ^ 64" using unsigned_less [of "field_length f", where ?'a = nat] by simp
    finally show ?thesis .
  qed (simp add: field_payload_def field_view_def)
  then show ?thesis by (auto simp: field_parts_def)
qed

definition header_parts :: "VpsRowIdentitySpec \<Rightarrow> u8 list list" where
  "header_parts spec = [vps_identity_magic @ [1, identity_flags (spec_optimistic_field spec)],
     be_bytes 2 (ucast (spec_key_field_count spec) :: u16), be_bytes 4 (spec_relation_oid spec), be_bytes 4 (0 :: u32)]"

lemma append_header_parts:
  "identity_append_header spec b w =
     (case buffer_appends (header_parts spec) b w of (r, b', w') \<Rightarrow>
        (if r = VPS_MEMORY_OK then VPS_ROW_IDENTITY_OK else VPS_ROW_IDENTITY_OUT_OF_MEMORY, b', w'))"
proof -
  have six: "(6 :: size_t) = of_nat (length (vps_identity_magic @ [1, identity_flags (spec_optimistic_field spec)]))"
    by (simp add: vps_identity_magic_def)
  show ?thesis
    unfolding identity_append_header_def Let_def append_be identity_flags_def [symmetric] six header_parts_def
    by (auto split: prod.splits)
qed

context allocator_contract
begin

lemma append_field_step:
  assumes "buffer_in A inv live b w" "field_readable f" "vps_identity_append_field b (Some f) w = (r, b', w')"
  shows "buffer_step A inv live (b, w) (b', w')"
    and "r = VPS_ROW_IDENTITY_OK \<Longrightarrow>
      \<not> identity_field_refused f \<and> buffer_contents b' = buffer_contents b @ field_image (field_view f)"
proof -
  have "buffer_step A inv live (b, w) (b', w') \<and> (r = VPS_ROW_IDENTITY_OK \<longrightarrow>
      \<not> identity_field_refused f \<and> buffer_contents b' = buffer_contents b @ field_image (field_view f))"
  proof (cases "identity_field_refused f")
    case True
    then show ?thesis
      using assms(1,3) by (auto simp: vps_identity_append_field_def intro: buffer_step_refl split: if_splits)
  next
    case False
    obtain r1 where run: "buffer_appends (field_parts f) b w = (r1, b', w')"
      and r: "r = (if r1 = VPS_MEMORY_OK then VPS_ROW_IDENTITY_OK else VPS_ROW_IDENTITY_OUT_OF_MEMORY)"
      using assms(3) unfolding append_field_parts [OF False assms(2)] by (auto split: prod.splits)
    from appends_step [OF assms(1) run field_parts_small [OF False assms(2)]] r False
    show ?thesis by (auto simp: concat_field_parts assms(2))
  qed
  then show "buffer_step A inv live (b, w) (b', w')"
    "r = VPS_ROW_IDENTITY_OK \<Longrightarrow>
      \<not> identity_field_refused f \<and> buffer_contents b' = buffer_contents b @ field_image (field_view f)" by blast+
qed

lemma append_fields_step:
  assumes "buffer_in A inv live b w" "list_all field_readable fs" "identity_append_fields fs b w = (r, b', w')"
  shows "buffer_step A inv live (b, w) (b', w') \<and> (r = VPS_ROW_IDENTITY_OK \<longrightarrow>
      list_all (\<lambda>f. \<not> identity_field_refused f) fs \<and>
      buffer_contents b' = buffer_contents b @ concat (map (field_image \<circ> field_view) fs))"
  using assms
proof (induction fs arbitrary: b w)
  case (Cons f fs)
  obtain r1 b1 w1 where app: "vps_identity_append_field b (Some f) w = (r1, b1, w1)" by (metis prod_cases3)
  note a = append_field_step [OF Cons.prems(1) _ app]
  show ?case
  proof (cases "r1 = VPS_ROW_IDENTITY_OK")
    case True
    then have run: "identity_append_fields fs b1 w1 = (r, b', w')" using Cons.prems(3) app by simp
    from Cons.IH [OF buffer_step_in [OF a(1)] _ run] Cons.prems(2) a True show ?thesis
      by (auto intro: buffer_step_trans)
  next
    case False
    then show ?thesis using Cons.prems(2,3) app a(1) by auto
  qed
qed (auto intro: buffer_step_refl)

lemma append_header_step:
  assumes "buffer_in A inv live b w" "identity_append_header spec b w = (r, b', w')"
  shows "buffer_step A inv live (b, w) (b', w')"
    and "r = VPS_ROW_IDENTITY_OK \<Longrightarrow> buffer_contents b' = buffer_contents b @ concat (header_parts spec)"
proof -
  obtain r1 where run: "buffer_appends (header_parts spec) b w = (r1, b', w')"
      and r: "r = (if r1 = VPS_MEMORY_OK then VPS_ROW_IDENTITY_OK else VPS_ROW_IDENTITY_OUT_OF_MEMORY)"
    using assms(2) by (auto simp: append_header_parts split: prod.splits)
  have small: "\<forall>part\<in>set (header_parts spec). length part < 2 ^ 64" by (simp add: vps_identity_magic_def header_parts_def)
  from appends_step [OF assms(1) run small] r
  show "buffer_step A inv live (b, w) (b', w')"
    "r = VPS_ROW_IDENTITY_OK \<Longrightarrow> buffer_contents b' = buffer_contents b @ concat (header_parts spec)"
    by (auto split: if_splits)
qed

end

lemma put_size_contents:
  assumes "buffer_ok b" and "buf_limit b = 65536"
    and "buffer_contents b = head @ be_bytes 4 (0 :: u32) @ rest" and "length head = 12"
  shows "buffer_contents (identity_put_size b) = head @ be_bytes 4 (of_nat (16 + length rest) :: u32) @ rest \<and>
    buffer_blocks (identity_put_size b) = buffer_blocks b \<and> 16 + length rest \<le> 65536"
proof -
  obtain d where d: "buf_data b = Some d" "length d = unat (buf_capacity b)" and n: "unat (buf_size b) \<le> length d"
    using assms(1,3,4) by (auto simp: buffer_ok_def buffer_contents_def word_le_nat_alt split: option.splits)
  have c: "take (unat (buf_size b)) d = head @ be_bytes 4 (0 :: u32) @ rest"
    using assms(3) d by (simp add: buffer_contents_def)
  from arg_cong [OF c, of length] n assms(4) have size: "unat (buf_size b) = 16 + length rest" by simp
  moreover have "unat (buf_size b) \<le> 65536"
    using assms(1,2) by (auto simp: buffer_ok_def word_le_nat_alt)
  ultimately have small: "16 + length rest \<le> 65536" by simp
  then have word: "buf_size b = of_nat (16 + length rest)"
    using size by (intro word_of_unat)
  let ?s = "buf_size b"
  let ?b = "[ucast (drop_bit 24 ?s), ucast (drop_bit 16 ?s), ucast (drop_bit 8 ?s), ucast ?s] :: u8 list"
  have "unat (ucast ?s :: u32) = 16 + length rest" using small size by (simp add: unat_ucast_small)
  then have narrow: "ucast ?s = (of_nat (16 + length rest) :: u32)"
    by (rule word_of_unat)
  have bytes: "?b = be_bytes 4 (of_nat (16 + length rest) :: u32)"
    unfolding narrow [symmetric] be_bytes_def
    by (auto simp: upt_rec list_eq_iff_nth_eq nth_Cons' bit_eq_iff bit_simps)
  have "take (unat ?s) (d[12 := ?b ! 0, 13 := ?b ! 1, 14 := ?b ! 2, 15 := ?b ! 3]) =
      (take (unat ?s) d)[12 := ?b ! 0, 13 := ?b ! 1, 14 := ?b ! 2, 15 := ?b ! 3]"
    by (simp add: take_update_swap)
  also have "\<dots> = head @ ?b @ rest"
    unfolding c using assms(4) by (simp add: list_update_append be_bytes_def upt_rec)
  finally have "take (unat ?s) (d[12 := ?b ! 0, 13 := ?b ! 1, 14 := ?b ! 2, 15 := ?b ! 3]) =
      head @ be_bytes 4 (of_nat (16 + length rest) :: u32) @ rest" by (simp only: bytes)
  then show ?thesis
    using d small by (simp add: buffer_contents_def buffer_blocks_def identity_put_size_def)
qed

lemma spec_fields_image:
  "fields_image (spec_view spec) =
     concat (map (field_image \<circ> field_view) (take (unat (spec_key_field_count spec)) (the (spec_key_fields spec)))) @
     (case spec_optimistic_field spec of None \<Rightarrow> [] | Some f \<Rightarrow> field_image (field_view f))"
  by (simp add: fields_image_def spec_view_def o_def split: option.splits)

definition spec_header :: "VpsRowIdentitySpec \<Rightarrow> u8 list" where
  "spec_header spec = vps_identity_magic @ [1, identity_flags (spec_optimistic_field spec)] @
     be_bytes 2 (ucast (spec_key_field_count spec) :: u16) @ be_bytes 4 (spec_relation_oid spec)"

text \<open>The arrays of a specification are as long as it says.\<close>

definition spec_readable :: "VpsRowIdentitySpec \<Rightarrow> bool" where
  "spec_readable spec \<longleftrightarrow>
     (case spec_key_fields spec of None \<Rightarrow> True
      | Some fs \<Rightarrow> unat (spec_key_field_count spec) \<le> length fs \<and> list_all field_readable fs) \<and>
     pred_option field_readable (spec_optimistic_field spec)"

lemma put_size_image:
  assumes ok: "buffer_ok b" "buf_limit b = 65536"
    and contents: "buffer_contents b = spec_header spec @ be_bytes 4 (0 :: u32) @ fields_image (spec_view spec)"
    and n: "unat (spec_key_field_count spec) \<noteq> 0" "unat (spec_key_field_count spec) \<le> 32"
      "length (view_key_fields (spec_view spec)) = unat (spec_key_field_count spec)"
    and fields_ok: "list_all field_ok (view_key_fields (spec_view spec))"
      "pred_option field_ok (view_optimistic_field (spec_view spec))"
  shows "buffer_contents (identity_put_size b) = view_image (spec_view spec) \<and> view_ok (spec_view spec) \<and>
    buffer_blocks (identity_put_size b) = buffer_blocks b"
proof -
  have "length (spec_header spec) = 12" by (simp add: spec_header_def vps_identity_magic_def)
  note put = put_size_contents [OF ok contents this]
  have "unat (ucast (spec_key_field_count spec) :: u16) = unat (spec_key_field_count spec)"
    using n by (simp add: unat_ucast_small)
  then have key_count: "ucast (spec_key_field_count spec) = (of_nat (unat (spec_key_field_count spec)) :: u16)"
    by (rule word_of_unat)
  have parts: "view_relation_oid (spec_view spec) = spec_relation_oid spec"
    "identity_flags (view_optimistic_field (spec_view spec)) = identity_flags (spec_optimistic_field spec)"
    by (simp_all add: spec_view_def identity_flags_def)
  have image: "buffer_contents (identity_put_size b) = view_image (spec_view spec)"
    using put unfolding view_image_def spec_header_def parts n(3) key_count append.assoc by blast
  have "view_ok (spec_view spec)"
    using n put fields_ok by (auto simp: view_ok_def length_view_image)
  with image put show ?thesis by blast
qed

context allocator_contract
begin

lemma encode_fail_step:
  assumes "buffer_in A inv live b w" "identity_fail result b w = (r, out, w')"
  shows "r = result \<and> live w' = live w - buffer_blocks b"
proof -
  obtain b' w'' where reset: "vps_buffer_reset b w = (b', w'')" by fastforce
  from reset_step [OF assms(1) reset] assms(2) reset show ?thesis by (auto simp: identity_fail_def)
qed

lemma encode_step:
  assumes "inv w" "spec_readable spec" "vps_row_identity_encode (Some A) (Some spec) w = (r, out, w')"
  shows "if r = VPS_ROW_IDENTITY_OK
    then \<exists>b. out = Some b \<and> view_ok (spec_view spec) \<and> buffer_contents b = view_image (spec_view spec) \<and>
      live w' = live w + buffer_blocks b
    else live w' = live w"
proof (cases "spec_key_fields spec = None \<or> spec_key_field_count spec = 0 \<or> spec_key_field_count spec > 32")
  case True
  then show ?thesis using assms(3) by (auto simp: vps_row_identity_encode_def split: if_splits)
next
  case False
  then obtain all where all: "spec_key_fields spec = Some all" by auto
  let ?n = "unat (spec_key_field_count spec)"
  let ?fs = "take ?n all"
  let ?b0 = "\<lparr>buf_allocator = A, buf_data = None, buf_size = 0, buf_capacity = 0, buf_limit = 65536\<rparr>"
  have n: "?n \<noteq> 0" "?n \<le> 32" "length ?fs = ?n"
    using False assms(2) all by (auto simp: unat_eq_zero word_le_nat_alt not_less spec_readable_def)
  have readable: "list_all field_readable ?fs" "pred_option field_readable (spec_optimistic_field spec)"
    using assms(2) all by (auto simp: spec_readable_def list_all_iff dest: in_set_takeD)
  have b0: "buffer_in A inv live ?b0 w" "buffer_contents ?b0 = []" "buffer_blocks ?b0 = {#}"
    using assms(1) by (simp_all add: buffer_in_def buffer_ok_def buffer_contents_def buffer_blocks_def)
  have init: "vps_buffer_init (Some A) 65536 = (VPS_MEMORY_OK, Some ?b0)" using valid by (simp add: vps_buffer_init_def)
  obtain r1 b1 w1 where head: "identity_append_header spec ?b0 w = (r1, b1, w1)" by (metis prod_cases3)
  obtain r2 b2 w2 where fields: "identity_append_fields ?fs b1 w1 = (r2, b2, w2)" by (metis prod_cases3)
  obtain r3 b3 w3 where opt: "(if spec_optimistic_field spec \<noteq> None
      then vps_identity_append_field b2 (spec_optimistic_field spec) w2 else (VPS_ROW_IDENTITY_OK, b2, w2)) = (r3, b3, w3)"
    by (metis prod_cases3)
  note h = append_header_step [OF b0(1) head, unfolded b0(2)]
  note fs = append_fields_step [OF buffer_step_in [OF h(1)] readable(1) fields]
  have o3: "buffer_step A inv live (b2, w2) (b3, w3)"
    "r3 = VPS_ROW_IDENTITY_OK \<Longrightarrow> pred_option (\<lambda>f. \<not> identity_field_refused f) (spec_optimistic_field spec) \<and>
      buffer_contents b3 = buffer_contents b2 @
        (case spec_optimistic_field spec of None \<Rightarrow> [] | Some f \<Rightarrow> field_image (field_view f))"
    using opt readable(2) append_field_step [of b2 w2 _ r3 b3 w3] fs
    by (auto intro: buffer_step_refl dest: buffer_step_in split: option.splits if_splits)
  have steps: "buffer_step A inv live (?b0, w) (b1, w1)" "buffer_step A inv live (?b0, w) (b2, w2)"
      "buffer_step A inv live (?b0, w) (b3, w3)"
    using h(1) fs o3(1) by (blast intro: buffer_step_trans)+
  note ins = steps [THEN buffer_step_in]
  have lives: "live w1 - buffer_blocks b1 = live w" "live w2 - buffer_blocks b2 = live w"
      "live w3 - buffer_blocks b3 = live w" "live w3 = live w + buffer_blocks b3"
    using steps by (simp_all add: buffer_step_def b0(3))
  have run: "(r, out, w') = (if r1 \<noteq> VPS_ROW_IDENTITY_OK then identity_fail VPS_ROW_IDENTITY_OUT_OF_MEMORY b1 w1
      else if r2 \<noteq> VPS_ROW_IDENTITY_OK then identity_fail r2 b2 w2
      else if r3 \<noteq> VPS_ROW_IDENTITY_OK then identity_fail r3 b3 w3
      else (VPS_ROW_IDENTITY_OK, Some (identity_put_size b3), w3))"
    using assms(3) False all init head fields opt valid by (auto simp: vps_row_identity_encode_def)
  show ?thesis
  proof (cases "r1 = VPS_ROW_IDENTITY_OK \<and> r2 = VPS_ROW_IDENTITY_OK \<and> r3 = VPS_ROW_IDENTITY_OK")
    case False
    then consider "r1 \<noteq> VPS_ROW_IDENTITY_OK" | "r1 = VPS_ROW_IDENTITY_OK" "r2 \<noteq> VPS_ROW_IDENTITY_OK"
      | "r1 = VPS_ROW_IDENTITY_OK" "r2 = VPS_ROW_IDENTITY_OK" "r3 \<noteq> VPS_ROW_IDENTITY_OK" by blast
    then show ?thesis
      using run lives encode_fail_step [OF ins(1)] encode_fail_step [OF ins(2)] encode_fail_step [OF ins(3)]
      by cases (metis VpsRowIdentityResult.distinct)+
  next
    case True
    then have r: "r = VPS_ROW_IDENTITY_OK" "out = Some (identity_put_size b3)" "w' = w3" using run by simp_all
    have ok3: "buffer_ok b3" "buf_limit b3 = 65536" using ins(3) steps(3) by (simp_all add: buffer_in_def buffer_step_def)
    have contents: "buffer_contents b3 = spec_header spec @ be_bytes 4 (0 :: u32) @ fields_image (spec_view spec)"
      using h(2) fs o3(2) True all by (simp add: spec_fields_image spec_header_def header_parts_def)
    have "length (view_key_fields (spec_view spec)) = ?n" "list_all field_ok (view_key_fields (spec_view spec))"
      "pred_option field_ok (view_optimistic_field (spec_view spec))"
      using n fs o3(2) True readable field_view_ok
      by (auto simp: spec_view_def all list_all_iff option.pred_set)
    with put_size_image [OF ok3 contents n(1,2)] r lives show ?thesis by simp
  qed
qed

end

text \<open>A specification none of whose fields is refused is written by one chain of appends, which a heap that serves
  every request completes as long as the token fits.\<close>

definition spec_parts :: "VpsRowIdentitySpec \<Rightarrow> u8 list list" where
  "spec_parts spec = header_parts spec @
     concat (map field_parts (take (unat (spec_key_field_count spec)) (the (spec_key_fields spec)))) @
     (case spec_optimistic_field spec of None \<Rightarrow> [] | Some f \<Rightarrow> field_parts f)"

definition spec_accepted :: "VpsRowIdentitySpec \<Rightarrow> bool" where
  "spec_accepted spec \<longleftrightarrow> spec_readable spec \<and> spec_key_fields spec \<noteq> None \<and>
     0 < unat (spec_key_field_count spec) \<and> unat (spec_key_field_count spec) \<le> 32 \<and>
     list_all (\<lambda>f. \<not> identity_field_refused f)
       (take (unat (spec_key_field_count spec)) (the (spec_key_fields spec))) \<and>
     pred_option (\<lambda>f. \<not> identity_field_refused f) (spec_optimistic_field spec)"

definition identity_result :: "VpsMemoryResult \<Rightarrow> VpsRowIdentityResult" where
  "identity_result r = (if r = VPS_MEMORY_OK then VPS_ROW_IDENTITY_OK else VPS_ROW_IDENTITY_OUT_OF_MEMORY)"

lemma append_fields_parts:
  assumes "list_all (\<lambda>f. \<not> identity_field_refused f) fs" "list_all field_readable fs"
  shows "identity_append_fields fs b w =
    (case buffer_appends (concat (map field_parts fs)) b w of (r, b', w') \<Rightarrow> (identity_result r, b', w'))"
  using assms
proof (induction fs arbitrary: b w)
  case (Cons f fs)
  then show ?case
    by (auto simp: append_field_parts buffer_appends_append identity_result_def split: prod.splits)
qed (simp add: identity_result_def)

lemma encode_accepted:
  assumes spec: "spec_accepted spec" and A: "vps_allocator_is_valid (Some A)"
  defines "b0 \<equiv> \<lparr>buf_allocator = A, buf_data = None, buf_size = 0, buf_capacity = 0, buf_limit = 65536\<rparr>"
  shows "vps_row_identity_encode (Some A) (Some spec) w =
    (case buffer_appends (spec_parts spec) b0 w of (r, b', w') \<Rightarrow>
       if r = VPS_MEMORY_OK then (VPS_ROW_IDENTITY_OK, Some (identity_put_size b'), w')
       else identity_fail VPS_ROW_IDENTITY_OUT_OF_MEMORY b' w')"
proof -
  obtain all where all: "spec_key_fields spec = Some all" using spec by (auto simp: spec_accepted_def)
  let ?fs = "take (unat (spec_key_field_count spec)) all"
  have n: "spec_key_field_count spec \<noteq> 0" "\<not> spec_key_field_count spec > 32"
    using spec by (auto simp: spec_accepted_def word_le_nat_alt not_less)
  have ok: "list_all (\<lambda>f. \<not> identity_field_refused f) ?fs" "list_all field_readable ?fs"
    using spec all by (auto simp: spec_accepted_def spec_readable_def list_all_iff dest: in_set_takeD)
  have opt: "\<not> identity_field_refused f" "field_readable f" if "spec_optimistic_field spec = Some f" for f
    using spec that by (auto simp: spec_accepted_def spec_readable_def)
  have init: "vps_buffer_init (Some A) 65536 = (VPS_MEMORY_OK, Some b0)" using A by (simp add: vps_buffer_init_def b0_def)
  show ?thesis
    using n A opt
    by (auto simp: vps_row_identity_encode_def Let_def all init append_header_parts append_fields_parts [OF ok]
        spec_parts_def buffer_appends_append identity_result_def append_field_parts split: prod.splits option.splits)
qed

lemma concat_concat: "concat (concat xss) = concat (map concat xss)"
  by (induction xss) simp_all

lemma spec_parts_length:
  assumes "spec_accepted spec"
  shows "length (concat (spec_parts spec)) = length (view_image (spec_view spec))"
proof -
  let ?fs = "take (unat (spec_key_field_count spec)) (the (spec_key_fields spec))"
  have f: "concat (field_parts f) = field_image (field_view f)" if "f \<in> set ?fs" for f
    using assms that
    by (auto simp: spec_accepted_def spec_readable_def list_all_iff dest: in_set_takeD intro!: concat_field_parts)
  have "concat (concat (map field_parts ?fs)) = concat (map (field_image \<circ> field_view) ?fs)"
    using f by (auto simp: concat_concat o_def intro!: arg_cong [where f = concat])
  moreover have "concat (case spec_optimistic_field spec of None \<Rightarrow> [] | Some f \<Rightarrow> field_parts f) =
      (case spec_optimistic_field spec of None \<Rightarrow> [] | Some f \<Rightarrow> field_image (field_view f))"
    using assms by (auto simp: spec_accepted_def spec_readable_def concat_field_parts split: option.splits)
  ultimately have "concat (spec_parts spec) = concat (header_parts spec) @ fields_image (spec_view spec)"
    by (simp add: spec_parts_def spec_fields_image)
  then show ?thesis by (simp add: length_view_image header_parts_def vps_identity_magic_def)
qed

lemma encode_served:
  assumes spec: "spec_accepted spec" and fits: "length (view_image (spec_view spec)) \<le> 65536"
    and serves: "\<And>n. heap_oracle h n"
  shows "fst (vps_row_identity_encode (Some system_allocator) (Some spec) h) = VPS_ROW_IDENTITY_OK"
proof -
  let ?b0 = "\<lparr>buf_allocator = system_allocator, buf_data = None, buf_size = 0, buf_capacity = 0, buf_limit = 65536\<rparr>"
  have "fst (buffer_appends (spec_parts spec) ?b0 h) = VPS_MEMORY_OK"
    using serves fits spec_parts_length [OF spec]
    by (intro appends_served) (simp_all add: buffer_ok_def buffer_blocks_def)
  then show ?thesis by (auto simp: encode_accepted [OF spec system.valid] split: prod.splits)
qed

section \<open>Rowids\<close>

text \<open>The counter of a scan stops before it leaves the positive 64-bit integers.\<close>

lemma scan_next_step:
  "vps_row_identity_scan_next (Some c) =
     (if unat c < 2 ^ 63 - 1 then (VPS_ROW_IDENTITY_OK, Some (c + 1), Some (c + 1))
      else (VPS_ROW_IDENTITY_LIMIT, Some c, None))"
  by (auto simp: vps_row_identity_scan_next_def word_le_nat_alt)

section \<open>Properties\<close>

text \<open>C30. \<open>vps_row_identity_decode\<close> accepts exactly the canonical tokens. It succeeds with a view if and only if
  the view has 1 to 32 well-formed key fields and the token is the one serialisation of that view: magic, version,
  flags, field count, relation oid, total size, fields, nothing after them, and at most 65536 bytes. So no two tokens
  stand for the same row key, and no malformed or truncated token is read as a key.\<close>

theorem row_identity_decode_exact:
  "vps_row_identity_decode (Some token) = (VPS_ROW_IDENTITY_OK, Some view) \<longleftrightarrow>
     view_ok view \<and> token = view_image view"
  using decode_sound decode_complete by blast

text \<open>C31. Row tokens round-trip. When \<open>vps_row_identity_encode\<close> returns OK for a specification whose arrays are as
  long as it says, decoding the token gives back the relation, the key fields and the version field, and the
  token's own block is the only new block on the heap; when it fails no block stays allocated. It does return OK
  when the heap serves every request, no field is refused and the token is at most 65536 bytes long.\<close>

theorem row_identity_roundtrip:
  assumes "spec_readable spec"
    and "vps_row_identity_encode (Some system_allocator) (Some spec) h = (r, out, h')"
  shows "if r = VPS_ROW_IDENTITY_OK
    then \<exists>b. out = Some b \<and>
      vps_row_identity_decode (Some (buffer_contents b)) = (VPS_ROW_IDENTITY_OK, Some (spec_view spec)) \<and>
      heap_live h' = heap_live h + buffer_blocks b
    else heap_live h' = heap_live h \<and>
      \<not> (spec_accepted spec \<and> length (view_image (spec_view spec)) \<le> 65536 \<and> (\<forall>n. heap_oracle h n))"
proof -
  note e = system.encode_step [OF TrueI assms]
  show ?thesis
  proof (cases "r = VPS_ROW_IDENTITY_OK")
    case True
    with e show ?thesis by (auto simp: decode_complete)
  next
    case False
    with e encode_served [of spec h] assms(2) show ?thesis by auto
  qed
qed

abbreviation (input) witness_key :: VpsRowIdentityField where
  "witness_key \<equiv> \<lparr>field_kind = VPS_ROW_IDENTITY_FIELD_TEXT, field_type_oid = 25, field_bytes = Some [55, 56],
     field_length = 2, field_integer = 0\<rparr>"

abbreviation (input) witness_version :: VpsRowIdentityField where
  "witness_version \<equiv> \<lparr>field_kind = VPS_ROW_IDENTITY_FIELD_INTEGER, field_type_oid = 20, field_bytes = None,
     field_length = 0, field_integer = 9\<rparr>"

abbreviation (input) witness_spec :: VpsRowIdentitySpec where
  "witness_spec \<equiv> \<lparr>spec_relation_oid = 7, spec_key_fields = Some [witness_key], spec_key_field_count = 1,
     spec_optimistic_field = Some witness_version\<rparr>"

theorem row_identity_roundtrip_witness:
  "\<exists>b h'. vps_row_identity_encode (Some system_allocator) (Some witness_spec) witness_heap =
       (VPS_ROW_IDENTITY_OK, Some b, h') \<and>
     vps_row_identity_decode (Some (buffer_contents b)) =
       (VPS_ROW_IDENTITY_OK, Some \<lparr>view_relation_oid = 7, view_key_fields = [witness_key],
          view_optimistic_field = Some witness_version\<rparr>)"
proof -
  obtain r out h' where run: "vps_row_identity_encode (Some system_allocator) (Some witness_spec) witness_heap = (r, out, h')"
    by (metis prod_cases3)
  have readable: "spec_readable witness_spec" by (simp add: spec_readable_def field_readable_def)
  have accepted: "spec_accepted witness_spec"
    using readable by (simp add: spec_accepted_def identity_field_refused_def)
  have view: "spec_view witness_spec = \<lparr>view_relation_oid = 7, view_key_fields = [witness_key],
      view_optimistic_field = Some witness_version\<rparr>"
    by (simp add: spec_view_def field_view_def)
  have "length (view_image (spec_view witness_spec)) \<le> 65536"
    unfolding view by (simp add: length_view_image fields_image_def field_payload_def)
  with row_identity_roundtrip [OF readable run] accepted
  have "r = VPS_ROW_IDENTITY_OK \<and> (\<exists>b. out = Some b \<and>
      vps_row_identity_decode (Some (buffer_contents b)) = (VPS_ROW_IDENTITY_OK, Some (spec_view witness_spec)))"
    by (auto split: if_splits)
  with run show ?thesis unfolding view by auto
qed

end
