(* ===== verification/Vps_Secure_Memory.thy ===== *)
theory Vps_Secure_Memory
  imports Vps_Memory Vps_Logging Vps_Platform
begin

text \<open>
  Memory for secrets, \<open>src/src/vps_secure_memory.c\<close>: an owned block that is overwritten with zeros before it goes back
  to its allocator.

  A value borrows the platform and the logger. Many values of the program share one logger, so the state behind the
  allocator, the state behind the platform and the logger are the record \<open>services\<close>, which every operation is given
  and returns.
\<close>

section \<open>Data\<close>

record ('w, 'p, 'c) services =
  srv_heap :: 'w
  srv_platform :: 'p
  srv_logger :: "'c VpsLogger option"

datatype VpsSecureMemoryResult =
    VPS_SECURE_MEMORY_OK
  | VPS_SECURE_MEMORY_INVALID_ARGUMENT
  | VPS_SECURE_MEMORY_OUT_OF_MEMORY
  | VPS_SECURE_MEMORY_ZERO_FAILED
  | VPS_SECURE_MEMORY_OUT_OF_RANGE int

record ('w, 'p) VpsSensitiveMemory =
  sens_storage :: "'w VpsOwnedMemory"
  sens_operations :: "'p VpsPlatformOperations option"
  sens_initialized :: bool

abbreviation (input) VPS_PLATFORM_CAP_SECURE_ZERO :: u64 where "VPS_PLATFORM_CAP_SECURE_ZERO \<equiv> 16"
abbreviation (input) VPS_SECURE_MEMORY_SMALL_LIMIT :: size_t where "VPS_SECURE_MEMORY_SMALL_LIMIT \<equiv> 64"
abbreviation (input) VPS_SECURE_MEMORY_MEDIUM_LIMIT :: size_t where "VPS_SECURE_MEMORY_MEDIUM_LIMIT \<equiv> 4096"

section \<open>Operations\<close>

fun vps_secure_memory_result_name :: "VpsSecureMemoryResult \<Rightarrow> string" where
  "vps_secure_memory_result_name VPS_SECURE_MEMORY_OK = ''ok''"
| "vps_secure_memory_result_name VPS_SECURE_MEMORY_INVALID_ARGUMENT = ''invalid_argument''"
| "vps_secure_memory_result_name VPS_SECURE_MEMORY_OUT_OF_MEMORY = ''out_of_memory''"
| "vps_secure_memory_result_name VPS_SECURE_MEMORY_ZERO_FAILED = ''zero_failed''"
| "vps_secure_memory_result_name (VPS_SECURE_MEMORY_OUT_OF_RANGE _) = ''unknown''"

definition vps_secure_memory_size_class :: "size_t \<Rightarrow> string" where
  "vps_secure_memory_size_class nbytes =
     (if nbytes = 0 then ''empty''
      else if nbytes \<le> VPS_SECURE_MEMORY_SMALL_LIMIT then ''small''
      else if nbytes \<le> VPS_SECURE_MEMORY_MEDIUM_LIMIT then ''medium''
      else ''large'')"

definition vps_secure_memory_log ::
    "string \<Rightarrow> size_t \<Rightarrow> string \<Rightarrow> VpsLogLevel \<Rightarrow> ('w, 'p, 'c) services \<Rightarrow> ('w, 'p, 'c) services" where
  "vps_secure_memory_log phase nbytes status level s =
     s\<lparr>srv_logger := log_emit_strict (srv_logger s) level
        [LogStr VPS_LOG_FIELD_OPERATION ''secure_memory'',
         LogStr VPS_LOG_FIELD_PHASE phase,
         LogStr VPS_LOG_FIELD_SIZE_CLASS (vps_secure_memory_size_class nbytes),
         LogStr VPS_LOG_FIELD_STATUS status]\<rparr>"

definition vps_secure_memory_from_memory_result :: "VpsMemoryResult \<Rightarrow> VpsSecureMemoryResult" where
  "vps_secure_memory_from_memory_result result =
     (if result = VPS_MEMORY_OK then VPS_SECURE_MEMORY_OK
      else if result = VPS_MEMORY_OUT_OF_MEMORY then VPS_SECURE_MEMORY_OUT_OF_MEMORY
      else VPS_SECURE_MEMORY_INVALID_ARGUMENT)"

definition vps_sensitive_memory_init ::
    "'w VpsAllocator option \<Rightarrow> 'p VpsPlatformOperations option \<Rightarrow>
     VpsSecureMemoryResult \<times> ('w, 'p) VpsSensitiveMemory option" where
  "vps_sensitive_memory_init allocator operations =
     (if vps_platform_validate_operations operations VPS_PLATFORM_CAP_SECURE_ZERO \<noteq> VPS_PLATFORM_OK
      then (VPS_SECURE_MEMORY_INVALID_ARGUMENT, None)
      else case vps_owned_memory_init allocator of
        (memory_result, storage) \<Rightarrow>
          if memory_result \<noteq> VPS_MEMORY_OK
          then (vps_secure_memory_from_memory_result memory_result, None)
          else (VPS_SECURE_MEMORY_OK,
                Some \<lparr>sens_storage = the storage, sens_operations = operations, sens_initialized = True\<rparr>))"

definition secure_memory_level :: "VpsSecureMemoryResult \<Rightarrow> VpsLogLevel" where
  "secure_memory_level result =
     (if result = VPS_SECURE_MEMORY_OK then VPS_LOG_LEVEL_DEBUG else VPS_LOG_LEVEL_ERROR)"

definition vps_sensitive_memory_allocate ::
    "('w, 'p) VpsSensitiveMemory \<Rightarrow> size_t \<Rightarrow> ('w, 'p, 'c) services \<Rightarrow>
     VpsSecureMemoryResult \<times> ('w, 'p) VpsSensitiveMemory \<times> ('w, 'p, 'c) services" where
  "vps_sensitive_memory_allocate m nbytes s =
     (if \<not> sens_initialized m then (VPS_SECURE_MEMORY_INVALID_ARGUMENT, m, s)
      else case vps_owned_memory_allocate (sens_storage m) nbytes (srv_heap s) of
        (memory_result, storage, w) \<Rightarrow>
          let result = vps_secure_memory_from_memory_result memory_result
          in (result, m\<lparr>sens_storage := storage\<rparr>,
              vps_secure_memory_log ''allocation'' nbytes (vps_secure_memory_result_name result)
                (secure_memory_level result) (s\<lparr>srv_heap := w\<rparr>)))"

definition vps_sensitive_memory_adopt ::
    "('w, 'p) VpsSensitiveMemory \<Rightarrow> block option \<Rightarrow> size_t \<Rightarrow> ('w, 'p, 'c) services \<Rightarrow>
     VpsSecureMemoryResult \<times> ('w, 'p) VpsSensitiveMemory \<times> ('w, 'p, 'c) services" where
  "vps_sensitive_memory_adopt m memory nbytes s =
     (if \<not> sens_initialized m then (VPS_SECURE_MEMORY_INVALID_ARGUMENT, m, s)
      else case vps_owned_memory_adopt (sens_storage m) memory nbytes of
        (memory_result, storage) \<Rightarrow>
          let result = vps_secure_memory_from_memory_result memory_result
          in (result, m\<lparr>sens_storage := storage\<rparr>,
              vps_secure_memory_log ''adoption'' nbytes (vps_secure_memory_result_name result)
                (secure_memory_level result) s))"

text \<open>The platform overwrites the first \<open>size\<close> bytes of the block.\<close>

definition sensitive_zero ::
    "('w, 'p) VpsSensitiveMemory \<Rightarrow> 'p \<Rightarrow> VpsPlatformStatus \<times> ('w, 'p) VpsSensitiveMemory \<times> 'p" where
  "sensitive_zero m p =
     (let storage = sens_storage m; memory = the (owned_memory storage); n = unat (owned_size storage)
      in case vps_platform_secure_zero (sens_operations m) (take n memory) p of
           (status, bytes, p') \<Rightarrow>
             (status, m\<lparr>sens_storage := storage\<lparr>owned_memory := Some (bytes @ drop n memory)\<rparr>\<rparr>, p'))"

definition vps_sensitive_memory_release ::
    "('w, 'p) VpsSensitiveMemory \<Rightarrow> ('w, 'p, 'c) services \<Rightarrow>
     VpsSecureMemoryResult \<times> ('w, 'p) VpsSensitiveMemory \<times> ('w, 'p, 'c) services" where
  "vps_sensitive_memory_release m s =
     (if \<not> sens_initialized m then (VPS_SECURE_MEMORY_INVALID_ARGUMENT, m, s)
      else if \<not> owned_flag (sens_storage m)
      then (VPS_SECURE_MEMORY_OK, m,
            vps_secure_memory_log ''cleanup'' 0 ''already_released'' VPS_LOG_LEVEL_DEBUG s)
      else case sensitive_zero m (srv_platform s) of
        (status, m', p') \<Rightarrow>
          if status \<noteq> VPS_PLATFORM_OK
          then (VPS_SECURE_MEMORY_ZERO_FAILED, m',
                vps_secure_memory_log ''cleanup'' (owned_size (sens_storage m)) ''zero_failed''
                  VPS_LOG_LEVEL_ERROR (s\<lparr>srv_platform := p'\<rparr>))
          else case vps_owned_memory_release (sens_storage m') (srv_heap s) of
            (storage, w) \<Rightarrow>
              (VPS_SECURE_MEMORY_OK, m'\<lparr>sens_storage := storage\<rparr>,
               vps_secure_memory_log ''cleanup'' (owned_size (sens_storage m)) ''released''
                 VPS_LOG_LEVEL_DEBUG (s\<lparr>srv_platform := p', srv_heap := w\<rparr>)))"

definition vps_sensitive_memory_data :: "('w, 'p) VpsSensitiveMemory \<Rightarrow> block option" where
  "vps_sensitive_memory_data m =
     (if \<not> sens_initialized m \<or> \<not> owned_flag (sens_storage m) then None
      else owned_memory (sens_storage m))"

definition vps_sensitive_memory_size :: "('w, 'p) VpsSensitiveMemory \<Rightarrow> size_t" where
  "vps_sensitive_memory_size m =
     (if \<not> sens_initialized m \<or> \<not> owned_flag (sens_storage m) then 0 else owned_size (sens_storage m))"

text \<open>A store through the pointer \<open>vps_sensitive_memory_data\<close> returned.\<close>

definition sensitive_write :: "('w, 'p) VpsSensitiveMemory \<Rightarrow> nat \<Rightarrow> u8 list \<Rightarrow> ('w, 'p) VpsSensitiveMemory" where
  "sensitive_write m offset bytes =
     m\<lparr>sens_storage := (sens_storage m)\<lparr>owned_memory :=
        map_option (\<lambda>d. mem_write d offset bytes) (owned_memory (sens_storage m))\<rparr>\<rparr>"

section \<open>Wiping\<close>

text \<open>An allocator that shows what its blocks hold when they go back, a platform whose \<open>secure_zero\<close> does what its name
  says, and the states between which only zeros went back.\<close>

definition zeroed :: "block \<Rightarrow> bool" where
  "zeroed b \<longleftrightarrow> list_all (\<lambda>x. x = 0) b"

definition platform_zeroes :: "'p VpsPlatformOperations option \<Rightarrow> bool" where
  "platform_zeroes ops \<longleftrightarrow> (\<forall>bytes p status bytes' p'.
     vps_platform_secure_zero ops bytes p = (status, bytes', p') \<longrightarrow>
       length bytes' = length bytes \<and> (status = VPS_PLATFORM_OK \<longrightarrow> zeroed bytes'))"

definition wiped :: "('w \<Rightarrow> block list) \<Rightarrow> 'w \<Rightarrow> 'w \<Rightarrow> bool" where
  "wiped freed w w' \<longleftrightarrow> (\<exists>blocks. freed w' = blocks @ freed w \<and> list_all zeroed blocks)"

lemma wiped_refl [simp]: "wiped freed w w"
  by (simp add: wiped_def)

lemma wiped_trans [trans]: "wiped freed w w' \<Longrightarrow> wiped freed w' w'' \<Longrightarrow> wiped freed w w''"
  by (force simp: wiped_def)

locale recording_allocator = allocator_contract +
  fixes freed :: "'a \<Rightarrow> block list"
  assumes allocate_freed: "inv w \<Longrightarrow> call_allocate A w n = (m, w') \<Longrightarrow> freed w' = freed w"
    and deallocate_freed: "inv w \<Longrightarrow> freed (call_deallocate A w b n) = b # freed w"

interpretation system_record: recording_allocator system_allocator "\<lambda>_. True" heap_live heap_freed
  by unfold_locales
    (auto simp: call_allocate_def call_deallocate_def vps_system_allocate_def vps_system_deallocate_def
      c_malloc_def c_free_def Let_def split: if_splits)

interpretation fault_record: recording_allocator "fault_allocator system_allocator"
  "\<lambda>(f, w). fault_backing f = system_allocator \<and> True" "\<lambda>(f, w). heap_live w" "\<lambda>(f, w). heap_freed w"
proof (unfold_locales, goal_cases)
  case (1 fw n m fw')
  then show ?case
    using vps_fault_allocate_cases [of "fst fw" "snd fw" n m "fst fw'" "snd fw'"]
      system_record.allocate_freed [of "snd fw" n m "snd fw'"] by (auto simp: case_prod_beta)
next
  case (2 fw m n)
  then show ?case
    using system_record.deallocate_freed by (auto simp: vps_fault_deallocate_def Let_def split: prod.splits)
qed

definition secret_in ::
    "'w VpsAllocator \<Rightarrow> ('w \<Rightarrow> bool) \<Rightarrow> ('w \<Rightarrow> nat multiset) \<Rightarrow> ('w, 'p) VpsSensitiveMemory \<Rightarrow> ('w, 'p, 'c) services \<Rightarrow> bool" where
  "secret_in A iv live m s \<longleftrightarrow> iv (srv_heap s) \<and> owned_allocator (sens_storage m) = A \<and> owned_ok (sens_storage m) \<and>
     owned_blocks (sens_storage m) \<subseteq># live (srv_heap s) \<and> platform_zeroes (sens_operations m)"

definition secret_step ::
    "'w VpsAllocator \<Rightarrow> ('w \<Rightarrow> bool) \<Rightarrow> ('w \<Rightarrow> nat multiset) \<Rightarrow> ('w \<Rightarrow> block list) \<Rightarrow>
     ('w, 'p) VpsSensitiveMemory \<times> ('w, 'p, 'c) services \<Rightarrow> ('w, 'p) VpsSensitiveMemory \<times> ('w, 'p, 'c) services \<Rightarrow> bool" where
  "secret_step A iv live freed x y \<longleftrightarrow>
     secret_in A iv live (fst y) (snd y) \<and> sens_initialized (fst y) = sens_initialized (fst x) \<and>
     sens_operations (fst y) = sens_operations (fst x) \<and>
     live (srv_heap (snd y)) =
       live (srv_heap (snd x)) - owned_blocks (sens_storage (fst x)) + owned_blocks (sens_storage (fst y)) \<and>
     wiped freed (srv_heap (snd x)) (srv_heap (snd y))"

lemma secret_step_refl: "secret_in A iv live m s \<Longrightarrow> secret_step A iv live freed (m, s) (m, s)"
  by (simp add: secret_step_def secret_in_def)

lemma secret_step_in: "secret_step A iv live freed x (m, s) \<Longrightarrow> secret_in A iv live m s"
  by (simp add: secret_step_def)

lemma secret_step_trans:
  "secret_step A iv live freed x y \<Longrightarrow> secret_step A iv live freed y z \<Longrightarrow> secret_step A iv live freed x z"
  by (auto simp: secret_step_def intro: wiped_trans)

lemma vps_secure_memory_log_frame [simp]:
  "srv_heap (vps_secure_memory_log phase n status level s) = srv_heap s"
  "srv_platform (vps_secure_memory_log phase n status level s) = srv_platform s"
  by (simp_all add: vps_secure_memory_log_def)

lemma secret_in_log [simp]:
  "secret_in A iv live m (vps_secure_memory_log phase n status level s) = secret_in A iv live m s"
  by (simp add: secret_in_def)

lemma secret_step_log:
  "secret_in A iv live m s \<Longrightarrow> secret_step A iv live freed (m, s) (m, vps_secure_memory_log phase n status level s)"
  by (simp add: secret_step_def secret_in_def)

lemma length_mem_write: "offset + length bytes \<le> length d \<Longrightarrow> length (mem_write d offset bytes) = length d"
  by (simp add: mem_write_def)

lemma sensitive_write_step:
  assumes "secret_in A iv live m s"
    and "\<And>d. owned_memory (sens_storage m) = Some d \<Longrightarrow> offset + length bytes \<le> length d"
  shows "secret_step A iv live freed (m, s) (sensitive_write m offset bytes, s)"
    and "owned_blocks (sens_storage (sensitive_write m offset bytes)) = owned_blocks (sens_storage m)"
  using assms
  by (auto simp: secret_step_def secret_in_def sensitive_write_def owned_ok_def owned_blocks_def length_mem_write
      split: option.splits)

lemma sensitive_zero_owned:
  assumes "owned_ok (sens_storage m)" "owned_flag (sens_storage m)" "platform_zeroes (sens_operations m)"
    and "sensitive_zero m p = (status, m', p')"
  shows "owned_ok (sens_storage m') \<and> owned_flag (sens_storage m') \<and>
    owned_allocator (sens_storage m') = owned_allocator (sens_storage m) \<and>
    owned_size (sens_storage m') = owned_size (sens_storage m) \<and>
    owned_blocks (sens_storage m') = owned_blocks (sens_storage m) \<and>
    sens_operations m' = sens_operations m \<and> sens_initialized m' = sens_initialized m \<and>
    (status = VPS_PLATFORM_OK \<longrightarrow> (\<exists>d. owned_memory (sens_storage m') = Some d \<and> zeroed d))"
proof -
  obtain d where d: "owned_memory (sens_storage m) = Some d" "length d = unat (owned_size (sens_storage m))"
    using assms(1,2) by (auto simp: owned_ok_def)
  obtain bytes where zero: "vps_platform_secure_zero (sens_operations m) d p = (status, bytes, p')"
    and m': "m' = m\<lparr>sens_storage := (sens_storage m)\<lparr>owned_memory := Some bytes\<rparr>\<rparr>"
    using assms(4) d by (auto simp: sensitive_zero_def Let_def split: prod.splits)
  have "length bytes = length d" "status = VPS_PLATFORM_OK \<longrightarrow> zeroed bytes"
    using assms(3) zero unfolding platform_zeroes_def by blast+
  with assms(1,2) d show ?thesis by (simp add: m' owned_ok_def owned_blocks_def)
qed

context recording_allocator
begin

lemma sensitive_allocate_step:
  assumes "secret_in A inv live m s" "vps_sensitive_memory_allocate m n s = (r, m', s')"
  shows "secret_step A inv live freed (m, s) (m', s')"
    and "r = VPS_SECURE_MEMORY_OK \<Longrightarrow> sens_initialized m \<and> owned_blocks (sens_storage m) = {#} \<and>
      owned_size (sens_storage m') = n"
    and "r \<noteq> VPS_SECURE_MEMORY_OK \<Longrightarrow> m' = m"
proof -
  have "secret_step A inv live freed (m, s) (m', s') \<and>
    (r = VPS_SECURE_MEMORY_OK \<longrightarrow> sens_initialized m \<and> owned_blocks (sens_storage m) = {#} \<and>
      owned_size (sens_storage m') = n) \<and> (r \<noteq> VPS_SECURE_MEMORY_OK \<longrightarrow> m' = m)"
  proof (cases "sens_initialized m")
    case False
    then show ?thesis
      using assms by (auto simp: vps_sensitive_memory_allocate_def intro: secret_step_refl)
  next
    case True
    obtain mr st w where run: "vps_owned_memory_allocate (sens_storage m) n (srv_heap s) = (mr, st, w)"
      by (metis prod_cases3)
    have m: "inv (srv_heap s)" "owned_allocator (sens_storage m) = A" "owned_ok (sens_storage m)"
      using assms(1) by (simp_all add: secret_in_def)
    note o = owned_allocate [OF m run]
    have freed: "freed w = freed (srv_heap s)"
      using run m valid allocate_freed
      by (auto simp: vps_owned_memory_allocate_def vps_memory_allocate_def split: if_splits prod.splits option.splits)
    have eqs: "m' = m\<lparr>sens_storage := st\<rparr>" "srv_heap s' = w" "r = vps_secure_memory_from_memory_result mr"
      using assms(2) True run by (auto simp: vps_sensitive_memory_allocate_def Let_def)
    have "live w = live (srv_heap s) - owned_blocks (sens_storage m) + owned_blocks st"
      using o assms(1) by (auto simp: secret_in_def split: if_splits)
    then have "owned_blocks st \<subseteq># live w" by (simp only: mset_subset_eq_add_right)
    then show ?thesis
      using o eqs True freed assms(1) \<open>live w = _\<close>
      by (auto simp: secret_step_def secret_in_def wiped_def vps_secure_memory_from_memory_result_def
          split: if_splits)
  qed
  then show "secret_step A inv live freed (m, s) (m', s')"
    "r = VPS_SECURE_MEMORY_OK \<Longrightarrow> sens_initialized m \<and> owned_blocks (sens_storage m) = {#} \<and>
      owned_size (sens_storage m') = n"
    "r \<noteq> VPS_SECURE_MEMORY_OK \<Longrightarrow> m' = m" by blast+
qed

lemma sensitive_release_step:
  assumes "secret_in A inv live m s" "vps_sensitive_memory_release m s = (r, m', s')"
  shows "secret_step A inv live freed (m, s) (m', s')"
    and "owned_blocks (sens_storage m') = (if r = VPS_SECURE_MEMORY_OK then {#} else owned_blocks (sens_storage m))"
proof -
  have m: "inv (srv_heap s)" "owned_allocator (sens_storage m) = A" "owned_ok (sens_storage m)"
      "platform_zeroes (sens_operations m)"
    using assms(1) by (simp_all add: secret_in_def)
  have "secret_step A inv live freed (m, s) (m', s') \<and>
    owned_blocks (sens_storage m') = (if r = VPS_SECURE_MEMORY_OK then {#} else owned_blocks (sens_storage m))"
  proof (cases "sens_initialized m \<and> owned_flag (sens_storage m)")
    case False
    then show ?thesis
      using assms m(3) by (auto simp: vps_sensitive_memory_release_def owned_ok_def owned_blocks_def
          intro: secret_step_refl secret_step_log split: if_splits)
  next
    case True
    obtain status m1 p1 where zero: "sensitive_zero m (srv_platform s) = (status, m1, p1)" by (metis prod_cases3)
    have "owned_flag (sens_storage m)" using True by simp
    note z = sensitive_zero_owned [OF m(3) this m(4) zero]
    show ?thesis
    proof (cases "status = VPS_PLATFORM_OK")
      case False
      then show ?thesis
        using assms True zero z by (auto simp: vps_sensitive_memory_release_def secret_step_def secret_in_def)
    next
      case OK: True
      then obtain d where d: "owned_memory (sens_storage m1) = Some d" "zeroed d" using z by blast
      obtain st w where rel: "vps_owned_memory_release (sens_storage m1) (srv_heap s) = (st, w)" by fastforce
      have m1: "owned_allocator (sens_storage m1) = A" "owned_ok (sens_storage m1)" using z m by simp_all
      note o = owned_release [OF m(1) m1 rel]
      have "freed w = d # freed (srv_heap s)"
        using rel z m valid d deallocate_freed [OF m(1)]
        by (auto simp: vps_owned_memory_release_def vps_memory_release_def)
      then have "wiped freed (srv_heap s) w" using d(2) by (auto simp: wiped_def intro: exI [of _ "[d]"])
      then show ?thesis
        using assms True zero OK rel z o
        by (auto simp: vps_sensitive_memory_release_def secret_step_def secret_in_def)
    qed
  qed
  then show "secret_step A inv live freed (m, s) (m', s')"
    "owned_blocks (sens_storage m') = (if r = VPS_SECURE_MEMORY_OK then {#} else owned_blocks (sens_storage m))"
    by blast+
qed

lemma sensitive_init_in:
  assumes "inv (srv_heap s)" "platform_zeroes operations"
    and "vps_sensitive_memory_init (Some A) operations = (VPS_SECURE_MEMORY_OK, Some m)"
  shows "secret_in A inv live m s \<and> sens_initialized m \<and> owned_blocks (sens_storage m) = {#} \<and>
    sens_operations m = operations"
  using assms valid
  by (auto simp: vps_sensitive_memory_init_def vps_owned_memory_init_def secret_in_def owned_ok_def owned_blocks_def
      vps_secure_memory_from_memory_result_def split: if_splits)

end

lemma sensitive_adopt_in:
  assumes "secret_in A iv live m s" "vps_sensitive_memory_adopt m memory n s = (r, m', s')"
    and "\<And>d. memory = Some d \<Longrightarrow> length d = unat n \<and> length d \<in># live (srv_heap s)"
  shows "secret_in A iv live m' s' \<and> srv_heap s' = srv_heap s \<and>
    (if r = VPS_SECURE_MEMORY_OK then owned_blocks (sens_storage m) = {#} \<and> owned_memory (sens_storage m') = memory
     else m' = m)"
  using assms
  by (auto simp: vps_sensitive_memory_adopt_def vps_owned_memory_adopt_def secret_in_def owned_ok_def owned_blocks_def
      vps_secure_memory_from_memory_result_def Let_def split: if_splits option.splits)

text \<open>C32. A secret is wiped before its memory is freed. For a well-formed owner on the system heap and a platform whose
  \<open>secure_zero\<close> zeroes what it reports as zeroed, \<open>vps_sensitive_memory_release\<close> returns OK and gives back exactly the
  owner's block, holding nothing but zeros; or reports that zeroing failed (or that the owner was never
  initialised), gives nothing back and keeps the owner, so that the release can be repeated.\<close>

theorem sensitive_release_wipes:
  assumes "owned_ok (sens_storage m)" "owned_allocator (sens_storage m) = system_allocator"
    and "owned_blocks (sens_storage m) \<subseteq># heap_live (srv_heap s)"
    and "platform_zeroes (sens_operations m)"
    and "vps_sensitive_memory_release m s = (r, m', s')"
  shows "if r = VPS_SECURE_MEMORY_OK
    then owned_blocks (sens_storage m') = {#} \<and>
      heap_live (srv_heap s') = heap_live (srv_heap s) - owned_blocks (sens_storage m) \<and>
      (\<exists>blocks. heap_freed (srv_heap s') = blocks @ heap_freed (srv_heap s) \<and> list_all zeroed blocks)
    else owned_blocks (sens_storage m') = owned_blocks (sens_storage m) \<and> owned_ok (sens_storage m') \<and>
      heap_live (srv_heap s') = heap_live (srv_heap s)"
proof -
  have "secret_in system_allocator (\<lambda>_. True) heap_live m s" using assms(1-4) by (simp add: secret_in_def)
  note step = system_record.sensitive_release_step [OF this assms(5)]
  then show ?thesis using assms(3) by (auto simp: secret_step_def secret_in_def wiped_def split: if_splits)
qed

abbreviation (input) zeroing_platform :: "unit VpsPlatformOperations" where
  "zeroing_platform \<equiv> vps_posix_stub_operations
     \<lparr>op_secure_zero := Some (\<lambda>bytes p. (VPS_PLATFORM_OK, replicate (length bytes) 0, p))\<rparr>"

lemma zeroing_platform_zeroes: "platform_zeroes (Some zeroing_platform)"
  by (auto simp: platform_zeroes_def vps_platform_secure_zero_def platform_dispatch_def zeroed_def list_all_iff
      vps_posix_stub_operations_def)

abbreviation (input) witness_secret :: "(heap, unit) VpsSensitiveMemory" where
  "witness_secret \<equiv> \<lparr>sens_storage = \<lparr>owned_allocator = system_allocator, owned_memory = Some [112],
     owned_size = 1, owned_flag = True\<rparr>, sens_operations = Some zeroing_platform, sens_initialized = True\<rparr>"

abbreviation (input) witness_services :: "heap \<Rightarrow> (heap, unit, unit) services" where
  "witness_services h \<equiv> \<lparr>srv_heap = h, srv_platform = (), srv_logger = None\<rparr>"

theorem sensitive_release_wipes_witness:
  "\<exists>m' s'. vps_sensitive_memory_release witness_secret (witness_services (witness_heap\<lparr>heap_live := {#1#}\<rparr>)) =
      (VPS_SECURE_MEMORY_OK, m', s') \<and>
    heap_live (srv_heap s') = {#} \<and> heap_freed (srv_heap s') = [[0]]"
proof -
  obtain r m' s' where run: "vps_sensitive_memory_release witness_secret
      (witness_services (witness_heap\<lparr>heap_live := {#1#}\<rparr>)) = (r, m', s')" by (metis prod_cases3)
  have r: "r = VPS_SECURE_MEMORY_OK" "heap_freed (srv_heap s') = [[0]]"
    using run
    by (auto simp: vps_sensitive_memory_release_def sensitive_zero_def vps_platform_secure_zero_def
        platform_dispatch_def vps_posix_stub_operations_def vps_owned_memory_release_def vps_memory_release_def
        vps_allocator_is_valid_def call_deallocate_def vps_system_deallocate_def c_free_def
        vps_secure_memory_log_def Let_def)
  have "heap_live (srv_heap s') = {#1#} - {#1#}"
    using sensitive_release_wipes [OF _ _ _ _ run] r(1) zeroing_platform_zeroes
    by (simp add: owned_ok_def owned_blocks_def)
  with run r show ?thesis by auto
qed

end
