(* ===== verification/Vps_Utf8.thy ===== *)
theory Vps_Utf8
  imports Vps_Prelude
begin

text \<open>
  The check of UTF-8 text that \<open>src/src/vps_arguments.c\<close> and \<open>src/src/vps_credential_provider.c\<close> share, up to what they
  think of ASCII characters, and the proof that it accepts exactly the texts that encode a sequence of Unicode scalar
  values.
\<close>

section \<open>The validator\<close>

text \<open>The kind of sequence a lead byte opens: how many bytes continue it, and the bits it holds itself.\<close>

definition utf8_lead :: "u8 \<Rightarrow> (nat \<times> u32) option" where
  "utf8_lead first =
     (if first \<ge> 0xc2 \<and> first \<le> 0xdf then Some (1, ucast (first AND 0x1f))
      else if first \<ge> 0xe0 \<and> first \<le> 0xef then Some (2, ucast (first AND 0x0f))
      else if first \<ge> 0xf0 \<and> first \<le> 0xf4 then Some (3, ucast (first AND 0x07))
      else None)"

fun utf8_continue :: "u8 list \<Rightarrow> u32 \<Rightarrow> u32 option" where
  "utf8_continue [] codepoint = Some codepoint"
| "utf8_continue (current # bytes) codepoint =
     (if current AND 0xc0 \<noteq> 0x80 then None
      else utf8_continue bytes (push_bit 6 codepoint OR ucast (current AND 0x3f)))"

definition utf8_out_of_range :: "nat \<Rightarrow> u32 \<Rightarrow> bool" where
  "utf8_out_of_range continuation_count codepoint \<longleftrightarrow>
     (continuation_count = 2 \<and> codepoint < 0x800) \<or> (continuation_count = 3 \<and> codepoint < 0x10000) \<or>
     codepoint > 0x10ffff \<or> (codepoint \<ge> 0xd800 \<and> codepoint \<le> 0xdfff)"

text \<open>One multi-byte sequence: the number of bytes after its first one.\<close>

definition utf8_sequence :: "u8 \<Rightarrow> u8 list \<Rightarrow> nat option" where
  "utf8_sequence first rest =
     (case utf8_lead first of
        None \<Rightarrow> None
      | Some (continuation_count, bits) \<Rightarrow>
          if continuation_count > length rest then None
          else case utf8_continue (take continuation_count rest) bits of
            None \<Rightarrow> None
          | Some codepoint \<Rightarrow>
              if utf8_out_of_range continuation_count codepoint then None else Some continuation_count)"

function utf8_check :: "(u8 \<Rightarrow> bool) \<Rightarrow> u8 list \<Rightarrow> bool" where
  "utf8_check ascii_ok [] = True"
| "utf8_check ascii_ok (first # rest) =
     (if first < 0x80 then ascii_ok first \<and> utf8_check ascii_ok rest
      else case utf8_sequence first rest of
        None \<Rightarrow> False
      | Some n \<Rightarrow> utf8_check ascii_ok (drop n rest))"
  by pat_completeness auto
termination by (relation "measure (length \<circ> snd)") auto

section \<open>Scalar values\<close>

definition scalar_value :: "nat \<Rightarrow> bool" where
  "scalar_value c \<longleftrightarrow> c < 0x110000 \<and> \<not> (0xd800 \<le> c \<and> c < 0xe000)"

definition utf8_encode :: "nat \<Rightarrow> u8 list" where
  "utf8_encode c =
     map of_nat
       (if c < 0x80 then [c]
        else if c < 0x800 then [0xc0 + c div 64, 0x80 + c mod 64]
        else if c < 0x10000 then [0xe0 + c div 4096, 0x80 + c div 64 mod 64, 0x80 + c mod 64]
        else [0xf0 + c div 262144, 0x80 + c div 4096 mod 64, 0x80 + c div 64 mod 64, 0x80 + c mod 64])"

section \<open>The validator is exact\<close>

lemma u8_num: "unat (b :: u8) < 256"
  using unsigned_less [of b, where ?'a = nat] by simp

lemma u8_of_nat: "n < 256 \<Longrightarrow> unat (of_nat n :: u8) = n"
  by (intro unat_small_nat) simp

lemma low_bits:
  fixes b :: u8
  shows "unat (ucast (b AND 0x1f) :: u32) = unat b mod 32" "unat (ucast (b AND 0x0f) :: u32) = unat b mod 16"
    "unat (ucast (b AND 0x07) :: u32) = unat b mod 8" "unat (ucast (b AND 0x3f) :: u32) = unat b mod 64"
proof -
  have k: "unat (ucast (b AND mask k) :: u32) = unat b mod 2 ^ k" for k
  proof -
    have "unat (b AND mask k) = take_bit k (unat b)"
      by (simp only: take_bit_eq_mask [symmetric] unsigned_take_bit_eq)
    then have "unat (b AND mask k) = unat b mod 2 ^ k" by (simp only: take_bit_eq_mod)
    moreover have "unat (b AND mask k) < 2 ^ 32" using u8_num [of "b AND mask k"] by simp
    ultimately show ?thesis using u8_num [of "b AND mask k"] by (simp add: unat_ucast_small)
  qed
  from k [of 5] k [of 4] k [of 3] k [of 6] show "unat (ucast (b AND 0x1f) :: u32) = unat b mod 32"
    "unat (ucast (b AND 0x0f) :: u32) = unat b mod 16" "unat (ucast (b AND 0x07) :: u32) = unat b mod 8"
    "unat (ucast (b AND 0x3f) :: u32) = unat b mod 64" by (simp_all add: mask_eq_exp_minus_1)
qed

lemma continuation_iff: "(b :: u8) AND 0xc0 = 0x80 \<longleftrightarrow> 0x80 \<le> unat b \<and> unat b < 0xc0"
proof -
  have m: "(0xc0 :: u8) = NOT (mask 6)" by (simp add: mask_eq_exp_minus_1)
  have a: "b AND 0xc0 = push_bit 6 (drop_bit 6 b)" unfolding m by (rule bit_eqI) (auto simp: bit_simps)
  have "unat (drop_bit 6 b) = unat b div 64" by (simp add: drop_bit_eq_div unat_div)
  moreover have "unat b div 64 < 4" using u8_num [of b] by simp
  ultimately have "unat (b AND 0xc0) = 64 * (unat b div 64)"
    unfolding a by (simp add: push_bit_eq_mult unat_word_ariths)
  then have "b AND 0xc0 = 0x80 \<longleftrightarrow> 64 * (unat b div 64) = 128" by (simp add: word_unat_eq_iff)
  then show ?thesis by auto
qed

lemma shift_in:
  fixes c :: u32 and b :: u8
  assumes "unat c < 2 ^ 26"
  shows "unat (push_bit 6 c OR ucast (b AND 0x3f)) = unat c * 64 + unat b mod 64"
proof -
  have "push_bit 6 c OR ucast (b AND 0x3f) = push_bit 6 c + ucast (b AND 0x3f)"
  proof (rule disjunctive_add_eq_or [symmetric])
    have m: "(0x3f :: u8) = mask 6" by (simp add: mask_eq_exp_minus_1)
    show "push_bit 6 c AND ucast (b AND 0x3f) = 0"
      unfolding m by (rule bit_eqI) (auto simp: bit_simps)
  qed
  moreover have "unat (push_bit 6 c) = unat c * 64"
    using assms by (simp add: push_bit_eq_mult unat_word_ariths)
  ultimately show ?thesis
    using assms low_bits(4) [of b] by (simp add: unat_word_ariths)
qed

lemma mod_base: "(a :: nat) \<le> n \<Longrightarrow> n < a + d \<Longrightarrow> d dvd a \<Longrightarrow> n mod d = n - a"
  by (metis add.commute add_diff_cancel_left' dvdE le_add_diff_inverse less_diff_conv2 mod_less mod_mult_self3 mult.commute)

lemma utf8_lead_cases:
  "utf8_lead b = Some (k, bits) \<longleftrightarrow>
     k = 1 \<and> 0xc2 \<le> unat b \<and> unat b \<le> 0xdf \<and> unat bits = unat b - 0xc0 \<or>
     k = 2 \<and> 0xe0 \<le> unat b \<and> unat b \<le> 0xef \<and> unat bits = unat b - 0xe0 \<or>
     k = 3 \<and> 0xf0 \<le> unat b \<and> unat b \<le> 0xf4 \<and> unat bits = unat b - 0xf0"
proof -
  have bits: "0xc2 \<le> unat b \<Longrightarrow> unat b \<le> 0xdf \<Longrightarrow> unat b mod 32 = unat b - 0xc0"
    "0xe0 \<le> unat b \<Longrightarrow> unat b \<le> 0xef \<Longrightarrow> unat b mod 16 = unat b - 0xe0"
    "0xf0 \<le> unat b \<Longrightarrow> unat b \<le> 0xf4 \<Longrightarrow> unat b mod 8 = unat b - 0xf0"
    by (rule mod_base; simp)+
  have eq: "(y = bits) = (unat bits = unat y)" for y using word_unat_eq_iff [of bits y] by auto
  consider (two) "0xc2 \<le> unat b" "unat b \<le> 0xdf" | (three) "0xe0 \<le> unat b" "unat b \<le> 0xef"
    | (four) "0xf0 \<le> unat b" "unat b \<le> 0xf4"
    | (none) "\<not> (0xc2 \<le> unat b \<and> unat b \<le> 0xdf)" "\<not> (0xe0 \<le> unat b \<and> unat b \<le> 0xef)" "\<not> (0xf0 \<le> unat b \<and> unat b \<le> 0xf4)"
    by blast
  then show ?thesis
  proof cases
    case two
    then show ?thesis using bits(1) low_bits(1) [of b] by (auto simp: utf8_lead_def word_le_nat_alt eq)
  next
    case three
    then show ?thesis using bits(2) low_bits(2) [of b] by (auto simp: utf8_lead_def word_le_nat_alt eq)
  next
    case four
    then show ?thesis using bits(3) low_bits(3) [of b] by (auto simp: utf8_lead_def word_le_nat_alt eq)
  next
    case none
    then have "utf8_lead b = None" by (auto simp: utf8_lead_def word_le_nat_alt)
    with none show ?thesis by auto
  qed
qed

text \<open>The code point of a run of continuation bytes.\<close>

definition continuation :: "u8 \<Rightarrow> bool" where
  "continuation b \<longleftrightarrow> 0x80 \<le> unat b \<and> unat b < 0xc0"

definition codepoint_of :: "nat \<Rightarrow> u8 list \<Rightarrow> nat" where
  "codepoint_of start bytes = foldl (\<lambda>c b. c * 64 + (unat b - 0x80)) start bytes"

lemma utf8_continue_iff:
  "(unat c + 1) * 64 ^ length bytes \<le> 2 ^ 26 \<Longrightarrow>
   utf8_continue bytes c = Some d \<longleftrightarrow> list_all continuation bytes \<and> unat d = codepoint_of (unat c) bytes"
proof (induction bytes arbitrary: c)
  case Nil
  then show ?case by (auto simp: codepoint_of_def word_unat_eq_iff)
next
  case (Cons b bytes)
  show ?case
  proof (cases "continuation b")
    case False
    then show ?thesis by (auto simp: continuation_iff continuation_def)
  next
    case True
    have "(unat c + 1) * 1 \<le> (unat c + 1) * 64 ^ length (b # bytes)" by (intro mult_le_mono2) simp
    from le_trans [OF this Cons.prems] have c: "unat c < 2 ^ 26" by simp
    have m: "unat b mod 64 = unat b - 0x80" using True by (intro mod_base) (auto simp: continuation_def)
    note next_c = shift_in [OF c, of b, unfolded m]
    have "unat b - 0x80 < 64" using True by (auto simp: continuation_def)
    then have "(unat c * 64 + (unat b - 0x80) + 1) * 64 ^ length bytes \<le> (unat c + 1) * 64 * 64 ^ length bytes"
      by (intro mult_le_mono1) simp
    also have "\<dots> = (unat c + 1) * 64 ^ length (b # bytes)" by (simp only: length_Cons power_Suc mult.assoc)
    also note Cons.prems
    finally have "(unat c * 64 + (unat b - 0x80) + 1) * 64 ^ length bytes \<le> 2 ^ 26" .
    with True Cons.IH [of "push_bit 6 c OR ucast (b AND 0x3f)"] next_c show ?thesis
      by (simp add: codepoint_of_def continuation_iff continuation_def)
  qed
qed

text \<open>A multi-byte sequence is the encoding of one scalar value that is not ASCII.\<close>

lemma last_digit:
  "(z :: nat) < 64 \<Longrightarrow> (a * 64 + z) div 64 = a" "z < 64 \<Longrightarrow> (a * 64 + z) mod 64 = z"
  by simp_all

lemma encode_two:
  assumes "x < 32" "y < 64" "2 \<le> x"
  shows "0x80 \<le> x * 64 + y \<and> x * 64 + y < 0x800 \<and>
    utf8_encode (x * 64 + y) = [of_nat (0xc0 + x), of_nat (0x80 + y)]"
  using assms by (auto simp: utf8_encode_def)

lemma encode_three:
  assumes "x < 16" "y < 64" "z < 64" "0x800 \<le> (x * 64 + y) * 64 + z"
  shows "(x * 64 + y) * 64 + z < 0x10000 \<and>
    utf8_encode ((x * 64 + y) * 64 + z) = [of_nat (0xe0 + x), of_nat (0x80 + y), of_nat (0x80 + z)]"
proof -
  let ?c = "(x * 64 + y) * 64 + z"
  note d = last_digit [OF assms(3), of "x * 64 + y"] last_digit [OF assms(2), of x]
  moreover have "?c div 4096 = x" using div_mult2_eq [of ?c 64 64] unfolding d by simp
  moreover have "?c < 0x10000" using assms by simp
  ultimately show ?thesis using assms by (simp add: utf8_encode_def)
qed

lemma encode_four:
  assumes "x < 5" "y < 64" "z < 64" "u < 64" "0x10000 \<le> ((x * 64 + y) * 64 + z) * 64 + u"
  shows "utf8_encode (((x * 64 + y) * 64 + z) * 64 + u) =
    [of_nat (0xf0 + x), of_nat (0x80 + y), of_nat (0x80 + z), of_nat (0x80 + u)]"
proof -
  let ?c = "((x * 64 + y) * 64 + z) * 64 + u"
  note d = last_digit [OF assms(4), of "(x * 64 + y) * 64 + z"] last_digit [OF assms(3), of "x * 64 + y"]
    last_digit [OF assms(2), of x]
  moreover have four: "?c div 4096 = x * 64 + y" using div_mult2_eq [of ?c 64 64] unfolding d by simp
  moreover have "?c div 262144 = x" using div_mult2_eq [of ?c 4096 64] unfolding four d by simp
  ultimately show ?thesis using assms by (simp add: utf8_encode_def)
qed

lemma byte_offset: "a \<le> unat (b :: u8) \<Longrightarrow> of_nat (a + (unat b - a)) = b"
  by simp

lemma continuation_digit: "continuation b \<Longrightarrow> unat b - 0x80 < 64 \<and> of_nat (0x80 + (unat b - 0x80)) = b"
  by (auto simp: continuation_def)

lemma length_one: "length xs = 1 \<longleftrightarrow> (\<exists>a. xs = [a])" and length_two: "length xs = 2 \<longleftrightarrow> (\<exists>a b. xs = [a, b])"
  and length_three: "length xs = 3 \<longleftrightarrow> (\<exists>a b c. xs = [a, b, c])"
  by (auto simp: length_Suc_conv numeral_eq_Suc)

lemma range_iff:
  "utf8_out_of_range n cp \<longleftrightarrow> (n = 2 \<and> unat cp < 0x800) \<or> (n = 3 \<and> unat cp < 0x10000) \<or> \<not> scalar_value (unat cp)"
  by (auto simp: utf8_out_of_range_def scalar_value_def word_less_nat_alt word_le_nat_alt)

text \<open>What the decoder does with a sequence of the right length.\<close>

lemma utf8_sequence_parts:
  "utf8_sequence b rest = Some n \<longleftrightarrow>
     (\<exists>bits cp. utf8_lead b = Some (n, bits) \<and> n \<le> length rest \<and> utf8_continue (take n rest) bits = Some cp \<and>
        \<not> utf8_out_of_range n cp)"
  by (auto simp: utf8_sequence_def split: option.splits if_splits)

lemma lead_bound: "utf8_lead b = Some (n, bits) \<Longrightarrow> (unat bits + 1) * 64 ^ n \<le> 2 ^ 26"
proof -
  assume "utf8_lead b = Some (n, bits)"
  then have "n = 1 \<and> unat bits \<le> 31 \<or> n = 2 \<and> unat bits \<le> 15 \<or> n = 3 \<and> unat bits \<le> 4"
    by (auto simp: utf8_lead_cases)
  then show ?thesis by (elim disjE conjE) simp_all
qed

lemma utf8_sequence_sound:
  assumes "utf8_sequence b rest = Some n"
  shows "n \<le> length rest \<and> (\<exists>c. scalar_value c \<and> 0x80 \<le> c \<and> utf8_encode c = b # take n rest)"
proof -
  from assms obtain bits cp where lead: "utf8_lead b = Some (n, bits)" and len: "n \<le> length rest"
    and cont: "utf8_continue (take n rest) bits = Some cp" and range: "\<not> utf8_out_of_range n cp"
    by (auto simp: utf8_sequence_parts)
  have n: "length (take n rest) = n" using len by simp
  have "(unat bits + 1) * 64 ^ length (take n rest) \<le> 2 ^ 26" using lead_bound [OF lead] n by simp
  from cont [unfolded utf8_continue_iff [OF this]]
  have cont': "list_all continuation (take n rest)" "unat cp = codepoint_of (unat bits) (take n rest)" by simp_all
  from lead consider
      (two) "n = 1" "0xc2 \<le> unat b" "unat b \<le> 0xdf" "unat bits = unat b - 0xc0"
    | (three) "n = 2" "0xe0 \<le> unat b" "unat b \<le> 0xef" "unat bits = unat b - 0xe0"
    | (four) "n = 3" "0xf0 \<le> unat b" "unat b \<le> 0xf4" "unat bits = unat b - 0xf0"
    by (auto simp: utf8_lead_cases)
  then have "\<exists>c. scalar_value c \<and> 0x80 \<le> c \<and> utf8_encode c = b # take n rest"
  proof cases
    case two
    then obtain y where y: "take n rest = [y]" using length_one [of "take n rest"] n by auto
    have "continuation y" and cp: "unat cp = (unat b - 0xc0) * 64 + (unat y - 0x80)"
      using cont' two y by (auto simp: codepoint_of_def)
    then show ?thesis
      using encode_two [of "unat b - 0xc0" "unat y - 0x80"] continuation_digit [of y] two byte_offset [where b = b and a = "0xc0"] y
      by (intro exI [of _ "unat cp"]) (auto simp: scalar_value_def)
  next
    case three
    then obtain y z where y: "take n rest = [y, z]" using length_two [of "take n rest"] n by auto
    have c: "continuation y" "continuation z" and cp: "unat cp = ((unat b - 0xe0) * 64 + (unat y - 0x80)) * 64 + (unat z - 0x80)"
      using cont' three y by (auto simp: codepoint_of_def)
    note d = continuation_digit [OF c(1)] continuation_digit [OF c(2)]
    have "0x800 \<le> unat cp" "scalar_value (unat cp)" using range three by (auto simp: range_iff)
    then show ?thesis
      using encode_three [of "unat b - 0xe0" "unat y - 0x80" "unat z - 0x80"] d three byte_offset [where b = b and a = "0xe0"] y
      unfolding cp by (intro exI [of _ "unat cp"]) (auto simp: cp)
  next
    case four
    then obtain y z u where y: "take n rest = [y, z, u]" using length_three [of "take n rest"] n by auto
    have c: "continuation y" "continuation z" "continuation u"
      and cp: "unat cp = (((unat b - 0xf0) * 64 + (unat y - 0x80)) * 64 + (unat z - 0x80)) * 64 + (unat u - 0x80)"
      using cont' four y by (auto simp: codepoint_of_def)
    note d = continuation_digit [OF c(1)] continuation_digit [OF c(2)] continuation_digit [OF c(3)]
    have "0x10000 \<le> unat cp" "scalar_value (unat cp)" using range four by (auto simp: range_iff)
    then show ?thesis
      using encode_four [of "unat b - 0xf0" "unat y - 0x80" "unat z - 0x80" "unat u - 0x80"] d four byte_offset [where b = b and a = "0xf0"] y
      unfolding cp by (intro exI [of _ "unat cp"]) (auto simp: cp)
  qed
  with len show ?thesis by blast
qed

lemma utf8_sequence_digits:
  assumes lead: "utf8_lead (of_nat lead) = Some (length digits, bits)" and "unat bits = upper"
    and digits: "\<forall>d\<in>set digits. d < 64" and c: "foldl (\<lambda>c d. c * 64 + d) upper digits = c" "scalar_value c"
    and big: "length digits = 2 \<longrightarrow> 0x800 \<le> c" "length digits = 3 \<longrightarrow> 0x10000 \<le> c"
  shows "utf8_sequence (of_nat lead) (map (\<lambda>d. of_nat (0x80 + d)) digits @ rest) = Some (length digits)"
proof -
  let ?ys = "map (\<lambda>d. of_nat (0x80 + d)) digits :: u8 list"
  have d: "unat (of_nat (0x80 + d) :: u8) = 0x80 + d" if "d < 64" for d using that by (intro u8_of_nat) simp
  have cont: "list_all continuation ?ys" using digits d by (auto simp: list_all_iff continuation_def simp del: of_nat_add)
  have "foldl (\<lambda>c b. c * 64 + (unat b - 0x80)) t ?ys = foldl (\<lambda>c d. c * 64 + d) t digits" for t
    using digits by (induction digits arbitrary: t) (simp_all add: d del: of_nat_add)
  then have cp: "codepoint_of (unat bits) ?ys = c" using assms(2) c(1) by (simp add: codepoint_of_def)
  have small: "unat (of_nat c :: u32) = c" using c(2) by (intro unat_small_nat) (simp add: scalar_value_def)
  have "utf8_continue ?ys bits = Some (of_nat c)"
    using lead_bound [OF lead] cont cp small by (subst utf8_continue_iff) simp_all
  moreover have "\<not> utf8_out_of_range (length digits) (of_nat c)" using c(2) big small by (auto simp: range_iff)
  ultimately show ?thesis using lead by (auto simp: utf8_sequence_parts)
qed

lemma utf8_sequence_complete:
  assumes "scalar_value c" "0x80 \<le> c"
  shows "\<exists>b ys. utf8_encode c = b # ys \<and> \<not> b < 0x80 \<and> utf8_sequence b (ys @ rest) = Some (length ys)"
proof -
  have lead: "utf8_lead (of_nat (base + upper)) = Some (k, of_nat upper) \<and> unat (of_nat upper :: u32) = upper \<and>
      \<not> (of_nat (base + upper) :: u8) < 0x80"
    if "base = 0xc0 \<and> k = 1 \<and> 2 \<le> upper \<and> upper < 32 \<or> base = 0xe0 \<and> k = 2 \<and> upper < 16 \<or> base = 0xf0 \<and> k = 3 \<and> upper < 5"
    for base upper k
  proof -
    have "base + upper < 256" "upper < 2 ^ 32" using that by auto
    then have "unat (of_nat (base + upper) :: u8) = base + upper" "unat (of_nat upper :: u32) = upper"
      by (simp_all only: u8_of_nat) (intro unat_small_nat, simp)
    with that show ?thesis by (auto simp: utf8_lead_cases word_less_nat_alt simp del: of_nat_add)
  qed
  consider (two) "c < 0x800" | (three) "0x800 \<le> c" "c < 0x10000" | (four) "0x10000 \<le> c" by linarith
  then show ?thesis
  proof cases
    case two
    have l: "utf8_lead (of_nat (0xc0 + c div 64)) = Some (length [c mod 64], of_nat (c div 64)) \<and>
        unat (of_nat (c div 64) :: u32) = c div 64 \<and> \<not> (of_nat (0xc0 + c div 64) :: u8) < 0x80"
      using lead [of "0xc0" 1 "c div 64"] two div_le_mono [OF assms(2), of 64] by simp
    have "utf8_sequence (of_nat (0xc0 + c div 64)) (map (\<lambda>d. of_nat (0x80 + d)) [c mod 64] @ rest) = Some (length [c mod 64])"
      using l assms(1) by (intro utf8_sequence_digits [where c = c]) auto
    then show ?thesis using l two assms(2) by (auto simp: utf8_encode_def)
  next
    case three
    let ?ds = "[c div 64 mod 64, c mod 64]"
    have l: "utf8_lead (of_nat (0xe0 + c div 4096)) = Some (length ?ds, of_nat (c div 4096)) \<and>
        unat (of_nat (c div 4096) :: u32) = c div 4096 \<and> \<not> (of_nat (0xe0 + c div 4096) :: u8) < 0x80"
      using lead [of "0xe0" 2 "c div 4096"] three by simp
    have e: "c div 4096 * 64 + c div 64 mod 64 = c div 64" using div_mult2_eq [of c 64 64] by simp
    have f: "foldl (\<lambda>c d. c * 64 + d) (c div 4096) ?ds = c" by (simp only: foldl.simps e) simp
    have "utf8_sequence (of_nat (0xe0 + c div 4096)) (map (\<lambda>d. of_nat (0x80 + d)) ?ds @ rest) = Some (length ?ds)"
      using l assms(1) three by (intro utf8_sequence_digits [OF _ _ _ f]) auto
    then show ?thesis using l three by (auto simp: utf8_encode_def)
  next
    case four
    let ?ds = "[c div 4096 mod 64, c div 64 mod 64, c mod 64]"
    have l: "utf8_lead (of_nat (0xf0 + c div 262144)) = Some (length ?ds, of_nat (c div 262144)) \<and>
        unat (of_nat (c div 262144) :: u32) = c div 262144 \<and> \<not> (of_nat (0xf0 + c div 262144) :: u8) < 0x80"
      using lead [of "0xf0" 3 "c div 262144"] four assms(1) by (simp add: scalar_value_def)
    have e: "c div 262144 * 64 + c div 4096 mod 64 = c div 4096" "c div 4096 * 64 + c div 64 mod 64 = c div 64"
      using div_mult2_eq [of c 4096 64] div_mult2_eq [of c 64 64] by simp_all
    have f: "foldl (\<lambda>c d. c * 64 + d) (c div 262144) ?ds = c" by (simp only: foldl.simps e) simp
    have "utf8_sequence (of_nat (0xf0 + c div 262144)) (map (\<lambda>d. of_nat (0x80 + d)) ?ds @ rest) = Some (length ?ds)"
      using l assms(1) four by (intro utf8_sequence_digits [OF _ _ _ f]) auto
    then show ?thesis using l four by (auto simp: utf8_encode_def)
  qed
qed

text \<open>The texts of Unicode scalar values whose ASCII characters pass the test.\<close>

definition utf8_text :: "(u8 \<Rightarrow> bool) \<Rightarrow> u8 list \<Rightarrow> bool" where
  "utf8_text ascii_ok bytes \<longleftrightarrow>
     (\<exists>cs. (\<forall>c\<in>set cs. scalar_value c \<and> (c < 0x80 \<longrightarrow> ascii_ok (of_nat c))) \<and> bytes = concat (map utf8_encode cs))"

lemma utf8_check_exact: "utf8_check ascii_ok bytes \<longleftrightarrow> utf8_text ascii_ok bytes"
proof
  show "utf8_text ascii_ok bytes" if "utf8_check ascii_ok bytes"
    using that
  proof (induction ascii_ok bytes rule: utf8_check.induct)
    case (1 ascii_ok)
    then show ?case by (auto simp: utf8_text_def intro: exI [of _ "[]"])
  next
    case (2 ascii_ok first rest)
    have step: "utf8_text ascii_ok (utf8_encode c @ more')" if "scalar_value c" "c < 0x80 \<Longrightarrow> ascii_ok (of_nat c)"
      "utf8_text ascii_ok more'" for c more'
    proof -
      from that(3) obtain cs where "\<forall>c\<in>set cs. scalar_value c \<and> (c < 0x80 \<longrightarrow> ascii_ok (of_nat c))"
        "more' = concat (map utf8_encode cs)" by (auto simp: utf8_text_def)
      with that(1,2) show ?thesis unfolding utf8_text_def by (intro exI [of _ "c # cs"]) auto
    qed
    show ?case
    proof (cases "first < 0x80")
      case True
      then have "utf8_encode (unat first) = [first]" "scalar_value (unat first)"
        by (simp_all add: utf8_encode_def word_less_nat_alt scalar_value_def)
      with step [of "unat first" rest] 2 True show ?thesis by simp
    next
      case False
      then obtain n where n: "utf8_sequence first rest = Some n" "utf8_check ascii_ok (drop n rest)"
        using "2.prems" by (auto split: option.splits)
      from utf8_sequence_sound [OF n(1)] obtain c where "scalar_value c" "0x80 \<le> c" "utf8_encode c = first # take n rest"
        by blast
      with step [of c "drop n rest"] 2(2) [OF False n] show ?thesis by simp
    qed
  qed
next
  have "utf8_check ascii_ok (concat (map utf8_encode cs))"
    if "\<forall>c\<in>set cs. scalar_value c \<and> (c < 0x80 \<longrightarrow> ascii_ok (of_nat c))" for cs
    using that
  proof (induction cs)
    case (Cons c cs)
    show ?case
    proof (cases "c < 0x80")
      case True
      then have "(of_nat c :: u8) < 0x80" by (simp add: word_less_nat_alt u8_of_nat)
      with True Cons show ?thesis by (simp add: utf8_encode_def)
    next
      case False
      with utf8_sequence_complete [of c "concat (map utf8_encode cs)"] Cons show ?thesis by auto
    qed
  qed simp
  then show "utf8_check ascii_ok bytes" if "utf8_text ascii_ok bytes" using that by (auto simp: utf8_text_def)
qed

end
