(* ===== verification/Vps_Credential.thy ===== *)
theory Vps_Credential
  imports Vps_Secure_Memory Vps_Utf8
begin

text \<open>
  The public structures of a connection (\<open>include/virtualpostgresql/vps_api.h\<close>), their ABI check (\<open>src/src/vps_abi.c\<close>)
  and the registry of the credential provider (\<open>src/src/vps_credential_provider.c\<close>), which resolves a reference into a
  copy in secret memory.

  The members of a configuration are reached by their offset in the code and by their name here: \<open>config_member\<close> maps a
  member to its string. A string that points into the storage of a resolved credential is the string itself. The
  provider is a parameter: two functions on its own state \<open>'x\<close>. One thread is modelled; a resolve holds the mutex only
  while it enters and leaves.
\<close>

section \<open>The ABI\<close>

record VpsAbiHeader =
  abi_structure_size :: u32
  abi_api_version :: u32
  abi_present_fields :: u64

datatype VpsAbiValidationResult =
    VPS_ABI_VALID
  | VPS_ABI_NULL
  | VPS_ABI_STRUCTURE_TOO_SMALL
  | VPS_ABI_VERSION_INCOMPATIBLE

definition VPS_API_VERSION_ENCODE :: "u32 \<Rightarrow> u32 \<Rightarrow> u32 \<Rightarrow> u32" where
  "VPS_API_VERSION_ENCODE major minor patch =
     push_bit 24 (major AND 0xff) OR push_bit 16 (minor AND 0xff) OR (patch AND 0xffff)"

definition VPS_API_VERSION :: u32 where
  "VPS_API_VERSION = VPS_API_VERSION_ENCODE 1 0 0"

definition vps_abi_validate_header :: "VpsAbiHeader option \<Rightarrow> u32 \<Rightarrow> u32 \<Rightarrow> VpsAbiValidationResult" where
  "vps_abi_validate_header header_ptr minimum_structure_size supported_api_version =
     (case header_ptr of
        None \<Rightarrow> VPS_ABI_NULL
      | Some header \<Rightarrow>
          if abi_structure_size header < minimum_structure_size then VPS_ABI_STRUCTURE_TOO_SMALL
          else if drop_bit 24 (abi_api_version header) AND 0xff \<noteq> drop_bit 24 supported_api_version AND 0xff
          then VPS_ABI_VERSION_INCOMPATIBLE
          else VPS_ABI_VALID)"

section \<open>Configurations\<close>

datatype credential_member =
    Hosts
  | Ports
  | User
  | Password
  | Dbname
  | Service
  | Service_file
  | Sslmode
  | Sslrootcert
  | Sslcert
  | Sslkey
  | Sslcrl
  | Channel_binding
  | Target_session_attrs
  | Connect_timeout
  | Statement_timeout
  | Lock_timeout
  | Application_name
  | Search_path

primrec member_index :: "credential_member \<Rightarrow> nat" where
  "member_index Hosts = 0"
| "member_index Ports = 1"
| "member_index User = 2"
| "member_index Password = 3"
| "member_index Dbname = 4"
| "member_index Service = 5"
| "member_index Service_file = 6"
| "member_index Sslmode = 7"
| "member_index Sslrootcert = 8"
| "member_index Sslcert = 9"
| "member_index Sslkey = 10"
| "member_index Sslcrl = 11"
| "member_index Channel_binding = 12"
| "member_index Target_session_attrs = 13"
| "member_index Connect_timeout = 14"
| "member_index Statement_timeout = 15"
| "member_index Lock_timeout = 16"
| "member_index Application_name = 17"
| "member_index Search_path = 18"

text \<open>The bit of a member, its offset behind the 16 bytes of the header, and the mask of all members.\<close>

definition member_bit :: "credential_member \<Rightarrow> u64" where
  "member_bit m = push_bit (member_index m) 1"

definition member_offset :: "credential_member \<Rightarrow> nat" where
  "member_offset m = 16 + 8 * member_index m"

definition VPS_CREDENTIAL_FIELDS_CURRENT :: u64 where
  "VPS_CREDENTIAL_FIELDS_CURRENT = mask 19"

abbreviation (input) VPS_CREDENTIAL_VALUE_MAX_LENGTH :: nat where "VPS_CREDENTIAL_VALUE_MAX_LENGTH \<equiv> 4096"
abbreviation (input) VPS_CREDENTIAL_REFERENCE_MAX_LENGTH :: nat where "VPS_CREDENTIAL_REFERENCE_MAX_LENGTH \<equiv> 1024"
abbreviation (input) sizeof_VpsCredentialConfig :: u32 where "sizeof_VpsCredentialConfig \<equiv> 200"
abbreviation (input) sizeof_VpsCredentialLease :: u32 where "sizeof_VpsCredentialLease \<equiv> 64"

record VpsCredentialConfig =
  config_header :: VpsAbiHeader
  config_member :: "credential_member \<Rightarrow> string option"

definition zero_config :: VpsCredentialConfig where
  "zero_config = \<lparr>config_header = \<lparr>abi_structure_size = 0, abi_api_version = 0, abi_present_fields = 0\<rparr>,
     config_member = (\<lambda>_. None)\<rparr>"

text \<open>A cleared structure with its size and version.\<close>

definition empty_config :: VpsCredentialConfig where
  "empty_config = zero_config\<lparr>config_header := \<lparr>abi_structure_size = sizeof_VpsCredentialConfig,
     abi_api_version = VPS_API_VERSION, abi_present_fields = 0\<rparr>\<rparr>"

definition vps_credential_fields :: "credential_member list" where
  "vps_credential_fields =
     [Hosts, Ports, User, Password, Dbname, Service, Service_file, Sslmode, Sslrootcert, Sslcert, Sslkey, Sslcrl,
      Channel_binding, Target_session_attrs, Connect_timeout, Statement_timeout, Lock_timeout, Application_name,
      Search_path]"

definition vps_structure_has_member :: "u32 \<Rightarrow> nat \<Rightarrow> bool" where
  "vps_structure_has_member structure_size' offset \<longleftrightarrow>
     offset \<le> 4294967295 - 8 \<and> structure_size' \<ge> of_nat (offset + 8)"

definition vps_config_get_string :: "VpsCredentialConfig \<Rightarrow> credential_member \<Rightarrow> string option" where
  "vps_config_get_string config m =
     (if \<not> vps_structure_has_member (abi_structure_size (config_header config)) (member_offset m) then None
      else config_member config m)"

definition vps_config_set_string ::
    "VpsCredentialConfig \<Rightarrow> credential_member \<Rightarrow> string \<Rightarrow> VpsCredentialConfig" where
  "vps_config_set_string config m s = config\<lparr>config_member := (config_member config)(m \<mapsto> s)\<rparr>"

definition has_field :: "VpsCredentialConfig \<Rightarrow> credential_member \<Rightarrow> bool" where
  "has_field config m \<longleftrightarrow> abi_present_fields (config_header config) AND member_bit m \<noteq> 0"

definition vps_utf8_is_valid :: "u8 list \<Rightarrow> bool \<Rightarrow> bool" where
  "vps_utf8_is_valid bytes reject_controls =
     utf8_check (\<lambda>first. \<not> (first = 0 \<or> reject_controls \<and> (first < 0x20 \<or> first = 0x7f))) bytes"

definition vps_bounded_string_length :: "string option \<Rightarrow> size_t option" where
  "vps_bounded_string_length value_ptr =
     (case value_ptr of
        None \<Rightarrow> None
      | Some s \<Rightarrow>
          if length s > VPS_CREDENTIAL_VALUE_MAX_LENGTH then None
          else if \<not> vps_utf8_is_valid (map char_byte s) True then None
          else Some (of_nat (length s)))"

text \<open>The two loops of a copy: the lengths of the members that are present, and the copy of each with its terminator to
  the place where the one before it ended.\<close>

fun config_total ::
    "(credential_member \<Rightarrow> bool) \<Rightarrow> (credential_member \<Rightarrow> size_t option) \<Rightarrow> credential_member list \<Rightarrow> size_t \<Rightarrow> size_t option" where
  "config_total present len [] total_size = Some total_size"
| "config_total present len (m # ms) total_size =
     (if \<not> present m then config_total present len ms total_size
      else case len m of
        None \<Rightarrow> None
      | Some n \<Rightarrow>
          (case vps_size_add total_size (n + 1) of
             (VPS_MEMORY_OK, Some total') \<Rightarrow> config_total present len ms total'
           | _ \<Rightarrow> None))"

fun config_copy ::
    "(credential_member \<Rightarrow> bool) \<Rightarrow> (credential_member \<Rightarrow> string option) \<Rightarrow> credential_member list \<Rightarrow> nat \<Rightarrow>
     ('w, 'p) VpsSensitiveMemory \<Rightarrow> VpsCredentialConfig \<Rightarrow> ('w, 'p) VpsSensitiveMemory \<times> VpsCredentialConfig" where
  "config_copy present value_of [] cursor storage config = (storage, config)"
| "config_copy present value_of (m # ms) cursor storage config =
     (if \<not> present m then config_copy present value_of ms cursor storage config
      else let s = the (value_of m)
           in config_copy present value_of ms (cursor + length s + 1)
                (sensitive_write storage cursor (c_bytes s)) (vps_config_set_string config m s))"

section \<open>Providers and the registry\<close>

datatype VpsCredentialRegistryResult =
    VPS_CREDENTIAL_REGISTRY_OK
  | VPS_CREDENTIAL_REGISTRY_INVALID_ARGUMENT
  | VPS_CREDENTIAL_REGISTRY_ABI_INCOMPATIBLE
  | VPS_CREDENTIAL_REGISTRY_NOT_REGISTERED
  | VPS_CREDENTIAL_REGISTRY_REPLACEMENT_FORBIDDEN
  | VPS_CREDENTIAL_REGISTRY_RESOLVE_FAILED
  | VPS_CREDENTIAL_REGISTRY_INVALID_CONFIG
  | VPS_CREDENTIAL_REGISTRY_OUT_OF_MEMORY
  | VPS_CREDENTIAL_REGISTRY_BUSY
  | VPS_CREDENTIAL_REGISTRY_PLATFORM_ERROR
  | VPS_CREDENTIAL_REGISTRY_CLEANUP_FAILED
  | VPS_CREDENTIAL_REGISTRY_OUT_OF_RANGE int

fun vps_credential_registry_result_name :: "VpsCredentialRegistryResult \<Rightarrow> string" where
  "vps_credential_registry_result_name VPS_CREDENTIAL_REGISTRY_OK = ''ok''"
| "vps_credential_registry_result_name VPS_CREDENTIAL_REGISTRY_INVALID_ARGUMENT = ''invalid_argument''"
| "vps_credential_registry_result_name VPS_CREDENTIAL_REGISTRY_ABI_INCOMPATIBLE = ''abi_incompatible''"
| "vps_credential_registry_result_name VPS_CREDENTIAL_REGISTRY_NOT_REGISTERED = ''not_registered''"
| "vps_credential_registry_result_name VPS_CREDENTIAL_REGISTRY_REPLACEMENT_FORBIDDEN = ''replacement_forbidden''"
| "vps_credential_registry_result_name VPS_CREDENTIAL_REGISTRY_RESOLVE_FAILED = ''resolve_failed''"
| "vps_credential_registry_result_name VPS_CREDENTIAL_REGISTRY_INVALID_CONFIG = ''invalid_config''"
| "vps_credential_registry_result_name VPS_CREDENTIAL_REGISTRY_OUT_OF_MEMORY = ''out_of_memory''"
| "vps_credential_registry_result_name VPS_CREDENTIAL_REGISTRY_BUSY = ''busy''"
| "vps_credential_registry_result_name VPS_CREDENTIAL_REGISTRY_PLATFORM_ERROR = ''platform_error''"
| "vps_credential_registry_result_name VPS_CREDENTIAL_REGISTRY_CLEANUP_FAILED = ''cleanup_failed''"
| "vps_credential_registry_result_name (VPS_CREDENTIAL_REGISTRY_OUT_OF_RANGE _) = ''unknown''"

text \<open>A context of a provider and a lease of its own are pointers that only the provider follows.\<close>

record VpsCredentialLease =
  lease_header :: VpsAbiHeader
  lease_config :: "VpsCredentialConfig option"
  lease_provider_lease :: "nat option"

record 'x VpsCredentialProvider =
  provider_header :: VpsAbiHeader
  provider_resolve :: "(nat option \<Rightarrow> u8 list \<Rightarrow> VpsCredentialLease \<Rightarrow> 'x \<Rightarrow> u32 \<times> VpsCredentialLease \<times> 'x) option"
  provider_release :: "(nat option \<Rightarrow> VpsCredentialLease \<Rightarrow> 'x \<Rightarrow> 'x) option"
  provider_context :: "nat option"

record ('p, 'x) VpsCredentialRegistry =
  creg_mutex :: VpsPlatformMutex
  creg_operations :: "'p VpsPlatformOperations option"
  creg_provider :: "'x VpsCredentialProvider"
  creg_provider_id :: u64
  creg_generation :: u64
  creg_active_resolves :: u64
  creg_initialized :: bool
  creg_registered :: bool
  creg_resolve_started :: bool

record ('w, 'p) VpsResolvedCredential =
  resolved_config :: VpsCredentialConfig
  resolved_storage :: "('w, 'p) VpsSensitiveMemory"
  resolved_provider_id :: u64
  resolved_generation :: u64
  resolved_initialized :: bool

abbreviation (input) VPS_CREDENTIAL_PROVIDER_OK :: u32 where "VPS_CREDENTIAL_PROVIDER_OK \<equiv> 0"
abbreviation (input) sizeof_VpsAbiHeader :: u32 where "sizeof_VpsAbiHeader \<equiv> 16"
abbreviation (input) VPS_CREDENTIAL_LEASE_FIELD_CONFIG :: u64 where "VPS_CREDENTIAL_LEASE_FIELD_CONFIG \<equiv> 1"

definition zero_header :: VpsAbiHeader where
  "zero_header = \<lparr>abi_structure_size = 0, abi_api_version = 0, abi_present_fields = 0\<rparr>"

definition zero_provider :: "'x VpsCredentialProvider" where
  "zero_provider = \<lparr>provider_header = zero_header, provider_resolve = None, provider_release = None,
     provider_context = None\<rparr>"

definition zero_platform_mutex :: VpsPlatformMutex where
  "zero_platform_mutex = \<lparr>mutex_state = 0, mutex_native = replicate 64 0\<rparr>"

definition zero_credential_registry :: "('p, 'x) VpsCredentialRegistry" where
  "zero_credential_registry = \<lparr>creg_mutex = zero_platform_mutex, creg_operations = None,
     creg_provider = zero_provider, creg_provider_id = 0, creg_generation = 0, creg_active_resolves = 0,
     creg_initialized = False, creg_registered = False, creg_resolve_started = False\<rparr>"

definition vps_registry_log_locked ::
    "('p, 'x) VpsCredentialRegistry \<Rightarrow> string \<Rightarrow> u64 \<Rightarrow> string \<Rightarrow> VpsLogLevel \<Rightarrow> ('w, 'p, 'c) services \<Rightarrow> ('w, 'p, 'c) services" where
  "vps_registry_log_locked reg phase field_mask status level s =
     s\<lparr>srv_logger := log_emit_strict (srv_logger s) level
        [LogStr VPS_LOG_FIELD_OPERATION ''credential_provider'',
         LogStr VPS_LOG_FIELD_PHASE phase,
         LogNum VPS_LOG_FIELD_PROVIDER_ID (creg_provider_id reg),
         LogNum VPS_LOG_FIELD_GENERATION (creg_generation reg),
         LogNum VPS_LOG_FIELD_PRESENCE_MASK field_mask,
         LogStr VPS_LOG_FIELD_STATUS status]\<rparr>"

definition registry_status :: "VpsPlatformStatus \<Rightarrow> VpsCredentialRegistryResult" where
  "registry_status status =
     (if status = VPS_PLATFORM_OK then VPS_CREDENTIAL_REGISTRY_OK else VPS_CREDENTIAL_REGISTRY_PLATFORM_ERROR)"

definition vps_registry_lock ::
    "('p, 'x) VpsCredentialRegistry \<Rightarrow> ('w, 'p, 'c) services \<Rightarrow>
     VpsCredentialRegistryResult \<times> ('p, 'x) VpsCredentialRegistry \<times> ('w, 'p, 'c) services" where
  "vps_registry_lock reg s =
     (case vps_platform_mutex_lock (creg_operations reg) (creg_mutex reg) (srv_platform s) of
        (status, mutex, p) \<Rightarrow> (registry_status status, reg\<lparr>creg_mutex := mutex\<rparr>, s\<lparr>srv_platform := p\<rparr>))"

definition vps_registry_unlock ::
    "('p, 'x) VpsCredentialRegistry \<Rightarrow> ('w, 'p, 'c) services \<Rightarrow>
     VpsCredentialRegistryResult \<times> ('p, 'x) VpsCredentialRegistry \<times> ('w, 'p, 'c) services" where
  "vps_registry_unlock reg s =
     (case vps_platform_mutex_unlock (creg_operations reg) (creg_mutex reg) (srv_platform s) of
        (status, mutex, p) \<Rightarrow> (registry_status status, reg\<lparr>creg_mutex := mutex\<rparr>, s\<lparr>srv_platform := p\<rparr>))"

definition vps_provider_validate :: "'x VpsCredentialProvider option \<Rightarrow> VpsCredentialRegistryResult" where
  "vps_provider_validate provider_ptr =
     (case provider_ptr of
        None \<Rightarrow> VPS_CREDENTIAL_REGISTRY_INVALID_ARGUMENT
      | Some provider \<Rightarrow>
          if vps_abi_validate_header (Some (provider_header provider)) 40 VPS_API_VERSION \<noteq> VPS_ABI_VALID
          then VPS_CREDENTIAL_REGISTRY_ABI_INCOMPATIBLE
          else if provider_resolve provider = None \<or> provider_release provider = None
          then VPS_CREDENTIAL_REGISTRY_INVALID_ARGUMENT
          else if abi_present_fields (provider_header provider) \<noteq> 0 \<and>
                  abi_present_fields (provider_header provider) AND 3 \<noteq> 3
          then VPS_CREDENTIAL_REGISTRY_INVALID_ARGUMENT
          else VPS_CREDENTIAL_REGISTRY_OK)"

definition vps_credential_registry_init ::
    "('p, 'x) VpsCredentialRegistry \<Rightarrow> 'p VpsPlatformOperations option \<Rightarrow> ('w, 'p, 'c) services \<Rightarrow>
     VpsCredentialRegistryResult \<times> ('p, 'x) VpsCredentialRegistry \<times> ('w, 'p, 'c) services" where
  "vps_credential_registry_init reg operations s =
     (if vps_platform_validate_operations operations VPS_PLATFORM_CAP_MUTEX \<noteq> VPS_PLATFORM_OK
      then (VPS_CREDENTIAL_REGISTRY_INVALID_ARGUMENT, reg, s)
      else case vps_platform_mutex_init operations zero_platform_mutex (srv_platform s) of
        (status, mutex, p) \<Rightarrow>
          let reg' = zero_credential_registry\<lparr>creg_operations := operations, creg_mutex := mutex\<rparr>;
              s' = s\<lparr>srv_platform := p\<rparr>
          in if status \<noteq> VPS_PLATFORM_OK then (VPS_CREDENTIAL_REGISTRY_PLATFORM_ERROR, reg', s')
             else (VPS_CREDENTIAL_REGISTRY_OK, reg'\<lparr>creg_initialized := True\<rparr>, s'))"

definition vps_credential_registry_register ::
    "('p, 'x) VpsCredentialRegistry \<Rightarrow> u64 \<Rightarrow> 'x VpsCredentialProvider option \<Rightarrow> ('w, 'p, 'c) services \<Rightarrow>
     VpsCredentialRegistryResult \<times> ('p, 'x) VpsCredentialRegistry \<times> ('w, 'p, 'c) services" where
  "vps_credential_registry_register reg new_id provider_ptr s =
     (if \<not> creg_initialized reg \<or> new_id = 0 then (VPS_CREDENTIAL_REGISTRY_INVALID_ARGUMENT, reg, s)
      else if vps_provider_validate provider_ptr \<noteq> VPS_CREDENTIAL_REGISTRY_OK
      then (vps_provider_validate provider_ptr, reg, s)
      else case vps_registry_lock reg s of (result, reg1, s1) \<Rightarrow>
        if result \<noteq> VPS_CREDENTIAL_REGISTRY_OK then (result, reg1, s1)
        else if creg_resolve_started reg1
        then let s2 = vps_registry_log_locked reg1 ''registration'' 0 ''replacement_forbidden'' VPS_LOG_LEVEL_WARN s1
             in (VPS_CREDENTIAL_REGISTRY_REPLACEMENT_FORBIDDEN, snd (vps_registry_unlock reg1 s2))
        else if creg_generation reg1 = UINT64_MAX
        then (VPS_CREDENTIAL_REGISTRY_BUSY, snd (vps_registry_unlock reg1 s1))
        else let provider = the provider_ptr;
                 copy = zero_provider\<lparr>provider_header := provider_header provider,
                   provider_resolve := provider_resolve provider, provider_release := provider_release provider,
                   provider_context :=
                     (if abi_structure_size (provider_header provider) \<ge> 40 then provider_context provider else None)\<rparr>;
                 reg2 = reg1\<lparr>creg_provider := copy, creg_provider_id := new_id,
                   creg_generation := creg_generation reg1 + 1, creg_registered := True\<rparr>;
                 s2 = vps_registry_log_locked reg2 ''registration'' (abi_present_fields (provider_header provider))
                   ''registered'' VPS_LOG_LEVEL_INFO s1
             in vps_registry_unlock reg2 s2)"

section \<open>Resolved credentials\<close>

definition vps_resolved_credential_init ::
    "'w VpsAllocator option \<Rightarrow> 'p VpsPlatformOperations option \<Rightarrow>
     VpsCredentialRegistryResult \<times> ('w, 'p) VpsResolvedCredential option" where
  "vps_resolved_credential_init allocator operations =
     (case vps_sensitive_memory_init allocator operations of
        (VPS_SECURE_MEMORY_OK, Some storage) \<Rightarrow>
          (VPS_CREDENTIAL_REGISTRY_OK,
           Some \<lparr>resolved_config = empty_config, resolved_storage = storage, resolved_provider_id = 0,
                 resolved_generation = 0, resolved_initialized = True\<rparr>)
      | _ \<Rightarrow> (VPS_CREDENTIAL_REGISTRY_INVALID_ARGUMENT, None))"

definition vps_copy_config ::
    "VpsCredentialConfig option \<Rightarrow> ('w, 'p) VpsResolvedCredential \<Rightarrow> ('w, 'p, 'c) services \<Rightarrow>
     VpsCredentialRegistryResult \<times> ('w, 'p) VpsResolvedCredential \<times> ('w, 'p, 'c) services" where
  "vps_copy_config source_ptr resolved s =
     (case source_ptr of
        None \<Rightarrow> (VPS_CREDENTIAL_REGISTRY_INVALID_CONFIG, resolved, s)
      | Some source \<Rightarrow>
          if vps_abi_validate_header (Some (config_header source)) sizeof_VpsAbiHeader VPS_API_VERSION \<noteq> VPS_ABI_VALID \<or>
             abi_present_fields (config_header source) AND VPS_CREDENTIAL_FIELDS_CURRENT = 0
          then (VPS_CREDENTIAL_REGISTRY_INVALID_CONFIG, resolved, s)
          else case config_total (has_field source) (\<lambda>m. vps_bounded_string_length (vps_config_get_string source m))
                      vps_credential_fields 0 of
            None \<Rightarrow> (VPS_CREDENTIAL_REGISTRY_INVALID_CONFIG, resolved, s)
          | Some total_size \<Rightarrow>
              (case vps_sensitive_memory_allocate (resolved_storage resolved) total_size s of
                 (allocated, storage, s1) \<Rightarrow>
                   if allocated \<noteq> VPS_SECURE_MEMORY_OK
                   then (VPS_CREDENTIAL_REGISTRY_OUT_OF_MEMORY, resolved\<lparr>resolved_storage := storage\<rparr>, s1)
                   else case config_copy (has_field source) (vps_config_get_string source) vps_credential_fields 0
                               storage (resolved_config resolved) of
                     (storage', config) \<Rightarrow>
                       (VPS_CREDENTIAL_REGISTRY_OK,
                        resolved\<lparr>resolved_storage := storage',
                          resolved_config := config\<lparr>config_header := (config_header config)\<lparr>abi_present_fields :=
                            abi_present_fields (config_header source) AND VPS_CREDENTIAL_FIELDS_CURRENT\<rparr>\<rparr>\<rparr>, s1)))"

definition vps_resolve_finish ::
    "('p, 'x) VpsCredentialRegistry \<Rightarrow> u64 \<Rightarrow> string \<Rightarrow> VpsLogLevel \<Rightarrow> ('w, 'p, 'c) services \<Rightarrow>
     ('p, 'x) VpsCredentialRegistry \<times> ('w, 'p, 'c) services" where
  "vps_resolve_finish reg field_mask status level s =
     (case vps_registry_lock reg s of (result, reg1, s1) \<Rightarrow>
        if result \<noteq> VPS_CREDENTIAL_REGISTRY_OK then (reg1, s1)
        else let reg2 = (if creg_active_resolves reg1 \<noteq> 0
                         then reg1\<lparr>creg_active_resolves := creg_active_resolves reg1 - 1\<rparr> else reg1)
             in snd (vps_registry_unlock reg2 (vps_registry_log_locked reg2 ''resolve'' field_mask status level s1)))"

text \<open>The first part of a resolve, under the mutex: it counts the call and returns the provider to ask.\<close>

definition resolve_enter ::
    "('p, 'x) VpsCredentialRegistry \<Rightarrow> ('w, 'p, 'c) services \<Rightarrow>
     (VpsCredentialRegistryResult + 'x VpsCredentialProvider \<times> u64 \<times> u64) \<times> ('p, 'x) VpsCredentialRegistry \<times> ('w, 'p, 'c) services" where
  "resolve_enter reg s =
     (case vps_registry_lock reg s of (result, reg1, s1) \<Rightarrow>
        if result \<noteq> VPS_CREDENTIAL_REGISTRY_OK then (Inl result, reg1, s1)
        else if \<not> creg_registered reg1
        then (Inl VPS_CREDENTIAL_REGISTRY_NOT_REGISTERED, snd (vps_registry_unlock reg1 s1))
        else let reg2 = reg1\<lparr>creg_resolve_started := True\<rparr>
             in if creg_active_resolves reg2 = UINT64_MAX
                then (Inl VPS_CREDENTIAL_REGISTRY_BUSY, snd (vps_registry_unlock reg2 s1))
                else let reg3 = reg2\<lparr>creg_active_resolves := creg_active_resolves reg2 + 1\<rparr>
                     in case vps_registry_unlock reg3 s1 of (unlocked, reg4, s2) \<Rightarrow>
                          (if unlocked \<noteq> VPS_CREDENTIAL_REGISTRY_OK then Inl unlocked
                           else Inr (creg_provider reg3, creg_provider_id reg3, creg_generation reg3), reg4, s2))"

definition requested_lease :: VpsCredentialLease where
  "requested_lease = \<lparr>lease_header = \<lparr>abi_structure_size = sizeof_VpsCredentialLease,
       abi_api_version = VPS_API_VERSION, abi_present_fields = 3\<rparr>,
     lease_config = None, lease_provider_lease = None\<rparr>"

text \<open>What becomes of a lease: its check and the copy of its configuration.\<close>

definition accept_lease ::
    "VpsCredentialLease \<Rightarrow> ('w, 'p) VpsResolvedCredential \<Rightarrow> ('w, 'p, 'c) services \<Rightarrow>
     u64 \<times> VpsCredentialRegistryResult \<times> ('w, 'p) VpsResolvedCredential \<times> ('w, 'p, 'c) services" where
  "accept_lease lease resolved s =
     (if vps_abi_validate_header (Some (lease_header lease)) 24 VPS_API_VERSION \<noteq> VPS_ABI_VALID \<or>
         (abi_present_fields (lease_header lease) \<noteq> 0 \<and>
          abi_present_fields (lease_header lease) AND VPS_CREDENTIAL_LEASE_FIELD_CONFIG = 0)
      then (0, VPS_CREDENTIAL_REGISTRY_ABI_INCOMPATIBLE, resolved, s)
      else (case lease_config lease of None \<Rightarrow> 0 | Some config \<Rightarrow> abi_present_fields (config_header config),
            vps_copy_config (lease_config lease) resolved s))"

definition vps_credential_registry_resolve ::
    "('p, 'x) VpsCredentialRegistry \<Rightarrow> u8 list option \<Rightarrow> ('w, 'p) VpsResolvedCredential \<Rightarrow> 'x \<Rightarrow> ('w, 'p, 'c) services \<Rightarrow>
     VpsCredentialRegistryResult \<times> ('p, 'x) VpsCredentialRegistry \<times> ('w, 'p) VpsResolvedCredential \<times> 'x \<times> ('w, 'p, 'c) services" where
  "vps_credential_registry_resolve reg reference resolved x s =
     (if \<not> creg_initialized reg \<or> \<not> resolved_initialized resolved \<or>
         owned_flag (sens_storage (resolved_storage resolved)) \<or> reference = None \<or> the reference = [] \<or>
         length (the reference) > VPS_CREDENTIAL_REFERENCE_MAX_LENGTH \<or> \<not> vps_utf8_is_valid (the reference) True
      then (VPS_CREDENTIAL_REGISTRY_INVALID_ARGUMENT, reg, resolved, x, s)
      else case resolve_enter reg s of
        (Inl result, reg1, s1) \<Rightarrow> (result, reg1, resolved, x, s1)
      | (Inr (provider, provider_id, generation), reg1, s1) \<Rightarrow>
          (case the (provider_resolve provider) (provider_context provider) (the reference) requested_lease x of
             (provider_result, lease, x1) \<Rightarrow>
               if provider_result \<noteq> VPS_CREDENTIAL_PROVIDER_OK
               then case vps_resolve_finish reg1 0 ''provider_failed'' VPS_LOG_LEVEL_WARN s1 of
                 (reg2, s2) \<Rightarrow> (VPS_CREDENTIAL_REGISTRY_RESOLVE_FAILED, reg2, resolved, x1, s2)
               else case accept_lease lease resolved s1 of
                 (field_mask, result, resolved1, s2) \<Rightarrow>
                   let x2 = the (provider_release provider) (provider_context provider) lease x1
                   in if result = VPS_CREDENTIAL_REGISTRY_OK
                      then case vps_resolve_finish reg1 field_mask ''resolved'' VPS_LOG_LEVEL_DEBUG s2 of
                        (reg2, s3) \<Rightarrow>
                          (result, reg2,
                           resolved1\<lparr>resolved_provider_id := provider_id, resolved_generation := generation\<rparr>, x2, s3)
                      else case vps_resolve_finish reg1 field_mask (vps_credential_registry_result_name result)
                                  VPS_LOG_LEVEL_ERROR s2 of
                        (reg2, s3) \<Rightarrow> (result, reg2, resolved1, x2, s3)))"

definition vps_resolved_credential_cleanup ::
    "('w, 'p) VpsResolvedCredential \<Rightarrow> ('w, 'p, 'c) services \<Rightarrow>
     VpsCredentialRegistryResult \<times> ('w, 'p) VpsResolvedCredential \<times> ('w, 'p, 'c) services" where
  "vps_resolved_credential_cleanup resolved s =
     (if \<not> resolved_initialized resolved then (VPS_CREDENTIAL_REGISTRY_INVALID_ARGUMENT, resolved, s)
      else case vps_sensitive_memory_release (resolved_storage resolved) s of (released, storage, s1) \<Rightarrow>
        if released \<noteq> VPS_SECURE_MEMORY_OK
        then (VPS_CREDENTIAL_REGISTRY_CLEANUP_FAILED, resolved\<lparr>resolved_storage := storage\<rparr>, s1)
        else (VPS_CREDENTIAL_REGISTRY_OK,
              resolved\<lparr>resolved_storage := storage, resolved_config := empty_config, resolved_provider_id := 0,
                resolved_generation := 0\<rparr>, s1))"

definition vps_credential_registry_cleanup ::
    "('p, 'x) VpsCredentialRegistry \<Rightarrow> ('w, 'p, 'c) services \<Rightarrow>
     VpsCredentialRegistryResult \<times> ('p, 'x) VpsCredentialRegistry \<times> ('w, 'p, 'c) services" where
  "vps_credential_registry_cleanup reg s =
     (if \<not> creg_initialized reg then (VPS_CREDENTIAL_REGISTRY_OK, reg, s)
      else case vps_registry_lock reg s of (result, reg1, s1) \<Rightarrow>
        if result \<noteq> VPS_CREDENTIAL_REGISTRY_OK then (result, reg1, s1)
        else if creg_active_resolves reg1 \<noteq> 0
        then (VPS_CREDENTIAL_REGISTRY_BUSY, snd (vps_registry_unlock reg1 s1))
        else case vps_registry_unlock (reg1\<lparr>creg_registered := False, creg_provider := zero_provider\<rparr>) s1 of
          (unlocked, reg2, s2) \<Rightarrow>
            if unlocked \<noteq> VPS_CREDENTIAL_REGISTRY_OK then (unlocked, reg2, s2)
            else case vps_platform_mutex_destroy (creg_operations reg2) (creg_mutex reg2) (srv_platform s2) of
              (status, mutex, p) \<Rightarrow>
                let reg3 = reg2\<lparr>creg_mutex := mutex\<rparr>; s3 = s2\<lparr>srv_platform := p\<rparr>
                in if status \<noteq> VPS_PLATFORM_OK then (VPS_CREDENTIAL_REGISTRY_PLATFORM_ERROR, reg3, s3)
                   else (VPS_CREDENTIAL_REGISTRY_OK, reg3\<lparr>creg_initialized := False\<rparr>, s3))"

section \<open>The copy of a configuration\<close>

definition config_text ::
    "(credential_member \<Rightarrow> bool) \<Rightarrow> (credential_member \<Rightarrow> string option) \<Rightarrow> credential_member list \<Rightarrow> u8 list" where
  "config_text present value_of ms = concat (map (\<lambda>m. c_bytes (the (value_of m))) (filter present ms))"

lemma config_text_simps [simp]:
  "config_text present value_of [] = []"
  "config_text present value_of (m # ms) =
     (if present m then c_bytes (the (value_of m)) @ config_text present value_of ms else config_text present value_of ms)"
  by (simp_all add: config_text_def)

lemma all_members: "set vps_credential_fields = UNIV"
proof -
  have "m \<in> set vps_credential_fields" for m by (cases m) (simp_all add: vps_credential_fields_def)
  then show ?thesis by blast
qed

lemma distinct_members: "distinct vps_credential_fields"
  by (simp add: vps_credential_fields_def)

lemma config_total_exact:
  assumes "\<And>m n. len m = Some n \<Longrightarrow> unat n \<le> 4096 \<and> length (the (value_of m)) = unat n"
    and "unat t + length ms * 4097 < 2 ^ 64"
  shows "config_total present len ms t =
    (if \<exists>m\<in>set ms. present m \<and> len m = None then None
     else Some (t + of_nat (length (config_text present value_of ms))))"
  using assms(2)
proof (induction ms arbitrary: t)
  case Nil
  then show ?case by simp
next
  case (Cons m ms)
  have skip: "unat t + length ms * 4097 < 2 ^ 64" using Cons.prems by simp
  show ?case
  proof (cases "present m \<and> len m \<noteq> None")
    case False
    then show ?thesis using Cons.IH [OF skip] by auto
  next
    case True
    then obtain n where n: "len m = Some n" by blast
    note b = assms(1) [OF n]
    have n1: "unat (n + 1) = unat n + 1" using b size_add_small [of n 1] by simp
    have add: "vps_size_add t (n + 1) = (VPS_MEMORY_OK, Some (t + (n + 1)))"
      and sum: "unat (t + (n + 1)) = unat t + (unat n + 1)"
      using Cons.prems b n1 size_add_small [of t "n + 1"] by simp_all
    have room: "unat (t + (n + 1)) + length ms * 4097 < 2 ^ 64" using Cons.prems b sum by simp
    have len: "(of_nat (length (c_bytes (the (value_of m)))) :: size_t) = n + 1"
      using b by (simp add: c_bytes_def word_of_unat)
    show ?thesis using True n add Cons.IH [OF room] len by (auto simp: add.assoc)
  qed
qed

lemma mem_write_append:
  "at + length (xs @ ys) \<le> length d \<Longrightarrow> mem_write (mem_write d at xs) (at + length xs) ys = mem_write d at (xs @ ys)"
  by (simp add: mem_write_def ac_simps)

lemma sensitive_write_append:
  assumes "\<And>d. owned_memory (sens_storage m) = Some d \<Longrightarrow> at + length (xs @ ys) \<le> length d"
  shows "sensitive_write (sensitive_write m at xs) (at + length xs) ys = sensitive_write m at (xs @ ys)"
  using assms mem_write_append
  by (cases "owned_memory (sens_storage m)") (simp_all add: sensitive_write_def)

lemma sensitive_write_nothing:
  assumes "\<And>d. owned_memory (sens_storage m) = Some d \<Longrightarrow> at \<le> length d"
  shows "sensitive_write m at [] = m"
  using assms by (cases "owned_memory (sens_storage m)") (auto simp: sensitive_write_def mem_write_def)

lemma config_copy_exact:
  assumes "\<And>d. owned_memory (sens_storage storage) = Some d \<Longrightarrow> at + length (config_text present value_of ms) \<le> length d"
  shows "config_copy present value_of ms at storage config =
    (sensitive_write storage at (config_text present value_of ms),
     config\<lparr>config_member := (\<lambda>m. if m \<in> set ms \<and> present m then Some (the (value_of m)) else config_member config m)\<rparr>)"
  using assms
proof (induction ms arbitrary: at storage config)
  case Nil
  then show ?case by (simp add: sensitive_write_nothing)
next
  case (Cons m ms)
  show ?case
  proof (cases "present m")
    case False
    then show ?thesis using Cons.prems by (subst config_copy.simps) (auto simp: Cons.IH intro!: VpsCredentialConfig.equality)
  next
    case True
    let ?s = "the (value_of m)"
    have fits: "at + length ?s + 1 + length (config_text present value_of ms) \<le> length d"
      if "owned_memory (sens_storage (sensitive_write storage at (c_bytes ?s))) = Some d" for d
      using Cons.prems that True
      by (auto simp: sensitive_write_def c_bytes_def length_mem_write)
    have "sensitive_write (sensitive_write storage at (c_bytes ?s)) (at + length ?s + 1) (config_text present value_of ms) =
      sensitive_write storage at (c_bytes ?s @ config_text present value_of ms)"
      using sensitive_write_append [of storage at "c_bytes ?s" "config_text present value_of ms"] Cons.prems True
      by (simp add: c_bytes_def add.assoc)
    then show ?thesis
      using True Cons.IH [OF fits]
      by (auto simp: Let_def vps_config_set_string_def intro!: VpsCredentialConfig.equality)
  qed
qed

text \<open>The configurations that are copied: a compatible header, some known member, and every member that is announced
  lies within the structure, is text and is not too long.\<close>

definition config_acceptable :: "VpsCredentialConfig \<Rightarrow> bool" where
  "config_acceptable c \<longleftrightarrow>
     vps_abi_validate_header (Some (config_header c)) sizeof_VpsAbiHeader VPS_API_VERSION = VPS_ABI_VALID \<and>
     abi_present_fields (config_header c) AND VPS_CREDENTIAL_FIELDS_CURRENT \<noteq> 0 \<and>
     (\<forall>m. has_field c m \<longrightarrow> (\<exists>t. vps_config_get_string c m = Some t \<and> length t \<le> VPS_CREDENTIAL_VALUE_MAX_LENGTH \<and>
        utf8_text (\<lambda>b. \<not> (b < 0x20 \<or> b = 0x7f)) (map char_byte t)))"

definition copied_config :: "VpsCredentialConfig \<Rightarrow> VpsCredentialConfig \<Rightarrow> VpsCredentialConfig" where
  "copied_config c old = old
     \<lparr>config_header := (config_header old)\<lparr>abi_present_fields :=
        abi_present_fields (config_header c) AND VPS_CREDENTIAL_FIELDS_CURRENT\<rparr>,
      config_member := (\<lambda>m. if has_field c m then vps_config_get_string c m else config_member old m)\<rparr>"

lemma vps_utf8_is_valid_exact: "vps_utf8_is_valid bytes True \<longleftrightarrow> utf8_text (\<lambda>b. \<not> (b < 0x20 \<or> b = 0x7f)) bytes"
proof -
  have "(\<lambda>first :: u8. \<not> (first = 0 \<or> True \<and> (first < 0x20 \<or> first = 0x7f))) = (\<lambda>b. \<not> (b < 0x20 \<or> b = 0x7f))"
    by auto
  then show ?thesis by (simp only: vps_utf8_is_valid_def utf8_check_exact)
qed

lemma vps_bounded_string_length_exact:
  "vps_bounded_string_length v = Some n \<longleftrightarrow>
     (\<exists>t. v = Some t \<and> length t \<le> 4096 \<and> utf8_text (\<lambda>b. \<not> (b < 0x20 \<or> b = 0x7f)) (map char_byte t) \<and> n = of_nat (length t))"
  by (auto simp: vps_bounded_string_length_def vps_utf8_is_valid_exact split: option.splits)

lemma vps_bounded_string_length_none:
  "vps_bounded_string_length v = None \<longleftrightarrow>
     \<not> (\<exists>t. v = Some t \<and> length t \<le> 4096 \<and> utf8_text (\<lambda>b. \<not> (b < 0x20 \<or> b = 0x7f)) (map char_byte t))"
  by (auto simp: vps_bounded_string_length_def vps_utf8_is_valid_exact split: option.splits)

lemma config_total_acceptable:
  assumes "vps_abi_validate_header (Some (config_header c)) sizeof_VpsAbiHeader VPS_API_VERSION = VPS_ABI_VALID"
    and "abi_present_fields (config_header c) AND VPS_CREDENTIAL_FIELDS_CURRENT \<noteq> 0"
  shows "config_total (has_field c) (\<lambda>m. vps_bounded_string_length (vps_config_get_string c m)) vps_credential_fields 0 =
    (if config_acceptable c
     then Some (of_nat (length (config_text (has_field c) (vps_config_get_string c) vps_credential_fields))) else None)"
proof -
  have len: "unat n \<le> 4096 \<and> length (the (vps_config_get_string c m)) = unat n"
    if "vps_bounded_string_length (vps_config_get_string c m) = Some n" for m n
    using that by (auto simp: vps_bounded_string_length_exact unat_small_nat)
  have "(\<exists>m\<in>set vps_credential_fields. has_field c m \<and> vps_bounded_string_length (vps_config_get_string c m) = None) \<longleftrightarrow>
    \<not> config_acceptable c"
    unfolding config_acceptable_def all_members using assms
    by (auto simp: vps_bounded_string_length_none)
  moreover have "unat (0 :: size_t) + length vps_credential_fields * 4097 < 2 ^ 64"
    by (simp add: vps_credential_fields_def)
  ultimately show ?thesis
    using config_total_exact [where t = 0 and ms = vps_credential_fields and present = "has_field c"
        and value_of = "vps_config_get_string c", OF len] by simp
qed

lemma config_text_length:
  assumes "\<And>m. present m \<Longrightarrow> length (the (value_of m)) \<le> 4096"
  shows "length (config_text present value_of ms) \<le> length ms * 4097"
proof (induction ms)
  case (Cons m ms)
  then show ?case using assms [of m] by (auto simp: c_bytes_def)
qed simp

lemma acceptable_text_length:
  assumes "config_acceptable c"
  shows "length (config_text (has_field c) (vps_config_get_string c) vps_credential_fields) \<le> 19 * 4097"
proof -
  have "length vps_credential_fields = 19" by (simp add: vps_credential_fields_def)
  then show ?thesis
    using config_text_length [of "has_field c" "vps_config_get_string c" vps_credential_fields] assms
    by (fastforce simp: config_acceptable_def)
qed

lemma has_field_bit: "has_field c m \<longleftrightarrow> bit (abi_present_fields (config_header c)) (member_index m)"
proof -
  have "member_index m < 64" by (cases m) simp_all
  then have "x AND push_bit (member_index m) 1 = (if bit x (member_index m) then push_bit (member_index m) 1 else 0)" for x :: u64
    by (auto intro!: bit_eqI simp: bit_simps)
  moreover have "push_bit (member_index m) 1 \<noteq> (0 :: u64)"
    using \<open>member_index m < 64\<close> by (auto simp: bit_eq_iff bit_simps)
  ultimately show ?thesis by (simp add: has_field_def member_bit_def)
qed

lemma member_of_index: "i < 19 \<Longrightarrow> \<exists>m. member_index m = i"
proof -
  have "map member_index vps_credential_fields = [0..<19]" by (simp add: vps_credential_fields_def upt_rec)
  then have "range member_index = {..<19}" by (metis all_members atLeast_upt list.set_map)
  then show "i < 19 \<Longrightarrow> \<exists>m. member_index m = i" by (auto simp: set_eq_iff image_iff) metis
qed

lemma some_field: "abi_present_fields (config_header c) AND VPS_CREDENTIAL_FIELDS_CURRENT \<noteq> 0 \<Longrightarrow> \<exists>m. has_field c m"
proof -
  assume "abi_present_fields (config_header c) AND VPS_CREDENTIAL_FIELDS_CURRENT \<noteq> 0"
  then obtain i where "bit (abi_present_fields (config_header c)) i" "i < 19"
    by (auto simp: VPS_CREDENTIAL_FIELDS_CURRENT_def bit_eq_iff bit_simps)
  then show ?thesis using member_of_index [of i] by (auto simp: has_field_bit)
qed

lemma acceptable_text_nonempty:
  assumes "config_acceptable c"
  shows "config_text (has_field c) (vps_config_get_string c) vps_credential_fields \<noteq> []"
proof -
  obtain m where "has_field c m" "m \<in> set vps_credential_fields"
    using assms some_field [of c] by (auto simp: config_acceptable_def all_members)
  then show ?thesis by (auto simp: config_text_def c_bytes_def)
qed

lemma sensitive_allocate_flag:
  "vps_sensitive_memory_allocate m n s = (VPS_SECURE_MEMORY_OK, m', s') \<Longrightarrow> n \<noteq> 0 \<Longrightarrow> owned_flag (sens_storage m')"
  by (auto simp: vps_sensitive_memory_allocate_def vps_owned_memory_allocate_def vps_memory_allocate_def
      vps_secure_memory_from_memory_result_def Let_def split: if_splits prod.splits option.splits)

text \<open>Filling a block that was just allocated.\<close>

lemma sensitive_fill:
  assumes "secret_in A iv live m s" "owned_flag (sens_storage m)" "unat (owned_size (sens_storage m)) = length bytes"
  shows "secret_step A iv live freed (m, s) (sensitive_write m 0 bytes, s)"
    and "owned_memory (sens_storage (sensitive_write m 0 bytes)) = Some bytes"
proof -
  obtain d where d: "owned_memory (sens_storage m) = Some d" "length d = length bytes"
    using assms by (auto simp: secret_in_def owned_ok_def)
  then show "secret_step A iv live freed (m, s) (sensitive_write m 0 bytes, s)"
    by (intro sensitive_write_step(1) [OF assms(1)]) simp
  show "owned_memory (sens_storage (sensitive_write m 0 bytes)) = Some bytes"
    using d by (simp add: sensitive_write_def mem_write_def)
qed

context recording_allocator
begin

lemma config_fill:
  assumes "secret_in A inv live m s"
    and "vps_sensitive_memory_allocate m (of_nat (length t)) s = (VPS_SECURE_MEMORY_OK, m1, s1)"
    and "t = config_text present value_of ms" "t \<noteq> []" "length t \<le> 19 * 4097"
  shows "secret_step A inv live freed (m, s) (sensitive_write m1 0 t, s1)"
    and "owned_memory (sens_storage (sensitive_write m1 0 t)) = Some t"
    and "config_copy present value_of ms 0 m1 config = (sensitive_write m1 0 t, config\<lparr>config_member :=
      (\<lambda>m. if m \<in> set ms \<and> present m then Some (the (value_of m)) else config_member config m)\<rparr>)"
proof -
  note al = sensitive_allocate_step [OF assms(1,2)]
  have small: "unat (of_nat (length t) :: size_t) = length t"
    using assms(5) by (intro unat_small_nat) simp
  then have "(of_nat (length t) :: size_t) \<noteq> 0" using assms(4) by (auto simp: unat_eq_0 [symmetric])
  then have m1: "owned_flag (sens_storage m1)" "unat (owned_size (sens_storage m1)) = length t"
    using al(2) [OF refl] sensitive_allocate_flag [OF assms(2)] small by simp_all
  note fill = sensitive_fill [OF secret_step_in [OF al(1)] m1]
  show "secret_step A inv live freed (m, s) (sensitive_write m1 0 t, s1)" by (rule secret_step_trans [OF al(1) fill(1)])
  show "owned_memory (sens_storage (sensitive_write m1 0 t)) = Some t" by (rule fill(2))
  have "length d = length t" if "owned_memory (sens_storage m1) = Some d" for d
    using secret_step_in [OF al(1)] that m1(2) by (auto simp: secret_in_def owned_ok_def)
  then show "config_copy present value_of ms 0 m1 config = (sensitive_write m1 0 t, config\<lparr>config_member :=
      (\<lambda>m. if m \<in> set ms \<and> present m then Some (the (value_of m)) else config_member config m)\<rparr>)"
    unfolding assms(3) by (intro config_copy_exact) simp
qed

lemma copy_config_step:
  assumes "secret_in A inv live (resolved_storage rc) s" "owned_blocks (sens_storage (resolved_storage rc)) = {#}"
    and "vps_copy_config src rc s = (res, rc', s')"
  shows "secret_step A inv live freed (resolved_storage rc, s) (resolved_storage rc', s')"
    and "res = VPS_CREDENTIAL_REGISTRY_OK \<Longrightarrow> \<exists>c. src = Some c \<and> config_acceptable c \<and>
      resolved_config rc' = copied_config c (resolved_config rc) \<and>
      owned_memory (sens_storage (resolved_storage rc')) =
        Some (config_text (has_field c) (vps_config_get_string c) vps_credential_fields)"
    and "res \<noteq> VPS_CREDENTIAL_REGISTRY_OK \<Longrightarrow> rc' = rc \<and>
      (res = VPS_CREDENTIAL_REGISTRY_OUT_OF_MEMORY \<or>
       res = VPS_CREDENTIAL_REGISTRY_INVALID_CONFIG \<and> (\<forall>c. src = Some c \<longrightarrow> \<not> config_acceptable c))"
    and "resolved_initialized rc' = resolved_initialized rc"
proof -
  have "secret_step A inv live freed (resolved_storage rc, s) (resolved_storage rc', s') \<and>
    (if res = VPS_CREDENTIAL_REGISTRY_OK then \<exists>c. src = Some c \<and> config_acceptable c \<and>
      resolved_config rc' = copied_config c (resolved_config rc) \<and>
      owned_memory (sens_storage (resolved_storage rc')) =
        Some (config_text (has_field c) (vps_config_get_string c) vps_credential_fields)
     else rc' = rc \<and> (res = VPS_CREDENTIAL_REGISTRY_OUT_OF_MEMORY \<or>
       res = VPS_CREDENTIAL_REGISTRY_INVALID_CONFIG \<and> (\<forall>c. src = Some c \<longrightarrow> \<not> config_acceptable c))) \<and>
    resolved_initialized rc' = resolved_initialized rc"
  proof (cases "\<exists>c. src = Some c \<and> config_acceptable c")
    case False
    then show ?thesis
      using assms config_total_acceptable secret_step_refl
      by (auto simp: vps_copy_config_def config_acceptable_def split: option.splits if_splits)
  next
    case True
    then obtain c where c: "src = Some c" "config_acceptable c" by blast
    let ?t = "config_text (has_field c) (vps_config_get_string c) vps_credential_fields"
    obtain ar m1 s1 where run: "vps_sensitive_memory_allocate (resolved_storage rc) (of_nat (length ?t)) s = (ar, m1, s1)"
      by (metis prod_cases3)
    note al = sensitive_allocate_step [OF assms(1) run]
    note head = c(2) [unfolded config_acceptable_def]
    show ?thesis
    proof (cases "ar = VPS_SECURE_MEMORY_OK")
      case False
      then show ?thesis
        using assms(3) c head config_total_acceptable [of c] run al
        by (auto simp: vps_copy_config_def)
    next
      case OK: True
      note fill = config_fill [OF assms(1) run [unfolded OK] refl acceptable_text_nonempty [OF c(2)]
          acceptable_text_length [OF c(2)]]
      note copy = fill(3) [where config = "resolved_config rc"]
      have some_the: "has_field c m \<Longrightarrow> Some (the (vps_config_get_string c m)) = vps_config_get_string c m" for m
        using head by force
      then have members: "(\<lambda>m. if m \<in> set vps_credential_fields \<and> has_field c m
           then Some (the (vps_config_get_string c m)) else config_member (resolved_config rc) m) =
         (\<lambda>m. if has_field c m then vps_config_get_string c m else config_member (resolved_config rc) m)"
        by (simp add: fun_eq_iff all_members)
      have "rc' = rc\<lparr>resolved_storage := sensitive_write m1 0 ?t,
          resolved_config := copied_config c (resolved_config rc)\<rparr>" "s' = s1" "res = VPS_CREDENTIAL_REGISTRY_OK"
        using assms(3) c(1) head config_total_acceptable [of c] c(2) run OK
        by (auto simp: vps_copy_config_def copy [unfolded members] copied_config_def)
      then show ?thesis
        using fill(1,2) c by simp
    qed
  qed
  then show "secret_step A inv live freed (resolved_storage rc, s) (resolved_storage rc', s')"
    "res = VPS_CREDENTIAL_REGISTRY_OK \<Longrightarrow> \<exists>c. src = Some c \<and> config_acceptable c \<and>
      resolved_config rc' = copied_config c (resolved_config rc) \<and>
      owned_memory (sens_storage (resolved_storage rc')) =
        Some (config_text (has_field c) (vps_config_get_string c) vps_credential_fields)"
    "res \<noteq> VPS_CREDENTIAL_REGISTRY_OK \<Longrightarrow> rc' = rc \<and>
      (res = VPS_CREDENTIAL_REGISTRY_OUT_OF_MEMORY \<or>
       res = VPS_CREDENTIAL_REGISTRY_INVALID_CONFIG \<and> (\<forall>c. src = Some c \<longrightarrow> \<not> config_acceptable c))"
    "resolved_initialized rc' = resolved_initialized rc"
    by (simp_all split: if_splits)
qed

end

section \<open>The registry\<close>

text \<open>What a registration consists of: everything but the mutex, the count of calls and the mark that one has started.\<close>

definition registration :: "('p, 'x) VpsCredentialRegistry \<Rightarrow>
    'p VpsPlatformOperations option \<times> 'x VpsCredentialProvider \<times> u64 \<times> u64 \<times> bool \<times> bool" where
  "registration reg = (creg_operations reg, creg_provider reg, creg_provider_id reg, creg_generation reg,
     creg_initialized reg, creg_registered reg)"

text \<open>A registered provider has passed its check.\<close>

definition registry_ok :: "('p, 'x) VpsCredentialRegistry \<Rightarrow> bool" where
  "registry_ok reg \<longleftrightarrow>
     (creg_registered reg \<longrightarrow> vps_provider_validate (Some (creg_provider reg)) = VPS_CREDENTIAL_REGISTRY_OK \<and>
        creg_provider_id reg \<noteq> 0)"

lemma registration_ok: "registration reg' = registration reg \<Longrightarrow> registry_ok reg' = registry_ok reg"
  by (simp add: registration_def registry_ok_def)

lemma registration_update [simp]:
  "registration (reg\<lparr>creg_mutex := mutex\<rparr>) = registration reg"
  "registration (reg\<lparr>creg_active_resolves := n\<rparr>) = registration reg"
  "registration (reg\<lparr>creg_resolve_started := b\<rparr>) = registration reg"
  by (simp_all add: registration_def)

lemma vps_registry_log_locked_frame [simp]:
  "srv_heap (vps_registry_log_locked reg phase fm status level s) = srv_heap s"
  "srv_platform (vps_registry_log_locked reg phase fm status level s) = srv_platform s"
  by (simp_all add: vps_registry_log_locked_def)

lemma vps_registry_lock_frame [simp]:
  "srv_heap (snd (snd (vps_registry_lock reg s))) = srv_heap s"
  "registration (fst (snd (vps_registry_lock reg s))) = registration reg"
  "creg_active_resolves (fst (snd (vps_registry_lock reg s))) = creg_active_resolves reg"
  "creg_resolve_started (fst (snd (vps_registry_lock reg s))) = creg_resolve_started reg"
  by (simp_all add: vps_registry_lock_def case_prod_beta)

lemma vps_registry_unlock_frame [simp]:
  "srv_heap (snd (snd (vps_registry_unlock reg s))) = srv_heap s"
  "registration (fst (snd (vps_registry_unlock reg s))) = registration reg"
  "creg_active_resolves (fst (snd (vps_registry_unlock reg s))) = creg_active_resolves reg"
  "creg_resolve_started (fst (snd (vps_registry_unlock reg s))) = creg_resolve_started reg"
  by (simp_all add: vps_registry_unlock_def case_prod_beta)

lemma vps_resolve_finish_frame [simp]:
  "srv_heap (snd (vps_resolve_finish reg fm status level s)) = srv_heap s"
  "registration (fst (vps_resolve_finish reg fm status level s)) = registration reg"
  "creg_resolve_started (fst (vps_resolve_finish reg fm status level s)) = creg_resolve_started reg"
  by (simp_all add: vps_resolve_finish_def case_prod_beta Let_def)

lemma registration_select:
  assumes "registration reg' = registration reg"
  shows "creg_provider reg' = creg_provider reg" "creg_provider_id reg' = creg_provider_id reg"
    "creg_generation reg' = creg_generation reg" "creg_registered reg' = creg_registered reg"
    "creg_initialized reg' = creg_initialized reg" "creg_operations reg' = creg_operations reg"
  using assms by (simp_all add: registration_def)

lemmas lock_select [simp] = registration_select [OF vps_registry_lock_frame(2)]

lemma resolve_enter_frame [simp]:
  "srv_heap (snd (snd (resolve_enter reg s))) = srv_heap s"
  "registration (fst (snd (resolve_enter reg s))) = registration reg"
  by (simp_all add: resolve_enter_def case_prod_beta Let_def)

lemma resolve_enter_provider:
  assumes "fst (resolve_enter reg s) = Inr y"
  shows "y = (creg_provider reg, creg_provider_id reg, creg_generation reg)" "creg_registered reg"
    "creg_resolve_started (fst (snd (resolve_enter reg s)))"
    "creg_active_resolves (fst (snd (resolve_enter reg s))) = creg_active_resolves reg + 1"
  using assms by (auto simp: resolve_enter_def case_prod_beta Let_def split: if_splits)

text \<open>The two callbacks of the provider that is registered, and what a resolve may do with its state: nothing, a request
  that the provider refuses, or a request whose lease is given back once.\<close>

definition ask_provider ::
    "('p, 'x) VpsCredentialRegistry \<Rightarrow> u8 list \<Rightarrow> 'x \<Rightarrow> u32 \<times> VpsCredentialLease \<times> 'x" where
  "ask_provider reg bytes x =
     the (provider_resolve (creg_provider reg)) (provider_context (creg_provider reg)) bytes requested_lease x"

definition return_lease :: "('p, 'x) VpsCredentialRegistry \<Rightarrow> VpsCredentialLease \<Rightarrow> 'x \<Rightarrow> 'x" where
  "return_lease reg lease x =
     the (provider_release (creg_provider reg)) (provider_context (creg_provider reg)) lease x"

definition lease_acceptable :: "VpsCredentialLease \<Rightarrow> VpsCredentialConfig \<Rightarrow> bool" where
  "lease_acceptable lease c \<longleftrightarrow>
     vps_abi_validate_header (Some (lease_header lease)) 24 VPS_API_VERSION = VPS_ABI_VALID \<and>
     (abi_present_fields (lease_header lease) = 0 \<or> bit (abi_present_fields (lease_header lease)) 0) \<and>
     lease_config lease = Some c \<and> config_acceptable c"

definition reference_ok :: "u8 list \<Rightarrow> bool" where
  "reference_ok bytes \<longleftrightarrow> bytes \<noteq> [] \<and> length bytes \<le> VPS_CREDENTIAL_REFERENCE_MAX_LENGTH \<and>
     utf8_text (\<lambda>b. \<not> (b < 0x20 \<or> b = 0x7f)) bytes"

text \<open>The outcomes of a resolve.\<close>

inductive resolve_outcome ::
    "('p, 'x) VpsCredentialRegistry \<Rightarrow> u8 list option \<Rightarrow> ('w, 'p) VpsResolvedCredential \<Rightarrow> 'x \<Rightarrow>
     VpsCredentialRegistryResult \<Rightarrow> ('w, 'p) VpsResolvedCredential \<Rightarrow> 'x \<Rightarrow> bool" for reg reference rc x where
  not_asked: "result \<notin> {VPS_CREDENTIAL_REGISTRY_OK, VPS_CREDENTIAL_REGISTRY_RESOLVE_FAILED} \<Longrightarrow>
    resolve_outcome reg reference rc x result rc x"
| refused: "creg_registered reg \<Longrightarrow> reference = Some bytes \<Longrightarrow> reference_ok bytes \<Longrightarrow> ask_provider reg bytes x = (code, lease, x1) \<Longrightarrow>
    code \<noteq> VPS_CREDENTIAL_PROVIDER_OK \<Longrightarrow>
    resolve_outcome reg reference rc x VPS_CREDENTIAL_REGISTRY_RESOLVE_FAILED rc x1"
| rejected: "creg_registered reg \<Longrightarrow> reference = Some bytes \<Longrightarrow> reference_ok bytes \<Longrightarrow>
    ask_provider reg bytes x = (VPS_CREDENTIAL_PROVIDER_OK, lease, x1) \<Longrightarrow>
    result \<in> {VPS_CREDENTIAL_REGISTRY_ABI_INCOMPATIBLE, VPS_CREDENTIAL_REGISTRY_INVALID_CONFIG,
      VPS_CREDENTIAL_REGISTRY_OUT_OF_MEMORY} \<Longrightarrow>
    result = VPS_CREDENTIAL_REGISTRY_OUT_OF_MEMORY \<or> \<not> (\<exists>c. lease_acceptable lease c) \<Longrightarrow>
    resolve_outcome reg reference rc x result rc (return_lease reg lease x1)"
| resolved: "creg_registered reg \<Longrightarrow> reference = Some bytes \<Longrightarrow> reference_ok bytes \<Longrightarrow>
    ask_provider reg bytes x = (VPS_CREDENTIAL_PROVIDER_OK, lease, x1) \<Longrightarrow> lease_acceptable lease c \<Longrightarrow>
    resolved_config rc' = copied_config c (resolved_config rc) \<Longrightarrow>
    owned_memory (sens_storage (resolved_storage rc')) =
      Some (config_text (has_field c) (vps_config_get_string c) vps_credential_fields) \<Longrightarrow>
    resolved_provider_id rc' = creg_provider_id reg \<Longrightarrow> resolved_generation rc' = creg_generation reg \<Longrightarrow>
    resolved_initialized rc' = resolved_initialized rc \<Longrightarrow>
    resolve_outcome reg reference rc x VPS_CREDENTIAL_REGISTRY_OK rc' (return_lease reg lease x1)"

lemma resolve_enter_refusal:
  "fst (resolve_enter reg s) = Inl r \<Longrightarrow> r \<notin> {VPS_CREDENTIAL_REGISTRY_OK, VPS_CREDENTIAL_REGISTRY_RESOLVE_FAILED}"
  by (auto simp: resolve_enter_def vps_registry_lock_def vps_registry_unlock_def registry_status_def case_prod_beta
      Let_def split: if_splits)

lemma one_bit: "(x :: u64) AND 1 = 0 \<longleftrightarrow> \<not> bit x 0"
  by (simp add: and_one_eq bit_0 odd_iff_mod_2_eq_one)

context recording_allocator
begin

lemma secret_step_heap:
  "secret_step A inv live freed (m, s) (m', s') \<Longrightarrow> srv_heap t = srv_heap s \<Longrightarrow> srv_heap t' = srv_heap s' \<Longrightarrow>
    secret_step A inv live freed (m, t) (m', t')"
  by (auto simp: secret_step_def secret_in_def)

lemma accept_lease_step:
  assumes "secret_in A inv live (resolved_storage rc) s" "owned_blocks (sens_storage (resolved_storage rc)) = {#}"
    and "accept_lease lease rc s = (fm, res, rc', s')"
  shows "secret_step A inv live freed (resolved_storage rc, s) (resolved_storage rc', s')"
    and "resolved_initialized rc' = resolved_initialized rc"
    and "res = VPS_CREDENTIAL_REGISTRY_OK \<Longrightarrow> \<exists>c. lease_acceptable lease c \<and>
      resolved_config rc' = copied_config c (resolved_config rc) \<and>
      owned_memory (sens_storage (resolved_storage rc')) =
        Some (config_text (has_field c) (vps_config_get_string c) vps_credential_fields)"
    and "res \<noteq> VPS_CREDENTIAL_REGISTRY_OK \<Longrightarrow> rc' = rc \<and>
      res \<in> {VPS_CREDENTIAL_REGISTRY_ABI_INCOMPATIBLE, VPS_CREDENTIAL_REGISTRY_INVALID_CONFIG,
        VPS_CREDENTIAL_REGISTRY_OUT_OF_MEMORY} \<and>
      (res = VPS_CREDENTIAL_REGISTRY_OUT_OF_MEMORY \<or> \<not> (\<exists>c. lease_acceptable lease c))"
proof -
  let ?bad = "vps_abi_validate_header (Some (lease_header lease)) 24 VPS_API_VERSION \<noteq> VPS_ABI_VALID \<or>
    (abi_present_fields (lease_header lease) \<noteq> 0 \<and> abi_present_fields (lease_header lease) AND 1 = 0)"
  have "secret_step A inv live freed (resolved_storage rc, s) (resolved_storage rc', s') \<and>
    resolved_initialized rc' = resolved_initialized rc \<and>
    (if res = VPS_CREDENTIAL_REGISTRY_OK then \<exists>c. lease_acceptable lease c \<and>
      resolved_config rc' = copied_config c (resolved_config rc) \<and>
      owned_memory (sens_storage (resolved_storage rc')) =
        Some (config_text (has_field c) (vps_config_get_string c) vps_credential_fields)
     else rc' = rc \<and> res \<in> {VPS_CREDENTIAL_REGISTRY_ABI_INCOMPATIBLE, VPS_CREDENTIAL_REGISTRY_INVALID_CONFIG,
        VPS_CREDENTIAL_REGISTRY_OUT_OF_MEMORY} \<and>
      (res = VPS_CREDENTIAL_REGISTRY_OUT_OF_MEMORY \<or> \<not> (\<exists>c. lease_acceptable lease c)))"
  proof (cases ?bad)
    case True
    then show ?thesis
      using assms secret_step_refl by (auto simp: accept_lease_def lease_acceptable_def one_bit)
  next
    case False
    then have "vps_copy_config (lease_config lease) rc s = (res, rc', s')"
      using assms(3) by (auto simp: accept_lease_def split: if_splits)
    note copy = copy_config_step [OF assms(1,2) this]
    show ?thesis using copy False by (auto simp: lease_acceptable_def one_bit)
  qed
  then show "secret_step A inv live freed (resolved_storage rc, s) (resolved_storage rc', s')"
    "resolved_initialized rc' = resolved_initialized rc"
    "res = VPS_CREDENTIAL_REGISTRY_OK \<Longrightarrow> \<exists>c. lease_acceptable lease c \<and>
      resolved_config rc' = copied_config c (resolved_config rc) \<and>
      owned_memory (sens_storage (resolved_storage rc')) =
        Some (config_text (has_field c) (vps_config_get_string c) vps_credential_fields)"
    "res \<noteq> VPS_CREDENTIAL_REGISTRY_OK \<Longrightarrow> rc' = rc \<and>
      res \<in> {VPS_CREDENTIAL_REGISTRY_ABI_INCOMPATIBLE, VPS_CREDENTIAL_REGISTRY_INVALID_CONFIG,
        VPS_CREDENTIAL_REGISTRY_OUT_OF_MEMORY} \<and>
      (res = VPS_CREDENTIAL_REGISTRY_OUT_OF_MEMORY \<or> \<not> (\<exists>c. lease_acceptable lease c))"
    by (simp_all split: if_splits)
qed

lemma resolve_step:
  assumes "secret_in A inv live (resolved_storage rc) s"
    and "vps_credential_registry_resolve reg reference rc x s = (res, reg', rc', x', s')"
  shows "secret_step A inv live freed (resolved_storage rc, s) (resolved_storage rc', s')"
    and "resolve_outcome reg reference rc x res rc' x'"
    and "registration reg' = registration reg"
proof -
  let ?bad = "\<not> creg_initialized reg \<or> \<not> resolved_initialized rc \<or>
         owned_flag (sens_storage (resolved_storage rc)) \<or> reference = None \<or> the reference = [] \<or>
         length (the reference) > VPS_CREDENTIAL_REFERENCE_MAX_LENGTH \<or> \<not> vps_utf8_is_valid (the reference) True"
  have "secret_step A inv live freed (resolved_storage rc, s) (resolved_storage rc', s') \<and>
    resolve_outcome reg reference rc x res rc' x' \<and> registration reg' = registration reg"
  proof (cases ?bad)
    case True
    then have "res = VPS_CREDENTIAL_REGISTRY_INVALID_ARGUMENT" "reg' = reg" "rc' = rc" "x' = x" "s' = s"
      using assms(2) unfolding vps_credential_registry_resolve_def by auto
    then show ?thesis using secret_step_refl [OF assms(1)] by (auto intro: resolve_outcome.intros)
  next
    case False
    then obtain bytes where bytes: "reference = Some bytes" by auto
    then have ok: "reference_ok bytes" using False by (auto simp: reference_ok_def vps_utf8_is_valid_exact)
    have empty: "owned_blocks (sens_storage (resolved_storage rc)) = {#}"
      using False assms(1) by (auto simp: secret_in_def owned_ok_def owned_blocks_def)
    obtain out reg1 s1 where enter: "resolve_enter reg s = (out, reg1, s1)" by (metis prod_cases3)
    have frame: "srv_heap s1 = srv_heap s" "registration reg1 = registration reg"
      using resolve_enter_frame [of reg s] enter by simp_all
    show ?thesis
    proof (cases out)
      case (Inl r)
      then have eqs: "res = r" "reg' = reg1" "rc' = rc" "x' = x" "s' = s1"
        using assms(2) False enter unfolding vps_credential_registry_resolve_def by auto
      have "r \<notin> {VPS_CREDENTIAL_REGISTRY_OK, VPS_CREDENTIAL_REGISTRY_RESOLVE_FAILED}"
        using resolve_enter_refusal [of reg s r] enter Inl by simp
      then show ?thesis
        using eqs frame secret_step_heap [OF secret_step_refl [OF assms(1)]] by (auto intro: resolve_outcome.intros)
    next
      case (Inr y)
      then have y: "y = (creg_provider reg, creg_provider_id reg, creg_generation reg)" "creg_registered reg"
        using resolve_enter_provider [of reg s y] enter by simp_all
      obtain code lease x1 where ask: "ask_provider reg bytes x = (code, lease, x1)" by (metis prod_cases3)
      note run = assms(2) [unfolded vps_credential_registry_resolve_def if_not_P [OF False], unfolded enter Inr y(1) sum.case
          prod.case bytes option.sel ask [unfolded ask_provider_def] return_lease_def [symmetric]]
      show ?thesis
      proof (cases "code = VPS_CREDENTIAL_PROVIDER_OK")
        case refused: False
        obtain reg2 s2 where fin: "vps_resolve_finish reg1 0 ''provider_failed'' VPS_LOG_LEVEL_WARN s1 = (reg2, s2)"
          by fastforce
        have eqs: "res = VPS_CREDENTIAL_REGISTRY_RESOLVE_FAILED" "reg' = reg2" "rc' = rc" "x' = x1" "s' = s2"
          using run refused fin by auto
        have "srv_heap s2 = srv_heap s1" "registration reg2 = registration reg1"
          using vps_resolve_finish_frame(1,2) [of reg1 0 "''provider_failed''" VPS_LOG_LEVEL_WARN s1] fin by simp_all
        then show ?thesis
          using eqs frame secret_step_heap [OF secret_step_refl [OF assms(1)]]
            resolve_outcome.refused [OF y(2) bytes ok ask refused] by auto
      next
        case OK: True
        obtain fm r rc1 s2 where acc: "accept_lease lease rc s1 = (fm, r, rc1, s2)" by (metis prod_cases4)
        have "secret_in A inv live (resolved_storage rc) s1" using assms(1) frame(1) by (simp add: secret_in_def)
        note al = accept_lease_step [OF this empty acc]
        define st where "st = (if r = VPS_CREDENTIAL_REGISTRY_OK then (''resolved'', VPS_LOG_LEVEL_DEBUG)
          else (vps_credential_registry_result_name r, VPS_LOG_LEVEL_ERROR))"
        obtain reg2 s3 where fin: "vps_resolve_finish reg1 fm (fst st) (snd st) s2 = (reg2, s3)" by fastforce
        have eqs: "res = r" "reg' = reg2" "x' = return_lease reg lease x1" "s' = s3"
          "rc' = (if r = VPS_CREDENTIAL_REGISTRY_OK
             then rc1\<lparr>resolved_provider_id := creg_provider_id reg, resolved_generation := creg_generation reg\<rparr> else rc1)"
          using run OK acc fin by (auto simp: st_def Let_def return_lease_def split: if_splits prod.splits)
        have fr: "srv_heap s3 = srv_heap s2" "registration reg2 = registration reg1"
          using vps_resolve_finish_frame(1,2) [of reg1 fm "fst st" "snd st" s2] fin by simp_all
        have step: "secret_step A inv live freed (resolved_storage rc, s) (resolved_storage rc', s')"
          using secret_step_heap [OF al(1), of s s3] frame(1) fr(1) eqs by simp
        show ?thesis
        proof (cases "r = VPS_CREDENTIAL_REGISTRY_OK")
          case True
          then show ?thesis
            using step eqs frame(2) fr(2) al(2,3) resolve_outcome.resolved [OF y(2) bytes ok, of x lease x1 _ rc' rc] ask OK
            by auto
        next
          case False
          then show ?thesis
            using step eqs frame(2) fr(2) al(4) resolve_outcome.rejected [OF y(2) bytes ok, of x lease x1 r rc] ask OK
            by auto
        qed
      qed
    qed
  qed
  then show "secret_step A inv live freed (resolved_storage rc, s) (resolved_storage rc', s')"
    "resolve_outcome reg reference rc x res rc' x'" "registration reg' = registration reg"
    by blast+
qed

end

text \<open>Registering, asking and cleaning up.\<close>

lemma registry_ok_mutex [simp]:
  "registry_ok (fst (snd (vps_registry_lock reg s))) = registry_ok reg"
  "registry_ok (fst (snd (vps_registry_unlock reg s))) = registry_ok reg"
  using registration_ok [OF vps_registry_lock_frame(2)] registration_ok [OF vps_registry_unlock_frame(2)] by blast+

lemma register_keeps_ok:
  assumes "registry_ok reg" "vps_credential_registry_register reg i prov s = (r, reg', s')"
  shows "registry_ok reg'"
proof -
  have valid: "vps_provider_validate (Some (zero_provider\<lparr>provider_header := provider_header q,
      provider_resolve := provider_resolve q, provider_release := provider_release q, provider_context := ctx\<rparr>)) =
    vps_provider_validate (Some q)" for q :: "'b VpsCredentialProvider" and ctx
    by (simp add: vps_provider_validate_def)
  have new: "registry_ok (reg1\<lparr>creg_provider := zero_provider\<lparr>provider_header := provider_header q,
      provider_resolve := provider_resolve q, provider_release := provider_release q, provider_context := ctx\<rparr>,
      creg_provider_id := i, creg_generation := g, creg_registered := True\<rparr>)"
    if "vps_provider_validate (Some q) = VPS_CREDENTIAL_REGISTRY_OK" "i \<noteq> 0"
    for q ctx g and reg1 :: "('a, 'b) VpsCredentialRegistry"
    using that by (simp add: registry_ok_def valid)
  have reg': "reg' = fst (snd (vps_credential_registry_register reg i prov s))" using assms(2) by simp
  show ?thesis
  proof (cases prov)
    case None
    then show ?thesis using assms(1) reg' by (simp add: vps_credential_registry_register_def vps_provider_validate_def)
  next
    case (Some q)
    show ?thesis
      unfolding reg' vps_credential_registry_register_def case_prod_beta Let_def Some option.sel
      by (auto simp: assms(1) intro: new)
  qed
qed

lemma register_after_resolve:
  assumes "creg_resolve_started reg" "vps_credential_registry_register reg i prov s = (r, reg', s')"
  shows "registration reg' = registration reg" "creg_resolve_started reg'" "r \<noteq> VPS_CREDENTIAL_REGISTRY_OK"
proof -
  have lock: "fst (vps_registry_lock reg s) \<noteq> VPS_CREDENTIAL_REGISTRY_OK \<or> creg_resolve_started (fst (snd (vps_registry_lock reg s)))"
    using assms(1) by simp
  have "r = fst (vps_credential_registry_register reg i prov s)"
    "reg' = fst (snd (vps_credential_registry_register reg i prov s))" using assms(2) by simp_all
  with assms(1) lock show "registration reg' = registration reg" "creg_resolve_started reg'" "r \<noteq> VPS_CREDENTIAL_REGISTRY_OK"
    by (simp_all add: vps_credential_registry_register_def case_prod_beta Let_def)
qed

lemma resolve_started_sticky:
  "creg_resolve_started reg \<Longrightarrow> creg_resolve_started (fst (snd (resolve_enter reg s)))"
  by (simp add: resolve_enter_def case_prod_beta Let_def)

lemma resolve_keeps_registration:
  assumes "vps_credential_registry_resolve reg reference rc x s = (r, reg', rc', x', s')"
  shows "registration reg' = registration reg" "creg_resolve_started reg \<Longrightarrow> creg_resolve_started reg'"
    and "x' \<noteq> x \<Longrightarrow> creg_resolve_started reg'"
proof -
  have "registration reg' = registration reg \<and> (creg_resolve_started reg \<longrightarrow> creg_resolve_started reg') \<and>
      (x' \<noteq> x \<longrightarrow> creg_resolve_started reg')"
  proof (cases "\<exists>reg1 s1 y. resolve_enter reg s = (Inr y, reg1, s1)")
    case False
    have "registration reg1 = registration reg" if "resolve_enter reg s = (y, reg1, s1)" for y reg1 s1
      using resolve_enter_frame(2) [of reg s] that by simp
    then show ?thesis
      using False assms resolve_started_sticky [of reg s]
      by (auto simp: vps_credential_registry_resolve_def split: if_splits prod.splits sum.splits)
  next
    case True
    then obtain reg1 s1 y where enter: "resolve_enter reg s = (Inr y, reg1, s1)" by blast
    have reg1: "registration reg1 = registration reg" "creg_resolve_started reg1"
      using resolve_enter_frame(2) [of reg s] resolve_enter_provider(3) [of reg s y] enter by simp_all
    then show ?thesis
      using assms enter
      by (auto simp: vps_credential_registry_resolve_def Let_def case_prod_beta split: if_splits)
  qed
  then show "registration reg' = registration reg" "creg_resolve_started reg \<Longrightarrow> creg_resolve_started reg'"
    "x' \<noteq> x \<Longrightarrow> creg_resolve_started reg'" by blast+
qed

text \<open>A registry that has been asked keeps its provider: no sequence of registrations and resolves replaces it.\<close>

inductive registry_step ::
    "('p, 'x) VpsCredentialRegistry \<times> ('w, 'p, 'c) services \<Rightarrow> ('p, 'x) VpsCredentialRegistry \<times> ('w, 'p, 'c) services \<Rightarrow> bool" where
  step_register: "vps_credential_registry_register reg i prov s = (r, reg', s') \<Longrightarrow> registry_step (reg, s) (reg', s')"
| step_resolve: "vps_credential_registry_resolve reg reference rc x s = (r, reg', rc', x', s') \<Longrightarrow>
    registry_step (reg, s) (reg', s')"
| step_elsewhere: "registry_step (reg, s) (reg, s')"

lemma registry_step_started:
  assumes "registry_step y y'" "creg_resolve_started (fst y)"
  shows "registration (fst y') = registration (fst y) \<and> creg_resolve_started (fst y')"
  using assms(1)
proof cases
  case (step_register reg i prov s r reg' s')
  then show ?thesis using register_after_resolve(1,2) assms(2) by fastforce
next
  case (step_resolve reg reference rc x s r reg' rc' x' s')
  then show ?thesis using resolve_keeps_registration(1,2) assms(2) by fastforce
qed (use assms(2) in simp)

lemma provider_fixed_once_asked:
  "registry_step\<^sup>*\<^sup>* y y' \<Longrightarrow> creg_resolve_started (fst y) \<Longrightarrow>
    registration (fst y') = registration (fst y) \<and> creg_resolve_started (fst y')"
  by (induction rule: rtranclp_induct) (simp, metis registry_step_started)

lemma registry_stays_ok: "registry_step\<^sup>*\<^sup>* y y' \<Longrightarrow> registry_ok (fst y) \<Longrightarrow> registry_ok (fst y')"
proof (induction rule: rtranclp_induct)
  case (step y1 y2)
  from step.hyps(2) show ?case
    using step.IH step.prems
  proof cases
    case (step_register reg i prov s r reg' s')
    then show ?thesis using register_keeps_ok step.IH step.prems by fastforce
  next
    case (step_resolve reg reference rc x s r reg' rc' x' s')
    then show ?thesis using registration_ok [OF resolve_keeps_registration(1)] step.IH step.prems by fastforce
  qed simp
qed

text \<open>The count of running calls. It is exact while the mutex works. An unlock that fails after the count has gone up
  leaves it up, and \<open>vps_credential_registry_cleanup\<close> then reports busy for good.\<close>

definition mutex_works :: "'p VpsPlatformOperations option \<Rightarrow> bool" where
  "mutex_works ops \<longleftrightarrow> (\<forall>m p. fst (vps_platform_mutex_lock ops m p) = VPS_PLATFORM_OK \<and>
     fst (vps_platform_mutex_unlock ops m p) = VPS_PLATFORM_OK)"

lemma registry_mutex_works:
  assumes "mutex_works (creg_operations reg)"
  shows "fst (vps_registry_lock reg s) = VPS_CREDENTIAL_REGISTRY_OK" "fst (vps_registry_unlock reg s) = VPS_CREDENTIAL_REGISTRY_OK"
  using assms by (simp_all add: vps_registry_lock_def vps_registry_unlock_def mutex_works_def registry_status_def case_prod_beta)

lemma resolve_balances:
  assumes "vps_credential_registry_resolve reg reference rc x s = (r, reg', rc', x', s')"
    and "mutex_works (creg_operations reg)"
  shows "creg_active_resolves reg' = creg_active_resolves reg"
proof (cases "fst (resolve_enter reg s)")
  case (Inl r1)
  then have "creg_active_resolves (fst (snd (resolve_enter reg s))) = creg_active_resolves reg"
    using assms(2) by (auto simp: resolve_enter_def Let_def case_prod_beta registry_mutex_works split: if_splits)
  then show ?thesis
    using assms(1) Inl by (auto simp: vps_credential_registry_resolve_def case_prod_beta split: if_splits sum.splits)
next
  case (Inr y)
  let ?reg1 = "fst (snd (resolve_enter reg s))"
  have y: "creg_active_resolves ?reg1 = creg_active_resolves reg + 1" "creg_active_resolves reg \<noteq> UINT64_MAX"
    using Inr resolve_enter_provider(4) by (auto simp: resolve_enter_def Let_def case_prod_beta split: if_splits)
  have ops: "mutex_works (creg_operations ?reg1)"
    using assms(2) registration_select(6) [OF resolve_enter_frame(2), of reg s] by simp
  have "creg_active_resolves (fst (vps_resolve_finish ?reg1 fm st lv s2)) = creg_active_resolves reg" for fm st lv
      and s2 :: "('c, 'a, 'd) services"
  proof -
    have "creg_active_resolves reg + 1 \<noteq> 0" using y(2) by (metis add_eq_0_iff add.commute)
    then show ?thesis
      using y(1) registry_mutex_works(1) [OF ops] by (simp add: vps_resolve_finish_def Let_def case_prod_beta)
  qed
  then show ?thesis
    using assms(1) Inr
    by (auto simp: vps_credential_registry_resolve_def Let_def case_prod_beta split: if_splits sum.splits)
qed

lemma resolve_unlock_failure_counts:
  assumes "fst (vps_registry_lock reg s) = VPS_CREDENTIAL_REGISTRY_OK" "creg_registered reg"
    and "creg_active_resolves reg \<noteq> UINT64_MAX"
    and "resolve_enter reg s = (Inl VPS_CREDENTIAL_REGISTRY_PLATFORM_ERROR, reg', s')"
  shows "creg_active_resolves reg' = creg_active_resolves reg + 1"
proof -
  have "reg' = fst (snd (resolve_enter reg s))" using assms(4) by simp
  then show ?thesis using assms(1-3) by (simp add: resolve_enter_def Let_def case_prod_beta)
qed

lemma cleanup_refuses_while_active:
  assumes "vps_credential_registry_cleanup reg s = (r, reg', s')" "creg_active_resolves reg \<noteq> 0" "creg_initialized reg"
  shows "r \<noteq> VPS_CREDENTIAL_REGISTRY_OK" "registration reg' = registration reg"
proof -
  have "r = fst (vps_credential_registry_cleanup reg s)" "reg' = fst (snd (vps_credential_registry_cleanup reg s))"
    using assms(1) by simp_all
  then show "r \<noteq> VPS_CREDENTIAL_REGISTRY_OK" "registration reg' = registration reg"
    using assms(2,3) by (simp_all add: vps_credential_registry_cleanup_def case_prod_beta)
qed

text \<open>The result and the effect of a cleanup of a resolved credential.\<close>

lemma cleanup_step:
  assumes "secret_in system_allocator (\<lambda>_. True) heap_live (resolved_storage rc) s"
    and "vps_resolved_credential_cleanup rc s = (r, rc', s')"
  shows "secret_step system_allocator (\<lambda>_. True) heap_live heap_freed (resolved_storage rc, s) (resolved_storage rc', s')"
    and "r = VPS_CREDENTIAL_REGISTRY_OK \<Longrightarrow> owned_blocks (sens_storage (resolved_storage rc')) = {#} \<and>
      resolved_config rc' = empty_config"
proof -
  obtain mr m s1 where rel: "vps_sensitive_memory_release (resolved_storage rc) s = (mr, m, s1)" by (metis prod_cases3)
  note step = system_record.sensitive_release_step [OF assms(1) rel]
  show "secret_step system_allocator (\<lambda>_. True) heap_live heap_freed (resolved_storage rc, s) (resolved_storage rc', s')"
    using step(1) assms rel secret_step_refl [OF assms(1)]
    by (auto simp: vps_resolved_credential_cleanup_def split: if_splits)
  show "r = VPS_CREDENTIAL_REGISTRY_OK \<Longrightarrow> owned_blocks (sens_storage (resolved_storage rc')) = {#} \<and>
      resolved_config rc' = empty_config"
    using step(2) assms(2) rel by (auto simp: vps_resolved_credential_cleanup_def split: if_splits)
qed

text \<open>C35. Resolving a credential, and forgetting it. A resolve either does not reach the provider and changes
  nothing; or asks it once with a well-formed reference and is refused; or receives a lease and gives it back exactly
  once. Only a lease whose header and configuration are acceptable is copied, and then the result holds exactly the
  members the configuration announces, their text in one block of secret memory; a rejected lease leaves the result as
  it was. When the result is cleaned up afterwards, the heap is as before the call, and every block that went back in
  between was full of zeros.\<close>

theorem credential_resolve_exact:
  assumes "secret_in system_allocator (\<lambda>_. True) heap_live (resolved_storage rc) s"
    and "vps_credential_registry_resolve reg reference rc x s = (res, reg', rc', x', s')"
    and "vps_resolved_credential_cleanup rc' s' = (VPS_CREDENTIAL_REGISTRY_OK, rc'', s'')"
  shows "resolve_outcome reg reference rc x res rc' x' \<and>
    heap_live (srv_heap s'') = heap_live (srv_heap s) - owned_blocks (sens_storage (resolved_storage rc)) \<and>
    wiped heap_freed (srv_heap s) (srv_heap s'') \<and> resolved_config rc'' = empty_config"
proof -
  note step = system_record.resolve_step [OF assms(1,2)]
  note clean = cleanup_step [OF secret_step_in [OF step(1)] assms(3)]
  from secret_step_trans [OF step(1) clean(1)] clean(2) step(2) show ?thesis
    by (simp add: secret_step_def)
qed

abbreviation (input) witness_config :: VpsCredentialConfig where
  "witness_config \<equiv> empty_config\<lparr>config_header := \<lparr>abi_structure_size = 200, abi_api_version = VPS_API_VERSION,
     abi_present_fields = 8\<rparr>, config_member := (\<lambda>m. if m = Password then Some ''pw'' else None)\<rparr>"

text \<open>A provider that counts the leases that are out.\<close>

abbreviation (input) witness_provider :: "nat VpsCredentialProvider" where
  "witness_provider \<equiv> \<lparr>provider_header = \<lparr>abi_structure_size = 72, abi_api_version = VPS_API_VERSION,
       abi_present_fields = 7\<rparr>,
     provider_resolve = Some (\<lambda>ctx bytes lease n. (0, lease\<lparr>lease_config := Some witness_config\<rparr>, n + 1)),
     provider_release = Some (\<lambda>ctx lease n. n - 1), provider_context = None\<rparr>"

abbreviation (input) witness_mutex_platform :: "unit VpsPlatformOperations" where
  "witness_mutex_platform \<equiv> zeroing_platform\<lparr>op_mutex_lock := Some (\<lambda>m p. (VPS_PLATFORM_OK, m, p)),
     op_mutex_unlock := Some (\<lambda>m p. (VPS_PLATFORM_OK, m, p))\<rparr>"

abbreviation (input) witness_registry :: "(unit, nat) VpsCredentialRegistry" where
  "witness_registry \<equiv> zero_credential_registry\<lparr>creg_operations := Some witness_mutex_platform,
     creg_provider := witness_provider, creg_provider_id := 1, creg_generation := 1, creg_initialized := True,
     creg_registered := True\<rparr>"

abbreviation (input) witness_resolved :: "(heap, unit) VpsResolvedCredential" where
  "witness_resolved \<equiv> \<lparr>resolved_config = empty_config, resolved_storage = \<lparr>sens_storage =
       \<lparr>owned_allocator = system_allocator, owned_memory = None, owned_size = 0, owned_flag = False\<rparr>,
       sens_operations = Some zeroing_platform, sens_initialized = True\<rparr>,
     resolved_provider_id = 0, resolved_generation = 0, resolved_initialized = True\<rparr>"


lemmas credential_evaluation =
  vps_credential_registry_resolve_def resolve_enter_def vps_registry_lock_def vps_registry_unlock_def
  vps_resolve_finish_def registry_status_def vps_registry_log_locked_def zero_credential_registry_def
  requested_lease_def accept_lease_def vps_copy_config_def vps_abi_validate_header_def VPS_API_VERSION_def
  VPS_API_VERSION_ENCODE_def has_field_bit empty_config_def zero_config_def vps_credential_fields_def
  vps_config_get_string_def vps_structure_has_member_def member_offset_def vps_bounded_string_length_def
  vps_utf8_is_valid_def VPS_CREDENTIAL_FIELDS_CURRENT_def vps_resolved_credential_cleanup_def
  mask_eq_exp_minus_1 vps_config_set_string_def

lemmas secret_evaluation =
  vps_sensitive_memory_allocate_def vps_owned_memory_allocate_def vps_memory_allocate_def vps_allocator_is_valid_def
  call_allocate_def vps_system_allocate_def c_malloc_def vps_secure_memory_log_def
  vps_secure_memory_from_memory_result_def vps_sensitive_memory_release_def sensitive_zero_def sensitive_write_def
  vps_platform_secure_zero_def vps_platform_mutex_lock_def vps_platform_mutex_unlock_def platform_dispatch_def
  vps_posix_stub_operations_def vps_owned_memory_release_def vps_memory_release_def call_deallocate_def
  vps_system_deallocate_def c_free_def vps_size_add_def mem_write_def c_bytes_def char_byte_def

theorem credential_resolve_exact_witness:
  "\<exists>reg' rc' s' rc'' s''.
     vps_credential_registry_resolve witness_registry (Some [112]) witness_resolved 0 (witness_services witness_heap) =
       (VPS_CREDENTIAL_REGISTRY_OK, reg', rc', 0, s') \<and>
     vps_resolved_credential_cleanup rc' s' = (VPS_CREDENTIAL_REGISTRY_OK, rc'', s'') \<and>
     resolve_outcome witness_registry (Some [112]) witness_resolved 0 VPS_CREDENTIAL_REGISTRY_OK rc' 0 \<and>
     config_member (resolved_config rc') Password = Some ''pw'' \<and> heap_live (srv_heap s'') = {#}"
proof -
  obtain reg' rc' s' rc'' s'' where run: "vps_credential_registry_resolve witness_registry (Some [112]) witness_resolved 0
      (witness_services witness_heap) = (VPS_CREDENTIAL_REGISTRY_OK, reg', rc', 0, s')"
    and pw: "config_member (resolved_config rc') Password = Some ''pw''"
    and clean: "vps_resolved_credential_cleanup rc' s' = (VPS_CREDENTIAL_REGISTRY_OK, rc'', s'')"
    by (simp add: credential_evaluation secret_evaluation)
  have "secret_in system_allocator (\<lambda>_. True) heap_live (resolved_storage witness_resolved) (witness_services witness_heap)"
    using zeroing_platform_zeroes by (simp add: secret_in_def owned_ok_def owned_blocks_def)
  from credential_resolve_exact [OF this run clean] run pw clean show ?thesis
    by (auto simp: owned_blocks_def)
qed

end
