(* ===== verification/Vps_Arguments.thy ===== *)
theory Vps_Arguments
  imports Vps_Secure_Memory Vps_Utf8
begin

text \<open>
  The arguments of \<open>CREATE VIRTUAL TABLE\<close>, \<open>src/src/vps_arguments.c\<close>: each input \<open>name = value\<close> is split, looked up,
  decoded into one block of secret memory and checked against the type of the argument; then the combination of all of
  them is checked.

  An input is the string of its characters, \<open>None\<close> for a null pointer. The array of values is a function on the
  identifiers. Writes through the pointer into the block are \<open>sensitive_write\<close>.
\<close>

section \<open>Data\<close>

datatype VpsArgumentId =
    VPS_ARGUMENT_ID_CREDENTIAL_REF
  | VPS_ARGUMENT_ID_SERVICE
  | VPS_ARGUMENT_ID_SERVICE_FILE
  | VPS_ARGUMENT_ID_PROFILE
  | VPS_ARGUMENT_ID_CONNSTR
  | VPS_ARGUMENT_ID_SOURCE
  | VPS_ARGUMENT_ID_SCHEMA
  | VPS_ARGUMENT_ID_TABLE
  | VPS_ARGUMENT_ID_QUERY
  | VPS_ARGUMENT_ID_QUERY_PROFILE
  | VPS_ARGUMENT_ID_MODE
  | VPS_ARGUMENT_ID_ALLOW_VIEW
  | VPS_ARGUMENT_ID_ALLOW_MATERIALIZED_VIEW
  | VPS_ARGUMENT_ID_ALLOW_FOREIGN_TABLE
  | VPS_ARGUMENT_ID_KEY_COLUMNS
  | VPS_ARGUMENT_ID_OPTIMISTIC_LOCK
  | VPS_ARGUMENT_ID_VERSION_COLUMN
  | VPS_ARGUMENT_ID_GEOMETRY
  | VPS_ARGUMENT_ID_SRID
  | VPS_ARGUMENT_ID_CONNECT_TIMEOUT
  | VPS_ARGUMENT_ID_STATEMENT_TIMEOUT
  | VPS_ARGUMENT_ID_LOCK_TIMEOUT
  | VPS_ARGUMENT_ID_POOL_MIN
  | VPS_ARGUMENT_ID_POOL_MAX
  | VPS_ARGUMENT_ID_POOL_IDLE_TIMEOUT
  | VPS_ARGUMENT_ID_POOL_WAIT_TIMEOUT
  | VPS_ARGUMENT_ID_POOL_VALIDATION_INTERVAL
  | VPS_ARGUMENT_ID_POOL_RESET
  | VPS_ARGUMENT_ID_POOL_READONLY_SEPARATE
  | VPS_ARGUMENT_ID_METADATA_MODE
  | VPS_ARGUMENT_ID_SCHEMA_POLICY
  | VPS_ARGUMENT_ID_QUERY_INDEXES
  | VPS_ARGUMENT_ID_QUERY_MATERIALIZATION
  | VPS_ARGUMENT_ID_ISOLATION
  | VPS_ARGUMENT_ID_TRANSACTION_READ_ONLY
  | VPS_ARGUMENT_ID_UNKNOWN

datatype VpsArgumentType =
    VPS_ARGUMENT_TYPE_NONE
  | VPS_ARGUMENT_TYPE_STRING
  | VPS_ARGUMENT_TYPE_UINT32
  | VPS_ARGUMENT_TYPE_BOOLEAN
  | VPS_ARGUMENT_TYPE_ENUM

datatype VpsArgumentEnumValue =
    VPS_ARGUMENT_ENUM_NONE
  | VPS_ARGUMENT_ENUM_SOURCE_TABLE
  | VPS_ARGUMENT_ENUM_SOURCE_QUERY
  | VPS_ARGUMENT_ENUM_MODE_RO
  | VPS_ARGUMENT_ENUM_MODE_RW
  | VPS_ARGUMENT_ENUM_GEOMETRY_WKT
  | VPS_ARGUMENT_ENUM_GEOMETRY_WKB
  | VPS_ARGUMENT_ENUM_GEOMETRY_EWKT
  | VPS_ARGUMENT_ENUM_GEOMETRY_EWKB
  | VPS_ARGUMENT_ENUM_GEOMETRY_SPATIALITE
  | VPS_ARGUMENT_ENUM_GEOMETRY_NONE
  | VPS_ARGUMENT_ENUM_POOL_DISCARD_ALL
  | VPS_ARGUMENT_ENUM_POOL_STRICT_RESET
  | VPS_ARGUMENT_ENUM_METADATA_LIVE
  | VPS_ARGUMENT_ENUM_METADATA_CACHED
  | VPS_ARGUMENT_ENUM_SCHEMA_STRICT
  | VPS_ARGUMENT_ENUM_SCHEMA_REFRESH
  | VPS_ARGUMENT_ENUM_MATERIALIZATION_OFF
  | VPS_ARGUMENT_ENUM_MATERIALIZATION_MEMORY
  | VPS_ARGUMENT_ENUM_MATERIALIZATION_TEMP
  | VPS_ARGUMENT_ENUM_ISOLATION_READ_COMMITTED
  | VPS_ARGUMENT_ENUM_ISOLATION_REPEATABLE_READ
  | VPS_ARGUMENT_ENUM_ISOLATION_SERIALIZABLE

datatype VpsArgumentsResult =
    VPS_ARGUMENTS_OK
  | VPS_ARGUMENTS_INVALID_ARGUMENT
  | VPS_ARGUMENTS_UNKNOWN_ARGUMENT
  | VPS_ARGUMENTS_DUPLICATE_ARGUMENT
  | VPS_ARGUMENTS_MALFORMED
  | VPS_ARGUMENTS_LIMIT_EXCEEDED
  | VPS_ARGUMENTS_RANGE_ERROR
  | VPS_ARGUMENTS_INCOMPATIBLE
  | VPS_ARGUMENTS_OUT_OF_MEMORY
  | VPS_ARGUMENTS_CLEANUP_FAILED
  | VPS_ARGUMENTS_OUT_OF_RANGE int

record VpsArgumentDefinition =
  def_id :: VpsArgumentId
  def_name :: string
  def_type :: VpsArgumentType
  def_limit :: nat
  def_sensitive :: bool

record VpsArgumentValue =
  value_type :: VpsArgumentType
  value_offset :: size_t
  value_length :: size_t
  value_uint32 :: u32
  value_enum :: VpsArgumentEnumValue
  value_boolean :: bool
  value_present :: bool

record VpsArgumentsDiagnostic =
  diag_result :: VpsArgumentsResult
  diag_argument_id :: VpsArgumentId
  diag_presence :: u64
  diag_sensitive :: bool

record ('w, 'p) VpsParsedArguments =
  args_storage :: "('w, 'p) VpsSensitiveMemory"
  args_values :: "VpsArgumentId \<Rightarrow> VpsArgumentValue"
  args_presence :: u64
  args_initialized :: bool

abbreviation (input) VPS_ARGUMENT_MAX_COUNT :: nat where "VPS_ARGUMENT_MAX_COUNT \<equiv> 64"
abbreviation (input) VPS_ARGUMENT_NAME_LIMIT :: nat where "VPS_ARGUMENT_NAME_LIMIT \<equiv> 64"
abbreviation (input) VPS_ARGUMENT_VALUE_LIMIT :: nat where "VPS_ARGUMENT_VALUE_LIMIT \<equiv> 16384"
abbreviation (input) VPS_ARGUMENT_TOTAL_LIMIT :: nat where "VPS_ARGUMENT_TOTAL_LIMIT \<equiv> 65536"

definition zero_value :: VpsArgumentValue where
  "zero_value = \<lparr>value_type = VPS_ARGUMENT_TYPE_NONE, value_offset = 0, value_length = 0, value_uint32 = 0,
     value_enum = VPS_ARGUMENT_ENUM_NONE, value_boolean = False, value_present = False\<rparr>"

definition argument_definition ::
    "VpsArgumentId \<Rightarrow> string \<Rightarrow> VpsArgumentType \<Rightarrow> nat \<Rightarrow> bool \<Rightarrow> VpsArgumentDefinition" where
  "argument_definition i name type limit sensitive =
     \<lparr>def_id = i, def_name = name, def_type = type, def_limit = limit, def_sensitive = sensitive\<rparr>"

text \<open>The table, with the identifier of each row.\<close>

definition vps_argument_definitions :: "VpsArgumentDefinition list" where
  "vps_argument_definitions =
     [argument_definition VPS_ARGUMENT_ID_CREDENTIAL_REF ''credential_ref'' VPS_ARGUMENT_TYPE_STRING 255 False,
      argument_definition VPS_ARGUMENT_ID_SERVICE ''service'' VPS_ARGUMENT_TYPE_STRING 255 False,
      argument_definition VPS_ARGUMENT_ID_SERVICE_FILE ''service_file'' VPS_ARGUMENT_TYPE_STRING 1024 False,
      argument_definition VPS_ARGUMENT_ID_PROFILE ''profile'' VPS_ARGUMENT_TYPE_STRING 255 False,
      argument_definition VPS_ARGUMENT_ID_CONNSTR ''connstr'' VPS_ARGUMENT_TYPE_STRING 4096 True,
      argument_definition VPS_ARGUMENT_ID_SOURCE ''source'' VPS_ARGUMENT_TYPE_ENUM 16 False,
      argument_definition VPS_ARGUMENT_ID_SCHEMA ''schema'' VPS_ARGUMENT_TYPE_STRING 255 False,
      argument_definition VPS_ARGUMENT_ID_TABLE ''table'' VPS_ARGUMENT_TYPE_STRING 255 False,
      argument_definition VPS_ARGUMENT_ID_QUERY ''query'' VPS_ARGUMENT_TYPE_STRING VPS_ARGUMENT_VALUE_LIMIT True,
      argument_definition VPS_ARGUMENT_ID_QUERY_PROFILE ''query_profile'' VPS_ARGUMENT_TYPE_STRING 255 False,
      argument_definition VPS_ARGUMENT_ID_MODE ''mode'' VPS_ARGUMENT_TYPE_ENUM 8 False,
      argument_definition VPS_ARGUMENT_ID_ALLOW_VIEW ''allow_view'' VPS_ARGUMENT_TYPE_BOOLEAN 5 False,
      argument_definition VPS_ARGUMENT_ID_ALLOW_MATERIALIZED_VIEW ''allow_materialized_view'' VPS_ARGUMENT_TYPE_BOOLEAN 5 False,
      argument_definition VPS_ARGUMENT_ID_ALLOW_FOREIGN_TABLE ''allow_foreign_table'' VPS_ARGUMENT_TYPE_BOOLEAN 5 False,
      argument_definition VPS_ARGUMENT_ID_KEY_COLUMNS ''key_columns'' VPS_ARGUMENT_TYPE_STRING 2048 False,
      argument_definition VPS_ARGUMENT_ID_OPTIMISTIC_LOCK ''optimistic_lock'' VPS_ARGUMENT_TYPE_STRING 255 False,
      argument_definition VPS_ARGUMENT_ID_VERSION_COLUMN ''version_column'' VPS_ARGUMENT_TYPE_STRING 255 False,
      argument_definition VPS_ARGUMENT_ID_GEOMETRY ''geometry'' VPS_ARGUMENT_TYPE_ENUM 10 False,
      argument_definition VPS_ARGUMENT_ID_SRID ''srid'' VPS_ARGUMENT_TYPE_UINT32 10 False,
      argument_definition VPS_ARGUMENT_ID_CONNECT_TIMEOUT ''connect_timeout'' VPS_ARGUMENT_TYPE_UINT32 10 False,
      argument_definition VPS_ARGUMENT_ID_STATEMENT_TIMEOUT ''statement_timeout'' VPS_ARGUMENT_TYPE_UINT32 10 False,
      argument_definition VPS_ARGUMENT_ID_LOCK_TIMEOUT ''lock_timeout'' VPS_ARGUMENT_TYPE_UINT32 10 False,
      argument_definition VPS_ARGUMENT_ID_POOL_MIN ''pool_min'' VPS_ARGUMENT_TYPE_UINT32 10 False,
      argument_definition VPS_ARGUMENT_ID_POOL_MAX ''pool_max'' VPS_ARGUMENT_TYPE_UINT32 10 False,
      argument_definition VPS_ARGUMENT_ID_POOL_IDLE_TIMEOUT ''pool_idle_timeout'' VPS_ARGUMENT_TYPE_UINT32 10 False,
      argument_definition VPS_ARGUMENT_ID_POOL_WAIT_TIMEOUT ''pool_wait_timeout'' VPS_ARGUMENT_TYPE_UINT32 10 False,
      argument_definition VPS_ARGUMENT_ID_POOL_VALIDATION_INTERVAL ''pool_validation_interval'' VPS_ARGUMENT_TYPE_UINT32 10 False,
      argument_definition VPS_ARGUMENT_ID_POOL_RESET ''pool_reset'' VPS_ARGUMENT_TYPE_ENUM 16 False,
      argument_definition VPS_ARGUMENT_ID_POOL_READONLY_SEPARATE ''pool_readonly_separate'' VPS_ARGUMENT_TYPE_BOOLEAN 5 False,
      argument_definition VPS_ARGUMENT_ID_METADATA_MODE ''metadata_mode'' VPS_ARGUMENT_TYPE_ENUM 8 False,
      argument_definition VPS_ARGUMENT_ID_SCHEMA_POLICY ''schema_policy'' VPS_ARGUMENT_TYPE_ENUM 8 False,
      argument_definition VPS_ARGUMENT_ID_QUERY_INDEXES ''query_indexes'' VPS_ARGUMENT_TYPE_STRING 8192 False,
      argument_definition VPS_ARGUMENT_ID_QUERY_MATERIALIZATION ''query_materialization'' VPS_ARGUMENT_TYPE_ENUM 6 False,
      argument_definition VPS_ARGUMENT_ID_ISOLATION ''isolation'' VPS_ARGUMENT_TYPE_ENUM 16 False,
      argument_definition VPS_ARGUMENT_ID_TRANSACTION_READ_ONLY ''transaction_read_only'' VPS_ARGUMENT_TYPE_BOOLEAN 5 False]"

text \<open>The number of an identifier.\<close>

primrec argument_index :: "VpsArgumentId \<Rightarrow> nat" where
  "argument_index VPS_ARGUMENT_ID_CREDENTIAL_REF = 0"
| "argument_index VPS_ARGUMENT_ID_SERVICE = 1"
| "argument_index VPS_ARGUMENT_ID_SERVICE_FILE = 2"
| "argument_index VPS_ARGUMENT_ID_PROFILE = 3"
| "argument_index VPS_ARGUMENT_ID_CONNSTR = 4"
| "argument_index VPS_ARGUMENT_ID_SOURCE = 5"
| "argument_index VPS_ARGUMENT_ID_SCHEMA = 6"
| "argument_index VPS_ARGUMENT_ID_TABLE = 7"
| "argument_index VPS_ARGUMENT_ID_QUERY = 8"
| "argument_index VPS_ARGUMENT_ID_QUERY_PROFILE = 9"
| "argument_index VPS_ARGUMENT_ID_MODE = 10"
| "argument_index VPS_ARGUMENT_ID_ALLOW_VIEW = 11"
| "argument_index VPS_ARGUMENT_ID_ALLOW_MATERIALIZED_VIEW = 12"
| "argument_index VPS_ARGUMENT_ID_ALLOW_FOREIGN_TABLE = 13"
| "argument_index VPS_ARGUMENT_ID_KEY_COLUMNS = 14"
| "argument_index VPS_ARGUMENT_ID_OPTIMISTIC_LOCK = 15"
| "argument_index VPS_ARGUMENT_ID_VERSION_COLUMN = 16"
| "argument_index VPS_ARGUMENT_ID_GEOMETRY = 17"
| "argument_index VPS_ARGUMENT_ID_SRID = 18"
| "argument_index VPS_ARGUMENT_ID_CONNECT_TIMEOUT = 19"
| "argument_index VPS_ARGUMENT_ID_STATEMENT_TIMEOUT = 20"
| "argument_index VPS_ARGUMENT_ID_LOCK_TIMEOUT = 21"
| "argument_index VPS_ARGUMENT_ID_POOL_MIN = 22"
| "argument_index VPS_ARGUMENT_ID_POOL_MAX = 23"
| "argument_index VPS_ARGUMENT_ID_POOL_IDLE_TIMEOUT = 24"
| "argument_index VPS_ARGUMENT_ID_POOL_WAIT_TIMEOUT = 25"
| "argument_index VPS_ARGUMENT_ID_POOL_VALIDATION_INTERVAL = 26"
| "argument_index VPS_ARGUMENT_ID_POOL_RESET = 27"
| "argument_index VPS_ARGUMENT_ID_POOL_READONLY_SEPARATE = 28"
| "argument_index VPS_ARGUMENT_ID_METADATA_MODE = 29"
| "argument_index VPS_ARGUMENT_ID_SCHEMA_POLICY = 30"
| "argument_index VPS_ARGUMENT_ID_QUERY_INDEXES = 31"
| "argument_index VPS_ARGUMENT_ID_QUERY_MATERIALIZATION = 32"
| "argument_index VPS_ARGUMENT_ID_ISOLATION = 33"
| "argument_index VPS_ARGUMENT_ID_TRANSACTION_READ_ONLY = 34"
| "argument_index VPS_ARGUMENT_ID_UNKNOWN = 255"

definition argument_bit :: "VpsArgumentId \<Rightarrow> u64" where
  "argument_bit i = push_bit (argument_index i) 1"

definition VPS_ARGUMENT_CONNECTION_MODES :: u64 where
  "VPS_ARGUMENT_CONNECTION_MODES =
     argument_bit VPS_ARGUMENT_ID_CREDENTIAL_REF OR argument_bit VPS_ARGUMENT_ID_SERVICE OR
     argument_bit VPS_ARGUMENT_ID_PROFILE OR argument_bit VPS_ARGUMENT_ID_CONNSTR"

section \<open>Names\<close>

definition vps_argument_id_is_valid :: "VpsArgumentId \<Rightarrow> bool" where
  "vps_argument_id_is_valid argument_id \<longleftrightarrow> argument_id \<noteq> VPS_ARGUMENT_ID_UNKNOWN"

definition definition_of :: "VpsArgumentId \<Rightarrow> VpsArgumentDefinition" where
  "definition_of argument_id = vps_argument_definitions ! argument_index argument_id"

definition vps_argument_ascii_lower :: "char \<Rightarrow> char" where
  "vps_argument_ascii_lower c =
     (if char_between (CHR ''A'') (CHR ''Z'') c then char_of (char_code c - 65 + 97) else c)"

definition vps_argument_name_character_is_valid :: "char \<Rightarrow> nat \<Rightarrow> bool" where
  "vps_argument_name_character_is_valid c index \<longleftrightarrow>
     (let c' = vps_argument_ascii_lower c
      in char_between (CHR ''a'') (CHR ''z'') c' \<or>
         index \<noteq> 0 \<and> (char_between (CHR ''0'') (CHR ''9'') c' \<or> c' = CHR ''_''))"

definition vps_argument_find_id :: "string \<Rightarrow> VpsArgumentId" where
  "vps_argument_find_id name =
     (case find (\<lambda>d. def_name d = name) vps_argument_definitions of
        Some d \<Rightarrow> def_id d
      | None \<Rightarrow> VPS_ARGUMENT_ID_UNKNOWN)"

definition vps_argument_name :: "VpsArgumentId \<Rightarrow> string" where
  "vps_argument_name argument_id =
     (if \<not> vps_argument_id_is_valid argument_id then ''unknown'' else def_name (definition_of argument_id))"

definition vps_argument_is_sensitive :: "VpsArgumentId \<Rightarrow> bool" where
  "vps_argument_is_sensitive argument_id \<longleftrightarrow>
     vps_argument_id_is_valid argument_id \<and> def_sensitive (definition_of argument_id)"

fun vps_arguments_result_name :: "VpsArgumentsResult \<Rightarrow> string" where
  "vps_arguments_result_name VPS_ARGUMENTS_OK = ''ok''"
| "vps_arguments_result_name VPS_ARGUMENTS_INVALID_ARGUMENT = ''invalid_argument''"
| "vps_arguments_result_name VPS_ARGUMENTS_UNKNOWN_ARGUMENT = ''unknown_argument''"
| "vps_arguments_result_name VPS_ARGUMENTS_DUPLICATE_ARGUMENT = ''duplicate_argument''"
| "vps_arguments_result_name VPS_ARGUMENTS_MALFORMED = ''malformed''"
| "vps_arguments_result_name VPS_ARGUMENTS_LIMIT_EXCEEDED = ''limit_exceeded''"
| "vps_arguments_result_name VPS_ARGUMENTS_RANGE_ERROR = ''range_error''"
| "vps_arguments_result_name VPS_ARGUMENTS_INCOMPATIBLE = ''incompatible''"
| "vps_arguments_result_name VPS_ARGUMENTS_OUT_OF_MEMORY = ''out_of_memory''"
| "vps_arguments_result_name VPS_ARGUMENTS_CLEANUP_FAILED = ''cleanup_failed''"
| "vps_arguments_result_name (VPS_ARGUMENTS_OUT_OF_RANGE _) = ''unknown''"

section \<open>Values\<close>

definition vps_argument_utf8_is_valid :: "u8 list \<Rightarrow> bool" where
  "vps_argument_utf8_is_valid bytes = utf8_check (\<lambda>_. True) bytes"

definition vps_argument_value_bytes_are_valid :: "string \<Rightarrow> bool" where
  "vps_argument_value_bytes_are_valid text_value \<longleftrightarrow>
     (let bytes = map char_byte text_value
      in \<not> (length bytes = 0 \<or> \<not> vps_argument_utf8_is_valid bytes) \<and>
         list_all (\<lambda>current. \<not> (current = 0 \<or> current < 0x20 \<or> current = 0x7f)) bytes)"

text \<open>The loops of \<open>vps_argument_decode_value\<close>, with what they have written so far.\<close>

fun decode_quoted :: "string \<Rightarrow> string \<Rightarrow> bool \<times> string" where
  "decode_quoted [] out = (True, out)"
| "decode_quoted [c] out = (if c = CHR 0x27 then (False, out) else (True, out @ [c]))"
| "decode_quoted (c # d # rest) out =
     (if c = CHR 0x27
      then if d \<noteq> CHR 0x27 then (False, out) else decode_quoted rest (out @ [d])
      else decode_quoted (d # rest) (out @ [c]))"

fun decode_plain :: "string \<Rightarrow> string \<Rightarrow> bool \<times> string" where
  "decode_plain [] out = (True, out)"
| "decode_plain (c # rest) out = (if c = CHR 0x27 then (False, out) else decode_plain rest (out @ [c]))"

definition vps_argument_decode_value :: "string \<Rightarrow> bool \<times> string" where
  "vps_argument_decode_value input =
     (if input = [] then (False, [])
      else
        case (if hd input = CHR 0x27
              then if length input < 2 \<or> last input \<noteq> CHR 0x27 then (False, [])
                   else decode_quoted (butlast (tl input)) []
              else decode_plain input []) of
          (ok, out) \<Rightarrow> (ok \<and> vps_argument_value_bytes_are_valid out, out))"

fun argument_digits :: "u32 \<Rightarrow> string \<Rightarrow> u32 option" where
  "argument_digits result [] = Some result"
| "argument_digits result (c # rest) =
     (if \<not> c_isdigit c then None
      else let digit = of_nat (char_code c - 48)
           in if result > (4294967295 - digit) div 10 then None
              else argument_digits (result * 10 + digit) rest)"

definition vps_argument_parse_uint32 :: "string \<Rightarrow> u32 option" where
  "vps_argument_parse_uint32 s = (if s = [] then None else argument_digits 0 s)"

definition vps_argument_parse_boolean :: "string \<Rightarrow> bool option" where
  "vps_argument_parse_boolean s =
     (if s = ''true'' then Some True else if s = ''false'' then Some False else None)"

definition argument_enum_values :: "VpsArgumentId \<Rightarrow> (string \<times> VpsArgumentEnumValue) list" where
  "argument_enum_values argument_id =
     (if argument_id = VPS_ARGUMENT_ID_SOURCE then
           [(''table'', VPS_ARGUMENT_ENUM_SOURCE_TABLE), (''query'', VPS_ARGUMENT_ENUM_SOURCE_QUERY)]
      else if argument_id = VPS_ARGUMENT_ID_MODE then
           [(''ro'', VPS_ARGUMENT_ENUM_MODE_RO), (''rw'', VPS_ARGUMENT_ENUM_MODE_RW)]
      else if argument_id = VPS_ARGUMENT_ID_GEOMETRY then
           [(''wkt'', VPS_ARGUMENT_ENUM_GEOMETRY_WKT), (''wkb'', VPS_ARGUMENT_ENUM_GEOMETRY_WKB),
            (''ewkt'', VPS_ARGUMENT_ENUM_GEOMETRY_EWKT), (''ewkb'', VPS_ARGUMENT_ENUM_GEOMETRY_EWKB),
            (''spatialite'', VPS_ARGUMENT_ENUM_GEOMETRY_SPATIALITE), (''none'', VPS_ARGUMENT_ENUM_GEOMETRY_NONE)]
      else if argument_id = VPS_ARGUMENT_ID_POOL_RESET then
           [(''discard_all'', VPS_ARGUMENT_ENUM_POOL_DISCARD_ALL), (''strict_reset'', VPS_ARGUMENT_ENUM_POOL_STRICT_RESET)]
      else if argument_id = VPS_ARGUMENT_ID_METADATA_MODE then
           [(''live'', VPS_ARGUMENT_ENUM_METADATA_LIVE), (''cached'', VPS_ARGUMENT_ENUM_METADATA_CACHED)]
      else if argument_id = VPS_ARGUMENT_ID_SCHEMA_POLICY then
           [(''strict'', VPS_ARGUMENT_ENUM_SCHEMA_STRICT), (''refresh'', VPS_ARGUMENT_ENUM_SCHEMA_REFRESH)]
      else if argument_id = VPS_ARGUMENT_ID_QUERY_MATERIALIZATION then
           [(''off'', VPS_ARGUMENT_ENUM_MATERIALIZATION_OFF), (''memory'', VPS_ARGUMENT_ENUM_MATERIALIZATION_MEMORY),
            (''temp'', VPS_ARGUMENT_ENUM_MATERIALIZATION_TEMP)]
      else if argument_id = VPS_ARGUMENT_ID_ISOLATION then
           [(''read_committed'', VPS_ARGUMENT_ENUM_ISOLATION_READ_COMMITTED),
            (''repeatable_read'', VPS_ARGUMENT_ENUM_ISOLATION_REPEATABLE_READ),
            (''serializable'', VPS_ARGUMENT_ENUM_ISOLATION_SERIALIZABLE)]
      else [])"

definition vps_argument_parse_enum :: "VpsArgumentId \<Rightarrow> string \<Rightarrow> VpsArgumentEnumValue option" where
  "vps_argument_parse_enum argument_id s = map_of (argument_enum_values argument_id) s"

section \<open>One argument\<close>

definition vps_arguments_set_diagnostic ::
    "VpsArgumentsResult \<Rightarrow> VpsArgumentId \<Rightarrow> u64 \<Rightarrow> VpsArgumentsDiagnostic" where
  "vps_arguments_set_diagnostic result argument_id presence =
     \<lparr>diag_result = result, diag_argument_id = argument_id, diag_presence = presence,
      diag_sensitive = vps_argument_is_sensitive argument_id\<rparr>"

definition vps_arguments_log ::
    "VpsArgumentsDiagnostic \<Rightarrow> ('w, 'p, 'c) services \<Rightarrow> ('w, 'p, 'c) services" where
  "vps_arguments_log diagnostic s =
     s\<lparr>srv_logger := log_emit_strict (srv_logger s)
        (if diag_result diagnostic = VPS_ARGUMENTS_OK then VPS_LOG_LEVEL_DEBUG else VPS_LOG_LEVEL_WARN)
        [LogStr VPS_LOG_FIELD_OPERATION ''argument_parser'',
         LogStr VPS_LOG_FIELD_PHASE ''validation'',
         LogStr VPS_LOG_FIELD_ARGUMENT (vps_argument_name (diag_argument_id diagnostic)),
         LogNum VPS_LOG_FIELD_PRESENCE_MASK (diag_presence diagnostic),
         LogStr VPS_LOG_FIELD_STATUS (vps_arguments_result_name (diag_result diagnostic))]\<rparr>"

definition trim_left :: "string \<Rightarrow> string" where
  "trim_left s = dropWhile (\<lambda>c. c = CHR '' '') s"

definition trim_right :: "string \<Rightarrow> string" where
  "trim_right s = rev (dropWhile (\<lambda>c. c = CHR '' '') (rev s))"

text \<open>The name and the value of an input, still as written.\<close>

definition argument_split :: "string \<Rightarrow> (string \<times> string) option" where
  "argument_split input =
     (let s = trim_right (trim_left input);
          before = takeWhile (\<lambda>c. c \<noteq> CHR ''='') s
      in if before = [] \<or> length before = length s then None
         else
           let name = trim_right before;
               value' = trim_right (trim_left (drop (length before + 1) s))
           in if name = [] \<or> length name > VPS_ARGUMENT_NAME_LIMIT \<or> value' = [] then None
              else if \<not> list_all (\<lambda>(i, c). vps_argument_name_character_is_valid c i) (zip [0..<length name] name)
              then None
              else Some (map vps_argument_ascii_lower name, value'))"

text \<open>The typed value of a decoded text, or the error its type gives.\<close>

definition argument_typed ::
    "VpsArgumentId \<Rightarrow> size_t \<Rightarrow> string \<Rightarrow> VpsArgumentsResult + VpsArgumentValue" where
  "argument_typed argument_id offset decoded =
     (let d = definition_of argument_id;
          v = zero_value\<lparr>value_type := def_type d, value_offset := offset,
                value_length := of_nat (length decoded), value_present := True\<rparr>
      in if def_type d = VPS_ARGUMENT_TYPE_UINT32
         then (case vps_argument_parse_uint32 decoded of
                 None \<Rightarrow> Inl VPS_ARGUMENTS_RANGE_ERROR | Some n \<Rightarrow> Inr (v\<lparr>value_uint32 := n\<rparr>))
         else if def_type d = VPS_ARGUMENT_TYPE_BOOLEAN
         then (case vps_argument_parse_boolean decoded of
                 None \<Rightarrow> Inl VPS_ARGUMENTS_MALFORMED | Some b \<Rightarrow> Inr (v\<lparr>value_boolean := b\<rparr>))
         else if def_type d = VPS_ARGUMENT_TYPE_ENUM
         then (case vps_argument_parse_enum argument_id decoded of
                 None \<Rightarrow> Inl VPS_ARGUMENTS_MALFORMED | Some e \<Rightarrow> Inr (v\<lparr>value_enum := e\<rparr>))
         else Inr v)"

definition vps_arguments_parse_one ::
    "('w, 'p) VpsParsedArguments \<Rightarrow> string \<Rightarrow> size_t \<Rightarrow>
     VpsArgumentsResult \<times> ('w, 'p) VpsParsedArguments \<times> size_t \<times> VpsArgumentsDiagnostic" where
  "vps_arguments_parse_one parsed input storage_offset =
     (let fail = (\<lambda>result argument_id parsed'.
            (result, parsed', storage_offset,
             vps_arguments_set_diagnostic result argument_id (args_presence parsed')))
      in case argument_split input of
           None \<Rightarrow> fail VPS_ARGUMENTS_MALFORMED VPS_ARGUMENT_ID_UNKNOWN parsed
         | Some (name, raw) \<Rightarrow>
             let argument_id = vps_argument_find_id name
             in if \<not> vps_argument_id_is_valid argument_id
                then fail VPS_ARGUMENTS_UNKNOWN_ARGUMENT VPS_ARGUMENT_ID_UNKNOWN parsed
                else if argument_index argument_id \<ge> 64 \<or>
                        argument_index argument_id \<ge> length vps_argument_definitions
                then fail VPS_ARGUMENTS_MALFORMED argument_id parsed
                else if args_presence parsed AND argument_bit argument_id \<noteq> 0
                then fail VPS_ARGUMENTS_DUPLICATE_ARGUMENT argument_id parsed
                else
                  case vps_argument_decode_value raw of
                    (ok, decoded) \<Rightarrow>
                      let bytes = map char_byte decoded @ (if ok then [0] else []);
                          written = parsed\<lparr>args_storage :=
                            sensitive_write (args_storage parsed) (unat storage_offset) bytes\<rparr>
                      in if \<not> ok then fail VPS_ARGUMENTS_MALFORMED argument_id written
                         else if length decoded > def_limit (definition_of argument_id)
                         then fail VPS_ARGUMENTS_LIMIT_EXCEEDED argument_id written
                         else case argument_typed argument_id storage_offset decoded of
                           Inl result \<Rightarrow> fail result argument_id written
                         | Inr v \<Rightarrow>
                             let parsed' = written\<lparr>args_values := (args_values written)(argument_id := v),
                                   args_presence := args_presence written OR argument_bit argument_id\<rparr>
                             in (VPS_ARGUMENTS_OK, parsed', storage_offset + of_nat (length decoded) + 1,
                                 vps_arguments_set_diagnostic VPS_ARGUMENTS_OK argument_id (args_presence parsed')))"

section \<open>Combinations\<close>

text \<open>Exactly one bit of a mask.\<close>

definition single_bit :: "u64 \<Rightarrow> bool" where
  "single_bit m \<longleftrightarrow> \<not> (m = 0 \<or> m AND (m - 1) \<noteq> 0)"

definition argument_source_fits :: "('w, 'p) VpsParsedArguments \<Rightarrow> bool" where
  "argument_source_fits arguments \<longleftrightarrow>
     (let presence = args_presence arguments;
          mode = args_values arguments VPS_ARGUMENT_ID_MODE;
          relation = argument_bit VPS_ARGUMENT_ID_SCHEMA OR argument_bit VPS_ARGUMENT_ID_TABLE;
          query = argument_bit VPS_ARGUMENT_ID_QUERY OR argument_bit VPS_ARGUMENT_ID_QUERY_PROFILE
      in if value_enum (args_values arguments VPS_ARGUMENT_ID_SOURCE) = VPS_ARGUMENT_ENUM_SOURCE_TABLE
         then \<not> (presence AND relation \<noteq> relation \<or> presence AND query \<noteq> 0)
         else \<not> (\<not> single_bit (presence AND query) \<or>
                 presence AND (relation OR argument_bit VPS_ARGUMENT_ID_ALLOW_VIEW OR
                   argument_bit VPS_ARGUMENT_ID_ALLOW_MATERIALIZED_VIEW OR
                   argument_bit VPS_ARGUMENT_ID_ALLOW_FOREIGN_TABLE) \<noteq> 0 \<or>
                 value_present mode \<and> value_enum mode = VPS_ARGUMENT_ENUM_MODE_RW))"

definition argument_pool_fits :: "('w, 'p) VpsParsedArguments \<Rightarrow> bool" where
  "argument_pool_fits arguments \<longleftrightarrow>
     \<not> (value_present (args_values arguments VPS_ARGUMENT_ID_POOL_MIN) \<and>
        value_present (args_values arguments VPS_ARGUMENT_ID_POOL_MAX) \<and>
        value_uint32 (args_values arguments VPS_ARGUMENT_ID_POOL_MIN) >
          value_uint32 (args_values arguments VPS_ARGUMENT_ID_POOL_MAX))"

definition vps_arguments_validate_combinations ::
    "('w, 'p) VpsParsedArguments \<Rightarrow> VpsArgumentsDiagnostic \<Rightarrow> VpsArgumentsResult \<times> VpsArgumentsDiagnostic" where
  "vps_arguments_validate_combinations arguments diagnostic =
     (let presence = args_presence arguments;
          fail = (\<lambda>argument_id. (VPS_ARGUMENTS_INCOMPATIBLE,
            vps_arguments_set_diagnostic VPS_ARGUMENTS_INCOMPATIBLE argument_id presence))
      in if \<not> single_bit (presence AND VPS_ARGUMENT_CONNECTION_MODES) then fail VPS_ARGUMENT_ID_UNKNOWN
         else if \<not> value_present (args_values arguments VPS_ARGUMENT_ID_SOURCE) then fail VPS_ARGUMENT_ID_SOURCE
         else if presence AND argument_bit VPS_ARGUMENT_ID_SERVICE_FILE \<noteq> 0 \<and>
                 presence AND argument_bit VPS_ARGUMENT_ID_SERVICE = 0
         then fail VPS_ARGUMENT_ID_SERVICE_FILE
         else if \<not> argument_source_fits arguments then fail VPS_ARGUMENT_ID_SOURCE
         else if \<not> argument_pool_fits arguments then fail VPS_ARGUMENT_ID_POOL_MIN
         else if value_enum (args_values arguments VPS_ARGUMENT_ID_SOURCE) \<noteq> VPS_ARGUMENT_ENUM_SOURCE_QUERY \<and>
                 presence AND (argument_bit VPS_ARGUMENT_ID_QUERY_INDEXES OR
                   argument_bit VPS_ARGUMENT_ID_QUERY_MATERIALIZATION) \<noteq> 0
         then fail VPS_ARGUMENT_ID_QUERY_MATERIALIZATION
         else (VPS_ARGUMENTS_OK, diagnostic))"

section \<open>The parser\<close>

definition vps_arguments_init ::
    "'w VpsAllocator option \<Rightarrow> 'p VpsPlatformOperations option \<Rightarrow>
     VpsArgumentsResult \<times> ('w, 'p) VpsParsedArguments option" where
  "vps_arguments_init allocator operations =
     (case vps_sensitive_memory_init allocator operations of
        (VPS_SECURE_MEMORY_OK, Some m) \<Rightarrow>
          (VPS_ARGUMENTS_OK, Some \<lparr>args_storage = m, args_values = (\<lambda>_. zero_value), args_presence = 0,
             args_initialized = True\<rparr>)
      | _ \<Rightarrow> (VPS_ARGUMENTS_INVALID_ARGUMENT, None))"

text \<open>The bytes all inputs need, \<open>None\<close> when one of them or their total is beyond its limit.\<close>

fun arguments_total :: "string option list \<Rightarrow> size_t \<Rightarrow> size_t option" where
  "arguments_total [] total_size = Some total_size"
| "arguments_total (input # inputs) total_size =
     (if input = None \<or> length (the input) = 0 \<or> length (the input) > VPS_ARGUMENT_VALUE_LIMIT then None
      else case vps_size_add (of_nat (length (the input))) 1 of
        (VPS_MEMORY_OK, Some required) \<Rightarrow>
          (case vps_size_add total_size required of
             (VPS_MEMORY_OK, Some total_size') \<Rightarrow>
               if unat total_size' > VPS_ARGUMENT_TOTAL_LIMIT then None else arguments_total inputs total_size'
           | _ \<Rightarrow> None)
      | _ \<Rightarrow> None)"

fun arguments_parse_all ::
    "string list \<Rightarrow> ('w, 'p) VpsParsedArguments \<Rightarrow> size_t \<Rightarrow> VpsArgumentsDiagnostic \<Rightarrow> ('w, 'p, 'c) services \<Rightarrow>
     VpsArgumentsResult \<times> ('w, 'p) VpsParsedArguments \<times> VpsArgumentsDiagnostic \<times> ('w, 'p, 'c) services" where
  "arguments_parse_all [] parsed offset diagnostic s = (VPS_ARGUMENTS_OK, parsed, diagnostic, s)"
| "arguments_parse_all (input # inputs) parsed offset diagnostic s =
     (case vps_arguments_parse_one parsed input offset of
        (result, parsed', offset', diagnostic') \<Rightarrow>
          if result \<noteq> VPS_ARGUMENTS_OK then (result, parsed', diagnostic', s)
          else arguments_parse_all inputs parsed' offset' diagnostic' (vps_arguments_log diagnostic' s))"

text \<open>The label \<open>replacement_done\<close>: the replacement is wiped and freed.\<close>

definition arguments_discard ::
    "('w, 'p) VpsParsedArguments \<Rightarrow> ('w, 'p) VpsParsedArguments \<Rightarrow> VpsArgumentsResult \<Rightarrow> VpsArgumentsDiagnostic \<Rightarrow>
     ('w, 'p, 'c) services \<Rightarrow>
     VpsArgumentsResult \<times> ('w, 'p) VpsParsedArguments \<times> VpsArgumentsDiagnostic \<times> ('w, 'p, 'c) services" where
  "arguments_discard arguments replacement result diagnostic s =
     (case vps_sensitive_memory_release (args_storage replacement) s of
        (secure_result, _, s') \<Rightarrow>
          if secure_result \<noteq> VPS_SECURE_MEMORY_OK
          then (VPS_ARGUMENTS_CLEANUP_FAILED, arguments,
                vps_arguments_set_diagnostic VPS_ARGUMENTS_CLEANUP_FAILED VPS_ARGUMENT_ID_UNKNOWN
                  (args_presence arguments), s')
          else (result, arguments, diagnostic, s'))"

definition arguments_install ::
    "('w, 'p) VpsParsedArguments \<Rightarrow> ('w, 'p) VpsParsedArguments \<Rightarrow> ('w, 'p, 'c) services \<Rightarrow>
     VpsArgumentsResult \<times> ('w, 'p) VpsParsedArguments \<times> VpsArgumentsDiagnostic \<times> ('w, 'p, 'c) services" where
  "arguments_install arguments replacement s =
     (case vps_sensitive_memory_release (args_storage arguments) s of
        (secure_result, storage, s') \<Rightarrow>
          if secure_result \<noteq> VPS_SECURE_MEMORY_OK
          then arguments_discard (arguments\<lparr>args_storage := storage\<rparr>) replacement VPS_ARGUMENTS_CLEANUP_FAILED
                 (vps_arguments_set_diagnostic VPS_ARGUMENTS_CLEANUP_FAILED VPS_ARGUMENT_ID_UNKNOWN
                    (args_presence arguments)) s'
          else (VPS_ARGUMENTS_OK, replacement,
                vps_arguments_set_diagnostic VPS_ARGUMENTS_OK VPS_ARGUMENT_ID_UNKNOWN (args_presence replacement), s'))"

definition arguments_replace ::
    "('w, 'p) VpsParsedArguments \<Rightarrow> string list \<Rightarrow> size_t \<Rightarrow> VpsArgumentsDiagnostic \<Rightarrow> ('w, 'p, 'c) services \<Rightarrow>
     VpsArgumentsResult \<times> ('w, 'p) VpsParsedArguments \<times> VpsArgumentsDiagnostic \<times> ('w, 'p, 'c) services" where
  "arguments_replace arguments inputs total_size diagnostic s =
     (case vps_arguments_init (Some (owned_allocator (sens_storage (args_storage arguments))))
             (sens_operations (args_storage arguments)) of
        (VPS_ARGUMENTS_OK, Some replacement) \<Rightarrow>
          (case vps_sensitive_memory_allocate (args_storage replacement) total_size s of
             (secure_result, storage, s1) \<Rightarrow>
               if secure_result \<noteq> VPS_SECURE_MEMORY_OK
               then let result = (if secure_result = VPS_SECURE_MEMORY_OUT_OF_MEMORY
                          then VPS_ARGUMENTS_OUT_OF_MEMORY else VPS_ARGUMENTS_INVALID_ARGUMENT)
                    in arguments_discard arguments (replacement\<lparr>args_storage := storage\<rparr>) result
                         (vps_arguments_set_diagnostic result VPS_ARGUMENT_ID_UNKNOWN 0) s1
               else
                 let cleared = replacement\<lparr>args_storage :=
                       sensitive_write storage 0 (replicate (unat total_size) 0)\<rparr>
                 in case arguments_parse_all inputs cleared 0 diagnostic s1 of
                      (result, parsed, diagnostic', s2) \<Rightarrow>
                        if result \<noteq> VPS_ARGUMENTS_OK
                        then arguments_discard arguments parsed result diagnostic' s2
                        else case vps_arguments_validate_combinations parsed diagnostic' of
                          (result', diagnostic'') \<Rightarrow>
                            if result' \<noteq> VPS_ARGUMENTS_OK
                            then arguments_discard arguments parsed result' diagnostic'' s2
                            else arguments_install arguments parsed s2)
      | _ \<Rightarrow> (VPS_ARGUMENTS_INVALID_ARGUMENT, arguments, diagnostic, s))"

definition vps_arguments_parse ::
    "('w, 'p) VpsParsedArguments \<Rightarrow> string option list option \<Rightarrow> ('w, 'p, 'c) services \<Rightarrow>
     VpsArgumentsResult \<times> ('w, 'p) VpsParsedArguments \<times> VpsArgumentsDiagnostic \<times> ('w, 'p, 'c) services" where
  "vps_arguments_parse arguments inputs s =
     (if \<not> args_initialized arguments \<or> inputs = None \<or> length (the inputs) = 0 \<or>
         length (the inputs) > VPS_ARGUMENT_MAX_COUNT
      then (VPS_ARGUMENTS_INVALID_ARGUMENT, arguments,
            vps_arguments_set_diagnostic VPS_ARGUMENTS_INVALID_ARGUMENT VPS_ARGUMENT_ID_UNKNOWN 0, s)
      else
        case (case arguments_total (the inputs) 0 of
                None \<Rightarrow> (VPS_ARGUMENTS_LIMIT_EXCEEDED, arguments,
                         vps_arguments_set_diagnostic VPS_ARGUMENTS_LIMIT_EXCEEDED VPS_ARGUMENT_ID_UNKNOWN 0, s)
              | Some total_size \<Rightarrow>
                  arguments_replace arguments (map the (the inputs)) total_size
                    (vps_arguments_set_diagnostic VPS_ARGUMENTS_OK VPS_ARGUMENT_ID_UNKNOWN 0) s) of
          (result, arguments', diagnostic, s') \<Rightarrow>
            (result, arguments', diagnostic, vps_arguments_log diagnostic s'))"

definition vps_arguments_reset ::
    "('w, 'p) VpsParsedArguments \<Rightarrow> ('w, 'p, 'c) services \<Rightarrow>
     VpsArgumentsResult \<times> ('w, 'p) VpsParsedArguments \<times> ('w, 'p, 'c) services" where
  "vps_arguments_reset arguments s =
     (if \<not> args_initialized arguments then (VPS_ARGUMENTS_INVALID_ARGUMENT, arguments, s)
      else case vps_sensitive_memory_release (args_storage arguments) s of
        (secure_result, storage, s') \<Rightarrow>
          if secure_result \<noteq> VPS_SECURE_MEMORY_OK
          then (VPS_ARGUMENTS_CLEANUP_FAILED, arguments\<lparr>args_storage := storage\<rparr>, s')
          else (VPS_ARGUMENTS_OK,
                arguments\<lparr>args_storage := storage, args_values := (\<lambda>_. zero_value), args_presence := 0\<rparr>, s'))"

definition vps_arguments_get :: "('w, 'p) VpsParsedArguments \<Rightarrow> VpsArgumentId \<Rightarrow> VpsArgumentValue option" where
  "vps_arguments_get arguments argument_id =
     (if \<not> args_initialized arguments \<or> \<not> vps_argument_id_is_valid argument_id \<or>
         \<not> value_present (args_values arguments argument_id)
      then None else Some (args_values arguments argument_id))"

text \<open>The bytes from the start of the text to the end of the block, and the length of the text.\<close>

definition vps_argument_text :: "('w, 'p) VpsParsedArguments \<Rightarrow> VpsArgumentId \<Rightarrow> (u8 list \<times> size_t) option" where
  "vps_argument_text arguments argument_id =
     (case vps_arguments_get arguments argument_id of
        None \<Rightarrow> None
      | Some v \<Rightarrow>
          let storage = sens_storage (args_storage arguments)
          in if owned_memory storage = None \<or> value_offset v > owned_size storage \<or>
                value_length v \<ge> owned_size storage - value_offset v
             then None
             else Some (drop (unat (value_offset v)) (the (owned_memory storage)), value_length v))"

section \<open>Identifiers\<close>

lemma argument_definitions_index: "i \<noteq> VPS_ARGUMENT_ID_UNKNOWN \<Longrightarrow>
    argument_index i < 35 \<and> def_id (vps_argument_definitions ! argument_index i) = i"
  by (cases i) (simp_all add: vps_argument_definitions_def argument_definition_def)

lemma length_argument_definitions [simp]: "length vps_argument_definitions = 35"
  by (simp add: vps_argument_definitions_def)

lemma argument_index_less: "i \<noteq> VPS_ARGUMENT_ID_UNKNOWN \<Longrightarrow> argument_index i < 35"
  using argument_definitions_index by blast

lemma argument_index_inject:
  "i \<noteq> VPS_ARGUMENT_ID_UNKNOWN \<Longrightarrow> j \<noteq> VPS_ARGUMENT_ID_UNKNOWN \<Longrightarrow> argument_index i = argument_index j \<longleftrightarrow> i = j"
  using argument_definitions_index by metis

lemma bit_argument_bit: "i \<noteq> VPS_ARGUMENT_ID_UNKNOWN \<Longrightarrow> bit (argument_bit i) n \<longleftrightarrow> n = argument_index i"
  using argument_index_less [of i] by (auto simp: argument_bit_def bit_simps)

lemma no_bits: "(w :: u64) = 0 \<longleftrightarrow> (\<forall>n. \<not> bit w n)"
proof
  show "w = 0" if "\<forall>n. \<not> bit w n" using that by (intro bit_eqI) simp
qed simp

lemma and_argument_bit:
  assumes "i \<noteq> VPS_ARGUMENT_ID_UNKNOWN"
  shows "p AND argument_bit i = 0 \<longleftrightarrow> \<not> bit p (argument_index i)"
  unfolding no_bits by (auto simp: bit_and_iff bit_argument_bit [OF assms])

lemma and_or_zero: "(p :: u64) AND (a OR b) = 0 \<longleftrightarrow> p AND a = 0 \<and> p AND b = 0"
  by (simp add: bit.conj_disj_distrib or_eq_0_iff)

text \<open>The test for a mask of one bit.\<close>

lemma dec_keeps_upper_bit:
  fixes n :: nat
  assumes "bit n k" "bit n j" "j < k"
  shows "bit (n - 1) k"
proof -
  have "bit (take_bit k n) j" using assms by (simp add: bit_take_bit_iff)
  then have r: "n mod 2 ^ k \<noteq> 0" by (metis bit_0_eq bot_apply bot_bool_def take_bit_eq_mod)
  have "n - 1 = n div 2 ^ k * 2 ^ k + (n mod 2 ^ k - 1)"
    using r by (metis Nat.add_diff_assoc Suc_leI One_nat_def div_mult_mod_eq neq0_conv)
  moreover have "n mod 2 ^ k - 1 < 2 ^ k"
    by (metis less_imp_diff_less mod_less_divisor zero_less_numeral zero_less_power)
  ultimately have "(n - 1) div 2 ^ k = n div 2 ^ k"
    by (metis add.right_neutral div_less div_mult_self3 nat_less_le zero_less_power zero_less_numeral less_irrefl)
  then show ?thesis using assms(1) by (simp add: bit_iff_odd)
qed

lemma single_bit_iff: "single_bit m \<longleftrightarrow> (\<exists>!n. bit m n)"
proof
  assume s: "single_bit m"
  then obtain j where j: "bit m j" by (auto simp: single_bit_def no_bits)
  have low: False if "bit m a" "bit m b" "a < b" for a b
  proof -
    have "unat (m - 1) = unat m - 1" using s by (intro unat_minus_one) (auto simp: single_bit_def)
    moreover have "bit (unat m - 1) b" using dec_keeps_upper_bit [of "unat m" b a] that by (simp add: bit_unsigned_iff)
    ultimately have "bit (m - 1) b" by (metis bit_unsigned_iff)
    with that(2) s show False unfolding single_bit_def no_bits by (auto simp: bit_and_iff)
  qed
  with j show "\<exists>!n. bit m n" by (metis linorder_neqE_nat)
next
  assume "\<exists>!n. bit m n"
  then obtain k where k: "bit m k" "\<And>n. bit m n \<Longrightarrow> n = k" by blast
  from bit_imp_le_length [OF k(1)] have "k < 64" by simp
  have m: "m = push_bit k 1"
  proof (rule bit_eqI)
    show "bit m n = bit (push_bit k 1 :: u64) n" for n
      using k(1) k(2) [of n] \<open>k < 64\<close> by (auto simp: bit_simps)
  qed
  have "m - 1 = mask k" by (simp add: m mask_eq_exp_minus_1 push_bit_eq_mult)
  then have "m AND (m - 1) = 0" by (simp only: no_bits) (auto simp: m bit_simps)
  then show "single_bit m" using k(1) by (auto simp: single_bit_def)
qed

lemma or_argument_bit:
  "i \<noteq> VPS_ARGUMENT_ID_UNKNOWN \<Longrightarrow> j \<noteq> VPS_ARGUMENT_ID_UNKNOWN \<Longrightarrow>
   bit (p OR argument_bit i) (argument_index j) \<longleftrightarrow> bit p (argument_index j) \<or> j = i"
  using bit_argument_bit [of i] by (auto simp: bit_simps argument_index_inject)

section \<open>The specification\<close>

text \<open>What an input says: the argument it names and its text.\<close>

definition read_argument :: "string \<Rightarrow> (VpsArgumentId \<times> string) option" where
  "read_argument input =
     (case argument_split input of
        None \<Rightarrow> None
      | Some (name, raw) \<Rightarrow>
          let i = vps_argument_find_id name
          in case vps_argument_decode_value raw of
               (ok, decoded) \<Rightarrow>
                 if i \<noteq> VPS_ARGUMENT_ID_UNKNOWN \<and> ok \<and> length decoded \<le> def_limit (definition_of i) \<and>
                    \<not> isl (argument_typed i 0 decoded)
                 then Some (i, decoded) else None)"

text \<open>A list of inputs as a finite map: every input is read, and no argument is given twice.\<close>

fun read_arguments :: "string list \<Rightarrow> (VpsArgumentId \<rightharpoonup> string) \<Rightarrow> (VpsArgumentId \<rightharpoonup> string) option" where
  "read_arguments [] given = Some given"
| "read_arguments (input # inputs) given =
     (case read_argument input of
        None \<Rightarrow> None
      | Some (i, t) \<Rightarrow> if given i \<noteq> None then None else read_arguments inputs (given(i \<mapsto> t)))"

text \<open>The same conditions as in the code, on the map.\<close>

definition combination_ok :: "(VpsArgumentId \<rightharpoonup> string) \<Rightarrow> bool" where
  "combination_ok given \<longleftrightarrow>
     (\<exists>!i. i \<in> dom given \<and> i \<in> {VPS_ARGUMENT_ID_CREDENTIAL_REF, VPS_ARGUMENT_ID_SERVICE, VPS_ARGUMENT_ID_PROFILE,
        VPS_ARGUMENT_ID_CONNSTR}) \<and>
     VPS_ARGUMENT_ID_SOURCE \<in> dom given \<and>
     (VPS_ARGUMENT_ID_SERVICE_FILE \<in> dom given \<longrightarrow> VPS_ARGUMENT_ID_SERVICE \<in> dom given) \<and>
     (if given VPS_ARGUMENT_ID_SOURCE = Some ''table''
      then {VPS_ARGUMENT_ID_SCHEMA, VPS_ARGUMENT_ID_TABLE} \<subseteq> dom given \<and>
        dom given \<inter> {VPS_ARGUMENT_ID_QUERY, VPS_ARGUMENT_ID_QUERY_PROFILE, VPS_ARGUMENT_ID_QUERY_INDEXES,
          VPS_ARGUMENT_ID_QUERY_MATERIALIZATION} = {}
      else given VPS_ARGUMENT_ID_SOURCE = Some ''query'' \<and>
        (\<exists>!i. i \<in> dom given \<and> i \<in> {VPS_ARGUMENT_ID_QUERY, VPS_ARGUMENT_ID_QUERY_PROFILE}) \<and>
        dom given \<inter> {VPS_ARGUMENT_ID_SCHEMA, VPS_ARGUMENT_ID_TABLE, VPS_ARGUMENT_ID_ALLOW_VIEW,
          VPS_ARGUMENT_ID_ALLOW_MATERIALIZED_VIEW, VPS_ARGUMENT_ID_ALLOW_FOREIGN_TABLE} = {} \<and>
        given VPS_ARGUMENT_ID_MODE \<noteq> Some ''rw'') \<and>
     (\<forall>lo hi. Option.bind (given VPS_ARGUMENT_ID_POOL_MIN) vps_argument_parse_uint32 = Some lo \<longrightarrow>
        Option.bind (given VPS_ARGUMENT_ID_POOL_MAX) vps_argument_parse_uint32 = Some hi \<longrightarrow> lo \<le> hi)"

section \<open>One argument\<close>

lemma length_trim: "length (trim_left s) \<le> length s" "length (trim_right s) \<le> length s"
  by (simp_all add: trim_left_def trim_right_def length_dropWhile_le) (metis length_dropWhile_le length_rev)

lemma argument_split_length: "argument_split input = Some (name, raw) \<Longrightarrow> length raw < length input"
proof -
  assume split: "argument_split input = Some (name, raw)"
  let ?s = "trim_right (trim_left input)" and ?n = "length (takeWhile (\<lambda>c. c \<noteq> CHR ''='') (trim_right (trim_left input)))"
  from split have n: "?n \<noteq> length ?s" and raw: "raw = trim_right (trim_left (drop (?n + 1) ?s))"
    by (auto simp: argument_split_def Let_def split: if_splits)
  have "?n < length ?s" using n length_takeWhile_le [of _ ?s] by (simp add: nat_less_le)
  have "length raw \<le> length (drop (?n + 1) ?s)"
    unfolding raw by (rule order_trans [OF length_trim(2) length_trim(1)])
  also have "\<dots> < length ?s" using \<open>?n < length ?s\<close> by simp
  also have "\<dots> \<le> length input" by (rule order_trans [OF length_trim(2) length_trim(1)])
  finally show ?thesis .
qed

lemma length_decode_quoted: "length (snd (decode_quoted s out)) \<le> length s + length out"
  by (induction s out rule: decode_quoted.induct) auto

lemma length_decode_plain: "length (snd (decode_plain s out)) \<le> length s + length out"
  by (induction s out rule: decode_plain.induct) auto

lemma length_decode: "vps_argument_decode_value raw = (ok, out) \<Longrightarrow> length out \<le> length raw"
  using length_decode_quoted [of "butlast (tl raw)" "[]"] length_decode_plain [of raw "[]"]
  by (auto simp: vps_argument_decode_value_def split: if_splits prod.splits)

lemma argument_typed_value:
  "argument_typed i offset t = Inr v \<Longrightarrow>
     value_offset v = offset \<and> value_length v = of_nat (length t) \<and> value_present v \<and> value_type v = def_type (definition_of i)"
  by (auto simp: argument_typed_def Let_def split: if_splits option.splits)

lemma argument_typed_isl: "isl (argument_typed i offset t) = isl (argument_typed i 0 t)"
  by (auto simp: argument_typed_def Let_def split: option.splits)

text \<open>The parsed values hold what was given: each text stands in the used part of the block, with its terminator, and
  the value is the one its type gives.\<close>

definition value_holds :: "VpsArgumentId \<Rightarrow> VpsArgumentValue \<Rightarrow> u8 list \<Rightarrow> nat \<Rightarrow> string option \<Rightarrow> bool" where
  "value_holds i v d used given_text =
     (case given_text of
        None \<Rightarrow> \<not> value_present v
      | Some t \<Rightarrow> argument_typed i (value_offset v) t = Inr v \<and> unat (value_offset v) + length t + 1 \<le> used \<and>
          take (length t + 1) (drop (unat (value_offset v)) d) = c_bytes t)"

definition args_hold :: "('w, 'p) VpsParsedArguments \<Rightarrow> (VpsArgumentId \<rightharpoonup> string) \<Rightarrow> nat \<Rightarrow> bool" where
  "args_hold a given used \<longleftrightarrow>
     given VPS_ARGUMENT_ID_UNKNOWN = None \<and>
     (\<exists>d. owned_memory (sens_storage (args_storage a)) = Some d \<and> used \<le> length d \<and> length d \<le> 65536 \<and>
        (\<forall>i. i \<noteq> VPS_ARGUMENT_ID_UNKNOWN \<longrightarrow>
           (bit (args_presence a) (argument_index i) \<longleftrightarrow> given i \<noteq> None) \<and>
           value_holds i (args_values a i) d used (given i)))"

lemma take_drop_mem_write:
  "off + n \<le> at \<Longrightarrow> at + length bytes \<le> length d \<Longrightarrow> take n (drop off (mem_write d at bytes)) = take n (drop off d)"
  by (simp add: mem_write_def drop_take [symmetric] take_drop)

lemma take_drop_written:
  "at + length bytes \<le> length d \<Longrightarrow> take (length bytes) (drop at (mem_write d at bytes)) = bytes"
  by (simp add: mem_write_def)

lemma value_holds_write:
  assumes "value_holds i v d used g" "used \<le> at" "at + length bytes \<le> length d"
  shows "value_holds i v (mem_write d at bytes) used g"
  using assms by (auto simp: value_holds_def take_drop_mem_write split: option.splits)

lemma value_holds_mono: "value_holds i v d used g \<Longrightarrow> used \<le> used' \<Longrightarrow> value_holds i v d used' g"
  by (auto simp: value_holds_def split: option.splits)

lemma parse_one_storage:
  assumes "vps_arguments_parse_one a input off = (r, a', off', diag)"
  shows "\<exists>bytes. length bytes \<le> length input \<and> args_initialized a' = args_initialized a \<and>
    (args_storage a' = args_storage a \<or> args_storage a' = sensitive_write (args_storage a) (unat off) bytes)"
proof (cases "argument_split input")
  case None
  then show ?thesis using assms by (auto simp: vps_arguments_parse_one_def intro: exI [of _ "[]"])
next
  case (Some nr)
  obtain name raw where nr: "nr = (name, raw)" by fastforce
  obtain ok out where dec: "vps_argument_decode_value raw = (ok, out)" by fastforce
  let ?bytes = "map char_byte out @ (if ok then [0] else [])"
  have "length ?bytes \<le> length input"
    using length_decode [OF dec] argument_split_length Some nr by fastforce
  moreover have "args_initialized a' = args_initialized a \<and>
      (args_storage a' = args_storage a \<or> args_storage a' = sensitive_write (args_storage a) (unat off) ?bytes)"
    using assms Some nr dec
    by (auto simp: vps_arguments_parse_one_def Let_def split: if_splits sum.splits)
  ultimately show ?thesis by blast
qed

lemma argument_typed_error: "argument_typed i offset t = Inl r \<Longrightarrow> r \<noteq> VPS_ARGUMENTS_OK"
  by (auto simp: argument_typed_def Let_def split: if_splits option.splits)

lemma parse_one_accepts:
  assumes "read_argument input = Some (i, t)" "args_presence a AND argument_bit i = 0"
  shows "\<exists>v diag. argument_typed i off t = Inr v \<and> i \<noteq> VPS_ARGUMENT_ID_UNKNOWN \<and> length t + 1 \<le> length input \<and>
    vps_arguments_parse_one a input off =
      (VPS_ARGUMENTS_OK,
       a\<lparr>args_storage := sensitive_write (args_storage a) (unat off) (c_bytes t),
         args_values := (args_values a)(i := v), args_presence := args_presence a OR argument_bit i\<rparr>,
       off + of_nat (length t) + 1, diag)"
proof -
  obtain name raw where split: "argument_split input = Some (name, raw)"
    and dec: "vps_argument_decode_value raw = (True, t)" and i: "vps_argument_find_id name = i" "i \<noteq> VPS_ARGUMENT_ID_UNKNOWN"
    and lim: "length t \<le> def_limit (definition_of i)" and typed: "\<not> isl (argument_typed i 0 t)"
    using assms(1) by (auto simp: read_argument_def Let_def split: option.splits if_splits prod.splits)
  obtain v where v: "argument_typed i off t = Inr v"
    using typed argument_typed_isl [of i off t] by (cases "argument_typed i off t") auto
  have "length t + 1 \<le> length input" using length_decode [OF dec] argument_split_length [OF split] by simp
  with split dec i lim v assms(2) argument_index_less [OF i(2)] show ?thesis
    by (simp add: vps_arguments_parse_one_def Let_def vps_argument_id_is_valid_def c_bytes_def)
qed

lemma parse_one_refuses:
  assumes "vps_arguments_parse_one a input off = (VPS_ARGUMENTS_OK, a', off', diag)"
  shows "\<exists>i t. read_argument input = Some (i, t) \<and> args_presence a AND argument_bit i = 0"
proof -
  obtain name raw where split: "argument_split input = Some (name, raw)"
    using assms by (cases "argument_split input") (auto simp: vps_arguments_parse_one_def)
  obtain ok out where dec: "vps_argument_decode_value raw = (ok, out)" by fastforce
  have "ok \<and> vps_argument_find_id name \<noteq> VPS_ARGUMENT_ID_UNKNOWN \<and>
      length out \<le> def_limit (definition_of (vps_argument_find_id name)) \<and>
      \<not> isl (argument_typed (vps_argument_find_id name) off out) \<and>
      args_presence a AND argument_bit (vps_argument_find_id name) = 0"
    using assms split dec
    by (auto simp: vps_arguments_parse_one_def Let_def vps_argument_id_is_valid_def
        dest: argument_typed_error split: if_splits sum.splits)
  with split dec show ?thesis by (auto simp: read_argument_def Let_def argument_typed_isl [of _ off])
qed

lemma parse_one_holds:
  assumes hold: "args_hold a given (unat off)"
    and room: "\<And>d. owned_memory (sens_storage (args_storage a)) = Some d \<Longrightarrow> unat off + length input + 1 \<le> length d"
    and run: "vps_arguments_parse_one a input off = (VPS_ARGUMENTS_OK, a', off', diag)"
  shows "\<exists>i t. read_argument input = Some (i, t) \<and> given i = None \<and> args_hold a' (given(i \<mapsto> t)) (unat off') \<and>
    unat off' \<le> unat off + length input + 1"
proof -
  from parse_one_refuses [OF run] obtain i t where
    rd: "read_argument input = Some (i, t)" and free: "args_presence a AND argument_bit i = 0" by blast
  from parse_one_accepts [OF rd free, of off] run obtain v where v: "argument_typed i off t = Inr v"
    and i: "i \<noteq> VPS_ARGUMENT_ID_UNKNOWN" and len: "length t + 1 \<le> length input"
    and a': "a' = a\<lparr>args_storage := sensitive_write (args_storage a) (unat off) (c_bytes t),
         args_values := (args_values a)(i := v), args_presence := args_presence a OR argument_bit i\<rparr>"
    and off': "off' = off + of_nat (length t) + 1" by auto
  from hold obtain d where d: "owned_memory (sens_storage (args_storage a)) = Some d" "unat off \<le> length d" "length d \<le> 65536"
    and vals: "\<And>j. j \<noteq> VPS_ARGUMENT_ID_UNKNOWN \<Longrightarrow> (bit (args_presence a) (argument_index j) \<longleftrightarrow> given j \<noteq> None) \<and>
           value_holds j (args_values a j) d (unat off) (given j)" by (auto simp: args_hold_def)
  note r = room [OF d(1)]
  have uo: "unat off' = unat off + length t + 1"
  proof -
    have "off' = of_nat (unat off + length t + 1)" by (simp add: off')
    moreover from r d(3) len have "unat off + length t + 1 < 2 ^ 64" by simp
    then have "unat (of_nat (unat off + length t + 1) :: size_t) = unat off + length t + 1"
      by (intro unat_small_nat) simp
    ultimately show ?thesis by simp
  qed
  let ?d = "mem_write d (unat off) (c_bytes t)"
  have fits: "unat off + length (c_bytes t) \<le> length d" using r len by simp
  have free': "given i = None" using free vals [OF i] and_argument_bit [OF i] by auto
  have at: "value_offset v = off" using argument_typed_value [OF v] by simp
  have "value_holds i v ?d (unat off') (Some t)"
    using v uo take_drop_written [OF fits] by (simp add: value_holds_def at)
  moreover have "value_holds j (args_values a j) ?d (unat off') (given j)" if "j \<noteq> VPS_ARGUMENT_ID_UNKNOWN" for j
    using value_holds_mono [OF value_holds_write [OF conjunct2 [OF vals [OF that]] order_refl fits]] uo by simp
  moreover have "unat off' \<le> length ?d" "length ?d = length d" using fits uo by (simp_all add: mem_write_def)
  moreover have "given VPS_ARGUMENT_ID_UNKNOWN = None" using hold by (simp add: args_hold_def)
  ultimately have "args_hold a' (given(i \<mapsto> t)) (unat off')"
    using d i vals unfolding args_hold_def a'
    by (auto simp: sensitive_write_def or_argument_bit)
  with rd free' uo len show ?thesis by auto
qed

section \<open>Values\<close>

text \<open>Quoting a value and decoding it gives the value back.\<close>

definition quote_value :: "string \<Rightarrow> string" where
  "quote_value v = CHR 0x27 # concat (map (\<lambda>c. if c = CHR 0x27 then [c, c] else [c]) v) @ [CHR 0x27]"

lemma decode_quoted_plain: "c \<noteq> CHR 0x27 \<Longrightarrow> decode_quoted (c # rest) out = decode_quoted rest (out @ [c])"
  by (cases rest) simp_all

lemma decode_quoted_doubled:
  "decode_quoted (concat (map (\<lambda>c. if c = CHR 0x27 then [c, c] else [c]) v)) out = (True, out @ v)"
  by (induction v arbitrary: out) (simp_all add: decode_quoted_plain)

lemma decode_quote_value:
  "vps_argument_decode_value (quote_value v) = (vps_argument_value_bytes_are_valid v, v)"
  by (simp add: vps_argument_decode_value_def quote_value_def butlast_append decode_quoted_doubled)

text \<open>The parser of numbers is exact.\<close>

definition decimal_number :: "nat \<Rightarrow> string \<Rightarrow> nat" where
  "decimal_number start s = foldl (\<lambda>n c. n * 10 + (char_code c - 48)) start s"

lemma decimal_number_mono: "start \<le> decimal_number start s"
proof (induction s arbitrary: start)
  case (Cons c s)
  have "start \<le> start * 10 + (char_code c - 48)" by simp
  also have "\<dots> \<le> decimal_number (start * 10 + (char_code c - 48)) s" by (rule Cons.IH)
  finally show ?case by (simp add: decimal_number_def)
qed (simp add: decimal_number_def)

lemma digit_step:
  fixes r :: u32
  assumes "k < 10"
  shows "r > (4294967295 - of_nat k) div 10 \<longleftrightarrow> \<not> unat r * 10 + k < 2 ^ 32"
    and "unat r * 10 + k < 2 ^ 32 \<Longrightarrow> unat (r * 10 + of_nat k) = unat r * 10 + k"
proof -
  have "unat (4294967295 - of_nat k :: u32) = 4294967295 - k"
    using assms by (simp add: unat_sub word_le_nat_alt)
  then have "unat ((4294967295 - of_nat k) div 10 :: u32) = (4294967295 - k) div 10" by (simp add: unat_div)
  then have "r > (4294967295 - of_nat k) div 10 \<longleftrightarrow> \<not> unat r \<le> (4294967295 - k) div 10"
    by (simp add: word_less_nat_alt not_le)
  also have "unat r \<le> (4294967295 - k) div 10 \<longleftrightarrow> unat r * 10 \<le> 4294967295 - k"
    by (rule less_eq_div_iff_mult_less_eq) simp
  finally show "r > (4294967295 - of_nat k) div 10 \<longleftrightarrow> \<not> unat r * 10 + k < 2 ^ 32" using assms by auto
  show "unat r * 10 + k < 2 ^ 32 \<Longrightarrow> unat (r * 10 + of_nat k) = unat r * 10 + k"
    using assms by (simp add: unat_word_ariths)
qed

lemma argument_digits_exact:
  "argument_digits r s = Some n \<longleftrightarrow>
     list_all c_isdigit s \<and> decimal_number (unat r) s < 2 ^ 32 \<and> unat n = decimal_number (unat r) s"
proof (induction s arbitrary: r)
  case Nil
  show ?case using unsigned_less [of r, where ?'a = nat] by (auto simp: decimal_number_def word_unat_eq_iff)
next
  case (Cons c s)
  show ?case
  proof (cases "c_isdigit c")
    case True
    let ?k = "char_code c - 48"
    have k: "?k < 10" using True by (auto simp: c_isdigit_def char_between_def)
    note d = digit_step [OF k, of r]
    have next_value: "decimal_number (unat r) (c # s) = decimal_number (unat r * 10 + ?k) s" by (simp add: decimal_number_def)
    show ?thesis
    proof (cases "unat r * 10 + ?k < 2 ^ 32")
      case fits: True
      then show ?thesis using True d Cons.IH [of "r * 10 + of_nat ?k"] by (simp add: Let_def next_value)
    next
      case False
      then show ?thesis
        using True d decimal_number_mono [of "unat r * 10 + ?k" s] by (auto simp: Let_def next_value)
    qed
  qed simp
qed

lemma parse_uint32_exact:
  "vps_argument_parse_uint32 s = Some n \<longleftrightarrow>
     s \<noteq> [] \<and> list_all c_isdigit s \<and> decimal_number 0 s < 2 ^ 32 \<and> unat n = decimal_number 0 s"
  using argument_digits_exact [of 0 s n] by (auto simp: vps_argument_parse_uint32_def)

section \<open>All arguments\<close>

definition inputs_size :: "string list \<Rightarrow> nat" where
  "inputs_size inputs = sum_list (map (\<lambda>input. length input + 1) inputs)"

lemma inputs_size_simps [simp]:
  "inputs_size [] = 0" "inputs_size (input # inputs) = length input + 1 + inputs_size inputs"
  by (simp_all add: inputs_size_def)

definition inputs_fit :: "string option list \<Rightarrow> bool" where
  "inputs_fit inputs \<longleftrightarrow>
     list_all (\<lambda>x. x \<noteq> None \<and> 0 < length (the x) \<and> length (the x) \<le> VPS_ARGUMENT_VALUE_LIMIT) inputs \<and>
     inputs_size (map the inputs) \<le> VPS_ARGUMENT_TOTAL_LIMIT"

lemma arguments_total_exact:
  assumes "unat n \<le> 65536"
  shows "if list_all (\<lambda>x. x \<noteq> None \<and> 0 < length (the x) \<and> length (the x) \<le> 16384) inputs \<and>
        unat n + inputs_size (map the inputs) \<le> 65536
    then \<exists>total_size. arguments_total inputs n = Some total_size \<and> unat total_size = unat n + inputs_size (map the inputs)
    else arguments_total inputs n = None"
  using assms
proof (induction inputs arbitrary: n)
  case (Cons input inputs)
  show ?case
  proof (cases "input \<noteq> None \<and> 0 < length (the input) \<and> length (the input) \<le> 16384")
    case True
    then obtain t where t: "input = Some t" "t \<noteq> []" "length t \<le> 16384" by auto
    have len: "unat (of_nat (length t) :: size_t) = length t" using t(3) by (intro unat_small_nat) simp
    have a1: "vps_size_add (of_nat (length t)) 1 = (VPS_MEMORY_OK, Some (of_nat (length t) + 1))"
      "unat (of_nat (length t) + 1 :: size_t) = length t + 1"
      using size_add_small [of "of_nat (length t)" 1] len t(3) by simp_all
    have a2: "vps_size_add n (of_nat (length t) + 1) = (VPS_MEMORY_OK, Some (n + (of_nat (length t) + 1)))"
      "unat (n + (of_nat (length t) + 1)) = unat n + (length t + 1)"
      using size_add_small [of n "of_nat (length t) + 1"] a1(2) t(3) Cons.prems by simp_all
    show ?thesis
    proof (cases "unat n + (length t + 1) \<le> 65536")
      case True
      then show ?thesis
        using Cons.IH [of "n + (of_nat (length t) + 1)"] t a1 a2 by (simp add: add.assoc split: if_splits)
    next
      case False
      then show ?thesis using t a1 a2 by simp
    qed
  next
    case False
    then show ?thesis by auto
  qed
qed simp

text \<open>The loop over the inputs, on a block that has room for all of them.\<close>

lemma vps_arguments_log_frame [simp]:
  "srv_heap (vps_arguments_log d s) = srv_heap s" "srv_platform (vps_arguments_log d s) = srv_platform s"
  by (simp_all add: vps_arguments_log_def)

lemma secret_step_args_log:
  "secret_in A iv live m s \<Longrightarrow> secret_step A iv live freed (m, s) (m, vps_arguments_log d s)"
  by (simp add: secret_step_def secret_in_def)

lemma parse_one_step:
  assumes "secret_in A iv live (args_storage a) s"
    and room: "\<And>d. owned_memory (sens_storage (args_storage a)) = Some d \<Longrightarrow> unat off + length input + 1 \<le> length d"
    and run: "vps_arguments_parse_one a input off = (r, a', off', diag)"
  shows "secret_step A iv live freed (args_storage a, s) (args_storage a', s) \<and>
    owned_blocks (sens_storage (args_storage a')) = owned_blocks (sens_storage (args_storage a)) \<and>
    args_initialized a' = args_initialized a"
proof -
  from parse_one_storage [OF run] obtain bytes where b: "length bytes \<le> length input" "args_initialized a' = args_initialized a"
    "args_storage a' = args_storage a \<or> args_storage a' = sensitive_write (args_storage a) (unat off) bytes" by blast
  have "unat off + length bytes \<le> length d" if "owned_memory (sens_storage (args_storage a)) = Some d" for d
    using room [OF that] b(1) by simp
  from sensitive_write_step [OF assms(1) this] b secret_step_refl [OF assms(1)] show ?thesis by auto
qed

lemma owned_blocks_length:
  "owned_blocks (sens_storage m') = owned_blocks (sens_storage m) \<Longrightarrow> owned_memory (sens_storage m') = Some d' \<Longrightarrow>
   \<exists>d. owned_memory (sens_storage m) = Some d \<and> length d' = length d"
  by (auto simp: owned_blocks_def split: option.splits)

lemma args_hold_bit:
  "args_hold a given used \<Longrightarrow> i \<noteq> VPS_ARGUMENT_ID_UNKNOWN \<Longrightarrow>
   bit (args_presence a) (argument_index i) \<longleftrightarrow> given i \<noteq> None"
  unfolding args_hold_def by blast

lemma parse_all_step:
  assumes "secret_in A iv live (args_storage a) s" "args_hold a given (unat off)"
    and "\<And>d. owned_memory (sens_storage (args_storage a)) = Some d \<Longrightarrow> unat off + inputs_size inputs \<le> length d"
    and "arguments_parse_all inputs a off diag s = (r, a', diag', s')"
  shows "secret_step A iv live freed (args_storage a, s) (args_storage a', s') \<and>
    owned_blocks (sens_storage (args_storage a')) = owned_blocks (sens_storage (args_storage a)) \<and>
    args_initialized a' = args_initialized a \<and>
    (if r = VPS_ARGUMENTS_OK then \<exists>given' used. read_arguments inputs given = Some given' \<and> args_hold a' given' used
     else read_arguments inputs given = None)"
  using assms
proof (induction inputs arbitrary: a given off diag s)
  case Nil
  then show ?case by (auto intro: secret_step_refl)
next
  case (Cons input inputs)
  obtain r1 a1 off1 d1 where one: "vps_arguments_parse_one a input off = (r1, a1, off1, d1)" by (metis prod_cases4)
  have room: "unat off + length input + 1 \<le> length d" if "owned_memory (sens_storage (args_storage a)) = Some d" for d
    using Cons.prems(3) [OF that] by simp
  note step = parse_one_step [OF Cons.prems(1) room one, of freed]
  show ?case
  proof (cases "r1 = VPS_ARGUMENTS_OK")
    case True
    from parse_one_holds [OF Cons.prems(2) room one [unfolded True]] obtain i t where
      rd: "read_argument input = Some (i, t)" "given i = None" and hold: "args_hold a1 (given(i \<mapsto> t)) (unat off1)"
      and le: "unat off1 \<le> unat off + length input + 1" by blast
    let ?s = "vps_arguments_log d1 s"
    have rest: "arguments_parse_all inputs a1 off1 d1 ?s = (r, a', diag', s')"
      using Cons.prems(4) one True by simp
    have sec: "secret_in A iv live (args_storage a1) ?s" "secret_step A iv live freed (args_storage a, s) (args_storage a1, ?s)"
      using step secret_step_args_log [of A iv live "args_storage a1" s freed d1]
      by (auto dest: secret_step_in intro: secret_step_trans)
    have room': "unat off1 + inputs_size inputs \<le> length d" if "owned_memory (sens_storage (args_storage a1)) = Some d" for d
    proof -
      from step that obtain d0 where "owned_memory (sens_storage (args_storage a)) = Some d0" "length d = length d0"
        using owned_blocks_length by blast
      with Cons.prems(3) le show ?thesis by fastforce
    qed
    from Cons.IH [OF sec(1) hold room' rest] sec(2) step rd show ?thesis
      by (auto intro: secret_step_trans split: if_splits)
  next
    case False
    have "read_arguments (input # inputs) given = None"
    proof (rule ccontr)
      assume "read_arguments (input # inputs) given \<noteq> None"
      then obtain i t where rd: "read_argument input = Some (i, t)" "given i = None"
        by (auto split: option.splits if_splits)
      from rd(1) have i: "i \<noteq> VPS_ARGUMENT_ID_UNKNOWN"
        by (auto simp: read_argument_def Let_def split: option.splits if_splits prod.splits)
      have "args_presence a AND argument_bit i = 0"
        using args_hold_bit [OF Cons.prems(2) i] rd(2) by (simp add: and_argument_bit [OF i])
      from parse_one_accepts [OF rd(1) this, of off] one False show False by auto
    qed
    with step Cons.prems(4) one False show ?thesis by (auto simp del: read_arguments.simps)
  qed
qed

section \<open>Combinations\<close>

lemma typed_enum:
  "argument_typed i off t = Inr v \<Longrightarrow> def_type (definition_of i) = VPS_ARGUMENT_TYPE_ENUM \<Longrightarrow>
   vps_argument_parse_enum i t = Some (value_enum v)"
  by (auto simp: argument_typed_def Let_def split: option.splits)

lemma typed_uint32:
  "argument_typed i off t = Inr v \<Longrightarrow> def_type (definition_of i) = VPS_ARGUMENT_TYPE_UINT32 \<Longrightarrow>
   vps_argument_parse_uint32 t = Some (value_uint32 v)"
  by (auto simp: argument_typed_def Let_def split: option.splits)

lemma definition_types [simp]:
  "def_type (definition_of VPS_ARGUMENT_ID_SOURCE) = VPS_ARGUMENT_TYPE_ENUM"
  "def_type (definition_of VPS_ARGUMENT_ID_MODE) = VPS_ARGUMENT_TYPE_ENUM"
  "def_type (definition_of VPS_ARGUMENT_ID_POOL_MIN) = VPS_ARGUMENT_TYPE_UINT32"
  "def_type (definition_of VPS_ARGUMENT_ID_POOL_MAX) = VPS_ARGUMENT_TYPE_UINT32"
  by (simp_all add: definition_of_def vps_argument_definitions_def argument_definition_def)

lemma args_hold_value:
  assumes "args_hold a given used" "i \<noteq> VPS_ARGUMENT_ID_UNKNOWN"
  shows "value_present (args_values a i) \<longleftrightarrow> given i \<noteq> None"
    and "given i = Some t \<Longrightarrow> argument_typed i (value_offset (args_values a i)) t = Inr (args_values a i)"
  using assms unfolding args_hold_def
  by (auto simp: value_holds_def split: option.splits dest: argument_typed_value)

lemma source_text:
  assumes "args_hold a given used" "given VPS_ARGUMENT_ID_SOURCE = Some t"
  shows "t = ''table'' \<and> value_enum (args_values a VPS_ARGUMENT_ID_SOURCE) = VPS_ARGUMENT_ENUM_SOURCE_TABLE \<or>
    t = ''query'' \<and> value_enum (args_values a VPS_ARGUMENT_ID_SOURCE) = VPS_ARGUMENT_ENUM_SOURCE_QUERY"
  using typed_enum [OF args_hold_value(2) [OF assms(1) _ assms(2)]]
  by (auto simp: vps_argument_parse_enum_def argument_enum_values_def split: if_splits)

lemma mode_text:
  assumes "args_hold a given used" "given VPS_ARGUMENT_ID_MODE = Some t"
  shows "value_enum (args_values a VPS_ARGUMENT_ID_MODE) = VPS_ARGUMENT_ENUM_MODE_RW \<longleftrightarrow> t = ''rw''"
  using typed_enum [OF args_hold_value(2) [OF assms(1) _ assms(2)]]
  by (auto simp: vps_argument_parse_enum_def argument_enum_values_def split: if_splits)

lemma ex1_inj_image:
  assumes "inj_on f {i. P i}"
  shows "(\<exists>!n. \<exists>i. P i \<and> n = f i) \<longleftrightarrow> (\<exists>!i. P i)"
proof
  assume "\<exists>!n. \<exists>i. P i \<and> n = f i"
  then obtain i where i: "P i" "\<And>j. P j \<Longrightarrow> f j = f i" by blast
  have "j = i" if "P j" for j using inj_onD [OF assms i(2) [OF that]] that i(1) by simp
  with i(1) show "\<exists>!i. P i" by blast
qed blast

lemma single_bit_among:
  assumes hold: "args_hold a given used" and M: "\<And>n. bit M n \<longleftrightarrow> n \<in> argument_index ` S"
    and S: "VPS_ARGUMENT_ID_UNKNOWN \<notin> S"
  shows "single_bit (args_presence a AND M) \<longleftrightarrow> (\<exists>!i. i \<in> dom given \<and> i \<in> S)"
proof -
  have "bit (args_presence a AND M) n \<longleftrightarrow> (\<exists>i. i \<in> dom given \<and> i \<in> S \<and> n = argument_index i)" for n
  proof -
    have "bit (args_presence a) (argument_index i) \<longleftrightarrow> i \<in> dom given" if "i \<in> S" for i
      using args_hold_bit [OF hold, of i] S that by (auto simp del: argument_index.simps)
    then show ?thesis unfolding bit_and_iff M by blast
  qed
  then have "single_bit (args_presence a AND M) \<longleftrightarrow> (\<exists>!n. \<exists>i. i \<in> dom given \<and> i \<in> S \<and> n = argument_index i)"
    by (simp add: single_bit_iff)
  also have "\<dots> \<longleftrightarrow> (\<exists>!i. i \<in> dom given \<and> i \<in> S)"
  proof -
    have "inj_on argument_index {i. i \<in> dom given \<and> i \<in> S}"
    proof (rule inj_onI)
      fix i j assume "i \<in> {i. i \<in> dom given \<and> i \<in> S}" "j \<in> {i. i \<in> dom given \<and> i \<in> S}" "argument_index i = argument_index j"
      then show "i = j" using S argument_index_inject [of i j] by force
    qed
    from ex1_inj_image [OF this] show ?thesis by simp
  qed
  finally show ?thesis .
qed

lemma mode_bits:
  "bit VPS_ARGUMENT_CONNECTION_MODES n \<longleftrightarrow> n \<in> argument_index ` {VPS_ARGUMENT_ID_CREDENTIAL_REF,
     VPS_ARGUMENT_ID_SERVICE, VPS_ARGUMENT_ID_PROFILE, VPS_ARGUMENT_ID_CONNSTR}"
  "bit (argument_bit VPS_ARGUMENT_ID_QUERY OR argument_bit VPS_ARGUMENT_ID_QUERY_PROFILE) n \<longleftrightarrow>
     n \<in> argument_index ` {VPS_ARGUMENT_ID_QUERY, VPS_ARGUMENT_ID_QUERY_PROFILE}"
  by (auto simp: VPS_ARGUMENT_CONNECTION_MODES_def bit_or_iff bit_argument_bit)

lemma and_eq_mask:
  assumes "i \<noteq> VPS_ARGUMENT_ID_UNKNOWN" "j \<noteq> VPS_ARGUMENT_ID_UNKNOWN"
  shows "p AND (argument_bit i OR argument_bit j) = argument_bit i OR argument_bit j \<longleftrightarrow>
    bit p (argument_index i) \<and> bit p (argument_index j)"
proof -
  have "p AND m = m \<longleftrightarrow> (\<forall>n. bit m n \<longrightarrow> bit p n)" for m :: u64
  proof
    show "p AND m = m" if "\<forall>n. bit m n \<longrightarrow> bit p n" using that by (intro bit_eqI) (auto simp: bit_and_iff)
  qed (metis bit_and_iff)
  then show ?thesis using assms by (auto simp: bit_or_iff bit_argument_bit)
qed

lemma source_fits_iff:
  assumes hold: "args_hold a given used" and src: "VPS_ARGUMENT_ID_SOURCE \<in> dom given"
  shows "argument_source_fits a \<longleftrightarrow>
     (if given VPS_ARGUMENT_ID_SOURCE = Some ''table''
      then {VPS_ARGUMENT_ID_SCHEMA, VPS_ARGUMENT_ID_TABLE} \<subseteq> dom given \<and>
        dom given \<inter> {VPS_ARGUMENT_ID_QUERY, VPS_ARGUMENT_ID_QUERY_PROFILE} = {}
      else given VPS_ARGUMENT_ID_SOURCE = Some ''query'' \<and>
        (\<exists>!i. i \<in> dom given \<and> i \<in> {VPS_ARGUMENT_ID_QUERY, VPS_ARGUMENT_ID_QUERY_PROFILE}) \<and>
        dom given \<inter> {VPS_ARGUMENT_ID_SCHEMA, VPS_ARGUMENT_ID_TABLE, VPS_ARGUMENT_ID_ALLOW_VIEW,
          VPS_ARGUMENT_ID_ALLOW_MATERIALIZED_VIEW, VPS_ARGUMENT_ID_ALLOW_FOREIGN_TABLE} = {} \<and>
        given VPS_ARGUMENT_ID_MODE \<noteq> Some ''rw'')"
proof -
  note bits = args_hold_bit [OF hold] and_argument_bit
  obtain t where t: "given VPS_ARGUMENT_ID_SOURCE = Some t" using src by blast
  note s = source_text [OF hold t]
  have mode: "(value_present (args_values a VPS_ARGUMENT_ID_MODE) \<and>
      value_enum (args_values a VPS_ARGUMENT_ID_MODE) = VPS_ARGUMENT_ENUM_MODE_RW) \<longleftrightarrow>
      given VPS_ARGUMENT_ID_MODE = Some ''rw''"
    using args_hold_value(1) [OF hold, of VPS_ARGUMENT_ID_MODE] mode_text [OF hold] by (cases "given VPS_ARGUMENT_ID_MODE") auto
  have single: "single_bit (args_presence a AND (argument_bit VPS_ARGUMENT_ID_QUERY OR argument_bit VPS_ARGUMENT_ID_QUERY_PROFILE))
      \<longleftrightarrow> (\<exists>!i. i \<in> dom given \<and> i \<in> {VPS_ARGUMENT_ID_QUERY, VPS_ARGUMENT_ID_QUERY_PROFILE})"
    by (rule single_bit_among [OF hold mode_bits(2)]) simp
  show ?thesis
  proof (cases "t = ''table''")
    case True
    with s t show ?thesis
      by (auto simp: argument_source_fits_def Let_def and_eq_mask and_or_zero bits dom_def simp del: argument_index.simps)
  next
    case False
    with s t show ?thesis
      unfolding argument_source_fits_def Let_def mode single
      by (simp add: and_or_zero bits dom_def del: argument_index.simps)
  qed
qed

lemma pool_fits_iff:
  assumes hold: "args_hold a given used"
  shows "argument_pool_fits a \<longleftrightarrow>
    (\<forall>lo hi. Option.bind (given VPS_ARGUMENT_ID_POOL_MIN) vps_argument_parse_uint32 = Some lo \<longrightarrow>
        Option.bind (given VPS_ARGUMENT_ID_POOL_MAX) vps_argument_parse_uint32 = Some hi \<longrightarrow> lo \<le> hi)"
proof -
  have v: "vps_argument_parse_uint32 t = Some (value_uint32 (args_values a i))"
    if "given i = Some t" "i \<in> {VPS_ARGUMENT_ID_POOL_MIN, VPS_ARGUMENT_ID_POOL_MAX}" for i t
    using typed_uint32 [OF args_hold_value(2) [OF hold _ that(1)]] that(2) by auto
  show ?thesis
    using args_hold_value(1) [OF hold] v
    by (cases "given VPS_ARGUMENT_ID_POOL_MIN"; cases "given VPS_ARGUMENT_ID_POOL_MAX")
      (auto simp: argument_pool_fits_def not_less)
qed

lemma combinations_iff:
  assumes hold: "args_hold a given used"
  shows "fst (vps_arguments_validate_combinations a diag) = VPS_ARGUMENTS_OK \<longleftrightarrow> combination_ok given"
proof -
  note bits = args_hold_bit [OF hold] and_argument_bit
  have modes: "single_bit (args_presence a AND VPS_ARGUMENT_CONNECTION_MODES) \<longleftrightarrow>
      (\<exists>!i. i \<in> dom given \<and> i \<in> {VPS_ARGUMENT_ID_CREDENTIAL_REF, VPS_ARGUMENT_ID_SERVICE, VPS_ARGUMENT_ID_PROFILE,
        VPS_ARGUMENT_ID_CONNSTR})"
    by (rule single_bit_among [OF hold mode_bits(1)]) simp
  have service: "(args_presence a AND argument_bit VPS_ARGUMENT_ID_SERVICE_FILE \<noteq> 0 \<and>
        args_presence a AND argument_bit VPS_ARGUMENT_ID_SERVICE = 0) \<longleftrightarrow>
      \<not> (VPS_ARGUMENT_ID_SERVICE_FILE \<in> dom given \<longrightarrow> VPS_ARGUMENT_ID_SERVICE \<in> dom given)"
    by (simp add: bits dom_def del: argument_index.simps)
  have local': "args_presence a AND (argument_bit VPS_ARGUMENT_ID_QUERY_INDEXES OR
        argument_bit VPS_ARGUMENT_ID_QUERY_MATERIALIZATION) \<noteq> 0 \<longleftrightarrow>
      \<not> (dom given \<inter> {VPS_ARGUMENT_ID_QUERY_INDEXES, VPS_ARGUMENT_ID_QUERY_MATERIALIZATION} = {})"
    by (auto simp: and_or_zero bits dom_def simp del: argument_index.simps)
  have source: "value_present (args_values a VPS_ARGUMENT_ID_SOURCE) \<longleftrightarrow> VPS_ARGUMENT_ID_SOURCE \<in> dom given"
    using args_hold_value(1) [OF hold, of VPS_ARGUMENT_ID_SOURCE] by auto
  show ?thesis
  proof (cases "VPS_ARGUMENT_ID_SOURCE \<in> dom given")
    case False
    then show ?thesis by (simp add: vps_arguments_validate_combinations_def Let_def source combination_ok_def)
  next
    case True
    then obtain t where t: "given VPS_ARGUMENT_ID_SOURCE = Some t" by blast
    have result: "fst (vps_arguments_validate_combinations a diag) = VPS_ARGUMENTS_OK \<longleftrightarrow>
        single_bit (args_presence a AND VPS_ARGUMENT_CONNECTION_MODES) \<and>
        (VPS_ARGUMENT_ID_SERVICE_FILE \<in> dom given \<longrightarrow> VPS_ARGUMENT_ID_SERVICE \<in> dom given) \<and>
        argument_source_fits a \<and> argument_pool_fits a \<and>
        (value_enum (args_values a VPS_ARGUMENT_ID_SOURCE) \<noteq> VPS_ARGUMENT_ENUM_SOURCE_QUERY \<longrightarrow>
          dom given \<inter> {VPS_ARGUMENT_ID_QUERY_INDEXES, VPS_ARGUMENT_ID_QUERY_MATERIALIZATION} = {})"
      unfolding vps_arguments_validate_combinations_def Let_def source service local' using True by auto
    show ?thesis
    proof (cases "t = ''table''")
      case True
      with source_text [OF hold t] t show ?thesis
        unfolding result modes source_fits_iff [OF hold \<open>VPS_ARGUMENT_ID_SOURCE \<in> dom given\<close>] pool_fits_iff [OF hold]
          combination_ok_def
        by (simp add: conj_ac Int_insert_right) blast
    next
      case False
      with source_text [OF hold t] t show ?thesis
        unfolding result modes source_fits_iff [OF hold True] pool_fits_iff [OF hold] combination_ok_def
        by (simp add: conj_ac) blast
    qed
  qed
qed

section \<open>The parser\<close>

text \<open>What a list of inputs means, if it is accepted.\<close>

definition arguments_meaning :: "string option list option \<Rightarrow> (VpsArgumentId \<rightharpoonup> string) option" where
  "arguments_meaning inputs =
     (case inputs of
        None \<Rightarrow> None
      | Some xs \<Rightarrow>
          if 0 < length xs \<and> length xs \<le> VPS_ARGUMENT_MAX_COUNT \<and> inputs_fit xs
          then (case read_arguments (map the xs) Map.empty of
                  None \<Rightarrow> None
                | Some given \<Rightarrow> if combination_ok given then Some given else None)
          else None)"

text \<open>How a call ends: with the meaning of the inputs, with the old arguments when the inputs have none or memory ran
  out, or with a failure to wipe.\<close>

definition parse_outcome ::
    "VpsArgumentsResult \<Rightarrow> (VpsArgumentId \<rightharpoonup> string) option \<Rightarrow> ('w, 'p) VpsParsedArguments \<Rightarrow> ('w, 'p) VpsParsedArguments \<Rightarrow>
     nat multiset \<Rightarrow> nat multiset \<Rightarrow> bool" where
  "parse_outcome r meaning a a' L L' \<longleftrightarrow>
     (if r = VPS_ARGUMENTS_OK
      then (\<exists>given used. meaning = Some given \<and> args_hold a' given used) \<and> args_initialized a' \<and>
        L' = L - owned_blocks (sens_storage (args_storage a)) + owned_blocks (sens_storage (args_storage a'))
      else if r = VPS_ARGUMENTS_CLEANUP_FAILED
      then args_values a' = args_values a \<and> args_presence a' = args_presence a \<and>
        owned_blocks (sens_storage (args_storage a')) = owned_blocks (sens_storage (args_storage a))
      else a' = a \<and> L' = L \<and> (r = VPS_ARGUMENTS_OUT_OF_MEMORY \<or> meaning = None))"

definition arguments_in ::
    "'w VpsAllocator \<Rightarrow> ('w \<Rightarrow> bool) \<Rightarrow> ('w \<Rightarrow> nat multiset) \<Rightarrow> ('w, 'p) VpsParsedArguments \<Rightarrow> ('w, 'p, 'c) services \<Rightarrow> bool" where
  "arguments_in A iv live a s \<longleftrightarrow> secret_in A iv live (args_storage a) s \<and> args_initialized a \<and>
     vps_platform_validate_operations (sens_operations (args_storage a)) VPS_PLATFORM_CAP_SECURE_ZERO = VPS_PLATFORM_OK"

lemma args_hold_cleared:
  assumes "owned_memory (sens_storage m) = Some d" "length d \<le> 65536" "length bytes = length d"
  shows "args_hold \<lparr>args_storage = sensitive_write m 0 bytes, args_values = (\<lambda>_. zero_value), args_presence = 0,
    args_initialized = True\<rparr> Map.empty (unat (0 :: size_t))"
  using assms by (auto simp: args_hold_def value_holds_def zero_value_def sensitive_write_def mem_write_def)

text \<open>The arguments in a cleared block, up to the installation or the disposal of the block.\<close>

definition filled ::
    "('w, 'p) VpsParsedArguments \<Rightarrow> string list \<Rightarrow> ('w, 'p) VpsParsedArguments \<Rightarrow> VpsArgumentsDiagnostic \<Rightarrow> ('w, 'p, 'c) services \<Rightarrow>
     VpsArgumentsResult \<times> ('w, 'p) VpsParsedArguments \<times> VpsArgumentsDiagnostic \<times> ('w, 'p, 'c) services" where
  "filled a inputs cleared diag s =
     (case arguments_parse_all inputs cleared 0 diag s of
        (result, parsed, diag', s2) \<Rightarrow>
          if result \<noteq> VPS_ARGUMENTS_OK then arguments_discard a parsed result diag' s2
          else case vps_arguments_validate_combinations parsed diag' of
            (result', diag'') \<Rightarrow>
              if result' \<noteq> VPS_ARGUMENTS_OK then arguments_discard a parsed result' diag'' s2
              else arguments_install a parsed s2)"

context recording_allocator
begin

lemma discard_step:
  assumes rep: "secret_in A inv live (args_storage rep) s"
    and L: "live (srv_heap s) = L + owned_blocks (sens_storage (args_storage rep))"
    and run: "arguments_discard a rep r diag s = (r', a', diag', s')"
  shows "a' = a \<and> wiped freed (srv_heap s) (srv_heap s') \<and> inv (srv_heap s') \<and>
    (r' = r \<and> live (srv_heap s') = L \<or> r' = VPS_ARGUMENTS_CLEANUP_FAILED \<and> L \<subseteq># live (srv_heap s'))"
proof -
  obtain sr st s1 where rel: "vps_sensitive_memory_release (args_storage rep) s = (sr, st, s1)" by (metis prod_cases3)
  note step = sensitive_release_step [OF rep rel]
  have "live (srv_heap s1) = L + owned_blocks (sens_storage st)"
    using step(1) L by (simp add: secret_step_def)
  then show ?thesis
    using run rel step by (auto simp: arguments_discard_def secret_step_def secret_in_def split: if_splits)
qed

lemma install_step:
  assumes rep: "secret_in A inv live (args_storage rep) s" and a: "secret_in A inv live (args_storage a) s"
    and L: "live (srv_heap s) = L + owned_blocks (sens_storage (args_storage rep))"
      "owned_blocks (sens_storage (args_storage a)) \<subseteq># L"
    and hold: "args_hold rep given used" "args_initialized rep"
    and run: "arguments_install a rep s = (r', a', diag', s')"
  shows "wiped freed (srv_heap s) (srv_heap s') \<and> secret_in A inv live (args_storage a') s' \<and>
    parse_outcome r' (Some given) a a' L (live (srv_heap s')) \<and> (r' = VPS_ARGUMENTS_OK \<or> r' = VPS_ARGUMENTS_CLEANUP_FAILED)"
proof -
  obtain sr st s1 where rel: "vps_sensitive_memory_release (args_storage a) s = (sr, st, s1)" by (metis prod_cases3)
  note step = sensitive_release_step [OF a rel]
  let ?rep = "owned_blocks (sens_storage (args_storage rep))" and ?a = "owned_blocks (sens_storage (args_storage a))"
  have live1: "live (srv_heap s1) = L - ?a + ?rep + owned_blocks (sens_storage st)"
    using step(1) L by (simp add: secret_step_def)
  have "?rep \<subseteq># live (srv_heap s1)"
    unfolding live1 by (metis add.assoc add.commute mset_subset_eq_add_right)
  then have rep1: "secret_in A inv live (args_storage rep) s1"
    using rep step(1) by (auto simp: secret_in_def secret_step_def)
  show ?thesis
  proof (cases "sr = VPS_SECURE_MEMORY_OK")
    case True
    then show ?thesis
      using run rel step rep1 live1 hold
      by (auto simp: arguments_install_def parse_outcome_def secret_step_def)
  next
    case False
    have "L - ?a + ?rep + ?a = L + ?rep"
      using subset_mset.diff_add [OF L(2)] by (metis add.assoc add.commute)
    then have L1: "live (srv_heap s1) = L + ?rep" using False step(2) live1 by simp
    obtain d where dis: "arguments_discard (a\<lparr>args_storage := st\<rparr>) rep VPS_ARGUMENTS_CLEANUP_FAILED d s1 = (r', a', diag', s')"
      using run rel False by (auto simp: arguments_install_def)
    from discard_step [OF rep1 L1 dis] have d: "a' = a\<lparr>args_storage := st\<rparr>" "wiped freed (srv_heap s1) (srv_heap s')"
      "inv (srv_heap s')" "r' = VPS_ARGUMENTS_CLEANUP_FAILED" "L \<subseteq># live (srv_heap s')" by auto
    have "?a \<subseteq># live (srv_heap s')" using d(5) L(2) by (rule subset_mset.order_trans [rotated])
    then have "secret_in A inv live st s'"
      using step False d by (auto simp: secret_in_def secret_step_def)
    with d step False show ?thesis
      by (auto simp: parse_outcome_def secret_step_def intro: wiped_trans)
  qed
qed

lemma discard_outcome:
  assumes "secret_in A inv live (args_storage rep) s" "live (srv_heap s) = L + owned_blocks (sens_storage (args_storage rep))"
    and "arguments_discard a rep r diag s = (r', a', diag', s')"
    and "secret_in A inv live (args_storage a) s0" "live (srv_heap s0) = L" "wiped freed (srv_heap s0) (srv_heap s)"
    and "r \<noteq> VPS_ARGUMENTS_OK" "r = VPS_ARGUMENTS_OUT_OF_MEMORY \<or> meaning = None"
  shows "wiped freed (srv_heap s0) (srv_heap s') \<and> secret_in A inv live (args_storage a') s' \<and>
    parse_outcome r' meaning a a' L (live (srv_heap s'))"
proof -
  note d = discard_step [OF assms(1-3)]
  then have "secret_in A inv live (args_storage a') s'"
    using assms(4,5) by (auto simp: secret_in_def intro: subset_mset.order_trans)
  with d assms(6-8) show ?thesis by (auto simp: parse_outcome_def intro: wiped_trans)
qed

lemma filled_step:
  assumes a: "secret_in A inv live (args_storage a) s0" and w: "wiped freed (srv_heap s0) (srv_heap s)"
    and c: "secret_in A inv live (args_storage cleared) s" "args_hold cleared Map.empty (unat (0 :: size_t))" "args_initialized cleared"
    and room: "\<And>d. owned_memory (sens_storage (args_storage cleared)) = Some d \<Longrightarrow> inputs_size inputs \<le> length d"
    and L: "live (srv_heap s) = live (srv_heap s0) + owned_blocks (sens_storage (args_storage cleared))"
    and run: "filled a inputs cleared diag s = (r', a', diag', s')"
  shows "wiped freed (srv_heap s0) (srv_heap s') \<and> secret_in A inv live (args_storage a') s' \<and>
    parse_outcome r' (case read_arguments inputs Map.empty of None \<Rightarrow> None
        | Some given \<Rightarrow> if combination_ok given then Some given else None) a a' (live (srv_heap s0)) (live (srv_heap s'))"
proof -
  obtain r2 p2 diag2 s2 where all: "arguments_parse_all inputs cleared 0 diag s = (r2, p2, diag2, s2)" by (metis prod_cases4)
  have room': "unat (0 :: size_t) + inputs_size inputs \<le> length d"
    if "owned_memory (sens_storage (args_storage cleared)) = Some d" for d using room [OF that] by simp
  note pa = parse_all_step [OF c(1,2) room' all, of freed]
  have live2: "live (srv_heap s2) = live (srv_heap s0) + owned_blocks (sens_storage (args_storage p2))"
    using pa L by (simp add: secret_step_def)
  have p2: "secret_in A inv live (args_storage p2) s2" "args_initialized p2" and w2: "wiped freed (srv_heap s0) (srv_heap s2)"
    using pa w c(3) by (auto simp: secret_step_def intro: wiped_trans)
  note fail = discard_outcome [OF p2(1) live2 _ a refl w2]
  show ?thesis
  proof (cases "r2 = VPS_ARGUMENTS_OK")
    case False
    then have "arguments_discard a p2 r2 diag2 s2 = (r', a', diag', s')" using run all by (simp add: filled_def)
    from fail [OF this False, of None] pa False show ?thesis by simp
  next
    case True
    then obtain given used where g: "read_arguments inputs Map.empty = Some given" "args_hold p2 given used" using pa by auto
    obtain r3 diag3 where val: "vps_arguments_validate_combinations p2 diag2 = (r3, diag3)" by fastforce
    have comb: "r3 = VPS_ARGUMENTS_OK \<longleftrightarrow> combination_ok given" using combinations_iff [OF g(2), of diag2] val by simp
    show ?thesis
    proof (cases "r3 = VPS_ARGUMENTS_OK")
      case r3: False
      then have "arguments_discard a p2 r3 diag3 s2 = (r', a', diag', s')"
        using run all True val by (simp add: filled_def)
      from fail [OF this r3, of None] r3 comb g show ?thesis by simp
    next
      case r3: True
      then have "arguments_install a p2 s2 = (r', a', diag', s')" using run all True val by (simp add: filled_def)
      moreover have "secret_in A inv live (args_storage a) s2"
        using a p2(1) live2 by (auto simp: secret_in_def intro: subset_mset.order_trans)
      moreover have "owned_blocks (sens_storage (args_storage a)) \<subseteq># live (srv_heap s0)" using a by (simp add: secret_in_def)
      ultimately show ?thesis
        using install_step [OF p2(1) _ live2 _ g(2) p2(2)] g comb r3 w2 by (auto intro: wiped_trans)
    qed
  qed
qed

lemma replace_step:
  assumes a: "arguments_in A inv live a s"
    and size: "unat total_size = inputs_size inputs" "0 < unat total_size" "unat total_size \<le> 65536"
    and run: "arguments_replace a inputs total_size diag s = (r', a', diag', s')"
  shows "wiped freed (srv_heap s) (srv_heap s') \<and> secret_in A inv live (args_storage a') s' \<and>
    parse_outcome r' (case read_arguments inputs Map.empty of None \<Rightarrow> None
        | Some given \<Rightarrow> if combination_ok given then Some given else None) a a' (live (srv_heap s)) (live (srv_heap s'))"
proof -
  let ?ops = "sens_operations (args_storage a)" and ?L = "live (srv_heap s)"
  have sec: "secret_in A inv live (args_storage a) s" and A: "owned_allocator (sens_storage (args_storage a)) = A"
    and zero: "platform_zeroes ?ops" and inv: "inv (srv_heap s)" using a by (auto simp: arguments_in_def secret_in_def)
  let ?m = "\<lparr>sens_storage = \<lparr>owned_allocator = A, owned_memory = None, owned_size = 0, owned_flag = False\<rparr>,
      sens_operations = ?ops, sens_initialized = True\<rparr>"
  have minit: "vps_sensitive_memory_init (Some A) ?ops = (VPS_SECURE_MEMORY_OK, Some ?m)"
    using a valid by (simp add: arguments_in_def vps_sensitive_memory_init_def vps_owned_memory_init_def)
  let ?rep = "\<lambda>m. \<lparr>args_storage = m, args_values = (\<lambda>_. zero_value), args_presence = 0, args_initialized = True\<rparr>"
  have init: "vps_arguments_init (Some A) ?ops = (VPS_ARGUMENTS_OK, Some (?rep ?m))"
    by (simp add: vps_arguments_init_def minit)
  obtain sr st s1 where alloc: "vps_sensitive_memory_allocate ?m total_size s = (sr, st, s1)" by (metis prod_cases3)
  note m = sensitive_init_in [OF inv zero minit]
  then have "secret_in A inv live ?m s" by blast
  note al = sensitive_allocate_step [OF this alloc]
  have live1: "live (srv_heap s1) = ?L + owned_blocks (sens_storage st)" and w1: "wiped freed (srv_heap s) (srv_heap s1)"
    and st: "secret_in A inv live st s1" using al(1) m by (simp_all add: secret_step_def)
  show ?thesis
  proof (cases "sr = VPS_SECURE_MEMORY_OK")
    case False
    then have oom: "sr = VPS_SECURE_MEMORY_OUT_OF_MEMORY"
      using alloc valid
      by (auto simp: vps_sensitive_memory_allocate_def vps_owned_memory_allocate_def vps_memory_allocate_def
          vps_secure_memory_from_memory_result_def Let_def split: prod.splits option.splits if_splits)
    have dis: "arguments_discard a (?rep st) VPS_ARGUMENTS_OUT_OF_MEMORY
        (vps_arguments_set_diagnostic VPS_ARGUMENTS_OUT_OF_MEMORY VPS_ARGUMENT_ID_UNKNOWN 0) s1 = (r', a', diag', s')"
      using run alloc False oom by (simp add: arguments_replace_def Let_def A init)
    show ?thesis using discard_outcome [OF _ _ dis sec refl w1] st live1 by simp
  next
    case True
    obtain d where d: "owned_memory (sens_storage st) = Some d" "length d = unat total_size"
      using al(2) [OF True] st size(2) by (auto simp: secret_in_def owned_ok_def split: option.splits)
    let ?clear = "sensitive_write st 0 (replicate (unat total_size) 0)"
    have fits: "0 + length (replicate (unat total_size) (0 :: u8)) \<le> length d'"
      if "owned_memory (sens_storage st) = Some d'" for d' using that d by simp
    note wr = sensitive_write_step(1) [OF st fits, of freed] sensitive_write_step(2) [OF st fits]
    have fill: "filled a inputs (?rep ?clear) diag s1 = (r', a', diag', s')"
      using run alloc True by (simp add: arguments_replace_def filled_def Let_def A init)
    have hold: "args_hold (?rep ?clear) Map.empty (unat (0 :: size_t))"
      using args_hold_cleared [OF d(1)] d(2) size(3) by simp
    have room: "inputs_size inputs \<le> length d'"
      if "owned_memory (sens_storage (args_storage (?rep ?clear))) = Some d'" for d'
      using that d size(1) by (auto simp: sensitive_write_def mem_write_def)
    show ?thesis
      using wr(2) live1 secret_step_in [OF wr(1)] by (intro filled_step [OF sec w1 _ hold _ room _ fill]) simp_all
  qed
qed

lemma parse_step:
  assumes a: "arguments_in A inv live a s" and run: "vps_arguments_parse a inputs s = (r', a', diag', s')"
  shows "wiped freed (srv_heap s) (srv_heap s') \<and> secret_in A inv live (args_storage a') s' \<and>
    parse_outcome r' (arguments_meaning inputs) a a' (live (srv_heap s)) (live (srv_heap s'))"
proof (cases "\<exists>xs. inputs = Some xs \<and> 0 < length xs \<and> length xs \<le> 64")
  case False
  then have "r' = VPS_ARGUMENTS_INVALID_ARGUMENT" "a' = a" "s' = s" "arguments_meaning inputs = None"
    using run by (auto simp: vps_arguments_parse_def arguments_meaning_def split: option.splits if_splits)
  with a show ?thesis by (simp add: parse_outcome_def arguments_in_def)
next
  case True
  then obtain xs where xs: "inputs = Some xs" "xs \<noteq> []" "length xs \<le> 64" by auto
  have init: "args_initialized a" using a by (simp add: arguments_in_def)
  show ?thesis
  proof (cases "inputs_fit xs")
    case False
    then have "arguments_total xs 0 = None"
      using arguments_total_exact [of 0 xs] by (auto simp: inputs_fit_def split: if_splits)
    then have "r' = VPS_ARGUMENTS_LIMIT_EXCEEDED" "a' = a" "srv_heap s' = srv_heap s"
      using run xs init by (auto simp: vps_arguments_parse_def)
    with a False xs show ?thesis by (simp add: parse_outcome_def arguments_in_def arguments_meaning_def secret_in_def)
  next
    case fit: True
    then obtain n where n: "arguments_total xs 0 = Some n" "unat n = inputs_size (map the xs)"
      using arguments_total_exact [of 0 xs] by (auto simp: inputs_fit_def split: if_splits)
    have small: "0 < unat n" "unat n \<le> 65536" using n(2) fit xs(2) by (cases xs; simp add: inputs_fit_def)+
    obtain diag d2 s2 where rep: "arguments_replace a (map the xs) n diag s = (r', a', d2, s2)"
      and s2: "srv_heap s' = srv_heap s2"
      using run xs init n by (auto simp: vps_arguments_parse_def split: prod.splits)
    from replace_step [OF a n(2) small rep] s2 fit xs show ?thesis
      by (auto simp: arguments_meaning_def secret_in_def)
  qed
qed

end

text \<open>The text of an argument, through the accessor of the interface.\<close>

lemma argument_text_hold:
  assumes hold: "args_hold a given used" and "args_initialized a" "owned_ok (sens_storage (args_storage a))"
  shows "case given i of None \<Rightarrow> vps_argument_text a i = None
    | Some t \<Rightarrow> \<exists>rest. vps_argument_text a i = Some (c_bytes t @ rest, of_nat (length t))"
proof (cases "i = VPS_ARGUMENT_ID_UNKNOWN")
  case True
  with hold show ?thesis
    by (simp add: args_hold_def vps_argument_text_def vps_arguments_get_def vps_argument_id_is_valid_def)
next
  case False
  obtain d where d: "owned_memory (sens_storage (args_storage a)) = Some d" "used \<le> length d" "length d \<le> 65536"
    and vh: "value_holds i (args_values a i) d used (given i)" using hold False by (auto simp: args_hold_def)
  show ?thesis
  proof (cases "given i")
    case None
    then show ?thesis using vh by (simp add: value_holds_def vps_argument_text_def vps_arguments_get_def)
  next
    case (Some t)
    let ?v = "args_values a i"
    have v: "argument_typed i (value_offset ?v) t = Inr ?v" and fits: "unat (value_offset ?v) + length t + 1 \<le> length d"
      and at: "take (length t + 1) (drop (unat (value_offset ?v)) d) = c_bytes t"
      using vh Some d(2) by (auto simp: value_holds_def)
    note val = argument_typed_value [OF v]
    have size: "unat (owned_size (sens_storage (args_storage a))) = length d"
      using assms(3) d(1) by (simp add: owned_ok_def)
    have len: "unat (of_nat (length t) :: size_t) = length t" using fits d(3) by (intro unat_small_nat) simp
    have le: "value_offset ?v \<le> owned_size (sens_storage (args_storage a))" using fits size by (simp add: word_le_nat_alt)
    then have "\<not> value_length ?v \<ge> owned_size (sens_storage (args_storage a)) - value_offset ?v"
      using fits size val len by (simp add: not_le word_less_nat_alt unat_sub)
    then have "vps_argument_text a i = Some (drop (unat (value_offset ?v)) d, of_nat (length t))"
      using le d(1) val False assms(2)
      by (simp add: vps_argument_text_def vps_arguments_get_def vps_argument_id_is_valid_def Let_def not_le not_less)
    moreover have "drop (unat (value_offset ?v)) d = c_bytes t @ drop (length t + 1) (drop (unat (value_offset ?v)) d)"
      using at by (metis append_take_drop_id)
    ultimately show ?thesis using Some by auto
  qed
qed

text \<open>With a heap that serves every request and a platform that always zeroes, only the inputs decide.\<close>

definition platform_always_zeroes :: "'p VpsPlatformOperations option \<Rightarrow> bool" where
  "platform_always_zeroes ops \<longleftrightarrow> (\<forall>bytes p. fst (vps_platform_secure_zero ops bytes p) = VPS_PLATFORM_OK)"

lemma release_zeroes:
  assumes "sens_initialized m" "platform_always_zeroes (sens_operations m)"
  shows "fst (vps_sensitive_memory_release m s) = VPS_SECURE_MEMORY_OK"
proof -
  have "fst (sensitive_zero m p) = VPS_PLATFORM_OK" for p
    using assms(2) by (auto simp: sensitive_zero_def Let_def platform_always_zeroes_def split: prod.splits) (metis fst_conv)
  then show ?thesis using assms(1) by (auto simp: vps_sensitive_memory_release_def split: prod.splits) (metis fst_conv)
qed

lemma discard_zeroes:
  "sens_initialized (args_storage rep) \<Longrightarrow> platform_always_zeroes (sens_operations (args_storage rep)) \<Longrightarrow>
   fst (arguments_discard a rep r diag s) = r"
  using release_zeroes [of "args_storage rep" s] by (auto simp: arguments_discard_def split: prod.splits)

lemma parse_one_result:
  "vps_arguments_parse_one a input off = (r, a', off', diag) \<Longrightarrow>
   r \<notin> {VPS_ARGUMENTS_OUT_OF_MEMORY, VPS_ARGUMENTS_CLEANUP_FAILED} \<and>
   sens_initialized (args_storage a') = sens_initialized (args_storage a) \<and>
   sens_operations (args_storage a') = sens_operations (args_storage a)"
  by (auto simp: vps_arguments_parse_one_def argument_typed_def Let_def sensitive_write_def
      split: option.splits prod.splits if_splits sum.splits)

lemma parse_all_result:
  "arguments_parse_all inputs a off diag s = (r, a', diag', s') \<Longrightarrow>
   r \<notin> {VPS_ARGUMENTS_OUT_OF_MEMORY, VPS_ARGUMENTS_CLEANUP_FAILED} \<and>
   sens_initialized (args_storage a') = sens_initialized (args_storage a) \<and>
   sens_operations (args_storage a') = sens_operations (args_storage a)"
proof (induction inputs arbitrary: a off diag s)
  case (Cons input inputs)
  obtain r1 a1 off1 d1 where one: "vps_arguments_parse_one a input off = (r1, a1, off1, d1)" by (metis prod_cases4)
  show ?case
    using parse_one_result [OF one] Cons.prems Cons.IH [of a1 off1 d1 "vps_arguments_log d1 s"] one
    by (cases "r1 = VPS_ARGUMENTS_OK") auto
qed simp

lemma filled_zeroes:
  assumes "sens_initialized (args_storage a)" "sens_initialized (args_storage cleared)"
    and "platform_always_zeroes (sens_operations (args_storage a))" "platform_always_zeroes (sens_operations (args_storage cleared))"
  shows "fst (filled a inputs cleared diag s) \<notin> {VPS_ARGUMENTS_OUT_OF_MEMORY, VPS_ARGUMENTS_CLEANUP_FAILED}"
proof -
  obtain r2 p2 diag2 s2 where all: "arguments_parse_all inputs cleared 0 diag s = (r2, p2, diag2, s2)" by (metis prod_cases4)
  obtain r3 diag3 where val: "vps_arguments_validate_combinations p2 diag2 = (r3, diag3)" by fastforce
  have r3: "r3 \<in> {VPS_ARGUMENTS_OK, VPS_ARGUMENTS_INCOMPATIBLE}"
    using val by (auto simp: vps_arguments_validate_combinations_def Let_def split: if_splits)
  note pa = parse_all_result [OF all]
  have d: "fst (arguments_discard a p2 r dg s2) = r" for r dg
    by (intro discard_zeroes) (use pa assms in simp_all)
  have i: "fst (arguments_install a p2 s2) = VPS_ARGUMENTS_OK"
    using release_zeroes [OF assms(1,3), of s2] by (auto simp: arguments_install_def split: prod.splits)
  show ?thesis using all val r3 pa d i by (auto simp: filled_def)
qed

lemma parse_decided:
  assumes a: "arguments_in system_allocator (\<lambda>_. True) heap_live a s" and "sens_initialized (args_storage a)"
    and zero: "platform_always_zeroes (sens_operations (args_storage a))" and "\<And>n. heap_oracle (srv_heap s) n"
    and run: "vps_arguments_parse a inputs s = (r, a', diag, s')"
  shows "r \<notin> {VPS_ARGUMENTS_OUT_OF_MEMORY, VPS_ARGUMENTS_CLEANUP_FAILED}"
proof (cases "inputs = None \<or> the inputs = [] \<or> length (the inputs) > 64 \<or> arguments_total (the inputs) 0 = None")
  case True
  then show ?thesis using run a by (auto simp: vps_arguments_parse_def arguments_in_def split: if_splits)
next
  case False
  then obtain xs n where xs: "inputs = Some xs" "xs \<noteq> []" "length xs \<le> 64" "arguments_total xs 0 = Some n" by auto
  let ?ops = "sens_operations (args_storage a)"
  let ?rep = "\<lambda>m. \<lparr>args_storage = m, args_values = (\<lambda>_. zero_value), args_presence = 0, args_initialized = True\<rparr>"
  let ?m = "\<lparr>sens_storage = \<lparr>owned_allocator = system_allocator, owned_memory = None, owned_size = 0, owned_flag = False\<rparr>,
      sens_operations = ?ops, sens_initialized = True\<rparr>"
  have init: "vps_arguments_init (Some system_allocator) ?ops = (VPS_ARGUMENTS_OK, Some (?rep ?m))"
    using a system.valid
    by (simp add: arguments_in_def vps_arguments_init_def vps_sensitive_memory_init_def vps_owned_memory_init_def)
  obtain sr st s1 where run1: "vps_sensitive_memory_allocate ?m n s = (sr, st, s1)" by (metis prod_cases3)
  have sr: "sr = VPS_SECURE_MEMORY_OK" and st: "sens_initialized st" "sens_operations st = ?ops"
    using run1 assms(4) system.valid
    by (auto simp: vps_sensitive_memory_allocate_def vps_owned_memory_allocate_def vps_memory_allocate_def
        call_allocate_def vps_system_allocate_def c_malloc_def vps_secure_memory_from_memory_result_def Let_def
        split: if_splits prod.splits)
  note alloc = run1 [unfolded sr]
  have "fst (vps_arguments_parse a inputs s) =
      fst (filled a (map the xs) (?rep (sensitive_write st 0 (replicate (unat n) 0)))
        (vps_arguments_set_diagnostic VPS_ARGUMENTS_OK VPS_ARGUMENT_ID_UNKNOWN 0) s1)"
    using a xs alloc
    by (auto simp: vps_arguments_parse_def arguments_in_def secret_in_def arguments_replace_def init filled_def Let_def
        split: prod.splits)
  moreover have "sens_initialized (args_storage (?rep (sensitive_write st 0 b)))"
      "sens_operations (args_storage (?rep (sensitive_write st 0 b))) = ?ops" for b
    using st by (simp_all add: sensitive_write_def)
  ultimately show ?thesis
    using filled_zeroes [OF assms(2) _ zero, of "?rep (sensitive_write st 0 (replicate (unat n) 0))"] zero run
    by (metis fst_conv)
qed

section \<open>Properties\<close>

text \<open>C33. The check of UTF-8 is exact: the bytes of a value pass if and only if they are the encoding of some sequence of
  Unicode scalar values, so overlong forms, surrogates, truncated sequences and stray continuation bytes are refused,
  and nothing else is.\<close>

theorem argument_utf8_exact:
  "vps_argument_utf8_is_valid bytes \<longleftrightarrow> (\<exists>cs. list_all scalar_value cs \<and> bytes = concat (map utf8_encode cs))"
  by (auto simp: vps_argument_utf8_is_valid_def utf8_check_exact utf8_text_def list_all_iff)

text \<open>C34. \<open>vps_arguments_parse\<close> implements the reading of its inputs as a finite map. On success every input has the form
  \<open>name = value\<close> with a known name that no other input gives, every value decodes, fits its limit and its type, the
  combination is admitted, and each argument's text can be read back from the block, followed by its terminator; the
  old block is the only one that went back, wiped. On failure the arguments are what they were, nothing stays
  allocated, and the inputs have no meaning or memory ran out; only when wiping fails is less known. Whatever happens,
  no block goes back that is not zeroed. When memory and wiping do not fail, success is decided by the meaning of the
  inputs alone.\<close>

theorem arguments_parse_refines:
  assumes "arguments_in system_allocator (\<lambda>_. True) heap_live a s"
    and "vps_arguments_parse a inputs s = (r, a', diag, s')"
  shows "wiped heap_freed (srv_heap s) (srv_heap s') \<and>
    (if r = VPS_ARGUMENTS_OK
     then (\<exists>given. arguments_meaning inputs = Some given \<and>
        (\<forall>i. case given i of None \<Rightarrow> vps_argument_text a' i = None
           | Some t \<Rightarrow> \<exists>rest. vps_argument_text a' i = Some (c_bytes t @ rest, of_nat (length t)))) \<and>
       heap_live (srv_heap s') = heap_live (srv_heap s) - owned_blocks (sens_storage (args_storage a)) +
         owned_blocks (sens_storage (args_storage a'))
     else if r = VPS_ARGUMENTS_CLEANUP_FAILED
     then args_values a' = args_values a \<and> args_presence a' = args_presence a
     else a' = a \<and> heap_live (srv_heap s') = heap_live (srv_heap s) \<and>
       (r = VPS_ARGUMENTS_OUT_OF_MEMORY \<or> arguments_meaning inputs = None)) \<and>
    (sens_initialized (args_storage a) \<and> platform_always_zeroes (sens_operations (args_storage a)) \<and>
       (\<forall>n. heap_oracle (srv_heap s) n) \<longrightarrow>
     (r = VPS_ARGUMENTS_OK \<longleftrightarrow> arguments_meaning inputs \<noteq> None))"
proof -
  note p = system_record.parse_step [OF assms]
  have texts: "\<forall>i. case given i of None \<Rightarrow> vps_argument_text a' i = None
      | Some t \<Rightarrow> \<exists>rest. vps_argument_text a' i = Some (c_bytes t @ rest, of_nat (length t))"
    if "args_hold a' given used" "args_initialized a'" for given used
    using argument_text_hold [OF that] p by (simp add: secret_in_def)
  have "sens_initialized (args_storage a) \<and> platform_always_zeroes (sens_operations (args_storage a)) \<and>
       (\<forall>n. heap_oracle (srv_heap s) n) \<Longrightarrow> r \<noteq> VPS_ARGUMENTS_OUT_OF_MEMORY \<and> r \<noteq> VPS_ARGUMENTS_CLEANUP_FAILED"
    using parse_decided [OF assms(1) _ _ _ assms(2)] by simp
  with p texts show ?thesis unfolding parse_outcome_def by (auto split: if_splits)
qed

abbreviation (input) witness_platform :: "unit VpsPlatformOperations" where
  "witness_platform \<equiv> zeroing_platform\<lparr>capabilities := 0xff\<rparr>"

abbreviation (input) witness_arguments :: "(heap, unit) VpsParsedArguments" where
  "witness_arguments \<equiv> \<lparr>args_storage = \<lparr>sens_storage = \<lparr>owned_allocator = system_allocator, owned_memory = None,
     owned_size = 0, owned_flag = False\<rparr>, sens_operations = Some witness_platform, sens_initialized = True\<rparr>,
     args_values = (\<lambda>_. zero_value), args_presence = 0, args_initialized = True\<rparr>"

abbreviation (input) witness_inputs :: "string option list" where
  "witness_inputs \<equiv> [Some ''service = main'', Some ''source=query'', Some ''query=it'']"

lemmas argument_evaluation =
  argument_split_def trim_left_def trim_right_def vps_argument_name_character_is_valid_def vps_argument_ascii_lower_def
  char_between_def vps_argument_find_id_def vps_argument_definitions_def argument_definition_def
  vps_argument_decode_value_def vps_argument_value_bytes_are_valid_def vps_argument_utf8_is_valid_def char_byte_def
  definition_of_def argument_typed_def vps_argument_parse_enum_def argument_enum_values_def Let_def upt_rec

lemma witness_read:
  "read_argument ''service = main'' = Some (VPS_ARGUMENT_ID_SERVICE, ''main'')"
  "read_argument ''source=query'' = Some (VPS_ARGUMENT_ID_SOURCE, ''query'')"
  "read_argument ''query=it'' = Some (VPS_ARGUMENT_ID_QUERY, ''it'')"
  by (simp_all add: read_argument_def argument_evaluation)

lemma witness_meaning:
  "arguments_meaning (Some witness_inputs) =
     Some [VPS_ARGUMENT_ID_SERVICE \<mapsto> ''main'', VPS_ARGUMENT_ID_SOURCE \<mapsto> ''query'', VPS_ARGUMENT_ID_QUERY \<mapsto> ''it'']"
proof -
  have "combination_ok [VPS_ARGUMENT_ID_SERVICE \<mapsto> ''main'', VPS_ARGUMENT_ID_SOURCE \<mapsto> ''query'', VPS_ARGUMENT_ID_QUERY \<mapsto> ''it'']"
    by (auto simp: combination_ok_def)
  then show ?thesis by (simp add: arguments_meaning_def inputs_fit_def witness_read)
qed

theorem arguments_parse_refines_witness:
  "\<exists>a' diag s' rest. vps_arguments_parse witness_arguments (Some witness_inputs) (witness_services witness_heap) =
      (VPS_ARGUMENTS_OK, a', diag, s') \<and>
    vps_argument_text a' VPS_ARGUMENT_ID_SERVICE = Some (c_bytes ''main'' @ rest, 4)"
proof -
  obtain r a' diag s' where run: "vps_arguments_parse witness_arguments (Some witness_inputs) (witness_services witness_heap) =
      (r, a', diag, s')" by (metis prod_cases4)
  have zero: "platform_zeroes (Some witness_platform)" "platform_always_zeroes (Some witness_platform)"
    by (auto simp: platform_zeroes_def platform_always_zeroes_def vps_platform_secure_zero_def platform_dispatch_def
        zeroed_def list_all_iff vps_posix_stub_operations_def)
  have "arguments_in system_allocator (\<lambda>_. True) heap_live witness_arguments (witness_services witness_heap)"
    using zero(1) by (simp add: arguments_in_def secret_in_def owned_ok_def owned_blocks_def
        vps_platform_validate_operations_def vps_posix_stub_operations_def)
  note p = arguments_parse_refines [OF this run]
  then have r: "r = VPS_ARGUMENTS_OK" using zero(2) witness_meaning by simp
  with p witness_meaning have "\<forall>i. case [VPS_ARGUMENT_ID_SERVICE \<mapsto> ''main'', VPS_ARGUMENT_ID_SOURCE \<mapsto> ''query'', VPS_ARGUMENT_ID_QUERY \<mapsto> ''it''] i of
      None \<Rightarrow> vps_argument_text a' i = None
    | Some t \<Rightarrow> \<exists>rest. vps_argument_text a' i = Some (c_bytes t @ rest, of_nat (length t))" by simp
  from spec [OF this, of VPS_ARGUMENT_ID_SERVICE] r run show ?thesis by auto
qed

end
