(* ===== verification/Vps_Connection_String.thy ===== *)
theory Vps_Connection_String
  imports Vps_Credential Vps_Arguments
begin

text \<open>
  The connection configuration of a virtual table, \<open>src/src/vps_connection_string.c\<close>: it is resolved from a credential
  reference, a service, a profile or a connection string, copied into secret memory and swapped in as a whole.

  The parser of connection strings is code of the client. It may hand configurations to the callback it is given, so it
  is a tree of the calls it makes, \<open>conninfo_run\<close>. A text pointer is the bytes from it on; a member of a configuration
  that points there is the string up to the terminator. \<open>vps_argument_text\<close> leaves the length unset when there is no
  text; the one function that reads it then takes zero here.
\<close>

section \<open>Data\<close>

datatype VpsConnectionMode =
    VPS_CONNECTION_MODE_NONE
  | VPS_CONNECTION_MODE_CREDENTIAL_REF
  | VPS_CONNECTION_MODE_SERVICE
  | VPS_CONNECTION_MODE_PROFILE
  | VPS_CONNECTION_MODE_CONNSTR

datatype VpsConnectionStringResult =
    VPS_CONNECTION_STRING_OK
  | VPS_CONNECTION_STRING_INVALID_ARGUMENT
  | VPS_CONNECTION_STRING_INVALID_MODE
  | VPS_CONNECTION_STRING_INVALID_VALUE
  | VPS_CONNECTION_STRING_LIMIT_EXCEEDED
  | VPS_CONNECTION_STRING_PROVIDER_UNAVAILABLE
  | VPS_CONNECTION_STRING_RESOLVE_FAILED
  | VPS_CONNECTION_STRING_ENVIRONMENT_ERROR
  | VPS_CONNECTION_STRING_CONNINFO_REJECTED
  | VPS_CONNECTION_STRING_OUT_OF_MEMORY
  | VPS_CONNECTION_STRING_CLEANUP_FAILED
  | VPS_CONNECTION_STRING_OUT_OF_RANGE int

datatype conninfo_run =
    Conninfo_return VpsConnectionStringResult
  | Conninfo_consume "VpsCredentialConfig option" "VpsConnectionStringResult \<Rightarrow> conninfo_run"

type_synonym VpsConninfoParser = "(u8 list \<times> size_t) option \<Rightarrow> conninfo_run"

record VpsProfileEnvironmentEntry =
  entry_name :: "string option"
  entry_value :: "string option"

record VpsConnectionResolveOptions =
  opt_conninfo_parser :: "VpsConninfoParser option"
  opt_profile_environment :: "VpsProfileEnvironmentEntry list option"
  opt_profile_environment_count :: size_t

record ('w, 'p) VpsConnectionConfig =
  conn_config :: VpsCredentialConfig
  conn_storage :: "('w, 'p) VpsSensitiveMemory"
  conn_mode :: VpsConnectionMode
  conn_provider_id :: u64
  conn_generation :: u64
  conn_normalized_profile :: string
  conn_persistent_connstr_risk :: bool
  conn_initialized :: bool

abbreviation (input) VPS_PROFILE_NAME_MAX_LENGTH :: nat where "VPS_PROFILE_NAME_MAX_LENGTH \<equiv> 64"
abbreviation (input) profile_slot_size :: nat where "profile_slot_size \<equiv> 4097"

primrec profile_suffix :: "credential_member \<Rightarrow> string" where
  "profile_suffix Hosts = ''HOST''"
| "profile_suffix Ports = ''PORT''"
| "profile_suffix User = ''USER''"
| "profile_suffix Password = ''PASSWORD''"
| "profile_suffix Dbname = ''DBNAME''"
| "profile_suffix Service = ''SERVICE''"
| "profile_suffix Service_file = ''SERVICE_FILE''"
| "profile_suffix Sslmode = ''SSLMODE''"
| "profile_suffix Sslrootcert = ''SSLROOTCERT''"
| "profile_suffix Sslcert = ''SSLCERT''"
| "profile_suffix Sslkey = ''SSLKEY''"
| "profile_suffix Sslcrl = ''SSLCRL''"
| "profile_suffix Channel_binding = ''CHANNEL_BINDING''"
| "profile_suffix Target_session_attrs = ''TARGET_SESSION_ATTRS''"
| "profile_suffix Connect_timeout = ''CONNECT_TIMEOUT''"
| "profile_suffix Statement_timeout = ''STATEMENT_TIMEOUT''"
| "profile_suffix Lock_timeout = ''LOCK_TIMEOUT''"
| "profile_suffix Application_name = ''APPLICATION_NAME''"
| "profile_suffix Search_path = ''SEARCH_PATH''"

definition vps_connection_fields :: "credential_member list" where
  "vps_connection_fields =
     [Hosts, Ports, User, Password, Dbname, Service, Service_file, Sslmode, Sslrootcert, Sslcert, Sslkey, Sslcrl,
      Channel_binding, Target_session_attrs, Connect_timeout, Statement_timeout, Lock_timeout, Application_name,
      Search_path]"

section \<open>Names\<close>

fun vps_connection_mode_name :: "VpsConnectionMode \<Rightarrow> string" where
  "vps_connection_mode_name VPS_CONNECTION_MODE_CREDENTIAL_REF = ''credential_ref''"
| "vps_connection_mode_name VPS_CONNECTION_MODE_SERVICE = ''service''"
| "vps_connection_mode_name VPS_CONNECTION_MODE_PROFILE = ''profile''"
| "vps_connection_mode_name VPS_CONNECTION_MODE_CONNSTR = ''connstr''"
| "vps_connection_mode_name VPS_CONNECTION_MODE_NONE = ''none''"

fun vps_connection_string_result_name :: "VpsConnectionStringResult \<Rightarrow> string" where
  "vps_connection_string_result_name VPS_CONNECTION_STRING_OK = ''ok''"
| "vps_connection_string_result_name VPS_CONNECTION_STRING_INVALID_ARGUMENT = ''invalid_argument''"
| "vps_connection_string_result_name VPS_CONNECTION_STRING_INVALID_MODE = ''invalid_mode''"
| "vps_connection_string_result_name VPS_CONNECTION_STRING_INVALID_VALUE = ''invalid_value''"
| "vps_connection_string_result_name VPS_CONNECTION_STRING_LIMIT_EXCEEDED = ''limit_exceeded''"
| "vps_connection_string_result_name VPS_CONNECTION_STRING_PROVIDER_UNAVAILABLE = ''provider_unavailable''"
| "vps_connection_string_result_name VPS_CONNECTION_STRING_RESOLVE_FAILED = ''resolve_failed''"
| "vps_connection_string_result_name VPS_CONNECTION_STRING_ENVIRONMENT_ERROR = ''environment_error''"
| "vps_connection_string_result_name VPS_CONNECTION_STRING_CONNINFO_REJECTED = ''conninfo_rejected''"
| "vps_connection_string_result_name VPS_CONNECTION_STRING_OUT_OF_MEMORY = ''out_of_memory''"
| "vps_connection_string_result_name VPS_CONNECTION_STRING_CLEANUP_FAILED = ''cleanup_failed''"
| "vps_connection_string_result_name (VPS_CONNECTION_STRING_OUT_OF_RANGE _) = ''unknown''"

section \<open>Values\<close>

definition control_char :: "char \<Rightarrow> bool" where
  "control_char c \<longleftrightarrow> char_code c < 0x20 \<or> char_code c = 0x7f"

definition vps_value_length :: "string option \<Rightarrow> size_t option" where
  "vps_value_length value_ptr =
     (case value_ptr of
        None \<Rightarrow> None
      | Some s \<Rightarrow>
          if length s > VPS_CREDENTIAL_VALUE_MAX_LENGTH \<or> list_ex control_char s then None
          else if s = [] then None
          else Some (of_nat (length s)))"

definition connection_copy_config ::
    "('w, 'p) VpsConnectionConfig \<Rightarrow> VpsCredentialConfig option \<Rightarrow> ('w, 'p, 'c) services \<Rightarrow>
     VpsConnectionStringResult \<times> ('w, 'p) VpsConnectionConfig \<times> ('w, 'p, 'c) services" where
  "connection_copy_config destination source_ptr s =
     (case source_ptr of
        None \<Rightarrow> (VPS_CONNECTION_STRING_INVALID_VALUE, destination, s)
      | Some source \<Rightarrow>
          let present = abi_present_fields (config_header source)
          in if abi_api_version (config_header source) \<noteq> VPS_API_VERSION \<or>
                present AND NOT VPS_CREDENTIAL_FIELDS_CURRENT \<noteq> 0 \<or> present AND VPS_CREDENTIAL_FIELDS_CURRENT = 0
             then (VPS_CONNECTION_STRING_INVALID_VALUE, destination, s)
             else case config_total (has_field source) (\<lambda>m. vps_value_length (config_member source m))
                         vps_connection_fields 0 of
               None \<Rightarrow> (VPS_CONNECTION_STRING_INVALID_VALUE, destination, s)
             | Some total_size \<Rightarrow>
                 (case vps_sensitive_memory_allocate (conn_storage destination) total_size s of
                    (allocated, storage, s1) \<Rightarrow>
                      if allocated \<noteq> VPS_SECURE_MEMORY_OK
                      then (VPS_CONNECTION_STRING_OUT_OF_MEMORY, destination\<lparr>conn_storage := storage\<rparr>, s1)
                      else case config_copy (has_field source) (config_member source) vps_connection_fields 0
                                  storage (conn_config destination) of
                        (storage', config) \<Rightarrow>
                          (VPS_CONNECTION_STRING_OK,
                           destination\<lparr>conn_storage := storage',
                             conn_config := config\<lparr>config_header := (config_header config)\<lparr>abi_present_fields :=
                               present AND VPS_CREDENTIAL_FIELDS_CURRENT\<rparr>\<rparr>\<rparr>, s1)))"

definition vps_consume_conninfo ::
    "('w, 'p) VpsConnectionConfig \<Rightarrow> VpsCredentialConfig option \<Rightarrow> ('w, 'p, 'c) services \<Rightarrow>
     VpsConnectionStringResult \<times> ('w, 'p) VpsConnectionConfig \<times> ('w, 'p, 'c) services" where
  "vps_consume_conninfo context config s = connection_copy_config context config s"

definition profile_char :: "u8 \<Rightarrow> char option" where
  "profile_char byte =
     (let c = byte_char byte
      in if char_between (CHR ''a'') (CHR ''z'') c then Some (char_of (char_code c - char_code (CHR ''a'') + char_code (CHR ''A'')))
         else if char_between (CHR ''A'') (CHR ''Z'') c \<or> char_between (CHR ''0'') (CHR ''9'') c \<or> c = CHR ''_'' then Some c
         else if c = CHR ''-'' \<or> c = CHR ''.'' then Some (CHR ''_'')
         else None)"

text \<open>The characters are written one by one, so a name that is refused leaves its first characters in the output.\<close>

fun normalize_chars :: "u8 list \<Rightarrow> bool \<times> string" where
  "normalize_chars [] = (True, [])"
| "normalize_chars (byte # bytes) =
     (case profile_char byte of
        None \<Rightarrow> (False, [])
      | Some c \<Rightarrow> (case normalize_chars bytes of (ok, out) \<Rightarrow> (ok, c # out)))"

definition vps_normalize_profile :: "(u8 list \<times> size_t) option \<Rightarrow> string \<Rightarrow> bool \<times> string" where
  "vps_normalize_profile text_ptr out =
     (case text_ptr of
        None \<Rightarrow> (False, out)
      | Some (bytes, n) \<Rightarrow>
          if n = 0 \<or> n > of_nat VPS_PROFILE_NAME_MAX_LENGTH then (False, out)
          else normalize_chars (take (unat n) bytes))"

definition service_name_char :: "u8 \<Rightarrow> bool" where
  "service_name_char byte \<longleftrightarrow>
     (let c = byte_char byte
      in char_between (CHR ''a'') (CHR ''z'') c \<or> char_between (CHR ''A'') (CHR ''Z'') c \<or>
         char_between (CHR ''0'') (CHR ''9'') c \<or> c = CHR ''_'' \<or> c = CHR ''-'' \<or> c = CHR ''.'')"

definition vps_safe_service_name :: "(u8 list \<times> size_t) option \<Rightarrow> bool" where
  "vps_safe_service_name text_ptr =
     (case text_ptr of
        None \<Rightarrow> False
      | Some (bytes, n) \<Rightarrow>
          if n = 0 \<or> n > 128 then False else list_all service_name_char (take (unat n) bytes))"

definition absolute_path :: "string \<Rightarrow> bool" where
  "absolute_path s \<longleftrightarrow>
     c_at s 0 = CHR ''/'' \<or> c_at s 0 = CHR 0x5C \<or>
     ((char_between (CHR ''A'') (CHR ''Z'') (c_at s 0) \<or> char_between (CHR ''a'') (CHR ''z'') (c_at s 0)) \<and>
      c_at s 1 = CHR '':'' \<and> (c_at s 2 = CHR 0x5C \<or> c_at s 2 = CHR ''/''))"

definition contains_dots :: "string \<Rightarrow> bool" where
  "contains_dots s = list_ex (\<lambda>i. c_at s i = CHR ''.'' \<and> c_at s (i + 1) = CHR ''.'') [0..<length s]"

definition service_file_char :: "u8 \<Rightarrow> bool" where
  "service_file_char byte \<longleftrightarrow>
     (let c = byte_char byte
      in \<not> (control_char c \<or> c = CHR ''<'' \<or> c = CHR ''>'' \<or> c = CHR 0x22 \<or> c = CHR ''|'' \<or> c = CHR ''?'' \<or>
            c = CHR ''*''))"

definition vps_safe_service_file :: "(u8 list \<times> size_t) option \<Rightarrow> bool" where
  "vps_safe_service_file text_ptr =
     (case text_ptr of
        None \<Rightarrow> False
      | Some (bytes, n) \<Rightarrow>
          if n < 3 \<or> n > of_nat VPS_CREDENTIAL_VALUE_MAX_LENGTH then False
          else let s = c_string bytes
               in if \<not> absolute_path (map byte_char bytes) \<or> contains_dots s \<or> CHR ''%'' \<in> set s \<or> CHR ''$'' \<in> set s
                  then False
                  else if \<not> list_all service_file_char (take (unat n) bytes) then False
                  else bytes ! unat n = 0)"

section \<open>The modes\<close>

definition source_config :: "u64 \<Rightarrow> (credential_member \<Rightarrow> string option) \<Rightarrow> VpsCredentialConfig" where
  "source_config present members =
     \<lparr>config_header = \<lparr>abi_structure_size = sizeof_VpsCredentialConfig, abi_api_version = VPS_API_VERSION,
        abi_present_fields = present\<rparr>, config_member = members\<rparr>"

definition vps_resolve_service ::
    "('w, 'p) VpsConnectionConfig \<Rightarrow> ('w, 'p) VpsParsedArguments \<Rightarrow> ('w, 'p, 'c) services \<Rightarrow>
     VpsConnectionStringResult \<times> ('w, 'p) VpsConnectionConfig \<times> ('w, 'p, 'c) services" where
  "vps_resolve_service out arguments s =
     (let service = vps_argument_text arguments VPS_ARGUMENT_ID_SERVICE;
          service_file = vps_argument_text arguments VPS_ARGUMENT_ID_SERVICE_FILE
      in if \<not> vps_safe_service_name service \<or> (service_file \<noteq> None \<and> \<not> vps_safe_service_file service_file)
         then (VPS_CONNECTION_STRING_INVALID_VALUE, out, s)
         else let members = Map.empty(Service \<mapsto> c_string (fst (the service)));
                  source = (case service_file of
                      None \<Rightarrow> source_config (member_bit Service) members
                    | Some (bytes, _) \<Rightarrow>
                        source_config (member_bit Service OR member_bit Service_file)
                          (members(Service_file \<mapsto> c_string bytes)))
              in connection_copy_config out (Some source) s)"

definition vps_profile_field :: "string \<Rightarrow> credential_member option" where
  "vps_profile_field suffix = find (\<lambda>m. profile_suffix m = suffix) vps_connection_fields"

definition vps_build_profile_name :: "nat \<Rightarrow> string \<Rightarrow> string option \<Rightarrow> string option" where
  "vps_build_profile_name output_size profile suffix =
     (let suffix_length = (case suffix of None \<Rightarrow> 0 | Some t \<Rightarrow> length t);
          required = length ''VPS_PROFILE_'' + length profile + 1 + suffix_length + 1
      in if required > output_size then None
         else Some (''VPS_PROFILE_'' @ profile @ ''_'' @ (case suffix of None \<Rightarrow> [] | Some t \<Rightarrow> t)))"

fun snapshot_entries ::
    "string \<Rightarrow> VpsProfileEnvironmentEntry list \<Rightarrow> VpsCredentialConfig \<Rightarrow> VpsCredentialConfig option" where
  "snapshot_entries prefix [] source = Some source"
| "snapshot_entries prefix (entry # entries) source =
     (case (entry_name entry, entry_value entry) of
        (Some name, Some v) \<Rightarrow>
          if take (length prefix) name \<noteq> prefix then None
          else (case vps_profile_field (drop (length prefix) name) of
                  None \<Rightarrow> None
                | Some field \<Rightarrow>
                    if has_field source field \<or> vps_value_length (Some v) = None then None
                    else snapshot_entries prefix entries
                      (source_config (abi_present_fields (config_header source) OR member_bit field)
                        ((config_member source)(field \<mapsto> v))))
      | _ \<Rightarrow> None)"

definition vps_resolve_profile_snapshot ::
    "('w, 'p) VpsConnectionConfig \<Rightarrow> VpsProfileEnvironmentEntry list \<Rightarrow> ('w, 'p, 'c) services \<Rightarrow>
     VpsConnectionStringResult \<times> ('w, 'p) VpsConnectionConfig \<times> ('w, 'p, 'c) services" where
  "vps_resolve_profile_snapshot out entries s =
     (case vps_build_profile_name (VPS_PROFILE_NAME_MAX_LENGTH + 14) (conn_normalized_profile out) None of
        None \<Rightarrow> (VPS_CONNECTION_STRING_LIMIT_EXCEEDED, out, s)
      | Some prefix \<Rightarrow>
          (case snapshot_entries prefix entries (source_config 0 Map.empty) of
             None \<Rightarrow> (VPS_CONNECTION_STRING_INVALID_VALUE, out, s)
           | Some source \<Rightarrow> connection_copy_config out (Some source) s))"

text \<open>The loop over the known fields: each variable is read into its own slot of the scratch block.\<close>

fun environment_fields ::
    "'p VpsPlatformOperations option \<Rightarrow> string \<Rightarrow> credential_member list \<Rightarrow> nat \<Rightarrow> ('w, 'p) VpsSensitiveMemory \<Rightarrow>
     VpsCredentialConfig \<Rightarrow> ('w, 'p, 'c) services \<Rightarrow>
     (VpsConnectionStringResult + VpsCredentialConfig) \<times> ('w, 'p) VpsSensitiveMemory \<times> ('w, 'p, 'c) services" where
  "environment_fields operations profile [] index scratch source s = (Inr source, scratch, s)"
| "environment_fields operations profile (field # rest) index scratch source s =
     (case vps_build_profile_name (VPS_PROFILE_NAME_MAX_LENGTH + 40) profile (Some (profile_suffix field)) of
        None \<Rightarrow> (Inl VPS_CONNECTION_STRING_LIMIT_EXCEEDED, scratch, s)
      | Some name \<Rightarrow>
          (case vps_platform_environment_get operations (Some name)
                  (take profile_slot_size (drop (index * profile_slot_size) (the (vps_sensitive_memory_data scratch)))) 0
                  (srv_platform s) of
             (status, (slot, required), p) \<Rightarrow>
               let scratch' = sensitive_write scratch (index * profile_slot_size) slot; s' = s\<lparr>srv_platform := p\<rparr>
               in if status = VPS_PLATFORM_NOT_FOUND
                  then environment_fields operations profile rest (index + 1) scratch' source s'
                  else if status = VPS_PLATFORM_BUFFER_TOO_SMALL \<or> required > of_nat profile_slot_size
                  then (Inl VPS_CONNECTION_STRING_LIMIT_EXCEEDED, scratch', s')
                  else if status \<noteq> VPS_PLATFORM_OK \<or> required = 0 \<or> slot ! (unat required - 1) \<noteq> 0
                  then (Inl VPS_CONNECTION_STRING_ENVIRONMENT_ERROR, scratch', s')
                  else environment_fields operations profile rest (index + 1) scratch'
                    (source_config (abi_present_fields (config_header source) OR member_bit field)
                      ((config_member source)(field \<mapsto> c_string slot))) s'))"

definition vps_resolve_profile_environment ::
    "('w, 'p) VpsConnectionConfig \<Rightarrow> ('w, 'p, 'c) services \<Rightarrow>
     VpsConnectionStringResult \<times> ('w, 'p) VpsConnectionConfig \<times> ('w, 'p, 'c) services" where
  "vps_resolve_profile_environment out s =
     (case vps_size_multiply (of_nat profile_slot_size) (of_nat (length vps_connection_fields)) of
        (VPS_MEMORY_OK, Some total_size) \<Rightarrow>
          (case vps_sensitive_memory_init (Some (owned_allocator (sens_storage (conn_storage out))))
                  (sens_operations (conn_storage out)) of
             (VPS_SECURE_MEMORY_OK, Some scratch0) \<Rightarrow>
               (case vps_sensitive_memory_allocate scratch0 total_size s of
                  (allocated, scratch1, s1) \<Rightarrow>
                    if allocated \<noteq> VPS_SECURE_MEMORY_OK then (VPS_CONNECTION_STRING_OUT_OF_MEMORY, out, s1)
                    else case environment_fields (sens_operations (conn_storage out)) (conn_normalized_profile out)
                                vps_connection_fields 0 scratch1 (source_config 0 Map.empty) s1 of
                      (Inl result, scratch2, s2) \<Rightarrow>
                        (result, out, snd (snd (vps_sensitive_memory_release scratch2 s2)))
                    | (Inr source, scratch2, s2) \<Rightarrow>
                        (case connection_copy_config out (Some source) s2 of (result, out', s3) \<Rightarrow>
                           (case vps_sensitive_memory_release scratch2 s3 of (released, _, s4) \<Rightarrow>
                              (if released \<noteq> VPS_SECURE_MEMORY_OK then VPS_CONNECTION_STRING_CLEANUP_FAILED else result,
                               out', s4))))
           | _ \<Rightarrow> (VPS_CONNECTION_STRING_OUT_OF_MEMORY, out, s))
      | _ \<Rightarrow> (VPS_CONNECTION_STRING_OUT_OF_MEMORY, out, s))"

definition vps_resolve_profile ::
    "('w, 'p) VpsConnectionConfig \<Rightarrow> ('w, 'p) VpsParsedArguments \<Rightarrow> VpsConnectionResolveOptions \<Rightarrow> ('w, 'p, 'c) services \<Rightarrow>
     VpsConnectionStringResult \<times> ('w, 'p) VpsConnectionConfig \<times> ('w, 'p, 'c) services" where
  "vps_resolve_profile out arguments options s =
     (case vps_normalize_profile (vps_argument_text arguments VPS_ARGUMENT_ID_PROFILE) (conn_normalized_profile out) of
        (ok, profile) \<Rightarrow>
          let out1 = out\<lparr>conn_normalized_profile := profile\<rparr>
          in if \<not> ok then (VPS_CONNECTION_STRING_INVALID_VALUE, out1, s)
             else if opt_profile_environment options \<noteq> None \<or> opt_profile_environment_count options \<noteq> 0
             then if opt_profile_environment options = None \<or> opt_profile_environment_count options = 0
                  then (VPS_CONNECTION_STRING_INVALID_ARGUMENT, out1, s)
                  else vps_resolve_profile_snapshot out1
                    (take (unat (opt_profile_environment_count options)) (the (opt_profile_environment options))) s
             else vps_resolve_profile_environment out1 s)"

definition vps_resolve_reference ::
    "('w, 'p) VpsConnectionConfig \<Rightarrow> ('w, 'p) VpsParsedArguments \<Rightarrow> ('p, 'x) VpsCredentialRegistry option \<Rightarrow> 'x \<Rightarrow>
     ('w, 'p, 'c) services \<Rightarrow>
     VpsConnectionStringResult \<times> ('w, 'p) VpsConnectionConfig \<times> ('p, 'x) VpsCredentialRegistry option \<times> 'x \<times> ('w, 'p, 'c) services" where
  "vps_resolve_reference out arguments registry_ptr x s =
     (let reference = vps_argument_text arguments VPS_ARGUMENT_ID_CREDENTIAL_REF;
          reference_length = (case reference of None \<Rightarrow> 0 | Some (_, n) \<Rightarrow> n)
      in case registry_ptr of
           None \<Rightarrow> (VPS_CONNECTION_STRING_PROVIDER_UNAVAILABLE, out, registry_ptr, x, s)
         | Some reg \<Rightarrow>
             (case (vps_size_to_uint32 reference_length,
                    vps_resolved_credential_init (Some (owned_allocator (sens_storage (conn_storage out))))
                      (sens_operations (conn_storage out))) of
                ((VPS_MEMORY_OK, Some length32), (VPS_CREDENTIAL_REGISTRY_OK, Some resolved)) \<Rightarrow>
                  (case vps_credential_registry_resolve reg (map_option (\<lambda>(bytes, _). take (unat length32) bytes) reference)
                          resolved x s of
                     (provider_result, reg1, resolved1, x1, s1) \<Rightarrow>
                       if provider_result \<noteq> VPS_CREDENTIAL_REGISTRY_OK
                       then (if provider_result = VPS_CREDENTIAL_REGISTRY_NOT_REGISTERED
                             then VPS_CONNECTION_STRING_PROVIDER_UNAVAILABLE else VPS_CONNECTION_STRING_RESOLVE_FAILED,
                             out, Some reg1, x1, snd (snd (vps_resolved_credential_cleanup resolved1 s1)))
                       else case connection_copy_config out (Some (resolved_config resolved1)) s1 of (result, out1, s2) \<Rightarrow>
                         let out2 = out1\<lparr>conn_provider_id := resolved_provider_id resolved1,
                                         conn_generation := resolved_generation resolved1\<rparr>
                         in case vps_resolved_credential_cleanup resolved1 s2 of (cleaned, _, s3) \<Rightarrow>
                              (if cleaned \<noteq> VPS_CREDENTIAL_REGISTRY_OK then VPS_CONNECTION_STRING_CLEANUP_FAILED else result,
                               out2, Some reg1, x1, s3))
              | _ \<Rightarrow> (VPS_CONNECTION_STRING_INVALID_VALUE, out, registry_ptr, x, s)))"

primrec run_conninfo ::
    "conninfo_run \<Rightarrow> ('w, 'p) VpsConnectionConfig \<Rightarrow> ('w, 'p, 'c) services \<Rightarrow>
     VpsConnectionStringResult \<times> ('w, 'p) VpsConnectionConfig \<times> ('w, 'p, 'c) services" where
  "run_conninfo (Conninfo_return result) out s = (result, out, s)"
| "run_conninfo (Conninfo_consume config continue) out s =
     (case vps_consume_conninfo out config s of (result, out', s') \<Rightarrow> run_conninfo (continue result) out' s')"

section \<open>The connection\<close>

definition vps_connection_log ::
    "('w, 'p) VpsConnectionConfig \<Rightarrow> VpsConnectionStringResult \<Rightarrow> ('w, 'p, 'c) services \<Rightarrow> ('w, 'p, 'c) services" where
  "vps_connection_log connection result s =
     (let level = (if result = VPS_CONNECTION_STRING_OK then VPS_LOG_LEVEL_INFO else VPS_LOG_LEVEL_WARN);
          items = [LogStr VPS_LOG_FIELD_OPERATION ''connection_config'',
                   LogStr VPS_LOG_FIELD_PHASE (vps_connection_mode_name (conn_mode connection)),
                   LogNum VPS_LOG_FIELD_PRESENCE_MASK (abi_present_fields (config_header (conn_config connection))),
                   LogStr VPS_LOG_FIELD_STATUS (vps_connection_string_result_name result)];
          extra = (if conn_mode connection = VPS_CONNECTION_MODE_PROFILE \<and> conn_normalized_profile connection \<noteq> []
                   then [LogStr VPS_LOG_FIELD_PROFILE (conn_normalized_profile connection)]
                   else if conn_mode connection = VPS_CONNECTION_MODE_SERVICE \<and>
                           config_member (conn_config connection) Service \<noteq> None
                   then [LogStr VPS_LOG_FIELD_SERVICE (the (config_member (conn_config connection) Service))]
                   else if conn_mode connection = VPS_CONNECTION_MODE_CREDENTIAL_REF
                   then [LogNum VPS_LOG_FIELD_PROVIDER_ID (conn_provider_id connection),
                         LogNum VPS_LOG_FIELD_GENERATION (conn_generation connection)]
                   else [])
      in case (srv_logger s, vps_log_event_init level) of
           (Some logger, (_, Some event)) \<Rightarrow>
             (case log_add_strict event items of
                None \<Rightarrow> s
              | Some event' \<Rightarrow> s\<lparr>srv_logger := vps_logger_emit (Some logger) (Some (log_add_each event' extra))\<rparr>)
         | _ \<Rightarrow> s)"

definition zero_connection :: "('w, 'p) VpsSensitiveMemory \<Rightarrow> ('w, 'p) VpsConnectionConfig" where
  "zero_connection storage = \<lparr>conn_config = zero_config, conn_storage = storage, conn_mode = VPS_CONNECTION_MODE_NONE,
     conn_provider_id = 0, conn_generation = 0, conn_normalized_profile = [], conn_persistent_connstr_risk = False,
     conn_initialized = False\<rparr>"

definition vps_connection_config_init ::
    "'w VpsAllocator option \<Rightarrow> 'p VpsPlatformOperations option \<Rightarrow>
     VpsConnectionStringResult \<times> ('w, 'p) VpsConnectionConfig option" where
  "vps_connection_config_init allocator operations =
     (case vps_sensitive_memory_init allocator operations of
        (VPS_SECURE_MEMORY_OK, Some storage) \<Rightarrow>
          (VPS_CONNECTION_STRING_OK,
           Some ((zero_connection storage)\<lparr>conn_config := empty_config, conn_initialized := True\<rparr>))
      | _ \<Rightarrow> (VPS_CONNECTION_STRING_INVALID_ARGUMENT, None))"

text \<open>After a cleanup the structure is all zeros; its storage, not initialised, is kept here as the released value.\<close>

definition vps_connection_config_cleanup ::
    "('w, 'p) VpsConnectionConfig \<Rightarrow> ('w, 'p, 'c) services \<Rightarrow>
     VpsConnectionStringResult \<times> ('w, 'p) VpsConnectionConfig \<times> ('w, 'p, 'c) services" where
  "vps_connection_config_cleanup connection s =
     (if \<not> conn_initialized connection then (VPS_CONNECTION_STRING_OK, connection, s)
      else case vps_sensitive_memory_release (conn_storage connection) s of (released, storage, s1) \<Rightarrow>
        if released \<noteq> VPS_SECURE_MEMORY_OK
        then (VPS_CONNECTION_STRING_CLEANUP_FAILED, connection\<lparr>conn_storage := storage\<rparr>, s1)
        else (VPS_CONNECTION_STRING_OK,
              zero_connection (storage\<lparr>sens_operations := None, sens_initialized := False\<rparr>), s1))"

definition resolve_mode ::
    "u64 \<Rightarrow> ('w, 'p) VpsConnectionConfig \<Rightarrow> ('w, 'p) VpsParsedArguments \<Rightarrow> ('p, 'x) VpsCredentialRegistry option \<Rightarrow>
     VpsConnectionResolveOptions \<Rightarrow> 'x \<Rightarrow> ('w, 'p, 'c) services \<Rightarrow>
     VpsConnectionStringResult \<times> ('w, 'p) VpsConnectionConfig \<times> ('p, 'x) VpsCredentialRegistry option \<times> 'x \<times> ('w, 'p, 'c) services" where
  "resolve_mode modes out arguments reg options x s =
     (if modes AND argument_bit VPS_ARGUMENT_ID_CREDENTIAL_REF \<noteq> 0
      then vps_resolve_reference (out\<lparr>conn_mode := VPS_CONNECTION_MODE_CREDENTIAL_REF\<rparr>) arguments reg x s
      else case
        (if modes AND argument_bit VPS_ARGUMENT_ID_SERVICE \<noteq> 0
         then vps_resolve_service (out\<lparr>conn_mode := VPS_CONNECTION_MODE_SERVICE\<rparr>) arguments s
         else if modes AND argument_bit VPS_ARGUMENT_ID_PROFILE \<noteq> 0
         then vps_resolve_profile (out\<lparr>conn_mode := VPS_CONNECTION_MODE_PROFILE\<rparr>) arguments options s
         else let out1 = out\<lparr>conn_mode := VPS_CONNECTION_MODE_CONNSTR, conn_persistent_connstr_risk := True\<rparr>;
                  conninfo = vps_argument_text arguments VPS_ARGUMENT_ID_CONNSTR
              in case opt_conninfo_parser options of
                   None \<Rightarrow> (VPS_CONNECTION_STRING_INVALID_ARGUMENT, out1, s)
                 | Some parse \<Rightarrow> run_conninfo (parse conninfo) out1 s)
        of (result, out', s') \<Rightarrow> (result, out', reg, x, s'))"

definition vps_connection_config_resolve ::
    "('w, 'p) VpsConnectionConfig \<Rightarrow> ('w, 'p) VpsParsedArguments \<Rightarrow> ('p, 'x) VpsCredentialRegistry option \<Rightarrow>
     VpsConnectionResolveOptions \<Rightarrow> 'x \<Rightarrow> ('w, 'p, 'c) services \<Rightarrow>
     VpsConnectionStringResult \<times> ('w, 'p) VpsConnectionConfig \<times> ('p, 'x) VpsCredentialRegistry option \<times> 'x \<times> ('w, 'p, 'c) services" where
  "vps_connection_config_resolve connection arguments reg options x s =
     (if \<not> conn_initialized connection \<or> \<not> args_initialized arguments
      then (VPS_CONNECTION_STRING_INVALID_ARGUMENT, connection, reg, x, s)
      else case vps_connection_config_init (Some (owned_allocator (sens_storage (conn_storage connection))))
                  (sens_operations (conn_storage connection)) of
        (VPS_CONNECTION_STRING_OK, Some replacement) \<Rightarrow>
          let modes = args_presence arguments AND VPS_ARGUMENT_CONNECTION_MODES
          in if \<not> single_bit modes
             then (VPS_CONNECTION_STRING_INVALID_MODE, connection, reg, x,
                   snd (snd (vps_connection_config_cleanup replacement s)))
             else (case resolve_mode modes replacement arguments reg options x s of
               (result, replacement1, reg1, x1, s1) \<Rightarrow>
                 let s2 = vps_connection_log replacement1 result s1
                 in if result \<noteq> VPS_CONNECTION_STRING_OK
                    then (result, connection, reg1, x1, snd (snd (vps_connection_config_cleanup replacement1 s2)))
                    else case vps_sensitive_memory_release (conn_storage connection) s2 of (released, storage, s3) \<Rightarrow>
                      if released \<noteq> VPS_SECURE_MEMORY_OK
                      then (VPS_CONNECTION_STRING_CLEANUP_FAILED, connection\<lparr>conn_storage := storage\<rparr>, reg1, x1,
                            snd (snd (vps_connection_config_cleanup replacement1 s3)))
                      else (VPS_CONNECTION_STRING_OK, replacement1, reg1, x1, s3))
      | _ \<Rightarrow> (VPS_CONNECTION_STRING_INVALID_ARGUMENT, connection, reg, x, s))"

section \<open>The copy\<close>

definition value_ok :: "string \<Rightarrow> bool" where
  "value_ok t \<longleftrightarrow> t \<noteq> [] \<and> length t \<le> VPS_CREDENTIAL_VALUE_MAX_LENGTH \<and> \<not> list_ex control_char t"

text \<open>The configurations a connection accepts, and the state of a connection that holds one: the configuration is
  acceptable itself, announces exactly the members that are set, and its block is the text of those members.\<close>

definition connection_acceptable :: "VpsCredentialConfig \<Rightarrow> bool" where
  "connection_acceptable c \<longleftrightarrow> abi_api_version (config_header c) = VPS_API_VERSION \<and>
     abi_present_fields (config_header c) AND NOT VPS_CREDENTIAL_FIELDS_CURRENT = 0 \<and>
     abi_present_fields (config_header c) AND VPS_CREDENTIAL_FIELDS_CURRENT \<noteq> 0 \<and>
     (\<forall>m. has_field c m \<longrightarrow> (\<exists>t. config_member c m = Some t \<and> value_ok t))"

definition connection_loaded :: "('w, 'p) VpsConnectionConfig \<Rightarrow> bool" where
  "connection_loaded conn \<longleftrightarrow> connection_acceptable (conn_config conn) \<and>
     (\<forall>m. config_member (conn_config conn) m \<noteq> None \<longleftrightarrow> has_field (conn_config conn) m) \<and>
     owned_memory (sens_storage (conn_storage conn)) =
       Some (config_text (has_field (conn_config conn)) (config_member (conn_config conn)) vps_connection_fields)"

lemma vps_value_length_exact:
  "vps_value_length v = Some n \<longleftrightarrow> (\<exists>t. v = Some t \<and> value_ok t \<and> n = of_nat (length t))"
  "vps_value_length v = None \<longleftrightarrow> \<not> (\<exists>t. v = Some t \<and> value_ok t)"
  by (auto simp: vps_value_length_def value_ok_def split: option.splits)

lemma connection_fields: "vps_connection_fields = vps_credential_fields"
  by (simp add: vps_connection_fields_def vps_credential_fields_def)

lemma connection_total:
  assumes "abi_api_version (config_header c) = VPS_API_VERSION"
    "abi_present_fields (config_header c) AND NOT VPS_CREDENTIAL_FIELDS_CURRENT = 0"
    "abi_present_fields (config_header c) AND VPS_CREDENTIAL_FIELDS_CURRENT \<noteq> 0"
  shows "config_total (has_field c) (\<lambda>m. vps_value_length (config_member c m)) vps_connection_fields 0 =
    (if connection_acceptable c
     then Some (of_nat (length (config_text (has_field c) (config_member c) vps_connection_fields))) else None)"
proof -
  have len: "unat n \<le> 4096 \<and> length (the (config_member c m)) = unat n"
    if "vps_value_length (config_member c m) = Some n" for m n
    using that by (auto simp: vps_value_length_exact value_ok_def unat_small_nat)
  have "(\<exists>m\<in>set vps_connection_fields. has_field c m \<and> vps_value_length (config_member c m) = None) \<longleftrightarrow>
    \<not> connection_acceptable c"
    unfolding connection_acceptable_def connection_fields all_members vps_value_length_exact using assms by auto
  moreover have "unat (0 :: size_t) + length vps_connection_fields * 4097 < 2 ^ 64"
    by (simp add: vps_connection_fields_def)
  ultimately show ?thesis
    using config_total_exact [where t = 0 and ms = vps_connection_fields and present = "has_field c"
        and value_of = "config_member c", OF len] by simp
qed

lemma has_field_masked:
  "has_field (config\<lparr>config_header := (config_header config')\<lparr>abi_present_fields := n AND VPS_CREDENTIAL_FIELDS_CURRENT\<rparr>,
      config_member := members\<rparr>) m \<longleftrightarrow> bit n (member_index m)"
proof -
  have "member_index m < 19" by (cases m) simp_all
  then show ?thesis by (simp add: has_field_bit VPS_CREDENTIAL_FIELDS_CURRENT_def bit_simps)
qed

lemma connection_text_bounds:
  assumes "connection_acceptable c"
  shows "config_text (has_field c) (config_member c) vps_connection_fields \<noteq> []"
    and "length (config_text (has_field c) (config_member c) vps_connection_fields) \<le> 19 * 4097"
proof -
  obtain m where "has_field c m" "m \<in> set vps_connection_fields"
    using assms some_field [of c] by (auto simp: connection_acceptable_def connection_fields all_members)
  then show "config_text (has_field c) (config_member c) vps_connection_fields \<noteq> []"
    by (auto simp: config_text_def c_bytes_def)
  have "length vps_connection_fields = 19" by (simp add: vps_connection_fields_def)
  then show "length (config_text (has_field c) (config_member c) vps_connection_fields) \<le> 19 * 4097"
    using config_text_length [of "has_field c" "config_member c" vps_connection_fields] assms
    by (fastforce simp: connection_acceptable_def value_ok_def)
qed

text \<open>A fresh connection holds nothing.\<close>

definition connection_fresh :: "('w, 'p) VpsConnectionConfig \<Rightarrow> bool" where
  "connection_fresh conn \<longleftrightarrow> conn_config conn = empty_config \<and> owned_blocks (sens_storage (conn_storage conn)) = {#}"

definition loaded_config :: "VpsCredentialConfig \<Rightarrow> VpsCredentialConfig" where
  "loaded_config c = empty_config
     \<lparr>config_header := (config_header empty_config)\<lparr>abi_present_fields :=
        abi_present_fields (config_header c) AND VPS_CREDENTIAL_FIELDS_CURRENT\<rparr>,
      config_member := (\<lambda>m. if has_field c m then config_member c m else None)\<rparr>"

lemma has_field_loaded [simp]: "has_field (loaded_config c) m = has_field c m"
  unfolding loaded_config_def has_field_masked by (simp only: has_field_bit)

lemma loaded_config_acceptable:
  assumes "connection_acceptable c"
  shows "connection_acceptable (loaded_config c)"
    and "config_text (has_field (loaded_config c)) (config_member (loaded_config c)) ms =
      config_text (has_field c) (config_member c) ms"
    and "config_member (loaded_config c) m \<noteq> None \<longleftrightarrow> has_field c m"
proof -
  have eq: "has_field (loaded_config c) = has_field c" by (simp add: fun_eq_iff)
  have "x AND VPS_CREDENTIAL_FIELDS_CURRENT AND NOT VPS_CREDENTIAL_FIELDS_CURRENT = 0" for x :: u64
    by (simp add: and.assoc)
  then show "connection_acceptable (loaded_config c)"
    using assms unfolding connection_acceptable_def eq
    by (auto simp: loaded_config_def empty_config_def zero_config_def and.assoc)
  show "config_text (has_field (loaded_config c)) (config_member (loaded_config c)) ms =
      config_text (has_field c) (config_member c) ms"
    unfolding eq by (induction ms) (auto simp: loaded_config_def)
  show "config_member (loaded_config c) m \<noteq> None \<longleftrightarrow> has_field c m"
    using assms by (auto simp: loaded_config_def connection_acceptable_def)
qed

context recording_allocator
begin

lemma connection_copy_step:
  assumes "secret_in A inv live (conn_storage out) s" "connection_fresh out"
    and "connection_copy_config out src s = (res, out', s')"
  shows "secret_step A inv live freed (conn_storage out, s) (conn_storage out', s') \<and>
    (if res = VPS_CONNECTION_STRING_OK
     then \<exists>c. src = Some c \<and> connection_acceptable c \<and> connection_loaded out' \<and> conn_config out' = loaded_config c \<and>
       conn_mode out' = conn_mode out \<and> conn_initialized out' = conn_initialized out
     else out' = out \<and> (res = VPS_CONNECTION_STRING_OUT_OF_MEMORY \<or>
       res = VPS_CONNECTION_STRING_INVALID_VALUE \<and> (\<forall>c. src = Some c \<longrightarrow> \<not> connection_acceptable c)))"
proof (cases "\<exists>c. src = Some c \<and> connection_acceptable c")
  case False
  then show ?thesis
    using assms connection_total secret_step_refl
    by (auto simp: connection_copy_config_def connection_acceptable_def Let_def split: option.splits if_splits)
next
  case True
  then obtain c where c: "src = Some c" "connection_acceptable c" by blast
  let ?t = "config_text (has_field c) (config_member c) vps_connection_fields"
  note head = c(2) [unfolded connection_acceptable_def]
  note total = connection_total [of c] c(2)
  obtain ar m1 s1 where run: "vps_sensitive_memory_allocate (conn_storage out) (of_nat (length ?t)) s = (ar, m1, s1)"
    by (metis prod_cases3)
  note al = sensitive_allocate_step [OF assms(1) run]
  show ?thesis
  proof (cases "ar = VPS_SECURE_MEMORY_OK")
    case False
    then show ?thesis
      using assms(3) c head total run al by (auto simp: connection_copy_config_def Let_def)
  next
    case OK: True
    note fill = config_fill [OF assms(1) run [unfolded OK] refl connection_text_bounds [OF c(2)]]
    have some_the: "has_field c m \<Longrightarrow> Some (the (config_member c m)) = config_member c m" for m
      using head by force
    then have members: "(\<lambda>m. if m \<in> set vps_connection_fields \<and> has_field c m
         then Some (the (config_member c m)) else config_member empty_config m) =
       (\<lambda>m. if has_field c m then config_member c m else None)"
      by (simp add: fun_eq_iff connection_fields all_members empty_config_def zero_config_def)
    note copy = fill(3) [where config = empty_config, unfolded members]
    have eqs: "out' = out\<lparr>conn_storage := sensitive_write m1 0 ?t, conn_config := loaded_config c\<rparr>" "s' = s1"
        "res = VPS_CONNECTION_STRING_OK"
      using assms(2,3) c(1) head total run OK
      by (auto simp: connection_copy_config_def copy loaded_config_def connection_fresh_def Let_def)
    have "connection_loaded out'"
      using loaded_config_acceptable [OF c(2)] fill(2) by (simp add: connection_loaded_def eqs)
    then show ?thesis using c fill(1) eqs by simp
  qed
qed

end

section \<open>Temporary owners\<close>

context recording_allocator
begin

text \<open>While one owner acts, a second one keeps its block; a second owner that comes and goes leaves no trace.\<close>

lemma secret_in_later:
  assumes "secret_in A inv live m s" "secret_step A inv live freed (out, s) (out', s')"
    and "owned_blocks (sens_storage out) = {#}"
  shows "secret_in A inv live m s'"
proof -
  have "live (srv_heap s') = live (srv_heap s) + owned_blocks (sens_storage out')"
    using assms(2,3) by (simp add: secret_step_def)
  moreover have "owned_blocks (sens_storage m) \<subseteq># live (srv_heap s)" using assms(1) by (simp add: secret_in_def)
  ultimately have "owned_blocks (sens_storage m) \<subseteq># live (srv_heap s')" by (simp add: subset_mset.add_increasing2)
  then show ?thesis using assms(1,2) by (simp add: secret_in_def secret_step_def)
qed

lemma temporary_owner:
  assumes "secret_step A inv live freed (m0, s) (m1, s1)" "secret_step A inv live freed (out, s1) (out', s2)"
    and "secret_step A inv live freed (m1, s2) (m2, s3)"
    and "owned_blocks (sens_storage m0) = {#}" "owned_blocks (sens_storage out) = {#}" "owned_blocks (sens_storage m2) = {#}"
  shows "secret_step A inv live freed (out, s) (out', s3)"
proof -
  have l1: "live (srv_heap s1) = live (srv_heap s) + owned_blocks (sens_storage m1)"
    and l2: "live (srv_heap s2) = live (srv_heap s1) + owned_blocks (sens_storage out')"
    and l3: "live (srv_heap s3) = live (srv_heap s2) - owned_blocks (sens_storage m1)"
    using assms by (simp_all add: secret_step_def)
  have live: "live (srv_heap s3) = live (srv_heap s) + owned_blocks (sens_storage out')"
    unfolding l3 l2 l1 by (simp add: add.commute add.left_commute)
  have "wiped freed (srv_heap s) (srv_heap s3)"
    using assms(1-3) unfolding secret_step_def snd_conv by (blast intro: wiped_trans)
  then show ?thesis
    using assms live by (auto simp: secret_step_def secret_in_def)
qed

end

text \<open>What resolving one mode does to a connection that was empty: nothing is lost on the heap, and when the result is OK
  the connection is loaded.\<close>

definition mode_effect ::
    "'w VpsAllocator \<Rightarrow> ('w \<Rightarrow> bool) \<Rightarrow> ('w \<Rightarrow> nat multiset) \<Rightarrow> ('w \<Rightarrow> block list) \<Rightarrow>
     ('w, 'p) VpsConnectionConfig \<times> ('w, 'p, 'c) services \<Rightarrow> VpsConnectionStringResult \<Rightarrow>
     ('w, 'p) VpsConnectionConfig \<times> ('w, 'p, 'c) services \<Rightarrow> bool" where
  "mode_effect A iv live freed y res y' \<longleftrightarrow>
     secret_step A iv live freed (conn_storage (fst y), snd y) (conn_storage (fst y'), snd y') \<and>
     (res = VPS_CONNECTION_STRING_OK \<longrightarrow> connection_loaded (fst y')) \<and>
     conn_mode (fst y') = conn_mode (fst y) \<and> conn_initialized (fst y') = conn_initialized (fst y)"

definition platform_keeps_buffers :: "'p VpsPlatformOperations option \<Rightarrow> bool" where
  "platform_keeps_buffers ops \<longleftrightarrow> (\<forall>name buffer n p.
     length (fst (fst (snd (vps_platform_environment_get ops name buffer n p)))) = length buffer)"

lemma environment_fields_in:
  assumes "secret_in A iv live scratch s" "platform_keeps_buffers ops"
    and "\<And>d. owned_memory (sens_storage scratch) = Some d \<Longrightarrow> (index + length ms) * profile_slot_size \<le> length d"
    and "sens_initialized scratch" "owned_flag (sens_storage scratch)"
    and "environment_fields ops profile ms index scratch source s = (out, scratch', s')"
  shows "secret_step A iv live freed (scratch, s) (scratch', s')"
  using assms
proof (induction ms arbitrary: index scratch source s)
  case Nil
  then show ?case by (auto intro: secret_step_refl)
next
  case (Cons m ms)
  show ?case
  proof (cases "vps_build_profile_name (VPS_PROFILE_NAME_MAX_LENGTH + 40) profile (Some (profile_suffix m))")
    case None
    then show ?thesis using Cons.prems secret_step_refl by auto
  next
    case (Some name)
    obtain d where d: "owned_memory (sens_storage scratch) = Some d" "vps_sensitive_memory_data scratch = Some d"
      using Cons.prems(1,4,5) by (auto simp: secret_in_def owned_ok_def vps_sensitive_memory_data_def)
    have room: "(index + length (m # ms)) * profile_slot_size \<le> length d" using Cons.prems(3) d by blast
    let ?slot = "take profile_slot_size (drop (index * profile_slot_size) d)"
    obtain status slot req p where get: "vps_platform_environment_get ops (Some name) ?slot 0 (srv_platform s) = (status, (slot, req), p)"
      by (metis prod_cases3 prod.collapse)
    have len: "length slot = profile_slot_size"
    proof -
      have "length ?slot = profile_slot_size" using room by (simp add: algebra_simps)
      then show ?thesis using Cons.prems(2) get unfolding platform_keeps_buffers_def by (metis fst_conv snd_conv)
    qed
    define scratch1 where "scratch1 = sensitive_write scratch (index * profile_slot_size) slot"
    define s1 where "s1 = s\<lparr>srv_platform := p\<rparr>"
    have "secret_step A iv live freed (scratch, s) (scratch1, s)"
      unfolding scratch1_def using d(1) len room
      by (intro sensitive_write_step(1) [OF Cons.prems(1)]) (simp add: algebra_simps)
    then have step: "secret_step A iv live freed (scratch, s) (scratch1, s1)"
      by (auto simp: s1_def secret_step_def secret_in_def)
    have room1: "(Suc index + length ms) * profile_slot_size \<le> length d'"
      if "owned_memory (sens_storage scratch1) = Some d'" for d'
      using that d(1) len room by (auto simp: scratch1_def sensitive_write_def mem_write_def algebra_simps)
    have flags: "sens_initialized scratch1" "owned_flag (sens_storage scratch1)"
      using Cons.prems(4,5) by (simp_all add: scratch1_def sensitive_write_def)
    show ?thesis
      using Cons.prems(6) Some d(2) get step
        Cons.IH [OF secret_step_in [OF step] Cons.prems(2) room1 flags]
      by (auto simp: Let_def scratch1_def [symmetric] s1_def [symmetric] split: if_splits
          intro: secret_step_trans [OF step])
  qed
qed

lemma environment_fields_result:
  "environment_fields ops profile ms index scratch source s = (out, scratch', s') \<Longrightarrow> out \<noteq> Inl VPS_CONNECTION_STRING_OK"
  by (induction ms arbitrary: index scratch source s)
    (auto simp: Let_def split: option.splits prod.splits if_splits)

text \<open>A parser of connection strings answers OK only when the callback did so last.\<close>

primrec conninfo_honest :: "conninfo_run \<Rightarrow> VpsConnectionStringResult \<Rightarrow> bool" where
  "conninfo_honest (Conninfo_return result) last_result = (result = VPS_CONNECTION_STRING_OK \<longrightarrow> last_result = VPS_CONNECTION_STRING_OK)"
| "conninfo_honest (Conninfo_consume config continue) last_result = (\<forall>r. conninfo_honest (continue r) r)"

definition parser_honest :: "VpsConninfoParser option \<Rightarrow> bool" where
  "parser_honest parser \<longleftrightarrow> (\<forall>parse text. parser = Some parse \<longrightarrow>
     conninfo_honest (parse text) VPS_CONNECTION_STRING_CONNINFO_REJECTED)"

text \<open>A second copy into a connection that is loaded is refused and changes nothing.\<close>

lemma connection_copy_twice:
  assumes "secret_in A iv live (conn_storage out) s" "connection_loaded out"
    and "connection_copy_config out src s = (res, out', s')"
  shows "secret_step A iv live freed (conn_storage out, s) (conn_storage out', s') \<and> res \<noteq> VPS_CONNECTION_STRING_OK \<and> out' = out"
proof -
  have flag: "owned_flag (sens_storage (conn_storage out))"
    using assms(1,2) by (auto simp: secret_in_def owned_ok_def connection_loaded_def)
  have refuse: "\<exists>r s1. vps_sensitive_memory_allocate (conn_storage out) n s = (r, conn_storage out, s1) \<and>
      r \<noteq> VPS_SECURE_MEMORY_OK \<and> srv_heap s1 = srv_heap s" for n
    using flag by (auto simp: vps_sensitive_memory_allocate_def vps_owned_memory_allocate_def Let_def
        vps_secure_memory_from_memory_result_def)
  have "srv_heap s' = srv_heap s \<and> res \<noteq> VPS_CONNECTION_STRING_OK \<and> out' = out"
  proof (cases "config_total (has_field (the src)) (\<lambda>m. vps_value_length (config_member (the src) m)) vps_connection_fields 0")
    case None
    then show ?thesis using assms(3) by (auto simp: connection_copy_config_def Let_def split: option.splits if_splits)
  next
    case (Some n)
    obtain r s1 where "vps_sensitive_memory_allocate (conn_storage out) n s = (r, conn_storage out, s1)"
      "r \<noteq> VPS_SECURE_MEMORY_OK" "srv_heap s1 = srv_heap s" using refuse by blast
    then show ?thesis
      using assms(3) Some by (auto simp: connection_copy_config_def Let_def split: option.splits if_splits)
  qed
  then show ?thesis using secret_step_refl [OF assms(1), of freed] by (auto simp: secret_step_def secret_in_def)
qed

context recording_allocator
begin

lemma copy_effect:
  assumes "secret_in A inv live (conn_storage out) s" "connection_fresh out"
    and "connection_copy_config out src s = (res, out', s')"
  shows "mode_effect A inv live freed (out, s) res (out', s')"
    and "res \<noteq> VPS_CONNECTION_STRING_OK \<Longrightarrow> out' = out"
proof -
  note step = connection_copy_step [OF assms]
  show "mode_effect A inv live freed (out, s) res (out', s')" using step by (auto simp: mode_effect_def split: if_splits)
  show "res \<noteq> VPS_CONNECTION_STRING_OK \<Longrightarrow> out' = out" using step by simp
qed

lemma no_effect:
  "secret_in A inv live (conn_storage out) s \<Longrightarrow> res \<noteq> VPS_CONNECTION_STRING_OK \<Longrightarrow>
    mode_effect A inv live freed (out, s) res (out, s)"
  by (simp add: mode_effect_def secret_step_refl)

lemma service_effect:
  assumes "secret_in A inv live (conn_storage out) s" "connection_fresh out"
    and "vps_resolve_service out arguments s = (res, out', s')"
  shows "mode_effect A inv live freed (out, s) res (out', s')"
  using assms(3) copy_effect(1) [OF assms(1,2)] no_effect [OF assms(1)]
  by (auto simp: vps_resolve_service_def Let_def split: if_splits)

lemma snapshot_effect:
  assumes "secret_in A inv live (conn_storage out) s" "connection_fresh out"
    and "vps_resolve_profile_snapshot out entries s = (res, out', s')"
  shows "mode_effect A inv live freed (out, s) res (out', s')"
  using assms(3) copy_effect(1) [OF assms(1,2)] no_effect [OF assms(1)]
  by (auto simp: vps_resolve_profile_snapshot_def split: option.splits)

lemma conninfo_effect:
  assumes "secret_in A inv live (conn_storage out) s" "run_conninfo run out s = (res, out', s')"
    and "conninfo_honest run r0" "connection_loaded out \<or> connection_fresh out \<and> r0 \<noteq> VPS_CONNECTION_STRING_OK"
  shows "mode_effect A inv live freed (out, s) res (out', s')"
  using assms
proof (induction run arbitrary: out s r0)
  case (Conninfo_return x)
  then show ?case by (auto simp: mode_effect_def intro: secret_step_refl)
next
  case (Conninfo_consume config k)
  obtain r out1 s1 where copy: "connection_copy_config out config s = (r, out1, s1)" by (metis prod_cases3)
  have eff: "mode_effect A inv live freed (out, s) r (out1, s1) \<and>
      (connection_loaded out1 \<or> connection_fresh out1 \<and> r \<noteq> VPS_CONNECTION_STRING_OK)"
  proof (cases "connection_loaded out")
    case True
    have "secret_step A inv live freed (conn_storage out, s) (conn_storage out1, s1) \<and> r \<noteq> VPS_CONNECTION_STRING_OK \<and> out1 = out"
      by (rule connection_copy_twice [OF Conninfo_consume.prems(1) True copy])
    then show ?thesis using True by (auto simp: mode_effect_def)
  next
    case False
    then have fresh: "connection_fresh out" using Conninfo_consume.prems(4) by simp
    then show ?thesis
      using copy_effect [OF Conninfo_consume.prems(1) fresh copy] by (cases "r = VPS_CONNECTION_STRING_OK") (auto simp: mode_effect_def)
  qed
  have "mode_effect A inv live freed (out1, s1) res (out', s')"
    using Conninfo_consume.IH [of "k r" out1 s1 r] Conninfo_consume.prems(2,3) copy eff
    by (auto simp: vps_consume_conninfo_def mode_effect_def dest: secret_step_in)
  then show ?case using eff secret_step_trans by (auto simp: mode_effect_def)
qed

lemma release_temporary:
  assumes "secret_in A inv live m s" "sens_initialized m" "platform_always_zeroes (sens_operations m)"
    and "vps_sensitive_memory_release m s = (r, m', s')"
  shows "r = VPS_SECURE_MEMORY_OK" "secret_step A inv live freed (m, s) (m', s')" "owned_blocks (sens_storage m') = {#}"
proof -
  show r: "r = VPS_SECURE_MEMORY_OK" using release_zeroes [OF assms(2,3), of s] assms(4) by simp
  show "secret_step A inv live freed (m, s) (m', s')" "owned_blocks (sens_storage m') = {#}"
    using sensitive_release_step [OF assms(1,4)] r by simp_all
qed

lemma environment_effect:
  assumes "secret_in A inv live (conn_storage out) s" "connection_fresh out"
    and "platform_always_zeroes (sens_operations (conn_storage out))" "platform_keeps_buffers (sens_operations (conn_storage out))"
    and "vps_resolve_profile_environment out s = (res, out', s')"
  shows "mode_effect A inv live freed (out, s) res (out', s')"
proof (cases "\<exists>m0. vps_sensitive_memory_init (Some A) (sens_operations (conn_storage out)) = (VPS_SECURE_MEMORY_OK, Some m0)")
  case False
  then have "res = VPS_CONNECTION_STRING_OUT_OF_MEMORY" "out' = out" "s' = s"
    using assms(1,5)
    by (auto simp: vps_resolve_profile_environment_def secret_in_def split: prod.splits VpsMemoryResult.splits
        VpsSecureMemoryResult.splits option.splits)
  then show ?thesis using no_effect [OF assms(1)] by simp
next
  case True
  then obtain m0 where init: "vps_sensitive_memory_init (Some A) (sens_operations (conn_storage out)) = (VPS_SECURE_MEMORY_OK, Some m0)"
    by blast
  have al: "owned_allocator (sens_storage (conn_storage out)) = A" and inv: "inv (srv_heap s)"
    and pz: "platform_zeroes (sens_operations (conn_storage out))" using assms(1) by (simp_all add: secret_in_def)
  note m0 = sensitive_init_in [OF inv pz init]
  have mult: "vps_size_multiply 4097 (of_nat (length vps_connection_fields)) = (VPS_MEMORY_OK, Some 77843)"
    by (simp add: vps_size_multiply_def vps_connection_fields_def)
  obtain ar m1 s1 where alloc: "vps_sensitive_memory_allocate m0 77843 s = (ar, m1, s1)" by (metis prod_cases3)
  note a = sensitive_allocate_step [OF m0 [THEN conjunct1] alloc]
  note run = assms(5) [unfolded vps_resolve_profile_environment_def al of_nat_numeral mult init]
  show ?thesis
  proof (cases "ar = VPS_SECURE_MEMORY_OK")
    case False
    then have "res = VPS_CONNECTION_STRING_OUT_OF_MEMORY" "out' = out" "s' = s1" "m1 = m0"
      using run alloc a(3) by auto
    then show ?thesis
      using a(1) m0 assms(1,2) by (auto simp: mode_effect_def secret_step_def secret_in_def connection_fresh_def)
  next
    case OK: True
    have size: "owned_size (sens_storage m1) = 77843" "owned_flag (sens_storage m1)"
      using a(2) [OF OK] sensitive_allocate_flag [OF alloc [unfolded OK]] by simp_all
    have m1: "secret_in A inv live m1 s1" by (rule secret_step_in [OF a(1)])
    have ops: "sens_initialized m1" "sens_operations m1 = sens_operations (conn_storage out)"
      using a(1) m0 by (simp_all add: secret_step_def)
    have room: "(0 + length vps_connection_fields) * profile_slot_size \<le> length d"
      if "owned_memory (sens_storage m1) = Some d" for d
      using that m1 size by (auto simp: secret_in_def owned_ok_def vps_connection_fields_def)
    obtain ef m2 s2 where env: "environment_fields (sens_operations (conn_storage out)) (conn_normalized_profile out)
        vps_connection_fields 0 m1 (source_config 0 Map.empty) s1 = (ef, m2, s2)" by (metis prod_cases3)
    note e = environment_fields_in [OF m1 assms(4) room ops(1) size(2) env, where freed = freed]
    have step2: "secret_step A inv live freed (m0, s) (m2, s2)" by (rule secret_step_trans [OF a(1) e])
    have ops2: "sens_initialized m2" "platform_always_zeroes (sens_operations m2)"
      using e ops assms(3) by (simp_all add: secret_step_def)
    have out2: "secret_in A inv live (conn_storage out) s2"
      using assms(1,2) step2 by (auto simp: secret_in_def secret_step_def connection_fresh_def)
    have empty: "owned_blocks (sens_storage m0) = {#}" "owned_blocks (sens_storage (conn_storage out)) = {#}"
      using m0 assms(2) by (simp_all add: connection_fresh_def)
    show ?thesis
    proof (cases ef)
      case (Inl r)
      obtain rr m3 s3 where rel: "vps_sensitive_memory_release m2 s2 = (rr, m3, s3)" by (metis prod_cases3)
      note fin = release_temporary [OF secret_step_in [OF step2] ops2 rel]
      have "res = r" "out' = out" "s' = s3" using run alloc OK env Inl rel by auto
      moreover have "r \<noteq> VPS_CONNECTION_STRING_OK" using environment_fields_result [OF env] Inl by simp
      ultimately show ?thesis
        using temporary_owner [OF step2 secret_step_refl [OF out2] fin(2) empty fin(3)] by (simp add: mode_effect_def)
    next
      case (Inr source)
      obtain r out1 s3 where copy: "connection_copy_config out (Some source) s2 = (r, out1, s3)" by (metis prod_cases3)
      note c = copy_effect(1) [OF out2 assms(2) copy]
      then have cs: "secret_step A inv live freed (conn_storage out, s2) (conn_storage out1, s3)" by (simp add: mode_effect_def)
      have m23: "secret_in A inv live m2 s3" by (rule secret_in_later [OF secret_step_in [OF step2] cs empty(2)])
      obtain rr m3 s4 where rel: "vps_sensitive_memory_release m2 s3 = (rr, m3, s4)" by (metis prod_cases3)
      note fin = release_temporary [OF m23 ops2 rel]
      have "res = r" "out' = out1" "s' = s4" using run alloc OK env Inr rel copy fin(1) by auto
      then show ?thesis
        using temporary_owner [OF step2 cs fin(2) empty fin(3)] c by (simp add: mode_effect_def)
    qed
  qed
qed

end

lemma resolve_outcome_initialized:
  "resolve_outcome reg reference rc x res rc' x' \<Longrightarrow> resolved_initialized rc' = resolved_initialized rc"
  by (induction rule: resolve_outcome.induct) auto

context recording_allocator
begin

lemma resolved_cleanup_temporary:
  assumes "secret_in A inv live (resolved_storage rc) s" "sens_initialized (resolved_storage rc)" "resolved_initialized rc"
    and "platform_always_zeroes (sens_operations (resolved_storage rc))"
    and "vps_resolved_credential_cleanup rc s = (r, rc', s')"
  shows "r = VPS_CREDENTIAL_REGISTRY_OK"
    "secret_step A inv live freed (resolved_storage rc, s) (resolved_storage rc', s')"
    "owned_blocks (sens_storage (resolved_storage rc')) = {#}"
proof -
  obtain mr m s1 where rel: "vps_sensitive_memory_release (resolved_storage rc) s = (mr, m, s1)" by (metis prod_cases3)
  note fin = release_temporary [OF assms(1,2,4) rel]
  show "r = VPS_CREDENTIAL_REGISTRY_OK"
    "secret_step A inv live freed (resolved_storage rc, s) (resolved_storage rc', s')"
    "owned_blocks (sens_storage (resolved_storage rc')) = {#}"
    using assms(3,5) rel fin by (auto simp: vps_resolved_credential_cleanup_def)
qed

lemma profile_effect:
  assumes "secret_in A inv live (conn_storage out) s" "connection_fresh out"
    and "platform_always_zeroes (sens_operations (conn_storage out))" "platform_keeps_buffers (sens_operations (conn_storage out))"
    and "vps_resolve_profile out arguments options s = (res, out', s')"
  shows "mode_effect A inv live freed (out, s) res (out', s')"
proof -
  obtain ok profile where norm: "vps_normalize_profile (vps_argument_text arguments VPS_ARGUMENT_ID_PROFILE)
      (conn_normalized_profile out) = (ok, profile)" by fastforce
  let ?o = "out\<lparr>conn_normalized_profile := profile\<rparr>"
  have o: "secret_in A inv live (conn_storage ?o) s" "connection_fresh ?o"
      "platform_always_zeroes (sens_operations (conn_storage ?o))" "platform_keeps_buffers (sens_operations (conn_storage ?o))"
    using assms(1-4) by (simp_all add: connection_fresh_def)
  have same: "mode_effect A inv live freed (out, s) r y = mode_effect A inv live freed (?o, s) r y" for r y
    by (simp add: mode_effect_def)
  show ?thesis
    unfolding same
    using assms(5) norm environment_effect [OF o] snapshot_effect [OF o(1,2)] no_effect [OF o(1)]
    by (auto simp: vps_resolve_profile_def Let_def split: if_splits)
qed

lemma reference_effect:
  assumes "secret_in A inv live (conn_storage out) s" "connection_fresh out"
    and "platform_always_zeroes (sens_operations (conn_storage out))"
    and "vps_resolve_reference out arguments reg x s = (res, out', reg', x', s')"
  shows "mode_effect A inv live freed (out, s) res (out', s')"
proof -
  let ?text = "vps_argument_text arguments VPS_ARGUMENT_ID_CREDENTIAL_REF"
  let ?n = "case ?text of None \<Rightarrow> 0 | Some (_, n) \<Rightarrow> n"
  have al: "owned_allocator (sens_storage (conn_storage out)) = A" and inv: "inv (srv_heap s)"
    and pz: "platform_zeroes (sens_operations (conn_storage out))" using assms(1) by (simp_all add: secret_in_def)
  let ?init = "vps_resolved_credential_init (Some A) (sens_operations (conn_storage out))"
  show ?thesis
  proof (cases "\<exists>rg n32 rc. reg = Some rg \<and> vps_size_to_uint32 ?n = (VPS_MEMORY_OK, Some n32) \<and>
      ?init = (VPS_CREDENTIAL_REGISTRY_OK, Some rc)")
    case False
    then have "res \<noteq> VPS_CONNECTION_STRING_OK \<and> out' = out \<and> s' = s"
      using assms(4) al
      by (auto simp: vps_resolve_reference_def Let_def split: option.splits prod.splits VpsMemoryResult.splits
          VpsCredentialRegistryResult.splits)
    then show ?thesis using no_effect [OF assms(1)] by simp
  next
    case True
    then obtain rg n32 rc where ok: "reg = Some rg" "vps_size_to_uint32 ?n = (VPS_MEMORY_OK, Some n32)"
      "?init = (VPS_CREDENTIAL_REGISTRY_OK, Some rc)" by blast
    obtain m0 where m0: "vps_sensitive_memory_init (Some A) (sens_operations (conn_storage out)) = (VPS_SECURE_MEMORY_OK, Some m0)"
        "resolved_storage rc = m0" "resolved_initialized rc"
      using ok(3) by (auto simp: vps_resolved_credential_init_def split: prod.splits VpsSecureMemoryResult.splits option.splits)
    note i = sensitive_init_in [OF inv pz m0(1)]
    let ?ref = "map_option (\<lambda>(bytes, _). take (unat n32) bytes) ?text"
    obtain r rg1 rc1 x1 s1 where res: "vps_credential_registry_resolve rg ?ref rc x s = (r, rg1, rc1, x1, s1)" by (metis prod_cases5)
    have rc: "secret_in A inv live (resolved_storage rc) s" using i m0(2) by simp
    note step = resolve_step [OF rc res]
    have ini: "sens_initialized (resolved_storage rc1)" "platform_always_zeroes (sens_operations (resolved_storage rc1))"
        "resolved_initialized rc1"
      using step(1) i m0(2,3) assms(3) resolve_outcome_initialized [OF step(2)] by (simp_all add: secret_step_def)
    have empty: "owned_blocks (sens_storage (resolved_storage rc)) = {#}" "owned_blocks (sens_storage (conn_storage out)) = {#}"
      using i m0(2) assms(2) by (simp_all add: connection_fresh_def)
    have out1: "secret_in A inv live (conn_storage out) s1"
      using assms(1,2) step(1) by (auto simp: secret_in_def secret_step_def connection_fresh_def)
    note run = assms(4) [unfolded vps_resolve_reference_def Let_def ok(1) option.case al ok(2,3) prod.case
        VpsMemoryResult.case VpsCredentialRegistryResult.case res]
    show ?thesis
    proof (cases "r = VPS_CREDENTIAL_REGISTRY_OK")
      case False
      obtain cr rc2 s2 where clean: "vps_resolved_credential_cleanup rc1 s1 = (cr, rc2, s2)" by (metis prod_cases3)
      note fin = resolved_cleanup_temporary [OF secret_step_in [OF step(1)] ini(1,3,2) clean]
      have "res \<noteq> VPS_CONNECTION_STRING_OK" "out' = out" "s' = s2" using run False clean by (auto split: if_splits)
      then show ?thesis
        using temporary_owner [OF step(1) secret_step_refl [OF out1] fin(2) empty fin(3)] by (simp add: mode_effect_def)
    next
      case OK: True
      obtain cr out2 s2 where copy: "connection_copy_config out (Some (resolved_config rc1)) s1 = (cr, out2, s2)"
        by (metis prod_cases3)
      note c = copy_effect(1) [OF out1 assms(2) copy]
      then have cs: "secret_step A inv live freed (conn_storage out, s1) (conn_storage out2, s2)" by (simp add: mode_effect_def)
      have later: "secret_in A inv live (resolved_storage rc1) s2"
        by (rule secret_in_later [OF secret_step_in [OF step(1)] cs empty(2)])
      obtain cl rc2 s3 where clean: "vps_resolved_credential_cleanup rc1 s2 = (cl, rc2, s3)" by (metis prod_cases3)
      note fin = resolved_cleanup_temporary [OF later ini(1,3,2) clean]
      have "res = cr" "s' = s3"
        "out' = out2\<lparr>conn_provider_id := resolved_provider_id rc1, conn_generation := resolved_generation rc1\<rparr>"
        using run OK copy clean fin(1) by auto
      then show ?thesis
        using temporary_owner [OF step(1) cs fin(2) empty fin(3)] c by (simp add: mode_effect_def connection_loaded_def)
    qed
  qed
qed

lemma resolve_mode_effect:
  assumes "secret_in A inv live (conn_storage out) s" "connection_fresh out"
    and "platform_always_zeroes (sens_operations (conn_storage out))" "platform_keeps_buffers (sens_operations (conn_storage out))"
    and "parser_honest (opt_conninfo_parser options)"
    and "resolve_mode modes out arguments reg options x s = (res, out', reg', x', s')"
  shows "secret_step A inv live freed (conn_storage out, s) (conn_storage out', s') \<and>
    (res = VPS_CONNECTION_STRING_OK \<longrightarrow> connection_loaded out') \<and> conn_initialized out' = conn_initialized out \<and>
    conn_mode out' =
      (if modes AND argument_bit VPS_ARGUMENT_ID_CREDENTIAL_REF \<noteq> 0 then VPS_CONNECTION_MODE_CREDENTIAL_REF
       else if modes AND argument_bit VPS_ARGUMENT_ID_SERVICE \<noteq> 0 then VPS_CONNECTION_MODE_SERVICE
       else if modes AND argument_bit VPS_ARGUMENT_ID_PROFILE \<noteq> 0 then VPS_CONNECTION_MODE_PROFILE
       else VPS_CONNECTION_MODE_CONNSTR)"
proof -
  have o: "secret_in A inv live (conn_storage (out\<lparr>conn_mode := mode\<rparr>)) s" "connection_fresh (out\<lparr>conn_mode := mode\<rparr>)"
      "platform_always_zeroes (sens_operations (conn_storage (out\<lparr>conn_mode := mode\<rparr>)))"
      "platform_keeps_buffers (sens_operations (conn_storage (out\<lparr>conn_mode := mode\<rparr>)))" for mode
    using assms(1-4) by (simp_all add: connection_fresh_def)
  consider (ref) "modes AND argument_bit VPS_ARGUMENT_ID_CREDENTIAL_REF \<noteq> 0"
    | (service) "modes AND argument_bit VPS_ARGUMENT_ID_CREDENTIAL_REF = 0" "modes AND argument_bit VPS_ARGUMENT_ID_SERVICE \<noteq> 0"
    | (profile) "modes AND argument_bit VPS_ARGUMENT_ID_CREDENTIAL_REF = 0" "modes AND argument_bit VPS_ARGUMENT_ID_SERVICE = 0"
        "modes AND argument_bit VPS_ARGUMENT_ID_PROFILE \<noteq> 0"
    | (connstr) "modes AND argument_bit VPS_ARGUMENT_ID_CREDENTIAL_REF = 0" "modes AND argument_bit VPS_ARGUMENT_ID_SERVICE = 0"
        "modes AND argument_bit VPS_ARGUMENT_ID_PROFILE = 0" by blast
  then show ?thesis
  proof cases
    case ref
    then have "vps_resolve_reference (out\<lparr>conn_mode := VPS_CONNECTION_MODE_CREDENTIAL_REF\<rparr>) arguments reg x s =
      (res, out', reg', x', s')" using assms(6) by (simp add: resolve_mode_def)
    from reference_effect [OF o(1-3) this] ref show ?thesis by (simp add: mode_effect_def)
  next
    case service
    then have "vps_resolve_service (out\<lparr>conn_mode := VPS_CONNECTION_MODE_SERVICE\<rparr>) arguments s = (res, out', s')"
      using assms(6) by (auto simp: resolve_mode_def split: prod.splits)
    from service_effect [OF o(1,2) this] service show ?thesis by (simp add: mode_effect_def)
  next
    case profile
    then have "vps_resolve_profile (out\<lparr>conn_mode := VPS_CONNECTION_MODE_PROFILE\<rparr>) arguments options s = (res, out', s')"
      using assms(6) by (auto simp: resolve_mode_def split: prod.splits)
    from profile_effect [OF o this] profile show ?thesis by (simp add: mode_effect_def)
  next
    case connstr
    let ?o = "out\<lparr>conn_mode := VPS_CONNECTION_MODE_CONNSTR, conn_persistent_connstr_risk := True\<rparr>"
    have o1: "secret_in A inv live (conn_storage ?o) s" "connection_fresh ?o" using o by (simp_all add: connection_fresh_def)
    show ?thesis
    proof (cases "opt_conninfo_parser options")
      case None
      then show ?thesis
        using assms(6) connstr secret_step_refl [OF assms(1)] by (auto simp: resolve_mode_def)
    next
      case (Some parse)
      let ?t = "vps_argument_text arguments VPS_ARGUMENT_ID_CONNSTR"
      have honest: "conninfo_honest (parse ?t) VPS_CONNECTION_STRING_CONNINFO_REJECTED"
        using assms(5) Some by (simp add: parser_honest_def)
      have "run_conninfo (parse ?t) ?o s = (res, out', s')"
        using assms(6) connstr Some by (auto simp: resolve_mode_def split: prod.splits)
      from conninfo_effect [OF o1(1) this honest] o1(2) connstr show ?thesis by (simp add: mode_effect_def)
    qed
  qed
qed

end

section \<open>The whole resolution\<close>

primrec mode_argument :: "VpsConnectionMode \<Rightarrow> VpsArgumentId" where
  "mode_argument VPS_CONNECTION_MODE_NONE = VPS_ARGUMENT_ID_UNKNOWN"
| "mode_argument VPS_CONNECTION_MODE_CREDENTIAL_REF = VPS_ARGUMENT_ID_CREDENTIAL_REF"
| "mode_argument VPS_CONNECTION_MODE_SERVICE = VPS_ARGUMENT_ID_SERVICE"
| "mode_argument VPS_CONNECTION_MODE_PROFILE = VPS_ARGUMENT_ID_PROFILE"
| "mode_argument VPS_CONNECTION_MODE_CONNSTR = VPS_ARGUMENT_ID_CONNSTR"

lemma one_mode:
  assumes "single_bit (presence AND VPS_ARGUMENT_CONNECTION_MODES)"
  shows "\<exists>i \<in> {VPS_ARGUMENT_ID_CREDENTIAL_REF, VPS_ARGUMENT_ID_SERVICE, VPS_ARGUMENT_ID_PROFILE, VPS_ARGUMENT_ID_CONNSTR}.
    presence AND VPS_ARGUMENT_CONNECTION_MODES = argument_bit i"
proof -
  let ?m = "presence AND VPS_ARGUMENT_CONNECTION_MODES"
  obtain n where n: "bit ?m n" "\<And>k. bit ?m k \<Longrightarrow> k = n" using assms unfolding single_bit_iff by blast
  from n(1) have "bit VPS_ARGUMENT_CONNECTION_MODES n" by (metis bit_and_iff)
  then obtain i where i: "i \<in> {VPS_ARGUMENT_ID_CREDENTIAL_REF, VPS_ARGUMENT_ID_SERVICE, VPS_ARGUMENT_ID_PROFILE,
      VPS_ARGUMENT_ID_CONNSTR}" "n = argument_index i" unfolding mode_bits(1) by blast
  have "?m = argument_bit i"
  proof (rule bit_eqI)
    have known: "i \<noteq> VPS_ARGUMENT_ID_UNKNOWN" using i(1) by auto
    show "bit ?m k = bit (argument_bit i) k" for k
      unfolding bit_argument_bit [OF known] i(2) [symmetric] using n by metis
  qed
  with i(1) show ?thesis by blast
qed

lemma argument_bit_and:
  "i \<noteq> VPS_ARGUMENT_ID_UNKNOWN \<Longrightarrow> j \<noteq> VPS_ARGUMENT_ID_UNKNOWN \<Longrightarrow> argument_bit i AND argument_bit j \<noteq> 0 \<longleftrightarrow> i = j"
  unfolding no_bits using argument_index_inject [of i j] by (auto simp: bit_and_iff bit_argument_bit)

lemma argument_bit_nonzero: "i \<noteq> VPS_ARGUMENT_ID_UNKNOWN \<Longrightarrow> argument_bit i \<noteq> 0"
  unfolding no_bits by (auto simp: bit_argument_bit)

lemma mode_of_presence:
  assumes "single_bit (presence AND VPS_ARGUMENT_CONNECTION_MODES)"
  defines "modes \<equiv> presence AND VPS_ARGUMENT_CONNECTION_MODES"
  shows "modes = argument_bit (mode_argument
      (if modes AND argument_bit VPS_ARGUMENT_ID_CREDENTIAL_REF \<noteq> 0 then VPS_CONNECTION_MODE_CREDENTIAL_REF
       else if modes AND argument_bit VPS_ARGUMENT_ID_SERVICE \<noteq> 0 then VPS_CONNECTION_MODE_SERVICE
       else if modes AND argument_bit VPS_ARGUMENT_ID_PROFILE \<noteq> 0 then VPS_CONNECTION_MODE_PROFILE
       else VPS_CONNECTION_MODE_CONNSTR))"
  using one_mode [OF assms(1)] unfolding modes_def by (auto simp: argument_bit_and argument_bit_nonzero)

lemma vps_connection_log_frame [simp]: "srv_heap (vps_connection_log conn r s) = srv_heap s"
  by (auto simp: vps_connection_log_def Let_def split: option.splits prod.splits)

lemma connection_init_fresh:
  assumes "platform_zeroes operations"
    and "vps_connection_config_init (Some system_allocator) operations = (VPS_CONNECTION_STRING_OK, Some rep)"
  shows "secret_in system_allocator (\<lambda>_. True) heap_live (conn_storage rep) s \<and> connection_fresh rep \<and>
    sens_initialized (conn_storage rep) \<and> sens_operations (conn_storage rep) = operations \<and> conn_initialized rep"
proof -
  obtain m where m: "vps_sensitive_memory_init (Some system_allocator) operations = (VPS_SECURE_MEMORY_OK, Some m)"
      "conn_storage rep = m" "conn_config rep = empty_config" "conn_initialized rep"
    using assms(2) by (auto simp: vps_connection_config_init_def zero_connection_def split: prod.splits option.splits
        VpsSecureMemoryResult.splits)
  then show ?thesis
    using system_record.sensitive_init_in [OF _ assms(1) m(1), of s] by (simp add: connection_fresh_def)
qed

lemma connection_cleanup_step:
  assumes "secret_in system_allocator (\<lambda>_. True) heap_live (conn_storage rep) s" "sens_initialized (conn_storage rep)"
    and "conn_initialized rep" "platform_always_zeroes (sens_operations (conn_storage rep))"
  shows "\<exists>m. secret_step system_allocator (\<lambda>_. True) heap_live heap_freed (conn_storage rep, s)
      (m, snd (snd (vps_connection_config_cleanup rep s))) \<and> owned_blocks (sens_storage m) = {#}"
proof -
  obtain r m s1 where rel: "vps_sensitive_memory_release (conn_storage rep) s = (r, m, s1)" by (metis prod_cases3)
  note fin = system_record.release_temporary [OF assms(1,2,4) rel]
  then show ?thesis using rel assms(3) by (auto simp: vps_connection_config_cleanup_def)
qed


abbreviation (input) witness_connection :: "(heap, unit) VpsConnectionConfig" where
  "witness_connection \<equiv> (zero_connection \<lparr>sens_storage = \<lparr>owned_allocator = system_allocator, owned_memory = None,
     owned_size = 0, owned_flag = False\<rparr>, sens_operations = Some witness_platform, sens_initialized = True\<rparr>)
     \<lparr>conn_config := empty_config, conn_initialized := True\<rparr>"

abbreviation (input) witness_options :: VpsConnectionResolveOptions where
  "witness_options \<equiv> \<lparr>opt_conninfo_parser = Some (\<lambda>_. Conninfo_consume (Some witness_config) Conninfo_return),
     opt_profile_environment = None, opt_profile_environment_count = 0\<rparr>"


section \<open>Names and logging\<close>

text \<open>A profile name becomes at most 64 capital letters, digits and underscores, so every variable name fits its buffer
  and the branches that report an exceeded limit for a name are never taken.\<close>

lemma profile_char_upper:
  "profile_char b = Some c \<Longrightarrow> char_between (CHR ''A'') (CHR ''Z'') c \<or> char_between (CHR ''0'') (CHR ''9'') c \<or> c = CHR ''_''"
  by (auto simp: profile_char_def Let_def char_between_def of_char_of split: if_splits)

lemma normalize_chars_upper:
  "normalize_chars bytes = (ok, out) \<Longrightarrow> length out \<le> length bytes \<and>
     (\<forall>c\<in>set out. char_between (CHR ''A'') (CHR ''Z'') c \<or> char_between (CHR ''0'') (CHR ''9'') c \<or> c = CHR ''_'')"
  by (induction bytes arbitrary: ok out)
    (auto split: option.splits prod.splits dest: profile_char_upper)

lemma vps_normalize_profile_name:
  assumes "vps_normalize_profile t old = (True, out)"
  shows "length out \<le> VPS_PROFILE_NAME_MAX_LENGTH \<and>
     (\<forall>c\<in>set out. char_between (CHR ''A'') (CHR ''Z'') c \<or> char_between (CHR ''0'') (CHR ''9'') c \<or> c = CHR ''_'')"
proof -
  obtain bytes and n :: size_t where t: "n \<le> 64" "normalize_chars (take (unat n) bytes) = (True, out)"
    using assms by (auto simp: vps_normalize_profile_def not_less split: option.splits if_splits)
  moreover have "unat n \<le> 64" using t(1) by (simp add: word_le_nat_alt)
  ultimately show ?thesis using normalize_chars_upper [OF t(2)] by fastforce
qed

lemma profile_names_fit:
  assumes "length profile \<le> VPS_PROFILE_NAME_MAX_LENGTH"
  shows "vps_build_profile_name (VPS_PROFILE_NAME_MAX_LENGTH + 14) profile None = Some (''VPS_PROFILE_'' @ profile @ ''_'')"
    and "vps_build_profile_name (VPS_PROFILE_NAME_MAX_LENGTH + 40) profile (Some (profile_suffix m)) =
      Some (''VPS_PROFILE_'' @ profile @ ''_'' @ profile_suffix m)"
  using assms by (simp_all add: vps_build_profile_name_def) (cases m; simp)+

text \<open>The name of the mode of connection strings is a word the logger takes for sensitive, so no resolution in this mode
  is ever logged.\<close>

lemma connstr_never_logged:
  assumes "conn_mode conn = VPS_CONNECTION_MODE_CONNSTR"
  shows "vps_connection_log conn r s = s"
proof -
  have sens: "vps_log_value_is_sensitive ''connstr''"
    by (simp add: vps_log_value_is_sensitive_def vps_log_sensitive_tokens_def vps_log_contains_token_def
        vps_log_ascii_lower_def char_between_def upt_rec)
  have "log_add_strict event (LogStr VPS_LOG_FIELD_OPERATION op # LogStr VPS_LOG_FIELD_PHASE ''connstr'' # items) = None" for event op items
    using sens by (auto simp: vps_log_event_add_string_def Let_def split: prod.splits if_splits)
  then show ?thesis
    using assms by (auto simp: vps_connection_log_def Let_def split: option.splits prod.splits)
qed

end
