(* ===== verification/Vps_Tls_Policy.thy ===== *)
theory Vps_Tls_Policy
  imports Vps_Credential
begin

text \<open>
  The TLS policy of a connection, \<open>src/src/vps_tls_policy.c\<close>: the mode and the channel binding a configuration asks for,
  and the check of a fresh connection against them. An enumeration has a constructor for values outside its range.
\<close>

section \<open>Data\<close>

datatype VpsTlsMode =
    VPS_TLS_MODE_VERIFY_FULL
  | VPS_TLS_MODE_VERIFY_CA
  | VPS_TLS_MODE_REQUIRE
  | VPS_TLS_MODE_PREFER
  | VPS_TLS_MODE_DISABLE
  | VPS_TLS_MODE_OTHER int

datatype VpsChannelBindingMode =
    VPS_CHANNEL_BINDING_PREFER
  | VPS_CHANNEL_BINDING_REQUIRE
  | VPS_CHANNEL_BINDING_DISABLE
  | VPS_CHANNEL_BINDING_OTHER int

datatype VpsTlsCertificateStatus =
    VPS_TLS_CERTIFICATE_NONE
  | VPS_TLS_CERTIFICATE_ENCRYPTED_UNVERIFIED
  | VPS_TLS_CERTIFICATE_CA_VERIFIED
  | VPS_TLS_CERTIFICATE_HOSTNAME_VERIFIED
  | VPS_TLS_CERTIFICATE_OTHER int

datatype VpsChannelBindingStatus =
    VPS_CHANNEL_BINDING_STATUS_DISABLED
  | VPS_CHANNEL_BINDING_STATUS_NOT_REQUIRED
  | VPS_CHANNEL_BINDING_STATUS_SATISFIED
  | VPS_CHANNEL_BINDING_STATUS_UNSATISFIED
  | VPS_CHANNEL_BINDING_STATUS_OTHER int

datatype VpsTlsResult =
    VPS_TLS_OK
  | VPS_TLS_INVALID_ARGUMENT
  | VPS_TLS_INVALID_SSLMODE
  | VPS_TLS_INVALID_CHANNEL_BINDING
  | VPS_TLS_EXPLICIT_DISABLE_REQUIRED
  | VPS_TLS_CONNECTION_NOT_READY
  | VPS_TLS_REQUIRED
  | VPS_TLS_FORBIDDEN
  | VPS_TLS_CHANNEL_BINDING_REQUIRED
  | VPS_TLS_POLICY_MISMATCH
  | VPS_TLS_OTHER int

record VpsTlsPolicyOptions =
  allow_explicit_disable :: bool

record VpsTlsPolicy =
  policy_mode :: VpsTlsMode
  policy_channel_binding :: VpsChannelBindingMode
  policy_initialized :: bool

record VpsTlsObservation =
  obs_connection_ready :: bool
  obs_ssl_in_use :: bool
  obs_ssl_library_reported :: bool
  obs_protocol_reported :: bool
  obs_cipher_reported :: bool
  obs_policy_applied :: bool

record VpsTlsOutcome =
  outcome_mode :: VpsTlsMode
  outcome_certificate_status :: VpsTlsCertificateStatus
  outcome_channel_binding_status :: VpsChannelBindingStatus
  outcome_ssl_in_use :: bool
  outcome_diagnostic_attributes_complete :: bool

section \<open>Names\<close>

fun vps_tls_mode_name :: "VpsTlsMode \<Rightarrow> string" where
  "vps_tls_mode_name VPS_TLS_MODE_VERIFY_FULL = ''verify-full''"
| "vps_tls_mode_name VPS_TLS_MODE_VERIFY_CA = ''verify-ca''"
| "vps_tls_mode_name VPS_TLS_MODE_REQUIRE = ''require''"
| "vps_tls_mode_name VPS_TLS_MODE_PREFER = ''prefer''"
| "vps_tls_mode_name VPS_TLS_MODE_DISABLE = ''disable''"
| "vps_tls_mode_name (VPS_TLS_MODE_OTHER _) = ''unknown''"

fun vps_channel_binding_mode_name :: "VpsChannelBindingMode \<Rightarrow> string" where
  "vps_channel_binding_mode_name VPS_CHANNEL_BINDING_PREFER = ''prefer''"
| "vps_channel_binding_mode_name VPS_CHANNEL_BINDING_REQUIRE = ''require''"
| "vps_channel_binding_mode_name VPS_CHANNEL_BINDING_DISABLE = ''disable''"
| "vps_channel_binding_mode_name (VPS_CHANNEL_BINDING_OTHER _) = ''unknown''"

fun vps_tls_certificate_status_name :: "VpsTlsCertificateStatus \<Rightarrow> string" where
  "vps_tls_certificate_status_name VPS_TLS_CERTIFICATE_NONE = ''none''"
| "vps_tls_certificate_status_name VPS_TLS_CERTIFICATE_ENCRYPTED_UNVERIFIED = ''encrypted_unverified''"
| "vps_tls_certificate_status_name VPS_TLS_CERTIFICATE_CA_VERIFIED = ''ca_verified''"
| "vps_tls_certificate_status_name VPS_TLS_CERTIFICATE_HOSTNAME_VERIFIED = ''hostname_verified''"
| "vps_tls_certificate_status_name (VPS_TLS_CERTIFICATE_OTHER _) = ''unknown''"

fun vps_channel_binding_status_name :: "VpsChannelBindingStatus \<Rightarrow> string" where
  "vps_channel_binding_status_name VPS_CHANNEL_BINDING_STATUS_DISABLED = ''disabled''"
| "vps_channel_binding_status_name VPS_CHANNEL_BINDING_STATUS_NOT_REQUIRED = ''not_required''"
| "vps_channel_binding_status_name VPS_CHANNEL_BINDING_STATUS_SATISFIED = ''satisfied''"
| "vps_channel_binding_status_name VPS_CHANNEL_BINDING_STATUS_UNSATISFIED = ''unsatisfied''"
| "vps_channel_binding_status_name (VPS_CHANNEL_BINDING_STATUS_OTHER _) = ''unknown''"

fun vps_tls_result_name :: "VpsTlsResult \<Rightarrow> string" where
  "vps_tls_result_name VPS_TLS_OK = ''ok''"
| "vps_tls_result_name VPS_TLS_INVALID_ARGUMENT = ''invalid_argument''"
| "vps_tls_result_name VPS_TLS_INVALID_SSLMODE = ''invalid_sslmode''"
| "vps_tls_result_name VPS_TLS_INVALID_CHANNEL_BINDING = ''invalid_channel_binding''"
| "vps_tls_result_name VPS_TLS_EXPLICIT_DISABLE_REQUIRED = ''explicit_disable_required''"
| "vps_tls_result_name VPS_TLS_CONNECTION_NOT_READY = ''connection_not_ready''"
| "vps_tls_result_name VPS_TLS_REQUIRED = ''tls_required''"
| "vps_tls_result_name VPS_TLS_FORBIDDEN = ''tls_forbidden''"
| "vps_tls_result_name VPS_TLS_CHANNEL_BINDING_REQUIRED = ''channel_binding_required''"
| "vps_tls_result_name VPS_TLS_POLICY_MISMATCH = ''policy_mismatch''"
| "vps_tls_result_name (VPS_TLS_OTHER _) = ''unknown''"

section \<open>Operations\<close>

text \<open>The loop of \<open>vps_tls_text_equal\<close>: the end of the value is its terminator, which differs from every expected
  character.\<close>

fun tls_text_matches :: "string \<Rightarrow> string \<Rightarrow> bool" where
  "tls_text_matches rest [] = (rest = [])"
| "tls_text_matches [] (e # es) = False"
| "tls_text_matches (c # cs) (e # es) =
     (if c_tolower c \<noteq> e then False else tls_text_matches cs es)"

definition vps_tls_text_equal :: "string option \<Rightarrow> string \<Rightarrow> bool" where
  "vps_tls_text_equal value_ptr expected =
     (case value_ptr of None \<Rightarrow> False | Some s \<Rightarrow> tls_text_matches s expected)"

definition vps_tls_parse_mode :: "string option \<Rightarrow> VpsTlsResult + VpsTlsMode" where
  "vps_tls_parse_mode s =
     (if s = None \<or> vps_tls_text_equal s ''verify-full'' then Inr VPS_TLS_MODE_VERIFY_FULL
      else if vps_tls_text_equal s ''verify-ca'' then Inr VPS_TLS_MODE_VERIFY_CA
      else if vps_tls_text_equal s ''require'' then Inr VPS_TLS_MODE_REQUIRE
      else if vps_tls_text_equal s ''prefer'' then Inr VPS_TLS_MODE_PREFER
      else if vps_tls_text_equal s ''disable'' then Inr VPS_TLS_MODE_DISABLE
      else Inl VPS_TLS_INVALID_SSLMODE)"

definition vps_tls_parse_channel_binding :: "string option \<Rightarrow> VpsTlsResult + VpsChannelBindingMode" where
  "vps_tls_parse_channel_binding s =
     (if s = None \<or> vps_tls_text_equal s ''prefer'' then Inr VPS_CHANNEL_BINDING_PREFER
      else if vps_tls_text_equal s ''require'' then Inr VPS_CHANNEL_BINDING_REQUIRE
      else if vps_tls_text_equal s ''disable'' then Inr VPS_CHANNEL_BINDING_DISABLE
      else Inl VPS_TLS_INVALID_CHANNEL_BINDING)"

definition vps_tls_log ::
    "'c VpsLogger option \<Rightarrow> VpsTlsPolicy \<Rightarrow> VpsTlsOutcome \<Rightarrow> VpsTlsResult \<Rightarrow> 'c VpsLogger option" where
  "vps_tls_log logger policy outcome result =
     log_emit_strict logger (if result = VPS_TLS_OK then VPS_LOG_LEVEL_INFO else VPS_LOG_LEVEL_WARN)
       [LogStr VPS_LOG_FIELD_OPERATION ''tls_policy'', LogStr VPS_LOG_FIELD_PHASE ''post_connect'',
        LogStr VPS_LOG_FIELD_TLS_MODE (vps_tls_mode_name (policy_mode policy)),
        LogNum VPS_LOG_FIELD_SSL_IN_USE (if outcome_ssl_in_use outcome then 1 else 0),
        LogStr VPS_LOG_FIELD_CERTIFICATE_STATUS (vps_tls_certificate_status_name (outcome_certificate_status outcome)),
        LogStr VPS_LOG_FIELD_CHANNEL_BINDING_STATUS
          (vps_channel_binding_status_name (outcome_channel_binding_status outcome)),
        LogStr VPS_LOG_FIELD_STATUS (vps_tls_result_name result)]"

text \<open>The policy is written only when the result is OK.\<close>

definition vps_tls_policy_from_config ::
    "VpsCredentialConfig option \<Rightarrow> VpsTlsPolicyOptions option \<Rightarrow> VpsTlsPolicy option \<Rightarrow>
     VpsTlsResult \<times> VpsTlsPolicy option" where
  "vps_tls_policy_from_config config_ptr options_ptr policy =
     (if config_ptr = None \<or> options_ptr = None \<or> policy = None then (VPS_TLS_INVALID_ARGUMENT, policy)
      else let config = the config_ptr
           in case vps_tls_parse_mode (config_member config Sslmode) of
                Inl result \<Rightarrow> (result, policy)
              | Inr mode \<Rightarrow>
                  (case vps_tls_parse_channel_binding (config_member config Channel_binding) of
                     Inl result \<Rightarrow> (result, policy)
                   | Inr channel_binding \<Rightarrow>
                       if mode = VPS_TLS_MODE_DISABLE \<and> \<not> allow_explicit_disable (the options_ptr)
                       then (VPS_TLS_EXPLICIT_DISABLE_REQUIRED, policy)
                       else if channel_binding = VPS_CHANNEL_BINDING_REQUIRE \<and> mode = VPS_TLS_MODE_DISABLE
                       then (VPS_TLS_CHANNEL_BINDING_REQUIRED, policy)
                       else (VPS_TLS_OK,
                             Some \<lparr>policy_mode = mode, policy_channel_binding = channel_binding,
                                   policy_initialized = True\<rparr>)))"

definition tls_verdict :: "VpsTlsPolicy \<Rightarrow> VpsTlsObservation \<Rightarrow> VpsTlsResult" where
  "tls_verdict policy observation =
     (if \<not> obs_connection_ready observation then VPS_TLS_CONNECTION_NOT_READY
      else if \<not> obs_policy_applied observation then VPS_TLS_POLICY_MISMATCH
      else if policy_mode policy = VPS_TLS_MODE_DISABLE \<and> obs_ssl_in_use observation then VPS_TLS_FORBIDDEN
      else if policy_mode policy \<noteq> VPS_TLS_MODE_DISABLE \<and> policy_mode policy \<noteq> VPS_TLS_MODE_PREFER \<and>
              \<not> obs_ssl_in_use observation
      then VPS_TLS_REQUIRED
      else if policy_channel_binding policy = VPS_CHANNEL_BINDING_REQUIRE \<and> \<not> obs_ssl_in_use observation
      then VPS_TLS_CHANNEL_BINDING_REQUIRED
      else VPS_TLS_OK)"

text \<open>The fields of the outcome. The status of the channel binding is overwritten at two places: on the last failing
  branch of the verdict, and when TLS is in use.\<close>

definition tls_outcome :: "VpsTlsPolicy \<Rightarrow> VpsTlsObservation \<Rightarrow> VpsTlsOutcome" where
  "tls_outcome policy observation =
     \<lparr>outcome_mode = policy_mode policy,
      outcome_certificate_status =
        (if \<not> obs_ssl_in_use observation then VPS_TLS_CERTIFICATE_NONE
         else if policy_mode policy = VPS_TLS_MODE_VERIFY_FULL then VPS_TLS_CERTIFICATE_HOSTNAME_VERIFIED
         else if policy_mode policy = VPS_TLS_MODE_VERIFY_CA then VPS_TLS_CERTIFICATE_CA_VERIFIED
         else VPS_TLS_CERTIFICATE_ENCRYPTED_UNVERIFIED),
      outcome_channel_binding_status =
        (if obs_ssl_in_use observation \<and> policy_channel_binding policy = VPS_CHANNEL_BINDING_REQUIRE
         then VPS_CHANNEL_BINDING_STATUS_SATISFIED
         else if tls_verdict policy observation = VPS_TLS_CHANNEL_BINDING_REQUIRED
         then VPS_CHANNEL_BINDING_STATUS_UNSATISFIED
         else if policy_channel_binding policy = VPS_CHANNEL_BINDING_DISABLE
         then VPS_CHANNEL_BINDING_STATUS_DISABLED
         else VPS_CHANNEL_BINDING_STATUS_NOT_REQUIRED),
      outcome_ssl_in_use = obs_ssl_in_use observation,
      outcome_diagnostic_attributes_complete =
        obs_ssl_library_reported observation \<and> obs_protocol_reported observation \<and> obs_cipher_reported observation\<rparr>"

definition vps_tls_policy_verify ::
    "VpsTlsPolicy option \<Rightarrow> VpsTlsObservation option \<Rightarrow> VpsTlsOutcome option \<Rightarrow> 'c VpsLogger option \<Rightarrow>
     VpsTlsResult \<times> VpsTlsOutcome option \<times> 'c VpsLogger option" where
  "vps_tls_policy_verify policy_ptr observation_ptr outcome logger =
     (case (policy_ptr, observation_ptr) of
        (Some policy, Some observation) \<Rightarrow>
          if \<not> policy_initialized policy \<or> outcome = None then (VPS_TLS_INVALID_ARGUMENT, outcome, logger)
          else let result = tls_verdict policy observation; replacement = tls_outcome policy observation
               in (result, Some replacement, vps_tls_log logger policy replacement result)
      | _ \<Rightarrow> (VPS_TLS_INVALID_ARGUMENT, outcome, logger))"

section \<open>What the policy enforces\<close>

lemma tls_text_matches_exact: "tls_text_matches s e \<longleftrightarrow> map c_tolower s = e"
  by (induction s e rule: tls_text_matches.induct) auto

lemma vps_tls_text_equal_exact: "vps_tls_text_equal v e \<longleftrightarrow> map_option (map c_tolower) v = Some e"
  by (cases v) (simp_all add: vps_tls_text_equal_def tls_text_matches_exact)

lemma vps_tls_parse_mode_exact:
  "vps_tls_parse_mode v = Inr mode \<longleftrightarrow>
     (case mode of VPS_TLS_MODE_VERIFY_FULL \<Rightarrow> v = None \<or> map_option (map c_tolower) v = Some ''verify-full''
      | VPS_TLS_MODE_OTHER _ \<Rightarrow> False
      | _ \<Rightarrow> map_option (map c_tolower) v = Some (vps_tls_mode_name mode))"
  by (cases mode) (auto simp: vps_tls_parse_mode_def vps_tls_text_equal_exact split: if_splits)

lemma vps_tls_parse_channel_binding_exact:
  "vps_tls_parse_channel_binding v = Inr mode \<longleftrightarrow>
     (case mode of VPS_CHANNEL_BINDING_PREFER \<Rightarrow> v = None \<or> map_option (map c_tolower) v = Some ''prefer''
      | VPS_CHANNEL_BINDING_OTHER _ \<Rightarrow> False
      | _ \<Rightarrow> map_option (map c_tolower) v = Some (vps_channel_binding_mode_name mode))"
  by (cases mode) (auto simp: vps_tls_parse_channel_binding_def vps_tls_text_equal_exact split: if_splits)

lemma vps_tls_parse_failure [simp]:
  "vps_tls_parse_mode v \<noteq> Inl VPS_TLS_OK" "vps_tls_parse_channel_binding v \<noteq> Inl VPS_TLS_OK"
  by (simp_all add: vps_tls_parse_mode_def vps_tls_parse_channel_binding_def)

lemma vps_tls_policy_from_config_exact:
  assumes "vps_tls_policy_from_config (Some config) (Some options) old = (VPS_TLS_OK, Some policy)"
  shows "vps_tls_parse_mode (config_member config Sslmode) = Inr (policy_mode policy)"
    and "vps_tls_parse_channel_binding (config_member config Channel_binding) = Inr (policy_channel_binding policy)"
    and "policy_mode policy = VPS_TLS_MODE_DISABLE \<Longrightarrow>
      allow_explicit_disable options \<and> policy_channel_binding policy \<noteq> VPS_CHANNEL_BINDING_REQUIRE"
    and "policy_initialized policy"
  using assms by (auto simp: vps_tls_policy_from_config_def Let_def split: if_splits sum.splits)

lemma vps_tls_policy_from_config_keeps:
  "vps_tls_policy_from_config config options old = (r, policy) \<Longrightarrow> r \<noteq> VPS_TLS_OK \<Longrightarrow> policy = old"
  by (auto simp: vps_tls_policy_from_config_def Let_def split: if_splits sum.splits)

lemma vps_tls_policy_verify_exact:
  assumes "vps_tls_policy_verify (Some policy) (Some observation) (Some old) logger = (r, out, logger')"
    and "policy_initialized policy"
  shows "r = tls_verdict policy observation" "out = Some (tls_outcome policy observation)"
  using assms by (auto simp: vps_tls_policy_verify_def Let_def)



end
