(* ===== verification/Vps_Metadata.thy ===== *)
theory Vps_Metadata
  imports Vps_Bytes Vps_Logging "HOL-Library.Monad_Syntax"
begin

text \<open>
  Catalogue rows of \<open>src/src/vps_metadata.c\<close>: the copy of a query result into memory of its own, the readers of
  numbers and flags in cells, and the description of a relation.

  The array of cells is a block of memory for the accounting of the allocator and the list of cells for its
  contents. The callbacks of an input are arbitrary functions on a state of their own, so a row may change between
  the pass that measures and the pass that copies. The texts of the catalogue queries are not part of the model; a
  query is the numbers of its parameters and of its result fields.
\<close>

section \<open>Data\<close>

datatype VpsMetadataResult =
    VPS_METADATA_OK
  | VPS_METADATA_INVALID_ARGUMENT
  | VPS_METADATA_INVALID_STATE
  | VPS_METADATA_INVALID_RESULT
  | VPS_METADATA_LIMIT_EXCEEDED
  | VPS_METADATA_OUT_OF_MEMORY
  | VPS_METADATA_NOT_FOUND
  | VPS_METADATA_UNSUPPORTED

datatype VpsCatalogQuery =
    VPS_CATALOG_QUERY_RELATION
  | VPS_CATALOG_QUERY_COLUMNS
  | VPS_CATALOG_QUERY_KEYS
  | VPS_CATALOG_QUERY_RELATION_POLICY
  | VPS_CATALOG_QUERY_POSTGIS
  | VPS_CATALOG_QUERY_RELATIONS_FUNCTION
  | VPS_CATALOG_QUERY_TABLE_INFO_FUNCTION
  | VPS_CATALOG_QUERY_INDEX_LIST_FUNCTION
  | VPS_CATALOG_QUERY_INDEX_INFO_FUNCTION
  | VPS_CATALOG_QUERY_TYPE_INFO_FUNCTION
  | VPS_CATALOG_QUERY_EXTENSIONS_FUNCTION
  | VPS_CATALOG_QUERY_OUT_OF_RANGE int

record VpsCatalogQuerySpec =
  spec_query :: VpsCatalogQuery
  spec_parameter_count :: size_t
  spec_result_field_count :: size_t

record VpsMetadataCell =
  cell_offset :: size_t
  cell_length :: size_t
  cell_is_null :: bool

record ('w, 'l) VpsMetadataRowSet =
  rows_allocator :: "'w VpsAllocator"
  rows_cells :: "VpsMetadataCell list"
  rows_cells_memory :: "block option"
  rows_bytes :: "block option"
  rows_row_count :: size_t
  rows_field_count :: size_t
  rows_cell_count :: size_t
  rows_cell_bytes :: size_t
  rows_bytes_size :: size_t
  rows_logger :: "'l VpsLogger option"
  rows_initialized :: bool

record 'c VpsMetadataInput =
  input_row_count :: size_t
  input_field_count :: size_t
  input_is_null :: "('c \<Rightarrow> nat \<Rightarrow> nat \<Rightarrow> bool \<times> 'c) option"
  input_value :: "('c \<Rightarrow> nat \<Rightarrow> nat \<Rightarrow> u8 list option \<times> 'c) option"
  input_length :: "('c \<Rightarrow> nat \<Rightarrow> nat \<Rightarrow> size_t \<times> 'c) option"

abbreviation (input) VPS_METADATA_MAX_ROWS :: size_t where "VPS_METADATA_MAX_ROWS \<equiv> 65536"
abbreviation (input) VPS_METADATA_MAX_FIELDS :: size_t where "VPS_METADATA_MAX_FIELDS \<equiv> 64"
abbreviation (input) VPS_METADATA_MAX_CELLS :: size_t where "VPS_METADATA_MAX_CELLS \<equiv> 4194304"
abbreviation (input) VPS_METADATA_MAX_CELL_BYTES :: size_t where "VPS_METADATA_MAX_CELL_BYTES \<equiv> 1048576"
abbreviation (input) VPS_METADATA_MAX_TOTAL_BYTES :: size_t where "VPS_METADATA_MAX_TOTAL_BYTES \<equiv> 16777216"
abbreviation (input) VPS_METADATA_NAME_MAX_BYTES :: size_t where "VPS_METADATA_NAME_MAX_BYTES \<equiv> 255"

text \<open>Two sizes and a flag, padded to a multiple of eight.\<close>

abbreviation (input) sizeof_VpsMetadataCell :: size_t where "sizeof_VpsMetadataCell \<equiv> 24"

section \<open>Catalogue queries\<close>

definition vps_catalog_query_name :: "VpsCatalogQuery \<Rightarrow> string" where
  "vps_catalog_query_name query =
     (case query of
        VPS_CATALOG_QUERY_RELATION \<Rightarrow> ''catalog_relation''
      | VPS_CATALOG_QUERY_COLUMNS \<Rightarrow> ''catalog_columns''
      | VPS_CATALOG_QUERY_KEYS \<Rightarrow> ''catalog_keys''
      | VPS_CATALOG_QUERY_RELATION_POLICY \<Rightarrow> ''catalog_policy''
      | VPS_CATALOG_QUERY_POSTGIS \<Rightarrow> ''catalog_postgis''
      | VPS_CATALOG_QUERY_RELATIONS_FUNCTION \<Rightarrow> ''metadata_relations''
      | VPS_CATALOG_QUERY_TABLE_INFO_FUNCTION \<Rightarrow> ''metadata_table_info''
      | VPS_CATALOG_QUERY_INDEX_LIST_FUNCTION \<Rightarrow> ''metadata_index_list''
      | VPS_CATALOG_QUERY_INDEX_INFO_FUNCTION \<Rightarrow> ''metadata_index_info''
      | VPS_CATALOG_QUERY_TYPE_INFO_FUNCTION \<Rightarrow> ''metadata_type_info''
      | VPS_CATALOG_QUERY_EXTENSIONS_FUNCTION \<Rightarrow> ''metadata_extensions''
      | VPS_CATALOG_QUERY_OUT_OF_RANGE _ \<Rightarrow> ''catalog_unknown'')"

definition vps_catalog_specs :: "VpsCatalogQuery \<Rightarrow> (size_t \<times> size_t) option" where
  "vps_catalog_specs query =
     (case query of
        VPS_CATALOG_QUERY_RELATION \<Rightarrow> Some (2, 12)
      | VPS_CATALOG_QUERY_COLUMNS \<Rightarrow> Some (1, 39)
      | VPS_CATALOG_QUERY_KEYS \<Rightarrow> Some (1, 16)
      | VPS_CATALOG_QUERY_RELATION_POLICY \<Rightarrow> Some (1, 10)
      | VPS_CATALOG_QUERY_POSTGIS \<Rightarrow> Some (1, 15)
      | VPS_CATALOG_QUERY_RELATIONS_FUNCTION \<Rightarrow> Some (1, 23)
      | VPS_CATALOG_QUERY_TABLE_INFO_FUNCTION \<Rightarrow> Some (2, 25)
      | VPS_CATALOG_QUERY_INDEX_LIST_FUNCTION \<Rightarrow> Some (2, 16)
      | VPS_CATALOG_QUERY_INDEX_INFO_FUNCTION \<Rightarrow> Some (3, 13)
      | VPS_CATALOG_QUERY_TYPE_INFO_FUNCTION \<Rightarrow> Some (2, 18)
      | VPS_CATALOG_QUERY_EXTENSIONS_FUNCTION \<Rightarrow> Some (0, 8)
      | VPS_CATALOG_QUERY_OUT_OF_RANGE _ \<Rightarrow> None)"

definition vps_metadata_catalog_query_spec ::
    "VpsCatalogQuery \<Rightarrow> VpsMetadataResult \<times> VpsCatalogQuerySpec option" where
  "vps_metadata_catalog_query_spec query =
     (case vps_catalog_specs query of
        None \<Rightarrow> (VPS_METADATA_INVALID_ARGUMENT, None)
      | Some (parameters, result_fields) \<Rightarrow>
          (VPS_METADATA_OK,
           Some \<lparr>spec_query = query, spec_parameter_count = parameters, spec_result_field_count = result_fields\<rparr>))"

definition vps_metadata_log ::
    "'l VpsLogger option \<Rightarrow> VpsCatalogQuery \<Rightarrow> string \<Rightarrow> size_t \<Rightarrow> size_t \<Rightarrow> size_t \<Rightarrow> 'l VpsLogger option" where
  "vps_metadata_log logger query status rows columns bytes =
     log_emit_strict logger (if status = ''passed'' then VPS_LOG_LEVEL_DEBUG else VPS_LOG_LEVEL_WARN)
       [LogStr VPS_LOG_FIELD_OPERATION (vps_catalog_query_name query), LogStr VPS_LOG_FIELD_PHASE ''catalog_copy'',
        LogStr VPS_LOG_FIELD_STATUS status, LogNum VPS_LOG_FIELD_ROW_COUNT rows,
        LogNum VPS_LOG_FIELD_RESULT_FIELD_COUNT columns, LogNum VPS_LOG_FIELD_BYTE_COUNT bytes]"

section \<open>Row sets\<close>

definition empty_rowset :: "'w VpsAllocator \<Rightarrow> 'l VpsLogger option \<Rightarrow> ('w, 'l) VpsMetadataRowSet" where
  "empty_rowset allocator logger =
     \<lparr>rows_allocator = allocator, rows_cells = [], rows_cells_memory = None, rows_bytes = None, rows_row_count = 0,
      rows_field_count = 0, rows_cell_count = 0, rows_cell_bytes = 0, rows_bytes_size = 0, rows_logger = logger,
      rows_initialized = True\<rparr>"

definition vps_metadata_rowset_init ::
    "'w VpsAllocator option \<Rightarrow> 'l VpsLogger option \<Rightarrow> VpsMetadataResult \<times> ('w, 'l) VpsMetadataRowSet option" where
  "vps_metadata_rowset_init allocator logger =
     (if \<not> vps_allocator_is_valid allocator then (VPS_METADATA_INVALID_ARGUMENT, None)
      else (VPS_METADATA_OK, Some (empty_rowset (the allocator) logger)))"

text \<open>A row set that was never initialised is all zeros after the reset, which its callers do not look at.\<close>

definition vps_metadata_rowset_reset ::
    "('w, 'l) VpsMetadataRowSet \<Rightarrow> 'w \<Rightarrow> ('w, 'l) VpsMetadataRowSet \<times> 'w" where
  "vps_metadata_rowset_reset rowset w =
     (if \<not> rows_initialized rowset
      then ((empty_rowset (rows_allocator rowset) None)\<lparr>rows_initialized := False\<rparr>, w)
      else if \<not> vps_allocator_is_valid (Some (rows_allocator rowset))
      then (empty_rowset (rows_allocator rowset) (rows_logger rowset), w)
      else case vps_memory_release (Some (rows_allocator rowset)) (rows_bytes rowset) (rows_bytes_size rowset) w of
        (_, w1) \<Rightarrow>
          (case vps_memory_release (Some (rows_allocator rowset)) (rows_cells_memory rowset) (rows_cell_bytes rowset) w1 of
             (_, w2) \<Rightarrow> (empty_rowset (rows_allocator rowset) (rows_logger rowset), w2)))"

text \<open>The pairs of row and field in the order of the two nested loops, and the pass that measures.\<close>

definition cell_order :: "size_t \<Rightarrow> size_t \<Rightarrow> (nat \<times> nat) list" where
  "cell_order row_count field_count = List.product [0..<unat row_count] [0..<unat field_count]"

fun rowset_measure ::
    "'c VpsMetadataInput \<Rightarrow> (nat \<times> nat) list \<Rightarrow> size_t \<Rightarrow> 'c \<Rightarrow> bool \<times> size_t \<times> 'c" where
  "rowset_measure input [] total_bytes c = (True, total_bytes, c)"
| "rowset_measure input ((row, field) # left) total_bytes c =
     (case the (input_is_null input) c row field of
        (null, c1) \<Rightarrow>
          if null then rowset_measure input left total_bytes c1
          else case the (input_length input) c1 row field of
            (len, c2) \<Rightarrow>
              if len > VPS_METADATA_MAX_CELL_BYTES then (False, total_bytes, c2)
              else case the (input_value input) c2 row field of
                (val, c3) \<Rightarrow>
                  if val = None then (False, total_bytes, c3)
                  else case vps_size_add total_bytes len of
                    (VPS_MEMORY_OK, Some total') \<Rightarrow>
                      if total' > VPS_METADATA_MAX_TOTAL_BYTES then (False, total', c3)
                      else rowset_measure input left total' c3
                  | _ \<Rightarrow> (False, total_bytes, c3))"

text \<open>The pass that copies, from the row \<open>base\<close> on. It looks at every length again.\<close>

fun rowset_fill ::
    "'c VpsMetadataInput \<Rightarrow> nat \<Rightarrow> size_t \<Rightarrow> (nat \<times> nat) list \<Rightarrow> VpsMetadataCell list \<Rightarrow> block option \<Rightarrow> size_t \<Rightarrow> 'c \<Rightarrow>
     bool \<times> VpsMetadataCell list \<times> block option \<times> size_t \<times> 'c" where
  "rowset_fill input base total_bytes [] cells bytes offset c = (True, cells, bytes, offset, c)"
| "rowset_fill input base total_bytes ((row, field) # left) cells bytes offset c =
     (let index = (base + row) * unat (input_field_count input) + field
      in if index \<ge> length cells then (False, cells, bytes, offset, c)
         else case the (input_is_null input) c row field of
           (null, c1) \<Rightarrow>
             let cell = (cells ! index)\<lparr>cell_is_null := null, cell_offset := offset\<rparr>
             in if null then rowset_fill input base total_bytes left (cells[index := cell]) bytes offset c1
                else case the (input_value input) c1 row field of
                  (val, c2) \<Rightarrow>
                    (case the (input_length input) c2 row field of
                       (len, c3) \<Rightarrow>
                         let cells' = cells[index := cell\<lparr>cell_length := len\<rparr>]
                         in if len \<noteq> 0
                            then if val = None \<or> offset > total_bytes \<or> len > total_bytes - offset
                                 then (False, cells', bytes, offset, c3)
                                 else rowset_fill input base total_bytes left cells'
                                        (map_option (\<lambda>blk. mem_write blk (unat offset) (take (unat len) (the val))) bytes)
                                        (offset + len) c3
                            else rowset_fill input base total_bytes left cells' bytes offset c3))"

text \<open>The two allocations, which both ways of copying make alike, and the way out.\<close>

definition rowset_discard ::
    "'w VpsAllocator \<Rightarrow> block option \<Rightarrow> size_t \<Rightarrow> block option \<Rightarrow> size_t \<Rightarrow> 'w \<Rightarrow> 'w" where
  "rowset_discard allocator bytes total_bytes cells cell_bytes w =
     (case vps_memory_release (Some allocator) bytes total_bytes w of
        (_, w1) \<Rightarrow> (case vps_memory_release (Some allocator) cells cell_bytes w1 of (_, w2) \<Rightarrow> w2))"

definition rowset_allocate ::
    "'w VpsAllocator \<Rightarrow> size_t \<Rightarrow> size_t \<Rightarrow> size_t \<Rightarrow> 'w \<Rightarrow> bool \<times> block option \<times> block option \<times> 'w" where
  "rowset_allocate allocator cell_count cell_bytes total_bytes w =
     (case (if cell_bytes \<noteq> 0 then vps_memory_allocate (Some allocator) cell_bytes None w
            else (VPS_MEMORY_OK, None, w)) of
        (r1, cells, w1) \<Rightarrow>
          if r1 \<noteq> VPS_MEMORY_OK then (False, None, None, w1)
          else case (if total_bytes \<noteq> 0 then vps_memory_allocate (Some allocator) total_bytes None w1
                     else (VPS_MEMORY_OK, None, w1)) of
            (r2, bytes, w2) \<Rightarrow>
              if r2 \<noteq> VPS_MEMORY_OK
              then (False, None, None, snd (vps_memory_release (Some allocator) cells cell_bytes w2))
              else if (cell_count \<noteq> 0 \<and> cells = None) \<or> (total_bytes \<noteq> 0 \<and> bytes = None)
              then (False, None, None, rowset_discard allocator bytes total_bytes cells cell_bytes w2)
              else (True, cells, bytes, w2))"

definition zero_cell :: VpsMetadataCell where
  "zero_cell = \<lparr>cell_offset = 0, cell_length = 0, cell_is_null = False\<rparr>"

text \<open>The part that both ways of copying share: the allocations, the cells and bytes that are kept, and the pass over
  the input. A failure gives the new blocks back.\<close>

definition rowset_transfer ::
    "'w VpsAllocator \<Rightarrow> 'c VpsMetadataInput \<Rightarrow> nat \<Rightarrow> VpsMetadataCell list \<Rightarrow> block option \<Rightarrow> size_t \<Rightarrow>
     size_t \<Rightarrow> size_t \<Rightarrow> size_t \<Rightarrow> 'w \<Rightarrow> 'c \<Rightarrow>
     VpsMetadataResult \<times> VpsMetadataCell list \<times> block option \<times> block option \<times> 'w \<times> 'c" where
  "rowset_transfer allocator input base old_cells old_bytes old_size cell_count cell_bytes total_bytes w c =
     (case rowset_allocate allocator cell_count cell_bytes total_bytes w of
        (served, cells_memory, bytes, w1) \<Rightarrow>
          if \<not> served then (VPS_METADATA_OUT_OF_MEMORY, [], None, None, w1, c)
          else case rowset_fill input base total_bytes (cell_order (input_row_count input) (input_field_count input))
                      (old_cells @ replicate (unat cell_count - length old_cells) zero_cell)
                      (if old_size \<noteq> 0
                       then map_option (\<lambda>blk. mem_write blk 0 (take (unat old_size) (the old_bytes))) bytes else bytes)
                      old_size c of
            (filled, cells, bytes', _, c1) \<Rightarrow>
              if \<not> filled
              then (VPS_METADATA_INVALID_RESULT, [], None, None,
                    rowset_discard allocator bytes' total_bytes cells_memory cell_bytes w1, c1)
              else (VPS_METADATA_OK, cells, cells_memory, bytes', w1, c1))"

definition rowset_input_refused ::
    "('w, 'l) VpsMetadataRowSet option \<Rightarrow> VpsCatalogQuery \<Rightarrow> 'c VpsMetadataInput option \<Rightarrow> bool" where
  "rowset_input_refused rowset_ptr query input_ptr \<longleftrightarrow>
     rowset_ptr = None \<or> \<not> rows_initialized (the rowset_ptr) \<or> input_ptr = None \<or>
     input_is_null (the input_ptr) = None \<or> input_value (the input_ptr) = None \<or>
     input_length (the input_ptr) = None \<or> fst (vps_metadata_catalog_query_spec query) \<noteq> VPS_METADATA_OK"

definition query_fields :: "VpsCatalogQuery \<Rightarrow> size_t" where
  "query_fields query = spec_result_field_count (the (snd (vps_metadata_catalog_query_spec query)))"

definition vps_metadata_rowset_copy ::
    "('w, 'l) VpsMetadataRowSet option \<Rightarrow> VpsCatalogQuery \<Rightarrow> 'c VpsMetadataInput option \<Rightarrow> 'w \<Rightarrow> 'c \<Rightarrow>
     VpsMetadataResult \<times> ('w, 'l) VpsMetadataRowSet option \<times> 'w \<times> 'c" where
  "vps_metadata_rowset_copy rowset_ptr query input_ptr w c =
     (if rowset_input_refused rowset_ptr query input_ptr then (VPS_METADATA_INVALID_ARGUMENT, rowset_ptr, w, c)
      else
        let rowset = the rowset_ptr; input = the input_ptr; rows = input_row_count input;
            columns = input_field_count input;
            logged = (\<lambda>status bytes. rowset\<lparr>rows_logger := vps_metadata_log (rows_logger rowset) query status rows columns bytes\<rparr>)
        in if columns \<noteq> query_fields query \<or> columns > VPS_METADATA_MAX_FIELDS \<or> rows > VPS_METADATA_MAX_ROWS
           then (VPS_METADATA_INVALID_RESULT, Some (logged ''invalid_result'' 0), w, c)
           else case vps_size_multiply rows columns of
             (VPS_MEMORY_OK, Some cell_count) \<Rightarrow>
               if cell_count > VPS_METADATA_MAX_CELLS then (VPS_METADATA_LIMIT_EXCEEDED, rowset_ptr, w, c)
               else (case rowset_measure input (cell_order (input_row_count input) columns) 0 c of
                 (measured, total_bytes, c1) \<Rightarrow>
                   if \<not> measured
                   then (VPS_METADATA_LIMIT_EXCEEDED, Some (logged ''limit_exceeded'' total_bytes), w, c1)
                   else case vps_size_multiply cell_count sizeof_VpsMetadataCell of
                     (VPS_MEMORY_OK, Some cell_bytes) \<Rightarrow>
                       (case rowset_transfer (rows_allocator rowset) input 0 [] None 0 cell_count cell_bytes total_bytes w c1 of
                          (result, cells, cells_memory, bytes, w1, c2) \<Rightarrow>
                            if result \<noteq> VPS_METADATA_OK then (result, rowset_ptr, w1, c2)
                            else case vps_metadata_rowset_reset rowset w1 of
                              (cleared, w2) \<Rightarrow>
                                (VPS_METADATA_OK,
                                 Some (cleared\<lparr>rows_cells := cells, rows_cells_memory := cells_memory,
                                   rows_bytes := bytes, rows_row_count := rows, rows_field_count := columns,
                                   rows_cell_count := cell_count, rows_cell_bytes := cell_bytes,
                                   rows_bytes_size := total_bytes, rows_initialized := True,
                                   rows_logger := vps_metadata_log (rows_logger cleared) query ''passed''
                                     rows columns total_bytes\<rparr>), w2, c2))
                   | _ \<Rightarrow> (VPS_METADATA_LIMIT_EXCEEDED, rowset_ptr, w, c1))
           | _ \<Rightarrow> (VPS_METADATA_LIMIT_EXCEEDED, rowset_ptr, w, c))"

text \<open>The end of an append, once the sizes are known: the old cells and bytes are kept, then the old blocks go back.\<close>

definition rowset_extend ::
    "('w, 'l) VpsMetadataRowSet \<Rightarrow> VpsCatalogQuery \<Rightarrow> 'c VpsMetadataInput \<Rightarrow> size_t \<Rightarrow> size_t \<Rightarrow> size_t \<Rightarrow> size_t \<Rightarrow> 'w \<Rightarrow> 'c \<Rightarrow>
     VpsMetadataResult \<times> ('w, 'l) VpsMetadataRowSet option \<times> 'w \<times> 'c" where
  "rowset_extend rowset query input new_rows cell_count cell_bytes total_bytes w c =
     (if (rows_cell_bytes rowset \<noteq> 0 \<and> rows_cells_memory rowset = None) \<or>
         (rows_bytes_size rowset \<noteq> 0 \<and> rows_bytes rowset = None) \<or>
         rows_cell_bytes rowset > cell_bytes \<or> rows_bytes_size rowset > total_bytes
      then (VPS_METADATA_INVALID_RESULT, Some rowset, w, c)
      else case rowset_transfer (rows_allocator rowset) input (unat (rows_row_count rowset)) (rows_cells rowset)
                  (rows_bytes rowset) (rows_bytes_size rowset) cell_count cell_bytes total_bytes w c of
        (result, cells, cells_memory, bytes, w1, c1) \<Rightarrow>
          if result \<noteq> VPS_METADATA_OK then (result, Some rowset, w1, c1)
          else
            (VPS_METADATA_OK,
             Some (rowset\<lparr>rows_cells := cells, rows_cells_memory := cells_memory, rows_bytes := bytes,
               rows_row_count := new_rows, rows_field_count := input_field_count input, rows_cell_count := cell_count,
               rows_cell_bytes := cell_bytes, rows_bytes_size := total_bytes,
               rows_logger := vps_metadata_log (rows_logger rowset) query ''passed'' new_rows
                 (input_field_count input) total_bytes\<rparr>),
             rowset_discard (rows_allocator rowset) (rows_bytes rowset) (rows_bytes_size rowset)
               (rows_cells_memory rowset) (rows_cell_bytes rowset) w1, c1))"

definition vps_metadata_rowset_append ::
    "('w, 'l) VpsMetadataRowSet option \<Rightarrow> VpsCatalogQuery \<Rightarrow> 'c VpsMetadataInput option \<Rightarrow> 'w \<Rightarrow> 'c \<Rightarrow>
     VpsMetadataResult \<times> ('w, 'l) VpsMetadataRowSet option \<times> 'w \<times> 'c" where
  "vps_metadata_rowset_append rowset_ptr query input_ptr w c =
     (if rowset_input_refused rowset_ptr query input_ptr then (VPS_METADATA_INVALID_ARGUMENT, rowset_ptr, w, c)
      else
        let rowset = the rowset_ptr; input = the input_ptr; columns = input_field_count input
        in if columns \<noteq> query_fields query \<or> columns > VPS_METADATA_MAX_FIELDS \<or>
              (rows_row_count rowset \<noteq> 0 \<and> rows_field_count rowset \<noteq> columns)
           then (VPS_METADATA_INVALID_RESULT, rowset_ptr, w, c)
           else case vps_size_add (rows_row_count rowset) (input_row_count input) of
             (VPS_MEMORY_OK, Some new_rows) \<Rightarrow>
               if new_rows > VPS_METADATA_MAX_ROWS then (VPS_METADATA_INVALID_RESULT, rowset_ptr, w, c)
               else (case rowset_measure input (cell_order (input_row_count input) columns) 0 c of
                 (measured, added_bytes, c1) \<Rightarrow>
                   if \<not> measured then (VPS_METADATA_LIMIT_EXCEEDED, rowset_ptr, w, c1)
                   else case (vps_size_add (rows_bytes_size rowset) added_bytes, vps_size_multiply new_rows columns) of
                     ((VPS_MEMORY_OK, Some total_bytes), (VPS_MEMORY_OK, Some cell_count)) \<Rightarrow>
                       if total_bytes > VPS_METADATA_MAX_TOTAL_BYTES \<or> cell_count > VPS_METADATA_MAX_CELLS
                       then (VPS_METADATA_LIMIT_EXCEEDED, rowset_ptr, w, c1)
                       else (case vps_size_multiply cell_count sizeof_VpsMetadataCell of
                         (VPS_MEMORY_OK, Some cell_bytes) \<Rightarrow>
                           rowset_extend rowset query input new_rows cell_count cell_bytes total_bytes w c1
                       | _ \<Rightarrow> (VPS_METADATA_LIMIT_EXCEEDED, rowset_ptr, w, c1))
                   | _ \<Rightarrow> (VPS_METADATA_LIMIT_EXCEEDED, rowset_ptr, w, c1))
           | _ \<Rightarrow> (VPS_METADATA_INVALID_RESULT, rowset_ptr, w, c))"

definition vps_metadata_rowset_cell ::
    "('w, 'l) VpsMetadataRowSet \<Rightarrow> nat \<Rightarrow> nat \<Rightarrow> VpsMetadataResult \<times> (u8 list option \<times> size_t \<times> bool) option" where
  "vps_metadata_rowset_cell rowset row field =
     (if \<not> rows_initialized rowset \<or> row \<ge> unat (rows_row_count rowset) \<or> field \<ge> unat (rows_field_count rowset)
      then (VPS_METADATA_INVALID_ARGUMENT, None)
      else
        let cell = rows_cells rowset ! (row * unat (rows_field_count rowset) + field)
        in if cell_offset cell > rows_bytes_size rowset \<or>
              cell_length cell > rows_bytes_size rowset - cell_offset cell
           then (VPS_METADATA_INVALID_STATE, None)
           else (VPS_METADATA_OK,
                 Some (if cell_is_null cell then None
                       else map_option (\<lambda>blk. take (unat (cell_length cell)) (drop (unat (cell_offset cell)) blk))
                              (rows_bytes rowset),
                       cell_length cell, cell_is_null cell)))"

section \<open>Numbers, flags and kinds in cells\<close>

text \<open>The loop over the digits, with the test that the next number stays within the limit.\<close>

fun metadata_digits :: "u32 \<Rightarrow> u32 \<Rightarrow> u8 list \<Rightarrow> u32 option" where
  "metadata_digits limit result [] = Some result"
| "metadata_digits limit result (b # left) =
     (if b < 48 \<or> b > 57 then None
      else let digit = ucast (b - 48)
           in if result > (limit - digit) div 10 then None else metadata_digits limit (result * 10 + digit) left)"

definition vps_metadata_parse_uint32 :: "u8 list \<Rightarrow> u32 option" where
  "vps_metadata_parse_uint32 str =
     (if str = [] \<or> length str > 10 then None else metadata_digits 0xffffffff 0 str)"

definition vps_metadata_parse_int32 :: "u8 list \<Rightarrow> 32 word option" where
  "vps_metadata_parse_int32 str =
     (if str = [] \<or> length str > 11 then None
      else if hd str = 45
      then if tl str = [] then None
           else map_option (\<lambda>magnitude. if magnitude = 2147483648 then 0x80000000 else - magnitude)
                  (metadata_digits 2147483648 0 (tl str))
      else metadata_digits 2147483647 0 str)"

abbreviation ascii :: "string \<Rightarrow> u8 list" where "ascii s \<equiv> map char_byte s"

definition vps_metadata_parse_bool :: "u8 list \<Rightarrow> bool option" where
  "vps_metadata_parse_bool str =
     (if str = ascii ''t'' \<or> str = ascii ''true'' then Some True
      else if str = ascii ''f'' \<or> str = ascii ''false'' then Some False
      else None)"

definition vps_metadata_cell_required :: "('w, 'l) VpsMetadataRowSet \<Rightarrow> nat \<Rightarrow> nat \<Rightarrow> u8 list option" where
  "vps_metadata_cell_required rowset row field =
     (case vps_metadata_rowset_cell rowset row field of
        (VPS_METADATA_OK, Some (val, _, null)) \<Rightarrow> if null then None else val
      | _ \<Rightarrow> None)"

section \<open>Relations\<close>

datatype VpsRelationKind =
    VPS_RELATION_TABLE
  | VPS_RELATION_PARTITIONED_TABLE
  | VPS_RELATION_VIEW
  | VPS_RELATION_MATERIALIZED_VIEW
  | VPS_RELATION_FOREIGN_TABLE
  | VPS_RELATION_INHERITANCE_PARENT
  | VPS_RELATION_PARTITION
  | VPS_RELATION_SEQUENCE
  | VPS_RELATION_COMPOSITE
  | VPS_RELATION_TOAST
  | VPS_RELATION_INDEX
  | VPS_RELATION_UNSUPPORTED

record ('w, 'l) VpsRelationMetadata =
  rel_allocator :: "'w VpsAllocator"
  rel_schema_name :: "'w VpsBuffer"
  rel_relation_name :: "'w VpsBuffer"
  rel_namespace_oid :: u32
  rel_relation_oid :: u32
  rel_access_method_oid :: u32
  rel_kind :: VpsRelationKind
  rel_persistence :: u8
  rel_is_partition :: bool
  rel_has_children :: bool
  rel_has_parent :: bool
  rel_row_security :: bool
  rel_force_row_security :: bool
  rel_readable :: bool
  rel_writable_candidate :: bool
  rel_logger :: "'l VpsLogger option"
  rel_initialized :: bool

definition vps_relation_kind_from_catalog :: "char \<Rightarrow> bool \<Rightarrow> bool \<Rightarrow> VpsRelationKind" where
  "vps_relation_kind_from_catalog relkind is_partition has_children =
     (if is_partition then VPS_RELATION_PARTITION
      else if relkind = CHR ''r''
      then (if has_children then VPS_RELATION_INHERITANCE_PARENT else VPS_RELATION_TABLE)
      else if relkind = CHR ''p'' then VPS_RELATION_PARTITIONED_TABLE
      else if relkind = CHR ''v'' then VPS_RELATION_VIEW
      else if relkind = CHR ''m'' then VPS_RELATION_MATERIALIZED_VIEW
      else if relkind = CHR ''f'' then VPS_RELATION_FOREIGN_TABLE
      else if relkind = CHR ''S'' then VPS_RELATION_SEQUENCE
      else if relkind = CHR ''c'' then VPS_RELATION_COMPOSITE
      else if relkind = CHR ''t'' then VPS_RELATION_TOAST
      else if relkind = CHR ''i'' \<or> relkind = CHR ''I'' then VPS_RELATION_INDEX
      else VPS_RELATION_UNSUPPORTED)"

definition vps_relation_kind_name :: "VpsRelationKind \<Rightarrow> string" where
  "vps_relation_kind_name kind =
     (case kind of
        VPS_RELATION_TABLE \<Rightarrow> ''table''
      | VPS_RELATION_PARTITIONED_TABLE \<Rightarrow> ''partitioned_table''
      | VPS_RELATION_VIEW \<Rightarrow> ''view''
      | VPS_RELATION_MATERIALIZED_VIEW \<Rightarrow> ''materialized_view''
      | VPS_RELATION_FOREIGN_TABLE \<Rightarrow> ''foreign_table''
      | VPS_RELATION_INHERITANCE_PARENT \<Rightarrow> ''inheritance_parent''
      | VPS_RELATION_PARTITION \<Rightarrow> ''partition''
      | VPS_RELATION_SEQUENCE \<Rightarrow> ''sequence''
      | VPS_RELATION_COMPOSITE \<Rightarrow> ''composite''
      | VPS_RELATION_TOAST \<Rightarrow> ''toast''
      | VPS_RELATION_INDEX \<Rightarrow> ''index''
      | VPS_RELATION_UNSUPPORTED \<Rightarrow> ''unsupported'')"

definition empty_relation :: "'w VpsAllocator \<Rightarrow> 'l VpsLogger option \<Rightarrow> 'w VpsBuffer \<Rightarrow> 'w VpsBuffer \<Rightarrow>
    ('w, 'l) VpsRelationMetadata" where
  "empty_relation allocator logger schema_name relation_name =
     \<lparr>rel_allocator = allocator, rel_schema_name = schema_name, rel_relation_name = relation_name,
      rel_namespace_oid = 0, rel_relation_oid = 0, rel_access_method_oid = 0, rel_kind = VPS_RELATION_TABLE,
      rel_persistence = 0, rel_is_partition = False, rel_has_children = False, rel_has_parent = False,
      rel_row_security = False, rel_force_row_security = False, rel_readable = False,
      rel_writable_candidate = False, rel_logger = logger, rel_initialized = True\<rparr>"

definition vps_relation_metadata_init ::
    "'w VpsAllocator option \<Rightarrow> 'l VpsLogger option \<Rightarrow> VpsMetadataResult \<times> ('w, 'l) VpsRelationMetadata option" where
  "vps_relation_metadata_init allocator logger =
     (if \<not> vps_allocator_is_valid allocator then (VPS_METADATA_INVALID_ARGUMENT, None)
      else case (vps_buffer_init allocator VPS_METADATA_NAME_MAX_BYTES, vps_buffer_init allocator VPS_METADATA_NAME_MAX_BYTES) of
        ((VPS_MEMORY_OK, Some schema_name), (VPS_MEMORY_OK, Some relation_name)) \<Rightarrow>
          (VPS_METADATA_OK, Some (empty_relation (the allocator) logger schema_name relation_name))
      | _ \<Rightarrow> (VPS_METADATA_OUT_OF_MEMORY, None))"

text \<open>The reset releases both names and makes the buffers anew when the relation was initialised.\<close>

definition vps_relation_metadata_reset ::
    "('w, 'l) VpsRelationMetadata \<Rightarrow> 'w \<Rightarrow> ('w, 'l) VpsRelationMetadata \<times> 'w" where
  "vps_relation_metadata_reset relation w =
     (case vps_buffer_reset (rel_relation_name relation) w of
        (relation_name, w1) \<Rightarrow>
          (case vps_buffer_reset (rel_schema_name relation) w1 of
             (schema_name, w2) \<Rightarrow>
               (let zeroed = (empty_relation (rel_allocator relation) None schema_name relation_name)\<lparr>rel_initialized := False\<rparr>
                in if rel_initialized relation
                   then case vps_relation_metadata_init (Some (rel_allocator relation)) (rel_logger relation) of
                          (VPS_METADATA_OK, Some fresh) \<Rightarrow> (fresh, w2)
                        | _ \<Rightarrow> (zeroed, w2)
                   else (zeroed, w2))))"

text \<open>The fields of the one row, in the order of the tests of the source.\<close>

definition relation_fields ::
    "u8 list list \<Rightarrow> ('w, 'l) VpsRelationMetadata \<Rightarrow> ('w, 'l) VpsRelationMetadata option" where
  "relation_fields cells candidate =
     do {
       namespace_oid \<leftarrow> vps_metadata_parse_uint32 (cells ! 0);
       relation_oid \<leftarrow> vps_metadata_parse_uint32 (cells ! 1);
       (if length (cells ! 2) \<noteq> 1 \<or> length (cells ! 3) \<noteq> 1 then None else Some ());
       is_partition \<leftarrow> vps_metadata_parse_bool (cells ! 4);
       row_security \<leftarrow> vps_metadata_parse_bool (cells ! 5);
       force_row_security \<leftarrow> vps_metadata_parse_bool (cells ! 6);
       has_children \<leftarrow> vps_metadata_parse_bool (cells ! 7);
       has_parent \<leftarrow> vps_metadata_parse_bool (cells ! 8);
       access_method_oid \<leftarrow> vps_metadata_parse_uint32 (cells ! 11);
       Some (candidate\<lparr>rel_namespace_oid := namespace_oid, rel_relation_oid := relation_oid,
         rel_is_partition := is_partition, rel_row_security := row_security,
         rel_force_row_security := force_row_security, rel_has_children := has_children,
         rel_has_parent := has_parent, rel_access_method_oid := access_method_oid,
         rel_persistence := hd (cells ! 3),
         rel_kind := vps_relation_kind_from_catalog (byte_char (hd (cells ! 2))) is_partition has_children\<rparr>)
     }"

text \<open>Which relations can be read, and which of them may be written.\<close>

definition relation_access :: "VpsRelationKind \<Rightarrow> (bool \<times> bool) option" where
  "relation_access kind =
     (if kind = VPS_RELATION_TABLE \<or> kind = VPS_RELATION_PARTITIONED_TABLE \<or> kind = VPS_RELATION_PARTITION
      then Some (True, True)
      else if kind = VPS_RELATION_VIEW \<or> kind = VPS_RELATION_MATERIALIZED_VIEW \<or>
              kind = VPS_RELATION_FOREIGN_TABLE \<or> kind = VPS_RELATION_INHERITANCE_PARENT
      then Some (True, False)
      else None)"

definition relation_discard ::
    "VpsMetadataResult \<Rightarrow> ('w, 'l) VpsRelationMetadata \<Rightarrow> ('w, 'l) VpsRelationMetadata \<Rightarrow> 'w \<Rightarrow>
     VpsMetadataResult \<times> ('w, 'l) VpsRelationMetadata \<times> 'w" where
  "relation_discard result relation candidate w =
     (case vps_relation_metadata_reset candidate w of (_, w1) \<Rightarrow> (result, relation, w1))"

definition relation_build ::
    "('w, 'l) VpsRelationMetadata \<Rightarrow> u8 list list \<Rightarrow> ('w, 'l) VpsRelationMetadata \<Rightarrow> 'w \<Rightarrow>
     VpsMetadataResult \<times> ('w, 'l) VpsRelationMetadata \<times> 'w" where
  "relation_build relation cells candidate w =
     (case relation_fields cells candidate of
        None \<Rightarrow> relation_discard VPS_METADATA_INVALID_RESULT relation candidate w
      | Some candidate1 \<Rightarrow>
          (case vps_buffer_append (rel_schema_name candidate1) (Some (cells ! 9)) (of_nat (length (cells ! 9))) w of
             (r1, schema_name, w1) \<Rightarrow>
               if r1 \<noteq> VPS_MEMORY_OK
               then relation_discard VPS_METADATA_INVALID_RESULT relation (candidate1\<lparr>rel_schema_name := schema_name\<rparr>) w1
               else case vps_buffer_append (rel_relation_name candidate1) (Some (cells ! 10)) (of_nat (length (cells ! 10))) w1 of
                 (r2, relation_name, w2) \<Rightarrow>
                   (let candidate2 = candidate1\<lparr>rel_schema_name := schema_name, rel_relation_name := relation_name\<rparr>
                    in if r2 \<noteq> VPS_MEMORY_OK then relation_discard VPS_METADATA_INVALID_RESULT relation candidate2 w2
                       else case relation_access (rel_kind candidate2) of
                         None \<Rightarrow> relation_discard VPS_METADATA_UNSUPPORTED relation candidate2 w2
                       | Some (readable, writable) \<Rightarrow>
                           (case vps_relation_metadata_reset relation w2 of
                              (_, w3) \<Rightarrow>
                                (VPS_METADATA_OK,
                                 candidate2\<lparr>rel_readable := readable, rel_writable_candidate := writable\<rparr>, w3)))))"

definition vps_relation_metadata_resolve ::
    "('w, 'l) VpsRelationMetadata option \<Rightarrow> ('w, 'l) VpsMetadataRowSet option \<Rightarrow> u8 list option \<Rightarrow> u8 list option \<Rightarrow> 'w \<Rightarrow>
     VpsMetadataResult \<times> ('w, 'l) VpsRelationMetadata option \<times> 'w" where
  "vps_relation_metadata_resolve relation_ptr rowset_ptr expected_schema expected_relation w =
     (if relation_ptr = None \<or> \<not> rel_initialized (the relation_ptr) \<or> rowset_ptr = None \<or>
         \<not> rows_initialized (the rowset_ptr) \<or> expected_schema = None \<or> expected_relation = None \<or>
         the expected_schema = [] \<or> the expected_relation = [] \<or>
         length (the expected_schema) > 255 \<or> length (the expected_relation) > 255
      then (VPS_METADATA_INVALID_ARGUMENT, relation_ptr, w)
      else
        let relation = the relation_ptr; rowset = the rowset_ptr;
            required = map (vps_metadata_cell_required rowset 0) [0..<12]; cells = map the required
        in if rows_field_count rowset \<noteq> 12 then (VPS_METADATA_INVALID_RESULT, relation_ptr, w)
           else if rows_row_count rowset = 0 then (VPS_METADATA_NOT_FOUND, relation_ptr, w)
           else if rows_row_count rowset \<noteq> 1 then (VPS_METADATA_INVALID_RESULT, relation_ptr, w)
           else if None \<in> set required then (VPS_METADATA_INVALID_RESULT, relation_ptr, w)
           else if cells ! 9 \<noteq> the expected_schema \<or> cells ! 10 \<noteq> the expected_relation
           then (VPS_METADATA_INVALID_RESULT, relation_ptr, w)
           else case vps_relation_metadata_init (Some (rel_allocator relation)) (rel_logger relation) of
             (VPS_METADATA_OK, Some candidate) \<Rightarrow>
               (case relation_build relation cells candidate w of
                  (result, relation', w') \<Rightarrow> (result, Some relation', w'))
           | _ \<Rightarrow> (VPS_METADATA_OUT_OF_MEMORY, relation_ptr, w))"

definition vps_metadata_result_name :: "VpsMetadataResult \<Rightarrow> string" where
  "vps_metadata_result_name result =
     (case result of
        VPS_METADATA_OK \<Rightarrow> ''ok''
      | VPS_METADATA_INVALID_ARGUMENT \<Rightarrow> ''invalid_argument''
      | VPS_METADATA_INVALID_STATE \<Rightarrow> ''invalid_state''
      | VPS_METADATA_INVALID_RESULT \<Rightarrow> ''invalid_result''
      | VPS_METADATA_LIMIT_EXCEEDED \<Rightarrow> ''limit_exceeded''
      | VPS_METADATA_OUT_OF_MEMORY \<Rightarrow> ''out_of_memory''
      | VPS_METADATA_NOT_FOUND \<Rightarrow> ''not_found''
      | VPS_METADATA_UNSUPPORTED \<Rightarrow> ''unsupported'')"


section \<open>What a row set shows\<close>

text \<open>A cell as a reader sees it: nothing for NULL, otherwise its bytes. A row set is well formed when its blocks
  have the recorded sizes and every cell lies inside the bytes.\<close>

definition cell_text :: "block option \<Rightarrow> VpsMetadataCell \<Rightarrow> u8 list option" where
  "cell_text bytes cell =
     (if cell_is_null cell then None
      else Some (take (unat (cell_length cell)) (drop (unat (cell_offset cell)) (case bytes of None \<Rightarrow> [] | Some b \<Rightarrow> b))))"

definition cell_within :: "nat \<Rightarrow> VpsMetadataCell \<Rightarrow> bool" where
  "cell_within bound cell \<longleftrightarrow> unat (cell_offset cell) + unat (cell_length cell) \<le> bound"

definition sized_block :: "block option \<Rightarrow> size_t \<Rightarrow> bool" where
  "sized_block blk n \<longleftrightarrow> (case blk of None \<Rightarrow> n = 0 | Some b \<Rightarrow> length b = unat n \<and> n \<noteq> 0)"

definition block_sizes :: "block option \<Rightarrow> nat multiset" where
  "block_sizes blk = (case blk of None \<Rightarrow> {#} | Some b \<Rightarrow> {#length b#})"

definition rowset_blocks :: "('w, 'l) VpsMetadataRowSet \<Rightarrow> nat multiset" where
  "rowset_blocks rowset =
     block_sizes (rows_cells_memory rowset) + block_sizes (rows_bytes rowset)"

definition rowset_ok :: "('w, 'l) VpsMetadataRowSet \<Rightarrow> bool" where
  "rowset_ok rowset \<longleftrightarrow>
     rows_initialized rowset \<and> length (rows_cells rowset) = unat (rows_row_count rowset) * unat (rows_field_count rowset) \<and>
     unat (rows_cell_count rowset) = length (rows_cells rowset) \<and>
     unat (rows_cell_bytes rowset) = 24 * length (rows_cells rowset) \<and>
     rows_row_count rowset \<le> VPS_METADATA_MAX_ROWS \<and> rows_bytes_size rowset \<le> VPS_METADATA_MAX_TOTAL_BYTES \<and>
     sized_block (rows_cells_memory rowset) (rows_cell_bytes rowset) \<and>
     sized_block (rows_bytes rowset) (rows_bytes_size rowset) \<and>
     list_all (cell_within (unat (rows_bytes_size rowset))) (rows_cells rowset)"

text \<open>The rows as a list of what the cells show, and an input that shows the same table at every call.\<close>

definition rowset_table :: "('w, 'l) VpsMetadataRowSet \<Rightarrow> u8 list option list" where
  "rowset_table rowset = map (cell_text (rows_bytes rowset)) (rows_cells rowset)"

definition input_shows :: "'c VpsMetadataInput \<Rightarrow> (nat \<Rightarrow> nat \<Rightarrow> u8 list option) \<Rightarrow> bool" where
  "input_shows input T \<longleftrightarrow>
     (\<forall>c row field. fst (the (input_is_null input) c row field) = (T row field = None) \<and>
        (\<forall>v. T row field = Some v \<longrightarrow> fst (the (input_value input) c row field) = Some v \<and>
               length v < 2 ^ 64 \<and> fst (the (input_length input) c row field) = of_nat (length v)))"

definition input_table :: "(nat \<Rightarrow> nat \<Rightarrow> u8 list option) \<Rightarrow> (nat \<times> nat) list \<Rightarrow> u8 list option list" where
  "input_table T order = map (\<lambda>(row, field). T row field) order"

section \<open>The pass that copies\<close>

lemma length_block_write: "off + length src \<le> length d \<Longrightarrow> length (mem_write d off src) = length d"
  by (simp add: mem_write_def)

lemma take_mem_write: "off \<le> length d \<Longrightarrow> take off (mem_write d off src) = take off d"
  by (simp add: mem_write_def)

lemma cell_text_prefix:
  assumes "take n b' = take n b" "cell_within n cell"
  shows "cell_text (Some b') cell = cell_text (Some b) cell"
proof -
  have "take (unat (cell_length cell)) (drop (unat (cell_offset cell)) b') =
      take (unat (cell_length cell)) (drop (unat (cell_offset cell)) (take n b'))"
    using assms(2) by (simp add: cell_within_def drop_take)
  also have "\<dots> = take (unat (cell_length cell)) (drop (unat (cell_offset cell)) b)"
    using assms by (simp add: cell_within_def drop_take)
  finally show ?thesis by (simp add: cell_text_def)
qed

text \<open>The bytes after the pass keep their size and the part that was written before.\<close>

definition bytes_grow :: "nat \<Rightarrow> block option \<Rightarrow> block option \<Rightarrow> bool" where
  "bytes_grow n b b' \<longleftrightarrow> map_option length b' = map_option length b \<and> map_option (take n) b' = map_option (take n) b"

lemma bytes_grow_refl [simp]: "bytes_grow n b b"
  by (simp add: bytes_grow_def)

lemma take_take_eq: "take m ys = take m xs \<Longrightarrow> n \<le> m \<Longrightarrow> take n ys = take n xs"
  by (metis min.absorb1 take_take)

lemma bytes_grow_trans: "bytes_grow n b b' \<Longrightarrow> bytes_grow m b' b'' \<Longrightarrow> n \<le> m \<Longrightarrow> bytes_grow n b b''"
  by (cases b; cases b'; cases b'') (auto simp: bytes_grow_def dest: take_take_eq)

lemma bytes_grow_sized: "bytes_grow n b b' \<Longrightarrow> sized_block b' s = sized_block b s"
  by (cases b; cases b') (auto simp: bytes_grow_def sized_block_def)

lemma bytes_grow_text: "bytes_grow n b b' \<Longrightarrow> cell_within n cell \<Longrightarrow> cell_text b' cell = cell_text b cell"
proof -
  assume g: "bytes_grow n b b'" and c: "cell_within n cell"
  show ?thesis
  proof (cases b)
    case None
    then have "b' = None" using g by (simp add: bytes_grow_def)
    with None show ?thesis by simp
  next
    case (Some x)
    then obtain y where "b' = Some y" "take n y = take n x" using g by (auto simp: bytes_grow_def)
    with Some show ?thesis by (auto intro: cell_text_prefix [OF _ c])
  qed
qed

lemma cell_within_mono: "cell_within n cell \<Longrightarrow> n \<le> m \<Longrightarrow> cell_within m cell"
  by (simp add: cell_within_def)

lemma input_shows_calls:
  assumes "input_shows input T"
  shows "the (input_is_null input) c row field = (null, c1) \<Longrightarrow> null = (T row field = None)"
    and "T row field = Some v \<Longrightarrow> the (input_value input) c row field = (val, c1) \<Longrightarrow> val = Some v"
    and "T row field = Some v \<Longrightarrow> the (input_length input) c row field = (len, c1) \<Longrightarrow> unat len = length v"
proof -
  have a: "fst (the (input_is_null input) c row field) = (T row field = None)"
    using assms by (simp add: input_shows_def)
  then show "the (input_is_null input) c row field = (null, c1) \<Longrightarrow> null = (T row field = None)" by simp
  have b: "fst (the (input_value input) c row field) = Some v \<and> length v < 2 ^ 64 \<and>
      fst (the (input_length input) c row field) = of_nat (length v)" if "T row field = Some v"
    using assms that unfolding input_shows_def by blast
  show "T row field = Some v \<Longrightarrow> the (input_value input) c row field = (val, c1) \<Longrightarrow> val = Some v" using b by simp
  show "T row field = Some v \<Longrightarrow> the (input_length input) c row field = (len, c1) \<Longrightarrow> unat len = length v"
    using b by auto
qed

lemma rowset_fill_effect:
  assumes "map (\<lambda>(row, field). (base + row) * unat (input_field_count input) + field) order =
      [length before..<length before + length order]"
    and "rowset_fill input base room order (before @ replicate (length order) zero_cell) bytes offset c =
      (filled, cells', bytes', offset', c')"
    and "sized_block bytes room" and "offset \<le> room"
  shows "bytes_grow (unat offset) bytes bytes' \<and>
    (filled \<longrightarrow> offset \<le> offset' \<and> offset' \<le> room \<and>
       (\<exists>new. cells' = before @ new \<and> length new = length order \<and> list_all (cell_within (unat offset')) new \<and>
          (\<forall>T. input_shows input T \<longrightarrow> map (cell_text bytes') new = input_table T order)))"
  using assms
proof (induction order arbitrary: before bytes offset c)
  case Nil
  then show ?case by (auto simp: input_table_def)
next
  case (Cons p order)
  obtain row field where p: "p = (row, field)" by fastforce
  let ?index = "(base + row) * unat (input_field_count input) + field"
  have index: "?index = length before" and rest: "map (\<lambda>(row, field). (base + row) * unat (input_field_count input) + field) order =
      [Suc (length before)..<Suc (length before) + length order]"
    using Cons.prems(1) p by (simp_all add: upt_conv_Cons del: upt_Suc)
  obtain null c1 where n: "the (input_is_null input) c row field = (null, c1)" by fastforce
  define cell where "cell = zero_cell\<lparr>cell_is_null := null, cell_offset := offset\<rparr>"
  have upd: "(before @ replicate (length (p # order)) zero_cell)[?index := x] = (before @ [x]) @ replicate (length order) zero_cell" for x
    unfolding index by (simp add: list_update_append)
  have old: "(before @ replicate (length (p # order)) zero_cell) ! ?index = zero_cell"
    unfolding index by (simp add: nth_append)
  have bound: "\<not> length (before @ replicate (length (p # order)) zero_cell) \<le> ?index"
    unfolding index by simp
  have rest': "map (\<lambda>(row, field). (base + row) * unat (input_field_count input) + field) order =
      [length (before @ [x])..<length (before @ [x]) + length order]" for x
    using rest by simp
  have extend: ?case
    if step: "rowset_fill input base room order ((before @ [x]) @ replicate (length order) zero_cell) bytes1 offset1 c2 =
          (filled, cells', bytes', offset', c')"
      and grow: "bytes_grow (unat offset) bytes bytes1" and sized: "sized_block bytes1 room"
      and le: "offset \<le> offset1" "offset1 \<le> room" and x: "cell_within (unat offset1) x"
      and shown: "\<And>T. input_shows input T \<Longrightarrow> cell_text bytes1 x = T row field" for x bytes1 offset1 c2
  proof -
    note ih = Cons.IH [OF rest' step sized le(2)]
    have le': "unat offset \<le> unat offset1" using le(1) by (simp add: word_le_nat_alt)
    have "bytes_grow (unat offset) bytes bytes'" using bytes_grow_trans [OF grow _ le'] ih by blast
    moreover have "offset \<le> offset' \<and> offset' \<le> room \<and> (\<exists>new. cells' = before @ new \<and> length new = length (p # order) \<and>
        list_all (cell_within (unat offset')) new \<and>
        (\<forall>T. input_shows input T \<longrightarrow> map (cell_text bytes') new = input_table T (p # order)))" if filled
    proof -
      from ih that obtain new where new: "cells' = (before @ [x]) @ new" "length new = length order"
          "list_all (cell_within (unat offset')) new" "offset1 \<le> offset'" "offset' \<le> room"
          "bytes_grow (unat offset1) bytes1 bytes'"
          and tab: "\<And>T. input_shows input T \<Longrightarrow> map (cell_text bytes') new = input_table T order" by auto
      have "cell_within (unat offset') x" using cell_within_mono [OF x] new(4) by (simp add: word_le_nat_alt)
      moreover have "cell_text bytes' x = T row field" if "input_shows input T" for T
        using bytes_grow_text [OF new(6) x] shown [OF that] by simp
      ultimately show ?thesis
        using new le tab by (intro conjI exI [of _ "x # new"]) (auto simp: p input_table_def)
    qed
    ultimately show ?thesis by blast
  qed
  note run = Cons.prems(2)[unfolded p rowset_fill.simps Let_def, folded p, unfolded old if_not_P [OF bound] n upd]
  show ?case
  proof (cases null)
    case True
    have "rowset_fill input base room order ((before @ [cell]) @ replicate (length order) zero_cell) bytes offset c1 =
        (filled, cells', bytes', offset', c')"
      using run True by (simp add: cell_def)
    then show ?thesis
    proof (rule extend [OF _ bytes_grow_refl Cons.prems(3) order_refl Cons.prems(4)])
      show "cell_within (unat offset) cell" by (simp add: cell_def cell_within_def zero_cell_def)
      show "cell_text bytes cell = T row field" if "input_shows input T" for T
        using input_shows_calls(1) [OF that n] True by (simp add: cell_text_def cell_def)
    qed
  next
    case False
    obtain val c2 where v: "the (input_value input) c1 row field = (val, c2)" by fastforce
    obtain len :: size_t and c3 where l: "the (input_length input) c2 row field = (len, c3)" by fastforce
    define cell1 where "cell1 = cell\<lparr>cell_length := len\<rparr>"
    show ?thesis
    proof (cases "len = 0")
      case True
      have "rowset_fill input base room order ((before @ [cell1]) @ replicate (length order) zero_cell) bytes offset c3 =
          (filled, cells', bytes', offset', c')"
        using run False True v l by (simp add: cell1_def cell_def)
      moreover have "cell_text bytes cell1 = T row field" if "input_shows input T" for T
      proof -
        from input_shows_calls(1) [OF that n] False obtain x where x: "T row field = Some x" by auto
        with input_shows_calls(3) [OF that _ l] True have "x = []" by simp
        then show ?thesis using x False True by (simp add: cell_text_def cell1_def cell_def zero_cell_def)
      qed
      moreover have "cell_within (unat offset) cell1" using True by (simp add: cell1_def cell_def cell_within_def)
      ultimately show ?thesis
        using extend [OF _ bytes_grow_refl Cons.prems(3) order_refl Cons.prems(4)] by blast
    next
      case long: False
      show ?thesis
      proof (cases "val = None \<or> offset > room \<or> len > room - offset")
        case True
        then show ?thesis using run False long v l by auto
      next
        case ok: False
        then obtain x where x: "val = Some x" by auto
        have len: "unat offset + unat len \<le> unat room" and add: "unat (offset + len) = unat offset + unat len"
        proof -
          have "unat (room - offset) = unat room - unat offset" using Cons.prems(4) by (simp add: unat_sub)
          with ok show "unat offset + unat len \<le> unat room"
            using Cons.prems(4) by (auto simp: not_less word_le_nat_alt)
          then have "unat offset + unat len < 2 ^ 64" using unsigned_less [of room, where ?'a = nat] by simp
          then show "unat (offset + len) = unat offset + unat len" by (simp add: unat_word_ariths)
        qed
        have "unat len \<noteq> 0" using long unat_eq_zero [of len] by blast
        then obtain b where b: "bytes = Some b" "length b = unat room"
          using Cons.prems(3) len by (cases bytes) (auto simp: sized_block_def)
        define b1 where "b1 = mem_write b (unat offset) (take (unat len) x)"
        have fits: "unat offset + length (take (unat len) x) \<le> length b" using len b(2) by auto
        have grow: "bytes_grow (unat offset) bytes (Some b1)"
          using fits b by (simp add: bytes_grow_def b1_def length_block_write take_mem_write)
        have "rowset_fill input base room order ((before @ [cell1]) @ replicate (length order) zero_cell) (Some b1) (offset + len) c3 =
            (filled, cells', bytes', offset', c')"
          using run False long v l ok x b by (simp add: cell1_def cell_def b1_def)
        moreover have "cell_text (Some b1) cell1 = T row field" if "input_shows input T" for T
        proof -
          from input_shows_calls(1) [OF that n] False obtain y where y: "T row field = Some y" by auto
          from input_shows_calls(2) [OF that y v] input_shows_calls(3) [OF that y l] x
          have "unat len = length y" "x = y" by simp_all
          then show ?thesis
            using y False fits by (simp add: cell_text_def cell1_def cell_def zero_cell_def b1_def mem_write_def)
        qed
        moreover have "offset \<le> offset + len" "offset + len \<le> room" using add len by (simp_all add: word_le_nat_alt)
        moreover have "cell_within (unat (offset + len)) cell1"
          using add by (simp add: cell_within_def cell1_def cell_def)
        ultimately show ?thesis
          using extend [OF _ grow] Cons.prems(3) bytes_grow_sized [OF grow] by blast
      qed
    qed
  qed
qed

lemma cell_order_index:
  "map (\<lambda>(row, field). (base + row) * F + field) (List.product [0..<R] [0..<F]) = [base * F..<(base + R) * F]"
proof (induction R)
  case (Suc R)
  have "List.product [0..<Suc R] [0..<F] = List.product [0..<R] [0..<F] @ map (Pair R) [0..<F]"
    by (simp add: product_concat_map)
  moreover have "map (\<lambda>field. (base + R) * F + field) [0..<F] = [(base + R) * F..<(base + R) * F + F]"
    using map_add_upt [of "(base + R) * F" F] by (simp add: add.commute)
  moreover have "[base * F..<(base + Suc R) * F] = [base * F..<(base + R) * F] @ [(base + R) * F..<(base + R) * F + F]"
    using upt_add_eq_append [of "base * F" "(base + R) * F" F] by (simp add: add.commute)
  ultimately show ?case using Suc by (simp add: comp_def)
qed simp

lemma length_cell_order [simp]: "length (cell_order rows columns) = unat rows * unat columns"
  by (simp add: cell_order_def)

lemma small_product:
  assumes "vps_size_multiply a b = (VPS_MEMORY_OK, Some p)" and "unat a * unat b < 2 ^ 64"
  shows "unat p = unat a * unat b"
  using assms by (auto simp: vps_size_multiply_def unat_word_ariths split: if_splits)

context allocator_contract
begin

lemma release_sizes:
  assumes "inv w" and "vps_memory_release (Some A) blk n w = (blk', w')"
  shows "inv w' \<and> live w' = live w - block_sizes blk"
  using memory_release [OF assms] by (auto simp: block_sizes_def)

lemma discard_effect:
  assumes "inv w"
  shows "inv (rowset_discard A bytes n cells k w) \<and>
    live (rowset_discard A bytes n cells k w) = live w - block_sizes bytes - block_sizes cells"
proof -
  obtain m1 w1 where r1: "vps_memory_release (Some A) bytes n w = (m1, w1)" by fastforce
  obtain m2 w2 where r2: "vps_memory_release (Some A) cells k w1 = (m2, w2)" by fastforce
  from release_sizes [OF assms r1] release_sizes [OF _ r2] show ?thesis
    by (simp add: rowset_discard_def r1 r2)
qed

lemma optional_allocate:
  assumes "inv w" and "(if n \<noteq> 0 then vps_memory_allocate (Some A) n None w else (VPS_MEMORY_OK, None, w)) = (r, m, w')"
  shows "inv w' \<and> (if r = VPS_MEMORY_OK then sized_block m n \<and> live w' = live w + block_sizes m else live w' = live w)"
proof (cases "n = 0")
  case False
  with assms(2) have "vps_memory_allocate (Some A) n None w = (r, m, w')" by simp
  from memory_allocate [OF assms(1) this] False show ?thesis by (auto simp: sized_block_def block_sizes_def)
qed (use assms in \<open>auto simp: sized_block_def block_sizes_def\<close>)

lemma rowset_allocate_effect:
  assumes "inv w" and "rowset_allocate A cell_count cell_bytes total_bytes w = (served, cells, bytes, w')"
  shows "inv w' \<and> (if served then sized_block cells cell_bytes \<and> sized_block bytes total_bytes \<and>
      live w' = live w + block_sizes cells + block_sizes bytes else live w' = live w)"
proof -
  obtain r1 m1 w1 where a1: "(if cell_bytes \<noteq> 0 then vps_memory_allocate (Some A) cell_bytes None w
      else (VPS_MEMORY_OK, None, w)) = (r1, m1, w1)" by (metis prod_cases3)
  note e1 = optional_allocate [OF assms(1) a1]
  show ?thesis
  proof (cases "r1 = VPS_MEMORY_OK")
    case True
    obtain r2 m2 w2 where a2: "(if total_bytes \<noteq> 0 then vps_memory_allocate (Some A) total_bytes None w1
        else (VPS_MEMORY_OK, None, w1)) = (r2, m2, w2)" by (metis prod_cases3)
    have i1: "inv w1" using e1 by simp
    note e2 = optional_allocate [OF i1 a2]
    obtain m3 w3 where rel: "vps_memory_release (Some A) m1 cell_bytes w2 = (m3, w3)" by fastforce
    have i2: "inv w2" using e2 by simp
    note e3 = release_sizes [OF i2 rel]
    note run = assms(2)[unfolded rowset_allocate_def a1 prod.case a2 rel snd_conv]
    show ?thesis
      using run e1 e2 e3 True discard_effect [OF i2, of m2 total_bytes m1 cell_bytes]
      by (auto split: if_splits)
  next
    case False
    with assms(2) e1 show ?thesis by (auto simp: rowset_allocate_def a1)
  qed
qed

lemma rowset_reset_effect:
  assumes "inv w" "rows_allocator rs = A" "rows_initialized rs" and "vps_metadata_rowset_reset rs w = (rs', w')"
  shows "inv w' \<and> rs' = empty_rowset A (rows_logger rs) \<and> live w' = live w - rowset_blocks rs"
proof -
  obtain m1 w1 where r1: "vps_memory_release (Some A) (rows_bytes rs) (rows_bytes_size rs) w = (m1, w1)" by fastforce
  obtain m2 w2 where r2: "vps_memory_release (Some A) (rows_cells_memory rs) (rows_cell_bytes rs) w1 = (m2, w2)" by fastforce
  have "rs' = empty_rowset A (rows_logger rs) \<and> w' = w2"
    using assms(2-4) valid r1 r2 by (auto simp: vps_metadata_rowset_reset_def)
  with release_sizes [OF assms(1) r1] release_sizes [OF _ r2] show ?thesis
    by (simp add: rowset_blocks_def add.commute)
qed

end

text \<open>What a copy leaves: a row set that shows the table after the cells \<open>before\<close> it started from.\<close>

definition rowset_shows ::
    "('w, 'l) VpsMetadataRowSet \<Rightarrow> u8 list option list \<Rightarrow> size_t \<Rightarrow> size_t \<Rightarrow> 'c VpsMetadataInput \<Rightarrow> bool" where
  "rowset_shows rs before rows columns input \<longleftrightarrow>
     rows_row_count rs = rows \<and> rows_field_count rs = columns \<and>
     (\<forall>T. input_shows input T \<longrightarrow>
        rowset_table rs = before @ input_table T (cell_order (input_row_count input) columns))"

lemma rowset_shows_cells:
  assumes fill: "rowset_fill input base total_bytes (cell_order (input_row_count input) columns)
      (before @ replicate (unat (input_row_count input) * unat columns) zero_cell) bytes offset c =
      (True, cells, bytes', offset', c')"
    and base: "length before = base * unat columns" and columns: "input_field_count input = columns"
    and sized: "sized_block bytes total_bytes" and "offset \<le> total_bytes"
    and within: "list_all (cell_within (unat offset)) before"
  shows "length cells = length before + unat (input_row_count input) * unat columns"
    and "sized_block bytes' total_bytes" and "list_all (cell_within (unat total_bytes)) cells"
    and "input_shows input T \<Longrightarrow> map (cell_text bytes') cells =
      map (cell_text bytes) before @ input_table T (cell_order (input_row_count input) columns)"
proof -
  let ?order = "cell_order (input_row_count input) columns"
  have index: "map (\<lambda>(row, field). (base + row) * unat (input_field_count input) + field) ?order =
      [length before..<length before + length ?order]"
    using cell_order_index [of base "unat columns" "unat (input_row_count input)"]
    by (simp add: cell_order_def columns base algebra_simps)
  from rowset_fill_effect [OF index _ sized assms(5)] fill
  have grow: "bytes_grow (unat offset) bytes bytes'" and le: "offset \<le> offset'" "offset' \<le> total_bytes"
    and ex: "\<exists>new. cells = before @ new \<and> length new = length ?order \<and> list_all (cell_within (unat offset')) new \<and>
      (\<forall>T. input_shows input T \<longrightarrow> map (cell_text bytes') new = input_table T ?order)" by auto
  then obtain new where new: "cells = before @ new" "length new = length ?order" "list_all (cell_within (unat offset')) new"
      and tab: "\<And>T. input_shows input T \<Longrightarrow> map (cell_text bytes') new = input_table T ?order" by blast
  show "length cells = length before + unat (input_row_count input) * unat columns" using new by simp
  show "sized_block bytes' total_bytes" using bytes_grow_sized [OF grow] sized by simp
  have "unat offset \<le> unat total_bytes" "unat offset' \<le> unat total_bytes" using le by (simp_all add: word_le_nat_alt)
  with new(1,3) within show "list_all (cell_within (unat total_bytes)) cells"
    by (auto simp: list_all_iff intro: cell_within_mono)
  show "map (cell_text bytes') cells = map (cell_text bytes) before @ input_table T ?order" if "input_shows input T"
    using new(1) tab [OF that] within bytes_grow_text [OF grow] by (auto simp: list_all_iff)
qed

text \<open>What both operations promise: on success the row set shows the table, otherwise it is what it was, up to the
  counters of the logger; either way it is well formed and the memory in use is the memory of its blocks.\<close>

definition rowset_outcome ::
    "('w, 'l) VpsMetadataRowSet \<Rightarrow> u8 list option list \<Rightarrow> size_t \<Rightarrow> 'c VpsMetadataInput \<Rightarrow> VpsMetadataResult \<Rightarrow>
     ('w, 'l) VpsMetadataRowSet \<Rightarrow> bool" where
  "rowset_outcome rs before rows input result rs' \<longleftrightarrow>
     rowset_ok rs' \<and> rows_allocator rs' = rows_allocator rs \<and>
     (if result = VPS_METADATA_OK then rowset_shows rs' before rows (input_field_count input) input
      else rs' = rs\<lparr>rows_logger := rows_logger rs'\<rparr>)"

lemma rowset_ok_logger [simp]: "rowset_ok (rs\<lparr>rows_logger := l\<rparr>) = rowset_ok rs"
  by (simp add: rowset_ok_def)

lemma rowset_blocks_logger [simp]: "rowset_blocks (rs\<lparr>rows_logger := l\<rparr>) = rowset_blocks rs"
  by (simp add: rowset_blocks_def)

lemma rowset_outcome_failed:
  "rowset_ok rs \<Longrightarrow> result \<noteq> VPS_METADATA_OK \<Longrightarrow> rowset_outcome rs before rows input result (rs\<lparr>rows_logger := l\<rparr>)"
  by (simp add: rowset_outcome_def)

lemma rowset_outcome_same: "rowset_ok rs \<Longrightarrow> result \<noteq> VPS_METADATA_OK \<Longrightarrow> rowset_outcome rs before rows input result rs"
  by (simp add: rowset_outcome_def)

lemma query_fields_small: "query_fields query \<le> 39 \<or> fst (vps_metadata_catalog_query_spec query) \<noteq> VPS_METADATA_OK"
  by (cases query) (simp_all add: query_fields_def vps_metadata_catalog_query_spec_def vps_catalog_specs_def)

lemma measured_small:
  assumes "rowset_measure input order start c = (True, n, c')" and "start \<le> VPS_METADATA_MAX_TOTAL_BYTES"
  shows "n \<le> VPS_METADATA_MAX_TOTAL_BYTES"
  using assms
proof (induction order arbitrary: start c)
  case (Cons p order)
  obtain row field where p: "p = (row, field)" by fastforce
  from Cons.prems(1) show ?case
    unfolding p by (auto split: prod.splits if_splits VpsMemoryResult.splits option.splits simp: not_less intro: Cons.IH Cons.prems(2))
qed simp

lemma cells_size:
  assumes "unat rows \<le> 65536" "unat columns \<le> 64"
    and "vps_size_multiply rows columns = (VPS_MEMORY_OK, Some cell_count)"
  shows "unat cell_count = unat rows * unat columns"
    and "vps_size_multiply cell_count 24 = (VPS_MEMORY_OK, Some (cell_count * 24))"
    and "unat (cell_count * 24) = 24 * (unat rows * unat columns)"
proof -
  have le: "unat rows * unat columns \<le> 65536 * 64" using assms(1,2) by (rule mult_le_mono)
  then show c: "unat cell_count = unat rows * unat columns" by (intro small_product [OF assms(3)]) simp
  have "unat cell_count \<le> 4194304" using le c by simp
  then have s: "unat cell_count * unat (24 :: size_t) < 2 ^ 64" by simp
  show m: "vps_size_multiply cell_count 24 = (VPS_MEMORY_OK, Some (cell_count * 24))"
    using s vps_size_multiply_guard [of cell_count 24] by (cases "cell_count = 0") (auto simp: vps_size_multiply_def)
  show "unat (cell_count * 24) = 24 * (unat rows * unat columns)" using small_product [OF m s] c by simp
qed

lemma exchange_sizes: "a + b \<subseteq># M \<Longrightarrow> M + N - b - a = M - (a + b) + N" for a b M N :: "nat multiset"
  by (metis add.commute diff_diff_add_mset subset_mset.add_diff_assoc2)

lemma cells_fit:
  assumes "unat rows \<le> 65536" "unat columns \<le> 64"
  obtains cell_count where "vps_size_multiply rows columns = (VPS_MEMORY_OK, Some cell_count)"
    "\<not> cell_count > VPS_METADATA_MAX_CELLS"
proof -
  have le: "unat rows * unat columns \<le> 65536 * 64" using assms by (rule mult_le_mono)
  then have s: "unat rows * unat columns < 2 ^ 64" by simp
  then have m: "vps_size_multiply rows columns = (VPS_MEMORY_OK, Some (rows * columns))"
    using vps_size_multiply_guard [of rows columns] by (cases "rows = 0") (auto simp: vps_size_multiply_def)
  moreover have "unat (rows * columns) \<le> 4194304" using small_product [OF m s] le by simp
  ultimately show thesis by (intro that) (simp_all add: not_less word_le_nat_alt)
qed

text \<open>The bytes that an append starts from show the cells that are kept.\<close>

lemma kept_bytes:
  assumes "sized_block old_bytes old_size" "sized_block bytes room" "old_size \<le> room"
    and st: "st = (if old_size \<noteq> 0 then map_option (\<lambda>blk. mem_write blk 0 (take (unat old_size) (the old_bytes))) bytes
      else bytes)"
  shows "sized_block st room" and "block_sizes st = block_sizes bytes"
    and "cell_within (unat old_size) cell \<Longrightarrow> cell_text st cell = cell_text old_bytes cell"
proof -
  have "sized_block st room \<and> block_sizes st = block_sizes bytes \<and>
      (cell_within (unat old_size) cell \<longrightarrow> cell_text st cell = cell_text old_bytes cell)"
  proof (cases "old_size = 0")
    case True
    then show ?thesis using assms(2) st by (auto simp: cell_within_def cell_text_def)
  next
    case False
    then obtain old b where b: "old_bytes = Some old" "length old = unat old_size" "bytes = Some b" "length b = unat room"
      using assms(1-3) by (auto simp: sized_block_def split: option.splits)
    have le: "unat old_size \<le> unat room" using assms(3) by (simp add: word_le_nat_alt)
    have "st = Some (mem_write b 0 old)" using st False b by simp
    moreover have "length (mem_write b 0 old) = length b" using b le by (intro length_block_write) simp
    moreover have "take (unat old_size) (mem_write b 0 old) = take (unat old_size) old" using b(2) by (simp add: mem_write_def)
    ultimately show ?thesis
      using assms(2) b cell_text_prefix [of "unat old_size" "mem_write b 0 old" old]
      by (auto simp: sized_block_def block_sizes_def)
  qed
  then show "sized_block st room" "block_sizes st = block_sizes bytes"
    "cell_within (unat old_size) cell \<Longrightarrow> cell_text st cell = cell_text old_bytes cell" by blast+
qed

context allocator_contract
begin

lemma rowset_transfer_effect:
  assumes i: "inv w"
    and run: "rowset_transfer A input base old_cells old_bytes old_size cell_count cell_bytes room w c =
      (result, cells, cm, bts, w', c')"
    and base: "length old_cells = base * unat (input_field_count input)"
    and cell_count: "unat cell_count = length old_cells + unat (input_row_count input) * unat (input_field_count input)"
    and old: "sized_block old_bytes old_size" "old_size \<le> room" "list_all (cell_within (unat old_size)) old_cells"
  shows "inv w' \<and>
    (if result = VPS_METADATA_OK
     then length cells = unat cell_count \<and> sized_block cm cell_bytes \<and> sized_block bts room \<and>
       list_all (cell_within (unat room)) cells \<and> live w' = live w + block_sizes cm + block_sizes bts \<and>
       (\<forall>T. input_shows input T \<longrightarrow> map (cell_text bts) cells = map (cell_text old_bytes) old_cells @
          input_table T (cell_order (input_row_count input) (input_field_count input)))
     else live w' = live w)"
proof -
  let ?order = "cell_order (input_row_count input) (input_field_count input)"
  obtain served cm0 by0 w1 where al: "rowset_allocate A cell_count cell_bytes room w = (served, cm0, by0, w1)"
    by (metis prod_cases4)
  note ae = rowset_allocate_effect [OF i al]
  show ?thesis
  proof (cases served)
    case False
    with run al ae show ?thesis by (auto simp: rowset_transfer_def)
  next
    case True
    then have ae': "inv w1" "sized_block cm0 cell_bytes" "sized_block by0 room"
      "live w1 = live w + block_sizes cm0 + block_sizes by0" using ae by simp_all
    define st where "st = (if old_size \<noteq> 0
      then map_option (\<lambda>blk. mem_write blk 0 (take (unat old_size) (the old_bytes))) by0 else by0)"
    note kept = kept_bytes [OF old(1) ae'(3) old(2) st_def]
    obtain filled cells1 by1 off c1 where fi: "rowset_fill input base room ?order
        (old_cells @ replicate (unat cell_count - length old_cells) zero_cell) st old_size c = (filled, cells1, by1, off, c1)"
      by (metis prod_cases5)
    have run1: "(if \<not> filled then (VPS_METADATA_INVALID_RESULT, [], None, None, rowset_discard A by1 room cm0 cell_bytes w1, c1)
        else (VPS_METADATA_OK, cells1, cm0, by1, w1, c1)) = (result, cells, cm, bts, w', c')"
      using run [unfolded rowset_transfer_def al prod.case st_def [symmetric] fi] True by simp
    have fi': "rowset_fill input base room ?order (old_cells @ replicate (unat (input_row_count input) *
        unat (input_field_count input)) zero_cell) st old_size c = (filled, cells1, by1, off, c1)"
      using fi cell_count by simp
    have index: "map (\<lambda>(row, field). (base + row) * unat (input_field_count input) + field) ?order =
        [length old_cells..<length old_cells + length ?order]"
      using cell_order_index [of base "unat (input_field_count input)" "unat (input_row_count input)"]
      by (simp add: cell_order_def base algebra_simps)
    have "bytes_grow (unat old_size) st by1"
      using rowset_fill_effect [OF index _ kept(1) old(2)] fi' by simp
    then have sizes: "block_sizes by1 = block_sizes by0"
      using kept(2) by (cases st; cases by1) (simp_all add: bytes_grow_def block_sizes_def)
    show ?thesis
    proof (cases filled)
      case False
      with run1 discard_effect [OF ae'(1), of by1 room cm0 cell_bytes] ae'(4) sizes show ?thesis by auto
    next
      case True
      note sh = rowset_shows_cells [OF fi' [unfolded eqTrueI [OF True]] base refl kept(1) old(2,3)]
      have "map (cell_text st) old_cells = map (cell_text old_bytes) old_cells"
        using old(3) kept(3) by (auto simp: list_all_iff)
      with run1 True ae' sh sizes cell_count show ?thesis by auto
    qed
  qed
qed

lemma rowset_copy_effect:
  assumes i: "inv w" and rs: "rowset_ok rs" "rows_allocator rs = A" and live: "rowset_blocks rs \<subseteq># live w"
    and run: "vps_metadata_rowset_copy (Some rs) query (Some input) w c = (result, out, w', c')"
  shows "\<exists>rs'. out = Some rs' \<and> inv w' \<and> live w' = live w - rowset_blocks rs + rowset_blocks rs' \<and>
    rowset_outcome rs [] (input_row_count input) input result rs'"
proof -
  let ?rows = "input_row_count input" and ?columns = "input_field_count input"
  have same: ?thesis if "out = Some (rs\<lparr>rows_logger := l\<rparr>)" "result \<noteq> VPS_METADATA_OK" "inv w'" "live w' = live w" for l
    using that live rowset_outcome_failed [OF rs(1) that(2)] by auto
  have same': ?thesis if "out = Some rs" "result \<noteq> VPS_METADATA_OK" "inv w'" "live w' = live w"
    using that live rowset_outcome_same [OF rs(1) that(2)] by auto
  consider (refused) "rowset_input_refused (Some rs) query (Some input)"
    | (shape) "\<not> rowset_input_refused (Some rs) query (Some input)"
      "?columns \<noteq> query_fields query \<or> ?columns > VPS_METADATA_MAX_FIELDS \<or> ?rows > VPS_METADATA_MAX_ROWS"
    | (cells) "\<not> rowset_input_refused (Some rs) query (Some input)"
      "\<not> (?columns \<noteq> query_fields query \<or> ?columns > VPS_METADATA_MAX_FIELDS \<or> ?rows > VPS_METADATA_MAX_ROWS)"
    by blast
  then show ?thesis
  proof cases
    case refused
    with run i same' show ?thesis by (simp add: vps_metadata_rowset_copy_def)
  next
    case shape
    with run i same show ?thesis by (auto simp: vps_metadata_rowset_copy_def Let_def)
  next
    case cells
    have small: "unat ?rows \<le> 65536" "unat ?columns \<le> 64" using cells(2) by (simp_all add: not_less word_le_nat_alt)
    then obtain cell_count where cc: "vps_size_multiply ?rows ?columns = (VPS_MEMORY_OK, Some cell_count)"
      "\<not> cell_count > VPS_METADATA_MAX_CELLS" by (rule cells_fit)
    note cs = cells_size [OF small cc(1)]
    obtain measured room c1 where me: "rowset_measure input (cell_order ?rows ?columns) 0 c = (measured, room, c1)"
      by (metis prod_cases3)
    obtain result1 cells1 cm bts w1 c2 where tr: "rowset_transfer A input 0 [] None 0 cell_count (cell_count * 24) room w c1 =
        (result1, cells1, cm, bts, w1, c2)" by (metis prod_cases6)
    obtain cleared w2 where re: "vps_metadata_rowset_reset rs w1 = (cleared, w2)" by fastforce
    note run1 = run [unfolded vps_metadata_rowset_copy_def Let_def option.sel if_not_P [OF cells(1)] if_not_P [OF cells(2)]
        cc(1) prod.case VpsMemoryResult.case option.case if_not_P [OF cc(2)] me cs(2) rs(2) tr re]
    have te: "inv w1" "result1 \<noteq> VPS_METADATA_OK \<Longrightarrow> live w1 = live w"
      "result1 = VPS_METADATA_OK \<Longrightarrow> length cells1 = unat cell_count \<and> sized_block cm (cell_count * 24) \<and> sized_block bts room \<and>
         list_all (cell_within (unat room)) cells1 \<and> live w1 = live w + block_sizes cm + block_sizes bts \<and>
         (\<forall>T. input_shows input T \<longrightarrow> map (cell_text bts) cells1 = input_table T (cell_order ?rows ?columns))"
      using rowset_transfer_effect [OF i tr] cs(1) by (auto simp: sized_block_def)
    show ?thesis
    proof (cases "measured \<and> result1 = VPS_METADATA_OK")
      case False
      with run1 i te same same' show ?thesis by (auto split: if_splits)
    next
      case True
      define rs' where "rs' = cleared\<lparr>rows_cells := cells1, rows_cells_memory := cm, rows_bytes := bts,
         rows_row_count := ?rows, rows_field_count := ?columns, rows_cell_count := cell_count,
         rows_cell_bytes := cell_count * 24, rows_bytes_size := room, rows_initialized := True,
         rows_logger := vps_metadata_log (rows_logger cleared) query ''passed'' ?rows ?columns room\<rparr>"
      have eq: "out = Some rs'" "result = VPS_METADATA_OK" "w' = w2" using run1 True by (simp_all add: rs'_def)
      have ini: "rows_initialized rs" using rs(1) by (simp add: rowset_ok_def)
      note re' = rowset_reset_effect [OF te(1) rs(2) ini re]
      have room: "room \<le> VPS_METADATA_MAX_TOTAL_BYTES" using me True by (intro measured_small [of input _ 0 c room c1]) auto
      have "rowset_ok rs'" using te(3) True room cells(2) cs by (simp add: rowset_ok_def rs'_def not_less)
      moreover have "rowset_shows rs' [] ?rows ?columns input"
        using te(3) True by (simp add: rowset_shows_def rs'_def rowset_table_def)
      moreover have "live w' = live w - rowset_blocks rs + rowset_blocks rs'"
        using re' te(3) True live
        by (simp add: eq rs'_def rowset_blocks_def subset_mset.add_diff_assoc2 add.assoc)
      ultimately show ?thesis using eq re' rs(2) by (simp add: rowset_outcome_def rs'_def empty_rowset_def)
    qed
  qed
qed

lemma rowset_extend_effect:
  assumes i: "inv w" and rs: "rowset_ok rs" "rows_allocator rs = A" and live: "rowset_blocks rs \<subseteq># live w"
    and run: "rowset_extend rs query input new_rows cell_count cell_bytes room w c = (result, out, w', c')"
    and columns: "rows_row_count rs = 0 \<or> rows_field_count rs = input_field_count input"
    and new: "unat new_rows = unat (rows_row_count rs) + unat (input_row_count input)"
    and cells: "unat cell_count = unat new_rows * unat (input_field_count input)"
      "unat cell_bytes = 24 * (unat new_rows * unat (input_field_count input))"
    and room: "rows_bytes_size rs \<le> room" "room \<le> VPS_METADATA_MAX_TOTAL_BYTES" "new_rows \<le> VPS_METADATA_MAX_ROWS"
  shows "\<exists>rs'. out = Some rs' \<and> inv w' \<and> live w' = live w - rowset_blocks rs + rowset_blocks rs' \<and>
    rowset_outcome rs (rowset_table rs) new_rows input result rs'"
proof -
  let ?columns = "input_field_count input"
  have base: "length (rows_cells rs) = unat (rows_row_count rs) * unat ?columns"
    using rs(1) columns by (auto simp: rowset_ok_def)
  have old: "sized_block (rows_bytes rs) (rows_bytes_size rs)" "list_all (cell_within (unat (rows_bytes_size rs))) (rows_cells rs)"
    "sized_block (rows_cells_memory rs) (rows_cell_bytes rs)" "unat (rows_cell_bytes rs) = 24 * length (rows_cells rs)"
    using rs(1) by (simp_all add: rowset_ok_def)
  have count1: "unat cell_count = length (rows_cells rs) + unat (input_row_count input) * unat ?columns"
    using cells(1) base new by (simp add: algebra_simps)
  obtain result1 cells1 cm bts w1 c1 where tr: "rowset_transfer A input (unat (rows_row_count rs)) (rows_cells rs)
      (rows_bytes rs) (rows_bytes_size rs) cell_count cell_bytes room w c = (result1, cells1, cm, bts, w1, c1)"
    by (metis prod_cases6)
  note te = rowset_transfer_effect [OF i tr base count1 old(1) room(1) old(2)]
  have "rows_cell_bytes rs \<le> cell_bytes" using old(4) cells(2) base new by (simp add: word_le_nat_alt algebra_simps)
  then have "\<not> ((rows_cell_bytes rs \<noteq> 0 \<and> rows_cells_memory rs = None) \<or> (rows_bytes_size rs \<noteq> 0 \<and> rows_bytes rs = None) \<or>
      rows_cell_bytes rs > cell_bytes \<or> rows_bytes_size rs > room)"
    using old(1,3) room(1) by (auto simp: sized_block_def not_less)
  note run1 = run [unfolded rowset_extend_def if_not_P [OF this] rs(2) tr prod.case]
  show ?thesis
  proof (cases "result1 = VPS_METADATA_OK")
    case False
    with run1 te live rowset_outcome_same [OF rs(1)] show ?thesis by auto
  next
    case True
    define rs' where "rs' = rs\<lparr>rows_cells := cells1, rows_cells_memory := cm, rows_bytes := bts, rows_row_count := new_rows,
       rows_field_count := ?columns, rows_cell_count := cell_count, rows_cell_bytes := cell_bytes, rows_bytes_size := room,
       rows_logger := vps_metadata_log (rows_logger rs) query ''passed'' new_rows ?columns room\<rparr>"
    have eq: "out = Some rs'" "result = VPS_METADATA_OK"
      "w' = rowset_discard A (rows_bytes rs) (rows_bytes_size rs) (rows_cells_memory rs) (rows_cell_bytes rs) w1"
      using run1 True by (simp_all add: rs'_def)
    have i1: "inv w1" using te by simp
    note de = discard_effect [OF i1, of "rows_bytes rs" "rows_bytes_size rs" "rows_cells_memory rs" "rows_cell_bytes rs"]
    have "rowset_ok rs'" using te True rs(1) cells room by (simp add: rowset_ok_def rs'_def)
    moreover have "rowset_shows rs' (rowset_table rs) new_rows ?columns input"
      using te True by (simp add: rowset_shows_def rs'_def rowset_table_def)
    moreover have "live w' = live w - rowset_blocks rs + rowset_blocks rs'"
      using de te True exchange_sizes [OF live [unfolded rowset_blocks_def]]
      by (simp add: eq rs'_def rowset_blocks_def add.assoc)
    ultimately show ?thesis using eq de rs(2) by (simp add: rowset_outcome_def rs'_def)
  qed
qed

lemma rowset_append_effect:
  assumes i: "inv w" and rs: "rowset_ok rs" "rows_allocator rs = A" and live: "rowset_blocks rs \<subseteq># live w"
    and run: "vps_metadata_rowset_append (Some rs) query (Some input) w c = (result, out, w', c')"
  shows "\<exists>rs'. out = Some rs' \<and> inv w' \<and> live w' = live w - rowset_blocks rs + rowset_blocks rs' \<and>
    rowset_outcome rs (rowset_table rs) (rows_row_count rs + input_row_count input) input result rs'"
proof -
  let ?rows = "input_row_count input" and ?columns = "input_field_count input"
  have same: ?thesis if "out = Some rs" "result \<noteq> VPS_METADATA_OK" "inv w'" "live w' = live w"
    using that live rowset_outcome_same [OF rs(1) that(2)] by auto
  consider (refused) "rowset_input_refused (Some rs) query (Some input)"
    | (shape) "\<not> rowset_input_refused (Some rs) query (Some input)"
      "?columns \<noteq> query_fields query \<or> ?columns > VPS_METADATA_MAX_FIELDS \<or> (rows_row_count rs \<noteq> 0 \<and> rows_field_count rs \<noteq> ?columns)"
    | (many) "\<not> rowset_input_refused (Some rs) query (Some input)"
      "\<not> (?columns \<noteq> query_fields query \<or> ?columns > VPS_METADATA_MAX_FIELDS \<or> (rows_row_count rs \<noteq> 0 \<and> rows_field_count rs \<noteq> ?columns))"
      "?rows > SIZE_MAX - rows_row_count rs \<or> rows_row_count rs + ?rows > VPS_METADATA_MAX_ROWS"
    | (cells) "\<not> rowset_input_refused (Some rs) query (Some input)"
      "\<not> (?columns \<noteq> query_fields query \<or> ?columns > VPS_METADATA_MAX_FIELDS \<or> (rows_row_count rs \<noteq> 0 \<and> rows_field_count rs \<noteq> ?columns))"
      "\<not> ?rows > SIZE_MAX - rows_row_count rs" "\<not> rows_row_count rs + ?rows > VPS_METADATA_MAX_ROWS"
    by blast
  then show ?thesis
  proof cases
    case refused
    with run i same show ?thesis by (simp add: vps_metadata_rowset_append_def)
  next
    case shape
    with run i same show ?thesis by (auto simp: vps_metadata_rowset_append_def Let_def)
  next
    case many
    with run i same show ?thesis
      by (auto simp: vps_metadata_rowset_append_def Let_def vps_size_add_def split: if_splits)
  next
    case cells
    let ?new = "rows_row_count rs + ?rows"
    have add: "vps_size_add (rows_row_count rs) ?rows = (VPS_MEMORY_OK, Some ?new)"
      and new: "unat ?new = unat (rows_row_count rs) + unat ?rows"
      using cells(3) unat_add_no_wrap [of ?rows "rows_row_count rs"] by (simp_all add: vps_size_add_def not_less)
    have small: "unat ?new \<le> 65536" "unat ?columns \<le> 64" using cells(2,4) by (simp_all add: not_less word_le_nat_alt)
    then obtain cell_count where cc: "vps_size_multiply ?new ?columns = (VPS_MEMORY_OK, Some cell_count)"
      "\<not> cell_count > VPS_METADATA_MAX_CELLS" by (rule cells_fit)
    note cs = cells_size [OF small cc(1)]
    obtain measured added c1 where me: "rowset_measure input (cell_order ?rows ?columns) 0 c = (measured, added, c1)"
      by (metis prod_cases3)
    note run1 = run [unfolded vps_metadata_rowset_append_def Let_def option.sel if_not_P [OF cells(1)] if_not_P [OF cells(2)]
        add prod.case VpsMemoryResult.case option.case if_not_P [OF cells(4)] me]
    show ?thesis
    proof (cases measured)
      case False
      with run1 i same show ?thesis by simp
    next
      case True
      have ok: "rows_bytes_size rs \<le> VPS_METADATA_MAX_TOTAL_BYTES" using rs(1) by (simp add: rowset_ok_def)
      have le: "added \<le> VPS_METADATA_MAX_TOTAL_BYTES" using me True by (intro measured_small [of input _ 0 c added c1]) auto
      have "unat (rows_bytes_size rs) + unat added < 2 ^ 64" using ok le by (simp add: word_le_nat_alt)
      note tot = size_add_small [OF this]
      let ?room = "rows_bytes_size rs + added"
      have run2: "(if ?room > VPS_METADATA_MAX_TOTAL_BYTES then (VPS_METADATA_LIMIT_EXCEEDED, Some rs, w, c1)
          else rowset_extend rs query input ?new cell_count (cell_count * 24) ?room w c1) = (result, out, w', c')"
        using run1 True tot cc cs(2) by (cases "rows_bytes_size rs + added > VPS_METADATA_MAX_TOTAL_BYTES") simp_all
      show ?thesis
      proof (cases "?room > VPS_METADATA_MAX_TOTAL_BYTES")
        case True
        with run2 i same show ?thesis by auto
      next
        case False
        have run3: "rowset_extend rs query input ?new cell_count (cell_count * 24) ?room w c1 = (result, out, w', c')"
          using run2 False by simp
        have "rows_row_count rs = 0 \<or> rows_field_count rs = ?columns" using cells(2) by blast
        moreover have "rows_bytes_size rs \<le> ?room" using tot by (simp add: word_le_nat_alt)
        ultimately have "\<exists>rs'. out = Some rs' \<and> inv w' \<and> live w' = live w - rowset_blocks rs + rowset_blocks rs' \<and>
            rowset_outcome rs (rowset_table rs) ?new input result rs'"
          using rowset_extend_effect [OF i rs live run3 _ new cs(1,3)] cells(4) False by (simp add: not_less)
        then show ?thesis .
      qed
    qed
  qed
qed

end


section \<open>Reading cells\<close>

text \<open>What a caller of \<open>vps_metadata_rowset_cell\<close> sees of a cell: nothing when the call fails, otherwise NULL or bytes.\<close>

definition read_cell :: "('w, 'l) VpsMetadataRowSet \<Rightarrow> nat \<Rightarrow> nat \<Rightarrow> u8 list option option" where
  "read_cell rs row field =
     (case vps_metadata_rowset_cell rs row field of
        (VPS_METADATA_OK, Some (val, _, null)) \<Rightarrow> Some (if null then None else Some (case val of None \<Rightarrow> [] | Some b \<Rightarrow> b))
      | _ \<Rightarrow> None)"

lemma index_less: "row < R \<Longrightarrow> field < F \<Longrightarrow> row * F + field < R * F" for row field :: nat
proof -
  assume a: "row < R" "field < F"
  then have "row * F + field < Suc row * F" by simp
  also have "\<dots> \<le> R * F" using a by (intro mult_le_mono1) simp
  finally show ?thesis .
qed

lemma rowset_cell_exact:
  assumes "rowset_ok rs" "row < unat (rows_row_count rs)" "field < unat (rows_field_count rs)"
  shows "vps_metadata_rowset_cell rs row field =
    (let cell = rows_cells rs ! (row * unat (rows_field_count rs) + field) in
     (VPS_METADATA_OK,
      Some (if cell_is_null cell then None
            else map_option (\<lambda>blk. take (unat (cell_length cell)) (drop (unat (cell_offset cell)) blk)) (rows_bytes rs),
            cell_length cell, cell_is_null cell)))"
proof -
  let ?cell = "rows_cells rs ! (row * unat (rows_field_count rs) + field)"
  have "?cell \<in> set (rows_cells rs)" using assms index_less by (simp add: rowset_ok_def)
  then have w: "unat (cell_offset ?cell) + unat (cell_length ?cell) \<le> unat (rows_bytes_size rs)"
    using assms(1) by (auto simp: rowset_ok_def list_all_iff cell_within_def)
  then have le: "cell_offset ?cell \<le> rows_bytes_size rs" by (simp add: word_le_nat_alt)
  then have "\<not> cell_length ?cell > rows_bytes_size rs - cell_offset ?cell"
    using w by (simp add: not_less word_le_nat_alt unat_sub)
  then show ?thesis
    using assms le by (simp add: vps_metadata_rowset_cell_def rowset_ok_def Let_def not_le)
qed

lemma read_cell_table:
  assumes "rowset_ok rs"
  shows "read_cell rs row field =
    (if row < unat (rows_row_count rs) \<and> field < unat (rows_field_count rs)
     then Some (rowset_table rs ! (row * unat (rows_field_count rs) + field)) else None)"
proof (cases "row < unat (rows_row_count rs) \<and> field < unat (rows_field_count rs)")
  case True
  then have "row * unat (rows_field_count rs) + field < length (rows_cells rs)"
    using index_less assms by (simp add: rowset_ok_def)
  with True rowset_cell_exact [OF assms] show ?thesis
    by (simp add: read_cell_def Let_def rowset_table_def cell_text_def split: option.splits)
next
  case False
  then show ?thesis by (auto simp: read_cell_def vps_metadata_rowset_cell_def not_less)
qed

lemma input_table_nth:
  assumes "row < unat rows" "field < unat columns"
  shows "input_table T (cell_order rows columns) ! (row * unat columns + field) = T row field"
proof -
  have "row * unat columns + field < unat rows * unat columns" using assms by (rule index_less)
  then show ?thesis
    using assms by (simp add: input_table_def cell_order_def product_nth)
qed

section \<open>Numbers in cells\<close>

text \<open>The readers of numbers are exact: they accept the decimal numerals whose number is in range, with its value.\<close>

definition decimal_bytes :: "nat \<Rightarrow> u8 list \<Rightarrow> nat" where
  "decimal_bytes start str = foldl (\<lambda>n b. n * 10 + (unat b - 48)) start str"

abbreviation digit_bytes :: "u8 list \<Rightarrow> bool" where
  "digit_bytes str \<equiv> list_all (\<lambda>b. 48 \<le> b \<and> b \<le> 57) str"

lemma decimal_bytes_mono: "start \<le> decimal_bytes start str"
proof (induction str arbitrary: start)
  case (Cons b str)
  have "start \<le> start * 10 + (unat b - 48)" by simp
  also have "\<dots> \<le> decimal_bytes (start * 10 + (unat b - 48)) str" by (rule Cons.IH)
  finally show ?case by (simp add: decimal_bytes_def)
qed (simp add: decimal_bytes_def)

lemma metadata_digits_exact:
  assumes "9 \<le> unat limit" and "unat r \<le> unat limit"
  shows "metadata_digits limit r str = Some n \<longleftrightarrow>
    digit_bytes str \<and> decimal_bytes (unat r) str \<le> unat limit \<and> unat n = decimal_bytes (unat r) str"
  using assms(2)
proof (induction str arbitrary: r)
  case Nil
  then show ?case by (auto simp: decimal_bytes_def word_unat_eq_iff)
next
  case (Cons b str)
  let ?k = "unat b - 48" and ?digit = "ucast (b - 48) :: u32"
  have step: "decimal_bytes (unat r) (b # str) = decimal_bytes (unat r * 10 + ?k) str" by (simp add: decimal_bytes_def)
  show ?case
  proof (cases "48 \<le> b \<and> b \<le> 57")
    case False
    then show ?thesis by (auto simp: not_le)
  next
    case True
    then have le: "48 \<le> unat b" "unat b \<le> 57" by (simp_all add: word_le_nat_alt)
    then have "unat (b - 48) = ?k" by (simp add: unat_sub word_le_nat_alt)
    then have k: "unat ?digit = ?k" "?k \<le> 9" using le by (simp_all add: unat_ucast_small)
    have "unat (limit - ?digit) = unat limit - ?k"
      using k assms(1) by (simp add: unat_sub word_le_nat_alt)
    then have guard: "\<not> r > (limit - ?digit) div 10 \<longleftrightarrow> unat r * 10 + ?k \<le> unat limit"
      using k assms(1) less_eq_div_iff_mult_less_eq [of 10 "unat r" "unat limit - ?k"]
      by (simp add: not_less word_le_nat_alt unat_div) arith
    show ?thesis
    proof (cases "unat r * 10 + ?k \<le> unat limit")
      case True
      have "unat r * 10 + ?k < 2 ^ 32" using True unsigned_less [of limit, where ?'a = nat] by simp
      then have "unat (r * 10 + ?digit) = unat r * 10 + ?k" using k by (simp add: unat_word_ariths)
      with Cons.IH [of "r * 10 + ?digit"] True guard \<open>48 \<le> b \<and> b \<le> 57\<close> show ?thesis
        by (auto simp: Let_def step not_less)
    next
      case False
      with guard \<open>48 \<le> b \<and> b \<le> 57\<close> decimal_bytes_mono [of "unat r * 10 + ?k" str] show ?thesis
        by (auto simp: Let_def step not_less)
    qed
  qed
qed

lemma metadata_uint32_exact:
  "vps_metadata_parse_uint32 str = Some n \<longleftrightarrow>
     str \<noteq> [] \<and> length str \<le> 10 \<and> digit_bytes str \<and> unat n = decimal_bytes 0 str"
  using metadata_digits_exact [of "0xffffffff" 0 str n] unsigned_less [of n, where ?'a = nat]
  by (auto simp: vps_metadata_parse_uint32_def)

text \<open>A signed number has an optional minus sign.\<close>

lemma sint_eq_iff: "sint n = i \<longleftrightarrow> n = word_of_int i \<and> - (2 ^ 31) \<le> i \<and> i < 2 ^ 31" for n :: u32
proof -
  have "sint (word_of_int i :: u32) = i" if "- (2 ^ 31) \<le> i \<and> i < 2 ^ 31"
    using that by (simp add: sint_sbintrunc' signed_take_bit_int_eq_self)
  moreover have "- (2 ^ 31) \<le> sint n \<and> sint n < 2 ^ 31" using sint_ge [of n] sint_lt [of n] by simp
  moreover have "n = word_of_int (sint n)" by simp
  ultimately show ?thesis by (auto simp del: of_int_sint)
qed

lemma parse_int32_exact:
  "vps_metadata_parse_int32 str = Some n \<longleftrightarrow> length str \<le> 11 \<and>
     (\<exists>digits. digits \<noteq> [] \<and> digit_bytes digits \<and>
        (str = digits \<and> sint n = int (decimal_bytes 0 digits) \<or> str = 45 # digits \<and> sint n = - int (decimal_bytes 0 digits)))"
proof (cases str)
  case (Cons b rest)
  show ?thesis
  proof (cases "b = 45")
    case False
    have "metadata_digits 2147483647 0 str = Some n \<longleftrightarrow>
        digit_bytes str \<and> decimal_bytes 0 str \<le> 2147483647 \<and> unat n = decimal_bytes 0 str"
      using metadata_digits_exact [of 2147483647 0 str n] by simp
    moreover have "d \<le> 2147483647 \<and> unat n = d \<longleftrightarrow> sint n = int d" for d
      unfolding sint_eq_iff by (auto dest: word_of_unat)
    ultimately have "metadata_digits 2147483647 0 str = Some n \<longleftrightarrow> digit_bytes str \<and> sint n = int (decimal_bytes 0 str)"
      by blast
    then show ?thesis using False Cons by (auto simp: vps_metadata_parse_int32_def)
  next
    case True
    have digits: "metadata_digits 2147483648 0 rest = Some m \<longleftrightarrow>
        digit_bytes rest \<and> decimal_bytes 0 rest \<le> 2147483648 \<and> m = of_nat (decimal_bytes 0 rest)" for m
      using metadata_digits_exact [of 2147483648 0 rest m] by (auto dest: word_of_unat)
    have neg: "(if m = 2147483648 then 0x80000000 else - m) = - m" for m :: u32 by simp
    have "(\<exists>m. metadata_digits 2147483648 0 rest = Some m \<and> - m = n) \<longleftrightarrow> digit_bytes rest \<and> sint n = - int (decimal_bytes 0 rest)"
      unfolding digits sint_eq_iff by auto
    with True Cons show ?thesis by (auto simp: vps_metadata_parse_int32_def neg)
  qed
qed (simp add: vps_metadata_parse_int32_def)


section \<open>Relations are resolved completely or not at all\<close>

definition relation_blocks :: "('w, 'l) VpsRelationMetadata \<Rightarrow> nat multiset" where
  "relation_blocks relation = buffer_blocks (rel_schema_name relation) + buffer_blocks (rel_relation_name relation)"

definition relation_ok :: "('w, 'l) VpsRelationMetadata \<Rightarrow> bool" where
  "relation_ok relation \<longleftrightarrow> rel_initialized relation \<and>
     buf_allocator (rel_schema_name relation) = rel_allocator relation \<and> buffer_ok (rel_schema_name relation) \<and>
     buf_allocator (rel_relation_name relation) = rel_allocator relation \<and> buffer_ok (rel_relation_name relation)"

text \<open>What a resolved relation is: it has the names that were asked for, and the kinds that may be written are those
  whose rows the statements of this extension address.\<close>

definition relation_resolved :: "('w, 'l) VpsRelationMetadata \<Rightarrow> u8 list \<Rightarrow> u8 list \<Rightarrow> bool" where
  "relation_resolved relation schema name \<longleftrightarrow>
     buffer_contents (rel_schema_name relation) = schema \<and> buffer_contents (rel_relation_name relation) = name \<and>
     rel_readable relation \<and>
     rel_writable_candidate relation =
       (rel_kind relation \<in> {VPS_RELATION_TABLE, VPS_RELATION_PARTITIONED_TABLE, VPS_RELATION_PARTITION})"

lemma relation_fields_frame:
  "relation_fields cells candidate = Some candidate' \<Longrightarrow>
     rel_allocator candidate' = rel_allocator candidate \<and> rel_initialized candidate' = rel_initialized candidate \<and>
     rel_schema_name candidate' = rel_schema_name candidate \<and> rel_relation_name candidate' = rel_relation_name candidate"
  by (auto simp: relation_fields_def split: bind_splits if_splits)

lemma relation_access_cases:
  "relation_access kind = Some (readable, writable) \<Longrightarrow> readable \<and>
     writable = (kind \<in> {VPS_RELATION_TABLE, VPS_RELATION_PARTITIONED_TABLE, VPS_RELATION_PARTITION})"
  by (auto simp: relation_access_def split: if_splits)

context allocator_contract
begin

lemma relation_init_exact:
  "vps_relation_metadata_init (Some A) logger =
     (VPS_METADATA_OK, Some (empty_relation A logger
        \<lparr>buf_allocator = A, buf_data = None, buf_size = 0, buf_capacity = 0, buf_limit = VPS_METADATA_NAME_MAX_BYTES\<rparr>
        \<lparr>buf_allocator = A, buf_data = None, buf_size = 0, buf_capacity = 0, buf_limit = VPS_METADATA_NAME_MAX_BYTES\<rparr>))"
  using valid by (simp add: vps_relation_metadata_init_def vps_buffer_init_def)

lemma relation_reset_effect:
  assumes "inv w" "relation_ok r" "rel_allocator r = A" "vps_relation_metadata_reset r w = (r', w')"
  shows "inv w' \<and> live w' = live w - relation_blocks r"
proof -
  obtain n w1 where r1: "vps_buffer_reset (rel_relation_name r) w = (n, w1)" by fastforce
  obtain s w2 where r2: "vps_buffer_reset (rel_schema_name r) w1 = (s, w2)" by fastforce
  have "w' = w2"
    using assms(4) r1 r2 by (auto simp: vps_relation_metadata_reset_def Let_def split: if_splits prod.splits VpsMetadataResult.splits option.splits)
  moreover have "inv w1 \<and> live w1 = live w - buffer_blocks (rel_relation_name r)"
    using buffer_reset [OF assms(1) _ r1] assms(2,3) by (simp add: relation_ok_def)
  moreover have "inv w2 \<and> live w2 = live w1 - buffer_blocks (rel_schema_name r)" if "inv w1"
    using buffer_reset [OF that _ r2] assms(2,3) by (simp add: relation_ok_def)
  ultimately show ?thesis by (simp add: relation_blocks_def add.commute)
qed

lemma relation_discard_effect:
  assumes "inv w" "relation_ok c" "rel_allocator c = A" "relation_discard result r c w = (result', r', w')"
  shows "result' = result \<and> r' = r \<and> inv w' \<and> live w' = live w - relation_blocks c"
  using assms relation_reset_effect [OF assms(1-3)] by (auto simp: relation_discard_def split: prod.splits)

lemma relation_build_effect:
  assumes i: "inv w" and r: "relation_ok r" "rel_allocator r = A" "relation_blocks r \<subseteq># live w"
    and c: "relation_ok c" "rel_allocator c = A" "relation_blocks c = {#}" "buffer_contents (rel_schema_name c) = []"
      "buffer_contents (rel_relation_name c) = []"
    and small: "length (cells ! 9) < 2 ^ 64" "length (cells ! 10) < 2 ^ 64"
    and run: "relation_build r cells c w = (result, r', w')"
  shows "inv w' \<and> relation_ok r' \<and> rel_allocator r' = A \<and> live w' = live w - relation_blocks r + relation_blocks r' \<and>
    (if result = VPS_METADATA_OK then relation_resolved r' (cells ! 9) (cells ! 10) else r' = r)"
proof (cases "relation_fields cells c")
  case None
  with run have "relation_discard VPS_METADATA_INVALID_RESULT r c w = (result, r', w')" by (simp add: relation_build_def)
  from relation_discard_effect [OF i c(1,2) this] r c(3) show ?thesis by simp
next
  case (Some c1)
  note fr = relation_fields_frame [OF Some]
  have len: "unat (of_nat (length (cells ! 9)) :: size_t) = length (cells ! 9)"
    "unat (of_nat (length (cells ! 10)) :: size_t) = length (cells ! 10)" using small by simp_all
  have e: "buffer_blocks (rel_schema_name c1) = {#}" "buffer_blocks (rel_relation_name c1) = {#}"
    using c(3) fr by (simp_all add: relation_blocks_def)
  obtain r1 s w1 where a1: "vps_buffer_append (rel_schema_name c1) (Some (cells ! 9)) (of_nat (length (cells ! 9))) w = (r1, s, w1)"
    by (metis prod_cases3)
  have e1: "inv w1 \<and> buffer_ok s \<and> buf_allocator s = A \<and> live w1 = live w + buffer_blocks s \<and>
      (r1 = VPS_MEMORY_OK \<longrightarrow> buffer_contents s = cells ! 9)"
    using buffer_append [OF i _ _ _ a1] fr c e len by (auto simp: relation_ok_def split: if_splits)
  define c2 where "c2 = c1\<lparr>rel_schema_name := s\<rparr>"
  have c2: "relation_ok c2" "rel_allocator c2 = A" "relation_blocks c2 = buffer_blocks s"
    using e1 fr c e by (auto simp: c2_def relation_ok_def relation_blocks_def)
  have i1: "inv w1" using e1 by simp
  show ?thesis
  proof (cases "r1 = VPS_MEMORY_OK")
    case False
    then have "relation_discard VPS_METADATA_INVALID_RESULT r c2 w1 = (result, r', w')"
      using run Some a1 by (simp add: relation_build_def c2_def)
    from relation_discard_effect [OF i1 c2(1,2) this] r e1 c2(3) show ?thesis by simp
  next
    case True
    obtain r2 n w2 where a2: "vps_buffer_append (rel_relation_name c1) (Some (cells ! 10)) (of_nat (length (cells ! 10))) w1 = (r2, n, w2)"
      by (metis prod_cases3)
    have e2: "inv w2 \<and> buffer_ok n \<and> buf_allocator n = A \<and> live w2 = live w1 + buffer_blocks n \<and>
        (r2 = VPS_MEMORY_OK \<longrightarrow> buffer_contents n = cells ! 10)"
      using buffer_append [OF i1 _ _ _ a2] fr c e len by (auto simp: relation_ok_def split: if_splits)
    define c3 where "c3 = c1\<lparr>rel_schema_name := s, rel_relation_name := n\<rparr>"
    have c3: "relation_ok c3" "rel_allocator c3 = A" "relation_blocks c3 = buffer_blocks s + buffer_blocks n"
      using e1 e2 fr c by (auto simp: c3_def relation_ok_def relation_blocks_def)
    have i2: "inv w2" using e2 by simp
    have first: "\<not> r1 \<noteq> VPS_MEMORY_OK" using True by simp
    note run1 = run [unfolded relation_build_def Some option.case a1 prod.case if_not_P [OF first] a2 Let_def c3_def [symmetric]]
    consider (discard) res where "relation_discard res r c3 w2 = (result, r', w')" "res \<noteq> VPS_METADATA_OK"
      | (good) readable writable where "r2 = VPS_MEMORY_OK" "relation_access (rel_kind c3) = Some (readable, writable)"
      using run1 by (fastforce split: if_splits option.splits)
    then show ?thesis
    proof cases
      case discard
      from relation_discard_effect [OF i2 c3(1,2) discard(1)] discard(2) r e1 e2 c3(3) show ?thesis by simp
    next
      case good
      obtain x w3 where re: "vps_relation_metadata_reset r w2 = (x, w3)" by fastforce
      from run1 good re have eq: "result = VPS_METADATA_OK" "w' = w3"
        "r' = c3\<lparr>rel_readable := readable, rel_writable_candidate := writable\<rparr>" by simp_all
      have "relation_resolved r' (cells ! 9) (cells ! 10)"
        using eq(3) good e1 e2 True relation_access_cases [OF good(2)] by (simp add: relation_resolved_def c3_def)
      moreover have "relation_ok r' \<and> rel_allocator r' = A \<and> relation_blocks r' = relation_blocks c3"
        using c3 eq(3) by (simp add: relation_ok_def relation_blocks_def)
      moreover have "inv w' \<and> live w' = live w - relation_blocks r + (buffer_blocks s + buffer_blocks n)"
        using relation_reset_effect [OF i2 r(1,2) re] e1 e2 r(3) eq(2)
        by (simp add: add.assoc subset_mset.add_diff_assoc2)
      ultimately show ?thesis using eq(1) c3(3) by simp
    qed
  qed
qed

lemma relation_resolve_effect:
  assumes i: "inv w" and r: "relation_ok r" "rel_allocator r = A" "relation_blocks r \<subseteq># live w"
    and run: "vps_relation_metadata_resolve (Some r) (Some rs) (Some schema) (Some name) w = (result, out, w')"
  shows "\<exists>r'. out = Some r' \<and> inv w' \<and> relation_ok r' \<and> rel_allocator r' = A \<and>
    live w' = live w - relation_blocks r + relation_blocks r' \<and>
    (if result = VPS_METADATA_OK then relation_resolved r' schema name else r' = r)"
proof -
  let ?required = "map (vps_metadata_cell_required rs 0) [0..<12]"
  let ?cells = "map the ?required"
  define c where "c = empty_relation A (rel_logger r)
    \<lparr>buf_allocator = A, buf_data = None, buf_size = 0, buf_capacity = 0, buf_limit = VPS_METADATA_NAME_MAX_BYTES\<rparr>
    \<lparr>buf_allocator = A, buf_data = None, buf_size = 0, buf_capacity = 0, buf_limit = VPS_METADATA_NAME_MAX_BYTES\<rparr>"
  have c: "relation_ok c" "rel_allocator c = A" "relation_blocks c = {#}" "buffer_contents (rel_schema_name c) = []"
      "buffer_contents (rel_relation_name c) = []"
    by (simp_all add: c_def empty_relation_def relation_ok_def relation_blocks_def buffer_blocks_def buffer_contents_def buffer_ok_def)
  have ini: "vps_relation_metadata_init (Some A) (rel_logger r) = (VPS_METADATA_OK, Some c)"
    by (simp add: c_def relation_init_exact)
  obtain result1 r1 w1 where b: "relation_build r ?cells c w = (result1, r1, w1)" by (metis prod_cases3)
  show ?thesis
  proof (cases "?cells ! 9 = schema \<and> ?cells ! 10 = name \<and> length schema \<le> 255 \<and> length name \<le> 255")
    case True
    then have small: "length (?cells ! 9) < 2 ^ 64" "length (?cells ! 10) < 2 ^ 64" by (simp_all del: nth_map)
    note be = relation_build_effect [OF i r c small b]
    show ?thesis
      using run be i r True ini b
      by (auto simp: vps_relation_metadata_resolve_def Let_def simp del: nth_map split: if_splits)
  next
    case False
    then show ?thesis
      using run i r by (auto simp: vps_relation_metadata_resolve_def Let_def simp del: nth_map split: if_splits)
  qed
qed

end

section \<open>The copy is exact\<close>

lemma rowset_outcome_read:
  assumes "rowset_ok rs" "rowset_outcome rs [] (input_row_count input) input result rs'" "input_shows input T"
  shows "read_cell rs' row field =
    (if result \<noteq> VPS_METADATA_OK then read_cell rs row field
     else if row < unat (input_row_count input) \<and> field < unat (input_field_count input) then Some (T row field) else None)"
proof (cases "result = VPS_METADATA_OK")
  case True
  with assms(2,3) have "rowset_ok rs'" "rows_row_count rs' = input_row_count input" "rows_field_count rs' = input_field_count input"
    "rowset_table rs' = input_table T (cell_order (input_row_count input) (input_field_count input))"
    by (auto simp: rowset_outcome_def rowset_shows_def)
  with True show ?thesis by (simp add: read_cell_table input_table_nth)
next
  case False
  with assms(2) have same: "rs' = rs\<lparr>rows_logger := rows_logger rs'\<rparr>" by (simp add: rowset_outcome_def)
  have "vps_metadata_rowset_cell (rs\<lparr>rows_logger := l\<rparr>) row field = vps_metadata_rowset_cell rs row field" for l
    by (simp add: vps_metadata_rowset_cell_def Let_def)
  then have "read_cell (rs\<lparr>rows_logger := l\<rparr>) row field = read_cell rs row field" for l by (simp add: read_cell_def)
  then have "read_cell rs' row field = read_cell rs row field" by (subst same)
  with False show ?thesis by simp
qed

text \<open>An append leaves the rows that are there and adds the rows of the input after them.\<close>

lemma metadata_append_exact:
  assumes "rowset_ok rs" "rows_allocator rs = system_allocator" "rowset_blocks rs \<subseteq># heap_live w"
    and "input_shows input T"
    and "vps_metadata_rowset_append (Some rs) query (Some input) w c = (VPS_METADATA_OK, out, w', c')"
  shows "\<exists>rs'. out = Some rs' \<and> rowset_ok rs' \<and> heap_live w' = heap_live w - rowset_blocks rs + rowset_blocks rs' \<and>
    rowset_table rs' = rowset_table rs @ input_table T (cell_order (input_row_count input) (input_field_count input))"
  using system.rowset_append_effect [OF TrueI assms(1-3,5)] assms(4)
  by (auto simp: rowset_outcome_def rowset_shows_def)


definition extension_row :: "unit VpsMetadataInput" where
  "extension_row =
     \<lparr>input_row_count = 1, input_field_count = 8, input_is_null = Some (\<lambda>c row field. (field \<noteq> 1, c)),
      input_value = Some (\<lambda>c row field. (Some [51, 46, 52], c)), input_length = Some (\<lambda>c row field. (3, c))\<rparr>"


end
