(* ===== verification/Vps_Columns.thy ===== *)
theory Vps_Columns
  imports Vps_Metadata
begin

text \<open>
  The columns of a relation (\<open>src/src/vps_metadata.c\<close>, the second half): the rows of the column query become a list of
  column descriptions whose strings lie in one growing text. The array of columns is a block of memory for the
  accounting and the list of columns for its contents.
\<close>

section \<open>Data\<close>

record VpsMetadataString =
  string_offset :: size_t
  string_length :: size_t
  string_present :: bool

record VpsColumnMetadata =
  col_attribute_number :: "32 word"
  col_type_oid :: u32
  col_type_modifier :: "32 word"
  col_type_namespace_oid :: u32
  col_domain_base_oid :: u32
  col_domain_base_modifier :: "32 word"
  col_array_element_oid :: u32
  col_collation_oid :: u32
  col_origin_relation_oid :: u32
  col_origin_attribute_number :: "32 word"
  col_statistics_target :: "32 word"
  col_name :: VpsMetadataString
  col_type_namespace :: VpsMetadataString
  col_type_name :: VpsMetadataString
  col_domain_base_namespace :: VpsMetadataString
  col_domain_base_name :: VpsMetadataString
  col_collation_name :: VpsMetadataString
  col_default_expression_hash :: VpsMetadataString
  col_domain_default_hash :: VpsMetadataString
  col_domain_constraint_hash :: VpsMetadataString
  col_formatted_type :: VpsMetadataString
  col_type_category :: char
  col_type_kind :: char
  col_domain_base_category :: char
  col_domain_base_kind :: char
  col_generated_kind :: char
  col_identity_kind :: char
  col_storage_kind :: char
  col_compression_kind :: char
  col_collation_provider :: char
  col_default_kind :: char
  col_not_null :: bool
  col_dropped :: bool
  col_has_default :: bool
  col_domain_not_null :: bool
  col_domain_has_default :: bool
  col_collation_deterministic :: bool
  col_has_comment :: bool

record ('w, 'l) VpsColumnSet =
  set_allocator :: "'w VpsAllocator"
  set_columns :: "VpsColumnMetadata list"
  set_columns_memory :: "block option"
  set_column_count :: size_t
  set_visible_count :: size_t
  set_columns_bytes :: size_t
  set_text :: "'w VpsBuffer"
  set_logger :: "'l VpsLogger option"
  set_initialized :: bool

text \<open>Eleven numbers of four bytes and padding, ten strings of 24 bytes, ten characters and padding, seven flags.\<close>

abbreviation (input) sizeof_VpsColumnMetadata :: size_t where "sizeof_VpsColumnMetadata \<equiv> 328"

type_synonym column_cell = "u8 list option \<times> size_t"

section \<open>Operations\<close>

definition vps_metadata_optional_cell :: "('w, 'l) VpsMetadataRowSet \<Rightarrow> nat \<Rightarrow> nat \<Rightarrow> column_cell option" where
  "vps_metadata_optional_cell rowset row field =
     (case vps_metadata_rowset_cell rowset row field of
        (VPS_METADATA_OK, Some (val, len, null)) \<Rightarrow>
          if null then Some (None, len) else if val = None then None else Some (val, len)
      | _ \<Rightarrow> None)"

definition vps_metadata_char :: "u8 list \<Rightarrow> bool \<Rightarrow> char option" where
  "vps_metadata_char str allow_empty =
     (if length str \<noteq> 1 \<and> \<not> (allow_empty \<and> str = []) then None
      else Some (if str = [] then NUL else byte_char (hd str)))"

definition empty_columns :: "'w VpsAllocator \<Rightarrow> 'l VpsLogger option \<Rightarrow> 'w VpsBuffer \<Rightarrow> ('w, 'l) VpsColumnSet" where
  "empty_columns allocator logger str =
     \<lparr>set_allocator = allocator, set_columns = [], set_columns_memory = None, set_column_count = 0,
      set_visible_count = 0, set_columns_bytes = 0, set_text = str, set_logger = logger, set_initialized = True\<rparr>"

definition vps_column_set_init ::
    "'w VpsAllocator option \<Rightarrow> 'l VpsLogger option \<Rightarrow> VpsMetadataResult \<times> ('w, 'l) VpsColumnSet option" where
  "vps_column_set_init allocator logger =
     (if \<not> vps_allocator_is_valid allocator then (VPS_METADATA_INVALID_ARGUMENT, None)
      else case vps_buffer_init allocator VPS_METADATA_MAX_TOTAL_BYTES of
        (VPS_MEMORY_OK, Some str) \<Rightarrow> (VPS_METADATA_OK, Some (empty_columns (the allocator) logger str))
      | _ \<Rightarrow> (VPS_METADATA_OUT_OF_MEMORY, None))"

definition vps_column_set_reset :: "('w, 'l) VpsColumnSet \<Rightarrow> 'w \<Rightarrow> ('w, 'l) VpsColumnSet \<times> 'w" where
  "vps_column_set_reset columns w =
     (case (if set_initialized columns \<and> vps_allocator_is_valid (Some (set_allocator columns))
            then vps_memory_release (Some (set_allocator columns)) (set_columns_memory columns) (set_columns_bytes columns) w
            else (set_columns_memory columns, w)) of
        (_, w1) \<Rightarrow>
          (case vps_buffer_reset (set_text columns) w1 of
             (str, w2) \<Rightarrow>
               (let zeroed = (empty_columns (set_allocator columns) None str)\<lparr>set_initialized := False\<rparr>
                in if set_initialized columns
                   then case vps_column_set_init (Some (set_allocator columns)) (set_logger columns) of
                          (VPS_METADATA_OK, Some fresh) \<Rightarrow> (fresh, w2)
                        | _ \<Rightarrow> (zeroed, w2)
                   else (zeroed, w2))))"

definition vps_column_string_append ::
    "'w VpsBuffer \<Rightarrow> column_cell \<Rightarrow> 'w \<Rightarrow> VpsMetadataResult \<times> VpsMetadataString \<times> 'w VpsBuffer \<times> 'w" where
  "vps_column_string_append str cell w =
     (let target = \<lparr>string_offset = buf_size str, string_length = snd cell, string_present = fst cell \<noteq> None\<rparr>
      in if fst cell = None then (VPS_METADATA_OK, target, str, w)
         else if snd cell > VPS_METADATA_MAX_CELL_BYTES then (VPS_METADATA_LIMIT_EXCEEDED, target, str, w)
         else case vps_buffer_append str (fst cell) (snd cell) w of
           (result, str', w') \<Rightarrow>
             (if result = VPS_MEMORY_OK then VPS_METADATA_OK
              else if result = VPS_MEMORY_OUT_OF_MEMORY then VPS_METADATA_OUT_OF_MEMORY
              else VPS_METADATA_LIMIT_EXCEEDED, target, str', w'))"

text \<open>The strings of a column one after the other; the first failure ends the sequence.\<close>

fun column_strings_append ::
    "column_cell list \<Rightarrow> 'w VpsBuffer \<Rightarrow> 'w \<Rightarrow> VpsMetadataResult \<times> VpsMetadataString list \<times> 'w VpsBuffer \<times> 'w" where
  "column_strings_append [] str w = (VPS_METADATA_OK, [], str, w)"
| "column_strings_append (cell # left) str w =
     (case vps_column_string_append str cell w of
        (result, target, str1, w1) \<Rightarrow>
          if result \<noteq> VPS_METADATA_OK then (result, [], str1, w1)
          else case column_strings_append left str1 w1 of
            (result', targets, str2, w2) \<Rightarrow> (result', target # targets, str2, w2))"

definition string_fields :: "nat list" where
  "string_fields = [1, 5, 6, 29, 30, 18, 33, 36, 37, 38]"

definition zero_string :: VpsMetadataString where
  "zero_string = \<lparr>string_offset = 0, string_length = 0, string_present = False\<rparr>"

definition zero_column :: VpsColumnMetadata where
  "zero_column =
     \<lparr>col_attribute_number = 0, col_type_oid = 0, col_type_modifier = 0, col_type_namespace_oid = 0,
      col_domain_base_oid = 0, col_domain_base_modifier = 0, col_array_element_oid = 0, col_collation_oid = 0,
      col_origin_relation_oid = 0, col_origin_attribute_number = 0, col_statistics_target = 0,
      col_name = zero_string, col_type_namespace = zero_string, col_type_name = zero_string,
      col_domain_base_namespace = zero_string, col_domain_base_name = zero_string,
      col_collation_name = zero_string, col_default_expression_hash = zero_string,
      col_domain_default_hash = zero_string, col_domain_constraint_hash = zero_string,
      col_formatted_type = zero_string, col_type_category = NUL, col_type_kind = NUL,
      col_domain_base_category = NUL, col_domain_base_kind = NUL, col_generated_kind = NUL,
      col_identity_kind = NUL, col_storage_kind = NUL, col_compression_kind = NUL, col_collation_provider = NUL,
      col_default_kind = NUL, col_not_null = False, col_dropped = False, col_has_default = False,
      col_domain_not_null = False, col_domain_has_default = False, col_collation_deterministic = True,
      col_has_comment = False\<rparr>"

text \<open>A field that may be absent keeps its first value; a field that is there has to be readable.\<close>

definition optional_field :: "u8 list option \<Rightarrow> (u8 list \<Rightarrow> 'a option) \<Rightarrow> 'a \<Rightarrow> 'a option" where
  "optional_field cell reader first = (case cell of None \<Rightarrow> Some first | Some str \<Rightarrow> reader str)"

definition column_fields :: "u8 list option list \<Rightarrow> VpsColumnMetadata option" where
  "column_fields cells =
     do {
       attribute_number \<leftarrow> Option.bind (cells ! 0) vps_metadata_parse_int32;
       type_oid \<leftarrow> Option.bind (cells ! 2) vps_metadata_parse_uint32;
       type_modifier \<leftarrow> Option.bind (cells ! 3) vps_metadata_parse_int32;
       type_namespace_oid \<leftarrow> Option.bind (cells ! 4) vps_metadata_parse_uint32;
       (if cells ! 1 = None \<or> cells ! 5 = None \<or> cells ! 6 = None then None else Some ());
       type_category \<leftarrow> Option.bind (cells ! 7) (\<lambda>str. vps_metadata_char str False);
       type_kind \<leftarrow> Option.bind (cells ! 8) (\<lambda>str. vps_metadata_char str False);
       domain_base_oid \<leftarrow> Option.bind (cells ! 9) vps_metadata_parse_uint32;
       domain_base_modifier \<leftarrow> Option.bind (cells ! 10) vps_metadata_parse_int32;
       array_element_oid \<leftarrow> Option.bind (cells ! 11) vps_metadata_parse_uint32;
       not_null \<leftarrow> Option.bind (cells ! 12) vps_metadata_parse_bool;
       dropped \<leftarrow> Option.bind (cells ! 13) vps_metadata_parse_bool;
       has_default \<leftarrow> Option.bind (cells ! 14) vps_metadata_parse_bool;
       generated_kind \<leftarrow> Option.bind (cells ! 15) (\<lambda>str. vps_metadata_char str True);
       identity_kind \<leftarrow> Option.bind (cells ! 16) (\<lambda>str. vps_metadata_char str True);
       collation_oid \<leftarrow> Option.bind (cells ! 17) vps_metadata_parse_uint32;
       collation_provider \<leftarrow> optional_field (cells ! 19) (\<lambda>str. vps_metadata_char str False) NUL;
       collation_deterministic \<leftarrow> optional_field (cells ! 20) vps_metadata_parse_bool True;
       storage_kind \<leftarrow> Option.bind (cells ! 21) (\<lambda>str. vps_metadata_char str False);
       compression_kind \<leftarrow> Option.bind (cells ! 22) (\<lambda>str. vps_metadata_char str True);
       statistics_target \<leftarrow> Option.bind (cells ! 23) vps_metadata_parse_int32;
       has_comment \<leftarrow> Option.bind (cells ! 24) vps_metadata_parse_bool;
       origin_relation_oid \<leftarrow> Option.bind (cells ! 25) vps_metadata_parse_uint32;
       origin_attribute_number \<leftarrow> Option.bind (cells ! 26) vps_metadata_parse_int32;
       domain_not_null \<leftarrow> Option.bind (cells ! 27) vps_metadata_parse_bool;
       domain_base_category \<leftarrow> optional_field (cells ! 31) (\<lambda>str. vps_metadata_char str False) NUL;
       domain_base_kind \<leftarrow> optional_field (cells ! 32) (\<lambda>str. vps_metadata_char str False) NUL;
       default_kind \<leftarrow> Option.bind (cells ! 34) (\<lambda>str. vps_metadata_char str True);
       domain_has_default \<leftarrow> Option.bind (cells ! 35) vps_metadata_parse_bool;
       Some (zero_column\<lparr>col_attribute_number := attribute_number, col_type_oid := type_oid,
         col_type_modifier := type_modifier, col_type_namespace_oid := type_namespace_oid,
         col_type_category := type_category, col_type_kind := type_kind, col_domain_base_oid := domain_base_oid,
         col_domain_base_modifier := domain_base_modifier, col_array_element_oid := array_element_oid,
         col_not_null := not_null, col_dropped := dropped, col_has_default := has_default,
         col_generated_kind := generated_kind, col_identity_kind := identity_kind,
         col_collation_oid := collation_oid, col_collation_provider := collation_provider,
         col_collation_deterministic := collation_deterministic, col_storage_kind := storage_kind,
         col_compression_kind := compression_kind, col_statistics_target := statistics_target,
         col_has_comment := has_comment, col_origin_relation_oid := origin_relation_oid,
         col_origin_attribute_number := origin_attribute_number, col_domain_not_null := domain_not_null,
         col_domain_base_category := domain_base_category, col_domain_base_kind := domain_base_kind,
         col_default_kind := default_kind, col_domain_has_default := domain_has_default\<rparr>)
     }"

definition column_set_strings :: "VpsMetadataString list \<Rightarrow> VpsColumnMetadata \<Rightarrow> VpsColumnMetadata" where
  "column_set_strings targets column =
     column\<lparr>col_name := targets ! 0, col_type_namespace := targets ! 1, col_type_name := targets ! 2,
       col_domain_base_namespace := targets ! 3, col_domain_base_name := targets ! 4, col_collation_name := targets ! 5,
       col_default_expression_hash := targets ! 6, col_domain_default_hash := targets ! 7,
       col_domain_constraint_hash := targets ! 8, col_formatted_type := targets ! 9\<rparr>"

definition column_strings :: "VpsColumnMetadata \<Rightarrow> VpsMetadataString list" where
  "column_strings column =
     [col_name column, col_type_namespace column, col_type_name column, col_domain_base_namespace column,
      col_domain_base_name column, col_collation_name column, col_default_expression_hash column,
      col_domain_default_hash column, col_domain_constraint_hash column, col_formatted_type column]"

text \<open>The loop over the rows. It gathers the columns, and counts those that are not dropped.\<close>

fun column_rows ::
    "('w, 'l) VpsMetadataRowSet \<Rightarrow> nat list \<Rightarrow> VpsColumnMetadata list \<Rightarrow> size_t \<Rightarrow> 'w VpsBuffer \<Rightarrow> 'w \<Rightarrow>
     VpsMetadataResult \<times> VpsColumnMetadata list \<times> size_t \<times> 'w VpsBuffer \<times> 'w" where
  "column_rows rowset [] columns visible str w = (VPS_METADATA_OK, columns, visible, str, w)"
| "column_rows rowset (row # left) columns visible str w =
     (let cells = map (vps_metadata_optional_cell rowset row) [0..<39]
      in if None \<in> set cells then (VPS_METADATA_INVALID_RESULT, columns, visible, str, w)
         else case column_fields (map (fst \<circ> the) cells) of
           None \<Rightarrow> (VPS_METADATA_INVALID_RESULT, columns, visible, str, w)
         | Some column \<Rightarrow>
             (case column_strings_append (map (\<lambda>field. the (cells ! field)) string_fields) str w of
                (result, targets, str1, w1) \<Rightarrow>
                  if result \<noteq> VPS_METADATA_OK then (result, columns, visible, str1, w1)
                  else column_rows rowset left (columns @ [column_set_strings targets column])
                         (if col_dropped column then visible else visible + 1) str1 w1))"

definition vps_column_set_build ::
    "('w, 'l) VpsColumnSet option \<Rightarrow> ('w, 'l) VpsMetadataRowSet option \<Rightarrow> 'w \<Rightarrow>
     VpsMetadataResult \<times> ('w, 'l) VpsColumnSet option \<times> 'w" where
  "vps_column_set_build columns_ptr rowset_ptr w =
     (if columns_ptr = None \<or> \<not> set_initialized (the columns_ptr) \<or> rowset_ptr = None \<or>
         \<not> rows_initialized (the rowset_ptr) \<or> rows_field_count (the rowset_ptr) \<noteq> 39
      then (VPS_METADATA_INVALID_ARGUMENT, columns_ptr, w)
      else
        let columns = the columns_ptr; rowset = the rowset_ptr
        in case vps_size_multiply (rows_row_count rowset) sizeof_VpsColumnMetadata of
             (VPS_MEMORY_OK, Some columns_bytes) \<Rightarrow>
               (case vps_column_set_init (Some (set_allocator columns)) (set_logger columns) of
                  (VPS_METADATA_OK, Some candidate) \<Rightarrow>
                    (case (if columns_bytes \<noteq> 0
                           then vps_memory_allocate (Some (set_allocator candidate)) columns_bytes None w
                           else (VPS_MEMORY_OK, None, w)) of
                       (r1, memory, w1) \<Rightarrow>
                         if r1 \<noteq> VPS_MEMORY_OK
                         then (VPS_METADATA_OUT_OF_MEMORY, columns_ptr, snd (vps_column_set_reset candidate w1))
                         else case column_rows rowset [0..<unat (rows_row_count rowset)] [] 0 (set_text candidate) w1 of
                           (result, built, visible, str, w2) \<Rightarrow>
                             let candidate1 = candidate\<lparr>set_columns := built, set_columns_memory := memory,
                                   set_columns_bytes := columns_bytes, set_column_count := rows_row_count rowset,
                                   set_visible_count := visible, set_text := str\<rparr>
                             in if result \<noteq> VPS_METADATA_OK
                                then (result, columns_ptr, snd (vps_column_set_reset candidate1 w2))
                                else (VPS_METADATA_OK, Some candidate1, snd (vps_column_set_reset columns w2)))
                | _ \<Rightarrow> (VPS_METADATA_OUT_OF_MEMORY, columns_ptr, w))
           | _ \<Rightarrow> (VPS_METADATA_LIMIT_EXCEEDED, columns_ptr, w))"

definition vps_column_set_string ::
    "('w, 'l) VpsColumnSet \<Rightarrow> VpsMetadataString \<Rightarrow> VpsMetadataResult \<times> u8 list option" where
  "vps_column_set_string columns str =
     (if \<not> set_initialized columns \<or> \<not> string_present str \<or> string_offset str > buf_size (set_text columns) \<or>
         string_length str > buf_size (set_text columns) - string_offset str
      then (VPS_METADATA_INVALID_ARGUMENT, None)
      else (VPS_METADATA_OK,
            Some (take (unat (string_length str)) (drop (unat (string_offset str))
                    (case buf_data (set_text columns) of None \<Rightarrow> [] | Some d \<Rightarrow> d)))))"


section \<open>What the strings of a column show\<close>

definition string_shows :: "u8 list \<Rightarrow> VpsMetadataString \<Rightarrow> u8 list option \<Rightarrow> bool" where
  "string_shows txt str v \<longleftrightarrow> string_present str = (v \<noteq> None) \<and>
     (v \<noteq> None \<longrightarrow> unat (string_offset str) + unat (string_length str) \<le> length txt \<and>
        take (unat (string_length str)) (drop (unat (string_offset str)) txt) = the v)"

lemma string_shows_append: "string_shows txt str v \<Longrightarrow> string_shows (txt @ more_txt) str v"
  by (auto simp: string_shows_def)

definition cell_sized :: "column_cell \<Rightarrow> bool" where
  "cell_sized cell \<longleftrightarrow> (\<forall>v. fst cell = Some v \<longrightarrow> unat (snd cell) = length v)"

context allocator_contract
begin

lemma string_append_effect:
  assumes b: "buffer_in A inv live str w" and cell: "cell_sized cell"
    and run: "vps_column_string_append str cell w = (r, target, str', w')"
  shows "buffer_step A inv live (str, w) (str', w')"
    and "r = VPS_METADATA_OK \<Longrightarrow> (\<exists>ext. buffer_contents str' = buffer_contents str @ ext) \<and>
      string_shows (buffer_contents str') target (fst cell)"
proof -
  have "buffer_step A inv live (str, w) (str', w') \<and>
    (r = VPS_METADATA_OK \<longrightarrow> (\<exists>ext. buffer_contents str' = buffer_contents str @ ext) \<and>
       string_shows (buffer_contents str') target (fst cell))"
  proof (cases "fst cell = None \<or> snd cell > VPS_METADATA_MAX_CELL_BYTES")
    case True
    then show ?thesis
      using run b by (auto simp: vps_column_string_append_def string_shows_def Let_def split: if_splits intro: buffer_step_refl)
  next
    case False
    then obtain v where v: "fst cell = Some v" by auto
    have len: "unat (snd cell) = length v" using cell v by (simp add: cell_sized_def)
    obtain r1 b1 w1 where app: "vps_buffer_append str (Some v) (snd cell) w = (r1, b1, w1)" by (metis prod_cases3)
    note a = append_step [OF b app, unfolded len, simplified]
    have eq: "str' = b1" "w' = w1" "r = VPS_METADATA_OK \<longleftrightarrow> r1 = VPS_MEMORY_OK"
      "target = \<lparr>string_offset = buf_size str, string_length = snd cell, string_present = True\<rparr>"
      using run False v app by (auto simp: vps_column_string_append_def Let_def split: if_splits)
    have off: "unat (buf_size str) = length (buffer_contents str)"
      using b by (auto simp: buffer_in_def buffer_ok_def buffer_contents_def word_le_nat_alt split: option.splits)
    show ?thesis using a eq len off v by (auto simp: string_shows_def)
  qed
  then show "buffer_step A inv live (str, w) (str', w')"
    and "r = VPS_METADATA_OK \<Longrightarrow> (\<exists>ext. buffer_contents str' = buffer_contents str @ ext) \<and>
      string_shows (buffer_contents str') target (fst cell)" by blast+
qed

lemma strings_append_effect:
  assumes "buffer_in A inv live str w" and "list_all cell_sized cells"
    and "column_strings_append cells str w = (r, targets, str', w')"
  shows "buffer_step A inv live (str, w) (str', w') \<and>
    (r = VPS_METADATA_OK \<longrightarrow> (\<exists>ext. buffer_contents str' = buffer_contents str @ ext) \<and>
       list_all2 (string_shows (buffer_contents str')) targets (map fst cells))"
  using assms
proof (induction cells arbitrary: str w targets r str' w')
  case Nil
  then show ?case by (auto intro: buffer_step_refl)
next
  case (Cons cell cells)
  obtain r1 t1 str1 w1 where s: "vps_column_string_append str cell w = (r1, t1, str1, w1)" by (metis prod_cases4)
  have sized: "cell_sized cell" "list_all cell_sized cells" using Cons.prems(2) by simp_all
  note e1 = string_append_effect [OF Cons.prems(1) sized(1) s]
  show ?case
  proof (cases "r1 = VPS_METADATA_OK")
    case False
    then show ?thesis using Cons.prems(3) s e1(1) by auto
  next
    case True
    obtain r2 ts str2 w2 where rest: "column_strings_append cells str1 w1 = (r2, ts, str2, w2)" by (metis prod_cases4)
    have eq: "r = r2" "targets = t1 # ts" "str' = str2" "w' = w2" using Cons.prems(3) s True rest by auto
    note e2 = Cons.IH [OF buffer_step_in [OF e1(1)] sized(2) rest]
    have "string_shows (buffer_contents str2) t1 (fst cell)" if "r2 = VPS_METADATA_OK"
      using e1(2) [OF True] e2 that string_shows_append [of "buffer_contents str1" t1 "fst cell"] by auto
    then show ?thesis
      using e1 e2 True unfolding eq by (auto intro: buffer_step_trans)
  qed
qed

end

section \<open>What the columns show\<close>

text \<open>A column that shows a row: its numbers, characters and flags are those of the cells, and its strings are the
  bytes of their cells.\<close>

definition column_shows :: "u8 list \<Rightarrow> VpsColumnMetadata \<Rightarrow> u8 list option list \<Rightarrow> bool" where
  "column_shows txt column cells \<longleftrightarrow>
     (\<exists>column0. column_fields cells = Some column0 \<and> column = column_set_strings (column_strings column) column0) \<and>
     list_all2 (string_shows txt) (column_strings column) (map ((!) cells) string_fields)"

definition row_cells :: "('w, 'l) VpsMetadataRowSet \<Rightarrow> nat \<Rightarrow> u8 list option list" where
  "row_cells rs row = map (\<lambda>field. the (read_cell rs row field)) [0..<39]"

definition columns_blocks :: "('w, 'l) VpsColumnSet \<Rightarrow> nat multiset" where
  "columns_blocks cs = block_sizes (set_columns_memory cs) + buffer_blocks (set_text cs)"

definition columns_ok :: "('w, 'l) VpsColumnSet \<Rightarrow> bool" where
  "columns_ok cs \<longleftrightarrow> set_initialized cs \<and> buf_allocator (set_text cs) = set_allocator cs \<and> buffer_ok (set_text cs) \<and>
     sized_block (set_columns_memory cs) (set_columns_bytes cs)"

definition columns_show :: "('w, 'l) VpsColumnSet \<Rightarrow> ('w, 'l) VpsMetadataRowSet \<Rightarrow> bool" where
  "columns_show cs rs \<longleftrightarrow> set_column_count cs = rows_row_count rs \<and>
     list_all2 (\<lambda>column row. column_shows (buffer_contents (set_text cs)) column (row_cells rs row))
       (set_columns cs) [0..<unat (rows_row_count rs)]"

lemma column_shows_append: "column_shows txt column cells \<Longrightarrow> column_shows (txt @ more_txt) column cells"
  by (auto simp: column_shows_def string_shows_append elim!: list_all2_mono)

lemma length_strings [simp]: "length (column_strings column) = 10" "length string_fields = 10"
  by (simp_all add: column_strings_def string_fields_def)

lemma column_strings_set: "length targets = 10 \<Longrightarrow> column_strings (column_set_strings targets column) = targets"
  by (rule nth_equalityI) (auto simp: column_strings_def column_set_strings_def less_Suc_eq numeral_nat)

lemma optional_cell_read:
  assumes "rowset_ok rs" "vps_metadata_optional_cell rs row field = Some cell"
  shows "read_cell rs row field = Some (fst cell)" and "cell_sized cell"
proof -
  have in_range: "row < unat (rows_row_count rs)" "field < unat (rows_field_count rs)"
    using assms(2) by (auto simp: vps_metadata_optional_cell_def vps_metadata_rowset_cell_def not_less split: if_splits)
  let ?cell = "rows_cells rs ! (row * unat (rows_field_count rs) + field)"
  have "?cell \<in> set (rows_cells rs)" using assms(1) in_range index_less by (simp add: rowset_ok_def)
  then have w: "cell_within (unat (rows_bytes_size rs)) ?cell" "sized_block (rows_bytes rs) (rows_bytes_size rs)"
    using assms(1) by (auto simp: rowset_ok_def list_all_iff)
  note c = rowset_cell_exact [OF assms(1) in_range]
  show "read_cell rs row field = Some (fst cell)"
    using assms(2) by (auto simp: vps_metadata_optional_cell_def read_cell_def c Let_def split: if_splits option.splits)
  show "cell_sized cell"
    using assms(2) w
    by (auto simp: vps_metadata_optional_cell_def c Let_def cell_sized_def cell_within_def sized_block_def split: if_splits option.splits)
qed

lemma row_cells_optional:
  assumes "rowset_ok rs" "None \<notin> set (map (vps_metadata_optional_cell rs row) [0..<39])"
  shows "map (fst \<circ> the) (map (vps_metadata_optional_cell rs row) [0..<39]) = row_cells rs row"
    and "list_all cell_sized (map (\<lambda>field. the (map (vps_metadata_optional_cell rs row) [0..<39] ! field)) string_fields)"
    and "map fst (map (\<lambda>field. the (map (vps_metadata_optional_cell rs row) [0..<39] ! field)) string_fields) =
      map ((!) (row_cells rs row)) string_fields"
proof -
  have some: "\<exists>cell. vps_metadata_optional_cell rs row field = Some cell" if "field < 39" for field
    using assms(2) that by (metis atLeastLessThan_iff image_eqI list.set_map not_None_eq set_upt zero_le)
  then have read: "fst (the (vps_metadata_optional_cell rs row field)) = the (read_cell rs row field)"
    "cell_sized (the (vps_metadata_optional_cell rs row field))" if "field < 39" for field
    using optional_cell_read [OF assms(1)] that by (metis option.sel)+
  then show "map (fst \<circ> the) (map (vps_metadata_optional_cell rs row) [0..<39]) = row_cells rs row"
    by (simp add: row_cells_def)
  have fields39: "field < 39" if "field \<in> set string_fields" for field using that by (auto simp: string_fields_def)
  then show "list_all cell_sized (map (\<lambda>field. the (map (vps_metadata_optional_cell rs row) [0..<39] ! field)) string_fields)"
    using read(2) by (auto simp: list_all_iff)
  show "map fst (map (\<lambda>field. the (map (vps_metadata_optional_cell rs row) [0..<39] ! field)) string_fields) =
      map ((!) (row_cells rs row)) string_fields"
    using read(1) fields39 by (auto simp: row_cells_def)
qed

context allocator_contract
begin

lemma column_rows_effect:
  assumes ok: "rowset_ok rs" and b: "buffer_in A inv live str w"
    and run: "column_rows rs rows columns visible str w = (r, columns', visible', str', w')"
  shows "buffer_step A inv live (str, w) (str', w') \<and>
    (r = VPS_METADATA_OK \<longrightarrow> (\<exists>new ext. buffer_contents str' = buffer_contents str @ ext \<and> columns' = columns @ new \<and>
       list_all2 (\<lambda>column row. column_shows (buffer_contents str') column (row_cells rs row)) new rows))"
  using b run
proof (induction rows arbitrary: columns visible str w)
  case Nil
  then show ?case by (auto intro: buffer_step_refl)
next
  case (Cons row rows)
  let ?cells = "map (vps_metadata_optional_cell rs row) [0..<39]"
  let ?strings = "map (\<lambda>field. the (?cells ! field)) string_fields"
  note run1 = Cons.prems(2)[unfolded column_rows.simps Let_def]
  show ?case
  proof (cases "None \<in> set ?cells \<or> column_fields (map (fst \<circ> the) ?cells) = None")
    case True
    then have "r \<noteq> VPS_METADATA_OK \<and> str' = str \<and> w' = w" using run1 by (auto simp del: map_map split: if_splits)
    then show ?thesis using Cons.prems(1) by (auto intro: buffer_step_refl)
  next
    case False
    then have present: "None \<notin> set ?cells" by blast
    note rc = row_cells_optional [OF ok present]
    from False rc(1) obtain column where column: "column_fields (map (fst \<circ> the) ?cells) = Some column"
      "column_fields (row_cells rs row) = Some column" by auto
    obtain r1 targets str1 w1 where sa: "column_strings_append ?strings str w = (r1, targets, str1, w1)" by (metis prod_cases4)
    note se = strings_append_effect [OF Cons.prems(1) rc(2) sa]
    note run2 = run1 [unfolded if_not_P [OF present] column(1) option.case sa prod.case]
    show ?thesis
    proof (cases "r1 = VPS_METADATA_OK")
      case False
      then show ?thesis using run2 se by auto
    next
      case True
      define column1 where "column1 = column_set_strings targets column"
      have rest: "column_rows rs rows (columns @ [column1]) (if col_dropped column then visible else visible + 1) str1 w1 =
          (r, columns', visible', str', w')" using run2 True by (simp add: column1_def)
      have shown: "list_all2 (string_shows (buffer_contents str1)) targets (map ((!) (row_cells rs row)) string_fields)"
        using se True unfolding rc(3) [symmetric] by blast
      then have "length targets = 10" by (auto dest: list_all2_lengthD simp: string_fields_def)
      then have col: "column_shows (buffer_contents str1) column1 (row_cells rs row)"
        using shown column(2) by (auto simp: column_shows_def column1_def column_strings_set)
      have step: "buffer_step A inv live (str, w) (str1, w1)" using se by blast
      note ih = Cons.IH [OF buffer_step_in [OF step] rest]
      have "\<exists>new ext. buffer_contents str' = buffer_contents str @ ext \<and> columns' = columns @ new \<and>
          list_all2 (\<lambda>column row. column_shows (buffer_contents str') column (row_cells rs row)) new (row # rows)"
        if "r = VPS_METADATA_OK"
      proof -
        from se True obtain ext1 where x1: "buffer_contents str1 = buffer_contents str @ ext1" by blast
        from ih that obtain new ext where n: "buffer_contents str' = buffer_contents str1 @ ext"
          "columns' = (columns @ [column1]) @ new"
          "list_all2 (\<lambda>column row. column_shows (buffer_contents str') column (row_cells rs row)) new rows" by blast
        with x1 column_shows_append [OF col] show ?thesis
          by (intro exI [of _ "column1 # new"] exI [of _ "ext1 @ ext"]) simp
      qed
      with ih buffer_step_trans [OF step] show ?thesis by blast
    qed
  qed
qed

lemma column_init_exact:
  "vps_column_set_init (Some A) logger =
     (VPS_METADATA_OK, Some (empty_columns A logger
        \<lparr>buf_allocator = A, buf_data = None, buf_size = 0, buf_capacity = 0, buf_limit = VPS_METADATA_MAX_TOTAL_BYTES\<rparr>))"
  using valid by (simp add: vps_column_set_init_def vps_buffer_init_def)

lemma column_reset_effect:
  assumes "inv w" "columns_ok cs" "set_allocator cs = A"
  shows "inv (snd (vps_column_set_reset cs w)) \<and> live (snd (vps_column_set_reset cs w)) = live w - columns_blocks cs"
proof -
  obtain m w1 where r1: "vps_memory_release (Some A) (set_columns_memory cs) (set_columns_bytes cs) w = (m, w1)" by fastforce
  obtain s w2 where r2: "vps_buffer_reset (set_text cs) w1 = (s, w2)" by fastforce
  have ini: "set_initialized cs" "buf_allocator (set_text cs) = A" using assms by (simp_all add: columns_ok_def)
  have "snd (vps_column_set_reset cs w) = w2"
    using ini assms(3) valid r1 r2 by (simp add: vps_column_set_reset_def column_init_exact)
  moreover have "inv w1 \<and> live w1 = live w - block_sizes (set_columns_memory cs)" by (rule release_sizes [OF assms(1) r1])
  moreover have "inv w2 \<and> live w2 = live w1 - buffer_blocks (set_text cs)" if "inv w1"
    using buffer_reset [OF that ini(2) r2] by simp
  ultimately show ?thesis by (simp add: columns_blocks_def)
qed

lemma column_build_effect:
  assumes i: "inv w" and cs: "columns_ok cs" "set_allocator cs = A" "columns_blocks cs \<subseteq># live w" and rs: "rowset_ok rs"
    and run: "vps_column_set_build (Some cs) (Some rs) w = (result, out, w')"
  shows "\<exists>cs'. out = Some cs' \<and> inv w' \<and> columns_ok cs' \<and> set_allocator cs' = A \<and>
    live w' = live w - columns_blocks cs + columns_blocks cs' \<and>
    (if result = VPS_METADATA_OK then columns_show cs' rs else cs' = cs)"
proof (cases "rows_field_count rs = 39")
  case False
  then show ?thesis using run cs i by (simp add: vps_column_set_build_def)
next
  case True
  have ini: "set_initialized cs" "rows_initialized rs" using cs(1) rs by (simp_all add: columns_ok_def rowset_ok_def)
  define c where "c = (empty_columns A (set_logger cs)
    \<lparr>buf_allocator = A, buf_data = None, buf_size = 0, buf_capacity = 0, buf_limit = VPS_METADATA_MAX_TOTAL_BYTES\<rparr> :: (_, _) VpsColumnSet)"
  have ci: "vps_column_set_init (Some A) (set_logger cs) = (VPS_METADATA_OK, Some c)" by (simp add: c_def column_init_exact)
  have c: "columns_ok c" "set_allocator c = A" "columns_blocks c = {#}"
    by (simp_all add: c_def empty_columns_def columns_ok_def columns_blocks_def block_sizes_def buffer_blocks_def
        buffer_ok_def sized_block_def)
  have "unat (rows_row_count rs) \<le> 65536" using rs by (simp add: rowset_ok_def word_le_nat_alt)
  then have small: "unat (rows_row_count rs) * unat (328 :: size_t) < 2 ^ 64" by simp
  then have mult: "vps_size_multiply (rows_row_count rs) 328 = (VPS_MEMORY_OK, Some (rows_row_count rs * 328))"
    using vps_size_multiply_guard [of "rows_row_count rs" 328] by (cases "rows_row_count rs = 0") (auto simp: vps_size_multiply_def)
  let ?n = "rows_row_count rs * 328"
  obtain r1 m w1 where al: "(if ?n \<noteq> 0 then vps_memory_allocate (Some A) ?n None w else (VPS_MEMORY_OK, None, w)) = (r1, m, w1)"
    by (metis prod_cases3)
  note ae = optional_allocate [OF i al]
  obtain r2 built visible str w2 where rows: "column_rows rs [0..<unat (rows_row_count rs)] [] 0 (set_text c) w1 =
      (r2, built, visible, str, w2)" by (metis prod_cases5)
  define c1 where "c1 = c\<lparr>set_columns := built, set_columns_memory := m, set_columns_bytes := ?n,
      set_column_count := rows_row_count rs, set_visible_count := visible, set_text := str\<rparr>"
  have run1: "(if r1 \<noteq> VPS_MEMORY_OK then (VPS_METADATA_OUT_OF_MEMORY, Some cs, snd (vps_column_set_reset c w1))
      else if r2 \<noteq> VPS_METADATA_OK then (r2, Some cs, snd (vps_column_set_reset c1 w2))
      else (VPS_METADATA_OK, Some c1, snd (vps_column_set_reset cs w2))) = (result, out, w')"
    using run True ini cs(2) mult ci al c(2) rows by (simp add: vps_column_set_build_def c1_def Let_def split: if_splits)
  show ?thesis
  proof (cases "r1 = VPS_MEMORY_OK")
    case False
    then show ?thesis using run1 ae column_reset_effect [OF _ c(1,2), of w1] c(3) cs by auto
  next
    case True
    then have ae': "inv w1" "sized_block m ?n" "live w1 = live w + block_sizes m" using ae by simp_all
    have b: "buffer_in A inv live (set_text c) w1" and bc: "buffer_blocks (set_text c) = {#}" "buffer_contents (set_text c) = []"
      using c ae'(1) by (simp_all add: buffer_in_def columns_ok_def columns_blocks_def c_def empty_columns_def buffer_contents_def)
    note re = column_rows_effect [OF rs b rows]
    have str: "inv w2" "buf_allocator str = A" "buffer_ok str" "live w2 = live w + block_sizes m + buffer_blocks str"
      using re bc ae'(3) by (auto simp: buffer_step_def buffer_in_def)
    have c1: "columns_ok c1" "set_allocator c1 = A" "columns_blocks c1 = block_sizes m + buffer_blocks str"
      using c(1,2) str ae'(2) by (simp_all add: c1_def columns_ok_def columns_blocks_def)
    show ?thesis
    proof (cases "r2 = VPS_METADATA_OK")
      case False
      then show ?thesis
        using run1 True str(4) column_reset_effect [OF str(1) c1(1,2)] c1(3) cs by (auto simp: add.assoc)
    next
      case ok: True
      then have eq: "result = VPS_METADATA_OK" "out = Some c1" "w' = snd (vps_column_set_reset cs w2)"
        using run1 True by simp_all
      have "list_all2 (\<lambda>column row. column_shows (buffer_contents str) column (row_cells rs row)) built
          [0..<unat (rows_row_count rs)]" using re ok by auto
      then have "columns_show c1 rs" by (simp add: columns_show_def c1_def)
      moreover have "inv w' \<and> live w' = live w - columns_blocks cs + columns_blocks c1"
        using column_reset_effect [OF str(1) cs(1,2)] str(4) cs(3) c1(3) eq(3)
        by (simp add: add.assoc subset_mset.add_diff_assoc2)
      ultimately show ?thesis using eq c1 by simp
    qed
  qed
qed

end

text \<open>Reading a string of a column.\<close>

lemma column_string_exact:
  assumes "columns_ok cs" "string_shows (buffer_contents (set_text cs)) str v"
  shows "vps_column_set_string cs str =
    (case v of None \<Rightarrow> (VPS_METADATA_INVALID_ARGUMENT, None) | Some x \<Rightarrow> (VPS_METADATA_OK, Some x))"
proof (cases v)
  case None
  then show ?thesis using assms(2) by (simp add: vps_column_set_string_def string_shows_def)
next
  case (Some x)
  let ?b = "set_text cs"
  let ?d = "case buf_data ?b of None \<Rightarrow> [] | Some d \<Rightarrow> d"
  have c: "buffer_contents ?b = take (unat (buf_size ?b)) ?d" "length (buffer_contents ?b) = unat (buf_size ?b)"
    using assms(1) by (auto simp: columns_ok_def buffer_ok_def buffer_contents_def word_le_nat_alt split: option.splits)
  have within: "unat (string_offset str) + unat (string_length str) \<le> unat (buf_size ?b)"
    and x: "take (unat (string_length str)) (drop (unat (string_offset str)) (take (unat (buf_size ?b)) ?d)) = x"
    and present: "string_present str" using assms(2) Some c by (auto simp: string_shows_def)
  have "string_offset str \<le> buf_size ?b" using within by (simp add: word_le_nat_alt)
  moreover from this have "string_length str \<le> buf_size ?b - string_offset str"
    using within by (simp add: word_le_nat_alt unat_sub)
  moreover have "unat (string_length str) \<le> unat (buf_size ?b) - unat (string_offset str)" using within by arith
  then have "take (unat (string_length str)) (drop (unat (string_offset str)) ?d) = x"
    using x by (simp add: drop_take min_def)
  ultimately show ?thesis
    using assms(1) present Some by (simp add: vps_column_set_string_def columns_ok_def not_less)
qed

section \<open>The columns are exact\<close>


text \<open>One row of the column query, with every number \<open>1\<close>, every flag \<open>t\<close> and every text the two together.\<close>

definition example_rows :: "(heap, unit) VpsMetadataRowSet" where
  "example_rows =
     \<lparr>rows_allocator = system_allocator,
      rows_cells = map (\<lambda>field. if field \<in> set string_fields then \<lparr>cell_offset = 0, cell_length = 2, cell_is_null = field = 18\<rparr>
          else if field \<in> {12, 13, 14, 20, 24, 27, 35} then \<lparr>cell_offset = 1, cell_length = 1, cell_is_null = False\<rparr>
          else \<lparr>cell_offset = 0, cell_length = 1, cell_is_null = False\<rparr>) [0..<39],
      rows_cells_memory = Some (replicate 936 0), rows_bytes = Some [49, 116], rows_row_count = 1,
      rows_field_count = 39, rows_cell_count = 39, rows_cell_bytes = 936, rows_bytes_size = 2, rows_logger = None,
      rows_initialized = True\<rparr>"

definition example_columns :: "(heap, unit) VpsColumnSet" where
  "example_columns = empty_columns system_allocator None
     \<lparr>buf_allocator = system_allocator, buf_data = None, buf_size = 0, buf_capacity = 0, buf_limit = VPS_METADATA_MAX_TOTAL_BYTES\<rparr>"


end
