(* ===== verification/Vps_Sql_Text.thy ===== *)
theory Vps_Sql_Text
  imports Vps_Row_Identity
begin

text \<open>
  Pieces of SQL text that several builders write: decimal numbers as \<open>snprintf\<close> prints them, and quoted identifiers.
  The reader of a quoted identifier is the rule of the server: a doubled quote stands for a quote, a single one ends
  the name. A statement is a list of pieces, each of which has one rendering.
\<close>

section \<open>Decimal numbers\<close>

fun c_decimal :: "nat \<Rightarrow> string" where
  "c_decimal n = (if n < 10 then [char_of (48 + n)] else c_decimal (n div 10) @ [char_of (48 + n mod 10)])"

declare c_decimal.simps [simp del]

lemma code_digit: "d < 10 \<Longrightarrow> char_code (char_of (48 + d) :: char) = 48 + d" for d :: nat
  by (simp add: of_char_of)

lemma c_decimal_digits: "list_all c_isdigit (c_decimal n)"
proof (induction n rule: c_decimal.induct)
  case (1 n)
  have d: "c_isdigit (char_of (48 + d))" if "d < 10" for d :: nat
    using that by (simp add: c_isdigit_def char_between_def code_digit)
  show ?case using 1 d by (subst c_decimal.simps) auto
qed

lemma c_decimal_not_empty [simp]: "c_decimal n \<noteq> []"
  by (subst c_decimal.simps) simp

lemma decimal_value_decimal: "decimal_value (c_decimal n) = int n"
proof (induction n rule: c_decimal.induct)
  case (1 n)
  have "10 * int (n div 10) + int (n mod 10) = int n" by (metis mult.commute div_mult_mod_eq of_nat_add of_nat_mult of_nat_numeral)
  with 1 show ?case
    by (subst c_decimal.simps) (auto simp: decimal_value_def code_digit)
qed

lemma c_decimal_inject [simp]: "c_decimal m = c_decimal n \<longleftrightarrow> m = n"
  by (metis decimal_value_decimal of_nat_eq_iff)

lemma length_c_decimal: "n < 10 ^ k \<Longrightarrow> 0 < k \<Longrightarrow> length (c_decimal n) \<le> k"
proof (induction k arbitrary: n)
  case (Suc k)
  show ?case
  proof (cases "n < 10")
    case True
    then show ?thesis by (subst c_decimal.simps) simp
  next
    case False
    then have "n div 10 < 10 ^ k" "0 < k" using Suc.prems by (auto simp: less_mult_imp_div_less mult.commute intro: ccontr)
    with Suc.IH [of "n div 10"] False show ?thesis by (subst c_decimal.simps) simp
  qed
qed simp

section \<open>Quoted identifiers\<close>

abbreviation (input) QUOTE :: u8 where "QUOTE \<equiv> 34"

definition quote_chars :: "u8 list \<Rightarrow> u8 list" where
  "quote_chars name = concat (map (\<lambda>b. if b = QUOTE then [QUOTE, QUOTE] else [b]) name)"

definition quote_name :: "u8 list \<Rightarrow> u8 list" where
  "quote_name name = [QUOTE] @ quote_chars name @ [QUOTE]"

fun read_quoted_chars :: "u8 list \<Rightarrow> (u8 list \<times> u8 list) option" where
  "read_quoted_chars [] = None"
| "read_quoted_chars [b] = (if b = QUOTE then Some ([], []) else None)"
| "read_quoted_chars (b # c # left) =
     (if b = QUOTE
      then if c = QUOTE then map_option (\<lambda>(name, rest). (QUOTE # name, rest)) (read_quoted_chars left)
           else Some ([], c # left)
      else map_option (\<lambda>(name, rest). (b # name, rest)) (read_quoted_chars (c # left)))"

definition read_quoted :: "u8 list \<Rightarrow> (u8 list \<times> u8 list) option" where
  "read_quoted sql = (case sql of [] \<Rightarrow> None | b # left \<Rightarrow> if b = QUOTE then read_quoted_chars left else None)"

text \<open>Whatever the name is, the server reads back the name and nothing of it as SQL.\<close>

lemma read_quoted_name:
  assumes "rest = [] \<or> hd rest \<noteq> QUOTE"
  shows "read_quoted (quote_name name @ rest) = Some (name, rest)"
proof -
  have "read_quoted_chars (quote_chars name @ QUOTE # rest) = Some (name, rest)"
  proof (induction name)
    case Nil
    then show ?case using assms by (cases rest) (auto simp: quote_chars_def)
  next
    case (Cons b name)
    obtain c left where l: "quote_chars name @ QUOTE # rest = c # left"
      by (metis append_is_Nil_conv list.discI list.exhaust)
    show ?case using Cons l by (auto simp: quote_chars_def)
  qed
  then show ?thesis by (simp add: read_quoted_def quote_name_def)
qed

lemma quote_name_inject: "quote_name a = quote_name b \<longleftrightarrow> a = b"
  by (metis append_Nil2 option.inject prod.inject read_quoted_name)

section \<open>Statements\<close>

text \<open>A statement is fixed text, identifiers, and numbered parameters; no value is ever part of its text.\<close>

datatype sql_piece = Fixed string | Name "u8 list" | Param nat

fun render_piece :: "sql_piece \<Rightarrow> u8 list" where
  "render_piece (Fixed s) = map char_byte s"
| "render_piece (Name n) = quote_name n"
| "render_piece (Param k) = map char_byte (CHR ''$'' # c_decimal k)"

definition render :: "sql_piece list \<Rightarrow> u8 list" where
  "render pieces = concat (map render_piece pieces)"

lemma render_simps [simp]: "render [] = []" "render (p # ps) = render_piece p @ render ps" "render (ps @ qs) = render ps @ render qs"
  by (simp_all add: render_def)

fun piece_params :: "sql_piece \<Rightarrow> nat list" where
  "piece_params (Param k) = [k]"
| "piece_params _ = []"

definition params_of :: "sql_piece list \<Rightarrow> nat list" where
  "params_of pieces = concat (map piece_params pieces)"

lemma params_of_simps [simp]: "params_of [] = []" "params_of (p # ps) = piece_params p @ params_of ps"
  "params_of (ps @ qs) = params_of ps @ params_of qs"
  by (simp_all add: params_of_def)

end
