(* ===== verification/Vps_Types.thy ===== *)
theory Vps_Types
  imports Vps_Columns Vps_Plan_Wire Vps_Sql_Text
begin

text \<open>
  Types: the registry that selects a codec and its capabilities for a column (\<open>src/src/vps_type_registry.c\<close>) and the
  decoder of a value in text form (\<open>src/src/vps_type_codec.c\<close>).

  A decoded value either points into the column or owns its bytes; here it holds the bytes it points to. The rounding
  of \<open>strtod\<close> is a parameter: a function from the text to the number, how many characters were read and whether it was
  out of range. A \<open>double\<close> is a value of the type \<open>'d\<close>, and \<open>None\<close> is a \<open>double\<close> whose bytes are all zero.
\<close>

section \<open>The registry\<close>

datatype VpsCodecId =
    VPS_CODEC_BOOLEAN
  | VPS_CODEC_INTEGER
  | VPS_CODEC_FLOAT
  | VPS_CODEC_NUMERIC_TEXT
  | VPS_CODEC_MONEY_TEXT
  | VPS_CODEC_TEXT
  | VPS_CODEC_BYTEA
  | VPS_CODEC_DATETIME_TEXT
  | VPS_CODEC_UUID_TEXT
  | VPS_CODEC_JSON_TEXT
  | VPS_CODEC_ARRAY_TEXT
  | VPS_CODEC_ENUM_TEXT
  | VPS_CODEC_RANGE_TEXT
  | VPS_CODEC_COMPOSITE_TEXT
  | VPS_CODEC_USER_TEXT
  | VPS_CODEC_OUT_OF_RANGE int

record VpsTypeSelection =
  sel_declared_type_oid :: u32
  sel_effective_type_oid :: u32
  sel_codec :: VpsCodecId
  sel_capabilities :: u32
  sel_domain :: bool

record 'l VpsTypeRegistry =
  reg_version :: u32
  reg_logger :: "'l VpsLogger option"
  reg_initialized :: bool

abbreviation (input) VPS_TYPE_REGISTRY_VERSION :: u32 where "VPS_TYPE_REGISTRY_VERSION \<equiv> 1"
abbreviation (input) VPS_CODEC_CAP_READ :: u32 where "VPS_CODEC_CAP_READ \<equiv> 1"
abbreviation (input) VPS_CODEC_CAP_EQUALITY :: u32 where "VPS_CODEC_CAP_EQUALITY \<equiv> 2"
abbreviation (input) VPS_CODEC_CAP_ORDER :: u32 where "VPS_CODEC_CAP_ORDER \<equiv> 4"
abbreviation (input) VPS_CODEC_CAP_DML :: u32 where "VPS_CODEC_CAP_DML \<equiv> 8"
abbreviation (input) VPS_CODEC_CAP_PUSHDOWN_EXACT :: u32 where "VPS_CODEC_CAP_PUSHDOWN_EXACT \<equiv> 16"
abbreviation (input) VPS_CODEC_CAP_BINARY :: u32 where "VPS_CODEC_CAP_BINARY \<equiv> 32"

definition vps_codec_name :: "VpsCodecId \<Rightarrow> string" where
  "vps_codec_name codec =
     (case codec of
        VPS_CODEC_BOOLEAN \<Rightarrow> ''boolean''
      | VPS_CODEC_INTEGER \<Rightarrow> ''integer''
      | VPS_CODEC_FLOAT \<Rightarrow> ''float''
      | VPS_CODEC_NUMERIC_TEXT \<Rightarrow> ''numeric_text''
      | VPS_CODEC_MONEY_TEXT \<Rightarrow> ''money_text''
      | VPS_CODEC_TEXT \<Rightarrow> ''text''
      | VPS_CODEC_BYTEA \<Rightarrow> ''bytea''
      | VPS_CODEC_DATETIME_TEXT \<Rightarrow> ''datetime_text''
      | VPS_CODEC_UUID_TEXT \<Rightarrow> ''uuid_text''
      | VPS_CODEC_JSON_TEXT \<Rightarrow> ''json_text''
      | VPS_CODEC_ARRAY_TEXT \<Rightarrow> ''array_text''
      | VPS_CODEC_ENUM_TEXT \<Rightarrow> ''enum_text''
      | VPS_CODEC_RANGE_TEXT \<Rightarrow> ''range_text''
      | VPS_CODEC_COMPOSITE_TEXT \<Rightarrow> ''composite_text''
      | VPS_CODEC_USER_TEXT \<Rightarrow> ''user_text''
      | VPS_CODEC_OUT_OF_RANGE _ \<Rightarrow> ''unknown'')"

definition vps_codec_code :: "VpsCodecId \<Rightarrow> u64" where
  "vps_codec_code codec =
     (case codec of
        VPS_CODEC_BOOLEAN \<Rightarrow> 0 | VPS_CODEC_INTEGER \<Rightarrow> 1 | VPS_CODEC_FLOAT \<Rightarrow> 2 | VPS_CODEC_NUMERIC_TEXT \<Rightarrow> 3
      | VPS_CODEC_MONEY_TEXT \<Rightarrow> 4 | VPS_CODEC_TEXT \<Rightarrow> 5 | VPS_CODEC_BYTEA \<Rightarrow> 6 | VPS_CODEC_DATETIME_TEXT \<Rightarrow> 7
      | VPS_CODEC_UUID_TEXT \<Rightarrow> 8 | VPS_CODEC_JSON_TEXT \<Rightarrow> 9 | VPS_CODEC_ARRAY_TEXT \<Rightarrow> 10 | VPS_CODEC_ENUM_TEXT \<Rightarrow> 11
      | VPS_CODEC_RANGE_TEXT \<Rightarrow> 12 | VPS_CODEC_COMPOSITE_TEXT \<Rightarrow> 13 | VPS_CODEC_USER_TEXT \<Rightarrow> 14
      | VPS_CODEC_OUT_OF_RANGE n \<Rightarrow> of_int n)"

definition vps_type_registry_init :: "'l VpsLogger option \<Rightarrow> VpsMetadataResult \<times> 'l VpsTypeRegistry" where
  "vps_type_registry_init logger =
     (VPS_METADATA_OK, \<lparr>reg_version = VPS_TYPE_REGISTRY_VERSION, reg_logger = logger, reg_initialized = True\<rparr>)"

definition vps_type_name_equals :: "('w, 'l) VpsColumnSet \<Rightarrow> VpsMetadataString \<Rightarrow> string \<Rightarrow> bool" where
  "vps_type_name_equals columns str expected \<longleftrightarrow>
     vps_column_set_string columns str = (VPS_METADATA_OK, Some (ascii expected))"

definition vps_type_is_pg_catalog :: "('w, 'l) VpsColumnSet \<Rightarrow> VpsMetadataString \<Rightarrow> bool" where
  "vps_type_is_pg_catalog columns namespace_name = vps_type_name_equals columns namespace_name ''pg_catalog''"

definition vps_type_is_any :: "('w, 'l) VpsColumnSet \<Rightarrow> VpsMetadataString \<Rightarrow> string list \<Rightarrow> bool" where
  "vps_type_is_any columns name names = list_ex (vps_type_name_equals columns name) names"

definition integer_names :: "string list" where
  "integer_names = [''int2'', ''int4'', ''int8'', ''oid'', ''xid'', ''cid'']"

definition float_names :: "string list" where
  "float_names = [''float4'', ''float8'']"

definition text_names :: "string list" where
  "text_names = [''text'', ''varchar'', ''bpchar'', ''name'', ''xml'', ''inet'', ''cidr'', ''macaddr'', ''macaddr8'',
     ''bit'', ''varbit'']"

definition datetime_names :: "string list" where
  "datetime_names = [''date'', ''time'', ''timetz'', ''timestamp'', ''timestamptz'', ''interval'']"

definition json_names :: "string list" where
  "json_names = [''json'', ''jsonb'']"

definition vps_type_log :: "'l VpsTypeRegistry \<Rightarrow> VpsTypeSelection \<Rightarrow> 'l VpsTypeRegistry" where
  "vps_type_log registry selection =
     registry\<lparr>reg_logger := log_emit_strict (reg_logger registry) VPS_LOG_LEVEL_DEBUG
       [LogStr VPS_LOG_FIELD_OPERATION ''type_registry_select'', LogStr VPS_LOG_FIELD_STATUS ''passed'',
        LogStr VPS_LOG_FIELD_EXPECTED_CLASS (vps_codec_name (sel_codec selection)),
        LogNum VPS_LOG_FIELD_FORMAT_VERSION (ucast (reg_version registry)),
        LogNum VPS_LOG_FIELD_PRESENCE_MASK (ucast (sel_capabilities selection)),
        LogNum VPS_LOG_FIELD_TYPE_OID (ucast (sel_effective_type_oid selection)),
        LogNum VPS_LOG_FIELD_CODEC_ID (vps_codec_code (sel_codec selection))]\<rparr>"

text \<open>The chain of tests that chooses the codec and what it can do.\<close>

definition type_select_codec ::
    "('w, 'l) VpsColumnSet \<Rightarrow> VpsColumnMetadata \<Rightarrow> bool \<Rightarrow> VpsMetadataString \<Rightarrow> VpsMetadataString \<Rightarrow> char \<Rightarrow> VpsCodecId \<times> u32" where
  "type_select_codec columns column is_domain namespace_name type_name type_kind =
     (let pg_catalog = vps_type_is_pg_catalog columns namespace_name;
          named = (\<lambda>name. pg_catalog \<and> vps_type_name_equals columns type_name name);
          named_any = (\<lambda>names. pg_catalog \<and> vps_type_is_any columns type_name names)
      in if type_kind = CHR ''e''
         then (VPS_CODEC_ENUM_TEXT, VPS_CODEC_CAP_READ OR VPS_CODEC_CAP_EQUALITY OR VPS_CODEC_CAP_DML)
         else if type_kind = CHR ''r'' \<or> type_kind = CHR ''m''
         then (VPS_CODEC_RANGE_TEXT, VPS_CODEC_CAP_READ OR VPS_CODEC_CAP_DML)
         else if type_kind = CHR ''c'' then (VPS_CODEC_COMPOSITE_TEXT, VPS_CODEC_CAP_READ)
         else if col_type_category column = CHR ''A'' \<and> \<not> is_domain
         then (VPS_CODEC_ARRAY_TEXT, VPS_CODEC_CAP_READ OR VPS_CODEC_CAP_DML)
         else if named ''bool''
         then (VPS_CODEC_BOOLEAN, VPS_CODEC_CAP_READ OR VPS_CODEC_CAP_EQUALITY OR VPS_CODEC_CAP_ORDER OR
               VPS_CODEC_CAP_DML OR VPS_CODEC_CAP_PUSHDOWN_EXACT)
         else if named_any integer_names
         then (VPS_CODEC_INTEGER, VPS_CODEC_CAP_READ OR VPS_CODEC_CAP_EQUALITY OR VPS_CODEC_CAP_ORDER OR
               VPS_CODEC_CAP_DML OR VPS_CODEC_CAP_PUSHDOWN_EXACT)
         else if named_any float_names then (VPS_CODEC_FLOAT, VPS_CODEC_CAP_READ OR VPS_CODEC_CAP_DML)
         else if named ''numeric'' then (VPS_CODEC_NUMERIC_TEXT, VPS_CODEC_CAP_READ OR VPS_CODEC_CAP_DML)
         else if named ''money'' then (VPS_CODEC_MONEY_TEXT, VPS_CODEC_CAP_READ OR VPS_CODEC_CAP_DML)
         else if named ''bytea''
         then (VPS_CODEC_BYTEA, VPS_CODEC_CAP_READ OR VPS_CODEC_CAP_EQUALITY OR VPS_CODEC_CAP_DML OR
               VPS_CODEC_CAP_PUSHDOWN_EXACT OR VPS_CODEC_CAP_BINARY)
         else if named ''uuid''
         then (VPS_CODEC_UUID_TEXT, VPS_CODEC_CAP_READ OR VPS_CODEC_CAP_EQUALITY OR VPS_CODEC_CAP_ORDER OR
               VPS_CODEC_CAP_DML OR VPS_CODEC_CAP_PUSHDOWN_EXACT)
         else if named_any datetime_names
         then (VPS_CODEC_DATETIME_TEXT, VPS_CODEC_CAP_READ OR VPS_CODEC_CAP_EQUALITY OR VPS_CODEC_CAP_ORDER OR
               VPS_CODEC_CAP_DML)
         else if named_any json_names then (VPS_CODEC_JSON_TEXT, VPS_CODEC_CAP_READ OR VPS_CODEC_CAP_DML)
         else if named_any text_names then (VPS_CODEC_TEXT, VPS_CODEC_CAP_READ OR VPS_CODEC_CAP_DML)
         else (VPS_CODEC_USER_TEXT, VPS_CODEC_CAP_READ))"

definition vps_type_registry_select ::
    "'l VpsTypeRegistry \<Rightarrow> ('w, 'l) VpsColumnSet \<Rightarrow> nat \<Rightarrow>
     VpsMetadataResult \<times> VpsTypeSelection option \<times> 'l VpsTypeRegistry" where
  "vps_type_registry_select registry columns column_index =
     (if \<not> reg_initialized registry \<or> reg_version registry \<noteq> VPS_TYPE_REGISTRY_VERSION \<or>
         \<not> set_initialized columns \<or> column_index \<ge> unat (set_column_count columns)
      then (VPS_METADATA_INVALID_ARGUMENT, None, registry)
      else
        let column = set_columns columns ! column_index; is_domain = col_type_kind column = CHR ''d'';
            oid = (if is_domain then col_domain_base_oid column else col_type_oid column);
            namespace_name = (if is_domain then col_domain_base_namespace column else col_type_namespace column);
            type_name = (if is_domain then col_domain_base_name column else col_type_name column);
            type_kind = (if is_domain then col_domain_base_kind column else col_type_kind column)
        in if \<not> string_present namespace_name \<or> \<not> string_present type_name \<or> oid = 0
           then (VPS_METADATA_INVALID_RESULT,
                 Some \<lparr>sel_declared_type_oid = col_type_oid column, sel_effective_type_oid = oid,
                       sel_codec = VPS_CODEC_BOOLEAN, sel_capabilities = 0, sel_domain = is_domain\<rparr>, registry)
           else
             let chosen = type_select_codec columns column is_domain namespace_name type_name type_kind;
                 selection = \<lparr>sel_declared_type_oid = col_type_oid column, sel_effective_type_oid = oid,
                   sel_codec = fst chosen, sel_capabilities = snd chosen, sel_domain = is_domain\<rparr>
             in (VPS_METADATA_OK, Some selection, vps_type_log registry selection))"

definition vps_type_registry_builtin_oid_codec :: "u32 \<Rightarrow> VpsCodecId" where
  "vps_type_registry_builtin_oid_codec type_oid =
     (if type_oid = 16 then VPS_CODEC_BOOLEAN
      else if type_oid \<in> {20, 21, 23, 26} then VPS_CODEC_INTEGER
      else if type_oid \<in> {700, 701} then VPS_CODEC_FLOAT
      else if type_oid = 1700 then VPS_CODEC_NUMERIC_TEXT
      else if type_oid = 790 then VPS_CODEC_MONEY_TEXT
      else if type_oid = 17 then VPS_CODEC_BYTEA
      else if type_oid \<in> {1082, 1083, 1114, 1184, 1186, 1266} then VPS_CODEC_DATETIME_TEXT
      else if type_oid = 2950 then VPS_CODEC_UUID_TEXT
      else if type_oid \<in> {114, 3802} then VPS_CODEC_JSON_TEXT
      else VPS_CODEC_TEXT)"

section \<open>The decoder\<close>

datatype VpsDecodedKind =
    VPS_DECODED_NULL
  | VPS_DECODED_INTEGER
  | VPS_DECODED_REAL
  | VPS_DECODED_TEXT
  | VPS_DECODED_BLOB

datatype VpsTypeCodecResult =
    VPS_TYPE_CODEC_OK
  | VPS_TYPE_CODEC_INVALID_ARGUMENT
  | VPS_TYPE_CODEC_MALFORMED
  | VPS_TYPE_CODEC_RANGE
  | VPS_TYPE_CODEC_LIMIT
  | VPS_TYPE_CODEC_OUT_OF_MEMORY

record ('w, 'd) VpsDecodedValue =
  dec_kind :: VpsDecodedKind
  dec_bytes :: "u8 list option"
  dec_length :: size_t
  dec_integer :: u64
  dec_real :: "'d option"
  dec_owned :: "'w VpsOwnedMemory"
  dec_initialized :: bool

abbreviation (input) VPS_TYPE_CODEC_MAX_COLUMN_BYTES :: size_t where "VPS_TYPE_CODEC_MAX_COLUMN_BYTES \<equiv> 16777216"

definition vps_hex_digit :: "char \<Rightarrow> int" where
  "vps_hex_digit c =
     (if char_between (CHR ''0'') (CHR ''9'') c then int (char_code c) - 48
      else if char_between (CHR ''a'') (CHR ''f'') c then int (char_code c) - 97 + 10
      else if char_between (CHR ''A'') (CHR ''F'') c then int (char_code c) - 65 + 10
      else - 1)"

definition vps_uuid_valid :: "string \<Rightarrow> bool" where
  "vps_uuid_valid str \<longleftrightarrow> length str = 36 \<and>
     list_all (\<lambda>index. if index \<in> {8, 13, 18, 23} then str ! index = CHR ''-''
       else \<not> (vps_hex_digit (str ! index) < 0 \<or> char_between (CHR ''A'') (CHR ''F'') (str ! index))) [0..<36]"

definition vps_parse_integer :: "string \<Rightarrow> VpsTypeCodecResult \<times> u64 option" where
  "vps_parse_integer str =
     (if str = [] \<or> length str \<ge> 64 then (VPS_TYPE_CODEC_MALFORMED, None)
      else case c_strtoll str of
        (number, consumed, out_of_range) \<Rightarrow>
          if out_of_range then (VPS_TYPE_CODEC_RANGE, None)
          else if consumed \<noteq> length str then (VPS_TYPE_CODEC_MALFORMED, None)
          else (VPS_TYPE_CODEC_OK, Some (of_int number)))"

definition vps_float_special :: "string \<Rightarrow> bool" where
  "vps_float_special str \<longleftrightarrow> str = ''NaN'' \<or> str = ''Infinity'' \<or> str = ''-Infinity''"

definition vps_parse_real :: "(string \<Rightarrow> 'd \<times> nat \<times> bool) \<Rightarrow> string \<Rightarrow> VpsTypeCodecResult \<times> 'd option" where
  "vps_parse_real strtod str =
     (if str = [] \<or> length str \<ge> 128 then (VPS_TYPE_CODEC_MALFORMED, None)
      else case strtod (takeWhile (\<lambda>c. c \<noteq> NUL) str) of
        (number, consumed, out_of_range) \<Rightarrow>
          if out_of_range then (VPS_TYPE_CODEC_RANGE, None)
          else if consumed \<noteq> length str then (VPS_TYPE_CODEC_MALFORMED, None)
          else (VPS_TYPE_CODEC_OK, Some number))"

definition vps_type_codec_for_oid :: "u32 \<Rightarrow> VpsCodecId" where
  "vps_type_codec_for_oid type_oid = vps_type_registry_builtin_oid_codec type_oid"

text \<open>The loop over pairs of hexadecimal digits. It writes as it reads, and stops at the first bad pair.\<close>

fun bytea_digits :: "string \<Rightarrow> nat \<Rightarrow> block option \<Rightarrow> bool \<times> block option" where
  "bytea_digits (c # d # left) index target =
     (let high = vps_hex_digit c; low = vps_hex_digit d
      in if high < 0 \<or> low < 0 then (False, target)
         else bytea_digits left (Suc index)
                (map_option (\<lambda>blk. blk[index := ucast (push_bit 4 (of_int high :: 32 word) OR of_int low)]) target))"
| "bytea_digits left index target = (True, target)"

definition zero_decoded :: "'w VpsAllocator \<Rightarrow> ('w, 'd) VpsDecodedValue" where
  "zero_decoded allocator =
     \<lparr>dec_kind = VPS_DECODED_NULL, dec_bytes = None, dec_length = 0, dec_integer = 0, dec_real = None,
      dec_owned = \<lparr>owned_allocator = allocator, owned_memory = None, owned_size = 0, owned_flag = False\<rparr>,
      dec_initialized = False\<rparr>"

definition vps_decoded_value_reset :: "('w, 'd) VpsDecodedValue \<Rightarrow> 'w \<Rightarrow> ('w, 'd) VpsDecodedValue \<times> 'w" where
  "vps_decoded_value_reset decoded w =
     (case (if dec_initialized decoded then vps_owned_memory_release (dec_owned decoded) w else (dec_owned decoded, w)) of
        (owned, w') \<Rightarrow> (zero_decoded (owned_allocator owned), w'))"

definition codec_bytea ::
    "('w, 'd) VpsDecodedValue \<Rightarrow> string \<Rightarrow> 'w \<Rightarrow> VpsTypeCodecResult \<times> ('w, 'd) VpsDecodedValue \<times> 'w" where
  "codec_bytea decoded str w =
     (if length str < 2 \<or> str ! 0 \<noteq> CHR 0x5c \<or> str ! 1 \<noteq> CHR ''x'' \<or> odd (length str - 2)
      then (VPS_TYPE_CODEC_MALFORMED, decoded, w)
      else
        let bytes = (length str - 2) div 2
        in case (if bytes \<noteq> 0 then vps_owned_memory_allocate (dec_owned decoded) (of_nat bytes) w
                 else (VPS_MEMORY_OK, dec_owned decoded, w)) of
             (r, owned, w') \<Rightarrow>
               if r \<noteq> VPS_MEMORY_OK then (VPS_TYPE_CODEC_OUT_OF_MEMORY, decoded\<lparr>dec_owned := owned\<rparr>, w')
               else case bytea_digits (drop 2 str) 0 (owned_memory owned) of
                 (good, target) \<Rightarrow>
                   (if good then VPS_TYPE_CODEC_OK else VPS_TYPE_CODEC_MALFORMED,
                    decoded\<lparr>dec_owned := owned\<lparr>owned_memory := target\<rparr>, dec_kind := VPS_DECODED_BLOB,
                      dec_bytes := target, dec_length := of_nat bytes\<rparr>, w'))"

definition codec_switch ::
    "(string \<Rightarrow> 'd \<times> nat \<times> bool) \<Rightarrow> VpsCodecId \<Rightarrow> ('w, 'd) VpsDecodedValue \<Rightarrow> string \<Rightarrow> 'w \<Rightarrow>
     VpsTypeCodecResult \<times> ('w, 'd) VpsDecodedValue \<times> 'w" where
  "codec_switch strtod codec decoded str w =
     (if codec = VPS_CODEC_BOOLEAN
      then if length str \<noteq> 1 \<or> (str ! 0 \<noteq> CHR ''t'' \<and> str ! 0 \<noteq> CHR ''f'') then (VPS_TYPE_CODEC_MALFORMED, decoded, w)
           else (VPS_TYPE_CODEC_OK,
                 decoded\<lparr>dec_kind := VPS_DECODED_INTEGER, dec_integer := (if str ! 0 = CHR ''t'' then 1 else 0)\<rparr>, w)
      else if codec = VPS_CODEC_INTEGER
      then case vps_parse_integer str of
             (result, number) \<Rightarrow>
               (result, decoded\<lparr>dec_kind := VPS_DECODED_INTEGER,
                  dec_integer := (case number of None \<Rightarrow> dec_integer decoded | Some n \<Rightarrow> n)\<rparr>, w)
      else if codec = VPS_CODEC_FLOAT
      then if vps_float_special str then (VPS_TYPE_CODEC_OK, decoded\<lparr>dec_kind := VPS_DECODED_TEXT\<rparr>, w)
           else (case vps_parse_real strtod str of
                   (result, number) \<Rightarrow>
                     (result, decoded\<lparr>dec_kind := VPS_DECODED_REAL,
                        dec_real := (case number of None \<Rightarrow> dec_real decoded | Some x \<Rightarrow> Some x)\<rparr>, w))
      else if codec = VPS_CODEC_BYTEA then codec_bytea decoded str w
      else if codec = VPS_CODEC_UUID_TEXT
      then (if \<not> vps_uuid_valid str then VPS_TYPE_CODEC_MALFORMED else VPS_TYPE_CODEC_OK,
            decoded\<lparr>dec_kind := VPS_DECODED_TEXT\<rparr>, w)
      else (VPS_TYPE_CODEC_OK, decoded\<lparr>dec_kind := VPS_DECODED_TEXT\<rparr>, w))"

definition vps_type_codec_decode ::
    "(string \<Rightarrow> 'd \<times> nat \<times> bool) \<Rightarrow> 'w VpsAllocator option \<Rightarrow> VpsCodecId \<Rightarrow> VpsClientColumnView option \<Rightarrow> 'w \<Rightarrow>
     VpsTypeCodecResult \<times> ('w, 'd) VpsDecodedValue option \<times> 'w" where
  "vps_type_codec_decode strtod allocator codec column_ptr w =
     (if allocator = None \<or> column_ptr = None \<or> \<not> vps_allocator_is_valid allocator \<or>
         (\<not> column_is_null (the column_ptr) \<and> column_length (the column_ptr) \<noteq> 0 \<and> column_data (the column_ptr) = None) \<or>
         column_length (the column_ptr) > VPS_TYPE_CODEC_MAX_COLUMN_BYTES
      then (if column_ptr \<noteq> None \<and> column_length (the column_ptr) > VPS_TYPE_CODEC_MAX_COLUMN_BYTES
            then VPS_TYPE_CODEC_LIMIT else VPS_TYPE_CODEC_INVALID_ARGUMENT, None, w)
      else
        let column = the column_ptr; decoded = (zero_decoded (the allocator))\<lparr>dec_initialized := True\<rparr>
        in if column_is_null column then (VPS_TYPE_CODEC_OK, Some decoded, w)
           else
             let str = take (unat (column_length column)) (case column_data column of None \<Rightarrow> [] | Some s \<Rightarrow> s)
             in case codec_switch strtod codec
                       (decoded\<lparr>dec_bytes := map_option (ascii \<circ> take (unat (column_length column))) (column_data column),
                          dec_length := column_length column\<rparr>) str w of
                  (result, decoded1, w1) \<Rightarrow>
                    if result \<noteq> VPS_TYPE_CODEC_OK
                    then case vps_decoded_value_reset decoded1 w1 of (decoded2, w2) \<Rightarrow> (result, Some decoded2, w2)
                    else (VPS_TYPE_CODEC_OK, Some decoded1, w1))"

definition vps_type_codec_result_name :: "VpsTypeCodecResult \<Rightarrow> string" where
  "vps_type_codec_result_name result =
     (case result of
        VPS_TYPE_CODEC_OK \<Rightarrow> ''ok''
      | VPS_TYPE_CODEC_INVALID_ARGUMENT \<Rightarrow> ''invalid_argument''
      | VPS_TYPE_CODEC_MALFORMED \<Rightarrow> ''malformed''
      | VPS_TYPE_CODEC_RANGE \<Rightarrow> ''range''
      | VPS_TYPE_CODEC_LIMIT \<Rightarrow> ''limit''
      | VPS_TYPE_CODEC_OUT_OF_MEMORY \<Rightarrow> ''out_of_memory'')"


section \<open>Hexadecimal values\<close>

lemma hex_digit_value:
  "vps_plan_hex_value c = (if vps_hex_digit c < 0 then None else Some (of_int (vps_hex_digit c)))"
  "vps_hex_digit c < 16"
proof -
  have b: "char_byte c - of_nat k = of_int (int (char_code c) - int k)" for k
    by (simp add: char_byte_def)
  have "char_byte c - char_byte (CHR ''a'') + 10 = of_int (int (char_code c) - 97 + 10)"
    "char_byte c - char_byte (CHR ''A'') + 10 = of_int (int (char_code c) - 65 + 10)"
    "char_byte c - char_byte (CHR ''0'') = of_int (int (char_code c) - 48)"
    by (simp_all add: char_byte_def)
  then show "vps_plan_hex_value c = (if vps_hex_digit c < 0 then None else Some (of_int (vps_hex_digit c)))"
    by (auto simp: vps_plan_hex_value_def vps_hex_digit_def char_between_def)
  show "vps_hex_digit c < 16" by (auto simp: vps_hex_digit_def char_between_def)
qed

lemma hex_pair_byte:
  assumes "0 \<le> h" "h < 16" "0 \<le> l" "l < 16"
  shows "ucast (push_bit 4 (of_int h :: 32 word) OR of_int l) = (push_bit 4 (of_int h) OR of_int l :: u8)"
  by (rule bit_eqI) (auto simp: bit_simps dest: bit_imp_le_length)

lemma bytea_digits_unhex:
  assumes "even (length str)" "length blk = index + length str div 2"
  shows "fst (bytea_digits str index (Some blk)) = (plan_unhex str \<noteq> None) \<and>
    (\<forall>wire. plan_unhex str = Some wire \<longrightarrow> snd (bytea_digits str index (Some blk)) = Some (take index blk @ wire))"
  using assms
proof (induction str arbitrary: index blk rule: induct_list012)
  case (3 c d rest)
  define b :: u8 where "b = ucast (push_bit 4 (of_int (vps_hex_digit c) :: 32 word) OR of_int (vps_hex_digit d))"
  show ?case
  proof (cases "vps_hex_digit c < 0 \<or> vps_hex_digit d < 0")
    case True
    then show ?thesis by (auto simp: hex_digit_value(1) Let_def)
  next
    case False
    have "index < length blk" using "3.prems" by simp
    then have up: "take (Suc index) (blk[index := b]) = take index blk @ [b]" by (rule take_Suc_update)
    have byte: "b = push_bit 4 (of_int (vps_hex_digit c)) OR of_int (vps_hex_digit d)"
      unfolding b_def using False hex_digit_value(2) by (intro hex_pair_byte) (auto simp: not_less)
    have run: "bytea_digits (c # d # rest) index (Some blk) = bytea_digits rest (Suc index) (Some (blk[index := b]))"
      using False by (simp add: Let_def b_def)
    have un: "plan_unhex (c # d # rest) = map_option (\<lambda>wire. b # wire) (plan_unhex rest)"
      using False by (simp add: hex_digit_value(1) byte)
    have "fst (bytea_digits rest (Suc index) (Some (blk[index := b]))) = (plan_unhex rest \<noteq> None) \<and>
        (\<forall>wire. plan_unhex rest = Some wire \<longrightarrow>
           snd (bytea_digits rest (Suc index) (Some (blk[index := b]))) = Some (take (Suc index) (blk[index := b]) @ wire))"
      using "3.prems" by (intro "3.IH"(1)) simp_all
    then show ?thesis unfolding run un using up by auto
  qed
qed auto

lemma bytea_digits_length: "map_option length (snd (bytea_digits str index target)) = map_option length target"
  by (induction str index target rule: bytea_digits.induct) (simp_all add: Let_def option.map_comp comp_def)

text \<open>The text of a byte string: a backslash, the letter \<open>x\<close>, and two digits per byte, in either case.\<close>

definition bytea_image :: "string \<Rightarrow> u8 list \<Rightarrow> bool" where
  "bytea_image str bytes \<longleftrightarrow> take 2 str = [CHR 0x5c, CHR ''x''] \<and>
     map (\<lambda>c. char_byte (vps_log_ascii_lower c)) (drop 2 str) = plan_hex bytes"

lemma bytea_image_unhex:
  assumes "\<not> (length str < 2 \<or> str ! 0 \<noteq> CHR 0x5c \<or> str ! 1 \<noteq> CHR ''x'' \<or> odd (length str - 2))"
  shows "bytea_image str bytes \<longleftrightarrow> plan_unhex (drop 2 str) = Some bytes"
proof -
  from assms obtain c d left where "str = c # d # left" by (cases str; cases "tl str") auto
  with assms show ?thesis by (auto simp: bytea_image_def plan_unhex_iff)
qed

lemma bytea_image_shape:
  assumes "bytea_image str bytes"
  shows "\<not> (length str < 2 \<or> str ! 0 \<noteq> CHR 0x5c \<or> str ! 1 \<noteq> CHR ''x'' \<or> odd (length str - 2))"
    and "length bytes = (length str - 2) div 2"
proof -
  obtain c d left where "str = c # d # left"
    using assms by (cases str rule: list.exhaust; cases "tl str") (auto simp: bytea_image_def)
  then have "c = CHR 0x5c" "d = CHR ''x''" "map (\<lambda>c. char_byte (vps_log_ascii_lower c)) left = plan_hex bytes" "str = c # d # left"
    using assms by (auto simp: bytea_image_def)
  moreover from this(3) have "length left = 2 * length bytes" by (metis length_map length_plan_hex)
  ultimately show "\<not> (length str < 2 \<or> str ! 0 \<noteq> CHR 0x5c \<or> str ! 1 \<noteq> CHR ''x'' \<or> odd (length str - 2))"
    and "length bytes = (length str - 2) div 2" by simp_all
qed

section \<open>Integers\<close>

text \<open>The texts of integers: blanks, an optional sign and digits.\<close>

definition integer_image :: "string \<Rightarrow> int \<Rightarrow> bool" where
  "integer_image str n \<longleftrightarrow> (\<exists>blanks sign digits. str = blanks @ sign @ digits \<and> list_all c_isspace blanks \<and>
     sign \<in> {[], ''-'', ''+''} \<and> digits \<noteq> [] \<and> list_all c_isdigit digits \<and>
     n = (if sign = ''-'' then - decimal_value digits else decimal_value digits))"

lemma digit_not_blank: "c_isdigit c \<Longrightarrow> \<not> c_isspace c \<and> c \<noteq> CHR ''-'' \<and> c \<noteq> CHR ''+''"
  by (auto simp: c_isdigit_def c_isspace_def char_between_def)

lemma sign_not_blank: "\<not> c_isspace (CHR ''-'')" "\<not> c_isspace (CHR ''+'')"
  by (simp_all add: c_isspace_def)

lemma strtoll_image:
  assumes "str = blanks @ sign @ digits" "list_all c_isspace blanks" "sign \<in> {[], ''-'', ''+''}" "digits \<noteq> []"
    "list_all c_isdigit digits" "n = (if sign = ''-'' then - decimal_value digits else decimal_value digits)"
  shows "c_strtoll str = (if n > INT64_MAX then (INT64_MAX, length str, True)
    else if n < INT64_MIN then (INT64_MIN, length str, True) else (n, length str, False))"
proof -
  obtain d ds where d: "digits = d # ds" "c_isdigit d" using assms(4,5) by (cases digits) auto
  note nb = digit_not_blank [OF d(2)]
  have blanks: "takeWhile c_isspace str = blanks"
    using assms(2,3) nb sign_not_blank unfolding assms(1) d(1) by (auto simp: list_all_iff takeWhile_append)
  have rest: "drop (length blanks) str = sign @ digits" using assms(1) by simp
  have signed: "(sign @ digits \<noteq> [] \<and> (hd (sign @ digits) = CHR ''-'' \<or> hd (sign @ digits) = CHR ''+'')) = (sign \<noteq> [])"
    "(sign @ digits \<noteq> [] \<and> hd (sign @ digits) = CHR ''-'') = (sign = ''-'')"
    "(if sign \<noteq> [] then tl (sign @ digits) else sign @ digits) = digits"
    using assms(3) nb d by auto
  have all: "takeWhile c_isdigit digits = digits" using assms(5) by (simp add: list_all_iff)
  have len: "length blanks + of_bool (sign \<noteq> []) + length digits = length str"
    using assms(1,3) by auto
  show ?thesis
    unfolding c_strtoll_def Let_def blanks rest signed all len assms(6) using assms(4) by simp
qed

lemma takeWhile_full: "length (takeWhile P xs) = length xs \<Longrightarrow> takeWhile P xs = xs"
  by (metis order_refl takeWhile_eq_take take_all)

lemma strtoll_consumes:
  assumes run: "c_strtoll str = (m, length str, overflow)" and "str \<noteq> []"
  obtains n where "integer_image str n"
proof -
  define blanks where "blanks = takeWhile c_isspace str"
  define rest where "rest = drop (length blanks) str"
  define sign where "sign = (if rest \<noteq> [] \<and> (hd rest = CHR ''-'' \<or> hd rest = CHR ''+'') then [hd rest] else [])"
  define digits where "digits = takeWhile c_isdigit (drop (length sign) rest)"
  have str: "str = blanks @ rest" by (simp add: rest_def blanks_def dropWhile_eq_drop [symmetric])
  have rest: "rest = sign @ drop (length sign) rest" by (cases rest) (simp_all add: sign_def)
  have after: "(if rest \<noteq> [] \<and> (hd rest = CHR ''-'' \<or> hd rest = CHR ''+'') then tl rest else rest) = drop (length sign) rest"
    by (simp add: sign_def drop_Suc)
  have consumed: "fst (snd (c_strtoll str)) = (if digits = [] then 0 else length blanks + length sign + length digits)"
    unfolding c_strtoll_def Let_def blanks_def [symmetric] rest_def [symmetric] after digits_def [symmetric]
    by (simp add: sign_def)
  have d: "digits \<noteq> []" using consumed run assms(2) by auto
  have "length blanks + length sign + length digits = length str" using consumed run d by simp
  moreover have "length str = length blanks + length rest" by (rule arg_cong [OF str, of length, unfolded length_append])
  moreover have "length rest = length sign + length (drop (length sign) rest)"
    by (rule arg_cong [OF rest, of length, unfolded length_append])
  ultimately have "length digits = length (drop (length sign) rest)" by linarith
  then have full: "digits = drop (length sign) rest" unfolding digits_def by (rule takeWhile_full)
  have "rest = sign @ digits" unfolding full by (rule rest)
  then have "str = blanks @ sign @ digits" using str by simp
  moreover have "list_all c_isspace blanks" "list_all c_isdigit digits"
    by (auto simp: blanks_def digits_def list_all_iff dest: set_takeWhileD)
  moreover have "sign \<in> {[], ''-'', ''+''}" by (auto simp: sign_def)
  ultimately have "integer_image str (if sign = ''-'' then - decimal_value digits else decimal_value digits)"
    using d unfolding integer_image_def by blast
  then show thesis by (rule that)
qed

text \<open>The reader of integers accepts exactly the texts of integers that fit 64 bits and 63 characters.\<close>

lemma parse_integer_exact:
  "vps_parse_integer str = (VPS_TYPE_CODEC_OK, Some n) \<longleftrightarrow> length str < 64 \<and> integer_image str (sint n)"
proof
  assume ok: "vps_parse_integer str = (VPS_TYPE_CODEC_OK, Some n)"
  obtain m consumed overflow where run: "c_strtoll str = (m, consumed, overflow)" by (metis prod_cases3)
  from ok run have c: "consumed = length str" "\<not> overflow" "n = of_int m" "str \<noteq> []" "length str < 64"
    by (auto simp: vps_parse_integer_def split: if_splits)
  with run c obtain i where i: "integer_image str i" by (metis strtoll_consumes)
  then obtain blanks sign digits where "str = blanks @ sign @ digits" "list_all c_isspace blanks" "sign \<in> {[], ''-'', ''+''}"
      "digits \<noteq> []" "list_all c_isdigit digits" "i = (if sign = ''-'' then - decimal_value digits else decimal_value digits)"
    unfolding integer_image_def by blast
  from strtoll_image [OF this] run c have "m = i" "i \<le> INT64_MAX" "INT64_MIN \<le> i" by (auto split: if_splits)
  then have "sint n = i" using c(3) by (simp add: sint_sbintrunc' signed_take_bit_int_eq_self)
  with i c show "length str < 64 \<and> integer_image str (sint n)" by simp
next
  assume h: "length str < 64 \<and> integer_image str (sint n)"
  then obtain blanks sign digits where img: "str = blanks @ sign @ digits" "list_all c_isspace blanks" "sign \<in> {[], ''-'', ''+''}"
      "digits \<noteq> []" "list_all c_isdigit digits" "sint n = (if sign = ''-'' then - decimal_value digits else decimal_value digits)"
    unfolding integer_image_def by blast
  have "sint n \<le> INT64_MAX" "INT64_MIN \<le> sint n" using sint_ge [of n] sint_lt [of n] by simp_all
  with strtoll_image [OF img] have "c_strtoll str = (sint n, length str, False)" by auto
  moreover have "str \<noteq> []" using img by simp
  ultimately show "vps_parse_integer str = (VPS_TYPE_CODEC_OK, Some n)" using h by (simp add: vps_parse_integer_def)
qed

section \<open>What the decoder reads\<close>

text \<open>A decoded value as the module sees it, and the specification of what a text means to a codec.\<close>

datatype 'd codec_value = NullValue | IntegerValue int | RealValue "'d option" | TextValue "u8 list" | BlobValue "u8 list"

definition pointed_bytes :: "u8 list option \<Rightarrow> u8 list" where
  "pointed_bytes p = (case p of None \<Rightarrow> [] | Some b \<Rightarrow> b)"

definition decoded_value :: "('w, 'd) VpsDecodedValue \<Rightarrow> 'd codec_value" where
  "decoded_value d =
     (case dec_kind d of
        VPS_DECODED_NULL \<Rightarrow> NullValue
      | VPS_DECODED_INTEGER \<Rightarrow> IntegerValue (sint (dec_integer d))
      | VPS_DECODED_REAL \<Rightarrow> RealValue (dec_real d)
      | VPS_DECODED_TEXT \<Rightarrow> TextValue (take (unat (dec_length d)) (pointed_bytes (dec_bytes d)))
      | VPS_DECODED_BLOB \<Rightarrow> BlobValue (take (unat (dec_length d)) (pointed_bytes (dec_bytes d))))"

definition codec_reads :: "(string \<Rightarrow> 'd \<times> nat \<times> bool) \<Rightarrow> VpsCodecId \<Rightarrow> string \<Rightarrow> 'd codec_value \<Rightarrow> bool" where
  "codec_reads strtod codec str v \<longleftrightarrow>
     (case codec of
        VPS_CODEC_BOOLEAN \<Rightarrow> str = ''t'' \<and> v = IntegerValue 1 \<or> str = ''f'' \<and> v = IntegerValue 0
      | VPS_CODEC_INTEGER \<Rightarrow> length str < 64 \<and> (\<exists>n :: 64 word. integer_image str (sint n) \<and> v = IntegerValue (sint n))
      | VPS_CODEC_FLOAT \<Rightarrow>
          if str \<in> {''NaN'', ''Infinity'', ''-Infinity''} then v = TextValue (ascii str)
          else str \<noteq> [] \<and> length str < 128 \<and>
            (\<exists>x. strtod (takeWhile (\<lambda>c. c \<noteq> NUL) str) = (x, length str, False) \<and> v = RealValue (Some x))
      | VPS_CODEC_BYTEA \<Rightarrow> (\<exists>bytes. bytea_image str bytes \<and> v = BlobValue bytes)
      | VPS_CODEC_UUID_TEXT \<Rightarrow> vps_uuid_valid str \<and> v = TextValue (ascii str)
      | _ \<Rightarrow> v = TextValue (ascii str))"

definition fresh_decoded :: "'w VpsAllocator \<Rightarrow> u8 list option \<Rightarrow> size_t \<Rightarrow> ('w, 'd) VpsDecodedValue" where
  "fresh_decoded A bytes len =
     (zero_decoded A)\<lparr>dec_initialized := True, dec_bytes := bytes, dec_length := len\<rparr>"

text \<open>What a switch over the codecs leaves: the value of the text, or a failure that is the memory's when the text means
  something.\<close>

definition codec_outcome ::
    "(string \<Rightarrow> 'd \<times> nat \<times> bool) \<Rightarrow> VpsCodecId \<Rightarrow> string \<Rightarrow> VpsTypeCodecResult \<Rightarrow> 'd codec_value \<Rightarrow> bool" where
  "codec_outcome strtod codec str result v \<longleftrightarrow>
     (result = VPS_TYPE_CODEC_OK \<longrightarrow> codec_reads strtod codec str v) \<and>
     (result \<notin> {VPS_TYPE_CODEC_OK, VPS_TYPE_CODEC_OUT_OF_MEMORY} \<longrightarrow> (\<forall>v. \<not> codec_reads strtod codec str v))"

context allocator_contract
begin

lemma codec_bytea_effect:
  assumes i: "inv w" and small: "length str < 2 ^ 64"
    and run: "codec_bytea (fresh_decoded A bytes len) str w = (result, d, w')"
  shows "inv w' \<and> owned_ok (dec_owned d) \<and> owned_allocator (dec_owned d) = A \<and> dec_initialized d \<and>
    live w' = live w + owned_blocks (dec_owned d) \<and> codec_outcome strtod VPS_CODEC_BYTEA str result (decoded_value d)"
proof (cases "length str < 2 \<or> str ! 0 \<noteq> CHR 0x5c \<or> str ! 1 \<noteq> CHR ''x'' \<or> odd (length str - 2)")
  case True
  then have "result = VPS_TYPE_CODEC_MALFORMED" "d = fresh_decoded A bytes len" "w' = w"
    using run unfolding codec_bytea_def by simp_all
  moreover have "\<not> bytea_image str b" for b using True bytea_image_shape(1) by blast
  ultimately show ?thesis
    using i by (simp add: fresh_decoded_def zero_decoded_def owned_ok_def owned_blocks_def codec_outcome_def codec_reads_def)
next
  case False
  let ?n = "(length str - 2) div 2"
  let ?o = "\<lparr>owned_allocator = A, owned_memory = None, owned_size = 0, owned_flag = False\<rparr>"
  have fresh: "dec_owned (fresh_decoded A bytes len) = ?o" by (simp add: fresh_decoded_def zero_decoded_def)
  have n: "unat (of_nat ?n :: size_t) = ?n" using small by (intro unat_small_nat) auto
  obtain r o1 w1 where al: "(if ?n \<noteq> 0 then vps_owned_memory_allocate ?o (of_nat ?n) w else (VPS_MEMORY_OK, ?o, w)) = (r, o1, w1)"
    by (metis prod_cases3)
  have ae: "inv w1 \<and> owned_ok o1 \<and> owned_allocator o1 = A \<and> live w1 = live w + owned_blocks o1 \<and>
      (r = VPS_MEMORY_OK \<longrightarrow> (if ?n = 0 then owned_memory o1 = None else \<exists>b. owned_memory o1 = Some b \<and> length b = ?n))"
  proof (cases "?n = 0")
    case True
    then show ?thesis using al i by (auto simp: owned_ok_def owned_blocks_def)
  next
    case False
    then have "vps_owned_memory_allocate ?o (of_nat ?n) w = (r, o1, w1)" using al by simp
    from owned_allocate [OF i _ _ this] False n show ?thesis
      by (auto simp: owned_ok_def owned_blocks_def split: if_splits option.splits)
  qed
  obtain good target where di: "bytea_digits (drop 2 str) 0 (owned_memory o1) = (good, target)" by fastforce
  have run1: "(if r \<noteq> VPS_MEMORY_OK then (VPS_TYPE_CODEC_OUT_OF_MEMORY, (fresh_decoded A bytes len)\<lparr>dec_owned := o1\<rparr>, w1)
      else (if good then VPS_TYPE_CODEC_OK else VPS_TYPE_CODEC_MALFORMED,
            (fresh_decoded A bytes len)\<lparr>dec_owned := o1\<lparr>owned_memory := target\<rparr>, dec_kind := VPS_DECODED_BLOB,
              dec_bytes := target, dec_length := of_nat ?n\<rparr>, w1)) = (result, d, w')"
    by (rule run [unfolded codec_bytea_def if_not_P [OF False] Let_def fresh al prod.case di])
  show ?thesis
  proof (cases "r = VPS_MEMORY_OK")
    case False
    then show ?thesis using run1 ae by (auto simp: fresh_decoded_def codec_outcome_def)
  next
    case True
    have len: "map_option length target = map_option length (owned_memory o1)"
      using bytea_digits_length [of "drop 2 str" 0 "owned_memory o1"] di by simp
    then have own: "owned_ok (o1\<lparr>owned_memory := target\<rparr>)" "owned_blocks (o1\<lparr>owned_memory := target\<rparr>) = owned_blocks o1"
      using ae by (cases target; cases "owned_memory o1"; auto simp: owned_ok_def owned_blocks_def)+
    have digits: "good = (plan_unhex (drop 2 str) \<noteq> None) \<and>
        (\<forall>wire. plan_unhex (drop 2 str) = Some wire \<longrightarrow> take ?n (pointed_bytes target) = wire)"
    proof (cases "?n = 0")
      case True
      then have "drop 2 str = []" using False by auto
      then show ?thesis using di True by auto
    next
      case False2: False
      then obtain b where b: "owned_memory o1 = Some b" "length b = ?n" using ae True by auto
      have "fst (bytea_digits (drop 2 str) 0 (Some b)) = (plan_unhex (drop 2 str) \<noteq> None) \<and>
          (\<forall>wire. plan_unhex (drop 2 str) = Some wire \<longrightarrow> snd (bytea_digits (drop 2 str) 0 (Some b)) = Some (take 0 b @ wire))"
        using False b(2) by (intro bytea_digits_unhex) auto
      moreover have "length wire = ?n" if "plan_unhex (drop 2 str) = Some wire" for wire
        using that bytea_image_unhex [OF False] bytea_image_shape(2) by blast
      ultimately show ?thesis using di b(1) by (auto simp: pointed_bytes_def)
    qed
    have eq: "result = (if good then VPS_TYPE_CODEC_OK else VPS_TYPE_CODEC_MALFORMED)" "w' = w1"
      "dec_owned d = o1\<lparr>owned_memory := target\<rparr>" "dec_initialized d" "dec_kind d = VPS_DECODED_BLOB" "dec_bytes d = target"
      "dec_length d = of_nat ?n"
      using run1 True by (auto simp: fresh_decoded_def)
    have val: "decoded_value d = BlobValue (take ?n (pointed_bytes target))"
      using eq n by (simp add: decoded_value_def)
    have "codec_outcome strtod VPS_CODEC_BYTEA str result (decoded_value d)"
    proof (cases "plan_unhex (drop 2 str)")
      case None
      then show ?thesis using digits eq(1) bytea_image_unhex [OF False] by (simp add: codec_outcome_def codec_reads_def)
    next
      case (Some wire)
      then have "decoded_value d = BlobValue wire" using digits val by simp
      then show ?thesis using Some digits eq(1) bytea_image_unhex [OF False] by (simp add: codec_outcome_def codec_reads_def)
    qed
    with eq ae own show ?thesis by simp
  qed
qed

lemma codec_switch_effect:
  fixes strtod :: "string \<Rightarrow> 'd \<times> nat \<times> bool"
  assumes i: "inv w" and small: "length str < 2 ^ 64" and len: "unat len = length str"
    and bytes: "pointed_bytes bytes = ascii str"
    and run: "codec_switch strtod codec (fresh_decoded A bytes len) str w = (result, d, w')"
  shows "inv w' \<and> owned_ok (dec_owned d) \<and> owned_allocator (dec_owned d) = A \<and> dec_initialized d \<and>
    live w' = live w + owned_blocks (dec_owned d) \<and> codec_outcome strtod codec str result (decoded_value d)"
proof (cases "codec = VPS_CODEC_BYTEA")
  case True
  then have "codec_bytea (fresh_decoded A bytes len) str w = (result, d, w')" using run by (simp add: codec_switch_def)
  from codec_bytea_effect [OF i small this] True show ?thesis by simp
next
  case False
  have plain: "dec_owned d = dec_owned (fresh_decoded A bytes len :: ('w, 'd) VpsDecodedValue) \<and> w' = w \<and> dec_initialized d"
    using run False by (auto simp: codec_switch_def fresh_decoded_def split: if_splits prod.splits)
  have taken: "take (unat len) (ascii str) = ascii str" using len by simp
  have "codec_outcome strtod codec str result (decoded_value d)"
  proof (cases codec)
    case VPS_CODEC_INTEGER
    obtain number where p: "vps_parse_integer str = (result, number)"
      and d: "d = (fresh_decoded A bytes len)\<lparr>dec_kind := VPS_DECODED_INTEGER,
        dec_integer := (case number of None \<Rightarrow> dec_integer (fresh_decoded A bytes len :: ('w, 'd) VpsDecodedValue) | Some n \<Rightarrow> n)\<rparr>"
      using run VPS_CODEC_INTEGER by (auto simp: codec_switch_def split: prod.splits)
    have some: "(result = VPS_TYPE_CODEC_OK) = (number \<noteq> None)"
      using p by (auto simp: vps_parse_integer_def split: if_splits prod.splits)
    show ?thesis
    proof (cases number)
      case None
      then have "\<not> (length str < 64 \<and> integer_image str (sint n))" for n :: "64 word"
        using p None parse_integer_exact [of str n] by (metis option.distinct(1) prod.inject)
      with None some VPS_CODEC_INTEGER show ?thesis by (auto simp: codec_outcome_def codec_reads_def)
    next
      case (Some n)
      then have "length str < 64 \<and> integer_image str (sint n)" using p some parse_integer_exact [of str n] by simp
      with Some some VPS_CODEC_INTEGER d show ?thesis by (auto simp: codec_outcome_def codec_reads_def decoded_value_def)
    qed
  next
    case VPS_CODEC_FLOAT
    then show ?thesis
      using run bytes taken
      by (auto simp: codec_switch_def codec_outcome_def codec_reads_def decoded_value_def fresh_decoded_def vps_float_special_def
          vps_parse_real_def split: if_splits prod.splits)
  next
    case VPS_CODEC_BOOLEAN
    have "length str = 1 \<and> (str ! 0 = CHR ''t'' \<or> str ! 0 = CHR ''f'') \<longleftrightarrow> str = ''t'' \<or> str = ''f''"
      by (cases str) auto
    then show ?thesis
      using run VPS_CODEC_BOOLEAN
      by (auto simp: codec_switch_def codec_outcome_def codec_reads_def decoded_value_def fresh_decoded_def split: if_splits)
  qed (use run bytes taken False in \<open>auto simp: codec_switch_def codec_outcome_def codec_reads_def decoded_value_def
      fresh_decoded_def split: if_splits\<close>)
  with plain i show ?thesis by (simp add: fresh_decoded_def zero_decoded_def owned_ok_def owned_blocks_def)
qed

lemma decoded_reset_effect:
  assumes "inv w" "owned_ok (dec_owned d)" "owned_allocator (dec_owned d) = A" "dec_initialized d"
    and "vps_decoded_value_reset d w = (d', w')"
  shows "inv w' \<and> d' = zero_decoded A \<and> live w' = live w - owned_blocks (dec_owned d)"
  using assms owned_release [OF assms(1,3,2)]
  by (auto simp: vps_decoded_value_reset_def split: prod.splits)

lemma codec_decode_effect:
  assumes i: "inv w" and c: "\<not> column_is_null column" "column_data column = Some str" "unat (column_length column) = length str"
      "length str \<le> 16777216"
    and run: "vps_type_codec_decode strtod (Some A) codec (Some column) w = (result, out, w')"
  shows "\<exists>d. out = Some d \<and> inv w' \<and> owned_ok (dec_owned d) \<and> owned_allocator (dec_owned d) = A \<and>
    live w' = live w + owned_blocks (dec_owned d) \<and> codec_outcome strtod codec str result (decoded_value d) \<and>
    (result \<noteq> VPS_TYPE_CODEC_OK \<longrightarrow> d = zero_decoded A)"
proof -
  let ?fresh = "fresh_decoded A (Some (ascii str)) (column_length column)"
  obtain r d1 w1 where sw: "codec_switch strtod codec ?fresh str w = (r, d1, w1)" by (metis prod_cases3)
  obtain d2 w2 where re: "vps_decoded_value_reset d1 w1 = (d2, w2)" by fastforce
  have limit: "\<not> column_length column > VPS_TYPE_CODEC_MAX_COLUMN_BYTES" using c(3,4) by (simp add: not_less word_le_nat_alt)
  have run1: "(if r \<noteq> VPS_TYPE_CODEC_OK then (r, Some d2, w2) else (VPS_TYPE_CODEC_OK, Some d1, w1)) = (result, out, w')"
    using run c limit valid sw re
    by (cases "r = VPS_TYPE_CODEC_OK") (simp_all add: vps_type_codec_decode_def Let_def fresh_decoded_def)
  have small: "length str < 2 ^ 64" using c(4) by simp
  note se = codec_switch_effect [OF i small c(3) _ sw]
  show ?thesis
  proof (cases "r = VPS_TYPE_CODEC_OK")
    case True
    then show ?thesis using run1 se by (auto simp: pointed_bytes_def)
  next
    case False
    have s: "inv w1" "owned_ok (dec_owned d1)" "owned_allocator (dec_owned d1) = A" "dec_initialized d1"
      "live w1 = live w + owned_blocks (dec_owned d1)" "codec_outcome strtod codec str r (decoded_value d1)"
      using se by (simp_all add: pointed_bytes_def)
    from decoded_reset_effect [OF s(1-4) re] s(5,6) run1 False show ?thesis
      by (auto simp: zero_decoded_def owned_ok_def owned_blocks_def codec_outcome_def)
  qed
qed

end

section \<open>The registry\<close>

text \<open>Only the built-in types of the server are compared by the server: a column may be pushed down exactly when its
  type, or the base type of its domain, is one of these names of \<open>pg_catalog\<close>. A type of the same name in another
  schema is read as text and no more.\<close>

lemma capabilities_pushdown:
  assumes "snd (type_select_codec columns column is_domain namespace_name type_name type_kind) AND VPS_CODEC_CAP_PUSHDOWN_EXACT \<noteq> 0"
  shows "vps_column_set_string columns namespace_name = (VPS_METADATA_OK, Some (ascii ''pg_catalog'')) \<and>
    (\<exists>name\<in>{''bool'', ''bytea'', ''uuid''} \<union> set integer_names. vps_column_set_string columns type_name = (VPS_METADATA_OK, Some (ascii name)))"
  using assms
  by (auto simp: type_select_codec_def Let_def vps_type_is_pg_catalog_def vps_type_name_equals_def vps_type_is_any_def
      list_ex_iff split: if_splits)

lemma other_schema_read_only:
  assumes "vps_column_set_string columns namespace_name \<noteq> (VPS_METADATA_OK, Some (ascii ''pg_catalog''))"
    and "type_kind \<notin> {CHR ''e'', CHR ''r'', CHR ''m'', CHR ''c''}" and "col_type_category column \<noteq> CHR ''A'' \<or> is_domain"
  shows "type_select_codec columns column is_domain namespace_name type_name type_kind = (VPS_CODEC_USER_TEXT, VPS_CODEC_CAP_READ)"
  using assms by (auto simp: type_select_codec_def Let_def vps_type_is_pg_catalog_def vps_type_name_equals_def)

section \<open>The decoder is exact\<close>

text \<open>C39. The decoder of values is exact. For every codec and every text that a column holds, success gives the value
  that the text means to the codec - the integer it spells, the bytes of its hexadecimal digits, the text itself - and
  a text that means nothing to the codec fails; a text that has a meaning fails only when the memory for its bytes is
  refused. After a failure nothing is owned, and the memory in use is otherwise that of the value.\<close>

theorem codec_decode_exact:
  assumes "\<not> column_is_null column" "column_data column = Some str" "unat (column_length column) = length str"
      "length str \<le> 16777216"
    and "vps_type_codec_decode strtod (Some system_allocator) codec (Some column) w = (result, Some d, w')"
  shows "(result = VPS_TYPE_CODEC_OK \<longrightarrow> codec_reads strtod codec str (decoded_value d)) \<and>
    (result \<noteq> VPS_TYPE_CODEC_OK \<longrightarrow> d = zero_decoded system_allocator \<and>
       (result = VPS_TYPE_CODEC_OUT_OF_MEMORY \<or> (\<forall>v. \<not> codec_reads strtod codec str v))) \<and>
    heap_live w' = heap_live w + owned_blocks (dec_owned d)"
  using system.codec_decode_effect [OF TrueI assms] by (auto simp: codec_outcome_def)

definition example_bytea :: VpsClientColumnView where
  "example_bytea = \<lparr>column_data = Some (CHR 0x5c # ''x0aFf''), column_length = 6, column_type_oid = 17,
     column_format = VPS_CLIENT_VALUE_TEXT, column_is_null = False\<rparr>"

theorem codec_decode_exact_witness:
  "\<exists>d w'. vps_type_codec_decode (\<lambda>s. ((), 0, False)) (Some system_allocator) VPS_CODEC_BYTEA (Some example_bytea) witness_heap =
       (VPS_TYPE_CODEC_OK, Some d, w') \<and> decoded_value d = BlobValue [10, 255]"
proof -
  let ?str = "CHR 0x5c # ''x0aFf''"
  let ?run = "vps_type_codec_decode (\<lambda>s. ((), 0, False)) (Some system_allocator) VPS_CODEC_BYTEA (Some example_bytea) witness_heap"
  have c: "\<not> column_is_null example_bytea" "column_data example_bytea = Some ?str" "unat (column_length example_bytea) = length ?str"
    "length ?str \<le> 16777216" by (simp_all add: example_bytea_def)
  have ok: "fst ?run = VPS_TYPE_CODEC_OK" "fst (snd ?run) \<noteq> None" by code_simp+
  then obtain d w' where run: "?run = (VPS_TYPE_CODEC_OK, Some d, w')" by (metis prod.collapse option.exhaust)
  from codec_decode_exact [OF c run] obtain bytes where b: "bytea_image ?str bytes" "decoded_value d = BlobValue bytes"
    by (auto simp: codec_reads_def)
  have "plan_unhex ''0aFf'' = Some [10, 255]" by code_simp
  then have "bytes = [10, 255]"
    using b(1) bytea_image_unhex [OF bytea_image_shape(1) [OF b(1)], of bytes] by simp
  with run b(2) show ?thesis by blast
qed

end
