(* ===== verification/Spec2Isabelle.thy ===== *)
theory Spec2Isabelle
  imports Vps_Cursor Vps_Cancel Vps_Retry Vps_Transaction Vps_Pool_Threads Vps_Plan_Wire Vps_Query_Source Vps_Query_Boundary Vps_Row_Identity Vps_Connection_String Vps_Tls_Policy Vps_Types
begin

text \<open>
  VirtualPostgreSQL is an SQLite extension in C that shows PostgreSQL tables and queries as virtual tables. This
  development models the components under \<open>src/src/\<close> that decide what reaches the server, in which order and
  for how long, and proves what they promise.

  \<^bold>\<open>How the program is put together.\<close> SQLite calls the module (\<open>vps_module.c\<close>). For \<open>xBestIndex\<close> it asks the
  planner for a plan and stores the plan as text in \<open>idxStr\<close>; \<open>xFilter\<close> decodes it, takes a connection from the
  pool, opens a transaction or a query boundary and runs the statement through the client; \<open>xNext\<close> reads rows,
  waits on the socket within a deadline, asks the cancellation registry whether to stop, and counts the rows
  against the budget of the cursor. Errors are copied into an error object, and the retry policy decides what
  may be repeated. Every component logs through the structured logger and takes memory from an allocator table.

  \<^bold>\<open>The theories.\<close>
  \<^item> \<open>Vps_Prelude\<close>: words for the C integers, C strings and \<open>ctype.h\<close>, generic lemmas, and the two interfaces
    \<open>guarded_machine\<close> (operations that keep an invariant keep it over every sequence of calls) and \<open>row_meter\<close>
    (a counter of rows and bytes against limits). The components interpret both with their own operations.
  \<^item> \<open>Vps_Memory\<close> (\<open>vps_memory.c\<close>): allocator tables, checked sizes, owned memory, buffers, fault injection. The
    interface \<open>allocator_contract\<close> states what a table promises; it is interpreted for the system allocator and for
    the fault allocator over it, and the lemmas on buffers and owners are proved once inside it.
  \<^item> \<open>Vps_Bytes\<close>: numbers in byte strings and chains of appends, shared by the encoders.
  \<^item> \<open>Vps_Logging\<close> (\<open>vps_logging.c\<close>): events of whitelisted fields, redaction, the emitter. The logging helper that
    each C file defines for itself is a list of fields for \<open>log_emit_strict\<close> (it returns at the first refusal) or
    \<open>log_emit_each\<close> (it ignores refusals).
  \<^item> \<open>Vps_Platform\<close> (\<open>vps_platform.c\<close>, \<open>vps_posix.c\<close>, \<open>vps_android.c\<close>): the table of operating-system operations.
  \<^item> \<open>Vps_Deadline\<close> (\<open>vps_deadline.c\<close>): deadlines and the bounded socket wait, a total function by the measure
    \<open>wait_rank\<close>: a pass counts a spurious wake-up, of which there are at most 64, or the clock has moved.
  \<^item> \<open>Vps_Cancel\<close> (\<open>vps_cancel.c\<close>): the registry as a linked list in a store of tokens. Its walks may not end on a
    cyclic list, so they are \<open>partial_function (option)\<close>, and a theorem shows that they do end.
  \<^item> \<open>Vps_Error\<close> (\<open>vps_error.c\<close>), \<open>Vps_Retry\<close> (\<open>vps_retry.c\<close>), \<open>Vps_Cursor\<close> (\<open>vps_cursor.c\<close>).
  \<^item> \<open>Vps_Transaction\<close> (\<open>vps_transaction.c\<close>): the coordinator and the abstract specification it refines.
  \<^item> \<open>Vps_Connection_Pool\<close> (\<open>vps_connection_pool.c\<close>) and \<open>Vps_Pool_Threads\<close>: the operations under the mutex, and
    the interleavings of any number of threads as an inductive step relation.
  \<^item> \<open>Vps_Planner\<close> and \<open>Vps_Plan_Wire\<close> (\<open>vps_planner.c\<close>): the compiler of plans and their text form.
  \<^item> \<open>Vps_Query_Source\<close> (\<open>vps_query_source.c\<close>): the scanner that admits read-only queries.
  \<^item> \<open>Vps_Query_Boundary\<close> (\<open>vps_query_boundary.c\<close>): the read-only transaction around a query.
  \<^item> \<open>Vps_Row_Identity\<close> (\<open>vps_row_identity.c\<close>): the text form of a row's key, its encoder and its decoder.
  \<^item> \<open>Vps_Secure_Memory\<close> (\<open>vps_secure_memory.c\<close>): blocks that are overwritten before they are freed. The heap
    records the contents of freed blocks; the interface \<open>recording_allocator\<close> says so of an allocator table and is
    interpreted for the system allocator and the fault allocator.
  \<^item> \<open>Vps_Utf8\<close>: the definition of well-formed UTF-8 text and the validators that the C files share.
  \<^item> \<open>Vps_Arguments\<close> (\<open>vps_arguments.c\<close>): the arguments of \<open>CREATE VIRTUAL TABLE\<close>. The specification is
    \<open>read_arguments\<close> (what the list of options says), \<open>combination_ok\<close> and \<open>arguments_meaning\<close>.
  \<^item> \<open>Vps_Credential\<close> (\<open>vps_credential_provider.c\<close>, \<open>vps_abi.c\<close>): the registry of the credential provider and the
    resolution of a credential through a lease that the provider hands out and takes back.
  \<^item> \<open>Vps_Connection_String\<close> (\<open>vps_connection_string.c\<close>): named profiles, inline connection strings and credential
    references, resolved into an owned configuration. The parser of libpq is a parameter.
  \<^item> \<open>Vps_Tls_Policy\<close> (\<open>vps_tls_policy.c\<close>): the check of a configuration and of the negotiated session.
  \<^item> \<open>Vps_Metadata\<close> and \<open>Vps_Columns\<close> (\<open>vps_metadata.c\<close>): results of the catalogue queries copied out of the client
    into row sets, the parsers of their scalars, the relation and the column set built from them. The client is an
    arbitrary reader of cells.
  \<^item> \<open>Vps_Types\<close> (\<open>vps_type_registry.c\<close>, \<open>vps_type_codec.c\<close>): the codec of a column and the decoding of its values;
    \<open>codec_reads\<close> says what a text means to a codec.
  \<^item> \<open>Vps_Sql_Text\<close>: quoted names and the pieces a statement is written from.

  \<^bold>\<open>How C is read.\<close> Integers of fixed width are words; counters that the code bounds by small limits are natural
  numbers where a theory says so. A null pointer is \<open>None\<close>; a block of memory is the list of its bytes, with one
  owner. Callbacks (sinks, platforms, executors, connection callbacks, interrupt probes) are arbitrary functions
  on a state of their own, so every theorem holds for all of them. An enumeration that arrives from outside has a
  constructor for values outside its range. Each \<open>return\<close> of a C function is a branch of its model.

  \<^bold>\<open>What the lemmas show.\<close> Every component has an invariant that its operations keep. On top of that: leases are
  exclusive, counted, served in order and dead after release; transactions refine an abstract machine and are
  never ambiguous without saying so; waits end; a cancellation reaches exactly the registered cursors; log events
  carry no sensitive words; plans omit only what the server checks, and survive their text form; an accepted query
  is one read-only statement according to its lexemes; a boundary never leaves a transaction open; a row's key survives its text form and
  the decoder accepts nothing else; a sensitive block holds only zeros when it is freed; the argument parser
  accepts exactly the lists that its specification reads, with their meaning; a credential is copied exactly, its
  lease is returned once, and every temporary copy is wiped; a connection is resolved completely or the output stays
  as it was, with every temporary secret wiped; a policy that demands TLS
  admits no weaker session; the copy of a catalogue result and the column set built from it show exactly the cells
  of the input; and a value is decoded to what its text means, or refused.

  \<^bold>\<open>Not modelled.\<close> The module itself and the embedded SQLite database are sequences of calls of the SQLite library;
  the libpq client calls libpq; the Windows files call the Windows API. The texts of the catalogue queries, keys and
  policies of relations, identities, sessions, spatial values, the builder of DML statements, the caches and fingerprints of queries, and the
  dispatch of the client interface are not modelled. Raw SQL in log
  events exists only in debug builds and is left out. Names of results are modelled where they reach a log event.
\<close>

end
